(* ===== verification/Prelude.thy ===== *)
theory Prelude
  imports Complex_Main "HOL-Library.AList" "HOL-Library.Char_ord"
    "HOL-Library.List_Lexorder" "HOL-Library.Product_Lexorder"
begin

text \<open>
  Shared vocabulary of the development: the exceptions the modelled code raises, Python's
  dictionaries, the few string methods the code calls, and the generic lemmas on them.

  Conventions used by every theory:
  \<^item> a Python \<open>dict\<close> is an association list in insertion order; \<open>d[k] = v\<close> is
    \<open>AList.update\<close> (in place, or appended), \<open>d.pop(k, None)\<close> is \<open>AList.delete\<close>, \<open>d.get(k)\<close>
    is \<open>map_of\<close>;
  \<^item> a Python \<open>float\<close> (clock readings, TTLs) is a \<open>real\<close>: rounding and NaN are not modelled;
  \<^item> a Python \<open>str\<close> is a \<open>string\<close>, whose characters are the code points below 256;
  \<^item> the clock and \<open>uuid4\<close> are arguments of the operation that reads them;
  \<^item> an operation that may raise returns \<open>py_error + 'a\<close>, with \<open>Inl\<close> the exception.
\<close>

section \<open>Exceptions\<close>

datatype py_error =
    ValueError string
  | KeyError string
  | PermissionError string
  | RuntimeError string
  | DeadlockDetected string
  | DAGValidationError string
  | RunConflictError string
  | UnsupportedStrategyError string
  | ConcurrentTurnError string
  | ThreadTurnLeaseLost string
  | CircuitBreakerOpenError string
  | LoopDetectedError string
  | TypeError string
  | RevisionConstructionError string
  | UnknownRevisionTaskError string
  | InvalidTaskStateTransitionError string
  | AgentTeamDAGValidationError string

definition bind_ok :: "'e + 'a \<Rightarrow> ('a \<Rightarrow> 'e + 'b) \<Rightarrow> 'e + 'b" where
  "bind_ok r f = (case r of Inl e \<Rightarrow> Inl e | Inr x \<Rightarrow> f x)"

lemma bind_ok_simps [simp]:
  "bind_ok (Inl e) f = Inl e"
  "bind_ok (Inr x) f = f x"
  by (simp_all add: bind_ok_def)

lemma bind_ok_Inr_iff: "bind_ok r f = Inr y \<longleftrightarrow> (\<exists>x. r = Inr x \<and> f x = Inr y)"
  by (cases r) auto

lemma bind_ok_Inl_iff: "bind_ok r f = Inl e \<longleftrightarrow> r = Inl e \<or> (\<exists>x. r = Inr x \<and> f x = Inl e)"
  by (cases r) auto

definition is_ok :: "'e + 'a \<Rightarrow> bool" where
  "is_ok r = (case r of Inl e \<Rightarrow> False | Inr x \<Rightarrow> True)"

lemma is_ok_simps [simp]: "\<not> is_ok (Inl e)" "is_ok (Inr x)"
  by (simp_all add: is_ok_def)

section \<open>Dictionaries\<close>

type_synonym ('k, 'v) dict = "('k \<times> 'v) list"

abbreviation keys :: "('k, 'v) dict \<Rightarrow> 'k list" where
  "keys d \<equiv> map fst d"

abbreviation vals :: "('k, 'v) dict \<Rightarrow> 'v list" where
  "vals d \<equiv> map snd d"

abbreviation wf_dict :: "('k, 'v) dict \<Rightarrow> bool" where
  "wf_dict d \<equiv> distinct (map fst d)"

definition get_or :: "('k, 'v) dict \<Rightarrow> 'k \<Rightarrow> 'v \<Rightarrow> 'v" where
  "get_or d k z = (case map_of d k of None \<Rightarrow> z | Some v \<Rightarrow> v)"

lemma get_or_update [simp]:
  "get_or (AList.update k v d) k' z = (if k' = k then v else get_or d k' z)"
  by (simp add: get_or_def update_conv')

lemma get_or_Nil [simp]: "get_or [] k z = z"
  by (simp add: get_or_def)

lemma map_of_update [simp]:
  "map_of (AList.update k v d) k' = (if k' = k then Some v else map_of d k')"
  by (simp add: update_conv')

lemma map_of_delete [simp]:
  "map_of (AList.delete k d) k' = (if k' = k then None else map_of d k')"
  by (simp add: delete_conv')

lemma wf_dict_update [simp, intro]: "wf_dict d \<Longrightarrow> wf_dict (AList.update k v d)"
  by (rule distinct_update)

lemma wf_dict_delete [simp, intro]: "wf_dict d \<Longrightarrow> wf_dict (AList.delete k d)"
  by (rule distinct_delete)

lemma wf_dict_filter [simp, intro]: "wf_dict d \<Longrightarrow> wf_dict (filter P d)"
  by (rule distinct_map_filter)

text \<open>On a dictionary, membership of a pair and lookup agree.\<close>

lemma dict_mem_iff: "wf_dict d \<Longrightarrow> (k, v) \<in> set d \<longleftrightarrow> map_of d k = Some v"
  by (auto dest: map_of_SomeD)

lemma set_update_dict:
  assumes "wf_dict d"
  shows "set (AList.update k v d) = insert (k, v) {p \<in> set d. fst p \<noteq> k}"
proof -
  have "(a, b) \<in> set (AList.update k v d) \<longleftrightarrow> (a, b) \<in> insert (k, v) {p \<in> set d. fst p \<noteq> k}" for a b
  proof -
    have "(a, b) \<in> set (AList.update k v d) \<longleftrightarrow> map_of (AList.update k v d) a = Some b"
      using dict_mem_iff [OF wf_dict_update [OF assms], of a b] .
    also have "\<dots> \<longleftrightarrow> (a, b) \<in> insert (k, v) {p \<in> set d. fst p \<noteq> k}"
      using dict_mem_iff [OF assms, of a b] by auto
    finally show ?thesis .
  qed
  then show ?thesis by auto
qed

lemma set_delete_dict: "set (AList.delete k d) = {p \<in> set d. fst p \<noteq> k}"
  by (auto simp: AList.delete_eq)

lemma update_new: "k \<notin> set (keys d) \<Longrightarrow> AList.update k v d = d @ [(k, v)]"
  by (induction d) auto

lemma map_of_filter_dict:
  assumes "wf_dict d"
  shows "map_of (filter (\<lambda>(k, v). P k v) d) k =
    (case map_of d k of None \<Rightarrow> None | Some v \<Rightarrow> if P k v then Some v else None)"
  using assms
proof (induction d)
  case Nil
  then show ?case by simp
next
  case (Cons p d)
  obtain a b where p: "p = (a, b)" by (cases p)
  with Cons.prems have "a \<notin> fst ` set d" by simp
  then have "map_of d a = None" by (simp add: map_of_eq_None_iff)
  with Cons p show ?case by auto
qed

lemma fold_delete: "fold AList.delete ks d = filter (\<lambda>p. fst p \<notin> set ks) d"
proof (induction ks arbitrary: d)
  case Nil
  then show ?case by simp
next
  case (Cons k ks)
  then show ?case by (auto simp: AList.delete_eq intro!: filter_cong)
qed

text \<open>Deleting the keys of the selected records keeps exactly the others.\<close>

lemma delete_selected:
  assumes "wf_dict d"
  shows "fold AList.delete (map fst (filter (\<lambda>(k, r). P r) d)) d = filter (\<lambda>(k, r). \<not> P r) d"
proof -
  have "fst p \<in> set (map fst (filter (\<lambda>(k, r). P r) d)) \<longleftrightarrow> P (snd p)" if p: "p \<in> set d" for p
  proof
    assume "fst p \<in> set (map fst (filter (\<lambda>(k, r). P r) d))"
    then obtain r where r: "(fst p, r) \<in> set d" "P r" by auto
    have "r = snd p" by (rule eq_key_imp_eq_value [OF assms r(1)]) (simp add: p)
    with r(2) show "P (snd p)" by simp
  next
    assume "P (snd p)"
    then have "p \<in> set (filter (\<lambda>(k, r). P r) d)" using p by (cases p) simp
    then show "fst p \<in> set (map fst (filter (\<lambda>(k, r). P r) d))" by simp
  qed
  then show ?thesis unfolding fold_delete by (intro filter_cong refl) (simp add: split_beta)
qed

lemma mem_vals: "v \<in> snd ` set d \<longleftrightarrow> (\<exists>k. (k, v) \<in> set d)"
  by force

lemma map_of_None_keys: "map_of d k = None \<longleftrightarrow> k \<notin> set (keys d)"
  by (simp add: map_of_eq_None_iff)

lemma keys_update: "set (keys (AList.update k v d)) = insert k (set (keys d))"
  by (induction d) auto

lemma map_of_map_vals:
  "map_of (map (\<lambda>(k, v). (k, f k v)) d) k = map_option (f k) (map_of d k)"
  by (induction d) auto

lemma keys_map_vals [simp]: "map fst (map (\<lambda>(k, v). (k, f k v)) d) = map fst d"
  by (induction d) auto

text \<open>\<open>d.update(e)\<close>\<close>

definition update_dict :: "('k, 'v) dict \<Rightarrow> ('k, 'v) dict \<Rightarrow> ('k, 'v) dict" where
  "update_dict d e = foldl (\<lambda>d (k, v). AList.update k v d) d e"

lemma map_of_update_dict: "map_of (update_dict d e) k = (case map_of (rev e) k of None \<Rightarrow> map_of d k | Some v \<Rightarrow> Some v)"
proof (induction e rule: rev_induct)
  case Nil
  then show ?case by (simp add: update_dict_def)
next
  case (snoc x e)
  have "update_dict d (e @ [x]) = AList.update (fst x) (snd x) (update_dict d e)" by (simp add: update_dict_def split_beta)
  then show ?case using snoc by (cases x) simp
qed

text \<open>\<open>list(dict.fromkeys(xs))\<close>: the first occurrences, in order.\<close>

definition from_keys :: "'a list \<Rightarrow> 'a list" where
  "from_keys xs = foldl (\<lambda>acc x. if x \<in> set acc then acc else acc @ [x]) [] xs"

lemma from_keys_acc:
  "set (foldl (\<lambda>acc x. if x \<in> set acc then acc else acc @ [x]) acc xs) = set acc \<union> set xs"
  "distinct acc \<Longrightarrow> distinct (foldl (\<lambda>acc x. if x \<in> set acc then acc else acc @ [x]) acc xs)"
  by (induction xs arbitrary: acc) auto

lemma set_from_keys [simp]: "set (from_keys xs) = set xs"
  and distinct_from_keys [simp]: "distinct (from_keys xs)"
  by (simp_all add: from_keys_def from_keys_acc)

text \<open>\<open>sep.join(xs)\<close>\<close>

fun join_with :: "string \<Rightarrow> string list \<Rightarrow> string" where
  "join_with sep [] = []"
| "join_with sep [s] = s"
| "join_with sep (s # t # ts) = s @ sep @ join_with sep (t # ts)"

section \<open>Values\<close>

text \<open>A Python value of type \<open>Any\<close>, and its truth value.\<close>

datatype pyval =
    PNone
  | PBool bool
  | PInt int
  | PFloat real
  | PStr string
  | PList "pyval list"
  | PDict "(string \<times> pyval) list"

fun truthy :: "pyval \<Rightarrow> bool" where
  "truthy PNone = False"
| "truthy (PBool b) = b"
| "truthy (PInt n) = (n \<noteq> 0)"
| "truthy (PFloat x) = (x \<noteq> 0)"
| "truthy (PStr s) = (s \<noteq> [])"
| "truthy (PList vs) = (vs \<noteq> [])"
| "truthy (PDict d) = (d \<noteq> [])"

text \<open>\<open>str(v)\<close>: a string is itself, the text of other values is the argument \<open>str_of\<close>.\<close>

definition py_str :: "(pyval \<Rightarrow> string) \<Rightarrow> pyval \<Rightarrow> string" where
  "py_str str_of v = (case v of PStr s \<Rightarrow> s | _ \<Rightarrow> str_of v)"

lemma py_str_PStr [simp]: "py_str str_of (PStr s) = s"
  by (simp add: py_str_def)

section \<open>Strings\<close>

text \<open>
  The characters Python's \<open>str.strip\<close> and \<open>str.split\<close> treat as white space, and
  \<open>str.lower\<close>, on the code points below 256.
\<close>

definition py_space :: "char \<Rightarrow> bool" where
  "py_space c = (let n = (of_char c :: nat) in
     (9 \<le> n \<and> n \<le> 13) \<or> (28 \<le> n \<and> n \<le> 32) \<or> n = 133 \<or> n = 160)"

definition lower_char :: "char \<Rightarrow> char" where
  "lower_char c = (let n = (of_char c :: nat) in
     if (65 \<le> n \<and> n \<le> 90) \<or> (192 \<le> n \<and> n \<le> 222 \<and> n \<noteq> 215) then char_of (n + 32) else c)"

definition py_lower :: "string \<Rightarrow> string" where
  "py_lower s = map lower_char s"

definition strip_by :: "('a \<Rightarrow> bool) \<Rightarrow> 'a list \<Rightarrow> 'a list" where
  "strip_by P s = rev (dropWhile P (rev (dropWhile P s)))"

definition py_strip :: "string \<Rightarrow> string" where
  "py_strip s = strip_by py_space s"

text \<open>Runs of white space become one space; \<open>" ".join(s.split())\<close> strips the result.\<close>

fun collapse_spaces :: "string \<Rightarrow> string" where
  "collapse_spaces [] = []"
| "collapse_spaces (c # cs) =
    (if py_space c then (case collapse_spaces cs of
        [] \<Rightarrow> [CHR '' '']
      | d # ds \<Rightarrow> if d = CHR '' '' then d # ds else CHR '' '' # d # ds)
     else c # collapse_spaces cs)"

definition py_words :: "string \<Rightarrow> string" where
  "py_words s = py_strip (collapse_spaces s)"

lemma strip_by_idem: "strip_by P (strip_by P s) = strip_by P s"
proof -
  let ?u = "rev (dropWhile P (rev (dropWhile P s)))"
  have "dropWhile P ?u = ?u"
  proof (cases ?u)
    case Nil
    show ?thesis by (simp only: Nil dropWhile.simps)
  next
    case (Cons a as)
    have "dropWhile P s = ?u @ rev (takeWhile P (rev (dropWhile P s)))"
      by (metis rev_append rev_rev_ident takeWhile_dropWhile_id)
    then obtain zs where zs: "dropWhile P s = a # as @ zs" using Cons by auto
    then have "\<not> P (hd (dropWhile P s))" by (intro hd_dropWhile [of P s]) simp
    with zs have "\<not> P a" by simp
    then show ?thesis by (simp only: Cons dropWhile.simps if_False)
  qed
  then show ?thesis by (simp add: strip_by_def dropWhile_idem)
qed

lemma py_strip_idem [simp]: "py_strip (py_strip s) = py_strip s"
  by (simp add: py_strip_def strip_by_idem)

lemma length_py_strip: "length (py_strip s) \<le> length s"
  unfolding py_strip_def strip_by_def length_rev by (metis length_dropWhile_le length_rev order_trans)

fun has_infix :: "'a list \<Rightarrow> 'a list \<Rightarrow> bool" where
  "has_infix p [] = (p = [])"
| "has_infix p (x # xs) = (take (length p) (x # xs) = p \<or> has_infix p xs)"

lemma has_infix_iff: "has_infix p s \<longleftrightarrow> (\<exists>a b. s = a @ p @ b)"
proof (induction s)
  case Nil
  then show ?case by simp
next
  case (Cons x xs)
  have "take (length p) (x # xs) = p \<longleftrightarrow> (\<exists>b. x # xs = p @ b)"
    by (metis append_eq_conv_conj append_take_drop_id)
  then have "has_infix p (x # xs) \<longleftrightarrow> (\<exists>b. x # xs = p @ b) \<or> (\<exists>a b. xs = a @ p @ b)"
    using Cons by simp
  also have "\<dots> \<longleftrightarrow> (\<exists>a b. x # xs = a @ p @ b)"
    by (metis append_Cons append_Nil list.sel(3) neq_Nil_conv)
  finally show ?case .
qed

section \<open>Sorting and slices\<close>

text \<open>\<open>sort(key=..., reverse=True)\<close> keeps the order of equal elements.\<close>

definition sort_key_reverse :: "('a \<Rightarrow> 'k::linorder) \<Rightarrow> 'a list \<Rightarrow> 'a list" where
  "sort_key_reverse k xs = rev (sort_key k (rev xs))"

lemma sort_key_reverse_sorted: "sorted_wrt (\<lambda>a b. k b \<le> k a) (sort_key_reverse k xs)"
proof -
  have "sorted_wrt (\<lambda>a b. k a \<le> k b) (sort_key k (rev xs))"
    using sorted_sort_key [of k "rev xs"] by (simp add: sorted_map)
  then show ?thesis by (simp add: sort_key_reverse_def sorted_wrt_rev)
qed

lemma set_sort_key_reverse [simp]: "set (sort_key_reverse k xs) = set xs"
  by (simp add: sort_key_reverse_def)

lemma length_sort_key_reverse [simp]: "length (sort_key_reverse k xs) = length xs"
  by (simp add: sort_key_reverse_def)

text \<open>\<open>xs[a:b]\<close>: a negative index counts from the end, and both are clamped.\<close>

definition slice_index :: "nat \<Rightarrow> int \<Rightarrow> nat" where
  "slice_index n i = nat (if i < 0 then max 0 (i + int n) else min i (int n))"

definition py_slice :: "int \<Rightarrow> int \<Rightarrow> 'a list \<Rightarrow> 'a list" where
  "py_slice a b xs = (let i = slice_index (length xs) a; j = slice_index (length xs) b
     in take (j - i) (drop i xs))"

lemma py_slice_nonneg:
  assumes "0 \<le> a" "0 \<le> k"
  shows "py_slice a (a + k) xs = take (nat k) (drop (nat a) xs)"
proof (cases "nat a \<le> length xs")
  case True
  then have i: "slice_index (length xs) a = nat a" using assms by (simp add: slice_index_def min_def) linarith
  show ?thesis
  proof (cases "a + k \<le> int (length xs)")
    case True
    then have "slice_index (length xs) (a + k) = nat a + nat k"
      using assms by (simp add: slice_index_def min_def nat_add_distrib)
    then show ?thesis using i by (simp add: py_slice_def)
  next
    case False
    then have "slice_index (length xs) (a + k) = length xs" using assms by (simp add: slice_index_def min_def)
    moreover have "take (length xs - nat a) (drop (nat a) xs) = drop (nat a) xs" by simp
    moreover have "length xs - nat a \<le> nat k" using False assms by (cases a; cases k) auto
    then have "take (nat k) (drop (nat a) xs) = drop (nat a) xs" by simp
    ultimately show ?thesis using i by (simp add: py_slice_def)
  qed
next
  case False
  then have "slice_index (length xs) a = length xs" using assms by (cases a) (auto simp: slice_index_def min_def)
  then show ?thesis using False by (simp add: py_slice_def)
qed

lemma set_py_slice: "set (py_slice a b xs) \<subseteq> set xs"
  by (auto simp: py_slice_def Let_def dest: in_set_takeD in_set_dropD)

section \<open>Clocks and intervals\<close>

text \<open>\<open>max(float(ttl or 0.0), 0.001)\<close>, the clamp every TTL of the code goes through.\<close>

definition clamp_ttl :: "real \<Rightarrow> real" where
  "clamp_ttl ttl = max ttl (1 / 1000)"

lemma clamp_ttl_pos [simp]: "0 < clamp_ttl ttl"
  by (simp add: clamp_ttl_def)

lemma clamp_ttl_ge: "ttl \<le> clamp_ttl ttl"
  by (simp add: clamp_ttl_def)

section \<open>Numbers as text\<close>

text \<open>\<open>str(n)\<close> of a natural number, and its inverse.\<close>

fun show_nat :: "nat \<Rightarrow> string" where
  "show_nat n = (if n < 10 then [char_of (48 + n)] else show_nat (n div 10) @ [char_of (48 + n mod 10)])"

declare show_nat.simps [simp del]

definition read_nat :: "string \<Rightarrow> nat" where
  "read_nat s = foldl (\<lambda>n c. 10 * n + (of_char c - 48)) 0 s"

lemma read_show_nat [simp]: "read_nat (show_nat n) = n"
proof (induction n rule: less_induct)
  case (less n)
  have d: "(of_char (char_of (48 + n mod 10) :: char) :: nat) = 48 + n mod 10" by simp
  show ?case
  proof (cases "n < 10")
    case True
    then show ?thesis by (subst show_nat.simps) (simp add: read_nat_def)
  next
    case False
    then have "read_nat (show_nat (n div 10)) = n div 10" by (intro less) simp
    then show ?thesis using False d by (subst show_nat.simps) (simp add: read_nat_def)
  qed
qed

lemma show_nat_inject [simp]: "show_nat m = show_nat n \<longleftrightarrow> m = n"
  by (metis read_show_nat)

lemma show_nat_digits: "c \<in> set (show_nat n) \<Longrightarrow> 48 \<le> (of_char c :: nat) \<and> (of_char c :: nat) \<le> 57"
proof (induction n rule: less_induct)
  case (less n)
  have digit: "(of_char (char_of (48 + m) :: char) :: nat) = 48 + m" if "m < 10" for m
    using that by simp
  show ?case
  proof (cases "n < 10")
    case True
    then have "c = char_of (48 + n)" using less.prems by (subst (asm) show_nat.simps) simp
    then show ?thesis using digit [OF True] True by simp
  next
    case False
    then have "c \<in> set (show_nat (n div 10)) \<or> c = char_of (48 + n mod 10)"
      using less.prems by (subst (asm) show_nat.simps) auto
    then show ?thesis
    proof
      assume "c \<in> set (show_nat (n div 10))"
      then show ?thesis using False by (intro less.IH) auto
    next
      assume "c = char_of (48 + n mod 10)"
      then show ?thesis using digit [of "n mod 10"] by simp
    qed
  qed
qed

end
