(* ===== verification/WaitGraph.thy ===== *)
theory WaitGraph
  imports Prelude
begin

text \<open>
  Cycle detection in a wait-for graph: \<open>_first_cycle\<close> and \<open>_has_cycle\<close> of
  \<open>src/focus_agent/multi_agent/resource_lock.py\<close>, a depth-first search with the three sets
  \<open>visiting\<close>, \<open>visited\<close> and the list \<open>stack\<close>.

  The graph is a dictionary from an agent to the set of agents it waits for. Python iterates
  a set in an unspecified order, so the successors are a list here and every theorem holds
  for every order. The recursion is bounded by a fuel argument; \<open>first_cycle\<close> passes one
  unit more than the number of nodes, and \<open>first_cycle_total\<close> shows that it never runs out.
  The main result is \<open>first_cycle_iff_acyclic\<close>: the search is sound and complete.
\<close>

section \<open>The search\<close>

type_synonym 'a graph = "('a, 'a list) dict"

record 'a dfs =
  visiting :: "'a set"
  visited :: "'a set"
  stack :: "'a list"

definition succs :: "'a graph \<Rightarrow> 'a \<Rightarrow> 'a list" where
  "succs g n = get_or g n []"

fun visit :: "nat \<Rightarrow> 'a graph \<Rightarrow> 'a \<Rightarrow> 'a dfs \<Rightarrow> ('a list option \<times> 'a dfs) option"
  and visit_all :: "nat \<Rightarrow> 'a graph \<Rightarrow> 'a list \<Rightarrow> 'a dfs \<Rightarrow> ('a list option \<times> 'a dfs) option" where
  "visit 0 g n s = None"
| "visit (Suc k) g n s =
    (if n \<in> visiting s then Some (Some (dropWhile (\<lambda>x. x \<noteq> n) (stack s) @ [n]), s)
     else if n \<in> visited s then Some (None, s)
     else (case visit_all k g (succs g n)
                  (s\<lparr>visiting := insert n (visiting s), stack := stack s @ [n]\<rparr>) of
        None \<Rightarrow> None
      | Some (Some c, s') \<Rightarrow> Some (Some c, s')
      | Some (None, s') \<Rightarrow>
          Some (None, s'\<lparr>stack := butlast (stack s'), visiting := visiting s' - {n},
                         visited := insert n (visited s')\<rparr>)))"
| "visit_all k g [] s = Some (None, s)"
| "visit_all k g (c # cs) s =
    (case visit k g c s of
      None \<Rightarrow> None
    | Some (Some cy, s') \<Rightarrow> Some (Some cy, s')
    | Some (None, s') \<Rightarrow> visit_all k g cs s')"

definition dfs_start :: "'a dfs" where
  "dfs_start = \<lparr>visiting = {}, visited = {}, stack = []\<rparr>"

definition node_count :: "'a graph \<Rightarrow> nat" where
  "node_count g = length (keys g @ concat (vals g))"

definition first_cycle :: "'a graph \<Rightarrow> 'a list option" where
  "first_cycle g = (case visit_all (Suc (node_count g)) g (keys g) dfs_start of
     None \<Rightarrow> None | Some (c, s) \<Rightarrow> c)"

definition has_cycle :: "'a graph \<Rightarrow> bool" where
  "has_cycle g = (first_cycle g \<noteq> None)"

section \<open>The specification\<close>

definition edges :: "'a graph \<Rightarrow> ('a \<times> 'a) set" where
  "edges g = {(a, b). b \<in> set (succs g a)}"

fun walk :: "('a \<times> 'a) set \<Rightarrow> 'a list \<Rightarrow> bool" where
  "walk E (x # y # zs) = ((x, y) \<in> E \<and> walk E (y # zs))"
| "walk E zs = True"

lemma walk_snoc: "walk E (xs @ [y]) \<longleftrightarrow> walk E xs \<and> (xs = [] \<or> (last xs, y) \<in> E)"
  by (induction E xs rule: walk.induct) auto

lemma walk_suffix: "walk E (xs @ ys) \<Longrightarrow> walk E ys"
proof (induction xs)
  case (Cons x xs)
  then have "walk E (xs @ ys)" by (cases "xs @ ys") auto
  with Cons.IH show ?case by simp
qed simp

lemma walk_dropWhile: "walk E xs \<Longrightarrow> walk E (dropWhile P xs)"
  using walk_suffix [of E "takeWhile P xs" "dropWhile P xs"] by simp

lemma walk_trancl: "walk E (x # xs @ [y]) \<Longrightarrow> (x, y) \<in> E\<^sup>+"
proof (induction xs arbitrary: x)
  case (Cons z xs)
  then have "(x, z) \<in> E" "(z, y) \<in> E\<^sup>+" by auto
  then show ?case by (rule trancl_into_trancl2)
qed auto

section \<open>The search keeps its invariant\<close>

text \<open>
  The stack is a path of the graph that lists \<open>visiting\<close>; a visited node has only visited
  successors and lies on no cycle.
\<close>

definition dfs_inv :: "'a graph \<Rightarrow> 'a dfs \<Rightarrow> bool" where
  "dfs_inv g s \<longleftrightarrow> walk (edges g) (stack s) \<and> distinct (stack s) \<and> visiting s = set (stack s) \<and>
     visiting s \<inter> visited s = {} \<and>
     (\<forall>v \<in> visited s. set (succs g v) \<subseteq> visited s \<and> (v, v) \<notin> (edges g)\<^sup>+)"

definition is_cycle :: "'a graph \<Rightarrow> 'a list \<Rightarrow> bool" where
  "is_cycle g c \<longleftrightarrow> 2 \<le> length c \<and> hd c = last c \<and> walk (edges g) c"

lemma is_cycle_trancl:
  assumes "is_cycle g c"
  shows "(hd c, hd c) \<in> (edges g)\<^sup>+"
proof -
  obtain x ys where c: "c = x # ys" "ys \<noteq> []" using assms
    by (cases c) (fastforce simp: is_cycle_def)+
  then obtain zs y where "ys = zs @ [y]" by (metis append_butlast_last_id)
  with c assms have "x = y" "walk (edges g) (x # zs @ [y])" by (auto simp: is_cycle_def)
  with walk_trancl [of "edges g" x zs y] c show ?thesis by simp
qed

lemma visited_closed:
  assumes "dfs_inv g s" "v \<in> visited s" "(v, w) \<in> (edges g)\<^sup>*"
  shows "w \<in> visited s"
  using assms(3,2,1) by (induction rule: rtrancl_induct) (auto simp: dfs_inv_def edges_def)

lemma dfs_inv_push:
  assumes "dfs_inv g s" "n \<notin> visiting s" "n \<notin> visited s"
    and "stack s = [] \<or> (last (stack s), n) \<in> edges g"
  shows "dfs_inv g (s\<lparr>visiting := insert n (visiting s), stack := stack s @ [n]\<rparr>)"
  using assms by (auto simp: dfs_inv_def walk_snoc)

lemma dfs_inv_pop:
  assumes inv: "dfs_inv g s" and st: "stack s = xs @ [n]"
    and fin: "set (succs g n) \<subseteq> visited s"
  shows "dfs_inv g (s\<lparr>stack := butlast (stack s), visiting := visiting s - {n},
                      visited := insert n (visited s)\<rparr>)"
proof -
  have nv: "n \<notin> visited s" using inv st by (auto simp: dfs_inv_def)
  have "(n, n) \<notin> (edges g)\<^sup>+"
  proof
    assume "(n, n) \<in> (edges g)\<^sup>+"
    then obtain c where "(n, c) \<in> edges g" "(c, n) \<in> (edges g)\<^sup>*"
      by (meson tranclD)
    then have "n \<in> visited s" using fin visited_closed [OF inv] by (auto simp: edges_def)
    with nv show False by contradiction
  qed
  then show ?thesis using inv st fin
    by (auto simp: dfs_inv_def walk_snoc)
qed

lemma cycle_found:
  assumes inv: "dfs_inv g s" and n: "n \<in> visiting s"
    and e: "stack s = [] \<or> (last (stack s), n) \<in> edges g"
  shows "is_cycle g (dropWhile (\<lambda>x. x \<noteq> n) (stack s) @ [n])"
proof -
  let ?d = "dropWhile (\<lambda>x. x \<noteq> n) (stack s)"
  have n': "n \<in> set (stack s)" using inv n by (simp add: dfs_inv_def)
  then have ne: "?d \<noteq> []" by (auto simp: dropWhile_eq_Nil_conv)
  then have "hd ?d = n" using hd_dropWhile [of "\<lambda>x. x \<noteq> n" "stack s"] by simp
  moreover have "last ?d = last (stack s)"
    using ne by (metis last_appendR takeWhile_dropWhile_id)
  moreover have "walk (edges g) ?d" using inv by (simp add: dfs_inv_def walk_dropWhile)
  moreover have "stack s \<noteq> []" using n' by auto
  ultimately have "walk (edges g) (?d @ [n])" "hd (?d @ [n]) = n" using e ne
    by (simp_all add: walk_snoc)
  then show ?thesis using ne by (simp add: is_cycle_def Suc_le_eq)
qed

text \<open>What a call returns, by induction over the search.\<close>

definition visit_post :: "'a graph \<Rightarrow> 'a list \<Rightarrow> 'a dfs \<Rightarrow> 'a list option \<Rightarrow> 'a dfs \<Rightarrow> bool" where
  "visit_post g ns s r s' \<longleftrightarrow> (case r of
      Some c \<Rightarrow> is_cycle g c
    | None \<Rightarrow> dfs_inv g s' \<and> stack s' = stack s \<and> visited s \<subseteq> visited s' \<and> set ns \<subseteq> visited s')"

definition visit_pre :: "'a graph \<Rightarrow> 'a list \<Rightarrow> 'a dfs \<Rightarrow> bool" where
  "visit_pre g ns s \<longleftrightarrow> dfs_inv g s \<and>
     (stack s = [] \<or> set ns \<subseteq> set (succs g (last (stack s))))"

lemma visit_correct:
  "visit k g n s = Some (r, s') \<Longrightarrow> visit_pre g [n] s \<Longrightarrow> visit_post g [n] s r s'"
  "visit_all k g ns s = Some (r, s') \<Longrightarrow> visit_pre g ns s \<Longrightarrow> visit_post g ns s r s'"
proof (induction k g n s and k g ns s arbitrary: r s' and r s' rule: visit_visit_all.induct)
  case (1 g n s)
  then show ?case by simp
next
  case (2 k g n s)
  have inv: "dfs_inv g s" and e: "stack s = [] \<or> (last (stack s), n) \<in> edges g"
    using "2.prems"(2) by (auto simp: visit_pre_def edges_def)
  consider (cyc) "n \<in> visiting s" | (old) "n \<notin> visiting s" "n \<in> visited s"
    | (new) "n \<notin> visiting s" "n \<notin> visited s" by blast
  then show ?case
  proof cases
    case cyc
    then show ?thesis using "2.prems"(1) cycle_found [OF inv cyc e]
      by (auto simp: visit_post_def)
  next
    case old
    then show ?thesis using "2.prems"(1) inv by (auto simp: visit_post_def)
  next
    case new
    let ?s1 = "s\<lparr>visiting := insert n (visiting s), stack := stack s @ [n]\<rparr>"
    have pre: "visit_pre g (succs g n) ?s1"
      using dfs_inv_push [OF inv new e] by (simp add: visit_pre_def)
    obtain r2 s2 where s2: "visit_all k g (succs g n) ?s1 = Some (r2, s2)"
      using "2.prems"(1) new by (auto split: option.splits)
    have post: "visit_post g (succs g n) ?s1 r2 s2"
      using "2.IH" [OF new s2 pre] .
    show ?thesis
    proof (cases r2)
      case (Some c)
      then show ?thesis using "2.prems"(1) new s2 post by (auto simp: visit_post_def)
    next
      case None
      with post have p: "dfs_inv g s2" "stack s2 = stack s @ [n]" "visited s \<subseteq> visited s2"
        "set (succs g n) \<subseteq> visited s2" by (auto simp: visit_post_def)
      show ?thesis using "2.prems"(1) new s2 None p dfs_inv_pop [OF p(1,2,4)]
        by (auto simp: visit_post_def)
    qed
  qed
next
  case (3 k g s)
  then show ?case by (simp add: visit_pre_def visit_post_def)
next
  case (4 k g c cs s)
  have pre: "visit_pre g [c] s" using "4.prems"(2) by (auto simp: visit_pre_def)
  obtain r1 s1 where s1: "visit k g c s = Some (r1, s1)"
    using "4.prems"(1) by (auto split: option.splits)
  have post: "visit_post g [c] s r1 s1" using "4.IH"(1) [OF s1 pre] .
  show ?case
  proof (cases r1)
    case (Some cy)
    then show ?thesis using "4.prems"(1) s1 post by (auto simp: visit_post_def)
  next
    case None
    then have rest: "visit_all k g cs s1 = Some (r, s')" using "4.prems"(1) s1 by simp
    have "visit_pre g cs s1" using post None "4.prems"(2)
      by (auto simp: visit_post_def visit_pre_def)
    from "4.IH"(2) [OF s1 _ None rest this] have "visit_post g cs s1 r s'" by simp
    then show ?thesis using post None by (auto simp: visit_post_def split: option.splits)
  qed
qed

section \<open>The fuel is enough\<close>

definition nodes :: "'a graph \<Rightarrow> 'a set" where
  "nodes g = set (keys g @ concat (vals g))"

lemma succs_nodes: "set (succs g n) \<subseteq> nodes g"
proof -
  have "set (get_or g n []) \<subseteq> \<Union> (set ` set (map snd g))"
    by (cases "map_of g n") (auto simp: get_or_def dest!: map_of_SomeD intro: bexI [rotated])
  then show ?thesis by (auto simp: succs_def nodes_def)
qed

lemma visiting_after:
  assumes "visit k g n s = Some (None, s')" "visit_pre g [n] s"
  shows "visiting s' = visiting s"
  using visit_correct(1) [OF assms] assms(2)
  by (simp add: visit_post_def visit_pre_def dfs_inv_def)

lemma visit_total:
  "visit_pre g [n] s \<Longrightarrow> insert n (visiting s) \<subseteq> nodes g \<Longrightarrow> card (nodes g - visiting s) < k
    \<Longrightarrow> visit k g n s \<noteq> None"
  "visit_pre g ns s \<Longrightarrow> set ns \<union> visiting s \<subseteq> nodes g \<Longrightarrow> card (nodes g - visiting s) < k
    \<Longrightarrow> visit_all k g ns s \<noteq> None"
proof (induction k g n s and k g ns s rule: visit_visit_all.induct)
  case (1 g n s)
  then show ?case by simp
next
  case (2 k g n s)
  show ?case
  proof (cases "n \<in> visiting s \<or> n \<in> visited s")
    case True
    then show ?thesis by auto
  next
    case False
    then have new: "n \<notin> visiting s" "n \<notin> visited s" by auto
    let ?s1 = "s\<lparr>visiting := insert n (visiting s), stack := stack s @ [n]\<rparr>"
    have "dfs_inv g ?s1"
      using "2.prems"(1) new by (intro dfs_inv_push) (auto simp: visit_pre_def edges_def)
    then have pre: "visit_pre g (succs g n) ?s1" by (simp add: visit_pre_def)
    have "nodes g - visiting ?s1 = nodes g - visiting s - {n}" by auto
    then have "card (nodes g - visiting ?s1) < card (nodes g - visiting s)"
      using new "2.prems"(2) by (metis DiffI List.finite_set card_Diff1_less finite_Diff
          insert_subset nodes_def)
    then have "visit_all k g (succs g n) ?s1 \<noteq> None"
      using "2.IH" [OF new pre] succs_nodes [of g n] "2.prems"(2,3) by simp
    then show ?thesis using new by (auto split: option.splits)
  qed
next
  case (3 k g s)
  then show ?case by simp
next
  case (4 k g c cs s)
  have pre: "visit_pre g [c] s" using "4.prems"(1) by (auto simp: visit_pre_def)
  have "visit k g c s \<noteq> None" using "4.IH"(1) [OF pre] "4.prems"(2,3) by simp
  then obtain r1 s1 where s1: "visit k g c s = Some (r1, s1)" by auto
  show ?case
  proof (cases r1)
    case (Some cy)
    then show ?thesis using s1 by simp
  next
    case None
    have post: "visit_post g [c] s None s1"
      using visit_correct(1) [OF s1 pre] None by simp
    have "visiting s1 = visiting s" using visiting_after s1 None pre by fast
    moreover have "visit_pre g cs s1" using post "4.prems"(1)
      by (auto simp: visit_post_def visit_pre_def)
    ultimately have "visit_all k g cs s1 \<noteq> None"
      using "4.IH"(2) [OF s1 refl None] "4.prems"(2,3) by simp
    then show ?thesis using s1 None by simp
  qed
qed

lemma dfs_start_pre: "visit_pre g ns dfs_start"
  by (simp add: visit_pre_def dfs_inv_def dfs_start_def)

lemma first_cycle_total: "visit_all (Suc (node_count g)) g (keys g) dfs_start \<noteq> None"
proof (rule visit_total(2) [OF dfs_start_pre])
  show "set (keys g) \<union> visiting dfs_start \<subseteq> nodes g"
    by (auto simp: nodes_def dfs_start_def)
  show "card (nodes g - visiting dfs_start) < Suc (node_count g)"
    unfolding nodes_def node_count_def dfs_start_def less_Suc_eq_le by (simp only: dfs.simps Diff_empty card_length)
qed

section \<open>Soundness and completeness\<close>

lemma first_cycle_cases:
  obtains s where "visit_all (Suc (node_count g)) g (keys g) dfs_start = Some (first_cycle g, s)"
    "visit_post g (keys g) dfs_start (first_cycle g) s"
proof -
  obtain r s where r: "visit_all (Suc (node_count g)) g (keys g) dfs_start = Some (r, s)"
    using first_cycle_total [of g] by auto
  moreover from r have "first_cycle g = r" by (simp add: first_cycle_def)
  ultimately show ?thesis using visit_correct(2) [OF r dfs_start_pre] that by simp
qed

lemma first_cycle_sound: "first_cycle g = Some c \<Longrightarrow> is_cycle g c"
  by (rule first_cycle_cases [of g]) (simp add: visit_post_def)

lemma first_cycle_complete:
  assumes "first_cycle g = None"
  shows "acyclic (edges g)"
proof (rule acyclicI, intro allI notI)
  fix v assume v: "(v, v) \<in> (edges g)\<^sup>+"
  obtain s where s: "visit_post g (keys g) dfs_start None s"
    using first_cycle_cases [of g] assms by metis
  from v obtain w where "(v, w) \<in> edges g" by (meson tranclD)
  then have "map_of g v \<noteq> None"
    by (cases "map_of g v") (auto simp: edges_def succs_def get_or_def)
  then have "v \<in> set (keys g)" by (simp add: map_of_eq_None_iff)
  with s have "v \<in> visited s" "dfs_inv g s" by (auto simp: visit_post_def)
  with v show False by (auto simp: dfs_inv_def)
qed

lemma first_cycle_iff_acyclic: "first_cycle g = None \<longleftrightarrow> acyclic (edges g)"
proof
  assume "acyclic (edges g)"
  then show "first_cycle g = None"
    using first_cycle_sound [of g] is_cycle_trancl [of g] by (cases "first_cycle g") (auto simp: acyclic_def)
qed (rule first_cycle_complete)

lemma has_cycle_iff: "has_cycle g \<longleftrightarrow> \<not> acyclic (edges g)"
  by (simp add: has_cycle_def first_cycle_iff_acyclic)

section \<open>Properties\<close>

text \<open>C10: the depth-first search of \<open>_first_cycle\<close> is sound and complete. It returns \<open>None\<close>
  exactly when the wait-for graph has no cycle, and a list it returns is a closed walk of the
  graph, whatever the order in which the successor sets are iterated.\<close>

theorem first_cycle_correct:
  "(first_cycle g = None \<longleftrightarrow> acyclic (edges g)) \<and>
   (case first_cycle g of None \<Rightarrow> True
    | Some c \<Rightarrow> 2 \<le> length c \<and> hd c = last c \<and> walk (edges g) c)"
  using first_cycle_iff_acyclic [of g] first_cycle_sound [of g]
  by (simp add: is_cycle_def split: option.split)

text \<open>C34: The search terminates on every graph: with one unit of fuel per node and one more,
  every call made by \<open>_first_cycle\<close> returns.\<close>

theorem first_cycle_terminates:
  "\<exists>r s. visit_all (Suc (node_count g)) g (keys g) dfs_start = Some (r, s)"
  using first_cycle_total [of g] by auto

end
