(* ===== verification/Expiry.thy ===== *)
theory Expiry
  imports Prelude
begin

text \<open>
  The contract of a table whose records expire: \<open>_drop_expired\<close> of the resource locks and of
  the message bus, and the prefix of the sliding windows, share it. A client may rely on
  \<open>sweep\<close> removing exactly the records whose deadline has passed, on the count it returns, and
  on expiry being final; the lemmas are proved once here and used through the interpretations
  in \<open>ResourceLock\<close> and \<open>MessageBus\<close>.
\<close>

locale expiring_table =
  fixes expired :: "real \<Rightarrow> 'r \<Rightarrow> bool"
    and sweep :: "real \<Rightarrow> ('k, 'r) dict \<Rightarrow> ('k, 'r) dict \<times> nat"
  assumes sweep_keeps: "wf_dict d \<Longrightarrow> fst (sweep now d) = filter (\<lambda>(k, r). \<not> expired now r) d"
    and sweep_counts: "wf_dict d \<Longrightarrow> snd (sweep now d) = length (filter (\<lambda>(k, r). expired now r) d)"
    and expiry_final: "expired now r \<Longrightarrow> now \<le> later \<Longrightarrow> expired later r"
begin

lemma sweep_wf: "wf_dict d \<Longrightarrow> wf_dict (fst (sweep now d))"
  by (simp add: sweep_keeps)

lemma sweep_sub: "wf_dict d \<Longrightarrow> set (fst (sweep now d)) \<subseteq> set d"
  by (auto simp: sweep_keeps)

lemma sweep_lookup:
  "wf_dict d \<Longrightarrow> map_of (fst (sweep now d)) k =
    (case map_of d k of None \<Rightarrow> None | Some r \<Rightarrow> if expired now r then None else Some r)"
  by (auto simp: sweep_keeps map_of_filter_dict split: option.splits)

lemma sweep_live:
  "wf_dict d \<Longrightarrow> (k, r) \<in> set (fst (sweep now d)) \<longleftrightarrow> (k, r) \<in> set d \<and> \<not> expired now r"
  by (auto simp: sweep_keeps)

lemma sweep_size:
  assumes "wf_dict d"
  shows "length (fst (sweep now d)) + snd (sweep now d) = length d"
proof -
  have "filter (\<lambda>(k, r). expired now r) d = filter (\<lambda>p. \<not> (case p of (k, r) \<Rightarrow> \<not> expired now r)) d"
    by (rule filter_cong) auto
  then show ?thesis
    using sum_length_filter_compl [of "\<lambda>(k, r). \<not> expired now r" d] assms
    by (simp add: sweep_keeps sweep_counts)
qed

lemma sweep_again:
  assumes "wf_dict d" "now \<le> later"
  shows "fst (sweep later (fst (sweep now d))) = fst (sweep later d)"
  using assms expiry_final by (auto simp: sweep_keeps intro!: filter_cong)

lemma sweep_idem: "wf_dict d \<Longrightarrow> sweep now (fst (sweep now d)) = (fst (sweep now d), 0)"
  by (auto simp: prod_eq_iff sweep_keeps sweep_counts filter_empty_conv intro!: filter_cong)

end

end
