(* ===== verification/ResourceLock.thy ===== *)
theory ResourceLock
  imports WaitGraph Expiry
begin

text \<open>
  Resource locks of the multi-agent runtime: \<open>InMemoryResourceLockManager\<close> of
  \<open>src/focus_agent/multi_agent/resource_lock.py\<close> with its helper functions, and the types
  \<open>LockMode\<close> and \<open>ResourceClaim\<close> of \<open>contracts.py\<close>.

  A lock is session-scoped (its scope is the session and the resource) or, when a tenant, a
  namespace or a fence token is given, cross-session (its scope is the canonical resource key).
  The manager keeps the claims by id, a wait-for graph between agents and the last fence token
  of each canonical key. Every operation runs under one mutex, so it is one atomic step here.
  The clock reading and the fresh claim id are arguments.
\<close>

section \<open>Data\<close>

datatype lock_mode = EXCLUSIVE | SHARED

record claim =
  claim_id :: string
  resource_id :: string
  agent_id :: string
  session_id :: string
  mode :: lock_mode
  expires_at :: real
  tenant_id :: "string option"
  resource_namespace :: "string option"
  fence_token :: "int option"
  canonical_resource_key :: "string option"

definition is_cross_session :: "claim \<Rightarrow> bool" where
  "is_cross_session c = (canonical_resource_key c \<noteq> None)"

record lock_manager =
  claims :: "(string, claim) dict"
  waits_for :: "string graph"
  last_fence_tokens :: "(string, int) dict"

definition lock_manager_init :: lock_manager where
  "lock_manager_init = \<lparr>claims = [], waits_for = [], last_fence_tokens = []\<rparr>"

text \<open>The keyword arguments of \<open>try_acquire\<close>.\<close>

record acquire_request =
  rq_resource :: string
  rq_agent :: string
  rq_session :: string
  rq_mode :: lock_mode
  rq_ttl :: real
  rq_tenant :: "string option"
  rq_namespace :: "string option"
  rq_fence :: "int option"

section \<open>Normalising a request\<close>

definition normalize_resource_id :: "string \<Rightarrow> py_error + string" where
  "normalize_resource_id rid =
    (let text = py_strip rid in
     if text = [] \<or> CHR '':'' \<notin> set text
     then Inl (ValueError ''resource_id must use '<type>:<identifier>' format'')
     else Inr text)"

definition normalize_fence_token :: "int option \<Rightarrow> py_error + int option" where
  "normalize_fence_token t = (case t of
     None \<Rightarrow> Inr None
   | Some n \<Rightarrow> if n < 0 then Inl (ValueError ''fence_token must be non-negative'') else Inr (Some n))"

definition normalize_optional_scope_value :: "string option \<Rightarrow> string \<Rightarrow> py_error + string option" where
  "normalize_optional_scope_value v name = (case v of
     None \<Rightarrow> Inr None
   | Some s \<Rightarrow> (let n = py_strip s in
       if n = [] then Inl (ValueError (name @ '' must not be blank when provided''))
       else Inr (Some n)))"

text \<open>
  \<open>json.dumps\<close> of a list of strings and nulls with \<open>ensure_ascii=False\<close>: quotes, backslashes
  and the characters below 32 are escaped, everything else is copied.
\<close>

definition hex_digit :: "nat \<Rightarrow> char" where
  "hex_digit n = ''0123456789abcdef'' ! n"

definition short_escapes :: "(char \<times> char) list" where
  "short_escapes = [(CHR 0x22, CHR 0x22), (CHR 0x5C, CHR 0x5C), (CHR 0x0A, CHR ''n''),
     (CHR 0x0D, CHR ''r''), (CHR 0x09, CHR ''t''), (CHR 0x0C, CHR ''f''), (CHR 0x08, CHR ''b'')]"

definition json_char :: "char \<Rightarrow> string" where
  "json_char c = (case map_of short_escapes c of
     Some e \<Rightarrow> [CHR 0x5C, e]
   | None \<Rightarrow> (let n = (of_char c :: nat) in
       if n < 32 then [CHR 0x5C, CHR ''u'', CHR ''0'', CHR ''0'', hex_digit (n div 16), hex_digit (n mod 16)]
       else [c]))"

definition json_str :: "string \<Rightarrow> string" where
  "json_str s = [CHR 0x22] @ concat (map json_char s) @ [CHR 0x22]"

definition json_opt :: "string option \<Rightarrow> string" where
  "json_opt v = (case v of None \<Rightarrow> ''null'' | Some s \<Rightarrow> json_str s)"

definition canonical_resource_key_of :: "string option \<Rightarrow> string option \<Rightarrow> string \<Rightarrow> string" where
  "canonical_resource_key_of tenant ns rid =
     ''focus-agent-resource-lock:v1:'' @
     ''['' @ json_opt tenant @ '','' @ json_opt ns @ '','' @ json_str rid @ '']''"

definition resolve_lock_scope ::
  "string \<Rightarrow> string option \<Rightarrow> string option \<Rightarrow> bool
    \<Rightarrow> py_error + (string option \<times> string option \<times> string option)" where
  "resolve_lock_scope rid tenant ns cross =
    bind_ok (normalize_optional_scope_value tenant ''tenant_id'') (\<lambda>t.
    bind_ok (normalize_optional_scope_value ns ''resource_namespace'') (\<lambda>n.
      if \<not> cross \<and> t = None \<and> n = None then Inr (None, None, None)
      else Inr (t, n, Some (canonical_resource_key_of t n rid))))"

section \<open>Conflicts, expiry and the wait graph\<close>

definition lock_modes_conflict :: "lock_mode \<Rightarrow> lock_mode \<Rightarrow> bool" where
  "lock_modes_conflict l r = (l = EXCLUSIVE \<or> r = EXCLUSIVE)"

definition claims_share_lock_scope :: "claim \<Rightarrow> string \<Rightarrow> string \<Rightarrow> string option \<Rightarrow> bool" where
  "claims_share_lock_scope c sid rid key = (case key of
     Some k \<Rightarrow> canonical_resource_key c = Some k
   | None \<Rightarrow> canonical_resource_key c = None \<and> session_id c = sid \<and> resource_id c = rid)"

definition next_fence_token :: "int \<Rightarrow> string option \<Rightarrow> int option \<Rightarrow> int option" where
  "next_fence_token previous key requested = (case key of
     None \<Rightarrow> None
   | Some k \<Rightarrow> Some (max (previous + 1) (case requested of None \<Rightarrow> 0 | Some r \<Rightarrow> r)))"

definition prune_wait_graph :: "lock_manager \<Rightarrow> lock_manager" where
  "prune_wait_graph m =
    (let active = map agent_id (vals (claims m)) in
     m\<lparr>waits_for := List.map_filter (\<lambda>(a, bs).
          let ws = filter (\<lambda>b. b \<in> set active) bs in
          if ws \<noteq> [] \<and> a \<in> set active then Some (a, ws) else None) (waits_for m)\<rparr>)"

definition claim_expired :: "real \<Rightarrow> claim \<Rightarrow> bool" where
  "claim_expired now c = (expires_at c \<le> now)"

definition sweep_claims :: "real \<Rightarrow> (string, claim) dict \<Rightarrow> (string, claim) dict \<times> nat" where
  "sweep_claims now d =
    (let expired = map fst (filter (\<lambda>(i, c). claim_expired now c) d) in
     (fold AList.delete expired d, length expired))"

definition drop_expired :: "real \<Rightarrow> lock_manager \<Rightarrow> lock_manager \<times> nat" where
  "drop_expired now m =
    (let (d, n) = sweep_claims now (claims m) in (prune_wait_graph (m\<lparr>claims := d\<rparr>), n))"

definition conflicting_claims ::
  "lock_manager \<Rightarrow> string \<Rightarrow> string \<Rightarrow> string \<Rightarrow> lock_mode \<Rightarrow> string option \<Rightarrow> claim list" where
  "conflicting_claims m aid sid rid md key =
     filter (\<lambda>c. claims_share_lock_scope c sid rid key \<and> (key \<noteq> None \<or> agent_id c \<noteq> aid)
               \<and> lock_modes_conflict (mode c) md) (vals (claims m))"

section \<open>The operations\<close>

definition add_waits :: "string \<Rightarrow> string list \<Rightarrow> string graph \<Rightarrow> string graph" where
  "add_waits aid waiting g =
    (if waiting = [] then g
     else (let old = succs g aid in
       AList.update aid (old @ filter (\<lambda>b. b \<notin> set old) (remdups waiting)) g))"

definition wait_or_deadlock :: "string \<Rightarrow> string \<Rightarrow> claim list \<Rightarrow> lock_manager \<Rightarrow>
    lock_manager \<times> (py_error + claim option)" where
  "wait_or_deadlock aid rid conflicts m =
    (let waiting = filter (\<lambda>a. a \<noteq> aid) (map agent_id conflicts);
         m' = m\<lparr>waits_for := add_waits aid waiting (waits_for m)\<rparr>
     in if has_cycle (waits_for m')
        then (m', Inl (DeadlockDetected (''Deadlock detected while '' @ aid @ '' waits for '' @ rid)))
        else (m', Inr None))"

definition grant_claim :: "string \<Rightarrow> claim \<Rightarrow> int option \<Rightarrow> lock_manager \<Rightarrow> lock_manager \<times> claim" where
  "grant_claim cid c requested m =
    (let key = canonical_resource_key c;
         token = next_fence_token
           (case key of None \<Rightarrow> 0 | Some k \<Rightarrow> get_or (last_fence_tokens m) k 0) key requested;
         c' = c\<lparr>claim_id := cid, fence_token := token\<rparr>
     in (m\<lparr>last_fence_tokens := (case (key, token) of
               (Some k, Some t) \<Rightarrow> AList.update k t (last_fence_tokens m)
             | _ \<Rightarrow> last_fence_tokens m),
           claims := AList.update cid c' (claims m),
           waits_for := AList.delete (agent_id c) (waits_for m)\<rparr>, c'))"

text \<open>The checks of \<open>try_acquire\<close> before it takes the mutex, and the claim it asks for.\<close>

definition prepare_claim :: "string \<Rightarrow> real \<Rightarrow> acquire_request \<Rightarrow> py_error + (claim \<times> int option)" where
  "prepare_claim cid now q =
    bind_ok (normalize_resource_id (rq_resource q)) (\<lambda>rid.
    let aid = py_strip (rq_agent q); sid = py_strip (rq_session q) in
    if aid = [] \<or> sid = [] then Inl (ValueError ''agent_id and session_id are required'') else
    bind_ok (normalize_fence_token (rq_fence q)) (\<lambda>requested.
    bind_ok (resolve_lock_scope rid (rq_tenant q) (rq_namespace q) (requested \<noteq> None)) (\<lambda>(tenant, ns, key).
      Inr (\<lparr>claim_id = cid, resource_id = rid, agent_id = aid, session_id = sid,
            mode = rq_mode q, expires_at = now + clamp_ttl (rq_ttl q), tenant_id = tenant,
            resource_namespace = ns, fence_token = None, canonical_resource_key = key\<rparr>, requested))))"

definition try_acquire :: "string \<Rightarrow> real \<Rightarrow> acquire_request \<Rightarrow> lock_manager \<Rightarrow>
    lock_manager \<times> (py_error + claim option)" where
  "try_acquire cid now q m =
    (case prepare_claim cid now q of
       Inl e \<Rightarrow> (m, Inl e)
     | Inr (c, requested) \<Rightarrow>
       (let m1 = fst (drop_expired now m);
            conflicts = conflicting_claims m1 (agent_id c) (session_id c) (resource_id c)
                          (mode c) (canonical_resource_key c)
        in if conflicts \<noteq> [] then wait_or_deadlock (agent_id c) (resource_id c) conflicts m1
           else (let (m2, c') = grant_claim cid c requested m1 in (m2, Inr (Some c')))))"

text \<open>\<open>heartbeat\<close> reads the clock twice: \<open>now\<close> for the new deadline, \<open>now'\<close> for the check.\<close>

definition heartbeat :: "real \<Rightarrow> real \<Rightarrow> claim \<Rightarrow> real \<Rightarrow> lock_manager \<Rightarrow> lock_manager \<times> bool" where
  "heartbeat now now' c ttl m =
    (case map_of (claims m) (claim_id c) of
       None \<Rightarrow> (m, False)
     | Some cur \<Rightarrow>
         if session_id cur \<noteq> session_id c \<or> agent_id cur \<noteq> agent_id c \<or> expires_at cur \<le> now'
         then (m, False)
         else (m\<lparr>claims := AList.update (claim_id c) (cur\<lparr>expires_at := now + clamp_ttl ttl\<rparr>)
                             (claims m)\<rparr>, True))"

definition release :: "claim \<Rightarrow> lock_manager \<Rightarrow> lock_manager" where
  "release c m = prune_wait_graph
    (case map_of (claims m) (claim_id c) of
       None \<Rightarrow> m
     | Some cur \<Rightarrow>
         if session_id cur = session_id c \<and> agent_id cur = agent_id c
         then m\<lparr>claims := AList.delete (claim_id c) (claims m)\<rparr> else m)"

definition release_session :: "string \<Rightarrow> lock_manager \<Rightarrow> lock_manager \<times> nat" where
  "release_session sid0 m =
    (let sid = py_strip sid0 in
     if sid = [] then (m, 0)
     else (let ids = map fst (filter (\<lambda>(i, c). session_id c = sid) (claims m)) in
       (prune_wait_graph (m\<lparr>claims := fold AList.delete ids (claims m)\<rparr>), length ids)))"

definition list_active_claims :: "real \<Rightarrow> lock_manager \<Rightarrow> lock_manager \<times> claim list" where
  "list_active_claims now m =
    (let m1 = fst (drop_expired now m) in (m1, sort_key claim_id (vals (claims m1))))"

definition cleanup_expired :: "real \<Rightarrow> lock_manager \<Rightarrow> lock_manager \<times> nat" where
  "cleanup_expired now m = drop_expired now m"

definition detect_deadlocks :: "real \<Rightarrow> lock_manager \<Rightarrow> lock_manager \<times> string list list" where
  "detect_deadlocks now m =
    (let m1 = fst (drop_expired now m) in
     (m1, case first_cycle (waits_for m1) of None \<Rightarrow> [] | Some c \<Rightarrow> [c]))"

section \<open>The table of claims expires\<close>

interpretation claim_table: expiring_table claim_expired sweep_claims
proof unfold_locales
  fix d :: "(string, claim) dict" and now :: real
  assume "wf_dict d"
  then show "fst (sweep_claims now d) = filter (\<lambda>(k, r). \<not> claim_expired now r) d"
    by (simp add: sweep_claims_def delete_selected)
qed (auto simp: sweep_claims_def claim_expired_def)

section \<open>What the helpers leave alone\<close>

lemma prune_frame [simp]:
  "claims (prune_wait_graph m) = claims m"
  "last_fence_tokens (prune_wait_graph m) = last_fence_tokens m"
  by (simp_all add: prune_wait_graph_def Let_def)

lemma drop_expired_frame [simp]:
  "claims (fst (drop_expired now m)) = fst (sweep_claims now (claims m))"
  "snd (drop_expired now m) = snd (sweep_claims now (claims m))"
  "last_fence_tokens (fst (drop_expired now m)) = last_fence_tokens m"
  by (simp_all add: drop_expired_def split_beta)

lemma wait_frame [simp]:
  "claims (fst (wait_or_deadlock aid rid cs m)) = claims m"
  "last_fence_tokens (fst (wait_or_deadlock aid rid cs m)) = last_fence_tokens m"
  by (simp_all add: wait_or_deadlock_def Let_def)

lemma wait_result: "snd (wait_or_deadlock aid rid cs m) \<noteq> Inr (Some c)"
  by (simp add: wait_or_deadlock_def Let_def)

lemma release_claims:
  "claims (release c m) = (case map_of (claims m) (claim_id c) of
      Some cur \<Rightarrow> if session_id cur = session_id c \<and> agent_id cur = agent_id c
        then AList.delete (claim_id c) (claims m) else claims m
    | None \<Rightarrow> claims m)"
  by (simp add: release_def split: option.split)

lemma release_fence [simp]: "last_fence_tokens (release c m) = last_fence_tokens m"
  by (simp add: release_def split: option.split)

lemma release_session_claims:
  "wf_dict (claims m) \<Longrightarrow> claims (fst (release_session sid m)) =
    (if py_strip sid = [] then claims m
     else filter (\<lambda>(i, c). session_id c \<noteq> py_strip sid) (claims m))"
  by (simp add: release_session_def Let_def delete_selected)

lemma release_session_fence [simp]:
  "last_fence_tokens (fst (release_session sid m)) = last_fence_tokens m"
  by (simp add: release_session_def Let_def)

section \<open>The invariant\<close>

text \<open>
  Two claims contend when they lock the same thing: the same canonical key, or the same
  resource of one session by two agents. The manager never holds two contending claims of
  conflicting modes, and the fence token of a claim never exceeds the last token of its key.
\<close>

definition contend :: "claim \<Rightarrow> claim \<Rightarrow> bool" where
  "contend c d = (case (canonical_resource_key c, canonical_resource_key d) of
     (Some k, Some k') \<Rightarrow> k = k'
   | (None, None) \<Rightarrow> session_id c = session_id d \<and> resource_id c = resource_id d \<and> agent_id c \<noteq> agent_id d
   | _ \<Rightarrow> False)"

lemma contend_sym: "contend c d = contend d c"
  by (auto simp: contend_def split: option.split)

lemma contend_cong:
  assumes "canonical_resource_key c' = canonical_resource_key c" "session_id c' = session_id c"
    "resource_id c' = resource_id c" "agent_id c' = agent_id c"
    and "canonical_resource_key d' = canonical_resource_key d" "session_id d' = session_id d"
    "resource_id d' = resource_id d" "agent_id d' = agent_id d"
  shows "contend c' d' = contend c d"
  unfolding contend_def assms by (rule refl)

definition exclusive :: "claim set \<Rightarrow> bool" where
  "exclusive C \<longleftrightarrow> (\<forall>c \<in> C. \<forall>d \<in> C. claim_id c \<noteq> claim_id d \<longrightarrow> contend c d
      \<longrightarrow> \<not> lock_modes_conflict (mode c) (mode d))"

definition fence_bounded :: "(string, int) dict \<Rightarrow> claim set \<Rightarrow> bool" where
  "fence_bounded f C \<longleftrightarrow> (\<forall>c \<in> C. \<forall>k t. canonical_resource_key c = Some k \<longrightarrow>
      fence_token c = Some t \<longrightarrow> t \<le> get_or f k 0)"

definition lock_inv :: "lock_manager \<Rightarrow> bool" where
  "lock_inv m \<longleftrightarrow> wf_dict (claims m) \<and> (\<forall>(i, c) \<in> set (claims m). claim_id c = i) \<and>
     exclusive (snd ` set (claims m)) \<and> fence_bounded (last_fence_tokens m) (snd ` set (claims m))"

lemma exclusive_mono: "exclusive C \<Longrightarrow> D \<subseteq> C \<Longrightarrow> exclusive D"
  by (auto simp: exclusive_def)

lemma fence_bounded_mono: "fence_bounded f C \<Longrightarrow> D \<subseteq> C \<Longrightarrow> fence_bounded f D"
  by (auto simp: fence_bounded_def)

lemma lock_inv_init: "lock_inv lock_manager_init"
  by (simp add: lock_inv_def lock_manager_init_def exclusive_def fence_bounded_def)

text \<open>Any operation that only removes claims keeps the invariant.\<close>

lemma lock_inv_shrink:
  assumes "lock_inv m" "wf_dict (claims m')" "set (claims m') \<subseteq> set (claims m)"
    and "last_fence_tokens m' = last_fence_tokens m"
  shows "lock_inv m'"
proof -
  have "snd ` set (claims m') \<subseteq> snd ` set (claims m)" using assms(3) by auto
  with assms(1,4) have "exclusive (snd ` set (claims m'))"
    "fence_bounded (last_fence_tokens m') (snd ` set (claims m'))"
    by (auto simp: lock_inv_def intro: exclusive_mono fence_bounded_mono)
  then show ?thesis using assms(1-3) by (auto simp: lock_inv_def)
qed

lemma lock_inv_drop: "lock_inv m \<Longrightarrow> lock_inv (fst (drop_expired now m))"
  by (rule lock_inv_shrink) (auto simp: lock_inv_def claim_table.sweep_wf dest: claim_table.sweep_sub)

lemma lock_inv_wait: "lock_inv m \<Longrightarrow> lock_inv (fst (wait_or_deadlock aid rid cs m))"
  by (rule lock_inv_shrink) (auto simp: lock_inv_def)

lemma lock_inv_release: "lock_inv m \<Longrightarrow> lock_inv (release c m)"
  by (rule lock_inv_shrink)
    (auto simp: lock_inv_def release_claims set_delete_dict split: option.splits if_splits)

lemma lock_inv_release_session: "lock_inv m \<Longrightarrow> lock_inv (fst (release_session sid m))"
  by (rule lock_inv_shrink) (auto simp: lock_inv_def release_session_claims)

lemma lock_inv_heartbeat: "lock_inv m \<Longrightarrow> lock_inv (fst (heartbeat now now' c ttl m))"
proof (cases "map_of (claims m) (claim_id c)")
  case (Some cur)
  assume inv: "lock_inv m"
  let ?d = "AList.update (claim_id c) (cur\<lparr>expires_at := now + clamp_ttl ttl\<rparr>) (claims m)"
  let ?C = "snd ` set (claims m)"
  have wf: "wf_dict (claims m)" using inv by (simp add: lock_inv_def)
  have mem: "(claim_id c, cur) \<in> set (claims m)" using Some by (rule map_of_SomeD)
  have cur: "cur \<in> ?C" using mem by force
  have id: "claim_id cur = claim_id c" using mem inv by (auto simp: lock_inv_def)
  have same: "\<exists>x\<in>?C. claim_id x = claim_id y \<and> mode x = mode y \<and> session_id x = session_id y \<and>
      resource_id x = resource_id y \<and> agent_id x = agent_id y \<and> fence_token x = fence_token y \<and>
      canonical_resource_key x = canonical_resource_key y" if "y \<in> snd ` set ?d" for y
  proof -
    from that have "y \<in> ?C \<or> y = cur\<lparr>expires_at := now + clamp_ttl ttl\<rparr>"
      by (auto simp: set_update_dict [OF wf])
    then show ?thesis
    proof
      assume "y \<in> ?C"
      then show ?thesis by (intro bexI [of _ y]) simp_all
    next
      assume "y = cur\<lparr>expires_at := now + clamp_ttl ttl\<rparr>"
      then show ?thesis using cur by (intro bexI [of _ cur]) simp_all
    qed
  qed
  have "exclusive (snd ` set ?d)"
    unfolding exclusive_def
  proof (intro ballI impI)
    fix x y assume "x \<in> snd ` set ?d" "y \<in> snd ` set ?d" "claim_id x \<noteq> claim_id y" "contend x y"
    note xy = this
    obtain x' where x: "x' \<in> ?C" "claim_id x' = claim_id x" "mode x' = mode x"
      "session_id x' = session_id x" "resource_id x' = resource_id x" "agent_id x' = agent_id x"
      "canonical_resource_key x' = canonical_resource_key x" using same [OF xy(1)] by blast
    obtain y' where y: "y' \<in> ?C" "claim_id y' = claim_id y" "mode y' = mode y"
      "session_id y' = session_id y" "resource_id y' = resource_id y" "agent_id y' = agent_id y"
      "canonical_resource_key y' = canonical_resource_key y" using same [OF xy(2)] by blast
    have "contend x' y'" "claim_id x' \<noteq> claim_id y'"
      using xy(3,4) x y contend_cong [of x' x y' y] by simp_all
    with x y have "\<not> lock_modes_conflict (mode x') (mode y')"
      using inv unfolding lock_inv_def exclusive_def by blast
    with x(3) y(3) show "\<not> lock_modes_conflict (mode x) (mode y)" by simp
  qed
  moreover have "fence_bounded (last_fence_tokens m) (snd ` set ?d)"
    using inv same unfolding lock_inv_def fence_bounded_def by metis
  ultimately show ?thesis using inv Some wf id
    by (auto simp: heartbeat_def lock_inv_def set_update_dict)
qed (simp add: heartbeat_def)

section \<open>Granting a claim\<close>

lemma conflicting_iff:
  "conflicting_claims m (agent_id c) (session_id c) (resource_id c) (mode c) (canonical_resource_key c) = []
    \<longleftrightarrow> (\<forall>d \<in> snd ` set (claims m). contend c d \<longrightarrow> \<not> lock_modes_conflict (mode d) (mode c))"
proof -
  have "claims_share_lock_scope d (session_id c) (resource_id c) (canonical_resource_key c) \<and>
      (canonical_resource_key c \<noteq> None \<or> agent_id d \<noteq> agent_id c) \<longleftrightarrow> contend c d" for d
    by (cases "canonical_resource_key c"; cases "canonical_resource_key d")
      (auto simp: claims_share_lock_scope_def contend_def)
  then show ?thesis
    unfolding conflicting_claims_def conj_assoc [symmetric] by (auto simp: filter_empty_conv)
qed

lemma grant_fields:
  assumes "grant_claim cid c requested m = (m', c')"
  shows "claim_id c' = cid" "agent_id c' = agent_id c" "session_id c' = session_id c"
    "resource_id c' = resource_id c" "mode c' = mode c" "expires_at c' = expires_at c"
    "canonical_resource_key c' = canonical_resource_key c"
    "claims m' = AList.update cid c' (claims m)"
    "waits_for m' = AList.delete (agent_id c) (waits_for m)"
  using assms by (auto simp: grant_claim_def Let_def)

lemma grant_token:
  assumes "grant_claim cid c requested m = (m', c')"
  shows "canonical_resource_key c = None \<Longrightarrow> fence_token c' = None"
    and "canonical_resource_key c = Some k \<Longrightarrow> \<exists>t. fence_token c' = Some t \<and>
      get_or (last_fence_tokens m) k 0 < t \<and> get_or (last_fence_tokens m') k 0 = t"
  using assms by (auto simp: grant_claim_def Let_def next_fence_token_def split: option.split)

lemma grant_fence_mono:
  assumes "grant_claim cid c requested m = (m', c')"
  shows "get_or (last_fence_tokens m) k 0 \<le> get_or (last_fence_tokens m') k 0"
  using assms by (auto simp: grant_claim_def Let_def next_fence_token_def split: option.splits)

lemma lock_inv_grant:
  assumes inv: "lock_inv m" and g: "grant_claim cid c requested m = (m', c')"
    and free: "\<forall>d \<in> snd ` set (claims m). contend c d \<longrightarrow> \<not> lock_modes_conflict (mode d) (mode c)"
  shows "lock_inv m'"
proof -
  note f = grant_fields [OF g]
  have wf: "wf_dict (claims m)" using inv by (simp add: lock_inv_def)
  have set': "set (claims m') = insert (cid, c') {p \<in> set (claims m). fst p \<noteq> cid}"
    by (simp add: f(8) set_update_dict [OF wf])
  have con: "contend c' d = contend c d" for d
    using f by (intro contend_cong) simp_all
  have "exclusive (snd ` set (claims m'))"
    unfolding exclusive_def
  proof (intro ballI impI)
    fix x y assume xy: "x \<in> snd ` set (claims m')" "y \<in> snd ` set (claims m')"
      and ne: "claim_id x \<noteq> claim_id y" and cxy: "contend x y"
    then consider "x = c'" "y \<in> snd ` set (claims m)" | "y = c'" "x \<in> snd ` set (claims m)"
      | "x \<in> snd ` set (claims m)" "y \<in> snd ` set (claims m)"
      by (auto simp: set')
    then show "\<not> lock_modes_conflict (mode x) (mode y)"
    proof cases
      case 1
      then show ?thesis using free cxy con f(5) by (auto simp: lock_modes_conflict_def)
    next
      case 2
      then show ?thesis using free cxy con f(5) contend_sym [of x y]
        by (auto simp: lock_modes_conflict_def)
    next
      case 3
      then show ?thesis using inv ne cxy unfolding lock_inv_def exclusive_def by blast
    qed
  qed
  moreover have "fence_bounded (last_fence_tokens m') (snd ` set (claims m'))"
    unfolding fence_bounded_def
  proof (intro ballI allI impI)
    fix x k t assume x: "x \<in> snd ` set (claims m')" "canonical_resource_key x = Some k" "fence_token x = Some t"
    show "t \<le> get_or (last_fence_tokens m') k 0"
    proof (cases "x = c'")
      case True
      then show ?thesis using grant_token(2) [OF g, of k] x f(7) by auto
    next
      case False
      then have "x \<in> snd ` set (claims m)" using x(1) by (auto simp: set')
      then have "t \<le> get_or (last_fence_tokens m) k 0"
        using inv x(2,3) unfolding lock_inv_def fence_bounded_def by blast
      then show ?thesis using grant_fence_mono [OF g, of k] by simp
    qed
  qed
  moreover have "\<forall>(i, x) \<in> set (claims m'). claim_id x = i"
    using inv f(1) by (auto simp: lock_inv_def set')
  moreover have "wf_dict (claims m')" using wf by (simp add: f(8))
  ultimately show ?thesis by (simp add: lock_inv_def)
qed

section \<open>Every step of the manager\<close>

text \<open>The three outcomes of \<open>try_acquire\<close>; \<open>blocking\<close> are the live claims in the way.\<close>

definition blocking :: "real \<Rightarrow> claim \<Rightarrow> lock_manager \<Rightarrow> claim list" where
  "blocking now c m = conflicting_claims (fst (drop_expired now m)) (agent_id c) (session_id c)
     (resource_id c) (mode c) (canonical_resource_key c)"

lemma try_acquire_refused:
  "prepare_claim cid now q = Inl e \<Longrightarrow> try_acquire cid now q m = (m, Inl e)"
  by (simp add: try_acquire_def)

lemma try_acquire_blocked:
  "prepare_claim cid now q = Inr (c, requested) \<Longrightarrow> blocking now c m \<noteq> [] \<Longrightarrow>
    try_acquire cid now q m =
      wait_or_deadlock (agent_id c) (resource_id c) (blocking now c m) (fst (drop_expired now m))"
  by (simp add: try_acquire_def blocking_def Let_def)

lemma try_acquire_granted:
  "prepare_claim cid now q = Inr (c, requested) \<Longrightarrow> blocking now c m = [] \<Longrightarrow>
    grant_claim cid c requested (fst (drop_expired now m)) = (m', c') \<Longrightarrow>
    try_acquire cid now q m = (m', Inr (Some c'))"
  by (simp add: try_acquire_def blocking_def Let_def)

lemma try_acquire_cases:
  obtains (refused) e where "prepare_claim cid now q = Inl e" "try_acquire cid now q m = (m, Inl e)"
  | (blocked) c requested where "prepare_claim cid now q = Inr (c, requested)" "blocking now c m \<noteq> []"
      "try_acquire cid now q m =
        wait_or_deadlock (agent_id c) (resource_id c) (blocking now c m) (fst (drop_expired now m))"
  | (granted) c requested m' c' where "prepare_claim cid now q = Inr (c, requested)" "blocking now c m = []"
      "grant_claim cid c requested (fst (drop_expired now m)) = (m', c')"
      "try_acquire cid now q m = (m', Inr (Some c'))"
proof (cases "prepare_claim cid now q")
  case (Inl e)
  then show ?thesis using that(1) try_acquire_refused by blast
next
  case (Inr p)
  obtain c requested where p: "p = (c, requested)" by (cases p)
  obtain m' c' where "grant_claim cid c requested (fst (drop_expired now m)) = (m', c')"
    by (cases "grant_claim cid c requested (fst (drop_expired now m))")
  then show ?thesis using that(2,3) Inr p try_acquire_blocked try_acquire_granted
    by (cases "blocking now c m = []") blast+
qed

lemma blocking_iff:
  assumes "wf_dict (claims m)"
  shows "blocking now c m = [] \<longleftrightarrow> (\<forall>(i, d) \<in> set (claims m). \<not> claim_expired now d \<longrightarrow>
    contend c d \<longrightarrow> \<not> lock_modes_conflict (mode d) (mode c))"
proof -
  have "snd ` set (fst (sweep_claims now (claims m))) =
      {d. \<exists>i. (i, d) \<in> set (claims m) \<and> \<not> claim_expired now d}"
    unfolding claim_table.sweep_keeps [OF assms] by (auto simp: image_iff)
  then show ?thesis unfolding blocking_def conflicting_iff drop_expired_frame by auto
qed

lemma lock_inv_acquire:
  assumes "lock_inv m"
  shows "lock_inv (fst (try_acquire cid now q m))"
proof (cases rule: try_acquire_cases [of cid now q m])
  case refused
  then show ?thesis using assms by simp
next
  case blocked
  then show ?thesis using lock_inv_wait [OF lock_inv_drop [OF assms]] by simp
next
  case (granted c requested m' c')
  then show ?thesis
    using lock_inv_grant [OF lock_inv_drop [OF assms] granted(3)] conflicting_iff
    by (simp add: blocking_def)
qed

inductive lock_step :: "lock_manager \<Rightarrow> lock_manager \<Rightarrow> bool" where
  acquire: "lock_step m (fst (try_acquire cid now q m))"
| beat: "lock_step m (fst (heartbeat now now' c ttl m))"
| free: "lock_step m (release c m)"
| free_session: "lock_step m (fst (release_session sid m))"
| listing: "lock_step m (fst (list_active_claims now m))"
| cleanup: "lock_step m (fst (cleanup_expired now m))"
| deadlocks: "lock_step m (fst (detect_deadlocks now m))"

lemma list_active_state: "fst (list_active_claims now m) = fst (drop_expired now m)"
  by (simp add: list_active_claims_def Let_def)

lemma detect_state: "fst (detect_deadlocks now m) = fst (drop_expired now m)"
  by (simp add: detect_deadlocks_def Let_def)

lemma lock_step_inv: "lock_step m m' \<Longrightarrow> lock_inv m \<Longrightarrow> lock_inv m'"
  by (induction rule: lock_step.induct)
    (simp_all add: lock_inv_acquire lock_inv_heartbeat lock_inv_release lock_inv_release_session
      list_active_state detect_state cleanup_expired_def lock_inv_drop)

abbreviation lock_reachable :: "lock_manager \<Rightarrow> bool" where
  "lock_reachable m \<equiv> lock_step\<^sup>*\<^sup>* lock_manager_init m"

lemma lock_reachable_inv: "lock_reachable m \<Longrightarrow> lock_inv m"
  by (induction rule: rtranclp_induct) (auto simp: lock_inv_init intro: lock_step_inv)

section \<open>Fence tokens only grow\<close>

lemma heartbeat_fence: "last_fence_tokens (fst (heartbeat now now' c ttl m)) = last_fence_tokens m"
  by (simp add: heartbeat_def split: option.split)

lemma acquire_fence_mono:
  "get_or (last_fence_tokens m) k 0 \<le> get_or (last_fence_tokens (fst (try_acquire cid now q m))) k 0"
proof (cases rule: try_acquire_cases [of cid now q m])
  case (granted c requested m' c')
  then show ?thesis using grant_fence_mono [OF granted(3), of k] by simp
qed simp_all

lemma lock_step_fence_mono:
  "lock_step m m' \<Longrightarrow> get_or (last_fence_tokens m) k 0 \<le> get_or (last_fence_tokens m') k 0"
  by (induction rule: lock_step.induct)
    (simp_all add: acquire_fence_mono heartbeat_fence list_active_state detect_state cleanup_expired_def)

lemma lock_steps_fence_mono:
  "lock_step\<^sup>*\<^sup>* m m' \<Longrightarrow> get_or (last_fence_tokens m) k 0 \<le> get_or (last_fence_tokens m') k 0"
  by (induction rule: rtranclp_induct) (auto dest: lock_step_fence_mono [of _ _ k])

lemma acquired_inv:
  assumes "try_acquire cid now q m = (m', Inr (Some c'))"
  obtains c requested where "prepare_claim cid now q = Inr (c, requested)" "blocking now c m = []"
    "grant_claim cid c requested (fst (drop_expired now m)) = (m', c')"
proof (cases rule: try_acquire_cases [of cid now q m])
  case refused
  with assms show ?thesis by simp
next
  case (blocked c requested)
  have "wait_or_deadlock (agent_id c) (resource_id c) (blocking now c m) (fst (drop_expired now m))
      = (m', Inr (Some c'))" using blocked(3) assms by simp
  then have "snd (wait_or_deadlock (agent_id c) (resource_id c) (blocking now c m) (fst (drop_expired now m)))
      = Inr (Some c')" by (simp only: snd_conv)
  then show ?thesis using wait_result by blast
next
  case (granted c requested m'' c'')
  then show ?thesis using assms that by simp
qed

lemma acquired_token:
  assumes "try_acquire cid now q m = (m', Inr (Some c))" "canonical_resource_key c = Some k"
  shows "\<exists>t. fence_token c = Some t \<and> get_or (last_fence_tokens m) k 0 < t \<and>
    get_or (last_fence_tokens m') k 0 = t"
proof -
  obtain c0 requested where g: "grant_claim cid c0 requested (fst (drop_expired now m)) = (m', c)"
    using acquired_inv [OF assms(1)] by metis
  have "canonical_resource_key c0 = Some k" using grant_fields(7) [OF g] assms(2) by simp
  from grant_token(2) [OF g this] show ?thesis by simp
qed

section \<open>Canonical keys identify the resource\<close>

lemma hex_digit_inj: "a < 16 \<Longrightarrow> b < 16 \<Longrightarrow> hex_digit a = hex_digit b \<Longrightarrow> a = b"
proof -
  have "\<forall>a \<in> {..<16}. \<forall>b \<in> {..<16}. hex_digit a = hex_digit b \<longrightarrow> a = b"
    by code_simp
  then show "a < 16 \<Longrightarrow> b < 16 \<Longrightarrow> hex_digit a = hex_digit b \<Longrightarrow> a = b" by auto
qed

lemma short_escape_facts:
  "map_of short_escapes c = Some e \<Longrightarrow> map_of short_escapes d = Some e \<Longrightarrow> c = d"
  "map_of short_escapes c \<noteq> Some CHR ''u''"
  "map_of short_escapes CHR 0x5C = Some CHR 0x5C" "map_of short_escapes CHR 0x22 = Some CHR 0x22"
  by (auto simp: short_escapes_def split: if_splits)

lemma json_char_head: "\<exists>x xs. json_char c = x # xs \<and> x \<noteq> CHR 0x22"
  using short_escape_facts(4) by (auto simp: json_char_def Let_def split: option.split)

lemma json_char_prefix_free:
  assumes eq: "json_char c @ xs = json_char d @ ys"
  shows "c = d \<and> xs = ys"
proof -
  let ?n = "of_char c :: nat" and ?m = "of_char d :: nat"
  have same: "c = d" if "?n = ?m" using that by (metis char_of_char)
  have hex: "c = d" if h: "hex_digit (?n div 16) = hex_digit (?m div 16)"
    "hex_digit (?n mod 16) = hex_digit (?m mod 16)" and b: "?n < 32" "?m < 32"
  proof -
    have "?n div 16 = ?m div 16" using hex_digit_inj [OF _ _ h(1)] b by simp
    moreover have "?n mod 16 = ?m mod 16" using hex_digit_inj [OF _ _ h(2)] by simp
    ultimately show ?thesis by (intro same) (metis div_mult_mod_eq)
  qed
  show ?thesis using eq short_escape_facts(1,3,4) short_escape_facts(2) [of c] short_escape_facts(2) [of d] hex
    by (cases "map_of short_escapes c"; cases "map_of short_escapes d")
      (auto simp: json_char_def Let_def split: if_splits)
qed

lemma json_body_unique:
  "concat (map json_char s) @ CHR 0x22 # xs = concat (map json_char t) @ CHR 0x22 # ys
    \<Longrightarrow> s = t \<and> xs = ys"
proof (induction s arbitrary: t)
  case Nil
  then show ?case using json_char_head by (cases t) (auto, metis append_Cons list.inject)
next
  case (Cons c s)
  show ?case
  proof (cases t)
    case Nil
    with Cons.prems json_char_head [of c] show ?thesis by auto
  next
    case (Cons d t')
    with Cons.prems json_char_prefix_free [of c _ d] have "c = d"
      "concat (map json_char s) @ CHR 0x22 # xs = concat (map json_char t') @ CHR 0x22 # ys" by auto
    with Cons.IH [of t'] Cons show ?thesis by simp
  qed
qed

lemma json_str_unique: "json_str s @ xs = json_str t @ ys \<Longrightarrow> s = t \<and> xs = ys"
  using json_body_unique [of s xs t ys] by (simp add: json_str_def)

lemma json_opt_unique:
  assumes eq: "json_opt v @ xs = json_opt w @ ys"
  shows "v = w \<and> xs = ys"
proof (cases v)
  case None
  with eq show ?thesis by (cases w) (simp_all add: json_opt_def json_str_def)
next
  case (Some s)
  with eq json_str_unique [of s xs] show ?thesis
    by (cases w) (auto simp: json_opt_def, simp add: json_str_def)
qed

lemma canonical_resource_key_of_inj:
  "canonical_resource_key_of t n r = canonical_resource_key_of t' n' r' \<longleftrightarrow> t = t' \<and> n = n' \<and> r = r'"
proof
  assume "canonical_resource_key_of t n r = canonical_resource_key_of t' n' r'"
  then have eq: "json_opt t @ '','' @ json_opt n @ '','' @ json_str r @ '']'' =
      json_opt t' @ '','' @ json_opt n' @ '','' @ json_str r' @ '']''"
    by (simp add: canonical_resource_key_of_def)
  from json_opt_unique [OF eq] have t: "t = t'"
    and eq2: "json_opt n @ '','' @ json_str r @ '']'' = json_opt n' @ '','' @ json_str r' @ '']''" by auto
  from json_opt_unique [OF eq2] have n: "n = n'" and eq3: "json_str r @ '']'' = json_str r' @ '']''" by auto
  from json_str_unique [OF eq3] t n show "t = t' \<and> n = n' \<and> r = r'" by simp
qed simp

section \<open>Deadlocks\<close>

lemma edges_add_waits: "edges (add_waits aid ws g) = edges g \<union> {aid} \<times> set ws"
  by (auto simp: edges_def add_waits_def succs_def Let_def split: if_splits)

lemma wait_outcome:
  "snd (wait_or_deadlock aid rid cs m) =
    (if acyclic (edges (waits_for (fst (wait_or_deadlock aid rid cs m)))) then Inr None
     else Inl (DeadlockDetected (''Deadlock detected while '' @ aid @ '' waits for '' @ rid)))"
  by (simp add: wait_or_deadlock_def Let_def has_cycle_iff)

lemma wait_edges:
  "edges (waits_for (fst (wait_or_deadlock aid rid cs m))) =
    edges (waits_for m) \<union> {aid} \<times> (agent_id ` set cs - {aid})"
  by (auto simp: wait_or_deadlock_def Let_def edges_add_waits)

section \<open>Properties\<close>

text \<open>C2: mutual exclusion. In every state the manager can reach, two different claims on the
  same thing (the same canonical key, or one resource of a session held by two agents) are both
  shared.\<close>

theorem lock_mutual_exclusion:
  assumes "lock_reachable m" "(i, c) \<in> set (claims m)" "(j, d) \<in> set (claims m)" "i \<noteq> j" "contend c d"
  shows "mode c = SHARED \<and> mode d = SHARED"
proof -
  have inv: "lock_inv m" using assms(1) by (rule lock_reachable_inv)
  then have "claim_id c = i" "claim_id d = j" using assms(2,3) by (auto simp: lock_inv_def)
  then have "claim_id c \<noteq> claim_id d" using assms(4) by simp
  moreover have "c \<in> snd ` set (claims m)" "d \<in> snd ` set (claims m)" using assms(2,3) by force+
  ultimately have "\<not> lock_modes_conflict (mode c) (mode d)"
    using inv assms(5) unfolding lock_inv_def exclusive_def by blast
  then show ?thesis by (cases "mode c"; cases "mode d") (auto simp: lock_modes_conflict_def)
qed

text \<open>\<open>try_acquire\<close> grants a well-formed request exactly when no live claim on the same
  thing is in a conflicting mode; a claim whose deadline has passed never stands in the way.\<close>

lemma try_acquire_grants_iff:
  assumes "lock_reachable m" "prepare_claim cid now q = Inr (c, requested)"
  shows "(\<exists>c'. snd (try_acquire cid now q m) = Inr (Some c')) \<longleftrightarrow>
    (\<forall>(i, d) \<in> set (claims m). now < expires_at d \<longrightarrow> contend c d \<longrightarrow>
       mode c = SHARED \<and> mode d = SHARED)"
proof -
  have wf: "wf_dict (claims m)" using lock_reachable_inv [OF assms(1)] by (simp add: lock_inv_def)
  have conf: "\<not> lock_modes_conflict (mode d) (mode c) \<longleftrightarrow> mode c = SHARED \<and> mode d = SHARED" for d
    by (cases "mode c"; cases "mode d") (auto simp: lock_modes_conflict_def)
  have "(\<exists>c'. snd (try_acquire cid now q m) = Inr (Some c')) \<longleftrightarrow> blocking now c m = []"
    using assms(2) wait_result
    by (cases rule: try_acquire_cases [of cid now q m]) auto
  then show ?thesis
    unfolding blocking_iff [OF wf] conf by (simp add: claim_expired_def not_le)
qed

lemma blocked_acquire:
  assumes "prepare_claim cid now q = Inr (c, requested)" "blocking now c m \<noteq> []"
    and "try_acquire cid now q m = (m', r)"
  shows "edges (waits_for m') = edges (waits_for (fst (drop_expired now m))) \<union>
      {agent_id c} \<times> (agent_id ` set (blocking now c m) - {agent_id c})"
    "r = (if acyclic (edges (waits_for m')) then Inr None
      else Inl (DeadlockDetected (''Deadlock detected while '' @ agent_id c @ '' waits for '' @ resource_id c)))"
proof -
  have "wait_or_deadlock (agent_id c) (resource_id c) (blocking now c m) (fst (drop_expired now m)) = (m', r)"
    using try_acquire_blocked [OF assms(1,2)] assms(3) by simp
  then show "edges (waits_for m') = edges (waits_for (fst (drop_expired now m))) \<union>
      {agent_id c} \<times> (agent_id ` set (blocking now c m) - {agent_id c})"
    "r = (if acyclic (edges (waits_for m')) then Inr None
      else Inl (DeadlockDetected (''Deadlock detected while '' @ agent_id c @ '' waits for '' @ resource_id c)))"
    using wait_edges [of "agent_id c" "resource_id c" "blocking now c m" "fst (drop_expired now m)"]
      wait_outcome [of "agent_id c" "resource_id c" "blocking now c m" "fst (drop_expired now m)"]
    by simp_all
qed

text \<open>A blocked request records that the agent waits for every other holder in its way, and
  raises \<open>DeadlockDetected\<close> exactly when the resulting wait-for graph has a cycle; otherwise it
  returns \<open>None\<close>.\<close>

lemma blocked_acquire_outcome:
  assumes "prepare_claim cid now q = Inr (c, requested)" "blocking now c m \<noteq> []"
    and "try_acquire cid now q m = (m', r)"
  shows "edges (waits_for m') = edges (waits_for (fst (drop_expired now m))) \<union>
      {agent_id c} \<times> (agent_id ` set (blocking now c m) - {agent_id c}) \<and>
    r = (if acyclic (edges (waits_for m')) then Inr None
      else Inl (DeadlockDetected (''Deadlock detected while '' @ agent_id c @ '' waits for '' @ resource_id c)))"
  using blocked_acquire [OF assms] by blast

text \<open>C38: Fence tokens of one canonical key strictly increase: a token granted after any further
  steps of the manager is larger than every token granted before.\<close>

theorem fence_tokens_increase:
  assumes "try_acquire cid now q m = (m1, Inr (Some c))" "canonical_resource_key c = Some k"
    and "lock_step\<^sup>*\<^sup>* m1 m2"
    and "try_acquire cid' now' q' m2 = (m3, Inr (Some d))" "canonical_resource_key d = Some k"
  shows "\<exists>t u. fence_token c = Some t \<and> fence_token d = Some u \<and> t < u"
  using acquired_token [OF assms(1,2)] acquired_token [OF assms(4,5)]
    lock_steps_fence_mono [OF assms(3), of k] by auto

lemma prepared_scope:
  assumes "prepare_claim cid now q = Inr (c, requested)" "is_cross_session c"
  shows "canonical_resource_key c =
    Some (canonical_resource_key_of (tenant_id c) (resource_namespace c) (resource_id c))"
  using assms
  by (auto simp: prepare_claim_def resolve_lock_scope_def bind_ok_Inr_iff Let_def is_cross_session_def
      split: if_splits)

text \<open>Cross-session locks are not confused: the JSON key of \<open>_canonical_resource_key\<close> is
  injective, so two cross-session requests contend exactly when tenant, namespace and resource
  all agree.\<close>

lemma cross_session_scope:
  assumes "prepare_claim cid now q = Inr (c, r)" "prepare_claim cid' now' q' = Inr (d, r')"
    and "is_cross_session c" "is_cross_session d"
  shows "contend c d \<longleftrightarrow> tenant_id c = tenant_id d \<and> resource_namespace c = resource_namespace d \<and>
    resource_id c = resource_id d"
  using prepared_scope [OF assms(1,3)] prepared_scope [OF assms(2,4)]
  by (simp add: contend_def canonical_resource_key_of_inj)

text \<open>An old cycle blocks everyone. While the wait-for graph holds a cycle between two agents
  that have both given up, every blocked request raises \<open>DeadlockDetected\<close>, also the request of
  an agent that waits in no cycle.\<close>

lemma stale_cycle_raises_for_all:
  assumes "prepare_claim cid now q = Inr (c, requested)" "blocking now c m \<noteq> []"
    and "\<not> acyclic (edges (waits_for (fst (drop_expired now m))))"
  shows "snd (try_acquire cid now q m) =
    Inl (DeadlockDetected (''Deadlock detected while '' @ agent_id c @ '' waits for '' @ resource_id c))"
proof -
  obtain m' r where mr: "try_acquire cid now q m = (m', r)" by (cases "try_acquire cid now q m")
  have "\<not> acyclic (edges (waits_for m'))"
    using blocked_acquire(1) [OF assms(1,2) mr] assms(3) acyclic_subset by blast
  then show ?thesis using blocked_acquire(2) [OF assms(1,2) mr] mr by simp
qed

section \<open>Examples and witnesses\<close>

definition ex_request :: "string \<Rightarrow> string \<Rightarrow> lock_mode \<Rightarrow> acquire_request" where
  "ex_request a r md = \<lparr>rq_resource = r, rq_agent = a, rq_session = ''s'', rq_mode = md, rq_ttl = 60,
     rq_tenant = None, rq_namespace = None, rq_fence = None\<rparr>"

definition ex_tenant_request :: "string \<Rightarrow> int \<Rightarrow> acquire_request" where
  "ex_tenant_request a t = (ex_request a ''f:x'' EXCLUSIVE)\<lparr>rq_tenant := Some ''t'', rq_fence := Some t\<rparr>"

definition ex_claim :: "string \<Rightarrow> string \<Rightarrow> string \<Rightarrow> lock_mode \<Rightarrow> claim" where
  "ex_claim i a r md = \<lparr>claim_id = i, resource_id = r, agent_id = a, session_id = ''s'', mode = md,
     expires_at = 60, tenant_id = None, resource_namespace = None, fence_token = None,
     canonical_resource_key = None\<rparr>"

lemmas lock_eval = prepare_claim_def normalize_resource_id_def normalize_fence_token_def
  resolve_lock_scope_def normalize_optional_scope_value_def ex_request_def ex_tenant_request_def
  ex_claim_def py_strip_def strip_by_def py_space_def clamp_ttl_def Let_def try_acquire_def
  drop_expired_def sweep_claims_def claim_expired_def lock_manager_init_def prune_wait_graph_def
  conflicting_claims_def claims_share_lock_scope_def lock_modes_conflict_def grant_claim_def
  next_fence_token_def map_filter_simps blocking_def wait_or_deadlock_def add_waits_def succs_def
  get_or_def

lemma ex_prepare:
  "prepare_claim ''1'' 0 (ex_request ''a'' ''f:x'' EXCLUSIVE) = Inr (ex_claim ''1'' ''a'' ''f:x'' EXCLUSIVE, None)"
  by (simp add: lock_eval)

text \<open>Two shared claims side by side.\<close>

definition ex_shared :: lock_manager where
  "ex_shared = \<lparr>claims = [(''1'', ex_claim ''1'' ''a'' ''f:x'' SHARED), (''2'', ex_claim ''2'' ''b'' ''f:x'' SHARED)],
     waits_for = [], last_fence_tokens = []\<rparr>"

lemma acquire_reach: "lock_reachable m \<Longrightarrow> lock_reachable (fst (try_acquire cid now q m))"
  by (erule rtranclp.rtrancl_into_rtrancl) (rule lock_step.acquire)

lemma ex_shared_reachable: "lock_reachable ex_shared"
proof -
  let ?m1 = "fst (try_acquire ''1'' 0 (ex_request ''a'' ''f:x'' SHARED) lock_manager_init)"
  have "ex_shared = fst (try_acquire ''2'' 0 (ex_request ''b'' ''f:x'' SHARED) ?m1)"
    by (simp add: lock_eval ex_shared_def)
  moreover have "lock_reachable (fst (try_acquire ''2'' 0 (ex_request ''b'' ''f:x'' SHARED) ?m1))"
    by (intro acquire_reach rtranclp.rtrancl_refl)
  ultimately show ?thesis by (simp only:)
qed

theorem lock_mutual_exclusion_witness:
  "mode (ex_claim ''1'' ''a'' ''f:x'' SHARED) = SHARED \<and> mode (ex_claim ''2'' ''b'' ''f:x'' SHARED) = SHARED"
  by (rule lock_mutual_exclusion [OF ex_shared_reachable, of "''1''" _ "''2''"])
    (simp_all add: ex_shared_def ex_claim_def contend_def)

theorem try_acquire_grants_iff_witness:
  "\<not> (\<exists>c'. snd (try_acquire ''1'' 0 (ex_request ''a'' ''f:x'' EXCLUSIVE) ex_shared) = Inr (Some c'))"
  unfolding try_acquire_grants_iff [OF ex_shared_reachable ex_prepare]
  by (simp add: ex_shared_def ex_claim_def contend_def)

text \<open>Agents a and b hold one file each and wait for the other's.\<close>

definition ex_deadlock :: lock_manager where
  "ex_deadlock = \<lparr>claims = [(''1'', ex_claim ''1'' ''a'' ''f:x'' EXCLUSIVE), (''2'', ex_claim ''2'' ''b'' ''f:y'' EXCLUSIVE)],
     waits_for = [(''a'', [''b'']), (''b'', [''a''])], last_fence_tokens = []\<rparr>"

lemma ex_deadlock_blocking:
  "prepare_claim ''3'' 0 (ex_request ''c'' ''f:x'' EXCLUSIVE) = Inr (ex_claim ''3'' ''c'' ''f:x'' EXCLUSIVE, None)"
  "blocking 0 (ex_claim ''3'' ''c'' ''f:x'' EXCLUSIVE) ex_deadlock = [ex_claim ''1'' ''a'' ''f:x'' EXCLUSIVE]"
  "waits_for (fst (drop_expired 0 ex_deadlock)) = [(''a'', [''b'']), (''b'', [''a''])]"
  by (simp_all add: lock_eval ex_deadlock_def)

lemma ex_deadlock_cyclic: "\<not> acyclic (edges [(''a'', [''b'']), (''b'', [''a''])])"
proof -
  have "first_cycle [(''a'', [''b'']), (''b'', [''a''])] = Some [''a'', ''b'', ''a'']"
    by (simp add: first_cycle_def node_count_def dfs_start_def succs_def get_or_def)
  then show ?thesis using first_cycle_iff_acyclic by (metis option.distinct(1))
qed

theorem blocked_acquire_outcome_witness:
  "snd (try_acquire ''3'' 0 (ex_request ''c'' ''f:x'' EXCLUSIVE) ex_deadlock) \<noteq> Inr None"
proof -
  let ?t = "try_acquire ''3'' 0 (ex_request ''c'' ''f:x'' EXCLUSIVE) ex_deadlock"
  have ne: "blocking 0 (ex_claim ''3'' ''c'' ''f:x'' EXCLUSIVE) ex_deadlock \<noteq> []"
    by (simp add: ex_deadlock_blocking(2))
  have "edges (waits_for (fst ?t)) = edges [(''a'', [''b'']), (''b'', [''a''])] \<union> {''c''} \<times> {''a''} \<and>
     snd ?t = (if acyclic (edges (waits_for (fst ?t))) then Inr None
      else Inl (DeadlockDetected (''Deadlock detected while '' @ ''c'' @ '' waits for '' @ ''f:x'')))"
    using blocked_acquire_outcome [OF ex_deadlock_blocking(1) ne surjective_pairing]
    unfolding ex_deadlock_blocking(2,3) by (simp add: ex_claim_def)
  moreover have "\<not> acyclic (edges [(''a'', [''b'']), (''b'', [''a''])] \<union> {''c''} \<times> {''a''})"
    using ex_deadlock_cyclic acyclic_subset by blast
  ultimately show ?thesis by auto
qed

theorem stale_cycle_raises_for_all_witness:
  "snd (try_acquire ''3'' 0 (ex_request ''c'' ''f:x'' EXCLUSIVE) ex_deadlock) =
     Inl (DeadlockDetected ''Deadlock detected while c waits for f:x'') \<and> lock_reachable ex_deadlock"
proof
  show "snd (try_acquire ''3'' 0 (ex_request ''c'' ''f:x'' EXCLUSIVE) ex_deadlock) =
     Inl (DeadlockDetected ''Deadlock detected while c waits for f:x'')"
    using stale_cycle_raises_for_all [OF ex_deadlock_blocking(1), of ex_deadlock] ex_deadlock_cyclic
    by (simp add: ex_deadlock_blocking(2,3)) (simp add: ex_claim_def)
  let ?m1 = "fst (try_acquire ''1'' 0 (ex_request ''a'' ''f:x'' EXCLUSIVE) lock_manager_init)"
  let ?m2 = "fst (try_acquire ''2'' 0 (ex_request ''b'' ''f:y'' EXCLUSIVE) ?m1)"
  let ?m3 = "fst (try_acquire ''3'' 0 (ex_request ''a'' ''f:y'' EXCLUSIVE) ?m2)"
  have "ex_deadlock = fst (try_acquire ''4'' 0 (ex_request ''b'' ''f:x'' EXCLUSIVE) ?m3)"
    by (simp add: lock_eval ex_deadlock_def has_cycle_def first_cycle_def node_count_def dfs_start_def)
  moreover have "lock_reachable (fst (try_acquire ''4'' 0 (ex_request ''b'' ''f:x'' EXCLUSIVE) ?m3))"
    by (intro acquire_reach rtranclp.rtrancl_refl)
  ultimately show "lock_reachable ex_deadlock" by (simp only:)
qed

text \<open>Two cross-session grants in a row.\<close>

definition ex_fence :: "lock_manager \<times> (py_error + claim option)" where
  "ex_fence = try_acquire ''1'' 0 (ex_tenant_request ''a'' 7) lock_manager_init"

theorem fence_tokens_increase_witness:
  "\<exists>c d m3 t u. snd ex_fence = Inr (Some c) \<and>
     try_acquire ''2'' 100 (ex_tenant_request ''b'' 3) (fst ex_fence) = (m3, Inr (Some d)) \<and>
     fence_token c = Some t \<and> fence_token d = Some u \<and> t < u"
proof -
  let ?k = "canonical_resource_key_of (Some ''t'') None ''f:x''"
  obtain c where c: "ex_fence = (fst ex_fence, Inr (Some c))" "canonical_resource_key c = Some ?k"
    by (simp add: ex_fence_def lock_eval)
  obtain m3 d where d: "try_acquire ''2'' 100 (ex_tenant_request ''b'' 3) (fst ex_fence) = (m3, Inr (Some d))"
    "canonical_resource_key d = Some ?k"
    by (simp add: ex_fence_def lock_eval)
  from fence_tokens_increase [OF _ c(2) _ d] c(1) d(1) show ?thesis
    by (metis ex_fence_def rtranclp.rtrancl_refl snd_conv)
qed

theorem cross_session_scope_witness:
  "\<exists>c d. prepare_claim ''1'' 0 (ex_tenant_request ''a'' 7) = Inr (c, Some 7) \<and>
     prepare_claim ''2'' 0 (ex_tenant_request ''b'' 3) = Inr (d, Some 3) \<and> contend c d"
proof -
  obtain c where c: "prepare_claim ''1'' 0 (ex_tenant_request ''a'' 7) = Inr (c, Some 7)" "is_cross_session c"
    "tenant_id c = Some ''t''" "resource_namespace c = None" "resource_id c = ''f:x''"
    by (simp add: lock_eval is_cross_session_def)
  obtain d where d: "prepare_claim ''2'' 0 (ex_tenant_request ''b'' 3) = Inr (d, Some 3)" "is_cross_session d"
    "tenant_id d = Some ''t''" "resource_namespace d = None" "resource_id d = ''f:x''"
    by (simp add: lock_eval is_cross_session_def)
  show ?thesis using cross_session_scope [OF c(1) d(1) c(2) d(2)] c d by auto
qed

end
