(* ===== verification/MessageBus.thy ===== *)
theory MessageBus
  imports Expiry
begin

text \<open>
  The message bus between agents: \<open>InMemoryAgentMessageBus\<close> and \<open>InMemoryMessageStream\<close> of
  \<open>src/focus_agent/multi_agent/message_bus.py\<close>, and the types \<open>AgentMessageType\<close> and
  \<open>AgentMessage\<close> of \<open>contracts.py\<close>. A stream is the bus together with a session and an agent;
  its \<open>poll\<close> and \<open>ack\<close> are the bus operations below. The message id is an argument of
  \<open>publish\<close>, the clock of every operation that reads it.
\<close>

section \<open>Data\<close>

datatype message_type = PROGRESS | CHECKPOINT | HELP_REQUEST | DIRECTIVE | CONFLICT_ALERT

record message =
  msg_id :: string
  msg_session :: string
  msg_source :: string
  msg_target :: "string option"
  msg_type :: message_type
  msg_payload :: "(string, pyval) dict"
  msg_created :: real
  msg_expires :: "real option"
  msg_acked :: "real option"

record message_bus =
  default_ttl :: real
  messages :: "(string, message) dict"

definition message_bus_init :: "real \<Rightarrow> message_bus" where
  "message_bus_init ttl = \<lparr>default_ttl = max ttl 0, messages = []\<rparr>"

section \<open>Operations\<close>

record publish_args =
  pub_session :: string
  pub_source :: string
  pub_target :: "string option"
  pub_type :: message_type
  pub_payload :: "(string, pyval) dict"

definition new_message :: "real \<Rightarrow> string \<Rightarrow> real \<Rightarrow> publish_args \<Rightarrow> message" where
  "new_message ttl mid now a =
     \<lparr>msg_id = mid, msg_session = pub_session a, msg_source = pub_source a,
      msg_target = (case pub_target a of None \<Rightarrow> None | Some t \<Rightarrow> if t = [] then None else Some t),
      msg_type = pub_type a, msg_payload = pub_payload a, msg_created = now,
      msg_expires = (if pub_type a = DIRECTIVE then None else Some (now + ttl)),
      msg_acked = None\<rparr>"

definition publish :: "string \<Rightarrow> real \<Rightarrow> publish_args \<Rightarrow> message_bus \<Rightarrow> message_bus \<times> string" where
  "publish mid now a b =
     (b\<lparr>messages := AList.update mid (new_message (default_ttl b) mid now a) (messages b)\<rparr>, mid)"

definition message_expired :: "real \<Rightarrow> message \<Rightarrow> bool" where
  "message_expired now x = (case msg_expires x of None \<Rightarrow> False | Some e \<Rightarrow> e \<le> now)"

definition sweep_messages :: "real \<Rightarrow> (string, message) dict \<Rightarrow> (string, message) dict \<times> nat" where
  "sweep_messages now d =
    (let expired = map fst (filter (\<lambda>(i, x). message_expired now x) d) in
     (fold AList.delete expired d, length expired))"

definition bus_drop_expired :: "real \<Rightarrow> message_bus \<Rightarrow> message_bus \<times> nat" where
  "bus_drop_expired now b =
    (let (d, n) = sweep_messages now (messages b) in (b\<lparr>messages := d\<rparr>, n))"

definition addressed_to :: "string \<Rightarrow> string \<Rightarrow> message \<Rightarrow> bool" where
  "addressed_to sess agent x = (msg_session x = sess \<and> msg_acked x = None \<and>
     (msg_target x = None \<or> msg_target x = Some agent))"

definition poll :: "string \<Rightarrow> string \<Rightarrow> real \<Rightarrow> message_bus \<Rightarrow> message_bus \<times> message list" where
  "poll sess agent now b =
    (let b1 = fst (bus_drop_expired now b) in
     (b1, filter (addressed_to sess agent) (sort_key msg_created (vals (messages b1)))))"

definition ack :: "string \<Rightarrow> real \<Rightarrow> message_bus \<Rightarrow> message_bus" where
  "ack mid now b = (case map_of (messages b) mid of
     None \<Rightarrow> b
   | Some x \<Rightarrow> b\<lparr>messages := AList.update mid (x\<lparr>msg_acked := Some now\<rparr>) (messages b)\<rparr>)"

definition bus_cleanup_expired :: "real \<Rightarrow> message_bus \<Rightarrow> message_bus \<times> nat" where
  "bus_cleanup_expired now b = bus_drop_expired now b"

section \<open>The table of messages expires\<close>

interpretation message_table: expiring_table message_expired sweep_messages
proof unfold_locales
  fix d :: "(string, message) dict" and now :: real
  assume "wf_dict d"
  then show "fst (sweep_messages now d) = filter (\<lambda>(k, r). \<not> message_expired now r) d"
    by (simp add: sweep_messages_def delete_selected)
qed (auto simp: sweep_messages_def message_expired_def split: option.splits)

lemma bus_drop_expired_simps [simp]:
  "messages (fst (bus_drop_expired now b)) = fst (sweep_messages now (messages b))"
  "snd (bus_drop_expired now b) = snd (sweep_messages now (messages b))"
  "default_ttl (fst (bus_drop_expired now b)) = default_ttl b"
  by (simp_all add: bus_drop_expired_def split_beta)

section \<open>Runs of the bus\<close>

datatype bus_op =
    Publish string real publish_args
  | Poll string string real
  | Ack string real
  | Cleanup real

fun bus_exec :: "message_bus \<Rightarrow> bus_op \<Rightarrow> message_bus" where
  "bus_exec b (Publish mid now a) = fst (publish mid now a b)"
| "bus_exec b (Poll sess agent now) = fst (poll sess agent now b)"
| "bus_exec b (Ack mid now) = ack mid now b"
| "bus_exec b (Cleanup now) = fst (bus_cleanup_expired now b)"

definition bus_run :: "message_bus \<Rightarrow> bus_op list \<Rightarrow> message_bus" where
  "bus_run b ops = foldl bus_exec b ops"

definition bus_inv :: "message_bus \<Rightarrow> bool" where
  "bus_inv b \<longleftrightarrow> wf_dict (messages b) \<and> 0 \<le> default_ttl b \<and> (\<forall>(i, x) \<in> set (messages b).
     msg_id x = i \<and> (msg_type x = DIRECTIVE \<longleftrightarrow> msg_expires x = None))"

lemma bus_inv_init: "bus_inv (message_bus_init ttl)"
  by (simp add: bus_inv_def message_bus_init_def)

lemma bus_inv_drop: "bus_inv b \<Longrightarrow> bus_inv (fst (bus_drop_expired now b))"
  using message_table.sweep_sub [of "messages b" now]
  by (auto simp: bus_inv_def message_table.sweep_wf)

lemma bus_inv_publish: "bus_inv b \<Longrightarrow> bus_inv (fst (publish mid now a b))"
  by (auto simp: bus_inv_def publish_def set_update_dict new_message_def)

lemma bus_inv_ack: "bus_inv b \<Longrightarrow> bus_inv (ack mid now b)"
  by (auto simp: bus_inv_def ack_def set_update_dict dest!: map_of_SomeD split: option.split)

lemma bus_inv_exec: "bus_inv b \<Longrightarrow> bus_inv (bus_exec b op)"
  by (cases op) (simp_all add: bus_inv_publish bus_inv_ack bus_inv_drop poll_def bus_cleanup_expired_def Let_def)

lemma bus_inv_run: "bus_inv b \<Longrightarrow> bus_inv (bus_run b ops)"
  by (induction ops arbitrary: b) (auto simp: bus_run_def intro: bus_inv_exec)

text \<open>The operations that can change or drop the message with id \<open>mid\<close> before its deadline.\<close>

fun touches :: "string \<Rightarrow> bus_op \<Rightarrow> bool" where
  "touches mid (Publish i now a) = (i = mid)"
| "touches mid (Ack i now) = (i = mid)"
| "touches mid _ = False"

fun op_time :: "bus_op \<Rightarrow> real" where
  "op_time (Publish i now a) = now"
| "op_time (Poll s a now) = now"
| "op_time (Ack i now) = now"
| "op_time (Cleanup now) = now"

lemma bus_exec_keeps:
  assumes "bus_inv b" "map_of (messages b) mid = Some x" "\<not> touches mid op"
    and "\<not> message_expired (op_time op) x"
  shows "map_of (messages (bus_exec b op)) mid = Some x"
proof -
  have wf: "wf_dict (messages b)" using assms(1) by (simp add: bus_inv_def)
  show ?thesis
    using assms(2-4)
    by (cases op) (auto simp: publish_def poll_def ack_def bus_cleanup_expired_def Let_def
        message_table.sweep_lookup [OF wf] split: option.split)
qed

lemma bus_run_keeps:
  assumes "bus_inv b" "map_of (messages b) mid = Some x" "\<forall>op \<in> set ops. \<not> touches mid op"
    and "\<forall>op \<in> set ops. \<not> message_expired (op_time op) x"
  shows "map_of (messages (bus_run b ops)) mid = Some x"
  using assms
proof (induction ops arbitrary: b)
  case Nil
  then show ?case by (simp add: bus_run_def)
next
  case (Cons op ops)
  then have "map_of (messages (bus_exec b op)) mid = Some x" "bus_inv (bus_exec b op)"
    by (auto intro: bus_exec_keeps bus_inv_exec)
  with Cons show ?case by (simp add: bus_run_def)
qed

lemma poll_mem:
  assumes "wf_dict (messages b)"
  shows "x \<in> set (snd (poll sess agent now b)) \<longleftrightarrow>
    (\<exists>i. (i, x) \<in> set (messages b)) \<and> \<not> message_expired now x \<and> addressed_to sess agent x"
  by (auto simp: poll_def Let_def mem_vals message_table.sweep_live [OF assms])

section \<open>Properties\<close>

text \<open>\<open>poll\<close> returns exactly the stored messages of the session that are not acknowledged, not
  past their deadline and addressed to the agent or to everyone, oldest first.\<close>

lemma poll_exact:
  assumes "bus_inv b"
  shows "set (snd (poll sess agent now b)) =
      {x. (\<exists>i. (i, x) \<in> set (messages b)) \<and> (\<forall>e. msg_expires x = Some e \<longrightarrow> now < e) \<and>
        msg_session x = sess \<and> msg_acked x = None \<and> (msg_target x = None \<or> msg_target x = Some agent)} \<and>
    sorted (map msg_created (snd (poll sess agent now b)))"
proof
  have "wf_dict (messages b)" using assms by (simp add: bus_inv_def)
  from poll_mem [OF this] show "set (snd (poll sess agent now b)) =
      {x. (\<exists>i. (i, x) \<in> set (messages b)) \<and> (\<forall>e. msg_expires x = Some e \<longrightarrow> now < e) \<and>
        msg_session x = sess \<and> msg_acked x = None \<and> (msg_target x = None \<or> msg_target x = Some agent)}"
    by (auto simp: message_expired_def addressed_to_def split: option.splits)
  show "sorted (map msg_created (snd (poll sess agent now b)))"
    by (simp add: poll_def Let_def sorted_filter)
qed

text \<open>A directive is never lost. After any run of publishes, polls, acknowledgements of other
  messages and cleanups, at any times, the target still receives it.\<close>

lemma directive_survives:
  assumes "bus_inv b" "pub_type a = DIRECTIVE" "pub_target a = Some agent"
    and "\<forall>op \<in> set ops. \<not> touches mid op"
  shows "\<exists>x \<in> set (snd (poll (pub_session a) agent later
      (bus_run (fst (publish mid now a b)) ops))). msg_id x = mid \<and> msg_payload x = pub_payload a"
proof -
  let ?x = "new_message (default_ttl b) mid now a" and ?b1 = "fst (publish mid now a b)"
  have inv: "bus_inv ?b1" using assms(1) by (rule bus_inv_publish)
  have keep: "map_of (messages (bus_run ?b1 ops)) mid = Some ?x"
    using assms(2,4) by (intro bus_run_keeps [OF inv]) (auto simp: publish_def message_expired_def new_message_def)
  have wf: "wf_dict (messages (bus_run ?b1 ops))" using bus_inv_run [OF inv] by (simp add: bus_inv_def)
  have "?x \<in> set (snd (poll (pub_session a) agent later (bus_run ?b1 ops)))"
    unfolding poll_mem [OF wf] using assms(2,3) map_of_SomeD [OF keep]
    by (auto simp: message_expired_def addressed_to_def new_message_def)
  moreover have "msg_id ?x = mid" "msg_payload ?x = pub_payload a" by (simp_all add: new_message_def)
  ultimately show ?thesis by blast
qed

definition ex_publish :: publish_args where
  "ex_publish = \<lparr>pub_session = ''s'', pub_source = ''lead'', pub_target = Some ''w'', pub_type = DIRECTIVE,
     pub_payload = [(''do'', PStr ''stop'')]\<rparr>"

theorem poll_exact_witness:
  "new_message 300 ''m1'' 0 ex_publish \<in>
     set (snd (poll ''s'' ''w'' 900 (fst (publish ''m1'' 0 ex_publish (message_bus_init 300)))))"
proof -
  have inv: "bus_inv (fst (publish ''m1'' 0 ex_publish (message_bus_init 300)))"
    by (intro bus_inv_publish bus_inv_init)
  show ?thesis unfolding poll_exact [OF inv, THEN conjunct1]
    by (simp add: publish_def message_bus_init_def new_message_def ex_publish_def)
qed

theorem directive_survives_witness:
  "\<exists>x \<in> set (snd (poll ''s'' ''w'' 2000 (bus_run (fst (publish ''m1'' 0 ex_publish (message_bus_init 300)))
      [Cleanup 1000, Ack ''m2'' 1000, Poll ''s'' ''w'' 1500]))). msg_id x = ''m1''"
  using directive_survives [OF bus_inv_init, of ex_publish "''w''"
      "[Cleanup 1000, Ack ''m2'' 1000, Poll ''s'' ''w'' 1500]" "''m1''" 2000 0 300]
  by (auto simp: ex_publish_def)

end
