(* ===== verification/ApprovalQueue.thy ===== *)
theory ApprovalQueue
  imports Prelude
begin

text \<open>
  The queue of tool approvals: \<open>InMemoryApprovalQueue\<close> of
  \<open>src/focus_agent/multi_agent/approval_queue.py\<close>, and the types \<open>ApprovalStatus\<close> and
  \<open>ApprovalRequest\<close> of \<open>contracts.py\<close>.

  The coroutine \<open>submit_and_wait\<close> is three steps: \<open>submit_begin\<close> up to the wait, and then
  \<open>wait_woken\<close> when its event is set or \<open>wait_timeout\<close> when \<open>asyncio.wait_for\<close> gives up. Steps
  of other callers may come between them. The asyncio event of a request is a flag.
\<close>

section \<open>Data\<close>

datatype approval_status = PENDING | APPROVED | REJECTED | AUTO_APPROVED | TIMED_OUT

record approval =
  ar_id :: string
  ar_session :: string
  ar_agent :: string
  ar_tool :: string
  ar_args :: "(string, pyval) dict"
  ar_risk :: string
  ar_status :: approval_status
  ar_submitted :: real
  ar_timeout :: real
  ar_decided_by :: "string option"

record approval_queue =
  auto_approve_low_risk :: bool
  requests :: "(string, approval) dict"
  aq_events :: "(string, bool) dict"

definition approval_queue_init :: "bool \<Rightarrow> approval_queue" where
  "approval_queue_init auto = \<lparr>auto_approve_low_risk = auto, requests = [], aq_events = []\<rparr>"

record submission =
  sub_id :: string
  sub_session :: string
  sub_agent :: string
  sub_tool :: string
  sub_args :: "(string, pyval) dict"
  sub_risk :: string
  sub_ttl :: real

section \<open>Operations\<close>

definition normalize_risk :: "string \<Rightarrow> string" where
  "normalize_risk r = py_lower (py_strip (if r = [] then ''low'' else r))"

definition make_request :: "real \<Rightarrow> submission \<Rightarrow> approval_status \<Rightarrow> approval" where
  "make_request now s st =
     \<lparr>ar_id = sub_id s, ar_session = sub_session s, ar_agent = sub_agent s, ar_tool = sub_tool s,
      ar_args = sub_args s, ar_risk = normalize_risk (sub_risk s), ar_status = st, ar_submitted = now,
      ar_timeout = now + clamp_ttl (sub_ttl s), ar_decided_by = None\<rparr>"

definition store_request :: "real \<Rightarrow> submission \<Rightarrow> approval_status \<Rightarrow> approval_queue \<Rightarrow> approval_queue" where
  "store_request now s st q =
     q\<lparr>requests := AList.update (sub_id s) (make_request now s st) (requests q)\<rparr>"

definition set_request_status :: "string \<Rightarrow> approval_status \<Rightarrow> string \<Rightarrow> approval_queue \<Rightarrow> approval_queue" where
  "set_request_status rid st by_whom q = (case map_of (requests q) rid of
     None \<Rightarrow> q
   | Some r \<Rightarrow> if ar_status r \<noteq> PENDING then q
       else q\<lparr>requests := AList.update rid
          (r\<lparr>ar_status := st, ar_decided_by := Some (if by_whom = [] then ''unknown'' else by_whom)\<rparr>)
          (requests q)\<rparr>)"

definition set_event :: "string \<Rightarrow> approval_queue \<Rightarrow> approval_queue" where
  "set_event rid q = (case map_of (aq_events q) rid of
     None \<Rightarrow> q | Some b \<Rightarrow> q\<lparr>aq_events := AList.update rid True (aq_events q)\<rparr>)"

text \<open>\<open>submit_begin\<close> returns the final status at once, or \<open>None\<close> when the caller waits.\<close>

definition submit_begin :: "real \<Rightarrow> submission \<Rightarrow> approval_queue \<Rightarrow> approval_queue \<times> approval_status option" where
  "submit_begin now s q =
    (if auto_approve_low_risk q \<and> normalize_risk (sub_risk s) = ''low''
     then (store_request now s AUTO_APPROVED q, Some AUTO_APPROVED)
     else (store_request now s PENDING (q\<lparr>aq_events := AList.update (sub_id s) False (aq_events q)\<rparr>), None))"

definition wait_woken :: "string \<Rightarrow> approval_queue \<Rightarrow> approval_status" where
  "wait_woken rid q = (case map_of (requests q) rid of None \<Rightarrow> TIMED_OUT | Some r \<Rightarrow> ar_status r)"

definition wait_timeout :: "string \<Rightarrow> approval_queue \<Rightarrow> approval_queue \<times> approval_status" where
  "wait_timeout rid q = (set_request_status rid TIMED_OUT ''timeout'' q, TIMED_OUT)"

definition decide :: "string \<Rightarrow> bool \<Rightarrow> string \<Rightarrow> approval_queue \<Rightarrow> approval_queue" where
  "decide rid approved by_whom q =
     set_event rid (set_request_status rid (if approved then APPROVED else REJECTED) by_whom q)"

definition submit_pending :: "real \<Rightarrow> submission \<Rightarrow> approval_queue \<Rightarrow> approval_queue \<times> (py_error + approval)" where
  "submit_pending now s q =
    (let q' = store_request now s PENDING q in
     (q', case map_of (requests q') (sub_id s) of
        None \<Rightarrow> Inl (KeyError (''Unknown approval request: '' @ sub_id s)) | Some r \<Rightarrow> Inr r))"

definition pending_due :: "real \<Rightarrow> approval \<Rightarrow> bool" where
  "pending_due now r = (ar_status r = PENDING \<and> ar_timeout r \<le> now)"

definition expire_pending :: "real \<Rightarrow> approval_queue \<Rightarrow> approval_queue \<times> nat" where
  "expire_pending now q =
    (let expired = map fst (filter (\<lambda>(i, r). pending_due now r) (requests q));
         q' = q\<lparr>requests := map (\<lambda>(i, r). (i, if pending_due now r
                then r\<lparr>ar_status := TIMED_OUT, ar_decided_by := Some ''timeout''\<rparr> else r)) (requests q)\<rparr>
     in (fold set_event expired q', length expired))"

definition list_pending :: "real \<Rightarrow> approval_queue \<Rightarrow> approval_queue \<times> approval list" where
  "list_pending now q =
    (let q' = fst (expire_pending now q) in
     (q', filter (\<lambda>r. ar_status r = PENDING) (vals (requests q'))))"

section \<open>Runs of the queue\<close>

datatype approval_op =
    SubmitWait real submission
  | SubmitPending real submission
  | WaitTimeout string
  | Decide string bool string
  | Expire real
  | ListPending real

fun approval_exec :: "approval_queue \<Rightarrow> approval_op \<Rightarrow> approval_queue" where
  "approval_exec q (SubmitWait now s) = fst (submit_begin now s q)"
| "approval_exec q (SubmitPending now s) = fst (submit_pending now s q)"
| "approval_exec q (WaitTimeout rid) = fst (wait_timeout rid q)"
| "approval_exec q (Decide rid approved by_whom) = decide rid approved by_whom q"
| "approval_exec q (Expire now) = fst (expire_pending now q)"
| "approval_exec q (ListPending now) = fst (list_pending now q)"

definition approval_run :: "approval_queue \<Rightarrow> approval_op list \<Rightarrow> approval_queue" where
  "approval_run q ops = foldl approval_exec q ops"

fun submits :: "string \<Rightarrow> approval_op \<Rightarrow> bool" where
  "submits rid (SubmitWait now s) = (sub_id s = rid)"
| "submits rid (SubmitPending now s) = (sub_id s = rid)"
| "submits rid _ = False"

section \<open>Lookups after each operation\<close>

named_theorems queue_simps \<open>the request table after an operation of the queue\<close>

lemma requests_set_event [queue_simps]: "requests (set_event rid q) = requests q"
  by (simp add: set_event_def split: option.split)

lemma requests_fold_set_event [queue_simps]: "requests (fold set_event rids q) = requests q"
  by (induction rids arbitrary: q) (simp_all add: queue_simps)

lemma auto_set_event [queue_simps]: "auto_approve_low_risk (set_event rid q) = auto_approve_low_risk q"
  by (simp add: set_event_def split: option.split)

lemma auto_fold_set_event [queue_simps]:
  "auto_approve_low_risk (fold set_event rids q) = auto_approve_low_risk q"
  by (induction rids arbitrary: q) (simp_all add: queue_simps)

lemma lookup_store [queue_simps]:
  "map_of (requests (store_request now s st q)) rid =
    (if rid = sub_id s then Some (make_request now s st) else map_of (requests q) rid)"
  by (simp add: store_request_def)

lemma lookup_set_status [queue_simps]:
  "map_of (requests (set_request_status i st by_whom q)) rid =
    (case map_of (requests q) rid of None \<Rightarrow> None
     | Some r \<Rightarrow> Some (if rid = i \<and> ar_status r = PENDING
         then r\<lparr>ar_status := st, ar_decided_by := Some (if by_whom = [] then ''unknown'' else by_whom)\<rparr> else r))"
  by (auto simp: set_request_status_def split: option.split)

lemma lookup_expire [queue_simps]:
  "map_of (requests (fst (expire_pending now q))) rid =
    (case map_of (requests q) rid of None \<Rightarrow> None
     | Some r \<Rightarrow> Some (if pending_due now r
         then r\<lparr>ar_status := TIMED_OUT, ar_decided_by := Some ''timeout''\<rparr> else r))"
  by (auto simp: expire_pending_def Let_def queue_simps map_of_map_vals split: option.split)

lemma list_pending_state [queue_simps]: "fst (list_pending now q) = fst (expire_pending now q)"
  by (simp add: list_pending_def Let_def)

lemma auto_frame [queue_simps]: "auto_approve_low_risk (approval_exec q op) = auto_approve_low_risk q"
  by (cases op) (auto simp: submit_begin_def submit_pending_def wait_timeout_def decide_def
      expire_pending_def queue_simps store_request_def set_request_status_def Let_def split: option.split)

text \<open>One step: a decided request of another id stays as it is.\<close>

lemma approval_exec_decided:
  assumes "map_of (requests q) rid = Some r" "ar_status r \<noteq> PENDING" "\<not> submits rid op"
  shows "map_of (requests (approval_exec q op)) rid = Some r"
  using assms
  by (cases op) (auto simp: submit_begin_def submit_pending_def wait_timeout_def decide_def Let_def
      queue_simps pending_due_def store_request_def)

lemma approval_run_decided:
  assumes "map_of (requests q) rid = Some r" "ar_status r \<noteq> PENDING" "\<forall>op \<in> set ops. \<not> submits rid op"
  shows "map_of (requests (approval_run q ops)) rid = Some r"
  using assms
  by (induction ops arbitrary: q) (auto simp: approval_run_def approval_exec_decided)

text \<open>
  Where an approval can come from. A request is undecided after \<open>ops\<close> when nobody decided it since it
  was last submitted; it was approved in \<open>ops\<close> when an approving decision found it undecided and it
  was not submitted again.
\<close>

fun decides :: "string \<Rightarrow> approval_op \<Rightarrow> bool" where
  "decides rid (Decide i approved by_whom) = (i = rid)"
| "decides rid _ = False"

definition undecided :: "approval_op list \<Rightarrow> string \<Rightarrow> bool" where
  "undecided ops rid \<longleftrightarrow> (\<exists>pre sub mid. ops = pre @ sub # mid \<and> submits rid sub \<and>
     (\<forall>op \<in> set mid. \<not> submits rid op \<and> \<not> decides rid op))"

definition approved_in :: "approval_op list \<Rightarrow> string \<Rightarrow> string \<Rightarrow> bool" where
  "approved_in ops rid by_whom \<longleftrightarrow> (\<exists>pre post. ops = pre @ Decide rid True by_whom # post \<and> undecided pre rid \<and>
     (\<forall>op \<in> set post. \<not> submits rid op))"

definition auto_submitted :: "approval_op list \<Rightarrow> string \<Rightarrow> bool" where
  "auto_submitted ops rid \<longleftrightarrow> (\<exists>pre now s post. ops = pre @ SubmitWait now s # post \<and> sub_id s = rid \<and>
     normalize_risk (sub_risk s) = ''low'' \<and> (\<forall>op \<in> set post. \<not> submits rid op))"

definition authorised :: "approval_queue \<Rightarrow> approval_op list \<Rightarrow> string \<Rightarrow> approval \<Rightarrow> bool" where
  "authorised q ops rid r \<longleftrightarrow> (ar_status r = PENDING \<longrightarrow> undecided ops rid) \<and>
    (ar_status r = APPROVED \<longrightarrow> (\<exists>by_whom. approved_in ops rid by_whom \<and>
       ar_decided_by r = Some (if by_whom = [] then ''unknown'' else by_whom))) \<and>
    (ar_status r = AUTO_APPROVED \<longrightarrow> auto_approve_low_risk q \<and> ar_risk r = ''low'' \<and> auto_submitted ops rid)"

lemma undecided_submit: "submits rid op \<Longrightarrow> undecided (ops @ [op]) rid"
  unfolding undecided_def by (intro exI [of _ ops] exI [of _ op] exI [of _ "[]"]) simp

lemma undecided_later: "undecided ops rid \<Longrightarrow> \<not> submits rid op \<Longrightarrow> \<not> decides rid op \<Longrightarrow> undecided (ops @ [op]) rid"
  unfolding undecided_def by (elim exE, rename_tac pre sub mid, rule_tac x = pre in exI, rule_tac x = sub in exI,
    rule_tac x = "mid @ [op]" in exI) auto

lemma approved_now: "undecided ops rid \<Longrightarrow> approved_in (ops @ [Decide rid True by_whom]) rid by_whom"
  unfolding approved_in_def by (intro exI [of _ ops] exI [of _ "[]"]) simp

lemma approved_later: "approved_in ops rid by_whom \<Longrightarrow> \<not> submits rid op \<Longrightarrow> approved_in (ops @ [op]) rid by_whom"
  unfolding approved_in_def by (elim exE, rename_tac pre post, rule_tac x = pre in exI, rule_tac x = "post @ [op]" in exI) auto

lemma auto_now: "normalize_risk (sub_risk s) = ''low'' \<Longrightarrow> auto_submitted (ops @ [SubmitWait now s]) (sub_id s)"
  unfolding auto_submitted_def by (intro exI [of _ ops] exI [of _ now] exI [of _ s] exI [of _ "[]"]) simp

lemma auto_later: "auto_submitted ops rid \<Longrightarrow> \<not> submits rid op \<Longrightarrow> auto_submitted (ops @ [op]) rid"
  unfolding auto_submitted_def by (elim exE, rename_tac pre now s post, rule_tac x = pre in exI, rule_tac x = now in exI,
    rule_tac x = s in exI, rule_tac x = "post @ [op]" in exI) auto

text \<open>A step that does not submit a request keeps it, or is a decision or a timeout that finds it pending.\<close>

lemma approval_exec_kept:
  assumes "map_of (requests (approval_exec q op)) rid = Some r" "\<not> submits rid op"
  obtains r' where "map_of (requests q) rid = Some r'" "ar_risk r = ar_risk r'"
    "r = r' \<and> (ar_status r' = PENDING \<longrightarrow> \<not> decides rid op) \<or>
     (\<exists>by_whom. op = Decide rid True by_whom \<and> ar_status r' = PENDING \<and> ar_status r = APPROVED \<and>
        ar_decided_by r = Some (if by_whom = [] then ''unknown'' else by_whom)) \<or>
     ar_status r \<in> {REJECTED, TIMED_OUT}"
  using assms
  by (cases op) (auto simp: submit_begin_def submit_pending_def wait_timeout_def decide_def Let_def queue_simps
      store_request_def split: option.splits if_splits)

lemma approval_exec_authorised:
  assumes "map_of (requests (approval_exec q op)) rid = Some r"
    and "\<And>r'. map_of (requests q) rid = Some r' \<Longrightarrow> authorised q ops rid r'"
  shows "authorised q (ops @ [op]) rid r"
proof (cases "submits rid op")
  case True
  then show ?thesis using assms(1) auto_now undecided_submit [OF True]
    by (cases op) (auto simp: submit_begin_def submit_pending_def queue_simps authorised_def make_request_def
        store_request_def Let_def split: if_splits)
next
  case False
  obtain r' where r': "map_of (requests q) rid = Some r'" "ar_risk r = ar_risk r'"
    "r = r' \<and> (ar_status r' = PENDING \<longrightarrow> \<not> decides rid op) \<or>
     (\<exists>by_whom. op = Decide rid True by_whom \<and> ar_status r' = PENDING \<and> ar_status r = APPROVED \<and>
        ar_decided_by r = Some (if by_whom = [] then ''unknown'' else by_whom)) \<or>
     ar_status r \<in> {REJECTED, TIMED_OUT}"
    by (rule approval_exec_kept [OF assms(1) False]) (rule that)
  have a: "authorised q ops rid r'" by (rule assms(2) [OF r'(1)])
  from r'(3) show ?thesis
  proof (elim disjE exE conjE)
    assume "r = r'" "ar_status r' = PENDING \<longrightarrow> \<not> decides rid op"
    then show ?thesis using a undecided_later [OF _ False] approved_later [OF _ False] auto_later [OF _ False]
      unfolding authorised_def by blast
  next
    fix by_whom
    assume d: "op = Decide rid True by_whom" "ar_status r' = PENDING" "ar_status r = APPROVED"
      "ar_decided_by r = Some (if by_whom = [] then ''unknown'' else by_whom)"
    then have "approved_in (ops @ [op]) rid by_whom" using a approved_now by (simp add: authorised_def)
    then show ?thesis using d(3,4) by (simp add: authorised_def) blast
  next
    assume "ar_status r \<in> {REJECTED, TIMED_OUT}"
    then have "ar_status r \<noteq> PENDING" "ar_status r \<noteq> APPROVED" "ar_status r \<noteq> AUTO_APPROVED" by auto
    then show ?thesis by (simp add: authorised_def)
  qed
qed

lemma auto_run: "auto_approve_low_risk (approval_run q ops) = auto_approve_low_risk q"
  by (induction ops arbitrary: q) (simp_all add: approval_run_def queue_simps)

lemma approval_run_authorised:
  "map_of (requests (approval_run (approval_queue_init auto) ops)) rid = Some r \<Longrightarrow>
    authorised (approval_queue_init auto) ops rid r"
proof (induction ops arbitrary: r rule: rev_induct)
  case Nil
  then show ?case by (simp add: approval_run_def approval_queue_init_def)
next
  case (snoc op ops)
  let ?q = "approval_run (approval_queue_init auto) ops"
  have "map_of (requests (approval_exec ?q op)) rid = Some r"
    using snoc.prems by (simp add: approval_run_def)
  moreover have "authorised ?q ops rid r'" if "map_of (requests ?q) rid = Some r'" for r'
    using snoc.IH [OF that] by (simp add: authorised_def auto_run)
  ultimately have "authorised ?q (ops @ [op]) rid r" by (rule approval_exec_authorised)
  then show ?case by (simp add: authorised_def auto_run)
qed

section \<open>Properties\<close>

text \<open>C11: no tool is approved without a decision. Whatever the callers do, in whatever order, a
  request that ends approved was decided with \<open>approved=True\<close> after it was last submitted, by the one
  named in the request, and nobody decided it between that submission and this decision; one that
  is auto-approved has risk \<open>low\<close>, was last submitted with that risk by a waiting caller, and the
  queue has auto-approval switched on.\<close>

theorem approved_only_by_decision:
  assumes "map_of (requests (approval_run (approval_queue_init auto) ops)) rid = Some r"
  shows "(ar_status r = APPROVED \<longrightarrow> (\<exists>pre sub mid by_whom post.
      ops = pre @ [sub] @ mid @ [Decide rid True by_whom] @ post \<and> submits rid sub \<and>
      (\<forall>op \<in> set mid. \<not> submits rid op \<and> \<not> decides rid op) \<and> (\<forall>op \<in> set post. \<not> submits rid op) \<and>
      ar_decided_by r = Some (if by_whom = [] then ''unknown'' else by_whom))) \<and>
    (ar_status r = AUTO_APPROVED \<longrightarrow> auto \<and> ar_risk r = ''low'' \<and> (\<exists>pre now s post.
      ops = pre @ [SubmitWait now s] @ post \<and> sub_id s = rid \<and> normalize_risk (sub_risk s) = ''low'' \<and>
      (\<forall>op \<in> set post. \<not> submits rid op)))"
proof -
  have "\<exists>pre sub mid post. ops = pre @ [sub] @ mid @ [Decide rid True w] @ post \<and> submits rid sub \<and>
      (\<forall>op \<in> set mid. \<not> submits rid op \<and> \<not> decides rid op) \<and> (\<forall>op \<in> set post. \<not> submits rid op)"
    if "approved_in ops rid w" for w
    using that by (auto simp: approved_in_def undecided_def) blast
  note approved = this
  have a: "authorised (approval_queue_init auto) ops rid r" by (rule approval_run_authorised [OF assms])
  show ?thesis
  proof (intro conjI impI)
    assume "ar_status r = APPROVED"
    then obtain w where w: "approved_in ops rid w" "ar_decided_by r = Some (if w = [] then ''unknown'' else w)"
      using a unfolding authorised_def by blast
    show "\<exists>pre sub mid by_whom post. ops = pre @ [sub] @ mid @ [Decide rid True by_whom] @ post \<and> submits rid sub \<and>
      (\<forall>op \<in> set mid. \<not> submits rid op \<and> \<not> decides rid op) \<and> (\<forall>op \<in> set post. \<not> submits rid op) \<and>
      ar_decided_by r = Some (if by_whom = [] then ''unknown'' else by_whom)"
      using approved [OF w(1)] w(2) by blast
  qed (use a in \<open>simp_all add: authorised_def auto_submitted_def approval_queue_init_def\<close>)
qed

text \<open>A decision is final. Once a request is not pending, decisions, timeouts, expiry sweeps and
  submissions of other requests leave it unchanged.\<close>

lemma decision_final:
  assumes "map_of (requests q) rid = Some r" "ar_status r \<noteq> PENDING"
    and "\<forall>op \<in> set ops. \<not> submits rid op"
  shows "map_of (requests (approval_run q ops)) rid = Some r"
  using assms by (rule approval_run_decided)

text \<open>\<open>list_pending\<close> first times out what is due: it returns exactly the pending requests whose
  deadline lies ahead, and afterwards no pending request is past its deadline.\<close>

lemma list_pending_exact:
  assumes "wf_dict (requests q)"
  shows "set (snd (list_pending now q)) =
      {r. \<exists>i. (i, r) \<in> set (requests q) \<and> ar_status r = PENDING \<and> now < ar_timeout r} \<and>
    (\<forall>i r. map_of (requests (fst (list_pending now q))) i = Some r \<longrightarrow> ar_status r = PENDING \<longrightarrow> now < ar_timeout r)"
proof
  have "set (snd (list_pending now q)) = {r. \<exists>i. (i, r) \<in>
      set (requests (fst (expire_pending now q))) \<and> ar_status r = PENDING}"
    by (auto simp: list_pending_def Let_def mem_vals)
  also have "\<dots> = {r. \<exists>i. (i, r) \<in> set (requests q) \<and> ar_status r = PENDING \<and> now < ar_timeout r}"
    by (force simp: expire_pending_def Let_def queue_simps pending_due_def split: if_splits)
  finally show "set (snd (list_pending now q)) =
      {r. \<exists>i. (i, r) \<in> set (requests q) \<and> ar_status r = PENDING \<and> now < ar_timeout r}" .
qed (auto simp: queue_simps pending_due_def split: option.splits if_splits)

text \<open>The answer of a timed-out wait can contradict the queue. If a decision lands after
  \<open>asyncio.wait_for\<close> gave up and before the timeout is recorded, \<open>submit_and_wait\<close> returns
  \<open>TIMED_OUT\<close> while the queue keeps the decision.\<close>

lemma timeout_answer_contradicts_decision:
  assumes "map_of (requests q) rid = Some r" "ar_status r = PENDING"
  shows "snd (wait_timeout rid (decide rid True by_whom q)) = TIMED_OUT \<and>
    wait_woken rid (fst (wait_timeout rid (decide rid True by_whom q))) = APPROVED"
  using assms by (simp add: wait_timeout_def decide_def wait_woken_def queue_simps)

definition ex_submission :: submission where
  "ex_submission = \<lparr>sub_id = ''r1'', sub_session = ''s'', sub_agent = ''a'', sub_tool = ''rm'',
     sub_args = [], sub_risk = ''high'', sub_ttl = 30\<rparr>"

definition ex_queue :: approval_queue where
  "ex_queue = fst (submit_begin 0 ex_submission (approval_queue_init True))"

lemma ex_queue_lookup: "map_of (requests ex_queue) ''r1'' = Some (make_request 0 ex_submission PENDING)"
  by (simp add: ex_queue_def submit_begin_def ex_submission_def approval_queue_init_def normalize_risk_def
      py_lower_def py_strip_def strip_by_def py_space_def lower_char_def store_request_def)

text \<open>A request that was approved, submitted again, and approved again by someone else.\<close>

definition ex_ops :: "approval_op list" where
  "ex_ops = [SubmitWait 0 ex_submission, Decide ''r1'' True ''bob'', SubmitPending 5 ex_submission, ListPending 6,
     Decide ''r1'' True ''eve'', Decide ''r1'' False ''bob'', Expire 99]"

theorem approved_only_by_decision_witness:
  "\<exists>r pre mid post. map_of (requests (approval_run (approval_queue_init True) ex_ops)) ''r1'' = Some r \<and>
     ar_decided_by r = Some ''eve'' \<and> (\<exists>sub by_whom. submits ''r1'' sub \<and> by_whom = ''eve'' \<and>
       ex_ops = pre @ [sub] @ mid @ [Decide ''r1'' True by_whom] @ post)"
proof -
  have "map_option (\<lambda>r. (ar_status r, ar_decided_by r)) (map_of (requests (approval_run (approval_queue_init True) ex_ops)) ''r1'') =
      Some (APPROVED, Some ''eve'')"
    by code_simp
  then obtain r where r: "map_of (requests (approval_run (approval_queue_init True) ex_ops)) ''r1'' = Some r"
    "ar_status r = APPROVED" "ar_decided_by r = Some ''eve''"
    by auto
  from approved_only_by_decision [OF r(1)] r(2) obtain pre sub mid w post
    where o: "ex_ops = pre @ [sub] @ mid @ [Decide ''r1'' True w] @ post" "submits ''r1'' sub"
      "ar_decided_by r = Some (if w = [] then ''unknown'' else w)"
    by blast
  then have "w = ''eve''" using r(3) by (simp split: if_splits)
  then show ?thesis using o r by blast
qed

theorem decision_final_witness:
  "wait_woken ''r1'' (approval_run (decide ''r1'' False ''bob'' ex_queue)
     [Decide ''r1'' True ''eve'', Expire 99, WaitTimeout ''r1'']) = REJECTED"
proof -
  obtain r where r: "map_of (requests (decide ''r1'' False ''bob'' ex_queue)) ''r1'' = Some r"
    "ar_status r = REJECTED"
    by (simp add: decide_def queue_simps ex_queue_lookup make_request_def)
  show ?thesis
    using decision_final [OF r(1), of "[Decide ''r1'' True ''eve'', Expire 99, WaitTimeout ''r1'']"] r(2)
    by (simp add: wait_woken_def)
qed

theorem list_pending_exact_witness:
  "make_request 0 ex_submission PENDING \<in> set (snd (list_pending 29 ex_queue))"
proof -
  have q: "requests ex_queue = [(''r1'', make_request 0 ex_submission PENDING)]"
    by (simp add: ex_queue_def submit_begin_def ex_submission_def approval_queue_init_def normalize_risk_def
        py_lower_def py_strip_def strip_by_def py_space_def lower_char_def store_request_def)
  then have wf: "wf_dict (requests ex_queue)" by simp
  show ?thesis unfolding list_pending_exact [OF wf, THEN conjunct1]
    by (simp add: q) (simp add: make_request_def ex_submission_def clamp_ttl_def)
qed

theorem timeout_answer_contradicts_decision_witness:
  "snd (wait_timeout ''r1'' (decide ''r1'' True ''bob'' ex_queue)) = TIMED_OUT \<and>
    wait_woken ''r1'' (fst (wait_timeout ''r1'' (decide ''r1'' True ''bob'' ex_queue))) = APPROVED"
  by (rule timeout_answer_contradicts_decision [OF ex_queue_lookup]) (simp add: make_request_def)

end
