(* ===== verification/Maintenance.thy ===== *)
theory Maintenance
  imports ResourceLock MessageBus ApprovalQueue
begin

text \<open>
  The maintenance jobs of the multi-agent runtime: \<open>MultiAgentMaintenanceWorker\<close> and
  \<open>run_multi_agent_maintenance\<close> of \<open>src/focus_agent/multi_agent/maintenance.py\<close>, run on the
  in-memory lock manager, message bus and approval queue. Each port is optional, as in the code
  (\<open>getattr(backend, name, None)\<close>). Every call reads the monotonic clock once for itself and
  once in each job it runs: these readings are the record \<open>ticks\<close>. The thread that calls
  \<open>run_once\<close> every second is not modelled.
\<close>

record backend =
  bk_locks :: "lock_manager option"
  bk_bus :: "message_bus option"
  bk_queue :: "approval_queue option"

record ticks =
  tk_now :: real
  tk_locks :: real
  tk_bus :: real
  tk_queue :: real
  tk_deadlocks :: real

record report =
  rp_locks :: nat
  rp_messages :: nat
  rp_approvals :: nat
  rp_deadlocks :: "string list list"

definition empty_report :: report where
  "empty_report = \<lparr>rp_locks = 0, rp_messages = 0, rp_approvals = 0, rp_deadlocks = []\<rparr>"

section \<open>One job on one port\<close>

text \<open>\<open>_call_int\<close> and \<open>_call_list\<close>: a missing port answers 0 and the empty list.\<close>

definition call_int :: "('p \<Rightarrow> 'p \<times> nat) \<Rightarrow> 'p option \<Rightarrow> 'p option \<times> nat" where
  "call_int op port = (case port of None \<Rightarrow> (None, 0) | Some p \<Rightarrow> (let (p', n) = op p in (Some p', n)))"

definition call_list :: "('p \<Rightarrow> 'p \<times> 'r list) \<Rightarrow> 'p option \<Rightarrow> 'p option \<times> 'r list" where
  "call_list op port = (case port of None \<Rightarrow> (None, []) | Some p \<Rightarrow> (let (p', r) = op p in (Some p', r)))"

definition clean_locks :: "real \<Rightarrow> backend \<times> report \<Rightarrow> backend \<times> report" where
  "clean_locks t br = (case br of (b, r) \<Rightarrow>
     (let (p, n) = call_int (cleanup_expired t) (bk_locks b) in (b\<lparr>bk_locks := p\<rparr>, r\<lparr>rp_locks := n\<rparr>)))"

definition clean_bus :: "real \<Rightarrow> backend \<times> report \<Rightarrow> backend \<times> report" where
  "clean_bus t br = (case br of (b, r) \<Rightarrow>
     (let (p, n) = call_int (bus_cleanup_expired t) (bk_bus b) in (b\<lparr>bk_bus := p\<rparr>, r\<lparr>rp_messages := n\<rparr>)))"

definition expire_queue :: "real \<Rightarrow> backend \<times> report \<Rightarrow> backend \<times> report" where
  "expire_queue t br = (case br of (b, r) \<Rightarrow>
     (let (p, n) = call_int (expire_pending t) (bk_queue b) in (b\<lparr>bk_queue := p\<rparr>, r\<lparr>rp_approvals := n\<rparr>)))"

definition find_deadlocks :: "real \<Rightarrow> backend \<times> report \<Rightarrow> backend \<times> report" where
  "find_deadlocks t br = (case br of (b, r) \<Rightarrow>
     (let (p, ds) = call_list (detect_deadlocks t) (bk_locks b) in (b\<lparr>bk_locks := p\<rparr>, r\<lparr>rp_deadlocks := ds\<rparr>)))"

definition run_multi_agent_maintenance :: "ticks \<Rightarrow> backend \<Rightarrow> backend \<times> report" where
  "run_multi_agent_maintenance tk b =
    find_deadlocks (tk_deadlocks tk) (expire_queue (tk_queue tk)
      (clean_bus (tk_bus tk) (clean_locks (tk_locks tk) (b, empty_report))))"

section \<open>The worker\<close>

record worker =
  wk_backend :: backend
  wk_lock_interval :: real
  wk_bus_interval :: real
  wk_queue_interval :: real
  wk_deadlock_interval :: real
  wk_last_locks :: real
  wk_last_bus :: real
  wk_last_queue :: real
  wk_last_deadlocks :: real
  wk_last_report :: report

definition positive_interval :: "real \<Rightarrow> real" where
  "positive_interval v = max v (1 / 1000)"

definition worker_init :: "backend \<Rightarrow> real \<Rightarrow> real \<Rightarrow> real \<Rightarrow> real \<Rightarrow> worker" where
  "worker_init b li bi qi di =
    \<lparr>wk_backend = b, wk_lock_interval = positive_interval li, wk_bus_interval = positive_interval bi,
     wk_queue_interval = positive_interval qi, wk_deadlock_interval = positive_interval di,
     wk_last_locks = 0, wk_last_bus = 0, wk_last_queue = 0, wk_last_deadlocks = 0,
     wk_last_report = empty_report\<rparr>"

definition due :: "real \<Rightarrow> real \<Rightarrow> real \<Rightarrow> bool" where
  "due now last_run interval = (last_run \<le> 0 \<or> interval \<le> now - last_run)"

definition snapshot :: "worker \<Rightarrow> report" where
  "snapshot w = wk_last_report w"

definition run_once :: "bool \<Rightarrow> ticks \<Rightarrow> worker \<Rightarrow> worker \<times> report" where
  "run_once force tk w =
    (let now = tk_now tk;
         l = force \<or> due now (wk_last_locks w) (wk_lock_interval w);
         b = force \<or> due now (wk_last_bus w) (wk_bus_interval w);
         q = force \<or> due now (wk_last_queue w) (wk_queue_interval w);
         d = force \<or> due now (wk_last_deadlocks w) (wk_deadlock_interval w);
         br0 = (wk_backend w, empty_report);
         br1 = (if l then clean_locks (tk_locks tk) br0 else br0);
         br2 = (if b then clean_bus (tk_bus tk) br1 else br1);
         br3 = (if q then expire_queue (tk_queue tk) br2 else br2);
         br4 = (if d then find_deadlocks (tk_deadlocks tk) br3 else br3)
     in (w\<lparr>wk_backend := fst br4,
           wk_last_locks := (if l then now else wk_last_locks w),
           wk_last_bus := (if b then now else wk_last_bus w),
           wk_last_queue := (if q then now else wk_last_queue w),
           wk_last_deadlocks := (if d then now else wk_last_deadlocks w),
           wk_last_report := snd br4\<rparr>, snd br4))"

section \<open>Properties\<close>

lemma no_due_claims:
  assumes "wf_dict (claims m)" "c \<in> set (vals (claims (fst (drop_expired t m))))"
  shows "\<not> claim_expired t c \<and> c \<in> set (vals (claims m))"
  using assms by (auto simp: claim_table.sweep_live)

lemma no_due_messages:
  assumes "wf_dict (messages b)" "x \<in> set (vals (messages (fst (bus_cleanup_expired t b))))"
  shows "\<not> message_expired t x"
  using assms by (auto simp: bus_cleanup_expired_def message_table.sweep_live)

lemma no_due_approvals:
  assumes "x \<in> set (vals (requests (fst (expire_pending t q))))"
  shows "\<not> pending_due t x"
  using assms
  by (auto simp: expire_pending_def Let_def requests_fold_set_event pending_due_def split: if_splits)

lemma maintenance_ports:
  "run_multi_agent_maintenance tk \<lparr>bk_locks = Some m, bk_bus = Some b, bk_queue = Some q\<rparr> =
    (let m1 = cleanup_expired (tk_locks tk) m; m2 = detect_deadlocks (tk_deadlocks tk) (fst m1);
         b1 = bus_cleanup_expired (tk_bus tk) b; q1 = expire_pending (tk_queue tk) q
     in (\<lparr>bk_locks = Some (fst m2), bk_bus = Some (fst b1), bk_queue = Some (fst q1)\<rparr>,
         \<lparr>rp_locks = snd m1, rp_messages = snd b1, rp_approvals = snd q1, rp_deadlocks = snd m2\<rparr>))"
  by (simp add: run_multi_agent_maintenance_def clean_locks_def clean_bus_def expire_queue_def find_deadlocks_def
      call_int_def call_list_def empty_report_def split_beta Let_def)

lemma run_once_forced:
  "wk_backend (fst (run_once True tk w)) = fst (run_multi_agent_maintenance tk (wk_backend w)) \<and>
   snd (run_once True tk w) = snd (run_multi_agent_maintenance tk (wk_backend w)) \<and>
   wk_last_report (fst (run_once True tk w)) = snd (run_once True tk w)"
  by (simp add: run_once_def run_multi_agent_maintenance_def Let_def)

text \<open>A forced \<open>run_once\<close> does what \<open>run_multi_agent_maintenance\<close> does: the same state of
  every port, the same report, and that report is what \<open>snapshot\<close> returns next. Afterwards no
  claim, message or pending approval that was due at the readings of the clock is left.\<close>

lemma forced_run_cleans:
  assumes w: "wk_backend w = \<lparr>bk_locks = Some m, bk_bus = Some b, bk_queue = Some q\<rparr>"
    and run: "run_once True tk w = (w', r)"
    and wf: "wf_dict (claims m)" "wf_dict (messages b)"
  shows "(wk_backend w', r) = run_multi_agent_maintenance tk (wk_backend w) \<and> snapshot w' = r \<and>
    (\<exists>m' b' q'. wk_backend w' = \<lparr>bk_locks = Some m', bk_bus = Some b', bk_queue = Some q'\<rparr> \<and>
      (\<forall>c \<in> set (vals (claims m')). \<not> claim_expired (tk_locks tk) c \<and> \<not> claim_expired (tk_deadlocks tk) c) \<and>
      (\<forall>x \<in> set (vals (messages b')). \<not> message_expired (tk_bus tk) x) \<and>
      (\<forall>x \<in> set (vals (requests q')). \<not> pending_due (tk_queue tk) x))"
proof -
  have f: "wk_backend w' = fst (run_multi_agent_maintenance tk (wk_backend w))"
    "r = snd (run_multi_agent_maintenance tk (wk_backend w))" "wk_last_report w' = r"
    using run_once_forced [of tk w] run by simp_all
  let ?m1 = "fst (drop_expired (tk_locks tk) m)"
  have wf1: "wf_dict (claims ?m1)" using wf(1) by (simp add: claim_table.sweep_wf)
  have c: "\<not> claim_expired (tk_locks tk) c \<and> \<not> claim_expired (tk_deadlocks tk) c"
    if "c \<in> set (vals (claims (fst (detect_deadlocks (tk_deadlocks tk) ?m1))))" for c
    using no_due_claims [OF wf1] no_due_claims [OF wf(1)] that unfolding detect_state by blast
  have "wk_backend w' = \<lparr>bk_locks = Some (fst (detect_deadlocks (tk_deadlocks tk) ?m1)),
      bk_bus = Some (fst (bus_cleanup_expired (tk_bus tk) b)), bk_queue = Some (fst (expire_pending (tk_queue tk) q))\<rparr>"
    unfolding f w maintenance_ports by (simp add: Let_def cleanup_expired_def)
  moreover have "(wk_backend w', r) = run_multi_agent_maintenance tk (wk_backend w)" by (simp add: f)
  ultimately show ?thesis
    using c no_due_messages [OF wf(2)] no_due_approvals f(3) unfolding snapshot_def by blast
qed

text \<open>The throttle. Once every job has run at a positive reading of the clock, an unforced
  \<open>run_once\<close> within the shortest interval changes no port and reports nothing.\<close>

lemma throttled_run_is_idle:
  assumes "0 < tk_now tk" "w1 = fst (run_once True tk w)"
    and "tk_now tk' - tk_now tk < min (min (wk_lock_interval w) (wk_bus_interval w))
                                     (min (wk_queue_interval w) (wk_deadlock_interval w))"
  shows "wk_backend (fst (run_once False tk' w1)) = wk_backend w1 \<and> snd (run_once False tk' w1) = empty_report"
  using assms by (simp add: run_once_def Let_def due_def)

definition ex_worker :: worker where
  "ex_worker = worker_init \<lparr>bk_locks = Some lock_manager_init, bk_bus = Some (message_bus_init 10),
     bk_queue = Some (approval_queue_init False)\<rparr> 60 300 60 30"

definition ex_ticks :: "real \<Rightarrow> ticks" where
  "ex_ticks t = \<lparr>tk_now = t, tk_locks = t, tk_bus = t, tk_queue = t, tk_deadlocks = t\<rparr>"

theorem forced_run_cleans_witness:
  "snapshot (fst (run_once True (ex_ticks 5) ex_worker)) = snd (run_once True (ex_ticks 5) ex_worker)"
proof -
  have "wk_backend ex_worker = \<lparr>bk_locks = Some lock_manager_init, bk_bus = Some (message_bus_init 10),
     bk_queue = Some (approval_queue_init False)\<rparr>" by (simp add: ex_worker_def worker_init_def)
  from forced_run_cleans [OF this surjective_pairing] show ?thesis
    by (simp add: lock_manager_init_def message_bus_init_def)
qed

theorem throttled_run_is_idle_witness:
  "snd (run_once False (ex_ticks 6) (fst (run_once True (ex_ticks 5) ex_worker))) = empty_report"
  using throttled_run_is_idle [of "ex_ticks 5" _ ex_worker "ex_ticks 6", OF _ refl]
  by (simp add: ex_ticks_def ex_worker_def worker_init_def positive_interval_def)

end
