(* ===== verification/ConflictDetector.thy ===== *)
theory ConflictDetector
  imports Prelude
begin

text \<open>
  Conflict detection across the outputs of parallel tasks: \<open>MergeConflictDetector.detect\<close> and its
  helpers in \<open>src/focus_agent/multi_agent/conflict_detector.py\<close>, and \<open>ConflictReport\<close> of
  \<open>contracts.py\<close>. The hexadecimal name-based UUID (\<open>uuid5\<close> of the standard library) is the
  argument \<open>uuid5_hex\<close>. Of a task's output dictionary the code reads two entries: the summary,
  and \<open>changed_files\<close>, which is a string, a list (its items enter as their \<open>str()\<close>) or something
  else.
\<close>

datatype changed_files = OneFile string | FileList "string list" | OtherValue

record task_output =
  out_files :: changed_files
  out_summary :: string

record conflict_report =
  conflict_id :: string
  task_a :: string
  task_b :: string
  conflict_type :: string
  severity :: string
  description :: string
  suggested_resolution :: string

section \<open>Words and markers\<close>

definition negative_markers :: "string list" where
  "negative_markers = [''not '', ''no '', ''never '', ''cannot '', ''can'' @ [CHR 0x27] @ ''t '',
     ''won'' @ [CHR 0x27] @ ''t '', ''without '']"

definition positive_markers :: "string list" where
  "positive_markers = ['' should '', '' must '', '' can '', '' will '', '' is '', '' are '']"

text \<open>\<open>str.split()\<close>: the maximal runs of characters that are not white space.\<close>

fun split_ws :: "string \<Rightarrow> string \<Rightarrow> string list" where
  "split_ws acc [] = (if acc = [] then [] else [acc])"
| "split_ws acc (c # cs) =
    (if py_space c then (if acc = [] then split_ws [] cs else acc # split_ws [] cs)
     else split_ws (acc @ [c]) cs)"

definition punctuation :: string where
  "punctuation = ''.,:;()[]{}'' @ [CHR 0x27, CHR 0x22]"

definition stopwords :: "string list" where
  "stopwords = [''the'', ''and'', ''that'', ''with'', ''this'', ''task'', ''agent'', ''should'', ''must'']"

definition strip_punct :: "string \<Rightarrow> string" where
  "strip_punct w = strip_by (\<lambda>c. c \<in> set punctuation) w"

definition keyword_list :: "string \<Rightarrow> string list" where
  "keyword_list text = map strip_punct
     (filter (\<lambda>w. 4 \<le> length (strip_punct w) \<and> w \<notin> set stopwords) (split_ws [] text))"

definition summaries_conflict :: "string \<Rightarrow> string \<Rightarrow> bool" where
  "summaries_conflict left right =
    (let left_norm = '' '' @ py_lower left @ '' '';
         right_norm = '' '' @ py_lower right @ '' '';
         left_negative = list_ex (\<lambda>m. has_infix m left_norm) negative_markers;
         right_negative = list_ex (\<lambda>m. has_infix m right_norm) negative_markers;
         left_positive = list_ex (\<lambda>m. has_infix m left_norm) positive_markers;
         right_positive = list_ex (\<lambda>m. has_infix m right_norm) positive_markers;
         shared_terms = filter (\<lambda>w. w \<in> set (keyword_list right_norm)) (keyword_list left_norm)
     in shared_terms \<noteq> [] \<and> left_negative \<noteq> right_negative \<and> (left_positive \<or> right_positive))"

section \<open>The detector\<close>

definition as_strings :: "changed_files \<Rightarrow> string list" where
  "as_strings v = (case v of
     OneFile s \<Rightarrow> [s]
   | FileList xs \<Rightarrow> filter (\<lambda>s. py_strip s \<noteq> []) xs
   | OtherValue \<Rightarrow> [])"

definition shared_files :: "task_output \<Rightarrow> task_output \<Rightarrow> string list" where
  "shared_files a b = sort (remdups (filter (\<lambda>f. f \<in> set (as_strings (out_files b))) (as_strings (out_files a))))"

fun join_by :: "string \<Rightarrow> string list \<Rightarrow> string" where
  "join_by sep [] = []"
| "join_by sep [x] = x"
| "join_by sep (x # xs) = x @ sep @ join_by sep xs"

definition make_report :: "(string \<Rightarrow> string) \<Rightarrow> string \<Rightarrow> string \<Rightarrow> string \<Rightarrow> string \<Rightarrow> string \<Rightarrow> string \<Rightarrow> conflict_report" where
  "make_report uuid5_hex a b ty sev descr res =
     \<lparr>conflict_id = uuid5_hex (join_by ''|'' [a, b, ty]), task_a = a, task_b = b, conflict_type = ty,
      severity = sev, description = descr, suggested_resolution = res\<rparr>"

definition pair_reports :: "(string \<Rightarrow> string) \<Rightarrow> (string, task_output) dict \<Rightarrow> string \<times> string \<Rightarrow> conflict_report list" where
  "pair_reports uuid5_hex outs ab = (case ab of (a, b) \<Rightarrow>
     (case (map_of outs a, map_of outs b) of
        (Some oa, Some ob) \<Rightarrow>
          (let shared = shared_files oa ob in
           (if shared \<noteq> [] then [make_report uuid5_hex a b ''changed_files_overlap'' ''blocking''
                (''Tasks changed the same files: '' @ join_by '', '' shared)
                ''Review overlapping patches before building the merge bundle.''] else []) @
           (if summaries_conflict (out_summary oa) (out_summary ob)
            then [make_report uuid5_hex a b ''conclusion_contradiction'' ''warning''
                ''Task summaries appear to make contradictory claims.''
                ''Ask a reviewer to reconcile the task conclusions.''] else []))
      | _ \<Rightarrow> []))"

text \<open>\<open>itertools.combinations(xs, 2)\<close>: the pairs in order of position.\<close>

fun pairs :: "'a list \<Rightarrow> ('a \<times> 'a) list" where
  "pairs [] = []"
| "pairs (x # xs) = map (Pair x) xs @ pairs xs"

definition detect :: "(string \<Rightarrow> string) \<Rightarrow> (string, task_output) dict \<Rightarrow> conflict_report list" where
  "detect uuid5_hex outs = concat (map (pair_reports uuid5_hex outs) (pairs (sort (keys outs))))"

section \<open>Lemmas\<close>

lemma pairs_sorted:
  assumes "sorted xs" "distinct xs"
  shows "set (pairs xs) = {(a, b). a \<in> set xs \<and> b \<in> set xs \<and> a < b}"
  using assms by (induction xs) (auto simp: less_le)

lemma set_shared_files:
  "set (shared_files a b) = set (as_strings (out_files a)) \<inter> set (as_strings (out_files b))"
  by (auto simp: shared_files_def)

lemma blocking_report_iff:
  "(\<exists>r \<in> set (pair_reports uuid5_hex outs (a', b')). task_a r = a \<and> task_b r = b \<and> severity r = ''blocking'') \<longleftrightarrow>
   a' = a \<and> b' = b \<and> (\<exists>oa ob. map_of outs a = Some oa \<and> map_of outs b = Some ob \<and> shared_files oa ob \<noteq> [])"
  by (cases "map_of outs a'"; cases "map_of outs b'") (auto simp: pair_reports_def make_report_def Let_def)

lemma shared_files_empty_iff:
  "shared_files a b = [] \<longleftrightarrow> set (as_strings (out_files a)) \<inter> set (as_strings (out_files b)) = {}"
  by (metis set_shared_files set_empty)

lemma detect_pairs:
  assumes "wf_dict outs"
  shows "r \<in> set (detect uuid5_hex outs) \<longleftrightarrow> (\<exists>a b. a \<in> set (keys outs) \<and> b \<in> set (keys outs) \<and> a < b \<and>
    r \<in> set (pair_reports uuid5_hex outs (a, b)))"
proof -
  have "set (pairs (sort (keys outs))) = {(a, b). a \<in> set (keys outs) \<and> b \<in> set (keys outs) \<and> a < b}"
    using assms by (subst pairs_sorted) simp_all
  then show ?thesis unfolding detect_def by auto
qed

section \<open>Properties\<close>

text \<open>\<open>detect\<close> reports a blocking overlap for two tasks exactly when both are among the outputs
  and changed a common file; the pair is named in increasing order, so no pair is reported twice
  and no task against itself.\<close>

lemma overlap_reported_iff:
  assumes "wf_dict outs"
  shows "(\<exists>r \<in> set (detect uuid5_hex outs). task_a r = a \<and> task_b r = b \<and> severity r = ''blocking'') \<longleftrightarrow>
    a < b \<and> (\<exists>oa ob. map_of outs a = Some oa \<and> map_of outs b = Some ob \<and>
      set (as_strings (out_files oa)) \<inter> set (as_strings (out_files ob)) \<noteq> {})"
  (is "?L \<longleftrightarrow> ?R")
proof
  assume ?L
  then obtain r where r: "r \<in> set (detect uuid5_hex outs)" "task_a r = a" "task_b r = b"
    "severity r = ''blocking''" by blast
  then obtain a' b' where ab: "a' < b'" "r \<in> set (pair_reports uuid5_hex outs (a', b'))"
    using detect_pairs [OF assms] by blast
  have "\<exists>r \<in> set (pair_reports uuid5_hex outs (a', b')). task_a r = a \<and> task_b r = b \<and> severity r = ''blocking''"
    using ab(2) r(2-4) by blast
  then show ?R using ab(1) unfolding blocking_report_iff shared_files_empty_iff by blast
next
  assume R: ?R
  then have "a \<in> set (keys outs)" "b \<in> set (keys outs)" using map_of_SomeD by force+
  moreover have "\<exists>r \<in> set (pair_reports uuid5_hex outs (a, b)).
      task_a r = a \<and> task_b r = b \<and> severity r = ''blocking''"
    using R unfolding blocking_report_iff shared_files_empty_iff by blast
  ultimately show ?L using R detect_pairs [OF assms] by blast
qed

text \<open>The contradiction test does not depend on the order of the two summaries.\<close>

lemma summaries_conflict_symmetric: "summaries_conflict left right = summaries_conflict right left"
  by (auto simp: summaries_conflict_def Let_def filter_empty_conv)

text \<open>A stop word with punctuation is a keyword. \<open>_keywords\<close> compares the word before it is
  stripped with the stop list, so two summaries that share nothing but \<open>task\<close> and a comma are
  reported as contradictory.\<close>

lemma punctuated_stopword_counts:
  "''task'' \<in> set stopwords \<and> ''task'' \<in> set (keyword_list ''task, done'') \<and>
   summaries_conflict ''Task: will ship'' ''No task, please''"
  by code_simp

theorem overlap_reported_iff_witness:
  "\<exists>r \<in> set (detect id [(''t2'', \<lparr>out_files = OneFile ''x.py'', out_summary = []\<rparr>),
      (''t1'', \<lparr>out_files = FileList [''y.py'', ''x.py''], out_summary = []\<rparr>)]).
    task_a r = ''t1'' \<and> task_b r = ''t2'' \<and> severity r = ''blocking''"
  by (subst overlap_reported_iff) (simp_all add: as_strings_def py_strip_def strip_by_def py_space_def)

end
