(* ===== verification/FailureHandler.thy ===== *)
theory FailureHandler
  imports Prelude
begin

text \<open>
  The failure ladder of the multi-agent runtime: \<open>FailureHandler\<close> of
  \<open>src/focus_agent/multi_agent/failure_handler.py\<close> and \<open>FailureStrategy\<close> of \<open>contracts.py\<close>. The
  rungs are linearly ordered, so that "a later attempt never gets a milder answer" is
  monotonicity.
\<close>

datatype failure_strategy = RETRY | REASSIGN | DEGRADE | ESCALATE

fun rung :: "failure_strategy \<Rightarrow> nat" where
  "rung RETRY = 0"
| "rung REASSIGN = 1"
| "rung DEGRADE = 2"
| "rung ESCALATE = 3"

lemma rung_inj: "rung s = rung t \<Longrightarrow> s = t"
  by (cases s; cases t) simp_all

instantiation failure_strategy :: linorder
begin

definition less_eq_failure_strategy :: "failure_strategy \<Rightarrow> failure_strategy \<Rightarrow> bool" where
  "less_eq_failure_strategy s t = (rung s \<le> rung t)"

definition less_failure_strategy :: "failure_strategy \<Rightarrow> failure_strategy \<Rightarrow> bool" where
  "less_failure_strategy s t = (rung s < rung t)"

instance
  by standard (auto simp: less_eq_failure_strategy_def less_failure_strategy_def dest: rung_inj)

end

record failure_handler =
  retry_attempts :: int
  reassign_attempts :: int
  degradable_errors :: "string set"

definition default_degradable :: "string set" where
  "default_degradable = {''timeout'', ''tool_error'', ''model_error'', ''execution_error''}"

text \<open>
  \<open>degradable_errors or {...}\<close>: an empty set is falsy, so it means the default too. An attempt
  number \<open>None\<close> or 0 counts as 1.
\<close>

definition failure_handler_init :: "int \<Rightarrow> int \<Rightarrow> string set option \<Rightarrow> failure_handler" where
  "failure_handler_init retries reassigns degradable =
    (let r = max 0 retries in
     \<lparr>retry_attempts = r, reassign_attempts = max r reassigns,
      degradable_errors = (case degradable of
          None \<Rightarrow> default_degradable
        | Some errs \<Rightarrow> if errs = {} then default_degradable else errs)\<rparr>)"

definition decide_failure :: "failure_handler \<Rightarrow> string \<Rightarrow> string \<Rightarrow> int \<Rightarrow> py_error + failure_strategy" where
  "decide_failure h task_id error_category attempt =
    (if py_strip task_id = [] then Inl (ValueError ''task_id is required'')
     else
       let normalized_error = py_lower (py_strip
             (if error_category = [] then ''execution_error'' else error_category));
           current_attempt = max 1 attempt
       in Inr (if current_attempt \<le> retry_attempts h then RETRY
               else if current_attempt \<le> reassign_attempts h then REASSIGN
               else if normalized_error \<in> degradable_errors h then DEGRADE
               else ESCALATE))"

lemma init_attempts:
  "0 \<le> retry_attempts (failure_handler_init r s d)"
  "retry_attempts (failure_handler_init r s d) \<le> reassign_attempts (failure_handler_init r s d)"
  by (simp_all add: failure_handler_init_def Let_def)

text \<open>The ladder only climbs. With the thresholds of any constructed handler, a later attempt of
  the same task with the same error never gets a milder strategy than an earlier one, and every
  attempt past the reassignment threshold ends in DEGRADE or ESCALATE, so a task is not retried
  for ever.\<close>

lemma failure_ladder_climbs:
  fixes a b :: int
  assumes h: "h = failure_handler_init r n d"
    and ok: "decide_failure h t e a = Inr s" "decide_failure h t e b = Inr s'"
    and le: "a \<le> b"
  shows "s \<le> s' \<and> (max 0 (max r n) < b \<longrightarrow> DEGRADE \<le> s')"
proof -
  have "reassign_attempts h = max (max 0 r) n" by (simp add: h failure_handler_init_def Let_def)
  then show ?thesis using ok le init_attempts [of r n d, folded h]
    by (auto simp: decide_failure_def Let_def less_eq_failure_strategy_def split: if_splits)
qed

theorem failure_ladder_climbs_witness: "RETRY \<le> ESCALATE \<and> DEGRADE \<le> ESCALATE"
proof -
  let ?h = "failure_handler_init 1 2 None"
  have "decide_failure ?h ''t1'' ''auth'' 1 = Inr RETRY" "decide_failure ?h ''t1'' ''auth'' 3 = Inr ESCALATE"
    by (simp_all add: decide_failure_def failure_handler_init_def default_degradable_def py_strip_def
      strip_by_def py_space_def py_lower_def lower_char_def Let_def)
  from failure_ladder_climbs [OF refl this] show ?thesis by simp
qed

end
