(* ===== verification/DagScheduler.thy ===== *)
theory DagScheduler
  imports Prelude
begin

text \<open>
  Wave scheduling of task graphs: \<open>DAGScheduler\<close> of
  \<open>src/focus_agent/multi_agent/dag_scheduler.py\<close> and \<open>DAGTaskNode\<close> of \<open>contracts.py\<close>.

  The acyclicity test and the cycle enumeration of networkx are the arguments \<open>is_dag\<close> and
  \<open>cyclic_nodes\<close>; the properties that need it assume networkx's documented behaviour, that
  \<open>is_dag\<close> is true exactly of graphs without a cycle. A Python set whose iteration order matters
  (\<open>deque(failed)\<close>) is the list of its elements in iteration order.
\<close>

record dag_task =
  dag_id :: string
  dag_role :: string
  dag_dependencies :: "string list"
  dag_claims :: "string list"
  dag_priority :: int
  dag_timeout :: real
  dag_retries :: int

record scheduler =
  sch_tasks :: "(string, dag_task) dict"
  sch_parallel :: int
  sch_children :: "(string, string list) dict"
  sch_indegree :: "(string, int) dict"
  sch_edges :: "(string \<times> string) list"

type_synonym dag_test = "string list \<Rightarrow> (string \<times> string) list \<Rightarrow> bool"

section \<open>Construction and validation\<close>

text \<open>The dictionary comprehension \<open>{task.task_id: task for task in tasks}\<close>: a later task replaces
  an earlier one with its id.\<close>

definition index_tasks :: "dag_task list \<Rightarrow> (string, dag_task) dict" where
  "index_tasks ts = fold (\<lambda>t d. AList.update (dag_id t) t d) ts []"

fun add_dependencies :: "dag_task \<Rightarrow> string list \<Rightarrow> scheduler \<Rightarrow> py_error + scheduler" where
  "add_dependencies t [] s = Inr s"
| "add_dependencies t (d # ds) s =
    (if map_of (sch_tasks s) d = None
     then Inl (DAGValidationError (''Task '' @ dag_id t @ '' depends on unknown task '' @ d))
     else add_dependencies t ds
       (s\<lparr>sch_children := AList.update d (get_or (sch_children s) d [] @ [dag_id t]) (sch_children s),
          sch_indegree := AList.update (dag_id t) (get_or (sch_indegree s) (dag_id t) 0 + 1) (sch_indegree s),
          sch_edges := sch_edges s @ [(d, dag_id t)]\<rparr>))"

fun add_tasks :: "dag_task list \<Rightarrow> scheduler \<Rightarrow> py_error + scheduler" where
  "add_tasks [] s = Inr s"
| "add_tasks (t # ts) s = bind_ok (add_dependencies t (dag_dependencies t) s) (add_tasks ts)"

definition validate :: "dag_test \<Rightarrow> (scheduler \<Rightarrow> string) \<Rightarrow> scheduler \<Rightarrow> py_error + unit" where
  "validate is_dag cyclic_nodes s =
    (if \<not> is_dag (keys (sch_tasks s)) (sch_edges s)
     then Inl (DAGValidationError (''Task dependency graph contains a cycle: '' @ cyclic_nodes s))
     else Inr ())"

definition scheduler_init :: "dag_test \<Rightarrow> (scheduler \<Rightarrow> string) \<Rightarrow> dag_task list \<Rightarrow> int \<Rightarrow> py_error + scheduler" where
  "scheduler_init is_dag cyclic_nodes ts max_parallel =
    (let tasks = index_tasks ts;
         s0 = \<lparr>sch_tasks = tasks, sch_parallel = max 1 max_parallel, sch_children = [],
               sch_indegree = map (\<lambda>k. (k, 0)) (keys tasks), sch_edges = []\<rparr>
     in bind_ok (add_tasks (vals tasks) s0)
          (\<lambda>s. bind_ok (validate is_dag cyclic_nodes s) (\<lambda>u. Inr s)))"

section \<open>Tasks below a failed one\<close>

definition children_of :: "scheduler \<Rightarrow> string \<Rightarrow> string list" where
  "children_of s t = get_or (sch_children s) t []"

text \<open>The inner loop: children not seen yet are marked and queued.\<close>

fun push_children :: "string list \<Rightarrow> string list \<Rightarrow> string list \<Rightarrow> string list \<times> string list" where
  "push_children [] blocked queue = (blocked, queue)"
| "push_children (c # cs) blocked queue =
    (if c \<in> set blocked then push_children cs blocked queue
     else push_children cs (blocked @ [c]) (queue @ [c]))"

definition all_children :: "scheduler \<Rightarrow> string set" where
  "all_children s = set (concat (vals (sch_children s)))"

lemma push_children_new:
  "\<exists>new. push_children cs blocked queue = (blocked @ new, queue @ new) \<and> set new = set cs - set blocked"
proof (induction cs arbitrary: blocked queue)
  case Nil
  then show ?case by simp
next
  case (Cons c cs)
  show ?case
  proof (cases "c \<in> set blocked")
    case True
    then show ?thesis using Cons [of blocked queue] by auto
  next
    case False
    obtain new where "push_children cs (blocked @ [c]) (queue @ [c]) = (blocked @ [c] @ new, queue @ [c] @ new)"
      "set new = set cs - set (blocked @ [c])"
      using Cons [of "blocked @ [c]" "queue @ [c]"] by auto
    then show ?thesis using False by (intro exI [of _ "c # new"]) auto
  qed
qed

lemma children_of_sub: "set (children_of s t) \<subseteq> all_children s"
proof (cases "map_of (sch_children s) t")
  case None
  then show ?thesis by (simp add: children_of_def get_or_def)
next
  case (Some cs)
  then have "cs \<in> set (vals (sch_children s))" by (force dest: map_of_SomeD)
  then show ?thesis using Some by (auto simp: children_of_def get_or_def all_children_def)
qed

text \<open>
  \<open>_blocked_by_failed_dependencies\<close>. Each round takes a task from the queue; a round that queues
  something marks a child that was not marked, so the measure below decreases.
\<close>

function blocked_from :: "scheduler \<Rightarrow> string list \<Rightarrow> string list \<Rightarrow> string list" where
  "blocked_from s [] blocked = blocked"
| "blocked_from s (t # queue) blocked =
    (case push_children (children_of s t) blocked queue of (b', q') \<Rightarrow> blocked_from s q' b')"
  by pat_completeness auto

termination
proof (relation "measures [\<lambda>(s, q, b). card (all_children s - set b), \<lambda>(s, q, b). length q]")
  fix s :: scheduler and t queue blocked b' q'
  assume "(b', q') = push_children (children_of s t) blocked queue"
  then obtain new where n: "b' = blocked @ new" "q' = queue @ new" "set new = set (children_of s t) - set blocked"
    using push_children_new [of "children_of s t" blocked queue] by auto
  show "((s, q', b'), s, t # queue, blocked)
    \<in> measures [\<lambda>(s, q, b). card (all_children s - set b), \<lambda>(s, q, b). length q]"
  proof (cases "new = []")
    case True
    with n show ?thesis by simp
  next
    case False
    then obtain c where c: "c \<in> set new" by (cases new) auto
    have "all_children s - set b' \<subset> all_children s - set blocked"
      using c n children_of_sub [of s t] by auto
    then have "card (all_children s - set b') < card (all_children s - set blocked)"
      by (intro psubset_card_mono) (simp_all add: all_children_def)
    then show ?thesis by simp
  qed
qed simp

definition blocked_by_failed :: "scheduler \<Rightarrow> string list \<Rightarrow> string list" where
  "blocked_by_failed s failed = blocked_from s failed []"

section \<open>The next wave\<close>

definition resource_conflicts :: "string list \<Rightarrow> (string, string) dict \<Rightarrow> bool" where
  "resource_conflicts claims claimed = list_ex (\<lambda>r. r \<in> set (keys claimed)) claims"

definition is_ready :: "string set \<Rightarrow> string set \<Rightarrow> string set \<Rightarrow> string set \<Rightarrow> dag_task \<Rightarrow> bool" where
  "is_ready completed failed in_progress blocked t =
    (dag_id t \<notin> completed \<and> dag_id t \<notin> failed \<and> dag_id t \<notin> in_progress \<and> dag_id t \<notin> blocked \<and>
     list_all (\<lambda>d. d \<in> completed) (dag_dependencies t))"

definition wave_key :: "dag_task \<Rightarrow> int \<times> nat \<times> string" where
  "wave_key t = (dag_priority t, length (dag_dependencies t), dag_id t)"

definition ready_tasks :: "scheduler \<Rightarrow> string set \<Rightarrow> string list \<Rightarrow> string set \<Rightarrow> dag_task list" where
  "ready_tasks s completed failed in_progress = sort_key wave_key
     (filter (is_ready completed (set failed) in_progress (set (blocked_by_failed s failed))) (vals (sch_tasks s)))"

fun select_wave :: "int \<Rightarrow> dag_task list \<Rightarrow> dag_task list \<Rightarrow> (string, string) dict \<Rightarrow> dag_task list" where
  "select_wave m [] selected claimed = selected"
| "select_wave m (t # ts) selected claimed =
    (if m \<le> int (length selected) then selected
     else if resource_conflicts (dag_claims t) claimed then select_wave m ts selected claimed
     else select_wave m ts (selected @ [t])
       (fold (\<lambda>r c. AList.update r (dag_id t) c) (dag_claims t) claimed))"

definition compute_next_wave :: "scheduler \<Rightarrow> string set \<Rightarrow> string list \<Rightarrow> string set \<Rightarrow> dag_task list" where
  "compute_next_wave s completed failed in_progress =
    select_wave (sch_parallel s) (ready_tasks s completed failed in_progress) [] []"

section \<open>The dependency relation and well-formed schedulers\<close>

definition dep_rel :: "scheduler \<Rightarrow> (string \<times> string) set" where
  "dep_rel s = {(d, c). \<exists>t. map_of (sch_tasks s) c = Some t \<and> d \<in> set (dag_dependencies t)}"

definition scheduler_wf :: "scheduler \<Rightarrow> bool" where
  "scheduler_wf s \<longleftrightarrow> wf_dict (sch_tasks s) \<and> 1 \<le> sch_parallel s \<and>
    (\<forall>k t. map_of (sch_tasks s) k = Some t \<longrightarrow> dag_id t = k \<and> set (dag_dependencies t) \<subseteq> set (keys (sch_tasks s))) \<and>
    (\<forall>d c. c \<in> set (children_of s d) \<longleftrightarrow> (d, c) \<in> dep_rel s) \<and> set (sch_edges s) = dep_rel s"

lemma index_tasks_wf: "wf_dict (index_tasks ts)"
proof -
  have "wf_dict d \<Longrightarrow> wf_dict (fold (\<lambda>t d. AList.update (dag_id t) t d) ts d)" for d
    by (induction ts arbitrary: d) simp_all
  then show ?thesis by (simp add: index_tasks_def)
qed

lemma index_tasks_id: "map_of (index_tasks ts) k = Some t \<Longrightarrow> dag_id t = k"
proof -
  have "\<forall>k t. map_of d k = Some t \<longrightarrow> dag_id t = k \<Longrightarrow>
    map_of (fold (\<lambda>t d. AList.update (dag_id t) t d) ts d) k = Some t \<Longrightarrow> dag_id t = k" for d
  proof (induction ts arbitrary: d)
    case Nil
    then show ?case by simp
  next
    case (Cons u ts)
    show ?case by (rule Cons.IH [of "AList.update (dag_id u) u d"]) (use Cons.prems in auto)
  qed
  from this [of "[]"] show "map_of (index_tasks ts) k = Some t \<Longrightarrow> dag_id t = k"
    by (simp add: index_tasks_def)
qed

lemma add_dependencies_ok:
  assumes "add_dependencies t ds s = Inr s'"
  shows "sch_tasks s' = sch_tasks s \<and> sch_parallel s' = sch_parallel s \<and> set ds \<subseteq> set (keys (sch_tasks s)) \<and>
    (\<forall>d. set (children_of s' d) = set (children_of s d) \<union> (if d \<in> set ds then {dag_id t} else {})) \<and>
    set (sch_edges s') = set (sch_edges s) \<union> {(d, dag_id t) |d. d \<in> set ds}"
  using assms
proof (induction ds arbitrary: s)
  case Nil
  then show ?case by simp
next
  case (Cons d ds)
  then have d: "d \<in> set (keys (sch_tasks s))" by (auto simp: map_of_None_keys split: if_splits)
  define s1 where "s1 = s\<lparr>sch_children := AList.update d (get_or (sch_children s) d [] @ [dag_id t]) (sch_children s),
          sch_indegree := AList.update (dag_id t) (get_or (sch_indegree s) (dag_id t) 0 + 1) (sch_indegree s),
          sch_edges := sch_edges s @ [(d, dag_id t)]\<rparr>"
  have "add_dependencies t ds s1 = Inr s'" using Cons.prems by (simp add: s1_def split: if_splits)
  note IH = Cons.IH [OF this]
  have ch: "set (children_of s1 e) = set (children_of s e) \<union> (if e = d then {dag_id t} else {})" for e
    by (simp add: s1_def children_of_def)
  have "sch_tasks s1 = sch_tasks s" "sch_parallel s1 = sch_parallel s"
    "set (sch_edges s1) = insert (d, dag_id t) (set (sch_edges s))" by (simp_all add: s1_def)
  then show ?case using IH d ch by (auto split: if_splits)
qed

lemma add_tasks_ok:
  assumes "add_tasks ts s = Inr s'"
  shows "sch_tasks s' = sch_tasks s \<and> sch_parallel s' = sch_parallel s \<and>
    (\<forall>t \<in> set ts. set (dag_dependencies t) \<subseteq> set (keys (sch_tasks s))) \<and>
    (\<forall>d. set (children_of s' d) = set (children_of s d) \<union> {dag_id t |t. t \<in> set ts \<and> d \<in> set (dag_dependencies t)}) \<and>
    set (sch_edges s') = set (sch_edges s) \<union> {(d, dag_id t) |d t. t \<in> set ts \<and> d \<in> set (dag_dependencies t)}"
  using assms
proof (induction ts arbitrary: s)
  case Nil
  then show ?case by simp
next
  case (Cons t ts)
  then obtain s1 where s1: "add_dependencies t (dag_dependencies t) s = Inr s1" "add_tasks ts s1 = Inr s'"
    by (auto simp: bind_ok_Inr_iff)
  note A = add_dependencies_ok [OF s1(1)] and B = Cons.IH [OF s1(2)]
  have "set (children_of s' d) = set (children_of s d) \<union> {dag_id u |u. u \<in> set (t # ts) \<and> d \<in> set (dag_dependencies u)}" for d
    using A B by auto
  moreover have "set (sch_edges s') = set (sch_edges s) \<union>
      {(d, dag_id u) |d u. u \<in> set (t # ts) \<and> d \<in> set (dag_dependencies u)}"
    using A B by auto
  ultimately show ?case using A B by auto
qed

lemma scheduler_init_ok:
  assumes "scheduler_init is_dag cyclic_nodes ts m = Inr s"
  shows "scheduler_wf s" "sch_tasks s = index_tasks ts" "sch_parallel s = max 1 m"
    "is_dag (keys (sch_tasks s)) (sch_edges s)"
proof -
  let ?T = "index_tasks ts"
  let ?s0 = "\<lparr>sch_tasks = ?T, sch_parallel = max 1 m, sch_children = [],
               sch_indegree = map (\<lambda>k. (k, 0)) (keys ?T), sch_edges = []\<rparr>"
  have at: "add_tasks (vals ?T) ?s0 = Inr s" and "validate is_dag cyclic_nodes s = Inr ()"
    using assms by (auto simp: scheduler_init_def Let_def bind_ok_Inr_iff)
  then show "is_dag (keys (sch_tasks s)) (sch_edges s)" by (simp add: validate_def split: if_splits)
  note A = add_tasks_ok [OF at]
  then show T: "sch_tasks s = ?T" and P: "sch_parallel s = max 1 m" by simp_all
  define V where "V = set (vals ?T)"
  have v: "t \<in> V \<longleftrightarrow> map_of ?T (dag_id t) = Some t" for t
  proof
    assume "t \<in> V"
    then obtain k where "(k, t) \<in> set ?T" by (auto simp: V_def)
    then have "map_of ?T k = Some t" by (simp add: dict_mem_iff [OF index_tasks_wf])
    with index_tasks_id [OF this] show "map_of ?T (dag_id t) = Some t" by simp
  qed (force simp: V_def dest: map_of_SomeD)
  have rel: "(d, c) \<in> dep_rel s \<longleftrightarrow> (\<exists>t. t \<in> V \<and> c = dag_id t \<and> d \<in> set (dag_dependencies t))" for d c
  proof -
    have "map_of ?T c = Some t \<longleftrightarrow> t \<in> V \<and> c = dag_id t" for t
      unfolding v using index_tasks_id [of ts c t] by auto
    then show ?thesis by (auto simp only: dep_rel_def T mem_Collect_eq case_prod_conv)
  qed
  have "set (sch_edges s) = {(d, dag_id t) |d t. t \<in> V \<and> d \<in> set (dag_dependencies t)}"
    using A by (simp add: V_def)
  then have E: "set (sch_edges s) = dep_rel s" using rel by auto
  have "set (children_of s d) = {dag_id t |t. t \<in> V \<and> d \<in> set (dag_dependencies t)}" for d
    using A by (simp add: V_def children_of_def)
  then have C: "c \<in> set (children_of s d) \<longleftrightarrow> (d, c) \<in> dep_rel s" for c d
    by (auto simp: rel)
  have dd: "\<forall>t \<in> V. set (dag_dependencies t) \<subseteq> set (keys ?T)"
    using A by (simp add: V_def)
  have D: "dag_id t = k \<and> set (dag_dependencies t) \<subseteq> set (keys ?T)" if k: "map_of ?T k = Some t" for k t
  proof -
    have id: "dag_id t = k" by (rule index_tasks_id [OF k])
    then have "t \<in> V" using k by (simp add: v)
    then have "set (dag_dependencies t) \<subseteq> set (keys ?T)" using dd by blast
    with id show ?thesis by simp
  qed
  show "scheduler_wf s" unfolding scheduler_wf_def T P
    using D E C index_tasks_wf [of ts] by simp
qed

section \<open>Blocked tasks are the descendants of the failed ones\<close>

definition child_rel :: "scheduler \<Rightarrow> (string \<times> string) set" where
  "child_rel s = {(d, c). c \<in> set (children_of s d)}"

lemma blocked_from_sound:
  assumes "set queue \<subseteq> F \<union> (child_rel s)\<^sup>+ `` F" "set blocked \<subseteq> (child_rel s)\<^sup>+ `` F"
  shows "set (blocked_from s queue blocked) \<subseteq> (child_rel s)\<^sup>+ `` F"
  using assms
proof (induction s queue blocked rule: blocked_from.induct)
  case (1 s blocked)
  then show ?case by simp
next
  case (2 s t queue blocked)
  obtain new where n: "push_children (children_of s t) blocked queue = (blocked @ new, queue @ new)"
    "set new = set (children_of s t) - set blocked" using push_children_new by blast
  have "c \<in> (child_rel s)\<^sup>+ `` F" if "c \<in> set (children_of s t)" for c
  proof -
    have tc: "(t, c) \<in> child_rel s" using that by (simp add: child_rel_def)
    have "t \<in> F \<union> (child_rel s)\<^sup>+ `` F" using "2.prems"(1) by simp
    then show ?thesis
    proof
      assume "t \<in> F"
      then show ?thesis using tc by blast
    next
      assume "t \<in> (child_rel s)\<^sup>+ `` F"
      then obtain f where "f \<in> F" "(f, t) \<in> (child_rel s)\<^sup>+" by blast
      then show ?thesis using trancl_into_trancl [OF _ tc] by blast
    qed
  qed
  then have "set new \<subseteq> (child_rel s)\<^sup>+ `` F" using n(2) by blast
  then have "set (blocked_from s (queue @ new) (blocked @ new)) \<subseteq> (child_rel s)\<^sup>+ `` F"
    using "2.prems" by (intro "2.IH" [OF n(1) [symmetric]]) auto
  then show ?case by (simp add: n(1))
qed

lemma blocked_from_complete:
  assumes "\<forall>x \<in> F \<union> set blocked. x \<in> set queue \<or> set (children_of s x) \<subseteq> set blocked"
  shows "set blocked \<subseteq> set (blocked_from s queue blocked) \<and>
    (\<forall>x \<in> F \<union> set (blocked_from s queue blocked). set (children_of s x) \<subseteq> set (blocked_from s queue blocked))"
  using assms
proof (induction s queue blocked rule: blocked_from.induct)
  case (1 s blocked)
  then show ?case by simp
next
  case (2 s t queue blocked)
  obtain new where n: "push_children (children_of s t) blocked queue = (blocked @ new, queue @ new)"
    "set new = set (children_of s t) - set blocked" using push_children_new by blast
  have "\<forall>x \<in> F \<union> set (blocked @ new). x \<in> set (queue @ new) \<or> set (children_of s x) \<subseteq> set (blocked @ new)"
    using "2.prems" n(2) by (auto simp: subset_iff)
  from "2.IH" [OF n(1) [symmetric] this] show ?case by (simp add: n(1))
qed

lemma blocked_is_trancl: "set (blocked_by_failed s failed) = (child_rel s)\<^sup>+ `` set failed"
proof
  show "set (blocked_by_failed s failed) \<subseteq> (child_rel s)\<^sup>+ `` set failed"
    unfolding blocked_by_failed_def by (rule blocked_from_sound) auto
next
  have cl: "set (children_of s x) \<subseteq> set (blocked_by_failed s failed)"
    if "x \<in> set failed \<union> set (blocked_by_failed s failed)" for x
    using blocked_from_complete [of "set failed" "[]" failed s] that by (auto simp: blocked_by_failed_def)
  have "c \<in> set (blocked_by_failed s failed)" if "(f, c) \<in> (child_rel s)\<^sup>+" "f \<in> set failed" for f c
    using that
  proof (induction rule: trancl_induct)
    case (base y)
    then show ?case using cl [of f] by (auto simp: child_rel_def)
  next
    case (step y z)
    then show ?case using cl [of y] by (auto simp: child_rel_def)
  qed
  then show "(child_rel s)\<^sup>+ `` set failed \<subseteq> set (blocked_by_failed s failed)" by blast
qed

lemma child_rel_eq: "scheduler_wf s \<Longrightarrow> child_rel s = dep_rel s"
  by (auto simp: child_rel_def scheduler_wf_def)

section \<open>Selection\<close>

definition exclusive_claims :: "dag_task list \<Rightarrow> bool" where
  "exclusive_claims ts = sorted_wrt (\<lambda>a b. set (dag_claims a) \<inter> set (dag_claims b) = {}) ts"

lemma keys_claimed:
  "set (keys (fold (\<lambda>r c. AList.update r v c) rs d)) = set rs \<union> set (keys d)"
  by (induction rs arbitrary: d) (auto simp: dom_update)

lemma resource_conflicts_iff: "resource_conflicts rs d \<longleftrightarrow> set rs \<inter> set (keys d) \<noteq> {}"
  by (auto simp: resource_conflicts_def list_ex_iff)

lemma select_wave_inv:
  assumes "set (keys claimed) = (\<Union>t \<in> set sel. set (dag_claims t))" "exclusive_claims sel"
    and "length sel \<le> nat m" "0 \<le> m"
  shows "exclusive_claims (select_wave m ts sel claimed) \<and> length (select_wave m ts sel claimed) \<le> nat m"
  using assms
proof (induction m ts sel claimed rule: select_wave.induct)
  case (1 m sel claimed)
  then show ?case by simp
next
  case (2 m t ts sel claimed)
  consider "m \<le> int (length sel)" | "\<not> m \<le> int (length sel)" "resource_conflicts (dag_claims t) claimed"
    | "\<not> m \<le> int (length sel)" "\<not> resource_conflicts (dag_claims t) claimed" by blast
  then show ?case
  proof cases
    case 3
    have "exclusive_claims (sel @ [t])"
      using 3(2) "2.prems" by (auto simp: exclusive_claims_def sorted_wrt_append resource_conflicts_iff)
    moreover have "set (keys (fold (\<lambda>r c. AList.update r (dag_id t) c) (dag_claims t) claimed)) =
        (\<Union>u \<in> set (sel @ [t]). set (dag_claims u))"
      unfolding keys_claimed "2.prems"(1) by auto
    moreover have "length (sel @ [t]) \<le> nat m" using 3(1) by simp
    ultimately show ?thesis using "2.IH"(2) [OF 3] "2.prems"(4) 3 by simp
  qed (use 2 in simp_all)
qed

lemma select_wave_subseq:
  "\<exists>more. select_wave m ts sel claimed = sel @ more \<and> set more \<subseteq> set ts \<and> (distinct ts \<longrightarrow> distinct more)"
proof (induction m ts sel claimed rule: select_wave.induct)
  case (1 m sel claimed)
  then show ?case by simp
next
  case (2 m t ts sel claimed)
  consider "m \<le> int (length sel)" | "\<not> m \<le> int (length sel)" "resource_conflicts (dag_claims t) claimed"
    | "\<not> m \<le> int (length sel)" "\<not> resource_conflicts (dag_claims t) claimed" by blast
  then show ?case
  proof cases
    case 1
    then show ?thesis by simp
  next
    case 2
    obtain more where "select_wave m ts sel claimed = sel @ more" "set more \<subseteq> set ts" "distinct ts \<longrightarrow> distinct more"
      using "2.IH"(1) [OF 2] by blast
    then show ?thesis using 2 by auto
  next
    case 3
    obtain more where m: "select_wave m ts (sel @ [t]) (fold (\<lambda>r c. AList.update r (dag_id t) c) (dag_claims t) claimed)
        = (sel @ [t]) @ more" "set more \<subseteq> set ts" "distinct ts \<longrightarrow> distinct more"
      using "2.IH"(2) [OF 3] by blast
    then show ?thesis using 3 by (intro exI [of _ "t # more"]) auto
  qed
qed

text \<open>A ready task that is not selected met a full wave or a task before it that holds one of its
  resources.\<close>

lemma select_wave_greedy:
  assumes "t \<in> set ts" "t \<notin> set (select_wave m ts sel claimed)" "sorted_wrt R ts"
    and "set (keys claimed) = (\<Union>u \<in> set sel. set (dag_claims u))" "\<forall>u \<in> set sel. \<forall>v \<in> set ts. R u v"
  shows "m \<le> int (length (select_wave m ts sel claimed)) \<or>
    (\<exists>u \<in> set (select_wave m ts sel claimed). R u t \<and> set (dag_claims u) \<inter> set (dag_claims t) \<noteq> {})"
  using assms
proof (induction m ts sel claimed rule: select_wave.induct)
  case (1 m sel claimed)
  then show ?case by simp
next
  case (2 m x ts sel claimed)
  let ?cl = "fold (\<lambda>r c. AList.update r (dag_id x) c) (dag_claims x) claimed"
  consider "m \<le> int (length sel)" | "\<not> m \<le> int (length sel)" "resource_conflicts (dag_claims x) claimed"
    | "\<not> m \<le> int (length sel)" "\<not> resource_conflicts (dag_claims x) claimed" by blast
  then show ?case
  proof cases
    case 1
    then show ?thesis by simp
  next
    case 2
    have eq: "select_wave m (x # ts) sel claimed = select_wave m ts sel claimed" using 2 by simp
    show ?thesis
    proof (cases "t = x")
      case True
      then obtain u where u: "u \<in> set sel" "set (dag_claims u) \<inter> set (dag_claims t) \<noteq> {}"
        using 2(2) "2.prems"(4) by (auto simp: resource_conflicts_iff)
      then have "u \<in> set (select_wave m ts sel claimed)"
        using select_wave_subseq [of m ts sel claimed] by auto
      moreover have "R u t" using "2.prems"(5) u(1) True by simp
      ultimately show ?thesis using u(2) unfolding eq by blast
    next
      case False
      have "t \<notin> set (select_wave m ts sel claimed)" using "2.prems"(2) unfolding eq .
      with False show ?thesis unfolding eq
        using "2.prems"(1,3-5) by (intro "2.IH"(1) [OF 2]) (auto simp del: set_map)
    qed
  next
    case 3
    have eq: "select_wave m (x # ts) sel claimed = select_wave m ts (sel @ [x]) ?cl" using 3 by simp
    have "x \<in> set (select_wave m ts (sel @ [x]) ?cl)"
      using select_wave_subseq [of m ts "sel @ [x]" ?cl] by auto
    then have "t \<noteq> x" using "2.prems"(2) unfolding eq by blast
    moreover have "set (keys ?cl) = (\<Union>u \<in> set (sel @ [x]). set (dag_claims u))"
      unfolding keys_claimed "2.prems"(4) by auto
    moreover have "t \<notin> set (select_wave m ts (sel @ [x]) ?cl)" using "2.prems"(2) unfolding eq .
    ultimately show ?thesis unfolding eq
      using "2.prems"(1,3,5) by (intro "2.IH"(2) [OF 3]) (auto simp del: set_map)
  qed
qed

lemma set_ready:
  "t \<in> set (ready_tasks s completed failed in_progress) \<longleftrightarrow> t \<in> set (vals (sch_tasks s)) \<and>
    is_ready completed (set failed) in_progress ((child_rel s)\<^sup>+ `` set failed) t"
  by (auto simp: ready_tasks_def blocked_is_trancl)

lemma ready_sorted: "sorted_wrt (\<lambda>u v. wave_key u \<le> wave_key v) (ready_tasks s c f i)"
  unfolding ready_tasks_def by (metis sorted_sort_key sorted_map)

lemma wave_sub_ready: "set (compute_next_wave s c f i) \<subseteq> set (ready_tasks s c f i)"
  using select_wave_subseq [of "sch_parallel s" "ready_tasks s c f i" "[]" "[]"]
  by (auto simp: compute_next_wave_def)

lemma wave_nonempty:
  assumes "ready_tasks s c f i \<noteq> []" "1 \<le> sch_parallel s"
  shows "compute_next_wave s c f i \<noteq> []"
proof -
  obtain t ts where "ready_tasks s c f i = t # ts" using assms(1) by (cases "ready_tasks s c f i") auto
  moreover have "\<not> resource_conflicts (dag_claims t) []" by (simp add: resource_conflicts_iff)
  ultimately show ?thesis
    using assms(2) select_wave_subseq [of "sch_parallel s" ts "[t]" "fold (\<lambda>r c. AList.update r (dag_id t) c) (dag_claims t) []"]
    by (auto simp: compute_next_wave_def)
qed

lemma tasks_keyed:
  assumes "scheduler_wf s"
  shows "map dag_id (vals (sch_tasks s)) = keys (sch_tasks s)"
proof -
  have wf: "wf_dict (sch_tasks s)"
    and ids: "\<And>k t. map_of (sch_tasks s) k = Some t \<Longrightarrow> dag_id t = k"
    using assms unfolding scheduler_wf_def by blast+
  have "dag_id (snd p) = fst p" if p: "p \<in> set (sch_tasks s)" for p
  proof -
    have "(fst p, snd p) \<in> set (sch_tasks s)" using p by simp
    then show ?thesis by (intro ids) (simp only: dict_mem_iff [OF wf])
  qed
  then show ?thesis by simp
qed

lemma index_tasks_sub: "set (vals (index_tasks ts)) \<subseteq> set ts"
proof -
  have "set (vals (fold (\<lambda>t d. AList.update (dag_id t) t d) us d)) \<subseteq> set us \<union> set (vals d)"
    if "wf_dict d" for us d
    using that
  proof (induction us arbitrary: d)
    case (Cons u us)
    have "set (vals (AList.update (dag_id u) u d)) \<subseteq> insert u (set (vals d))"
      using Cons.prems by (auto simp: set_update_dict)
    moreover have "set (vals (fold (\<lambda>t d. AList.update (dag_id t) t d) us (AList.update (dag_id u) u d)))
        \<subseteq> set us \<union> set (vals (AList.update (dag_id u) u d))"
      using Cons.IH Cons.prems wf_dict_update by blast
    ultimately show ?case by (simp only: fold_Cons comp_apply list.set) blast
  qed simp
  from this [of "[]" ts] show ?thesis by (simp add: index_tasks_def)
qed

lemma ready_distinct:
  assumes "scheduler_wf s"
  shows "distinct (ready_tasks s c f i) \<and> inj_on dag_id (set (ready_tasks s c f i))"
proof -
  have "distinct (map dag_id (vals (sch_tasks s)))"
    unfolding tasks_keyed [OF assms] using assms by (simp add: scheduler_wf_def)
  then have d: "distinct (vals (sch_tasks s))" and inj: "inj_on dag_id (set (vals (sch_tasks s)))"
    by (simp_all only: distinct_map)
  have "set (ready_tasks s c f i) \<subseteq> set (vals (sch_tasks s))" by (auto simp only: set_ready)
  then show ?thesis using d inj_on_subset [OF inj] by (simp add: ready_tasks_def)
qed

lemma wave_distinct:
  assumes "scheduler_wf s"
  shows "distinct (map dag_id (compute_next_wave s c f i))"
proof -
  have "distinct (compute_next_wave s c f i)"
    using select_wave_subseq [of "sch_parallel s" "ready_tasks s c f i" "[]" "[]"] ready_distinct [OF assms]
    by (auto simp: compute_next_wave_def)
  moreover have "inj_on dag_id (set (compute_next_wave s c f i))"
    by (rule inj_on_subset [OF conjunct2 [OF ready_distinct [OF assms]] wave_sub_ready])
  ultimately show ?thesis by (simp add: distinct_map)
qed

lemma wave_exclusive:
  assumes "1 \<le> sch_parallel s"
  shows "exclusive_claims (compute_next_wave s c f i) \<and> length (compute_next_wave s c f i) \<le> nat (sch_parallel s)"
  unfolding compute_next_wave_def
  by (rule select_wave_inv) (use assms in \<open>simp_all add: exclusive_claims_def\<close>)

lemma wave_member:
  assumes "scheduler_wf s" "t \<in> set (compute_next_wave s completed failed in_progress)"
  shows "t \<in> set (vals (sch_tasks s)) \<and> dag_id t \<notin> completed \<union> set failed \<union> in_progress \<and>
    dag_id t \<notin> (dep_rel s)\<^sup>+ `` set failed \<and> set (dag_dependencies t) \<subseteq> completed"
proof -
  have "t \<in> set (ready_tasks s completed failed in_progress)" using assms(2) wave_sub_ready by blast
  then have "t \<in> set (vals (sch_tasks s))"
    "is_ready completed (set failed) in_progress ((dep_rel s)\<^sup>+ `` set failed) t"
    by (simp_all only: set_ready child_rel_eq [OF assms(1)])
  then show ?thesis by (simp add: is_ready_def list_all_iff subset_iff)
qed

section \<open>Progress\<close>

definition unblocked :: "scheduler \<Rightarrow> string list \<Rightarrow> string set" where
  "unblocked s failed = set (keys (sch_tasks s)) - set failed - set (blocked_by_failed s failed)"

lemma wf_dep_rel:
  assumes "scheduler_wf s" "acyclic (dep_rel s)"
  shows "wf (dep_rel s)"
proof -
  have "d \<in> set (keys (sch_tasks s)) \<and> c \<in> set (keys (sch_tasks s))" if dc: "(d, c) \<in> dep_rel s" for d c
  proof -
    obtain t where t: "map_of (sch_tasks s) c = Some t" "d \<in> set (dag_dependencies t)"
      using dc by (auto simp: dep_rel_def)
    have "c \<in> set (keys (sch_tasks s))" using t(1) by (metis map_of_None_keys option.distinct(1))
    moreover have "set (dag_dependencies t) \<subseteq> set (keys (sch_tasks s))"
      using assms(1) t(1) unfolding scheduler_wf_def by blast
    ultimately show ?thesis using t(2) by blast
  qed
  then have "dep_rel s \<subseteq> set (keys (sch_tasks s)) \<times> set (keys (sch_tasks s))" by (intro subrelI) blast
  then have "finite (dep_rel s)" by (rule finite_subset) simp
  then show ?thesis using assms(2) by (rule finite_acyclic_wf)
qed

lemma ready_exists:
  assumes wf: "scheduler_wf s" and ac: "acyclic (dep_rel s)"
    and left: "\<not> unblocked s failed \<subseteq> completed"
  shows "ready_tasks s completed failed {} \<noteq> []"
proof -
  let ?U = "unblocked s failed - completed"
  obtain x where x: "x \<in> ?U" using left by blast
  obtain k where k: "k \<in> ?U" and min: "\<And>d. (d, k) \<in> dep_rel s \<Longrightarrow> d \<notin> ?U"
    using wfE_min [OF wf_dep_rel [OF wf ac] x] by blast
  have "k \<in> set (keys (sch_tasks s))" using k by (simp add: unblocked_def)
  then obtain t where t: "map_of (sch_tasks s) k = Some t"
    by (cases "map_of (sch_tasks s) k") (simp_all add: map_of_None_keys)
  with wf have id: "dag_id t = k" and sub: "set (dag_dependencies t) \<subseteq> set (keys (sch_tasks s))"
    by (auto simp: scheduler_wf_def)
  have "d \<in> completed" if d: "d \<in> set (dag_dependencies t)" for d
  proof -
    have dk: "(d, k) \<in> dep_rel s" using d t by (auto simp: dep_rel_def)
    have "d \<notin> set failed \<union> set (blocked_by_failed s failed)"
    proof
      assume "d \<in> set failed \<union> set (blocked_by_failed s failed)"
      then have "k \<in> (dep_rel s)\<^sup>+ `` set failed"
        using dk unfolding blocked_is_trancl child_rel_eq [OF wf] by (auto intro: trancl_into_trancl)
      then have "k \<in> set (blocked_by_failed s failed)" unfolding blocked_is_trancl child_rel_eq [OF wf] .
      then show False using k by (simp add: unblocked_def)
    qed
    then show ?thesis using min [OF dk] sub d by (auto simp: unblocked_def)
  qed
  then have "is_ready completed (set failed) {} ((child_rel s)\<^sup>+ `` set failed) t"
    using k id by (simp add: is_ready_def unblocked_def list_all_iff blocked_is_trancl [symmetric])
  moreover have "t \<in> set (vals (sch_tasks s))" using t by (force dest: map_of_SomeD)
  ultimately have "t \<in> set (ready_tasks s completed failed {})" by (simp add: set_ready)
  then show ?thesis by auto
qed

text \<open>The scheduler driven to the end: each wave is run and all its tasks complete.\<close>

fun run_waves :: "nat \<Rightarrow> scheduler \<Rightarrow> string list \<Rightarrow> string set \<Rightarrow> string set" where
  "run_waves 0 s failed completed = completed"
| "run_waves (Suc n) s failed completed = run_waves n s failed
     (completed \<union> set (map dag_id (compute_next_wave s completed failed {})))"

lemma run_waves_grows: "completed \<subseteq> run_waves n s failed completed"
  by (induction n arbitrary: completed) (simp, simp, blast)

lemma wave_completes_one:
  assumes "scheduler_wf s" "acyclic (dep_rel s)" "\<not> unblocked s failed \<subseteq> completed"
  shows "\<exists>k \<in> unblocked s failed - completed. k \<in> set (map dag_id (compute_next_wave s completed failed {}))"
proof -
  have "1 \<le> sch_parallel s" using assms(1) by (simp add: scheduler_wf_def)
  then obtain t where t: "t \<in> set (compute_next_wave s completed failed {})"
    using wave_nonempty [OF ready_exists [OF assms]] by (metis last_in_set)
  note r = wave_member [OF assms(1) t]
  then have "dag_id t \<in> set (map dag_id (vals (sch_tasks s)))" by (subst list.set_map) blast
  then have "dag_id t \<in> set (keys (sch_tasks s))" by (simp only: tasks_keyed [OF assms(1)])
  then have "dag_id t \<in> unblocked s failed - completed"
    using r unfolding unblocked_def blocked_is_trancl child_rel_eq [OF assms(1)] by blast
  then show ?thesis using t by auto
qed

lemma run_waves_completes:
  assumes "scheduler_wf s" "acyclic (dep_rel s)" "card (unblocked s failed - completed) \<le> n"
  shows "unblocked s failed \<subseteq> run_waves n s failed completed"
  using assms(3)
proof (induction n arbitrary: completed)
  case 0
  have "finite (unblocked s failed - completed)" by (simp add: unblocked_def)
  with 0 show ?case by simp
next
  case (Suc n)
  let ?c = "completed \<union> set (map dag_id (compute_next_wave s completed failed {}))"
  show ?case
  proof (cases "unblocked s failed \<subseteq> completed")
    case True
    then show ?thesis using run_waves_grows [of completed "Suc n" s failed] by blast
  next
    case False
    then obtain k where "k \<in> unblocked s failed - completed" "k \<in> ?c"
      using wave_completes_one [OF assms(1,2)] by blast
    then have "unblocked s failed - ?c \<subset> unblocked s failed - completed" by blast
    then have "card (unblocked s failed - ?c) < card (unblocked s failed - completed)"
      by (intro psubset_card_mono) (simp_all add: unblocked_def)
    then have "card (unblocked s failed - ?c) \<le> n" using Suc.prems by linarith
    from Suc.IH [OF this] show ?thesis by simp
  qed
qed

section \<open>Properties\<close>

text \<open>C5: a wave is safe. For every constructed scheduler and every state of the run, the tasks of
  the next wave are distinct known tasks, none of them completed, failed, running or below a
  failed task, all their dependencies are completed, no two of them claim one resource, and there
  are at most \<open>max_parallel_runs\<close> of them.\<close>

theorem wave_safe:
  assumes "scheduler_init is_dag cyclic_nodes ts m = Inr s"
    and "w = compute_next_wave s completed failed in_progress"
  shows "distinct (map dag_id w) \<and> set w \<subseteq> set ts \<and> exclusive_claims w \<and> int (length w) \<le> max 1 m \<and>
    (\<forall>t \<in> set w. dag_id t \<notin> completed \<union> set failed \<union> in_progress \<and>
      dag_id t \<notin> (dep_rel s)\<^sup>+ `` set failed \<and> set (dag_dependencies t) \<subseteq> completed)"
proof -
  note I = scheduler_init_ok [OF assms(1)]
  have "set (vals (sch_tasks s)) \<subseteq> set ts" using index_tasks_sub [of ts] by (simp only: I(2))
  then have "set w \<subseteq> set ts" unfolding assms(2) using wave_member [OF I(1)] by blast
  moreover have "int (length w) \<le> max 1 m" "exclusive_claims w"
    unfolding assms(2) using wave_exclusive [of s completed failed in_progress] I(3) by auto
  ultimately show ?thesis
    using wave_distinct [OF I(1)] wave_member [OF I(1)] unfolding assms(2) by blast
qed

text \<open>The tasks \<open>_blocked_by_failed_dependencies\<close> reports are exactly those that depend on a
  failed task, directly or through other tasks; the iteration order of the set of failed tasks
  does not matter.\<close>

lemma blocked_exact:
  assumes "scheduler_init is_dag cyclic_nodes ts m = Inr s"
  shows "set (blocked_by_failed s failed) = (dep_rel s)\<^sup>+ `` set failed"
  by (simp only: blocked_is_trancl child_rel_eq [OF scheduler_init_ok(1) [OF assms]])

text \<open>C6: the schedule ends. With a networkx that answers the acyclicity question correctly, as many
  waves as there are tasks complete every task that is not failed and does not depend on a failed
  one, from every state with nothing running; so a schedule never stalls on its dependencies, its
  resource claims or the bound on parallel runs.\<close>

theorem waves_complete_all:
  assumes nx: "\<And>ns es. is_dag ns es \<longleftrightarrow> acyclic (set es)"
    and init: "scheduler_init is_dag cyclic_nodes ts m = Inr s"
  shows "set (keys (sch_tasks s)) - set failed - (dep_rel s)\<^sup>+ `` set failed
    \<subseteq> run_waves (length (sch_tasks s)) s failed completed"
proof -
  note I = scheduler_init_ok [OF init]
  have "acyclic (dep_rel s)" using I(1,4) by (simp add: nx scheduler_wf_def)
  moreover have "card (unblocked s failed - completed) \<le> card (set (keys (sch_tasks s)))"
    unfolding unblocked_def by (intro card_mono) auto
  then have "card (unblocked s failed - completed) \<le> length (sch_tasks s)"
    by (metis card_length dual_order.trans length_map)
  ultimately have "unblocked s failed \<subseteq> run_waves (length (sch_tasks s)) s failed completed"
    by (rule run_waves_completes [OF I(1)])
  then show ?thesis by (simp add: unblocked_def blocked_is_trancl child_rel_eq [OF I(1)])
qed

text \<open>The selection is greedy in priority order. A ready task is left out of the wave only when
  the wave is full, or when a selected task that sorts before it claims one of its resources.\<close>

lemma wave_greedy:
  assumes "t \<in> set (ready_tasks s completed failed in_progress)"
    and "t \<notin> set (compute_next_wave s completed failed in_progress)"
  shows "sch_parallel s \<le> int (length (compute_next_wave s completed failed in_progress)) \<or>
    (\<exists>u \<in> set (compute_next_wave s completed failed in_progress).
       wave_key u \<le> wave_key t \<and> set (dag_claims u) \<inter> set (dag_claims t) \<noteq> {})"
  using assms(1) assms(2) [unfolded compute_next_wave_def] ready_sorted
  unfolding compute_next_wave_def by (rule select_wave_greedy) simp_all

section \<open>A concrete graph\<close>

definition ex_task :: "string \<Rightarrow> string list \<Rightarrow> string list \<Rightarrow> dag_task" where
  "ex_task i deps claims = \<lparr>dag_id = i, dag_role = ''dev'', dag_dependencies = deps, dag_claims = claims,
     dag_priority = 1, dag_timeout = 60, dag_retries = 1\<rparr>"

definition ex_tasks :: "dag_task list" where
  "ex_tasks = [ex_task ''a'' [] [''f''], ex_task ''b'' [''a''] [''f''], ex_task ''c'' [] [''f''], ex_task ''d'' [] []]"

definition ex_sched :: scheduler where
  "ex_sched = \<lparr>sch_tasks = [(''a'', ex_task ''a'' [] [''f'']), (''b'', ex_task ''b'' [''a''] [''f'']),
       (''c'', ex_task ''c'' [] [''f'']), (''d'', ex_task ''d'' [] [])],
     sch_parallel = 2, sch_children = [(''a'', [''b''])],
     sch_indegree = [(''a'', 0), (''b'', 1), (''c'', 0), (''d'', 0)], sch_edges = [(''a'', ''b'')]\<rparr>"

lemma acyclic_none: "acyclic {}"
  unfolding acyclic_def by simp

lemma ex_init: "scheduler_init (\<lambda>ns es. acyclic (set es)) (\<lambda>s. []) ex_tasks 2 = Inr ex_sched"
  by (simp add: scheduler_init_def ex_tasks_def ex_sched_def index_tasks_def Let_def validate_def ex_task_def
      acyclic_none get_or_def)

lemma ex_first_wave:
  "map dag_id (compute_next_wave ex_sched {} [] {}) = [''a'', ''d'']"
  "map dag_id (compute_next_wave ex_sched {''d''} [''a''] {}) = [''c'']"
  by (code_simp, code_simp)

theorem wave_safe_witness:
  "distinct (map dag_id (compute_next_wave ex_sched {''d''} [] {''c''})) \<and>
   int (length (compute_next_wave ex_sched {''d''} [] {''c''})) \<le> max 1 2"
  using wave_safe [OF ex_init refl] by blast

theorem blocked_exact_witness:
  "set (blocked_by_failed ex_sched [''a'']) = (dep_rel ex_sched)\<^sup>+ `` set [''a'']"
  by (rule blocked_exact [OF ex_init])

theorem waves_complete_all_witness:
  "set (keys (sch_tasks ex_sched)) - set [] - (dep_rel ex_sched)\<^sup>+ `` set [] \<subseteq> run_waves 4 ex_sched [] {}"
proof -
  have "length (sch_tasks ex_sched) = 4" by (simp add: ex_sched_def)
  then show ?thesis using waves_complete_all [OF refl ex_init, of "[]" "{}"] by simp
qed

theorem wave_greedy_witness:
  "sch_parallel ex_sched \<le> int (length (compute_next_wave ex_sched {''d''} [] {})) \<or>
    (\<exists>u \<in> set (compute_next_wave ex_sched {''d''} [] {}).
       wave_key u \<le> wave_key (ex_task ''c'' [] [''f'']) \<and> set (dag_claims u) \<inter> set (dag_claims (ex_task ''c'' [] [''f''])) \<noteq> {})"
  by (rule wave_greedy) (code_simp, code_simp)

text \<open>
  The claims of tasks in progress do not count: while \<open>a\<close> runs and holds \<open>f\<close>, the next wave
  starts \<open>c\<close>, which claims \<open>f\<close> too.
\<close>

lemma running_claims_ignored:
  "dag_claims (ex_task ''a'' [] [''f'']) = [''f''] \<and>
   map dag_id (compute_next_wave ex_sched {} [] {''a''}) = [''c'', ''d''] \<and>
   dag_claims (ex_task ''c'' [] [''f'']) = [''f'']"
  by code_simp

end
