(* ===== verification/Rollback.thy ===== *)
theory Rollback
  imports Prelude
begin

text \<open>
  Checkpoint rollback of a run: \<open>src/focus_agent/harness/runtime/rollback.py\<close>, and
  \<open>_augment_rollback_result\<close> of \<open>runs.py\<close>. The LangGraph graph and its checkpointer are not code
  of the repository: they are the record \<open>graph_api\<close>, whose operations act on an abstract state
  \<open>'s\<close> of the checkpoint store, may be absent (\<open>None\<close>, the code's \<open>has_repo_method\<close> tests) and may
  raise (\<open>Inl\<close>).
\<close>

record snapshot =
  sn_ns :: "string option"
  sn_checkpoint :: "string option"
  sn_metadata :: "(string, pyval) dict"

record 's graph_api =
  g_get_state :: "'s \<Rightarrow> string \<Rightarrow> snapshot"
  g_update_state :: "('s \<Rightarrow> string \<Rightarrow> string \<Rightarrow> string \<Rightarrow> string + ('s \<times> string option)) option"
  g_has_checkpointer :: bool
  g_delete_thread :: "('s \<Rightarrow> string \<Rightarrow> string + 's) option"

record rollback_target =
  rt_thread :: string
  rt_ns :: string
  rt_checkpoint :: "string option"
  rt_metadata :: "(string, pyval) dict"

record rollback_result =
  rr_applied :: bool
  rr_requested :: bool
  rr_reason :: "string option"
  rr_checkpoint :: "string option"
  rr_error :: "string option"
  rr_partial :: bool
  rr_scopes :: "string list"

text \<open>\<open>CheckpointRollbackResult(requested=True, applied=..., reason=...)\<close>\<close>

definition rollback_answer :: "bool \<Rightarrow> string option \<Rightarrow> rollback_result" where
  "rollback_answer applied reason = \<lparr>rr_applied = applied, rr_requested = True, rr_reason = reason,
     rr_checkpoint = None, rr_error = None, rr_partial = False, rr_scopes = []\<rparr>"

text \<open>\<open>str(x) if x else None\<close> on an optional string.\<close>

definition non_empty :: "string option \<Rightarrow> string option" where
  "non_empty s = (case s of None \<Rightarrow> None | Some t \<Rightarrow> if t = [] then None else Some t)"

definition capture_checkpoint_rollback_target :: "'s graph_api \<Rightarrow> 's \<Rightarrow> string \<Rightarrow> rollback_target" where
  "capture_checkpoint_rollback_target g st thread =
    (let sn = g_get_state g st thread in
     \<lparr>rt_thread = thread, rt_ns = (case sn_ns sn of None \<Rightarrow> [] | Some ns \<Rightarrow> ns),
      rt_checkpoint = non_empty (sn_checkpoint sn), rt_metadata = sn_metadata sn\<rparr>)"

definition restore_sync :: "'s graph_api \<Rightarrow> rollback_target \<Rightarrow> 's \<Rightarrow> string + ('s \<times> rollback_result)" where
  "restore_sync g target st =
    (case rt_checkpoint target of
       None \<Rightarrow>
         if \<not> g_has_checkpointer g then Inr (st, rollback_answer False (Some ''missing_checkpointer''))
         else (case g_delete_thread g of
             None \<Rightarrow> Inr (st, rollback_answer False (Some ''delete_thread_unavailable''))
           | Some del \<Rightarrow> (case del st (rt_thread target) of
               Inl e \<Rightarrow> Inl e
             | Inr st' \<Rightarrow> Inr (st', rollback_answer True (Some ''deleted_thread''))))
     | Some cid \<Rightarrow>
         (case g_update_state g of
             None \<Rightarrow> Inr (st, rollback_answer False (Some ''update_state_unavailable''))
           | Some upd \<Rightarrow> (case upd st (rt_thread target) (rt_ns target) cid of
               Inl e \<Rightarrow> Inl e
             | Inr (st', next_id) \<Rightarrow>
                 Inr (st', (rollback_answer True None)\<lparr>rr_checkpoint := non_empty next_id\<rparr>))))"

definition restore_graph_rollback_target ::
  "'s graph_api \<Rightarrow> rollback_target option \<Rightarrow> 's \<Rightarrow> string + ('s \<times> rollback_result)" where
  "restore_graph_rollback_target g target st =
    (case target of
       None \<Rightarrow> Inr (st, rollback_answer False (Some ''missing_rollback_target''))
     | Some t \<Rightarrow> restore_sync g t st)"

section \<open>Scopes that were not reverted\<close>

text \<open>
  A string is one scope; any other iterable gives the \<open>str()\<close> of its items, here \<open>to_str\<close>; a value
  that is not iterable gives none.
\<close>

definition metadata_scopes :: "(pyval \<Rightarrow> string) \<Rightarrow> (string, pyval) dict \<Rightarrow> string list" where
  "metadata_scopes to_str md = (case map_of md ''harness.rollback_unreverted_scopes'' of
       None \<Rightarrow> []
     | Some (PStr s) \<Rightarrow> [s]
     | Some (PList vs) \<Rightarrow> map to_str vs
     | Some (PDict d) \<Rightarrow> keys d
     | Some v \<Rightarrow> [])"

definition augment_rollback_result ::
  "(pyval \<Rightarrow> string) \<Rightarrow> rollback_result \<Rightarrow> (string, pyval) dict \<Rightarrow> rollback_result" where
  "augment_rollback_result to_str r md =
    (let scopes = from_keys (rr_scopes r @ metadata_scopes to_str md);
         part = rr_partial r \<or> truthy (get_or md ''harness.rollback_partial'' PNone) \<or> scopes \<noteq> []
     in r\<lparr>rr_partial := part, rr_scopes := scopes\<rparr>)"

lemma augment_fields [simp]:
  "rr_applied (augment_rollback_result f r md) = rr_applied r"
  "rr_error (augment_rollback_result f r md) = rr_error r"
  "rr_reason (augment_rollback_result f r md) = rr_reason r"
  "rr_requested (augment_rollback_result f r md) = rr_requested r"
  "rr_checkpoint (augment_rollback_result f r md) = rr_checkpoint r"
  by (simp_all add: augment_rollback_result_def Let_def)

section \<open>Properties\<close>

text \<open>Rollback undoes the run. Let \<open>view\<close> read the values of a thread and \<open>stored\<close> the values
  of a checkpoint. Assume of LangGraph that \<open>get_state\<close> names a checkpoint holding the thread's
  values, or none for a thread without state; that \<open>update_state\<close> as node \<open>__copy__\<close> makes the
  values of a stored checkpoint those of the thread; that \<open>delete_thread\<close> leaves it without state;
  and that the run between capture and rollback keeps the checkpoints that existed. Then if the
  restore of the captured target reports \<open>applied\<close>, the thread has the values it had at capture,
  whatever the run did to it.\<close>

lemma rollback_restores_captured:
  fixes view :: "'s \<Rightarrow> string \<Rightarrow> 'v option" and stored :: "'s \<Rightarrow> string \<Rightarrow> string \<Rightarrow> 'v option"
  assumes get: "\<And>st t cid. non_empty (sn_checkpoint (g_get_state g st t)) = Some cid \<Longrightarrow> stored st t cid = view st t \<and> view st t \<noteq> None"
    and get_none: "\<And>st t. non_empty (sn_checkpoint (g_get_state g st t)) = None \<Longrightarrow> view st t = None"
    and copy: "\<And>upd st t ns cid st' n v. g_update_state g = Some upd \<Longrightarrow> upd st t ns cid = Inr (st', n) \<Longrightarrow>
        stored st t cid = Some v \<Longrightarrow> view st' t = Some v"
    and del: "\<And>del st t st'. g_delete_thread g = Some del \<Longrightarrow> del st t = Inr st' \<Longrightarrow> view st' t = None"
    and kept: "\<And>cid v. stored st0 thread cid = Some v \<Longrightarrow> stored st1 thread cid = Some v"
    and run: "restore_graph_rollback_target g (Some (capture_checkpoint_rollback_target g st0 thread)) st1 = Inr (st2, r)"
    and applied: "rr_applied r"
  shows "view st2 thread = view st0 thread"
proof (cases "non_empty (sn_checkpoint (g_get_state g st0 thread))")
  case None
  then show ?thesis using run applied get_none [OF None] del
    by (auto simp: restore_graph_rollback_target_def capture_checkpoint_rollback_target_def Let_def
        restore_sync_def rollback_answer_def split: if_splits option.splits sum.splits)
next
  case (Some cid)
  then obtain v where v: "view st0 thread = Some v" "stored st1 thread cid = Some v"
    using get [OF Some] kept by auto
  with Some show ?thesis using run applied copy
    by (auto simp: restore_graph_rollback_target_def capture_checkpoint_rollback_target_def Let_def
        restore_sync_def rollback_answer_def split: option.splits sum.splits)
qed

text \<open>A checkpoint store that satisfies the assumptions: a thread's values are a number, 0 for a
  thread without state, and a checkpoint id spells its content.\<close>

definition unary_graph :: "(string \<Rightarrow> nat) graph_api" where
  "unary_graph = \<lparr>g_get_state = (\<lambda>st t. \<lparr>sn_ns = None, sn_checkpoint = Some (replicate (st t) (CHR ''x'')), sn_metadata = []\<rparr>),
     g_update_state = Some (\<lambda>st t ns cid. Inr (st(t := length cid), Some cid)),
     g_has_checkpointer = True,
     g_delete_thread = Some (\<lambda>st t. Inr (st(t := 0)))\<rparr>"

theorem rollback_restores_captured_witness:
  "\<exists>st2 r. restore_graph_rollback_target unary_graph
       (Some (capture_checkpoint_rollback_target unary_graph (\<lambda>t. 3) ''t'')) (\<lambda>t. 5) = Inr (st2, r) \<and> st2 ''t'' = 3"
proof -
  let ?t = "Some (capture_checkpoint_rollback_target unary_graph (\<lambda>t. 3) ''t'')"
  let ?view = "\<lambda>st t. if st t = 0 then None else Some (st t :: nat)"
  let ?stored = "\<lambda>st t cid :: string. if cid = [] then None else Some (length cid)"
  obtain st2 r where run: "restore_graph_rollback_target unary_graph ?t (\<lambda>t. 5) = Inr (st2, r)" and ap: "rr_applied r"
    by (simp add: restore_graph_rollback_target_def capture_checkpoint_rollback_target_def Let_def
        restore_sync_def rollback_answer_def unary_graph_def non_empty_def)
  have "?view st2 ''t'' = ?view (\<lambda>t. 3) ''t''"
    by (rule rollback_restores_captured [where stored = ?stored and g = unary_graph, OF _ _ _ _ _ run ap])
      (auto simp: unary_graph_def non_empty_def split: if_splits)
  then show ?thesis using run by (auto split: if_splits)
qed

end
