(* ===== verification/RunManager.thy ===== *)
theory RunManager
  imports Rollback
begin

text \<open>
  The registry of harness runs: \<open>RunManager\<close>, \<open>RunRecord\<close> and the enumerations of
  \<open>src/focus_agent/harness/runtime/runs.py\<close>. The queues of \<open>RunFollowupsMixin\<close> are in the theory
  \<open>RunFollowups\<close>.

  Records are shared objects in the code: a change to one is a change to the entry of its id in the
  registry (\<open>modify_run\<close>). An asyncio task is one of three states. The run store and the lifecycle
  publisher are ports whose failures are swallowed: what the manager tells them is appended to
  \<open>rm_log\<close>. The rollback handler and \<open>str()\<close> of metadata items are the record \<open>run_env\<close>; the clock
  and \<open>uuid4\<close> are arguments. The body of each operation runs as one step, except that
  \<open>run_step\<close> below also interleaves the operations at the granularity of the manager's lock.
\<close>

datatype run_status = PENDING | RUNNING | SUCCESS | ERROR | TIMEOUT | INTERRUPTED

datatype disconnect_mode = CANCEL | CONTINUE | ROLLBACK_RUN

datatype multitask_strategy = REJECT | INTERRUPT | ROLLBACK | ENQUEUE

datatype cancel_action = ActInterrupt | ActRollback

datatype task_state = TaskRunning | TaskCancelling | TaskDone

definition coerce_run_status :: "string \<Rightarrow> py_error + run_status" where
  "coerce_run_status s = (case map_of [(''pending'', PENDING), (''running'', RUNNING), (''success'', SUCCESS),
      (''error'', ERROR), (''timeout'', TIMEOUT), (''interrupted'', INTERRUPTED)] s of
     None \<Rightarrow> Inl (ValueError (s @ '' is not a valid RunStatus'')) | Some x \<Rightarrow> Inr x)"

definition coerce_disconnect_mode :: "string \<Rightarrow> py_error + disconnect_mode" where
  "coerce_disconnect_mode s = (case map_of [(''cancel'', CANCEL), (''continue'', CONTINUE),
      (''rollback'', ROLLBACK_RUN)] s of
     None \<Rightarrow> Inl (ValueError (s @ '' is not a valid DisconnectMode'')) | Some x \<Rightarrow> Inr x)"

definition coerce_multitask_strategy :: "string \<Rightarrow> py_error + multitask_strategy" where
  "coerce_multitask_strategy s = (case map_of [(''reject'', REJECT), (''interrupt'', INTERRUPT),
      (''rollback'', ROLLBACK), (''enqueue'', ENQUEUE)] s of
     None \<Rightarrow> Inl (ValueError (s @ '' is not a valid MultitaskStrategy'')) | Some x \<Rightarrow> Inr x)"

record run_record =
  run_id :: string
  run_thread :: string
  run_assistant :: "string option"
  run_status :: run_status
  run_disconnect :: disconnect_mode
  run_strategy :: multitask_strategy
  run_metadata :: "(string, pyval) dict"
  run_kwargs :: "(string, pyval) dict"
  run_user :: "string option"
  run_target :: "rollback_target option"
  run_created :: string
  run_updated :: string
  run_task :: "task_state option"
  run_aborted :: bool
  run_action :: cancel_action
  run_rb_ready :: bool
  run_rb_completed :: bool
  run_error :: "string option"
  run_rb_result :: "rollback_result option"

definition inflight :: "run_record \<Rightarrow> bool" where
  "inflight r = (run_status r = PENDING \<or> run_status r = RUNNING)"

datatype lifecycle_data = NoData | ActionData cancel_action | ResultData rollback_result

datatype run_effect =
    StorePut run_record
  | StoreStatus string run_status "string option"
  | StoreCompletion string rollback_result
  | Lifecycle string string lifecycle_data

record run_manager =
  rm_runs :: "(string, run_record) dict"
  rm_store :: bool
  rm_publisher :: bool
  rm_log :: "run_effect list"

record run_env =
  re_handler :: "(run_record \<Rightarrow> string + rollback_result option) option"
  re_to_str :: "pyval \<Rightarrow> string"

definition run_manager_init :: "bool \<Rightarrow> bool \<Rightarrow> run_manager" where
  "run_manager_init store publisher =
    \<lparr>rm_runs = [], rm_store = store, rm_publisher = publisher, rm_log = []\<rparr>"

record create_args =
  ca_thread :: string
  ca_assistant :: "string option"
  ca_disconnect :: string
  ca_metadata :: "(string, pyval) dict"
  ca_kwargs :: "(string, pyval) dict"
  ca_strategy :: string
  ca_user :: "string option"
  ca_target :: "rollback_target option"

section \<open>Ports\<close>

definition persist :: "run_effect \<Rightarrow> run_manager \<Rightarrow> run_manager" where
  "persist e m = (if rm_store m then m\<lparr>rm_log := rm_log m @ [e]\<rparr> else m)"

definition persist_created :: "run_record \<Rightarrow> run_manager \<Rightarrow> run_manager" where
  "persist_created r m = persist (StorePut r) m"

definition persist_status :: "string \<Rightarrow> run_manager \<Rightarrow> run_manager" where
  "persist_status rid m = (case map_of (rm_runs m) rid of
     None \<Rightarrow> m | Some r \<Rightarrow> persist (StoreStatus rid (run_status r) (run_error r)) m)"

definition update_run_completion :: "string \<Rightarrow> rollback_result \<Rightarrow> run_manager \<Rightarrow> run_manager" where
  "update_run_completion rid res m = persist (StoreCompletion rid res) m"

definition publish_lifecycle :: "string \<Rightarrow> string \<Rightarrow> lifecycle_data \<Rightarrow> run_manager \<Rightarrow> run_manager" where
  "publish_lifecycle rid ev d m =
    (if rm_publisher m then m\<lparr>rm_log := rm_log m @ [Lifecycle rid ev d]\<rparr> else m)"

definition publish_interrupt :: "string \<Rightarrow> run_manager \<Rightarrow> run_manager" where
  "publish_interrupt rid m = (case map_of (rm_runs m) rid of
     None \<Rightarrow> m | Some r \<Rightarrow> publish_lifecycle rid ''run.interrupt'' (ActionData (run_action r)) m)"

definition modify_run :: "string \<Rightarrow> (run_record \<Rightarrow> run_record) \<Rightarrow> run_manager \<Rightarrow> run_manager" where
  "modify_run rid f m = m\<lparr>rm_runs := map (\<lambda>(k, r). (k, if k = rid then f r else r)) (rm_runs m)\<rparr>"

section \<open>Cancellation and rollback\<close>

definition task_running :: "run_record \<Rightarrow> bool" where
  "task_running r = (run_task r = Some TaskRunning \<or> run_task r = Some TaskCancelling)"

definition cancel_record :: "cancel_action \<Rightarrow> string \<Rightarrow> run_record \<Rightarrow> run_record" where
  "cancel_record act now r =
     r\<lparr>run_action := act, run_aborted := True,
       run_task := (if task_running r then Some TaskCancelling else run_task r),
       run_rb_ready := (if act = ActRollback then \<not> task_running r else True),
       run_rb_completed := (act \<noteq> ActRollback),
       run_status := INTERRUPTED, run_updated := now\<rparr>"

text \<open>The loops that cancel every record with a property.\<close>

definition cancel_where :: "(run_record \<Rightarrow> bool) \<Rightarrow> cancel_action \<Rightarrow> string \<Rightarrow> run_manager \<Rightarrow> run_manager \<times> string list" where
  "cancel_where P act now m =
    (m\<lparr>rm_runs := map (\<lambda>(k, r). (k, if P r then cancel_record act now r else r)) (rm_runs m)\<rparr>,
     map fst (filter (\<lambda>(k, r). P r) (rm_runs m)))"

definition settle_record :: "string \<Rightarrow> run_manager \<Rightarrow> run_manager" where
  "settle_record rid m = modify_run rid (\<lambda>r. r\<lparr>run_task := map_option (\<lambda>t. TaskDone) (run_task r)\<rparr>) m"

definition record_rollback_result :: "run_env \<Rightarrow> string \<Rightarrow> string \<Rightarrow> rollback_result \<Rightarrow> run_manager \<Rightarrow> run_manager" where
  "record_rollback_result env now rid res m = (case map_of (rm_runs m) rid of
     None \<Rightarrow> m
   | Some r \<Rightarrow> (let payload = augment_rollback_result (re_to_str env) res (run_metadata r) in
       update_run_completion rid payload
         (modify_run rid (\<lambda>r. r\<lparr>run_rb_result := Some payload, run_updated := now\<rparr>) m)))"

definition rollback_failed :: "string \<Rightarrow> string option \<Rightarrow> rollback_result" where
  "rollback_failed reason err = (rollback_answer False (Some reason))\<lparr>rr_error := err\<rparr>"

text \<open>The result the handler leads to, and whether the run raised.\<close>

definition rollback_outcome :: "run_env \<Rightarrow> run_record \<Rightarrow> rollback_result" where
  "rollback_outcome env r = (case re_handler env of
     None \<Rightarrow> rollback_failed ''rollback_handler_unavailable'' None
   | Some h \<Rightarrow> (case h r of
       Inl e \<Rightarrow> rollback_failed ''rollback_handler_error'' (Some e)
     | Inr None \<Rightarrow> rollback_failed ''rollback_handler_returned_none'' None
     | Inr (Some res) \<Rightarrow> res))"

definition rollback_succeeded :: "rollback_result \<Rightarrow> bool" where
  "rollback_succeeded res = (rr_applied res \<and> (rr_error res = None \<or> rr_error res = Some []))"

text \<open>
  One round of \<open>_rollback_records\<close>. The wait for \<open>rollback_ready\<close> ends by itself after ten seconds
  and changes nothing, so it does not appear. The event after the result is \<open>succeeded\<close> only when the
  handler returned a result that was applied without error.
\<close>

definition rollback_record :: "run_env \<Rightarrow> string \<Rightarrow> string \<Rightarrow> run_manager \<Rightarrow> run_manager" where
  "rollback_record env now rid m = (case map_of (rm_runs m) rid of
     None \<Rightarrow> m
   | Some r \<Rightarrow>
      if run_action r \<noteq> ActRollback
      then modify_run rid (\<lambda>r. r\<lparr>run_rb_ready := True, run_rb_completed := True\<rparr>) m
      else
        let r1 = r\<lparr>run_rb_completed := False\<rparr>;
            m1 = modify_run rid (\<lambda>r. r\<lparr>run_rb_completed := False\<rparr>) m;
            m2 = publish_lifecycle rid ''run.rollback.started'' NoData m1;
            res = augment_rollback_result (re_to_str env) (rollback_outcome env r1) (run_metadata r);
            m3 = record_rollback_result env now rid (rollback_outcome env r1) m2;
            m4 = publish_lifecycle rid (if rollback_succeeded res then ''run.rollback.succeeded''
                   else ''run.rollback.failed'') (ResultData res) m3
        in modify_run rid (\<lambda>r. r\<lparr>run_rb_completed := True\<rparr>) m4)"

definition rollback_records :: "run_env \<Rightarrow> string \<Rightarrow> string list \<Rightarrow> run_manager \<Rightarrow> run_manager" where
  "rollback_records env now rids m = fold (rollback_record env now) rids m"

section \<open>Operations\<close>

definition new_record :: "string \<Rightarrow> string \<Rightarrow> create_args \<Rightarrow> py_error + run_record" where
  "new_record rid now a =
    bind_ok (coerce_disconnect_mode (ca_disconnect a)) (\<lambda>dm.
    bind_ok (coerce_multitask_strategy (ca_strategy a)) (\<lambda>st.
      Inr \<lparr>run_id = rid, run_thread = ca_thread a, run_assistant = ca_assistant a, run_status = PENDING,
        run_disconnect = dm, run_strategy = st, run_metadata = ca_metadata a, run_kwargs = ca_kwargs a,
        run_user = ca_user a, run_target = ca_target a, run_created = now, run_updated = now,
        run_task = None, run_aborted = False, run_action = ActInterrupt, run_rb_ready = True,
        run_rb_completed = True, run_error = None, run_rb_result = None\<rparr>))"

definition put_run :: "run_record \<Rightarrow> run_manager \<Rightarrow> run_manager" where
  "put_run r m = m\<lparr>rm_runs := AList.update (run_id r) r (rm_runs m)\<rparr>"

definition create_run :: "string \<Rightarrow> string \<Rightarrow> create_args \<Rightarrow> run_manager \<Rightarrow> run_manager \<times> (py_error + run_record)" where
  "create_run rid now a m = (case new_record rid now a of
     Inl e \<Rightarrow> (m, Inl e)
   | Inr r \<Rightarrow> (persist_created r (put_run r m), Inr r))"

definition competes :: "string \<Rightarrow> string option \<Rightarrow> run_record \<Rightarrow> bool" where
  "competes thread user r \<longleftrightarrow> run_thread r = thread \<and> inflight r \<and> (user = None \<or> run_user r = user)"

definition action_of :: "multitask_strategy \<Rightarrow> cancel_action" where
  "action_of st = (if st = ROLLBACK then ActRollback else ActInterrupt)"

text \<open>The critical section of \<open>create_or_reject\<close>: test, cancel and insert under the lock.\<close>

definition reserve :: "multitask_strategy \<Rightarrow> string \<Rightarrow> run_record \<Rightarrow> run_manager \<Rightarrow> py_error + (run_manager \<times> string list)" where
  "reserve st now r m =
    (let busy = list_ex (competes (run_thread r) (run_user r)) (vals (rm_runs m)) in
     if st = REJECT \<and> busy
     then Inl (RunConflictError (''Thread '' @ run_thread r @ '' already has an active run''))
     else
       let (m1, interrupted) = (if st = INTERRUPT \<or> st = ROLLBACK
             then cancel_where (competes (run_thread r) (run_user r)) (action_of st) now m else (m, []))
       in Inr (put_run r m1, interrupted))"

definition rollback_ids :: "string list \<Rightarrow> run_manager \<Rightarrow> string list" where
  "rollback_ids rids m = filter (\<lambda>i. map_option run_action (map_of (rm_runs m) i) = Some ActRollback) rids"

definition create_or_reject ::
  "run_env \<Rightarrow> string \<Rightarrow> string \<Rightarrow> create_args \<Rightarrow> run_manager \<Rightarrow> run_manager \<times> (py_error + run_record)" where
  "create_or_reject env rid now a m = (case coerce_multitask_strategy (ca_strategy a) of
     Inl e \<Rightarrow> (m, Inl e)
   | Inr st \<Rightarrow>
      if st = ENQUEUE
      then (m, Inl (UnsupportedStrategyError (''Multitask strategy '' @ [CHR 0x27] @ ''enqueue'' @ [CHR 0x27] @ '' is not supported yet.'')))
      else (case new_record rid now a of
         Inl e \<Rightarrow> (m, Inl e)
       | Inr r \<Rightarrow> (case reserve st now r m of
           Inl e \<Rightarrow> (m, Inl e)
         | Inr (m1, interrupted) \<Rightarrow>
            let m2 = fold publish_interrupt interrupted m1;
                m3 = rollback_records env now (rollback_ids interrupted m2) m2;
                m4 = fold settle_record interrupted m3;
                m5 = persist_created r m4;
                m6 = fold persist_status interrupted m5
            in (m6, Inr r))))"

definition attach_task :: "string \<Rightarrow> string \<Rightarrow> run_manager \<Rightarrow> run_manager \<times> bool" where
  "attach_task rid now m = (case map_of (rm_runs m) rid of
     None \<Rightarrow> (m, False)
   | Some r \<Rightarrow> (modify_run rid (\<lambda>r. r\<lparr>run_task := Some TaskRunning, run_updated := now\<rparr>) m, True))"

definition list_by_thread :: "string \<Rightarrow> string option \<Rightarrow> run_manager \<Rightarrow> run_record list" where
  "list_by_thread thread user m =
    filter (\<lambda>r. run_thread r = thread \<and> (user = None \<or> run_user r = user)) (vals (rm_runs m))"

definition set_status :: "string \<Rightarrow> string \<Rightarrow> string option \<Rightarrow> string \<Rightarrow> run_manager \<Rightarrow> run_manager \<times> (py_error + unit)" where
  "set_status rid status err now m = (case map_of (rm_runs m) rid of
     None \<Rightarrow> (m, Inr ())
   | Some r \<Rightarrow> (case coerce_run_status status of
       Inl e \<Rightarrow> (m, Inl e)
     | Inr st \<Rightarrow>
        (persist_status rid (modify_run rid (\<lambda>r. r\<lparr>run_status := st, run_updated := now,
             run_error := (if err = None then run_error r else err)\<rparr>) m), Inr ())))"

definition cancel_run :: "run_env \<Rightarrow> string \<Rightarrow> cancel_action \<Rightarrow> bool \<Rightarrow> string \<Rightarrow> run_manager \<Rightarrow> run_manager \<times> bool" where
  "cancel_run env rid act wait now m = (case map_of (rm_runs m) rid of
     None \<Rightarrow> (m, False)
   | Some r \<Rightarrow>
      if \<not> inflight r then (m, False)
      else
        let m1 = modify_run rid (cancel_record act now) m;
            m2 = publish_interrupt rid (persist_status rid m1);
            m3 = (if act = ActRollback then rollback_records env now [rid] m2 else m2);
            m4 = (if wait \<or> act = ActRollback then settle_record rid m3 else m3)
        in (m4, True))"

definition cancel_thread ::
  "run_env \<Rightarrow> string \<Rightarrow> string option \<Rightarrow> cancel_action \<Rightarrow> bool \<Rightarrow> string \<Rightarrow> run_manager \<Rightarrow> run_manager \<times> string list" where
  "cancel_thread env thread user act wait now m =
    (let (m1, rids) = cancel_where (competes thread user) act now m;
         m2 = fold (\<lambda>i s. publish_interrupt i (persist_status i s)) rids m1;
         m3 = (if act = ActRollback then rollback_records env now rids m2 else m2);
         m4 = (if wait \<or> act = ActRollback then fold settle_record rids m3 else m3)
     in (m4, rids))"

definition cleanup_run :: "string \<Rightarrow> run_manager \<Rightarrow> run_manager" where
  "cleanup_run rid m = m\<lparr>rm_runs := AList.delete rid (rm_runs m)\<rparr>"

section \<open>How records evolve\<close>

text \<open>The entries of the registry change in place: related one by one by \<open>Q\<close>.\<close>

definition runs_rel :: "(run_record \<Rightarrow> run_record \<Rightarrow> bool) \<Rightarrow> run_manager \<Rightarrow> run_manager \<Rightarrow> bool" where
  "runs_rel Q m m' = list_all2 (\<lambda>p p'. fst p' = fst p \<and> Q (snd p) (snd p')) (rm_runs m) (rm_runs m')"

text \<open>A record that keeps its identity and does not come back to life, and one that keeps its status.\<close>

definition evolves :: "run_record \<Rightarrow> run_record \<Rightarrow> bool" where
  "evolves r r' \<longleftrightarrow> run_id r' = run_id r \<and> run_thread r' = run_thread r \<and> run_user r' = run_user r \<and>
     (inflight r' \<longrightarrow> inflight r)"

definition same_core :: "run_record \<Rightarrow> run_record \<Rightarrow> bool" where
  "same_core r r' \<longleftrightarrow> run_id r' = run_id r \<and> run_thread r' = run_thread r \<and> run_user r' = run_user r \<and>
     run_status r' = run_status r \<and> run_action r' = run_action r"

lemma same_core_evolves: "same_core r r' \<Longrightarrow> evolves r r'"
  by (simp add: same_core_def evolves_def inflight_def)

lemma runs_rel_mono: "(\<And>r r'. Q r r' \<Longrightarrow> Q' r r') \<Longrightarrow> runs_rel Q m m' \<Longrightarrow> runs_rel Q' m m'"
  unfolding runs_rel_def by (erule list_all2_mono) blast

lemma runs_rel_frame: "(\<And>r. Q r r) \<Longrightarrow> rm_runs m' = rm_runs m \<Longrightarrow> runs_rel Q m m'"
  by (simp add: runs_rel_def list_all2_same)

lemma runs_rel_trans:
  assumes "\<And>a b c. Q a b \<Longrightarrow> Q b c \<Longrightarrow> Q a c" "runs_rel Q m m'" "runs_rel Q m' m''"
  shows "runs_rel Q m m''"
  using assms(2,3) unfolding runs_rel_def
  by (rule list_all2_trans [rotated]) (auto intro: assms(1))

lemma runs_rel_map:
  "(\<And>k r. (k, r) \<in> set (rm_runs m) \<Longrightarrow> Q r (f k r)) \<Longrightarrow> rm_runs m' = map (\<lambda>(k, r). (k, f k r)) (rm_runs m) \<Longrightarrow> runs_rel Q m m'"
  unfolding runs_rel_def by (auto simp: list_all2_map2 list_all2_same split_beta)

lemma runs_rel_modify: "(\<And>r. Q r r) \<Longrightarrow> (\<And>r. Q r (f r)) \<Longrightarrow> runs_rel Q m (modify_run rid f m)"
  by (rule runs_rel_map [where f = "\<lambda>k r. if k = rid then f r else r"]) (simp_all add: modify_run_def)

lemma runs_rel_fold:
  assumes "\<And>r. Q r r" "\<And>a b c. Q a b \<Longrightarrow> Q b c \<Longrightarrow> Q a c" "\<And>i m. runs_rel Q m (F i m)"
  shows "runs_rel Q m (fold F is m)"
proof (induction "is" arbitrary: m)
  case Nil
  then show ?case by (simp add: runs_rel_frame assms(1))
next
  case (Cons i "is")
  show ?case unfolding fold_Cons comp_apply
    by (rule runs_rel_trans [where Q = Q, OF _ assms(3) Cons.IH]) (rule assms(2))
qed

lemma runs_rel_keys: "runs_rel Q m m' \<Longrightarrow> keys (rm_runs m') = keys (rm_runs m)"
  unfolding runs_rel_def by (induction rule: list_all2_induct) auto

lemma runs_rel_lookup:
  assumes "runs_rel Q m m'"
  shows "rel_option Q (map_of (rm_runs m) k) (map_of (rm_runs m') k)"
  using assms unfolding runs_rel_def by (induction rule: list_all2_induct) auto

lemma same_core_refl: "same_core r r"
  and same_core_trans: "same_core a b \<Longrightarrow> same_core b c \<Longrightarrow> same_core a c"
  and evolves_refl: "evolves r r"
  and evolves_trans: "evolves a b \<Longrightarrow> evolves b c \<Longrightarrow> evolves a c"
  by (auto simp: same_core_def evolves_def)

lemma core_trans [trans]:
  "runs_rel same_core m m' \<Longrightarrow> runs_rel same_core m' m'' \<Longrightarrow> runs_rel same_core m m''"
  by (rule runs_rel_trans [where Q = same_core]) (blast intro: same_core_trans)

lemma evolves_chain:
  "runs_rel evolves m m' \<Longrightarrow> runs_rel evolves m' m'' \<Longrightarrow> runs_rel evolves m m''"
  by (rule runs_rel_trans [where Q = evolves]) (blast intro: evolves_trans)

lemma core_fold: "(\<And>i m. runs_rel same_core m (F i m)) \<Longrightarrow> runs_rel same_core m (fold F is m)"
  by (rule runs_rel_fold [where Q = same_core]) (blast intro: same_core_refl same_core_trans)+

lemmas core_modify = runs_rel_modify [where Q = same_core, OF same_core_refl]
lemmas core_frame = runs_rel_frame [where Q = same_core, OF same_core_refl]

lemma runs_frame [simp]:
  "rm_runs (persist e m) = rm_runs m"
  "rm_runs (persist_created r m) = rm_runs m"
  "rm_runs (persist_status i m) = rm_runs m"
  "rm_runs (update_run_completion i res m) = rm_runs m"
  "rm_runs (publish_lifecycle i ev d m) = rm_runs m"
  "rm_runs (publish_interrupt i m) = rm_runs m"
  by (simp_all add: persist_def persist_created_def persist_status_def update_run_completion_def
      publish_lifecycle_def publish_interrupt_def split: option.splits)

lemma core_settle: "runs_rel same_core m (settle_record rid m)"
  unfolding settle_record_def by (rule core_modify) (simp add: same_core_def)

lemma core_result: "runs_rel same_core m (record_rollback_result env now rid res m)"
proof (cases "map_of (rm_runs m) rid")
  case None
  then show ?thesis by (simp add: record_rollback_result_def core_frame)
next
  case (Some r)
  show ?thesis unfolding record_rollback_result_def Some option.case Let_def
    by (rule core_trans [OF core_modify core_frame]) (simp_all add: same_core_def)
qed

lemma core_rollback: "runs_rel same_core m (rollback_record env now rid m)"
proof (cases "map_of (rm_runs m) rid")
  case None
  then show ?thesis by (simp add: rollback_record_def core_frame)
next
  case (Some r)
  have a: "runs_rel same_core n (modify_run rid (\<lambda>r. r\<lparr>run_rb_completed := b\<rparr>) n)" for b n
    by (rule core_modify) (simp add: same_core_def)
  have b: "runs_rel same_core m (modify_run rid (\<lambda>r. r\<lparr>run_rb_ready := True, run_rb_completed := True\<rparr>) m)"
    by (rule core_modify) (simp add: same_core_def)
  have c: "runs_rel same_core n (publish_lifecycle rid ev d n)" for ev d n by (simp add: core_frame)
  show ?thesis
  proof (cases "run_action r = ActRollback")
    case False
    then show ?thesis unfolding rollback_record_def Some option.case by (simp add: b)
  next
    case True
    then show ?thesis unfolding rollback_record_def Some option.case Let_def
      by (simp only: simp_thms if_False not_True_eq_False)
        (rule core_trans [OF core_trans [OF core_trans [OF core_trans [OF a c] core_result] c] a])
  qed
qed

lemma core_rollbacks: "runs_rel same_core m (rollback_records env now rids m)"
  unfolding rollback_records_def by (rule core_fold) (rule core_rollback)

lemma cancel_evolves: "evolves r (cancel_record act now r)"
  by (simp add: evolves_def cancel_record_def inflight_def)

lemma cancelled_not_inflight [simp]: "\<not> inflight (cancel_record act now r)"
  by (simp add: cancel_record_def inflight_def)

lemma cancel_where_evolves: "runs_rel evolves m (fst (cancel_where P act now m))"
  by (rule runs_rel_map [where f = "\<lambda>k r. if P r then cancel_record act now r else r"])
    (simp_all add: cancel_where_def cancel_evolves evolves_refl)

text \<open>What follows the critical section of \<open>create_or_reject\<close> and \<open>cancel\<close> keeps every status.\<close>

lemma create_tail_core:
  "runs_rel same_core m1 (fold persist_status is (persist_created r (fold settle_record is
     (rollback_records env now js (fold publish_interrupt is m1)))))"
proof -
  have "runs_rel same_core m1 (fold publish_interrupt is m1)" (is "runs_rel _ _ ?a")
    by (rule core_fold) (simp add: core_frame)
  also have "runs_rel same_core ?a (rollback_records env now js ?a)" (is "runs_rel _ _ ?b")
    by (rule core_rollbacks)
  also have "runs_rel same_core ?b (fold settle_record is ?b)" (is "runs_rel _ _ ?c")
    by (rule core_fold) (rule core_settle)
  also have "runs_rel same_core ?c (persist_created r ?c)" (is "runs_rel _ _ ?d")
    by (rule core_frame) simp
  also have "runs_rel same_core ?d (fold persist_status is ?d)"
    by (rule core_fold) (simp add: core_frame)
  finally show ?thesis .
qed

lemma cancel_tail_core:
  "runs_rel same_core m1 (fold settle_record is m1)"
  "runs_rel same_core m1 (fold (\<lambda>i s. publish_interrupt i (persist_status i s)) is m1)"
  by (rule core_fold, rule core_settle) (rule core_fold, simp add: core_frame)

section \<open>One run in flight\<close>

text \<open>
  Of two runs in flight on one thread the one registered later belongs to a user, and not to the
  user of the earlier one.
\<close>

definition apart :: "run_record \<Rightarrow> run_record \<Rightarrow> bool" where
  "apart a b \<longleftrightarrow> (run_thread a = run_thread b \<and> inflight a \<and> inflight b \<longrightarrow> run_user b \<noteq> None \<and> run_user a \<noteq> run_user b)"

text \<open>
  The same for all runs but those of \<open>B\<close>; \<open>evolves_but B\<close> lets these come back to life.
\<close>

definition apart_but :: "string set \<Rightarrow> run_record \<Rightarrow> run_record \<Rightarrow> bool" where
  "apart_but B a b \<longleftrightarrow> run_id a \<in> B \<or> run_id b \<in> B \<or> apart a b"

definition evolves_but :: "string set \<Rightarrow> run_record \<Rightarrow> run_record \<Rightarrow> bool" where
  "evolves_but B r r' \<longleftrightarrow> run_id r' = run_id r \<and> run_thread r' = run_thread r \<and> run_user r' = run_user r \<and>
     (inflight r' \<longrightarrow> inflight r \<or> run_id r \<in> B)"

definition single_flight :: "string set \<Rightarrow> run_manager \<Rightarrow> bool" where
  "single_flight B m \<longleftrightarrow> wf_dict (rm_runs m) \<and> (\<forall>k r. (k, r) \<in> set (rm_runs m) \<longrightarrow> run_id r = k) \<and>
     sorted_wrt (apart_but B) (vals (rm_runs m))"

lemma evolves_but_empty: "evolves_but {} = evolves"
  by (intro ext) (simp add: evolves_but_def evolves_def)

lemma apart_evolves:
  "apart_but B a b \<Longrightarrow> evolves_but C a a' \<Longrightarrow> evolves_but C b b' \<Longrightarrow> apart_but (B \<union> C) a' b'"
  by (auto simp: apart_but_def apart_def evolves_but_def)

lemma apart_but_mono: "apart_but B a b \<Longrightarrow> B \<subseteq> C \<Longrightarrow> apart_but C a b"
  by (auto simp: apart_but_def)

lemma sorted_apart_evolves:
  assumes "list_all2 (\<lambda>p p'. fst p' = fst p \<and> evolves_but C (snd p) (snd p')) d d'"
    and "sorted_wrt (apart_but B) (vals d)"
  shows "sorted_wrt (apart_but (B \<union> C)) (vals d')"
  using assms
proof (induction rule: list_all2_induct)
  case Nil
  then show ?case by simp
next
  case (Cons p d p' d')
  have "apart_but (B \<union> C) (snd p') x" if "x \<in> set (vals d')" for x
  proof -
    obtain q' where q': "q' \<in> set d'" "x = snd q'" using \<open>x \<in> set (vals d')\<close> by auto
    then obtain q where "q \<in> set d" "evolves_but C (snd q) (snd q')"
      using Cons.hyps(2) by (metis (no_types, lifting) in_set_conv_nth list_all2_conv_all_nth)
    then show ?thesis using apart_evolves [of B "snd p" "snd q" C "snd p'" "snd q'"] Cons q'(2) by simp
  qed
  then show ?case using Cons by simp
qed

lemma single_flight_evolves_but:
  assumes "runs_rel (evolves_but C) m m'" "single_flight B m"
  shows "single_flight (B \<union> C) m'"
proof -
  have wf: "wf_dict (rm_runs m)" "wf_dict (rm_runs m')"
    using assms runs_rel_keys [OF assms(1)] by (simp_all add: single_flight_def)
  have "run_id r' = k" if "(k, r') \<in> set (rm_runs m')" for k r'
  proof -
    have "map_of (rm_runs m') k = Some r'" using that dict_mem_iff [OF wf(2)] by blast
    then obtain r where r: "map_of (rm_runs m) k = Some r" "evolves_but C r r'"
      using runs_rel_lookup [OF assms(1), of k] by (auto elim: option.rel_cases)
    then have "(k, r) \<in> set (rm_runs m)" using dict_mem_iff [OF wf(1)] by blast
    then have "run_id r = k" using assms(2) unfolding single_flight_def by blast
    then show ?thesis using r(2) by (simp add: evolves_but_def)
  qed
  then show ?thesis using assms wf(2) sorted_apart_evolves unfolding single_flight_def runs_rel_def by blast
qed

lemma single_flight_evolves: "runs_rel evolves m m' \<Longrightarrow> single_flight B m \<Longrightarrow> single_flight B m'"
  using single_flight_evolves_but [of "{}" m m' B] by (simp add: evolves_but_empty)

lemma single_flight_core: "runs_rel same_core m m' \<Longrightarrow> single_flight B m \<Longrightarrow> single_flight B m'"
  by (rule single_flight_evolves) (rule runs_rel_mono [OF same_core_evolves])

text \<open>A run registered beside one that competes with it has to be excepted.\<close>

lemma single_flight_put:
  assumes "single_flight B m" "run_id r \<notin> set (keys (rm_runs m))"
    and "run_id r \<in> C \<or> (\<forall>a \<in> set (vals (rm_runs m)). \<not> competes (run_thread r) (run_user r) a)"
  shows "single_flight (B \<union> C) (put_run r m)"
proof -
  have "apart_but (B \<union> C) a r" if "a \<in> set (vals (rm_runs m))" for a
    using assms(3) that by (auto simp: apart_but_def apart_def competes_def)
  moreover have "sorted_wrt (apart_but (B \<union> C)) (vals (rm_runs m))"
    using assms(1) unfolding single_flight_def
    by (auto intro: sorted_wrt_mono_rel [where P = "apart_but B"] apart_but_mono)
  ultimately show ?thesis using assms(1,2)
    by (auto simp: single_flight_def put_run_def update_new sorted_wrt_append)
qed

lemma cancel_where_spec:
  "fst (cancel_where P act now m) = m\<lparr>rm_runs := map (\<lambda>(k, r). (k, if P r then cancel_record act now r else r)) (rm_runs m)\<rparr>"
  by (simp add: cancel_where_def)

lemma reserve_single_flight:
  assumes "reserve st now r m = Inr (m1, ids)" "st \<noteq> ENQUEUE" "single_flight B m"
    and "run_id r \<notin> set (keys (rm_runs m))"
  shows "single_flight B m1"
proof -
  let ?P = "competes (run_thread r) (run_user r)"
  consider "st = REJECT" "\<not> list_ex ?P (vals (rm_runs m))" "m1 = put_run r m"
    | "m1 = put_run r (fst (cancel_where ?P (action_of st) now m))"
    using assms(1,2) by (cases st) (auto simp: reserve_def Let_def split_beta split: if_splits)
  then show ?thesis
  proof cases
    case 1
    then show ?thesis using assms(3,4) single_flight_put [of B m r "{}"] by (simp add: list_ex_iff)
  next
    case 2
    let ?m = "fst (cancel_where ?P (action_of st) now m)"
    have "single_flight B ?m" by (rule single_flight_evolves [OF cancel_where_evolves assms(3)])
    moreover have "run_id r \<notin> set (keys (rm_runs ?m))"
      using assms(4) runs_rel_keys [OF cancel_where_evolves] by metis
    moreover have "\<not> ?P a" if "a \<in> set (vals (rm_runs ?m))" for a
      using that by (auto simp: cancel_where_spec competes_def split: if_splits)
    ultimately show ?thesis using single_flight_put [of B ?m r "{}"] 2 by simp
  qed
qed

section \<open>Steps of the registry\<close>

text \<open>
  The whole operations, and their parts between two releases of the lock, so that operations may
  interleave at their await points. A step gives the ids of the runs that it puts in flight without
  looking at the others: the plain \<open>create\<close> does not look for a run that competes, and \<open>set_status\<close>
  overwrites whatever status the run had, that of a run that is over too.
\<close>

definition unchecked_create :: "string \<Rightarrow> create_args \<Rightarrow> run_manager \<Rightarrow> string set" where
  "unchecked_create rid a m = (if list_ex (competes (ca_thread a) (ca_user a)) (vals (rm_runs m)) then {rid} else {})"

definition revived :: "string \<Rightarrow> string \<Rightarrow> run_manager \<Rightarrow> string set" where
  "revived rid st m = (case map_of (rm_runs m) rid of
     None \<Rightarrow> {}
   | Some r \<Rightarrow> if \<not> inflight r \<and> st \<in> {''pending'', ''running''} then {rid} else {})"

inductive run_step :: "run_env \<Rightarrow> run_manager \<Rightarrow> string set \<Rightarrow> run_manager \<Rightarrow> bool" for env where
  create_step: "rid \<notin> set (keys (rm_runs m)) \<Longrightarrow> run_step env m {} (fst (create_or_reject env rid now a m))"
| reserve_step: "new_record rid now a = Inr r \<Longrightarrow> rid \<notin> set (keys (rm_runs m)) \<Longrightarrow> run_strategy r \<noteq> ENQUEUE \<Longrightarrow>
    reserve (run_strategy r) now r m = Inr (m', ids) \<Longrightarrow> run_step env m {} m'"
| plain_step: "rid \<notin> set (keys (rm_runs m)) \<Longrightarrow> create_run rid now a m = (m', Inr r) \<Longrightarrow>
    run_step env m (unchecked_create rid a m) m'"
| status_step: "run_step env m (revived rid st m) (fst (set_status rid st err now m))"
| cancel_step: "run_step env m {} (fst (cancel_run env rid act wait now m))"
| cancel_thread_step: "run_step env m {} (fst (cancel_thread env thread user act wait now m))"
| cancel_section: "run_step env m {} (fst (cancel_where P act now m))"
| rollback_step: "run_step env m {} (rollback_record env now rid m)"
| settle_step: "run_step env m {} (settle_record rid m)"
| report_step: "rm_runs m' = rm_runs m \<Longrightarrow> run_step env m {} m'"
| attach_step: "run_step env m {} (fst (attach_task rid now m))"
| cleanup_step: "run_step env m {} (cleanup_run rid m)"

text \<open>The states of the registry, with the runs put in flight unchecked on the way.\<close>

inductive runs_reachable :: "run_env \<Rightarrow> string set \<Rightarrow> run_manager \<Rightarrow> bool" for env where
  init: "runs_reachable env {} (run_manager_init store publisher)"
| step: "runs_reachable env B m \<Longrightarrow> run_step env m C m' \<Longrightarrow> runs_reachable env (B \<union> C) m'"

lemma new_record_fields:
  assumes "new_record rid now a = Inr r"
  shows "run_id r = rid" "run_status r = PENDING" "run_thread r = ca_thread a" "run_user r = ca_user a"
    "coerce_multitask_strategy (ca_strategy a) = Inr (run_strategy r)"
  using assms by (auto simp: new_record_def bind_ok_Inr_iff)

text \<open>The ways \<open>create_or_reject\<close> ends.\<close>

lemma create_or_reject_cases:
  obtains (refused) e where "create_or_reject env rid now a m = (m, Inl e)"
  | (created) r m1 ids m6 where "new_record rid now a = Inr r" "run_strategy r \<noteq> ENQUEUE"
      "reserve (run_strategy r) now r m = Inr (m1, ids)" "runs_rel same_core m1 m6"
      "create_or_reject env rid now a m = (m6, Inr r)"
proof (cases "coerce_multitask_strategy (ca_strategy a)")
  case (Inl e)
  then show ?thesis using refused by (simp add: create_or_reject_def)
next
  case (Inr st)
  show ?thesis
  proof (cases "st = ENQUEUE")
    case True
    then show ?thesis using refused Inr by (simp add: create_or_reject_def)
  next
    case False
    show ?thesis
    proof (cases "new_record rid now a")
      case (Inl e)
      then show ?thesis using refused Inr False by (simp add: create_or_reject_def)
    next
      case r: (Inr r)
      have st: "run_strategy r = st" using new_record_fields(5) [OF r] Inr by simp
      show ?thesis
      proof (cases "reserve st now r m")
        case (Inl e)
        then show ?thesis using refused Inr False r by (simp add: create_or_reject_def)
      next
        case res: (Inr p)
        obtain m1 ids where p: "p = (m1, ids)" by (cases p)
        show ?thesis
          by (rule created [OF r _ _ create_tail_core])
            (use Inr False r res p st in \<open>simp_all add: create_or_reject_def Let_def\<close>)
      qed
    qed
  qed
qed

lemma core_is_evolution: "runs_rel same_core m m' \<Longrightarrow> runs_rel evolves m m'"
  by (rule runs_rel_mono [OF same_core_evolves])

lemma cancel_run_evolves: "runs_rel evolves m (fst (cancel_run env rid act wait now m))"
proof -
  let ?m1 = "modify_run rid (cancel_record act now) m"
  let ?m2 = "publish_interrupt rid (persist_status rid ?m1)"
  let ?m3 = "if act = ActRollback then rollback_records env now [rid] ?m2 else ?m2"
  have "runs_rel evolves m ?m1" by (rule runs_rel_modify) (simp_all add: evolves_refl cancel_evolves)
  moreover have "runs_rel same_core ?m1 ?m2" by (rule core_frame) simp
  moreover have "runs_rel same_core ?m2 ?m3" using core_rollbacks core_frame by simp
  moreover have "runs_rel same_core ?m3 (if wait \<or> act = ActRollback then settle_record rid ?m3 else ?m3)"
    using core_settle core_frame by simp
  ultimately have "runs_rel evolves m (if wait \<or> act = ActRollback then settle_record rid ?m3 else ?m3)"
    by (blast intro: evolves_chain core_is_evolution)
  moreover have "runs_rel evolves m m" by (rule runs_rel_frame) (simp_all add: evolves_refl)
  ultimately show ?thesis by (simp add: cancel_run_def Let_def split: option.split)
qed

lemma cancel_thread_evolves: "runs_rel evolves m (fst (cancel_thread env thread user act wait now m))"
proof -
  obtain m1 rids where c: "cancel_where (competes thread user) act now m = (m1, rids)"
    by (cases "cancel_where (competes thread user) act now m")
  let ?m2 = "fold (\<lambda>i s. publish_interrupt i (persist_status i s)) rids m1"
  let ?m3 = "if act = ActRollback then rollback_records env now rids ?m2 else ?m2"
  have "runs_rel evolves m m1" using cancel_where_evolves [of m "competes thread user" act now] c by simp
  moreover have "runs_rel same_core m1 ?m2" by (rule cancel_tail_core)
  moreover have "runs_rel same_core ?m2 ?m3" using core_rollbacks core_frame by simp
  moreover have "runs_rel same_core ?m3 (if wait \<or> act = ActRollback then fold settle_record rids ?m3 else ?m3)"
    using cancel_tail_core(1) core_frame by simp
  ultimately have "runs_rel evolves m (if wait \<or> act = ActRollback then fold settle_record rids ?m3 else ?m3)"
    by (blast intro: evolves_chain core_is_evolution)
  then show ?thesis by (simp add: cancel_thread_def c Let_def)
qed

lemma set_status_evolves:
  assumes "wf_dict (rm_runs m)" "\<forall>k r. (k, r) \<in> set (rm_runs m) \<longrightarrow> run_id r = k"
  shows "runs_rel (evolves_but (revived rid st m)) m (fst (set_status rid st err now m))"
proof -
  let ?B = "revived rid st m"
  have frame: "runs_rel (evolves_but ?B) n n'" if "rm_runs n' = rm_runs n" for n n'
    by (rule runs_rel_frame) (use that in \<open>simp_all add: evolves_but_def\<close>)
  show ?thesis
  proof (cases "map_of (rm_runs m) rid = None \<or> (\<exists>e. coerce_run_status st = Inl e)")
    case True
    then show ?thesis by (auto simp: set_status_def frame split: option.split)
  next
    case False
    then obtain r x where r: "map_of (rm_runs m) rid = Some r" and x: "coerce_run_status st = Inr x"
      by (auto simp: not_None_eq) (metis sum.exhaust)
    let ?f = "\<lambda>r. r\<lparr>run_status := x, run_updated := now, run_error := (if err = None then run_error r else err)\<rparr>"
    have live: "inflight r \<or> x \<notin> {PENDING, RUNNING} \<or> rid \<in> ?B"
      using x r by (auto simp: revived_def coerce_run_status_def split: if_splits)
    have "evolves_but ?B r' (if k = rid then ?f r' else r')" if kr: "(k, r') \<in> set (rm_runs m)" for k r'
    proof (cases "k = rid")
      case True
      then have "map_of (rm_runs m) rid = Some r'" using kr dict_mem_iff [OF assms(1)] by blast
      then have "r' = r" "run_id r' = rid" using r kr True assms(2) by auto
      then show ?thesis using live by (auto simp: evolves_but_def inflight_def)
    qed (simp add: evolves_but_def)
    then have "runs_rel (evolves_but ?B) m (modify_run rid ?f m)"
      by (rule runs_rel_map [where f = "\<lambda>k r. if k = rid then ?f r else r"]) (simp_all add: modify_run_def)
    then show ?thesis using r x by (simp add: set_status_def runs_rel_def)
  qed
qed

lemma cleanup_single_flight: "single_flight B m \<Longrightarrow> single_flight B (cleanup_run rid m)"
  by (auto simp: single_flight_def cleanup_run_def AList.delete_eq sorted_wrt_map intro!: sorted_wrt_filter
      distinct_map_filter)

lemma run_step_single_flight:
  assumes "run_step env m C m'" "single_flight B m"
  shows "single_flight (B \<union> C) m'"
  using assms(1)
proof (cases rule: run_step.cases)
  case (create_step rid now a)
  show ?thesis
  proof (rule create_or_reject_cases [of env rid now a m])
    fix r m1 ids m6
    assume a: "new_record rid now a = Inr r" "run_strategy r \<noteq> ENQUEUE"
      "reserve (run_strategy r) now r m = Inr (m1, ids)" "runs_rel same_core m1 m6"
      "create_or_reject env rid now a m = (m6, Inr r)"
    then have "single_flight B m1"
      using reserve_single_flight [OF a(3,2) assms(2)] create_step(3) new_record_fields(1) [OF a(1)] by simp
    then show ?thesis using single_flight_core [OF a(4)] create_step(1,2) a(5) by simp
  qed (use create_step assms(2) in simp)
next
  case (reserve_step rid now a r ids)
  then show ?thesis using reserve_single_flight assms(2) new_record_fields(1) by simp
next
  case (plain_step rid now a r)
  then have n: "new_record rid now a = Inr r" "rm_runs m' = rm_runs (put_run r m)"
    by (auto simp: create_run_def split: sum.splits)
  have "single_flight (B \<union> C) (put_run r m)"
    by (rule single_flight_put [OF assms(2)])
      (use plain_step new_record_fields [OF n(1)] in \<open>auto simp: unchecked_create_def list_ex_iff split: if_splits\<close>)
  then show ?thesis using n(2) by (simp add: single_flight_def)
next
  case (status_step rid st err now)
  then show ?thesis
    using single_flight_evolves_but [OF set_status_evolves assms(2)] assms(2) by (simp add: single_flight_def)
next
  case (attach_step rid now)
  have "runs_rel same_core m (modify_run rid (\<lambda>r. r\<lparr>run_task := Some TaskRunning, run_updated := now\<rparr>) m)"
    by (rule core_modify) (simp add: same_core_def)
  then show ?thesis using single_flight_core assms(2) attach_step
    by (auto simp: attach_task_def split: option.splits)
next
  case (report_step)
  then show ?thesis using assms(2) by (simp add: single_flight_def)
next
  case (cancel_step rid act wait now)
  then show ?thesis using single_flight_evolves [OF cancel_run_evolves assms(2)] by simp
next
  case (cancel_thread_step thread user act wait now)
  then show ?thesis using single_flight_evolves [OF cancel_thread_evolves assms(2)] by simp
next
  case (cancel_section P act now)
  then show ?thesis using single_flight_evolves [OF cancel_where_evolves assms(2)] by simp
next
  case (rollback_step now rid)
  then show ?thesis using single_flight_core [OF core_rollback assms(2)] by simp
next
  case (settle_step rid)
  then show ?thesis using single_flight_core [OF core_settle assms(2)] by simp
next
  case (cleanup_step rid)
  then show ?thesis using cleanup_single_flight [OF assms(2)] by simp
qed

lemma runs_reachable_inv: "runs_reachable env B m \<Longrightarrow> single_flight B m"
proof (induction rule: runs_reachable.induct)
  case (init store publisher)
  show ?case by (simp add: single_flight_def run_manager_init_def)
next
  case (step B m C m')
  then show ?case using run_step_single_flight by blast
qed

section \<open>Properties\<close>

lemma sorted_apart_pair:
  assumes "sorted_wrt P (vals d)" "(i, a) \<in> set d" "(j, b) \<in> set d" "i \<noteq> j"
  shows "P a b \<or> P b a"
  using assms by (induction d) force+

text \<open>C1: one run in flight. However all the operations of the manager interleave at their await
  points, two different registered runs of one thread that are both pending or running belong to
  different users, unless one of the two was put in flight without a look at the others: it was
  registered by the plain \<open>create\<close> beside a run that competes with it, or a status report brought it
  back after it was over. So when neither happens, a thread used by one user, or by anonymous
  requests only, has at most one run in flight.\<close>

theorem single_run_in_flight:
  assumes "runs_reachable env B m" "map_of (rm_runs m) i = Some a" "map_of (rm_runs m) j = Some b" "i \<noteq> j"
    and "run_thread a = run_thread b" "inflight a" "inflight b"
  shows "run_user a \<noteq> run_user b \<or> i \<in> B \<or> j \<in> B"
proof -
  note inv = runs_reachable_inv [OF assms(1), unfolded single_flight_def]
  have "apart_but B a b \<or> apart_but B b a"
    using sorted_apart_pair [OF _ map_of_SomeD [OF assms(2)] map_of_SomeD [OF assms(3)] assms(4)] inv by blast
  moreover have "run_id a = i" "run_id b = j" using inv assms(2,3) by (blast dest: map_of_SomeD)+
  ultimately show ?thesis using assms(5-7) by (auto simp: apart_but_def apart_def)
qed

lemma lookup_cancel_where:
  "map_of (rm_runs (fst (cancel_where P act now m))) i =
    map_option (\<lambda>r. if P r then cancel_record act now r else r) (map_of (rm_runs m) i)"
  by (simp add: cancel_where_spec map_of_map_vals)

lemma reserve_lookup:
  assumes "reserve st now r m = Inr (m1, ids)" "st \<noteq> ENQUEUE"
  shows "map_of (rm_runs m1) i = (if i = run_id r then Some r else
    map_option (\<lambda>x. if competes (run_thread r) (run_user r) x then cancel_record (action_of st) now x else x) (map_of (rm_runs m) i))"
proof -
  let ?P = "competes (run_thread r) (run_user r)"
  consider "\<not> list_ex ?P (vals (rm_runs m))" "m1 = put_run r m"
    | "m1 = put_run r (fst (cancel_where ?P (action_of st) now m))"
    using assms by (cases st) (auto simp: reserve_def Let_def split_beta split: if_splits)
  then show ?thesis
  proof cases
    case 1
    then have "\<not> ?P x" if "map_of (rm_runs m) i = Some x" for x
      using map_of_SomeD [OF that] by (force simp: list_ex_iff)
    then show ?thesis using 1(2) by (cases "map_of (rm_runs m) i") (simp_all add: put_run_def)
  next
    case 2
    then show ?thesis by (simp add: put_run_def lookup_cancel_where)
  qed
qed

text \<open>C14: what \<open>create_or_reject\<close> answers. With a valid request and a fresh id: strategy enqueue is
  refused and strategy reject conflicts exactly when another run competes, and then the registry
  and the ports are untouched; otherwise the new run is registered as pending, the competing runs
  become interrupted, and no other status changes, whatever the rollback handler does.\<close>

theorem create_or_reject_outcome:
  assumes st: "coerce_multitask_strategy (ca_strategy a) = Inr st"
    and dm: "coerce_disconnect_mode (ca_disconnect a) = Inr dm"
    and out: "create_or_reject env rid now a m = (m', res)"
  shows "if st = ENQUEUE then m' = m \<and> (\<exists>e. res = Inl (UnsupportedStrategyError e))
    else if st = REJECT \<and> (\<exists>x \<in> set (vals (rm_runs m)). competes (ca_thread a) (ca_user a) x)
    then m' = m \<and> (\<exists>e. res = Inl (RunConflictError e))
    else (\<exists>r. res = Inr r \<and> run_id r = rid \<and> run_thread r = ca_thread a \<and> run_user r = ca_user a) \<and>
      (\<forall>i. map_option run_status (map_of (rm_runs m') i) = (if i = rid then Some PENDING else
        map_option (\<lambda>x. if competes (ca_thread a) (ca_user a) x then INTERRUPTED else run_status x) (map_of (rm_runs m) i)))"
proof -
  obtain r where r: "new_record rid now a = Inr r" using st dm by (simp add: new_record_def)
  note f = new_record_fields [OF r]
  have rs: "run_strategy r = st" using f(5) st by simp
  consider "st = ENQUEUE" | "st = REJECT" "\<exists>x \<in> set (vals (rm_runs m)). competes (ca_thread a) (ca_user a) x"
    | "st \<noteq> ENQUEUE" "\<not> (st = REJECT \<and> (\<exists>x \<in> set (vals (rm_runs m)). competes (ca_thread a) (ca_user a) x))"
    by blast
  then show ?thesis
  proof cases
    case 1
    then show ?thesis using out st by (auto simp: create_or_reject_def)
  next
    case 2
    then show ?thesis using out st r f by (auto simp: create_or_reject_def reserve_def list_ex_iff)
  next
    case 3
    then obtain m1 ids where res: "reserve st now r m = Inr (m1, ids)"
      using f by (cases "reserve st now r m") (auto simp: reserve_def Let_def list_ex_iff split_beta split: if_splits)
    have eq: "res = Inr r" "m' = fold persist_status ids (persist_created r (fold settle_record ids
       (rollback_records env now (rollback_ids ids (fold publish_interrupt ids m1)) (fold publish_interrupt ids m1))))"
      using out st r res 3(1) by (simp_all add: create_or_reject_def Let_def)
    have "runs_rel same_core m1 m'" unfolding eq(2) by (rule create_tail_core)
    then have "map_option run_status (map_of (rm_runs m') i) = map_option run_status (map_of (rm_runs m1) i)" for i
      using runs_rel_lookup [of same_core m1 m' i] by (auto elim!: option.rel_cases simp: same_core_def)
    then have "map_option run_status (map_of (rm_runs m') i) = (if i = rid then Some PENDING else
        map_option (\<lambda>x. if competes (ca_thread a) (ca_user a) x then INTERRUPTED else run_status x) (map_of (rm_runs m) i))" for i
      using reserve_lookup [OF res 3(1), of i] f
      by (cases "map_of (rm_runs m) i") (simp_all add: cancel_record_def)
    then show ?thesis using 3 eq(1) f by auto
  qed
qed

lemma lookup_modify:
  "map_of (rm_runs (modify_run rid f m)) i = map_option (\<lambda>r. if i = rid then f r else r) (map_of (rm_runs m) i)"
  by (simp add: modify_run_def map_of_map_vals)

lemma modify_log [simp]:
  "rm_log (modify_run rid f m) = rm_log m" "rm_store (modify_run rid f m) = rm_store m"
  "rm_publisher (modify_run rid f m) = rm_publisher m"
  by (simp_all add: modify_run_def)

text \<open>Every rollback is reported. One round of \<open>_rollback_records\<close> for a run marked for rollback
  publishes \<open>started\<close>, stores the result and publishes \<open>succeeded\<close> or \<open>failed\<close> with it, in this order;
  the record ends completed, with that result and its status unchanged, also when there is no
  handler or the handler raises; and success is announced only when the handler returned a result
  that says it was applied without an error.\<close>

lemma rollback_reported:
  assumes r: "map_of (rm_runs m) rid = Some r" "run_action r = ActRollback"
    and ports: "rm_store m" "rm_publisher m"
    and res: "res = augment_rollback_result (re_to_str env) (rollback_outcome env (r\<lparr>run_rb_completed := False\<rparr>)) (run_metadata r)"
  shows "rm_log (rollback_record env now rid m) = rm_log m @
      [Lifecycle rid ''run.rollback.started'' NoData, StoreCompletion rid res,
       Lifecycle rid (if rollback_succeeded res then ''run.rollback.succeeded'' else ''run.rollback.failed'') (ResultData res)] \<and>
    (\<exists>r'. map_of (rm_runs (rollback_record env now rid m)) rid = Some r' \<and> run_rb_completed r' \<and>
       run_rb_result r' = Some res \<and> run_status r' = run_status r) \<and>
    (rollback_succeeded res \<longrightarrow> (\<exists>h ok. re_handler env = Some h \<and>
       h (r\<lparr>run_rb_completed := False\<rparr>) = Inr (Some ok) \<and> rr_applied ok \<and> (rr_error ok = None \<or> rr_error ok = Some [])))"
proof -
  have "rollback_succeeded res \<longrightarrow> (\<exists>h ok. re_handler env = Some h \<and>
       h (r\<lparr>run_rb_completed := False\<rparr>) = Inr (Some ok) \<and> rr_applied ok \<and> (rr_error ok = None \<or> rr_error ok = Some []))"
    unfolding res rollback_succeeded_def
    by (auto simp: rollback_outcome_def rollback_failed_def rollback_answer_def split: option.splits sum.splits)
  then show ?thesis using r ports
    by (simp add: rollback_record_def record_rollback_result_def update_run_completion_def persist_def
        publish_lifecycle_def lookup_modify Let_def res [symmetric])
qed

section \<open>Two requests on one thread\<close>

definition ex_args :: "string \<Rightarrow> create_args" where
  "ex_args st = \<lparr>ca_thread = ''t'', ca_assistant = None, ca_disconnect = ''cancel'', ca_metadata = [],
     ca_kwargs = [], ca_strategy = st, ca_user = None, ca_target = None\<rparr>"

definition ex_two_runs :: "run_env \<Rightarrow> string \<Rightarrow> run_manager" where
  "ex_two_runs env now = fst (create_or_reject env ''b'' now (ex_args ''interrupt'')
     (fst (create_or_reject env ''a'' now (ex_args ''reject'') (run_manager_init True True))))"

lemma ex_two_runs_lookup:
  "map_option (\<lambda>r. (run_status r, run_thread r, run_user r)) (map_of (rm_runs (ex_two_runs env now)) ''a'') =
     Some (INTERRUPTED, ''t'', None) \<and>
   map_option (\<lambda>r. (run_status r, run_thread r, run_user r)) (map_of (rm_runs (ex_two_runs env now)) ''b'') =
     Some (PENDING, ''t'', None)"
  by (simp add: ex_two_runs_def ex_args_def create_or_reject_def coerce_multitask_strategy_def
      new_record_def coerce_disconnect_mode_def reserve_def competes_def inflight_def run_manager_init_def
      put_run_def cancel_where_def action_of_def cancel_record_def task_running_def publish_interrupt_def
      publish_lifecycle_def rollback_ids_def rollback_records_def settle_record_def modify_run_def
      persist_created_def persist_status_def persist_def Let_def)

text \<open>A cancelled run can come back. \<open>set_status\<close> does not look at the status it overwrites, so
  when a request with strategy interrupt cancels a run whose driver has not yet reported that it
  started, the driver's later report puts two runs of one thread and user in flight.\<close>

lemma set_status_revives_cancelled:
  "\<exists>a b. map_of (rm_runs (fst (set_status ''a'' ''running'' None now (ex_two_runs env now)))) ''a'' = Some a \<and>
     map_of (rm_runs (fst (set_status ''a'' ''running'' None now (ex_two_runs env now)))) ''b'' = Some b \<and>
     inflight a \<and> inflight b \<and> run_thread a = run_thread b \<and> run_user a = run_user b"
proof -
  obtain a b where ab: "map_of (rm_runs (ex_two_runs env now)) ''a'' = Some a" "map_of (rm_runs (ex_two_runs env now)) ''b'' = Some b"
    "run_status b = PENDING" "run_thread a = ''t''" "run_thread b = ''t''" "run_user a = None" "run_user b = None"
    using ex_two_runs_lookup [of env now] by auto
  then show ?thesis
    by (simp add: set_status_def coerce_run_status_def lookup_modify inflight_def)
qed

text \<open>A run of another user beside the first, and the plain \<open>create\<close> of a third beside both.\<close>

theorem single_run_in_flight_witness:
  "\<exists>m a b. runs_reachable \<lparr>re_handler = None, re_to_str = (\<lambda>v. [])\<rparr> {''c''} m \<and> map_of (rm_runs m) ''a'' = Some a \<and>
     map_of (rm_runs m) ''b'' = Some b \<and> inflight a \<and> inflight b \<and> run_thread a = run_thread b \<and>
     keys (rm_runs m) = [''a'', ''b'', ''c''] \<and> run_user a \<noteq> run_user b"
proof -
  let ?env = "\<lparr>re_handler = None, re_to_str = (\<lambda>v. [])\<rparr>"
  let ?c = "(ex_args ''reject'')\<lparr>ca_user := Some ''v''\<rparr>"
  let ?m0 = "run_manager_init False False"
  let ?m1 = "fst (create_or_reject ?env ''a'' ''1'' ((ex_args ''reject'')\<lparr>ca_user := Some ''u''\<rparr>) ?m0)"
  let ?m2 = "fst (create_or_reject ?env ''b'' ''2'' ?c ?m1)"
  let ?m3 = "fst (create_run ''c'' ''3'' ?c ?m2)"
  note ev = ex_args_def create_or_reject_def coerce_multitask_strategy_def new_record_def
    coerce_disconnect_mode_def reserve_def competes_def inflight_def run_manager_init_def put_run_def
    rollback_ids_def rollback_records_def persist_created_def persist_def create_run_def
  have k: "''b'' \<notin> set (keys (rm_runs ?m1))" "''c'' \<notin> set (keys (rm_runs ?m2))" by (simp_all add: ev)
  have u: "unchecked_create ''c'' ?c ?m2 = {''c''}" by (simp add: unchecked_create_def ev)
  obtain r where "create_run ''c'' ''3'' ?c ?m2 = (?m3, Inr r)" by (simp add: ev)
  note third = run_step.plain_step [OF k(2) this, unfolded u]
  have "runs_reachable ?env ({} \<union> {}) ?m1"
    by (rule runs_reachable.step [OF runs_reachable.init run_step.create_step]) (simp add: run_manager_init_def)
  then have "runs_reachable ?env ({} \<union> {} \<union> {} \<union> {''c''}) ?m3"
    by (rule runs_reachable.step [OF runs_reachable.step [OF _ run_step.create_step [OF k(1)]] third])
  then have reach: "runs_reachable ?env {''c''} ?m3" by simp
  obtain a b where l: "map_of (rm_runs ?m3) ''a'' = Some a" "map_of (rm_runs ?m3) ''b'' = Some b"
    "inflight a" "inflight b" "run_thread a = run_thread b"
    by (simp add: ev)
  have "run_user a \<noteq> run_user b"
    using single_run_in_flight [OF reach l(1,2) _ l(5,3,4)] by simp
  moreover have "keys (rm_runs ?m3) = [''a'', ''b'', ''c'']" by (simp add: ev)
  ultimately show ?thesis using reach l by (intro exI [of _ ?m3] exI [of _ a] exI [of _ b] conjI)
qed

theorem create_or_reject_outcome_witness:
  "\<exists>e. snd (create_or_reject \<lparr>re_handler = None, re_to_str = (\<lambda>v. [])\<rparr> ''c'' ''3'' (ex_args ''enqueue'')
     (run_manager_init True True)) = Inl (UnsupportedStrategyError e)"
proof -
  have "coerce_multitask_strategy (ca_strategy (ex_args ''enqueue'')) = Inr ENQUEUE"
    "coerce_disconnect_mode (ca_disconnect (ex_args ''enqueue'')) = Inr CANCEL"
    by (simp_all add: ex_args_def coerce_multitask_strategy_def coerce_disconnect_mode_def)
  from create_or_reject_outcome [OF this surjective_pairing] show ?thesis by auto
qed

theorem rollback_reported_witness:
  "\<exists>m res. rm_log (rollback_record \<lparr>re_handler = None, re_to_str = (\<lambda>v. [])\<rparr> ''2'' ''a'' m) = rm_log m @
      [Lifecycle ''a'' ''run.rollback.started'' NoData, StoreCompletion ''a'' res,
       Lifecycle ''a'' ''run.rollback.failed'' (ResultData res)]"
proof -
  let ?env = "\<lparr>re_handler = None, re_to_str = (\<lambda>v. [])\<rparr>"
  let ?m = "fst (cancel_where (\<lambda>r. True) ActRollback ''1''
    (fst (create_or_reject ?env ''a'' ''1'' (ex_args ''reject'') (run_manager_init True True))))"
  obtain r where r: "map_of (rm_runs ?m) ''a'' = Some r" "run_action r = ActRollback"
    by (simp add: ex_args_def create_or_reject_def coerce_multitask_strategy_def new_record_def
      coerce_disconnect_mode_def reserve_def competes_def inflight_def run_manager_init_def put_run_def
      rollback_ids_def rollback_records_def persist_created_def persist_def cancel_where_def cancel_record_def)
  have p: "rm_store ?m" "rm_publisher ?m"
    by (simp_all add: ex_args_def create_or_reject_def coerce_multitask_strategy_def new_record_def
      coerce_disconnect_mode_def reserve_def competes_def inflight_def run_manager_init_def put_run_def
      rollback_ids_def rollback_records_def persist_created_def persist_def cancel_where_def)
  have f: "\<not> rollback_succeeded (augment_rollback_result (re_to_str ?env) (rollback_outcome ?env (r\<lparr>run_rb_completed := False\<rparr>)) (run_metadata r))"
    by (simp add: rollback_succeeded_def rollback_outcome_def rollback_failed_def rollback_answer_def)
  from rollback_reported [OF r p refl, of ?env "''2''"] f show ?thesis
    by (simp only: if_False) blast
qed

end
