(* ===== verification/RunFollowups.thy ===== *)
theory RunFollowups
  imports Prelude
begin

text \<open>
  Steering and follow-up messages of a run: \<open>RunFollowupsMixin\<close> of
  \<open>src/focus_agent/harness/runtime/run_followups.py\<close> and \<open>CoalescedWakeupHelper\<close> of
  \<open>coalesced_wakeup.py\<close>.

  An \<open>asyncio.Queue\<close> without a bound is the list of its messages. The follow-up handler is external:
  only whether one is registered matters here, because what it raises is swallowed message by
  message. The drain worker awaits the handler for each message, and other operations may run
  meanwhile: it takes one step from one await to the next. A stop cancels it at such a point; the
  handler is supposed to let the cancellation through.
\<close>

section \<open>The wake-up flags\<close>

record wakeup =
  cw_active :: bool
  cw_pending :: bool

definition wakeup_init :: wakeup where
  "wakeup_init = \<lparr>cw_active = False, cw_pending = False\<rparr>"

definition wake :: "wakeup \<Rightarrow> wakeup" where
  "wake s = s\<lparr>cw_pending := True\<rparr>"

text \<open>
  \<open>execute_with_coalescing\<close> up to its first call of the drain function (the flag says that the
  caller became the runner), and what the runner does after a pass (the flag says it runs another
  one). None of the sections under the helper's lock awaits anything, so asyncio runs each of them,
  and the \<open>finally\<close> block after the last one, without interruption.
\<close>

definition enter :: "wakeup \<Rightarrow> wakeup \<times> bool" where
  "enter s = (if cw_active s then (s\<lparr>cw_pending := True\<rparr>, False)
              else (s\<lparr>cw_active := True, cw_pending := False\<rparr>, True))"

definition leave :: "wakeup \<Rightarrow> wakeup" where
  "leave s = s\<lparr>cw_active := False\<rparr>"

definition after_pass :: "wakeup \<Rightarrow> wakeup \<times> bool" where
  "after_pass s = (if cw_pending s then (s\<lparr>cw_pending := False\<rparr>, True) else (leave (leave s), False))"

definition after_raise :: "wakeup \<Rightarrow> wakeup" where
  "after_raise s = leave s"

section \<open>The queues\<close>

text \<open>
  Where the drain worker is: not running, before its next call of the helper, before a pass, or in a
  pass, with the threads to come and, of the last queue it drained, the thread and the messages it
  has in hand.
\<close>

datatype worker = Stopped | Sleeping | Beginning | Dispatching "string list" string "string list"

record followups =
  fu_steer :: "(string, string list) dict"
  fu_followup :: "(string, string list) dict"
  fu_wakeup :: wakeup
  fu_worker :: worker
  fu_handler :: bool

definition followups_init :: followups where
  "followups_init = \<lparr>fu_steer = [], fu_followup = [], fu_wakeup = wakeup_init, fu_worker = Stopped, fu_handler = False\<rparr>"

text \<open>\<open>_get_or_create_queue\<close> followed by \<open>put_nowait\<close>.\<close>

definition put_queue :: "string \<Rightarrow> string \<Rightarrow> (string, string list) dict \<Rightarrow> (string, string list) dict" where
  "put_queue t msg qs = AList.update t (get_or qs t [] @ [msg]) qs"

definition drain_queue :: "string \<Rightarrow> (string, string list) dict \<Rightarrow> (string, string list) dict \<times> string list" where
  "drain_queue t qs = (case map_of qs t of None \<Rightarrow> (qs, []) | Some q \<Rightarrow> (AList.update t [] qs, q))"

definition steer :: "string \<Rightarrow> string \<Rightarrow> followups \<Rightarrow> followups" where
  "steer t msg f = f\<lparr>fu_steer := put_queue t msg (fu_steer f)\<rparr>"

definition follow_up :: "string \<Rightarrow> string \<Rightarrow> followups \<Rightarrow> followups" where
  "follow_up t msg f = f\<lparr>fu_followup := put_queue t msg (fu_followup f), fu_wakeup := wake (fu_wakeup f)\<rparr>"

definition drain_steer_queue :: "string \<Rightarrow> followups \<Rightarrow> followups \<times> string list" where
  "drain_steer_queue t f = (let (qs, ms) = drain_queue t (fu_steer f) in (f\<lparr>fu_steer := qs\<rparr>, ms))"

definition drain_followup_queue :: "string \<Rightarrow> followups \<Rightarrow> followups \<times> string list" where
  "drain_followup_queue t f = (let (qs, ms) = drain_queue t (fu_followup f) in (f\<lparr>fu_followup := qs\<rparr>, ms))"

definition queue_depth :: "string \<Rightarrow> followups \<Rightarrow> nat \<times> nat" where
  "queue_depth t f = (length (get_or (fu_steer f) t []), length (get_or (fu_followup f) t []))"

definition set_followup_handler :: "bool \<Rightarrow> followups \<Rightarrow> followups" where
  "set_followup_handler h f = f\<lparr>fu_handler := h\<rparr>"

section \<open>The drain worker\<close>

text \<open>What happens to messages, in the order it happens. A message of the follow-up queue is drained by
  a caller, or grabbed by the worker, which hands it to the handler or drops it.\<close>

datatype followup_event =
    Steered string string
  | SteerDrained string string
  | Sent string string
  | Drained string string
  | Grabbed string string
  | Handled string string
  | Dropped string string

definition start_followup_drain :: "followups \<Rightarrow> followups \<times> bool" where
  "start_followup_drain f = (if fu_worker f \<noteq> Stopped then (f, False) else (f\<lparr>fu_worker := Sleeping\<rparr>, True))"

definition pass_end :: "followups \<Rightarrow> followups" where
  "pass_end f = (case after_pass (fu_wakeup f) of (w, again) \<Rightarrow>
     f\<lparr>fu_wakeup := w, fu_worker := if again then Beginning else Sleeping\<rparr>)"

definition worker_step :: "followups \<Rightarrow> followups \<times> followup_event list" where
  "worker_step f = (case fu_worker f of
     Stopped \<Rightarrow> (f, [])
   | Sleeping \<Rightarrow> (case enter (fu_wakeup f) of (w, run) \<Rightarrow>
       (f\<lparr>fu_wakeup := w, fu_worker := if run then Beginning else Sleeping\<rparr>, []))
   | Beginning \<Rightarrow> if fu_handler f then (f\<lparr>fu_worker := Dispatching (keys (fu_followup f)) [] []\<rparr>, [])
       else (pass_end f, [])
   | Dispatching ts u hand \<Rightarrow> (case hand of
       msg # ms \<Rightarrow> (f\<lparr>fu_worker := Dispatching ts u ms\<rparr>, [Handled u msg])
     | [] \<Rightarrow> (case ts of
         t # ts' \<Rightarrow> (case drain_followup_queue t f of (g, ms) \<Rightarrow>
           (g\<lparr>fu_worker := Dispatching ts' t ms\<rparr>, map (Grabbed t) ms))
       | [] \<Rightarrow> (pass_end f, []))))"

definition in_hand :: "followups \<Rightarrow> (string \<times> string) list" where
  "in_hand f = (case fu_worker f of Dispatching ts t ms \<Rightarrow> map (Pair t) ms | _ \<Rightarrow> [])"

text \<open>The cancellation leaves the pass by an exception, if there is one.\<close>

definition stop_followup_drain :: "followups \<Rightarrow> followups \<times> followup_event list" where
  "stop_followup_drain f = (f\<lparr>fu_worker := Stopped, fu_wakeup := (case fu_worker f of
       Stopped \<Rightarrow> fu_wakeup f | Sleeping \<Rightarrow> fu_wakeup f | _ \<Rightarrow> after_raise (fu_wakeup f))\<rparr>,
     map (\<lambda>(t, msg). Dropped t msg) (in_hand f))"

section \<open>Runs\<close>

datatype followup_op =
    OpSteer string string
  | OpFollowUp string string
  | OpDrainSteer string
  | OpDrainFollowup string
  | OpHandler bool
  | OpStart
  | OpStop
  | OpWorker

fun followup_exec :: "followups \<Rightarrow> followup_op \<Rightarrow> followups \<times> followup_event list" where
  "followup_exec f (OpSteer t msg) = (steer t msg f, [Steered t msg])"
| "followup_exec f (OpFollowUp t msg) = (follow_up t msg f, [Sent t msg])"
| "followup_exec f (OpDrainSteer t) = (let (g, ms) = drain_steer_queue t f in (g, map (SteerDrained t) ms))"
| "followup_exec f (OpDrainFollowup t) = (let (g, ms) = drain_followup_queue t f in (g, map (Drained t) ms))"
| "followup_exec f (OpHandler h) = (set_followup_handler h f, [])"
| "followup_exec f OpStart = (fst (start_followup_drain f), [])"
| "followup_exec f OpStop = stop_followup_drain f"
| "followup_exec f OpWorker = worker_step f"

text \<open>A whole run: the final state and all that happened.\<close>

definition followup_run :: "followup_op list \<Rightarrow> followups \<times> followup_event list" where
  "followup_run ops = foldl (\<lambda>(f, es) x. case followup_exec f x of (g, es') \<Rightarrow> (g, es @ es')) (followups_init, []) ops"

text \<open>The messages of some kinds of events: all, or those of one thread.\<close>

fun steered :: "followup_event \<Rightarrow> (string \<times> string) list" where
  "steered (Steered t msg) = [(t, msg)]"
| "steered _ = []"

fun steer_drained :: "followup_event \<Rightarrow> (string \<times> string) list" where
  "steer_drained (SteerDrained t msg) = [(t, msg)]"
| "steer_drained _ = []"

fun sent :: "followup_event \<Rightarrow> (string \<times> string) list" where
  "sent (Sent t msg) = [(t, msg)]"
| "sent _ = []"

fun taken :: "followup_event \<Rightarrow> (string \<times> string) list" where
  "taken (Drained t msg) = [(t, msg)]"
| "taken (Grabbed t msg) = [(t, msg)]"
| "taken _ = []"

fun grabbed :: "followup_event \<Rightarrow> (string \<times> string) list" where
  "grabbed (Grabbed t msg) = [(t, msg)]"
| "grabbed _ = []"

fun settled :: "followup_event \<Rightarrow> (string \<times> string) list" where
  "settled (Handled t msg) = [(t, msg)]"
| "settled (Dropped t msg) = [(t, msg)]"
| "settled _ = []"

fun dropped :: "followup_event \<Rightarrow> (string \<times> string) list" where
  "dropped (Dropped t msg) = [(t, msg)]"
| "dropped _ = []"

definition msgs :: "(followup_event \<Rightarrow> (string \<times> string) list) \<Rightarrow> followup_event list \<Rightarrow> (string \<times> string) list" where
  "msgs p es = concat (map p es)"

definition of_thread :: "string \<Rightarrow> (string \<times> string) list \<Rightarrow> string list" where
  "of_thread t ps = map snd (filter (\<lambda>p. fst p = t) ps)"

section \<open>Lemmas\<close>

lemma of_thread_simps [simp]:
  "of_thread t [] = []"
  "of_thread t (ps @ qs) = of_thread t ps @ of_thread t qs"
  "of_thread t ((u, msg) # ps) = (if u = t then msg # of_thread t ps else of_thread t ps)"
  by (simp_all add: of_thread_def)

lemma of_thread_Pair [simp]: "of_thread t (map (Pair u) ms) = (if u = t then ms else [])"
  by (induction ms) auto

lemma put_queue_get [simp]: "get_or (put_queue t msg qs) u [] = get_or qs u [] @ (if u = t then [msg] else [])"
  by (simp add: put_queue_def)

lemma drain_queue_spec:
  "snd (drain_queue t qs) = get_or qs t []"
  "get_or (fst (drain_queue t qs)) u [] = (if u = t then [] else get_or qs u [])"
  by (simp_all add: drain_queue_def get_or_def split: option.splits)

lemma msgs_simps [simp]:
  "msgs p [] = []" "msgs p (es @ es') = msgs p es @ msgs p es'" "msgs p (e # es) = p e @ msgs p es"
  by (simp_all add: msgs_def)

lemma msgs_drained:
  "msgs taken (map (Drained t) ms) = map (Pair t) ms" "msgs steer_drained (map (Drained t) ms) = []"
  "msgs steered (map (Drained t) ms) = []" "msgs sent (map (Drained t) ms) = []" "msgs grabbed (map (Drained t) ms) = []"
  "msgs settled (map (Drained t) ms) = []" "msgs dropped (map (Drained t) ms) = []"
  by (induction ms) auto

lemma msgs_grabbed:
  "msgs taken (map (Grabbed t) ms) = map (Pair t) ms" "msgs steer_drained (map (Grabbed t) ms) = []"
  "msgs steered (map (Grabbed t) ms) = []" "msgs sent (map (Grabbed t) ms) = []" "msgs grabbed (map (Grabbed t) ms) = map (Pair t) ms"
  "msgs settled (map (Grabbed t) ms) = []" "msgs dropped (map (Grabbed t) ms) = []"
  by (induction ms) auto

lemma msgs_steer_drained:
  "msgs taken (map (SteerDrained t) ms) = []" "msgs steer_drained (map (SteerDrained t) ms) = map (Pair t) ms"
  "msgs steered (map (SteerDrained t) ms) = []" "msgs sent (map (SteerDrained t) ms) = []" "msgs grabbed (map (SteerDrained t) ms) = []"
  "msgs settled (map (SteerDrained t) ms) = []" "msgs dropped (map (SteerDrained t) ms) = []"
  by (induction ms) auto

lemma msgs_dropped:
  "msgs taken (map (\<lambda>(t, msg). Dropped t msg) ps) = []" "msgs steer_drained (map (\<lambda>(t, msg). Dropped t msg) ps) = []"
  "msgs steered (map (\<lambda>(t, msg). Dropped t msg) ps) = []" "msgs sent (map (\<lambda>(t, msg). Dropped t msg) ps) = []"
  "msgs grabbed (map (\<lambda>(t, msg). Dropped t msg) ps) = []" "msgs settled (map (\<lambda>(t, msg). Dropped t msg) ps) = ps"
  by (induction ps) auto

lemmas msgs_batches = msgs_drained msgs_grabbed msgs_steer_drained msgs_dropped

lemma drain_followup_fields:
  assumes "drain_followup_queue u f = (g, ms)"
  shows "ms = get_or (fu_followup f) u []" "fu_steer g = fu_steer f" "fu_worker g = fu_worker f"
    "get_or (fu_followup g) t [] = (if t = u then [] else get_or (fu_followup f) t [])"
  using assms drain_queue_spec by (auto simp: drain_followup_queue_def split_beta)

lemma drain_steer_fields:
  assumes "drain_steer_queue u f = (g, ms)"
  shows "ms = get_or (fu_steer f) u []" "fu_followup g = fu_followup f" "fu_worker g = fu_worker f"
    "get_or (fu_steer g) t [] = (if t = u then [] else get_or (fu_steer f) t [])"
  using assms drain_queue_spec by (auto simp: drain_steer_queue_def split_beta)

lemma pass_end_fields [simp]:
  "fu_steer (pass_end f) = fu_steer f" "fu_followup (pass_end f) = fu_followup f" "in_hand (pass_end f) = []"
  by (simp_all add: pass_end_def in_hand_def split: prod.split)

text \<open>What one step does to the queues and to the messages in hand.\<close>

definition step_keeps :: "followups \<Rightarrow> followups \<Rightarrow> followup_event list \<Rightarrow> bool" where
  "step_keeps f g es \<longleftrightarrow>
     (\<forall>t. of_thread t (msgs steer_drained es) @ get_or (fu_steer g) t [] = get_or (fu_steer f) t [] @ of_thread t (msgs steered es) \<and>
        of_thread t (msgs taken es) @ get_or (fu_followup g) t [] = get_or (fu_followup f) t [] @ of_thread t (msgs sent es)) \<and>
     msgs settled es @ in_hand g = in_hand f @ msgs grabbed es"

lemma in_hand_update [simp]:
  "in_hand (f\<lparr>fu_worker := w\<rparr>) = (case w of Dispatching ts t ms \<Rightarrow> map (Pair t) ms | _ \<Rightarrow> [])"
  "in_hand (f\<lparr>fu_worker := w, fu_wakeup := x\<rparr>) = (case w of Dispatching ts t ms \<Rightarrow> map (Pair t) ms | _ \<Rightarrow> [])"
  "in_hand (f\<lparr>fu_wakeup := x, fu_worker := w\<rparr>) = (case w of Dispatching ts t ms \<Rightarrow> map (Pair t) ms | _ \<Rightarrow> [])"
  by (simp_all add: in_hand_def)

lemma worker_step_keeps:
  assumes "worker_step f = (g, es)"
  shows "step_keeps f g es \<and> msgs dropped es = []"
proof (cases "fu_worker f")
  case (Dispatching ts u ms)
  then have h: "in_hand f = map (Pair u) ms" by (simp add: in_hand_def)
  consider t ts' where "ts = t # ts'" "ms = []" | "ts = []" "ms = []" | m ms' where "ms = m # ms'"
    by (cases ms; cases ts) auto
  then show ?thesis
  proof cases
    case (1 t ts')
    obtain h' hs where d: "drain_followup_queue t f = (h', hs)" by fastforce
    have g: "g = h'\<lparr>fu_worker := Dispatching ts' t hs\<rparr>" "es = map (Grabbed t) hs"
      using assms Dispatching 1 d by (simp_all add: worker_step_def)
    show ?thesis using drain_followup_fields [OF d] h 1
      by (simp add: step_keeps_def g msgs_batches)
  qed (use assms Dispatching h in \<open>auto simp: worker_step_def step_keeps_def\<close>)
next
  case Sleeping
  then have "in_hand f = []" by (simp add: in_hand_def)
  then show ?thesis using assms Sleeping by (auto simp: worker_step_def step_keeps_def split: prod.splits)
next
  case Beginning
  then have "in_hand f = []" by (simp add: in_hand_def)
  then show ?thesis using assms Beginning by (auto simp: worker_step_def step_keeps_def split: if_splits)
qed (use assms in \<open>auto simp: worker_step_def step_keeps_def\<close>)

lemma followup_step_keeps:
  assumes "followup_exec f x = (g, es)"
  shows "step_keeps f g es \<and> (x \<noteq> OpStop \<longrightarrow> msgs dropped es = [])"
proof (cases x)
  case (OpSteer t msg)
  then show ?thesis using assms by (auto simp: step_keeps_def steer_def in_hand_def)
next
  case (OpFollowUp t msg)
  then show ?thesis using assms by (auto simp: step_keeps_def follow_up_def in_hand_def)
next
  case (OpDrainSteer t)
  obtain h hs where d: "drain_steer_queue t f = (h, hs)" by fastforce
  show ?thesis using assms OpDrainSteer d drain_steer_fields [OF d]
    by (auto simp: step_keeps_def msgs_batches in_hand_def)
next
  case (OpDrainFollowup t)
  obtain h hs where d: "drain_followup_queue t f = (h, hs)" by fastforce
  show ?thesis using assms OpDrainFollowup d drain_followup_fields [OF d]
    by (auto simp: step_keeps_def msgs_batches in_hand_def)
next
  case (OpHandler h)
  then show ?thesis using assms by (auto simp: step_keeps_def set_followup_handler_def in_hand_def)
next
  case OpStart
  then show ?thesis using assms by (auto simp: step_keeps_def start_followup_drain_def in_hand_def)
next
  case OpStop
  then show ?thesis using assms
    by (auto simp: step_keeps_def stop_followup_drain_def msgs_batches)
next
  case OpWorker
  then show ?thesis using assms worker_step_keeps by simp
qed

lemma followup_run_snoc:
  "followup_run (ops @ [x]) = (case followup_exec (fst (followup_run ops)) x of (g, es) \<Rightarrow> (g, snd (followup_run ops) @ es))"
  by (simp add: followup_run_def split_beta)

section \<open>Properties\<close>

text \<open>C22: where every message goes. After any sequence of steers, follow-ups, drains, handler
  registrations, starts and stops of the worker and steps of it: what was drained from the steering
  queue of a thread, followed by what is still queued, is exactly what was sent to it, in order;
  what left its follow-up queue, to a caller or to the worker, followed by what is still queued, is
  exactly what was sent to it, in order; and what the worker took is, in order, what it handed to
  the handler or dropped, followed by what it has in hand. Nothing is dropped unless the worker is
  stopped, and then it is what it had in hand.\<close>

theorem followups_fifo:
  assumes "followup_run ops = (f, es)"
  shows "of_thread t (msgs steer_drained es) @ get_or (fu_steer f) t [] = of_thread t (msgs steered es) \<and>
    of_thread t (msgs taken es) @ get_or (fu_followup f) t [] = of_thread t (msgs sent es) \<and>
    msgs settled es @ in_hand f = msgs grabbed es \<and>
    (OpStop \<notin> set ops \<longrightarrow> msgs dropped es = []) \<and>
    snd (followup_exec f OpStop) = map (\<lambda>(t, msg). Dropped t msg) (in_hand f)"
  using assms
proof (induction ops arbitrary: f es rule: rev_induct)
  case Nil
  then show ?case by (auto simp: followup_run_def followups_init_def in_hand_def stop_followup_drain_def)
next
  case (snoc x ops)
  obtain f0 es0 g es1 where r: "followup_run ops = (f0, es0)" "followup_exec f0 x = (g, es1)" by fastforce
  have e: "f = g" "es = es0 @ es1" using snoc.prems r by (simp_all add: followup_run_snoc)
  note k = followup_step_keeps [OF r(2), unfolded step_keeps_def] and IH = snoc.IH [OF r(1)]
  have "of_thread t (msgs steer_drained es) @ get_or (fu_steer f) t [] = of_thread t (msgs steered es)"
    "of_thread t (msgs taken es) @ get_or (fu_followup f) t [] = of_thread t (msgs sent es)"
    "msgs settled es @ in_hand f = msgs grabbed es"
    using k IH unfolding e by (metis append_assoc msgs_simps(2) of_thread_simps(2))+
  moreover have "OpStop \<notin> set (ops @ [x]) \<longrightarrow> msgs dropped es = []" using k IH unfolding e by auto
  ultimately show ?case by (simp add: stop_followup_drain_def)
qed

text \<open>A stop loses messages: the worker has drained the queue, handed over the first message, and
  what it has in hand is in no queue any more when it is cancelled.\<close>

definition ex_stopped :: "followup_op list" where
  "ex_stopped = [OpHandler True, OpFollowUp ''t'' ''one'', OpFollowUp ''t'' ''two'', OpFollowUp ''u'' ''three'',
     OpStart, OpWorker, OpWorker, OpWorker, OpWorker, OpStop]"

lemma stop_loses_messages:
  "msgs dropped (snd (followup_run ex_stopped)) = [(''t'', ''two'')] \<and>
   get_or (fu_followup (fst (followup_run ex_stopped))) ''t'' [] = []"
  by code_simp

theorem followups_fifo_witness:
  "msgs settled (snd (followup_run ex_stopped)) = [(''t'', ''one''), (''t'', ''two'')] \<and>
   of_thread ''u'' (msgs taken (snd (followup_run ex_stopped))) = [] \<and>
   msgs dropped (snd (followup_run (butlast ex_stopped))) = []"
proof -
  obtain f es where r: "followup_run ex_stopped = (f, es)" by fastforce
  obtain g es' where b: "followup_run (butlast ex_stopped) = (g, es')" by fastforce
  have e: "in_hand (fst (followup_run ex_stopped)) = []" "OpStop \<notin> set (butlast ex_stopped)"
    "msgs grabbed (snd (followup_run ex_stopped)) = [(''t'', ''one''), (''t'', ''two'')]"
    "get_or (fu_followup (fst (followup_run ex_stopped))) ''u'' [] = [''three'']"
    "of_thread ''u'' (msgs sent (snd (followup_run ex_stopped))) = [''three'']"
    by code_simp+
  show ?thesis using followups_fifo [OF r, of "''u''"] followups_fifo [OF b] e r b by simp
qed

section \<open>Wake-ups\<close>

text \<open>
  Concurrent users of one helper: what happens at it, the flags, and the number of callers inside the
  drain loop. A pass starts when a call runs or when the runner goes round again.
\<close>

datatype wake_event = Woken | CallBusy | CallRuns | PassAgain | PassLast | PassRaised

inductive wake_step :: "wakeup \<times> nat \<Rightarrow> wake_event \<Rightarrow> wakeup \<times> nat \<Rightarrow> bool" where
  wake_up: "wake_step (s, n) Woken (wake s, n)"
| enter_busy: "enter s = (s', False) \<Longrightarrow> wake_step (s, n) CallBusy (s', n)"
| enter_run: "enter s = (s', True) \<Longrightarrow> wake_step (s, n) CallRuns (s', Suc n)"
| pass_again: "0 < n \<Longrightarrow> after_pass s = (s', True) \<Longrightarrow> wake_step (s, n) PassAgain (s', n)"
| pass_last: "0 < n \<Longrightarrow> after_pass s = (s', False) \<Longrightarrow> wake_step (s, n) PassLast (s', n - 1)"
| pass_raised: "0 < n \<Longrightarrow> wake_step (s, n) PassRaised (after_raise s, n - 1)"

inductive wake_run :: "wake_event list \<Rightarrow> wakeup \<times> nat \<Rightarrow> bool" where
  created: "wake_run [] (wakeup_init, 0)"
| happens: "wake_run es c \<Longrightarrow> wake_step c e c' \<Longrightarrow> wake_run (es @ [e]) c'"

inductive_cases wake_run_snocE: "wake_run (es @ [e]) c"

definition starts_pass :: "wake_event \<Rightarrow> bool" where
  "starts_pass e \<longleftrightarrow> e = CallRuns \<or> e = PassAgain"

definition wakes :: "wake_event \<Rightarrow> bool" where
  "wakes e \<longleftrightarrow> e = Woken \<or> e = CallBusy"

definition since_start :: "wake_event list \<Rightarrow> wake_event list" where
  "since_start es = takeWhile (Not \<circ> starts_pass) (rev es)"

definition wake_inv :: "wake_event list \<Rightarrow> wakeup \<times> nat \<Rightarrow> bool" where
  "wake_inv es c = (case c of (s, n) \<Rightarrow> n = (if cw_active s then 1 else 0) \<and>
     (cw_pending s \<longleftrightarrow> list_ex wakes (since_start es)) \<and> (cw_active s \<longrightarrow> list_all wakes (since_start es)))"

lemma since_start_snoc [simp]: "since_start (es @ [e]) = (if starts_pass e then [] else e # since_start es)"
  by (simp add: since_start_def)

lemma wake_inv_step:
  assumes "wake_step c e c'" "wake_inv es c"
  shows "wake_inv (es @ [e]) c'"
  using assms
  by (induction rule: wake_step.induct)
    (auto simp: wake_inv_def wake_def enter_def after_pass_def leave_def after_raise_def starts_pass_def wakes_def split: if_splits)

lemma wake_run_inv: "wake_run es c \<Longrightarrow> wake_inv es c"
proof (induction rule: wake_run.induct)
  case created
  show ?case by (simp add: wake_inv_def wakeup_init_def since_start_def)
next
  case (happens es c e c')
  then show ?case using wake_inv_step by blast
qed

lemma since_start_after:
  assumes "\<not> list_ex starts_pass mid"
  shows "since_start (pre @ mid) = rev mid @ since_start pre"
  using assms by (simp add: since_start_def takeWhile_append list_ex_iff)

text \<open>The loop ends without an exception only when nothing woke it since its last pass started.\<close>

lemma last_pass_idle:
  assumes "wake_run (es @ [PassLast]) c"
  shows "since_start es = []"
proof -
  obtain s n where r: "wake_run es (s, n)" "wake_step (s, n) PassLast c"
    using assms by (auto elim: wake_run_snocE)
  have "0 < n" "\<not> cw_pending s"
    using r(2) by (auto elim!: wake_step.cases simp: after_pass_def split: if_splits)
  then show ?thesis using wake_run_inv [OF r(1)]
    by (cases "since_start es") (auto simp: wake_inv_def split: if_splits)
qed

text \<open>C21: no wake-up is lost and drains do not overlap. Whatever happens at a helper, at most one
  caller is inside the drain loop. A wake-up, or a call that found the loop busy, since which no
  pass started is still pending; so a runner that is in the loop starts another pass as soon as its
  pass ends without an exception, and with no runner the next call starts one. And the loop ends
  without an exception only at the end of a pass that started after every wake-up before: the last
  thing that happened at the helper is that this pass started.\<close>

theorem no_lost_wakeup:
  assumes "wake_run es (s, n)" "es = pre @ [w] @ mid" "wakes w"
  shows "n \<le> 1 \<and> (n = 1 \<longleftrightarrow> cw_active s) \<and>
    (list_ex starts_pass mid \<or> cw_pending s \<and> snd (if cw_active s then after_pass s else enter s)) \<and>
    (\<forall>mid'. mid = mid' @ [PassLast] \<longrightarrow> (\<exists>a e. mid' = a @ [e] \<and> starts_pass e))"
proof -
  have inv: "wake_inv es (s, n)" by (rule wake_run_inv [OF assms(1)])
  have "cw_pending s" if "\<not> list_ex starts_pass mid"
  proof -
    have "since_start es = rev mid @ since_start (pre @ [w])"
      using since_start_after [OF that, of "pre @ [w]"] assms(2) by simp
    moreover have "w \<in> set (since_start (pre @ [w]))" using assms(3) by (auto simp: wakes_def starts_pass_def)
    ultimately show ?thesis using inv assms(3) by (auto simp: wake_inv_def list_ex_iff)
  qed
  then have "list_ex starts_pass mid \<or> cw_pending s \<and> snd (if cw_active s then after_pass s else enter s)"
    by (auto simp: after_pass_def enter_def)
  moreover have "\<exists>a e. mid' = a @ [e] \<and> starts_pass e" if "mid = mid' @ [PassLast]" for mid'
  proof -
    have "since_start (pre @ [w] @ mid') = []" using last_pass_idle assms(1,2) that by force
    then show ?thesis using assms(3)
      by (cases mid' rule: rev_cases) (auto simp: since_start_def wakes_def starts_pass_def split: if_splits)
  qed
  ultimately show ?thesis using inv by (auto simp: wake_inv_def split: if_splits)
qed

text \<open>A wake-up during a pass, a busy call, and the end of both passes.\<close>

theorem no_lost_wakeup_witness:
  "\<exists>s. wake_run [CallRuns, Woken, CallBusy, PassAgain, PassLast] (s, 0) \<and>
     (\<exists>a e. [CallBusy, PassAgain] = a @ [e] \<and> starts_pass e)"
proof -
  let ?s1 = "\<lparr>cw_active = True, cw_pending = False\<rparr>" and ?s2 = "\<lparr>cw_active = True, cw_pending = True\<rparr>"
  have "wake_run ([] @ [CallRuns]) (?s1, Suc 0)"
    by (rule wake_run.happens [OF wake_run.created wake_step.enter_run]) (simp add: enter_def wakeup_init_def)
  from wake_run.happens [OF this wake_step.wake_up] have "wake_run ([CallRuns] @ [Woken]) (?s2, Suc 0)" by (simp add: wake_def)
  from wake_run.happens [OF this wake_step.enter_busy [of _ ?s2]]
  have "wake_run ([CallRuns, Woken] @ [CallBusy]) (?s2, Suc 0)" by (simp add: enter_def)
  from wake_run.happens [OF this wake_step.pass_again [of _ _ ?s1]]
  have "wake_run ([CallRuns, Woken, CallBusy] @ [PassAgain]) (?s1, Suc 0)" by (simp add: after_pass_def)
  from wake_run.happens [OF this wake_step.pass_last [of _ _ "leave (leave ?s1)"]]
  have r: "wake_run [CallRuns, Woken, CallBusy, PassAgain, PassLast] (leave (leave ?s1), 0)" by (simp add: after_pass_def)
  show ?thesis using no_lost_wakeup [OF r, of "[CallRuns]" Woken "[CallBusy, PassAgain, PassLast]"] r
    by (auto simp: wakes_def)
qed

end
