(* ===== verification/RateLimit.thy ===== *)
theory RateLimit
  imports Prelude
begin

text \<open>
  The two in-memory rate limiters: \<open>SlidingWindowRateLimiter\<close> of
  \<open>src/focus_agent/security/rate_limit.py\<close> and \<open>InMemoryRateLimitBackend\<close> of
  \<open>src/focus_agent/services/coordination_memory.py\<close>. What a limiter promises are the locales
  \<open>bounded_window\<close>, whatever the times of its checks, and \<open>sliding_window\<close>, for checks in order of
  time; both implementations interpret both, so both inherit their lemmas.

  A check reads the clock before it takes the lock. A list of checks is in the order of the lock, so
  its times need not be in order: a check that waits for the lock comes after checks that read the
  clock later. If no check waits longer than \<open>\<delta>\<close>, a later one is at most \<open>\<delta>\<close> behind.
\<close>

record rate_limit_result =
  rl_allowed :: bool
  rl_remaining :: int
  rl_retry_after :: real

type_synonym rate_events = "(string, real list) dict"

section \<open>The two implementations\<close>

text \<open>\<open>SlidingWindowRateLimiter.check\<close>: the \<open>defaultdict\<close> creates the entry of an unknown key.\<close>

definition window_check :: "real \<Rightarrow> rate_events \<Rightarrow> string \<Rightarrow> int \<Rightarrow> real \<Rightarrow> rate_events \<times> rate_limit_result" where
  "window_check w d key limit now =
    (if limit \<le> 0 then (d, \<lparr>rl_allowed = True, rl_remaining = 0, rl_retry_after = 0\<rparr>)
     else
       let horizon = now - w;
           events = dropWhile (\<lambda>e. e \<le> horizon) (get_or d key [])
       in if limit \<le> int (length events)
          then (AList.update key events d,
                \<lparr>rl_allowed = False, rl_remaining = 0, rl_retry_after = max 0 (hd events + w - now)\<rparr>)
          else (AList.update key (events @ [now]) d,
                \<lparr>rl_allowed = True, rl_remaining = max 0 (limit - int (length (events @ [now]))), rl_retry_after = 0\<rparr>))"

text \<open>\<open>InMemoryRateLimitBackend.check\<close>: the window is an argument of each call.\<close>

definition backend_check :: "real \<Rightarrow> rate_events \<Rightarrow> string \<Rightarrow> int \<Rightarrow> real \<Rightarrow> rate_events \<times> rate_limit_result" where
  "backend_check w d key limit now =
    (if limit \<le> 0 then (d, \<lparr>rl_allowed = True, rl_remaining = 0, rl_retry_after = 0\<rparr>)
     else
       let horizon = now - max w (1 / 1000);
           events = filter (\<lambda>e. horizon < e) (get_or d key [])
       in if limit \<le> int (length events)
          then (AList.update key events d,
                \<lparr>rl_allowed = False, rl_remaining = 0, rl_retry_after = max 0 (hd events + w - now)\<rparr>)
          else (AList.update key (events @ [now]) d,
                \<lparr>rl_allowed = True, rl_remaining = max 0 (limit - int (length (events @ [now]))), rl_retry_after = 0\<rparr>))"

text \<open>A history of checks of several keys, each with its limit and time, and the answers.\<close>

type_synonym rate_call = "string \<times> int \<times> real"

fun run_checks :: "(rate_events \<Rightarrow> string \<Rightarrow> int \<Rightarrow> real \<Rightarrow> rate_events \<times> rate_limit_result) \<Rightarrow>
    rate_events \<Rightarrow> rate_call list \<Rightarrow> rate_events \<times> rate_limit_result list" where
  "run_checks chk d [] = (d, [])"
| "run_checks chk d ((k, l, t) # cs) =
    (let (d1, r) = chk d k l t; (d2, rs) = run_checks chk d1 cs in (d2, r # rs))"

text \<open>The times at which requests of a key were allowed under a limit. A limit of zero or less is none:
  such a request is always allowed and is not remembered.\<close>

fun allowed_times :: "string \<Rightarrow> rate_call list \<Rightarrow> rate_limit_result list \<Rightarrow> real list" where
  "allowed_times k ((k', l, t) # cs) (r # rs) =
    (if k' = k \<and> 0 < l \<and> rl_allowed r then t # allowed_times k cs rs else allowed_times k cs rs)"
| "allowed_times k _ _ = []"

fun times :: "rate_call list \<Rightarrow> real list" where
  "times [] = []"
| "times ((k, l, t) # cs) = t # times cs"

section \<open>The contract for checks in any order\<close>

lemma filter_dropWhile: "h \<le> B \<Longrightarrow> filter (\<lambda>e. B < e) (dropWhile (\<lambda>e. e \<le> (h :: real)) es) = filter (\<lambda>e. B < e) es"
  by (induction es) auto

lemma filter_filter_less: "h \<le> B \<Longrightarrow> filter (\<lambda>e. B < e) (filter (\<lambda>e. (h :: real) < e) es) = filter (\<lambda>e. B < e) es"
  by (auto intro!: filter_cong)

text \<open>\<open>kept\<close> is what a check at \<open>t\<close> keeps of the events: at least those that a window ending at \<open>t\<close> holds.\<close>

locale bounded_window =
  fixes chk :: "rate_events \<Rightarrow> string \<Rightarrow> int \<Rightarrow> real \<Rightarrow> rate_events \<times> rate_limit_result"
    and kept :: "real \<Rightarrow> real list \<Rightarrow> real list"
    and window :: real
  assumes keeps: "t - window \<le> B \<Longrightarrow> filter (\<lambda>e. B < e) (kept t es) = filter (\<lambda>e. B < e) es"
    and unlimited: "l \<le> 0 \<Longrightarrow> chk d k l t = (d, \<lparr>rl_allowed = True, rl_remaining = 0, rl_retry_after = 0\<rparr>)"
    and decides: "0 < l \<Longrightarrow> fst (chk d k l t) = AList.update k (kept t (get_or d k []) @ (if rl_allowed (snd (chk d k l t)) then [t] else [])) d \<and>
      (rl_allowed (snd (chk d k l t)) \<longleftrightarrow> int (length (kept t (get_or d k []))) < l)"
begin

text \<open>After checks at the times \<open>ts\<close>, what is stored for a key is, within the windows of them all, the
  requests allowed so far.\<close>

definition remembers :: "real list \<Rightarrow> string \<Rightarrow> rate_events \<Rightarrow> real list \<Rightarrow> bool" where
  "remembers ts k d hist \<longleftrightarrow>
     (\<forall>B. (\<forall>t \<in> set ts. t - window \<le> B) \<longrightarrow> filter (\<lambda>e. B < e) (get_or d k []) = filter (\<lambda>e. B < e) hist)"

lemma chk_remembers:
  assumes "remembers ts k d hist"
  shows "remembers (ts @ [t]) k (fst (chk d j l t))
    (hist @ (if j = k \<and> 0 < l \<and> rl_allowed (snd (chk d j l t)) then [t] else []))"
proof (cases "0 < l")
  case True
  note dec = decides [OF True, of d j t, THEN conjunct1]
  show ?thesis using assms unfolding remembers_def dec
    by (cases "j = k") (simp_all add: True keeps)
next
  case False
  then have "chk d j l t = (d, \<lparr>rl_allowed = True, rl_remaining = 0, rl_retry_after = 0\<rparr>)" by (simp add: unlimited)
  then show ?thesis using assms False by (simp add: remembers_def)
qed

lemma window_bound_from:
  assumes "remembers ts k d hist" "sorted_wrt (\<lambda>a b. a \<le> b + \<delta>) (ts @ times cs)" "0 \<le> \<delta>"
    and "\<forall>l t. (k, l, t) \<in> set cs \<longrightarrow> l \<le> int n"
    and "\<forall>x. length (filter (\<lambda>e. x - (window - \<delta>) < e \<and> e \<le> x) hist) \<le> n"
  shows "length (filter (\<lambda>e. x - (window - \<delta>) < e \<and> e \<le> x) (hist @ allowed_times k cs (snd (run_checks chk d cs)))) \<le> n"
  using assms(1,2,4,5)
proof (induction cs arbitrary: d ts hist)
  case Nil
  then show ?case by simp
next
  case (Cons c cs)
  obtain j l u where c: "c = (j, l, u)" by (cases c)
  let ?new = "if j = k \<and> 0 < l \<and> rl_allowed (snd (chk d j l u)) then [u] else []"
  have bound: "length (filter (\<lambda>e. x - (window - \<delta>) < e \<and> e \<le> x) (hist @ ?new)) \<le> n" for x
  proof (cases "j = k \<and> 0 < l \<and> rl_allowed (snd (chk d j l u)) \<and> u \<le> x")
    case False
    then show ?thesis using Cons.prems(4) by auto
  next
    case True
    let ?B = "x - (window - \<delta>)" and ?es = "get_or d k []"
    have "t - window \<le> ?B" if "t \<in> set ts" for t
      using Cons.prems(2) that True by (force simp: c sorted_wrt_append)
    then have "length (filter (\<lambda>e. ?B < e) hist) = length (filter (\<lambda>e. ?B < e) ?es)"
      using Cons.prems(1) unfolding remembers_def by auto
    also have "\<dots> = length (filter (\<lambda>e. ?B < e) (kept u ?es))" using True assms(3) by (subst keeps) simp_all
    also have "\<dots> \<le> length (kept u ?es)" by simp
    finally have "length (filter (\<lambda>e. ?B < e) hist) \<le> length (kept u ?es)" .
    moreover have "int (length (kept u ?es)) < l" using decides [of l d k u] True by auto
    ultimately have "int (length (filter (\<lambda>e. ?B < e) hist)) < l" by linarith
    moreover have "length (filter (\<lambda>e. ?B < e \<and> e \<le> x) hist) \<le> length (filter (\<lambda>e. ?B < e) hist)"
      by (induction hist) auto
    moreover have "l \<le> int n" using Cons.prems(3) True by (simp add: c)
    ultimately show ?thesis using True by simp
  qed
  have eq: "hist @ allowed_times k (c # cs) (snd (run_checks chk d (c # cs))) =
      (hist @ ?new) @ allowed_times k cs (snd (run_checks chk (fst (chk d j l u)) cs))"
    by (auto simp: c split_beta Let_def)
  show ?case unfolding eq
    by (rule Cons.IH [OF chk_remembers [OF Cons.prems(1), of u j l]]) (use Cons.prems(2,3) c bound in simp_all)
qed

lemma window_bound:
  assumes "sorted_wrt (\<lambda>a b. a \<le> b + \<delta>) (times cs)" "0 \<le> \<delta>" "\<forall>l t. (k, l, t) \<in> set cs \<longrightarrow> l \<le> int n"
  shows "length (filter (\<lambda>e. x - (window - \<delta>) < e \<and> e \<le> x) (allowed_times k cs (snd (run_checks chk [] cs)))) \<le> n"
  using window_bound_from [of "[]" k "[]" "[]" \<delta> cs n x] assms by (simp add: remembers_def)

end

lemma window_bounded: "bounded_window (window_check w) (\<lambda>t. dropWhile (\<lambda>e. e \<le> t - w)) w"
  by unfold_locales (simp_all add: window_check_def filter_dropWhile Let_def)

lemma backend_bounded:
  assumes "1 / 1000 \<le> w"
  shows "bounded_window (backend_check w) (\<lambda>t. filter (\<lambda>e. t - w < e)) w"
proof -
  have m: "max w (1 / 1000) = w" using assms by simp
  show ?thesis
    by unfold_locales (simp_all add: backend_check_def filter_filter_less Let_def m del: max.absorb_iff1 filter_filter)
qed

interpretation api_bound: bounded_window "window_check 60" "\<lambda>t. dropWhile (\<lambda>e. e \<le> t - 60)" 60
  by (rule window_bounded)

interpretation backend_bound: bounded_window "backend_check 60" "\<lambda>t. filter (\<lambda>e. t - 60 < e)" 60
  by (rule backend_bounded) simp

section \<open>The contract for checks in order of time\<close>

definition live :: "real \<Rightarrow> real \<Rightarrow> real list \<Rightarrow> real list" where
  "live w now es = filter (\<lambda>e. now - w < e) es"

lemma dropWhile_sorted: "sorted es \<Longrightarrow> dropWhile (\<lambda>e. e \<le> (h :: real)) es = filter (\<lambda>e. h < e) es"
proof (induction es)
  case Nil
  then show ?case by simp
next
  case (Cons e es)
  show ?case
  proof (cases "e \<le> h")
    case True
    then show ?thesis using Cons by simp
  next
    case False
    then have "\<forall>x \<in> set es. h < x" using Cons.prems by (auto simp: not_le order_less_le_trans)
    then show ?thesis using False by (simp add: filter_id_conv)
  qed
qed

lemma live_simps [simp]:
  "live w t [] = []"
  "live w t (es @ es') = live w t es @ live w t es'"
  "live w t (live w t es) = live w t es"
  by (simp_all add: live_def)

lemma live_sorted: "sorted es \<Longrightarrow> sorted (live w t es)"
  unfolding live_def by (induction es) auto

lemma set_live: "set (live w t es) = {e \<in> set es. t - w < e}"
  by (auto simp: live_def)

lemma live_later: "t \<le> t' \<Longrightarrow> live w t' (live w t es) = live w t' es"
  by (auto simp: live_def intro!: filter_cong)

text \<open>The events of every key are in order and not in the future.\<close>

definition in_order :: "rate_events \<Rightarrow> real \<Rightarrow> bool" where
  "in_order d now \<longleftrightarrow> (\<forall>k. sorted (get_or d k []) \<and> (\<forall>e \<in> set (get_or d k []). e \<le> now))"

locale sliding_window =
  fixes chk :: "rate_events \<Rightarrow> string \<Rightarrow> int \<Rightarrow> real \<Rightarrow> rate_events \<times> rate_limit_result"
    and window :: real
  assumes window_pos: "0 < window"
    and unlimited: "l \<le> 0 \<Longrightarrow> chk d k l t = (d, \<lparr>rl_allowed = True, rl_remaining = 0, rl_retry_after = 0\<rparr>)"
    and refuse: "0 < l \<Longrightarrow> sorted (get_or d k []) \<Longrightarrow> l \<le> int (length (live window t (get_or d k []))) \<Longrightarrow>
      chk d k l t = (AList.update k (live window t (get_or d k [])) d,
        \<lparr>rl_allowed = False, rl_remaining = 0,
         rl_retry_after = max 0 (hd (live window t (get_or d k [])) + window - t)\<rparr>)"
    and admit: "0 < l \<Longrightarrow> sorted (get_or d k []) \<Longrightarrow> \<not> l \<le> int (length (live window t (get_or d k []))) \<Longrightarrow>
      chk d k l t = (AList.update k (live window t (get_or d k []) @ [t]) d,
        \<lparr>rl_allowed = True, rl_remaining = max 0 (l - int (length (live window t (get_or d k [])) + 1)),
         rl_retry_after = 0\<rparr>)"
begin

lemma chk_cases:
  assumes "sorted (get_or d k [])"
  obtains (unbounded) "l \<le> 0" "fst (chk d k l t) = d" "rl_allowed (snd (chk d k l t))"
  | (refused) "0 < l" "l \<le> int (length (live window t (get_or d k [])))"
      "fst (chk d k l t) = AList.update k (live window t (get_or d k [])) d" "\<not> rl_allowed (snd (chk d k l t))"
  | (admitted) "0 < l" "int (length (live window t (get_or d k []))) < l"
      "fst (chk d k l t) = AList.update k (live window t (get_or d k []) @ [t]) d" "rl_allowed (snd (chk d k l t))"
proof -
  consider "l \<le> 0" | "0 < l" "l \<le> int (length (live window t (get_or d k [])))"
    | "0 < l" "\<not> l \<le> int (length (live window t (get_or d k [])))" by linarith
  then show ?thesis
  proof cases
    case 1
    then show ?thesis by (intro that(1)) (simp_all add: unlimited)
  next
    case 2
    then show ?thesis by (intro that(2)) (simp_all add: refuse assms)
  next
    case 3
    then show ?thesis by (intro that(3)) (simp_all add: admit assms)
  qed
qed

lemma in_order_chk:
  assumes "in_order d now" "now \<le> t"
  shows "in_order (fst (chk d k l t)) t"
proof -
  have s: "sorted (get_or d k [])" using assms(1) by (simp add: in_order_def)
  have le: "e \<le> t" if "e \<in> set (get_or d j [])" for e j
    using assms that unfolding in_order_def by (meson order_trans)
  have l: "sorted (live window t (get_or d k []))" using s by (rule live_sorted)
  show ?thesis using assms(1) le l
    by (rule_tac chk_cases [OF s, of l t]) (auto simp: in_order_def sorted_append set_live)
qed

text \<open>A refusal says when the key is free again, to the instant.\<close>

lemma retry_exact:
  assumes "in_order d now" "\<not> rl_allowed (snd (chk d k l now))"
    and "int (length (live window now (get_or d k []))) \<le> l" "now \<le> t"
  shows "rl_allowed (snd (chk (fst (chk d k l now)) k l t)) \<longleftrightarrow> now + rl_retry_after (snd (chk d k l now)) \<le> t"
proof -
  have s: "sorted (get_or d k [])" using assms(1) by (simp add: in_order_def)
  let ?es = "live window now (get_or d k [])"
  have r: "0 < l" "l \<le> int (length ?es)" "fst (chk d k l now) = AList.update k ?es d"
    using assms(2) by (rule_tac chk_cases [OF s, of l now]; simp)+
  then have len: "int (length ?es) = l" using assms(3) by simp
  then obtain e es where es: "?es = e # es" using r(1) by (cases ?es) auto
  have "e \<in> set ?es" by (simp add: es)
  then have live: "now - window < e" by (simp add: set_live)
  then have retry: "now + rl_retry_after (snd (chk d k l now)) = e + window"
    using refuse [OF r(1) s r(2)] es by simp
  have so: "sorted ?es" using s by (rule live_sorted)
  have g: "get_or (fst (chk d k l now)) k [] = ?es" by (simp add: r(3))
  have "length (live window t ?es) < length ?es \<longleftrightarrow> e + window \<le> t"
  proof
    assume "e + window \<le> t"
    then have "live window t (e # es) = live window t es" by (simp add: live_def)
    then have "live window t ?es = live window t es" by (simp only: es)
    also have "length (live window t es) \<le> length es" by (simp add: live_def)
    finally show "length (live window t ?es) < length ?es" by (simp add: es)
  next
    assume less: "length (live window t ?es) < length ?es"
    show "e + window \<le> t"
    proof (rule ccontr)
      assume "\<not> e + window \<le> t"
      then have "\<forall>x \<in> set ?es. t - window < x" using so by (auto simp: es)
      then have "live window t ?es = ?es" unfolding live_def by (simp only: filter_id_conv)
      with less show False by simp
    qed
  qed
  moreover have "rl_allowed (snd (chk (fst (chk d k l now)) k l t)) \<longleftrightarrow> int (length (live window t ?es)) < l"
    using so r(1) by (rule_tac chk_cases [of "fst (chk d k l now)" k l t]) (simp_all add: g)
  ultimately show ?thesis using len retry by auto
qed

end

section \<open>Both implementations keep the contract\<close>

text \<open>The limiter of the API needs a positive window; the coordination backend clamps its window to a
  millisecond, so it keeps the contract for windows from there on.\<close>

lemma window_contract: "0 < w \<Longrightarrow> sliding_window (window_check w) w"
  by unfold_locales (simp_all add: window_check_def live_def dropWhile_sorted Let_def)

lemma backend_contract:
  assumes "1 / 1000 \<le> w"
  shows "sliding_window (backend_check w) w"
proof -
  have m: "max w (1 / 1000) = w" and pos: "0 < w" using assms by simp_all
  show ?thesis
    by unfold_locales (simp_all add: backend_check_def live_def Let_def m pos del: max.absorb_iff1)
qed

interpretation api_limit: sliding_window "window_check 60" 60
  by (rule window_contract) simp

interpretation backend_limit: sliding_window "backend_check 60" 60
  by (rule backend_contract) simp

section \<open>Properties\<close>

text \<open>C29: the limit is kept in every window, but for the waits at the lock. Over any history of
  checks of any keys, in the order in which they take the lock, where no check read the clock more
  than \<open>\<delta>\<close> before one that took the lock earlier: in every interval shorter than the window by \<open>\<delta>\<close>
  at most \<open>n\<close> requests of a key are allowed whose limits are at most \<open>n\<close>. With checks in order of
  time (\<open>\<delta> = 0\<close>) this is every interval of the window's length. A limit of zero or less is no limit:
  the request is allowed and changes nothing. The same holds for both implementations.\<close>

theorem rate_limit_window_bound:
  assumes "1 / 1000 \<le> w" "0 \<le> \<delta>" "sorted_wrt (\<lambda>a b. a \<le> b + \<delta>) (times cs)" "\<forall>l t. (k, l, t) \<in> set cs \<longrightarrow> l \<le> int n"
    and "chk \<in> {window_check w, backend_check w}"
  shows "length (filter (\<lambda>e. x - (w - \<delta>) < e \<and> e \<le> x) (allowed_times k cs (snd (run_checks chk [] cs)))) \<le> n \<and>
    (l \<le> 0 \<longrightarrow> fst (chk d j l t) = d \<and> rl_allowed (snd (chk d j l t)))"
proof -
  obtain kept where "bounded_window chk kept w"
    using assms(5) window_bounded [of w] backend_bounded [OF assms(1)] by blast
  then show ?thesis using bounded_window.window_bound [OF _ assms(3,2,4)] bounded_window.unlimited by fastforce
qed

text \<open>The wait can cost a request. Two requests are allowed, a check that read the clock a moment too
  late to see them forgets them, and one that read the clock before it but waited for the lock is
  allowed as a third within the window.\<close>

definition ex_late_calls :: "rate_call list" where
  "ex_late_calls = [(''k'', 2, 0), (''k'', 2, 1), (''k'', 2, 61), (''k'', 2, 59)]"

lemma late_check_exceeds_limit:
  "allowed_times ''k'' ex_late_calls (snd (run_checks (window_check 60) [] ex_late_calls)) = [0, 1, 61, 59] \<and>
   allowed_times ''k'' ex_late_calls (snd (run_checks (backend_check 60) [] ex_late_calls)) = [0, 1, 61, 59] \<and>
   length (filter (\<lambda>e. 59 - 60 < e \<and> e \<le> 59) [0, 1, 61, 59 :: real]) = 3"
  by (simp add: ex_late_calls_def window_check_def backend_check_def get_or_def Let_def)

text \<open>A refusal is exact. When a check under an unchanged limit is refused, a later check with no
  other request in between is allowed exactly from \<open>retry_after_seconds\<close> on, not earlier and not
  later.\<close>

lemma rate_limit_retry_exact:
  assumes "1 / 1000 \<le> w" "chk \<in> {window_check w, backend_check w}"
    and "in_order d now" "\<not> rl_allowed (snd (chk d k l now))" "int (length (live w now (get_or d k []))) \<le> l" "now \<le> t"
  shows "rl_allowed (snd (chk (fst (chk d k l now)) k l t)) \<longleftrightarrow> now + rl_retry_after (snd (chk d k l now)) \<le> t"
proof -
  have "0 < w" using assms(1) by linarith
  then have "sliding_window chk w" using assms(2) window_contract backend_contract [OF assms(1)] by blast
  then show ?thesis by (rule sliding_window.retry_exact) (use assms in blast)+
qed

lemma same_answers:
  assumes "1 / 1000 \<le> w" "in_order d now" "sorted (now # times cs)"
  shows "run_checks (window_check w) d cs = run_checks (backend_check w) d cs"
  using assms(2,3)
proof (induction cs arbitrary: d now)
  case Nil
  then show ?case by simp
next
  case (Cons c cs)
  obtain k l u where c: "c = (k, l, u)" by (cases c)
  have "0 < w" using assms(1) by linarith
  have "sorted (get_or d k [])" using Cons.prems(1) by (simp add: in_order_def)
  moreover have "max w (1 / 1000) = w" using assms(1) by simp
  ultimately have "window_check w d k l u = backend_check w d k l u"
    by (simp add: window_check_def backend_check_def Let_def dropWhile_sorted)
  moreover have "in_order (fst (window_check w d k l u)) u"
    using sliding_window.in_order_chk [OF window_contract [OF \<open>0 < w\<close>] Cons.prems(1)] Cons.prems(2) c by simp
  ultimately show ?case using Cons.IH Cons.prems(2) c by (simp add: split_beta)
qed

text \<open>The two limiters are one. From an empty state, for a window of at least a millisecond and
  checks in order of time, they give the same answers and keep the same events.\<close>

lemma rate_limiters_agree:
  assumes "1 / 1000 \<le> w" "sorted (times cs)"
  shows "run_checks (window_check w) [] cs = run_checks (backend_check w) [] cs"
proof (cases "times cs")
  case Nil
  then have "cs = []" by (cases cs rule: times.cases) auto
  then show ?thesis by simp
next
  case (Cons u us)
  then show ?thesis using same_answers [OF assms(1), of "[]" u cs] assms(2) by (simp add: in_order_def)
qed

theorem rate_limit_window_bound_witness:
  "length (filter (\<lambda>e. 59 - (60 - 2) < e \<and> e \<le> 59)
     (allowed_times ''k'' ex_late_calls (snd (run_checks (window_check 60) [] ex_late_calls)))) \<le> 2 \<and>
   rl_allowed (snd (window_check 60 [(''k'', [1, 2])] ''k'' 0 3))"
proof
  note bound = rate_limit_window_bound [where w = 60 and \<delta> = 2 and k = "''k''" and cs = ex_late_calls and n = 2 and
    chk = "window_check 60" and l = 0]
  have p: "sorted_wrt (\<lambda>a b. a \<le> b + 2) (times ex_late_calls)" "\<forall>l t. (''k'', l, t) \<in> set ex_late_calls \<longrightarrow> l \<le> int 2"
    by (auto simp: ex_late_calls_def)
  show "length (filter (\<lambda>e. 59 - (60 - 2) < e \<and> e \<le> 59)
     (allowed_times ''k'' ex_late_calls (snd (run_checks (window_check 60) [] ex_late_calls)))) \<le> 2"
    by (rule bound [OF _ _ p, THEN conjunct1]) simp_all
  show "rl_allowed (snd (window_check 60 [(''k'', [1, 2])] ''k'' 0 3))"
    by (rule bound [OF _ _ p, THEN conjunct2, THEN mp, THEN conjunct2]) simp_all
qed

theorem rate_limit_retry_exact_witness:
  "rl_allowed (snd (window_check 60 (fst (window_check 60 [(''k'', [1, 2])] ''k'' 2 3)) ''k'' 2 61)) \<longleftrightarrow>
     3 + rl_retry_after (snd (window_check 60 [(''k'', [1, 2])] ''k'' 2 3)) \<le> 61"
proof -
  have w: "(1 :: real) / 1000 \<le> 60" and c: "window_check 60 \<in> {window_check 60, backend_check 60}" by simp_all
  have o: "in_order [(''k'', [1, 2])] 3" by (auto simp: in_order_def get_or_def)
  have r: "\<not> rl_allowed (snd (window_check 60 [(''k'', [1, 2])] ''k'' 2 3))"
    by (simp add: window_check_def get_or_def Let_def)
  show ?thesis by (rule rate_limit_retry_exact [OF w c o r]) (simp_all add: live_def get_or_def)
qed

theorem rate_limiters_agree_witness:
  "run_checks (window_check 60) [] [(''k'', 2, 1), (''j'', 1, 2), (''k'', 2, 3)] =
   run_checks (backend_check 60) [] [(''k'', 2, 1), (''j'', 1, 2), (''k'', 2, 3)]"
  by (rule rate_limiters_agree) simp_all

end
