(* ===== verification/ThreadTurn.thy ===== *)
theory ThreadTurn
  imports Prelude
begin

text \<open>
  One turn at a time per thread: the protocol \<open>ThreadTurnLockBackend\<close> of
  \<open>src/focus_agent/services/coordination_models.py\<close>, its in-memory implementation
  \<open>InMemoryThreadTurnLockBackend\<close> of \<open>coordination_memory.py\<close>, and its client
  \<open>ThreadTurnLeaseManager\<close> of \<open>thread_turn_lease.py\<close>. The protocol is the record \<open>turn_backend\<close>
  of its three operations; its laws are the locale \<open>turn_lock\<close>, in which the client is proved. A
  heartbeat may raise (\<open>Inl\<close>), as that of the Postgres backend may.
\<close>

record 's turn_backend =
  tb_acquire :: "real \<Rightarrow> string \<Rightarrow> string \<Rightarrow> real \<Rightarrow> 's \<Rightarrow> 's \<times> bool"
  tb_heartbeat :: "real \<Rightarrow> string \<Rightarrow> string \<Rightarrow> real \<Rightarrow> 's \<Rightarrow> string + ('s \<times> bool)"
  tb_release :: "string \<Rightarrow> string \<Rightarrow> 's \<Rightarrow> 's"

section \<open>The in-memory backend\<close>

record turn_entry =
  te_owner :: string
  te_expires :: real

type_synonym turn_locks = "(string, turn_entry) dict"

definition acquire_thread_turn :: "real \<Rightarrow> string \<Rightarrow> string \<Rightarrow> real \<Rightarrow> turn_locks \<Rightarrow> turn_locks \<times> bool" where
  "acquire_thread_turn now thread owner ttl d =
    (let expires = now + clamp_ttl ttl;
         grant = (AList.update thread \<lparr>te_owner = owner, te_expires = expires\<rparr> d, True)
     in case map_of d thread of
          None \<Rightarrow> grant
        | Some c \<Rightarrow> if now < te_expires c \<and> te_owner c \<noteq> owner then (d, False) else grant)"

definition heartbeat_thread_turn :: "real \<Rightarrow> string \<Rightarrow> string \<Rightarrow> real \<Rightarrow> turn_locks \<Rightarrow> turn_locks \<times> bool" where
  "heartbeat_thread_turn now thread owner ttl d =
    (let expires = now + clamp_ttl ttl in
     case map_of d thread of
       None \<Rightarrow> (d, False)
     | Some c \<Rightarrow> if te_owner c \<noteq> owner \<or> te_expires c \<le> now then (d, False)
                 else (AList.update thread (c\<lparr>te_expires := expires\<rparr>) d, True))"

definition release_thread_turn :: "string \<Rightarrow> string \<Rightarrow> turn_locks \<Rightarrow> turn_locks" where
  "release_thread_turn thread owner d = (case map_of d thread of
     None \<Rightarrow> d
   | Some c \<Rightarrow> if te_owner c = owner then AList.delete thread d else d)"

definition memory_turns :: "turn_locks turn_backend" where
  "memory_turns = \<lparr>tb_acquire = acquire_thread_turn,
     tb_heartbeat = (\<lambda>now t ow ttl d. Inr (heartbeat_thread_turn now t ow ttl d)),
     tb_release = release_thread_turn\<rparr>"

text \<open>Who holds a thread at a time, if anyone.\<close>

definition turn_holder :: "turn_locks \<Rightarrow> real \<Rightarrow> string \<Rightarrow> string option" where
  "turn_holder d now thread = (case map_of d thread of
     None \<Rightarrow> None | Some c \<Rightarrow> if now < te_expires c then Some (te_owner c) else None)"

section \<open>The client\<close>

record lease_manager =
  lm_thread :: string
  lm_ttl :: real
  lm_interval :: real
  lm_lease :: "string option"
  lm_lost :: "py_error option"
  lm_stopped :: bool
  lm_closed :: bool

definition lease_manager_init :: "string \<Rightarrow> real \<Rightarrow> real \<Rightarrow> lease_manager" where
  "lease_manager_init thread ttl interval =
    \<lparr>lm_thread = thread, lm_ttl = clamp_ttl ttl, lm_interval = clamp_ttl interval, lm_lease = None,
     lm_lost = None, lm_stopped = False, lm_closed = False\<rparr>"

definition busy_message :: string where
  "busy_message = ''This thread is still processing the previous turn. Please wait for it to finish before sending another message.''"

definition lease_acquire :: "'s turn_backend \<Rightarrow> real \<Rightarrow> string \<Rightarrow> 's \<times> lease_manager \<Rightarrow> ('s \<times> lease_manager) \<times> (py_error + unit)" where
  "lease_acquire B now owner sm = (case sm of (s, m) \<Rightarrow>
     if lm_lease m \<noteq> None then ((s, m), Inr ())
     else (case tb_acquire B now (lm_thread m) owner (lm_ttl m) s of
        (s', True) \<Rightarrow> ((s', m\<lparr>lm_lease := Some owner\<rparr>), Inr ())
      | (s', False) \<Rightarrow> ((s', m), Inl (ConcurrentTurnError busy_message))))"

definition mark_lost :: "py_error \<Rightarrow> lease_manager \<Rightarrow> lease_manager" where
  "mark_lost e m = (if lm_lost m = None then m\<lparr>lm_lost := Some e\<rparr> else m)"

definition heartbeat_once :: "'s turn_backend \<Rightarrow> real \<Rightarrow> 's \<times> lease_manager \<Rightarrow> ('s \<times> lease_manager) \<times> bool" where
  "heartbeat_once B now sm = (case sm of (s, m) \<Rightarrow> (case lm_lease m of
     None \<Rightarrow> ((s, m), False)
   | Some owner \<Rightarrow>
      if lm_lost m \<noteq> None then ((s, m), False)
      else (case tb_heartbeat B now (lm_thread m) owner (lm_ttl m) s of
          Inl e \<Rightarrow> ((s, mark_lost (ThreadTurnLeaseLost (''Thread turn lock heartbeat failed for thread '' @ lm_thread m @ '': '' @ e)) m), False)
        | Inr (s', False) \<Rightarrow> ((s', mark_lost (ThreadTurnLeaseLost (''Thread turn lock heartbeat was lost for thread '' @ lm_thread m @ ''.'')) m), False)
        | Inr (s', True) \<Rightarrow> ((s', m), True))))"

definition raise_if_lost :: "lease_manager \<Rightarrow> py_error + unit" where
  "raise_if_lost m = (case lm_lost m of None \<Rightarrow> Inr () | Some e \<Rightarrow> Inl e)"

definition lease_close :: "'s turn_backend \<Rightarrow> 's \<times> lease_manager \<Rightarrow> 's \<times> lease_manager" where
  "lease_close B sm = (case sm of (s, m) \<Rightarrow> (case lm_lease m of
     None \<Rightarrow> (s, m)
   | Some owner \<Rightarrow> (tb_release B (lm_thread m) owner s,
        m\<lparr>lm_stopped := True, lm_lease := None, lm_closed := True\<rparr>)))"

text \<open>
  The heartbeat thread's loop: it beats at the given times until it is told to stop (the list ends)
  or a beat fails.
\<close>

fun heartbeat_loop :: "'s turn_backend \<Rightarrow> real list \<Rightarrow> 's \<times> lease_manager \<Rightarrow> 's \<times> lease_manager" where
  "heartbeat_loop B [] sm = sm"
| "heartbeat_loop B (t # ts) sm =
    (case heartbeat_once B t sm of (sm', ok) \<Rightarrow> if ok then heartbeat_loop B ts sm' else sm')"

section \<open>The contract of a backend\<close>

datatype turn_op =
    TurnAcquire real string string real
  | TurnHeartbeat real string string real
  | TurnRelease real string string

fun turn_time :: "turn_op \<Rightarrow> real" where
  "turn_time (TurnAcquire t th ow ttl) = t"
| "turn_time (TurnHeartbeat t th ow ttl) = t"
| "turn_time (TurnRelease t th ow) = t"

fun turn_owner :: "turn_op \<Rightarrow> string" where
  "turn_owner (TurnAcquire t th ow ttl) = ow"
| "turn_owner (TurnHeartbeat t th ow ttl) = ow"
| "turn_owner (TurnRelease t th ow) = ow"

text \<open>An operation's new state and whether it answered \<open>True\<close>; one that raised changed nothing.\<close>

fun turn_exec :: "'s turn_backend \<Rightarrow> 's \<Rightarrow> turn_op \<Rightarrow> 's \<times> bool" where
  "turn_exec B s (TurnAcquire t th ow ttl) = tb_acquire B t th ow ttl s"
| "turn_exec B s (TurnHeartbeat t th ow ttl) = (case tb_heartbeat B t th ow ttl s of Inl e \<Rightarrow> (s, False) | Inr r \<Rightarrow> r)"
| "turn_exec B s (TurnRelease t th ow) = (tb_release B th ow s, False)"

fun turn_run :: "'s turn_backend \<Rightarrow> 's \<Rightarrow> turn_op list \<Rightarrow> 's \<times> bool list" where
  "turn_run B s [] = (s, [])"
| "turn_run B s (x # xs) = (let (s1, r) = turn_exec B s x; (s2, rs) = turn_run B s1 xs in (s2, r # rs))"

text \<open>Does the operation ask for the thread on behalf of someone?\<close>

fun claims_turn :: "string \<Rightarrow> turn_op \<Rightarrow> bool" where
  "claims_turn th (TurnAcquire t th' ow ttl) = (th' = th)"
| "claims_turn th (TurnHeartbeat t th' ow ttl) = (th' = th)"
| "claims_turn th (TurnRelease t th' ow) = False"

locale turn_lock =
  fixes B :: "'s turn_backend" and holder :: "'s \<Rightarrow> real \<Rightarrow> string \<Rightarrow> string option"
  assumes acquire_answer: "snd (tb_acquire B now th ow ttl s) \<longleftrightarrow> holder s now th = None \<or> holder s now th = Some ow"
    and acquire_refused: "\<not> snd (tb_acquire B now th ow ttl s) \<Longrightarrow> fst (tb_acquire B now th ow ttl s) = s"
    and acquire_lease: "snd (tb_acquire B now th ow ttl s) \<Longrightarrow> now \<le> t \<Longrightarrow>
      holder (fst (tb_acquire B now th ow ttl s)) t th = (if t < now + clamp_ttl ttl then Some ow else None)"
    and acquire_frame: "th' \<noteq> th \<Longrightarrow> holder (fst (tb_acquire B now th ow ttl s)) t th' = holder s t th'"
    and beat_answer: "tb_heartbeat B now th ow ttl s = Inr r \<Longrightarrow> snd r \<longleftrightarrow> holder s now th = Some ow"
    and beat_refused: "tb_heartbeat B now th ow ttl s = Inr r \<Longrightarrow> \<not> snd r \<Longrightarrow> fst r = s"
    and beat_lease: "tb_heartbeat B now th ow ttl s = Inr r \<Longrightarrow> snd r \<Longrightarrow> now \<le> t \<Longrightarrow>
      holder (fst r) t th = (if t < now + clamp_ttl ttl then Some ow else None)"
    and beat_frame: "tb_heartbeat B now th ow ttl s = Inr r \<Longrightarrow> th' \<noteq> th \<Longrightarrow> holder (fst r) t th' = holder s t th'"
    and release_holder: "holder (tb_release B th ow s) t th' =
      (if th' = th \<and> holder s t th = Some ow then None else holder s t th')"
begin

text \<open>Nothing another owner does takes a lease away before it expires.\<close>

lemma others_step:
  assumes "\<forall>t. t0 \<le> t \<and> t < e \<longrightarrow> holder s t th = Some ow" "turn_owner x \<noteq> ow" "t0 \<le> turn_time x" "turn_time x < e"
  shows "(claims_turn th x \<longrightarrow> \<not> snd (turn_exec B s x)) \<and>
    (\<forall>t. t0 \<le> t \<and> t < e \<longrightarrow> holder (fst (turn_exec B s x)) t th = Some ow)"
proof (cases x)
  case (TurnAcquire t th' ow' ttl)
  have "holder s t th = Some ow" using assms(1,3,4) TurnAcquire by simp
  then have "th' = th \<longrightarrow> \<not> snd (tb_acquire B t th' ow' ttl s)"
    using acquire_answer assms(2) TurnAcquire by auto
  then show ?thesis
    using acquire_refused acquire_frame assms(1) TurnAcquire by (cases "th' = th") auto
next
  case (TurnHeartbeat t th' ow' ttl)
  have h: "holder s t th = Some ow" using assms(1,3,4) TurnHeartbeat by simp
  show ?thesis
  proof (cases "tb_heartbeat B t th' ow' ttl s")
    case (Inl e)
    then show ?thesis using assms(1) TurnHeartbeat by (cases "th' = th") simp_all
  next
    case (Inr r)
    have "th' = th \<longrightarrow> \<not> snd r" using beat_answer [OF Inr] h assms(2) TurnHeartbeat by auto
    then show ?thesis
      using beat_refused [OF Inr] beat_frame [OF Inr] assms(1) TurnHeartbeat Inr by (cases "th' = th") auto
  qed
next
  case (TurnRelease t th' ow')
  then show ?thesis using assms(1,2) release_holder by auto
qed

lemma others_excluded:
  assumes "\<forall>t. t0 \<le> t \<and> t < e \<longrightarrow> holder s t th = Some ow"
    and "\<forall>x \<in> set ops. turn_owner x \<noteq> ow \<and> t0 \<le> turn_time x \<and> turn_time x < e"
  shows "(\<forall>i < length ops. claims_turn th (ops ! i) \<longrightarrow> \<not> snd (turn_run B s ops) ! i) \<and>
    (\<forall>t. t0 \<le> t \<and> t < e \<longrightarrow> holder (fst (turn_run B s ops)) t th = Some ow)"
  using assms
proof (induction ops arbitrary: s)
  case Nil
  then show ?case by simp
next
  case (Cons x xs)
  note st = others_step [OF Cons.prems(1), of x]
  have "\<forall>t. t0 \<le> t \<and> t < e \<longrightarrow> holder (fst (turn_exec B s x)) t th = Some ow" using st Cons.prems(2) by simp
  note IH = Cons.IH [OF this]
  show ?case using st IH Cons.prems(2) by (auto simp: split_beta nth_Cons split: nat.splits)
qed

lemma lease_excludes_others:
  assumes "snd (tb_acquire B t0 th ow ttl s)"
    and "\<forall>x \<in> set ops. turn_owner x \<noteq> ow \<and> t0 \<le> turn_time x \<and> turn_time x < t0 + clamp_ttl ttl"
  shows "(\<forall>i < length ops. claims_turn th (ops ! i) \<longrightarrow> \<not> snd (turn_run B (fst (tb_acquire B t0 th ow ttl s)) ops) ! i) \<and>
    (\<forall>t. t0 \<le> t \<and> t < t0 + clamp_ttl ttl \<longrightarrow> holder (fst (turn_run B (fst (tb_acquire B t0 th ow ttl s)) ops)) t th = Some ow)"
proof -
  have "\<forall>t. t0 \<le> t \<and> t < t0 + clamp_ttl ttl \<longrightarrow> holder (fst (tb_acquire B t0 th ow ttl s)) t th = Some ow"
    using acquire_lease [OF assms(1)] by simp
  then show ?thesis using assms(2) by (rule others_excluded)
qed

text \<open>A successful beat of the client means that it holds the thread, and for another TTL.\<close>

lemma heartbeat_once_holds:
  assumes "heartbeat_once B now (s, m) = ((s', m'), True)" "now \<le> t" "t < now + clamp_ttl (lm_ttl m)"
  shows "\<exists>ow. lm_lease m = Some ow \<and> m' = m \<and> lm_lost m = None \<and> holder s now (lm_thread m) = Some ow \<and>
    holder s' t (lm_thread m) = Some ow"
proof -
  obtain ow where ow: "lm_lease m = Some ow" "lm_lost m = None" "m' = m"
    "tb_heartbeat B now (lm_thread m) ow (lm_ttl m) s = Inr (s', True)"
    using assms(1) by (auto simp: heartbeat_once_def split: option.splits if_splits sum.splits prod.splits bool.splits)
  then show ?thesis using beat_answer [OF ow(4)] beat_lease [OF ow(4)] assms(2,3) by simp
qed

lemma heartbeat_once_lost:
  assumes "heartbeat_once B now (s, m) = ((s', m'), False)" "lm_lease m \<noteq> None"
  shows "s' = s \<and> raise_if_lost m' \<noteq> Inr () \<and> (lm_lost m \<noteq> None \<longrightarrow> m' = m)"
  using assms beat_refused
  by (fastforce simp: heartbeat_once_def mark_lost_def raise_if_lost_def split: option.splits if_splits sum.splits prod.splits bool.splits)

text \<open>Closing a manager whose turn was taken over leaves the new owner's lease alone.\<close>

lemma lease_close_spares_others:
  assumes "lm_lease m = Some ow" "holder s t th = Some ow'" "ow' \<noteq> ow \<or> th \<noteq> lm_thread m"
  shows "holder (fst (lease_close B (s, m))) t th = Some ow'"
  using assms release_holder by (auto simp: lease_close_def)

lemma lease_close_frees:
  assumes "lm_lease m = Some ow" "holder s t (lm_thread m) = Some ow"
  shows "holder (fst (lease_close B (s, m))) t (lm_thread m) = None"
  using assms release_holder by (simp add: lease_close_def)

end

section \<open>The in-memory backend keeps the contract\<close>

interpretation memory_turn: turn_lock memory_turns turn_holder
  by unfold_locales
    (auto simp: memory_turns_def acquire_thread_turn_def heartbeat_thread_turn_def release_thread_turn_def
      turn_holder_def Let_def split: option.splits if_splits)

section \<open>Properties\<close>

text \<open>C3: a granted turn excludes everyone else for its TTL. Whatever requests, heartbeats and
  releases other owners send, for this thread and for others, until the TTL of a granted turn is
  over each of their requests and heartbeats for the thread is refused, and the owner still holds
  it.\<close>

theorem turn_excludes_others:
  assumes "acquire_thread_turn t0 th ow ttl d = (d', True)"
    and "\<forall>x \<in> set ops. turn_owner x \<noteq> ow \<and> t0 \<le> turn_time x \<and> turn_time x < t0 + clamp_ttl ttl"
  shows "(\<forall>i < length ops. claims_turn th (ops ! i) \<longrightarrow> \<not> snd (turn_run memory_turns d' ops) ! i) \<and>
    (\<forall>t. t0 \<le> t \<and> t < t0 + clamp_ttl ttl \<longrightarrow> turn_holder (fst (turn_run memory_turns d' ops)) t th = Some ow)"
  using memory_turn.lease_excludes_others [of t0 th ow ttl d ops] assms by (simp add: memory_turns_def)

text \<open>The lease manager knows when it lost its turn. A heartbeat of the manager answers True
  exactly when it has a lease, has not lost it before, and holds the thread at that moment; then it
  holds it for another TTL. Otherwise the lock is untouched, and a manager with a lease raises from
  \<open>raise_if_lost\<close> from then on, with the error of its first loss.\<close>

lemma heartbeat_once_exact:
  assumes "heartbeat_once memory_turns now (d, m) = ((d', m'), ok)"
  shows "(ok \<longleftrightarrow> lm_lost m = None \<and> (\<exists>ow. lm_lease m = Some ow \<and> turn_holder d now (lm_thread m) = Some ow)) \<and>
    (ok \<longrightarrow> m' = m \<and> (\<forall>t. now \<le> t \<and> t < now + clamp_ttl (lm_ttl m) \<longrightarrow> turn_holder d' t (lm_thread m) = lm_lease m)) \<and>
    (\<not> ok \<longrightarrow> d' = d \<and> (lm_lease m \<noteq> None \<longrightarrow> raise_if_lost m' \<noteq> Inr () \<and> (lm_lost m \<noteq> None \<longrightarrow> m' = m)))"
proof (cases ok)
  case True
  have now: "now < now + clamp_ttl (lm_ttl m)" by simp
  have yes: "heartbeat_once memory_turns now (d, m) = ((d', m'), True)" using assms True by simp
  obtain ow where ow: "lm_lease m = Some ow" "m' = m" "lm_lost m = None" "turn_holder d now (lm_thread m) = Some ow"
    using memory_turn.heartbeat_once_holds [OF yes order_refl now] by blast
  have "turn_holder d' t (lm_thread m) = Some ow" if "now \<le> t" "t < now + clamp_ttl (lm_ttl m)" for t
    using memory_turn.heartbeat_once_holds [OF yes that] ow(1) by auto
  then show ?thesis using ow True by simp
next
  case False
  then have no: "heartbeat_once memory_turns now (d, m) = ((d', m'), False)" using assms by simp
  have "d' = d" using memory_turn.heartbeat_once_lost [OF no] no
    by (cases "lm_lease m") (simp_all add: heartbeat_once_def)
  moreover have "\<not> (lm_lost m = None \<and> (\<exists>ow. lm_lease m = Some ow \<and> turn_holder d now (lm_thread m) = Some ow))"
    using no by (auto simp: heartbeat_once_def memory_turns_def heartbeat_thread_turn_def turn_holder_def Let_def
        split: option.splits if_splits)
  ultimately show ?thesis using memory_turn.heartbeat_once_lost [OF no] False by blast
qed

text \<open>Closing gives back one's own turn only. \<open>close\<close> frees the thread if the manager's owner
  holds it, leaves the lease of anyone who took the thread over, and every other thread, alone; a
  second \<open>close\<close> does nothing.\<close>

lemma lease_close_own_turn:
  assumes "lm_lease m = Some ow" "lease_close memory_turns (d, m) = (d', m')"
  shows "(\<forall>t. turn_holder d t (lm_thread m) = Some ow \<longrightarrow> turn_holder d' t (lm_thread m) = None) \<and>
    (\<forall>t th ow'. turn_holder d t th = Some ow' \<and> (ow' \<noteq> ow \<or> th \<noteq> lm_thread m) \<longrightarrow> turn_holder d' t th = Some ow') \<and>
    lm_lease m' = None \<and> lease_close memory_turns (d', m') = (d', m')"
proof -
  have d: "d' = fst (lease_close memory_turns (d, m))" and m': "lm_lease m' = None"
    using assms by (auto simp: lease_close_def)
  then show ?thesis
    using memory_turn.lease_close_spares_others [OF assms(1)] memory_turn.lease_close_frees [OF assms(1)]
    by (auto simp: lease_close_def)
qed

definition ex_manager :: lease_manager where
  "ex_manager = (lease_manager_init ''t'' 10 3)\<lparr>lm_lease := Some ''a''\<rparr>"

theorem turn_excludes_others_witness:
  "\<not> snd (turn_run memory_turns [(''t'', \<lparr>te_owner = ''a'', te_expires = 15\<rparr>)] [TurnAcquire 7 ''t'' ''b'' 10]) ! 0"
proof -
  have "acquire_thread_turn 5 ''t'' ''a'' 10 [] = ([(''t'', \<lparr>te_owner = ''a'', te_expires = 15\<rparr>)], True)"
    by (simp add: acquire_thread_turn_def clamp_ttl_def)
  from turn_excludes_others [OF this, of "[TurnAcquire 7 ''t'' ''b'' 10]"] show ?thesis
    by (simp add: clamp_ttl_def)
qed

theorem heartbeat_once_exact_witness:
  "\<exists>m'. heartbeat_once memory_turns 20 ([(''t'', \<lparr>te_owner = ''b'', te_expires = 25\<rparr>)], ex_manager) =
     (([(''t'', \<lparr>te_owner = ''b'', te_expires = 25\<rparr>)], m'), False) \<and> raise_if_lost m' \<noteq> Inr ()"
proof -
  obtain m' where b: "heartbeat_once memory_turns 20 ([(''t'', \<lparr>te_owner = ''b'', te_expires = 25\<rparr>)], ex_manager) =
     (([(''t'', \<lparr>te_owner = ''b'', te_expires = 25\<rparr>)], m'), False)"
    by (simp add: heartbeat_once_def ex_manager_def lease_manager_init_def memory_turns_def heartbeat_thread_turn_def Let_def)
  have "lm_lease ex_manager \<noteq> None" by (simp add: ex_manager_def)
  with heartbeat_once_exact [OF b] b show ?thesis by blast
qed

theorem lease_close_own_turn_witness:
  "turn_holder (fst (lease_close memory_turns ([(''t'', \<lparr>te_owner = ''b'', te_expires = 25\<rparr>)], ex_manager))) 20 ''t'' = Some ''b''"
proof -
  let ?d = "[(''t'', \<lparr>te_owner = ''b'', te_expires = 25\<rparr>)]"
  obtain d' m' where c: "lease_close memory_turns (?d, ex_manager) = (d', m')" by fastforce
  have l: "lm_lease ex_manager = Some ''a''" by (simp add: ex_manager_def)
  have h: "turn_holder ?d 20 ''t'' = Some ''b'' \<and> (''b'' \<noteq> ''a'' \<or> ''t'' \<noteq> lm_thread ex_manager)"
    by (simp add: turn_holder_def)
  from lease_close_own_turn [OF l c] h c show ?thesis by (metis fst_conv)
qed

end
