(* ===== verification/BackgroundJobs.thy ===== *)
theory BackgroundJobs
  imports Prelude
begin

text \<open>
  The in-memory queue of background jobs: \<open>InMemoryBackgroundJobDeduperBackend\<close> of
  \<open>src/focus_agent/services/coordination_memory.py\<close>, and \<open>BackgroundJobSpec\<close> and
  \<open>BackgroundJobClaim\<close> of \<open>coordination_models.py\<close>.

  Two clocks are read: the monotonic one (\<open>now\<close>) and UTC (\<open>utc\<close>, in seconds). Several readings of
  a clock within one call are taken to be equal. Claim tokens (\<open>uuid4\<close>) are arguments.
\<close>

record job_spec =
  js_kind :: string
  js_key :: string
  js_payload :: "(string, pyval) dict"
  js_run_at :: real
  js_max_attempts :: int
  js_dedupe :: string
  js_idempotency :: "string option"

record job_claim =
  jc_token :: string
  jc_owner :: string
  jc_attempt :: int

datatype job_status = Job_pending | Job_retrying | Job_running | Job_succeeded | Job_released | Job_dead_lettered

record job =
  jb_spec :: job_spec
  jb_status :: job_status
  jb_created :: real
  jb_updated :: real
  jb_attempt :: int
  jb_claim :: "job_claim option"
  jb_until :: real
  jb_heartbeat :: real
  jb_failed :: real
  jb_dead :: real
  jb_error :: "string option"

record deduper =
  dd_keys :: "string list"
  dd_jobs :: "(string, job) dict"
  dd_owner :: string
  dd_base :: real
  dd_max :: real

section \<open>Specifications\<close>

definition or_default :: "string \<Rightarrow> string \<Rightarrow> string" where
  "or_default s z = (if s = [] then z else s)"

definition job_spec_post_init :: "real \<Rightarrow> string \<Rightarrow> string \<Rightarrow> (string, pyval) dict \<Rightarrow> real option \<Rightarrow> int \<Rightarrow> string \<Rightarrow>
    string option \<Rightarrow> py_error + job_spec" where
  "job_spec_post_init utc kind key payload run_at max_attempts dedupe idem =
    (let kind' = py_strip kind; key' = py_strip key in
     if kind' = [] then Inl (ValueError ''background job kind is required'')
     else if key' = [] then Inl (ValueError ''background job key is required'')
     else
       let policy = py_lower (py_strip (or_default dedupe ''skip'')) in
       if policy \<notin> {''skip'', ''replace''}
       then Inl (ValueError (''unsupported background job dedupe policy: '' @ policy))
       else
         let i = py_strip (case idem of None \<Rightarrow> key' | Some x \<Rightarrow> or_default x key') in
         Inr \<lparr>js_kind = kind', js_key = key', js_payload = payload,
              js_run_at = (case run_at of None \<Rightarrow> utc | Some t \<Rightarrow> t),
              js_max_attempts = max 1 max_attempts, js_dedupe = policy,
              js_idempotency = (if i = [] then None else Some i)\<rparr>)"

section \<open>Transitions of one job\<close>

definition deduper_init :: "string \<Rightarrow> real \<Rightarrow> real \<Rightarrow> deduper" where
  "deduper_init owner base mx = (let b = max base 0 in
    \<lparr>dd_keys = [], dd_jobs = [], dd_owner = owner, dd_base = b, dd_max = max mx b\<rparr>)"

definition new_job :: "real \<Rightarrow> job_spec \<Rightarrow> job" where
  "new_job now spec = \<lparr>jb_spec = spec, jb_status = Job_pending, jb_created = now, jb_updated = now, jb_attempt = 0,
     jb_claim = None, jb_until = 0, jb_heartbeat = 0, jb_failed = 0, jb_dead = 0, jb_error = None\<rparr>"

definition retry_delay_seconds :: "deduper \<Rightarrow> int \<Rightarrow> real" where
  "retry_delay_seconds d attempt =
    (if dd_base d \<le> 0 then 0 else min (dd_max d) (dd_base d * 2 ^ nat (max (attempt - 1) 0)))"

definition retry_job :: "deduper \<Rightarrow> string \<Rightarrow> real \<Rightarrow> real \<Rightarrow> job \<Rightarrow> job" where
  "retry_job d err now utc j = j\<lparr>jb_status := Job_retrying, jb_claim := None, jb_until := 0,
     jb_error := Some (take 4000 err), jb_failed := now, jb_updated := now, jb_dead := 0,
     jb_spec := (jb_spec j)\<lparr>js_run_at := utc + retry_delay_seconds d (jb_attempt j)\<rparr>\<rparr>"

definition dead_letter_job :: "string \<Rightarrow> real \<Rightarrow> job \<Rightarrow> job" where
  "dead_letter_job err now j = j\<lparr>jb_status := Job_dead_lettered, jb_claim := None, jb_until := 0,
     jb_error := Some (take 4000 err), jb_failed := now, jb_dead := now, jb_updated := now\<rparr>"

definition start_claim :: "deduper \<Rightarrow> string \<Rightarrow> real \<Rightarrow> real \<Rightarrow> job \<Rightarrow> job \<times> job_claim" where
  "start_claim d token now ttl j =
    (let c = \<lparr>jc_token = token, jc_owner = dd_owner d, jc_attempt = jb_attempt j + 1\<rparr> in
     (j\<lparr>jb_attempt := jb_attempt j + 1, jb_status := Job_running, jb_claim := Some c, jb_until := now + ttl,
        jb_heartbeat := now, jb_updated := now\<rparr>, c))"

definition put_job :: "string \<Rightarrow> job \<Rightarrow> deduper \<Rightarrow> deduper" where
  "put_job k j d = d\<lparr>dd_jobs := AList.update k j (dd_jobs d)\<rparr>"

section \<open>Operations\<close>

definition anonymous_key :: "string \<Rightarrow> string" where
  "anonymous_key key = or_default key ''background:anonymous''"

definition claim_job_key :: "string \<Rightarrow> string \<Rightarrow> deduper \<Rightarrow> deduper \<times> job_claim option" where
  "claim_job_key token key d =
    (let k = anonymous_key key in
     if k \<in> set (dd_keys d) then (d, None)
     else (d\<lparr>dd_keys := k # dd_keys d\<rparr>, Some \<lparr>jc_token = token, jc_owner = dd_owner d, jc_attempt = 1\<rparr>))"

definition try_claim_job_key :: "string \<Rightarrow> string \<Rightarrow> deduper \<Rightarrow> deduper \<times> bool" where
  "try_claim_job_key token key d = (let (d', c) = claim_job_key token key d in (d', c \<noteq> None))"

definition discard_key :: "string \<Rightarrow> deduper \<Rightarrow> deduper" where
  "discard_key k d = d\<lparr>dd_keys := removeAll k (dd_keys d)\<rparr>"

definition release_job_claim :: "string \<Rightarrow> job_claim \<Rightarrow> deduper \<Rightarrow> deduper" where
  "release_job_claim k c d =
    (let d1 = discard_key k d in
     case map_of (dd_jobs d1) k of
       None \<Rightarrow> d1
     | Some j \<Rightarrow> if jc_token c = [] \<or> jb_claim j = Some c
                 then put_job k (j\<lparr>jb_status := Job_released, jb_claim := None, jb_until := 0\<rparr>) d1 else d1)"

definition release_job_key :: "string \<Rightarrow> deduper \<Rightarrow> deduper" where
  "release_job_key key d =
    release_job_claim (anonymous_key key) \<lparr>jc_token = [], jc_owner = dd_owner d, jc_attempt = 0\<rparr> d"

definition heartbeat_job_claim :: "real \<Rightarrow> string \<Rightarrow> job_claim \<Rightarrow> real \<Rightarrow> deduper \<Rightarrow> deduper \<times> bool" where
  "heartbeat_job_claim now k c ttl d = (case map_of (dd_jobs d) k of
     None \<Rightarrow> (d, False)
   | Some j \<Rightarrow>
      if jb_claim j \<noteq> Some c \<or> jb_status j \<noteq> Job_running \<or> jb_until j \<le> now then (d, False)
      else (put_job k (j\<lparr>jb_until := now + clamp_ttl ttl, jb_heartbeat := now, jb_updated := now\<rparr>) d, True))"

definition enqueue_job :: "real \<Rightarrow> job_spec \<Rightarrow> deduper \<Rightarrow> deduper \<times> bool" where
  "enqueue_job now spec d = (case map_of (dd_jobs d) (js_key spec) of
     None \<Rightarrow> (put_job (js_key spec) (new_job now spec) d, True)
   | Some cur \<Rightarrow>
      if jb_status cur \<in> {Job_pending, Job_running} \<and> js_dedupe spec \<noteq> ''replace'' then (d, False)
      else if jb_status cur = Job_running \<and> js_dedupe spec = ''replace'' then (d, False)
      else (put_job (js_key spec) (new_job now spec) d, True))"

definition claim_expired_job :: "real \<Rightarrow> job \<Rightarrow> bool" where
  "claim_expired_job now j = (jb_status j = Job_running \<and> jb_until j \<le> now)"

definition due_pending :: "real \<Rightarrow> real \<Rightarrow> job \<Rightarrow> bool" where
  "due_pending now utc j = (jb_status j \<in> {Job_pending, Job_retrying} \<and> js_run_at (jb_spec j) \<le> utc \<and>
     (jb_claim j = None \<or> jb_until j \<le> now))"

text \<open>The loop of \<open>claim_next_job\<close> over the sorted keys.\<close>

fun claim_loop :: "string list \<Rightarrow> string set \<Rightarrow> string \<Rightarrow> real \<Rightarrow> real \<Rightarrow> real \<Rightarrow> deduper \<Rightarrow>
    deduper \<times> (job_spec \<times> job_claim) option" where
  "claim_loop [] kinds token now utc ttl d = (d, None)"
| "claim_loop (k # ks) kinds token now utc ttl d = (case map_of (dd_jobs d) k of
     None \<Rightarrow> claim_loop ks kinds token now utc ttl d
   | Some j \<Rightarrow>
      if js_kind (jb_spec j) \<notin> kinds then claim_loop ks kinds token now utc ttl d
      else if claim_expired_job now j \<and> js_max_attempts (jb_spec j) \<le> jb_attempt j
      then claim_loop ks kinds token now utc ttl
             (put_job k (dead_letter_job ''claim expired after max attempts'' now j) d)
      else
        let j1 = (if claim_expired_job now j then retry_job d ''claim expired before completion'' now utc j else j) in
        if \<not> due_pending now utc j1 then claim_loop ks kinds token now utc ttl (put_job k j1 d)
        else if js_max_attempts (jb_spec j1) \<le> jb_attempt j1
        then claim_loop ks kinds token now utc ttl (put_job k (dead_letter_job ''max attempts exhausted'' now j1) d)
        else (let (j2, c) = start_claim d token now ttl j1 in (put_job k j2 d, Some (jb_spec j2, c))))"

text \<open>\<open>{str(kind) for kind in allowed_kinds if str(kind or "").strip()}\<close>; a missing TTL means 300 s.\<close>

definition claim_next_job :: "string list \<Rightarrow> real option \<Rightarrow> string \<Rightarrow> real \<Rightarrow> real \<Rightarrow> deduper \<Rightarrow>
    deduper \<times> (job_spec \<times> job_claim) option" where
  "claim_next_job allowed_kinds claim_ttl token now utc d =
    (let kinds = set (filter (\<lambda>k. py_strip k \<noteq> []) allowed_kinds);
         ttl = max (case claim_ttl of None \<Rightarrow> 300 | Some t \<Rightarrow> if t = 0 then 300 else t) 1
     in if kinds = {} then (d, None) else claim_loop (sort (keys (dd_jobs d))) kinds token now utc ttl d)"

definition mark_job_claim_running :: "real \<Rightarrow> string \<Rightarrow> job_claim \<Rightarrow> deduper \<Rightarrow> deduper" where
  "mark_job_claim_running now k c d = (case map_of (dd_jobs d) k of
     None \<Rightarrow> d
   | Some j \<Rightarrow> if jb_claim j = Some c \<and> jb_status j \<in> {Job_pending, Job_running} \<and> now < jb_until j
               then put_job k (j\<lparr>jb_status := Job_running, jb_heartbeat := now, jb_updated := now\<rparr>) d else d)"

definition mark_job_claim_succeeded :: "real \<Rightarrow> string \<Rightarrow> job_claim \<Rightarrow> deduper \<Rightarrow> deduper" where
  "mark_job_claim_succeeded now k c d = (case map_of (dd_jobs d) k of
     None \<Rightarrow> d
   | Some j \<Rightarrow> if jb_claim j = Some c \<and> jb_status j = Job_running \<and> now < jb_until j
               then put_job k (j\<lparr>jb_status := Job_succeeded, jb_claim := None, jb_until := 0, jb_error := None,
                      jb_updated := now\<rparr>) d else d)"

definition mark_job_claim_failed :: "real \<Rightarrow> real \<Rightarrow> string \<Rightarrow> job_claim \<Rightarrow> string \<Rightarrow> deduper \<Rightarrow> deduper" where
  "mark_job_claim_failed now utc k c err d = (case map_of (dd_jobs d) k of
     None \<Rightarrow> d
   | Some j \<Rightarrow> if jb_claim j = Some c \<and> jb_status j = Job_running
               then (if js_max_attempts (jb_spec j) \<le> jb_attempt j
                     then put_job k (dead_letter_job (take 4000 err) now j) d
                     else put_job k (retry_job d (take 4000 err) now utc j) d) else d)"

definition mark_job_succeeded :: "string \<Rightarrow> deduper \<Rightarrow> deduper" where
  "mark_job_succeeded k d = discard_key k d"

definition mark_job_failed :: "string \<Rightarrow> deduper \<Rightarrow> deduper" where
  "mark_job_failed k d = discard_key k d"

definition replay_dead_letter_job :: "real \<Rightarrow> real \<Rightarrow> string \<Rightarrow> deduper \<Rightarrow> deduper \<times> bool" where
  "replay_dead_letter_job now utc key d =
    (let k = py_strip key in
     if k = [] then (d, False)
     else (case map_of (dd_jobs d) k of
        None \<Rightarrow> (d, False)
      | Some j \<Rightarrow>
         if jb_status j \<noteq> Job_dead_lettered then (d, False)
         else (put_job k (j\<lparr>jb_status := Job_pending, jb_attempt := 0, jb_claim := None, jb_until := 0,
                 jb_error := None, jb_failed := 0, jb_dead := 0, jb_updated := now,
                 jb_spec := (jb_spec j)\<lparr>js_run_at := utc\<rparr>\<rparr>) d, True)))"

section \<open>Reports\<close>

text \<open>\<open>a or b\<close> on times: 0.0 is falsy.\<close>

definition or_time :: "real \<Rightarrow> real \<Rightarrow> real" where
  "or_time a b = (if a = 0 then b else a)"

definition age :: "real \<Rightarrow> real list \<Rightarrow> int" where
  "age now ts = (case ts of [] \<Rightarrow> 0 | t # us \<Rightarrow> \<lfloor>max 0 (now - fold min us t)\<rfloor>)"

record job_counts =
  ct_pending :: nat
  ct_retrying :: nat
  ct_running :: nat
  ct_succeeded :: nat
  ct_released :: nat
  ct_dead_lettered :: nat
  ct_attempts :: int
  ct_oldest_pending :: int
  ct_oldest_retry :: int
  ct_oldest_dead :: int

definition with_status :: "job_status \<Rightarrow> deduper \<Rightarrow> job list" where
  "with_status st d = filter (\<lambda>j. jb_status j = st) (vals (dd_jobs d))"

definition job_snapshot :: "real \<Rightarrow> deduper \<Rightarrow> job_counts" where
  "job_snapshot now d =
    \<lparr>ct_pending = length (dd_keys d) + length (with_status Job_pending d),
     ct_retrying = length (with_status Job_retrying d),
     ct_running = length (with_status Job_running d),
     ct_succeeded = length (with_status Job_succeeded d),
     ct_released = length (with_status Job_released d),
     ct_dead_lettered = length (with_status Job_dead_lettered d),
     ct_attempts = sum_list (map jb_attempt (vals (dd_jobs d))),
     ct_oldest_pending = age now (map jb_created (with_status Job_pending d)),
     ct_oldest_retry = age now (map (\<lambda>j. or_time (jb_failed j) (jb_updated j)) (with_status Job_retrying d)),
     ct_oldest_dead = age now (map (\<lambda>j. or_time (jb_dead j) (jb_updated j)) (with_status Job_dead_lettered d))\<rparr>"

definition list_dead_letter_jobs :: "int \<Rightarrow> int \<Rightarrow> deduper \<Rightarrow> job list \<times> nat" where
  "list_dead_letter_jobs limit offset d =
    (let l = nat (max 0 (min limit 200)); off = nat (max 0 offset);
         jobs = sort_key (\<lambda>j. - or_time (jb_dead j) (jb_updated j)) (with_status Job_dead_lettered d)
     in (take l (drop off jobs), length jobs))"

section \<open>The invariant of the jobs\<close>

definition job_ok :: "job \<Rightarrow> bool" where
  "job_ok j \<longleftrightarrow> 0 \<le> jb_attempt j \<and> jb_attempt j \<le> js_max_attempts (jb_spec j) \<and> 1 \<le> js_max_attempts (jb_spec j) \<and>
     (jb_status j = Job_running \<longleftrightarrow> jb_claim j \<noteq> None) \<and>
     (jb_status j \<in> {Job_pending, Job_retrying} \<longrightarrow> jb_attempt j < js_max_attempts (jb_spec j)) \<and>
     (jb_status j = Job_dead_lettered \<longrightarrow> jb_attempt j = js_max_attempts (jb_spec j)) \<and>
     (\<forall>c. jb_claim j = Some c \<longrightarrow> jc_attempt c = jb_attempt j)"

definition jobs_ok :: "deduper \<Rightarrow> bool" where
  "jobs_ok d \<longleftrightarrow> (\<forall>k j. map_of (dd_jobs d) k = Some j \<longrightarrow> job_ok j)"

lemma lookup_put [simp]: "map_of (dd_jobs (put_job k j d)) k' = (if k' = k then Some j else map_of (dd_jobs d) k')"
  by (simp add: put_job_def)

lemma put_frame [simp]: "dd_base (put_job k j d) = dd_base d" "dd_max (put_job k j d) = dd_max d"
  "dd_owner (put_job k j d) = dd_owner d"
  by (simp_all add: put_job_def)

lemma discard_frame [simp]: "dd_jobs (discard_key k d) = dd_jobs d"
  by (simp add: discard_key_def)

lemma jobs_ok_put: "jobs_ok d \<Longrightarrow> job_ok j \<Longrightarrow> jobs_ok (put_job k j d)"
  by (simp add: jobs_ok_def)

lemma job_ok_retry: "job_ok j \<Longrightarrow> jb_attempt j < js_max_attempts (jb_spec j) \<Longrightarrow> job_ok (retry_job d e now utc j)"
  by (simp add: job_ok_def retry_job_def)

lemma job_ok_dead: "job_ok j \<Longrightarrow> js_max_attempts (jb_spec j) \<le> jb_attempt j \<Longrightarrow> job_ok (dead_letter_job e now j)"
  by (simp add: job_ok_def dead_letter_job_def)

lemma job_ok_start:
  "job_ok j \<Longrightarrow> jb_attempt j < js_max_attempts (jb_spec j) \<Longrightarrow> job_ok (fst (start_claim d token now ttl j))"
  by (simp add: job_ok_def start_claim_def Let_def)

lemma job_ok_swept:
  "job_ok j \<Longrightarrow> \<not> (claim_expired_job now j \<and> js_max_attempts (jb_spec j) \<le> jb_attempt j) \<Longrightarrow>
   job_ok (if claim_expired_job now j then retry_job d e now utc j else j)"
  by (auto intro: job_ok_retry)

lemma swept_fields [simp]:
  "js_max_attempts (jb_spec (retry_job d e now utc j)) = js_max_attempts (jb_spec j)"
  "jb_attempt (retry_job d e now utc j) = jb_attempt j"
  "js_kind (jb_spec (retry_job d e now utc j)) = js_kind (jb_spec j)"
  by (simp_all add: retry_job_def)

lemma start_fields [simp]:
  "jb_attempt (fst (start_claim d token now ttl j)) = jb_attempt j + 1"
  "jb_spec (fst (start_claim d token now ttl j)) = jb_spec j"
  "jb_status (fst (start_claim d token now ttl j)) = Job_running"
  "jb_claim (fst (start_claim d token now ttl j)) = Some (snd (start_claim d token now ttl j))"
  "jb_until (fst (start_claim d token now ttl j)) = now + ttl"
  "jc_attempt (snd (start_claim d token now ttl j)) = jb_attempt j + 1"
  by (simp_all add: start_claim_def Let_def)

text \<open>A job a worker may get now: a due one, or one whose claim expired if the retry has no delay.\<close>

definition claimable :: "deduper \<Rightarrow> string set \<Rightarrow> real \<Rightarrow> real \<Rightarrow> job \<Rightarrow> bool" where
  "claimable d kinds now utc j \<longleftrightarrow> js_kind (jb_spec j) \<in> kinds \<and>
     (jb_status j \<in> {Job_pending, Job_retrying} \<and> js_run_at (jb_spec j) \<le> utc \<or>
      claim_expired_job now j \<and> jb_attempt j < js_max_attempts (jb_spec j) \<and> retry_delay_seconds d (jb_attempt j) \<le> 0)"

text \<open>What the loop makes of a job it does not hand out.\<close>

definition passed_over :: "deduper \<Rightarrow> string set \<Rightarrow> real \<Rightarrow> real \<Rightarrow> job \<Rightarrow> job" where
  "passed_over d kinds now utc j =
    (if js_kind (jb_spec j) \<notin> kinds \<or> \<not> claim_expired_job now j then j
     else if js_max_attempts (jb_spec j) \<le> jb_attempt j then dead_letter_job ''claim expired after max attempts'' now j
     else retry_job d ''claim expired before completion'' now utc j)"

lemma job_ok_passed: "job_ok j \<Longrightarrow> job_ok (passed_over d kinds now utc j)"
  by (auto simp: passed_over_def intro: job_ok_dead job_ok_retry)

text \<open>One round of the loop: it hands the job out if it is claimable and passes it over if not.\<close>

lemma claim_loop_round:
  assumes "map_of (dd_jobs d) k = Some j" "job_ok j"
  shows "claim_loop (k # ks) kinds token now utc ttl d =
    (if claimable d kinds now utc j
     then let j1 = (if claim_expired_job now j then retry_job d ''claim expired before completion'' now utc j else j);
              (j2, c) = start_claim d token now ttl j1 in (put_job k j2 d, Some (jb_spec j2, c))
     else claim_loop ks kinds token now utc ttl
            (if js_kind (jb_spec j) \<in> kinds then put_job k (passed_over d kinds now utc j) d else d))"
proof -
  consider "js_kind (jb_spec j) \<notin> kinds"
    | "js_kind (jb_spec j) \<in> kinds" "claim_expired_job now j" "js_max_attempts (jb_spec j) \<le> jb_attempt j"
    | "js_kind (jb_spec j) \<in> kinds" "claim_expired_job now j" "jb_attempt j < js_max_attempts (jb_spec j)"
    | "js_kind (jb_spec j) \<in> kinds" "\<not> claim_expired_job now j" by linarith
  then show ?thesis
  proof cases
    case 1
    then show ?thesis using assms by (simp add: claimable_def)
  next
    case 2
    then have "\<not> claimable d kinds now utc j" by (auto simp: claimable_def claim_expired_job_def)
    with 2 show ?thesis using assms(1) by (simp add: passed_over_def)
  next
    case 3
    have due: "due_pending now utc (retry_job d ''claim expired before completion'' now utc j) \<longleftrightarrow> retry_delay_seconds d (jb_attempt j) \<le> 0"
      by (simp add: due_pending_def retry_job_def)
    have "claimable d kinds now utc j \<longleftrightarrow> retry_delay_seconds d (jb_attempt j) \<le> 0"
      using 3 by (auto simp: claimable_def claim_expired_job_def)
    with 3 due show ?thesis using assms(1) by (simp add: passed_over_def Let_def)
  next
    case 4
    have "due_pending now utc j \<longleftrightarrow> claimable d kinds now utc j"
      using 4 assms(2) by (auto simp: due_pending_def claimable_def job_ok_def)
    moreover have "due_pending now utc j \<Longrightarrow> \<not> js_max_attempts (jb_spec j) \<le> jb_attempt j"
      using assms(2) by (auto simp: due_pending_def job_ok_def)
    ultimately show ?thesis using 4 assms(1) by (simp add: passed_over_def Let_def)
  qed
qed

text \<open>Job \<open>j\<close> of key \<open>k\<close> was handed out with claim \<open>c\<close>.\<close>

definition handed_out :: "deduper \<Rightarrow> real \<Rightarrow> string \<Rightarrow> job \<Rightarrow> job_spec \<Rightarrow> job_claim \<Rightarrow> bool" where
  "handed_out d' until k j spec c \<longleftrightarrow> (\<exists>j'. map_of (dd_jobs d') k = Some j' \<and> jb_spec j' = spec \<and>
     jb_status j' = Job_running \<and> jb_claim j' = Some c \<and> jb_until j' = until \<and> jb_attempt j' = jb_attempt j + 1 \<and>
     jc_attempt c = jb_attempt j + 1 \<and> jb_attempt j + 1 \<le> js_max_attempts (jb_spec j))"

lemma claimable_cong: "dd_base d' = dd_base d \<Longrightarrow> dd_max d' = dd_max d \<Longrightarrow> claimable d' kinds now utc j = claimable d kinds now utc j"
  by (simp add: claimable_def retry_delay_seconds_def)

lemma claimable_attempt: "job_ok j \<Longrightarrow> claimable d kinds now utc j \<Longrightarrow> jb_attempt j < js_max_attempts (jb_spec j)"
  by (auto simp: claimable_def job_ok_def)

definition loop_result :: "string list \<Rightarrow> string set \<Rightarrow> real \<Rightarrow> real \<Rightarrow> real \<Rightarrow> deduper \<Rightarrow> deduper \<Rightarrow> (job_spec \<times> job_claim) option \<Rightarrow> bool" where
  "loop_result ks kinds now utc ttl d d' res = (case res of
     None \<Rightarrow> (\<forall>i \<in> set ks. \<forall>j. map_of (dd_jobs d) i = Some j \<longrightarrow> \<not> claimable d kinds now utc j)
   | Some (spec, c) \<Rightarrow> (\<exists>k j. k \<in> set ks \<and> map_of (dd_jobs d) k = Some j \<and> claimable d kinds now utc j \<and>
       (\<forall>i \<in> set ks. \<forall>x. map_of (dd_jobs d) i = Some x \<and> claimable d kinds now utc x \<longrightarrow> k \<le> i) \<and>
       handed_out d' (now + ttl) k j spec c))"

definition keeps_others :: "string set \<Rightarrow> real \<Rightarrow> real \<Rightarrow> deduper \<Rightarrow> deduper \<Rightarrow> bool" where
  "keeps_others kinds now utc d d' \<longleftrightarrow> (\<forall>k j. map_of (dd_jobs d) k = Some j \<and>
     (js_kind (jb_spec j) \<notin> kinds \<or> \<not> claimable d kinds now utc j \<and> \<not> claim_expired_job now j) \<longrightarrow>
       map_of (dd_jobs d') k = Some j)"

lemma loop_result_skip:
  assumes none: "map_of (dd_jobs d) k = None" and r: "loop_result ks kinds now utc ttl d d' res"
  shows "loop_result (k # ks) kinds now utc ttl d d' res"
proof (cases res)
  case None
  then show ?thesis using none r by (simp add: loop_result_def)
next
  case (Some p)
  obtain spec c where p: "p = (spec, c)" by (cases p)
  obtain i x where ix: "i \<in> set ks" "map_of (dd_jobs d) i = Some x" "claimable d kinds now utc x"
    "\<forall>i' \<in> set ks. \<forall>x. map_of (dd_jobs d) i' = Some x \<and> claimable d kinds now utc x \<longrightarrow> i \<le> i'"
    "handed_out d' (now + ttl) i x spec c"
    using r unfolding loop_result_def Some p option.case prod.case by blast
  have "\<forall>i' \<in> set (k # ks). \<forall>x. map_of (dd_jobs d) i' = Some x \<and> claimable d kinds now utc x \<longrightarrow> i \<le> i'"
    using ix(4) none by simp
  then show ?thesis unfolding loop_result_def Some p option.case prod.case
    using ix(1-3,5) by (intro exI [of _ i] exI [of _ x]) simp
qed

lemma claim_loop_spec:
  assumes "jobs_ok d" "sorted ks" "distinct ks" "claim_loop ks kinds token now utc ttl d = (d', res)"
  shows "loop_result ks kinds now utc ttl d d' res \<and> keeps_others kinds now utc d d' \<and> jobs_ok d'"
  using assms
proof (induction ks arbitrary: d)
  case Nil
  then show ?case by (simp add: loop_result_def keeps_others_def)
next
  case (Cons k ks)
  show ?case
  proof (cases "map_of (dd_jobs d) k")
    case None
    then have run: "claim_loop ks kinds token now utc ttl d = (d', res)" using Cons.prems(4) by simp
    have "loop_result ks kinds now utc ttl d d' res \<and> keeps_others kinds now utc d d' \<and> jobs_ok d'"
      using Cons.prems(2,3) by (intro Cons.IH [OF Cons.prems(1) _ _ run]) simp_all
    then show ?thesis using loop_result_skip [OF None] by blast
  next
    case (Some j)
    have ok: "job_ok j" using Cons.prems(1) Some by (simp add: jobs_ok_def)
    note rnd = claim_loop_round [OF Some ok, of ks kinds token now utc ttl]
    show ?thesis
    proof (cases "claimable d kinds now utc j")
      case True
      define j1 where "j1 = (if claim_expired_job now j then retry_job d ''claim expired before completion'' now utc j else j)"
      define j2 where "j2 = fst (start_claim d token now ttl j1)"
      define c where "c = snd (start_claim d token now ttl j1)"
      have r: "d' = put_job k j2 d" "res = Some (jb_spec j2, c)"
        using rnd True Cons.prems(4) by (simp_all add: j1_def [symmetric] j2_def c_def Let_def split_beta)
      have a: "jb_attempt j1 = jb_attempt j" "js_max_attempts (jb_spec j1) = js_max_attempts (jb_spec j)"
        by (simp_all add: j1_def)
      have lt: "jb_attempt j < js_max_attempts (jb_spec j)" by (rule claimable_attempt [OF ok True])
      have "job_ok j1" unfolding j1_def using job_ok_swept [OF ok] lt by simp
      then have ok2: "job_ok j2" unfolding j2_def using a lt by (intro job_ok_start) simp_all
      have h: "handed_out d' (now + ttl) k j (jb_spec j2) c"
        using a lt by (simp add: handed_out_def r(1) j2_def c_def)
      have least: "\<forall>i \<in> set (k # ks). \<forall>x. map_of (dd_jobs d) i = Some x \<and> claimable d kinds now utc x \<longrightarrow> k \<le> i"
        using Cons.prems(2) by auto
      have keep: "keeps_others kinds now utc d d'"
        using Some True by (auto simp: keeps_others_def r(1) claimable_def)
      have "loop_result (k # ks) kinds now utc ttl d d' res"
        unfolding loop_result_def r(2) option.case prod.case using Some True least h by (intro exI [of _ k] exI [of _ j]) simp
      then show ?thesis using keep jobs_ok_put [OF Cons.prems(1) ok2] by (simp add: r(1))
    next
      case False
      define d1 where "d1 = (if js_kind (jb_spec j) \<in> kinds then put_job k (passed_over d kinds now utc j) d else d)"
      have run: "claim_loop ks kinds token now utc ttl d1 = (d', res)"
        using rnd False Cons.prems(4) by (simp add: d1_def)
      have ok1: "jobs_ok d1" unfolding d1_def using jobs_ok_put [OF Cons.prems(1) job_ok_passed [OF ok]] Cons.prems(1) by simp
      have cl: "claimable d1 kinds now utc x = claimable d kinds now utc x" for x
        by (rule claimable_cong) (simp_all add: d1_def)
      have lk: "map_of (dd_jobs d1) i = map_of (dd_jobs d) i" if "i \<noteq> k" for i using that by (simp add: d1_def)
      have k: "k \<notin> set ks" using Cons.prems(3) by simp
      have IH: "loop_result ks kinds now utc ttl d1 d' res \<and> keeps_others kinds now utc d1 d' \<and> jobs_ok d'"
        using Cons.prems(2,3) by (intro Cons.IH [OF ok1 _ _ run]) simp_all
      have same: "map_of (dd_jobs d1) i = map_of (dd_jobs d) i" if "i \<in> set ks" for i
        using lk [of i] k that by metis
      have res: "loop_result (k # ks) kinds now utc ttl d d' res"
      proof (cases res)
        case None
        then show ?thesis using IH False Some same cl by (simp add: loop_result_def)
      next
        case (Some p)
        obtain spec c where p: "p = (spec, c)" by (cases p)
        obtain i x where ix: "i \<in> set ks" "map_of (dd_jobs d1) i = Some x" "claimable d1 kinds now utc x"
          "\<forall>i' \<in> set ks. \<forall>x. map_of (dd_jobs d1) i' = Some x \<and> claimable d1 kinds now utc x \<longrightarrow> i \<le> i'"
          "handed_out d' (now + ttl) i x spec c"
          using IH unfolding loop_result_def Some p option.case prod.case by blast
        have "\<forall>i' \<in> set (k # ks). \<forall>x. map_of (dd_jobs d) i' = Some x \<and> claimable d kinds now utc x \<longrightarrow> i \<le> i'"
          using ix(4) same cl False \<open>map_of (dd_jobs d) k = Some j\<close> by auto
        moreover have "map_of (dd_jobs d) i = Some x" "claimable d kinds now utc x" using ix(1-3) same cl by simp_all
        ultimately show ?thesis unfolding loop_result_def Some p option.case prod.case
          using ix(1,5) by (intro exI [of _ i] exI [of _ x]) simp
      qed
      have keep: "keeps_others kinds now utc d d'"
        unfolding keeps_others_def
      proof (intro allI impI)
        fix i x
        assume a: "map_of (dd_jobs d) i = Some x \<and>
          (js_kind (jb_spec x) \<notin> kinds \<or> \<not> claimable d kinds now utc x \<and> \<not> claim_expired_job now x)"
        have "map_of (dd_jobs d1) i = Some x"
        proof (cases "i = k")
          case True
          then have "x = j" using a Some by simp
          then have "passed_over d kinds now utc j = j" using a by (auto simp: passed_over_def)
          then show ?thesis using Some True \<open>x = j\<close> by (simp add: d1_def)
        next
          case False
          then show ?thesis using lk a by simp
        qed
        then show "map_of (dd_jobs d') i = Some x" using IH a cl unfolding keeps_others_def by blast
      qed
      show ?thesis using res keep IH by blast
    qed
  qed
qed

section \<open>Runs of the queue\<close>

datatype job_op =
    JobEnqueue real real string string "(string, pyval) dict" "real option" int string "string option"
  | JobClaimNext "string list" "real option" string real real
  | JobBeat real string job_claim real
  | JobRunning real string job_claim
  | JobSucceeded real string job_claim
  | JobFailed real real string job_claim string
  | JobReleaseClaim string job_claim
  | JobReleaseKey string
  | JobClaimKey string string
  | JobDiscard string
  | JobReplay real real string

text \<open>An enqueue builds the specification first; a rejected one enqueues nothing.\<close>

fun job_exec :: "deduper \<Rightarrow> job_op \<Rightarrow> deduper" where
  "job_exec d (JobEnqueue now utc kind key payload run_at mx dedupe idem) =
    (case job_spec_post_init utc kind key payload run_at mx dedupe idem of
       Inl e \<Rightarrow> d | Inr spec \<Rightarrow> fst (enqueue_job now spec d))"
| "job_exec d (JobClaimNext kinds ttl token now utc) = fst (claim_next_job kinds ttl token now utc d)"
| "job_exec d (JobBeat now k c ttl) = fst (heartbeat_job_claim now k c ttl d)"
| "job_exec d (JobRunning now k c) = mark_job_claim_running now k c d"
| "job_exec d (JobSucceeded now k c) = mark_job_claim_succeeded now k c d"
| "job_exec d (JobFailed now utc k c err) = mark_job_claim_failed now utc k c err d"
| "job_exec d (JobReleaseClaim k c) = release_job_claim k c d"
| "job_exec d (JobReleaseKey k) = release_job_key k d"
| "job_exec d (JobClaimKey token k) = fst (claim_job_key token k d)"
| "job_exec d (JobDiscard k) = mark_job_succeeded k d"
| "job_exec d (JobReplay now utc k) = fst (replay_dead_letter_job now utc k d)"

definition job_run :: "string \<Rightarrow> real \<Rightarrow> real \<Rightarrow> job_op list \<Rightarrow> deduper" where
  "job_run owner base mx ops = foldl job_exec (deduper_init owner base mx) ops"

lemma post_init_max: "job_spec_post_init utc kind key payload r mx dd idem = Inr spec \<Longrightarrow> 1 \<le> js_max_attempts spec"
  by (auto simp: job_spec_post_init_def Let_def split: if_splits)

lemma job_ok_new: "1 \<le> js_max_attempts spec \<Longrightarrow> job_ok (new_job now spec)"
  by (simp add: job_ok_def new_job_def)

lemma jobs_ok_enqueue: "jobs_ok d \<Longrightarrow> 1 \<le> js_max_attempts spec \<Longrightarrow> jobs_ok (fst (enqueue_job now spec d))"
  by (auto simp: enqueue_job_def intro!: jobs_ok_put job_ok_new split: option.split)

lemma jobs_ok_lookup: "jobs_ok d \<Longrightarrow> map_of (dd_jobs d) k = Some j \<Longrightarrow> job_ok j"
  by (simp add: jobs_ok_def)

lemma jobs_ok_claim_next: "jobs_ok d \<Longrightarrow> wf_dict (dd_jobs d) \<Longrightarrow> jobs_ok (fst (claim_next_job kinds ttl token now utc d))"
  by (auto simp: claim_next_job_def Let_def intro: claim_loop_spec [THEN conjunct2, THEN conjunct2, OF _ _ _ surjective_pairing])

lemma wf_claim_loop: "wf_dict (dd_jobs d) \<Longrightarrow> wf_dict (dd_jobs (fst (claim_loop ks kinds token now utc ttl d)))"
  by (induction ks arbitrary: d) (auto simp: Let_def put_job_def split_beta split: option.split)

lemma job_ok_replay:
  "job_ok j \<Longrightarrow> job_ok (j\<lparr>jb_status := Job_pending, jb_attempt := 0, jb_claim := None, jb_until := 0,
     jb_error := None, jb_failed := 0, jb_dead := 0, jb_updated := now, jb_spec := (jb_spec j)\<lparr>js_run_at := utc\<rparr>\<rparr>)"
  by (simp add: job_ok_def)

lemma job_exec_ok:
  assumes "jobs_ok d" "wf_dict (dd_jobs d)"
  shows "jobs_ok (job_exec d x) \<and> wf_dict (dd_jobs (job_exec d x))"
proof (cases x)
  case (JobEnqueue now utc kind key payload run_at mx dedupe idem)
  then show ?thesis
    using assms jobs_ok_enqueue post_init_max
    by (cases "job_spec_post_init utc kind key payload run_at mx dedupe idem")
      (auto simp: enqueue_job_def put_job_def split: option.split)
next
  case (JobClaimNext kinds ttl token now utc)
  then show ?thesis using assms jobs_ok_claim_next wf_claim_loop by (simp add: claim_next_job_def Let_def) 
next
  case (JobBeat now k c ttl)
  then show ?thesis using assms jobs_ok_lookup [OF assms(1), of k]
    by (auto simp: heartbeat_job_claim_def put_job_def split: option.split)
      (auto simp: jobs_ok_def job_ok_def)
next
  case (JobRunning now k c)
  then show ?thesis using assms jobs_ok_lookup [OF assms(1), of k]
    by (auto simp: mark_job_claim_running_def put_job_def split: option.split)
      (auto simp: jobs_ok_def job_ok_def)
next
  case (JobSucceeded now k c)
  then show ?thesis using assms jobs_ok_lookup [OF assms(1), of k]
    by (auto simp: mark_job_claim_succeeded_def put_job_def split: option.split)
      (auto simp: jobs_ok_def job_ok_def)
next
  case (JobFailed now utc k c err)
  then show ?thesis using assms jobs_ok_lookup [OF assms(1), of k]
    by (auto simp: mark_job_claim_failed_def intro!: jobs_ok_put job_ok_dead job_ok_retry split: option.split)
      (auto simp: put_job_def)
next
  case (JobReleaseClaim k c)
  then show ?thesis using assms jobs_ok_lookup [OF assms(1), of k]
    by (auto simp: release_job_claim_def Let_def put_job_def split: option.split)
      (auto simp: jobs_ok_def job_ok_def)
next
  case (JobReleaseKey k)
  then show ?thesis using assms jobs_ok_lookup [OF assms(1), of "anonymous_key k"]
    by (auto simp: release_job_key_def release_job_claim_def Let_def put_job_def split: option.split)
      (auto simp: jobs_ok_def job_ok_def)
next
  case (JobReplay now utc k)
  then show ?thesis using assms jobs_ok_lookup [OF assms(1), of "py_strip k"]
    by (auto simp: replay_dead_letter_job_def Let_def intro!: jobs_ok_put job_ok_replay split: option.split)
      (simp_all add: put_job_def)
qed (use assms in \<open>auto simp: claim_job_key_def mark_job_succeeded_def Let_def jobs_ok_def\<close>)

lemma job_run_ok: "jobs_ok (job_run owner base mx ops) \<and> wf_dict (dd_jobs (job_run owner base mx ops))"
proof (induction ops rule: rev_induct)
  case Nil
  show ?case by (simp add: job_run_def deduper_init_def jobs_ok_def Let_def)
next
  case (snoc x ops)
  then show ?case using job_exec_ok by (simp add: job_run_def)
qed

section \<open>Properties\<close>

text \<open>C12: no job is tried too often. Whatever is enqueued, claimed, reported, released or replayed,
  and in whatever order, a stored job has been started at most \<open>max_attempts\<close> times since it was
  last enqueued or replayed; it is running exactly while it has a claim, whose attempt is the job's;
  it is waiting only while it has an attempt left, and dead-lettered only when it has none.\<close>

theorem attempts_bounded:
  assumes "map_of (dd_jobs (job_run owner base mx ops)) k = Some j"
  shows "0 \<le> jb_attempt j \<and> jb_attempt j \<le> js_max_attempts (jb_spec j) \<and>
    (jb_status j = Job_running \<longleftrightarrow> jb_claim j \<noteq> None) \<and> (\<forall>c. jb_claim j = Some c \<longrightarrow> jc_attempt c = jb_attempt j) \<and>
    (jb_status j \<in> {Job_pending, Job_retrying} \<longrightarrow> jb_attempt j < js_max_attempts (jb_spec j)) \<and>
    (jb_status j = Job_dead_lettered \<longrightarrow> jb_attempt j = js_max_attempts (jb_spec j))"
  using jobs_ok_lookup [OF conjunct1 [OF job_run_ok] assms] by (simp add: job_ok_def)

text \<open>What \<open>claim_next_job\<close> hands out. In every reachable state it returns nothing exactly when no
  job of the allowed kinds can be started now, and otherwise the one with the least key, running
  under the returned claim until the TTL is over, with one more attempt than before; jobs of other
  kinds and jobs under a live claim are not touched.\<close>

lemma claim_next_job_exact:
  assumes d: "d = job_run owner base mx ops"
    and run: "claim_next_job [kind] (Some ttl) token now utc d = (d', res)" and args: "py_strip kind \<noteq> []" "1 \<le> ttl"
  shows "loop_result (keys (dd_jobs d)) {kind} now utc ttl d d' res \<and>
    (\<forall>k j. map_of (dd_jobs d) k = Some j \<and> (js_kind (jb_spec j) \<noteq> kind \<or> jb_status j = Job_running \<and> now < jb_until j) \<longrightarrow>
       map_of (dd_jobs d') k = Some j)"
proof -
  have ok: "jobs_ok d" and wf: "wf_dict (dd_jobs d)" using job_run_ok d by simp_all
  have loop: "claim_loop (sort (keys (dd_jobs d))) {kind} token now utc ttl d = (d', res)"
    using run args by (simp add: claim_next_job_def Let_def max_def split: if_splits)
  have spec: "loop_result (sort (keys (dd_jobs d))) {kind} now utc ttl d d' res \<and> keeps_others {kind} now utc d d'"
    using claim_loop_spec [OF ok _ _ loop] wf by simp
  have "claimable d {kind} now utc j \<or> claim_expired_job now j \<Longrightarrow> \<not> (jb_status j = Job_running \<and> now < jb_until j)" for j
    by (auto simp: claimable_def claim_expired_job_def)
  then have keep: "\<forall>k j. map_of (dd_jobs d) k = Some j \<and> (js_kind (jb_spec j) \<noteq> kind \<or> jb_status j = Job_running \<and> now < jb_until j) \<longrightarrow>
       map_of (dd_jobs d') k = Some j"
    using spec unfolding keeps_others_def by blast
  have "loop_result (keys (dd_jobs d)) {kind} now utc ttl d d' res"
    using spec by (simp only: loop_result_def set_sort)
  then show ?thesis using keep by blast
qed

lemma retry_delay_bounds:
  assumes "0 < dd_base d" "dd_base d \<le> dd_max d"
  shows "dd_base d \<le> retry_delay_seconds d n \<and> retry_delay_seconds d n \<le> dd_max d \<and>
    retry_delay_seconds d n \<le> retry_delay_seconds d (n + 1)"
proof -
  have one: "dd_base d \<le> dd_base d * 2 ^ m" for m using assms(1) by simp
  have "nat (max (n - 1) 0) \<le> nat (max n 0)" by simp
  then have "dd_base d * 2 ^ nat (max (n - 1) 0) \<le> dd_base d * 2 ^ nat (max n 0)"
    using assms(1) by (intro mult_left_mono power_increasing) simp_all
  then have "min (dd_max d) (dd_base d * 2 ^ nat (max (n - 1) 0)) \<le> min (dd_max d) (dd_base d * 2 ^ nat (max n 0))"
    by (rule min.mono [OF order_refl])
  moreover have "retry_delay_seconds d i = min (dd_max d) (dd_base d * 2 ^ nat (max (i - 1) 0))" for i
    using assms(1) by (simp add: retry_delay_seconds_def)
  ultimately show ?thesis using assms(2) one by simp
qed

lemma job_exec_frame: "dd_base (job_exec d x) = dd_base d \<and> dd_max (job_exec d x) = dd_max d"
proof -
  have loop: "dd_base (fst (claim_loop ks kinds token now utc ttl d)) = dd_base d \<and>
      dd_max (fst (claim_loop ks kinds token now utc ttl d)) = dd_max d" for ks kinds token now utc ttl d
    by (induction ks arbitrary: d) (auto simp: Let_def split_beta split: option.split)
  show ?thesis
    by (cases x)
      (auto simp: enqueue_job_def claim_next_job_def heartbeat_job_claim_def mark_job_claim_running_def
        mark_job_claim_succeeded_def mark_job_claim_failed_def release_job_claim_def release_job_key_def
        claim_job_key_def mark_job_succeeded_def replay_dead_letter_job_def discard_key_def Let_def loop
        split: option.split sum.split)
qed

lemma job_run_delays: "dd_base (job_run owner base mx ops) = max base 0 \<and> dd_max (job_run owner base mx ops) = max mx (max base 0)"
  by (induction ops rule: rev_induct) (simp_all add: job_run_def deduper_init_def Let_def job_exec_frame)

text \<open>Failures back off. When the current claim of a running job reports a failure, a job without
  attempts left is dead-lettered; another one waits for a delay that is at least the base delay, at
  most the maximal delay and never shorter than that of an earlier attempt, and keeps its attempts.
  A report under any other claim changes nothing.\<close>

lemma failed_job_backs_off:
  assumes d: "d = job_run owner base mx ops" and base: "0 < base"
    and j: "map_of (dd_jobs d) k = Some j"
  shows "if jb_claim j = Some c then
      (\<exists>j'. map_of (dd_jobs (mark_job_claim_failed now utc k c err d)) k = Some j' \<and> jb_claim j' = None \<and>
        jb_attempt j' = jb_attempt j \<and>
        (if jb_attempt j = js_max_attempts (jb_spec j) then jb_status j' = Job_dead_lettered
         else jb_status j' = Job_retrying \<and> js_run_at (jb_spec j') = utc + retry_delay_seconds d (jb_attempt j) \<and>
           base \<le> retry_delay_seconds d (jb_attempt j) \<and> retry_delay_seconds d (jb_attempt j) \<le> max mx base \<and>
           retry_delay_seconds d (jb_attempt j) \<le> retry_delay_seconds d (jb_attempt j + 1)))
    else mark_job_claim_failed now utc k c err d = d"
proof -
  have ok: "job_ok j" using jobs_ok_lookup [OF conjunct1 [OF job_run_ok]] j d by blast
  have b: "dd_base d = base" "dd_max d = max mx base" using job_run_delays [of owner base mx ops] base d by simp_all
  have "base \<le> retry_delay_seconds d n \<and> retry_delay_seconds d n \<le> max mx base \<and>
      retry_delay_seconds d n \<le> retry_delay_seconds d (n + 1)" for n
    using retry_delay_bounds [of d n] b base by simp
  then show ?thesis using ok j
    by (auto simp: mark_job_claim_failed_def job_ok_def dead_letter_job_def retry_job_def)
qed

text \<open>Skip does not skip a job that waits for its retry. \<open>enqueue_job\<close> treats only pending and
  running jobs as present, so enqueueing the key of a retrying job again, under the policy \<open>skip\<close>,
  replaces it by a new one: the attempts made so far, the back-off and the last error are gone.\<close>

lemma skip_resets_retrying_job:
  assumes "map_of (dd_jobs d) (js_key spec) = Some j" "jb_status j = Job_retrying" "js_dedupe spec = ''skip''"
  shows "\<exists>d'. enqueue_job now spec d = (d', True) \<and> map_of (dd_jobs d') (js_key spec) = Some (new_job now spec)"
  using assms by (simp add: enqueue_job_def)

section \<open>A queue with one job\<close>

definition ex_spec :: job_spec where
  "ex_spec = \<lparr>js_kind = ''mail'', js_key = ''k'', js_payload = [], js_run_at = 0, js_max_attempts = 3,
     js_dedupe = ''skip'', js_idempotency = Some ''k''\<rparr>"

definition ex_ops :: "job_op list" where
  "ex_ops = [JobEnqueue 1 100 ''mail'' ''k'' [] (Some 0) 3 ''skip'' None, JobClaimNext [''mail''] (Some 60) ''tok'' 2 100]"

definition ex_claim :: job_claim where
  "ex_claim = \<lparr>jc_token = ''tok'', jc_owner = ''w'', jc_attempt = 1\<rparr>"

definition ex_running :: job where
  "ex_running = (new_job 1 ex_spec)\<lparr>jb_attempt := 1, jb_status := Job_running, jb_claim := Some ex_claim,
     jb_until := 62, jb_heartbeat := 2, jb_updated := 2\<rparr>"

lemma ex_run: "dd_jobs (job_run ''w'' 5 300 ex_ops) = [(''k'', ex_running)]"
  by (simp add: job_run_def ex_ops_def deduper_init_def job_spec_post_init_def py_strip_def strip_by_def
      py_space_def py_lower_def lower_char_def or_default_def enqueue_job_def put_job_def new_job_def claim_next_job_def
      claim_expired_job_def due_pending_def start_claim_def ex_running_def ex_spec_def ex_claim_def Let_def)

theorem attempts_bounded_witness: "jb_attempt ex_running \<le> js_max_attempts (jb_spec ex_running)"
  using attempts_bounded [of "''w''" 5 300 ex_ops "''k''" ex_running] by (simp add: ex_run)

theorem claim_next_job_exact_witness:
  "\<exists>d' res. claim_next_job [''mail''] (Some 60) ''tok2'' 10 100 (job_run ''w'' 5 300 ex_ops) = (d', res) \<and>
     map_of (dd_jobs d') ''k'' = Some ex_running"
proof -
  obtain d' res where r: "claim_next_job [''mail''] (Some 60) ''tok2'' 10 100 (job_run ''w'' 5 300 ex_ops) = (d', res)"
    by fastforce
  have "py_strip ''mail'' \<noteq> []" by (simp add: py_strip_def strip_by_def py_space_def)
  from claim_next_job_exact [OF refl r this] have "map_of (dd_jobs d') ''k'' = Some ex_running"
    by (simp add: ex_run ex_running_def new_job_def)
  with r show ?thesis by blast
qed

theorem failed_job_backs_off_witness:
  "\<exists>j'. map_of (dd_jobs (mark_job_claim_failed 3 100 ''k'' ex_claim ''boom'' (job_run ''w'' 5 300 ex_ops))) ''k'' = Some j' \<and>
     jb_status j' = Job_retrying"
proof -
  have "map_of (dd_jobs (job_run ''w'' 5 300 ex_ops)) ''k'' = Some ex_running" by (simp add: ex_run)
  from failed_job_backs_off [OF refl _ this, of ex_claim 3 100 "''boom''"] show ?thesis
    by (auto simp: ex_running_def ex_spec_def new_job_def)
qed

theorem skip_resets_retrying_job_witness:
  "\<exists>d'. enqueue_job 9 ex_spec (mark_job_claim_failed 3 100 ''k'' ex_claim ''boom'' (job_run ''w'' 5 300 ex_ops)) = (d', True) \<and>
     map_of (dd_jobs d') (js_key ex_spec) = Some (new_job 9 ex_spec)"
  by (rule skip_resets_retrying_job [where j = "retry_job (job_run ''w'' 5 300 ex_ops) ''boom'' 3 100 ex_running"])
    (simp_all add: mark_job_claim_failed_def ex_run ex_running_def ex_spec_def new_job_def retry_job_def)

end
