(* ===== verification/Permissions.thy ===== *)
theory Permissions
  imports Rollback
begin

text \<open>
  Tool permissions: \<open>PermissionEvaluator\<close>, \<open>DoomLoopDetector\<close> and \<open>PermissionManager\<close> of
  \<open>src/focus_agent/harness/governance/permissions.py\<close>, with the glob matching of the standard
  library's \<open>fnmatch\<close> they use, and the roles of \<open>src/focus_agent/security/permissions.py\<close>. The
  digest of a call's arguments (JSON and SHA-256 of the standard library) is an argument.
\<close>

section \<open>Glob patterns\<close>

datatype glob_token = Star | Question | Literal char | Bracket bool "(char \<times> char) list"

text \<open>The items of a bracket expression: characters, and ranges \<open>a-b\<close>.\<close>

fun bracket_items :: "string \<Rightarrow> (char \<times> char) list" where
  "bracket_items (a # m # b # cs) =
    (if m = CHR ''-'' then (a, b) # bracket_items cs else (a, a) # bracket_items (m # b # cs))"
| "bracket_items (a # cs) = (a, a) # bracket_items cs"
| "bracket_items [] = []"

text \<open>
  The text of a bracket expression and what follows it: a \<open>!\<close> and a \<open>]\<close> at the start are part of
  it; without a closing bracket there is none.
\<close>

definition lead :: "char \<Rightarrow> string \<Rightarrow> string \<times> string" where
  "lead c cs = (if cs \<noteq> [] \<and> hd cs = c then ([c], tl cs) else ([], cs))"

definition split_bracket :: "string \<Rightarrow> (string \<times> string) option" where
  "split_bracket cs =
    (let (bang, r1) = lead (CHR ''!'') cs;
         (brk, r2) = lead (CHR '']'') r1;
         body = takeWhile (\<lambda>c. c \<noteq> CHR '']'') r2; rest = dropWhile (\<lambda>c. c \<noteq> CHR '']'') r2
     in if rest = [] then None else Some (bang @ brk @ body, tl rest))"

definition bracket_token :: "string \<Rightarrow> glob_token" where
  "bracket_token s = (let (bang, t) = lead (CHR ''!'') s in Bracket (bang \<noteq> []) (bracket_items t))"

lemma lead_shorter: "length (snd (lead c cs)) \<le> length cs"
  by (simp add: lead_def)

lemma split_bracket_shorter:
  assumes a: "split_bracket cs = Some (s, r)"
  shows "length r < length cs"
proof -
  define r1 where "r1 = snd (lead (CHR ''!'') cs)"
  define r2 where "r2 = snd (lead (CHR '']'') r1)"
  define rest where "rest = dropWhile (\<lambda>c. c \<noteq> CHR '']'') r2"
  have r: "r = tl rest" "rest \<noteq> []"
    using a by (simp_all add: split_bracket_def Let_def split_beta r1_def [symmetric] r2_def [symmetric]
        rest_def [symmetric] del: dropWhile_eq_Nil_conv split: if_splits)
  have "length rest \<le> length r2" unfolding rest_def by (rule length_dropWhile_le)
  moreover have "length r2 \<le> length r1" "length r1 \<le> length cs"
    unfolding r1_def r2_def by (rule lead_shorter)+
  moreover have "0 < length rest" by (rule length_greater_0_conv [THEN iffD2, OF r(2)])
  ultimately show ?thesis unfolding r(1) length_tl by linarith
qed

function glob_tokens :: "string \<Rightarrow> glob_token list" where
  "glob_tokens [] = []"
| "glob_tokens (c # cs) =
    (if c = CHR ''*'' then Star # glob_tokens cs
     else if c = CHR ''?'' then Question # glob_tokens cs
     else if c = CHR ''['' then (case split_bracket cs of
         None \<Rightarrow> Literal c # glob_tokens cs
       | Some (s, r) \<Rightarrow> bracket_token s # glob_tokens r)
     else Literal c # glob_tokens cs)"
  by pat_completeness auto

termination
  by (relation "measure length") (auto dest: split_bracket_shorter)

definition token_matches :: "glob_token \<Rightarrow> char \<Rightarrow> bool" where
  "token_matches t c = (case t of
     Star \<Rightarrow> False | Question \<Rightarrow> True | Literal a \<Rightarrow> a = c
   | Bracket neg items \<Rightarrow> (list_ex (\<lambda>(a, b). a \<le> c \<and> c \<le> b) items \<noteq> neg))"

fun match_tokens :: "glob_token list \<Rightarrow> string \<Rightarrow> bool" where
  "match_tokens [] s = (s = [])"
| "match_tokens (Star # ts) [] = match_tokens ts []"
| "match_tokens (Star # ts) (c # s) = (match_tokens ts (c # s) \<or> match_tokens (Star # ts) s)"
| "match_tokens (t # ts) [] = False"
| "match_tokens (t # ts) (c # s) = (token_matches t c \<and> match_tokens ts s)"

definition fnmatch :: "string \<Rightarrow> string \<Rightarrow> bool" where
  "fnmatch name pat = match_tokens (glob_tokens pat) name"

section \<open>Rules\<close>

datatype permission_action = ALLOW | ASK | DENY

record permission_rule =
  pr_action :: permission_action
  pr_tool :: string
  pr_agent :: string
  pr_priority :: int
  pr_reason :: "string option"

record permission_request =
  pq_tool :: string
  pq_command :: "string option"
  pq_agent :: string
  pq_session :: "string option"
  pq_args :: pyval

definition default_ask_rule :: permission_rule where
  "default_ask_rule = \<lparr>pr_action = ASK, pr_tool = ''*'', pr_agent = ''*'', pr_priority = 0,
     pr_reason = Some ''default: no matching rule; prompting for approval''\<rparr>"

definition tool_candidates :: "permission_request \<Rightarrow> string list" where
  "tool_candidates q = (case pq_command q of
     None \<Rightarrow> [pq_tool q]
   | Some c \<Rightarrow> if c = [] then [pq_tool q] else [pq_tool q @ '':'' @ c, pq_tool q])"

definition rule_matches :: "permission_request \<Rightarrow> permission_rule \<Rightarrow> bool" where
  "rule_matches q r =
    ((list_ex (\<lambda>cand. fnmatch cand (pr_tool r)) (tool_candidates q) \<or> fnmatch (pq_tool q) (pr_tool r))
     \<and> fnmatch (pq_agent q) (pr_agent r))"

definition evaluate :: "permission_rule list \<Rightarrow> permission_request \<Rightarrow> permission_rule" where
  "evaluate rules q =
    (let ordered = sort_key (\<lambda>(i, r). (pr_priority r, i)) (enumerate 0 rules);
         matched = foldl (\<lambda>m (i, r). if rule_matches q r then Some r else m) None ordered
     in case matched of None \<Rightarrow> default_ask_rule | Some r \<Rightarrow> r)"

section \<open>Repeated calls\<close>

record doom_loop =
  dl_history :: "(string, (string \<times> string) list) dict"
  dl_size :: nat

text \<open>Appending to a \<open>deque\<close> with \<open>maxlen\<close> drops entries at the other end.\<close>

definition push_bounded :: "nat \<Rightarrow> 'a \<Rightarrow> 'a list \<Rightarrow> 'a list" where
  "push_bounded n x xs = drop (length xs + 1 - n) (xs @ [x])"

definition record_call :: "string \<Rightarrow> string \<Rightarrow> string \<Rightarrow> doom_loop \<Rightarrow> doom_loop" where
  "record_call sid tool h d =
    d\<lparr>dl_history := AList.update sid (push_bounded (dl_size d) (tool, h) (get_or (dl_history d) sid [])) (dl_history d)\<rparr>"

text \<open>\<open>_queue\<close> creates an empty history for a session it has not seen.\<close>

definition touch_queue :: "string \<Rightarrow> doom_loop \<Rightarrow> doom_loop" where
  "touch_queue sid d = d\<lparr>dl_history := AList.update sid (get_or (dl_history d) sid []) (dl_history d)\<rparr>"

definition detect_loop :: "string \<Rightarrow> string \<Rightarrow> string \<Rightarrow> int \<Rightarrow> doom_loop \<Rightarrow> doom_loop \<times> bool" where
  "detect_loop sid tool h max_repetitions d =
    (let q = get_or (dl_history d) sid [];
         count = length (takeWhile (\<lambda>e. e = (tool, h)) (rev q))
     in (touch_queue sid d,
         max_repetitions \<le> int (length q) + 1 \<and> 0 < count \<and> max_repetitions \<le> int count))"

record permission_manager =
  pm_rules :: "permission_rule list"
  pm_doom :: doom_loop
  pm_threshold :: int

definition permission_manager_init :: "permission_rule list \<Rightarrow> int \<Rightarrow> permission_manager" where
  "permission_manager_init rules threshold =
    \<lparr>pm_rules = rules, pm_doom = \<lparr>dl_history = [], dl_size = 50\<rparr>, pm_threshold = threshold\<rparr>"

definition request_session :: "permission_request \<Rightarrow> string" where
  "request_session q = (case pq_session q of None \<Rightarrow> ''<anonymous>'' | Some s \<Rightarrow> if s = [] then ''<anonymous>'' else s)"

definition check_permission :: "(pyval \<Rightarrow> string) \<Rightarrow> permission_request \<Rightarrow> permission_manager \<Rightarrow>
    permission_manager \<times> permission_action \<times> string option" where
  "check_permission hash_args q m =
    (let sid = request_session q; h = hash_args (pq_args q);
         (d1, looping) = detect_loop sid (pq_tool q) h (pm_threshold m) (pm_doom m);
         m' = m\<lparr>pm_doom := record_call sid (pq_tool q) h d1\<rparr>
     in if looping then (m', ASK, Some ''doom loop detected'')
        else (let rule = evaluate (pm_rules m) q in (m', pr_action rule, pr_reason rule)))"

section \<open>Roles\<close>

definition role_permissions :: "(string, string list) dict" where
  "role_permissions =
    [(''admin'', [''app:use'', ''users:read'', ''users:create'', ''users:update'', ''users:status'', ''users:roles'',
        ''audit:read'', ''memory:read'', ''memory:audit'', ''memory:forget'']),
     (''member'', [''app:use'']), (''viewer'', [''app:read''])]"

definition normalize_roles :: "string list \<Rightarrow> string list" where
  "normalize_roles roles = foldl (\<lambda>acc raw. let role = py_lower (py_strip raw) in
     if role \<noteq> [] \<and> role \<notin> set acc then acc @ [role] else acc) [] roles"

definition permissions_for_roles :: "string list \<Rightarrow> string list" where
  "permissions_for_roles roles =
    from_keys (concat (map (\<lambda>role. get_or role_permissions role []) (normalize_roles roles)))"

definition is_admin_role :: "string list \<Rightarrow> bool" where
  "is_admin_role roles = (''admin'' \<in> set (normalize_roles roles))"

section \<open>Lemmas\<close>

lemma foldl_last_match:
  "foldl (\<lambda>m (i, r). if P r then Some r else m) z xs =
    (case filter (\<lambda>(i, r). P r) xs of [] \<Rightarrow> z | y # ys \<Rightarrow> Some (snd (last (y # ys))))"
proof (induction xs rule: rev_induct)
  case Nil
  then show ?case by simp
next
  case (snoc x xs)
  then show ?case by (cases x) (auto split: list.splits)
qed

text \<open>The order of evaluation: by priority, then by position.\<close>

definition rule_key :: "nat \<times> permission_rule \<Rightarrow> int \<times> nat" where
  "rule_key x = (pr_priority (snd x), fst x)"

lemma last_of_sorted: "sorted (map f xs) \<Longrightarrow> x \<in> set xs \<Longrightarrow> f x \<le> f (last xs)"
  by (induction xs rule: rev_induct) (auto simp: sorted_append)

lemma evaluate_eq:
  "evaluate rules q = (case filter (\<lambda>(i, r). rule_matches q r) (sort_key rule_key (enumerate 0 rules)) of
     [] \<Rightarrow> default_ask_rule | y # ys \<Rightarrow> snd (last (y # ys)))"
proof -
  have k: "(\<lambda>(i, r). (pr_priority r, i)) = rule_key" by (auto simp: rule_key_def fun_eq_iff)
  show ?thesis unfolding evaluate_def Let_def k foldl_last_match by (simp split: list.split)
qed

lemma push_bounded_length: "0 < n \<Longrightarrow> length (push_bounded n x xs) \<le> n"
  by (simp add: push_bounded_def)

lemma push_bounded_suffix: "0 < n \<Longrightarrow> length xs \<le> n \<Longrightarrow> \<exists>ys zs. xs = ys @ zs \<and> push_bounded n x xs = zs @ [x] \<and> length zs = min (length xs) (n - 1)"
proof -
  assume n: "0 < n" "length xs \<le> n"
  let ?k = "length xs + 1 - n"
  have "push_bounded n x xs = drop ?k xs @ [x]" using n by (simp add: push_bounded_def)
  moreover have "length (drop ?k xs) = min (length xs) (n - 1)" using n by auto
  moreover have "xs = take ?k xs @ drop ?k xs" by simp
  ultimately show ?thesis by blast
qed

section \<open>Properties\<close>

text \<open>The winning rule. \<open>evaluate\<close> returns the default ASK rule exactly when no rule matches (or a
  rule equal to it wins), and otherwise a matching rule such that every matching rule has a smaller
  priority, or the same one and an earlier position: a match wins over everything before it, however
  specific its pattern.\<close>

lemma evaluate_winner:
  "if \<exists>r \<in> set rules. rule_matches q r
   then \<exists>i < length rules. evaluate rules q = rules ! i \<and> rule_matches q (rules ! i) \<and>
     (\<forall>j < length rules. rule_matches q (rules ! j) \<longrightarrow>
        (pr_priority (rules ! j), j) \<le> (pr_priority (rules ! i), i))
   else evaluate rules q = default_ask_rule"
proof -
  define ms where "ms = filter (\<lambda>(i, r). rule_matches q r) (sort_key rule_key (enumerate 0 rules))"
  have mem: "(j, r) \<in> set ms \<longleftrightarrow> j < length rules \<and> r = rules ! j \<and> rule_matches q r" for j r
    by (auto simp: ms_def in_set_enumerate_eq)
  show ?thesis
  proof (cases "ms = []")
    case True
    then have "\<not> (\<exists>r \<in> set rules. rule_matches q r)" using mem by (metis in_set_conv_nth list.set_intros(1) neq_Nil_conv empty_iff list.set(1))
    then show ?thesis using True by (simp add: evaluate_eq ms_def [symmetric])
  next
    case False
    obtain i r where l: "last ms = (i, r)" by (cases "last ms")
    have "(i, r) \<in> set ms" using last_in_set [OF False] l by simp
    then have i: "i < length rules" "r = rules ! i" "rule_matches q (rules ! i)" using mem by auto
    have ev: "evaluate rules q = rules ! i"
      using False l i(2) by (cases ms) (simp_all add: evaluate_eq ms_def [symmetric])
    have "sorted (map rule_key ms)" unfolding ms_def by (rule sorted_filter) (rule sorted_sort_key)
    then have "(pr_priority (rules ! j), j) \<le> (pr_priority (rules ! i), i)"
      if "j < length rules" "rule_matches q (rules ! j)" for j
      using last_of_sorted [of rule_key ms "(j, rules ! j)"] mem [of j "rules ! j"] that l i(2) by (simp add: rule_key_def)
    moreover have "\<exists>r \<in> set rules. rule_matches q r" using i nth_mem by blast
    ultimately show ?thesis using i ev by auto
  qed
qed

text \<open>The calls of a session in a sequence of requests.\<close>

definition session_calls :: "(pyval \<Rightarrow> string) \<Rightarrow> string \<Rightarrow> permission_request list \<Rightarrow> (string \<times> string) list" where
  "session_calls hash_args sid qs =
    map (\<lambda>q. (pq_tool q, hash_args (pq_args q))) (filter (\<lambda>q. request_session q = sid) qs)"

definition check_all :: "(pyval \<Rightarrow> string) \<Rightarrow> permission_manager \<Rightarrow> permission_request list \<Rightarrow> permission_manager" where
  "check_all hash_args m qs = foldl (\<lambda>m q. fst (check_permission hash_args q m)) m qs"

lemma check_permission_state:
  "fst (check_permission h q m) = m\<lparr>pm_doom := record_call (request_session q) (pq_tool q) (h (pq_args q))
     (touch_queue (request_session q) (pm_doom m))\<rparr>"
  by (simp add: check_permission_def detect_loop_def Let_def)

lemma check_all_fields:
  "pm_rules (check_all h m qs) = pm_rules m" "pm_threshold (check_all h m qs) = pm_threshold m"
  "dl_size (pm_doom (check_all h m qs)) = dl_size (pm_doom m)"
  by (induction qs rule: rev_induct) (simp_all add: check_all_def check_permission_state record_call_def touch_queue_def)

lemma push_bounded_drop:
  "0 < n \<Longrightarrow> push_bounded n x (drop (length ks - n) ks) = drop (length (ks @ [x]) - n) (ks @ [x])"
  by (cases "n \<le> length ks") (simp_all add: push_bounded_def Suc_diff_le)

lemma check_all_history:
  "get_or (dl_history (pm_doom (check_all h (permission_manager_init rules T) qs))) sid [] =
    drop (length (session_calls h sid qs) - 50) (session_calls h sid qs)"
proof (induction qs rule: rev_induct)
  case Nil
  show ?case by (simp add: check_all_def permission_manager_init_def session_calls_def)
next
  case (snoc q qs)
  let ?m = "check_all h (permission_manager_init rules T) qs"
  have m: "check_all h (permission_manager_init rules T) (qs @ [q]) = fst (check_permission h q ?m)"
    by (simp add: check_all_def)
  have size: "dl_size (pm_doom ?m) = 50" by (simp add: check_all_fields permission_manager_init_def)
  show ?case
  proof (cases "request_session q = sid")
    case True
    have "session_calls h sid (qs @ [q]) = session_calls h sid qs @ [(pq_tool q, h (pq_args q))]"
      using True by (simp add: session_calls_def)
    then show ?thesis
      using snoc True push_bounded_drop [of 50 "(pq_tool q, h (pq_args q))" "session_calls h sid qs"] size
      unfolding m check_permission_state by (simp add: record_call_def touch_queue_def)
  next
    case False
    then have "session_calls h sid (qs @ [q]) = session_calls h sid qs" by (simp add: session_calls_def)
    then show ?thesis using snoc False unfolding m check_permission_state
      by (simp add: record_call_def touch_queue_def eq_commute [of sid])
  qed
qed

lemma takeWhile_ge: "T \<le> length (takeWhile (\<lambda>e. e = k) xs) \<longleftrightarrow> T \<le> length xs \<and> take T xs = replicate T k"
proof (induction xs arbitrary: T)
  case Nil
  then show ?case by auto
next
  case (Cons x xs)
  then show ?case by (cases T) auto
qed

lemma tail_repeats:
  assumes "T \<le> n"
  shows "T \<le> length (takeWhile (\<lambda>e. e = k) (rev (drop (length ks - n) ks))) \<longleftrightarrow>
    T \<le> length ks \<and> drop (length ks - T) ks = replicate T k"
proof -
  have len: "T \<le> length (rev (drop (length ks - n) ks)) \<longleftrightarrow> T \<le> length ks" using assms by auto
  show ?thesis
  proof (cases "T \<le> length ks")
    case True
    then have "take T (rev (drop (length ks - n) ks)) = rev (drop (length ks - T) ks)"
      using assms by (simp add: rev_drop min_def)
    moreover have "rev xs = replicate T k \<longleftrightarrow> xs = replicate T k" for xs
      by (metis rev_replicate rev_rev_ident)
    ultimately show ?thesis unfolding takeWhile_ge len using True by simp
  next
    case False
    then show ?thesis unfolding takeWhile_ge len by simp
  qed
qed

text \<open>What \<open>check_permission\<close> answers, after any sequence of earlier checks in any sessions, for a
  threshold \<open>T\<close> between 1 and the 50 calls the history keeps: ASK for a doom loop exactly when the
  last \<open>T\<close> calls of the session were this very call, and the winning rule's action and reason
  otherwise. The loop answer comes first, so a call that a rule denies is answered ASK once it has
  been repeated \<open>T\<close> times.\<close>

lemma check_permission_exact:
  assumes "m = check_all h (permission_manager_init rules (int T)) qs" "1 \<le> T" "T \<le> 50"
    and "ks = session_calls h (request_session q) qs"
  shows "snd (check_permission h q m) =
    (if T \<le> length ks \<and> drop (length ks - T) ks = replicate T (pq_tool q, h (pq_args q))
     then (ASK, Some ''doom loop detected'')
     else (pr_action (evaluate rules q), pr_reason (evaluate rules q)))"
proof -
  let ?q = "get_or (dl_history (pm_doom m)) (request_session q) []"
  let ?n = "length (takeWhile (\<lambda>e. e = (pq_tool q, h (pq_args q))) (rev ?q))"
  have hist: "?q = drop (length ks - 50) ks" unfolding assms(1,4) by (rule check_all_history)
  have "?n \<le> length (rev ?q)" by (rule length_takeWhile_le)
  then have "int T \<le> int (length ?q) + 1 \<and> 0 < ?n \<and> int T \<le> int ?n \<longleftrightarrow> T \<le> ?n" using assms(2) by auto
  also have "T \<le> ?n \<longleftrightarrow> T \<le> length ks \<and> drop (length ks - T) ks = replicate T (pq_tool q, h (pq_args q))"
    unfolding hist by (rule tail_repeats [OF assms(3)])
  finally have loop: "snd (detect_loop (request_session q) (pq_tool q) (h (pq_args q)) (pm_threshold m) (pm_doom m)) \<longleftrightarrow>
      T \<le> length ks \<and> drop (length ks - T) ks = replicate T (pq_tool q, h (pq_args q))"
    by (simp add: detect_loop_def Let_def assms(1) check_all_fields permission_manager_init_def)
  have "pm_rules m = rules" by (simp add: assms(1) check_all_fields permission_manager_init_def)
  then show ?thesis using loop by (simp add: check_permission_def Let_def split_beta)
qed

lemma set_normalize_roles: "set (normalize_roles roles) = {r \<in> (\<lambda>r. py_lower (py_strip r)) ` set roles. r \<noteq> []}"
proof -
  have "set (foldl (\<lambda>acc raw. let role = py_lower (py_strip raw) in
     if role \<noteq> [] \<and> role \<notin> set acc then acc @ [role] else acc) a rs) =
     set a \<union> {r \<in> (\<lambda>r. py_lower (py_strip r)) ` set rs. r \<noteq> []}" for a rs
    by (induction rs arbitrary: a) (auto simp: Let_def)
  then show ?thesis by (simp add: normalize_roles_def)
qed

text \<open>The permissions of a set of roles are those of its known roles, whatever their case and
  surrounding space, each once; the administrator's are granted exactly with the role \<open>admin\<close>.\<close>

lemma permissions_for_roles_exact:
  "set (permissions_for_roles roles) = (\<Union>r \<in> set roles. set (get_or role_permissions (py_lower (py_strip r)) [])) \<and>
   distinct (permissions_for_roles roles) \<and>
   (is_admin_role roles \<longleftrightarrow> ''users:roles'' \<in> set (permissions_for_roles roles))"
proof -
  note n = set_normalize_roles
  have e: "get_or role_permissions [] [] = []" by (simp add: role_permissions_def get_or_def)
  have p: "set (permissions_for_roles roles) = (\<Union>r \<in> set roles. set (get_or role_permissions (py_lower (py_strip r)) []))"
    by (auto simp: permissions_for_roles_def n) (metis e empty_iff list.set(1))
  have "''users:roles'' \<in> set (get_or role_permissions r []) \<longleftrightarrow> r = ''admin''" for r
    by (simp add: role_permissions_def get_or_def)
  then have "is_admin_role roles \<longleftrightarrow> ''users:roles'' \<in> set (permissions_for_roles roles)"
    unfolding p is_admin_role_def n by force
  moreover have "distinct (permissions_for_roles roles)" by (simp add: permissions_for_roles_def)
  ultimately show ?thesis using p by blast
qed

section \<open>Examples\<close>

definition ex_rule :: "permission_action \<Rightarrow> string \<Rightarrow> permission_rule" where
  "ex_rule act pat = \<lparr>pr_action = act, pr_tool = pat, pr_agent = ''*'', pr_priority = 0, pr_reason = None\<rparr>"

definition ex_request :: permission_request where
  "ex_request = \<lparr>pq_tool = ''bash'', pq_command = Some ''rm -rf /'', pq_agent = ''dev'', pq_session = Some ''s'', pq_args = PNone\<rparr>"

text \<open>A later bare pattern wins over an earlier command-specific one of the same priority.\<close>

lemma bare_pattern_wins:
  "pr_action (evaluate [ex_rule DENY ''bash:rm -rf *'', ex_rule ALLOW ''bash''] ex_request) = ALLOW \<and>
   pr_action (evaluate [ex_rule DENY ''bash:rm -rf *''] ex_request) = DENY"
  by code_simp

definition ex_rules :: "permission_rule list" where
  "ex_rules = [ex_rule DENY ''bash:rm -rf *'', ex_rule ALLOW ''bash'']"

lemma evaluate_winner_witness:
  "\<exists>i < 2. evaluate ex_rules ex_request = ex_rules ! i \<and> rule_matches ex_request (ex_rules ! i) \<and>
     (0::int, 1::nat) \<le> (pr_priority (ex_rules ! i), i)"
proof -
  have m: "rule_matches ex_request (ex_rules ! 0)" "rule_matches ex_request (ex_rules ! 1)" by code_simp+
  have l: "length ex_rules = 2" "pr_priority (ex_rules ! 1) = 0" by code_simp+
  then have ex: "\<exists>r \<in> set ex_rules. rule_matches ex_request r" using m nth_mem [of 0 ex_rules] by auto
  obtain i where "i < length ex_rules" "evaluate ex_rules ex_request = ex_rules ! i" "rule_matches ex_request (ex_rules ! i)"
    and le: "\<forall>j < length ex_rules. rule_matches ex_request (ex_rules ! j) \<longrightarrow>
        (pr_priority (ex_rules ! j), j) \<le> (pr_priority (ex_rules ! i), i)"
    using evaluate_winner [where rules = ex_rules and q = ex_request] ex by auto
  moreover have "(pr_priority (ex_rules ! 1), 1) \<le> (pr_priority (ex_rules ! i), i)" by (rule le [rule_format]) (use m l in simp_all)
  ultimately show ?thesis unfolding l by blast
qed

theorem check_permission_exact_witness:
  "snd (check_permission (\<lambda>v. ''h'') ex_request (check_all (\<lambda>v. ''h'')
      (permission_manager_init [ex_rule DENY ''bash:rm -rf *''] (int 2)) [ex_request, ex_request])) =
     (ASK, Some ''doom loop detected'') \<and>
   pr_action (evaluate [ex_rule DENY ''bash:rm -rf *''] ex_request) = DENY"
proof -
  have "session_calls (\<lambda>v. ''h'') (request_session ex_request) [ex_request, ex_request] =
      [(''bash'', ''h''), (''bash'', ''h'')]" by (simp add: session_calls_def ex_request_def)
  with check_permission_exact [OF refl _ _ refl, where T = 2 and qs = "[ex_request, ex_request]" and
      h = "\<lambda>v. ''h''" and q = ex_request and rules = "[ex_rule DENY ''bash:rm -rf *'']"]
  have "snd (check_permission (\<lambda>v. ''h'') ex_request (check_all (\<lambda>v. ''h'')
      (permission_manager_init [ex_rule DENY ''bash:rm -rf *''] (int 2)) [ex_request, ex_request])) =
     (ASK, Some ''doom loop detected'')" by (simp add: ex_request_def numeral_2_eq_2)
  moreover have "pr_action (evaluate [ex_rule DENY ''bash:rm -rf *''] ex_request) = DENY" by code_simp
  ultimately show ?thesis by blast
qed

end
