(* ===== verification/LlmErrors.thy ===== *)
theory LlmErrors
  imports Prelude
begin

text \<open>
  Failures of the language model: \<open>CircuitBreaker\<close> and \<open>LLMErrorHandlingMiddleware\<close> of
  \<open>src/focus_agent/harness/middleware/llm_error_handling.py\<close>. The handler is the function that gives
  the outcome of each attempt; the clock readings and the draws of \<open>random.uniform\<close> are arguments;
  sleeping is an entry of the trace. The synchronous and the asynchronous loop are the same code. An
  exception is known by the names of the classes it is an instance of, its own first. Numbers are
  reals: an overflow of a float power is not modelled.
\<close>

section \<open>Circuit breaker\<close>

record circuit_breaker =
  cb_threshold :: int
  cb_recovery :: real
  cb_failures :: int
  cb_opened_at :: "real option"
  cb_trial :: bool

definition circuit_breaker_init :: "int \<Rightarrow> real \<Rightarrow> circuit_breaker" where
  "circuit_breaker_init threshold recovery = \<lparr>cb_threshold = threshold, cb_recovery = recovery,
     cb_failures = 0, cb_opened_at = None, cb_trial = False\<rparr>"

definition before_call :: "real \<Rightarrow> circuit_breaker \<Rightarrow> py_error + circuit_breaker" where
  "before_call now b =
    (if cb_threshold b \<le> 0 then Inr b
     else case cb_opened_at b of
       None \<Rightarrow> Inr b
     | Some t \<Rightarrow>
         if now - t < cb_recovery b then Inl (CircuitBreakerOpenError ''LLM circuit breaker is open.'')
         else if cb_trial b then Inl (CircuitBreakerOpenError ''LLM circuit breaker half-open trial is in flight.'')
         else Inr (b\<lparr>cb_trial := True\<rparr>))"

definition record_success :: "circuit_breaker \<Rightarrow> circuit_breaker" where
  "record_success b = (if cb_threshold b \<le> 0 then b
     else b\<lparr>cb_failures := 0, cb_opened_at := None, cb_trial := False\<rparr>)"

definition record_failure :: "real \<Rightarrow> circuit_breaker \<Rightarrow> circuit_breaker" where
  "record_failure now b = (if cb_threshold b \<le> 0 then b
     else let b' = b\<lparr>cb_failures := cb_failures b + 1, cb_trial := False\<rparr>
       in if cb_opened_at b' \<noteq> None \<or> cb_threshold b' \<le> cb_failures b' then b'\<lparr>cb_opened_at := Some now\<rparr> else b')"

datatype circuit_state = closed | opened | half_open

record breaker_snapshot =
  bs_state :: circuit_state
  bs_failures :: int
  bs_opened_at :: "real option"

definition breaker_state :: "real \<Rightarrow> circuit_breaker \<Rightarrow> circuit_state" where
  "breaker_state now b = (case cb_opened_at b of None \<Rightarrow> closed
     | Some t \<Rightarrow> if cb_recovery b \<le> now - t then half_open else opened)"

definition breaker_snapshot_of :: "real \<Rightarrow> circuit_breaker \<Rightarrow> breaker_snapshot" where
  "breaker_snapshot_of now b =
    \<lparr>bs_state = breaker_state now b, bs_failures = cb_failures b, bs_opened_at = cb_opened_at b\<rparr>"

section \<open>Configuration\<close>

text \<open>A configuration, dictionary or object, is the association of its keys with numbers.\<close>

type_synonym config = "(string, real) dict"

definition int_trunc :: "real \<Rightarrow> int" where
  "int_trunc x = (if x < 0 then \<lceil>x\<rceil> else \<lfloor>x\<rfloor>)"

definition circuit_breaker_from_config :: "config \<Rightarrow> circuit_breaker" where
  "circuit_breaker_from_config c = circuit_breaker_init (int_trunc (get_or c ''failure_threshold'' 5))
     (get_or c ''recovery_timeout_s'' (get_or c ''recovery_timeout_seconds'' 30))"

record exc =
  ex_classes :: "string list"
  ex_text :: string

datatype breaker_arg = NoBreaker | Breaker circuit_breaker | BreakerConfig config

record llm_args =
  la_retry :: "config option"
  la_max_retries :: int
  la_initial_backoff :: real
  la_max_backoff :: real
  la_multiplier :: real
  la_jitter :: real
  la_retry_exceptions :: "string list"
  la_predicate :: "(exc \<Rightarrow> bool) option"
  la_breaker :: breaker_arg

record llm_middleware =
  lm_max_retries :: int
  lm_initial_backoff :: real
  lm_max_backoff :: real
  lm_multiplier :: real
  lm_jitter :: real
  lm_retry_exceptions :: "string list"
  lm_predicate :: "(exc \<Rightarrow> bool) option"
  lm_breaker :: "circuit_breaker option"

definition apply_retry_config :: "config \<Rightarrow> llm_middleware \<Rightarrow> llm_middleware" where
  "apply_retry_config c m =
    (let m1 = (case map_of c ''max_attempts'' of None \<Rightarrow> m | Some x \<Rightarrow> m\<lparr>lm_max_retries := max 0 (int_trunc x - 1)\<rparr>);
         m2 = (case map_of c ''base_delay_ms'' of None \<Rightarrow> m1 | Some x \<Rightarrow> m1\<lparr>lm_initial_backoff := x / 1000\<rparr>)
     in (case map_of c ''max_delay_ms'' of None \<Rightarrow> m2 | Some x \<Rightarrow> m2\<lparr>lm_max_backoff := x / 1000\<rparr>))"

definition llm_post_init :: "llm_args \<Rightarrow> py_error + llm_middleware" where
  "llm_post_init a =
    (let m0 = \<lparr>lm_max_retries = la_max_retries a, lm_initial_backoff = la_initial_backoff a,
           lm_max_backoff = la_max_backoff a, lm_multiplier = la_multiplier a, lm_jitter = la_jitter a,
           lm_retry_exceptions = la_retry_exceptions a, lm_predicate = la_predicate a,
           lm_breaker = (case la_breaker a of NoBreaker \<Rightarrow> None | Breaker b \<Rightarrow> Some b
             | BreakerConfig c \<Rightarrow> Some (circuit_breaker_from_config c))\<rparr>;
         m = (case la_retry a of None \<Rightarrow> m0 | Some c \<Rightarrow> apply_retry_config c m0)
     in if lm_max_retries m < 0 then Inl (ValueError ''max_retries must be >= 0.'')
        else if lm_initial_backoff m < 0 then Inl (ValueError ''initial_backoff_s must be >= 0.'')
        else if lm_max_backoff m < 0 then Inl (ValueError ''max_backoff_s must be >= 0.'')
        else if lm_multiplier m < 1 then Inl (ValueError ''backoff_multiplier must be >= 1.'')
        else if lm_jitter m < 0 then Inl (ValueError ''jitter_s must be >= 0.'')
        else Inr m)"

section \<open>Calls\<close>

definition is_instance :: "exc \<Rightarrow> string list \<Rightarrow> bool" where
  "is_instance e classes = list_ex (\<lambda>c. c \<in> set classes) (ex_classes e)"

definition must_bubble :: "bool \<Rightarrow> exc \<Rightarrow> bool" where
  "must_bubble langgraph_installed e =
    (if is_instance e [''KeyboardInterrupt'', ''SystemExit'', ''GeneratorExit'', ''CancelledError'', ''MiddlewareError''] then True
     else if langgraph_installed \<and> is_instance e [''GraphBubbleUp''] then True
     else take 1 (ex_classes e) = [''GraphBubbleUp''])"

definition should_retry :: "llm_middleware \<Rightarrow> exc \<Rightarrow> bool" where
  "should_retry m e = (if \<not> is_instance e (lm_retry_exceptions m) then False
     else case lm_predicate m of None \<Rightarrow> True | Some p \<Rightarrow> p e)"

definition backoff_delay :: "(nat \<Rightarrow> real) \<Rightarrow> llm_middleware \<Rightarrow> nat \<Rightarrow> real" where
  "backoff_delay draw m attempt =
    (let delay = min (lm_initial_backoff m * lm_multiplier m ^ attempt) (lm_max_backoff m)
     in if lm_jitter m \<noteq> 0 then delay + draw attempt else delay)"

datatype trace_entry = CallHandler nat | Sleep real

datatype 'a call_result = Returned 'a | Raised exc | Refused py_error

text \<open>What a call meets from outside: the outcome of each attempt, the jitter drawn after it, the clock
  when it starts and when it records a failure.\<close>

record 'a call_env =
  ce_langgraph :: bool
  ce_handler :: "nat \<Rightarrow> exc + 'a"
  ce_draw :: "nat \<Rightarrow> real"
  ce_start :: real
  ce_end :: real

definition middleware_success :: "llm_middleware \<Rightarrow> llm_middleware" where
  "middleware_success m = m\<lparr>lm_breaker := map_option record_success (lm_breaker m)\<rparr>"

definition middleware_failure :: "real \<Rightarrow> llm_middleware \<Rightarrow> llm_middleware" where
  "middleware_failure now m = m\<lparr>lm_breaker := map_option (record_failure now) (lm_breaker m)\<rparr>"

function invoke_loop :: "'a call_env \<Rightarrow> llm_middleware \<Rightarrow> nat \<Rightarrow> llm_middleware \<times> trace_entry list \<times> 'a call_result" where
  "invoke_loop c m attempt =
    (case ce_handler c attempt of
       Inl e \<Rightarrow>
         if must_bubble (ce_langgraph c) e then (m, [CallHandler attempt], Raised e)
         else if \<not> should_retry m e \<or> lm_max_retries m \<le> int attempt
           then (middleware_failure (ce_end c) m, [CallHandler attempt], Raised e)
         else (let (m', tr, r) = invoke_loop c m (attempt + 1)
           in (m', CallHandler attempt # Sleep (backoff_delay (ce_draw c) m attempt) # tr, r))
     | Inr x \<Rightarrow> (middleware_success m, [CallHandler attempt], Returned x))"
  by pat_completeness auto

termination
  by (relation "measure (\<lambda>(c, m, attempt). nat (lm_max_retries m - int attempt))") auto

declare invoke_loop.simps [simp del]

definition invoke :: "'a call_env \<Rightarrow> llm_middleware \<Rightarrow> llm_middleware \<times> trace_entry list \<times> 'a call_result" where
  "invoke c m = (case lm_breaker m of
     None \<Rightarrow> invoke_loop c m 0
   | Some b \<Rightarrow> (case before_call (ce_start c) b of
       Inl e \<Rightarrow> (m, [], Refused e)
     | Inr b' \<Rightarrow> invoke_loop c (m\<lparr>lm_breaker := Some b'\<rparr>) 0))"

text \<open>The calls of one middleware, one after the other.\<close>

fun invoke_all :: "'a call_env list \<Rightarrow> llm_middleware \<Rightarrow> llm_middleware \<times> 'a call_result list" where
  "invoke_all [] m = (m, [])"
| "invoke_all (c # cs) m = (let (m1, tr, r) = invoke c m; (m2, rs) = invoke_all cs m1 in (m2, r # rs))"

section \<open>Lemmas\<close>

text \<open>An attempt that the loop follows by another one.\<close>

definition retried :: "'a call_env \<Rightarrow> llm_middleware \<Rightarrow> nat \<Rightarrow> bool" where
  "retried c m k = (case ce_handler c k of
     Inr x \<Rightarrow> False
   | Inl e \<Rightarrow> \<not> must_bubble (ce_langgraph c) e \<and> should_retry m e \<and> int k < lm_max_retries m)"

definition last_attempt :: "'a call_env \<Rightarrow> llm_middleware \<Rightarrow> nat \<Rightarrow> llm_middleware \<times> 'a call_result" where
  "last_attempt c m k = (case ce_handler c k of
     Inr x \<Rightarrow> (middleware_success m, Returned x)
   | Inl e \<Rightarrow> (if must_bubble (ce_langgraph c) e then m else middleware_failure (ce_end c) m, Raised e))"

definition attempts_trace :: "'a call_env \<Rightarrow> llm_middleware \<Rightarrow> nat \<Rightarrow> nat \<Rightarrow> trace_entry list" where
  "attempts_trace c m a n =
    concat (map (\<lambda>k. [CallHandler k, Sleep (backoff_delay (ce_draw c) m k)]) [a..<n]) @ [CallHandler n]"

lemma attempts_trace_same [simp]: "attempts_trace c m n n = [CallHandler n]"
  by (simp add: attempts_trace_def)

lemma attempts_trace_step:
  "a < n \<Longrightarrow> attempts_trace c m a n = CallHandler a # Sleep (backoff_delay (ce_draw c) m a) # attempts_trace c m (a + 1) n"
  by (simp add: attempts_trace_def upt_conv_Cons)

lemma invoke_loop_step:
  "invoke_loop c m a = (if retried c m a
     then (let (m', tr, r) = invoke_loop c m (a + 1)
       in (m', CallHandler a # Sleep (backoff_delay (ce_draw c) m a) # tr, r))
     else (fst (last_attempt c m a), [CallHandler a], snd (last_attempt c m a)))"
  by (subst invoke_loop.simps) (auto simp: retried_def last_attempt_def split: sum.split)

lemma invoke_loop_exact:
  "\<exists>n \<ge> a. (\<forall>k \<in> {a..<n}. retried c m k) \<and> \<not> retried c m n \<and>
     invoke_loop c m a = (fst (last_attempt c m n), attempts_trace c m a n, snd (last_attempt c m n))"
proof (induction "nat (lm_max_retries m - int a)" arbitrary: a rule: less_induct)
  case less
  show ?case
  proof (cases "retried c m a")
    case False
    then show ?thesis by (intro exI [of _ a]) (simp add: invoke_loop_step [of c m a])
  next
    case True
    then have "int a < lm_max_retries m" by (simp add: retried_def split: sum.splits)
    then obtain n where n: "a + 1 \<le> n" "\<forall>k \<in> {a + 1..<n}. retried c m k" "\<not> retried c m n"
      "invoke_loop c m (a + 1) = (fst (last_attempt c m n), attempts_trace c m (a + 1) n, snd (last_attempt c m n))"
      using less [of "a + 1"] by auto
    have "retried c m k" if "k \<in> {a..<n}" for k using n(2) True that by (cases "k = a") auto
    moreover have "invoke_loop c m a = (fst (last_attempt c m n), attempts_trace c m a n, snd (last_attempt c m n))"
      using True n(1,4) by (simp add: invoke_loop_step [of c m a] attempts_trace_step)
    ultimately show ?thesis using n by (intro exI [of _ n]) simp
  qed
qed

lemma retried_le: "retried c m k \<Longrightarrow> int k < lm_max_retries m"
  by (simp add: retried_def split: sum.splits)

lemma backoff_delay_bounds:
  assumes "0 \<le> lm_initial_backoff m" "0 \<le> lm_max_backoff m" "1 \<le> lm_multiplier m"
    "0 \<le> draw k" "draw k \<le> lm_jitter m"
  shows "0 \<le> backoff_delay draw m k" "backoff_delay draw m k \<le> lm_max_backoff m + lm_jitter m"
proof -
  have "0 \<le> lm_initial_backoff m * lm_multiplier m ^ k" using assms by simp
  then show "0 \<le> backoff_delay draw m k" "backoff_delay draw m k \<le> lm_max_backoff m + lm_jitter m"
    using assms by (auto simp: backoff_delay_def Let_def)
qed

lemma llm_post_init_ok:
  assumes "llm_post_init a = Inr m"
  shows "0 \<le> lm_max_retries m" "0 \<le> lm_initial_backoff m" "0 \<le> lm_max_backoff m" "1 \<le> lm_multiplier m" "0 \<le> lm_jitter m"
  using assms by (auto simp: llm_post_init_def Let_def split: if_splits)

text \<open>The breaker a call runs with is the one \<open>before_call\<close> admitted.\<close>

lemma invoke_exact:
  obtains (refused) b e where "lm_breaker m = Some b" "before_call (ce_start c) b = Inl e" "invoke c m = (m, [], Refused e)"
  | (admitted) m1 n where "m1 = m \<or> (\<exists>b b'. lm_breaker m = Some b \<and> before_call (ce_start c) b = Inr b' \<and> m1 = m\<lparr>lm_breaker := Some b'\<rparr>)"
      "\<forall>k < n. retried c m k" "\<not> retried c m n"
      "invoke c m = (fst (last_attempt c m1 n), attempts_trace c m 0 n, snd (last_attempt c m n))"
proof -
  have up: "retried c (m\<lparr>lm_breaker := x\<rparr>) = retried c m"
    "attempts_trace c (m\<lparr>lm_breaker := x\<rparr>) = attempts_trace c m"
    "snd (last_attempt c (m\<lparr>lm_breaker := x\<rparr>) k) = snd (last_attempt c m k)" for x k
    by (auto simp: fun_eq_iff retried_def should_retry_def attempts_trace_def backoff_delay_def last_attempt_def split: sum.split)
  show thesis
  proof (cases "lm_breaker m")
    case None
    obtain n where "\<forall>k \<in> {0..<n}. retried c m k" "\<not> retried c m n"
      "invoke_loop c m 0 = (fst (last_attempt c m n), attempts_trace c m 0 n, snd (last_attempt c m n))"
      using invoke_loop_exact [of 0 c m] by blast
    then show thesis using None by (intro admitted [of m n]) (simp_all add: invoke_def)
  next
    case (Some b)
    show thesis
    proof (cases "before_call (ce_start c) b")
      case (Inl e)
      show thesis by (rule refused [OF Some Inl]) (simp add: invoke_def Some Inl)
    next
      case (Inr b')
      let ?m = "m\<lparr>lm_breaker := Some b'\<rparr>"
      obtain n where "\<forall>k \<in> {0..<n}. retried c ?m k" "\<not> retried c ?m n"
        "invoke_loop c ?m 0 = (fst (last_attempt c ?m n), attempts_trace c ?m 0 n, snd (last_attempt c ?m n))"
        using invoke_loop_exact [of 0 c ?m] by blast
      then show thesis using Some Inr by (intro admitted [of ?m n]) (simp_all add: invoke_def up)
    qed
  qed
qed

section \<open>Properties\<close>

text \<open>What one call does. A call of a validated middleware is either refused by its breaker,
  without an attempt, or makes attempts \<open>0..n\<close> with \<open>n\<close> at most \<open>max_retries\<close>: every attempt before
  the last failed with an exception that is retried and does not bubble, and is followed by one
  sleep, between zero and the maximal backoff plus the jitter; the last attempt decides the result, and it is
  an exception that would be retried only when the retries are used up.\<close>

lemma invoke_outcome:
  assumes "llm_post_init a = Inr m" "\<And>k. 0 \<le> ce_draw c k \<and> ce_draw c k \<le> lm_jitter m" "invoke c m = (m', tr, r)"
  shows "(\<exists>e. r = Refused e \<and> tr = [] \<and> m' = m) \<or>
    (\<exists>n ds. int n \<le> lm_max_retries m \<and> length ds = n \<and>
       tr = concat (map (\<lambda>k. [CallHandler k, Sleep (ds ! k)]) [0..<n]) @ [CallHandler n] \<and>
       (\<forall>d \<in> set ds. 0 \<le> d \<and> d \<le> lm_max_backoff m + lm_jitter m) \<and>
       (\<forall>k < n. \<exists>e. ce_handler c k = Inl e \<and> \<not> must_bubble (ce_langgraph c) e \<and> should_retry m e) \<and>
       (case ce_handler c n of
          Inr x \<Rightarrow> r = Returned x
        | Inl e \<Rightarrow> r = Raised e \<and>
            (must_bubble (ce_langgraph c) e \<or> \<not> should_retry m e \<or> int n = lm_max_retries m)))"
proof (rule invoke_exact [of m c])
  fix b e
  assume "invoke c m = (m, [], Refused e)"
  then show ?thesis using assms(3) by simp
next
  fix m1 n
  assume n: "\<forall>k < n. retried c m k" "\<not> retried c m n"
    and iv: "invoke c m = (fst (last_attempt c m1 n), attempts_trace c m 0 n, snd (last_attempt c m n))"
  note ok = llm_post_init_ok [OF assms(1)]
  define ds where "ds = map (backoff_delay (ce_draw c) m) [0..<n]"
  have le: "int n \<le> lm_max_retries m"
  proof (cases n)
    case 0
    then show ?thesis using ok(1) by simp
  next
    case (Suc j)
    then have "int j < lm_max_retries m" using n(1) retried_le by blast
    then show ?thesis using Suc by simp
  qed
  have tr: "tr = concat (map (\<lambda>k. [CallHandler k, Sleep (ds ! k)]) [0..<n]) @ [CallHandler n]"
  proof -
    have eq: "map (\<lambda>k. [CallHandler k, Sleep (ds ! k)]) [0..<n] =
      map (\<lambda>k. [CallHandler k, Sleep (backoff_delay (ce_draw c) m k)]) [0..<n]"
      by (rule map_cong) (simp_all add: ds_def)
    have "tr = attempts_trace c m 0 n" using iv assms(3) by simp
    then show ?thesis unfolding eq attempts_trace_def .
  qed
  have ds: "\<forall>d \<in> set ds. 0 \<le> d \<and> d \<le> lm_max_backoff m + lm_jitter m"
    using backoff_delay_bounds [OF ok(2,3,4)] assms(2) by (auto simp: ds_def)
  have before: "\<forall>k < n. \<exists>e. ce_handler c k = Inl e \<and> \<not> must_bubble (ce_langgraph c) e \<and> should_retry m e"
  proof (intro allI impI)
    fix k
    assume "k < n"
    then have "retried c m k" using n(1) by blast
    then show "\<exists>e. ce_handler c k = Inl e \<and> \<not> must_bubble (ce_langgraph c) e \<and> should_retry m e"
      by (cases "ce_handler c k") (simp_all add: retried_def)
  qed
  have "case ce_handler c n of Inr x \<Rightarrow> r = Returned x
      | Inl e \<Rightarrow> r = Raised e \<and> (must_bubble (ce_langgraph c) e \<or> \<not> should_retry m e \<or> int n = lm_max_retries m)"
    using n(2) iv assms(3) le by (cases "ce_handler c n") (auto simp: retried_def last_attempt_def)
  then show ?thesis using le tr ds before by (intro disjI2 exI [of _ n] exI [of _ ds]) (simp add: ds_def)
qed

definition ex_exc :: "string \<Rightarrow> exc" where
  "ex_exc cls = \<lparr>ex_classes = [cls, ''Exception''], ex_text = []\<rparr>"

definition ex_llm_args :: llm_args where
  "ex_llm_args = \<lparr>la_retry = None, la_max_retries = 2, la_initial_backoff = 1 / 4, la_max_backoff = 4,
     la_multiplier = 2, la_jitter = 0, la_retry_exceptions = [''Exception''], la_predicate = None,
     la_breaker = Breaker (circuit_breaker_init 5 30)\<rparr>"

definition ex_llm :: llm_middleware where
  "ex_llm = \<lparr>lm_max_retries = 2, lm_initial_backoff = 1 / 4, lm_max_backoff = 4,
     lm_multiplier = 2, lm_jitter = 0, lm_retry_exceptions = [''Exception''], lm_predicate = None,
     lm_breaker = Some (circuit_breaker_init 5 30)\<rparr>"

definition ex_env :: "nat \<Rightarrow> nat call_env" where
  "ex_env fails = \<lparr>ce_langgraph = True, ce_handler = (\<lambda>k. if k < fails then Inl (ex_exc ''TimeoutError'') else Inr k),
     ce_draw = (\<lambda>k. 0), ce_start = 0, ce_end = 1\<rparr>"

lemma ex_llm_init: "llm_post_init ex_llm_args = Inr ex_llm"
  by (simp add: llm_post_init_def ex_llm_args_def ex_llm_def)

lemma ex_invoke: "invoke (ex_env 1) ex_llm =
  (ex_llm, [CallHandler 0, Sleep (1 / 4), CallHandler 1], Returned 1)"
  by (simp add: invoke_def ex_llm_def circuit_breaker_init_def before_call_def ex_env_def invoke_loop.simps
      must_bubble_def is_instance_def ex_exc_def should_retry_def backoff_delay_def middleware_success_def record_success_def)

lemma invoke_outcome_witness:
  "\<exists>n ds. int n \<le> 2 \<and> length ds = n \<and>
     [CallHandler 0, Sleep (1 / 4), CallHandler 1] = concat (map (\<lambda>k. [CallHandler k, Sleep (ds ! k)]) [0..<n]) @ [CallHandler n]"
  using invoke_outcome [OF ex_llm_init _ ex_invoke] by (auto simp: ex_llm_def ex_env_def)

text \<open>What a sequence of completed calls, with their times, makes of a breaker.\<close>

definition record_result :: "circuit_breaker \<Rightarrow> bool \<times> real \<Rightarrow> circuit_breaker" where
  "record_result b res = (if fst res then record_success b else record_failure (snd res) b)"

definition failures_since_success :: "(bool \<times> real) list \<Rightarrow> int" where
  "failures_since_success rs = int (length (takeWhile (\<lambda>res. \<not> fst res) (rev rs)))"

lemma record_results_exact:
  assumes "0 < T"
  shows "foldl record_result (circuit_breaker_init T recovery) rs =
    \<lparr>cb_threshold = T, cb_recovery = recovery, cb_failures = failures_since_success rs,
     cb_opened_at = (if T \<le> failures_since_success rs then Some (snd (last rs)) else None), cb_trial = False\<rparr>"
proof (induction rs rule: rev_induct)
  case Nil
  show ?case using assms by (simp add: circuit_breaker_init_def failures_since_success_def)
next
  case (snoc x xs)
  have f: "failures_since_success (xs @ [x]) = (if fst x then 0 else failures_since_success xs + 1)"
    by (simp add: failures_since_success_def)
  have r: "foldl record_result b (xs @ [x]) = record_result (foldl record_result b xs) x" for b by simp
  have "0 \<le> failures_since_success xs" by (simp add: failures_since_success_def)
  then show ?case unfolding r snoc.IH using assms
    by (cases "fst x") (simp_all add: f record_result_def record_success_def record_failure_def Let_def)
qed

text \<open>When the breaker refuses. After any sequence of completed calls, a call is refused exactly
  when the last \<open>failure_threshold\<close> of them failed in a row and the last failure is less than
  \<open>recovery_timeout_s\<close> old; a call that is admitted after that many failures is the half-open trial, and
  as long as it has not completed every other call is refused.\<close>

lemma breaker_opens_exactly:
  assumes "0 < T" "b = foldl record_result (circuit_breaker_init T recovery) rs"
  shows "(\<not> is_ok (before_call now b) \<longleftrightarrow> T \<le> failures_since_success rs \<and> now - snd (last rs) < recovery) \<and>
    (\<forall>b' later. before_call now b = Inr b' \<longrightarrow>
       (is_ok (before_call later b') \<longleftrightarrow> failures_since_success rs < T))"
proof -
  note b = assms(2) [unfolded record_results_exact [OF assms(1)]]
  show ?thesis unfolding b before_call_def using assms(1) by (auto simp: is_ok_def)
qed

definition ex_failures :: "(bool \<times> real) list" where
  "ex_failures = [(True, 1), (False, 2), (False, 3)]"

lemma breaker_opens_exactly_witness:
  "\<not> is_ok (before_call 10 (foldl record_result (circuit_breaker_init 2 30) ex_failures)) \<and>
   is_ok (before_call 33 (foldl record_result (circuit_breaker_init 2 30) ex_failures))"
  using breaker_opens_exactly [OF _ refl, of 2 10 30 ex_failures] breaker_opens_exactly [OF _ refl, of 2 33 30 ex_failures]
  by (simp add: ex_failures_def failures_since_success_def)

fun is_refused :: "'a call_result \<Rightarrow> bool" where
  "is_refused (Refused e) = True"
| "is_refused _ = False"

lemma stuck_trial_refuses:
  assumes "lm_breaker m = Some b" "0 < cb_threshold b" "cb_opened_at b = Some t" "cb_trial b"
  shows "fst (invoke_all cs m) = m \<and> list_all is_refused (snd (invoke_all cs m))"
proof (induction cs)
  case Nil
  show ?case by simp
next
  case (Cons c cs)
  have "\<exists>e. before_call (ce_start c) b = Inl e" using assms by (simp add: before_call_def)
  then obtain e where "invoke c m = (m, [], Refused e)" using assms(1) by (auto simp: invoke_def)
  then show ?case using Cons by (simp add: split_beta Let_def)
qed

text \<open>A bubbling exception in the half-open trial disables the model for good. When the breaker is
  open, its recovery time is over and no trial is in flight, the call is admitted as the trial; if
  its handler raises an exception that bubbles (a cancellation, or an interrupt of the graph), neither
  success nor failure is recorded, and every later call, whenever it comes, is refused.\<close>

lemma bubbled_trial_locks:
  assumes "lm_breaker m = Some b" "0 < cb_threshold b" "cb_opened_at b = Some t" "\<not> cb_trial b"
    "cb_recovery b \<le> ce_start c - t" "ce_handler c 0 = Inl e" "must_bubble (ce_langgraph c) e"
  shows "snd (invoke c m) = ([CallHandler 0], Raised e) \<and>
    list_all is_refused (snd (invoke_all cs (fst (invoke c m))))"
proof -
  have "before_call (ce_start c) b = Inr (b\<lparr>cb_trial := True\<rparr>)" using assms by (simp add: before_call_def)
  then have i: "invoke c m = (m\<lparr>lm_breaker := Some (b\<lparr>cb_trial := True\<rparr>)\<rparr>, [CallHandler 0], Raised e)"
    using assms by (simp add: invoke_def invoke_loop.simps)
  show ?thesis unfolding i using stuck_trial_refuses [of "m\<lparr>lm_breaker := Some (b\<lparr>cb_trial := True\<rparr>)\<rparr>" "b\<lparr>cb_trial := True\<rparr>" t cs] assms by simp
qed

definition ex_open :: llm_middleware where
  "ex_open = ex_llm\<lparr>lm_breaker := Some ((circuit_breaker_init 5 30)\<lparr>cb_failures := 5, cb_opened_at := Some 0\<rparr>)\<rparr>"

definition ex_cancelled :: "nat call_env" where
  "ex_cancelled = (ex_env 0)\<lparr>ce_handler := (\<lambda>k. Inl (ex_exc ''CancelledError'')), ce_start := 31\<rparr>"

lemma bubbled_trial_locks_witness:
  "snd (invoke ex_cancelled ex_open) = ([CallHandler 0], Raised (ex_exc ''CancelledError'')) \<and>
   list_all is_refused (snd (invoke_all [(ex_env 0)\<lparr>ce_start := 1000\<rparr>] (fst (invoke ex_cancelled ex_open))))"
  by (rule bubbled_trial_locks [where b = "(circuit_breaker_init 5 30)\<lparr>cb_failures := 5, cb_opened_at := Some 0\<rparr>" and t = 0])
    (simp_all add: ex_open_def ex_cancelled_def ex_env_def circuit_breaker_init_def must_bubble_def is_instance_def ex_exc_def)

end
