(* ===== verification/StreamBridge.thy ===== *)
theory StreamBridge
  imports Prelude "HOL-Library.Sublist"
begin

text \<open>
  The event log a run is streamed from: \<open>InMemoryStreamBridge\<close> of
  \<open>src/focus_agent/harness/streaming/bridge.py\<close>. Subscribers and cleanup tasks hold references to
  stream objects, and the code compares them with \<open>is\<close>: streams and tasks live in a store, and a
  reference is an address. Every operation runs under the bridge's lock and is one step; awaiting a
  cleanup task and closing are divided where the code releases the lock. The wall clock is an argument.
\<close>

section \<open>State\<close>

record stream_event =
  se_id :: string
  se_event :: string
  se_data :: pyval

text \<open>What a subscriber is given: an event, or one of the objects \<open>HEARTBEAT_SENTINEL\<close> and
  \<open>END_SENTINEL\<close>, which the code compares by identity.\<close>

datatype stream_entry = Entry stream_event | Heartbeat | End

record run_stream =
  rs_events :: "stream_event list"
  rs_ended :: bool
  rs_offset :: nat

definition run_stream_init :: run_stream where
  "run_stream_init = \<lparr>rs_events = [], rs_ended = False, rs_offset = 0\<rparr>"

record cleanup_task =
  ct_run :: string
  ct_stream :: nat
  ct_done :: bool

record bridge =
  sb_maxsize :: nat
  sb_delay :: real
  sb_heap :: "run_stream list"
  sb_streams :: "(string, nat) dict"
  sb_counters :: "(string, nat) dict"
  sb_task_heap :: "cleanup_task list"
  sb_tasks :: "(string, nat) dict"
  sb_shutdown :: bool

definition bridge_init :: "int option \<Rightarrow> int option \<Rightarrow> real \<Rightarrow> py_error + bridge" where
  "bridge_init queue_maxsize max_buffer_size cleanup_delay =
    (let size = (case queue_maxsize of Some n \<Rightarrow> n | None \<Rightarrow> (case max_buffer_size of Some n \<Rightarrow> n | None \<Rightarrow> 256))
     in if size < 1 then Inl (ValueError ''queue_maxsize must be at least 1'')
        else if cleanup_delay < 0 then Inl (ValueError ''cleanup_delay_seconds must be a finite non-negative number'')
        else Inr \<lparr>sb_maxsize = nat size, sb_delay = cleanup_delay, sb_heap = [], sb_streams = [], sb_counters = [],
             sb_task_heap = [], sb_tasks = [], sb_shutdown = False\<rparr>)"

section \<open>Publishing\<close>

definition get_or_create_stream :: "string \<Rightarrow> bridge \<Rightarrow> py_error + bridge \<times> nat" where
  "get_or_create_stream run b =
    (if sb_shutdown b then Inl (RuntimeError ''stream bridge is shut down'')
     else case map_of (sb_streams b) run of
       Some a \<Rightarrow> Inr (b, a)
     | None \<Rightarrow> (let a = length (sb_heap b) in
         Inr (b\<lparr>sb_heap := sb_heap b @ [run_stream_init], sb_streams := AList.update run a (sb_streams b),
              sb_counters := AList.update run 0 (sb_counters b)\<rparr>, a)))"

definition event_id :: "real \<Rightarrow> nat \<Rightarrow> string" where
  "event_id now sequence = show_nat (nat \<lfloor>now * 1000\<rfloor>) @ ''-'' @ show_nat sequence"

definition next_id :: "real \<Rightarrow> string \<Rightarrow> bridge \<Rightarrow> bridge \<times> string" where
  "next_id now run b =
    (let n = get_or (sb_counters b) run 0 + 1
     in (b\<lparr>sb_counters := AList.update run n (sb_counters b)\<rparr>, event_id now (n - 1)))"

definition trim :: "nat \<Rightarrow> run_stream \<Rightarrow> run_stream" where
  "trim maxsize s =
    (if length (rs_events s) \<le> maxsize then s
     else let overflow = length (rs_events s) - maxsize
       in s\<lparr>rs_events := drop overflow (rs_events s), rs_offset := rs_offset s + overflow\<rparr>)"

definition set_stream :: "nat \<Rightarrow> (run_stream \<Rightarrow> run_stream) \<Rightarrow> bridge \<Rightarrow> bridge" where
  "set_stream a f b = b\<lparr>sb_heap := (sb_heap b)[a := f (sb_heap b ! a)]\<rparr>"

definition append_event :: "nat \<Rightarrow> stream_event \<Rightarrow> run_stream \<Rightarrow> run_stream" where
  "append_event maxsize e s =
    (let s' = trim maxsize (s\<lparr>rs_events := rs_events s @ [e]\<rparr>)
     in if se_event e = ''run.closed'' then s'\<lparr>rs_ended := True\<rparr> else s')"

definition schedule_cleanup :: "string \<Rightarrow> nat \<Rightarrow> bridge \<Rightarrow> bridge" where
  "schedule_cleanup run a b =
    (if (case map_of (sb_tasks b) run of None \<Rightarrow> False | Some t \<Rightarrow> \<not> ct_done (sb_task_heap b ! t)) then b
     else b\<lparr>sb_task_heap := sb_task_heap b @ [\<lparr>ct_run = run, ct_stream = a, ct_done = False\<rparr>],
            sb_tasks := AList.update run (length (sb_task_heap b)) (sb_tasks b)\<rparr>)"

definition store_event :: "string \<Rightarrow> nat \<Rightarrow> stream_event \<Rightarrow> bridge \<Rightarrow> bridge" where
  "store_event run a e b =
    (let b1 = set_stream a (append_event (sb_maxsize b) e) b
     in if se_event e = ''run.closed'' then schedule_cleanup run a b1 else b1)"

definition publish :: "real \<Rightarrow> string \<Rightarrow> string \<Rightarrow> pyval \<Rightarrow> bridge \<Rightarrow> py_error + bridge \<times> stream_event" where
  "publish now run event data b =
    bind_ok (get_or_create_stream run b) (\<lambda>(b1, a).
      let (b2, i) = next_id now run b1; e = \<lparr>se_id = i, se_event = event, se_data = data\<rparr>
      in Inr (store_event run a e b2, e))"

definition publish_event :: "string \<Rightarrow> stream_event \<Rightarrow> bridge \<Rightarrow> py_error + bridge \<times> stream_event" where
  "publish_event run e b =
    bind_ok (get_or_create_stream run b) (\<lambda>(b1, a). Inr (store_event run a e b1, e))"

definition publish_end :: "string \<Rightarrow> bridge \<Rightarrow> py_error + bridge" where
  "publish_end run b =
    (if sb_shutdown b then Inr b
     else bind_ok (get_or_create_stream run b) (\<lambda>(b1, a).
       Inr (schedule_cleanup run a (set_stream a (\<lambda>s. s\<lparr>rs_ended := True\<rparr>) b1))))"

section \<open>Subscribing\<close>

text \<open>A subscriber is its generator: not started on a stream of a bridge that was shut down, or the
  stream it reads and the offset of its next event.\<close>

datatype subscriber = OnClosedBridge | Reading nat nat | Finished

definition resolve_start_offset :: "run_stream \<Rightarrow> string option \<Rightarrow> nat" where
  "resolve_start_offset s last_event_id = (case last_event_id of
     None \<Rightarrow> rs_offset s
   | Some i \<Rightarrow> (case find (\<lambda>(k, e). se_id e = i) (enumerate 0 (rs_events s)) of
       Some (k, e) \<Rightarrow> rs_offset s + k + 1
     | None \<Rightarrow> rs_offset s))"

definition subscribe :: "string \<Rightarrow> string option \<Rightarrow> bridge \<Rightarrow> py_error + bridge \<times> subscriber" where
  "subscribe run last_event_id b =
    (if sb_shutdown b then Inr (b, OnClosedBridge)
     else bind_ok (get_or_create_stream run b) (\<lambda>(b1, a).
       Inr (b1, Reading a (resolve_start_offset (sb_heap b1 ! a) last_event_id))))"

text \<open>One turn of the subscriber's loop: what it yields, and nothing while it waits for a notification
  (\<open>timed_out\<close> says that the heartbeat interval passed without one).\<close>

definition read_stream :: "bool \<Rightarrow> run_stream \<Rightarrow> nat \<Rightarrow> nat \<times> stream_entry option" where
  "read_stream timed_out s next_offset =
    (let offset = max next_offset (rs_offset s); i = offset - rs_offset s
     in if i < length (rs_events s) then (offset + 1, Some (Entry (rs_events s ! i)))
        else if rs_ended s then (offset, Some End)
        else (offset, if timed_out then Some Heartbeat else None))"

definition subscriber_step :: "bool \<Rightarrow> bridge \<Rightarrow> subscriber \<Rightarrow> subscriber \<times> stream_entry option" where
  "subscriber_step timed_out b sub = (case sub of
     OnClosedBridge \<Rightarrow> (Finished, Some End)
   | Finished \<Rightarrow> (Finished, None)
   | Reading a next_offset \<Rightarrow>
       (let (offset, entry) = read_stream timed_out (sb_heap b ! a) next_offset
        in (if entry = Some End then Finished else Reading a offset, entry)))"

section \<open>Reading and cleaning up\<close>

definition stream_snapshot :: "string \<Rightarrow> bridge \<Rightarrow> stream_event list" where
  "stream_snapshot run b = (case map_of (sb_streams b) run of None \<Rightarrow> [] | Some a \<Rightarrow> rs_events (sb_heap b ! a))"

definition stream_ended :: "string \<Rightarrow> bridge \<Rightarrow> bool option" where
  "stream_ended run b = map_option (\<lambda>a. rs_ended (sb_heap b ! a)) (map_of (sb_streams b) run)"

definition task_done :: "nat \<Rightarrow> bridge \<Rightarrow> bridge" where
  "task_done t b = b\<lparr>sb_task_heap := (sb_task_heap b)[t := (sb_task_heap b ! t)\<lparr>ct_done := True\<rparr>]\<rparr>"

definition drop_stream :: "string \<Rightarrow> bridge \<Rightarrow> bridge" where
  "drop_stream run b = b\<lparr>sb_streams := AList.delete run (sb_streams b), sb_counters := AList.delete run (sb_counters b)\<rparr>"

text \<open>Cancelling a task that waits: the handler of \<open>CancelledError\<close> in \<open>_cleanup_after_delay\<close>.\<close>

definition cancel_task :: "nat \<Rightarrow> bridge \<Rightarrow> bridge" where
  "cancel_task t b =
    (let run = ct_run (sb_task_heap b ! t);
         b1 = (if map_of (sb_tasks b) run = Some t then b\<lparr>sb_tasks := AList.delete run (sb_tasks b)\<rparr> else b)
     in task_done t b1)"

text \<open>The end of the task's wait.\<close>

definition cleanup_after_delay :: "nat \<Rightarrow> bridge \<Rightarrow> bridge" where
  "cleanup_after_delay t b =
    (let task = sb_task_heap b ! t; run = ct_run task
     in task_done t
       (if map_of (sb_tasks b) run \<noteq> Some t then b
        else (let b1 = b\<lparr>sb_tasks := AList.delete run (sb_tasks b)\<rparr>
          in if map_of (sb_streams b1) run = Some (ct_stream task) then drop_stream run b1 else b1)))"

text \<open>\<open>cleanup\<close> looks the stream up, sleeps, and removes that stream if it is still the run's.\<close>

definition cleanup_lookup :: "string \<Rightarrow> bridge \<Rightarrow> nat option" where
  "cleanup_lookup run b = map_of (sb_streams b) run"

definition remove_stream :: "string \<Rightarrow> nat option \<Rightarrow> bridge \<Rightarrow> bridge" where
  "remove_stream run a b =
    (if a \<noteq> None \<and> map_of (sb_streams b) run = a
     then (let b1 = drop_stream run b in case map_of (sb_tasks b1) run of
         None \<Rightarrow> b1
       | Some t \<Rightarrow> cancel_task t (b1\<lparr>sb_tasks := AList.delete run (sb_tasks b1)\<rparr>))
     else b)"

definition close_streams :: "bool \<Rightarrow> bridge \<Rightarrow> bridge" where
  "close_streams permanent b =
    (let streams = vals (sb_streams b); tasks = vals (sb_tasks b);
         b1 = b\<lparr>sb_shutdown := sb_shutdown b \<or> permanent, sb_streams := [], sb_counters := [], sb_tasks := []\<rparr>;
         b2 = fold cancel_task tasks b1
     in fold (\<lambda>a. set_stream a (\<lambda>s. s\<lparr>rs_ended := True\<rparr>)) streams b2)"

section \<open>The event log\<close>

text \<open>The stream after \<open>evs\<close> was published to it, with a buffer of \<open>M\<close> events.\<close>

definition log_view :: "nat \<Rightarrow> stream_event list \<Rightarrow> run_stream \<Rightarrow> bool" where
  "log_view M evs s \<longleftrightarrow> rs_offset s = length evs - M \<and> rs_events s = drop (length evs - M) evs"

lemma log_view_init: "log_view M [] run_stream_init"
  by (simp add: log_view_def run_stream_init_def)

lemma log_view_ended [simp]: "log_view M evs (s\<lparr>rs_ended := x\<rparr>) = log_view M evs s"
  by (simp add: log_view_def)

lemma log_view_append:
  assumes "log_view M evs s"
  shows "log_view M (evs @ [e]) (append_event M e s)"
proof (cases "length evs < M")
  case True
  then show ?thesis using assms by (auto simp: log_view_def append_event_def trim_def Let_def)
next
  case False
  then have "length (rs_events s) = M" using assms by (simp add: log_view_def)
  then show ?thesis using assms False
    by (auto simp: log_view_def append_event_def trim_def Let_def Suc_diff_le)
qed

lemma append_event_ended: "rs_ended (append_event M e s) = (rs_ended s \<or> se_event e = ''run.closed'')"
  by (simp add: append_event_def trim_def Let_def)

text \<open>A reader beside a writer, in any interleaving.\<close>

datatype stream_action = Append stream_event | ReadNext bool

fun stream_actions :: "nat \<Rightarrow> stream_action list \<Rightarrow> run_stream \<times> nat \<Rightarrow> (run_stream \<times> nat) \<times> stream_entry list" where
  "stream_actions M [] st = (st, [])"
| "stream_actions M (Append e # acts) (s, n) = stream_actions M acts (append_event M e s, n)"
| "stream_actions M (ReadNext timed_out # acts) (s, n) =
    (let (n', entry) = read_stream timed_out s n; (st, out) = stream_actions M acts (s, n')
     in (st, (case entry of None \<Rightarrow> out | Some x \<Rightarrow> x # out)))"

definition appended :: "stream_action list \<Rightarrow> stream_event list" where
  "appended acts = concat (map (\<lambda>a. case a of Append e \<Rightarrow> [e] | ReadNext t \<Rightarrow> []) acts)"

definition delivered :: "stream_entry list \<Rightarrow> stream_event list" where
  "delivered out = concat (map (\<lambda>x. case x of Entry e \<Rightarrow> [e] | _ \<Rightarrow> []) out)"

lemma stream_actions_append:
  "stream_actions M (as @ bs) st = (let (st1, out1) = stream_actions M as st; (st2, out2) = stream_actions M bs st1
     in (st2, out1 @ out2))"
proof (induction as arbitrary: st)
  case Nil
  then show ?case by (simp add: split_beta)
next
  case (Cons a as)
  obtain s n where st: "st = (s, n)" by (cases st)
  show ?case by (cases a) (simp_all add: st Cons.IH split_beta Let_def split: option.split)
qed

lemma read_view:
  assumes "log_view M evs s" "n \<le> length evs"
  obtains (event) j where "j = max n (length evs - M)" "j < length evs" "read_stream t s n = (j + 1, Some (Entry (evs ! j)))"
  | (exhausted) x where "max n (length evs - M) = length evs" "read_stream t s n = (length evs, x)" "x \<in> {Some End, Some Heartbeat, None}"
      "x = Some End \<longleftrightarrow> rs_ended s"
proof (cases "max n (length evs - M) < length evs")
  case True
  show thesis
    by (rule event [OF refl True]) (use True assms(1) in \<open>auto simp: read_stream_def log_view_def Let_def\<close>)
next
  case False
  then have "max n (length evs - M) = length evs" using assms(2) by (auto simp: max_def split: if_splits)
  then show thesis using assms
    by (intro exhausted [of "snd (read_stream t s n)"]) (auto simp: read_stream_def log_view_def Let_def)
qed

text \<open>Where a reader stands: it was given a subsequence of what it passed, all of it unless the log has
  outgrown the buffer.\<close>

lemma stream_actions_inv:
  assumes "stream_actions M acts (run_stream_init, 0) = ((s, n), out)"
  shows "log_view M (appended acts) s \<and> n \<le> length (appended acts) \<and>
    subseq (delivered out) (take n (appended acts)) \<and>
    (length (appended acts) \<le> M \<longrightarrow> delivered out = take n (appended acts))"
  using assms
proof (induction acts arbitrary: s n out rule: rev_induct)
  case Nil
  then show ?case by (auto simp: appended_def delivered_def log_view_init)
next
  case (snoc a acts)
  obtain s1 n1 out1 where r: "stream_actions M acts (run_stream_init, 0) = ((s1, n1), out1)"
    by (metis prod.exhaust)
  let ?evs = "appended acts"
  note IH = snoc.IH [OF r]
  show ?case
  proof (cases a)
    case (Append e)
    then have st: "s = append_event M e s1" "n = n1" "out = out1" "appended (acts @ [a]) = ?evs @ [e]"
      using snoc.prems r by (auto simp: stream_actions_append appended_def)
    then show ?thesis using IH log_view_append [of M ?evs s1 e] by simp
  next
    case (ReadNext t)
    have lg: "appended (acts @ [a]) = ?evs" using ReadNext by (simp add: appended_def)
    have v: "log_view M ?evs s1" "n1 \<le> length ?evs" using IH by blast+
    show ?thesis
    proof (rule read_view [OF v, of t])
      fix j
      assume event: "j = max n1 (length ?evs - M)" "j < length ?evs" "read_stream t s1 n1 = (j + 1, Some (Entry (?evs ! j)))"
      then have st: "s = s1" "n = j + 1" "out = out1 @ [Entry (?evs ! j)]"
        using snoc.prems r ReadNext by (auto simp: stream_actions_append)
      have tk: "take (j + 1) ?evs = take j ?evs @ [?evs ! j]" using event(2) by (simp add: take_Suc_conv_app_nth)
      have "subseq (take n1 ?evs) (take j ?evs)" using event(1)
        by (metis max.cobounded1 prefix_imp_subseq take_is_prefix take_take min.absorb1)
      then have "subseq (delivered out1) (take j ?evs)" using IH subseq_order.trans by blast
      then have "subseq (delivered out) (take n ?evs)" using st tk by (simp add: delivered_def subseq_append')
      moreover have "delivered out = take n ?evs" if "length ?evs \<le> M"
        using IH that st tk event(1) by (simp add: delivered_def)
      ultimately show ?thesis using v st event(2) lg by simp
    next
      fix x
      assume exhausted: "max n1 (length ?evs - M) = length ?evs" "read_stream t s1 n1 = (length ?evs, x)"
        "x \<in> {Some End, Some Heartbeat, None}"
      have d: "s = s1" "n = length ?evs" "delivered out = delivered out1"
        using snoc.prems r ReadNext exhausted by (auto simp: stream_actions_append delivered_def)
      have "subseq (take n1 ?evs) ?evs" by (simp add: prefix_imp_subseq take_is_prefix)
      then have "subseq (delivered out1) ?evs" using IH subseq_order.trans by blast
      moreover have "n1 = length ?evs" if "length ?evs \<le> M" using exhausted(1) that by simp
      ultimately show ?thesis using IH d lg v by auto
    qed
  qed
qed

section \<open>Resuming\<close>

lemma event_id_inject: "event_id t m = event_id u n \<Longrightarrow> m = n"
proof -
  assume e: "event_id t m = event_id u n"
  have d: "dropWhile (\<lambda>c. c \<noteq> CHR ''-'') (event_id t m) = CHR ''-'' # show_nat m" for t m
  proof -
    have "c \<noteq> CHR ''-''" if "c \<in> set (show_nat k)" for c k using show_nat_digits [OF that] by auto
    then show ?thesis by (simp add: event_id_def)
  qed
  have "CHR ''-'' # show_nat m = CHR ''-'' # show_nat n" using d [of t m] d [of u n] e by simp
  then show ?thesis by simp
qed

text \<open>Publishing to one run, one event after the other, each at its own time.\<close>

fun publish_all :: "string \<Rightarrow> (real \<times> string \<times> pyval) list \<Rightarrow> bridge \<Rightarrow> py_error + bridge \<times> stream_event list" where
  "publish_all run [] b = Inr (b, [])"
| "publish_all run ((now, event, data) # ps) b =
    bind_ok (publish now run event data b) (\<lambda>(b1, e).
      bind_ok (publish_all run ps b1) (\<lambda>(b2, es). Inr (b2, e # es)))"

text \<open>The run's stream has the log \<open>evs\<close>, numbered from zero.\<close>

definition run_log :: "string \<Rightarrow> stream_event list \<Rightarrow> bridge \<Rightarrow> bool" where
  "run_log run evs b \<longleftrightarrow> \<not> sb_shutdown b \<and>
    (case map_of (sb_streams b) run of
       None \<Rightarrow> evs = []
     | Some a \<Rightarrow> a < length (sb_heap b) \<and> log_view (sb_maxsize b) evs (sb_heap b ! a) \<and>
         map_of (sb_counters b) run = Some (length evs)) \<and>
    (\<forall>k < length evs. \<exists>t. se_id (evs ! k) = event_id t k)"

lemma run_log_distinct: "run_log run evs b \<Longrightarrow> distinct (map se_id evs)"
  unfolding distinct_conv_nth run_log_def using event_id_inject by (metis length_map nth_map)

lemma get_or_create_run_log:
  assumes "run_log run evs b"
  obtains b1 a where "get_or_create_stream run b = Inr (b1, a)" "run_log run evs b1"
    "map_of (sb_streams b1) run = Some a" "sb_maxsize b1 = sb_maxsize b"
proof (cases "map_of (sb_streams b) run")
  case (Some a)
  then show thesis using assms by (intro that [of b a]) (auto simp: get_or_create_stream_def run_log_def)
next
  case None
  then show thesis using assms
    by (intro that [of "b\<lparr>sb_heap := sb_heap b @ [run_stream_init],
        sb_streams := AList.update run (length (sb_heap b)) (sb_streams b),
        sb_counters := AList.update run 0 (sb_counters b)\<rparr>" "length (sb_heap b)"])
      (simp_all add: get_or_create_stream_def run_log_def log_view_init Let_def)
qed

lemma schedule_cleanup_fields [simp]:
  "sb_heap (schedule_cleanup run a b) = sb_heap b" "sb_streams (schedule_cleanup run a b) = sb_streams b"
  "sb_counters (schedule_cleanup run a b) = sb_counters b" "sb_maxsize (schedule_cleanup run a b) = sb_maxsize b"
  "sb_shutdown (schedule_cleanup run a b) = sb_shutdown b"
  by (simp_all add: schedule_cleanup_def)

lemma set_stream_fields [simp]:
  "sb_streams (set_stream a f b) = sb_streams b" "sb_counters (set_stream a f b) = sb_counters b"
  "sb_maxsize (set_stream a f b) = sb_maxsize b" "sb_shutdown (set_stream a f b) = sb_shutdown b"
  "sb_tasks (set_stream a f b) = sb_tasks b" "sb_task_heap (set_stream a f b) = sb_task_heap b"
  "sb_heap (set_stream a f b) = (sb_heap b)[a := f (sb_heap b ! a)]"
  by (simp_all add: set_stream_def)

lemma store_event_fields [simp]:
  "sb_heap (store_event run a e b) = (sb_heap b)[a := append_event (sb_maxsize b) e (sb_heap b ! a)]"
  "sb_streams (store_event run a e b) = sb_streams b" "sb_counters (store_event run a e b) = sb_counters b"
  "sb_maxsize (store_event run a e b) = sb_maxsize b" "sb_shutdown (store_event run a e b) = sb_shutdown b"
  by (simp_all add: store_event_def Let_def)

lemma publish_run_log:
  assumes "run_log run evs b"
  obtains b' e where "publish now run event data b = Inr (b', e)" "run_log run (evs @ [e]) b'"
    "se_event e = event" "se_data e = data" "sb_maxsize b' = sb_maxsize b"
proof -
  obtain b1 a where c: "get_or_create_stream run b = Inr (b1, a)" "run_log run evs b1"
    "map_of (sb_streams b1) run = Some a" "sb_maxsize b1 = sb_maxsize b"
    using get_or_create_run_log [OF assms] .
  then have l: "a < length (sb_heap b1)" "log_view (sb_maxsize b1) evs (sb_heap b1 ! a)"
    "map_of (sb_counters b1) run = Some (length evs)" "\<not> sb_shutdown b1"
    "\<forall>k < length evs. \<exists>t. se_id (evs ! k) = event_id t k"
    by (simp_all add: run_log_def)
  let ?e = "\<lparr>se_id = event_id now (length evs), se_event = event, se_data = data\<rparr>"
  let ?b = "store_event run a ?e (b1\<lparr>sb_counters := AList.update run (length evs + 1) (sb_counters b1)\<rparr>)"
  have g: "get_or (sb_counters b1) run 0 = length evs" using l(3) by (simp add: get_or_def)
  have "publish now run event data b = Inr (?b, ?e)" by (simp add: publish_def c(1) next_id_def g Let_def)
  moreover have "run_log run (evs @ [?e]) ?b"
    using l c(3) log_view_append [OF l(2), of ?e] by (auto simp: run_log_def nth_append less_Suc_eq)
  ultimately show thesis using c(4) by (intro that [of ?b ?e]) simp_all
qed

lemma publish_all_run_log:
  assumes "run_log run evs b" "publish_all run ps b = Inr (b', es)"
  shows "run_log run (evs @ es) b' \<and> sb_maxsize b' = sb_maxsize b \<and> length es = length ps"
  using assms
proof (induction ps arbitrary: evs b es)
  case Nil
  then show ?case by simp
next
  case (Cons p ps)
  obtain now event data where p: "p = (now, event, data)" by (metis prod.exhaust)
  obtain b1 e where e: "publish now run event data b = Inr (b1, e)" "run_log run (evs @ [e]) b1" "sb_maxsize b1 = sb_maxsize b"
    using publish_run_log [OF Cons.prems(1)] by metis
  obtain es' where es: "publish_all run ps b1 = Inr (b', es')" "es = e # es'"
    using Cons.prems(2) by (auto simp: p e(1) bind_ok_Inr_iff)
  show ?case using Cons.IH [OF e(2) es(1)] e(3) es(2) by simp
qed

lemma publish_all_ok:
  "run_log run evs b \<Longrightarrow> \<exists>b' es. publish_all run ps b = Inr (b', es)"
proof (induction ps arbitrary: evs b)
  case Nil
  then show ?case by simp
next
  case (Cons p ps)
  obtain now event data where p: "p = (now, event, data)" by (metis prod.exhaust)
  obtain b1 e where e: "publish now run event data b = Inr (b1, e)" "run_log run (evs @ [e]) b1"
    using publish_run_log [OF Cons.prems] by metis
  obtain b' es where "publish_all run ps b1 = Inr (b', es)" using Cons.IH [OF e(2)] by blast
  then show ?case by (simp add: p e(1))
qed

lemma find_enumerate_distinct:
  assumes "distinct (map f xs)" "k < length xs"
  shows "find (\<lambda>(j, x). f x = f (xs ! k)) (enumerate 0 xs) = Some (k, xs ! k)"
proof -
  have "find (\<lambda>(j, x). f x = f (xs ! k)) (enumerate 0 xs) = Some (enumerate 0 xs ! k)"
    unfolding find_Some_iff
    by (intro exI [of _ k]) (use assms in \<open>auto simp: nth_enumerate_eq distinct_conv_nth\<close>)
  then show ?thesis using assms(2) by (simp add: nth_enumerate_eq)
qed

lemma find_enumerate_None:
  "(\<forall>x \<in> set xs. f x \<noteq> i) \<Longrightarrow> find (\<lambda>(j, x). f x = i) (enumerate n xs) = None"
  by (induction xs arbitrary: n) simp_all

lemma resolve_after_log:
  assumes "log_view M evs s" "distinct (map se_id evs)" "p < length evs"
  shows "resolve_start_offset s (Some (se_id (evs ! p))) = max (p + 1) (length evs - M)"
proof (cases "length evs - M \<le> p")
  case True
  let ?k = "length evs - M" and ?r = "drop (length evs - M) evs"
  have d: "distinct (map se_id ?r)" using assms(2) by (metis distinct_drop drop_map)
  have "?r ! (p - ?k) = evs ! p" using True assms(3) by simp
  then have "find (\<lambda>(j, e). se_id e = se_id (evs ! p)) (enumerate 0 ?r) = Some (p - ?k, evs ! p)"
    using find_enumerate_distinct [OF d, of "p - ?k"] True assms(3) by simp
  then show ?thesis using assms(1) True by (simp add: resolve_start_offset_def log_view_def)
next
  case False
  have "se_id e \<noteq> se_id (evs ! p)" if "e \<in> set (drop (length evs - M) evs)" for e
  proof -
    obtain j where "j < length evs - (length evs - M)" "e = evs ! (length evs - M + j)"
      using \<open>e \<in> _\<close> by (auto simp: in_set_conv_nth)
    then show ?thesis using False assms(2,3) by (auto simp: distinct_conv_nth)
  qed
  then show ?thesis using assms(1) False
    by (simp add: resolve_start_offset_def log_view_def find_enumerate_None)
qed

section \<open>The registry\<close>

text \<open>Every operation of the bridge that changes its state, in any order. A waiting cleanup task may fire
  or be cancelled at any time, and \<open>cleanup\<close> removes a stream it looked up at any earlier time.\<close>

inductive bridge_step :: "bridge \<Rightarrow> bridge \<Rightarrow> bool" where
  step_publish: "publish now run event data b = Inr (b', e) \<Longrightarrow> bridge_step b b'"
| step_publish_event: "publish_event run e b = Inr (b', e) \<Longrightarrow> bridge_step b b'"
| step_publish_end: "publish_end run b = Inr b' \<Longrightarrow> bridge_step b b'"
| step_subscribe: "subscribe run last_id b = Inr (b', sub) \<Longrightarrow> bridge_step b b'"
| step_remove: "bridge_step b (remove_stream run a b)"
| step_fire: "t < length (sb_task_heap b) \<Longrightarrow> \<not> ct_done (sb_task_heap b ! t) \<Longrightarrow> bridge_step b (cleanup_after_delay t b)"
| step_cancel: "t < length (sb_task_heap b) \<Longrightarrow> \<not> ct_done (sb_task_heap b ! t) \<Longrightarrow> bridge_step b (cancel_task t b)"
| step_close: "bridge_step b (close_streams permanent b)"

definition streams_ok :: "bridge \<Rightarrow> bool" where
  "streams_ok b \<longleftrightarrow> wf_dict (sb_streams b) \<and> wf_dict (sb_tasks b) \<and>
    (\<forall>run a. map_of (sb_streams b) run = Some a \<longrightarrow> a < length (sb_heap b)) \<and>
    (\<forall>run run' a. map_of (sb_streams b) run = Some a \<and> map_of (sb_streams b) run' = Some a \<longrightarrow> run = run') \<and>
    (\<forall>s \<in> set (sb_heap b). length (rs_events s) \<le> sb_maxsize b)"

text \<open>A registered cleanup task waits, belongs to its run, and to the stream the run has now; that
  stream has ended.\<close>

definition task_ok :: "bridge \<Rightarrow> string \<Rightarrow> nat \<Rightarrow> bool" where
  "task_ok b run t \<longleftrightarrow> t < length (sb_task_heap b) \<and>
    (let task = sb_task_heap b ! t in ct_run task = run \<and> \<not> ct_done task \<and>
      map_of (sb_streams b) run = Some (ct_stream task) \<and> rs_ended (sb_heap b ! ct_stream task))"

definition tasks_ok :: "bridge \<Rightarrow> bool" where
  "tasks_ok b \<longleftrightarrow> (\<forall>run t. map_of (sb_tasks b) run = Some t \<longrightarrow> task_ok b run t)"

definition bridge_ok :: "bridge \<Rightarrow> bool" where
  "bridge_ok b \<longleftrightarrow> streams_ok b \<and> tasks_ok b"

lemma get_or_create_ok:
  assumes ok: "bridge_ok b" and g: "get_or_create_stream run b = Inr (b1, a)"
  shows "bridge_ok b1" "map_of (sb_streams b1) run = Some a" "sb_maxsize b1 = sb_maxsize b"
proof -
  have "bridge_ok b1 \<and> map_of (sb_streams b1) run = Some a \<and> sb_maxsize b1 = sb_maxsize b"
  proof (cases "map_of (sb_streams b) run")
    case (Some a')
    then show ?thesis using assms by (auto simp: get_or_create_stream_def split: if_splits)
  next
    case None
    then have b1: "b1 = b\<lparr>sb_heap := sb_heap b @ [run_stream_init],
        sb_streams := AList.update run (length (sb_heap b)) (sb_streams b),
        sb_counters := AList.update run 0 (sb_counters b)\<rparr>" "a = length (sb_heap b)"
      using g by (auto simp: get_or_create_stream_def Let_def split: if_splits)
    have lt: "map_of (sb_streams b) r = Some c \<Longrightarrow> c < length (sb_heap b)" for r c
      using ok by (auto simp: bridge_ok_def streams_ok_def)
    have "streams_ok b1" using ok lt None unfolding b1 bridge_ok_def streams_ok_def
      by (auto simp: run_stream_init_def intro: less_SucI)
    moreover have "tasks_ok b1" using ok lt None unfolding b1 bridge_ok_def tasks_ok_def task_ok_def Let_def
      by (auto simp: nth_append)
    ultimately show ?thesis using b1 by (simp add: bridge_ok_def)
  qed
  then show "bridge_ok b1" "map_of (sb_streams b1) run = Some a" "sb_maxsize b1 = sb_maxsize b" by blast+
qed

text \<open>Changing one stream, as long as it stays bounded and does not restart.\<close>

lemma set_stream_ok:
  assumes ok: "bridge_ok b" and f: "a < length (sb_heap b)" "length (rs_events (f (sb_heap b ! a))) \<le> sb_maxsize b"
    "rs_ended (sb_heap b ! a) \<Longrightarrow> rs_ended (f (sb_heap b ! a))"
  shows "bridge_ok (set_stream a f b)"
proof -
  have "streams_ok (set_stream a f b)" using ok f(2) unfolding bridge_ok_def streams_ok_def
    by (auto dest!: set_update_subset_insert [THEN subsetD])
  moreover have "tasks_ok (set_stream a f b)" using ok f(1,3) unfolding bridge_ok_def tasks_ok_def task_ok_def Let_def
    by (auto simp: nth_list_update)
  ultimately show ?thesis by (simp add: bridge_ok_def)
qed

lemma schedule_cleanup_ok:
  assumes ok: "bridge_ok b" and a: "map_of (sb_streams b) run = Some a" "rs_ended (sb_heap b ! a)"
  shows "bridge_ok (schedule_cleanup run a b)"
proof -
  have "tasks_ok (schedule_cleanup run a b)"
    using ok a unfolding bridge_ok_def tasks_ok_def task_ok_def schedule_cleanup_def Let_def
    by (auto simp: nth_append intro: less_SucI split: option.splits)
  moreover have "streams_ok (schedule_cleanup run a b)"
    using ok unfolding bridge_ok_def streams_ok_def schedule_cleanup_def by auto
  ultimately show ?thesis by (simp add: bridge_ok_def)
qed

lemma append_event_bounded: "length (rs_events (append_event M e s)) \<le> M"
  by (simp add: append_event_def trim_def Let_def) arith

lemma store_event_ok:
  assumes ok: "bridge_ok b" and a: "map_of (sb_streams b) run = Some a"
  shows "bridge_ok (store_event run a e b)"
proof -
  have lt: "a < length (sb_heap b)" using ok a by (auto simp: bridge_ok_def streams_ok_def)
  have 1: "bridge_ok (set_stream a (append_event (sb_maxsize b) e) b)"
    by (rule set_stream_ok [OF ok lt append_event_bounded]) (simp add: append_event_ended)
  show ?thesis unfolding store_event_def Let_def
    using 1 schedule_cleanup_ok [OF 1, of run a] a lt by (simp add: append_event_ended)
qed

lemma counters_ok [simp]: "bridge_ok (b\<lparr>sb_counters := c\<rparr>) = bridge_ok b"
  by (simp add: bridge_ok_def streams_ok_def tasks_ok_def task_ok_def Let_def)

lemma publish_ok:
  assumes "bridge_ok b" "publish now run event data b = Inr (b', e)"
  shows "bridge_ok b'"
proof -
  obtain b1 a where g: "get_or_create_stream run b = Inr (b1, a)"
    "b' = store_event run a e (fst (next_id now run b1))"
    using assms(2) by (auto simp: publish_def bind_ok_Inr_iff split_beta Let_def)
  show ?thesis unfolding g(2) next_id_def Let_def fst_conv
    by (rule store_event_ok) (use get_or_create_ok [OF assms(1) g(1)] in simp_all)
qed

lemma publish_event_ok:
  assumes "bridge_ok b" "publish_event run e b = Inr (b', e')"
  shows "bridge_ok b'"
proof -
  obtain b1 a where g: "get_or_create_stream run b = Inr (b1, a)" "b' = store_event run a e b1"
    using assms(2) by (auto simp: publish_event_def bind_ok_Inr_iff)
  show ?thesis unfolding g(2) by (rule store_event_ok) (use get_or_create_ok [OF assms(1) g(1)] in simp_all)
qed

lemma publish_end_ok:
  assumes "bridge_ok b" "publish_end run b = Inr b'"
  shows "bridge_ok b'"
proof (cases "sb_shutdown b")
  case True
  then show ?thesis using assms by (simp add: publish_end_def)
next
  case False
  then obtain b1 a where g: "get_or_create_stream run b = Inr (b1, a)"
    "b' = schedule_cleanup run a (set_stream a (\<lambda>s. s\<lparr>rs_ended := True\<rparr>) b1)"
    using assms(2) by (auto simp: publish_end_def bind_ok_Inr_iff)
  note c = get_or_create_ok [OF assms(1) g(1)]
  have lt: "a < length (sb_heap b1)" using c by (auto simp: bridge_ok_def streams_ok_def)
  have "length (rs_events (sb_heap b1 ! a)) \<le> sb_maxsize b1" using c(1) lt by (auto simp: bridge_ok_def streams_ok_def)
  then have "bridge_ok (set_stream a (\<lambda>s. s\<lparr>rs_ended := True\<rparr>) b1)" by (intro set_stream_ok c(1) lt) simp_all
  then show ?thesis unfolding g(2) by (rule schedule_cleanup_ok) (use c(2) lt in simp_all)
qed

lemma subscribe_ok:
  assumes "bridge_ok b" "subscribe run i b = Inr (b', sub)"
  shows "bridge_ok b'"
  using assms get_or_create_ok(1) [OF assms(1)] by (auto simp: subscribe_def bind_ok_Inr_iff split: if_splits)

text \<open>Forgetting streams together with their tasks.\<close>

lemma forget_ok:
  assumes ok: "bridge_ok b"
  shows "bridge_ok (drop_stream run (b\<lparr>sb_tasks := AList.delete run (sb_tasks b)\<rparr>))"
    "bridge_ok (b\<lparr>sb_tasks := AList.delete run (sb_tasks b)\<rparr>)"
    "map_of (sb_tasks b) run = None \<Longrightarrow> bridge_ok (drop_stream run b)"
  using ok unfolding bridge_ok_def streams_ok_def tasks_ok_def task_ok_def drop_stream_def Let_def
  by (auto split: if_splits)

lemma task_done_ok:
  assumes "bridge_ok b" "\<And>run. map_of (sb_tasks b) run \<noteq> Some t"
  shows "bridge_ok (task_done t b)"
proof -
  have "tasks_ok (task_done t b)" unfolding tasks_ok_def
  proof (intro allI impI)
    fix run u
    assume "map_of (sb_tasks (task_done t b)) run = Some u"
    then have u: "map_of (sb_tasks b) run = Some u" by (simp add: task_done_def)
    then have "u \<noteq> t" "task_ok b run u" using assms by (auto simp: bridge_ok_def tasks_ok_def)
    then show "task_ok (task_done t b) run u" by (simp add: task_ok_def task_done_def Let_def)
  qed
  then show ?thesis using assms(1) by (simp add: bridge_ok_def streams_ok_def task_done_def)
qed

lemma registered_run: "bridge_ok b \<Longrightarrow> map_of (sb_tasks b) run = Some t \<Longrightarrow> ct_run (sb_task_heap b ! t) = run"
  by (simp add: bridge_ok_def tasks_ok_def task_ok_def Let_def)

lemma cancel_task_ok:
  assumes ok: "bridge_ok b"
  shows "bridge_ok (cancel_task t b)"
proof -
  let ?run = "ct_run (sb_task_heap b ! t)"
  show ?thesis unfolding cancel_task_def Let_def
  proof (rule task_done_ok)
    show "bridge_ok (if map_of (sb_tasks b) ?run = Some t then b\<lparr>sb_tasks := AList.delete ?run (sb_tasks b)\<rparr> else b)"
      using forget_ok(2) [OF ok] ok by simp
  next
    fix run
    show "map_of (sb_tasks (if map_of (sb_tasks b) ?run = Some t then b\<lparr>sb_tasks := AList.delete ?run (sb_tasks b)\<rparr> else b)) run \<noteq> Some t"
      using registered_run [OF ok, of run t] by auto
  qed
qed

lemma cleanup_after_delay_ok:
  assumes ok: "bridge_ok b"
  shows "bridge_ok (cleanup_after_delay t b)"
proof -
  let ?run = "ct_run (sb_task_heap b ! t)" and ?a = "ct_stream (sb_task_heap b ! t)"
  let ?b = "if map_of (sb_tasks b) ?run \<noteq> Some t then b
    else (let b1 = b\<lparr>sb_tasks := AList.delete ?run (sb_tasks b)\<rparr>
      in if map_of (sb_streams b1) ?run = Some ?a then drop_stream ?run b1 else b1)"
  have "bridge_ok ?b" using forget_ok(1,2) [OF ok] ok by (simp add: Let_def)
  moreover have "map_of (sb_tasks ?b) run \<noteq> Some t" for run
    using registered_run [OF ok, of run t] by (auto simp: Let_def drop_stream_def)
  ultimately show ?thesis unfolding cleanup_after_delay_def Let_def by (intro task_done_ok) (simp_all add: Let_def)
qed

lemma remove_stream_ok:
  assumes ok: "bridge_ok b"
  shows "bridge_ok (remove_stream run a b)"
proof (cases "a \<noteq> None \<and> map_of (sb_streams b) run = a")
  case True
  show ?thesis
  proof (cases "map_of (sb_tasks b) run")
    case None
    then have "map_of (sb_tasks (drop_stream run b)) run = None" by (simp add: drop_stream_def)
    then show ?thesis using True forget_ok(3) [OF ok None] by (simp add: remove_stream_def Let_def)
  next
    case (Some t)
    have "(drop_stream run b)\<lparr>sb_tasks := AList.delete run (sb_tasks b)\<rparr> = drop_stream run (b\<lparr>sb_tasks := AList.delete run (sb_tasks b)\<rparr>)"
      "sb_tasks (drop_stream run b) = sb_tasks b" by (simp_all add: drop_stream_def)
    then show ?thesis using True Some cancel_task_ok [OF forget_ok(1) [OF ok]] by (simp add: remove_stream_def Let_def)
  qed
next
  case False
  then show ?thesis using ok by (auto simp: remove_stream_def)
qed

lemma close_streams_ok:
  assumes ok: "bridge_ok b"
  shows "bridge_ok (close_streams p b)"
proof -
  define P where "P = (\<lambda>b::bridge. sb_streams b = [] \<and> sb_tasks b = [] \<and> (\<forall>s \<in> set (sb_heap b). length (rs_events s) \<le> sb_maxsize b))"
  have c: "P b \<Longrightarrow> P (fold cancel_task ts b)" for ts b
    by (induction ts arbitrary: b) (simp_all add: P_def cancel_task_def task_done_def Let_def)
  have e: "P (set_stream a (\<lambda>s. s\<lparr>rs_ended := True\<rparr>) b)" if "P b" for a b
  proof (cases "a < length (sb_heap b)")
    case True
    then show ?thesis using that by (auto simp: P_def dest!: set_update_subset_insert [THEN subsetD])
  next
    case False
    then show ?thesis using that by (simp add: P_def list_update_beyond)
  qed
  have s: "P b \<Longrightarrow> P (fold (\<lambda>a. set_stream a (\<lambda>s. s\<lparr>rs_ended := True\<rparr>)) as b)" for as b
    by (induction as arbitrary: b) (simp_all add: e)
  have "P (b\<lparr>sb_shutdown := x, sb_streams := [], sb_counters := [], sb_tasks := []\<rparr>)" for x
    using ok by (simp add: P_def bridge_ok_def streams_ok_def)
  then have "P (close_streams p b)" unfolding close_streams_def Let_def by (intro s c)
  then show ?thesis by (simp add: P_def bridge_ok_def streams_ok_def tasks_ok_def)
qed

lemma bridge_init_ok: "bridge_init q m d = Inr b \<Longrightarrow> bridge_ok b"
  by (auto simp: bridge_init_def bridge_ok_def streams_ok_def tasks_ok_def Let_def split: if_splits)

lemma bridge_step_ok: "bridge_step b b' \<Longrightarrow> bridge_ok b \<Longrightarrow> bridge_ok b'"
  by (induction rule: bridge_step.induct)
    (blast intro: publish_ok publish_event_ok publish_end_ok subscribe_ok remove_stream_ok
      cleanup_after_delay_ok cancel_task_ok close_streams_ok)+

lemma bridge_reachable_ok: "bridge_step\<^sup>*\<^sup>* b b' \<Longrightarrow> bridge_ok b \<Longrightarrow> bridge_ok b'"
  by (induction rule: rtranclp_induct) (blast intro: bridge_step_ok)+

section \<open>Properties\<close>

text \<open>C13: a reader sees the log. However publishing and reading interleave on a stream, the events a reader
  is given are events published, each at most once and in their order; as long as no more events
  were published than the buffer holds, they are all of them up to where it stands; and a reader that
  gets the end mark was given the last event.\<close>

theorem reader_sees_log:
  assumes "stream_actions M acts (run_stream_init, 0) = ((s, n), out)"
  shows "subseq (delivered out) (appended acts) \<and>
    (length (appended acts) \<le> M \<longrightarrow> delivered out = take n (appended acts)) \<and>
    (\<forall>n'. read_stream t s n = (n', Some End) \<longrightarrow>
       n' = length (appended acts) \<and> (length (appended acts) \<le> M \<longrightarrow> delivered out = appended acts))"
proof -
  note i = stream_actions_inv [OF assms]
  have "subseq (take n (appended acts)) (appended acts)" by (simp add: prefix_imp_subseq take_is_prefix)
  then have 1: "subseq (delivered out) (appended acts)" using i subseq_order.trans by blast
  have 2: "n' = length (appended acts) \<and> (length (appended acts) \<le> M \<longrightarrow> delivered out = appended acts)"
    if "read_stream t s n = (n', Some End)" for n'
  proof (rule read_view [of M "appended acts" s n t])
    show "log_view M (appended acts) s" "n \<le> length (appended acts)" using i by blast+
  next
    fix j
    assume "read_stream t s n = (j + 1, Some (Entry (appended acts ! j)))"
    then show ?thesis using that by simp
  next
    fix x
    assume x: "max n (length (appended acts) - M) = length (appended acts)" "read_stream t s n = (length (appended acts), x)"
    have "n = length (appended acts)" if "length (appended acts) \<le> M" using x(1) that by simp
    then show ?thesis using i x(2) that by auto
  qed
  show ?thesis using 1 2 i by blast
qed

text \<open>C27: resuming. Whatever the clock, the events published to a run of a fresh bridge have different
  ids, and a subscriber that resumes after the \<open>p\<close>-th of them is given the next one that is retained:
  the \<open>p + 1\<close>-st, or the oldest in the buffer when that one was dropped.\<close>

theorem resume_exact:
  assumes "bridge_init q m d = Inr b0" "publish_all run ps b0 = Inr (b, es)" "p < length es"
  shows "distinct (map se_id es) \<and> (\<exists>a. subscribe run (Some (se_id (es ! p))) b =
    Inr (b, Reading a (max (p + 1) (length es - sb_maxsize b0))) \<and>
    (p + 1 < length es \<longrightarrow> snd (subscriber_step t b (Reading a (max (p + 1) (length es - sb_maxsize b0)))) =
       Some (Entry (es ! max (p + 1) (length es - sb_maxsize b0)))))"
proof -
  have M: "0 < sb_maxsize b0" and l0: "run_log run [] b0"
    using assms(1) by (auto simp: bridge_init_def run_log_def Let_def split: if_splits)
  have l: "run_log run es b" "sb_maxsize b = sb_maxsize b0" using publish_all_run_log [OF l0 assms(2)] by auto
  have ds: "distinct (map se_id es)" by (rule run_log_distinct [OF l(1)])
  obtain a where a: "map_of (sb_streams b) run = Some a" "log_view (sb_maxsize b0) es (sb_heap b ! a)" "\<not> sb_shutdown b"
    using l assms(3) by (auto simp: run_log_def split: option.splits)
  let ?o = "max (p + 1) (length es - sb_maxsize b0)"
  have "subscribe run (Some (se_id (es ! p))) b = Inr (b, Reading a ?o)"
    using a(1,3) resolve_after_log [OF a(2) ds assms(3)] by (simp add: subscribe_def get_or_create_stream_def)
  moreover have "snd (subscriber_step t b (Reading a ?o)) = Some (Entry (es ! ?o))" if "p + 1 < length es"
  proof -
    have "?o < length es" using that M by simp
    then have "read_stream t (sb_heap b ! a) ?o = (?o + 1, Some (Entry (es ! ?o)))"
      using a(2) by (auto simp: read_stream_def log_view_def Let_def)
    then show ?thesis by (simp add: subscriber_step_def)
  qed
  ultimately show ?thesis using ds by blast
qed

text \<open>The registry is consistent in every interleaving. In every reachable state, a run's stream is
  its own and its buffer holds at most the maximum, and no cleanup task, old or new, drops it before it
  has ended.\<close>

lemma cleanup_spares_live_streams:
  assumes "bridge_init q m d = Inr b0" "bridge_step\<^sup>*\<^sup>* b0 b" "map_of (sb_streams b) run = Some a"
  shows "a < length (sb_heap b) \<and> length (rs_events (sb_heap b ! a)) \<le> sb_maxsize b \<and>
    (\<forall>run'. map_of (sb_streams b) run' = Some a \<longrightarrow> run' = run) \<and>
    (\<forall>t. map_of (sb_streams (cleanup_after_delay t b)) run \<noteq> Some a \<longrightarrow> rs_ended (sb_heap b ! a))"
proof -
  have ok: "bridge_ok b" by (rule bridge_reachable_ok [OF assms(2) bridge_init_ok [OF assms(1)]])
  have lt: "a < length (sb_heap b)" using ok assms(3) by (auto simp: bridge_ok_def streams_ok_def)
  have len: "length (rs_events (sb_heap b ! a)) \<le> sb_maxsize b" using ok lt by (auto simp: bridge_ok_def streams_ok_def)
  have own: "run' = run" if "map_of (sb_streams b) run' = Some a" for run'
    using ok that assms(3) unfolding bridge_ok_def streams_ok_def by blast
  have "rs_ended (sb_heap b ! a)" if t: "map_of (sb_streams (cleanup_after_delay t b)) run \<noteq> Some a" for t
  proof -
    have r: "map_of (sb_tasks b) run = Some t" "ct_stream (sb_task_heap b ! t) = a"
      using t assms(3) by (auto simp: cleanup_after_delay_def task_done_def drop_stream_def Let_def split: if_splits)
    then have "task_ok b run t" using ok by (simp add: bridge_ok_def tasks_ok_def)
    then show ?thesis using r(2) by (simp add: task_ok_def Let_def)
  qed
  then show ?thesis using lt len own by blast
qed

text \<open>Three events through a buffer of two: the reader that stopped after the first misses nothing, the
  one that asks from the start is given the last two.\<close>

definition ex_event :: "string \<Rightarrow> stream_event" where
  "ex_event x = \<lparr>se_id = x, se_event = ''message.delta'', se_data = PStr x\<rparr>"

definition ex_actions :: "stream_action list" where
  "ex_actions = [Append (ex_event ''a''), ReadNext False, Append (ex_event ''b''), ReadNext False, ReadNext True]"

lemma reader_sees_log_witness:
  "snd (stream_actions 2 ex_actions (run_stream_init, 0)) = [Entry (ex_event ''a''), Entry (ex_event ''b''), Heartbeat] \<and>
   delivered [Entry (ex_event ''a''), Entry (ex_event ''b''), Heartbeat] = appended ex_actions"
proof -
  define r where "r = stream_actions 2 ex_actions (run_stream_init, 0)"
  have o: "snd r = [Entry (ex_event ''a''), Entry (ex_event ''b''), Heartbeat]" "snd (fst r) = 2"
    "length (appended ex_actions) = 2" unfolding r_def by code_simp+
  obtain s n out where st: "r = ((s, n), out)" by (metis prod.exhaust)
  show ?thesis using reader_sees_log [OF st [unfolded r_def]] o st unfolding r_def [symmetric] by simp
qed

definition ex_publishes :: "(real \<times> string \<times> pyval) list" where
  "ex_publishes = [(5, ''message.delta'', PInt 1), (4, ''message.delta'', PInt 2), (4, ''message.delta'', PInt 3)]"

definition ex_bridge :: bridge where
  "ex_bridge = \<lparr>sb_maxsize = 2, sb_delay = 60, sb_heap = [], sb_streams = [], sb_counters = [],
     sb_task_heap = [], sb_tasks = [], sb_shutdown = False\<rparr>"

lemma resume_exact_witness:
  "\<exists>b es a. publish_all ''r'' ex_publishes ex_bridge = Inr (b, es) \<and>
     subscribe ''r'' (Some (se_id (es ! 0))) b = Inr (b, Reading a 1) \<and>
     snd (subscriber_step False b (Reading a 1)) = Some (Entry (es ! 1))"
proof -
  have i: "bridge_init (Some 2) None 60 = Inr ex_bridge" by (simp add: bridge_init_def ex_bridge_def)
  have "run_log ''r'' [] ex_bridge" by (simp add: run_log_def ex_bridge_def)
  note l = this
  obtain b es where p: "publish_all ''r'' ex_publishes ex_bridge = Inr (b, es)" using publish_all_ok [OF l] by blast
  have "length es = 3" using publish_all_run_log [OF l p] by (simp add: ex_publishes_def)
  then show ?thesis using p resume_exact [OF i p, of 0 False] by (auto simp: ex_bridge_def)
qed


text \<open>A run that was closed, and cleaned up by its task.\<close>

definition ex_ended :: bridge where
  "ex_ended = ex_bridge\<lparr>sb_heap := [run_stream_init\<lparr>rs_ended := True\<rparr>], sb_streams := [(''r'', 0)], sb_counters := [(''r'', 0)],
     sb_task_heap := [\<lparr>ct_run = ''r'', ct_stream = 0, ct_done = False\<rparr>], sb_tasks := [(''r'', 0)]\<rparr>"

lemma cleanup_spares_live_streams_witness:
  "map_of (sb_streams ex_ended) ''r'' = Some 0 \<and> length (rs_events (sb_heap ex_ended ! 0)) \<le> sb_maxsize ex_ended \<and>
   map_of (sb_streams (cleanup_after_delay 0 ex_ended)) ''r'' = None \<and> rs_ended (sb_heap ex_ended ! 0)"
proof -
  have i: "bridge_init (Some 2) None 60 = Inr ex_bridge" by (simp add: bridge_init_def ex_bridge_def)
  have "publish_end ''r'' ex_bridge = Inr ex_ended"
    by (simp add: publish_end_def ex_bridge_def ex_ended_def get_or_create_stream_def Let_def schedule_cleanup_def set_stream_def)
  then have r: "bridge_step\<^sup>*\<^sup>* ex_bridge ex_ended" by (intro r_into_rtranclp step_publish_end)
  have s: "map_of (sb_streams ex_ended) ''r'' = Some 0" by (simp add: ex_ended_def)
  have c: "map_of (sb_streams (cleanup_after_delay 0 ex_ended)) ''r'' = None"
    by (simp add: ex_ended_def cleanup_after_delay_def task_done_def drop_stream_def Let_def)
  have n: "map_of (sb_streams (cleanup_after_delay 0 ex_ended)) ''r'' \<noteq> Some 0" unfolding c by simp
  show ?thesis using cleanup_spares_live_streams [OF i r s] s c n by blast
qed

end
