(* ===== verification/Publisher.thy ===== *)
theory Publisher
  imports StreamBridge
begin

text \<open>
  The lifecycle publisher of a run: \<open>AgentEventPublisher\<close> of
  \<open>src/focus_agent/harness/streaming/publisher.py\<close> on top of the stream bridge, with
  \<open>canonical_event_payload\<close> of \<open>protocol.py\<close>. Each \<open>on_...\<close> method is a constructor of \<open>hook\<close>; \<open>**extra\<close>
  is a dictionary. Closing is one step: a second close that comes while the first runs waits for the same task.
\<close>

record publisher =
  pu_run :: string
  pu_thread :: string
  pu_source :: string
  pu_sequence :: nat
  pu_failed :: bool
  pu_closed :: bool

definition publisher_init :: "string \<Rightarrow> string \<Rightarrow> string \<Rightarrow> publisher" where
  "publisher_init run thread source = \<lparr>pu_run = run, pu_thread = thread, pu_source = source, pu_sequence = 0,
     pu_failed = False, pu_closed = False\<rparr>"

definition next_sequence :: "publisher \<Rightarrow> publisher \<times> nat" where
  "next_sequence p = (p\<lparr>pu_sequence := pu_sequence p + 1\<rparr>, pu_sequence p + 1)"

text \<open>Keyword arguments: a name given twice is a \<open>TypeError\<close>.\<close>

type_synonym kwargs = "(string, pyval) dict"

definition kw_merge :: "kwargs \<Rightarrow> kwargs \<Rightarrow> py_error + kwargs" where
  "kw_merge a b = (if set (keys a) \<inter> set (keys b) = {} then Inr (a @ b)
     else Inl (TypeError ''got multiple values for keyword argument''))"

definition canonical_event_payload :: "string \<Rightarrow> string \<Rightarrow> string \<Rightarrow> nat \<Rightarrow> string \<Rightarrow> kwargs" where
  "canonical_event_payload run thread turn sequence source =
    [(''run_id'', PStr run), (''thread_id'', PStr thread), (''turn_id'', PStr turn), (''sequence'', PInt (int sequence)),
     (''source_node'', PStr (if source = [] then ''harness'' else source))]"

type_synonym 'a published = "publisher \<times> bridge \<times> (py_error + 'a)"

text \<open>The bridge call of \<open>_emit\<close>: its exceptions are caught and recorded.\<close>

definition emit_data :: "real \<Rightarrow> string \<Rightarrow> pyval \<Rightarrow> publisher \<Rightarrow> bridge \<Rightarrow> unit published" where
  "emit_data now event data p b = (case publish now (pu_run p) event data b of
     Inl e \<Rightarrow> (p\<lparr>pu_failed := True\<rparr>, b, Inr ())
   | Inr (b', entry) \<Rightarrow> (p, b', Inr ()))"

text \<open>\<open>_emit(event, **payload)\<close>. The sequence number is taken before the payload is merged.\<close>

definition emit :: "real \<Rightarrow> string \<Rightarrow> kwargs \<Rightarrow> publisher \<Rightarrow> bridge \<Rightarrow> unit published" where
  "emit now event payload p b =
    (if ''event'' \<in> set (keys payload) \<or> ''self'' \<in> set (keys payload)
     then (p, b, Inl (TypeError ''got multiple values for argument''))
     else let (p1, n) = next_sequence p in
       case kw_merge (canonical_event_payload (pu_run p1) (pu_thread p1) (pu_run p1) n (pu_source p1)) payload of
         Inl e \<Rightarrow> (p1, b, Inl e)
       | Inr data \<Rightarrow> emit_data now event (PDict data) p1 b)"

text \<open>Several emissions in a row; an argument list that clashes raises where its turn comes.\<close>

fun emit_all :: "real \<Rightarrow> (string \<times> (py_error + kwargs)) list \<Rightarrow> publisher \<Rightarrow> bridge \<Rightarrow> unit published" where
  "emit_all now [] p b = (p, b, Inr ())"
| "emit_all now ((event, Inl e) # es) p b = (p, b, Inl e)"
| "emit_all now ((event, Inr payload) # es) p b =
    (case emit now event payload p b of
       (p', b', Inl e) \<Rightarrow> (p', b', Inl e)
     | (p', b', Inr u) \<Rightarrow> emit_all now es p' b')"

definition close_once :: "real \<Rightarrow> publisher \<Rightarrow> bridge \<Rightarrow> publisher \<times> bridge" where
  "close_once now p b =
    (case emit now ''run.closed'' [(''status'', PStr ''closed'')] p b of
       (p1, b1, res) \<Rightarrow> (case publish_end (pu_run p1) b1 of
         Inl e \<Rightarrow> (p1\<lparr>pu_failed := True, pu_closed := True\<rparr>, b1)
       | Inr b2 \<Rightarrow> (p1\<lparr>pu_closed := True\<rparr>, b2)))"

definition close_publisher :: "real \<Rightarrow> publisher \<Rightarrow> bridge \<Rightarrow> publisher \<times> bridge" where
  "close_publisher now p b = (if pu_closed p then (p, b) else close_once now p b)"

section \<open>Hooks\<close>

datatype hook =
    TurnStarted kwargs
  | TurnCompleted string pyval bool kwargs
  | TurnInterrupted "string option" kwargs
  | Close
  | HeartbeatSent kwargs
  | TextDelta string "string option" "kwargs option" kwargs
  | MessageCompleted string "string option" kwargs
  | ReasoningDelta string "string option" kwargs
  | ToolCallStarted string string "pyval option" "kwargs option" kwargs
  | ToolCallDelta string "pyval option" "string option" kwargs
  | ToolCallEnded string kwargs
  | ToolResult string pyval "string option" bool kwargs
  | StateUpdate "kwargs option" "kwargs option" kwargs
  | TaskUpdate kwargs
  | Custom string kwargs

text \<open>\<open>if x: payload[k] = x\<close>\<close>

definition opt_text :: "string \<Rightarrow> string option \<Rightarrow> kwargs" where
  "opt_text k x = (case x of None \<Rightarrow> [] | Some s \<Rightarrow> if s = [] then [] else [(k, PStr s)])"

definition opt_dict :: "string \<Rightarrow> kwargs option \<Rightarrow> kwargs" where
  "opt_dict k x = (case x of None \<Rightarrow> [] | Some d \<Rightarrow> if d = [] then [] else [(k, PDict d)])"

definition opt_value :: "string \<Rightarrow> pyval option \<Rightarrow> kwargs" where
  "opt_value k x = (case x of None \<Rightarrow> [] | Some v \<Rightarrow> [(k, v)])"

definition interrupted_payload :: "string option \<Rightarrow> kwargs" where
  "interrupted_payload reason = (''phase'', PStr ''interrupted'') # opt_text ''reason'' reason"

definition hook_events :: "hook \<Rightarrow> (string \<times> (py_error + kwargs)) list" where
  "hook_events h = (case h of
     TurnStarted x \<Rightarrow> [(''run.metadata'', Inr x), (''run.status'', kw_merge [(''phase'', PStr ''running'')] x)]
   | TurnCompleted status final close x \<Rightarrow>
       if status = ''success''
       then [(''run.completed'', kw_merge [(''status'', PStr ''succeeded''), (''final_state'', final)] x)]
       else if status = ''error'' \<or> status = ''failed''
       then [(''run.failed'', kw_merge [(''error'', PStr ''TurnError''), (''final_state'', final)] x)]
       else [(''run.completed'', kw_merge [(''status'', PStr status), (''final_state'', final)] x)]
   | TurnInterrupted reason x \<Rightarrow>
       [(''run.status'', kw_merge (interrupted_payload reason) x), (''run.interrupt'', kw_merge (interrupted_payload reason) x)]
   | Close \<Rightarrow> []
   | HeartbeatSent x \<Rightarrow> [(''heartbeat'', Inr x)]
   | TextDelta delta mid md x \<Rightarrow> if delta = [] then []
       else [(''message.delta'', Inr (update_dict ((''delta'', PStr delta) # opt_text ''message_id'' mid @ opt_dict ''metadata'' md) x))]
   | MessageCompleted content source x \<Rightarrow>
       [(''message.completed'', Inr (update_dict ((''content'', PStr content) # opt_text ''source'' source) x))]
   | ReasoningDelta delta mid x \<Rightarrow> if delta = [] then []
       else [(''reasoning.delta'', Inr (update_dict ((''delta'', PStr delta) # opt_text ''message_id'' mid) x))]
   | ToolCallStarted cid name preview md x \<Rightarrow>
       [(''tool.requested'', Inr (update_dict ([(''tool_call_id'', PStr cid), (''name'', PStr name)] @ opt_value ''args'' preview @ opt_dict ''metadata'' md) x))]
   | ToolCallDelta cid args name x \<Rightarrow>
       [(''tool.call.delta'', Inr (update_dict ((''tool_call_id'', PStr cid) # opt_text ''name'' name @ opt_value ''args_delta'' args) x))]
   | ToolCallEnded cid x \<Rightarrow> [(''tool.call.delta'', kw_merge [(''tool_call_id'', PStr cid), (''completed'', PBool True)] x)]
   | ToolResult cid res name err x \<Rightarrow>
       [(if err then ''tool.error'' else ''tool.result'',
         Inr (update_dict ([(''tool_call_id'', PStr cid), (''result'', res)] @ opt_text ''name'' name) x))]
   | StateUpdate data md x \<Rightarrow>
       [(''state.update'', Inr (update_dict ((case data of None \<Rightarrow> [] | Some d \<Rightarrow> [(''data'', PDict d)]) @ opt_dict ''metadata'' md) x))]
   | TaskUpdate x \<Rightarrow> [(''task.update'', Inr x)]
   | Custom event x \<Rightarrow> if event = [] then [] else [(event, Inr x)])"

definition hook_closes :: "hook \<Rightarrow> bool" where
  "hook_closes h = (case h of TurnCompleted s f c x \<Rightarrow> c | TurnInterrupted r x \<Rightarrow> True | Close \<Rightarrow> True | _ \<Rightarrow> False)"

definition run_hook :: "real \<Rightarrow> hook \<Rightarrow> publisher \<Rightarrow> bridge \<Rightarrow> unit published" where
  "run_hook now h p b = (case emit_all now (hook_events h) p b of
     (p1, b1, Inl e) \<Rightarrow> (p1, b1, Inl e)
   | (p1, b1, Inr u) \<Rightarrow> if hook_closes h then (let (p2, b2) = close_publisher now p1 b1 in (p2, b2, Inr ())) else (p1, b1, Inr ()))"

fun run_hooks :: "(real \<times> hook) list \<Rightarrow> publisher \<Rightarrow> bridge \<Rightarrow> unit published" where
  "run_hooks [] p b = (p, b, Inr ())"
| "run_hooks ((now, h) # hs) p b = (case run_hook now h p b of
     (p1, b1, Inl e) \<Rightarrow> (p1, b1, Inl e)
   | (p1, b1, Inr u) \<Rightarrow> run_hooks hs p1 b1)"

section \<open>What the stream holds\<close>

text \<open>The field of an event's payload.\<close>

definition event_field :: "stream_event \<Rightarrow> string \<Rightarrow> pyval option" where
  "event_field e k = (case se_data e of PDict d \<Rightarrow> map_of d k | _ \<Rightarrow> None)"

text \<open>The publisher and the log of its run: numbered from one, and ended once the publisher is closed.\<close>

definition published :: "publisher \<Rightarrow> stream_event list \<Rightarrow> bridge \<Rightarrow> bool" where
  "published p evs b \<longleftrightarrow> run_log (pu_run p) evs b \<and> \<not> pu_failed p \<and> pu_sequence p = length evs \<and>
    (\<forall>k < length evs. event_field (evs ! k) ''sequence'' = Some (PInt (int (k + 1))) \<and>
       event_field (evs ! k) ''run_id'' = Some (PStr (pu_run p))) \<and>
    (pu_closed p \<longrightarrow> stream_ended (pu_run p) b = Some True)"

lemma publish_ended:
  assumes "run_log run evs b" "publish now run event data b = Inr (b', e)" "stream_ended run b = Some True"
  shows "stream_ended run b' = Some True"
proof -
  obtain a where a: "map_of (sb_streams b) run = Some a" "rs_ended (sb_heap b ! a)" using assms(3) by (auto simp: stream_ended_def)
  then have lt: "a < length (sb_heap b)" using assms(1) by (simp add: run_log_def)
  have "get_or_create_stream run b = Inr (b, a)" using a assms(1) by (simp add: get_or_create_stream_def run_log_def)
  then show ?thesis using assms(2) a lt
    by (auto simp: publish_def next_id_def Let_def stream_ended_def append_event_ended)
qed

lemma emit_published:
  assumes "published p evs b" "emit now event payload p b = (p', b', Inr u)"
  shows "\<exists>e. published p' (evs @ [e]) b' \<and> pu_run p' = pu_run p \<and> se_event e = event \<and> pu_closed p' = pu_closed p"
proof -
  let ?p1 = "p\<lparr>pu_sequence := pu_sequence p + 1\<rparr>"
  let ?c = "canonical_event_payload (pu_run p) (pu_thread p) (pu_run p) (pu_sequence p + 1) (pu_source p)"
  obtain data where d: "kw_merge ?c payload = Inr data" "(p', b', Inr u) = emit_data now event (PDict data) ?p1 b"
    using assms(2) by (auto simp: emit_def next_sequence_def split: if_splits sum.splits)
  have data: "data = ?c @ payload" using d(1) by (simp add: kw_merge_def split: if_splits)
  have l: "run_log (pu_run p) evs b" using assms(1) by (simp add: published_def)
  obtain b1 e where e: "publish now (pu_run p) event (PDict data) b = Inr (b1, e)" "run_log (pu_run p) (evs @ [e]) b1"
    "se_event e = event" "se_data e = PDict data" using publish_run_log [OF l] by metis
  have p': "p' = ?p1" "b' = b1" using d(2) e(1) by (simp_all add: emit_data_def)
  have f: "event_field e ''sequence'' = Some (PInt (int (length evs + 1)))" "event_field e ''run_id'' = Some (PStr (pu_run p))"
    using assms(1) by (simp_all add: event_field_def e(4) data canonical_event_payload_def published_def)
  have "stream_ended (pu_run p) b1 = Some True" if "pu_closed p"
    using publish_ended [OF l e(1)] assms(1) that by (simp add: published_def)
  then have "published p' (evs @ [e]) b'" using assms(1) e(2) f
    by (auto simp: published_def p' nth_append less_Suc_eq)
  then show ?thesis using e(3) p' by auto
qed

lemma emit_all_published:
  assumes "published p evs b" "emit_all now es p b = (p', b', Inr u)"
  shows "\<exists>new. published p' (evs @ new) b' \<and> pu_run p' = pu_run p \<and> map se_event new = map fst es \<and> pu_closed p' = pu_closed p"
  using assms
proof (induction now es p b arbitrary: evs rule: emit_all.induct)
  case (3 now event payload es p b)
  obtain p1 b1 v where e: "emit now event payload p b = (p1, b1, Inr v)" "emit_all now es p1 b1 = (p', b', Inr u)"
    using "3.prems"(2) by (auto split: prod.splits sum.splits)
  obtain x where x: "published p1 (evs @ [x]) b1" "pu_run p1 = pu_run p" "se_event x = event" "pu_closed p1 = pu_closed p"
    using emit_published [OF "3.prems"(1) e(1)] by blast
  obtain new where "published p' ((evs @ [x]) @ new) b'" "pu_run p' = pu_run p1" "map se_event new = map fst es" "pu_closed p' = pu_closed p1"
    using "3.IH" [OF e(1) [symmetric] refl refl x(1) e(2)] by blast
  then show ?case using x by (intro exI [of _ "x # new"]) simp
qed auto

lemma publish_end_run_log:
  assumes "run_log run evs b"
  obtains b' where "publish_end run b = Inr b'" "run_log run evs b'" "stream_ended run b' = Some True"
proof -
  obtain b1 a where c: "get_or_create_stream run b = Inr (b1, a)" "run_log run evs b1" "map_of (sb_streams b1) run = Some a"
    using get_or_create_run_log [OF assms] by metis
  let ?b = "schedule_cleanup run a (set_stream a (\<lambda>s. s\<lparr>rs_ended := True\<rparr>) b1)"
  have "publish_end run b = Inr ?b" using assms by (simp add: publish_end_def run_log_def c(1))
  moreover have "run_log run evs ?b" using c(2,3) by (simp add: run_log_def)
  moreover have "stream_ended run ?b = Some True" using c(2,3) by (simp add: stream_ended_def run_log_def)
  ultimately show thesis using that by blast
qed

lemma close_published:
  assumes "published p evs b" "close_publisher now p b = (p', b')"
  shows "\<exists>new. published p' (evs @ new) b' \<and> pu_run p' = pu_run p \<and> pu_closed p' \<and>
    map se_event new = (if pu_closed p then [] else [''run.closed''])"
proof (cases "pu_closed p")
  case True
  then show ?thesis using assms by (auto simp: close_publisher_def)
next
  case False
  obtain p1 b1 res where e: "emit now ''run.closed'' [(''status'', PStr ''closed'')] p b = (p1, b1, res)" by (metis prod.exhaust)
  have "is_ok (snd (snd (emit now ''run.closed'' [(''status'', PStr ''closed'')] p b)))"
    by (simp add: emit_def next_sequence_def kw_merge_def canonical_event_payload_def emit_data_def split: sum.split)
  then obtain u where res: "res = Inr u" using e by (cases res) auto
  obtain x where x: "published p1 (evs @ [x]) b1" "pu_run p1 = pu_run p" "se_event x = ''run.closed''"
    using emit_published [OF assms(1) e [unfolded res]] by blast
  then have l: "run_log (pu_run p1) (evs @ [x]) b1" by (simp add: published_def)
  obtain b2 where b2: "publish_end (pu_run p1) b1 = Inr b2" "run_log (pu_run p1) (evs @ [x]) b2" "stream_ended (pu_run p1) b2 = Some True"
    using publish_end_run_log [OF l] .
  have "p' = p1\<lparr>pu_closed := True\<rparr>" "b' = b2" using assms(2) False e b2(1) by (simp_all add: close_publisher_def close_once_def)
  then show ?thesis using x b2 False by (intro exI [of _ "[x]"]) (simp add: published_def)
qed

definition hook_names :: "hook \<Rightarrow> string list" where
  "hook_names h = map fst (hook_events h)"

lemma run_hook_published:
  assumes "published p evs b" "run_hook now h p b = (p', b', Inr u)"
  shows "\<exists>new. published p' (evs @ new) b' \<and> pu_run p' = pu_run p \<and> pu_closed p' = (pu_closed p \<or> hook_closes h) \<and>
    map se_event new = hook_names h @ (if hook_closes h \<and> \<not> pu_closed p then [''run.closed''] else [])"
proof -
  obtain p1 b1 v where e: "emit_all now (hook_events h) p b = (p1, b1, Inr v)"
    using assms(2) by (auto simp: run_hook_def split: prod.splits sum.splits)
  obtain new where n: "published p1 (evs @ new) b1" "pu_run p1 = pu_run p" "map se_event new = hook_names h" "pu_closed p1 = pu_closed p"
    using emit_all_published [OF assms(1) e] by (auto simp: hook_names_def)
  show ?thesis
  proof (cases "hook_closes h")
    case True
    obtain p2 b2 where c: "close_publisher now p1 b1 = (p2, b2)" by fastforce
    then have p': "p' = p2" "b' = b2" using assms(2) e True by (simp_all add: run_hook_def)
    obtain m where m: "published p2 ((evs @ new) @ m) b2" "pu_run p2 = pu_run p1" "pu_closed p2"
      "map se_event m = (if pu_closed p1 then [] else [''run.closed''])" using close_published [OF n(1) c] by blast
    show ?thesis using m n True unfolding p' by (intro exI [of _ "new @ m"]) simp
  next
    case False
    then have "p' = p1" "b' = b1" using assms(2) e by (simp_all add: run_hook_def)
    then show ?thesis using n False by auto
  qed
qed

definition names_of :: "(real \<times> hook) list \<Rightarrow> string list" where
  "names_of hs = concat (map (\<lambda>(now, h). hook_names h) hs)"

definition closes :: "(real \<times> hook) list \<Rightarrow> bool" where
  "closes hs = list_ex (\<lambda>(now, h). hook_closes h) hs"

lemma run_hooks_published:
  assumes "published p evs b" "run_hooks hs p b = (p', b', Inr u)"
  shows "\<exists>new. published p' (evs @ new) b' \<and> pu_run p' = pu_run p \<and> pu_closed p' = (pu_closed p \<or> closes hs) \<and>
    filter (\<lambda>n. n \<noteq> ''run.closed'') (map se_event new) = filter (\<lambda>n. n \<noteq> ''run.closed'') (names_of hs) \<and>
    count_list (map se_event new) ''run.closed'' = count_list (names_of hs) ''run.closed'' + (if closes hs \<and> \<not> pu_closed p then 1 else 0)"
  using assms
proof (induction hs p b arbitrary: evs rule: run_hooks.induct)
  case (1 p b)
  then show ?case by (intro exI [of _ "[]"]) (simp add: names_of_def closes_def)
next
  case (2 now h hs p b)
  obtain p1 b1 v where h: "run_hook now h p b = (p1, b1, Inr v)" "run_hooks hs p1 b1 = (p', b', Inr u)"
    using "2.prems"(2) by (auto split: prod.splits sum.splits)
  obtain n1 where n1: "published p1 (evs @ n1) b1" "pu_run p1 = pu_run p" "pu_closed p1 = (pu_closed p \<or> hook_closes h)"
    "map se_event n1 = hook_names h @ (if hook_closes h \<and> \<not> pu_closed p then [''run.closed''] else [])"
    using run_hook_published [OF "2.prems"(1) h(1)] by blast
  obtain n2 where n2: "published p' ((evs @ n1) @ n2) b'" "pu_run p' = pu_run p1" "pu_closed p' = (pu_closed p1 \<or> closes hs)"
    "filter (\<lambda>n. n \<noteq> ''run.closed'') (map se_event n2) = filter (\<lambda>n. n \<noteq> ''run.closed'') (names_of hs)"
    "count_list (map se_event n2) ''run.closed'' = count_list (names_of hs) ''run.closed'' + (if closes hs \<and> \<not> pu_closed p1 then 1 else 0)"
    using "2.IH" [OF h(1) [symmetric] refl refl n1(1) h(2)] by blast
  have c: "closes ((now, h) # hs) = (hook_closes h \<or> closes hs)" "names_of ((now, h) # hs) = hook_names h @ names_of hs"
    by (simp_all add: closes_def names_of_def)
  show ?case using n2 n1 unfolding c map_append filter_append count_list_append
    by (intro exI [of _ "n1 @ n2"]) auto
qed

section \<open>Failing soft\<close>

definition envelope_keys :: "string list" where
  "envelope_keys = [''run_id'', ''thread_id'', ''turn_id'', ''sequence'', ''source_node'', ''event'', ''self'']"

definition fits_envelope :: "py_error + kwargs \<Rightarrow> bool" where
  "fits_envelope r = (case r of Inl e \<Rightarrow> False | Inr x \<Rightarrow> list_all (\<lambda>k. k \<notin> set envelope_keys) (keys x))"

definition hook_fits :: "hook \<Rightarrow> bool" where
  "hook_fits h = list_all (\<lambda>(event, r). fits_envelope r) (hook_events h)"

lemma emit_data_ok: "snd (snd (emit_data now event data p b)) = Inr ()"
  by (simp add: emit_data_def split: sum.split)

lemma is_ok_if: "is_ok (if P then Inr x else Inl y) = P" by simp

lemma emit_ok_iff: "is_ok (snd (snd (emit now event payload p b))) \<longleftrightarrow> fits_envelope (Inr payload)"
proof -
  have d: "is_ok (snd (snd (emit_data now event data q b)))" for data q by (simp add: emit_data_ok)
  have f: "fits_envelope (Inr payload) \<longleftrightarrow> set (keys payload) \<inter> set envelope_keys = {}"
    by (auto simp: fits_envelope_def list_all_iff)
  define K where "K = {''run_id'', ''thread_id'', ''turn_id'', ''sequence'', ''source_node''}"
  have k: "set envelope_keys = insert ''event'' (insert ''self'' K)" by (auto simp: envelope_keys_def K_def)
  have c: "set (keys (canonical_event_payload r t u n s)) = K" for r t u n s by (simp add: canonical_event_payload_def K_def)
  let ?c = "canonical_event_payload (pu_run p) (pu_thread p) (pu_run p) (pu_sequence p + 1) (pu_source p)"
  have m: "kw_merge ?c payload = (if K \<inter> set (keys payload) = {} then Inr (?c @ payload)
    else Inl (TypeError ''got multiple values for keyword argument''))" unfolding kw_merge_def c by (rule refl)
  show ?thesis
  proof (cases "''event'' \<in> set (keys payload) \<or> ''self'' \<in> set (keys payload)")
    case True
    then have "\<not> is_ok (snd (snd (emit now event payload p b)))" unfolding emit_def by (simp only: if_True) simp
    then show ?thesis using True unfolding f k by blast
  next
    case False
    then have "emit now event payload p b = (case kw_merge ?c payload of
         Inl e \<Rightarrow> (p\<lparr>pu_sequence := pu_sequence p + 1\<rparr>, b, Inl e)
       | Inr data \<Rightarrow> emit_data now event (PDict data) (p\<lparr>pu_sequence := pu_sequence p + 1\<rparr>) b)"
      unfolding emit_def by (simp only: if_False) (simp add: next_sequence_def split: sum.split)
    then have e: "is_ok (snd (snd (emit now event payload p b))) \<longleftrightarrow> is_ok (kw_merge ?c payload)"
      using d by (cases "kw_merge ?c payload") (simp_all only: sum.case is_ok_simps snd_conv)
    have g: "is_ok (kw_merge ?c payload) \<longleftrightarrow> K \<inter> set (keys payload) = {}"
      unfolding m by (simp only: is_ok_if)
    show ?thesis using trans [OF e g] False unfolding f k by blast
  qed
qed

lemma emit_all_ok_iff:
  "is_ok (snd (snd (emit_all now es p b))) \<longleftrightarrow> list_all (\<lambda>(event, r). fits_envelope r) es"
proof (induction now es p b rule: emit_all.induct)
  case (2 now event e es p b)
  then show ?case by (simp add: fits_envelope_def)
next
  case (3 now event payload es p b)
  obtain p1 b1 r where e: "emit now event payload p b = (p1, b1, r)" by (metis prod.exhaust)
  then have f: "is_ok r \<longleftrightarrow> fits_envelope (Inr payload)" using emit_ok_iff [of now event payload p b] by simp
  show ?case
  proof (cases r)
    case (Inl x)
    then show ?thesis using e f by simp
  next
    case (Inr x)
    then show ?thesis using "3.IH" [OF e [symmetric] refl] f e by simp
  qed
qed simp

lemma run_hook_ok_iff: "is_ok (snd (snd (run_hook now h p b))) \<longleftrightarrow> hook_fits h"
proof -
  obtain p1 b1 r where e: "emit_all now (hook_events h) p b = (p1, b1, r)" by (metis prod.exhaust)
  then show ?thesis using emit_all_ok_iff [of now "hook_events h" p b]
    by (cases r) (auto simp: run_hook_def hook_fits_def split: prod.split)
qed

lemma run_hooks_ok_iff: "is_ok (snd (snd (run_hooks hs p b))) \<longleftrightarrow> list_all (\<lambda>(now, h). hook_fits h) hs"
proof (induction hs p b rule: run_hooks.induct)
  case (2 now h hs p b)
  obtain p1 b1 r where e: "run_hook now h p b = (p1, b1, r)" by (metis prod.exhaust)
  then have f: "is_ok r \<longleftrightarrow> hook_fits h" using run_hook_ok_iff [of now h p b] by simp
  show ?case
  proof (cases r)
    case (Inl x)
    then show ?thesis using e f by simp
  next
    case (Inr x)
    then show ?thesis using "2.IH" [OF e [symmetric] refl] f e by simp
  qed
qed simp

section \<open>Properties\<close>

text \<open>The publisher numbers a run's stream: when a run's hooks have all been called without a clashing keyword,
  the run's stream holds one event per emission with distinct ids, the events carry the sequence numbers 1, 2, 3 and
  so on in the order of the stream and the run's id, no emission was lost, the names are those of the hooks, and the
  publisher is closed and the stream ended exactly when some hook closed it, with one closing event however many did.\<close>

lemma publisher_numbers_stream:
  assumes "run_log run [] b" "run_hooks hs (publisher_init run thread source) b = (p', b', Inr u)"
  shows "\<exists>evs. run_log run evs b' \<and> distinct (map se_id evs) \<and> \<not> pu_failed p' \<and>
    map (\<lambda>e. event_field e ''sequence'') evs = map (\<lambda>k. Some (PInt (int k))) [1..<length evs + 1] \<and>
    list_all (\<lambda>e. event_field e ''run_id'' = Some (PStr run)) evs \<and>
    pu_closed p' = closes hs \<and> (closes hs \<longrightarrow> stream_ended run b' = Some True) \<and>
    filter (\<lambda>n. n \<noteq> ''run.closed'') (map se_event evs) = filter (\<lambda>n. n \<noteq> ''run.closed'') (names_of hs) \<and>
    count_list (map se_event evs) ''run.closed'' = count_list (names_of hs) ''run.closed'' + (if closes hs then 1 else 0)"
proof -
  have "published (publisher_init run thread source) [] b"
    using assms(1) by (simp add: published_def publisher_init_def)
  from run_hooks_published [OF this assms(2)]
  obtain evs where e: "published p' evs b'" "pu_run p' = run" "pu_closed p' = closes hs"
    "filter (\<lambda>n. n \<noteq> ''run.closed'') (map se_event evs) = filter (\<lambda>n. n \<noteq> ''run.closed'') (names_of hs)"
    "count_list (map se_event evs) ''run.closed'' = count_list (names_of hs) ''run.closed'' + (if closes hs then 1 else 0)"
    by (auto simp: publisher_init_def)
  have l: "run_log run evs b'" using e(1,2) by (simp add: published_def)
  have d: "distinct (map se_id evs)" by (rule run_log_distinct [OF l])
  have s: "map (\<lambda>e. event_field e ''sequence'') evs = map (\<lambda>k. Some (PInt (int k))) [1..<length evs + 1]"
    using e(1) by (intro nth_equalityI) (simp_all add: published_def del: upt_Suc)
  show ?thesis using e l d s by (intro exI [of _ evs]) (simp add: published_def list_all_length)
qed

definition ex_hooks :: "(real \<times> hook) list" where
  "ex_hooks = [(1, TurnStarted []), (2, TextDelta ''hi'' None None []), (3, TurnCompleted ''success'' PNone True []), (4, Close)]"

lemma publisher_numbers_stream_witness:
  "\<exists>p b evs. run_hooks ex_hooks (publisher_init ''r'' ''t'' ''harness'') ex_bridge = (p, b, Inr ()) \<and>
    run_log ''r'' evs b \<and> length evs = 5 \<and> stream_ended ''r'' b = Some True"
proof -
  have ok: "is_ok (snd (snd (run_hooks ex_hooks (publisher_init ''r'' ''t'' ''harness'') ex_bridge)))"
    unfolding run_hooks_ok_iff by code_simp
  obtain p b r where h: "run_hooks ex_hooks (publisher_init ''r'' ''t'' ''harness'') ex_bridge = (p, b, r)" by (metis prod.exhaust)
  then obtain u where r: "r = Inr u" using ok by (cases r) auto
  have c: "closes ex_hooks" "filter (\<lambda>n. n \<noteq> ''run.closed'') (names_of ex_hooks) = [''run.metadata'', ''run.status'', ''message.delta'', ''run.completed'']"
    "count_list (names_of ex_hooks) ''run.closed'' = 0" by code_simp+
  have "run_log ''r'' [] ex_bridge" by (simp add: run_log_def ex_bridge_def)
  from publisher_numbers_stream [OF this h [unfolded r]] obtain evs where e: "run_log ''r'' evs b" "stream_ended ''r'' b = Some True"
    "filter (\<lambda>n. n \<noteq> ''run.closed'') (map se_event evs) = [''run.metadata'', ''run.status'', ''message.delta'', ''run.completed'']"
    "count_list (map se_event evs) ''run.closed'' = 1" using c by auto
  have "length (map se_event evs) = length (filter (\<lambda>n. n \<noteq> ''run.closed'') (map se_event evs)) + count_list (map se_event evs) ''run.closed''"
    by (induction evs) auto
  then have "length evs = 5" unfolding e(3,4) by simp
  then show ?thesis using e(1,2) h r by (cases u) blast
qed

text \<open>The publisher fails soft: whatever the bridge does, and whether or not it is shut down, a hook raises exactly
  when a keyword argument clashes with another or with the envelope's fields; on a bridge that has been shut down
  the hooks record the failure and change nothing but the publisher.\<close>

lemma publisher_fails_soft:
  "is_ok (snd (snd (run_hooks hs p b))) = list_all (\<lambda>(now, h). hook_fits h) hs \<and>
   (sb_shutdown b \<and> fits_envelope (Inr payload) \<longrightarrow>
     emit now event payload p b = (p\<lparr>pu_sequence := pu_sequence p + 1, pu_failed := True\<rparr>, b, Inr ()))"
proof (intro conjI impI run_hooks_ok_iff)
  assume a: "sb_shutdown b \<and> fits_envelope (Inr payload)"
  have "is_ok (snd (snd (emit now event payload p b)))" using a emit_ok_iff by simp
  moreover have "publish now run event data b \<noteq> Inr x" for run data x
    using a by (simp add: publish_def get_or_create_stream_def)
  ultimately show "emit now event payload p b = (p\<lparr>pu_sequence := pu_sequence p + 1, pu_failed := True\<rparr>, b, Inr ())"
    by (auto simp: emit_def emit_data_def next_sequence_def split: sum.splits if_splits)
qed

lemma publisher_fails_soft_witness:
  "emit 1 ''x'' [] (publisher_init ''r'' ''t'' ''h'') (ex_bridge\<lparr>sb_shutdown := True\<rparr>) =
    ((publisher_init ''r'' ''t'' ''h'')\<lparr>pu_sequence := 1, pu_failed := True\<rparr>, ex_bridge\<lparr>sb_shutdown := True\<rparr>, Inr ())"
proof -
  have "fits_envelope (Inr [])" by (simp add: fits_envelope_def)
  then show ?thesis
    using publisher_fails_soft [of "[]" "publisher_init ''r'' ''t'' ''h''" "ex_bridge\<lparr>sb_shutdown := True\<rparr>" "[]" 1 "''x''"]
    by (simp add: publisher_init_def)
qed

end
