(* ===== verification/ToolProtocol.thy ===== *)
theory ToolProtocol
  imports Prelude "HOL-Library.Sublist"
begin

text \<open>
  Message histories and the repair of unanswered tool calls:
  \<open>src/focus_agent/core/tool_call_protocol.py\<close>. The LangChain message classes are the datatype
  \<open>message\<close> with the fields the code reads; \<open>str()\<close> of a value that is not a string, and the JSON
  text of an error payload, are the arguments \<open>str_of\<close> and \<open>json_of\<close>.
\<close>

datatype message =
    HumanMessage pyval
  | SystemMessage pyval
  | AIMessage pyval "pyval list"
  | ToolMessage pyval string string string bool

text \<open>A tool message has content, call id, tool name and status, and the mark
  \<open>dangling_tool_call_repaired\<close> of its artifact.\<close>

record pending_call =
  pc_id :: string
  pc_name :: string
  pc_args :: "(string, pyval) dict"

type_synonym pending = "(string, pending_call) dict"

text \<open>\<open>str(v or default).strip()\<close>\<close>

definition str_or :: "(pyval \<Rightarrow> string) \<Rightarrow> pyval option \<Rightarrow> string \<Rightarrow> string" where
  "str_or str_of v z = py_strip (case v of None \<Rightarrow> z | Some x \<Rightarrow>
     if truthy x then (case x of PStr s \<Rightarrow> s | _ \<Rightarrow> str_of x) else z)"

definition nonblank :: "string \<Rightarrow> string \<Rightarrow> string" where
  "nonblank s z = (if s = [] then z else s)"

definition call_args :: "pyval option \<Rightarrow> (string, pyval) dict" where
  "call_args v = (case v of
     Some (PDict d) \<Rightarrow> d
   | Some PNone \<Rightarrow> []
   | None \<Rightarrow> []
   | Some x \<Rightarrow> [(''_raw_args'', x)])"

definition pending_call_of :: "(pyval \<Rightarrow> string) \<Rightarrow> nat \<Rightarrow> (string, pyval) dict \<Rightarrow> pending_call" where
  "pending_call_of str_of index raw =
    \<lparr>pc_id = nonblank (str_or str_of (map_of raw ''id'') []) (''dangling-tool-call-'' @ show_nat (index + 1)),
     pc_name = nonblank (str_or str_of (map_of raw ''name'') ''tool'') ''tool'',
     pc_args = call_args (map_of raw ''args'')\<rparr>"

fun pending_calls :: "(pyval \<Rightarrow> string) \<Rightarrow> nat \<Rightarrow> pyval list \<Rightarrow> pending \<Rightarrow> pending" where
  "pending_calls str_of i [] d = d"
| "pending_calls str_of i (PDict raw # cs) d =
    (let c = pending_call_of str_of i raw in pending_calls str_of (i + 1) cs (AList.update (pc_id c) c d))"
| "pending_calls str_of i (v # cs) d = pending_calls str_of (i + 1) cs d"

definition pending_tool_calls :: "(pyval \<Rightarrow> string) \<Rightarrow> message \<Rightarrow> pending" where
  "pending_tool_calls str_of m = (case m of AIMessage content calls \<Rightarrow> pending_calls str_of 0 calls [] | _ \<Rightarrow> [])"

definition missing_tool_message :: "(string \<Rightarrow> (string, pyval) dict \<Rightarrow> string \<Rightarrow> string) \<Rightarrow> string \<Rightarrow> pending_call \<Rightarrow> message" where
  "missing_tool_message json_of err c =
    ToolMessage (PStr (json_of (pc_name c) (pc_args c) err)) (pc_id c) (pc_name c) ''error'' True"

definition missing_tool_messages :: "(string \<Rightarrow> (string, pyval) dict \<Rightarrow> string \<Rightarrow> string) \<Rightarrow> string \<Rightarrow> pending \<Rightarrow> message list" where
  "missing_tool_messages json_of err pend = map (missing_tool_message json_of err) (vals pend)"

record repair_env =
  rp_str_of :: "pyval \<Rightarrow> string"
  rp_json_of :: "string \<Rightarrow> (string, pyval) dict \<Rightarrow> string \<Rightarrow> string"
  rp_error :: string

text \<open>The loop: what it appends from here on, the calls left pending, and whether it inserted anything.\<close>

fun repair_loop :: "repair_env \<Rightarrow> message list \<Rightarrow> pending \<Rightarrow> message list \<times> pending \<times> bool" where
  "repair_loop env [] pend = ([], pend, False)"
| "repair_loop env (m # ms) pend =
    (let missing = missing_tool_messages (rp_json_of env) (rp_error env) pend in
     case m of
       ToolMessage content call_id name status mark \<Rightarrow>
         (if pend \<noteq> [] \<and> call_id \<notin> set (keys pend)
          then (let (out, p, ch) = repair_loop env ms [] in (missing @ m # out, p, True))
          else (let (out, p, ch) = repair_loop env ms (AList.delete call_id pend) in (m # out, p, ch)))
     | _ \<Rightarrow>
         (let (out, p, ch) = repair_loop env ms (pending_tool_calls (rp_str_of env) m) in
          if pend \<noteq> [] then (missing @ m # out, p, True) else (m # out, p, ch)))"

definition repair_dangling_tool_call_messages :: "repair_env \<Rightarrow> bool \<Rightarrow> message list \<Rightarrow> message list" where
  "repair_dangling_tool_call_messages env repair_trailing ms =
    (let (out, pend, changed) = repair_loop env ms [] in
     if pend \<noteq> [] \<and> repair_trailing then out @ missing_tool_messages (rp_json_of env) (rp_error env) pend
     else if changed then out else ms)"

fun is_human :: "message \<Rightarrow> bool" where
  "is_human (HumanMessage c) = True"
| "is_human _ = False"

definition messages_since_latest_human :: "message list \<Rightarrow> message list" where
  "messages_since_latest_human ms = rev (takeWhile (\<lambda>m. \<not> is_human m) (rev ms))"

section \<open>Histories without unanswered calls\<close>

text \<open>
  The protocol a model provider expects: the calls of an assistant message are answered, in any
  order, by tool messages before anything else follows.
\<close>

definition opened :: "(pyval \<Rightarrow> string) \<Rightarrow> message \<Rightarrow> string set" where
  "opened str_of m = set (keys (pending_tool_calls str_of m))"

fun answered :: "(pyval \<Rightarrow> string) \<Rightarrow> message list \<Rightarrow> string set \<Rightarrow> bool" where
  "answered f [] P = (P = {})"
| "answered f (m # ms) P = (case m of
     ToolMessage c call_id n st mark \<Rightarrow> (P = {} \<or> call_id \<in> P) \<and> answered f ms (P - {call_id})
   | _ \<Rightarrow> P = {} \<and> answered f ms (opened f m))"

lemma pending_calls_wf:
  "wf_dict d \<Longrightarrow> (\<forall>(k, c) \<in> set d. pc_id c = k) \<Longrightarrow>
   wf_dict (pending_calls f i cs d) \<and> (\<forall>(k, c) \<in> set (pending_calls f i cs d). pc_id c = k)"
proof (induction f i cs d rule: pending_calls.induct)
  case (2 f i raw cs d)
  have "\<forall>(k, c) \<in> set (AList.update (pc_id (pending_call_of f i raw)) (pending_call_of f i raw) d). pc_id c = k"
    using "2.prems" by (auto simp: set_update_dict)
  then show ?case using "2.IH" [OF refl] "2.prems" by (simp add: Let_def)
qed simp_all

definition pending_ok :: "pending \<Rightarrow> bool" where
  "pending_ok p \<longleftrightarrow> wf_dict p \<and> (\<forall>(k, c) \<in> set p. pc_id c = k)"

lemma pending_ok_calls: "pending_ok (pending_tool_calls f m)"
  using pending_calls_wf [of "[]" f 0] by (auto simp: pending_tool_calls_def pending_ok_def split: message.split)

lemma pending_ok_delete: "pending_ok p \<Longrightarrow> pending_ok (AList.delete k p)"
  by (auto simp: pending_ok_def set_delete_dict)

lemma pending_ok_Nil [simp]: "pending_ok []"
  by (simp add: pending_ok_def)

lemma pending_not_tool: "(\<And>c i n s k. m \<noteq> ToolMessage c i n s k) \<Longrightarrow> opened f m = set (keys (pending_tool_calls f m))"
  by (simp add: opened_def)

lemma answered_missing:
  assumes "pending_ok p" "answered f rest {}"
  shows "answered f (missing_tool_messages j e p @ rest) (set (keys p))"
  using assms
proof (induction p)
  case Nil
  then show ?case by (simp add: missing_tool_messages_def)
next
  case (Cons x p)
  obtain k c where x: "x = (k, c)" by (cases x)
  have ok: "pending_ok p" "pc_id c = k" "k \<notin> set (keys p)" using Cons.prems(1) x by (auto simp: pending_ok_def)
  have "set (keys (x # p)) - {k} = set (keys p)" using ok(3) x by auto
  then show ?case using Cons.IH [OF ok(1) Cons.prems(2)] ok(2) x
    by (simp add: missing_tool_messages_def missing_tool_message_def)
qed

lemma keys_Nil_iff: "set (keys p) = {} \<longleftrightarrow> p = []"
  by (cases p) simp_all

lemma repair_loop_answered:
  assumes "repair_loop env ms pend = (out, p, ch)" "pending_ok pend"
  shows "pending_ok p \<and> (\<forall>rest. answered (rp_str_of env) rest (set (keys p)) \<longrightarrow>
    answered (rp_str_of env) (out @ rest) (set (keys pend)))"
  using assms
proof (induction ms arbitrary: pend out p ch)
  case Nil
  then show ?case by simp
next
  case (Cons m ms)
  let ?f = "rp_str_of env"
  let ?miss = "missing_tool_messages (rp_json_of env) (rp_error env) pend"
  show ?case
  proof (cases "\<exists>c i n s k. m = ToolMessage c i n s k")
    case True
    then obtain c i n s k where m: "m = ToolMessage c i n s k" by blast
    show ?thesis
    proof (cases "pend \<noteq> [] \<and> i \<notin> set (keys pend)")
      case True
      obtain out' ch' where r: "repair_loop env ms [] = (out', p, ch')" "out = ?miss @ m # out'"
        using Cons.prems(1) m True by (auto simp: split_beta Let_def prod_eq_iff)
      note IH = Cons.IH [OF r(1) pending_ok_Nil]
      have "answered ?f (out @ rest) (set (keys pend))" if "answered ?f rest (set (keys p))" for rest
      proof -
        have "answered ?f (m # out' @ rest) {}" using IH that by (simp add: m)
        then show ?thesis using answered_missing [OF Cons.prems(2)] r(2) by simp
      qed
      then show ?thesis using IH by blast
    next
      case False
      obtain out' ch' where r: "repair_loop env ms (AList.delete i pend) = (out', p, ch')" "out = m # out'"
        using Cons.prems(1) m False by (auto simp: split_beta Let_def prod_eq_iff split: if_splits)
      note IH = Cons.IH [OF r(1) pending_ok_delete [OF Cons.prems(2)]]
      have "set (keys (AList.delete i pend)) = set (keys pend) - {i}" by (auto simp: set_delete_dict)
      then have "answered ?f (out @ rest) (set (keys pend))" if "answered ?f rest (set (keys p))" for rest
        using IH that False m r(2) by auto
      then show ?thesis using IH by blast
    qed
  next
    case False
    then obtain out' ch' where r: "repair_loop env ms (pending_tool_calls ?f m) = (out', p, ch')"
      "out = (if pend \<noteq> [] then ?miss @ m # out' else m # out')"
      using Cons.prems(1) by (cases m) (auto simp: split_beta Let_def prod_eq_iff split: if_splits)
    note IH = Cons.IH [OF r(1) pending_ok_calls]
    have "answered ?f (out @ rest) (set (keys pend))" if "answered ?f rest (set (keys p))" for rest
    proof -
      have "answered ?f (out' @ rest) (opened ?f m)" using IH that by (simp add: opened_def)
      then have "answered ?f (m # out' @ rest) {}" using False by (cases m) auto
      then show ?thesis using answered_missing [OF Cons.prems(2)] r(2) by (cases "pend = []") simp_all
    qed
    then show ?thesis using IH by blast
  qed
qed

lemma repair_loop_identity:
  "answered (rp_str_of env) ms (set (keys pend)) \<Longrightarrow> repair_loop env ms pend = (ms, [], False)"
proof (induction ms arbitrary: pend)
  case Nil
  then show ?case by (cases pend) simp_all
next
  case (Cons m ms)
  show ?case
  proof (cases "\<exists>c i n s k. m = ToolMessage c i n s k")
    case True
    then obtain c i n s k where m: "m = ToolMessage c i n s k" by blast
    have a: "pend = [] \<or> i \<in> set (keys pend)" using Cons.prems m by (auto simp: keys_Nil_iff)
    have "set (keys (AList.delete i pend)) = set (keys pend) - {i}" by (auto simp: set_delete_dict)
    then have "answered (rp_str_of env) ms (set (keys (AList.delete i pend)))" using Cons.prems m by simp
    then show ?thesis using Cons.IH a m by (auto simp: Let_def)
  next
    case False
    then have "pend = []" "answered (rp_str_of env) ms (set (keys (pending_tool_calls (rp_str_of env) m)))"
      using Cons.prems by (cases m; auto simp: keys_Nil_iff opened_def)+
    then show ?thesis using Cons.IH False by (cases m) (simp_all add: Let_def)
  qed
qed

lemma repair_loop_subseq:
  "repair_loop env ms pend = (out, p, ch) \<Longrightarrow> subseq ms out \<and> (\<not> ch \<longrightarrow> out = ms)"
proof (induction ms arbitrary: pend out p ch)
  case Nil
  then show ?case by simp
next
  case (Cons m ms)
  let ?miss = "missing_tool_messages (rp_json_of env) (rp_error env) pend"
  have step: "subseq (m # ms) out \<and> (\<not> ch \<longrightarrow> out = m # ms)"
    if "repair_loop env ms pend' = (out', p', ch')" "out = m # out' \<and> ch = ch' \<or> out = xs @ m # out' \<and> ch"
    for pend' out' p' ch' xs
    using Cons.IH [OF that(1)] that(2) by (auto simp: list_emb_append2)
  show ?case
  proof (cases "\<exists>c i n s k. m = ToolMessage c i n s k")
    case True
    then obtain c i n s k where m: "m = ToolMessage c i n s k" by blast
    show ?thesis
    proof (cases "pend \<noteq> [] \<and> i \<notin> set (keys pend)")
      case True
      obtain out' ch' where "repair_loop env ms [] = (out', p, ch')" "out = ?miss @ m # out'" "ch"
        using Cons.prems m True by (auto simp: split_beta Let_def prod_eq_iff)
      then show ?thesis by (intro step) auto
    next
      case False
      obtain out' ch' where "repair_loop env ms (AList.delete i pend) = (out', p, ch')" "out = m # out'" "ch = ch'"
        using Cons.prems m False by (auto simp: split_beta Let_def prod_eq_iff split: if_splits)
      then show ?thesis by (intro step) auto
    qed
  next
    case False
    then obtain out' ch' where "repair_loop env ms (pending_tool_calls (rp_str_of env) m) = (out', p, ch')"
      "(if pend \<noteq> [] then out = ?miss @ m # out' \<and> ch else out = m # out' \<and> ch = ch')"
      using Cons.prems by (cases m) (auto simp: split_beta Let_def prod_eq_iff split: if_splits)
    then show ?thesis by (intro step [where xs = ?miss]) (auto split: if_splits)
  qed
qed

section \<open>Properties\<close>

text \<open>C25: the repair closes every call. With \<open>repair_trailing\<close>, every call of an assistant message in
  the repaired history is answered before anything else follows; the messages of the original
  history are all there, in order; a history that was already well formed is returned as it is, so a
  second repair changes nothing.\<close>

theorem repair_closes_calls:
  "answered (rp_str_of env) (repair_dangling_tool_call_messages env True ms) {} \<and>
   subseq ms (repair_dangling_tool_call_messages env True ms) \<and>
   (answered (rp_str_of env) ms {} \<longrightarrow> repair_dangling_tool_call_messages env True ms = ms) \<and>
   repair_dangling_tool_call_messages env True (repair_dangling_tool_call_messages env True ms) =
     repair_dangling_tool_call_messages env True ms"
proof -
  have id: "answered (rp_str_of env) xs {} \<Longrightarrow> repair_dangling_tool_call_messages env True xs = xs" for xs
    using repair_loop_identity [of env xs "[]"] by (simp add: repair_dangling_tool_call_messages_def)
  obtain out p ch where r: "repair_loop env ms [] = (out, p, ch)" by (cases "repair_loop env ms []") auto
  let ?miss = "missing_tool_messages (rp_json_of env) (rp_error env) p"
  have out: "repair_dangling_tool_call_messages env True ms = out @ ?miss"
    using repair_loop_subseq [OF r] by (auto simp: repair_dangling_tool_call_messages_def r missing_tool_messages_def)
  have a: "pending_ok p" "\<And>rest. answered (rp_str_of env) rest (set (keys p)) \<Longrightarrow> answered (rp_str_of env) (out @ rest) {}"
    using repair_loop_answered [OF r pending_ok_Nil] by simp_all
  have w: "answered (rp_str_of env) (repair_dangling_tool_call_messages env True ms) {}"
    unfolding out by (rule a(2)) (use answered_missing [OF a(1), of "rp_str_of env" "[]"] in simp)
  moreover have "subseq ms (repair_dangling_tool_call_messages env True ms)"
    unfolding out using repair_loop_subseq [OF r] by (simp add: subseq_rev_drop_many)
  ultimately show ?thesis using id [OF w] id [of ms] by blast
qed

definition ex_calls :: message where
  "ex_calls = AIMessage (PStr ''go'') [PDict [(''id'', PStr ''c1''), (''name'', PStr ''ls'')], PDict [(''name'', PStr ''cat'')]]"

definition ex_env :: repair_env where
  "ex_env = \<lparr>rp_str_of = (\<lambda>v. ''?''), rp_json_of = (\<lambda>n args err. n @ err), rp_error = ''!''\<rparr>"

definition ex_history :: "message list" where
  "ex_history = [HumanMessage (PStr ''hi''), ex_calls, ToolMessage (PStr ''ok'') ''c1'' ''ls'' ''success'' False, HumanMessage (PStr ''more'')]"

text \<open>The second call of \<open>ex_history\<close>, which has no id of its own, is answered before the next turn.\<close>

lemma repair_closes_calls_witness:
  "repair_dangling_tool_call_messages ex_env True ex_history =
     [HumanMessage (PStr ''hi''), ex_calls, ToolMessage (PStr ''ok'') ''c1'' ''ls'' ''success'' False,
      ToolMessage (PStr ''cat!'') ''dangling-tool-call-2'' ''cat'' ''error'' True, HumanMessage (PStr ''more'')] \<and>
   answered (rp_str_of ex_env) (repair_dangling_tool_call_messages ex_env True ex_history) {} \<and>
   repair_dangling_tool_call_messages ex_env True [ex_calls] \<noteq> [ex_calls] \<and>
   repair_dangling_tool_call_messages ex_env True [HumanMessage (PStr ''hi'')] = [HumanMessage (PStr ''hi'')]"
proof (intro conjI)
  show "answered (rp_str_of ex_env) (repair_dangling_tool_call_messages ex_env True ex_history) {}"
    using repair_closes_calls [of ex_env ex_history] by blast
  have "answered (rp_str_of ex_env) [HumanMessage (PStr ''hi'')] {}" by code_simp
  then show "repair_dangling_tool_call_messages ex_env True [HumanMessage (PStr ''hi'')] = [HumanMessage (PStr ''hi'')]"
    using repair_closes_calls [of ex_env "[HumanMessage (PStr ''hi'')]"] by blast
qed code_simp+

end
