(* ===== verification/Middleware.thy ===== *)
theory Middleware
  imports ToolProtocol
begin

text \<open>
  The middleware stack and loop detection: \<open>MiddlewareStack\<close> of
  \<open>src/focus_agent/harness/middleware/base.py\<close> and \<open>LoopDetectionMiddleware\<close> of
  \<open>loop_detection.py\<close> beside it. A middleware is its wrapper and its hooks, with \<open>None\<close> for a hook
  it does not have. The JSON text of a list of tool calls and \<open>str()\<close> of content that is not a string
  are arguments.
\<close>

section \<open>Stack\<close>

record tool_call_interception =
  ci_block :: bool
  ci_reason :: "string option"
  ci_patched :: "(string, pyval) dict option"

record tool_result_interception =
  ri_content :: "pyval option"
  ri_error :: "string option"
  ri_terminate :: bool

record 'h middleware =
  mw_name :: string
  mw_wrap :: "'h \<Rightarrow> 'h"
  mw_on_call :: "(string \<Rightarrow> (string, pyval) dict \<Rightarrow> tool_call_interception option) option"
  mw_on_result :: "(string \<Rightarrow> pyval \<Rightarrow> tool_result_interception option) option"

definition stack_wrap :: "'h middleware list \<Rightarrow> 'h \<Rightarrow> 'h" where
  "stack_wrap mws handler = foldl (\<lambda>wrapped mw. mw_wrap mw wrapped) handler (rev mws)"

record call_merge =
  cm_block :: bool
  cm_reason :: "string option"
  cm_patched :: "(string, pyval) dict option"

definition merge_call_decision :: "'h middleware \<Rightarrow> tool_call_interception \<Rightarrow> call_merge \<Rightarrow> call_merge" where
  "merge_call_decision mw d m =
    (if ci_block d then
       (if cm_block m then m
        else m\<lparr>cm_block := True, cm_reason := Some (case ci_reason d of
               None \<Rightarrow> ''blocked by '' @ mw_name mw
             | Some r \<Rightarrow> if r = [] then ''blocked by '' @ mw_name mw else r)\<rparr>)
     else case ci_patched d of
       None \<Rightarrow> m
     | Some p \<Rightarrow> m\<lparr>cm_patched := Some (case cm_patched m of None \<Rightarrow> p | Some q \<Rightarrow> update_dict q p)\<rparr>)"

definition call_decision :: "string \<Rightarrow> (string, pyval) dict \<Rightarrow> 'h middleware \<Rightarrow> tool_call_interception option" where
  "call_decision tool args mw = (case mw_on_call mw of None \<Rightarrow> None | Some hook \<Rightarrow> hook tool args)"

definition intercept_tool_call :: "'h middleware list \<Rightarrow> string \<Rightarrow> (string, pyval) dict \<Rightarrow> tool_call_interception" where
  "intercept_tool_call mws tool args =
    (let m = foldl (\<lambda>m mw. case call_decision tool args mw of None \<Rightarrow> m | Some d \<Rightarrow> merge_call_decision mw d m)
           \<lparr>cm_block = False, cm_reason = None, cm_patched = None\<rparr> mws
     in if cm_block m then \<lparr>ci_block = True, ci_reason = cm_reason m, ci_patched = None\<rparr>
        else \<lparr>ci_block = False, ci_reason = None, ci_patched = cm_patched m\<rparr>)"

definition merge_result_decision :: "tool_result_interception \<Rightarrow> tool_result_interception \<Rightarrow> tool_result_interception" where
  "merge_result_decision d m =
    \<lparr>ri_content = (case ri_content d of None \<Rightarrow> ri_content m | Some c \<Rightarrow> Some c),
     ri_error = (case ri_error d of None \<Rightarrow> ri_error m | Some e \<Rightarrow> Some e),
     ri_terminate = (ri_terminate m \<or> ri_terminate d)\<rparr>"

definition result_decision :: "string \<Rightarrow> pyval \<Rightarrow> 'h middleware \<Rightarrow> tool_result_interception option" where
  "result_decision tool res mw = (case mw_on_result mw of None \<Rightarrow> None | Some hook \<Rightarrow> hook tool res)"

definition intercept_tool_result :: "'h middleware list \<Rightarrow> string \<Rightarrow> pyval \<Rightarrow> tool_result_interception" where
  "intercept_tool_result mws tool res =
    foldl (\<lambda>m mw. case result_decision tool res mw of None \<Rightarrow> m | Some d \<Rightarrow> merge_result_decision d m)
      \<lparr>ri_content = None, ri_error = None, ri_terminate = False\<rparr> mws"

section \<open>Loop detection\<close>

record loop_config =
  lo_max_repetitions :: int
  lo_window :: int
  lo_max_rounds :: "int option"
  lo_on_detected :: string
  lo_fallback :: string

definition loop_post_init :: "loop_config \<Rightarrow> py_error + loop_config" where
  "loop_post_init c =
    (if lo_max_repetitions c < 2 then Inl (ValueError ''max_repetitions must be >= 2.'')
     else if lo_window c < 1 then Inl (ValueError ''window must be >= 1.'')
     else if (case lo_max_rounds c of None \<Rightarrow> False | Some n \<Rightarrow> n < 1)
       then Inl (ValueError ''max_consecutive_tool_call_rounds must be >= 1.'')
     else if lo_on_detected c \<notin> {''raise'', ''return_fallback''}
       then Inl (ValueError ''on_detected must be 'raise' or 'return_fallback'.'')
     else Inr c)"

record loop_env =
  le_str_of :: "pyval \<Rightarrow> string"
  le_json_of :: "(string \<times> (string, pyval) dict) list \<Rightarrow> string"

definition content_str :: "(pyval \<Rightarrow> string) \<Rightarrow> pyval \<Rightarrow> string" where
  "content_str str_of v = (case v of PStr s \<Rightarrow> s | _ \<Rightarrow> str_of v)"

definition normalize_text :: "(pyval \<Rightarrow> string) \<Rightarrow> pyval \<Rightarrow> string" where
  "normalize_text str_of content =
    (let raw = (case content of
         PList items \<Rightarrow> join_with '' '' (map (content_str str_of) items)
       | _ \<Rightarrow> if truthy content then content_str str_of content else [])
     in take 1000 (py_lower (py_strip (collapse_spaces raw))))"

definition tool_call_signature_payload :: "loop_env \<Rightarrow> pyval list \<Rightarrow> string" where
  "tool_call_signature_payload env calls =
    le_json_of env (concat (map (\<lambda>raw. case raw of
        PDict d \<Rightarrow> [(str_or (le_str_of env) (map_of d ''name'') [],
                     case map_of d ''args'' of Some (PDict a) \<Rightarrow> a | _ \<Rightarrow> [])]
      | _ \<Rightarrow> []) calls))"

definition message_signature :: "loop_env \<Rightarrow> message \<Rightarrow> string option" where
  "message_signature env m = (case m of
     AIMessage content calls \<Rightarrow>
       if calls \<noteq> [] then Some (''tool_calls:'' @ tool_call_signature_payload env calls)
       else (let text = normalize_text (le_str_of env) content in
         if text = [] then None else Some (''assistant_text:'' @ text))
   | _ \<Rightarrow> None)"

record loop_result =
  lr_reason :: string
  lr_signature :: string
  lr_repetitions :: int

fun is_tool_round :: "message \<Rightarrow> bool" where
  "is_tool_round (AIMessage content calls) = (calls \<noteq> [])"
| "is_tool_round _ = False"

definition detect_tool_round_exhaustion :: "loop_config \<Rightarrow> message list \<Rightarrow> loop_result option" where
  "detect_tool_round_exhaustion c ms = (case lo_max_rounds c of
     None \<Rightarrow> None
   | Some n \<Rightarrow> (let rounds = int (length (filter is_tool_round ms)) in
       if rounds < n then None
       else Some \<lparr>lr_reason = ''too_many_consecutive_tool_call_rounds'', lr_signature = ''tool_call_round'',
         lr_repetitions = rounds\<rparr>))"

definition window_signatures :: "loop_env \<Rightarrow> loop_config \<Rightarrow> message list \<Rightarrow> string list" where
  "window_signatures env c recent =
    concat (map (\<lambda>m. case message_signature env m of None \<Rightarrow> [] | Some s \<Rightarrow> if s = [] then [] else [s])
      (drop (length recent - nat (lo_window c)) recent))"

definition detect :: "loop_env \<Rightarrow> loop_config \<Rightarrow> message list \<Rightarrow> loop_result option" where
  "detect env c messages =
    (let recent = messages_since_latest_human messages in
     if recent = [] then None
     else case detect_tool_round_exhaustion c recent of
       Some r \<Rightarrow> Some r
     | None \<Rightarrow> (let signatures = window_signatures env c recent in
         map_option (\<lambda>s. \<lparr>lr_reason = ''repeated_message_signature'', lr_signature = s,
             lr_repetitions = int (count_list signatures s)\<rparr>)
           (find (\<lambda>s. lo_max_repetitions c \<le> int (count_list signatures s)) (rev signatures))))"

text \<open>What a handler returns: a mapping with its messages (a \<open>dict\<close> or another one), a list, a message,
  nothing, or something else.\<close>

datatype handler_result =
    RMapping bool "message list" "(string, pyval) dict"
  | RList "message list"
  | RMessage message
  | RNone
  | ROther pyval

definition messages_from_result :: "handler_result \<Rightarrow> message list" where
  "messages_from_result r = (case r of
     RMapping d ms rest \<Rightarrow> ms | RList ms \<Rightarrow> ms | RMessage m \<Rightarrow> [m] | RNone \<Rightarrow> [] | ROther v \<Rightarrow> [])"

definition fallback_result :: "loop_config \<Rightarrow> handler_result \<Rightarrow> handler_result" where
  "fallback_result c r =
    (let fallback = AIMessage (PStr (lo_fallback c)) [] in
     case r of RMapping True ms rest \<Rightarrow> RMapping True [fallback] rest | _ \<Rightarrow> RMessage fallback)"

definition checked_result :: "loop_env \<Rightarrow> loop_config \<Rightarrow> message list \<Rightarrow> handler_result \<Rightarrow> py_error + handler_result" where
  "checked_result env c state_messages r =
    (case detect env c (state_messages @ messages_from_result r) of
       None \<Rightarrow> Inr r
     | Some d \<Rightarrow>
         if lo_on_detected c = ''return_fallback'' then Inr (fallback_result c r)
         else Inl (LoopDetectedError (lr_reason d @ '': signature repeated '' @ show_nat (nat (lr_repetitions d)) @ '' times.'')))"

section \<open>Lemmas\<close>

text \<open>The decisions that block, and the patches of the others, in the order of the stack.\<close>

definition call_decisions :: "string \<Rightarrow> (string, pyval) dict \<Rightarrow> 'h middleware list \<Rightarrow> ('h middleware \<times> tool_call_interception) list" where
  "call_decisions tool args mws =
    concat (map (\<lambda>mw. case call_decision tool args mw of None \<Rightarrow> [] | Some d \<Rightarrow> [(mw, d)]) mws)"

definition call_patches :: "('h middleware \<times> tool_call_interception) list \<Rightarrow> (string, pyval) dict list" where
  "call_patches ds = concat (map (\<lambda>(mw, d). if ci_block d then [] else
     (case ci_patched d of None \<Rightarrow> [] | Some p \<Rightarrow> [p])) ds)"

definition block_reason :: "'h middleware \<Rightarrow> tool_call_interception \<Rightarrow> string" where
  "block_reason mw d = (case ci_reason d of None \<Rightarrow> ''blocked by '' @ mw_name mw
     | Some r \<Rightarrow> if r = [] then ''blocked by '' @ mw_name mw else r)"

definition merged_calls :: "('h middleware \<times> tool_call_interception) list \<Rightarrow> call_merge" where
  "merged_calls ds = foldl (\<lambda>m (mw, d). merge_call_decision mw d m) \<lparr>cm_block = False, cm_reason = None, cm_patched = None\<rparr> ds"

lemma merged_calls_of_stack:
  "foldl (\<lambda>m mw. case call_decision tool args mw of None \<Rightarrow> m | Some d \<Rightarrow> merge_call_decision mw d m)
     \<lparr>cm_block = False, cm_reason = None, cm_patched = None\<rparr> mws = merged_calls (call_decisions tool args mws)"
  by (induction mws rule: rev_induct) (simp_all add: merged_calls_def call_decisions_def split: option.split)

lemma merged_calls_snoc: "merged_calls (ds @ [(mw, d)]) = merge_call_decision mw d (merged_calls ds)"
  by (simp add: merged_calls_def)

lemma merged_block:
  "cm_block (merged_calls ds) = list_ex (\<lambda>(mw, d). ci_block d) ds \<and>
   cm_reason (merged_calls ds) = (case find (\<lambda>(mw, d). ci_block d) ds of None \<Rightarrow> None | Some (mw, d) \<Rightarrow> Some (block_reason mw d))"
proof (induction ds rule: rev_induct)
  case Nil
  show ?case by (simp add: merged_calls_def)
next
  case (snoc x ds)
  obtain mw d where x: "x = (mw, d)" by (cases x)
  have f: "find P (ds @ [x]) = (case find P ds of None \<Rightarrow> if P x then Some x else None | Some y \<Rightarrow> Some y)" for P
    by (induction ds) simp_all
  have n: "find (\<lambda>(mw, d). ci_block d) ds = None \<longleftrightarrow> \<not> list_ex (\<lambda>(mw, d). ci_block d) ds"
    by (auto simp: find_None_iff list_ex_iff)
  show ?case using snoc n unfolding f unfolding x merged_calls_snoc
    by (auto simp: merge_call_decision_def block_reason_def split: option.splits)
qed

lemma merged_patch:
  "cm_patched (merged_calls ds) = (case call_patches ds of [] \<Rightarrow> None | p # ps \<Rightarrow> Some (foldl update_dict p ps))"
proof (induction ds rule: rev_induct)
  case Nil
  show ?case by (simp add: merged_calls_def call_patches_def)
next
  case (snoc x ds)
  obtain mw d where x: "x = (mw, d)" by (cases x)
  have "call_patches (ds @ [x]) = call_patches ds @ (if ci_block d then [] else (case ci_patched d of None \<Rightarrow> [] | Some p \<Rightarrow> [p]))"
    by (simp add: call_patches_def x)
  then show ?case using snoc unfolding x merged_calls_snoc
    by (auto simp: merge_call_decision_def split: option.split list.splits)
qed

lemma map_of_patches:
  "map_of (foldl update_dict p ps) k =
    (case find (\<lambda>q. map_of (rev q) k \<noteq> None) (rev ps) of None \<Rightarrow> map_of p k | Some q \<Rightarrow> map_of (rev q) k)"
  by (induction ps rule: rev_induct) (auto simp: map_of_update_dict split: option.split)

lemma map_of_patch_list:
  assumes "\<forall>q \<in> set (p # ps). wf_dict q"
  shows "map_of (foldl update_dict p ps) k =
    (case find (\<lambda>q. map_of q k \<noteq> None) (rev (p # ps)) of None \<Rightarrow> None | Some q \<Rightarrow> map_of q k)"
  using assms
proof (induction ps rule: rev_induct)
  case Nil
  show ?case by (cases "map_of p k") simp_all
next
  case (snoc q ps)
  then have "wf_dict q" by simp
  then have "map_of (rev q) = map_of q" by (simp add: map_of_inject_set rev_map [symmetric])
  then show ?case using snoc by (auto simp: map_of_update_dict split: option.split)
qed

lemma find_rev_split:
  assumes "find P (rev xs) = Some x"
  obtains a b where "xs = a @ x # b" "P x" "\<forall>y \<in> set b. \<not> P y"
proof -
  have "\<exists>a b. xs = a @ x # b \<and> P x \<and> (\<forall>y \<in> set b. \<not> P y)" using assms
  proof (induction xs rule: rev_induct)
    case Nil
    then show ?case by simp
  next
    case (snoc y xs)
    show ?case
    proof (cases "P y")
      case True
      then show ?thesis using snoc.prems by (intro exI [of _ xs] exI [of _ "[]"]) auto
    next
      case False
      then obtain a b where "xs = a @ x # b" "P x" "\<forall>y \<in> set b. \<not> P y" using snoc by auto
      then show ?thesis using False by (intro exI [of _ a] exI [of _ "b @ [y]"]) auto
    qed
  qed
  then show thesis using that by blast
qed

lemma window_signatures_length: "length (window_signatures env c recent) \<le> nat (lo_window c)"
proof -
  have "length (concat (map f xs)) \<le> length xs" if "\<And>x. length (f x) \<le> 1" for f :: "message \<Rightarrow> string list" and xs
  proof (induction xs)
    case Nil
    show ?case by simp
  next
    case (Cons x xs)
    show ?case using Cons that [of x] by simp
  qed
  note le = this
  have "length (window_signatures env c recent) \<le> length (drop (length recent - nat (lo_window c)) recent)"
    unfolding window_signatures_def by (rule le) (simp split: option.split)
  then show ?thesis by simp
qed

section \<open>Properties\<close>

text \<open>The merged decision. The stack blocks a tool call exactly when some middleware does, with the
  reason of the first that does, and then patches nothing; otherwise the arguments it patches have, at
  every key, the value of the last patch that has the key.\<close>

lemma intercept_tool_call_exact:
  assumes "ds = call_decisions tool args mws" "\<forall>p \<in> set (call_patches ds). wf_dict p"
  shows "case find (\<lambda>(mw, d). ci_block d) ds of
      Some (mw, d) \<Rightarrow> intercept_tool_call mws tool args =
        \<lparr>ci_block = True, ci_reason = Some (block_reason mw d), ci_patched = None\<rparr>
    | None \<Rightarrow> \<not> ci_block (intercept_tool_call mws tool args) \<and> ci_reason (intercept_tool_call mws tool args) = None \<and>
        (case ci_patched (intercept_tool_call mws tool args) of
           None \<Rightarrow> call_patches ds = []
         | Some p \<Rightarrow> \<forall>k. map_of p k = (case find (\<lambda>q. map_of q k \<noteq> None) (rev (call_patches ds)) of
             None \<Rightarrow> None | Some q \<Rightarrow> map_of q k))"
proof -
  have i: "intercept_tool_call mws tool args = (if cm_block (merged_calls ds)
     then \<lparr>ci_block = True, ci_reason = cm_reason (merged_calls ds), ci_patched = None\<rparr>
     else \<lparr>ci_block = False, ci_reason = None, ci_patched = cm_patched (merged_calls ds)\<rparr>)"
    unfolding intercept_tool_call_def Let_def merged_calls_of_stack assms(1) ..
  have b: "cm_block (merged_calls ds) \<longleftrightarrow> find (\<lambda>(mw, d). ci_block d) ds \<noteq> None"
    using merged_block [of ds] by (auto simp: find_None_iff list_ex_iff)
  show ?thesis
  proof (cases "find (\<lambda>(mw, d). ci_block d) ds")
    case None
    show ?thesis
    proof (cases "call_patches ds")
      case Nil
      then show ?thesis using None b i by (simp add: merged_patch)
    next
      case (Cons p ps)
      then show ?thesis using None b i assms(2) map_of_patch_list [of p ps] by (simp add: merged_patch)
    qed
  next
    case (Some x)
    obtain mw d where "x = (mw, d)" by (cases x)
    then show ?thesis using Some b i merged_block [of ds] by simp
  qed
qed

text \<open>What counts as a loop. The detector reports nothing exactly when the tool rounds since the last
  user message are below the limit and no signature in the window repeats often enough; a repeated
  signature it reports is the most recent one that repeats. A window smaller than
  \<open>max_repetitions\<close>, which the constructor accepts, never reports a repetition.\<close>

lemma detect_exact:
  assumes "loop_post_init c = Inr c" "recent = messages_since_latest_human ms" "sigs = window_signatures env c recent"
  shows "(detect env c ms = None \<longleftrightarrow>
      (case lo_max_rounds c of None \<Rightarrow> True | Some n \<Rightarrow> int (length (filter is_tool_round recent)) < n) \<and>
      (\<forall>s. int (count_list sigs s) < lo_max_repetitions c)) \<and>
    (\<forall>r. detect env c ms = Some r \<longrightarrow> lr_reason r = ''repeated_message_signature'' \<longrightarrow>
      lo_max_repetitions c \<le> lo_window c \<and> lr_repetitions r = int (count_list sigs (lr_signature r)) \<and>
      lo_max_repetitions c \<le> lr_repetitions r \<and>
      (\<exists>a b. sigs = a @ lr_signature r # b \<and> (\<forall>s \<in> set b. int (count_list sigs s) < lo_max_repetitions c)))"
proof -
  have m: "2 \<le> lo_max_repetitions c" "1 \<le> lo_window c" "\<And>n. lo_max_rounds c = Some n \<Longrightarrow> 1 \<le> n"
    using assms(1) by (auto simp: loop_post_init_def split: if_splits)
  let ?rounds = "detect_tool_round_exhaustion c recent"
  let ?find = "find (\<lambda>s. lo_max_repetitions c \<le> int (count_list sigs s)) (rev sigs)"
  have empty: "recent = [] \<Longrightarrow> sigs = [] \<and> ?rounds = None"
    using m(3) by (auto simp: assms(3) window_signatures_def detect_tool_round_exhaustion_def Let_def split: option.split)
  then have d: "detect env c ms = (case ?rounds of Some r \<Rightarrow> Some r
     | None \<Rightarrow> map_option (\<lambda>s. \<lparr>lr_reason = ''repeated_message_signature'', lr_signature = s,
         lr_repetitions = int (count_list sigs s)\<rparr>) ?find)"
    by (auto simp: detect_def Let_def assms(2,3) split: option.split)
  have rn: "?rounds = None \<longleftrightarrow> (case lo_max_rounds c of None \<Rightarrow> True | Some n \<Rightarrow> int (length (filter is_tool_round recent)) < n)"
    by (simp add: detect_tool_round_exhaustion_def Let_def split: option.split)
  have rr: "?rounds = Some r \<Longrightarrow> lr_reason r = ''too_many_consecutive_tool_call_rounds''" for r
    by (auto simp: detect_tool_round_exhaustion_def Let_def split: option.splits if_splits)
  have "?find = None \<longleftrightarrow> (\<forall>s \<in> set sigs. int (count_list sigs s) < lo_max_repetitions c)"
    by (auto simp: find_None_iff)
  also have "\<dots> \<longleftrightarrow> (\<forall>s. int (count_list sigs s) < lo_max_repetitions c)"
    using m(1) by (metis count_notin of_nat_0 zero_less_numeral less_le_trans)
  finally have fn: "?find = None \<longleftrightarrow> (\<forall>s. int (count_list sigs s) < lo_max_repetitions c)" .
  have "lo_max_repetitions c \<le> lo_window c \<and> lr_repetitions r = int (count_list sigs (lr_signature r)) \<and>
      lo_max_repetitions c \<le> lr_repetitions r \<and>
      (\<exists>a b. sigs = a @ lr_signature r # b \<and> (\<forall>s \<in> set b. int (count_list sigs s) < lo_max_repetitions c))"
    if r: "detect env c ms = Some r" "lr_reason r = ''repeated_message_signature''" for r
  proof -
    have n: "?rounds = None" using rr r by (cases ?rounds) (auto simp: d)
    then obtain s where s: "?find = Some s" "r = \<lparr>lr_reason = ''repeated_message_signature'', lr_signature = s,
         lr_repetitions = int (count_list sigs s)\<rparr>" using r(1) by (auto simp: d)
    obtain a b where ab: "sigs = a @ s # b" "lo_max_repetitions c \<le> int (count_list sigs s)"
      "\<forall>y \<in> set b. \<not> lo_max_repetitions c \<le> int (count_list sigs y)" using find_rev_split [OF s(1)] .
    have "count_list sigs s \<le> length sigs" by (rule count_le_length)
    moreover have "length sigs \<le> nat (lo_window c)" unfolding assms(3) by (rule window_signatures_length)
    ultimately have "lo_max_repetitions c \<le> lo_window c" using ab(2) m(2) by linarith
    moreover have "\<forall>y \<in> set b. int (count_list sigs y) < lo_max_repetitions c" using ab(3) by (simp add: not_le)
    ultimately show ?thesis using ab(1,2) unfolding s(2) loop_result.simps by blast
  qed
  moreover have "detect env c ms = None \<longleftrightarrow> ?rounds = None \<and> ?find = None" unfolding d by (simp split: option.split)
  ultimately show ?thesis unfolding rn fn by blast
qed

definition ex_hook :: "string \<Rightarrow> tool_call_interception \<Rightarrow> (nat \<Rightarrow> nat) middleware" where
  "ex_hook n d = \<lparr>mw_name = n, mw_wrap = id, mw_on_call = Some (\<lambda>t a. Some d), mw_on_result = None\<rparr>"

definition ex_stack :: "(nat \<Rightarrow> nat) middleware list" where
  "ex_stack = [ex_hook ''P'' \<lparr>ci_block = False, ci_reason = None, ci_patched = Some [(''path'', PStr ''/tmp'')]\<rparr>,
     ex_hook ''Q'' \<lparr>ci_block = True, ci_reason = Some [], ci_patched = None\<rparr>]"

text \<open>The first middleware alone patches the path; with the second the call is blocked.\<close>

lemma intercept_tool_call_exact_witness:
  "intercept_tool_call ex_stack ''bash'' [] = \<lparr>ci_block = True, ci_reason = Some ''blocked by Q'', ci_patched = None\<rparr> \<and>
   ci_patched (intercept_tool_call (take 1 ex_stack) ''bash'' []) = Some [(''path'', PStr ''/tmp'')]"
proof
  have "\<forall>p \<in> set (call_patches (call_decisions ''bash'' [] ex_stack)). wf_dict p"
    by (simp add: call_patches_def call_decisions_def call_decision_def ex_stack_def ex_hook_def)
  from intercept_tool_call_exact [OF refl this]
  show "intercept_tool_call ex_stack ''bash'' [] = \<lparr>ci_block = True, ci_reason = Some ''blocked by Q'', ci_patched = None\<rparr>"
    by (simp add: call_decisions_def call_decision_def ex_stack_def ex_hook_def block_reason_def)
  show "ci_patched (intercept_tool_call (take 1 ex_stack) ''bash'' []) = Some [(''path'', PStr ''/tmp'')]"
    by (simp add: intercept_tool_call_def call_decision_def ex_stack_def ex_hook_def merge_call_decision_def)
qed

definition ex_loop :: loop_config where
  "ex_loop = \<lparr>lo_max_repetitions = 2, lo_window = 12, lo_max_rounds = None, lo_on_detected = ''raise'', lo_fallback = []\<rparr>"

definition ex_loop_env :: loop_env where
  "ex_loop_env = \<lparr>le_str_of = (\<lambda>v. []), le_json_of = (\<lambda>p. concat (map fst p))\<rparr>"

definition ex_loop_messages :: "message list" where
  "ex_loop_messages = [AIMessage (PStr ''Old'') [], HumanMessage (PStr ''go''), AIMessage (PStr ''Same  step'') [],
     ToolMessage (PStr ''x'') ''c'' ''ls'' ''success'' False, AIMessage (PStr '' same step'') []]"

lemma detect_exact_witness:
  "detect ex_loop_env ex_loop ex_loop_messages =
     Some \<lparr>lr_reason = ''repeated_message_signature'', lr_signature = ''assistant_text:same step'', lr_repetitions = 2\<rparr> \<and>
   lo_max_repetitions ex_loop \<le> lo_window ex_loop \<and>
   detect ex_loop_env ex_loop (take 3 ex_loop_messages) = None"
proof -
  have i: "loop_post_init ex_loop = Inr ex_loop" by (simp add: loop_post_init_def ex_loop_def)
  have d: "detect ex_loop_env ex_loop ex_loop_messages =
     Some \<lparr>lr_reason = ''repeated_message_signature'', lr_signature = ''assistant_text:same step'', lr_repetitions = 2\<rparr>"
    "detect ex_loop_env ex_loop (take 3 ex_loop_messages) = None" by code_simp+
  show ?thesis using detect_exact [OF i refl refl, of ex_loop_env ex_loop_messages] d by simp
qed

end
