(* ===== verification/Ownership.thy ===== *)
theory Ownership
  imports Prelude "HOL-Library.Multiset"
begin

text \<open>
  The audit trail of ownership decisions: \<open>src/focus_agent/security/ownership.py\<close>. A principal is its
  user id. A function that appends to the trail and may raise returns the trail beside the result, since an event
  appended before the exception stays. The dictionary a report is exported to is its record \<open>audit_report\<close>.
\<close>

datatype ownership_decision = Allow | Deny

definition decision_str :: "ownership_decision \<Rightarrow> string" where
  "decision_str d = (case d of Allow \<Rightarrow> ''allow'' | Deny \<Rightarrow> ''deny'')"

record audit_event =
  ae_user :: string
  ae_resource_type :: string
  ae_resource_id :: string
  ae_action :: string
  ae_decision :: ownership_decision
  ae_reason :: string
  ae_request :: "string option"

type_synonym 'a audited = "audit_event list \<times> (py_error + 'a)"

definition principal_user_id :: "string \<Rightarrow> py_error + string" where
  "principal_user_id user = (if user = [] then Inl (ValueError ''Ownership audit principal must include a user_id.'') else Inr user)"

text \<open>The arguments the functions share: what is accessed, how, and in which request.\<close>

record audit_subject =
  as_resource_type :: string
  as_resource_id :: string
  as_action :: string
  as_request :: "string option"

definition append_audit_event :: "audit_event list \<Rightarrow> string \<Rightarrow> audit_subject \<Rightarrow> ownership_decision \<Rightarrow> string \<Rightarrow> audit_event audited" where
  "append_audit_event events user s decision reason =
    (case principal_user_id user of
       Inl e \<Rightarrow> (events, Inl e)
     | Inr u \<Rightarrow> (let event = \<lparr>ae_user = u, ae_resource_type = as_resource_type s, ae_resource_id = as_resource_id s,
           ae_action = as_action s, ae_decision = decision, ae_reason = reason, ae_request = as_request s\<rparr>
         in (events @ [event], Inr event)))"

definition allow_ownership :: "audit_event list \<Rightarrow> string \<Rightarrow> audit_subject \<Rightarrow> string \<Rightarrow> audit_event audited" where
  "allow_ownership events user s reason = append_audit_event events user s Allow reason"

definition deny_ownership :: "audit_event list \<Rightarrow> string \<Rightarrow> audit_subject \<Rightarrow> string \<Rightarrow> string option \<Rightarrow> 'a audited" where
  "deny_ownership events user s reason message =
    (case append_audit_event events user s Deny reason of
       (events', Inl e) \<Rightarrow> (events', Inl e)
     | (events', Inr event) \<Rightarrow> (events', Inl (PermissionError (case message of
           Some m \<Rightarrow> if m \<noteq> [] then m else ''User '' @ ae_user event @ '' cannot '' @ as_action s @ '' '' @ as_resource_type s @ '' '' @ as_resource_id s @ ''.''
         | None \<Rightarrow> ''User '' @ ae_user event @ '' cannot '' @ as_action s @ '' '' @ as_resource_type s @ '' '' @ as_resource_id s @ ''.''))))"

definition assert_owner :: "audit_event list \<Rightarrow> string \<Rightarrow> string \<Rightarrow> audit_subject \<Rightarrow> string \<Rightarrow> string \<Rightarrow> audit_event audited" where
  "assert_owner events who owner s allow_reason deny_reason =
    (case principal_user_id who of
       Inl e \<Rightarrow> (events, Inl e)
     | Inr user \<Rightarrow> if user = owner then allow_ownership events user s allow_reason
                   else deny_ownership events user s deny_reason None)"

section \<open>Reports\<close>

definition str_value :: "string option \<Rightarrow> pyval" where
  "str_value s = (case s of None \<Rightarrow> PNone | Some x \<Rightarrow> PStr x)"

definition audit_event_to_export :: "audit_event \<Rightarrow> (string, pyval) dict" where
  "audit_event_to_export e =
    (let d = decision_str (ae_decision e);
         runtime = [(''event_type'', PStr ''ownership.audit''), (''user_id'', PStr (ae_user e)), (''principal'', PStr (ae_user e)),
           (''resource_type'', PStr (ae_resource_type e)), (''resource_id'', PStr (ae_resource_id e)),
           (''action'', PStr (ae_action e)), (''decision'', PStr d), (''reason'', PStr (ae_reason e)),
           (''request_id'', str_value (ae_request e))]
     in [(''tool'', PStr ''ownership.audit''),
         (''args'', PDict [(''resource_type'', PStr (ae_resource_type e)), (''resource_id'', PStr (ae_resource_id e)),
            (''action'', PStr (ae_action e)), (''request_id'', str_value (ae_request e))]),
         (''observation'', PStr (d @ '' ownership '' @ ae_action e @ '' '' @ ae_resource_type e @ '' '' @ ae_resource_id e @ '': '' @ ae_reason e)),
         (''duration_ms'', PFloat 0), (''error'', if ae_decision e = Deny then PStr (ae_reason e) else PNone),
         (''cache_hit'', PBool False), (''fallback_used'', PBool False), (''fallback_group'', PNone),
         (''parallel_batch_size'', PNone), (''runtime'', PDict runtime), (''observation_truncated'', PBool False)])"

text \<open>\<open>dict(sorted(Counter(values).items()))\<close>\<close>

definition counter_dict :: "string list \<Rightarrow> (string, nat) dict" where
  "counter_dict xs = map (\<lambda>x. (x, count_list xs x)) (sort (remdups xs))"

record trend_entry =
  tr_index :: nat
  tr_cumulative :: nat
  tr_reason :: string
  tr_resource_type :: string
  tr_action :: string
  tr_request :: "string option"

definition deny_trend :: "audit_event list \<Rightarrow> trend_entry list" where
  "deny_trend events = map (\<lambda>(i, e). \<lparr>tr_index = i, tr_cumulative = i, tr_reason = ae_reason e,
     tr_resource_type = ae_resource_type e, tr_action = ae_action e, tr_request = ae_request e\<rparr>) (enumerate 1 events)"

record audit_report =
  ar_total :: nat
  ar_allow :: nat
  ar_deny :: nat
  ar_deny_rate :: real
  ar_by_decision :: "(string, nat) dict"
  ar_deny_reasons :: "(string, nat) dict"
  ar_deny_by_resource_type :: "(string, nat) dict"
  ar_deny_by_action :: "(string, nat) dict"
  ar_deny_by_principal :: "(string, nat) dict"
  ar_deny_trend :: "trend_entry list"

definition build_audit_report :: "audit_event list \<Rightarrow> audit_report" where
  "build_audit_report items =
    (let denied = filter (\<lambda>e. ae_decision e = Deny) items; total = length items
     in \<lparr>ar_total = total, ar_allow = length (filter (\<lambda>e. ae_decision e = Allow) items), ar_deny = length denied,
         ar_deny_rate = (if total \<noteq> 0 then real (length denied) / real total else 0),
         ar_by_decision = counter_dict (map (\<lambda>e. decision_str (ae_decision e)) items),
         ar_deny_reasons = counter_dict (map ae_reason denied),
         ar_deny_by_resource_type = counter_dict (map ae_resource_type denied),
         ar_deny_by_action = counter_dict (map ae_action denied),
         ar_deny_by_principal = counter_dict (map ae_user denied),
         ar_deny_trend = deny_trend denied\<rparr>)"

section \<open>Lemmas\<close>

lemma map_of_map_pair: "map_of (map (\<lambda>x. (x, f x)) xs) k = (if k \<in> set xs then Some (f k) else None)"
  by (induction xs) auto

lemma counter_dict_lookup: "map_of (counter_dict xs) k = (if k \<in> set xs then Some (count_list xs k) else None)"
  by (simp add: counter_dict_def map_of_map_pair)

lemma counter_dict_get: "get_or (counter_dict xs) k 0 = count_list xs k"
  by (cases "k \<in> set xs") (simp_all add: get_or_def counter_dict_lookup)

lemma sum_count_remdups: "sum_list (map (count_list xs) (sort (remdups xs))) = length xs"
proof -
  have "sum_list (map (count_list xs) (sort (remdups xs))) = (\<Sum>x \<in> set xs. count_list xs x)"
    by (subst sum_list_distinct_conv_sum_set) simp_all
  then show ?thesis by (simp add: sum_count_set)
qed

lemma counter_dict_total: "sum_list (vals (counter_dict xs)) = length xs"
proof -
  have "vals (counter_dict xs) = map (count_list xs) (sort (remdups xs))" by (simp add: counter_dict_def comp_def)
  then show ?thesis by (simp only: sum_count_remdups)
qed

lemma counter_dict_sorted: "sorted (keys (counter_dict xs)) \<and> distinct (keys (counter_dict xs))"
  by (simp add: counter_dict_def comp_def)

lemma count_list_map_filter: "count_list (map f (filter P xs)) k = length (filter (\<lambda>x. P x \<and> f x = k) xs)"
  by (induction xs) auto

lemma append_audit_event_ok:
  "user \<noteq> [] \<Longrightarrow> \<exists>e. append_audit_event events user s d r = (events @ [e], Inr e) \<and>
     ae_user e = user \<and> ae_resource_id e = as_resource_id s \<and> ae_decision e = d \<and> ae_reason e = r"
  by (simp add: append_audit_event_def principal_user_id_def Let_def)

lemma deny_ownership_ok:
  "user \<noteq> [] \<Longrightarrow> \<exists>e msg. deny_ownership events user s r m = (events @ [e], Inl (PermissionError msg)) \<and>
     ae_user e = user \<and> ae_resource_id e = as_resource_id s \<and> ae_decision e = Deny \<and> ae_reason e = r"
  using append_audit_event_ok [of user events s Deny r] by (auto simp: deny_ownership_def)

section \<open>Properties\<close>

text \<open>The report counts the trail. Allowed and denied events add up to the total; the denial rate lies
  between zero and one; the counter of denial reasons, sorted by reason, has at each reason the number of denied events with that
  reason, and its values add up to the number of denied events; the trend numbers the denied events.\<close>

lemma audit_report_exact:
  "ar_allow (build_audit_report es) + ar_deny (build_audit_report es) = length es \<and>
   0 \<le> ar_deny_rate (build_audit_report es) \<and> ar_deny_rate (build_audit_report es) \<le> 1 \<and>
   sorted (keys (ar_deny_reasons (build_audit_report es))) \<and>
   get_or (ar_deny_reasons (build_audit_report es)) r 0 =
     length (filter (\<lambda>e. ae_decision e = Deny \<and> ae_reason e = r) es) \<and>
   sum_list (vals (ar_deny_reasons (build_audit_report es))) = ar_deny (build_audit_report es) \<and>
   map tr_index (ar_deny_trend (build_audit_report es)) = [1..<ar_deny (build_audit_report es) + 1]"
proof -
  let ?d = "filter (\<lambda>e. ae_decision e = Deny) es"
  have neg: "(\<lambda>e. ae_decision e = Allow) = (\<lambda>e. \<not> ae_decision e = Deny)"
    by (rule ext) (metis ownership_decision.exhaust ownership_decision.distinct(1))
  have 1: "length (filter (\<lambda>e. ae_decision e = Allow) es) + length ?d = length es"
    unfolding neg by (metis add.commute sum_length_filter_compl)
  have le: "length ?d \<le> length es" by (rule length_filter_le)
  have 2: "0 \<le> real (length ?d) / real (length es)" by simp
  have 3: "real (length ?d) / real (length es) \<le> 1" if "es \<noteq> []" using le that by (simp add: divide_le_eq)
  have 4: "get_or (counter_dict (map ae_reason ?d)) r 0 = length (filter (\<lambda>e. ae_decision e = Deny \<and> ae_reason e = r) es)"
  proof -
    have "count_list (map ae_reason ?d) r = length (filter (\<lambda>e. ae_decision e = Deny \<and> ae_reason e = r) es)"
      by (rule count_list_map_filter)
    then show ?thesis using counter_dict_get [of "map ae_reason ?d" r] by simp
  qed
  have 5: "map tr_index (deny_trend ?d) = [1..<length ?d + 1]"
  proof -
    have "map tr_index (deny_trend xs) = map fst (enumerate 1 xs)" for xs
      by (simp add: deny_trend_def split_beta comp_def)
    then show ?thesis by simp
  qed
  have f: "ar_allow (build_audit_report es) = length (filter (\<lambda>e. ae_decision e = Allow) es)"
    "ar_deny (build_audit_report es) = length ?d"
    "ar_deny_rate (build_audit_report es) = (if es = [] then 0 else real (length ?d) / real (length es))"
    "ar_deny_reasons (build_audit_report es) = counter_dict (map ae_reason ?d)"
    "ar_deny_trend (build_audit_report es) = deny_trend ?d"
    by (simp_all add: build_audit_report_def Let_def)
  have 6: "sum_list (vals (counter_dict (map ae_reason ?d))) = length ?d" by (simp only: counter_dict_total length_map)
  have 7: "0 \<le> (if es = [] then 0 else real (length ?d) / real (length es))"
    "(if es = [] then 0 else real (length ?d) / real (length es)) \<le> 1" using 2 3 by auto
  show ?thesis unfolding f using 1 4 5 6 7 counter_dict_sorted [of "map ae_reason ?d"] by blast
qed

end
