(* ===== verification/Branches.thy ===== *)
theory Branches
  imports Ownership
begin

text \<open>
  Branches of a conversation and who owns its threads: the values of \<open>src/focus_agent/core/branching.py\<close>
  and \<open>InMemoryBranchRepository\<close> of \<open>src/focus_agent/repositories/in_memory_branch_repository.py\<close>.
  The clock is an argument; the readings within one operation are taken to be equal. An operation that
  audits its decision returns the repository, the audit trail and the result.
\<close>

section \<open>Values\<close>

datatype branch_role = MAIN | EXPLORE_ALTERNATIVES | DEEP_DIVE | EXECUTE | VERIFY | WRITEUP

datatype branch_status = BS_ACTIVE | BS_PAUSED | BS_PREPARING_MERGE_REVIEW | BS_AWAITING_MERGE_REVIEW
  | BS_MERGED | BS_DISCARDED | BS_CLOSED

datatype merge_mode = MM_NONE | SUMMARY_ONLY | SUMMARY_PLUS_EVIDENCE | SELECTED_ARTIFACTS

datatype merge_target = RETURN_THREAD | ROOT_THREAD

record merge_conflict =
  mc_branch_name :: string
  mc_finding :: string
  mc_conflicting :: string

record merge_proposal =
  mp_summary :: string
  mp_key_findings :: "string list"
  mp_open_questions :: "string list"
  mp_evidence_refs :: "string list"
  mp_artifacts :: "string list"
  mp_mode :: merge_mode
  mp_finding_refs :: "(string, string list) dict"
  mp_parent_moved_on :: bool
  mp_conflicts :: "merge_conflict list"

record merge_decision =
  md_approved :: bool
  md_mode :: merge_mode
  md_target :: merge_target
  md_rationale :: "string option"
  md_selected :: "string list"

record branch_record =
  br_id :: string
  br_root :: string
  br_parent :: string
  br_child :: string
  br_return :: string
  br_owner :: string
  br_name :: string
  br_role :: branch_role
  br_depth :: int
  br_status :: branch_status
  br_archived :: bool
  br_archived_at :: "string option"
  br_fork_checkpoint :: "string option"
  br_fork_strategy :: string
  br_proposal :: "merge_proposal option"
  br_decision :: "merge_decision option"

record thread_resolution =
  tr_input :: string
  tr_root :: string
  tr_source :: string
  tr_branch :: "string option"
  tr_is_root :: bool
  tr_status :: branch_status
  tr_diagnostic :: string

text \<open>\<open>x or y\<close> on strings that may be missing.\<close>

definition or_else :: "string option \<Rightarrow> string \<Rightarrow> string" where
  "or_else x y = (case x of None \<Rightarrow> y | Some s \<Rightarrow> if s = [] then y else s)"

definition resolution_of_branch :: "branch_record \<Rightarrow> string option \<Rightarrow> thread_resolution" where
  "resolution_of_branch r input = \<lparr>tr_input = or_else input (br_child r), tr_root = br_root r, tr_source = br_child r,
     tr_branch = Some (br_id r), tr_is_root = False, tr_status = br_status r, tr_diagnostic = ''resolved_from_branch_child''\<rparr>"

definition resolution_of_root :: "string \<Rightarrow> string option \<Rightarrow> string option \<Rightarrow> string \<Rightarrow> thread_resolution" where
  "resolution_of_root thread input rid diagnostic =
    (let resolved = or_else rid thread
     in \<lparr>tr_input = or_else input thread, tr_root = resolved, tr_source = thread, tr_branch = None,
         tr_is_root = (thread = resolved), tr_status = BS_ACTIVE, tr_diagnostic = diagnostic\<rparr>)"

record conversation =
  cv_root :: string
  cv_owner :: string
  cv_title :: string
  cv_title_pending :: bool
  cv_archived :: bool
  cv_archived_at :: "string option"
  cv_created :: "string option"
  cv_updated :: "string option"
  cv_tokens :: "(string, int) dict"

record branch_repo =
  rp_branches :: "(string, branch_record) dict"
  rp_access :: "(string, string) dict"
  rp_roots :: "(string, string) dict"
  rp_conversations :: "(string, conversation) dict"

definition branch_repo_init :: branch_repo where
  "branch_repo_init = \<lparr>rp_branches = [], rp_access = [], rp_roots = [], rp_conversations = []\<rparr>"

section \<open>Branch records\<close>

definition create_branch :: "branch_record \<Rightarrow> branch_repo \<Rightarrow> py_error + branch_repo" where
  "create_branch r p = (if map_of (rp_branches p) (br_id r) \<noteq> None
     then Inl (ValueError (''branch_id already exists: '' @ br_id r))
     else Inr (p\<lparr>rp_branches := AList.update (br_id r) r (rp_branches p)\<rparr>))"

definition get_branch :: "string \<Rightarrow> branch_repo \<Rightarrow> py_error + branch_record" where
  "get_branch i p = (case map_of (rp_branches p) i of
     None \<Rightarrow> Inl (KeyError (''Unknown branch_id: '' @ i)) | Some r \<Rightarrow> Inr r)"

definition get_by_child_thread :: "string \<Rightarrow> branch_repo \<Rightarrow> py_error + branch_record" where
  "get_by_child_thread t p = (case filter (\<lambda>r. br_child r = t) (vals (rp_branches p)) of
     [] \<Rightarrow> Inl (KeyError (''Unknown child_thread_id: '' @ t)) | r # rs \<Rightarrow> Inr r)"

definition list_by_root_thread :: "string \<Rightarrow> branch_repo \<Rightarrow> branch_record list" where
  "list_by_root_thread t p = sort_key (\<lambda>r. (br_depth r, br_name r, br_child r))
     (filter (\<lambda>r. br_root r = t) (vals (rp_branches p)))"

definition list_by_parent_thread :: "string \<Rightarrow> branch_repo \<Rightarrow> branch_record list" where
  "list_by_parent_thread t p = sort_key (\<lambda>r. (br_name r, br_child r))
     (filter (\<lambda>r. br_parent r = t) (vals (rp_branches p)))"

text \<open>The six updates share their shape: the record must exist and is replaced by a copy with fields changed.\<close>

definition update_branch :: "string \<Rightarrow> (branch_record \<Rightarrow> branch_record) \<Rightarrow> branch_repo \<Rightarrow> py_error + branch_repo" where
  "update_branch i f p = (case map_of (rp_branches p) i of
     None \<Rightarrow> Inl (KeyError (''Unknown branch_id: '' @ i))
   | Some r \<Rightarrow> Inr (p\<lparr>rp_branches := AList.update i (f r) (rp_branches p)\<rparr>))"

definition save_merge_proposal :: "string \<Rightarrow> merge_proposal \<Rightarrow> branch_repo \<Rightarrow> py_error + branch_repo" where
  "save_merge_proposal i x = update_branch i (\<lambda>r. r\<lparr>br_proposal := Some x\<rparr>)"

definition save_merge_decision :: "string \<Rightarrow> merge_decision \<Rightarrow> branch_repo \<Rightarrow> py_error + branch_repo" where
  "save_merge_decision i x = update_branch i (\<lambda>r. r\<lparr>br_decision := Some x\<rparr>)"

definition update_branch_status :: "string \<Rightarrow> branch_status \<Rightarrow> branch_repo \<Rightarrow> py_error + branch_repo" where
  "update_branch_status i s = update_branch i (\<lambda>r. r\<lparr>br_status := s\<rparr>)"

definition update_branch_archive :: "string \<Rightarrow> string \<Rightarrow> bool \<Rightarrow> branch_repo \<Rightarrow> py_error + branch_repo" where
  "update_branch_archive now i a = update_branch i (\<lambda>r. r\<lparr>br_archived := a, br_archived_at := (if a then Some now else None)\<rparr>)"

definition update_branch_name :: "string \<Rightarrow> string \<Rightarrow> branch_repo \<Rightarrow> py_error + branch_repo" where
  "update_branch_name i n = update_branch i (\<lambda>r. r\<lparr>br_name := n\<rparr>)"

definition update_branch_role :: "string \<Rightarrow> branch_role \<Rightarrow> branch_repo \<Rightarrow> py_error + branch_repo" where
  "update_branch_role i x = update_branch i (\<lambda>r. r\<lparr>br_role := x\<rparr>)"

section \<open>Thread ownership\<close>

definition thread_subject :: "string \<Rightarrow> string option \<Rightarrow> audit_subject" where
  "thread_subject thread request = \<lparr>as_resource_type = ''thread'', as_resource_id = thread, as_action = ''access'', as_request = request\<rparr>"

definition ensure_thread_owner :: "string \<Rightarrow> string \<Rightarrow> string \<Rightarrow> string option \<Rightarrow> audit_event list \<Rightarrow> branch_repo \<Rightarrow>
    branch_repo \<times> unit audited" where
  "ensure_thread_owner thread rid user request events p =
    (let s = thread_subject thread request;
         finish = (\<lambda>(es, res). (es, bind_ok res (\<lambda>e. Inr ())))
     in case map_of (rp_access p) thread of
       None \<Rightarrow> (p\<lparr>rp_access := AList.update thread user (rp_access p), rp_roots := AList.update thread rid (rp_roots p)\<rparr>,
         finish (allow_ownership events user s ''thread_owner_registered''))
     | Some owner \<Rightarrow>
         (let p' = (case map_of (rp_roots p) thread of
                None \<Rightarrow> p
              | Some r \<Rightarrow> if r \<noteq> rid then p\<lparr>rp_roots := AList.update thread r (rp_roots p)\<rparr> else p)
          in (p', if owner \<noteq> user then deny_ownership events user s ''owner_mismatch'' None
                  else finish (allow_ownership events user s ''owner_match''))))"

definition assert_thread_owner :: "string \<Rightarrow> string \<Rightarrow> string option \<Rightarrow> audit_event list \<Rightarrow> branch_repo \<Rightarrow> unit audited" where
  "assert_thread_owner thread user request events p =
    (let s = thread_subject thread request in
     case map_of (rp_access p) thread of
       None \<Rightarrow> deny_ownership events user s ''thread_unregistered''
         (Some (''Thread '' @ thread @ '' is not registered for access yet.''))
     | Some owner \<Rightarrow>
         if owner \<noteq> user then deny_ownership events user s ''owner_mismatch'' None
         else (case allow_ownership events user s ''owner_match'' of (es, res) \<Rightarrow> (es, bind_ok res (\<lambda>e. Inr ()))))"

definition get_thread_owner :: "string \<Rightarrow> branch_repo \<Rightarrow> string option" where
  "get_thread_owner thread p = map_of (rp_access p) thread"

definition resolve_thread_ref :: "string \<Rightarrow> string option \<Rightarrow> branch_repo \<Rightarrow> py_error + thread_resolution" where
  "resolve_thread_ref thread user p =
    (let owner = map_of (rp_access p) thread; rid = map_of (rp_roots p) thread;
         refused = PermissionError (''Thread '' @ thread @ '' is owned by a different user.'')
     in case find (\<lambda>r. br_child r = thread) (vals (rp_branches p)) of
       Some r \<Rightarrow>
         (let resolved = or_else owner (br_owner r)
          in case user of
               Some u \<Rightarrow> if resolved \<noteq> u \<and> resolved \<noteq> ''unknown'' then Inl refused else Inr (resolution_of_branch r (Some thread))
             | None \<Rightarrow> Inr (resolution_of_branch r (Some thread)))
     | None \<Rightarrow>
         if (case (user, owner) of (Some u, Some x) \<Rightarrow> x \<noteq> u | _ \<Rightarrow> False) then Inl refused
         else Inr (resolution_of_root thread (Some thread) (Some (or_else rid thread))
           (if or_else rid [] \<noteq> [] then ''resolved_from_thread_access'' else ''unregistered_thread_assumed_root'')))"

section \<open>Conversations\<close>

definition ends_with :: "string \<Rightarrow> string \<Rightarrow> bool" where
  "ends_with suffix s = (length suffix \<le> length s \<and> drop (length s - length suffix) s = suffix)"

definition default_conversation_title :: "string \<Rightarrow> string" where
  "default_conversation_title rid = (if ends_with ''-main'' rid then ''Main'' else rid)"

definition backfill_conversation :: "string \<Rightarrow> string \<Rightarrow> (string, string) dict \<Rightarrow> string \<times> string \<Rightarrow> (string, conversation) dict \<Rightarrow>
    (string, conversation) dict" where
  "backfill_conversation now user roots access cs =
    (let (thread, owner) = access in
     if owner \<noteq> user \<or> map_of roots thread \<noteq> Some thread then cs
     else if map_of cs thread \<noteq> None then cs
     else AList.update thread \<lparr>cv_root = thread, cv_owner = user, cv_title = default_conversation_title thread,
        cv_title_pending = True, cv_archived = False, cv_archived_at = None, cv_created = Some now, cv_updated = Some now,
        cv_tokens = []\<rparr> cs)"

definition backfill_conversations :: "string \<Rightarrow> string \<Rightarrow> branch_repo \<Rightarrow> branch_repo" where
  "backfill_conversations now user p =
    p\<lparr>rp_conversations := fold (backfill_conversation now user (rp_roots p)) (rp_access p) (rp_conversations p)\<rparr>"

definition get_conversation :: "string \<Rightarrow> branch_repo \<Rightarrow> py_error + conversation" where
  "get_conversation rid p = (case map_of (rp_conversations p) rid of
     None \<Rightarrow> Inl (KeyError (''Unknown root_thread_id: '' @ rid)) | Some c \<Rightarrow> Inr c)"

definition create_conversation :: "string \<Rightarrow> conversation \<Rightarrow> branch_repo \<Rightarrow> branch_repo \<times> (py_error + conversation)" where
  "create_conversation now c p = (if map_of (rp_conversations p) (cv_root c) \<noteq> None
     then (p, Inl (ValueError (''Conversation already exists: '' @ cv_root c)))
     else (let p' = p\<lparr>rp_conversations := AList.update (cv_root c)
            (c\<lparr>cv_created := Some (or_else (cv_created c) now), cv_updated := Some (or_else (cv_updated c) now)\<rparr>) (rp_conversations p)\<rparr>
       in (p', get_conversation (cv_root c) p')))"

definition list_conversations :: "string \<Rightarrow> string \<Rightarrow> branch_repo \<Rightarrow> branch_repo \<times> conversation list" where
  "list_conversations now user p =
    (let p' = backfill_conversations now user p;
         records = filter (\<lambda>c. cv_owner c = user) (vals (rp_conversations p'))
     in (p', sort_key cv_archived
       (sort_key_reverse (\<lambda>c. (cv_archived c, or_else (cv_created c) [], cv_root c)) records)))"

definition update_conversation :: "string \<Rightarrow> string \<Rightarrow> string \<Rightarrow> (conversation \<Rightarrow> conversation) \<Rightarrow> branch_repo \<Rightarrow>
    branch_repo \<times> (py_error + conversation)" where
  "update_conversation now rid user f p =
    (let p' = backfill_conversations now user p in
     case map_of (rp_conversations p') rid of
       None \<Rightarrow> (p', Inl (KeyError (''Unknown root_thread_id: '' @ rid)))
     | Some c \<Rightarrow>
         if cv_owner c \<noteq> user then (p', Inl (PermissionError (''User '' @ user @ '' cannot update conversation '' @ rid @ ''.'')))
         else (p'\<lparr>rp_conversations := AList.update rid (f c) (rp_conversations p')\<rparr>, Inr (f c)))"

definition update_conversation_title :: "string \<Rightarrow> string \<Rightarrow> string \<Rightarrow> string \<Rightarrow> bool option \<Rightarrow> branch_repo \<Rightarrow>
    branch_repo \<times> (py_error + conversation)" where
  "update_conversation_title now rid user title pending =
    update_conversation now rid user (\<lambda>c. c\<lparr>cv_title := title, cv_updated := Some now,
      cv_title_pending := (case pending of None \<Rightarrow> cv_title_pending c | Some b \<Rightarrow> b)\<rparr>)"

definition update_conversation_archive :: "string \<Rightarrow> string \<Rightarrow> string \<Rightarrow> bool \<Rightarrow> branch_repo \<Rightarrow>
    branch_repo \<times> (py_error + conversation)" where
  "update_conversation_archive now rid user a =
    update_conversation now rid user (\<lambda>c. c\<lparr>cv_archived := a, cv_archived_at := (if a then Some now else None), cv_updated := Some now\<rparr>)"

section \<open>The operations as steps\<close>

text \<open>Every operation that changes the repository or its trail, in any order and by any user; the six updates
  of a branch are all instances of \<open>update_branch\<close>.\<close>

inductive repo_step :: "branch_repo \<times> audit_event list \<Rightarrow> branch_repo \<times> audit_event list \<Rightarrow> bool" where
  step_create: "create_branch r p = Inr p' \<Longrightarrow> repo_step (p, es) (p', es)"
| step_update: "update_branch i f p = Inr p' \<Longrightarrow> repo_step (p, es) (p', es)"
| step_ensure: "ensure_thread_owner t rid u rq es p = (p', es', res) \<Longrightarrow> repo_step (p, es) (p', es')"
| step_assert: "assert_thread_owner t u rq es p = (es', res) \<Longrightarrow> repo_step (p, es) (p, es')"
| step_conversation: "create_conversation now c p = (p', res) \<Longrightarrow> repo_step (p, es) (p', es)"
| step_list: "list_conversations now u p = (p', cs) \<Longrightarrow> repo_step (p, es) (p', es)"
| step_update_conversation: "update_conversation now rid u f p = (p', res) \<Longrightarrow> repo_step (p, es) (p', es)"

lemma backfill_fields [simp]:
  "rp_access (backfill_conversations now u p) = rp_access p" "rp_roots (backfill_conversations now u p) = rp_roots p"
  by (simp_all add: backfill_conversations_def)

lemma update_branch_fields:
  "update_branch i f p = Inr p' \<Longrightarrow> rp_access p' = rp_access p \<and> rp_roots p' = rp_roots p"
  by (auto simp: update_branch_def split: option.splits)

lemma update_conversation_fields:
  "rp_access (fst (update_conversation now rid u f p)) = rp_access p"
  "rp_roots (fst (update_conversation now rid u f p)) = rp_roots p"
  by (simp_all add: update_conversation_def Let_def split: option.split)

lemma create_conversation_fields:
  "rp_access (fst (create_conversation now c p)) = rp_access p" "rp_roots (fst (create_conversation now c p)) = rp_roots p"
  by (simp_all add: create_conversation_def Let_def)

text \<open>The two audited operations: what the trail gains.\<close>

lemma assert_thread_owner_cases:
  assumes "v \<noteq> []"
  obtains (allowed) e where "map_of (rp_access p) t = Some v" "assert_thread_owner t v rq es p = (es @ [e], Inr ())"
      "ae_decision e = Allow" "ae_user e = v" "ae_resource_id e = t"
  | (denied) e msg where "map_of (rp_access p) t \<noteq> Some v" "assert_thread_owner t v rq es p = (es @ [e], Inl (PermissionError msg))"
      "ae_decision e = Deny" "ae_user e = v" "ae_resource_id e = t"
proof (cases "map_of (rp_access p) t = Some v")
  case True
  obtain e where e: "append_audit_event es v (thread_subject t rq) Allow ''owner_match'' = (es @ [e], Inr e)"
    "ae_user e = v" "ae_resource_id e = t" "ae_decision e = Allow"
    using append_audit_event_ok [OF assms, of es "thread_subject t rq" Allow "''owner_match''"] by (auto simp: thread_subject_def)
  then show thesis using True by (intro allowed [of e]) (simp_all add: assert_thread_owner_def allow_ownership_def Let_def)
next
  case False
  let ?d = "\<lambda>r m. deny_ownership es v (thread_subject t rq) r m :: unit audited"
  have d: "\<exists>e msg. ?d r m = (es @ [e], Inl (PermissionError msg)) \<and> ae_user e = v \<and> ae_resource_id e = t \<and> ae_decision e = Deny" for r m
    using deny_ownership_ok [OF assms, of es "thread_subject t rq" r m] by (auto simp: thread_subject_def)
  show thesis
  proof (cases "map_of (rp_access p) t")
    case None
    then show thesis using d [of "''thread_unregistered''" "Some (''Thread '' @ t @ '' is not registered for access yet.'')"] False denied
      by (auto simp: assert_thread_owner_def Let_def)
  next
    case (Some u)
    then show thesis using d [of "''owner_mismatch''" None] False denied by (auto simp: assert_thread_owner_def Let_def)
  qed
qed

lemma ensure_thread_owner_cases:
  assumes "v \<noteq> []"
  obtains (registered) e where "map_of (rp_access p) t = None"
      "ensure_thread_owner t rid v rq es p =
        (p\<lparr>rp_access := AList.update t v (rp_access p), rp_roots := AList.update t rid (rp_roots p)\<rparr>, es @ [e], Inr ())"
      "ae_decision e = Allow" "ae_user e = v" "ae_resource_id e = t"
  | (allowed) e p' where "map_of (rp_access p) t = Some v" "ensure_thread_owner t rid v rq es p = (p', es @ [e], Inr ())"
      "rp_access p' = rp_access p" "ae_decision e = Allow" "ae_user e = v" "ae_resource_id e = t"
  | (denied) e p' u msg where "map_of (rp_access p) t = Some u" "u \<noteq> v"
      "ensure_thread_owner t rid v rq es p = (p', es @ [e], Inl (PermissionError msg))"
      "rp_access p' = rp_access p" "ae_decision e = Deny" "ae_user e = v" "ae_resource_id e = t"
proof -
  have a: "\<exists>e. allow_ownership es v (thread_subject t rq) r = (es @ [e], Inr e) \<and> ae_user e = v \<and> ae_resource_id e = t \<and> ae_decision e = Allow" for r
    using append_audit_event_ok [OF assms, of es "thread_subject t rq" Allow r] by (auto simp: thread_subject_def allow_ownership_def)
  have d: "\<exists>e msg. (deny_ownership es v (thread_subject t rq) r m :: unit audited) = (es @ [e], Inl (PermissionError msg)) \<and>
      ae_user e = v \<and> ae_resource_id e = t \<and> ae_decision e = Deny" for r m
    using deny_ownership_ok [OF assms, of es "thread_subject t rq" r m] by (auto simp: thread_subject_def)
  show thesis
  proof (cases "map_of (rp_access p) t")
    case None
    then show thesis using a [of "''thread_owner_registered''"] registered by (auto simp: ensure_thread_owner_def Let_def)
  next
    case (Some u)
    let ?p = "case map_of (rp_roots p) t of None \<Rightarrow> p
      | Some r \<Rightarrow> if r \<noteq> rid then p\<lparr>rp_roots := AList.update t r (rp_roots p)\<rparr> else p"
    have acc: "rp_access ?p = rp_access p" by (simp split: option.split)
    show thesis
    proof (cases "u = v")
      case True
      then show thesis using a [of "''owner_match''"] Some acc allowed [of ?p] by (auto simp: ensure_thread_owner_def Let_def)
    next
      case False
      then show thesis using d [of "''owner_mismatch''" None] Some acc denied [of u ?p] by (auto simp: ensure_thread_owner_def Let_def)
    qed
  qed
qed

text \<open>An empty user id is refused by the trail, after the registration was made.\<close>

lemma empty_user_raises:
  "snd (assert_thread_owner t [] rq es p) = Inl (ValueError ''Ownership audit principal must include a user_id.'')"
  "fst (assert_thread_owner t [] rq es p) = es"
  "fst (snd (ensure_thread_owner t rid [] rq es p)) = es"
  by (simp_all add: assert_thread_owner_def ensure_thread_owner_def deny_ownership_def allow_ownership_def
      append_audit_event_def principal_user_id_def Let_def split: option.split)

lemma ensure_thread_owner_access:
  "map_of (rp_access p) t' = Some u \<Longrightarrow> map_of (rp_access (fst (ensure_thread_owner t rid v rq es p))) t' = Some u"
  by (auto simp: ensure_thread_owner_def Let_def split: option.split)

lemma ensure_thread_owner_roots:
  "map_of (rp_roots p) t' = Some u \<Longrightarrow> map_of (rp_access p) t' \<noteq> None \<Longrightarrow>
   map_of (rp_roots (fst (ensure_thread_owner t rid v rq es p))) t' = Some u"
  by (auto simp: ensure_thread_owner_def Let_def split: option.split)

text \<open>The trail only grows, and an owner stays.\<close>

lemma repo_step_owner:
  assumes "repo_step (p, es) (p', es')" "map_of (rp_access p) t = Some u"
  shows "map_of (rp_access p') t = Some u \<and> (\<forall>x. map_of (rp_roots p) t = Some x \<longrightarrow> map_of (rp_roots p') t = Some x)"
  using assms(1)
proof (cases rule: repo_step.cases)
  case (step_create r)
  then show ?thesis using assms(2) by (auto simp: create_branch_def split: if_splits)
next
  case (step_update i f)
  then show ?thesis using assms(2) update_branch_fields by fastforce
next
  case (step_ensure t' rid v rq res)
  then have "p' = fst (ensure_thread_owner t' rid v rq es p)" by simp
  then show ?thesis using assms(2) ensure_thread_owner_access [OF assms(2)] ensure_thread_owner_roots by auto
next
  case (step_assert t' v rq res)
  then show ?thesis using assms(2) by simp
next
  case (step_conversation now c res)
  then have "p' = fst (create_conversation now c p)" by simp
  then show ?thesis using assms(2) create_conversation_fields by simp
next
  case (step_list now v cs)
  then have "p' = backfill_conversations now v p" by (simp add: list_conversations_def Let_def)
  then show ?thesis using assms(2) by simp
next
  case (step_update_conversation now rid v f res)
  then have "p' = fst (update_conversation now rid v f p)" by simp
  then show ?thesis using assms(2) update_conversation_fields by simp
qed

lemma repo_steps_owner:
  "repo_step\<^sup>*\<^sup>* s s' \<Longrightarrow> map_of (rp_access (fst s)) t = Some u \<Longrightarrow> map_of (rp_access (fst s')) t = Some u"
proof (induction rule: rtranclp_induct)
  case (step x y)
  then show ?case using repo_step_owner [of "fst x" "snd x" "fst y" "snd y" t u] by simp
qed

definition trail_sound :: "branch_repo \<times> audit_event list \<Rightarrow> bool" where
  "trail_sound s \<longleftrightarrow> (\<forall>e \<in> set (snd s). ae_decision e = Allow \<longrightarrow> map_of (rp_access (fst s)) (ae_resource_id e) = Some (ae_user e))"

lemma trail_sound_step:
  assumes st: "repo_step (p, es) (p', es')" and ok: "trail_sound (p, es)"
  shows "trail_sound (p', es')"
proof -
  have old: "map_of (rp_access p') (ae_resource_id e) = Some (ae_user e)" if "e \<in> set es" "ae_decision e = Allow" for e
    using repo_step_owner [OF st] ok that by (simp add: trail_sound_def)
  have same: "trail_sound (p', es)" using old by (simp add: trail_sound_def)
  from st show ?thesis
  proof (cases rule: repo_step.cases)
    case (step_ensure t rid v rq res)
    show ?thesis
    proof (cases "v = []")
      case True
      then have "es' = es" using step_ensure empty_user_raises(3) [of t rid rq es p] by simp
      then show ?thesis using same by simp
    next
      case False
      show ?thesis
        by (rule ensure_thread_owner_cases [OF False, of p t rid rq es]) (use step_ensure same in \<open>auto simp: trail_sound_def\<close>)
    qed
  next
    case (step_assert t v rq res)
    show ?thesis
    proof (cases "v = []")
      case True
      then have "es' = es" using step_assert empty_user_raises(2) [of t rq es p] by simp
      then show ?thesis using same by simp
    next
      case False
      show ?thesis
        by (rule assert_thread_owner_cases [OF False, of p t rq es]) (use step_assert same in \<open>auto simp: trail_sound_def\<close>)
    qed
  qed (use same in simp_all)
qed

lemma trail_sound_reachable: "repo_step\<^sup>*\<^sup>* (branch_repo_init, []) s \<Longrightarrow> trail_sound s"
proof (induction rule: rtranclp_induct)
  case base
  show ?case by (simp add: trail_sound_def)
next
  case (step x y)
  then show ?case using trail_sound_step [of "fst x" "snd x" "fst y" "snd y"] by simp
qed

section \<open>Lists of conversations\<close>

lemma sort_key_bool: "sort_key f xs = filter (\<lambda>x. \<not> f x) xs @ filter f xs"
proof (rule properties_for_sort_key)
  show "mset (filter (\<lambda>x. \<not> f x) xs @ filter f xs) = mset xs" by (simp add: multiset_partition [symmetric])
  show "sorted (map f (filter (\<lambda>x. \<not> f x) xs @ filter f xs))"
  proof -
    have "sorted (map f (filter (\<lambda>x. \<not> f x) xs))" "sorted (map f (filter f xs))" by (induction xs) auto
    then show ?thesis by (auto simp: sorted_append)
  qed
  fix k
  show "filter (\<lambda>x. f k = f x) (filter (\<lambda>x. \<not> f x) xs @ filter f xs) = filter (\<lambda>x. f k = f x) xs"
    by (cases "f k") (simp_all cong: filter_cong)
qed

definition listed_before :: "conversation \<Rightarrow> conversation \<Rightarrow> bool" where
  "listed_before a b \<longleftrightarrow> \<not> cv_archived a \<and> cv_archived b \<or>
     cv_archived a = cv_archived b \<and> (or_else (cv_created b) [], cv_root b) \<le> (or_else (cv_created a) [], cv_root a)"

lemma listed_sorted:
  "sorted_wrt listed_before (sort_key cv_archived
     (sort_key_reverse (\<lambda>c. (cv_archived c, or_else (cv_created c) [], cv_root c)) xs))"
proof -
  let ?k = "\<lambda>c. (cv_archived c, or_else (cv_created c) [], cv_root c)"
  let ?ys = "sort_key_reverse ?k xs"
  have s: "sorted_wrt (\<lambda>a b. ?k b \<le> ?k a) ?ys" by (rule sort_key_reverse_sorted)
  have f: "sorted_wrt listed_before (filter P ?ys)" if "\<And>a b. P a \<Longrightarrow> P b \<Longrightarrow> cv_archived a = cv_archived b" for P
  proof (rule sorted_wrt_mono_rel)
    show "sorted_wrt (\<lambda>a b. ?k b \<le> ?k a) (filter P ?ys)" by (rule sorted_wrt_filter [OF s])
    show "\<And>a b. a \<in> set (filter P ?ys) \<Longrightarrow> b \<in> set (filter P ?ys) \<Longrightarrow> ?k b \<le> ?k a \<Longrightarrow> listed_before a b"
      using that by (auto simp: listed_before_def)
  qed
  show ?thesis unfolding sort_key_bool sorted_wrt_append
    using f [of "\<lambda>c. \<not> cv_archived c"] f [of cv_archived] by (auto simp: listed_before_def)
qed

lemma backfill_conversation_keys:
  "set (keys cs) \<subseteq> set (keys (backfill_conversation now u roots a cs))"
  "snd a = u \<Longrightarrow> map_of roots (fst a) = Some (fst a) \<Longrightarrow> fst a \<in> set (keys (backfill_conversation now u roots a cs))"
  by (auto simp: backfill_conversation_def split_beta dom_update Let_def map_of_eq_None_iff)

lemma backfill_fold_keys:
  "set (keys cs) \<subseteq> set (keys (fold (backfill_conversation now u roots) as cs)) \<and>
   (\<forall>a \<in> set as. snd a = u \<and> map_of roots (fst a) = Some (fst a) \<longrightarrow>
      fst a \<in> set (keys (fold (backfill_conversation now u roots) as cs)))"
proof (induction as arbitrary: cs)
  case Nil
  then show ?case by simp
next
  case (Cons a as)
  let ?cs = "backfill_conversation now u roots a cs"
  have "set (keys cs) \<subseteq> set (keys ?cs)" "snd a = u \<and> map_of roots (fst a) = Some (fst a) \<longrightarrow> fst a \<in> set (keys ?cs)"
    using backfill_conversation_keys by blast+
  then show ?case using Cons.IH [of ?cs] by (simp del: set_map) blast
qed

section \<open>Properties\<close>

text \<open>A thread belongs to its first user. In every state the repository can reach, every access the
  audit trail allowed was the registered owner's; and whatever happened since a thread was registered to \<open>u\<close>, an
  access by \<open>v\<close> succeeds exactly when \<open>v\<close> is \<open>u\<close>, leaves the owner unchanged, and adds exactly one event,
  which names the decision.\<close>

lemma thread_owner_permanent:
  assumes "repo_step\<^sup>*\<^sup>* (branch_repo_init, []) (p0, es0)" "map_of (rp_access p0) t = Some u"
    "repo_step\<^sup>*\<^sup>* (p0, es0) (p, es)" "v \<noteq> []"
  shows "(\<forall>e \<in> set es. ae_decision e = Allow \<and> ae_resource_id e = t \<longrightarrow> ae_user e = u) \<and>
    (\<exists>e p'. (let (p1, es1, res) = ensure_thread_owner t rid v rq es p in
         p1 = p' \<and> map_of (rp_access p') t = Some u \<and> es1 = es @ [e] \<and> is_ok res = (v = u)) \<and>
       ae_user e = v \<and> ae_resource_id e = t \<and> ae_decision e = (if v = u then Allow else Deny)) \<and>
    is_ok (snd (assert_thread_owner t v rq es p)) = (v = u)"
proof -
  have "repo_step\<^sup>*\<^sup>* (branch_repo_init, []) (p, es)" using assms(1,3) by simp
  then have s: "trail_sound (p, es)" by (rule trail_sound_reachable)
  have o: "map_of (rp_access p) t = Some u" using repo_steps_owner [OF assms(3)] assms(2) by simp
  have 1: "\<forall>e \<in> set es. ae_decision e = Allow \<and> ae_resource_id e = t \<longrightarrow> ae_user e = u"
    using s o by (auto simp: trail_sound_def)
  have 2: "\<exists>e p'. (let (p1, es1, res) = ensure_thread_owner t rid v rq es p in
         p1 = p' \<and> map_of (rp_access p') t = Some u \<and> es1 = es @ [e] \<and> is_ok res = (v = u)) \<and>
       ae_user e = v \<and> ae_resource_id e = t \<and> ae_decision e = (if v = u then Allow else Deny)"
    by (rule ensure_thread_owner_cases [OF assms(4), of p t rid rq es]) (use o in \<open>auto\<close>)
  have 3: "is_ok (snd (assert_thread_owner t v rq es p)) = (v = u)"
    by (rule assert_thread_owner_cases [OF assms(4), of p t rq es]) (use o in \<open>auto\<close>)
  show ?thesis using 1 2 3 by blast
qed

text \<open>The list of a user's conversations. It holds exactly the user's conversations of the
  repository, after one was created for every thread the user owns that is its own root; those that are
  not archived come first, and each group is ordered from the newest to the oldest.\<close>

lemma list_conversations_exact:
  assumes "list_conversations now u p = (p', cs)"
  shows "set cs = {c \<in> set (vals (rp_conversations p')). cv_owner c = u} \<and> sorted_wrt listed_before cs \<and>
    (\<forall>t. (t, u) \<in> set (rp_access p) \<and> map_of (rp_roots p) t = Some t \<longrightarrow> t \<in> set (keys (rp_conversations p'))) \<and>
    set (keys (rp_conversations p)) \<subseteq> set (keys (rp_conversations p'))"
proof -
  have p': "p' = backfill_conversations now u p"
    "cs = sort_key cv_archived (sort_key_reverse (\<lambda>c. (cv_archived c, or_else (cv_created c) [], cv_root c))
       (filter (\<lambda>c. cv_owner c = u) (vals (rp_conversations p'))))"
    using assms by (auto simp: list_conversations_def Let_def)
  have s: "set cs = {c \<in> set (vals (rp_conversations p')). cv_owner c = u}" unfolding p'(2) by simp
  have o: "sorted_wrt listed_before cs" unfolding p'(2) by (rule listed_sorted)
  have k: "rp_conversations p' = fold (backfill_conversation now u (rp_roots p)) (rp_access p) (rp_conversations p)"
    unfolding p'(1) by (simp add: backfill_conversations_def)
  note b = backfill_fold_keys [of "rp_conversations p" now u "rp_roots p" "rp_access p"]
  have "t \<in> set (keys (rp_conversations p'))" if "(t, u) \<in> set (rp_access p)" "map_of (rp_roots p) t = Some t" for t
    using conjunct2 [OF b, THEN bspec, OF that(1)] that(2) unfolding k by simp
  then show ?thesis using s o conjunct1 [OF b] unfolding k by blast
qed

text \<open>Two users and one thread.\<close>

definition ex_repo :: branch_repo where
  "ex_repo = branch_repo_init\<lparr>rp_access := [(''t-main'', ''ann'')], rp_roots := [(''t-main'', ''t-main'')]\<rparr>"

definition ex_trail :: "audit_event list" where
  "ex_trail = [\<lparr>ae_user = ''ann'', ae_resource_type = ''thread'', ae_resource_id = ''t-main'', ae_action = ''access'',
     ae_decision = Allow, ae_reason = ''thread_owner_registered'', ae_request = None\<rparr>]"

lemma ex_repo_reachable: "repo_step\<^sup>*\<^sup>* (branch_repo_init, []) (ex_repo, ex_trail)"
proof -
  have "ensure_thread_owner ''t-main'' ''t-main'' ''ann'' None [] branch_repo_init = (ex_repo, ex_trail, Inr ())"
    by (simp add: ensure_thread_owner_def branch_repo_init_def ex_repo_def ex_trail_def allow_ownership_def
        append_audit_event_def principal_user_id_def thread_subject_def Let_def)
  then show ?thesis by (intro r_into_rtranclp step_ensure)
qed

lemma thread_owner_permanent_witness:
  "is_ok (snd (assert_thread_owner ''t-main'' ''ann'' None ex_trail ex_repo)) \<and>
   \<not> is_ok (snd (assert_thread_owner ''t-main'' ''bob'' None ex_trail ex_repo))"
proof -
  have o: "map_of (rp_access ex_repo) ''t-main'' = Some ''ann''" by (simp add: ex_repo_def)
  have "is_ok (snd (assert_thread_owner ''t-main'' v None ex_trail ex_repo)) = (v = ''ann'')" if "v \<noteq> []" for v
    using thread_owner_permanent [OF ex_repo_reachable o rtranclp.rtrancl_refl that, of "[]" None] by blast
  from this [of "''ann''"] this [of "''bob''"] show ?thesis by simp
qed

lemma list_conversations_exact_witness:
  "\<exists>p' cs. list_conversations ''2026'' ''ann'' ex_repo = (p', cs) \<and> map cv_title cs = [''Main''] \<and>
     sorted_wrt listed_before cs \<and> ''t-main'' \<in> set (keys (rp_conversations p'))"
proof -
  obtain p' cs where l: "list_conversations ''2026'' ''ann'' ex_repo = (p', cs)" by (metis prod.exhaust)
  have "map cv_title (snd (list_conversations ''2026'' ''ann'' ex_repo)) = [''Main'']"
    by (simp add: list_conversations_def backfill_conversations_def ex_repo_def branch_repo_init_def backfill_conversation_def
        sort_key_reverse_def default_conversation_title_def ends_with_def)
  moreover have "''t-main'' \<in> set (keys (rp_conversations p'))"
    using list_conversations_exact [OF l] by (simp add: ex_repo_def)
  ultimately show ?thesis using l list_conversations_exact [OF l] by auto
qed

end
