(* ===== verification/Values.thy ===== *)
theory Values
  imports Prelude
begin

text \<open>
  Small readers of optional texts and of values of type \<open>Any\<close> that the services share:
  \<open>core/coercion.py\<close>, \<open>d.get(k)\<close>, \<open>a or b\<close>, \<open>s.split(c)\<close>.
\<close>

definition or_empty :: "string option \<Rightarrow> string" where
  "or_empty v = (case v of None \<Rightarrow> [] | Some t \<Rightarrow> t)"

definition given :: "string option \<Rightarrow> bool" where
  "given v \<longleftrightarrow> or_empty v \<noteq> []"

definition dict_value :: "(string, pyval) dict \<Rightarrow> string \<Rightarrow> pyval" where
  "dict_value d k = get_or d k PNone"

definition optional_str :: "(pyval \<Rightarrow> string) \<Rightarrow> pyval \<Rightarrow> string option" where
  "optional_str str_of v = (let t = py_strip (if truthy v then py_str str_of v else [])
     in if t = [] then None else Some t)"

definition opt_value :: "string option \<Rightarrow> pyval" where
  "opt_value v = (case v of None \<Rightarrow> PNone | Some t \<Rightarrow> PStr t)"

text \<open>\<open>a or b\<close> on values\<close>

definition py_or :: "pyval \<Rightarrow> pyval \<Rightarrow> pyval" where
  "py_or a b = (if truthy a then a else b)"

text \<open>\<open>text.split(c)\<close>\<close>

fun split_all :: "char \<Rightarrow> string \<Rightarrow> string list" where
  "split_all c [] = [[]]"
| "split_all c (x # xs) = (if x = c then [] # split_all c xs
     else (case split_all c xs of [] \<Rightarrow> [[x]] | w # ws \<Rightarrow> (x # w) # ws))"

text \<open>The values an iterable gives; a number is none.\<close>

definition iter_values :: "pyval \<Rightarrow> py_error + pyval list" where
  "iter_values v = (case v of
     PList vs \<Rightarrow> Inr vs
   | PDict d \<Rightarrow> Inr (map (\<lambda>(k, v). PStr k) d)
   | PStr s \<Rightarrow> Inr (map (\<lambda>c. PStr [c]) s)
   | _ \<Rightarrow> Inl (TypeError ''object is not iterable''))"

fun map_ok :: "('a \<Rightarrow> 'e + 'b) \<Rightarrow> 'a list \<Rightarrow> 'e + 'b list" where
  "map_ok f [] = Inr []"
| "map_ok f (x # xs) = bind_ok (f x) (\<lambda>y. bind_ok (map_ok f xs) (\<lambda>ys. Inr (y # ys)))"

text \<open>\<open>int(text)\<close>: white space around, one sign, digits, single underscores between digits.\<close>

definition digit_of :: "char \<Rightarrow> nat option" where
  "digit_of c = (let n = (of_char c :: nat) in if 48 \<le> n \<and> n \<le> 57 then Some (n - 48) else None)"

fun digits_value :: "string \<Rightarrow> bool \<Rightarrow> nat \<Rightarrow> nat option" where
  "digits_value [] after_digit n = (if after_digit then Some n else None)"
| "digits_value (c # cs) after_digit n =
    (if c = CHR ''_'' then (if after_digit then digits_value cs False n else None)
     else case digit_of c of None \<Rightarrow> None | Some d \<Rightarrow> digits_value cs True (10 * n + d))"

definition py_int :: "string \<Rightarrow> int option" where
  "py_int t = (case py_strip t of
     [] \<Rightarrow> None
   | c # cs \<Rightarrow> if c = CHR ''-'' then map_option (\<lambda>n. - int n) (digits_value cs False 0)
       else if c = CHR ''+'' then map_option int (digits_value cs False 0)
       else map_option int (digits_value (c # cs) False 0))"

text \<open>\<open>casefold\<close> and \<open>lower\<close> agree on the flag values, which are ASCII.\<close>

definition true_values :: "string list" where
  "true_values = [''1'', ''true'', ''yes'', ''on'']"

definition false_values :: "string list" where
  "false_values = [''0'', ''false'', ''no'', ''off'']"

definition parse_bool :: "(pyval \<Rightarrow> string) \<Rightarrow> pyval \<Rightarrow> bool option" where
  "parse_bool str_of v = (case v of PBool b \<Rightarrow> Some b | PNone \<Rightarrow> None
   | _ \<Rightarrow> let t = py_lower (py_strip (py_str str_of v))
     in if t \<in> set true_values then Some True else if t \<in> set false_values then Some False else None)"

text \<open>\<open>str(v or "")\<close>, \<open>int(v)\<close>, and the lenient readers of \<open>core/coercion.py\<close>\<close>

definition text_of :: "(pyval \<Rightarrow> string) \<Rightarrow> pyval \<Rightarrow> string" where
  "text_of str_of v = (if truthy v then py_str str_of v else [])"

definition int_value :: "pyval \<Rightarrow> py_error + int" where
  "int_value v = (case v of
     PInt n \<Rightarrow> Inr n
   | PBool b \<Rightarrow> Inr (if b then 1 else 0)
   | PFloat x \<Rightarrow> Inr (if 0 \<le> x then \<lfloor>x\<rfloor> else \<lceil>x\<rceil>)
   | PStr t \<Rightarrow> (case py_int t of None \<Rightarrow> Inl (ValueError ''invalid literal for int()'') | Some n \<Rightarrow> Inr n)
   | _ \<Rightarrow> Inl (TypeError ''int() argument must be a string or a number''))"

definition positive_int :: "pyval \<Rightarrow> int \<Rightarrow> int" where
  "positive_int v d = (case int_value v of Inl e \<Rightarrow> d | Inr n \<Rightarrow> max 1 n)"

definition non_negative_int :: "pyval \<Rightarrow> int \<Rightarrow> int" where
  "non_negative_int v d = (case int_value v of Inl e \<Rightarrow> d | Inr n \<Rightarrow> max 0 n)"

definition show_int :: "int \<Rightarrow> string" where
  "show_int n = (if n < 0 then CHR ''-'' # show_nat (nat (- n)) else show_nat (nat n))"

definition py_rstrip :: "string \<Rightarrow> string" where
  "py_rstrip s = rev (dropWhile py_space (rev s))"

definition py_lstrip :: "string \<Rightarrow> string" where
  "py_lstrip s = dropWhile py_space s"

definition starts_with :: "string \<Rightarrow> string \<Rightarrow> bool" where
  "starts_with p s \<longleftrightarrow> take (length p) s = p"

text \<open>\<open>s.splitlines()\<close>: the line boundaries below code point 256, with CR LF as one.\<close>

definition line_end :: "char \<Rightarrow> bool" where
  "line_end c = (let n = (of_char c :: nat) in n = 10 \<or> n = 13 \<or> n = 11 \<or> n = 12 \<or> (28 \<le> n \<and> n \<le> 30) \<or> n = 133)"

fun split_lines :: "string \<Rightarrow> string \<Rightarrow> string list" where
  "split_lines acc [] = (if acc = [] then [] else [rev acc])"
| "split_lines acc (c # cs) = (if line_end c
     then rev acc # split_lines [] (if c = char_of (13::nat) \<and> cs \<noteq> [] \<and> hd cs = char_of (10::nat) then tl cs else cs)
     else split_lines (c # acc) cs)"

definition py_splitlines :: "string \<Rightarrow> string list" where
  "py_splitlines s = split_lines [] s"

definition newline :: char where
  "newline = char_of (10::nat)"

text \<open>\<open>len(v)\<close>; a number has none. \<open>v[:n]\<close> of a string or list.\<close>

definition py_len :: "pyval \<Rightarrow> py_error + nat" where
  "py_len v = (case v of PList vs \<Rightarrow> Inr (length vs) | PDict d \<Rightarrow> Inr (length d) | PStr s \<Rightarrow> Inr (length s)
     | _ \<Rightarrow> Inl (TypeError ''object has no len()''))"

section \<open>Lemmas\<close>

lemma text_of_PStr [simp]: "text_of str_of (PStr s) = s"
  by (simp add: text_of_def)

lemma text_of_PNone [simp]: "text_of str_of PNone = []"
  by (simp add: text_of_def)

lemma map_ok_Inr_iff: "map_ok f xs = Inr ys \<longleftrightarrow> list_all2 (\<lambda>x y. f x = Inr y) xs ys"
proof (induction xs arbitrary: ys)
  case Nil
  then show ?case by auto
next
  case (Cons x xs)
  then show ?case by (cases ys) (auto simp: bind_ok_Inr_iff)
qed

lemma map_ok_Inr: "(\<And>x. x \<in> set xs \<Longrightarrow> f x = Inr (g x)) \<Longrightarrow> map_ok f xs = Inr (map g xs)"
  by (induction xs) auto

lemma map_ok_length: "map_ok f xs = Inr ys \<Longrightarrow> length ys = length xs"
  unfolding map_ok_Inr_iff by (simp add: list_all2_lengthD)

lemma map_ok_Inr_set: "map_ok f xs = Inr ys \<Longrightarrow> y \<in> set ys \<Longrightarrow> \<exists>x \<in> set xs. f x = Inr y"
proof (induction xs arbitrary: ys)
  case (Cons x xs)
  then show ?case by (auto simp: bind_ok_Inr_iff)
qed simp

lemma map_ok_Inl: "map_ok f xs = Inl e \<Longrightarrow> \<exists>x \<in> set xs. f x = Inl e"
  by (induction xs) (auto simp: bind_ok_Inl_iff)

lemma length_py_rstrip: "length (py_rstrip s) \<le> length s"
  unfolding py_rstrip_def length_rev by (metis length_dropWhile_le length_rev)

lemma length_py_lstrip: "length (py_lstrip s) \<le> length s"
  unfolding py_lstrip_def by (rule length_dropWhile_le)


lemma split_all_join:
  "list_all (\<lambda>w. w \<noteq> [] \<and> c \<notin> set w) ws \<Longrightarrow> ws \<noteq> [] \<Longrightarrow> split_all c (join_with [c] ws) = ws"
proof (induction ws rule: induct_list012)
  have one: "c \<notin> set w \<Longrightarrow> split_all c w = [w]" for w by (induction w) auto
  case (2 w)
  then show ?case by (simp add: one)
next
  case (3 w v ws)
  have two: "c \<notin> set w \<Longrightarrow> split_all c (w @ c # r) = w # split_all c r" for w r by (induction w) auto
  from 3 show ?case by (simp add: two)
qed simp

lemma join_hd_last:
  "list_all (\<lambda>w. w \<noteq> [] \<and> (\<forall>x \<in> set w. \<not> P x)) ws \<Longrightarrow> ws \<noteq> [] \<Longrightarrow>
   join_with sep ws \<noteq> [] \<and> \<not> P (hd (join_with sep ws)) \<and> \<not> P (last (join_with sep ws))"
  by (induction ws rule: induct_list012) (auto simp: last_append)

lemma strip_by_id:
  assumes "s \<noteq> []" "\<not> P (hd s)" "\<not> P (last s)"
  shows "strip_by P s = s"
proof -
  have "dropWhile P s = s" using assms by (simp add: dropWhile_eq_self_iff)
  moreover have "dropWhile P (rev s) = rev s" using assms by (simp add: dropWhile_eq_self_iff hd_rev)
  ultimately show ?thesis by (simp add: strip_by_def)
qed

end
