(* ===== verification/Revisions.thy ===== *)
theory Revisions
  imports Values
begin

text \<open>
  Revisions of a team's task graph: \<open>src/focus_agent/services/agent_team/revision.py\<close> (the immutable
  snapshot and its construction from task-shaped data) and \<open>dag_validator.py\<close> beside it (validation, status
  transitions, propagation of a failure). The three networkx functions the validator calls are the
  record \<open>nx\<close>; \<open>str()\<close> of values that are not strings is an argument.
\<close>

section \<open>Tasks and revisions\<close>

datatype task_status = T_PENDING | T_QUEUED | T_RUNNING | T_BLOCKED | T_DONE | T_FAILED | T_CANCELLED

definition status_value :: "task_status \<Rightarrow> string" where
  "status_value s = (case s of T_PENDING \<Rightarrow> ''pending'' | T_QUEUED \<Rightarrow> ''queued'' | T_RUNNING \<Rightarrow> ''running''
     | T_BLOCKED \<Rightarrow> ''blocked'' | T_DONE \<Rightarrow> ''done'' | T_FAILED \<Rightarrow> ''failed'' | T_CANCELLED \<Rightarrow> ''cancelled'')"

definition all_statuses :: "task_status list" where
  "all_statuses = [T_PENDING, T_QUEUED, T_RUNNING, T_BLOCKED, T_DONE, T_FAILED, T_CANCELLED]"

text \<open>\<open>RevisionTaskStatus(value)\<close>: the member with that value, or a \<open>ValueError\<close>.\<close>

definition status_of_value :: "pyval \<Rightarrow> task_status option" where
  "status_of_value v = (case v of PStr s \<Rightarrow> find (\<lambda>x. status_value x = s) all_statuses | _ \<Rightarrow> None)"

fun freeze_value :: "pyval \<Rightarrow> pyval" where
  "freeze_value (PDict d) = PDict (map (\<lambda>(k, v). (k, freeze_value v)) d)"
| "freeze_value (PList vs) = PList (map freeze_value vs)"
| "freeze_value v = v"

definition freeze_mapping :: "string \<Rightarrow> pyval \<Rightarrow> py_error + (string, pyval) dict" where
  "freeze_mapping field v = (case v of
     PNone \<Rightarrow> Inr []
   | PDict d \<Rightarrow> Inr (map (\<lambda>(k, v). (k, freeze_value v)) d)
   | _ \<Rightarrow> Inl (RevisionConstructionError (field @ '' must be a mapping.'')))"

definition optional_text :: "(pyval \<Rightarrow> string) \<Rightarrow> pyval \<Rightarrow> string option" where
  "optional_text str_of v = (let text = (if v = PNone then [] else py_strip (py_str str_of v)) in if text = [] then None else Some text)"

definition stripped_texts :: "(pyval \<Rightarrow> string) \<Rightarrow> pyval list \<Rightarrow> string list" where
  "stripped_texts str_of vs = filter (\<lambda>s. s \<noteq> []) (map (\<lambda>v. py_strip (py_str str_of v)) vs)"

definition string_tuple :: "(pyval \<Rightarrow> string) \<Rightarrow> pyval \<Rightarrow> py_error + string list" where
  "string_tuple str_of v = (case v of
     PNone \<Rightarrow> Inr []
   | PStr s \<Rightarrow> Inr (stripped_texts str_of [PStr s])
   | _ \<Rightarrow> bind_ok (iter_values v) (\<lambda>vs. Inr (stripped_texts str_of vs)))"

record revision_task =
  tk_id :: string
  tk_dependencies :: "string list"
  tk_contract :: "(string, pyval) dict"
  tk_scope :: "string list"
  tk_claims :: "string list"
  tk_kind :: "string option"
  tk_writes :: bool
  tk_status :: task_status
  tk_error :: "string option"

text \<open>The arguments of the constructor, before \<open>__post_init__\<close>.\<close>

record task_fields =
  tf_id :: pyval
  tf_dependencies :: pyval
  tf_contract :: pyval
  tf_scope :: pyval
  tf_claims :: pyval
  tf_kind :: pyval
  tf_writes :: pyval
  tf_status :: pyval
  tf_error :: pyval

definition task_post_init :: "(pyval \<Rightarrow> string) \<Rightarrow> task_fields \<Rightarrow> py_error + revision_task" where
  "task_post_init str_of a =
    (let i = py_strip (py_str str_of (tf_id a)) in
     if i = [] then Inl (RevisionConstructionError ''task_id is required.'')
     else bind_ok (string_tuple str_of (tf_dependencies a)) (\<lambda>deps.
       bind_ok (string_tuple str_of (tf_scope a)) (\<lambda>scope.
       bind_ok (string_tuple str_of (tf_claims a)) (\<lambda>cls.
       bind_ok (freeze_mapping ''input_contract'' (tf_contract a)) (\<lambda>contract.
       case status_of_value (tf_status a) of
         None \<Rightarrow> Inl (RevisionConstructionError (''Unsupported task status: '' @ py_str str_of (tf_status a) @ ''.''))
       | Some st \<Rightarrow> Inr \<lparr>tk_id = i, tk_dependencies = deps, tk_contract = contract, tk_scope = scope, tk_claims = cls,
           tk_kind = optional_text str_of (tf_kind a), tk_writes = truthy (tf_writes a), tk_status = st,
           tk_error = optional_text str_of (tf_error a)\<rparr>)))))"

text \<open>\<open>value.get(key)\<close> and \<open>a or b\<close>\<close>

definition get_value :: "(string, pyval) dict \<Rightarrow> string \<Rightarrow> pyval" where
  "get_value d k = get_or d k PNone"

definition value_or :: "pyval \<Rightarrow> pyval \<Rightarrow> pyval" where
  "value_or a b = (if truthy a then a else b)"

definition texts_value :: "string list \<Rightarrow> pyval" where
  "texts_value xs = PList (map PStr xs)"

definition text_value :: "string option \<Rightarrow> pyval" where
  "text_value x = (case x of None \<Rightarrow> PNone | Some s \<Rightarrow> PStr s)"

definition writable_kinds :: "string list" where
  "writable_kinds = [''implementation'', ''write'', ''writing'', ''code_change'']"

definition task_from_mapping :: "(pyval \<Rightarrow> string) \<Rightarrow> (string, pyval) dict \<Rightarrow> py_error + revision_task" where
  "task_from_mapping str_of d =
    (let contract = value_or (get_value d ''input_contract'') (PDict []);
         kind = value_or (get_value d ''task_kind'') (get_value d ''task_type'');
         writes = get_value d ''writes'';
         w = (if writes = PNone
              then py_lower (py_strip (py_str str_of (value_or kind (PStr [])))) \<in> set writable_kinds
              else truthy writes)
     in bind_ok (string_tuple str_of (get_value d ''dependencies'')) (\<lambda>deps.
        bind_ok (string_tuple str_of (get_value d ''write_scope'')) (\<lambda>scope.
        bind_ok (string_tuple str_of (get_value d ''resource_claims'')) (\<lambda>cls.
        task_post_init str_of
          \<lparr>tf_id = PStr (py_str str_of (value_or (value_or (get_value d ''task_id'') (get_value d ''key'')) (PStr []))),
           tf_dependencies = texts_value deps,
           tf_contract = (case contract of PDict c \<Rightarrow> contract | _ \<Rightarrow> PDict []),
           tf_scope = texts_value scope, tf_claims = texts_value cls,
           tf_kind = text_value (optional_text str_of kind), tf_writes = PBool w,
           tf_status = value_or (get_value d ''status'') (PStr ''pending''),
           tf_error = text_value (optional_text str_of (get_value d ''last_error''))\<rparr>))))"

definition is_write_task :: "revision_task \<Rightarrow> bool" where
  "is_write_task t = (tk_writes t \<or> tk_scope t \<noteq> [] \<or> tk_claims t \<noteq> [])"

record revision =
  rv_id :: string
  rv_session :: string
  rv_sequence :: int
  rv_tasks :: "revision_task list"
  rv_parent :: "string option"
  rv_metadata :: "(string, pyval) dict"

definition revision_post_init :: "(pyval \<Rightarrow> string) \<Rightarrow> string \<Rightarrow> string \<Rightarrow> int \<Rightarrow> revision_task list \<Rightarrow> pyval \<Rightarrow> pyval \<Rightarrow>
    py_error + revision" where
  "revision_post_init str_of rid sid sequence tasks parent metadata =
    (if py_strip rid = [] then Inl (RevisionConstructionError ''revision_id is required.'')
     else if py_strip sid = [] then Inl (RevisionConstructionError ''session_id is required.'')
     else if sequence < 0 then Inl (RevisionConstructionError ''sequence must be non-negative.'')
     else bind_ok (freeze_mapping ''metadata'' metadata) (\<lambda>md.
       Inr \<lparr>rv_id = py_strip rid, rv_session = py_strip sid, rv_sequence = sequence, rv_tasks = tasks,
            rv_parent = optional_text str_of parent, rv_metadata = md\<rparr>))"

definition revision_from_mappings :: "(pyval \<Rightarrow> string) \<Rightarrow> string \<Rightarrow> string \<Rightarrow> int \<Rightarrow> (string, pyval) dict list \<Rightarrow> pyval \<Rightarrow>
    pyval \<Rightarrow> py_error + revision" where
  "revision_from_mappings str_of rid sid sequence tasks parent metadata =
    bind_ok (map_ok (task_from_mapping str_of) tasks) (\<lambda>ts.
      revision_post_init str_of rid sid sequence ts parent (value_or metadata (PDict [])))"

definition task_by_id :: "revision \<Rightarrow> string \<Rightarrow> py_error + revision_task" where
  "task_by_id r i = (case find (\<lambda>t. tk_id t = py_strip i) (rv_tasks r) of
     Some t \<Rightarrow> Inr t
   | None \<Rightarrow> Inl (UnknownRevisionTaskError (''Task '' @ py_strip i @ '' does not exist in revision '' @ rv_id r @ ''.'')))"

section \<open>Validation\<close>

datatype issue_code = DUPLICATE_TASK_ID | UNKNOWN_NODE | SELF_DEPENDENCY | DUPLICATE_EDGE | CYCLE
  | DEPENDENCY_CONTRACT_MISMATCH | WRITE_SCOPE_REQUIRED | RESOURCE_CLAIM_REQUIRED

text \<open>The messages repeat the code and the names and are left out.\<close>

record issue =
  is_code :: issue_code
  is_task :: "string option"
  is_dependency :: "string option"
  is_cycle :: "string list"

definition task_issue :: "issue_code \<Rightarrow> string \<Rightarrow> issue" where
  "task_issue c t = \<lparr>is_code = c, is_task = Some t, is_dependency = None, is_cycle = []\<rparr>"

definition edge_issue :: "issue_code \<Rightarrow> string \<Rightarrow> string \<Rightarrow> issue" where
  "edge_issue c t d = \<lparr>is_code = c, is_task = Some t, is_dependency = Some d, is_cycle = []\<rparr>"

record validation_result =
  vr_revision :: string
  vr_issues :: "issue list"
  vr_order :: "string list"

definition is_valid :: "validation_result \<Rightarrow> bool" where
  "is_valid r = (vr_issues r = [])"

definition raise_for_errors :: "validation_result \<Rightarrow> py_error + validation_result" where
  "raise_for_errors r = (if \<not> is_valid r
     then Inl (AgentTeamDAGValidationError (''Agent Team revision '' @ vr_revision r @ '' has invalid DAG semantics'')) else Inr r)"

record nx =
  nx_is_dag :: "string list \<Rightarrow> (string \<times> string) list \<Rightarrow> bool"
  nx_topological_sort :: "string list \<Rightarrow> (string \<times> string) list \<Rightarrow> string list"
  nx_simple_cycles :: "string list \<Rightarrow> (string \<times> string) list \<Rightarrow> string list list"

definition contract_dependencies :: "(pyval \<Rightarrow> string) \<Rightarrow> (string, pyval) dict \<Rightarrow> string list" where
  "contract_dependencies str_of c = (case get_value c ''from_dependencies'' of
     PNone \<Rightarrow> []
   | PStr s \<Rightarrow> stripped_texts str_of [PStr s]
   | PList vs \<Rightarrow> stripped_texts str_of vs
   | PDict d \<Rightarrow> stripped_texts str_of (map (\<lambda>(k, v). PStr k) d)
   | v \<Rightarrow> stripped_texts str_of [v])"

definition needs_write_contract :: "revision_task \<Rightarrow> bool" where
  "needs_write_contract t = (is_write_task t \<or>
     py_lower (py_strip (case tk_kind t of None \<Rightarrow> [] | Some k \<Rightarrow> k)) \<in> set writable_kinds)"

definition validate_task_contract :: "(pyval \<Rightarrow> string) \<Rightarrow> revision_task \<Rightarrow> issue list" where
  "validate_task_contract str_of t =
    (if contract_dependencies str_of (tk_contract t) \<noteq> tk_dependencies t
       then [task_issue DEPENDENCY_CONTRACT_MISMATCH (tk_id t)] else []) @
    (if \<not> needs_write_contract t then []
     else (if tk_scope t = [] then [task_issue WRITE_SCOPE_REQUIRED (tk_id t)] else []) @
          (if tk_claims t = [] then [task_issue RESOURCE_CLAIM_REQUIRED (tk_id t)] else []))"

text \<open>The loop over the dependencies of one task: its issues and the edges it adds.\<close>

fun check_dependencies :: "string list \<Rightarrow> string \<Rightarrow> string list \<Rightarrow> string list \<Rightarrow> issue list \<times> (string \<times> string) list" where
  "check_dependencies known t seen [] = ([], [])"
| "check_dependencies known t seen (d # ds) =
    (if d \<in> set seen then (let (is, es) = check_dependencies known t seen ds in (edge_issue DUPLICATE_EDGE t d # is, es))
     else let (is, es) = check_dependencies known t (d # seen) ds
       in if d = t then (edge_issue SELF_DEPENDENCY t d # is, es)
          else if d \<notin> set known then (edge_issue UNKNOWN_NODE t d # is, es)
          else (is, (d, t) # es))"

definition first_tasks :: "revision_task list \<Rightarrow> (string, revision_task) dict" where
  "first_tasks ts = foldl (\<lambda>d t. if tk_id t \<in> set (keys d) then d else d @ [(tk_id t, t)]) [] ts"

definition duplicate_ids :: "revision_task list \<Rightarrow> string list" where
  "duplicate_ids ts = sort (remdups (filter (\<lambda>i. 2 \<le> count_list (map tk_id ts) i) (map tk_id ts)))"

definition normalize_cycle :: "string list \<Rightarrow> string list" where
  "normalize_cycle c = (let i = length (takeWhile (\<lambda>x. x \<noteq> Min (set c)) c) in drop i c @ take i c)"

definition normalized_cycles :: "nx \<Rightarrow> string list \<Rightarrow> (string \<times> string) list \<Rightarrow> string list list" where
  "normalized_cycles n ns es = sort (remdups (map normalize_cycle (filter (\<lambda>c. c \<noteq> []) (nx_simple_cycles n ns es))))"

text \<open>The graph: a node for every task id, an edge from a dependency to the task.\<close>

definition revision_nodes :: "revision \<Rightarrow> string list" where
  "revision_nodes r = keys (first_tasks (rv_tasks r))"

definition task_checks :: "revision \<Rightarrow> revision_task \<Rightarrow> issue list \<times> (string \<times> string) list" where
  "task_checks r t = check_dependencies (revision_nodes r) (tk_id t) [] (tk_dependencies t)"

definition revision_edges :: "revision \<Rightarrow> (string \<times> string) list" where
  "revision_edges r = concat (map (\<lambda>t. snd (task_checks r t)) (vals (first_tasks (rv_tasks r))))"

definition validate_revision_dag :: "(pyval \<Rightarrow> string) \<Rightarrow> nx \<Rightarrow> revision \<Rightarrow> validation_result" where
  "validate_revision_dag str_of n r =
    (let ns = revision_nodes r; es = revision_edges r;
         issues = map (task_issue DUPLICATE_TASK_ID) (duplicate_ids (rv_tasks r)) @
           concat (map (\<lambda>t. validate_task_contract str_of t @ fst (task_checks r t)) (vals (first_tasks (rv_tasks r))))
     in if nx_is_dag n ns es
        then \<lparr>vr_revision = rv_id r, vr_issues = issues, vr_order = nx_topological_sort n ns es\<rparr>
        else \<lparr>vr_revision = rv_id r,
          vr_issues = issues @ map (\<lambda>c. \<lparr>is_code = CYCLE, is_task = None, is_dependency = None, is_cycle = c\<rparr>) (normalized_cycles n ns es),
          vr_order = []\<rparr>)"

section \<open>Transitions\<close>

definition allowed_transitions :: "task_status \<Rightarrow> task_status list" where
  "allowed_transitions s = (case s of
     T_PENDING \<Rightarrow> [T_QUEUED, T_BLOCKED, T_CANCELLED]
   | T_QUEUED \<Rightarrow> [T_PENDING, T_RUNNING, T_BLOCKED, T_CANCELLED]
   | T_RUNNING \<Rightarrow> [T_DONE, T_FAILED, T_BLOCKED, T_CANCELLED]
   | T_BLOCKED \<Rightarrow> [T_PENDING, T_CANCELLED]
   | T_DONE \<Rightarrow> []
   | T_FAILED \<Rightarrow> [T_PENDING, T_CANCELLED]
   | T_CANCELLED \<Rightarrow> [])"

definition as_status :: "pyval \<Rightarrow> py_error + task_status" where
  "as_status v = (case status_of_value v of None \<Rightarrow> Inl (InvalidTaskStateTransitionError ''Unsupported task status.'') | Some s \<Rightarrow> Inr s)"

record transition_result =
  tx_task_id :: string
  tx_previous :: task_status
  tx_status :: task_status
  tx_task :: revision_task

definition tx_changed :: "transition_result \<Rightarrow> bool" where
  "tx_changed x = (tx_previous x \<noteq> tx_status x)"

definition validate_transition :: "revision_task \<Rightarrow> task_status \<Rightarrow> py_error + transition_result" where
  "validate_transition t s =
    (if s = tk_status t then Inr \<lparr>tx_task_id = tk_id t, tx_previous = tk_status t, tx_status = s, tx_task = t\<rparr>
     else if s \<notin> set (allowed_transitions (tk_status t))
       then Inl (InvalidTaskStateTransitionError (''Task '' @ tk_id t @ '' cannot transition from '' @ status_value (tk_status t) @
         '' to '' @ status_value s @ ''.''))
     else Inr \<lparr>tx_task_id = tk_id t, tx_previous = tk_status t, tx_status = s, tx_task = t\<lparr>tk_status := s\<rparr>\<rparr>)"

definition validate_task_state_transition :: "revision_task \<Rightarrow> pyval \<Rightarrow> py_error + transition_result" where
  "validate_task_state_transition t v = bind_ok (as_status v) (validate_transition t)"

section \<open>Propagation of a failure\<close>

definition children_by_dependency :: "revision_task list \<Rightarrow> (string, string list) dict" where
  "children_by_dependency ts = foldl (\<lambda>d t. foldl (\<lambda>d dep. AList.update dep (get_or d dep [] @ [tk_id t]) d) d (tk_dependencies t)) [] ts"

lemma get_or_children: "set (get_or ch c []) \<subseteq> set (concat (vals ch))"
proof (cases "map_of ch c")
  case None
  then show ?thesis by (simp add: get_or_def)
next
  case (Some cs)
  then have "cs \<in> set (vals ch)" by (force dest: map_of_SomeD)
  then show ?thesis using Some by (auto simp: get_or_def)
qed

function transitive_loop :: "(string, string list) dict \<Rightarrow> string list \<Rightarrow> string list \<Rightarrow> string list" where
  "transitive_loop ch [] blocked = blocked"
| "transitive_loop ch (c # queue) blocked =
    (if c \<in> set blocked then transitive_loop ch queue blocked
     else transitive_loop ch (queue @ get_or ch c []) (blocked @ [c]))"
  by pat_completeness auto

termination
proof (relation "measures [\<lambda>(ch, q, b). card ((set (concat (vals ch)) \<union> set q) - set b), \<lambda>(ch, q, b). length q]")
  fix ch :: "(string, string list) dict" and c :: string and queue blocked :: "string list"
  let ?U = "\<lambda>q b. (set (concat (vals ch)) \<union> set q) - set b"
  show "((ch, queue, blocked), ch, c # queue, blocked)
      \<in> measures [\<lambda>(ch, q, b). card ((set (concat (vals ch)) \<union> set q) - set b), \<lambda>(ch, q, b). length q]"
    if "c \<in> set blocked"
  proof -
    have "?U queue blocked = ?U (c # queue) blocked" using that by auto
    then show ?thesis by simp
  qed
  show "((ch, queue @ get_or ch c [], blocked @ [c]), ch, c # queue, blocked)
      \<in> measures [\<lambda>(ch, q, b). card ((set (concat (vals ch)) \<union> set q) - set b), \<lambda>(ch, q, b). length q]"
    if "c \<notin> set blocked"
  proof -
    have "?U (queue @ get_or ch c []) (blocked @ [c]) \<subset> ?U (c # queue) blocked"
      using that get_or_children [of ch c] by auto
    then have "card (?U (queue @ get_or ch c []) (blocked @ [c])) < card (?U (c # queue) blocked)"
      by (intro psubset_card_mono) simp_all
    then show ?thesis by simp
  qed
qed simp

definition transitive_children :: "string \<Rightarrow> (string, string list) dict \<Rightarrow> string list" where
  "transitive_children t ch = transitive_loop ch (get_or ch t []) []"

definition failure_statuses :: "task_status list" where
  "failure_statuses = [T_BLOCKED, T_CANCELLED, T_FAILED]"

record propagation_result =
  pp_failed :: string
  pp_status :: task_status
  pp_blocked :: "string list"
  pp_revision :: revision

text \<open>The loop over the tasks: the updated tasks and the newly blocked ids.\<close>

fun propagate_tasks :: "string \<Rightarrow> revision_task \<Rightarrow> string list \<Rightarrow> revision_task list \<Rightarrow> py_error + (revision_task list \<times> string list)" where
  "propagate_tasks failed src dependents [] = Inr ([], [])"
| "propagate_tasks failed src dependents (t # ts) =
    (if tk_id t = failed then bind_ok (propagate_tasks failed src dependents ts) (\<lambda>(us, bs). Inr (src # us, bs))
     else if tk_id t \<notin> set dependents \<or> tk_status t \<in> {T_DONE, T_CANCELLED, T_FAILED}
       then bind_ok (propagate_tasks failed src dependents ts) (\<lambda>(us, bs). Inr (t # us, bs))
     else bind_ok (validate_transition t T_BLOCKED) (\<lambda>x.
       bind_ok (propagate_tasks failed src dependents ts) (\<lambda>(us, bs).
         Inr (tx_task x # us, if tx_changed x then tk_id t # bs else bs))))"

definition propagate_downstream_failure :: "revision \<Rightarrow> string \<Rightarrow> pyval \<Rightarrow> py_error + propagation_result" where
  "propagate_downstream_failure r failed v =
    bind_ok (as_status v) (\<lambda>s.
      if s \<notin> set failure_statuses
      then Inl (InvalidTaskStateTransitionError ''Failure propagation requires a blocked, cancelled, or failed source status.'')
      else bind_ok (task_by_id r failed) (\<lambda>src.
        bind_ok (validate_transition src s) (\<lambda>x.
        bind_ok (propagate_tasks failed (tx_task x) (transitive_children failed (children_by_dependency (rv_tasks r))) (rv_tasks r))
          (\<lambda>(us, bs). Inr \<lparr>pp_failed = failed, pp_status = s, pp_blocked = bs, pp_revision = r\<lparr>rv_tasks := us\<rparr>\<rparr>))))"

section \<open>Lemmas on construction\<close>

text \<open>Freezing changes nothing but the mutability, which values do not have.\<close>

lemma freeze_value_id: "freeze_value v = v"
proof (induction v rule: freeze_value.induct)
  case (1 d)
  then have "map (\<lambda>(k, v). (k, freeze_value v)) d = d" by (intro map_idI) auto
  then show ?case by simp
next
  case (2 vs)
  then show ?case by (simp add: map_idI)
qed simp_all

lemma freeze_mapping_ok: "freeze_mapping f (PDict d) = Inr d"
  by (simp add: freeze_mapping_def freeze_value_id)

lemma stripped_texts_PStr: "stripped_texts f (map PStr xs) = filter (\<lambda>s. s \<noteq> []) (map py_strip xs)"
  by (simp add: stripped_texts_def comp_def)

definition clean_texts :: "string list \<Rightarrow> bool" where
  "clean_texts xs \<longleftrightarrow> (\<forall>x \<in> set xs. x \<noteq> [] \<and> py_strip x = x)"

lemma stripped_texts_clean: "clean_texts (stripped_texts f vs)"
  by (auto simp: clean_texts_def stripped_texts_def)

lemma string_tuple_clean: "string_tuple f v = Inr xs \<Longrightarrow> clean_texts xs"
  by (auto simp: string_tuple_def bind_ok_Inr_iff stripped_texts_clean clean_texts_def [of "[]"] split: pyval.splits)

lemma string_tuple_texts: "clean_texts xs \<Longrightarrow> string_tuple f (texts_value xs) = Inr xs"
  by (simp add: string_tuple_def texts_value_def iter_values_def stripped_texts_PStr clean_texts_def map_idI)

definition clean_option :: "string option \<Rightarrow> bool" where
  "clean_option x \<longleftrightarrow> (case x of None \<Rightarrow> True | Some s \<Rightarrow> s \<noteq> [] \<and> py_strip s = s)"

lemma optional_text_clean: "clean_option (optional_text f v)"
  by (simp add: optional_text_def Let_def clean_option_def)

lemma optional_text_id: "clean_option x \<Longrightarrow> optional_text f (text_value x) = x"
  by (auto simp: optional_text_def text_value_def clean_option_def split: option.splits)

lemma status_of_value_inv [simp]: "status_of_value (PStr (status_value s)) = Some s"
  by (cases s) (simp_all add: status_of_value_def all_statuses_def status_value_def)

text \<open>What \<open>__post_init__\<close> establishes.\<close>

definition task_ok :: "revision_task \<Rightarrow> bool" where
  "task_ok t \<longleftrightarrow> tk_id t \<noteq> [] \<and> py_strip (tk_id t) = tk_id t \<and> clean_texts (tk_dependencies t) \<and> clean_texts (tk_scope t) \<and>
     clean_texts (tk_claims t) \<and> clean_option (tk_kind t) \<and> clean_option (tk_error t)"

lemma task_post_init_ok:
  assumes "task_post_init f a = Inr t"
  shows "task_ok t"
proof -
  obtain deps scope cls contract st where p: "string_tuple f (tf_dependencies a) = Inr deps" "string_tuple f (tf_scope a) = Inr scope"
    "string_tuple f (tf_claims a) = Inr cls" "py_strip (py_str f (tf_id a)) \<noteq> []"
    and t: "t = \<lparr>tk_id = py_strip (py_str f (tf_id a)), tk_dependencies = deps, tk_contract = contract, tk_scope = scope,
      tk_claims = cls, tk_kind = optional_text f (tf_kind a), tk_writes = truthy (tf_writes a), tk_status = st,
      tk_error = optional_text f (tf_error a)\<rparr>"
    using assms by (auto simp: task_post_init_def Let_def bind_ok_Inr_iff split: if_splits option.splits)
  show ?thesis using p(4) string_tuple_clean [OF p(1)] string_tuple_clean [OF p(2)] string_tuple_clean [OF p(3)]
    by (simp add: t task_ok_def optional_text_clean)
qed

text \<open>The mapping a task can be stored as.\<close>

definition task_to_mapping :: "revision_task \<Rightarrow> (string, pyval) dict" where
  "task_to_mapping t = [(''task_id'', PStr (tk_id t)), (''dependencies'', texts_value (tk_dependencies t)),
     (''input_contract'', PDict (tk_contract t)), (''write_scope'', texts_value (tk_scope t)),
     (''resource_claims'', texts_value (tk_claims t)), (''task_kind'', text_value (tk_kind t)),
     (''writes'', PBool (tk_writes t)), (''status'', PStr (status_value (tk_status t))), (''last_error'', text_value (tk_error t))]"

lemma task_roundtrip_aux:
  assumes ok: "task_ok t"
  shows "task_from_mapping f (task_to_mapping t) = Inr t"
proof -
  have o: "clean_option (tk_kind t)" "clean_option (tk_error t)" using ok by (simp_all add: task_ok_def)
  have kind: "value_or (text_value (tk_kind t)) PNone = text_value (tk_kind t)"
    using o(1) by (cases "tk_kind t") (simp_all add: value_or_def text_value_def clean_option_def)
  have st: "status_value (tk_status t) \<noteq> []" by (cases "tk_status t") (simp_all add: status_value_def)
  have c: "value_or (PDict (tk_contract t)) (PDict []) = PDict (tk_contract t)" by (simp add: value_or_def)
  have i: "tk_id t \<noteq> []" "py_strip (tk_id t) = tk_id t" using ok by (simp_all add: task_ok_def)
  have s: "string_tuple f (texts_value (tk_dependencies t)) = Inr (tk_dependencies t)"
    "string_tuple f (texts_value (tk_scope t)) = Inr (tk_scope t)"
    "string_tuple f (texts_value (tk_claims t)) = Inr (tk_claims t)"
    using ok by (simp_all add: task_ok_def string_tuple_texts)
  have g: "get_value (task_to_mapping t) ''task_id'' = PStr (tk_id t)" "get_value (task_to_mapping t) ''dependencies'' = texts_value (tk_dependencies t)"
    "get_value (task_to_mapping t) ''input_contract'' = PDict (tk_contract t)" "get_value (task_to_mapping t) ''write_scope'' = texts_value (tk_scope t)"
    "get_value (task_to_mapping t) ''resource_claims'' = texts_value (tk_claims t)" "get_value (task_to_mapping t) ''task_kind'' = text_value (tk_kind t)"
    "get_value (task_to_mapping t) ''task_type'' = PNone" "get_value (task_to_mapping t) ''writes'' = PBool (tk_writes t)"
    "get_value (task_to_mapping t) ''status'' = PStr (status_value (tk_status t))" "get_value (task_to_mapping t) ''last_error'' = text_value (tk_error t)"
    by (simp_all add: get_value_def get_or_def task_to_mapping_def)
  have v: "value_or (PStr (status_value (tk_status t))) x = PStr (status_value (tk_status t))"
    "value_or (value_or (PStr (tk_id t)) y) z = PStr (tk_id t)" for x y z
    using st i by (simp_all add: value_or_def)
  show ?thesis unfolding task_from_mapping_def Let_def g kind c v
    by (simp add: s task_post_init_def Let_def i freeze_mapping_ok optional_text_id o)
qed

text \<open>The constructor call with which \<open>validate_task_state_transition\<close> copies a task: on a constructed task
  it only changes the status, which is why \<open>validate_transition\<close> is a record update.\<close>

definition task_fields_of :: "revision_task \<Rightarrow> task_status \<Rightarrow> task_fields" where
  "task_fields_of t s = \<lparr>tf_id = PStr (tk_id t), tf_dependencies = texts_value (tk_dependencies t), tf_contract = PDict (tk_contract t),
     tf_scope = texts_value (tk_scope t), tf_claims = texts_value (tk_claims t), tf_kind = text_value (tk_kind t),
     tf_writes = PBool (tk_writes t), tf_status = PStr (status_value s), tf_error = text_value (tk_error t)\<rparr>"

lemma reconstruct_task:
  assumes "task_ok t"
  shows "task_post_init f (task_fields_of t s) = Inr (t\<lparr>tk_status := s\<rparr>)"
  using assms
  by (simp add: task_post_init_def task_fields_of_def task_ok_def Let_def string_tuple_texts freeze_mapping_ok optional_text_id)

lemma task_from_mapping_ok: "task_from_mapping f d = Inr t \<Longrightarrow> task_ok t"
  by (auto simp: task_from_mapping_def Let_def bind_ok_Inr_iff dest: task_post_init_ok)

section \<open>Lemmas on propagation\<close>

definition depends :: "revision_task list \<Rightarrow> (string \<times> string) set" where
  "depends ts = {(d, tk_id t) | d t. t \<in> set ts \<and> d \<in> set (tk_dependencies t)}"

lemma children_inner:
  "set (get_or (foldl (\<lambda>d dep. AList.update dep (get_or d dep [] @ [i]) d) d deps) x []) =
   set (get_or d x []) \<union> (if x \<in> set deps then {i} else {})"
  by (induction deps arbitrary: d) auto

lemma children_by_dependency_set:
  "set (get_or (children_by_dependency ts) x []) = {y. (x, y) \<in> depends ts}"
proof -
  have "set (get_or (foldl (\<lambda>d t. foldl (\<lambda>d dep. AList.update dep (get_or d dep [] @ [tk_id t]) d) d (tk_dependencies t)) d ts) x []) =
    set (get_or d x []) \<union> {y. (x, y) \<in> depends ts}" for d
  proof (induction ts arbitrary: d)
    case Nil
    then show ?case by (simp add: depends_def)
  next
    case (Cons t ts)
    have "{y. (x, y) \<in> depends (t # ts)} = (if x \<in> set (tk_dependencies t) then {tk_id t} else {}) \<union> {y. (x, y) \<in> depends ts}"
      by (auto simp: depends_def)
    then show ?case by (simp add: Cons.IH children_inner Un_assoc)
  qed
  then show ?thesis by (simp add: children_by_dependency_def)
qed

text \<open>The search marks the least set that holds the queue and is closed under children.\<close>

lemma transitive_loop_least:
  assumes "\<And>x. x \<in> set blocked \<Longrightarrow> set (get_or ch x []) \<subseteq> set blocked \<union> set queue"
  shows "set blocked \<union> set queue \<subseteq> set (transitive_loop ch queue blocked) \<and>
    (\<forall>x \<in> set (transitive_loop ch queue blocked). set (get_or ch x []) \<subseteq> set (transitive_loop ch queue blocked)) \<and>
    (\<forall>S. set blocked \<union> set queue \<subseteq> S \<and> (\<forall>x \<in> S. set (get_or ch x []) \<subseteq> S) \<longrightarrow> set (transitive_loop ch queue blocked) \<subseteq> S)"
  using assms
proof (induction ch queue blocked rule: transitive_loop.induct)
  case (1 ch blocked)
  then show ?case by auto
next
  case (2 ch c queue blocked)
  show ?case
  proof (cases "c \<in> set blocked")
    case True
    have "x \<in> set blocked \<Longrightarrow> set (get_or ch x []) \<subseteq> set blocked \<union> set queue" for x using 2(3) [of x] True by auto
    note IH = 2(1) [OF True this]
    show ?thesis using IH True by (simp add: insert_absorb)
  next
    case False
    have "x \<in> set (blocked @ [c]) \<Longrightarrow> set (get_or ch x []) \<subseteq> set (blocked @ [c]) \<union> set (queue @ get_or ch c [])" for x
      using 2(3) [of x] by auto
    note IH = 2(2) [OF False this]
    let ?L = "transitive_loop ch (queue @ get_or ch c []) (blocked @ [c])"
    have eq: "transitive_loop ch (c # queue) blocked = ?L" using False by simp
    have "set blocked \<union> set (c # queue) \<subseteq> set ?L" using conjunct1 [OF IH] by auto
    moreover have "set ?L \<subseteq> S" if "set blocked \<union> set (c # queue) \<subseteq> S" "\<forall>x \<in> S. set (get_or ch x []) \<subseteq> S" for S
      using conjunct2 [OF conjunct2 [OF IH], rule_format, of S] that by auto
    ultimately show ?thesis unfolding eq using conjunct1 [OF conjunct2 [OF IH]] by blast
  qed
qed

lemma transitive_children_reach:
  "set (transitive_children t (children_by_dependency ts)) = (depends ts)\<^sup>+ `` {t}"
proof -
  let ?ch = "children_by_dependency ts" and ?L = "set (transitive_children t (children_by_dependency ts))"
  note L = transitive_loop_least [of "[]" ?ch "get_or ?ch t []", simplified, folded transitive_children_def]
  have closed: "y \<in> ?L" if "x \<in> ?L" "(x, y) \<in> depends ts" for x y
    using L that by (auto simp: children_by_dependency_set)
  have first: "y \<in> ?L" if "(t, y) \<in> depends ts" for y using L that by (auto simp: children_by_dependency_set)
  show ?thesis
  proof
    have "(\<forall>x \<in> (depends ts)\<^sup>+ `` {t}. set (get_or ?ch x []) \<subseteq> (depends ts)\<^sup>+ `` {t})"
      by (auto simp: children_by_dependency_set intro: trancl_into_trancl)
    moreover have "set (get_or ?ch t []) \<subseteq> (depends ts)\<^sup>+ `` {t}" by (auto simp: children_by_dependency_set)
    ultimately show "?L \<subseteq> (depends ts)\<^sup>+ `` {t}" using L by blast
    show "(depends ts)\<^sup>+ `` {t} \<subseteq> ?L"
    proof
      fix y
      assume "y \<in> (depends ts)\<^sup>+ `` {t}"
      then have "(t, y) \<in> (depends ts)\<^sup>+" by simp
      then show "y \<in> ?L" by (induction rule: trancl_induct) (auto intro: first closed)
    qed
  qed
qed

lemma validate_blocked:
  "tk_status t \<in> {T_PENDING, T_QUEUED, T_RUNNING, T_BLOCKED} \<Longrightarrow>
   validate_transition t T_BLOCKED = Inr \<lparr>tx_task_id = tk_id t, tx_previous = tk_status t, tx_status = T_BLOCKED,
     tx_task = t\<lparr>tk_status := T_BLOCKED\<rparr>\<rparr>"
  by (auto simp: validate_transition_def allowed_transitions_def)

definition newly_blocked :: "string \<Rightarrow> string set \<Rightarrow> revision_task \<Rightarrow> bool" where
  "newly_blocked failed below t \<longleftrightarrow> tk_id t \<noteq> failed \<and> tk_id t \<in> below \<and> tk_status t \<in> {T_PENDING, T_QUEUED, T_RUNNING}"

definition propagated :: "string \<Rightarrow> revision_task \<Rightarrow> string set \<Rightarrow> revision_task \<Rightarrow> revision_task" where
  "propagated failed src below t = (if tk_id t = failed then src
     else if newly_blocked failed below t then t\<lparr>tk_status := T_BLOCKED\<rparr> else t)"

lemma propagate_tasks_exact:
  "propagate_tasks failed src dependents ts =
    Inr (map (propagated failed src (set dependents)) ts, map tk_id (filter (newly_blocked failed (set dependents)) ts))"
proof (induction ts)
  case Nil
  then show ?case by simp
next
  case (Cons t ts)
  show ?case
  proof (cases "tk_id t = failed \<or> tk_id t \<notin> set dependents \<or> tk_status t \<in> {T_DONE, T_CANCELLED, T_FAILED}")
    case True
    then show ?thesis by (auto simp: Cons.IH propagated_def newly_blocked_def)
  next
    case False
    then have s: "tk_status t \<in> {T_PENDING, T_QUEUED, T_RUNNING, T_BLOCKED}" by (cases "tk_status t") auto
    have same: "t\<lparr>tk_status := T_BLOCKED\<rparr> = t" if "tk_status t = T_BLOCKED" using that by (cases t) simp
    have nb: "newly_blocked failed (set dependents) t \<longleftrightarrow> tk_status t \<noteq> T_BLOCKED"
      using False s by (cases "tk_status t") (simp_all add: newly_blocked_def)
    have pr: "propagated failed src (set dependents) t = t\<lparr>tk_status := T_BLOCKED\<rparr>"
      using False nb same by (simp add: propagated_def)
    have "propagate_tasks failed src dependents (t # ts) =
      bind_ok (validate_transition t T_BLOCKED) (\<lambda>x. bind_ok (propagate_tasks failed src dependents ts) (\<lambda>(us, bs).
         Inr (tx_task x # us, if tx_changed x then tk_id t # bs else bs)))"
      using False by simp
    then show ?thesis unfolding Cons.IH validate_blocked [OF s] by (simp add: pr nb tx_changed_def)
  qed
qed

section \<open>Lemmas on validation\<close>

lemma count_list_distinct: "distinct xs \<longleftrightarrow> (\<forall>x \<in> set xs. count_list xs x < 2)"
proof (induction xs)
  case Nil
  then show ?case by simp
next
  case (Cons y xs)
  show ?case
  proof (cases "y \<in> set xs")
    case True
    then have "count_list xs y \<noteq> 0" by (simp add: count_list_0_iff)
    then have "\<not> count_list (y # xs) y < 2" by simp
    then show ?thesis using True by (auto intro!: bexI [of _ y])
  next
    case False
    then have "count_list xs y = 0" "\<And>x. x \<in> set xs \<Longrightarrow> count_list (y # xs) x = count_list xs x" by auto
    then show ?thesis using Cons False by simp
  qed
qed

lemma duplicate_ids_Nil: "duplicate_ids ts = [] \<longleftrightarrow> distinct (map tk_id ts)"
proof -
  have "duplicate_ids ts = [] \<longleftrightarrow> filter (\<lambda>i. 2 \<le> count_list (map tk_id ts) i) (map tk_id ts) = []"
    unfolding duplicate_ids_def by (metis set_sort set_remdups set_empty)
  also have "\<dots> \<longleftrightarrow> (\<forall>i \<in> set (map tk_id ts). count_list (map tk_id ts) i < 2)"
    by (simp only: filter_empty_conv not_le)
  finally show ?thesis unfolding count_list_distinct .
qed

lemma first_tasks_keys: "set (keys (first_tasks ts)) = tk_id ` set ts"
  and first_tasks_wf: "wf_dict (first_tasks ts)"
  and first_tasks_distinct: "distinct (map tk_id ts) \<Longrightarrow> first_tasks ts = map (\<lambda>t. (tk_id t, t)) ts"
proof -
  have "set (keys (first_tasks ts)) = tk_id ` set ts \<and> wf_dict (first_tasks ts) \<and>
    (distinct (map tk_id ts) \<longrightarrow> first_tasks ts = map (\<lambda>t. (tk_id t, t)) ts)"
  proof (induction ts rule: rev_induct)
    case Nil
    then show ?case by (simp add: first_tasks_def)
  next
    case (snoc t ts)
    have "first_tasks (ts @ [t]) = (if tk_id t \<in> set (keys (first_tasks ts)) then first_tasks ts else first_tasks ts @ [(tk_id t, t)])"
      by (simp add: first_tasks_def)
    then show ?case using snoc by auto
  qed
  then show "set (keys (first_tasks ts)) = tk_id ` set ts" "wf_dict (first_tasks ts)"
    "distinct (map tk_id ts) \<Longrightarrow> first_tasks ts = map (\<lambda>t. (tk_id t, t)) ts" by blast+
qed

lemma check_dependencies_ok:
  "fst (check_dependencies known t seen ds) = [] \<longleftrightarrow> distinct ds \<and> set ds \<inter> set seen = {} \<and> t \<notin> set ds \<and> set ds \<subseteq> set known"
  "set (snd (check_dependencies known t seen ds)) = {(d, t) | d. d \<in> set ds \<and> d \<notin> set seen \<and> d \<noteq> t \<and> d \<in> set known}"
proof -
  have "(fst (check_dependencies known t seen ds) = [] \<longleftrightarrow> distinct ds \<and> set ds \<inter> set seen = {} \<and> t \<notin> set ds \<and> set ds \<subseteq> set known) \<and>
    set (snd (check_dependencies known t seen ds)) = {(d, t) | d. d \<in> set ds \<and> d \<notin> set seen \<and> d \<noteq> t \<and> d \<in> set known}"
  proof (induction ds arbitrary: seen)
    case Nil
    then show ?case by simp
  next
    case (Cons d ds)
    show ?case using Cons [of seen] Cons [of "d # seen"] by (auto simp: split_beta Let_def)
  qed
  then show "fst (check_dependencies known t seen ds) = [] \<longleftrightarrow> distinct ds \<and> set ds \<inter> set seen = {} \<and> t \<notin> set ds \<and> set ds \<subseteq> set known"
    "set (snd (check_dependencies known t seen ds)) = {(d, t) | d. d \<in> set ds \<and> d \<notin> set seen \<and> d \<noteq> t \<and> d \<in> set known}"
    by blast+
qed

lemma validate_task_contract_ok:
  "validate_task_contract f t = [] \<longleftrightarrow> contract_dependencies f (tk_contract t) = tk_dependencies t \<and>
     (\<not> needs_write_contract t \<or> tk_scope t \<noteq> [] \<and> tk_claims t \<noteq> [])"
  by (auto simp: validate_task_contract_def)

text \<open>A cycle is rotated to start at its least task.\<close>

lemma normalize_cycle_rotation:
  assumes "c \<noteq> []"
  shows "\<exists>a b. c = a @ b \<and> normalize_cycle c = b @ a \<and> hd (normalize_cycle c) = Min (set c)"
proof -
  let ?i = "length (takeWhile (\<lambda>x. x \<noteq> Min (set c)) c)"
  have "Min (set c) \<in> set c" using assms by simp
  then have "\<not> (\<forall>x \<in> set c. x \<noteq> Min (set c))" by blast
  then have lt: "?i < length c" using takeWhile_eq_all_conv [of "\<lambda>x. x \<noteq> Min (set c)" c]
    by (metis length_takeWhile_le le_neq_implies_less append_take_drop_id takeWhile_eq_take take_all order_refl)
  then have "c ! ?i = Min (set c)" using nth_length_takeWhile by blast
  then have "hd (drop ?i c @ take ?i c) = Min (set c)" using lt by (simp add: hd_drop_conv_nth)
  then show ?thesis by (intro exI [of _ "take ?i c"] exI [of _ "drop ?i c"]) (simp add: normalize_cycle_def Let_def)
qed

text \<open>The documented answers of networkx on one graph.\<close>

definition nx_answers :: "nx \<Rightarrow> string list \<Rightarrow> (string \<times> string) list \<Rightarrow> bool" where
  "nx_answers n ns es \<longleftrightarrow> nx_is_dag n ns es = acyclic (set es) \<and>
    (if acyclic (set es)
     then set (nx_topological_sort n ns es) = set ns \<and> distinct (nx_topological_sort n ns es) \<and>
       sorted_wrt (\<lambda>x y. (y, x) \<notin> set es) (nx_topological_sort n ns es)
     else \<exists>c \<in> set (nx_simple_cycles n ns es). c \<noteq> [])"

definition revision_ok :: "(pyval \<Rightarrow> string) \<Rightarrow> revision_task list \<Rightarrow> bool" where
  "revision_ok f ts \<longleftrightarrow> distinct (map tk_id ts) \<and> acyclic (depends ts) \<and>
    (\<forall>t \<in> set ts. contract_dependencies f (tk_contract t) = tk_dependencies t \<and>
       (\<not> needs_write_contract t \<or> tk_scope t \<noteq> [] \<and> tk_claims t \<noteq> []) \<and>
       distinct (tk_dependencies t) \<and> tk_id t \<notin> set (tk_dependencies t) \<and> set (tk_dependencies t) \<subseteq> tk_id ` set ts)"

lemma revision_edges_depends:
  assumes "distinct (map tk_id (rv_tasks r))"
    "\<forall>t \<in> set (rv_tasks r). tk_id t \<notin> set (tk_dependencies t) \<and> set (tk_dependencies t) \<subseteq> tk_id ` set (rv_tasks r)"
  shows "set (revision_edges r) = depends (rv_tasks r)"
proof -
  have v: "vals (first_tasks (rv_tasks r)) = rv_tasks r" using first_tasks_distinct [OF assms(1)] by (simp add: comp_def)
  have n: "set (revision_nodes r) = tk_id ` set (rv_tasks r)" unfolding revision_nodes_def by (rule first_tasks_keys)
  have "set (snd (task_checks r t)) = {(d, tk_id t) | d. d \<in> set (tk_dependencies t)}" if "t \<in> set (rv_tasks r)" for t
    unfolding task_checks_def check_dependencies_ok(2) n using bspec [OF assms(2) that] by (auto simp: subset_iff)
  then show ?thesis unfolding revision_edges_def v depends_def by auto
qed

section \<open>Properties\<close>

text \<open>What a valid revision is. With networkx answering as documented on the revision's graph, the validator
  finds no issue exactly when the task ids are distinct, every input contract names the dependencies,
  writing tasks have a scope and a claim, dependencies are known, different from each other and
  from the task, and the dependency relation is acyclic; the order it then returns has every task
  once, after all its dependencies.\<close>

lemma validate_revision_exact:
  assumes "nx_answers n (revision_nodes r) (revision_edges r)"
  shows "(is_valid (validate_revision_dag f n r) \<longleftrightarrow> revision_ok f (rv_tasks r)) \<and>
    (is_valid (validate_revision_dag f n r) \<longrightarrow>
       set (vr_order (validate_revision_dag f n r)) = tk_id ` set (rv_tasks r) \<and> distinct (vr_order (validate_revision_dag f n r)) \<and>
       sorted_wrt (\<lambda>x y. (y, x) \<notin> depends (rv_tasks r)) (vr_order (validate_revision_dag f n r)))"
proof -
  let ?ts = "rv_tasks r" and ?ns = "revision_nodes r" and ?es = "revision_edges r" and ?v = "validate_revision_dag f n r"
  define ok where "ok t \<longleftrightarrow> contract_dependencies f (tk_contract t) = tk_dependencies t \<and>
       (\<not> needs_write_contract t \<or> tk_scope t \<noteq> [] \<and> tk_claims t \<noteq> []) \<and>
       distinct (tk_dependencies t) \<and> tk_id t \<notin> set (tk_dependencies t) \<and> set (tk_dependencies t) \<subseteq> tk_id ` set ?ts" for t
  have ns: "set ?ns = tk_id ` set ?ts" unfolding revision_nodes_def by (rule first_tasks_keys)
  have dag: "nx_is_dag n ?ns ?es = acyclic (set ?es)" using assms by (simp add: nx_answers_def)
  have "normalized_cycles n ?ns ?es \<noteq> []" if cyclic: "\<not> acyclic (set ?es)"
  proof -
    obtain c where "c \<in> set (nx_simple_cycles n ?ns ?es)" "c \<noteq> []" using assms cyclic by (auto simp: nx_answers_def split: if_splits)
    then have "normalize_cycle c \<in> set (normalized_cycles n ?ns ?es)" by (simp add: normalized_cycles_def)
    then show ?thesis by auto
  qed
  moreover have t: "validate_task_contract f t @ fst (task_checks r t) = [] \<longleftrightarrow> ok t" for t
    by (auto simp: validate_task_contract_ok task_checks_def check_dependencies_ok(1) ns ok_def)
  ultimately have "is_valid ?v \<longleftrightarrow> distinct (map tk_id ?ts) \<and> (\<forall>t \<in> set (vals (first_tasks ?ts)). ok t) \<and> acyclic (set ?es)"
    unfolding is_valid_def validate_revision_dag_def Let_def dag
    by (simp add: duplicate_ids_Nil concat_eq_Nil_conv)
  moreover have vs: "vals (first_tasks ?ts) = ?ts" if "distinct (map tk_id ?ts)" using first_tasks_distinct [OF that] by (simp add: comp_def)
  ultimately have valid: "is_valid ?v \<longleftrightarrow> distinct (map tk_id ?ts) \<and> (\<forall>t \<in> set ?ts. ok t) \<and> acyclic (set ?es)"
    by (cases "distinct (map tk_id ?ts)") (simp_all del: set_map)
  have es: "set ?es = depends ?ts" if "distinct (map tk_id ?ts)" "\<forall>t \<in> set ?ts. ok t"
    by (rule revision_edges_depends) (use that in \<open>auto simp: ok_def\<close>)
  have "revision_ok f ?ts \<longleftrightarrow> distinct (map tk_id ?ts) \<and> acyclic (depends ?ts) \<and> (\<forall>t \<in> set ?ts. ok t)"
    unfolding revision_ok_def ok_def ..
  then have 1: "is_valid ?v \<longleftrightarrow> revision_ok f ?ts" unfolding valid using es by metis
  have 2: "set (vr_order ?v) = tk_id ` set ?ts \<and> distinct (vr_order ?v) \<and> sorted_wrt (\<lambda>x y. (y, x) \<notin> depends ?ts) (vr_order ?v)"
    if "is_valid ?v"
  proof -
    have a: "distinct (map tk_id ?ts)" "\<forall>t \<in> set ?ts. ok t" "acyclic (set ?es)" using that unfolding valid by blast+
    have "vr_order ?v = nx_topological_sort n ?ns ?es" unfolding validate_revision_dag_def Let_def dag using a(3) by simp
    then show ?thesis using assms a(3) es [OF a(1,2)] ns by (simp add: nx_answers_def)
  qed
  show ?thesis using 1 2 by blast
qed

text \<open>A padded id names no task and no dependency, as those are stripped when a task is built.\<close>

lemma padded_id_unknown:
  assumes "\<forall>t \<in> set ts. task_ok t" "py_strip i \<noteq> i"
  shows "(depends ts)\<^sup>+ `` {i} = {}" "map (propagated i src {}) ts = ts" "filter (newly_blocked i {}) ts = []"
proof -
  have "tk_id t \<noteq> i" "i \<notin> set (tk_dependencies t)" if "t \<in> set ts" for t
    using assms that by (auto simp: task_ok_def clean_texts_def)
  then show "(depends ts)\<^sup>+ `` {i} = {}" "map (propagated i src {}) ts = ts" "filter (newly_blocked i {}) ts = []"
    by (auto simp: depends_def propagated_def newly_blocked_def filter_empty_conv dest: tranclD intro!: map_idI)
qed

text \<open>C31: What a failure does to a revision. Propagation succeeds exactly when the status is one of a failure, a task has
  the stripped id, and its transition to the status is legal. Then, for an id that needs no stripping, the task has that
  status, exactly the pending, queued and running tasks that depend on it, directly or through others, are blocked and
  reported, and nothing else changes. For an id with white space around it nothing changes at all: the task is looked up
  under the stripped id, and the failure is propagated from the id as it was given, which is that of no task.\<close>

theorem propagate_failure_exact:
  assumes "\<forall>t \<in> set (rv_tasks r). task_ok t"
  shows "propagate_downstream_failure r failed v = Inr p \<longleftrightarrow>
    (\<exists>s src below. as_status v = Inr s \<and> s \<in> {T_BLOCKED, T_CANCELLED, T_FAILED} \<and>
      find (\<lambda>t. tk_id t = py_strip failed) (rv_tasks r) = Some src \<and>
      (s = tk_status src \<or> s \<in> set (allowed_transitions (tk_status src))) \<and>
      below = (depends (rv_tasks r))\<^sup>+ `` {failed} \<and>
      p = (if py_strip failed = failed
        then \<lparr>pp_failed = failed, pp_status = s, pp_blocked = map tk_id (filter (newly_blocked failed below) (rv_tasks r)),
          pp_revision = r\<lparr>rv_tasks := map (propagated failed (src\<lparr>tk_status := s\<rparr>) below) (rv_tasks r)\<rparr>\<rparr>
        else \<lparr>pp_failed = failed, pp_status = s, pp_blocked = [], pp_revision = r\<rparr>))"
proof -
  let ?below = "(depends (rv_tasks r))\<^sup>+ `` {failed}"
  let ?p = "\<lambda>s src. \<lparr>pp_failed = failed, pp_status = s, pp_blocked = map tk_id (filter (newly_blocked failed ?below) (rv_tasks r)),
        pp_revision = r\<lparr>rv_tasks := map (propagated failed (src\<lparr>tk_status := s\<rparr>) ?below) (rv_tasks r)\<rparr>\<rparr>"
  have same: "src\<lparr>tk_status := s\<rparr> = src" if "s = tk_status src" for src :: revision_task and s using that by (cases src) simp
  have x: "validate_transition src s = Inr x \<longleftrightarrow> (s = tk_status src \<or> s \<in> set (allowed_transitions (tk_status src))) \<and>
    x = \<lparr>tx_task_id = tk_id src, tx_previous = tk_status src, tx_status = s, tx_task = src\<lparr>tk_status := s\<rparr>\<rparr>" for src s x
    using same [of s src] by (auto simp: validate_transition_def)
  have i: "task_by_id r failed = Inr src \<longleftrightarrow> find (\<lambda>t. tk_id t = py_strip failed) (rv_tasks r) = Some src" for src
    by (auto simp: task_by_id_def split: option.split)
  have "propagate_downstream_failure r failed v = Inr p \<longleftrightarrow> (\<exists>s. as_status v = Inr s \<and> s \<in> set failure_statuses \<and>
    (\<exists>src. task_by_id r failed = Inr src \<and> (\<exists>y. validate_transition src s = Inr y \<and>
      Inr \<lparr>pp_failed = failed, pp_status = s, pp_blocked = map tk_id (filter (newly_blocked failed ?below) (rv_tasks r)),
        pp_revision = r\<lparr>rv_tasks := map (propagated failed (tx_task y) ?below) (rv_tasks r)\<rparr>\<rparr> =
      (Inr p :: py_error + propagation_result))))"
    unfolding propagate_downstream_failure_def bind_ok_Inr_iff propagate_tasks_exact transitive_children_reach
    by (simp add: bind_ok_Inr_iff split: if_splits) blast
  then have d: "propagate_downstream_failure r failed v = Inr p \<longleftrightarrow> (\<exists>s src. as_status v = Inr s \<and>
      s \<in> {T_BLOCKED, T_CANCELLED, T_FAILED} \<and> find (\<lambda>t. tk_id t = py_strip failed) (rv_tasks r) = Some src \<and>
      (s = tk_status src \<or> s \<in> set (allowed_transitions (tk_status src))) \<and> p = ?p s src)"
    unfolding x i failure_statuses_def by (simp del: Image_singleton_iff) blast
  have "?p s src = \<lparr>pp_failed = failed, pp_status = s, pp_blocked = [], pp_revision = r\<rparr>" if "py_strip failed \<noteq> failed" for s src
    unfolding padded_id_unknown [OF assms that] by simp
  then show ?thesis unfolding d by (cases "py_strip failed = failed") simp_all
qed

text \<open>Reading a task normalises it once and for all. A task read from any mapping has stripped, non-empty
  texts; written back as a mapping it is read as the same task, and copying it with another status
  changes nothing but the status.\<close>

lemma task_mapping_roundtrip:
  assumes "task_from_mapping f d = Inr t"
  shows "task_ok t \<and> task_from_mapping g (task_to_mapping t) = Inr t \<and>
    task_post_init g (task_fields_of t s) = Inr (t\<lparr>tk_status := s\<rparr>)"
  using task_roundtrip_aux reconstruct_task task_from_mapping_ok [OF assms] by blast

text \<open>A build task and a test task that depends on it.\<close>

definition ex_task :: "string \<Rightarrow> string list \<Rightarrow> task_status \<Rightarrow> revision_task" where
  "ex_task i ds st = \<lparr>tk_id = i, tk_dependencies = ds, tk_contract = [(''from_dependencies'', texts_value ds)], tk_scope = [],
     tk_claims = [], tk_kind = Some ''research'', tk_writes = False, tk_status = st, tk_error = None\<rparr>"

definition ex_revision :: revision where
  "ex_revision = \<lparr>rv_id = ''r'', rv_session = ''s'', rv_sequence = 0,
     rv_tasks = [ex_task ''test'' [''build''] T_QUEUED, ex_task ''build'' [] T_RUNNING], rv_parent = None, rv_metadata = []\<rparr>"

definition ex_nx :: nx where
  "ex_nx = \<lparr>nx_is_dag = (\<lambda>ns es. True), nx_topological_sort = (\<lambda>ns es. rev ns), nx_simple_cycles = (\<lambda>ns es. [])\<rparr>"

lemma validate_revision_exact_witness:
  "is_valid (validate_revision_dag (\<lambda>v. []) ex_nx ex_revision) \<and>
   sorted_wrt (\<lambda>x y. (y, x) \<notin> depends (rv_tasks ex_revision)) (vr_order (validate_revision_dag (\<lambda>v. []) ex_nx ex_revision))"
proof -
  have g: "revision_nodes ex_revision = [''test'', ''build'']" "revision_edges ex_revision = [(''build'', ''test'')]" by code_simp+
  have "nx_answers ex_nx (revision_nodes ex_revision) (revision_edges ex_revision)"
    unfolding g by (auto simp: nx_answers_def ex_nx_def acyclic_insert acyclic_def [of "{}"])
  moreover have "is_valid (validate_revision_dag (\<lambda>v. []) ex_nx ex_revision)" by code_simp
  ultimately show ?thesis using validate_revision_exact [of ex_nx ex_revision "\<lambda>v. []"] by blast
qed

definition ex_mapping :: "(string, pyval) dict" where
  "ex_mapping = [(''key'', PStr '' build ''), (''task_type'', PStr ''Write''), (''dependencies'', PList [PStr '' a'', PStr '' ''])]"

lemma task_mapping_roundtrip_witness:
  "\<exists>t. task_from_mapping (\<lambda>v. []) ex_mapping = Inr t \<and> tk_id t = ''build'' \<and> tk_dependencies t = [''a''] \<and> tk_writes t \<and>
     task_from_mapping (\<lambda>v. ''?'') (task_to_mapping t) = Inr t"
proof -
  have "task_from_mapping (\<lambda>v. []) ex_mapping = Inr \<lparr>tk_id = ''build'', tk_dependencies = [''a''], tk_contract = [], tk_scope = [],
    tk_claims = [], tk_kind = Some ''Write'', tk_writes = True, tk_status = T_PENDING, tk_error = None\<rparr>" by code_simp
  then show ?thesis using task_mapping_roundtrip by fastforce
qed

theorem propagate_failure_exact_witness:
  "(\<exists>p. propagate_downstream_failure ex_revision ''build'' (PStr ''failed'') = Inr p \<and> pp_blocked p = [''test''] \<and>
     pp_blocked p = map tk_id (filter (newly_blocked ''build'' ((depends (rv_tasks ex_revision))\<^sup>+ `` {''build''})) (rv_tasks ex_revision))) \<and>
   propagate_downstream_failure ex_revision '' build '' (PStr ''failed'') =
     Inr \<lparr>pp_failed = '' build '', pp_status = T_FAILED, pp_blocked = [], pp_revision = ex_revision\<rparr>"
proof
  have ok: "\<forall>t \<in> set (rv_tasks ex_revision). task_ok t"
    by (simp add: ex_revision_def ex_task_def) code_simp
  have s: "as_status (PStr ''failed'') = Inr T_FAILED" "py_strip ''build'' = ''build''" "py_strip '' build '' = ''build''" by code_simp+
  have "(case propagate_downstream_failure ex_revision ''build'' (PStr ''failed'') of Inl e \<Rightarrow> [] | Inr p \<Rightarrow> pp_blocked p) = [''test'']"
    by code_simp
  then obtain p where p: "propagate_downstream_failure ex_revision ''build'' (PStr ''failed'') = Inr p" "pp_blocked p = [''test'']"
    by (auto split: sum.splits)
  have "pp_blocked p = map tk_id (filter (newly_blocked ''build'' ((depends (rv_tasks ex_revision))\<^sup>+ `` {''build''})) (rv_tasks ex_revision))"
    using p(1) unfolding propagate_failure_exact [OF ok] s(2) by (elim exE conjE) (simp del: Image_singleton_iff)
  then show "\<exists>p. propagate_downstream_failure ex_revision ''build'' (PStr ''failed'') = Inr p \<and> pp_blocked p = [''test''] \<and>
     pp_blocked p = map tk_id (filter (newly_blocked ''build'' ((depends (rv_tasks ex_revision))\<^sup>+ `` {''build''})) (rv_tasks ex_revision))"
    using p by blast
  show "propagate_downstream_failure ex_revision '' build '' (PStr ''failed'') =
     Inr \<lparr>pp_failed = '' build '', pp_status = T_FAILED, pp_blocked = [], pp_revision = ex_revision\<rparr>"
    unfolding propagate_failure_exact [OF ok] s by (simp add: ex_revision_def ex_task_def allowed_transitions_def)
qed

end
