(* ===== verification/ToolCache.thy ===== *)
theory ToolCache
  imports Prelude "HOL-Library.Sublist"
begin

text \<open>
  The inputs of a tool execution (\<open>ToolRuntimeMeta\<close> of \<open>src/focus_agent/capabilities/tool_registry.py\<close>, with
  the fields the runtime reads, and \<open>ToolExecutionInput\<close> of \<open>tool_execution_types.py\<close>) and the cache of tool
  results of \<open>tool_cache.py\<close>. An \<open>OrderedDict\<close> is an association list, oldest entry first. A tool, its
  validator and its fallback are functions; what they read and change outside the program is a value of type \<open>'w\<close>.
  JSON and SHA-256 of the standard library are arguments.
\<close>

section \<open>Tools\<close>

type_synonym tool_args = "(string, pyval) dict"

datatype tool_exc =
    ParameterValidationError string string
  | InvocationTimeoutError string real
  | ExecutionTimeout string
  | ExecutionDenied string
  | FutureCancelledError string
  | OtherError string

record 'w tool_meta =
  tm_side_effect :: bool
  tm_parallel_safe :: bool
  tm_cacheable :: bool
  tm_cache_scope :: string
  tm_timeout :: "real option"
  tm_fallback_group :: "string option"
  tm_fallback :: "(tool_exc \<Rightarrow> tool_args \<Rightarrow> 'w \<Rightarrow> (tool_exc + pyval) \<times> 'w) option"
  tm_max_calls :: "int option"
  tm_max_chars :: "int option"
  tm_validator :: "(tool_args \<Rightarrow> tool_exc option) option"
  tm_risk_level :: string
  tm_requires_approval :: bool
  tm_side_effect_kind :: "string option"
  tm_retry_safe :: bool
  tm_sensitive_args :: "string list"
  tm_redaction_policy :: string
  tm_max_concurrent :: int

record 'w tool_input =
  ti_index :: nat
  ti_call_id :: string
  ti_name :: string
  ti_args :: tool_args
  ti_invoke :: "tool_args \<Rightarrow> 'w \<Rightarrow> (tool_exc + pyval) \<times> 'w"
  ti_runtime :: "'w tool_meta"

section \<open>The store\<close>

type_synonym cache = "(string, string) dict"

record cache_store =
  cs_max :: int
  cs_turn :: cache
  cs_thread :: cache
  cs_branch :: cache

definition cache_store_init :: "int \<Rightarrow> cache_store" where
  "cache_store_init n = \<lparr>cs_max = n, cs_turn = [], cs_thread = [], cs_branch = []\<rparr>"

datatype cache_slot = Turn | Thread | Branch

definition slot_for_scope :: "string \<Rightarrow> cache_slot" where
  "slot_for_scope scope = (let normalized = py_lower (py_strip scope) in
    if normalized = ''turn'' then Turn else if normalized = ''branch'' then Branch else Thread)"

fun cache_of :: "cache_slot \<Rightarrow> cache_store \<Rightarrow> cache" where
  "cache_of Turn s = cs_turn s"
| "cache_of Thread s = cs_thread s"
| "cache_of Branch s = cs_branch s"

fun set_cache :: "cache_slot \<Rightarrow> cache \<Rightarrow> cache_store \<Rightarrow> cache_store" where
  "set_cache Turn c s = s\<lparr>cs_turn := c\<rparr>"
| "set_cache Thread c s = s\<lparr>cs_thread := c\<rparr>"
| "set_cache Branch c s = s\<lparr>cs_branch := c\<rparr>"

text \<open>\<open>key.split(":", 1)[0]\<close>\<close>

definition before_colon :: "string \<Rightarrow> string" where
  "before_colon key = takeWhile (\<lambda>c. c \<noteq> CHR '':'') key"

definition slot_for_key :: "string \<Rightarrow> cache_slot" where
  "slot_for_key key = slot_for_scope (before_colon key)"

definition slot_for_namespace :: "string \<Rightarrow> cache_slot" where
  "slot_for_namespace namespace = slot_for_scope (before_colon namespace)"

definition move_to_end :: "'k \<Rightarrow> ('k, 'v) dict \<Rightarrow> ('k, 'v) dict" where
  "move_to_end k d = (case map_of d k of None \<Rightarrow> d | Some v \<Rightarrow> AList.delete k d @ [(k, v)])"

definition cache_limit :: "cache_store \<Rightarrow> nat" where
  "cache_limit s = max 1 (nat (if cs_max s = 0 then 1 else cs_max s))"

fun trim_cache :: "nat \<Rightarrow> cache \<Rightarrow> cache" where
  "trim_cache limit [] = []"
| "trim_cache limit (e # c) = (if limit < length (e # c) then trim_cache limit c else e # c)"

definition cache_get :: "string \<Rightarrow> cache_store \<Rightarrow> cache_store \<times> string option" where
  "cache_get key s = (let i = slot_for_key key; c = cache_of i s in
    case map_of c key of
      None \<Rightarrow> (s, None)
    | Some v \<Rightarrow> (set_cache i (move_to_end key c) s, Some v))"

definition cache_set :: "string \<Rightarrow> string \<Rightarrow> cache_store \<Rightarrow> cache_store" where
  "cache_set key v s = (let i = slot_for_key key in
    set_cache i (trim_cache (cache_limit s) (move_to_end key (AList.update key v (cache_of i s)))) s)"

definition invalidate_namespace :: "string option \<Rightarrow> cache_store \<Rightarrow> cache_store" where
  "invalidate_namespace ns s = (case ns of None \<Rightarrow> s | Some n \<Rightarrow>
    if n = [] then s
    else let i = slot_for_namespace n in set_cache i (filter (\<lambda>(k, v). \<not> prefix (n @ '':'') k) (cache_of i s)) s)"

section \<open>Scopes and keys\<close>

definition or_text :: "string option \<Rightarrow> string \<Rightarrow> string" where
  "or_text x z = (case x of None \<Rightarrow> z | Some s \<Rightarrow> if s = [] then z else s)"

definition build_cache_scope_key :: "string \<Rightarrow> string option \<Rightarrow> string option \<Rightarrow> string option \<Rightarrow> string" where
  "build_cache_scope_key scope root_thread branch turn =
    (let normalized = py_lower (py_strip (if scope = [] then ''thread'' else scope)) in
     if normalized = ''branch'' \<and> or_text branch [] \<noteq> [] then ''branch:'' @ or_text branch []
     else if normalized = ''turn''
       then ''turn:'' @ or_text root_thread (or_text branch ''default'') @ '':'' @ or_text turn ''default''
     else ''thread:'' @ or_text root_thread (or_text branch ''default''))"

record key_env =
  ke_json :: "tool_args \<Rightarrow> string"
  ke_sha256 :: "string \<Rightarrow> string"

definition scope_or_default :: "string option \<Rightarrow> string" where
  "scope_or_default scope = or_text scope ''thread:default''"

definition cache_key :: "key_env \<Rightarrow> 'w tool_input \<Rightarrow> string option \<Rightarrow> string option" where
  "cache_key E item scope = (if \<not> tm_cacheable (ti_runtime item) then None
    else Some (scope_or_default scope @ '':'' @
      ke_sha256 E (scope_or_default scope @ ''|'' @ ti_name item @ ''|'' @ ke_json E (ti_args item))))"

definition invalidate_after_side_effect :: "string list \<Rightarrow> cache_store option \<Rightarrow> cache_store option" where
  "invalidate_after_side_effect scopes cs = map_option (fold (\<lambda>n. invalidate_namespace (Some n)) scopes) cs"

section \<open>Invariant\<close>

text \<open>Each cache is a dictionary within the limit, and holds the keys whose scope it serves.\<close>

definition cache_ok :: "cache_store \<Rightarrow> bool" where
  "cache_ok s \<longleftrightarrow> (\<forall>i. wf_dict (cache_of i s) \<and> length (cache_of i s) \<le> cache_limit s \<and>
    (\<forall>k \<in> set (keys (cache_of i s)). slot_for_key k = i))"

lemma cache_of_set_cache [simp]: "cache_of j (set_cache i c s) = (if j = i then c else cache_of j s)"
  by (cases i; cases j) simp_all

lemma limit_set_cache [simp]: "cache_limit (set_cache i c s) = cache_limit s"
  by (cases i) (simp_all add: cache_limit_def)

lemma set_cache_same [simp]: "set_cache i (cache_of i s) s = s"
  by (cases i) simp_all

lemma cache_limit_pos: "1 \<le> cache_limit s"
  by (simp add: cache_limit_def)

lemma trim_cache_eq: "trim_cache limit c = drop (length c - limit) c"
proof (induction c)
  case (Cons e c)
  then show ?case by (simp add: Suc_diff_le drop_Cons')
qed simp

lemma move_to_end_update: "move_to_end k (AList.update k v d) = AList.delete k d @ [(k, v)]"
  by (simp add: move_to_end_def delete_update_same)

lemma wf_move_to_end: "wf_dict d \<Longrightarrow> wf_dict (move_to_end k d)"
  by (auto simp: move_to_end_def AList.delete_eq intro: distinct_map_filter split: option.split)

lemma set_move_to_end: "wf_dict d \<Longrightarrow> set (move_to_end k d) = set d"
  by (auto simp: move_to_end_def AList.delete_eq dest: map_of_SomeD split: option.split) (metis map_of_is_SomeI option.sel)

lemma cache_ok_init: "cache_ok (cache_store_init n)"
proof -
  have "cache_of i (cache_store_init n) = []" for i by (cases i) (simp_all add: cache_store_init_def)
  then show ?thesis by (simp add: cache_ok_def)
qed

text \<open>Replacing one cache.\<close>

lemma cache_ok_set_cache:
  assumes "cache_ok s" "wf_dict c" "length c \<le> cache_limit s" "\<forall>k \<in> set (keys c). slot_for_key k = i"
  shows "cache_ok (set_cache i c s)"
  using assms by (simp add: cache_ok_def)

lemma cache_ok_get:
  assumes a: "cache_ok s"
  shows "cache_ok (fst (cache_get key s))"
proof -
  define i where "i = slot_for_key key"
  define c where "c = cache_of i s"
  have w: "wf_dict c" "length c \<le> cache_limit s" "\<forall>k \<in> set (keys c). slot_for_key k = i"
    using a unfolding cache_ok_def c_def by blast+
  have st: "set (move_to_end key c) = set c" by (rule set_move_to_end [OF w(1)])
  have wm: "wf_dict (move_to_end key c)" by (rule wf_move_to_end [OF w(1)])
  have "length (keys (move_to_end key c)) = length (keys c)" using distinct_card [OF w(1)] distinct_card [OF wm] st by simp
  then have "cache_ok (set_cache i (move_to_end key c) s)"
    using w st by (intro cache_ok_set_cache [OF a wm]) (simp_all only: set_map length_map)
  then show ?thesis using a unfolding cache_get_def Let_def i_def [symmetric] c_def [symmetric] by (simp split: option.split)
qed

lemma cache_set_eq: "cache_set key v s = set_cache (slot_for_key key)
    (let c = AList.delete key (cache_of (slot_for_key key) s) @ [(key, v)] in drop (length c - cache_limit s) c) s"
  unfolding cache_set_def Let_def move_to_end_update trim_cache_eq by (rule refl)

lemma cache_ok_set:
  assumes a: "cache_ok s"
  shows "cache_ok (cache_set key v s)"
proof -
  define i where "i = slot_for_key key"
  define c where "c = AList.delete key (cache_of i s) @ [(key, v)]"
  have w: "wf_dict (cache_of i s)" "\<forall>k \<in> set (keys (cache_of i s)). slot_for_key k = i"
    using a unfolding cache_ok_def by blast+
  have wc: "wf_dict c" unfolding c_def using w(1) by (auto simp: AList.delete_eq intro: distinct_map_filter)
  have k: "set (keys c) \<subseteq> insert key (set (keys (cache_of i s)))"
    unfolding c_def AList.delete_eq map_append set_append set_map set_filter by auto
  have "set (keys (drop n c)) \<subseteq> set (keys c)" for n unfolding drop_map [symmetric] by (rule set_drop_subset)
  then have sl: "\<forall>k \<in> set (keys (drop n c)). slot_for_key k = i" for n
    using w(2) k unfolding i_def by blast
  have "cache_ok (set_cache i (drop (length c - cache_limit s) c) s)"
  proof (rule cache_ok_set_cache [OF a])
    show "wf_dict (drop (length c - cache_limit s) c)" unfolding drop_map [symmetric] using wc by (rule distinct_drop)
  qed (simp, rule sl)
  then show ?thesis unfolding cache_set_eq Let_def i_def [symmetric] c_def [symmetric] .
qed

lemma cache_ok_invalidate:
  assumes a: "cache_ok s"
  shows "cache_ok (invalidate_namespace ns s)"
proof (cases ns)
  case (Some n)
  define i where "i = slot_for_namespace n"
  define c where "c = filter (\<lambda>(k, v). \<not> prefix (n @ '':'') k) (cache_of i s)"
  have w: "wf_dict (cache_of i s)" "length (cache_of i s) \<le> cache_limit s" "\<forall>k \<in> set (keys (cache_of i s)). slot_for_key k = i"
    using a unfolding cache_ok_def by blast+
  have "cache_ok (set_cache i c s)"
  proof (rule cache_ok_set_cache [OF a])
    show "wf_dict c" unfolding c_def using w(1) by (rule distinct_map_filter)
    show "length c \<le> cache_limit s" unfolding c_def using w(2) length_filter_le le_trans by blast
    show "\<forall>k \<in> set (keys c). slot_for_key k = i" using w(3) by (auto simp: c_def)
  qed
  then show ?thesis using a Some by (simp add: invalidate_namespace_def Let_def i_def c_def)
qed (simp add: invalidate_namespace_def a)

datatype cache_op = Get string | Put string string | Invalidate string

fun cache_exec :: "cache_op \<Rightarrow> cache_store \<Rightarrow> cache_store" where
  "cache_exec (Get k) s = fst (cache_get k s)"
| "cache_exec (Put k v) s = cache_set k v s"
| "cache_exec (Invalidate n) s = invalidate_namespace (Some n) s"

definition cache_run :: "cache_op list \<Rightarrow> cache_store \<Rightarrow> cache_store" where
  "cache_run ops s = fold cache_exec ops s"

lemma cache_exec_ok: "cache_ok s \<Longrightarrow> cache_ok (cache_exec op s)"
  by (cases op) (simp_all add: cache_ok_get cache_ok_set cache_ok_invalidate)

lemma cache_run_ok: "cache_ok s \<Longrightarrow> cache_ok (cache_run ops s)"
  unfolding cache_run_def by (induction ops arbitrary: s) (simp_all add: cache_exec_ok)

lemma limit_exec: "cache_limit (cache_exec op s) = cache_limit s"
  by (cases op) (simp_all add: cache_get_def cache_set_def invalidate_namespace_def Let_def split: option.split)

section \<open>Recency\<close>

text \<open>A key held with its value, with only keys of a given set used more recently.\<close>

definition recent :: "string \<Rightarrow> string \<Rightarrow> string set \<Rightarrow> cache \<Rightarrow> bool" where
  "recent k v T c \<longleftrightarrow> (\<exists>a b. c = a @ (k, v) # b \<and> set (keys b) \<subseteq> T)"

fun invalidates :: "string \<Rightarrow> cache_op \<Rightarrow> bool" where
  "invalidates k (Invalidate n) = (n \<noteq> [] \<and> slot_for_namespace n = slot_for_key k \<and> prefix (n @ '':'') k)"
| "invalidates k (Get k') = False"
| "invalidates k (Put k' v) = (k' = k)"

fun touched :: "string \<Rightarrow> cache_op list \<Rightarrow> string set" where
  "touched k [] = {}"
| "touched k (Invalidate n # ops) = touched k ops"
| "touched k (Get k' # ops) = (if k' \<noteq> k \<and> slot_for_key k' = slot_for_key k then insert k' (touched k ops) else touched k ops)"
| "touched k (Put k' v # ops) = (if k' \<noteq> k \<and> slot_for_key k' = slot_for_key k then insert k' (touched k ops) else touched k ops)"

lemma finite_touched [simp]: "finite (touched k ops)"
  by (induction k ops rule: touched.induct) simp_all

lemma recent_lookup:
  assumes "recent k v T c" "wf_dict c"
  shows "map_of c k = Some v"
proof -
  obtain a b where "c = a @ (k, v) # b" using assms(1) unfolding recent_def by blast
  then have "(k, v) \<in> set c" by simp
  then show ?thesis using dict_mem_iff [OF assms(2)] by blast
qed

lemma recent_append: "recent k v T c \<Longrightarrow> k' \<in> T \<Longrightarrow> recent k v T (c @ [(k', v')])"
  unfolding recent_def by (elim exE conjE, rename_tac a b, rule_tac x = a in exI, rule_tac x = "b @ [(k', v')]" in exI) simp

lemma recent_filter: "recent k v T c \<Longrightarrow> P (k, v) \<Longrightarrow> recent k v T (filter P c)"
  unfolding recent_def by (elim exE conjE, rename_tac a b, rule_tac x = "filter P a" in exI, rule_tac x = "filter P b" in exI) auto

lemma recent_delete: "recent k v T c \<Longrightarrow> k' \<noteq> k \<Longrightarrow> recent k v T (AList.delete k' c)"
  unfolding AList.delete_eq by (rule recent_filter) auto

lemma recent_last: "recent k v T (c @ [(k, v)])"
  unfolding recent_def by (rule exI [of _ c], rule exI [of _ "[]"]) simp

lemma recent_drop:
  assumes "recent k v T c" "wf_dict c" "finite T" "card T < limit"
  shows "recent k v T (drop (length c - limit) c)"
proof -
  obtain a b where c: "c = a @ (k, v) # b" "set (keys b) \<subseteq> T" using assms(1) by (auto simp: recent_def)
  have "distinct (keys b)" using assms(2) c(1) by simp
  then have "length b \<le> card T" using card_mono [OF assms(3) c(2)] by (metis distinct_card length_map)
  then have "length b < limit" using assms(4) by simp
  then have "length c - limit \<le> length a" by (simp add: c(1))
  then show ?thesis unfolding recent_def c(1) using c(2) by (intro exI [of _ "drop (length c - limit) a"] exI [of _ b]) (simp add: c(1))
qed

lemma recent_exec:
  assumes "cache_ok s" "recent k v T (cache_of (slot_for_key k) s)" "\<not> invalidates k op" "touched k [op] \<subseteq> T"
    "finite T" "card T < cache_limit s"
  shows "recent k v T (cache_of (slot_for_key k) (cache_exec op s))"
proof (cases op)
  case (Get k')
  show ?thesis
  proof (cases "slot_for_key k' = slot_for_key k \<and> map_of (cache_of (slot_for_key k) s) k' \<noteq> None")
    case True
    then obtain v' where v': "map_of (cache_of (slot_for_key k) s) k' = Some v'" by blast
    have e: "cache_of (slot_for_key k) (cache_exec op s) = AList.delete k' (cache_of (slot_for_key k) s) @ [(k', v')]"
      using True v' Get by (simp add: cache_get_def Let_def move_to_end_def)
    show ?thesis
    proof (cases "k' = k")
      case True
      have w: "wf_dict (cache_of (slot_for_key k) s)" using assms(1) by (simp add: cache_ok_def)
      have "v' = v" using v' True recent_lookup [OF assms(2) w] by simp
      then show ?thesis unfolding e True by (simp add: recent_last)
    next
      case False
      then have "k' \<in> T" using assms(4) Get True by simp
      then show ?thesis unfolding e using recent_append recent_delete [OF assms(2) False] by blast
    qed
  next
    case False
    then have "cache_of (slot_for_key k) (cache_exec op s) = cache_of (slot_for_key k) s"
      using Get by (auto simp: cache_get_def Let_def split: option.split)
    then show ?thesis using assms(2) by simp
  qed
next
  case (Put k' v')
  then have n: "k' \<noteq> k" using assms(3) by simp
  show ?thesis
  proof (cases "slot_for_key k' = slot_for_key k")
    case True
    let ?c = "AList.delete k' (cache_of (slot_for_key k) s) @ [(k', v')]"
    have w: "wf_dict ?c" using assms(1) by (auto simp: cache_ok_def AList.delete_eq intro: distinct_map_filter)
    have "k' \<in> T" using assms(4) Put True n by simp
    then have "recent k v T ?c" using recent_append recent_delete [OF assms(2) n] by blast
    from recent_drop [OF this w assms(5,6)]
    moreover have "cache_of (slot_for_key k) (cache_exec op s) = drop (length ?c - cache_limit s) ?c"
      unfolding Put cache_exec.simps cache_set_eq Let_def True cache_of_set_cache by (simp only: simp_thms if_True)
    ultimately show ?thesis by (simp only:)
  next
    case False
    then show ?thesis using Put assms(2) by (simp add: cache_set_def Let_def)
  qed
next
  case (Invalidate n)
  have "\<not> prefix (n @ '':'') k" if "n \<noteq> []" "slot_for_namespace n = slot_for_key k" using assms(3) Invalidate that by simp
  then show ?thesis using Invalidate assms(2) by (auto simp: invalidate_namespace_def Let_def intro: recent_filter)
qed

lemma recent_run:
  assumes "cache_ok s" "recent k v T (cache_of (slot_for_key k) s)" "\<not> list_ex (invalidates k) ops" "touched k ops \<subseteq> T"
    "finite T" "card T < cache_limit s"
  shows "recent k v T (cache_of (slot_for_key k) (cache_run ops s))"
  using assms
proof (induction ops arbitrary: s)
  case Nil
  then show ?case by (simp add: cache_run_def)
next
  case (Cons op ops)
  have t: "touched k [op] \<subseteq> T" "touched k ops \<subseteq> T" using Cons.prems(4) by (cases op; auto split: if_splits)+
  have "recent k v T (cache_of (slot_for_key k) (cache_exec op s))"
    using recent_exec [OF Cons.prems(1,2) _ t(1) Cons.prems(5,6)] Cons.prems(3) by simp
  then show ?case using Cons.IH [of "cache_exec op s"] Cons.prems t(2) cache_exec_ok
    by (simp add: cache_run_def limit_exec)
qed

section \<open>Invalidation\<close>

lemma before_colon_prefix: "before_colon (n @ '':'' @ d) = before_colon n"
  by (induction n) (simp_all add: before_colon_def)

lemma invalidated_stays: "map_of (cache_of i (fold (\<lambda>n. invalidate_namespace (Some n)) ns s)) k \<noteq> None \<Longrightarrow>
    map_of (cache_of i s) k \<noteq> None"
proof (induction ns arbitrary: s)
  case (Cons n ns)
  have "map_of (cache_of i (invalidate_namespace (Some n) s)) k \<noteq> None \<Longrightarrow> map_of (cache_of i s) k \<noteq> None"
    by (auto simp: invalidate_namespace_def Let_def map_of_eq_None_iff split: if_splits)
  then show ?case using Cons by simp
qed simp

lemma invalidated_gone:
  assumes "n \<in> set ns" "n \<noteq> []" "slot_for_namespace n = i" "prefix (n @ '':'') k"
  shows "map_of (cache_of i (fold (\<lambda>n. invalidate_namespace (Some n)) ns s)) k = None"
  using assms(1)
proof (induction ns arbitrary: s)
  case (Cons m ns)
  show ?case
  proof (cases "n \<in> set ns")
    case True
    then show ?thesis using Cons.IH by simp
  next
    case False
    then have "m = n" using Cons.prems by simp
    then have "map_of (cache_of i (invalidate_namespace (Some m) s)) k = None"
      using assms(2-4) by (auto simp: invalidate_namespace_def Let_def map_of_eq_None_iff)
    then show ?thesis using invalidated_stays [of i ns "invalidate_namespace (Some m) s" k]
      by (simp only: fold_simps) blast
  qed
qed simp

section \<open>Properties\<close>

text \<open>A cached result stays until it is stale: after a result is stored, any mix of reads, writes and
  invalidations that does not rewrite or invalidate its key and uses fewer other keys of its scope than the limit
  leaves the result readable, and every cache within its limit.\<close>

lemma cache_keeps_recent:
  assumes "cache_ok s" "\<not> list_ex (invalidates k) ops" "card (touched k ops) < cache_limit s"
  shows "snd (cache_get k (cache_run ops (cache_set k v s))) = Some v \<and> cache_ok (cache_run ops (cache_set k v s))"
proof -
  define c where "c = AList.delete k (cache_of (slot_for_key k) s) @ [(k, v)]"
  have ok: "cache_ok (cache_set k v s)" by (rule cache_ok_set [OF assms(1)])
  have w: "wf_dict c" using assms(1) by (auto simp: cache_ok_def c_def AList.delete_eq intro: distinct_map_filter)
  have "recent k v (touched k ops) c" unfolding c_def by (rule recent_last)
  from recent_drop [OF this w _ assms(3)]
  have "recent k v (touched k ops) (cache_of (slot_for_key k) (cache_set k v s))"
    by (simp add: cache_set_eq Let_def c_def [symmetric])
  from recent_run [OF ok this assms(2) subset_refl]
  have r: "recent k v (touched k ops) (cache_of (slot_for_key k) (cache_run ops (cache_set k v s)))"
    using assms(3) by (simp add: cache_set_eq)
  have ok': "cache_ok (cache_run ops (cache_set k v s))" by (rule cache_run_ok [OF ok])
  then have "wf_dict (cache_of (slot_for_key k) (cache_run ops (cache_set k v s)))" unfolding cache_ok_def by blast
  from recent_lookup [OF r this] show ?thesis using ok' by (simp add: cache_get_def Let_def)
qed

lemma cache_keeps_recent_witness:
  "snd (cache_get ''thread:a:1'' (cache_run [Put ''thread:a:2'' ''y'', Get ''thread:a:1'', Put ''turn:b:3'' ''z'', Invalidate ''turn:b'']
     (cache_set ''thread:a:1'' ''x'' (cache_store_init 2)))) = Some ''x''"
proof -
  let ?ops = "[Put ''thread:a:2'' ''y'', Get ''thread:a:1'', Put ''turn:b:3'' ''z'', Invalidate ''turn:b'']"
  have t: "touched ''thread:a:1'' ?ops = {''thread:a:2''}" "\<not> list_ex (invalidates ''thread:a:1'') ?ops" by code_simp+
  show ?thesis
    by (rule cache_keeps_recent [THEN conjunct1])
      (simp_all only: t cache_ok_init not_False_eq_True, simp add: cache_limit_def cache_store_init_def)
qed

text \<open>After a side effect has been invalidated, no result cached under one of the invalidated scopes is served:
  the key of every cacheable call of such a scope misses.\<close>

lemma side_effect_forgets_results:
  assumes "scope \<in> set scopes" "scope \<noteq> []" "cache_key E item (Some scope) = Some key"
    "invalidate_after_side_effect scopes (Some s) = Some s'"
  shows "snd (cache_get key s') = None"
proof -
  obtain d where key: "key = scope @ '':'' @ d"
    using assms(2,3) by (auto simp: cache_key_def scope_or_default_def or_text_def split: if_splits)
  have "slot_for_namespace scope = slot_for_key key"
    by (simp only: slot_for_namespace_def slot_for_key_def key before_colon_prefix)
  moreover have "prefix (scope @ '':'') key" by (simp add: key)
  ultimately have "map_of (cache_of (slot_for_key key) (fold (\<lambda>n. invalidate_namespace (Some n)) scopes s)) key = None"
    using invalidated_gone assms(1,2) by blast
  then show ?thesis using assms(4) by (auto simp: cache_get_def Let_def invalidate_after_side_effect_def)
qed

definition ex_meta :: "'w tool_meta" where
  "ex_meta = \<lparr>tm_side_effect = False, tm_parallel_safe = True, tm_cacheable = True, tm_cache_scope = ''thread'',
     tm_timeout = None, tm_fallback_group = None, tm_fallback = None, tm_max_calls = None, tm_max_chars = None,
     tm_validator = None, tm_risk_level = ''low'', tm_requires_approval = False, tm_side_effect_kind = None,
     tm_retry_safe = False, tm_sensitive_args = [], tm_redaction_policy = ''mask'', tm_max_concurrent = 4\<rparr>"

definition ex_item :: "nat \<Rightarrow> string \<Rightarrow> nat tool_input" where
  "ex_item i name = \<lparr>ti_index = i, ti_call_id = ''call'' @ show_nat i, ti_name = name, ti_args = [],
     ti_invoke = (\<lambda>args w. (Inr (PStr name), w + 1)), ti_runtime = ex_meta\<rparr>"

definition ex_keys :: key_env where
  "ex_keys = \<lparr>ke_json = (\<lambda>args. ''{}''), ke_sha256 = (\<lambda>s. show_nat (length s))\<rparr>"

lemma side_effect_forgets_results_witness:
  "snd (cache_get ''thread:a:16'' (cache_set ''thread:a:16'' ''x'' (cache_store_init 2))) = Some ''x'' \<and>
   snd (cache_get ''thread:a:16'' (the (invalidate_after_side_effect [''thread:a''] (Some (cache_set ''thread:a:16'' ''x'' (cache_store_init 2)))))) = None"
proof
  show "snd (cache_get ''thread:a:16'' (cache_set ''thread:a:16'' ''x'' (cache_store_init 2))) = Some ''x''" by code_simp
  have k: "cache_key ex_keys (ex_item 0 ''read'') (Some ''thread:a'') = Some ''thread:a:16''" by code_simp
  show "snd (cache_get ''thread:a:16'' (the (invalidate_after_side_effect [''thread:a''] (Some (cache_set ''thread:a:16'' ''x'' (cache_store_init 2)))))) = None"
    by (rule side_effect_forgets_results [OF _ _ k, of "[''thread:a'']"]) (simp_all add: invalidate_after_side_effect_def)
qed

end
