(* ===== verification/ToolTrim.thy ===== *)
theory ToolTrim
  imports ToolCache
begin

text \<open>
  What a tool's output becomes before the model sees it: \<open>trim_success\<close> and \<open>_compact_existing_artifact_read\<close> of
  \<open>src/focus_agent/capabilities/tool_execution.py\<close>. The text compaction itself (\<open>trim_tool_observation\<close> and
  \<open>_unretrievable_tool_observation\<close> of \<open>core/context\<close>, modelled in \<open>ObservationTrim\<close>), JSON, \<open>str\<close> and \<open>int\<close> are fields of the environment; the
  artifact saver changes the world.
\<close>

record budget =
  cb_observation_tokens :: int
  cb_reference_tokens :: int
  cb_chars_per_token :: int

record trim_request =
  tq_text :: string
  tq_tool :: string
  tq_call_id :: string
  tq_max :: "int option"
  tq_artifactize :: bool

record trim_env =
  tv_budget :: budget
  tv_trim :: "trim_request \<Rightarrow> string"
  tv_unretrievable :: "string \<Rightarrow> string \<Rightarrow> int \<Rightarrow> string"
  tv_loads :: "string \<Rightarrow> pyval option"
  tv_dumps :: "pyval \<Rightarrow> string"
  tv_str :: "pyval \<Rightarrow> string"
  tv_int :: "pyval \<Rightarrow> int option"

definition chars :: "budget \<Rightarrow> int \<Rightarrow> int" where
  "chars b tokens = tokens * max 1 (cb_chars_per_token b)"

section \<open>Reading an existing artifact\<close>

definition value_of :: "(string, pyval) dict \<Rightarrow> string \<Rightarrow> pyval" where
  "value_of d k = get_or d k PNone"

definition non_negative_int :: "trim_env \<Rightarrow> pyval \<Rightarrow> int \<Rightarrow> int" where
  "non_negative_int E v z = (case tv_int E v of None \<Rightarrow> z | Some n \<Rightarrow> max 0 n)"

definition str_or_empty :: "trim_env \<Rightarrow> pyval \<Rightarrow> string" where
  "str_or_empty E v = (if truthy v then py_str (tv_str E) v else [])"

record artifact_read =
  ar_id :: string
  ar_content :: string
  ar_offset :: int
  ar_total :: int
  ar_next :: "int option"

definition read_artifact :: "trim_env \<Rightarrow> string \<Rightarrow> artifact_read option" where
  "read_artifact E observation = (case tv_loads E observation of
     Some (PDict d) \<Rightarrow>
       (let v = (if truthy (value_of d ''artifact_id'') then value_of d ''artifact_id'' else value_of d ''artifact_ref'');
            i = py_strip (str_or_empty E v); content = str_or_empty E (value_of d ''content'');
            offset = non_negative_int E (value_of d ''offset'') 0;
            total = max (offset + int (length content))
              (non_negative_int E (value_of d ''total_chars'') (offset + int (length content)));
            next = (if value_of d ''next_offset'' = PNone then None
              else Some (min total (non_negative_int E (value_of d ''next_offset'') total)))
        in if i = [] then None
           else Some \<lparr>ar_id = i, ar_content = content, ar_offset = offset, ar_total = total, ar_next = next\<rparr>)
   | _ \<Rightarrow> None)"

definition output_limit :: "budget \<Rightarrow> int option \<Rightarrow> int" where
  "output_limit b max_chars = (let char_budget = max 1 (chars b (cb_observation_tokens b)) in
    case max_chars of None \<Rightarrow> char_budget | Some m \<Rightarrow> min char_budget (max 1 m))"

definition opt_int :: "int option \<Rightarrow> pyval" where
  "opt_int x = (case x of None \<Rightarrow> PNone | Some n \<Rightarrow> PInt n)"

definition next_offset :: "artifact_read \<Rightarrow> string \<Rightarrow> int option" where
  "next_offset a shown = (let shown_end = min (ar_total a) (ar_offset a + int (length shown)) in
    if shown_end < ar_total a then Some shown_end else ar_next a)"

definition render :: "trim_env \<Rightarrow> artifact_read \<Rightarrow> string \<Rightarrow> string" where
  "render E a shown = tv_dumps E (PDict [(''artifact_id'', PStr (ar_id a)), (''offset'', PInt (ar_offset a)),
     (''content'', PStr shown), (''total_chars'', PInt (ar_total a)), (''next_offset'', opt_int (next_offset a shown)),
     (''truncated'', PBool (next_offset a shown \<noteq> None))])"

definition fits :: "trim_env \<Rightarrow> int \<Rightarrow> string \<Rightarrow> bool" where
  "fits E limit candidate = (int (length candidate) \<le> limit \<and>
    tv_trim E \<lparr>tq_text = candidate, tq_tool = ''artifact_read'', tq_call_id = [], tq_max = None, tq_artifactize = False\<rparr> = candidate)"

text \<open>The binary search for the longest prefix of the content whose rendering fits.\<close>

function search_prefix :: "(nat \<Rightarrow> string) \<Rightarrow> (string \<Rightarrow> bool) \<Rightarrow> int \<Rightarrow> int \<Rightarrow> string option \<Rightarrow> string option" where
  "search_prefix candidate ok low high best =
    (if low \<le> high
     then let middle = (low + high) div 2 in
       if ok (candidate (nat middle)) then search_prefix candidate ok (middle + 1) high (Some (candidate (nat middle)))
       else search_prefix candidate ok low (middle - 1) best
     else best)"
  by pat_completeness auto

termination
  by (relation "measure (\<lambda>(c, ok, low, high, best). nat (high - low + 1))") auto

declare search_prefix.simps [simp del]

definition compact_existing_artifact_read :: "trim_env \<Rightarrow> int option \<Rightarrow> string \<Rightarrow> string option" where
  "compact_existing_artifact_read E max_chars observation = (case read_artifact E observation of
     None \<Rightarrow> None
   | Some a \<Rightarrow> search_prefix (\<lambda>n. render E a (take n (ar_content a))) (fits E (output_limit (tv_budget E) max_chars))
       0 (int (length (ar_content a))) None)"

section \<open>Trimming\<close>

type_synonym 'w saver = "string \<Rightarrow> string \<Rightarrow> string \<Rightarrow> string option \<Rightarrow> 'w \<Rightarrow> (string + string option) \<times> 'w"

record trimmed =
  tr_text :: string
  tr_runtime :: tool_args
  tr_prompt :: "string option"

definition trim_with :: "trim_env \<Rightarrow> 'w tool_input \<Rightarrow> string \<Rightarrow> string" where
  "trim_with E item observation = tv_trim E \<lparr>tq_text = observation, tq_tool = ti_name item, tq_call_id = [],
     tq_max = tm_max_chars (ti_runtime item), tq_artifactize = False\<rparr>"

definition compacted_info :: "string \<Rightarrow> string \<Rightarrow> tool_args" where
  "compacted_info observation text = [(''observation_prompt_compacted'', PBool True),
     (''observation_original_chars'', PInt (int (length observation))), (''observation_trimmed_chars'', PInt (int (length text)))]"

definition unavailable :: "trim_env \<Rightarrow> 'w tool_input \<Rightarrow> string \<Rightarrow> string \<Rightarrow> string \<Rightarrow> trimmed" where
  "unavailable E item observation text error =
    \<lparr>tr_text = tv_unretrievable E observation (ti_name item) (case tm_max_chars (ti_runtime item) of
         None \<Rightarrow> max 1 (chars (tv_budget E) (cb_observation_tokens (tv_budget E))) | Some m \<Rightarrow> m),
     tr_runtime = compacted_info observation text @ [(''observation_retrievable'', PBool False), (''observation_artifact_error'', PStr error)],
     tr_prompt = None\<rparr>"

text \<open>The reference shown in prompts once the full text is saved.\<close>

definition prompt_reference :: "trim_env \<Rightarrow> 'w tool_input \<Rightarrow> string \<Rightarrow> string" where
  "prompt_reference E item observation = (let b = tv_budget E in
    tv_trim E \<lparr>tq_text = observation, tq_tool = ti_name item, tq_call_id = ti_call_id item,
      tq_max = Some (max 160 (chars b (if ti_name item \<in> {''web_search'', ''web_fetch''} then cb_observation_tokens b else cb_reference_tokens b))),
      tq_artifactize = True\<rparr>)"

definition saved_observation :: "trim_env \<Rightarrow> 'w tool_input \<Rightarrow> string \<Rightarrow> string \<Rightarrow> string \<Rightarrow> trimmed" where
  "saved_observation E item observation text artifact =
    \<lparr>tr_text = text, tr_runtime = compacted_info observation text @
       [(''observation_retrievable'', PBool True), (''observation_artifact_id'', PStr artifact)],
     tr_prompt = Some (prompt_reference E item observation)\<rparr>"

definition trim_success :: "trim_env \<Rightarrow> 'w saver option \<Rightarrow> string option \<Rightarrow> 'w tool_input \<Rightarrow> string \<Rightarrow> 'w \<Rightarrow> trimmed \<times> 'w" where
  "trim_success E saver thread item observation w =
    (let text = trim_with E item observation in
     if text = observation then (\<lparr>tr_text = text, tr_runtime = [], tr_prompt = None\<rparr>, w)
     else if ti_name item = ''artifact_read''
       then (case compact_existing_artifact_read E (tm_max_chars (ti_runtime item)) observation of
           Some compacted \<Rightarrow> (\<lparr>tr_text = compacted,
             tr_runtime = compacted_info observation text @ [(''observation_retrievable'', PBool False), (''observation_existing_artifact'', PBool True),
               (''observation_artifact_error'', PStr ''artifact_read output was bounded in place; the existing artifact reference remains readable.'')],
             tr_prompt = None\<rparr>, w)
         | None \<Rightarrow> (unavailable E item observation text ''artifact_read output is not recursively persisted.'', w))
     else case saver of
         None \<Rightarrow> (unavailable E item observation text ''No tool-observation artifact saver is available.'', w)
       | Some save \<Rightarrow> (case save (ti_name item) (ti_call_id item) observation thread w of
           (Inl error, w') \<Rightarrow> (unavailable E item observation text error, w')
         | (Inr artifact, w') \<Rightarrow> if or_text artifact [] = []
             then (unavailable E item observation text ''Tool-observation artifact was not saved.'', w')
             else (saved_observation E item observation text (or_text artifact []), w')))"

section \<open>The search\<close>

lemma search_prefix_step:
  "low \<le> high \<Longrightarrow> ok (candidate (nat ((low + high) div 2))) \<Longrightarrow> search_prefix candidate ok low high best =
     search_prefix candidate ok ((low + high) div 2 + 1) high (Some (candidate (nat ((low + high) div 2))))"
  "low \<le> high \<Longrightarrow> \<not> ok (candidate (nat ((low + high) div 2))) \<Longrightarrow> search_prefix candidate ok low high best =
     search_prefix candidate ok low ((low + high) div 2 - 1) best"
  "high < low \<Longrightarrow> search_prefix candidate ok low high best = best"
  by (simp_all add: search_prefix.simps [of candidate ok low high] Let_def)

lemma middle_bounds: "low \<le> high \<Longrightarrow> low \<le> (low + high) div 2 \<and> (low + high) div 2 \<le> (high :: int)"
  by linarith

lemma search_prefix_sound:
  assumes "search_prefix candidate ok low high best = Some s" "0 \<le> low" "high \<le> int n"
  shows "best = Some s \<or> ok s \<and> (\<exists>m \<le> n. s = candidate m)"
  using assms
proof (induction candidate ok low high best rule: search_prefix.induct)
  case (1 candidate ok low high best)
  let ?m = "(low + high) div 2"
  show ?case
  proof (cases "low \<le> high")
    case False
    then show ?thesis using "1.prems" by (simp add: search_prefix_step)
  next
    case True
    have m: "low \<le> ?m" "?m \<le> high" using middle_bounds [OF True] by auto
    show ?thesis
    proof (cases "ok (candidate (nat ?m))")
      case ok: True
      have "search_prefix candidate ok (?m + 1) high (Some (candidate (nat ?m))) = Some s"
        using "1.prems"(1) True ok by (simp add: search_prefix_step)
      moreover have "0 \<le> ?m + 1" using m "1.prems"(2) by linarith
      ultimately have "Some (candidate (nat ?m)) = Some s \<or> ok s \<and> (\<exists>m \<le> n. s = candidate m)"
        using "1.IH"(1) [OF True refl ok] "1.prems"(3) by blast
      moreover have "nat ?m \<le> n" using m "1.prems"(3) by linarith
      ultimately show ?thesis using ok by auto
    next
      case bad: False
      have "search_prefix candidate ok low (?m - 1) best = Some s"
        using "1.prems"(1) True bad by (simp add: search_prefix_step)
      moreover have "?m - 1 \<le> int n" using m "1.prems"(3) by linarith
      ultimately show ?thesis using "1.IH"(2) [OF True refl bad] "1.prems"(2) by blast
    qed
  qed
qed

definition longest_fit :: "(nat \<Rightarrow> string) \<Rightarrow> (string \<Rightarrow> bool) \<Rightarrow> nat \<Rightarrow> string option \<Rightarrow> bool" where
  "longest_fit candidate ok n r \<longleftrightarrow> (case r of
     None \<Rightarrow> \<forall>m \<le> n. \<not> ok (candidate m)
   | Some s \<Rightarrow> \<exists>m \<le> n. s = candidate m \<and> ok s \<and> (\<forall>k. m < k \<and> k \<le> n \<longrightarrow> \<not> ok (candidate k)))"

lemma search_prefix_longest:
  assumes mono: "\<And>m k. m \<le> k \<Longrightarrow> k \<le> n \<Longrightarrow> ok (candidate k) \<Longrightarrow> ok (candidate m)"
    and "0 \<le> low" "low \<le> high + 1" "high \<le> int n" "\<forall>k. high < int k \<and> k \<le> n \<longrightarrow> \<not> ok (candidate k)"
    and "if low = 0 then best = None else best = Some (candidate (nat (low - 1))) \<and> ok (candidate (nat (low - 1)))"
  shows "longest_fit candidate ok n (search_prefix candidate ok low high best)"
  using assms
proof (induction candidate ok low high best rule: search_prefix.induct)
  case (1 candidate ok low high best)
  let ?m = "(low + high) div 2"
  show ?case
  proof (cases "low \<le> high")
    case False
    then have h: "high = low - 1" using "1.prems"(3) by simp
    show ?thesis
    proof (cases "low = 0")
      case True
      then show ?thesis using "1.prems"(5,6) h False by (simp add: longest_fit_def search_prefix_step)
    next
      case False
      then have n: "nat (low - 1) \<le> n" "int (nat (low - 1)) = high" using "1.prems"(2,4) h by auto
      then show ?thesis using "1.prems"(5,6) h False
        by (simp add: longest_fit_def search_prefix_step) (metis n(2) of_nat_less_iff)
    qed
  next
    case True
    have m: "low \<le> ?m" "?m \<le> high" "0 \<le> ?m" "int (nat ?m) = ?m" using middle_bounds [OF True] "1.prems"(2) by auto
    have mn: "nat ?m \<le> n" using m "1.prems"(4) by linarith
    show ?thesis
    proof (cases "ok (candidate (nat ?m))")
      case ok: True
      have "longest_fit candidate ok n (search_prefix candidate ok (?m + 1) high (Some (candidate (nat ?m))))"
        using "1.IH"(1) [OF True refl ok "1.prems"(1) _ _ "1.prems"(4,5)] m ok by simp
      then show ?thesis using True ok by (simp add: search_prefix_step)
    next
      case bad: False
      have b: "\<not> ok (candidate k)" if "?m - 1 < int k" "k \<le> n" for k
      proof -
        have "nat ?m \<le> k" using that m by linarith
        then show ?thesis using "1.prems"(1) [OF _ that(2)] bad by blast
      qed
      have "longest_fit candidate ok n (search_prefix candidate ok low (?m - 1) best)"
        using "1.IH"(2) [OF True refl bad "1.prems"(1,2)] m "1.prems"(4,6) b by simp
      then show ?thesis using True bad by (simp add: search_prefix_step)
    qed
  qed
qed

section \<open>Properties\<close>

text \<open>Reading an artifact back stays within the bounds: what is shown is the rendering of a prefix of the
  artifact's content and fits the limit and the budget, and when shorter prefixes of a fitting one fit as well it
  is the longest prefix that fits, nothing being shown only if none does.\<close>

lemma artifact_read_longest_prefix:
  assumes "read_artifact E observation = Some a"
  shows "(compact_existing_artifact_read E max_chars observation = Some s \<longrightarrow>
      fits E (output_limit (tv_budget E) max_chars) s \<and> (\<exists>m \<le> length (ar_content a). s = render E a (take m (ar_content a)))) \<and>
    ((\<forall>k \<le> length (ar_content a). \<forall>m \<le> k. fits E (output_limit (tv_budget E) max_chars) (render E a (take k (ar_content a))) \<longrightarrow>
        fits E (output_limit (tv_budget E) max_chars) (render E a (take m (ar_content a)))) \<longrightarrow>
      longest_fit (\<lambda>n. render E a (take n (ar_content a))) (fits E (output_limit (tv_budget E) max_chars)) (length (ar_content a))
        (compact_existing_artifact_read E max_chars observation))"
proof -
  let ?ok = "fits E (output_limit (tv_budget E) max_chars)" and ?c = "\<lambda>n. render E a (take n (ar_content a))"
  have e: "compact_existing_artifact_read E max_chars observation = search_prefix ?c ?ok 0 (int (length (ar_content a))) None"
    using assms by (simp add: compact_existing_artifact_read_def)
  show ?thesis unfolding e
  proof (intro conjI impI)
    assume "search_prefix ?c ?ok 0 (int (length (ar_content a))) None = Some s"
    from search_prefix_sound [OF this order_refl order_refl]
    show "?ok s" "\<exists>m \<le> length (ar_content a). s = ?c m" by auto
  next
    assume m: "\<forall>k \<le> length (ar_content a). \<forall>m \<le> k. ?ok (?c k) \<longrightarrow> ?ok (?c m)"
    show "longest_fit ?c ?ok (length (ar_content a)) (search_prefix ?c ?ok 0 (int (length (ar_content a))) None)"
      by (rule search_prefix_longest) (use m in auto)
  qed
qed

text \<open>Nothing is called retrievable that was not saved: a trimmed output says it can be reread exactly when the
  saver was called with the whole output and returned a nonempty id, and then it names that id; an output that
  already fits is passed on unchanged and the world is left alone.\<close>

lemma retrievable_only_if_saved:
  assumes "trim_success E saver thread item observation w = (t, w')"
  shows "(map_of (tr_runtime t) ''observation_retrievable'' = Some (PBool True)) =
      (trim_with E item observation \<noteq> observation \<and> ti_name item \<noteq> ''artifact_read'' \<and>
       (\<exists>save artifact. saver = Some save \<and> save (ti_name item) (ti_call_id item) observation thread w = (Inr (Some artifact), w') \<and>
          artifact \<noteq> [] \<and> map_of (tr_runtime t) ''observation_artifact_id'' = Some (PStr artifact))) \<and>
    (trim_with E item observation = observation \<longrightarrow> tr_text t = observation \<and> tr_runtime t = [] \<and> w' = w)"
  using assms
  by (auto simp: trim_success_def Let_def unavailable_def saved_observation_def compacted_info_def or_text_def
      split: if_splits option.splits prod.splits sum.splits)

definition ex_trim :: "trim_env" where
  "ex_trim = \<lparr>tv_budget = \<lparr>cb_observation_tokens = 3, cb_reference_tokens = 2, cb_chars_per_token = 1\<rparr>,
     tv_trim = (\<lambda>q. take 3 (tq_text q)), tv_unretrievable = (\<lambda>text tool n. ''cut''),
     tv_loads = (\<lambda>s. Some (PDict [(''artifact_id'', PStr ''a''), (''content'', PStr s)])),
     tv_dumps = (\<lambda>v. case v of PDict d \<Rightarrow> (case value_of d ''content'' of PStr s \<Rightarrow> s | _ \<Rightarrow> []) | _ \<Rightarrow> []),
     tv_str = (\<lambda>v. []), tv_int = (\<lambda>v. case v of PInt n \<Rightarrow> Some n | _ \<Rightarrow> None)\<rparr>"

lemma artifact_read_longest_prefix_witness:
  "compact_existing_artifact_read ex_trim None ''hello'' = Some ''hel'' \<and>
   fits ex_trim (output_limit (tv_budget ex_trim) None) ''hel''"
proof
  show s: "compact_existing_artifact_read ex_trim None ''hello'' = Some ''hel''" by code_simp
  obtain a where a: "read_artifact ex_trim ''hello'' = Some a"
    using s by (cases "read_artifact ex_trim ''hello''") (simp_all add: compact_existing_artifact_read_def)
  show "fits ex_trim (output_limit (tv_budget ex_trim) None) ''hel''"
    using artifact_read_longest_prefix [OF a, of None "''hel''"] s by blast
qed

lemma retrievable_only_if_saved_witness:
  "map_of (tr_runtime (fst (trim_success ex_trim (Some (\<lambda>tool call text thread w. (Inr (Some ''id''), w + 1))) None (ex_item 0 ''read'') ''hello'' 0)))
     ''observation_retrievable'' = Some (PBool True)"
proof -
  let ?save = "\<lambda>tool call text thread w :: nat. (Inr (Some ''id''), w + 1)"
  let ?r = "trim_success ex_trim (Some ?save) None (ex_item 0 ''read'') ''hello'' 0"
  have t: "?r = (fst ?r, Suc 0)" "map_of (tr_runtime (fst ?r)) ''observation_artifact_id'' = Some (PStr ''id'')"
    "trim_with ex_trim (ex_item 0 ''read'') ''hello'' \<noteq> ''hello''" "ti_name (ex_item 0 ''read'') \<noteq> ''artifact_read''" by code_simp+
  show ?thesis using retrievable_only_if_saved [OF t(1)] t(2-) by simp
qed

end
