(* ===== verification/ToolRuntime.thy ===== *)
theory ToolRuntime
  imports ToolTrim
begin

text \<open>
  Running tool calls: \<open>tool_messages.py\<close>, \<open>tool_invocation.py\<close>, \<open>tool_sandbox.py\<close>, \<open>tool_execution.py\<close>,
  \<open>tool_parallel.py\<close> and \<open>tool_runtime.py\<close> of \<open>src/focus_agent/capabilities/\<close>. One execution is a sequence of
  phases that end where the code takes and releases the lock of the cache or of a semaphore, or calls the tool, so
  the executions of a parallel batch interleave between phases; a schedule says which one goes on. What a thread
  pool and the clock decide (whether a tool with a timeout ends in time) is a function of the call and the world.
\<close>

section \<open>Messages\<close>

record tool_message =
  tg_content :: string
  tg_call_id :: string
  tg_status :: string
  tg_runtime :: tool_args
  tg_tool :: string
  tg_prompt :: "string option"

record tool_result =
  tt_index :: nat
  tt_message :: tool_message
  tt_cache_hit :: bool

record tool_event =
  te_index :: nat
  te_tool :: string
  te_stage :: string
  te_payload :: tool_args

datatype fate = InTime | Late | Queued | Active

record 'w run_env =
  re_keys :: key_env
  re_trim :: trim_env
  re_saver :: "'w saver option"
  re_thread :: "string option"
  re_error_json :: "tool_args \<Rightarrow> string"
  re_seconds :: "real \<Rightarrow> string"
  re_fate :: "'w tool_input \<Rightarrow> 'w \<Rightarrow> fate"
  re_trace :: "'w tool_input \<Rightarrow> tool_args"

definition build_tool_message :: "string \<Rightarrow> string \<Rightarrow> string \<Rightarrow> string option \<Rightarrow> string \<Rightarrow> tool_args \<Rightarrow> tool_message" where
  "build_tool_message content call_id tool prompt status info = \<lparr>tg_content = content, tg_call_id = call_id,
     tg_status = status, tg_runtime = info, tg_tool = tool, tg_prompt = (if or_text prompt [] = [] then None else prompt)\<rparr>"

definition build_tool_error_message :: "(tool_args \<Rightarrow> string) \<Rightarrow> string \<Rightarrow> string \<Rightarrow> tool_args \<Rightarrow> string \<Rightarrow> tool_args \<Rightarrow> tool_message" where
  "build_tool_error_message json call_id tool args error info =
    (let merged = update_dict [(''cache_hit'', PBool False), (''fallback_used'', PBool False)] info in
     build_tool_message (json [(''status'', PStr ''error''), (''tool'', PStr tool), (''args'', PDict args), (''error'', PStr error),
         (''runtime'', PDict merged)]) call_id tool None ''error'' merged)"

definition observation_message_status :: "trim_env \<Rightarrow> string \<Rightarrow> string" where
  "observation_message_status E observation = (let text = dropWhile py_space observation in
     if text = [] \<or> hd text \<noteq> CHR ''{'' then ''success''
     else case tv_loads E text of
       Some (PDict d) \<Rightarrow> if py_lower (py_strip (str_or_empty E (value_of d ''status''))) = ''error'' then ''error'' else ''success''
     | _ \<Rightarrow> ''success'')"

definition copy_result_for_tool_call :: "tool_result \<Rightarrow> 'w tool_input \<Rightarrow> bool \<Rightarrow> tool_result" where
  "copy_result_for_tool_call source item hit =
    (let info = AList.update ''deduplicated'' (PBool True) (tg_runtime (tt_message source));
         info = (if hit then AList.update ''cache_hit'' (PBool True) info else info) in
     \<lparr>tt_index = ti_index item,
      tt_message = build_tool_message (tg_content (tt_message source)) (ti_call_id item) (ti_name item)
        (tg_prompt (tt_message source)) (tg_status (tt_message source)) info,
      tt_cache_hit = hit\<rparr>)"

text \<open>\<open>setdefault\<close> for each value that is not \<open>None\<close>\<close>

definition annotate_tool_result_runtime :: "tool_args \<Rightarrow> tool_result \<Rightarrow> tool_result" where
  "annotate_tool_result_runtime info r =
    r\<lparr>tt_message := (tt_message r)\<lparr>tg_runtime := foldl (\<lambda>d (k, v). if v = PNone \<or> k \<in> set (keys d) then d else AList.update k v d)
      (tg_runtime (tt_message r)) info\<rparr>\<rparr>"

section \<open>Exceptions of a call\<close>

definition exc_text :: "(real \<Rightarrow> string) \<Rightarrow> tool_exc \<Rightarrow> string" where
  "exc_text seconds e = (case e of
     ParameterValidationError tool err \<Rightarrow> ''Tool '' @ [char_of (39 :: nat)] @ tool @ [char_of (39 :: nat)] @ '' parameter validation failed: '' @ err
   | InvocationTimeoutError tool s \<Rightarrow> ''Tool '' @ [char_of (39 :: nat)] @ tool @ [char_of (39 :: nat)] @ '' timed out after '' @ seconds s @ ''s.''
   | ExecutionTimeout m \<Rightarrow> m | ExecutionDenied m \<Rightarrow> m | FutureCancelledError m \<Rightarrow> m | OtherError m \<Rightarrow> m)"

fun should_bypass_fallback :: "tool_exc \<Rightarrow> bool" where
  "should_bypass_fallback (OtherError m) = False"
| "should_bypass_fallback e = True"

definition error_stage :: "tool_exc \<Rightarrow> string" where
  "error_stage e = (case e of ParameterValidationError t m \<Rightarrow> ''validation_error'' | InvocationTimeoutError t s \<Rightarrow> ''timeout''
   | ExecutionTimeout m \<Rightarrow> ''timeout'' | ExecutionDenied m \<Rightarrow> ''denied'' | FutureCancelledError m \<Rightarrow> ''cancelled'' | OtherError m \<Rightarrow> ''error'')"

definition error_event_payload :: "tool_exc \<Rightarrow> tool_args" where
  "error_event_payload e = (case e of ParameterValidationError t m \<Rightarrow> [(''validation_error'', PStr m)]
   | InvocationTimeoutError t s \<Rightarrow> [(''timeout_seconds'', PFloat s)] | _ \<Rightarrow> [])"

definition batch_info :: "nat option \<Rightarrow> (string \<times> pyval)" where
  "batch_info batch = (''parallel_batch_size'', case batch of None \<Rightarrow> PNone | Some n \<Rightarrow> if 1 < n then PInt (int n) else PNone)"

definition runtime_info_for_error :: "tool_exc \<Rightarrow> nat option \<Rightarrow> tool_args" where
  "runtime_info_for_error e batch = [(''cache_hit'', PBool False), (''fallback_used'', PBool False), batch_info batch] @
    (case e of
       InvocationTimeoutError t s \<Rightarrow> [(''timed_out'', PBool True), (''timeout_seconds'', PFloat s)]
     | ExecutionTimeout m \<Rightarrow> [(''timed_out'', PBool True), (''timeout_seconds'', PNone)]
     | FutureCancelledError m \<Rightarrow> [(''cancelled'', PBool True)]
     | ParameterValidationError t m \<Rightarrow> [(''validation_failed'', PBool True), (''validation_error'', PStr m)]
     | _ \<Rightarrow> [])"

definition effective_timeout :: "'w tool_meta \<Rightarrow> real option" where
  "effective_timeout m = (if tm_side_effect m then None else case tm_timeout m of None \<Rightarrow> None | Some t \<Rightarrow> if t \<le> 0 then None else Some t)"

section \<open>State\<close>

record 'w runtime =
  rt_cache :: "cache_store option"
  rt_world :: 'w
  rt_events :: "tool_event list"
  rt_permits :: "(string, nat) dict"
  rt_late :: "(string \<times> 'w tool_input) list"
  rt_timeout_active :: nat
  rt_timeout_total :: nat

text \<open>\<open>rt_late\<close> holds the calls that timed out and still run, with the semaphore they hold.\<close>

definition emit_event :: "'w tool_input \<Rightarrow> string \<Rightarrow> tool_args \<Rightarrow> 'w runtime \<Rightarrow> 'w runtime" where
  "emit_event item stage payload s = s\<lparr>rt_events := rt_events s @ [\<lparr>te_index = ti_index item, te_tool = ti_name item, te_stage = stage, te_payload = payload\<rparr>]\<rparr>"

text \<open>Semaphores: the name and the number of permits of a tool's semaphore.\<close>

definition semaphore_size :: "'w tool_input \<Rightarrow> nat" where
  "semaphore_size item = (let n = tm_max_concurrent (ti_runtime item) in max 1 (nat (if n = 0 then 1 else n)))"

definition semaphore_key :: "'w tool_input \<Rightarrow> string" where
  "semaphore_key item = ti_name item @ '':'' @ show_nat (semaphore_size item)"

definition permits :: "'w tool_input \<Rightarrow> 'w runtime \<Rightarrow> nat" where
  "permits item s = get_or (rt_permits s) (semaphore_key item) (semaphore_size item)"

definition acquire :: "'w tool_input \<Rightarrow> 'w runtime \<Rightarrow> 'w runtime option" where
  "acquire item s = (if permits item s = 0 then None
     else Some (s\<lparr>rt_permits := AList.update (semaphore_key item) (permits item s - 1) (rt_permits s)\<rparr>))"

definition release :: "'w tool_input \<Rightarrow> 'w runtime \<Rightarrow> 'w runtime" where
  "release item s = s\<lparr>rt_permits := AList.update (semaphore_key item) (permits item s + 1) (rt_permits s)\<rparr>"

definition mark_timed_out_active :: "'w runtime \<Rightarrow> 'w runtime" where
  "mark_timed_out_active s = s\<lparr>rt_timeout_active := rt_timeout_active s + 1, rt_timeout_total := rt_timeout_total s + 1\<rparr>"

definition mark_timed_out_done :: "'w runtime \<Rightarrow> 'w runtime" where
  "mark_timed_out_done s = s\<lparr>rt_timeout_active := rt_timeout_active s - 1\<rparr>"

definition mark_timed_out_cancelled :: "'w runtime \<Rightarrow> 'w runtime" where
  "mark_timed_out_cancelled s = s\<lparr>rt_timeout_total := rt_timeout_total s + 1\<rparr>"

section \<open>One execution\<close>

datatype phase =
    Ready
  | Cached string
  | Invoking "string option"
  | Sandboxed "string option" real
  | Storing "string option" string
  | Done tool_result

text \<open>The result of a call: the message, with the trace's runtime facts added.\<close>

definition finished :: "'w run_env \<Rightarrow> 'w tool_input \<Rightarrow> bool \<Rightarrow> tool_message \<Rightarrow> phase" where
  "finished E item hit m = Done (annotate_tool_result_runtime (re_trace E item) \<lparr>tt_index = ti_index item, tt_message = m, tt_cache_hit = hit\<rparr>)"

text \<open>Trimming, with its effect on the world.\<close>

definition trim_in :: "'w run_env \<Rightarrow> 'w tool_input \<Rightarrow> string \<Rightarrow> 'w runtime \<Rightarrow> trimmed \<times> 'w runtime" where
  "trim_in E item text s = (case trim_success (re_trim E) (re_saver E) (re_thread E) item text (rt_world s) of
     (t, w) \<Rightarrow> (t, s\<lparr>rt_world := w\<rparr>))"

definition success_message :: "'w run_env \<Rightarrow> 'w tool_input \<Rightarrow> string \<Rightarrow> trimmed \<Rightarrow> tool_args \<Rightarrow> tool_message" where
  "success_message E item text t info = build_tool_message (tr_text t) (ti_call_id item) (ti_name item) (tr_prompt t)
     (observation_message_status (re_trim E) text) (info @ tr_runtime t)"

definition error_message :: "'w run_env \<Rightarrow> 'w tool_input \<Rightarrow> nat option \<Rightarrow> tool_exc \<Rightarrow> tool_message" where
  "error_message E item batch e = build_tool_error_message (re_error_json E) (ti_call_id item) (ti_name item) (ti_args item)
     (exc_text (re_seconds E) e) (runtime_info_for_error e batch)"

definition fail_with :: "'w run_env \<Rightarrow> 'w tool_input \<Rightarrow> nat option \<Rightarrow> tool_exc \<Rightarrow> 'w runtime \<Rightarrow> phase \<times> 'w runtime" where
  "fail_with E item batch e s =
    (finished E item False (error_message E item batch e),
     emit_event item (error_stage e) ((''error'', PStr (exc_text (re_seconds E) e)) # error_event_payload e) s)"

definition opt_str :: "string option \<Rightarrow> pyval" where
  "opt_str x = (case x of None \<Rightarrow> PNone | Some s \<Rightarrow> PStr s)"

definition side_effect_runtime_info :: "'w tool_input \<Rightarrow> tool_args" where
  "side_effect_runtime_info item = (let m = ti_runtime item in
    if \<not> tm_side_effect m then []
    else (''side_effect_serialized'', PBool True) #
      (if or_text (tm_side_effect_kind m) [] = [] then [] else [(''side_effect_kind'', opt_str (tm_side_effect_kind m))]))"

text \<open>The handler of an exception of the call itself: the fallback, if there is one and the exception allows it.\<close>

definition handle_failure :: "'w run_env \<Rightarrow> 'w tool_input \<Rightarrow> nat option \<Rightarrow> tool_exc \<Rightarrow> 'w runtime \<Rightarrow> phase \<times> 'w runtime" where
  "handle_failure E item batch e s = (case tm_fallback (ti_runtime item) of
     None \<Rightarrow> fail_with E item batch e s
   | Some fallback \<Rightarrow>
       if should_bypass_fallback e then fail_with E item batch e s
       else
         let group = (''fallback_group'', opt_str (tm_fallback_group (ti_runtime item)));
             s1 = emit_event item ''fallback_attempt'' [group, (''error'', PStr (exc_text (re_seconds E) e))] s in
         case fallback e (ti_args item) (rt_world s1) of
           (Inl e2, w) \<Rightarrow> fail_with E item batch e2
              (emit_event item ''fallback_error'' [group, (''error'', PStr (exc_text (re_seconds E) e2))] (s1\<lparr>rt_world := w\<rparr>))
         | (Inr v, w) \<Rightarrow>
             let text = py_str (tv_str (re_trim E)) v; (t, s2) = trim_in E item text (s1\<lparr>rt_world := w\<rparr>) in
             (finished E item False (success_message E item text t
                [(''cache_hit'', PBool False), (''fallback_used'', PBool True), group, batch_info batch]),
              emit_event item ''fallback_success'' [group] s2))"

text \<open>Before the call: validation, then the first of two lookups in the cache.\<close>

definition ready_step :: "'w run_env \<Rightarrow> string option \<Rightarrow> nat option \<Rightarrow> 'w tool_input \<Rightarrow> 'w runtime \<Rightarrow> phase \<times> 'w runtime" where
  "ready_step E scope batch item s0 =
    (let s = (if tm_side_effect (ti_runtime item)
           then emit_event item ''serialized_side_effect'' [(''side_effect_kind'', opt_str (tm_side_effect_kind (ti_runtime item)))] s0 else s0);
         invalid = (case tm_validator (ti_runtime item) of None \<Rightarrow> None | Some check \<Rightarrow> check (ti_args item)) in
     case invalid of
       Some e \<Rightarrow> fail_with E item batch (ParameterValidationError (ti_name item) (exc_text (re_seconds E) e)) s
     | None \<Rightarrow> (case (cache_key (re_keys E) item scope, rt_cache s) of
         (Some key, Some c) \<Rightarrow> (case cache_get key c of
             (c', None) \<Rightarrow> (Invoking (Some key), s\<lparr>rt_cache := Some c'\<rparr>)
           | (c', Some v) \<Rightarrow> (Cached key, s\<lparr>rt_cache := Some c'\<rparr>))
       | (k, c) \<Rightarrow> (Invoking k, s)))"

text \<open>The second lookup: \<open>cache_store.get(item_cache_key) or ""\<close>.\<close>

definition cached_step :: "'w run_env \<Rightarrow> string option \<Rightarrow> nat option \<Rightarrow> 'w tool_input \<Rightarrow> string \<Rightarrow> 'w runtime \<Rightarrow> phase \<times> 'w runtime" where
  "cached_step E scope batch item key s =
    (let (c, v) = (case rt_cache s of None \<Rightarrow> (None, None) | Some c0 \<Rightarrow> (case cache_get key c0 of (c1, v) \<Rightarrow> (Some c1, v)));
         text = or_text v []; (t, s1) = trim_in E item text (s\<lparr>rt_cache := c\<rparr>) in
     (finished E item True (success_message E item text t
        [(''cache_hit'', PBool True), (''fallback_used'', PBool False), batch_info batch]),
      emit_event item ''cache_hit'' [(''cache_scope'', PStr (scope_or_default scope))] s1))"

definition call_tool :: "'w tool_input \<Rightarrow> 'w runtime \<Rightarrow> (tool_exc + pyval) \<times> 'w runtime" where
  "call_tool item s = (case ti_invoke item (ti_args item) (rt_world s) of (r, w) \<Rightarrow> (r, s\<lparr>rt_world := w\<rparr>))"

definition after_call :: "'w run_env \<Rightarrow> nat option \<Rightarrow> 'w tool_input \<Rightarrow> string option \<Rightarrow> (tool_exc + pyval) \<Rightarrow> 'w runtime \<Rightarrow> phase \<times> 'w runtime" where
  "after_call E batch item key r s = (case r of
     Inl e \<Rightarrow> handle_failure E item batch e s
   | Inr v \<Rightarrow> (Storing key (py_str (tv_str (re_trim E)) v), s))"

definition invoke_step :: "'w run_env \<Rightarrow> nat option \<Rightarrow> 'w tool_input \<Rightarrow> string option \<Rightarrow> 'w runtime \<Rightarrow> phase \<times> 'w runtime" where
  "invoke_step E batch item key s0 =
    (let s = emit_event item ''invoke'' [] s0 in
     case effective_timeout (ti_runtime item) of
       None \<Rightarrow> (case call_tool item s of (r, s1) \<Rightarrow> after_call E batch item key r s1)
     | Some t \<Rightarrow> (case acquire item s of
         None \<Rightarrow> handle_failure E item batch (ExecutionDenied (''Tool '' @ ti_name item @ '' exceeded concurrency limit.'')) s
       | Some s1 \<Rightarrow> (Sandboxed key t, s1)))"

text \<open>
  Waiting for the sandboxed call. \<open>Late\<close> is a call that ends between the time-out and the \<open>finally\<close> block: the done
  callback releases the semaphore at once, and the block releases it again.
\<close>

definition sandbox_step :: "'w run_env \<Rightarrow> nat option \<Rightarrow> 'w tool_input \<Rightarrow> string option \<Rightarrow> real \<Rightarrow> 'w runtime \<Rightarrow> phase \<times> 'w runtime" where
  "sandbox_step E batch item key t s =
    (let timeout = InvocationTimeoutError (ti_name item) t in
     case re_fate E item (rt_world s) of
       InTime \<Rightarrow> (case call_tool item s of (r, s1) \<Rightarrow> after_call E batch item key r (release item s1))
     | Queued \<Rightarrow> handle_failure E item batch timeout (mark_timed_out_cancelled (release item s))
     | Active \<Rightarrow> handle_failure E item batch timeout
         (mark_timed_out_active (s\<lparr>rt_late := rt_late s @ [(semaphore_key item, item)]\<rparr>))
     | Late \<Rightarrow> (case call_tool item s of (r, s1) \<Rightarrow> handle_failure E item batch timeout
         (mark_timed_out_done (mark_timed_out_active (release item (release item s1))))))"

definition store_step :: "'w run_env \<Rightarrow> nat option \<Rightarrow> 'w tool_input \<Rightarrow> string option \<Rightarrow> string \<Rightarrow> 'w runtime \<Rightarrow> phase \<times> 'w runtime" where
  "store_step E batch item key text s =
    (let c = (case (key, rt_cache s) of (Some k, Some c) \<Rightarrow> Some (cache_set k text c) | (k, c) \<Rightarrow> c);
         (t, s1) = trim_in E item text (s\<lparr>rt_cache := c\<rparr>) in
     (finished E item False (success_message E item text t
        ([(''cache_hit'', PBool False), (''fallback_used'', PBool False), batch_info batch] @ side_effect_runtime_info item)), s1))"

fun phase_step :: "'w run_env \<Rightarrow> string option \<Rightarrow> nat option \<Rightarrow> 'w tool_input \<Rightarrow> phase \<Rightarrow> 'w runtime \<Rightarrow> phase \<times> 'w runtime" where
  "phase_step E scope batch item Ready s = ready_step E scope batch item s"
| "phase_step E scope batch item (Cached key) s = cached_step E scope batch item key s"
| "phase_step E scope batch item (Invoking key) s = invoke_step E batch item key s"
| "phase_step E scope batch item (Sandboxed key t) s = sandbox_step E batch item key t s"
| "phase_step E scope batch item (Storing key text) s = store_step E batch item key text s"
| "phase_step E scope batch item (Done r) s = (Done r, s)"

fun rank :: "phase \<Rightarrow> nat" where
  "rank Ready = 4" | "rank (Invoking k) = 3" | "rank (Sandboxed k t) = 2"
| "rank (Cached k) = 1" | "rank (Storing k x) = 1" | "rank (Done r) = 0"

lemma fail_with_rank [simp]: "rank (fst (fail_with E item batch e s)) = 0"
  by (simp add: fail_with_def finished_def)

lemma handle_failure_rank [simp]: "rank (fst (handle_failure E item batch e s)) = 0"
  by (simp add: handle_failure_def finished_def Let_def split: option.split prod.split sum.split)

lemma after_call_rank: "rank (fst (after_call E batch item key r s)) \<le> 1"
  by (simp add: after_call_def split: sum.split)

lemma phase_rank:
  assumes "rank p \<noteq> 0"
  shows "rank (fst (phase_step E scope batch item p s)) < rank p"
proof (cases p)
  case Ready
  then show ?thesis by (simp add: ready_step_def Let_def split: option.split prod.split)
next
  case (Cached key)
  then show ?thesis by (simp add: cached_step_def finished_def Let_def split: option.split prod.split)
next
  case (Invoking key)
  have "rank (fst (after_call E batch item key r s1)) < 3" for r s1
    using after_call_rank [of E batch item key r s1] by simp
  then show ?thesis using Invoking by (simp add: invoke_step_def Let_def split: option.split prod.split)
next
  case (Sandboxed key t)
  have "rank (fst (after_call E batch item key r s1)) < 2" for r s1
    using after_call_rank [of E batch item key r s1] by simp
  then show ?thesis using Sandboxed by (simp add: sandbox_step_def Let_def split: fate.split prod.split)
next
  case (Storing key x)
  then show ?thesis by (simp add: store_step_def finished_def Let_def split: option.split prod.split)
next
  case (Done r)
  then show ?thesis using assms by simp
qed

text \<open>The phases of \<open>execute_single\<close>, one after the other.\<close>

definition result_of :: "phase \<Rightarrow> tool_result option" where
  "result_of p = (case p of Done r \<Rightarrow> Some r | _ \<Rightarrow> None)"

lemma result_of_None: "result_of p = None \<longleftrightarrow> rank p \<noteq> 0"
  by (cases p) (simp_all add: result_of_def)

function run_phases :: "'w run_env \<Rightarrow> string option \<Rightarrow> nat option \<Rightarrow> 'w tool_input \<Rightarrow> phase \<Rightarrow> 'w runtime \<Rightarrow> tool_result \<times> 'w runtime" where
  "run_phases E scope batch item p s = (case result_of p of
     Some r \<Rightarrow> (r, s)
   | None \<Rightarrow> (let q = phase_step E scope batch item p s in run_phases E scope batch item (fst q) (snd q)))"
  by pat_completeness auto

termination
  by (relation "measure (\<lambda>(E, scope, batch, item, p, s). rank p)") (simp_all add: result_of_None phase_rank split_beta)

declare run_phases.simps [simp del]

definition execute_single :: "'w run_env \<Rightarrow> string option \<Rightarrow> nat option \<Rightarrow> 'w tool_input \<Rightarrow> 'w runtime \<Rightarrow> tool_result \<times> 'w runtime" where
  "execute_single E scope batch item s = run_phases E scope batch item Ready s"

section \<open>What an execution reports\<close>

definition is_invoke :: "tool_event \<Rightarrow> bool" where
  "is_invoke e = (te_stage e = ''invoke'')"

text \<open>The events of one call, \<open>n\<close> of them invocations, were added.\<close>

definition extends :: "'w tool_input \<Rightarrow> nat \<Rightarrow> 'w runtime \<Rightarrow> 'w runtime \<Rightarrow> bool" where
  "extends item n s s' \<longleftrightarrow> (\<exists>ev. rt_events s' = rt_events s @ ev \<and> list_all (\<lambda>e. te_index e = ti_index item) ev \<and>
     length (filter is_invoke ev) = n)"

named_theorems extends_intros \<open>steps of a call that add events\<close>

lemma extends_same: "rt_events s' = rt_events s \<Longrightarrow> extends item 0 s s'"
  unfolding extends_def by (intro exI [of _ "[]"]) simp

lemma extends_trans: "extends item n s s1 \<Longrightarrow> extends item m s1 s2 \<Longrightarrow> extends item (n + m) s s2"
  unfolding extends_def by (elim exE conjE, rename_tac a b, rule_tac x = "a @ b" in exI) simp

lemma extends_trans0: "extends item 0 s s1 \<Longrightarrow> extends item m s1 s2 \<Longrightarrow> extends item m s s2"
  using extends_trans [of item 0 s s1 m s2] by simp

lemma extends_then0: "extends item m s s1 \<Longrightarrow> extends item 0 s1 s2 \<Longrightarrow> extends item m s s2"
  using extends_trans [of item m s s1 0 s2] by simp

lemma extends_emit: "extends item (if stage = ''invoke'' then 1 else 0) s (emit_event item stage payload s)"
  unfolding extends_def emit_event_def
  by (intro exI [of _ "[\<lparr>te_index = ti_index item, te_tool = ti_name item, te_stage = stage, te_payload = payload\<rparr>]"]) (simp add: is_invoke_def)

lemma extends_emit0: "extends item 0 s s1 \<Longrightarrow> stage \<noteq> ''invoke'' \<Longrightarrow> extends item 0 s (emit_event item stage payload s1)"
  using extends_then0 extends_emit [of item stage s1 payload] by fastforce

lemma emit_fields [simp]: "rt_cache (emit_event item stage p s) = rt_cache s" "rt_world (emit_event item stage p s) = rt_world s"
  "rt_permits (emit_event item stage p s) = rt_permits s" "rt_late (emit_event item stage p s) = rt_late s"
  by (simp_all add: emit_event_def)

lemma permit_fields [simp]: "rt_events (release item s) = rt_events s" "rt_cache (release item s) = rt_cache s"
  "rt_events (mark_timed_out_active s) = rt_events s" "rt_events (mark_timed_out_done s) = rt_events s"
  "rt_events (mark_timed_out_cancelled s) = rt_events s" "rt_cache (mark_timed_out_active s) = rt_cache s"
  "rt_cache (mark_timed_out_done s) = rt_cache s" "rt_cache (mark_timed_out_cancelled s) = rt_cache s"
  by (auto simp: release_def mark_timed_out_active_def mark_timed_out_done_def mark_timed_out_cancelled_def split: if_splits)

lemma acquire_fields: "acquire item s = Some s1 \<Longrightarrow> rt_events s1 = rt_events s \<and> rt_cache s1 = rt_cache s \<and> rt_late s1 = rt_late s"
  unfolding acquire_def by (cases "permits item s = 0") auto

lemma trim_in_fields [simp]: "rt_events (snd (trim_in E item x s)) = rt_events s" "rt_cache (snd (trim_in E item x s)) = rt_cache s"
  "rt_permits (snd (trim_in E item x s)) = rt_permits s" "rt_late (snd (trim_in E item x s)) = rt_late s"
  by (simp_all add: trim_in_def split: prod.split)

lemma call_tool_fields [simp]: "rt_events (snd (call_tool item s)) = rt_events s" "rt_cache (snd (call_tool item s)) = rt_cache s"
  "rt_permits (snd (call_tool item s)) = rt_permits s" "rt_late (snd (call_tool item s)) = rt_late s"
  by (simp_all add: call_tool_def split: prod.split)

definition answers :: "'w tool_input \<Rightarrow> tool_result \<Rightarrow> bool" where
  "answers item r \<longleftrightarrow> tt_index r = ti_index item \<and> tg_call_id (tt_message r) = ti_call_id item \<and> tg_tool (tt_message r) = ti_name item"

text \<open>A step that ends in a result ends in the call's own, and leaves the cache or stores into it.\<close>

definition sound_phase :: "'w tool_input \<Rightarrow> phase \<Rightarrow> bool" where
  "sound_phase item p \<longleftrightarrow> (\<forall>r. p = Done r \<longrightarrow> answers item r)"

lemma sound_finished [simp]: "tg_call_id m = ti_call_id item \<Longrightarrow> tg_tool m = ti_name item \<Longrightarrow> sound_phase item (finished E item hit m)"
  by (simp add: sound_phase_def finished_def answers_def annotate_tool_result_runtime_def)

lemma message_fields [simp]: "tg_call_id (success_message E item x t i) = ti_call_id item" "tg_tool (success_message E item x t i) = ti_name item"
  "tg_call_id (error_message E item b e) = ti_call_id item" "tg_tool (error_message E item b e) = ti_name item"
  by (simp_all add: success_message_def error_message_def build_tool_error_message_def build_tool_message_def Let_def)

definition step_ok :: "'w tool_input \<Rightarrow> nat \<Rightarrow> 'w runtime \<Rightarrow> phase \<times> 'w runtime \<Rightarrow> bool" where
  "step_ok item n s q \<longleftrightarrow> extends item n s (snd q) \<and> sound_phase item (fst q)"

lemma fail_with_ok: "extends item n s s1 \<Longrightarrow> step_ok item n s (fail_with E item batch e s1)"
proof -
  assume a: "extends item n s s1"
  have "error_stage e \<noteq> ''invoke''" by (simp add: error_stage_def split: tool_exc.split)
  then have "extends item 0 s1 (emit_event item (error_stage e) p s1)" for p using extends_emit0 [OF extends_same [OF refl]] by blast
  then show ?thesis using extends_then0 [OF a] by (simp add: step_ok_def fail_with_def)
qed

lemma handle_failure_ok:
  assumes "extends item n s s0"
  shows "step_ok item n s (handle_failure E item batch e s0)"
proof (cases "tm_fallback (ti_runtime item)")
  case None
  then show ?thesis using fail_with_ok [OF assms] by (simp add: handle_failure_def)
next
  case (Some f)
  show ?thesis
  proof (cases "should_bypass_fallback e")
    case True
    then show ?thesis using fail_with_ok [OF assms] Some by (simp add: handle_failure_def)
  next
    case False
    let ?g = "(''fallback_group'', opt_str (tm_fallback_group (ti_runtime item)))"
    let ?s1 = "emit_event item ''fallback_attempt'' [?g, (''error'', PStr (exc_text (re_seconds E) e))] s0"
    have x1: "extends item n s ?s1" by (rule extends_then0 [OF assms extends_emit0 [OF extends_same [OF refl]]]) simp
    obtain r w where f: "f e (ti_args item) (rt_world ?s1) = (r, w)" by fastforce
    have x2: "extends item n s (?s1\<lparr>rt_world := w\<rparr>)" by (rule extends_then0 [OF x1 extends_same]) simp
    show ?thesis
    proof (cases r)
      case (Inl e2)
      have "extends item n s (emit_event item ''fallback_error'' p (?s1\<lparr>rt_world := w\<rparr>))" for p
        by (rule extends_then0 [OF x2 extends_emit0 [OF extends_same [OF refl]]]) simp
      from fail_with_ok [OF this] show ?thesis using Some False f Inl by (simp add: handle_failure_def Let_def)
    next
      case (Inr v)
      obtain t s2 where t: "trim_in E item (py_str (tv_str (re_trim E)) v) (?s1\<lparr>rt_world := w\<rparr>) = (t, s2)" by fastforce
      have "rt_events s2 = rt_events (?s1\<lparr>rt_world := w\<rparr>)" using trim_in_fields(1) [of E item "py_str (tv_str (re_trim E)) v" "?s1\<lparr>rt_world := w\<rparr>"] t by simp
      then have "extends item n s s2" by (rule extends_then0 [OF x2 extends_same])
      then have "extends item n s (emit_event item ''fallback_success'' [?g] s2)"
        by (rule extends_then0 [OF _ extends_emit0 [OF extends_same [OF refl]]]) simp
      then show ?thesis using Some False f Inr t by (simp add: handle_failure_def Let_def step_ok_def)
    qed
  qed
qed

lemma after_call_ok: "extends item n s s1 \<Longrightarrow> step_ok item n s (after_call E batch item key r s1)"
  using handle_failure_ok [of item n s s1] by (simp add: after_call_def step_ok_def sound_phase_def split: sum.split)

fun calls_tool :: "phase \<Rightarrow> nat" where
  "calls_tool (Invoking k) = 1"
| "calls_tool p = 0"

lemma set_fields [simp]: "rt_events (s\<lparr>rt_cache := c\<rparr>) = rt_events s" "rt_events (s\<lparr>rt_late := l\<rparr>) = rt_events s"
  by simp_all

lemma ready_ok: "step_ok item 0 s (ready_step E scope batch item s)"
proof -
  define s1 where "s1 = (if tm_side_effect (ti_runtime item)
    then emit_event item ''serialized_side_effect'' [(''side_effect_kind'', opt_str (tm_side_effect_kind (ti_runtime item)))] s else s)"
  have x: "extends item 0 s s1" using extends_same [of s s item] extends_emit0 [of item s s "''serialized_side_effect''"] by (simp add: s1_def)
  have c: "extends item 0 s (s1\<lparr>rt_cache := c\<rparr>)" for c by (rule extends_then0 [OF x extends_same]) simp
  have d: "step_ok item 0 s (Invoking k, s1)" "step_ok item 0 s (Invoking k, s1\<lparr>rt_cache := c\<rparr>)" "step_ok item 0 s (Cached key, s1\<lparr>rt_cache := c\<rparr>)" for k c key
    using x c by (simp_all add: step_ok_def sound_phase_def)
  show ?thesis unfolding ready_step_def Let_def s1_def [symmetric]
    using fail_with_ok [OF x] d by (simp split: option.split prod.split)
qed

lemma cached_ok: "step_ok item 0 s (cached_step E scope batch item key s)"
proof -
  obtain c v where c: "(case rt_cache s of None \<Rightarrow> (None, None) | Some c0 \<Rightarrow> (case cache_get key c0 of (c1, v) \<Rightarrow> (Some c1, v))) = (c, v)" by fastforce
  obtain t s1 where t: "trim_in E item (or_text v []) (s\<lparr>rt_cache := c\<rparr>) = (t, s1)" by fastforce
  then have "rt_events s1 = rt_events s" using trim_in_fields(1) [of E item "or_text v []" "s\<lparr>rt_cache := c\<rparr>"] by simp
  then have "extends item 0 s (emit_event item ''cache_hit'' p s1)" for p
    using extends_emit0 [OF extends_same [of s1 s item], of "''cache_hit''" p] by simp
  then show ?thesis unfolding cached_step_def c Let_def by (simp add: t step_ok_def)
qed

lemma invoke_ok: "step_ok item 1 s (invoke_step E batch item key s)"
proof -
  let ?s = "emit_event item ''invoke'' [] s"
  have x: "extends item 1 s ?s" using extends_emit [of item "''invoke''" s "[]"] by simp
  obtain r s1 where c: "call_tool item ?s = (r, s1)" by fastforce
  then have e: "rt_events s1 = rt_events ?s" using call_tool_fields(1) [of item ?s] by simp
  have "step_ok item 1 s (after_call E batch item key r s1)" by (rule after_call_ok [OF extends_then0 [OF x extends_same [OF e]]])
  moreover have "step_ok item 1 s (Sandboxed key t, s2)" if "acquire item ?s = Some s2" for t s2
    using extends_then0 [OF x extends_same [OF conjunct1 [OF acquire_fields [OF that]]]] by (simp add: step_ok_def sound_phase_def)
  ultimately show ?thesis unfolding invoke_step_def Let_def
    using handle_failure_ok [OF x] by (simp add: c split: option.split)
qed

lemma sandbox_ok: "step_ok item 0 s (sandbox_step E batch item key t s)"
proof -
  obtain r s1 where c: "call_tool item s = (r, s1)" by fastforce
  then have e: "rt_events s1 = rt_events s" using call_tool_fields(1) [of item s] by simp
  have "step_ok item 0 s (after_call E batch item key r (release item s1))"
    by (rule after_call_ok [OF extends_same]) (simp add: e)
  moreover have "step_ok item 0 s (handle_failure E item batch x s2)" if "rt_events s2 = rt_events s" for x s2
    by (rule handle_failure_ok [OF extends_same [OF that]])
  ultimately show ?thesis unfolding sandbox_step_def Let_def c by (simp add: e split: fate.split)
qed

lemma store_ok: "step_ok item 0 s (store_step E batch item key x s)"
proof -
  define c where "c = (case (key, rt_cache s) of (Some k, Some c) \<Rightarrow> Some (cache_set k x c) | (k, c) \<Rightarrow> c)"
  obtain t s1 where t: "trim_in E item x (s\<lparr>rt_cache := c\<rparr>) = (t, s1)" by fastforce
  then have "rt_events s1 = rt_events s" using trim_in_fields(1) [of E item x "s\<lparr>rt_cache := c\<rparr>"] by simp
  then show ?thesis unfolding store_step_def Let_def c_def [symmetric] t by (simp add: step_ok_def extends_same)
qed

lemma phase_step_ok:
  assumes "result_of p = None"
  shows "step_ok item (calls_tool p) s (phase_step E scope batch item p s)"
  using assms by (cases p) (simp_all add: ready_ok cached_ok invoke_ok [simplified] sandbox_ok store_ok result_of_def)

text \<open>The invocations a call has left.\<close>

fun left :: "phase \<Rightarrow> nat" where
  "left Ready = 1" | "left (Invoking k) = 1" | "left p = 0"

lemma left_0: "rank p \<le> 2 \<Longrightarrow> left p = 0"
  by (cases p) simp_all

lemma left_step: "result_of p = None \<Longrightarrow> calls_tool p + left (fst (phase_step E scope batch item p s)) \<le> left p"
proof (cases p)
  case (Invoking key)
  have "rank (fst (phase_step E scope batch item p s)) \<le> 2" using phase_rank [of p E scope batch item s] Invoking by simp
  then show ?thesis using left_0 Invoking by simp
next
  case Ready
  then show ?thesis by (cases "fst (phase_step E scope batch item p s)") simp_all
next
  case (Cached key)
  then show ?thesis using phase_rank [of p E scope batch item s] left_0 by simp
next
  case (Sandboxed key t)
  then show ?thesis using phase_rank [of p E scope batch item s] left_0 by simp
next
  case (Storing key x)
  then show ?thesis using phase_rank [of p E scope batch item s] left_0 by simp
qed (simp add: result_of_def)

lemma run_phases_ok:
  "result_of p = None \<Longrightarrow> \<exists>n. extends item n s (snd (run_phases E scope batch item p s)) \<and> n \<le> left p \<and>
     answers item (fst (run_phases E scope batch item p s))"
proof (induction E scope batch item p s rule: run_phases.induct)
  case (1 E scope batch item p s)
  obtain p' s' where q: "phase_step E scope batch item p s = (p', s')" by fastforce
  have st: "extends item (calls_tool p) s s'" "sound_phase item p'" using phase_step_ok [OF "1.prems", of item s E scope batch] q by (simp_all add: step_ok_def)
  have l: "calls_tool p + left p' \<le> left p" using left_step [OF "1.prems", of E scope batch item s] q by simp
  have r: "run_phases E scope batch item p s = run_phases E scope batch item p' s'"
    using "1.prems" q by (simp add: run_phases.simps [of E scope batch item p s])
  show ?case
  proof (cases "result_of p'")
    case None
    obtain n where "extends item n s' (snd (run_phases E scope batch item p' s'))" "n \<le> left p'" "answers item (fst (run_phases E scope batch item p' s'))"
      using "1.IH" [OF "1.prems" refl] None q by auto
    then show ?thesis unfolding r using extends_trans [OF st(1)] l by (intro exI [of _ "calls_tool p + n"]) auto
  next
    case (Some x)
    then have "p' = Done x" by (cases p') (simp_all add: result_of_def)
    then show ?thesis unfolding r using st l Some
      by (auto simp: run_phases.simps [of E scope batch item "Done x"] sound_phase_def)
  qed
qed

lemma execute_single_ok:
  "\<exists>n \<le> 1. extends item n s (snd (execute_single E scope batch item s)) \<and> answers item (fst (execute_single E scope batch item s))"
  using run_phases_ok [of Ready item s E scope batch] by (auto simp: execute_single_def result_of_def)

section \<open>Caches and semaphores\<close>

definition rt_cache_ok :: "'w runtime \<Rightarrow> bool" where
  "rt_cache_ok s \<longleftrightarrow> (case rt_cache s of None \<Rightarrow> True | Some c \<Rightarrow> cache_ok c)"

text \<open>What a failure, and a result, leave alone.\<close>

definition same_store :: "'w runtime \<Rightarrow> 'w runtime \<Rightarrow> bool" where
  "same_store s s' \<longleftrightarrow> rt_cache s' = rt_cache s \<and> rt_permits s' = rt_permits s \<and> rt_late s' = rt_late s"

lemma same_store_refl [simp]: "same_store s s"
  by (simp add: same_store_def)

lemma fail_with_store: "same_store s (snd (fail_with E item batch e s))"
  by (simp add: same_store_def fail_with_def)

lemma trim_in_store: "trim_in E item x s = (t, s') \<Longrightarrow> same_store s s'"
  by (auto simp: same_store_def trim_in_def split: prod.splits)

lemma handle_failure_store: "same_store s (snd (handle_failure E item batch e s))"
  by (auto simp: handle_failure_def Let_def same_store_def fail_with_def dest!: trim_in_store split: option.split prod.split sum.split)

lemma after_call_store: "same_store s (snd (after_call E batch item key r s))"
  by (simp add: after_call_def handle_failure_store split: sum.split)

fun held :: "phase \<Rightarrow> nat" where
  "held (Sandboxed k t) = 1"
| "held p = 0"

lemma held_0: "rank p \<noteq> 2 \<Longrightarrow> held p = 0"
  by (cases p) simp_all

definition late :: "'w tool_input \<Rightarrow> 'w runtime \<Rightarrow> nat" where
  "late item s = length (filter (\<lambda>(k, i). k = semaphore_key item) (rt_late s))"

text \<open>The permits of a tool's semaphore that are free, or held by calls that run on after a time-out.\<close>

definition balance :: "'w tool_input \<Rightarrow> 'w runtime \<Rightarrow> nat" where
  "balance item s = permits item s + late item s"

lemma same_balance: "same_store s s' \<Longrightarrow> balance item s' = balance item s"
  by (simp add: same_store_def balance_def permits_def late_def)

lemma release_balance: "balance item (release item s) = balance item s + 1"
  by (simp add: balance_def permits_def release_def late_def)

lemma acquire_balance:
  assumes "acquire item s = Some s'"
  shows "balance item s' + 1 = balance item s"
proof -
  have n: "permits item s \<noteq> 0"
  proof
    assume "permits item s = 0"
    then show False using assms unfolding acquire_def by simp
  qed
  then have s': "s' = s\<lparr>rt_permits := AList.update (semaphore_key item) (permits item s - 1) (rt_permits s)\<rparr>"
    using assms unfolding acquire_def by (simp only: if_False option.inject)
  have "rt_permits s' = AList.update (semaphore_key item) (permits item s - 1) (rt_permits s)" unfolding s' by simp
  then have "permits item s' = permits item s - 1" unfolding permits_def [of item s'] by (simp only: get_or_update if_True simp_thms)
  moreover have "late item s' = late item s" using acquire_fields [OF assms] by (simp add: late_def)
  ultimately show ?thesis using n by (simp add: balance_def)
qed

lemma mark_balance [simp]: "balance item (mark_timed_out_active s) = balance item s" "balance item (mark_timed_out_done s) = balance item s"
  "balance item (mark_timed_out_cancelled s) = balance item s" "balance item (emit_event item' stage p s) = balance item s"
  "balance item (s\<lparr>rt_cache := c\<rparr>) = balance item s"
  by (simp_all add: balance_def permits_def late_def mark_timed_out_active_def mark_timed_out_done_def mark_timed_out_cancelled_def emit_event_def)

lemma call_tool_balance: "balance item (snd (call_tool item' s)) = balance item s"
  by (simp add: balance_def permits_def late_def)

lemma fail_balance: "balance item (snd (fail_with E i batch e s)) = balance item s"
  "balance item (snd (handle_failure E i batch e s)) = balance item s" "balance item (snd (after_call E batch i key r s)) = balance item s"
  by (rule same_balance [OF fail_with_store], rule same_balance [OF handle_failure_store], rule same_balance [OF after_call_store])

lemma held_results: "held (fst (fail_with E item batch e s)) = 0" "held (fst (handle_failure E item batch e s)) = 0"
  "held (fst (after_call E batch item key r s)) = 0"
  using after_call_rank [of E batch item key r s] by (simp_all add: held_0)

lemma ready_balance: "balance item (snd (ready_step E scope batch item s)) = balance item s \<and> held (fst (ready_step E scope batch item s)) = 0"
  by (simp add: ready_step_def Let_def fail_balance held_results split: option.split prod.split)

lemma trim_balance: "balance item' (snd (trim_in E item x s)) = balance item' s"
  by (rule same_balance [OF trim_in_store [OF prod.collapse [symmetric]]])

lemma cached_balance: "balance item (snd (cached_step E scope batch item key s)) = balance item s"
  by (simp add: cached_step_def Let_def split_beta trim_balance)

lemma store_balance: "balance item (snd (store_step E batch item key x s)) = balance item s"
  by (simp add: store_step_def Let_def split_beta trim_balance)

lemma invoke_balance: "balance item (snd (invoke_step E batch item key s)) + held (fst (invoke_step E batch item key s)) = balance item s"
  using call_tool_balance [of item item "emit_event item ''invoke'' [] s"] acquire_balance [of item "emit_event item ''invoke'' [] s"]
  by (auto simp: invoke_step_def Let_def fail_balance held_results split_beta split: option.split)

lemma sandbox_balance:
  assumes "re_fate E item (rt_world s) \<noteq> Late"
  shows "balance item (snd (sandbox_step E batch item key t s)) = balance item s + 1 \<and> held (fst (sandbox_step E batch item key t s)) = 0"
proof (cases "re_fate E item (rt_world s)")
  case Active
  have "balance item (s\<lparr>rt_late := rt_late s @ [(semaphore_key item, item)]\<rparr>) = balance item s + 1"
    by (simp add: balance_def permits_def late_def)
  then show ?thesis using Active by (simp add: sandbox_step_def Let_def fail_balance held_results)
qed (use assms call_tool_balance [of item item s] in \<open>simp_all add: sandbox_step_def Let_def fail_balance held_results release_balance split_beta\<close>)

lemma phase_balance:
  assumes "re_fate E item (rt_world s) \<noteq> Late"
  shows "balance item (snd (phase_step E scope batch item p s)) + held (fst (phase_step E scope batch item p s)) = balance item s + held p"
proof (cases p)
  case (Cached key)
  then show ?thesis by (simp add: cached_balance) (simp add: cached_step_def Let_def split_beta finished_def)
next
  case (Storing key x)
  then show ?thesis by (simp add: store_balance) (simp add: store_step_def Let_def split_beta finished_def)
qed (simp_all add: assms ready_balance invoke_balance sandbox_balance)

lemma run_phases_balance:
  assumes "\<forall>w. re_fate E item w \<noteq> Late"
  shows "balance item (snd (run_phases E scope batch item p s)) = balance item s + held p"
  using assms
proof (induction E scope batch item p s rule: run_phases.induct)
  case (1 E scope batch item p s)
  show ?case
  proof (cases "result_of p")
    case None
    then show ?thesis using "1.IH" [OF None refl "1.prems"] phase_balance [of E item s scope batch p] "1.prems"
      by (simp add: run_phases.simps [of E scope batch item p s] Let_def)
  next
    case (Some r)
    then have "held p = 0" by (cases p) (simp_all add: result_of_def)
    then show ?thesis using Some by (simp add: run_phases.simps [of E scope batch item p s])
  qed
qed

section \<open>The cache\<close>

lemma cache_ok_fields: "same_store s s' \<Longrightarrow> rt_cache_ok s' = rt_cache_ok s"
  by (simp add: same_store_def rt_cache_ok_def)

lemma ready_cache: "rt_cache_ok s \<Longrightarrow> rt_cache_ok (snd (ready_step E scope batch item s))"
  using cache_ok_get by (auto simp: ready_step_def Let_def rt_cache_ok_def fail_with_def split: option.split prod.split) (metis fst_conv)+

lemma phase_cache: "rt_cache_ok s \<Longrightarrow> rt_cache_ok (snd (phase_step E scope batch item p s))"
proof (cases p)
  case Ready
  assume "rt_cache_ok s"
  then show ?thesis using Ready ready_cache by simp
next
  case (Cached key)
  assume a: "rt_cache_ok s"
  obtain c v where c: "(case rt_cache s of None \<Rightarrow> (None, None) | Some c0 \<Rightarrow> (case cache_get key c0 of (c1, v) \<Rightarrow> (Some c1, v))) = (c, v)" by fastforce
  then have "rt_cache_ok (s\<lparr>rt_cache := c\<rparr>)" using a cache_ok_get by (auto simp: rt_cache_ok_def split: option.splits prod.splits) (metis fst_conv)
  then show ?thesis unfolding Cached phase_step.simps cached_step_def c Let_def by (simp add: split_beta rt_cache_ok_def)
next
  case (Invoking key)
  assume a: "rt_cache_ok s"
  have m: "rt_cache_ok s1 \<Longrightarrow> rt_cache_ok (snd (handle_failure E item batch e s1))" "rt_cache_ok s1 \<Longrightarrow> rt_cache_ok (snd (after_call E batch item key r s1))" for s1 e r
    using cache_ok_fields handle_failure_store after_call_store by blast+
  have e: "rt_cache_ok (emit_event item ''invoke'' [] s)" using a by (simp add: rt_cache_ok_def)
  then have "rt_cache_ok (snd (call_tool item (emit_event item ''invoke'' [] s)))" by (simp add: rt_cache_ok_def)
  moreover have "rt_cache_ok s1" if "acquire item (emit_event item ''invoke'' [] s) = Some s1" for s1
    using e acquire_fields [OF that] by (simp add: rt_cache_ok_def)
  ultimately show ?thesis using Invoking m e by (simp add: invoke_step_def Let_def split_beta split: option.split)
next
  case (Sandboxed key t)
  assume a: "rt_cache_ok s"
  have m: "rt_cache s1 = rt_cache s \<Longrightarrow> rt_cache_ok (snd (handle_failure E item batch e s1))" "rt_cache s1 = rt_cache s \<Longrightarrow> rt_cache_ok (snd (after_call E batch item key r s1))" for s1 e r
  proof -
    show "rt_cache_ok (snd (handle_failure E item batch e s1))" if "rt_cache s1 = rt_cache s"
      unfolding cache_ok_fields [OF handle_failure_store] using a that by (simp add: rt_cache_ok_def)
    show "rt_cache_ok (snd (after_call E batch item key r s1))" if "rt_cache s1 = rt_cache s"
      unfolding cache_ok_fields [OF after_call_store] using a that by (simp add: rt_cache_ok_def)
  qed
  show ?thesis using Sandboxed m by (simp add: sandbox_step_def Let_def split_beta split: fate.split)
next
  case (Storing key x)
  assume a: "rt_cache_ok s"
  define c where "c = (case (key, rt_cache s) of (Some k, Some c) \<Rightarrow> Some (cache_set k x c) | (k, c) \<Rightarrow> c)"
  have "rt_cache_ok (s\<lparr>rt_cache := c\<rparr>)" using a by (auto simp: rt_cache_ok_def c_def cache_ok_set split: option.split)
  then show ?thesis unfolding Storing phase_step.simps store_step_def c_def [symmetric] Let_def by (simp add: split_beta rt_cache_ok_def)
next
  case (Done r)
  assume "rt_cache_ok s"
  then show ?thesis using Done by simp
qed

lemma run_phases_cache: "rt_cache_ok s \<Longrightarrow> rt_cache_ok (snd (run_phases E scope batch item p s))"
proof (induction E scope batch item p s rule: run_phases.induct)
  case (1 E scope batch item p s)
  then show ?case using phase_cache [OF "1.prems"]
    by (cases "result_of p") (simp_all add: run_phases.simps [of E scope batch item p s] Let_def)
qed

section \<open>Properties\<close>

text \<open>No permit of a tool's semaphore is lost: an execution gives back the permit it takes, or leaves it with a
  call that runs on after its time-out, provided no call ends in the instant between the time-out and the clean-up.\<close>

lemma permits_conserved:
  assumes "\<forall>w. re_fate E item w \<noteq> Late" "execute_single E scope batch item s = (r, s')"
  shows "permits item s' + late item s' = permits item s + late item s"
  using run_phases_balance [OF assms(1), of scope batch Ready s] assms(2) by (simp add: execute_single_def balance_def)

text \<open>A call that ends in that instant frees its permit twice, so the semaphore admits one call more from then on.\<close>

lemma late_call_frees_two_permits:
  assumes "re_fate E item (rt_world s) = Late" "acquire item (emit_event item ''invoke'' [] s) = Some s1" "rt_world s1 = rt_world s"
    "effective_timeout (ti_runtime item) = Some t"
  shows "permits item (snd (run_phases E scope batch item (Invoking key) s)) = permits item s + 1"
proof -
  have i: "phase_step E scope batch item (Invoking key) s = (Sandboxed key t, s1)" using assms(2,4) by (simp add: invoke_step_def Let_def)
  have b: "permits item s1 + 1 = permits item s"
  proof -
    have "late item s1 = late item s" using acquire_fields [OF assms(2)] by (simp add: late_def)
    moreover have "late item (emit_event item stage p s) = late item s" for stage p by (simp add: late_def)
    ultimately show ?thesis using acquire_balance [OF assms(2)] by (simp add: balance_def permits_def)
  qed
  have f: "re_fate E item (rt_world s1) = Late" using assms(1,3) by simp
  obtain r s2 where c: "call_tool item s1 = (r, s2)" by fastforce
  let ?s3 = "mark_timed_out_done (mark_timed_out_active (release item (release item s2)))"
  have st: "phase_step E scope batch item (Sandboxed key t) s1 = handle_failure E item batch (InvocationTimeoutError (ti_name item) t) ?s3"
    using f by (simp add: sandbox_step_def Let_def c)
  have "permits item s2 = permits item s1" using call_tool_fields(3) [of item s1] c by (simp add: permits_def)
  then have "permits item ?s3 = permits item s + 1" using b
    by (simp add: permits_def release_def mark_timed_out_done_def mark_timed_out_active_def)
  then have p: "permits item (snd (phase_step E scope batch item (Sandboxed key t) s1)) = permits item s + 1"
    unfolding st using handle_failure_store [of ?s3 E item batch "InvocationTimeoutError (ti_name item) t"] by (simp add: same_store_def permits_def)
  have "rank (fst (phase_step E scope batch item (Sandboxed key t) s1)) = 0" unfolding st by simp
  then have d: "result_of (fst (phase_step E scope batch item (Sandboxed key t) s1)) \<noteq> None" using result_of_None by blast
  have "run_phases E scope batch item (Invoking key) s = run_phases E scope batch item (Sandboxed key t) s1"
    using i by (simp add: run_phases.simps [of E scope batch item "Invoking key" s] result_of_def Let_def)
  also have "\<dots> = run_phases E scope batch item (fst (phase_step E scope batch item (Sandboxed key t) s1)) (snd (phase_step E scope batch item (Sandboxed key t) s1))"
    by (subst run_phases.simps) (simp add: result_of_def Let_def del: phase_step.simps)
  also have "snd \<dots> = snd (phase_step E scope batch item (Sandboxed key t) s1)"
    using d by (subst run_phases.simps) (auto simp del: phase_step.simps split: option.split)
  finally show ?thesis using p by simp
qed

definition ex_run_env :: "fate \<Rightarrow> nat run_env" where
  "ex_run_env f = \<lparr>re_keys = ex_keys, re_trim = ex_trim\<lparr>tv_trim := tq_text\<rparr>, re_saver = None, re_thread = None,
     re_error_json = (\<lambda>p. ''error''), re_seconds = (\<lambda>t. ''5''), re_fate = (\<lambda>item w. f), re_trace = (\<lambda>item. [])\<rparr>"

definition ex_timed :: "nat tool_input" where
  "ex_timed = (ex_item 0 ''fetch'')\<lparr>ti_runtime := ex_meta\<lparr>tm_timeout := Some 5\<rparr>\<rparr>"

definition ex_state :: "cache_store option \<Rightarrow> nat runtime" where
  "ex_state c = \<lparr>rt_cache = c, rt_world = 0, rt_events = [], rt_permits = [], rt_late = [], rt_timeout_active = 0, rt_timeout_total = 0\<rparr>"

lemma semaphore_ex: "semaphore_size ex_timed = 4"
  by (simp add: semaphore_size_def ex_timed_def ex_meta_def)

lemma permits_ex: "permits ex_timed (ex_state c) = 4" "late ex_timed (ex_state c) = 0"
  by (simp_all add: permits_def semaphore_ex ex_state_def late_def)

lemma permits_conserved_witness:
  "permits ex_timed (snd (execute_single (ex_run_env Active) None None ex_timed (ex_state None))) +
     late ex_timed (snd (execute_single (ex_run_env Active) None None ex_timed (ex_state None))) = 4"
proof -
  have "\<forall>w. re_fate (ex_run_env Active) ex_timed w \<noteq> Late" by (simp add: ex_run_env_def)
  from permits_conserved [OF this prod.collapse [symmetric]] show ?thesis by (simp add: permits_ex)
qed

lemma late_call_frees_two_permits_witness:
  "permits ex_timed (snd (run_phases (ex_run_env Late) None None ex_timed (Invoking None) (ex_state None))) = 5"
proof -
  let ?s = "emit_event ex_timed ''invoke'' [] (ex_state None)"
  have n: "permits ex_timed ?s \<noteq> 0" using permits_ex(1) [of None] by (simp add: permits_def)
  define s1 where "s1 = ?s\<lparr>rt_permits := AList.update (semaphore_key ex_timed) (permits ex_timed ?s - 1) (rt_permits ?s)\<rparr>"
  have a: "acquire ex_timed ?s = Some s1" using n unfolding acquire_def s1_def by (simp only: if_False)
  have w: "rt_world s1 = rt_world (ex_state None)" by (simp add: s1_def)
  have t: "effective_timeout (ti_runtime ex_timed) = Some 5" by (simp add: effective_timeout_def ex_timed_def ex_meta_def)
  have f: "re_fate (ex_run_env Late) ex_timed (rt_world (ex_state None)) = Late" by (simp add: ex_run_env_def)
  show ?thesis using late_call_frees_two_permits [OF f a w t] permits_ex(1) by simp
qed

end
