(* ===== verification/ToolBatch.thy ===== *)
theory ToolBatch
  imports ToolRuntime "HOL-Library.Multiset"
begin

text \<open>
  The calls of a turn: the parallel batches of \<open>tool_parallel.py\<close> and \<open>execute_tool_calls\<close> of \<open>tool_runtime.py\<close>
  in \<open>src/focus_agent/capabilities/\<close>. The executions of a batch advance one phase at a time; a schedule says which.
\<close>

section \<open>A parallel batch\<close>

record 'w pool =
  po_rest :: "'w tool_input list"
  po_pending :: "('w tool_input \<times> phase) list"
  po_results :: "(nat, tool_result) dict"

text \<open>\<open>_submit(next(remaining))\<close>, and the submissions a pool starts with.\<close>

definition submit_next :: "'w pool \<Rightarrow> 'w pool" where
  "submit_next p = (case po_rest p of
     [] \<Rightarrow> p
   | item # rest \<Rightarrow> p\<lparr>po_rest := rest, po_pending := po_pending p @ [(item, Ready)]\<rparr>)"

definition start_pool :: "nat \<Rightarrow> 'w tool_input list \<Rightarrow> 'w pool" where
  "start_pool workers calls = (submit_next ^^ workers) \<lparr>po_rest = calls, po_pending = [], po_results = []\<rparr>"

text \<open>The \<open>k\<close>-th pending execution goes on; when it is done its result is stored and the next call submitted.\<close>

definition drop_at :: "nat \<Rightarrow> 'a list \<Rightarrow> 'a list" where
  "drop_at k xs = take k xs @ drop (Suc k) xs"

definition advance :: "'w run_env \<Rightarrow> (nat, string) dict \<Rightarrow> nat \<Rightarrow> nat \<Rightarrow> 'w pool \<Rightarrow> 'w runtime \<Rightarrow> 'w pool \<times> 'w runtime" where
  "advance E scopes batch k p s =
    (let (item, ph) = po_pending p ! k;
         (ph', s') = phase_step E (map_of scopes (ti_index item)) (Some batch) item ph s in
     case result_of ph' of
       None \<Rightarrow> (p\<lparr>po_pending := (po_pending p)[k := (item, ph')]\<rparr>, s')
     | Some r \<Rightarrow> (submit_next (p\<lparr>po_pending := drop_at k (po_pending p), po_results := AList.update (ti_index item) r (po_results p)\<rparr>), s'))"

definition pool_work :: "'w pool \<Rightarrow> nat" where
  "pool_work p = 5 * length (po_rest p) + sum_list (map (\<lambda>(item, ph). rank ph + 1) (po_pending p))"

lemma submit_next_work: "pool_work (submit_next p) = pool_work p"
  by (simp add: submit_next_def pool_work_def split: list.split)

lemma sum_list_drop_at:
  "k < length xs \<Longrightarrow> sum_list (map f xs) = f (xs ! k) + sum_list (map f (drop_at k xs))" for f :: "'a \<Rightarrow> nat"
proof -
  assume k: "k < length xs"
  have "sum_list (map f xs) = sum_list (map f (take k xs @ xs ! k # drop (Suc k) xs))" using id_take_nth_drop [OF k] by simp
  then show ?thesis by (simp add: drop_at_def)
qed

lemma sum_list_update_at:
  "k < length xs \<Longrightarrow> sum_list (map f (xs[k := x])) + f (xs ! k) = sum_list (map f xs) + f x" for f :: "'a \<Rightarrow> nat"
  using sum_list_drop_at [of k xs f] sum_list_drop_at [of k "xs[k := x]" f]
  by (simp add: drop_at_def)

lemma advance_work:
  assumes "k < length (po_pending p)" "\<forall>(item, ph) \<in> set (po_pending p). result_of ph = None"
  shows "pool_work (fst (advance E scopes batch k p s)) < pool_work p"
proof -
  obtain item ph where i: "po_pending p ! k = (item, ph)" by fastforce
  then have "(item, ph) \<in> set (po_pending p)" using assms(1) by (metis nth_mem)
  then have nd: "rank ph \<noteq> 0" unfolding result_of_None [symmetric] using assms(2) by blast
  obtain ph' s' where st: "phase_step E (map_of scopes (ti_index item)) (Some batch) item ph s = (ph', s')" by fastforce
  have r: "rank ph' < rank ph" using phase_rank [OF nd, of E "map_of scopes (ti_index item)" "Some batch" item s] st by simp
  let ?f = "\<lambda>(item :: 'a tool_input, ph). rank ph + 1"
  show ?thesis
  proof (cases "result_of ph'")
    case None
    then show ?thesis using sum_list_update_at [OF assms(1), of ?f "(item, ph')"] r i st
      by (simp add: advance_def pool_work_def)
  next
    case (Some x)
    then show ?thesis using sum_list_drop_at [OF assms(1), of ?f] i st
      by (simp add: advance_def submit_next_work) (simp add: pool_work_def)
  qed
qed

text \<open>Which pending execution goes on is the head of the schedule; an empty schedule takes the first.\<close>

definition pick :: "nat list \<Rightarrow> 'w pool \<Rightarrow> nat" where
  "pick sched p = (case sched of [] \<Rightarrow> 0 | k # ks \<Rightarrow> k mod length (po_pending p))"

text \<open>Executions that are done have left the pending ones; the fuel is the work there is.\<close>

function run_pool :: "'w run_env \<Rightarrow> (nat, string) dict \<Rightarrow> nat \<Rightarrow> nat list \<Rightarrow> 'w pool \<Rightarrow> 'w runtime \<Rightarrow> 'w pool \<times> 'w runtime \<times> nat list" where
  "run_pool E scopes batch sched p s =
    (if po_pending p = [] \<or> \<not> list_all (\<lambda>(item, ph). result_of ph = None) (po_pending p) then (p, s, sched)
     else let q = advance E scopes batch (pick sched p) p s in run_pool E scopes batch (tl sched) (fst q) (snd q))"
  by pat_completeness auto

termination
  by (relation "measure (\<lambda>(E, scopes, batch, sched, p, s). pool_work p)")
    (auto simp: list_all_iff pick_def split_beta intro!: advance_work split: list.split)

declare run_pool.simps [simp del]

record 'w batch_plan =
  bp_unique :: "'w tool_input list"
  bp_duplicates :: "(nat, 'w tool_input list) dict"
  bp_representatives :: "(string, 'w tool_input) dict"

definition plan_call :: "'w run_env \<Rightarrow> (nat, string) dict \<Rightarrow> 'w batch_plan \<Rightarrow> 'w tool_input \<Rightarrow> 'w batch_plan" where
  "plan_call E scopes b item = (case cache_key (re_keys E) item (map_of scopes (ti_index item)) of
     None \<Rightarrow> b\<lparr>bp_unique := bp_unique b @ [item]\<rparr>
   | Some key \<Rightarrow> (case map_of (bp_representatives b) key of
       Some rep \<Rightarrow> b\<lparr>bp_duplicates := AList.update (ti_index rep) (get_or (bp_duplicates b) (ti_index rep) [] @ [item]) (bp_duplicates b)\<rparr>
     | None \<Rightarrow> b\<lparr>bp_unique := bp_unique b @ [item], bp_representatives := AList.update key item (bp_representatives b)\<rparr>))"

definition plan_batch :: "'w run_env \<Rightarrow> (nat, string) dict \<Rightarrow> 'w tool_input list \<Rightarrow> 'w batch_plan" where
  "plan_batch E scopes calls = foldl (plan_call E scopes) \<lparr>bp_unique = [], bp_duplicates = [], bp_representatives = []\<rparr> calls"

text \<open>The results of the duplicates: copies of their representative's.\<close>

definition copies :: "(nat, string) dict \<Rightarrow> (nat, tool_result) dict \<Rightarrow> 'w batch_plan \<Rightarrow> ('w tool_input \<times> tool_result) list" where
  "copies scopes results b = concat (map (\<lambda>rep. case map_of results (ti_index rep) of
       None \<Rightarrow> []
     | Some source \<Rightarrow> map (\<lambda>d. (d, copy_result_for_tool_call source d (tg_status (tt_message source) \<noteq> ''error'')))
         (get_or (bp_duplicates b) (ti_index rep) [])) (bp_unique b))"

definition copy_event :: "(nat, string) dict \<Rightarrow> 'w tool_input \<times> tool_result \<Rightarrow> 'w runtime \<Rightarrow> 'w runtime" where
  "copy_event scopes c s = emit_event (fst c) ''cache_hit''
     [(''cache_scope'', PStr (scope_or_default (map_of scopes (ti_index (fst c))))), (''deduplicated'', PBool True)] s"

definition run_parallel_batch :: "'w run_env \<Rightarrow> (nat, string) dict \<Rightarrow> int \<Rightarrow> nat list \<Rightarrow> 'w tool_input list \<Rightarrow> 'w runtime \<Rightarrow>
    tool_result list \<times> 'w runtime \<times> nat list" where
  "run_parallel_batch E scopes max_workers sched calls s0 =
    (let n = length calls;
         s = foldl (\<lambda>s item. emit_event item ''parallel_dispatch'' [(''batch_size'', PInt (int n))] s) s0 calls in
     if n = 1 then (case execute_single E (map_of scopes (ti_index (hd calls))) (Some n) (hd calls) s of
         (r, s1) \<Rightarrow> ([r], s1, sched))
     else
       let b = plan_batch E scopes calls;
           workers = nat (max 1 (min (int (length (bp_unique b))) max_workers));
           (p, s1, sched') = run_pool E scopes n sched (start_pool workers (bp_unique b)) s;
           results = po_results p; cs = copies scopes results b in
       (concat (map (\<lambda>item. case map_of results (ti_index item) of None \<Rightarrow> [] | Some r \<Rightarrow> [r]) (bp_unique b)) @ map snd cs,
        fold (copy_event scopes) cs s1, sched'))"

section \<open>All calls of a turn\<close>

datatype parallel_mode = Parallel_safe | Serialized_side_effect | Serialized_runtime

definition classify_tool_parallel_execution :: "'w tool_meta \<Rightarrow> parallel_mode" where
  "classify_tool_parallel_execution m = (if tm_side_effect m then Serialized_side_effect
    else if tm_parallel_safe m then Parallel_safe else Serialized_runtime)"

record 'w tool_run =
  tn_waiting :: "'w tool_input list"
  tn_completed :: "tool_result list"
  tn_state :: "'w runtime"
  tn_sched :: "nat list"

record tool_limits =
  tl_scopes :: "(nat, string) dict"
  tl_invalidation :: "string list"
  tl_workers :: int

text \<open>\<open>if pending_parallel: completed.extend(run_parallel_batch(...))\<close>\<close>

definition flush_parallel :: "'w run_env \<Rightarrow> tool_limits \<Rightarrow> 'w tool_run \<Rightarrow> 'w tool_run" where
  "flush_parallel E L q = (if tn_waiting q = [] then q
     else case run_parallel_batch E (tl_scopes L) (tl_workers L) (tn_sched q) (tn_waiting q) (tn_state q) of
       (rs, s, sched) \<Rightarrow> \<lparr>tn_waiting = [], tn_completed = tn_completed q @ rs, tn_state = s, tn_sched = sched\<rparr>)"

definition run_serialized :: "'w run_env \<Rightarrow> tool_limits \<Rightarrow> 'w tool_input \<Rightarrow> 'w tool_run \<Rightarrow> 'w tool_run" where
  "run_serialized E L item q = (case execute_single E (map_of (tl_scopes L) (ti_index item)) None item (tn_state q) of
     (r, s) \<Rightarrow> q\<lparr>tn_completed := tn_completed q @ [r],
       tn_state := (if tm_side_effect (ti_runtime item) \<and> tg_status (tt_message r) \<noteq> ''error''
         then s\<lparr>rt_cache := invalidate_after_side_effect (tl_invalidation L) (rt_cache s)\<rparr> else s)\<rparr>)"

definition run_call :: "'w run_env \<Rightarrow> tool_limits \<Rightarrow> 'w tool_run \<Rightarrow> 'w tool_input \<Rightarrow> 'w tool_run" where
  "run_call E L q item = (if classify_tool_parallel_execution (ti_runtime item) = Parallel_safe
     then q\<lparr>tn_waiting := tn_waiting q @ [item]\<rparr>
     else run_serialized E L item (flush_parallel E L q))"

definition execute_tool_calls :: "'w run_env \<Rightarrow> tool_limits \<Rightarrow> nat list \<Rightarrow> 'w tool_input list \<Rightarrow> 'w runtime \<Rightarrow> tool_result list \<times> 'w runtime" where
  "execute_tool_calls E L sched calls s =
    (let q = flush_parallel E L (foldl (run_call E L) \<lparr>tn_waiting = [], tn_completed = [], tn_state = s, tn_sched = sched\<rparr> calls)
     in (sort_key tt_index (tn_completed q), tn_state q))"

section \<open>What a batch reports\<close>

definition invocations :: "nat \<Rightarrow> tool_event list \<Rightarrow> nat" where
  "invocations i ev = length (filter (\<lambda>e. is_invoke e \<and> te_index e = i) ev)"

text \<open>Events of the indices \<open>I\<close> were added, with at most \<open>g i\<close> invocations of the index \<open>i\<close>.\<close>

definition grows :: "nat set \<Rightarrow> (nat \<Rightarrow> nat) \<Rightarrow> 'w runtime \<Rightarrow> 'w runtime \<Rightarrow> bool" where
  "grows I g s s' \<longleftrightarrow> (\<exists>ev. rt_events s' = rt_events s @ ev \<and> (\<forall>e \<in> set ev. te_index e \<in> I) \<and> (\<forall>i. invocations i ev \<le> g i))"

lemma grows_refl: "rt_events s' = rt_events s \<Longrightarrow> grows I g s s'"
  unfolding grows_def by (intro exI [of _ "[]"]) (simp add: invocations_def)

lemma grows_trans: "grows I g s s1 \<Longrightarrow> grows J h s1 s2 \<Longrightarrow> grows (I \<union> J) (\<lambda>i. g i + h i) s s2"
  unfolding grows_def by (elim exE conjE, rename_tac a b, rule_tac x = "a @ b" in exI) (auto simp: invocations_def add_mono)

lemma grows_mono: "grows I g s s' \<Longrightarrow> I \<subseteq> J \<Longrightarrow> (\<And>i. g i \<le> h i) \<Longrightarrow> grows J h s s'"
  unfolding grows_def by (meson order_trans subsetD)

lemma extends_grows: "extends item n s s' \<Longrightarrow> grows {ti_index item} (\<lambda>i. if i = ti_index item then n else 0) s s'"
proof -
  assume "extends item n s s'"
  then obtain ev where ev: "rt_events s' = rt_events s @ ev" "\<forall>e \<in> set ev. te_index e = ti_index item" "length (filter is_invoke ev) = n"
    by (auto simp: extends_def list_all_iff)
  have "filter (\<lambda>e. is_invoke e \<and> te_index e = i) ev = (if i = ti_index item then filter is_invoke ev else [])" for i
    using ev(2) by (auto intro!: filter_cong simp: filter_empty_conv)
  then show ?thesis unfolding grows_def using ev by (intro exI [of _ ev]) (simp add: invocations_def)
qed

definition pool_left :: "'w pool \<Rightarrow> nat \<Rightarrow> nat" where
  "pool_left p i = count_list (map ti_index (po_rest p)) i + sum_list (map (\<lambda>(item, ph). if ti_index item = i then left ph else 0) (po_pending p))"

definition pool_indices :: "'w pool \<Rightarrow> nat set" where
  "pool_indices p = ti_index ` set (po_rest p) \<union> ti_index ` fst ` set (po_pending p)"

lemma submit_next_facts: "pool_left (submit_next p) i = pool_left p i" "pool_indices (submit_next p) = pool_indices p"
  by (auto simp: submit_next_def pool_left_def pool_indices_def split: list.split)

text \<open>The executions of a batch: what is to come, what is done, and that nothing done is pending.\<close>

definition pool_ok :: "'w tool_input list \<Rightarrow> 'w pool \<Rightarrow> bool" where
  "pool_ok us p \<longleftrightarrow> list_all (\<lambda>(item, ph). result_of ph = None) (po_pending p) \<and> (po_pending p = [] \<longrightarrow> po_rest p = []) \<and>
    mset (map ti_index (po_rest p)) + mset (map (ti_index \<circ> fst) (po_pending p)) + mset (keys (po_results p)) = mset (map ti_index us) \<and>
    set (po_rest p) \<union> fst ` set (po_pending p) \<subseteq> set us \<and>
    (\<forall>(i, r) \<in> set (po_results p). \<exists>item \<in> set us. ti_index item = i \<and> answers item r)"

lemma set_drop_at: "set (drop_at k xs) \<subseteq> set xs"
  unfolding drop_at_def by (auto dest: in_set_takeD in_set_dropD)

lemma mset_drop_at: "k < length xs \<Longrightarrow> mset (map f xs) = add_mset (f (xs ! k)) (mset (map f (drop_at k xs)))"
proof -
  assume k: "k < length xs"
  have "mset (map f xs) = mset (map f (take k xs @ xs ! k # drop (Suc k) xs))" using id_take_nth_drop [OF k] by simp
  then show ?thesis by (simp add: drop_at_def)
qed

lemma submit_next_ok:
  assumes "list_all (\<lambda>(item, ph). result_of ph = None) (po_pending p)"
    "mset (map ti_index (po_rest p)) + mset (map (ti_index \<circ> fst) (po_pending p)) + mset (keys (po_results p)) = mset (map ti_index us)"
    "set (po_rest p) \<union> fst ` set (po_pending p) \<subseteq> set us"
    "\<forall>(i, r) \<in> set (po_results p). \<exists>item \<in> set us. ti_index item = i \<and> answers item r"
  shows "pool_ok us (submit_next p)"
proof (cases "po_rest p")
  case Nil
  then show ?thesis using assms by (simp add: pool_ok_def submit_next_def)
next
  case (Cons x xs)
  then show ?thesis using assms by (simp add: pool_ok_def submit_next_def result_of_def)
qed

lemma advance_ok:
  assumes ok: "pool_ok us p" and k: "k < length (po_pending p)" and d: "distinct (map ti_index us)"
  obtains n where "pool_ok us (fst (advance E scopes batch k p s))"
    "grows (pool_indices p) (\<lambda>i. if i = ti_index (fst (po_pending p ! k)) then n else 0) s (snd (advance E scopes batch k p s))"
    "\<And>i. pool_left (fst (advance E scopes batch k p s)) i + (if i = ti_index (fst (po_pending p ! k)) then n else 0) \<le> pool_left p i"
    "pool_indices (fst (advance E scopes batch k p s)) \<subseteq> pool_indices p"
proof -
  obtain item ph where i: "po_pending p ! k = (item, ph)" by fastforce
  have mem: "(item, ph) \<in> set (po_pending p)" using k i by (metis nth_mem)
  have nd: "result_of ph = None" using ok mem by (auto simp: pool_ok_def list_all_iff)
  have us: "item \<in> set us" using ok mem by (force simp: pool_ok_def)
  let ?sc = "map_of scopes (ti_index item)" and ?n = "calls_tool ph"
  obtain ph' s' where st: "phase_step E ?sc (Some batch) item ph s = (ph', s')" by fastforce
  have so: "extends item ?n s s'" "sound_phase item ph'" using phase_step_ok [OF nd, of item s E ?sc "Some batch"] st by (simp_all add: step_ok_def)
  have lf: "?n + left ph' \<le> left ph" using left_step [OF nd, of E ?sc "Some batch" item s] st by simp
  have ix: "ti_index item \<in> pool_indices p" using mem by (force simp: pool_indices_def)
  have g: "grows (pool_indices p) (\<lambda>i. if i = ti_index item then ?n else 0) s s'"
    by (rule grows_mono [OF extends_grows [OF so(1)]]) (use ix in auto)
  let ?f = "\<lambda>i. \<lambda>(it :: 'a tool_input, ph). if ti_index it = i then left ph else 0"
  show thesis
  proof (cases "result_of ph'")
    case None
    let ?p' = "p\<lparr>po_pending := (po_pending p)[k := (item, ph')]\<rparr>"
    have a: "advance E scopes batch k p s = (?p', s')" using i st None by (simp add: advance_def)
    have e: "map (ti_index \<circ> fst) ((po_pending p)[k := (item, ph')]) = map (ti_index \<circ> fst) (po_pending p)"
      using i k by (simp add: map_update list_update_same_conv)
    have sub: "fst ` set ((po_pending p)[k := (item, ph')]) \<subseteq> fst ` set (po_pending p)"
      using set_update_subset_insert [of "po_pending p" k "(item, ph')"] mem by force
    have ok': "pool_ok us ?p'" using ok None sub k us unfolding pool_ok_def
      by (auto simp: e list_all_iff dest!: subsetD [OF set_update_subset_insert])
    have "pool_left ?p' i + (if i = ti_index item then ?n else 0) \<le> pool_left p i" for i
      using sum_list_update_at [OF k, of "?f i" "(item, ph')"] lf i by (simp add: pool_left_def split: if_splits)
    moreover have "pool_indices ?p' \<subseteq> pool_indices p" using sub by (auto simp: pool_indices_def)
    ultimately show thesis using that [of ?n] a g ok' i by simp
  next
    case (Some r)
    then have r: "answers item r" using so(2) by (cases ph') (simp_all add: result_of_def sound_phase_def)
    let ?p1 = "p\<lparr>po_pending := drop_at k (po_pending p), po_results := AList.update (ti_index item) r (po_results p)\<rparr>"
    have a: "advance E scopes batch k p s = (submit_next ?p1, s')" using i st Some by (simp add: advance_def)
    have m: "mset (map (ti_index \<circ> fst) (po_pending p)) = add_mset (ti_index item) (mset (map (ti_index \<circ> fst) (drop_at k (po_pending p))))"
      using mset_drop_at [OF k, of "ti_index \<circ> fst"] i by simp
    have all: "mset (map ti_index (po_rest p)) + mset (map (ti_index \<circ> fst) (po_pending p)) + mset (keys (po_results p)) = mset (map ti_index us)"
      using ok by (simp add: pool_ok_def)
    have "distinct (map ti_index (po_rest p) @ map (ti_index \<circ> fst) (po_pending p) @ keys (po_results p))"
      using d all by (metis mset_append mset_eq_imp_distinct_iff union_assoc)
    moreover have "ti_index item \<in> set (map (ti_index \<circ> fst) (po_pending p))" using mem by force
    ultimately have new: "ti_index item \<notin> set (keys (po_results p))" by auto
    have u: "AList.update (ti_index item) r (po_results p) = po_results p @ [(ti_index item, r)]" by (rule update_new [OF new])
    have ok': "pool_ok us (submit_next ?p1)"
    proof (rule submit_next_ok)
      show "list_all (\<lambda>(item, ph). result_of ph = None) (po_pending ?p1)"
        using ok set_drop_at [of k "po_pending p"] by (auto simp: pool_ok_def list_all_iff)
      show "mset (map ti_index (po_rest ?p1)) + mset (map (ti_index \<circ> fst) (po_pending ?p1)) + mset (keys (po_results ?p1)) = mset (map ti_index us)"
        using all m u by simp
      show "set (po_rest ?p1) \<union> fst ` set (po_pending ?p1) \<subseteq> set us"
        using ok set_drop_at [of k "po_pending p"] by (auto simp: pool_ok_def)
      show "\<forall>(i, r) \<in> set (po_results ?p1). \<exists>item \<in> set us. ti_index item = i \<and> answers item r"
        using ok u r us by (auto simp: pool_ok_def)
    qed
    have "pool_left (submit_next ?p1) i + (if i = ti_index item then ?n else 0) \<le> pool_left p i" for i
      unfolding submit_next_facts using sum_list_drop_at [OF k, of "?f i"] lf i by (simp add: pool_left_def split: if_splits)
    moreover have "pool_indices (submit_next ?p1) \<subseteq> pool_indices p"
      unfolding submit_next_facts using set_drop_at [of k "po_pending p"] by (auto simp: pool_indices_def)
    ultimately show thesis using that [of ?n] a g ok' i by simp
  qed
qed

lemma run_pool_ok:
  assumes "pool_ok us p" "distinct (map ti_index us)" "run_pool E scopes batch sched p s = (p', s', sched')"
  shows "pool_ok us p' \<and> po_pending p' = [] \<and> grows (pool_indices p) (pool_left p) s s'"
  using assms
proof (induction E scopes batch sched p s rule: run_pool.induct)
  case (1 E scopes batch sched p s)
  have nd: "list_all (\<lambda>(item, ph). result_of ph = None) (po_pending p)" using "1.prems"(1) by (simp add: pool_ok_def)
  show ?case
  proof (cases "po_pending p = []")
    case True
    then have "p' = p" "s' = s" using "1.prems"(3) by (simp_all add: run_pool.simps [of E scopes batch sched p s])
    then show ?thesis using True "1.prems"(1) grows_refl by blast
  next
    case False
    let ?k = "pick sched p" and ?q = "advance E scopes batch (pick sched p) p s"
    have k: "?k < length (po_pending p)" using False by (simp add: pick_def split: list.split)
    obtain n where n: "pool_ok us (fst ?q)"
      "grows (pool_indices p) (\<lambda>i. if i = ti_index (fst (po_pending p ! ?k)) then n else 0) s (snd ?q)"
      "\<And>i. pool_left (fst ?q) i + (if i = ti_index (fst (po_pending p ! ?k)) then n else 0) \<le> pool_left p i"
      "pool_indices (fst ?q) \<subseteq> pool_indices p" using advance_ok [OF "1.prems"(1) k "1.prems"(2), where E = E and scopes = scopes and batch = batch and s = s] by blast
    have c: "\<not> (po_pending p = [] \<or> \<not> list_all (\<lambda>(item, ph). result_of ph = None) (po_pending p))" using False nd by simp
    have r: "run_pool E scopes batch (tl sched) (fst ?q) (snd ?q) = (p', s', sched')"
      using "1.prems"(3) c by (simp add: run_pool.simps [of E scopes batch sched p s] Let_def)
    have h: "pool_ok us p' \<and> po_pending p' = [] \<and> grows (pool_indices (fst ?q)) (pool_left (fst ?q)) (snd ?q) s'"
      using "1.IH" [OF c refl n(1) "1.prems"(2) r] .
    have "grows (pool_indices p) (pool_left p) s s'"
      by (rule grows_mono [OF grows_trans [OF n(2) conjunct2 [OF conjunct2 [OF h]]]]) (use n(3,4) in \<open>auto simp: add.commute\<close>)
    then show ?thesis using h by blast
  qed
qed

lemma start_pool_ok:
  assumes "0 < workers"
  shows "pool_ok us (start_pool workers us) \<and> pool_left (start_pool workers us) = count_list (map ti_index us) \<and>
    pool_indices (start_pool workers us) = ti_index ` set us"
proof -
  let ?p0 = "\<lparr>po_rest = us, po_pending = [], po_results = []\<rparr>"
  have "list_all (\<lambda>(item, ph). result_of ph = None) (po_pending p) \<and>
    mset (map ti_index (po_rest p)) + mset (map (ti_index \<circ> fst) (po_pending p)) + mset (keys (po_results p)) = mset (map ti_index us) \<and>
    set (po_rest p) \<union> fst ` set (po_pending p) \<subseteq> set us \<and> po_results p = [] \<and> pool_left p = count_list (map ti_index us) \<and> pool_indices p = ti_index ` set us"
    if "p = (submit_next ^^ n) ?p0" for n p
    using that
  proof (induction n arbitrary: p)
    case 0
    then show ?case by (auto simp: pool_left_def pool_indices_def fun_eq_iff)
  next
    case (Suc n)
    let ?q = "(submit_next ^^ n) ?p0"
    have p: "p = submit_next ?q" using Suc.prems by simp
    have h: "list_all (\<lambda>(item, ph). result_of ph = None) (po_pending ?q)"
      "mset (map ti_index (po_rest ?q)) + mset (map (ti_index \<circ> fst) (po_pending ?q)) + mset (keys (po_results ?q)) = mset (map ti_index us)"
      "set (po_rest ?q) \<union> fst ` set (po_pending ?q) \<subseteq> set us" "po_results ?q = []" "pool_left ?q = count_list (map ti_index us)"
      "pool_indices ?q = ti_index ` set us" using Suc.IH [OF refl] by blast+
    have "pool_ok us p" unfolding p by (rule submit_next_ok [OF h(1-3)]) (simp add: h(4))
    moreover have "po_results p = []" using h(4) unfolding p by (simp add: submit_next_def split: list.split)
    ultimately show ?case using h(5,6) unfolding p pool_ok_def submit_next_facts fun_eq_iff by blast
  qed
  from this [OF refl, of workers] have h: "list_all (\<lambda>(item, ph). result_of ph = None) (po_pending (start_pool workers us))"
    "mset (map ti_index (po_rest (start_pool workers us))) + mset (map (ti_index \<circ> fst) (po_pending (start_pool workers us))) +
       mset (keys (po_results (start_pool workers us))) = mset (map ti_index us)"
    "set (po_rest (start_pool workers us)) \<union> fst ` set (po_pending (start_pool workers us)) \<subseteq> set us"
    "po_results (start_pool workers us) = []" "pool_left (start_pool workers us) = count_list (map ti_index us)"
    "pool_indices (start_pool workers us) = ti_index ` set us" unfolding start_pool_def by blast+
  have "po_pending p = [] \<longrightarrow> po_rest p = []" if "p = (submit_next ^^ Suc n) ?p0" for n p
  proof -
    have "p = submit_next ((submit_next ^^ n) ?p0)" using that by simp
    then show ?thesis by (auto simp: submit_next_def split: list.split)
  qed
  from this [of "start_pool workers us" "workers - 1"] assms
  have "po_pending (start_pool workers us) = [] \<longrightarrow> po_rest (start_pool workers us) = []" by (simp add: start_pool_def)
  then show ?thesis using h by (simp add: pool_ok_def)
qed

section \<open>Duplicates\<close>

definition dups_of :: "'w batch_plan \<Rightarrow> 'w tool_input \<Rightarrow> 'w tool_input list" where
  "dups_of b rep = get_or (bp_duplicates b) (ti_index rep) []"

lemma concat_update_one:
  assumes "distinct (map f us)" "u \<in> set us"
  shows "mset (concat (map (\<lambda>v. get_or (AList.update (f u) (get_or d (f u) [] @ [x]) d) (f v) []) us)) =
    add_mset x (mset (concat (map (\<lambda>v. get_or d (f v) []) us)))"
  using assms
proof (induction us)
  case (Cons w us)
  show ?case
  proof (cases "w = u")
    case True
    then have n: "f v \<noteq> f u" if "v \<in> set us" for v
    proof -
      have "f u \<notin> f ` set us" using Cons.prems(1) True by simp
      then show ?thesis using that by (metis imageI)
    qed
    have "concat (map (\<lambda>v. get_or (AList.update (f u) (get_or d (f u) [] @ [x]) d) (f v) []) us) = concat (map (\<lambda>v. get_or d (f v) []) us)"
      by (intro arg_cong [of _ _ concat] map_cong refl) (simp add: n)
    then show ?thesis unfolding list.map concat.simps mset_append True by simp
  next
    case False
    then have "f w \<noteq> f u" using Cons.prems by force
    then show ?thesis using Cons False by simp
  qed
qed simp

definition plan_ok :: "'w run_env \<Rightarrow> (nat, string) dict \<Rightarrow> 'w tool_input list \<Rightarrow> 'w batch_plan \<Rightarrow> bool" where
  "plan_ok E scopes calls b \<longleftrightarrow> mset (bp_unique b) + mset (concat (map (dups_of b) (bp_unique b))) = mset calls \<and>
    set (keys (bp_duplicates b)) \<subseteq> ti_index ` set (bp_unique b) \<and>
    (\<forall>(k, rep) \<in> set (bp_representatives b). rep \<in> set (bp_unique b)) \<and>
    (\<forall>item \<in> set (bp_unique b). \<forall>k. cache_key (re_keys E) item (map_of scopes (ti_index item)) = Some k \<longrightarrow>
       map_of (bp_representatives b) k = Some item)"

lemma plan_call_ok:
  assumes ok: "plan_ok E scopes calls b" and d: "distinct (map ti_index (calls @ [item]))"
  shows "plan_ok E scopes (calls @ [item]) (plan_call E scopes b item)"
proof -
  have sub: "set (bp_unique b) \<subseteq> set calls" using ok by (metis plan_ok_def set_mset_mset set_mset_union Un_upper1)
  have new: "ti_index item \<notin> ti_index ` set (bp_unique b)" using d sub by auto
  then have nd: "ti_index item \<notin> set (keys (bp_duplicates b))" using ok by (auto simp: plan_ok_def)
  have "mset (bp_unique b @ concat (map (dups_of b) (bp_unique b))) = mset calls" using ok by (simp add: plan_ok_def)
  then have "mset (map ti_index (bp_unique b @ concat (map (dups_of b) (bp_unique b)))) = mset (map ti_index calls)" by (simp only: mset_map)
  then have "distinct (map ti_index (bp_unique b @ concat (map (dups_of b) (bp_unique b))))"
    using d by (metis distinct_append map_append mset_eq_imp_distinct_iff)
  then have du: "distinct (map ti_index (bp_unique b))" by simp
  have z: "get_or (bp_duplicates b) (ti_index item) [] = []" using nd by (auto simp: get_or_def map_of_None_keys [THEN iffD2] split: option.split)
  have m: "mset (bp_unique b) + mset (concat (map (dups_of b) (bp_unique b))) = mset calls" using ok by (simp add: plan_ok_def)
  let ?k = "cache_key (re_keys E) item (map_of scopes (ti_index item))"
  show ?thesis
  proof (cases ?k)
    case None
    then show ?thesis using ok z m unfolding plan_ok_def plan_call_def dups_of_def by auto
  next
    case (Some key)
    show ?thesis
    proof (cases "map_of (bp_representatives b) key")
      case None
      have "key \<notin> set (keys (bp_representatives b))" using None by (simp add: map_of_eq_None_iff)
      then have up: "AList.update key item (bp_representatives b) = bp_representatives b @ [(key, item)]" by (rule update_new)
      then show ?thesis using ok z m Some None unfolding plan_ok_def plan_call_def dups_of_def by (auto simp: map_add_def)
    next
      case (Some rep)
      then have rep: "rep \<in> set (bp_unique b)" using ok by (auto simp: plan_ok_def dest: map_of_SomeD)
      have "mset (concat (map (dups_of (plan_call E scopes b item)) (bp_unique b))) = add_mset item (mset (concat (map (dups_of b) (bp_unique b))))"
        using concat_update_one [OF du rep, of "bp_duplicates b" item] \<open>?k = Some key\<close> Some by (simp add: plan_call_def dups_of_def [abs_def])
      moreover have "set (keys (bp_duplicates (plan_call E scopes b item))) \<subseteq> ti_index ` set (bp_unique b)"
        using ok rep \<open>?k = Some key\<close> Some by (simp add: plan_call_def plan_ok_def keys_update del: set_map)
      ultimately show ?thesis using ok m \<open>?k = Some key\<close> Some by (simp add: plan_ok_def plan_call_def)
    qed
  qed
qed

lemma plan_batch_ok:
  assumes "distinct (map ti_index calls)"
  shows "plan_ok E scopes calls (plan_batch E scopes calls)"
  using assms
proof (induction calls rule: rev_induct)
  case Nil
  then show ?case by (simp add: plan_batch_def plan_ok_def)
next
  case (snoc item calls)
  then show ?case using plan_call_ok [of E scopes calls "plan_batch E scopes calls" item] by (simp add: plan_batch_def)
qed

section \<open>A batch\<close>

text \<open>Every call is answered, once, and invoked at most once.\<close>

definition batch_ok :: "'w tool_input list \<Rightarrow> 'w runtime \<Rightarrow> tool_result list \<Rightarrow> 'w runtime \<Rightarrow> bool" where
  "batch_ok calls s rs s' \<longleftrightarrow> mset (map tt_index rs) = mset (map ti_index calls) \<and> (\<forall>r \<in> set rs. \<exists>item \<in> set calls. answers item r) \<and>
    grows (ti_index ` set calls) (count_list (map ti_index calls)) s s'"

lemma dispatch_grows:
  "grows (ti_index ` set calls) (\<lambda>i. 0) s (foldl (\<lambda>s item. emit_event item ''parallel_dispatch'' p s) s calls)"
proof (induction calls arbitrary: s)
  case Nil
  then show ?case by (simp add: grows_refl)
next
  case (Cons item calls)
  have "grows {ti_index item} (\<lambda>i. 0) s (emit_event item ''parallel_dispatch'' p s)"
    using extends_grows [OF extends_emit0 [OF extends_same [OF refl]], of "''parallel_dispatch''" item s p] by simp
  from grows_trans [OF this Cons.IH] show ?case by simp
qed

lemma copy_events_grow:
  "grows (ti_index ` fst ` set cs) (\<lambda>i. 0) s (fold (copy_event scopes) cs s)"
proof (induction cs arbitrary: s)
  case Nil
  then show ?case by (simp add: grows_refl)
next
  case (Cons c cs)
  have "grows {ti_index (fst c)} (\<lambda>i. 0) s (copy_event scopes c s)"
    using extends_grows [OF extends_emit0 [OF extends_same [OF refl]], of "''cache_hit''" "fst c" s] by (simp add: copy_event_def)
  from grows_trans [OF this Cons.IH] show ?case by simp
qed

lemma copy_answers: "answers item (copy_result_for_tool_call r item hit)"
  by (simp add: answers_def copy_result_for_tool_call_def build_tool_message_def Let_def)

lemma copies_items:
  assumes "\<forall>u \<in> set (bp_unique b). map_of results (ti_index u) \<noteq> None"
  shows "map fst (copies scopes results b) = concat (map (dups_of b) (bp_unique b))"
  unfolding copies_def map_concat map_map
proof (intro arg_cong [of _ _ concat] map_cong refl)
  fix u assume "u \<in> set (bp_unique b)"
  then show "(map fst \<circ> (\<lambda>rep. case map_of results (ti_index rep) of None \<Rightarrow> []
      | Some source \<Rightarrow> map (\<lambda>d. (d, copy_result_for_tool_call source d (tg_status (tt_message source) \<noteq> ''error'')))
          (get_or (bp_duplicates b) (ti_index rep) []))) u = dups_of b u"
    using assms by (auto simp: dups_of_def comp_def split: option.split)
qed

lemma copies_answer: "(d, r) \<in> set (copies scopes results b) \<Longrightarrow> answers d r"
  by (auto simp: copies_def copy_answers split: option.splits)

lemma unique_results:
  assumes "\<forall>(i, r) \<in> set d. \<exists>item \<in> set us. ti_index item = i \<and> answers item r" "\<forall>u \<in> set us. map_of d (ti_index u) \<noteq> None"
  shows "map tt_index (concat (map (\<lambda>u. case map_of d (ti_index u) of None \<Rightarrow> [] | Some r \<Rightarrow> [r]) us)) = map ti_index us \<and>
    (\<forall>r \<in> set (concat (map (\<lambda>u. case map_of d (ti_index u) of None \<Rightarrow> [] | Some r \<Rightarrow> [r]) us)). \<exists>item \<in> set us. answers item r)"
proof -
  have e: "tt_index r = ti_index u \<and> (\<exists>item \<in> set us. answers item r)" if "map_of d (ti_index u) = Some r" for u r
    using assms(1) map_of_SomeD [OF that] by (auto simp: answers_def)
  have "map tt_index (case map_of d (ti_index u) of None \<Rightarrow> [] | Some r \<Rightarrow> [r]) = [ti_index u]" if "u \<in> set us" for u
    using assms(2) that e by (auto split: option.split)
  then have "map tt_index (concat (map (\<lambda>u. case map_of d (ti_index u) of None \<Rightarrow> [] | Some r \<Rightarrow> [r]) us)) = concat (map (\<lambda>u. [ti_index u]) us)"
    unfolding map_concat map_map comp_def by (intro arg_cong [of _ _ concat] map_cong refl)
  moreover have "concat (map (\<lambda>u. [ti_index u]) us) = map ti_index us" by (induction us) simp_all
  moreover have "\<exists>item \<in> set us. answers item r" if "Some r = map_of d (ti_index u)" for u r using e [OF that [symmetric]] ..
  ultimately show ?thesis using e by (auto split: option.splits)
qed

lemma multi_batch_ok:
  assumes d: "distinct (map ti_index calls)" and n: "length calls \<noteq> 1"
    and r: "run_parallel_batch E scopes mw sched calls s = (rs, s', sched')"
  shows "mset (map tt_index rs) = mset (map ti_index calls) \<and> (\<forall>r \<in> set rs. \<exists>item \<in> set calls. answers item r) \<and>
    grows (ti_index ` set calls) (count_list (map ti_index (bp_unique (plan_batch E scopes calls)))) s s'"
proof -
  define b where "b = plan_batch E scopes calls"
  define s0 where "s0 = foldl (\<lambda>s item. emit_event item ''parallel_dispatch'' [(''batch_size'', PInt (int (length calls)))] s) s calls"
  let ?us = "bp_unique b"
  define workers where "workers = nat (max 1 (min (int (length ?us)) mw))"
  have w: "0 < workers" by (simp add: workers_def)
  obtain p s1 sched1 where q: "run_pool E scopes (length calls) sched (start_pool workers ?us) s0 = (p, s1, sched1)" by (metis prod.exhaust)
  define cs where "cs = copies scopes (po_results p) b"
  have rs: "rs = concat (map (\<lambda>item. case map_of (po_results p) (ti_index item) of None \<Rightarrow> [] | Some r \<Rightarrow> [r]) ?us) @ map snd cs"
    "s' = fold (copy_event scopes) cs s1"
    using r n by (simp_all add: run_parallel_batch_def Let_def b_def [symmetric] s0_def [symmetric] workers_def [symmetric] q cs_def)
  have pl: "plan_ok E scopes calls b" unfolding b_def by (rule plan_batch_ok [OF d])
  have m: "mset (?us @ concat (map (dups_of b) ?us)) = mset calls" using pl by (simp add: plan_ok_def)
  have mi: "mset (map ti_index (?us @ concat (map (dups_of b) ?us))) = mset (map ti_index calls)" using m by (simp only: mset_map)
  have sub: "set ?us \<subseteq> set calls" "set (concat (map (dups_of b) ?us)) \<subseteq> set calls" using mset_eq_setD [OF m] by auto
  have du: "distinct (map ti_index ?us)" using d mi by (metis distinct_append map_append mset_eq_imp_distinct_iff)
  have st: "pool_ok ?us (start_pool workers ?us)" "pool_left (start_pool workers ?us) = count_list (map ti_index ?us)"
    "pool_indices (start_pool workers ?us) = ti_index ` set ?us" using start_pool_ok [OF w, of ?us] by simp_all
  have po: "pool_ok ?us p" "po_pending p = []" "grows (ti_index ` set ?us) (count_list (map ti_index ?us)) s0 s1"
    using run_pool_ok [OF st(1) du q] st(2,3) by simp_all
  have ks: "mset (keys (po_results p)) = mset (map ti_index ?us)" "\<forall>(i, r) \<in> set (po_results p). \<exists>item \<in> set ?us. ti_index item = i \<and> answers item r"
  proof -
    have "po_rest p = []" using po(1,2) unfolding pool_ok_def by blast
    then show "mset (keys (po_results p)) = mset (map ti_index ?us)" using po(1,2) by (simp add: pool_ok_def)
    show "\<forall>(i, r) \<in> set (po_results p). \<exists>item \<in> set ?us. ti_index item = i \<and> answers item r" using po(1) unfolding pool_ok_def by blast
  qed
  have "set (keys (po_results p)) = set (map ti_index ?us)" by (rule mset_eq_setD [OF ks(1)])
  then have all: "\<forall>u \<in> set ?us. map_of (po_results p) (ti_index u) \<noteq> None" by (auto simp: map_of_eq_None_iff)
  note ur = unique_results [OF ks(2) all]
  have ci: "map fst cs = concat (map (dups_of b) ?us)" unfolding cs_def by (rule copies_items [OF all])
  have ca: "answers d r" if "(d, r) \<in> set cs" for d r using copies_answer that unfolding cs_def by blast
  have "map tt_index (map snd cs) = map ti_index (map fst cs)" using ca by (auto simp: answers_def)
  then have "map tt_index rs = map ti_index (?us @ concat (map (dups_of b) ?us))" unfolding rs(1) ci [symmetric] using ur by simp
  then have a: "mset (map tt_index rs) = mset (map ti_index calls)" using mi by simp
  have fs: "fst ` set cs \<subseteq> set calls" using arg_cong [OF ci, of set] sub(2) by simp
  have b: "\<exists>item \<in> set calls. answers item r" if "r \<in> set rs" for r
  proof (cases "r \<in> snd ` set cs")
    case True
    then obtain dd where "(dd, r) \<in> set cs" by auto
    then show ?thesis using ca fs by force
  next
    case False
    then have "r \<in> set (concat (map (\<lambda>item. case map_of (po_results p) (ti_index item) of None \<Rightarrow> [] | Some r \<Rightarrow> [r]) ?us))"
      using that unfolding rs(1) set_append set_map by blast
    then show ?thesis using conjunct2 [OF ur] sub(1) by blast
  qed
  have g0: "grows (ti_index ` set calls) (\<lambda>i. 0) s s0" unfolding s0_def by (rule dispatch_grows)
  have g1: "grows (ti_index ` fst ` set cs) (\<lambda>i. 0) s1 s'" unfolding rs(2) by (rule copy_events_grow)
  have g: "grows (ti_index ` set calls) (count_list (map ti_index ?us)) s s'"
    by (rule grows_mono [OF grows_trans [OF grows_trans [OF g0 po(3)] g1]]) (use sub fs in auto)
  show ?thesis using a b g unfolding b_def by blast
qed

lemma run_parallel_batch_ok:
  assumes d: "distinct (map ti_index calls)" and r: "run_parallel_batch E scopes mw sched calls s = (rs, s', sched')"
  shows "batch_ok calls s rs s'"
proof (cases "length calls = 1")
  case False
  let ?us = "bp_unique (plan_batch E scopes calls)"
  have "mset (?us @ concat (map (dups_of (plan_batch E scopes calls)) ?us)) = mset calls"
    using plan_batch_ok [OF d, of E scopes] by (simp add: plan_ok_def)
  then have "mset (map ti_index ?us) \<subseteq># mset (map ti_index calls)"
    by (metis image_mset_subseteq_mono mset_append mset_map mset_subset_eq_add_left)
  then have "count_list (map ti_index ?us) i \<le> count_list (map ti_index calls) i" for i
    by (metis count_mset mset_subset_eq_count)
  then show ?thesis using multi_batch_ok [OF d False r] unfolding batch_ok_def using grows_mono by blast
next
  case True
  then obtain item where c: "calls = [item]" by (auto simp: length_Suc_conv)
  let ?s0 = "emit_event item ''parallel_dispatch'' [(''batch_size'', PInt 1)] s"
  obtain x s1 where x: "execute_single E (map_of scopes (ti_index item)) (Some 1) item ?s0 = (x, s1)" by fastforce
  have e: "rs = [x]" "s' = s1" using r x by (simp_all add: run_parallel_batch_def c)
  obtain n where n: "n \<le> 1" "extends item n ?s0 s1" "answers item x"
    using execute_single_ok [of item ?s0 E "map_of scopes (ti_index item)" "Some 1"] x by auto
  have "extends item n s s1" by (rule extends_trans0 [OF extends_emit0 [OF extends_same [OF refl]] n(2)]) simp
  then have "grows {ti_index item} (\<lambda>i. if i = ti_index item then n else 0) s s1" by (rule extends_grows)
  then have "grows {ti_index item} (count_list [ti_index item]) s s1" by (rule grows_mono) (use n(1) in auto)
  then show ?thesis using n(3) by (simp add: batch_ok_def c e answers_def)
qed

text \<open>A call whose key an earlier call of the batch has is not invoked.\<close>

lemma duplicate_not_unique:
  assumes d: "distinct (map ti_index calls)" and c: "calls = xs @ a # ys @ b # zs"
    and k: "cache_key (re_keys E) a (map_of scopes (ti_index a)) = Some k" "cache_key (re_keys E) b (map_of scopes (ti_index b)) = Some k"
  shows "ti_index b \<notin> ti_index ` set (bp_unique (plan_batch E scopes calls))"
proof -
  have keep: "map_of (bp_representatives (foldl (plan_call E scopes) p cs)) k \<noteq> None" if "map_of (bp_representatives p) k \<noteq> None" for p cs
    using that
  proof (induction cs arbitrary: p)
    case (Cons x cs)
    have "map_of (bp_representatives (plan_call E scopes p x)) k \<noteq> None" using Cons.prems by (auto simp: plan_call_def split: option.split)
    then show ?case using Cons.IH by simp
  qed simp
  let ?p0 = "\<lparr>bp_unique = [], bp_duplicates = [], bp_representatives = []\<rparr>"
  let ?pa = "foldl (plan_call E scopes) ?p0 (xs @ [a])" and ?pb = "foldl (plan_call E scopes) ?p0 (xs @ a # ys)"
  have "map_of (bp_representatives ?pa) k \<noteq> None" using k(1) by (auto simp: plan_call_def split: option.split)
  then have rep: "map_of (bp_representatives ?pb) k \<noteq> None" using keep [of ?pa ys] by simp
  have u: "set (bp_unique (foldl (plan_call E scopes) p cs)) \<subseteq> set (bp_unique p) \<union> set cs" for p cs
  proof (induction cs arbitrary: p)
    case (Cons x cs)
    have "set (bp_unique (plan_call E scopes p x)) \<subseteq> insert x (set (bp_unique p))" by (auto simp: plan_call_def split: option.split)
    then show ?case using Cons.IH [of "plan_call E scopes p x"] by auto
  qed simp
  have "bp_unique (plan_call E scopes ?pb b) = bp_unique ?pb" using rep k(2) by (auto simp: plan_call_def split: option.split)
  then have "set (bp_unique (plan_batch E scopes calls)) \<subseteq> set (bp_unique ?pb) \<union> set zs"
    using u [of "plan_call E scopes ?pb b" zs] by (simp add: plan_batch_def c)
  then have "set (bp_unique (plan_batch E scopes calls)) \<subseteq> set (xs @ a # ys) \<union> set zs" using u [of ?p0 "xs @ a # ys"] by auto
  moreover have "ti_index b \<notin> ti_index ` (set (xs @ a # ys) \<union> set zs)" using d unfolding c by auto
  ultimately show ?thesis by blast
qed

section \<open>The calls of a turn\<close>

text \<open>From one point of the loop to another: the waiting calls and those taken up are answered or wait.\<close>

definition run_ok :: "'w tool_input list \<Rightarrow> 'w tool_run \<Rightarrow> 'w tool_run \<Rightarrow> bool" where
  "run_ok calls q q' \<longleftrightarrow> (\<exists>rs g. tn_completed q' = tn_completed q @ rs \<and>
     mset (map tt_index rs) + mset (map ti_index (tn_waiting q')) = mset (map ti_index (tn_waiting q @ calls)) \<and>
     set (tn_waiting q') \<subseteq> set (tn_waiting q @ calls) \<and> (\<forall>r \<in> set rs. \<exists>item \<in> set (tn_waiting q @ calls). answers item r) \<and>
     (\<forall>i. g i + count_list (map ti_index (tn_waiting q')) i \<le> count_list (map ti_index (tn_waiting q @ calls)) i) \<and>
     grows (ti_index ` set (tn_waiting q @ calls)) g (tn_state q) (tn_state q'))"

lemma run_okE:
  assumes "run_ok calls q q'"
  obtains rs g where "mset (map tt_index rs) + mset (map ti_index (tn_waiting q')) = mset (map ti_index (tn_waiting q @ calls))"
    "tn_completed q' = tn_completed q @ rs" "\<forall>r \<in> set rs. \<exists>item \<in> set (tn_waiting q @ calls). answers item r"
    "\<forall>i. g i + count_list (map ti_index (tn_waiting q')) i \<le> count_list (map ti_index (tn_waiting q @ calls)) i"
    "grows (ti_index ` set (tn_waiting q @ calls)) g (tn_state q) (tn_state q')"
  using assms unfolding run_ok_def by (elim exE conjE) (rule that)

lemma run_ok_trans:
  assumes "run_ok xs q q1" "run_ok ys q1 q2"
  shows "run_ok (xs @ ys) q q2"
proof -
  obtain rs g where a: "tn_completed q1 = tn_completed q @ rs"
    "mset (map tt_index rs) + mset (map ti_index (tn_waiting q1)) = mset (map ti_index (tn_waiting q @ xs))"
    "set (tn_waiting q1) \<subseteq> set (tn_waiting q @ xs)" "\<forall>r \<in> set rs. \<exists>item \<in> set (tn_waiting q @ xs). answers item r"
    "\<forall>i. g i + count_list (map ti_index (tn_waiting q1)) i \<le> count_list (map ti_index (tn_waiting q @ xs)) i"
    "grows (ti_index ` set (tn_waiting q @ xs)) g (tn_state q) (tn_state q1)" using assms(1) unfolding run_ok_def by blast
  obtain rs' g' where b: "tn_completed q2 = tn_completed q1 @ rs'"
    "mset (map tt_index rs') + mset (map ti_index (tn_waiting q2)) = mset (map ti_index (tn_waiting q1 @ ys))"
    "set (tn_waiting q2) \<subseteq> set (tn_waiting q1 @ ys)" "\<forall>r \<in> set rs'. \<exists>item \<in> set (tn_waiting q1 @ ys). answers item r"
    "\<forall>i. g' i + count_list (map ti_index (tn_waiting q2)) i \<le> count_list (map ti_index (tn_waiting q1 @ ys)) i"
    "grows (ti_index ` set (tn_waiting q1 @ ys)) g' (tn_state q1) (tn_state q2)" using assms(2) unfolding run_ok_def by blast
  have sub: "set (tn_waiting q1 @ ys) \<subseteq> set (tn_waiting q @ xs @ ys)" using a(3) by auto
  have "mset (map tt_index (rs @ rs')) + mset (map ti_index (tn_waiting q2)) = mset (map ti_index (tn_waiting q @ xs @ ys))"
    using a(2) b(2) by (simp add: union_assoc)
  moreover have "\<forall>i. (g i + g' i) + count_list (map ti_index (tn_waiting q2)) i \<le> count_list (map ti_index (tn_waiting q @ xs @ ys)) i"
  proof
    show "(g i + g' i) + count_list (map ti_index (tn_waiting q2)) i \<le> count_list (map ti_index (tn_waiting q @ xs @ ys)) i" for i
      using a(5) [rule_format, of i] b(5) [rule_format, of i] by simp
  qed
  moreover have "\<forall>r \<in> set (rs @ rs'). \<exists>item \<in> set (tn_waiting q @ xs @ ys). answers item r" using a(4) b(4) sub by fastforce
  moreover have "grows (ti_index ` set (tn_waiting q @ xs @ ys)) (\<lambda>i. g i + g' i) (tn_state q) (tn_state q2)"
    by (rule grows_mono [OF grows_trans [OF a(6) b(6)]]) (use sub in auto)
  moreover have "tn_completed q2 = tn_completed q @ rs @ rs'" using a(1) b(1) by simp
  moreover have "set (tn_waiting q2) \<subseteq> set (tn_waiting q @ xs @ ys)" using b(3) sub by blast
  ultimately show ?thesis unfolding run_ok_def by (intro exI [of _ "rs @ rs'"] exI [of _ "\<lambda>i. g i + g' i"]) (simp only: simp_thms)
qed

lemma flush_ok:
  assumes "distinct (map ti_index (tn_waiting q))"
  shows "run_ok [] q (flush_parallel E L q) \<and> tn_waiting (flush_parallel E L q) = []"
proof (cases "tn_waiting q = []")
  case True
  have "run_ok [] q q" unfolding run_ok_def using grows_refl [OF refl]
    by (intro exI [of _ "[]"] exI [of _ "\<lambda>i. 0"]) auto
  then show ?thesis using True by (simp add: flush_parallel_def)
next
  case False
  obtain rs s' sched' where r: "run_parallel_batch E (tl_scopes L) (tl_workers L) (tn_sched q) (tn_waiting q) (tn_state q) = (rs, s', sched')"
    by (metis prod.exhaust)
  have "batch_ok (tn_waiting q) (tn_state q) rs s'" by (rule run_parallel_batch_ok [OF assms r])
  then show ?thesis using False r unfolding run_ok_def batch_ok_def
    by (simp add: flush_parallel_def) (rule exI [of _ "count_list (map ti_index (tn_waiting q))"], simp)
qed

lemma serialized_ok:
  assumes "tn_waiting q = []"
  shows "run_ok [item] q (run_serialized E L item q) \<and> tn_waiting (run_serialized E L item q) = []"
proof -
  obtain r s' where x: "execute_single E (map_of (tl_scopes L) (ti_index item)) None item (tn_state q) = (r, s')" by fastforce
  obtain n where n: "n \<le> 1" "extends item n (tn_state q) s'" "answers item r"
    using execute_single_ok [of item "tn_state q" E "map_of (tl_scopes L) (ti_index item)" None] x by auto
  let ?q' = "run_serialized E L item q"
  have q': "tn_completed ?q' = tn_completed q @ [r]" "tn_waiting ?q' = []" "rt_events (tn_state ?q') = rt_events s'"
    using assms x by (simp_all add: run_serialized_def)
  have "extends item n (tn_state q) (tn_state ?q')" by (rule extends_then0 [OF n(2) extends_same [OF q'(3)]])
  then have "grows {ti_index item} (\<lambda>i. if i = ti_index item then n else 0) (tn_state q) (tn_state ?q')" by (rule extends_grows)
  then show ?thesis using q' n(1,3) assms unfolding run_ok_def
    by (intro conjI exI [of _ "[r]"] exI [of _ "\<lambda>i. if i = ti_index item then n else 0"]) (auto simp: answers_def)
qed

lemma run_call_ok:
  assumes "distinct (map ti_index (tn_waiting q @ [item]))"
  shows "run_ok [item] q (run_call E L q item)"
proof (cases "classify_tool_parallel_execution (ti_runtime item) = Parallel_safe")
  case True
  then show ?thesis unfolding run_ok_def run_call_def using grows_refl [OF refl]
    by (intro exI [of _ "[]"] exI [of _ "\<lambda>i. 0"]) (auto simp: grows_refl)
next
  case False
  have f: "run_ok [] q (flush_parallel E L q)" "tn_waiting (flush_parallel E L q) = []" using flush_ok assms by auto
  show ?thesis using run_ok_trans [OF f(1) conjunct1 [OF serialized_ok [OF f(2)]], of item E L] False by (simp add: run_call_def)
qed

lemma run_calls_ok:
  assumes "distinct (map ti_index (tn_waiting q @ calls))"
  shows "run_ok calls q (foldl (run_call E L) q calls)"
  using assms
proof (induction calls arbitrary: q)
  case Nil
  show ?case unfolding run_ok_def using grows_refl [OF refl] by (intro exI [of _ "[]"] exI [of _ "\<lambda>i. 0"]) (auto simp: grows_refl)
next
  case (Cons item calls)
  have a: "run_ok [item] q (run_call E L q item)" by (rule run_call_ok) (use Cons.prems in auto)
  from a obtain rs :: "tool_result list" where "mset (map tt_index rs) + mset (map ti_index (tn_waiting (run_call E L q item))) = mset (map ti_index (tn_waiting q @ [item]))"
    by (rule run_okE) (rule that)
  then have "mset (map tt_index rs @ map ti_index (tn_waiting (run_call E L q item) @ calls)) = mset (map ti_index (tn_waiting q @ item # calls))"
    by simp
  then have "distinct (map ti_index (tn_waiting (run_call E L q item) @ calls))"
    using Cons.prems by (metis distinct_append mset_eq_imp_distinct_iff)
  from run_ok_trans [OF a Cons.IH [OF this]] show ?case by simp
qed

lemma count_distinct: "distinct xs \<Longrightarrow> count_list xs i \<le> (if i \<in> set xs then 1 else 0)"
  by (induction xs) auto

lemma advance_cache: "rt_cache_ok s \<Longrightarrow> rt_cache_ok (snd (advance E scopes batch k p s))"
proof -
  assume a: "rt_cache_ok s"
  obtain item ph where i: "po_pending p ! k = (item, ph)" by fastforce
  show ?thesis using phase_cache [OF a, of E "map_of scopes (ti_index item)" "Some batch" item ph] i
    by (simp add: advance_def split_beta split: option.split)
qed

lemma run_pool_cache: "rt_cache_ok s \<Longrightarrow> rt_cache_ok (fst (snd (run_pool E scopes batch sched p s)))"
proof (induction E scopes batch sched p s rule: run_pool.induct)
  case (1 E scopes batch sched p s)
  show ?case
  proof (cases "po_pending p = [] \<or> \<not> list_all (\<lambda>(item, ph). result_of ph = None) (po_pending p)")
    case True
    then show ?thesis using "1.prems" by (auto simp: run_pool.simps [of E scopes batch sched p s])
  next
    case False
    then show ?thesis using "1.IH" [OF False refl advance_cache [OF "1.prems"]]
      by (subst run_pool.simps) (simp only: if_False Let_def)
  qed
qed

lemma events_cache: "rt_cache (foldl (\<lambda>s item. emit_event item stage p s) s calls) = rt_cache s"
  "rt_cache (fold (copy_event scopes) cs s) = rt_cache s"
proof -
  show "rt_cache (foldl (\<lambda>s item. emit_event item stage p s) s calls) = rt_cache s" by (induction calls arbitrary: s) simp_all
  show "rt_cache (fold (copy_event scopes) cs s) = rt_cache s" by (induction cs arbitrary: s) (simp_all add: copy_event_def)
qed

lemma run_parallel_batch_cache:
  assumes "rt_cache_ok s"
  shows "rt_cache_ok (fst (snd (run_parallel_batch E scopes mw sched calls s)))"
proof -
  have e: "rt_cache_ok (foldl (\<lambda>s item. emit_event item stage p s) s calls)" for stage p using assms by (simp add: rt_cache_ok_def events_cache)
  have f: "rt_cache_ok (fold (copy_event scopes) cs s1) = rt_cache_ok s1" for cs s1 by (simp add: rt_cache_ok_def events_cache)
  show ?thesis using run_phases_cache [OF e] run_pool_cache [OF e]
    by (simp add: run_parallel_batch_def execute_single_def Let_def split_beta f)
qed

lemma invalidate_cache_ok: "cache_ok c \<Longrightarrow> cache_ok (fold (\<lambda>n. invalidate_namespace (Some n)) ns c)"
  by (induction ns arbitrary: c) (simp_all add: cache_ok_invalidate)

lemma flush_cache: "rt_cache_ok (tn_state q) \<Longrightarrow> rt_cache_ok (tn_state (flush_parallel E L q))"
  using run_parallel_batch_cache [of "tn_state q" E "tl_scopes L" "tl_workers L" "tn_sched q" "tn_waiting q"]
  by (simp add: flush_parallel_def split_beta)

lemma run_serialized_cache: "rt_cache_ok (tn_state q) \<Longrightarrow> rt_cache_ok (tn_state (run_serialized E L item q))"
proof -
  assume a: "rt_cache_ok (tn_state q)"
  obtain r s where x: "execute_single E (map_of (tl_scopes L) (ti_index item)) None item (tn_state q) = (r, s)" by fastforce
  then have "rt_cache_ok s" using run_phases_cache [OF a, of E "map_of (tl_scopes L) (ti_index item)" None item Ready] by (simp add: execute_single_def)
  then show ?thesis by (auto simp: run_serialized_def x rt_cache_ok_def invalidate_after_side_effect_def invalidate_cache_ok split: option.splits)
qed

lemma run_calls_cache: "rt_cache_ok (tn_state q) \<Longrightarrow> rt_cache_ok (tn_state (foldl (run_call E L) q calls))"
proof (induction calls arbitrary: q)
  case (Cons item calls)
  have "rt_cache_ok (tn_state (run_call E L q item))"
    using Cons.prems run_serialized_cache [OF flush_cache [OF Cons.prems]] by (simp add: run_call_def)
  then show ?case using Cons.IH by simp
qed simp

lemma execute_tool_calls_ok:
  assumes "sorted_wrt (<) (map ti_index calls)" "execute_tool_calls E L sched calls s = (rs, s')"
  shows "list_all2 answers calls rs \<and>
    (\<exists>ev. rt_events s' = rt_events s @ ev \<and> (\<forall>e \<in> set ev. te_index e \<in> ti_index ` set calls) \<and> (\<forall>i. invocations i ev \<le> 1))"
proof -
  have d: "distinct (map ti_index calls)" using assms(1) strict_sorted_iff by blast
  let ?q0 = "\<lparr>tn_waiting = [], tn_completed = [], tn_state = s, tn_sched = sched\<rparr>"
  let ?q1 = "foldl (run_call E L) ?q0 calls" let ?q2 = "flush_parallel E L ?q1"
  have r1: "run_ok calls ?q0 ?q1" by (rule run_calls_ok) (simp add: d)
  obtain xs :: "tool_result list" where "mset (map tt_index xs) + mset (map ti_index (tn_waiting ?q1)) = mset (map ti_index (tn_waiting ?q0 @ calls))"
    using r1 by (rule run_okE) (rule that)
  then have "mset (map tt_index xs @ map ti_index (tn_waiting ?q1)) = mset (map ti_index calls)" by simp
  then have "distinct (map ti_index (tn_waiting ?q1))" using d by (metis distinct_append mset_eq_imp_distinct_iff)
  note f = flush_ok [OF this, of E L]
  have r: "run_ok calls ?q0 ?q2" using run_ok_trans [OF r1 conjunct1 [OF f]] by simp
  have rs: "rs = sort_key tt_index (tn_completed ?q2)" "s' = tn_state ?q2" using assms(2) by (simp_all add: execute_tool_calls_def Let_def)
  obtain xs g where c0: "mset (map tt_index xs) + mset (map ti_index (tn_waiting ?q2)) = mset (map ti_index (tn_waiting ?q0 @ calls))"
    "tn_completed ?q2 = tn_completed ?q0 @ xs" "\<forall>r \<in> set xs. \<exists>item \<in> set (tn_waiting ?q0 @ calls). answers item r"
    "\<forall>i. g i + count_list (map ti_index (tn_waiting ?q2)) i \<le> count_list (map ti_index (tn_waiting ?q0 @ calls)) i"
    "grows (ti_index ` set (tn_waiting ?q0 @ calls)) g (tn_state ?q0) (tn_state ?q2)" using r by (rule run_okE) (rule that)
  have c: "mset (map tt_index (tn_completed ?q2)) = mset (map ti_index calls)"
    "\<forall>r \<in> set (tn_completed ?q2). \<exists>item \<in> set calls. answers item r" "\<forall>i. g i \<le> count_list (map ti_index calls) i"
    "grows (ti_index ` set calls) g s s'" using c0 conjunct2 [OF f] unfolding rs(2) by simp_all
  have "mset (map tt_index rs) = mset (map ti_index calls)" using c(1) by (simp add: rs(1))
  moreover have "sorted (map tt_index rs)" "sorted (map ti_index calls)" using assms(1) strict_sorted_iff by (auto simp: rs(1))
  ultimately have eq: "map tt_index rs = map ti_index calls" by (metis properties_for_sort)
  have l: "length rs = length calls" using arg_cong [OF eq, of length] by simp
  have "answers (calls ! k) (rs ! k)" if k: "k < length calls" for k
  proof -
    have "rs ! k \<in> set (tn_completed ?q2)" using k l rs(1) by (metis nth_mem set_sort)
    then obtain item where item: "item \<in> set calls" "answers item (rs ! k)" using c(2) by blast
    have "ti_index item = ti_index (calls ! k)" using item(2) eq k l by (metis answers_def nth_map)
    then have "item = calls ! k" using item(1) k d by (metis distinct_map inj_on_def nth_mem)
    then show ?thesis using item(2) by simp
  qed
  then have "list_all2 answers calls rs" using l by (simp add: list_all2_conv_all_nth)
  moreover have "g i \<le> 1" for i 
    using c(3) [rule_format, of i] count_distinct [OF d, of i] by (simp split: if_splits)
  ultimately show ?thesis using c(4) unfolding grows_def by (meson le_trans)
qed

section \<open>Properties\<close>

text \<open>Every call gets one answer, in order: whatever the tools, the cache and the schedule of the threads do, the
  calls of a turn, indexed in increasing order, are answered by one result each, in that order, under the call's own
  id and tool name, and no tool is invoked more than once for a call.\<close>

lemma calls_answered_in_order:
  assumes "sorted_wrt (<) (map ti_index calls)" "execute_tool_calls E L sched calls s = (rs, s')"
  shows "list_all2 answers calls rs \<and>
    (\<exists>ev. rt_events s' = rt_events s @ ev \<and> (\<forall>e \<in> set ev. te_index e \<in> ti_index ` set calls) \<and> (\<forall>i. invocations i ev \<le> 1))"
  by (rule execute_tool_calls_ok [OF assms])

text \<open>A call that is not parallel-safe runs alone: all its events lie between those of the calls before it and
  those of the calls after it.\<close>

lemma serialized_call_runs_alone:
  assumes "distinct (map ti_index (before @ item # after))"
    "classify_tool_parallel_execution (ti_runtime item) \<noteq> Parallel_safe"
    "execute_tool_calls E L sched (before @ item # after) s = (rs, s')"
  shows "\<exists>e1 e2 e3. rt_events s' = rt_events s @ e1 @ e2 @ e3 \<and> (\<forall>e \<in> set e1. te_index e \<in> ti_index ` set before) \<and>
    (\<forall>e \<in> set e2. te_index e = ti_index item) \<and> (\<forall>e \<in> set e3. te_index e \<in> ti_index ` set after)"
proof -
  let ?q0 = "\<lparr>tn_waiting = [], tn_completed = [], tn_state = s, tn_sched = sched\<rparr>"
  let ?q1 = "foldl (run_call E L) ?q0 before" let ?q2 = "flush_parallel E L ?q1"
  let ?q3 = "run_serialized E L item ?q2" let ?q4 = "foldl (run_call E L) ?q3 after" let ?q5 = "flush_parallel E L ?q4"
  have w: "distinct (map ti_index (tn_waiting q'))" if r: "run_ok xs q q'" and e: "tn_waiting q = []" and d: "distinct (map ti_index xs)"
    for xs :: "'a tool_input list" and q q'
  proof -
    obtain ys :: "tool_result list" where "mset (map tt_index ys) + mset (map ti_index (tn_waiting q')) = mset (map ti_index (tn_waiting q @ xs))"
      using r by (rule run_okE) (rule that)
    then have "mset (map tt_index ys @ map ti_index (tn_waiting q')) = mset (map ti_index xs)" using e by simp
    then show ?thesis using d by (metis distinct_append mset_eq_imp_distinct_iff)
  qed
  have a: "run_ok before ?q0 ?q1" by (rule run_calls_ok) (use assms(1) in auto)
  note f1 = flush_ok [OF w [OF a], of E L]
  have "run_ok before ?q0 ?q2" using run_ok_trans [OF a conjunct1 [OF f1]] assms(1) by simp
  then obtain g1 where g1: "grows (ti_index ` set before) g1 s (tn_state ?q2)" unfolding run_ok_def by auto
  have w2: "tn_waiting ?q2 = []" using f1 assms(1) by simp
  note f2 = serialized_ok [OF w2, of item E L]
  then obtain g2 where g2: "grows {ti_index item} g2 (tn_state ?q2) (tn_state ?q3)" using w2 unfolding run_ok_def by auto
  have b: "run_ok after ?q3 ?q4" by (rule run_calls_ok) (use assms(1) f2 in auto)
  note f3 = flush_ok [OF w [OF b], of E L]
  have "run_ok after ?q3 ?q5" using run_ok_trans [OF b conjunct1 [OF f3]] assms(1) f2 by simp
  then obtain g3 where g3: "grows (ti_index ` set after) g3 (tn_state ?q3) (tn_state ?q5)" using f2 unfolding run_ok_def by auto
  have "s' = tn_state ?q5" using assms(2,3) by (simp add: execute_tool_calls_def Let_def run_call_def [of E L ?q1])
  obtain e1 where e1: "rt_events (tn_state ?q2) = rt_events s @ e1" "\<forall>e \<in> set e1. te_index e \<in> ti_index ` set before"
    using g1 unfolding grows_def by blast
  obtain e2 where e2: "rt_events (tn_state ?q3) = rt_events (tn_state ?q2) @ e2" "\<forall>e \<in> set e2. te_index e \<in> {ti_index item}"
    using g2 unfolding grows_def by blast
  obtain e3 where e3: "rt_events (tn_state ?q5) = rt_events (tn_state ?q3) @ e3" "\<forall>e \<in> set e3. te_index e \<in> ti_index ` set after"
    using g3 unfolding grows_def by blast
  have "rt_events s' = rt_events s @ e1 @ e2 @ e3" using \<open>s' = tn_state ?q5\<close> e1(1) e2(1) e3(1) by simp
  then show ?thesis using e1(2) e2(2) e3(2) by blast
qed

text \<open>A duplicate is not run: a call whose cache key an earlier call of the batch has is never invoked; whatever
  the schedule, its answer is a copy of a result of the batch, and the caches stay well formed.\<close>

lemma duplicate_call_not_invoked:
  assumes "distinct (map ti_index calls)" "calls = xs @ a # ys @ b # zs"
    "cache_key (re_keys E) a (map_of scopes (ti_index a)) = Some k" "cache_key (re_keys E) b (map_of scopes (ti_index b)) = Some k"
    "run_parallel_batch E scopes mw sched calls s = (rs, s', sched')" "rt_cache_ok s"
  shows "(\<exists>ev. rt_events s' = rt_events s @ ev \<and> invocations (ti_index b) ev = 0) \<and>
    (\<exists>r \<in> set rs. answers b r) \<and> rt_cache_ok s'"
proof -
  let ?us = "bp_unique (plan_batch E scopes calls)"
  have n: "length calls \<noteq> 1" using assms(2) by simp
  note m = multi_batch_ok [OF assms(1) n assms(5)]
  have "count_list (map ti_index ?us) (ti_index b) = 0"
    using duplicate_not_unique [OF assms(1-4)] by (simp add: count_list_0_iff)
  then have i: "\<exists>ev. rt_events s' = rt_events s @ ev \<and> invocations (ti_index b) ev = 0"
    using m unfolding grows_def by (metis le_zero_eq)
  have "ti_index b \<in> set (map tt_index rs)"
    using mset_eq_setD [OF conjunct1 [OF m]] assms(2) by simp
  then obtain r where r: "r \<in> set rs" "tt_index r = ti_index b" by auto
  then obtain item where item: "item \<in> set calls" "answers item r" using m by blast
  have "b \<in> set calls" using assms(2) by simp
  moreover have "ti_index item = ti_index b" using item(2) r(2) by (simp add: answers_def)
  ultimately have "item = b" using item(1) assms(1) by (metis distinct_map inj_on_def)
  moreover have "rt_cache_ok s'" using run_parallel_batch_cache [OF assms(6), of E scopes mw sched calls] assms(5) by simp
  ultimately show ?thesis using i r(1) item(2) by blast
qed

section \<open>Witnesses\<close>

definition ex_serial :: "nat tool_input" where
  "ex_serial = (ex_item 2 ''write'')\<lparr>ti_runtime := ex_meta\<lparr>tm_side_effect := True, tm_cacheable := False\<rparr>\<rparr>"

definition ex_limits :: tool_limits where
  "ex_limits = \<lparr>tl_scopes = [], tl_invalidation = [''thread:default''], tl_workers = 4\<rparr>"

lemma calls_answered_in_order_witness:
  "list_all2 answers [ex_item 0 ''read'', ex_item 1 ''read'', ex_serial]
     (fst (execute_tool_calls (ex_run_env InTime) ex_limits [1, 0, 1] [ex_item 0 ''read'', ex_item 1 ''read'', ex_serial] (ex_state None)))"
proof -
  have "sorted_wrt (<) (map ti_index [ex_item 0 ''read'', ex_item 1 ''read'', ex_serial])" by (simp add: ex_item_def ex_serial_def)
  from calls_answered_in_order [OF this prod.collapse [symmetric]] show ?thesis by blast
qed

lemma serialized_call_runs_alone_witness:
  "\<exists>e1 e2. rt_events (snd (execute_tool_calls (ex_run_env InTime) ex_limits [] ([ex_item 0 ''read''] @ ex_serial # []) (ex_state None))) = e1 @ e2 \<and>
     list_all (\<lambda>e. te_index e = 0) e1 \<and> list_all (\<lambda>e. te_index e = 2) e2"
proof -
  have d: "distinct (map ti_index ([ex_item 0 ''read''] @ ex_serial # []))" by (simp add: ex_item_def ex_serial_def)
  have c: "classify_tool_parallel_execution (ti_runtime ex_serial) \<noteq> Parallel_safe" by (simp add: classify_tool_parallel_execution_def ex_serial_def)
  obtain e1 e2 e3 where e: "rt_events (snd (execute_tool_calls (ex_run_env InTime) ex_limits [] ([ex_item 0 ''read''] @ ex_serial # []) (ex_state None))) =
      rt_events (ex_state None) @ e1 @ e2 @ e3" "\<forall>e \<in> set e1. te_index e \<in> ti_index ` set [ex_item 0 ''read'']"
    "\<forall>e \<in> set e2. te_index e = ti_index ex_serial" "\<forall>e \<in> set e3. te_index e \<in> ti_index ` set ([] :: nat tool_input list)"
    using serialized_call_runs_alone [OF d c prod.collapse [symmetric]] by blast
  have "e3 = []" using e(4) by (cases e3) auto
  then show ?thesis using e(1-3) by (intro exI [of _ e1] exI [of _ e2]) (simp add: list_all_iff ex_state_def ex_item_def ex_serial_def)
qed

lemma duplicate_call_not_invoked_witness:
  "\<exists>r. r \<in> set (fst (run_parallel_batch (ex_run_env InTime) [] 4 [1, 0] [ex_item 0 ''read'', ex_item 1 ''read''] (ex_state None))) \<and>
     answers (ex_item 1 ''read'') r"
proof -
  obtain rs s' sched' where r: "run_parallel_batch (ex_run_env InTime) [] 4 [1, 0] [ex_item 0 ''read'', ex_item 1 ''read''] (ex_state None) = (rs, s', sched')"
    by (metis prod.exhaust)
  have d: "distinct (map ti_index [ex_item 0 ''read'', ex_item 1 ''read''])" by (simp add: ex_item_def)
  have c: "[ex_item 0 ''read'', ex_item 1 ''read''] = [] @ ex_item 0 ''read'' # [] @ ex_item 1 ''read'' # []" by simp
  have k: "cache_key (re_keys (ex_run_env InTime)) (ex_item i ''read'') (map_of [] (ti_index (ex_item i ''read''))) =
      Some (''thread:default:'' @ ke_sha256 ex_keys ''thread:default|read|{}'')" for i
    by (simp add: cache_key_def ex_item_def ex_meta_def ex_run_env_def ex_keys_def scope_or_default_def or_text_def)
  have "rt_cache_ok (ex_state None)" by (simp add: rt_cache_ok_def ex_state_def)
  from duplicate_call_not_invoked [OF d c k k r this] show ?thesis unfolding r by auto
qed

text \<open>
  The two lookups of a cache hit are not one step. Here the cache holds one entry; between the two lookups of the first
  call the second call stores its own result, the entry of the first is evicted, and the first call is answered
  with an empty text that is reported as a successful cache hit.
\<close>

definition ex_race :: "tool_result list" where
  "ex_race = fst (execute_tool_calls (ex_run_env InTime) ex_limits [0, 1, 1, 1, 0] [ex_item 0 ''read'', ex_item 1 ''search'']
     (ex_state (Some (cache_set ''thread:default:22'' ''text'' (cache_store_init 1)))))"

lemma evicted_hit_is_empty:
  "map (\<lambda>r. (tg_content (tt_message r), tg_status (tt_message r), tt_cache_hit r)) ex_race =
     [([], ''success'', True), (''search'', ''success'', False)]"
  by code_simp

end
