(* ===== verification/ToolApproval.thy ===== *)
theory ToolApproval
  imports ToolCache
begin

text \<open>
  Approvals of tool calls: what a user is shown and which answers count, from
  \<open>src/focus_agent/capabilities/tool_execution_types.py\<close>. JSON and SHA-256 are arguments, and so is the text of the
  clock. Arguments come from JSON, so tuples do not occur in them.
\<close>

section \<open>Redaction\<close>

definition common_markers :: "string list" where
  "common_markers = [''api_key'', ''apikey'', ''auth'', ''credential'', ''password'', ''secret'', ''token'']"

definition key_looks_sensitive :: "string \<Rightarrow> bool" where
  "key_looks_sensitive key = (let normalized = map (\<lambda>c. if c = CHR ''-'' then CHR ''_'' else c) (py_lower (py_strip key)) in
     list_ex (\<lambda>m. has_infix m normalized) common_markers)"

fun copy_json_safe :: "pyval \<Rightarrow> pyval" where
  "copy_json_safe (PDict d) = PDict (map (\<lambda>(k, v). (k, copy_json_safe v)) d)"
| "copy_json_safe (PList vs) = PList (map copy_json_safe vs)"
| "copy_json_safe v = v"

definition is_sensitive :: "string list \<Rightarrow> string \<Rightarrow> bool" where
  "is_sensitive sens key = (key \<in> set sens \<or> key_looks_sensitive key)"

definition redacted :: "string \<Rightarrow> pyval" where
  "redacted policy = (if policy = ''omit'' then PNone else PStr ''[REDACTED]'')"

fun redact_arg_value :: "string list \<Rightarrow> string \<Rightarrow> string \<Rightarrow> pyval \<Rightarrow> pyval" where
  "redact_arg_value sens policy key (PDict d) = (if is_sensitive sens key then redacted policy
     else PDict (map (\<lambda>(k, v). (k, redact_arg_value sens policy k v)) d))"
| "redact_arg_value sens policy key (PList vs) = (if is_sensitive sens key then redacted policy
     else PList (map (redact_arg_value sens policy key) vs))"
| "redact_arg_value sens policy key v = (if is_sensitive sens key then redacted policy else copy_json_safe v)"

definition sensitive_names :: "'w tool_meta \<Rightarrow> string list" where
  "sensitive_names m = filter (\<lambda>s. s \<noteq> []) (map py_strip (tm_sensitive_args m))"

definition redaction_policy :: "'w tool_meta \<Rightarrow> string" where
  "redaction_policy m = py_lower (py_strip (if tm_redaction_policy m = [] then ''mask'' else tm_redaction_policy m))"

definition redact_tool_args :: "tool_args \<Rightarrow> 'w tool_meta \<Rightarrow> tool_args" where
  "redact_tool_args args m =
    (if redaction_policy m = ''none'' \<and> sensitive_names m = [] then map (\<lambda>(k, v). (k, copy_json_safe v)) args
     else map (\<lambda>(k, v). (k, redact_arg_value (sensitive_names m) (redaction_policy m) k v)) args)"

section \<open>Requests and answers\<close>

record approval_env =
  ae_json :: "tool_args \<Rightarrow> string"
  ae_sha256 :: "string \<Rightarrow> string"
  ae_now :: string

definition build_tool_approval_interrupt_id :: "approval_env \<Rightarrow> 'w tool_input \<Rightarrow> string" where
  "build_tool_approval_interrupt_id E item = ''tool-approval:'' @ ti_call_id item @ '':'' @
     take 16 (ae_sha256 E (ae_json E [(''tool_call_id'', PStr (ti_call_id item)), (''tool_name'', PStr (ti_name item)),
       (''args'', PDict (ti_args item))]))"

definition build_tool_approval_interrupt_payload :: "approval_env \<Rightarrow> 'w tool_input \<Rightarrow> tool_args" where
  "build_tool_approval_interrupt_payload E item =
    [(''kind'', PStr ''tool_approval''), (''interrupt_id'', PStr (build_tool_approval_interrupt_id E item)),
     (''tool_name'', PStr (ti_name item)), (''tool_call_id'', PStr (ti_call_id item)),
     (''redacted_args'', PDict (redact_tool_args (ti_args item) (ti_runtime item))),
     (''risk_level'', PStr (if tm_risk_level (ti_runtime item) = [] then ''low'' else tm_risk_level (ti_runtime item))),
     (''policy_version'', PStr ''tool_approval.v2''), (''created_at'', PStr (ae_now E))]"

definition tool_approval_response_error :: "pyval \<Rightarrow> string \<Rightarrow> string \<Rightarrow> string option" where
  "tool_approval_response_error response interrupt_id call_id = (case response of
     PDict d \<Rightarrow>
       if get_or d ''kind'' PNone \<noteq> PStr ''tool_approval'' then Some ''Tool approval response kind is invalid.''
       else if get_or d ''interrupt_id'' PNone \<noteq> PStr interrupt_id
         then Some ''Tool approval response interrupt_id does not match the pending approval.''
       else if get_or d ''tool_call_id'' PNone \<noteq> PStr call_id
         then Some ''Tool approval response tool_call_id does not match the pending approval.''
       else (case get_or d ''approved'' PNone of PBool b \<Rightarrow> None
         | _ \<Rightarrow> Some ''Tool approval response approved must be a boolean.'')
   | _ \<Rightarrow> Some ''Tool approval response must be an object.'')"

definition is_tool_approval_approved :: "pyval \<Rightarrow> string option \<Rightarrow> string option \<Rightarrow> bool" where
  "is_tool_approval_approved response interrupt_id call_id =
    (if (interrupt_id \<noteq> None \<or> call_id \<noteq> None) \<and>
        tool_approval_response_error response (or_text interrupt_id []) (or_text call_id []) \<noteq> None then False
     else case response of
       PDict d \<Rightarrow> get_or d ''kind'' PNone = PStr ''tool_approval'' \<and> get_or d ''approved'' PNone = PBool True
     | _ \<Rightarrow> False)"

section \<open>Lemmas\<close>

lemma copy_json_safe_id [simp]: "copy_json_safe v = v"
proof (induction v rule: copy_json_safe.induct)
  case (1 d)
  then have "map (\<lambda>(k, v). (k, copy_json_safe v)) d = d" by (intro map_idI) auto
  then show ?case by simp
next
  case (2 vs)
  then show ?case by (simp add: map_idI)
qed simp_all

lemma redact_sensitive: "is_sensitive sens key \<Longrightarrow> redact_arg_value sens policy key v = redacted policy"
  by (cases v) simp_all

text \<open>Values that differ only under sensitive keys.\<close>

inductive same_visible :: "(string \<Rightarrow> bool) \<Rightarrow> string \<Rightarrow> pyval \<Rightarrow> pyval \<Rightarrow> bool" for S where
  hidden: "S key \<Longrightarrow> same_visible S key v w"
| leaf: "same_visible S key v v"
| dict: "list_all2 (\<lambda>p q. fst p = fst q \<and> same_visible S (fst p) (snd p) (snd q)) d e \<Longrightarrow> same_visible S key (PDict d) (PDict e)"
| list: "list_all2 (same_visible S key) vs ws \<Longrightarrow> same_visible S key (PList vs) (PList ws)"

lemma same_visible_redact:
  "same_visible (is_sensitive sens) key v w \<Longrightarrow> redact_arg_value sens policy key v = redact_arg_value sens policy key w"
proof (induction rule: same_visible.induct)
  case (hidden key v w)
  then show ?case by (simp add: redact_sensitive)
next
  case (dict d e key)
  have "map (\<lambda>(k, v). (k, redact_arg_value sens policy k v)) d = map (\<lambda>(k, v). (k, redact_arg_value sens policy k v)) e"
    by (rule list.rel_induct [OF dict.IH, of "\<lambda>d e. map (\<lambda>(k, v). (k, redact_arg_value sens policy k v)) d = map (\<lambda>(k, v). (k, redact_arg_value sens policy k v)) e"])
      (auto simp: split_beta)
  then show ?case by simp
next
  case (list key vs ws)
  have "map (redact_arg_value sens policy key) vs = map (redact_arg_value sens policy key) ws"
    by (rule list.rel_induct [OF list.IH, of "\<lambda>vs ws. map (redact_arg_value sens policy key) vs = map (redact_arg_value sens policy key) ws"]) auto
  then show ?case by simp
qed simp

text \<open>Every value under a sensitive key is the marker, at any depth.\<close>

fun masked :: "string list \<Rightarrow> string \<Rightarrow> string \<Rightarrow> pyval \<Rightarrow> bool" where
  "masked sens policy key (PDict d) = (if is_sensitive sens key then PDict d = redacted policy
     else list_all (\<lambda>(k, v). masked sens policy k v) d)"
| "masked sens policy key (PList vs) = (if is_sensitive sens key then PList vs = redacted policy
     else list_all (masked sens policy key) vs)"
| "masked sens policy key v = (is_sensitive sens key \<longrightarrow> v = redacted policy)"

lemma masked_sensitive: "is_sensitive sens key \<Longrightarrow> masked sens policy key (redacted policy)"
  by (simp add: redacted_def)

lemma redact_masked: "masked sens policy key (redact_arg_value sens policy key v)"
proof (induction sens policy key v rule: redact_arg_value.induct)
  case (1 sens policy key d)
  then show ?case by (auto simp: masked_sensitive list_all_iff)
next
  case (2 sens policy key vs)
  then show ?case by (auto simp: masked_sensitive list_all_iff)
qed (auto simp: masked_sensitive redacted_def)

lemma redact_visible: "same_visible (is_sensitive sens) key v (redact_arg_value sens policy key v)"
proof (induction sens policy key v rule: redact_arg_value.induct)
  case (1 sens policy key d)
  show ?case
  proof (cases "is_sensitive sens key")
    case True
    then show ?thesis by (simp add: same_visible.hidden)
  next
    case False
    have "list_all2 (\<lambda>p q. fst p = fst q \<and> same_visible (is_sensitive sens) (fst p) (snd p) (snd q)) d
        (map (\<lambda>(k, v). (k, redact_arg_value sens policy k v)) d)"
      using 1 False by (auto simp: list_all2_conv_all_nth split_beta)
    then show ?thesis using False by (simp add: same_visible.dict)
  qed
next
  case (2 sens policy key vs)
  show ?case
  proof (cases "is_sensitive sens key")
    case True
    then show ?thesis by (simp add: same_visible.hidden)
  next
    case False
    have "list_all2 (same_visible (is_sensitive sens) key) vs (map (redact_arg_value sens policy key) vs)"
      using 2 False by (auto simp: list_all2_conv_all_nth)
    then show ?thesis using False by (simp add: same_visible.list)
  qed
qed (auto intro: same_visible.hidden same_visible.leaf)

definition same_visible_args :: "'w tool_meta \<Rightarrow> tool_args \<Rightarrow> tool_args \<Rightarrow> bool" where
  "same_visible_args m = list_all2 (\<lambda>p q. fst p = fst q \<and> same_visible (is_sensitive (sensitive_names m)) (fst p) (snd p) (snd q))"

section \<open>Properties\<close>

text \<open>Redaction hides and keeps: unless a tool turns redaction off and names no argument of its own, what an
  approval shows depends only on what lies outside sensitive keys, is the marker under every sensitive key at
  any depth, and is the original everywhere else.\<close>

lemma redaction_hides_and_keeps:
  assumes "redaction_policy m \<noteq> ''none'' \<or> sensitive_names m \<noteq> []"
  shows "(same_visible_args m args args' \<longrightarrow> redact_tool_args args m = redact_tool_args args' m) \<and>
    list_all (\<lambda>(k, v). masked (sensitive_names m) (redaction_policy m) k v) (redact_tool_args args m) \<and>
    same_visible_args m args (redact_tool_args args m)"
proof -
  let ?s = "sensitive_names m" and ?p = "redaction_policy m"
  have r: "redact_tool_args xs m = map (\<lambda>(k, v). (k, redact_arg_value ?s ?p k v)) xs" for xs
    using assms by (auto simp: redact_tool_args_def)
  have "map (\<lambda>(k, v). (k, redact_arg_value ?s ?p k v)) args = map (\<lambda>(k, v). (k, redact_arg_value ?s ?p k v)) args'"
    if "same_visible_args m args args'"
    using that unfolding same_visible_args_def
    by (induction rule: list_all2_induct) (auto simp: split_beta dest: same_visible_redact)
  moreover have "list_all (\<lambda>(k, v). masked ?s ?p k v) (map (\<lambda>(k, v). (k, redact_arg_value ?s ?p k v)) args)"
    by (auto simp: list_all_iff redact_masked)
  moreover have "same_visible_args m args (map (\<lambda>(k, v). (k, redact_arg_value ?s ?p k v)) args)"
    by (auto simp: same_visible_args_def list_all2_conv_all_nth split_beta redact_visible)
  ultimately show ?thesis unfolding r by blast
qed

definition ex_secret :: "string \<Rightarrow> tool_args" where
  "ex_secret s = [(''path'', PStr ''a''), (''headers'', PDict [(''Auth-Token'', PStr s), (''accept'', PStr ''x'')])]"

lemma redaction_hides_and_keeps_witness:
  "redact_tool_args (ex_secret ''one'') (ex_meta :: nat tool_meta) = redact_tool_args (ex_secret ''two'') (ex_meta :: nat tool_meta) \<and>
   redact_tool_args (ex_secret ''one'') (ex_meta :: nat tool_meta) =
     [(''path'', PStr ''a''), (''headers'', PDict [(''Auth-Token'', PStr ''[REDACTED]''), (''accept'', PStr ''x'')])]"
proof
  have p: "redaction_policy (ex_meta :: nat tool_meta) \<noteq> ''none'' \<or> sensitive_names (ex_meta :: nat tool_meta) \<noteq> []" by code_simp
  have k: "is_sensitive (sensitive_names (ex_meta :: nat tool_meta)) ''Auth-Token''" by code_simp
  let ?S = "is_sensitive (sensitive_names (ex_meta :: nat tool_meta))"
  have t: "same_visible ?S ''Auth-Token'' v w" for v w by (rule same_visible.hidden) (rule k)
  have "same_visible ?S ''headers'' (PDict [(''Auth-Token'', PStr s), (''accept'', PStr ''x'')]) (PDict [(''Auth-Token'', PStr s'), (''accept'', PStr ''x'')])" for s s'
    by (rule same_visible.dict) (simp add: t same_visible.leaf)
  then have "same_visible_args (ex_meta :: nat tool_meta) (ex_secret ''one'') (ex_secret ''two'')"
    by (simp add: same_visible_args_def ex_secret_def same_visible.leaf)
  then show "redact_tool_args (ex_secret ''one'') (ex_meta :: nat tool_meta) = redact_tool_args (ex_secret ''two'') (ex_meta :: nat tool_meta)"
    using redaction_hides_and_keeps [OF p] by blast
  show "redact_tool_args (ex_secret ''one'') (ex_meta :: nat tool_meta) =
     [(''path'', PStr ''a''), (''headers'', PDict [(''Auth-Token'', PStr ''[REDACTED]''), (''accept'', PStr ''x'')])]" by code_simp
qed

text \<open>C36: Only an explicit approval approves: a response approves a pending request exactly when it is an object of
  the approval kind that names the request's interrupt and call and whose \<open>approved\<close> is \<open>True\<close>; a valid response
  with \<open>False\<close> denies, and everything else is an error and denies too.\<close>

theorem approval_response_exact:
  "is_tool_approval_approved response (Some i) (Some c) =
    (\<exists>d. response = PDict d \<and> map_of d ''kind'' = Some (PStr ''tool_approval'') \<and> map_of d ''interrupt_id'' = Some (PStr i) \<and>
       map_of d ''tool_call_id'' = Some (PStr c) \<and> map_of d ''approved'' = Some (PBool True)) \<and>
   (is_tool_approval_approved response (Some i) (Some c) \<longrightarrow> tool_approval_response_error response i c = None)"
proof -
  have o: "or_text (Some x) [] = x" for x by (simp add: or_text_def)
  have g: "get_or d k PNone = v \<longleftrightarrow> map_of d k = Some v" if "v \<noteq> PNone" for d k v
    using that by (auto simp: get_or_def split: option.split)
  show ?thesis
  proof (cases response)
    case (PDict d)
    then show ?thesis
      by (auto simp: is_tool_approval_approved_def tool_approval_response_error_def o g split: pyval.splits if_splits)
        (simp_all add: get_or_def)
  qed (simp_all add: is_tool_approval_approved_def tool_approval_response_error_def)
qed

definition ex_response :: "pyval \<Rightarrow> pyval" where
  "ex_response v = PDict [(''kind'', PStr ''tool_approval''), (''interrupt_id'', PStr ''i''), (''tool_call_id'', PStr ''c''), (''approved'', v)]"

lemma approval_response_exact_witness:
  "is_tool_approval_approved (ex_response (PBool True)) (Some ''i'') (Some ''c'') \<and>
   tool_approval_response_error (ex_response (PBool True)) ''i'' ''c'' = None \<and>
   \<not> is_tool_approval_approved (ex_response (PStr ''yes'')) (Some ''i'') (Some ''c'')"
proof (intro conjI)
  show a: "is_tool_approval_approved (ex_response (PBool True)) (Some ''i'') (Some ''c'')" by code_simp
  then show "tool_approval_response_error (ex_response (PBool True)) ''i'' ''c'' = None" using approval_response_exact by blast
qed code_simp

end
