(* ===== verification/AskUser.thy ===== *)
theory AskUser
  imports Prelude
begin

text \<open>
  Questions to the user: \<open>src/focus_agent/capabilities/ask_user_question.py\<close>. A normalised question is a record; a
  response is any JSON value. \<open>str\<close> and \<open>repr\<close> of a value and \<open>str.casefold\<close> are fields of the environment, with JSON,
  SHA-256 and the clock. The labels of a normalised question differ after case folding, so it does not matter in which
  order the code's set of labels is traversed.
\<close>

record ask_env =
  as_str :: "pyval \<Rightarrow> string"
  as_repr :: "string \<Rightarrow> string"
  as_fold :: "string \<Rightarrow> string"
  as_json :: "pyval \<Rightarrow> string"
  as_sha256 :: "string \<Rightarrow> string"
  as_now :: string

record ask_option =
  ao_label :: string
  ao_description :: string
  ao_preview :: "string option"

record question =
  qu_id :: string
  qu_text :: string
  qu_header :: string
  qu_options :: "ask_option list"
  qu_multi :: bool

text \<open>\<open>str(d.get(k) or z).strip()\<close>\<close>

definition field_text :: "ask_env \<Rightarrow> (string, pyval) dict \<Rightarrow> string \<Rightarrow> string \<Rightarrow> string" where
  "field_text E d k z = py_strip (let v = get_or d k PNone in if truthy v then py_str (as_str E) v else z)"

definition item_at :: "string \<Rightarrow> nat \<Rightarrow> string" where
  "item_at name i = name @ ''['' @ show_nat i @ '']''"

section \<open>Normalisation\<close>

definition preview_of :: "pyval \<Rightarrow> string option" where
  "preview_of v = (case v of PStr s \<Rightarrow> if py_strip s = [] then None else Some (py_strip s) | _ \<Rightarrow> None)"

fun normalize_options :: "ask_env \<Rightarrow> string \<Rightarrow> nat \<Rightarrow> pyval list \<Rightarrow> string list \<Rightarrow> py_error + ask_option list" where
  "normalize_options E ctx i [] seen = Inr []"
| "normalize_options E ctx i (v # vs) seen = (case v of
     PDict d \<Rightarrow>
       (let label = field_text E d ''label'' []; label_key = as_fold E label in
        if label = [] then Inl (ValueError (ctx @ item_at ''.options'' i @ ''.label is required.''))
        else if label_key \<in> set seen then Inl (ValueError (ctx @ ''.options has duplicate label '' @ as_repr E label @ ''.''))
        else bind_ok (normalize_options E ctx (i + 1) vs (label_key # seen))
          (\<lambda>os. Inr (\<lparr>ao_label = label, ao_description = field_text E d ''description'' [],
             ao_preview = preview_of (get_or d ''preview'' PNone)\<rparr> # os)))
   | _ \<Rightarrow> Inl (ValueError (ctx @ item_at ''.options'' i @ '' must be an object.'')))"

definition normalize_question :: "ask_env \<Rightarrow> nat \<Rightarrow> pyval \<Rightarrow> py_error + question" where
  "normalize_question E i v = (let ctx = item_at ''questions'' i in case v of
     PDict d \<Rightarrow>
       (let question = field_text E d ''question'' []; header = take 32 (field_text E d ''header'' (''Q'' @ show_nat (i + 1))) in
        if question = [] then Inl (ValueError (ctx @ ''.question is required.''))
        else case get_or d ''options'' PNone of
          PList raw \<Rightarrow>
            if length raw < 2 \<or> 4 < length raw then Inl (ValueError (ctx @ ''.options must have between 2 and 4 items.''))
            else bind_ok (normalize_options E ctx 0 raw [])
              (\<lambda>os. Inr \<lparr>qu_id = (let x = field_text E d ''id'' (''q'' @ show_nat i) in if x = [] then ''q'' @ show_nat i else x),
                 qu_text = question, qu_header = header, qu_options = os, qu_multi = truthy (get_or d ''multi_select'' (PBool False))\<rparr>)
        | _ \<Rightarrow> Inl (ValueError (ctx @ ''.options must be an array.'')))
   | _ \<Rightarrow> Inl (ValueError (ctx @ '' must be an object.'')))"

fun normalize_from :: "ask_env \<Rightarrow> nat \<Rightarrow> pyval list \<Rightarrow> py_error + question list" where
  "normalize_from E i [] = Inr []"
| "normalize_from E i (v # vs) = bind_ok (normalize_question E i v)
     (\<lambda>q. bind_ok (normalize_from E (i + 1) vs) (\<lambda>qs. Inr (q # qs)))"

definition normalize_ask_user_questions :: "ask_env \<Rightarrow> pyval \<Rightarrow> py_error + question list" where
  "normalize_ask_user_questions E raw = (case raw of
     PList vs \<Rightarrow>
       if vs = [] then Inl (ValueError ''questions must be a non-empty array.'')
       else if 4 < length vs then Inl (ValueError ''questions must contain at most 4 items.'')
       else normalize_from E 0 vs
   | _ \<Rightarrow> Inl (ValueError ''questions must be a non-empty array.''))"

section \<open>The interrupt\<close>

definition option_value :: "ask_option \<Rightarrow> pyval" where
  "option_value x = PDict ([(''label'', PStr (ao_label x)), (''description'', PStr (ao_description x))] @
     (case ao_preview x of None \<Rightarrow> [] | Some p \<Rightarrow> [(''preview'', PStr p)]))"

definition question_value :: "question \<Rightarrow> pyval" where
  "question_value q = PDict [(''id'', PStr (qu_id q)), (''question'', PStr (qu_text q)), (''header'', PStr (qu_header q)),
     (''options'', PList (map option_value (qu_options q))), (''multi_select'', PBool (qu_multi q))]"

definition build_ask_user_question_interrupt_id :: "ask_env \<Rightarrow> string \<Rightarrow> question list \<Rightarrow> string" where
  "build_ask_user_question_interrupt_id E call_id qs = ''ask-user-question:'' @ call_id @ '':'' @
     take 16 (as_sha256 E (as_json E (PDict [(''tool_call_id'', PStr call_id), (''questions'', PList (map question_value qs))])))"

record ask_payload =
  ap_interrupt_id :: string
  ap_call_id :: string
  ap_questions :: "question list"
  ap_created_at :: string

definition build_ask_user_question_interrupt_payload :: "ask_env \<Rightarrow> string \<Rightarrow> pyval \<Rightarrow> py_error + ask_payload" where
  "build_ask_user_question_interrupt_payload E call_id raw = bind_ok (normalize_ask_user_questions E raw)
     (\<lambda>qs. Inr \<lparr>ap_interrupt_id = build_ask_user_question_interrupt_id E call_id qs, ap_call_id = call_id,
        ap_questions = qs, ap_created_at = as_now E\<rparr>)"

section \<open>The answer\<close>

text \<open>\<open>question_by_id\<close>: a later question with the same id replaces an earlier one.\<close>

definition question_by_id :: "question list \<Rightarrow> string \<Rightarrow> question option" where
  "question_by_id qs i = find (\<lambda>q. qu_id q = i) (rev qs)"

definition selected_texts :: "ask_env \<Rightarrow> pyval list \<Rightarrow> string list" where
  "selected_texts E vs = filter (\<lambda>s. s \<noteq> []) (map (\<lambda>v. py_strip (py_str (as_str E) v)) vs)"

definition other_text :: "(string, pyval) dict \<Rightarrow> string option" where
  "other_text d = (case get_or d ''other_text'' PNone of PStr s \<Rightarrow> if py_strip s = [] then None else Some (py_strip s) | _ \<Rightarrow> None)"

definition canonical_label :: "ask_env \<Rightarrow> question \<Rightarrow> string \<Rightarrow> string option" where
  "canonical_label E q label = map_option ao_label (find (\<lambda>x. as_fold E (ao_label x) = as_fold E label) (rev (qu_options q)))"

definition is_other :: "ask_env \<Rightarrow> string \<Rightarrow> bool" where
  "is_other E label = (as_fold E label = as_fold E ''Other'')"

fun resolve_labels :: "ask_env \<Rightarrow> string \<Rightarrow> question \<Rightarrow> string option \<Rightarrow> string list \<Rightarrow> string + string list" where
  "resolve_labels E ctx q other [] = Inr []"
| "resolve_labels E ctx q other (l # ls) =
    (if is_other E l then (if other = None then Inl (ctx @ '' selected Other but other_text is empty.'') else resolve_labels E ctx q other ls)
     else case canonical_label E q l of
       None \<Rightarrow> Inl (ctx @ '' selected unknown option '' @ as_repr E l @ ''.'')
     | Some c \<Rightarrow> bind_ok (resolve_labels E ctx q other ls) (\<lambda>cs. Inr (c # cs)))"

definition selection_error :: "string \<Rightarrow> question \<Rightarrow> string option \<Rightarrow> string list \<Rightarrow> string option" where
  "selection_error ctx q other chosen =
    (if qu_multi q then (if chosen = [] \<and> other = None then Some (ctx @ '' must select at least one option.'') else None)
     else if length chosen + (if other = None then 0 else 1) \<noteq> 1 then Some (ctx @ '' must select exactly one option.'') else None)"

fun answers_error :: "ask_env \<Rightarrow> question list \<Rightarrow> nat \<Rightarrow> string list \<Rightarrow> pyval list \<Rightarrow> string option" where
  "answers_error E qs i seen [] = None"
| "answers_error E qs i seen (v # vs) = (let ctx = item_at ''answers'' i in case v of
     PDict d \<Rightarrow>
       (let question_id = field_text E d ''question_id'' [] in
        if question_id = [] then Some (ctx @ ''.question_id is invalid.'')
        else case question_by_id qs question_id of
          None \<Rightarrow> Some (ctx @ ''.question_id is invalid.'')
        | Some q \<Rightarrow>
            if question_id \<in> set seen then Some (ctx @ ''.question_id is duplicated.'')
            else (case get_or d ''selected_labels'' PNone of
              PList selected \<Rightarrow> (case resolve_labels E ctx q (other_text d) (selected_texts E selected) of
                Inl e \<Rightarrow> Some e
              | Inr chosen \<Rightarrow> (case selection_error ctx q (other_text d) chosen of
                  Some e \<Rightarrow> Some e
                | None \<Rightarrow> answers_error E qs (i + 1) (question_id # seen) vs))
            | _ \<Rightarrow> Some (ctx @ ''.selected_labels must be an array.'')))
   | _ \<Rightarrow> Some (ctx @ '' must be an object.''))"

definition ask_user_question_response_error :: "ask_env \<Rightarrow> pyval \<Rightarrow> string \<Rightarrow> string \<Rightarrow> question list \<Rightarrow> string option" where
  "ask_user_question_response_error E response interrupt_id call_id qs = (case response of
     PDict d \<Rightarrow>
       if get_or d ''kind'' PNone \<noteq> PStr ''ask_user_question'' then Some ''ask_user_question response kind is invalid.''
       else if get_or d ''interrupt_id'' PNone \<noteq> PStr interrupt_id then Some ''ask_user_question response interrupt_id does not match.''
       else if get_or d ''tool_call_id'' PNone \<noteq> PStr call_id then Some ''ask_user_question response tool_call_id does not match.''
       else (case get_or d ''answers'' PNone of
         PList answers \<Rightarrow>
           if answers = [] then Some ''ask_user_question response answers must be a non-empty array.''
           else if length answers \<noteq> length qs then Some ''ask_user_question response must answer every question exactly once.''
           else answers_error E qs 0 [] answers
       | _ \<Rightarrow> Some ''ask_user_question response answers must be a non-empty array.'')
   | _ \<Rightarrow> Some ''ask_user_question response must be an object.'')"

record answer_row =
  aw_question :: string
  aw_header :: string
  aw_text :: string
  aw_multi :: bool
  aw_selected :: "string list"
  aw_other :: bool
  aw_other_text :: "string option"

text \<open>The code parses only responses without an error; their selected labels are lists, so other types are left out.\<close>

definition parse_answer :: "ask_env \<Rightarrow> question list \<Rightarrow> pyval \<Rightarrow> answer_row list" where
  "parse_answer E qs v = (case v of
     PDict d \<Rightarrow> (let question_id = field_text E d ''question_id'' [] in case question_by_id qs question_id of
         None \<Rightarrow> []
       | Some q \<Rightarrow>
           (let labels = selected_texts E (case get_or d ''selected_labels'' PNone of PList vs \<Rightarrow> vs | _ \<Rightarrow> []) in
            [\<lparr>aw_question = question_id, aw_header = qu_header q, aw_text = qu_text q, aw_multi = qu_multi q,
              aw_selected = concat (map (\<lambda>l. if is_other E l then [] else case canonical_label E q l of None \<Rightarrow> [] | Some c \<Rightarrow> [c]) labels),
              aw_other = (list_ex (is_other E) labels \<or> other_text d \<noteq> None), aw_other_text = other_text d\<rparr>]))
   | _ \<Rightarrow> [])"

definition parse_ask_user_question_answers :: "ask_env \<Rightarrow> pyval \<Rightarrow> question list \<Rightarrow> answer_row list" where
  "parse_ask_user_question_answers E response qs = (case response of
     PDict d \<Rightarrow> (case get_or d ''answers'' PNone of PList answers \<Rightarrow> concat (map (parse_answer E qs) answers) | _ \<Rightarrow> [])
   | _ \<Rightarrow> [])"

section \<open>Lemmas\<close>

definition wf_question :: "ask_env \<Rightarrow> question \<Rightarrow> bool" where
  "wf_question E q \<longleftrightarrow> qu_id q \<noteq> [] \<and> qu_text q \<noteq> [] \<and> length (qu_header q) \<le> 32 \<and>
    2 \<le> length (qu_options q) \<and> length (qu_options q) \<le> 4 \<and> list_all (\<lambda>x. ao_label x \<noteq> []) (qu_options q) \<and>
    distinct (map (\<lambda>x. as_fold E (ao_label x)) (qu_options q))"

lemma normalize_options_wf:
  "normalize_options E ctx i vs seen = Inr os \<Longrightarrow> length os = length vs \<and> list_all (\<lambda>x. ao_label x \<noteq> []) os \<and>
     distinct (map (\<lambda>x. as_fold E (ao_label x)) os) \<and> set (map (\<lambda>x. as_fold E (ao_label x)) os) \<inter> set seen = {}"
proof (induction E ctx i vs seen arbitrary: os rule: normalize_options.induct)
  case (2 E ctx i v vs seen)
  obtain d where v: "v = PDict d" using "2.prems" by (cases v) simp_all
  let ?l = "field_text E d ''label'' []"
  have l: "?l \<noteq> []" "as_fold E ?l \<notin> set seen" using "2.prems" by (auto simp: v Let_def split: if_splits)
  obtain os' where os': "normalize_options E ctx (i + 1) vs (as_fold E ?l # seen) = Inr os'"
    "os = \<lparr>ao_label = ?l, ao_description = field_text E d ''description'' [], ao_preview = preview_of (get_or d ''preview'' PNone)\<rparr> # os'"
    using "2.prems" l by (auto simp: v Let_def bind_ok_Inr_iff)
  have "length os' = length vs \<and> list_all (\<lambda>x. ao_label x \<noteq> []) os' \<and> distinct (map (\<lambda>x. as_fold E (ao_label x)) os') \<and>
      set (map (\<lambda>x. as_fold E (ao_label x)) os') \<inter> set (as_fold E ?l # seen) = {}"
    using "2.IH" [OF v refl refl l os'(1)] .
  then show ?case using l by (auto simp: os'(2))
qed simp

lemma show_nat_nonempty: "show_nat n \<noteq> []"
  by (subst show_nat.simps) simp

lemma normalize_question_wf: "normalize_question E i v = Inr q \<Longrightarrow> wf_question E q"
proof -
  assume a: "normalize_question E i v = Inr q"
  obtain d where v: "v = PDict d" using a by (cases v) (simp_all add: normalize_question_def Let_def)
  obtain raw where raw: "get_or d ''options'' PNone = PList raw" "field_text E d ''question'' [] \<noteq> []" "2 \<le> length raw" "length raw \<le> 4"
    using a by (auto simp: normalize_question_def v Let_def split: if_splits pyval.splits)
  obtain os where os: "normalize_options E (item_at ''questions'' i) 0 raw [] = Inr os"
    "qu_options q = os" "qu_text q = field_text E d ''question'' []" "length (qu_header q) \<le> 32" "qu_id q \<noteq> []"
    using a raw by (auto simp: normalize_question_def v Let_def bind_ok_Inr_iff)
  show ?thesis using normalize_options_wf [OF os(1)] os raw by (simp add: wf_question_def)
qed

lemma normalize_from_wf: "normalize_from E i vs = Inr qs \<Longrightarrow> list_all (wf_question E) qs \<and> length qs = length vs"
  by (induction vs arbitrary: i qs) (auto simp: bind_ok_Inr_iff normalize_question_wf)

text \<open>A row that answers its question.\<close>

definition good_row :: "question list \<Rightarrow> answer_row \<Rightarrow> bool" where
  "good_row qs r \<longleftrightarrow> (\<exists>q \<in> set qs. qu_id q = aw_question r \<and> aw_text r = qu_text q \<and> aw_multi r = qu_multi q \<and>
     set (aw_selected r) \<subseteq> ao_label ` set (qu_options q) \<and>
     (if qu_multi q then aw_selected r \<noteq> [] \<or> aw_other_text r \<noteq> None
      else length (aw_selected r) + (if aw_other_text r = None then 0 else 1) = 1))"

lemma good_row_id: "good_row qs r \<Longrightarrow> aw_question r \<in> qu_id ` set qs"
  unfolding good_row_def by (metis imageI)

lemma question_by_id_mem: "question_by_id qs i = Some q \<Longrightarrow> q \<in> set qs \<and> qu_id q = i"
  by (auto simp: question_by_id_def find_Some_iff) (metis nth_mem set_rev length_rev)

lemma canonical_label_mem: "canonical_label E q l = Some c \<Longrightarrow> c \<in> ao_label ` set (qu_options q)"
  by (auto simp: canonical_label_def find_Some_iff) (metis imageI length_rev nth_mem set_rev)

lemma resolve_labels_eq:
  "resolve_labels E ctx q other ls = Inr cs \<Longrightarrow>
     concat (map (\<lambda>l. if is_other E l then [] else case canonical_label E q l of None \<Rightarrow> [] | Some c \<Rightarrow> [c]) ls) = cs"
  by (induction ls arbitrary: cs) (auto simp: bind_ok_Inr_iff split: option.splits if_splits)

lemma resolve_labels_mem: "resolve_labels E ctx q other ls = Inr cs \<Longrightarrow> set cs \<subseteq> ao_label ` set (qu_options q)"
proof (induction ls arbitrary: cs)
  case (Cons l ls)
  then show ?case
    by (auto simp: bind_ok_Inr_iff split: option.splits if_splits) (metis canonical_label_mem subsetD Cons.IH)+
qed simp

lemma resolve_labels_parse:
  assumes "resolve_labels E ctx q other ls = Inr cs"
  shows "cs = concat (map (\<lambda>l. if is_other E l then [] else case canonical_label E q l of None \<Rightarrow> [] | Some c \<Rightarrow> [c]) ls) \<and>
     set cs \<subseteq> ao_label ` set (qu_options q)"
  using resolve_labels_eq [OF assms] resolve_labels_mem [OF assms] by (intro conjI) (rule sym)

lemma answers_error_parse:
  "answers_error E qs i seen vs = None \<Longrightarrow> \<exists>rows. concat (map (parse_answer E qs) vs) = rows \<and> length rows = length vs \<and>
     distinct (map aw_question rows) \<and> set (map aw_question rows) \<inter> set seen = {} \<and> list_all (good_row qs) rows"
proof (induction E qs i seen vs rule: answers_error.induct)
  case (2 E qs i seen v vs)
  obtain d where v: "v = PDict d" using "2.prems" by (cases v) (simp_all add: Let_def)
  let ?id = "field_text E d ''question_id'' []" and ?ctx = "item_at ''answers'' i"
  obtain q selected chosen where q: "?id \<noteq> []" "question_by_id qs ?id = Some q" "?id \<notin> set seen" "get_or d ''selected_labels'' PNone = PList selected"
      "resolve_labels E ?ctx q (other_text d) (selected_texts E selected) = Inr chosen" "selection_error ?ctx q (other_text d) chosen = None"
      "answers_error E qs (i + 1) (?id # seen) vs = None"
    using "2.prems" by (auto simp: v Let_def split: if_splits option.splits pyval.splits sum.splits)
  obtain rows where rows: "concat (map (parse_answer E qs) vs) = rows" "length rows = length vs" "distinct (map aw_question rows)"
    "set (map aw_question rows) \<inter> set (?id # seen) = {}" "list_all (good_row qs) rows"
    using "2.IH" [OF refl v refl q(1,2,3,4,5,6,7)] by blast
  note rl = resolve_labels_parse [OF q(5)]
  obtain r where r: "parse_answer E qs v = [r]" "aw_question r = ?id" "aw_selected r = chosen" "aw_other_text r = other_text d"
    "aw_text r = qu_text q" "aw_multi r = qu_multi q" using q rl by (simp add: parse_answer_def v Let_def)
  have "good_row qs r" using question_by_id_mem [OF q(2)] q(6) rl r
    by (auto simp: good_row_def selection_error_def split: if_splits)
  then show ?case using r rows q(3) by auto
qed simp

section \<open>Properties\<close>

text \<open>C40: Questions shown to a user are well formed: what normalisation accepts has one to four questions, each with a
  text, an id, a header of at most 32 characters, and two to four options whose labels are not empty and differ even
  after case folding.\<close>

theorem normalized_questions_wf:
  assumes "normalize_ask_user_questions E raw = Inr qs"
  shows "1 \<le> length qs \<and> length qs \<le> 4 \<and> list_all (wf_question E) qs"
proof -
  obtain vs where vs: "vs \<noteq> []" "length vs \<le> 4" "normalize_from E 0 vs = Inr qs"
    using assms by (auto simp: normalize_ask_user_questions_def split: pyval.splits if_splits)
  have "1 \<le> length vs" using vs(1) by (cases vs) simp_all
  then show ?thesis using normalize_from_wf [OF vs(3)] vs(2) by simp
qed

text \<open>An accepted response answers everything: when a response to pending questions has no error, parsing it gives one
  row per question, each selecting only options of its question, exactly one choice where one is asked for and at
  least one otherwise; it carries the ids of the pending call.\<close>

lemma accepted_response_complete:
  assumes "ask_user_question_response_error E response i c qs = None"
  shows "let rows = parse_ask_user_question_answers E response qs in
    length rows = length qs \<and> set (map aw_question rows) = set (map qu_id qs) \<and> distinct (map aw_question rows) \<and>
    list_all (good_row qs) rows \<and> distinct (map qu_id qs)"
proof -
  obtain d answers where d: "response = PDict d" "get_or d ''answers'' PNone = PList answers" "length answers = length qs"
    "answers_error E qs 0 [] answers = None"
    using assms by (auto simp: ask_user_question_response_error_def split: pyval.splits if_splits)
  let ?rows = "parse_ask_user_question_answers E response qs"
  have rows: "length ?rows = length qs" "distinct (map aw_question ?rows)" "list_all (good_row qs) ?rows"
    using answers_error_parse [OF d(4)] d by (simp_all add: parse_ask_user_question_answers_def)
  have sub: "set (map aw_question ?rows) \<subseteq> set (map qu_id qs)" 
    using rows(3) good_row_id by (auto simp: list_all_iff)
  have c: "card (set (map aw_question ?rows)) = length qs" using distinct_card [OF rows(2)] rows(1) by simp
  have "card (set (map qu_id qs)) \<le> length qs" using card_length [of "map qu_id qs"] by simp
  then have eq: "set (map aw_question ?rows) = set (map qu_id qs)" using card_subset_eq [OF _ sub] card_mono [OF _ sub] c by simp
  have "distinct (map qu_id qs)" using c eq by (intro card_distinct) simp
  then show ?thesis using rows eq by (simp only: Let_def simp_thms)
qed

text \<open>Questions that share an id cannot be answered: normalisation accepts them, but every response to them has an error.\<close>

lemma shared_id_unanswerable:
  assumes "\<not> distinct (map qu_id qs)"
  shows "ask_user_question_response_error E response i c qs \<noteq> None"
proof
  assume "ask_user_question_response_error E response i c qs = None"
  then obtain d answers where d: "length answers = length qs" "answers_error E qs 0 [] answers = None"
    by (auto simp: ask_user_question_response_error_def split: pyval.splits if_splits)
  obtain rows where rows: "length rows = length qs" "distinct (map aw_question rows)" "list_all (good_row qs) rows"
    using answers_error_parse [OF d(2)] d(1) by auto
  have "set (map aw_question rows) \<subseteq> set (map qu_id qs)" 
    using rows(3) good_row_id by (auto simp: list_all_iff)
  then have "length qs \<le> card (set (map qu_id qs))" using distinct_card [OF rows(2)] rows(1) by (metis List.finite_set card_mono length_map)
  then have "distinct (map qu_id qs)" using card_length [of "map qu_id qs"] by (intro card_distinct) simp
  then show False using assms by simp
qed

section \<open>Witnesses\<close>

definition ex_ask :: ask_env where
  "ex_ask = \<lparr>as_str = (\<lambda>v. []), as_repr = (\<lambda>s. s), as_fold = py_lower, as_json = (\<lambda>v. []), as_sha256 = (\<lambda>s. ''abc''), as_now = ''now''\<rparr>"

definition ex_raw_question :: "string \<Rightarrow> pyval" where
  "ex_raw_question i = PDict [(''id'', PStr i), (''question'', PStr ''Which?''),
     (''options'', PList [PDict [(''label'', PStr ''Red'')], PDict [(''label'', PStr ''Blue'')]])]"

definition ex_answer :: "string \<Rightarrow> pyval" where
  "ex_answer i = PDict [(''question_id'', PStr i), (''selected_labels'', PList [PStr ''red''])]"

definition ex_response :: "string list \<Rightarrow> pyval" where
  "ex_response is = PDict [(''kind'', PStr ''ask_user_question''), (''interrupt_id'', PStr ''i''), (''tool_call_id'', PStr ''c''),
     (''answers'', PList (map ex_answer is))]"

definition ex_questions :: "string list \<Rightarrow> question list" where
  "ex_questions is = (case normalize_ask_user_questions ex_ask (PList (map ex_raw_question is)) of Inl e \<Rightarrow> [] | Inr qs \<Rightarrow> qs)"

lemma normalized_questions_wf_witness: "length (ex_questions [''a'', ''b'']) = 2 \<and> list_all (wf_question ex_ask) (ex_questions [''a'', ''b''])"
proof
  have ok: "is_ok (normalize_ask_user_questions ex_ask (PList (map ex_raw_question [''a'', ''b''])))" by code_simp
  then obtain qs where qs: "normalize_ask_user_questions ex_ask (PList (map ex_raw_question [''a'', ''b''])) = Inr qs"
    by (cases "normalize_ask_user_questions ex_ask (PList (map ex_raw_question [''a'', ''b'']))") auto
  show "list_all (wf_question ex_ask) (ex_questions [''a'', ''b''])"
    using normalized_questions_wf [OF qs] unfolding ex_questions_def qs by simp
qed code_simp

lemma accepted_response_complete_witness:
  "map aw_selected (parse_ask_user_question_answers ex_ask (ex_response [''b'', ''a'']) (ex_questions [''a'', ''b''])) = [[''Red''], [''Red'']] \<and>
   set (map aw_question (parse_ask_user_question_answers ex_ask (ex_response [''b'', ''a'']) (ex_questions [''a'', ''b'']))) =
     set (map qu_id (ex_questions [''a'', ''b'']))"
proof
  have "ask_user_question_response_error ex_ask (ex_response [''b'', ''a'']) ''i'' ''c'' (ex_questions [''a'', ''b'']) = None" by code_simp
  from accepted_response_complete [OF this]
  show "set (map aw_question (parse_ask_user_question_answers ex_ask (ex_response [''b'', ''a'']) (ex_questions [''a'', ''b'']))) =
     set (map qu_id (ex_questions [''a'', ''b'']))" by (simp only: Let_def)
qed code_simp

lemma shared_id_unanswerable_witness:
  "length (ex_questions [''a'', ''a'']) = 2 \<and>
   ask_user_question_response_error ex_ask (ex_response [''a'', ''a'']) ''i'' ''c'' (ex_questions [''a'', ''a'']) \<noteq> None"
proof
  have "\<not> distinct (map qu_id (ex_questions [''a'', ''a'']))" by code_simp
  then show "ask_user_question_response_error ex_ask (ex_response [''a'', ''a'']) ''i'' ''c'' (ex_questions [''a'', ''a'']) \<noteq> None"
    by (rule shared_id_unanswerable)
qed code_simp

end
