(* ===== verification/ToolOutcomes.thy ===== *)
theory ToolOutcomes
  imports ToolRuntime
begin

text \<open>
  What became of tool calls and of the task: \<open>src/focus_agent/core/runtime_outcome.py\<close>. Tool messages are those of
  \<open>ToolRuntime\<close>, which always carry a tool name and a runtime mapping. JSON, \<open>str\<close>, \<open>int\<close> and \<open>float\<close> of values that are
  not strings, and the ellipsis (a character beyond 255), are fields of the environment. Payloads can embed further
  payloads as JSON text; the recursion over them takes fuel, and \<open>failure_recursion_ends\<close> says how much is enough.
\<close>

record outcome_env =
  oe_loads :: "string \<Rightarrow> pyval option"
  oe_str :: "pyval \<Rightarrow> string"
  oe_int :: "pyval \<Rightarrow> int option"
  oe_float :: "pyval \<Rightarrow> real option"
  oe_ellipsis :: string

section \<open>Texts\<close>

definition text_or_empty :: "outcome_env \<Rightarrow> pyval \<Rightarrow> string" where
  "text_or_empty E v = (if truthy v then py_str (oe_str E) v else [])"

definition optional_str :: "outcome_env \<Rightarrow> pyval \<Rightarrow> string option" where
  "optional_str E v = (let t = py_strip (text_or_empty E v) in if t = [] then None else Some t)"

definition float_or_none :: "outcome_env \<Rightarrow> pyval \<Rightarrow> real option" where
  "float_or_none E v = (if v = PNone then None else oe_float E v)"

definition int_or_none :: "outcome_env \<Rightarrow> pyval \<Rightarrow> int option" where
  "int_or_none E v = (if v = PNone then None else oe_int E v)"

definition truncate_error :: "outcome_env \<Rightarrow> pyval \<Rightarrow> string" where
  "truncate_error E v = (let t = py_words (text_or_empty E v) in
     if length t \<le> 500 then t else take 499 t @ oe_ellipsis E)"

section \<open>Failures in payloads\<close>

definition network_markers :: "string list" where
  "network_markers = [''failed to fetch'', ''connection'', ''network'', ''dns'', ''temporar'', ''timed out'', ''timeout'',
     ''http 5'', ''502'', ''503'', ''504'']"

definition mentions_network :: "string \<Rightarrow> bool" where
  "mentions_network s = list_ex (\<lambda>m. has_infix m (py_lower s)) network_markers"

definition error_message_of :: "outcome_env \<Rightarrow> pyval \<Rightarrow> string" where
  "error_message_of E payload = (case payload of
     PDict d \<Rightarrow> (case find (\<lambda>v. case v of PStr s \<Rightarrow> py_strip s \<noteq> [] | _ \<Rightarrow> False)
         (map (value_of d) [''error'', ''message'', ''stderr'', ''stdout'']) of
       None \<Rightarrow> [] | Some v \<Rightarrow> truncate_error E v)
   | _ \<Rightarrow> [])"

definition error_category :: "string \<Rightarrow> tool_args \<Rightarrow> string" where
  "error_category message runtime = (let lowered = py_lower message in
     if truthy (value_of runtime ''timed_out'') then ''timeout''
     else if has_infix ''timeout'' lowered \<or> has_infix ''timed out'' lowered then ''timeout''
     else if mentions_network message then ''network''
     else if has_infix ''validat'' lowered \<or> has_infix ''parameter'' lowered then ''validation''
     else if has_infix ''approval'' lowered \<or> has_infix ''denied'' lowered then ''approval''
     else ''execution_error'')"

definition message_or :: "string \<Rightarrow> string \<Rightarrow> string" where
  "message_or s z = (if s = [] then z else s)"

text \<open>
  \<open>None\<close> is the lack of fuel, \<open>Some None\<close> the answer that there is no failure. The first argument of
  \<open>embedded_payload_failure\<close> is the recursive call.
\<close>

definition embedded_payload_failure ::
    "outcome_env \<Rightarrow> (pyval \<Rightarrow> (string \<times> string) option option) \<Rightarrow> pyval \<Rightarrow> (string \<times> string) option option" where
  "embedded_payload_failure E rec v = (case v of
     PStr s \<Rightarrow>
       (let text = py_strip s in
        if text = [] then Some None
        else case oe_loads E text of
          None \<Rightarrow> Some (if has_infix ''error'' (py_lower text) \<and> mentions_network text then Some (''network'', truncate_error E (PStr text)) else None)
        | Some (PDict d) \<Rightarrow> map_option (map_option (\<lambda>(category, message).
            (if category = ''business_error'' \<and> mentions_network message then ''network'' else category, message))) (rec (PDict d))
        | Some _ \<Rightarrow> Some None)
   | _ \<Rightarrow> Some None)"

fun first_failure :: "(pyval \<Rightarrow> 'f option option) \<Rightarrow> pyval list \<Rightarrow> 'f option option" where
  "first_failure f [] = Some None"
| "first_failure f (v # vs) = (case f v of None \<Rightarrow> None | Some None \<Rightarrow> first_failure f vs | Some (Some x) \<Rightarrow> Some (Some x))"

definition business_statuses :: "string list" where
  "business_statuses = [''error'', ''failed'', ''failure'', ''cancelled'', ''canceled'']"

definition direct_failure :: "outcome_env \<Rightarrow> tool_args \<Rightarrow> (string \<times> string) option" where
  "direct_failure E d = (let msg = error_message_of E (PDict d); status = py_lower (py_strip (text_or_empty E (value_of d ''status''))) in
     if value_of d ''timed_out'' = PBool True then Some (''timeout'', message_or msg ''tool execution timed out'')
     else if status \<in> set business_statuses then Some (''business_error'', message_or msg (''tool returned status '' @ status))
     else if map_of d ''exit_code'' \<noteq> None \<and> oe_int E (value_of d ''exit_code'') = None
       then Some (''execution_error'', message_or msg ''tool command exit_code invalid'')
     else if map_of d ''exit_code'' \<noteq> None \<and> oe_int E (value_of d ''exit_code'') \<noteq> Some 0
       then Some (''execution_error'', message_or msg ''tool command exited non-zero'')
     else if value_of d ''ok'' = PBool False then Some (''business_error'', message_or msg ''tool returned ok=false'')
     else if value_of d ''success'' = PBool False then Some (''business_error'', message_or msg ''tool returned success=false'')
     else if truthy (value_of d ''error'') then Some (error_category (py_str (oe_str E) (value_of d ''error'')) [], msg)
     else None)"

fun payload_failure :: "outcome_env \<Rightarrow> nat \<Rightarrow> pyval \<Rightarrow> (string \<times> string) option option" where
  "payload_failure E 0 payload = None"
| "payload_failure E (Suc n) payload = (case payload of
     PDict d \<Rightarrow> (case direct_failure E d of
         Some x \<Rightarrow> Some (Some x)
       | None \<Rightarrow> first_failure (embedded_payload_failure E (payload_failure E n)) (map (value_of d) [''stdout'', ''stderr'', ''output'']))
   | _ \<Rightarrow> Some None)"

text \<open>The longest string of a value.\<close>

fun longest :: "pyval \<Rightarrow> nat" where
  "longest (PStr s) = length s"
| "longest (PList vs) = fold max (map longest vs) 0"
| "longest (PDict d) = fold max (map (\<lambda>(k, v). max (length k) (longest v)) d) 0"
| "longest v = 0"

definition payload_verdict :: "outcome_env \<Rightarrow> pyval \<Rightarrow> (string \<times> string) option" where
  "payload_verdict E payload = (case payload_failure E (longest payload + 1) payload of None \<Rightarrow> None | Some r \<Rightarrow> r)"

section \<open>Classification of a message\<close>

datatype outcome_status = Tool_succeeded | Tool_failed | Tool_recovered | Tool_blocked | Tool_skipped

definition blocked_flags :: "string list" where
  "blocked_flags = [''tool_approval_pending'', ''tool_approval_denied'', ''tool_approval_invalid'', ''forbidden_by_tool_router'',
     ''memory_context_authorization_failed'', ''parameter_validation_error'', ''validation_failed'',
     ''missing_tool_runtime_metadata'', ''malformed_tool_call'', ''max_calls_per_turn_exceeded'']"

definition skipped_flags :: "string list" where
  "skipped_flags = [''duplicate_tool_call_suppressed'', ''repeated_retrieval_suppressed'']"

definition runtime_flags :: "tool_args \<Rightarrow> string list" where
  "runtime_flags runtime = map fst (filter (\<lambda>(k, v). truthy v) runtime)"

definition blocked_error_category :: "string list \<Rightarrow> string" where
  "blocked_error_category flags =
    (if list_ex (has_infix ''approval'') flags then ''approval''
     else if list_ex (\<lambda>f. has_infix ''validation'' f \<or> has_infix ''parameter'' f) flags then ''validation''
     else if list_ex (\<lambda>f. has_infix ''forbidden'' f \<or> has_infix ''authorization'' f) flags then ''policy''
     else ''blocked'')"

definition first_runtime_reason :: "outcome_env \<Rightarrow> tool_args \<Rightarrow> string" where
  "first_runtime_reason E runtime = (case find truthy
       (map (value_of runtime) [''validation_error'', ''tool_approval_error'', ''error'', ''reason'', ''risk_level'']) of
     None \<Rightarrow> [] | Some v \<Rightarrow> truncate_error E v)"

definition message_payload :: "outcome_env \<Rightarrow> tool_message \<Rightarrow> pyval" where
  "message_payload E m = (case oe_loads E (tg_content m) of None \<Rightarrow> PNone | Some v \<Rightarrow> v)"

definition classify_tool_message :: "outcome_env \<Rightarrow> tool_message \<Rightarrow> outcome_status \<times> string \<times> string" where
  "classify_tool_message E m =
    (let runtime = tg_runtime m; flags = runtime_flags runtime; payload = message_payload E m;
         status = py_lower (py_strip (message_or (tg_status m) ''success''));
         raw = message_or (error_message_of E payload) (tg_content m) in
     if set flags \<inter> set skipped_flags \<noteq> {} then (Tool_skipped, ''skipped'', first_runtime_reason E runtime)
     else if set flags \<inter> set blocked_flags \<noteq> {} then (Tool_blocked, blocked_error_category flags, first_runtime_reason E runtime)
     else if status = ''error'' \<or> status = ''failed'' then (Tool_failed, error_category raw runtime, raw)
     else case payload_verdict E payload of
       Some (category, message) \<Rightarrow> (Tool_failed, category, message)
     | None \<Rightarrow> (Tool_succeeded, ''none'', []))"

section \<open>Outcomes\<close>

record outcome =
  oc_id :: string
  oc_call_id :: string
  oc_tool :: string
  oc_status :: outcome_status
  oc_turn :: string
  oc_human_turn :: "int option"
  oc_attempt :: int
  oc_max_attempts :: int
  oc_retryable :: bool
  oc_fallback_used :: bool
  oc_fallback_group :: "string option"
  oc_recovery_of :: string
  oc_contract :: bool
  oc_degraded :: string
  oc_category :: string
  oc_error :: string
  oc_role :: string
  oc_duration :: "real option"
  oc_cache_hit :: bool

definition is_failure :: "outcome \<Rightarrow> bool" where
  "is_failure x = (oc_status x = Tool_failed \<or> oc_status x = Tool_blocked)"

definition latest_prior_failure :: "outcome list \<Rightarrow> string \<Rightarrow> string \<Rightarrow> bool \<Rightarrow> outcome option" where
  "latest_prior_failure prior call_id tool same_call_only =
    (case (if call_id = [] then None else find (\<lambda>x. oc_call_id x = call_id \<and> is_failure x) (rev prior)) of
       Some x \<Rightarrow> Some x
     | None \<Rightarrow> if same_call_only then None else find (\<lambda>x. oc_tool x = tool \<and> is_failure x) (rev prior))"

definition attempts_of :: "outcome list \<Rightarrow> int list" where
  "attempts_of xs = map (\<lambda>x. if oc_attempt x = 0 then 1 else oc_attempt x) xs"

definition max_attempt :: "int list \<Rightarrow> int" where
  "max_attempt ns = (case ns of [] \<Rightarrow> 0 | n # ms \<Rightarrow> foldl max n ms)"

definition attempt_index :: "outcome_env \<Rightarrow> string \<Rightarrow> string \<Rightarrow> tool_args \<Rightarrow> outcome list \<Rightarrow> int" where
  "attempt_index E call_id tool runtime prior =
    (case int_or_none E (value_of runtime ''attempt_index'') of
       Some n \<Rightarrow> max 1 n
     | None \<Rightarrow> max_attempt (attempts_of (filter (\<lambda>x. if call_id \<noteq> [] then oc_call_id x = call_id else oc_tool x = tool) prior)) + 1)"

definition is_retryable :: "string \<Rightarrow> string \<Rightarrow> bool" where
  "is_retryable category message = (category \<in> set [''timeout'', ''network'', ''execution_error''] \<or> mentions_network message)"

definition evidence_role :: "string \<Rightarrow> outcome_status \<Rightarrow> string" where
  "evidence_role tool status =
    (if status \<in> set [Tool_failed, Tool_blocked, Tool_skipped] then ''none''
     else if tool \<in> set [''web_search'', ''web_fetch''] then ''alternative''
     else if tool \<in> set [''run_skill_entrypoint'', ''run_workspace_command''] then ''primary''
     else ''supporting'')"

definition contract_satisfied :: "outcome_status \<Rightarrow> bool \<Rightarrow> bool" where
  "contract_satisfied status fallback_used = ((status = Tool_succeeded \<or> status = Tool_recovered) \<and> \<not> fallback_used)"

definition degraded_tool_reason :: "outcome_env \<Rightarrow> outcome_status \<Rightarrow> bool \<Rightarrow> tool_args \<Rightarrow> string \<Rightarrow> string" where
  "degraded_tool_reason E status fallback_used runtime error =
    (case find (\<lambda>v. v \<noteq> None) (map (\<lambda>k. optional_str E (value_of runtime k)) [''degraded_reason'', ''fallback_reason'', ''error'', ''reason'']) of
       Some (Some v) \<Rightarrow> v
     | _ \<Rightarrow>
       if fallback_used then (case optional_str E (value_of runtime ''sandbox_backend'') of
           Some b \<Rightarrow> if take 5 b = ''local'' then ''local_host_execution'' else ''fallback_used''
         | None \<Rightarrow> ''fallback_used'')
       else if status = Tool_failed \<or> status = Tool_blocked then error else [])"

definition message_tool_name :: "(string, string) dict \<Rightarrow> tool_message \<Rightarrow> string" where
  "message_tool_name names m = message_or (py_strip (tg_tool m))
     (message_or (py_strip (get_or names (py_strip (tg_call_id m)) [])) ''unknown_tool'')"

definition tool_outcome_from_message ::
    "outcome_env \<Rightarrow> (string, string) dict \<Rightarrow> outcome list \<Rightarrow> string option \<Rightarrow> int option \<Rightarrow> tool_message \<Rightarrow> outcome" where
  "tool_outcome_from_message E names prior turn human m =
    (let call_id = py_strip (tg_call_id m); runtime = tg_runtime m; tool = message_tool_name names m;
         (status0, category, error) = classify_tool_message E m;
         group = optional_str E (value_of runtime ''fallback_group'');
         fallback = (truthy (value_of runtime ''fallback_used'') \<or> group \<noteq> None);
         failed = latest_prior_failure prior call_id tool (call_id \<noteq> [] \<and> \<not> fallback);
         recovered = (status0 = Tool_succeeded \<and> (fallback \<or> failed \<noteq> None));
         status = (if recovered then Tool_recovered else status0);
         retryable = is_retryable category error;
         attempt = attempt_index E call_id tool runtime prior in
     \<lparr>oc_id = message_or call_id tool @ '':'' @ show_nat (nat attempt),
      oc_call_id = call_id, oc_tool = tool, oc_status = status,
      oc_turn = (case optional_str E (PStr (case turn of None \<Rightarrow> [] | Some t \<Rightarrow> t)) of Some t \<Rightarrow> t
        | None \<Rightarrow> (case optional_str E (value_of runtime ''turn_id'') of Some t \<Rightarrow> t | None \<Rightarrow> [])),
      oc_human_turn = (case human of Some n \<Rightarrow> Some n | None \<Rightarrow> int_or_none E (value_of runtime ''human_turn_index'')),
      oc_attempt = attempt,
      oc_max_attempts = (if retryable \<or> status = Tool_failed \<or> status = Tool_recovered then 2 else max 1 attempt),
      oc_retryable = retryable, oc_fallback_used = fallback, oc_fallback_group = group,
      oc_recovery_of = (if recovered then (case failed of None \<Rightarrow> [] | Some x \<Rightarrow> oc_call_id x) else []),
      oc_contract = contract_satisfied status fallback,
      oc_degraded = degraded_tool_reason E status fallback runtime error,
      oc_category = category, oc_error = error, oc_role = evidence_role tool status,
      oc_duration = float_or_none E (value_of runtime ''duration_ms''),
      oc_cache_hit = truthy (get_or runtime ''cache_hit'' (PBool False))\<rparr>)"

text \<open>The messages read: the calls of an AI message, or a tool message.\<close>

datatype outcome_source = Calls "pyval list" | Answer tool_message

definition call_field :: "outcome_env \<Rightarrow> tool_args \<Rightarrow> string \<Rightarrow> string" where
  "call_field E d k = py_strip (text_or_empty E (value_of d k))"

definition note_call :: "outcome_env \<Rightarrow> pyval \<Rightarrow> (string, string) dict \<Rightarrow> (string, string) dict" where
  "note_call E v names = (case v of
     PDict d \<Rightarrow> if call_field E d ''id'' \<noteq> [] \<and> call_field E d ''name'' \<noteq> []
       then AList.update (call_field E d ''id'') (call_field E d ''name'') names else names
   | _ \<Rightarrow> names)"

fun outcomes_from :: "outcome_env \<Rightarrow> outcome list \<Rightarrow> string option \<Rightarrow> int option \<Rightarrow> (string, string) dict \<Rightarrow>
    outcome_source list \<Rightarrow> outcome list" where
  "outcomes_from E prior turn human names [] = []"
| "outcomes_from E prior turn human names (Calls vs # ms) = outcomes_from E prior turn human (fold (note_call E) vs names) ms"
| "outcomes_from E prior turn human names (Answer m # ms) =
    (let x = tool_outcome_from_message E names prior turn human m in
     x # outcomes_from E (prior @ [x]) turn human names ms)"

definition build_tool_outcomes_from_messages ::
    "outcome_env \<Rightarrow> outcome list \<Rightarrow> string option \<Rightarrow> int option \<Rightarrow> outcome_source list \<Rightarrow> outcome list" where
  "build_tool_outcomes_from_messages E prior turn human ms = outcomes_from E prior turn human [] ms"

section \<open>The outcome of the task\<close>

datatype task_status = Task_answered | Task_degraded | Task_blocked | Task_failed

record task_outcome =
  to_status :: task_status
  to_user_goal :: string
  to_policy :: string
  to_basis :: string
  to_repair :: string
  to_reason :: string
  to_evidence :: nat
  to_outcome_ids :: "string list"
  to_warnings :: "string list"

record task_input =
  ki_user_goal :: string
  ki_contract :: tool_args
  ki_verification :: tool_args
  ki_evidence :: nat
  ki_outcomes :: "outcome list"
  ki_answer :: string
  ki_repair :: string
  ki_turn :: "string option"
  ki_human_turn :: "int option"

definition text_or :: "outcome_env \<Rightarrow> tool_args \<Rightarrow> string \<Rightarrow> string \<Rightarrow> string" where
  "text_or E d k z = (if truthy (value_of d k) then py_str (oe_str E) (value_of d k) else z)"

definition evidence_count :: "tool_args \<Rightarrow> nat \<Rightarrow> nat" where
  "evidence_count contract ledger = (case value_of contract ''skill_evidence_facts'' of PList vs \<Rightarrow> length vs | _ \<Rightarrow> ledger)"

definition is_degraded_task :: "string \<Rightarrow> string \<Rightarrow> string \<Rightarrow> outcome list \<Rightarrow> nat \<Rightarrow> bool" where
  "is_degraded_task contract_status verification_status repair failed evidence =
    (if repair \<in> set [''fallback_to_tool_results'', ''answer_with_uncertainty'', ''answer_with_verified_temporal_anchor''] then True
     else if contract_status \<notin> set [''satisfied'', ''not_required''] then True
     else if verification_status \<notin> set [''verified'', ''not_required''] then True
     else failed \<noteq> [] \<and> evidence = 0)"

definition recovered_ids :: "outcome list \<Rightarrow> string list" where
  "recovered_ids xs = filter (\<lambda>i. i \<noteq> []) (map oc_recovery_of (filter (\<lambda>x. oc_status x = Tool_recovered) xs))"

definition unresolved_failed_outcomes :: "outcome list \<Rightarrow> outcome list" where
  "unresolved_failed_outcomes xs = filter (\<lambda>x. is_failure x \<and> oc_call_id x \<notin> set (recovered_ids xs)) xs"

definition current_turn_outcomes :: "outcome list \<Rightarrow> string option \<Rightarrow> int option \<Rightarrow> outcome list" where
  "current_turn_outcomes xs turn human =
    (let t = py_strip (case turn of None \<Rightarrow> [] | Some s \<Rightarrow> s) in
     if t \<noteq> [] then filter (\<lambda>x. oc_turn x = t) xs
     else case human of Some n \<Rightarrow> filter (\<lambda>x. oc_human_turn x = Some n) xs | None \<Rightarrow> xs)"

definition listed_texts :: "outcome_env \<Rightarrow> tool_args \<Rightarrow> string \<Rightarrow> string list" where
  "listed_texts E d k = (case value_of d k of PList vs \<Rightarrow> filter (\<lambda>s. s \<noteq> []) (map (py_str (oe_str E)) vs) | _ \<Rightarrow> [])"

definition blocked_reason :: "outcome_env \<Rightarrow> tool_args \<Rightarrow> string" where
  "blocked_reason E contract = py_strip (text_or E contract ''blocked_reason'' [])"

definition degradation_reason :: "outcome_env \<Rightarrow> task_status \<Rightarrow> tool_args \<Rightarrow> tool_args \<Rightarrow> outcome list \<Rightarrow> string" where
  "degradation_reason E status verification contract failed =
    (if status = Task_answered then []
     else if blocked_reason E contract \<noteq> [] then blocked_reason E contract
     else case find (\<lambda>s. s \<noteq> []) (map (\<lambda>k. join_with ''; '' (listed_texts E verification k)) [''unsupported_claims'', ''contradictions''] @
         map (\<lambda>x. py_strip (oc_error x)) failed) of
       Some s \<Rightarrow> s | None \<Rightarrow> ''insufficient evidence'')"

definition task_warnings :: "outcome_env \<Rightarrow> tool_args \<Rightarrow> tool_args \<Rightarrow> outcome list \<Rightarrow> string list" where
  "task_warnings E verification contract failed =
    (let warnings = listed_texts E verification ''unsupported_claims'' @ listed_texts E verification ''contradictions'' @
       (if blocked_reason E contract = [] then [] else [blocked_reason E contract]) @
       map (\<lambda>x. oc_tool x @ '': '' @ oc_error x) (filter (\<lambda>x. oc_error x \<noteq> []) failed) in
     take 8 (from_keys warnings))"

definition task_status_of :: "string \<Rightarrow> string \<Rightarrow> string \<Rightarrow> string \<Rightarrow> outcome list \<Rightarrow> nat \<Rightarrow> task_status \<times> string" where
  "task_status_of contract_status verification_status repair answer failed evidence =
    (if contract_status = ''blocked'' \<or> verification_status = ''blocked'' \<or> filter (\<lambda>x. oc_status x = Tool_blocked) failed \<noteq> []
       then (Task_blocked, ''blocked'')
     else if answer = [] then (Task_failed, ''no_final_answer'')
     else if is_degraded_task contract_status verification_status repair failed evidence
       then (Task_degraded, if 0 < evidence then ''partial_or_alternative_evidence'' else ''tool_failure'')
     else (Task_answered, if 0 < evidence then ''verified_evidence'' else ''direct_answer''))"

definition build_task_outcome :: "outcome_env \<Rightarrow> task_input \<Rightarrow> task_outcome" where
  "build_task_outcome E k =
    (let contract = ki_contract k; verification = ki_verification k;
         current = current_turn_outcomes (ki_outcomes k) (ki_turn k) (ki_human_turn k);
         failed = unresolved_failed_outcomes current;
         evidence = evidence_count contract (ki_evidence k);
         repair = message_or (ki_repair k) (text_or E verification ''repair_action_taken'' []);
         (status, basis) = task_status_of (text_or E contract ''status'' ''not_required'') (text_or E verification ''status'' ''not_required'')
           repair (py_strip (ki_answer k)) failed evidence in
     \<lparr>to_status = status,
      to_user_goal = py_strip (message_or (ki_user_goal k) (text_or E contract ''user_query'' [])),
      to_policy = message_or (py_strip (text_or E contract ''policy'' ''direct_answer'')) ''direct_answer'',
      to_basis = basis, to_repair = repair,
      to_reason = degradation_reason E status verification contract failed,
      to_evidence = evidence,
      to_outcome_ids = filter (\<lambda>s. s \<noteq> []) (map (\<lambda>x. message_or (oc_id x) (oc_call_id x)) current),
      to_warnings = task_warnings E verification contract failed\<rparr>)"

section \<open>Lemmas\<close>

lemma fold_max_ge: "(z :: nat) \<le> fold max ns z" "n \<in> set ns \<Longrightarrow> n \<le> fold max ns z"
proof (induction ns arbitrary: z)
  case (Cons m ns)
  case 1 show ?case using Cons.IH(1) [of "max m z"] by simp
  case 2 show ?case using Cons.IH(1) [of "max m z"] Cons.IH(2) [of "max m z"] 2 by auto
qed simp_all

lemma longest_value_of: "longest (value_of d k) \<le> longest (PDict d)"
proof (cases "map_of d k")
  case (Some v)
  then have "max (length k) (longest v) \<in> set (map (\<lambda>(k, v). max (length k) (longest v)) d)"
    by (force dest: map_of_SomeD)
  from fold_max_ge(2) [OF this, of 0] Some show ?thesis by (simp add: value_of_def get_or_def)
qed (simp add: value_of_def get_or_def)

lemma first_failure_total:
  assumes "\<And>v. v \<in> set vs \<Longrightarrow> \<exists>r. f v = Some r \<and> g v = Some r"
  shows "\<exists>r. first_failure f vs = Some r \<and> first_failure g vs = Some r"
  using assms
proof (induction vs)
  case (Cons v vs)
  obtain r where r: "f v = Some r" "g v = Some r" using Cons.prems [of v] by auto
  obtain r' where "first_failure f vs = Some r'" "first_failure g vs = Some r'" using Cons by (meson list.set_intros(2))
  then show ?case using r by (cases r) simp_all
qed simp

definition texts_outgrow_values :: "outcome_env \<Rightarrow> bool" where
  "texts_outgrow_values E \<longleftrightarrow> (\<forall>s v. oe_loads E s = Some v \<longrightarrow> longest v < length s)"

lemma payload_failure_fuel:
  assumes "texts_outgrow_values E"
  shows "longest v < n \<Longrightarrow> longest v < m \<Longrightarrow> \<exists>r. payload_failure E n v = Some r \<and> payload_failure E m v = Some r"
proof (induction n arbitrary: v m)
  case (Suc n)
  obtain m' where m': "m = Suc m'" using Suc.prems(2) by (cases m) auto
  show ?case
  proof (cases v)
    case (PDict d)
    let ?f = "embedded_payload_failure E (payload_failure E n)" and ?g = "embedded_payload_failure E (payload_failure E m')"
    let ?vs = "map (value_of d) [''stdout'', ''stderr'', ''output'']"
    have step: "\<exists>r. ?f w = Some r \<and> ?g w = Some r" if w: "w \<in> set ?vs" for w
    proof (cases w)
      case (PStr s)
      have "length s \<le> longest v" using w longest_value_of [of d] PStr PDict by (auto simp del: longest.simps(3)) (metis longest.simps(1))+
      then have l: "length (py_strip s) \<le> n" "length (py_strip s) \<le> m'"
        using length_py_strip [of s] Suc.prems m' by linarith+
      show ?thesis
      proof (cases "oe_loads E (py_strip s)")
        case (Some p)
        then have "longest p < length (py_strip s)" using assms by (simp add: texts_outgrow_values_def)
        then obtain r where "payload_failure E n p = Some r" "payload_failure E m' p = Some r" using Suc.IH [of p m'] l by auto
        then show ?thesis using Some PStr by (cases p) (auto simp: embedded_payload_failure_def Let_def)
      qed (simp add: embedded_payload_failure_def PStr Let_def)
    qed (simp_all add: embedded_payload_failure_def)
    obtain r where "first_failure ?f ?vs = Some r" "first_failure ?g ?vs = Some r" using first_failure_total [of ?vs ?f ?g, OF step] by blast
    then show ?thesis unfolding m' PDict payload_failure.simps pyval.case by (cases "direct_failure E d") simp_all
  qed (simp_all add: m')
qed simp

lemma max_attempt_ge:
  assumes "n \<in> set ns"
  shows "n \<le> max_attempt ns"
proof -
  have ge: "(m \<in> set ms \<or> m \<le> z) \<longrightarrow> m \<le> foldl max z ms" for m z :: int and ms
  proof (induction ms arbitrary: z)
    case (Cons a ms)
    show ?case using Cons.IH [of "max z a"] by auto
  qed simp
  show ?thesis using assms ge by (cases ns) (auto simp: max_attempt_def)
qed

lemma attempt_of_repeated_call:
  assumes "int_or_none E (value_of runtime ''attempt_index'') = None" "call_id \<noteq> []" "x \<in> set prior" "oc_call_id x = call_id" "1 \<le> oc_attempt x"
  shows "2 \<le> attempt_index E call_id tool runtime prior"
proof -
  have "oc_attempt x \<in> set (attempts_of (filter (\<lambda>x. oc_call_id x = call_id) prior))"
    using assms by (force simp: attempts_of_def)
  from max_attempt_ge [OF this] show ?thesis using assms by (simp add: attempt_index_def)
qed

lemma outcome_fields:
  fixes E names prior turn human m
  defines "x \<equiv> tool_outcome_from_message E names prior turn human m"
  shows "oc_call_id x = py_strip (tg_call_id m)" "oc_tool x = message_tool_name names m"
    "oc_attempt x = attempt_index E (py_strip (tg_call_id m)) (message_tool_name names m) (tg_runtime m) prior"
    "oc_max_attempts x = (if oc_retryable x \<or> oc_status x = Tool_failed \<or> oc_status x = Tool_recovered then 2 else max 1 (oc_attempt x))"
  by (simp_all add: x_def tool_outcome_from_message_def Let_def split_beta)

lemma find_rev_None: "find P (rev xs) = None \<longleftrightarrow> (\<forall>x \<in> set xs. \<not> P x)"
  by (auto simp: find_None_iff)

lemma outcome_of_repeated_success:
  assumes "fst (classify_tool_message E m) = Tool_succeeded" "py_strip (tg_call_id m) \<noteq> []"
    "f \<in> set prior" "oc_call_id f = py_strip (tg_call_id m)" "is_failure f"
  shows "oc_status (tool_outcome_from_message E names prior turn human m) = Tool_recovered \<and>
    oc_recovery_of (tool_outcome_from_message E names prior turn human m) = py_strip (tg_call_id m)"
proof -
  let ?i = "py_strip (tg_call_id m)"
  obtain g where g: "find (\<lambda>x. oc_call_id x = ?i \<and> is_failure x) (rev prior) = Some g"
    using assms(3-5) find_rev_None [of "\<lambda>x. oc_call_id x = ?i \<and> is_failure x" prior] by (metis option.exhaust)
  then have "oc_call_id g = ?i" by (auto simp: find_Some_iff)
  then show ?thesis using assms(1,2) g
    by (auto simp: tool_outcome_from_message_def latest_prior_failure_def Let_def split_beta)
qed

section \<open>Properties\<close>

text \<open>C23: The search for failures ends: JSON text is longer than the strings of the value it stands for, so payloads
  embedded in the output of commands get shorter, and every fuel above the longest string gives the verdict.\<close>

theorem failure_recursion_ends:
  assumes "texts_outgrow_values E" "longest v < n"
  shows "payload_failure E n v = Some (payload_verdict E v)"
proof -
  obtain r where r: "payload_failure E n v = Some r" "payload_failure E (longest v + 1) v = Some r"
    using payload_failure_fuel [OF assms, of "longest v + 1"] by auto
  show ?thesis unfolding payload_verdict_def r option.case ..
qed

text \<open>A call is retried at most once: the outcome of a further attempt of the same call has an attempt index of at
  least two and is never below its maximum of attempts.\<close>

lemma retry_at_most_once:
  fixes E names prior turn human m
  defines "y \<equiv> tool_outcome_from_message E names prior turn human m"
  assumes "int_or_none E (value_of (tg_runtime m) ''attempt_index'') = None" "oc_call_id y \<noteq> []"
    "x \<in> set prior" "oc_call_id x = oc_call_id y" "1 \<le> oc_attempt x"
  shows "2 \<le> oc_attempt y \<and> oc_max_attempts y \<le> oc_attempt y"
proof -
  have "2 \<le> oc_attempt y" using attempt_of_repeated_call [of E "tg_runtime m" "oc_call_id y" x prior] assms
    by (simp add: outcome_fields)
  then show ?thesis unfolding y_def outcome_fields(4) by simp
qed

text \<open>A retry that succeeds resolves its call: once a message of a call that failed before is classified as a
  success, no failure of this call remains unresolved and the outcome names the call it recovered.\<close>

lemma recovered_call_is_resolved:
  assumes "fst (classify_tool_message E m) = Tool_succeeded" "py_strip (tg_call_id m) \<noteq> []"
    "f \<in> set prior" "oc_call_id f = py_strip (tg_call_id m)" "is_failure f"
  shows "let y = tool_outcome_from_message E names prior turn human m in oc_status y = Tool_recovered \<and>
    (\<forall>x \<in> set (unresolved_failed_outcomes (prior @ [y])). oc_call_id x \<noteq> py_strip (tg_call_id m))"
  using outcome_of_repeated_success [OF assms, of names turn human] assms(2)
  by (auto simp: Let_def unresolved_failed_outcomes_def recovered_ids_def)

text \<open>Failures are reported: a blocked call of the turn that was not recovered blocks the task; a failed one without
  evidence keeps it from counting as answered; and among at most eight warnings its error is one.\<close>

lemma failure_is_reported:
  assumes "x \<in> set (current_turn_outcomes (ki_outcomes k) (ki_turn k) (ki_human_turn k))" "is_failure x"
    "oc_call_id x \<notin> set (recovered_ids (current_turn_outcomes (ki_outcomes k) (ki_turn k) (ki_human_turn k)))"
  shows "(oc_status x = Tool_blocked \<longrightarrow> to_status (build_task_outcome E k) = Task_blocked) \<and>
    (to_evidence (build_task_outcome E k) = 0 \<longrightarrow> to_status (build_task_outcome E k) \<noteq> Task_answered) \<and>
    (oc_error x \<noteq> [] \<and> length (to_warnings (build_task_outcome E k)) < 8 \<longrightarrow>
      oc_tool x @ '': '' @ oc_error x \<in> set (to_warnings (build_task_outcome E k)))"
proof -
  let ?failed = "unresolved_failed_outcomes (current_turn_outcomes (ki_outcomes k) (ki_turn k) (ki_human_turn k))"
  have x: "x \<in> set ?failed" using assms by (simp add: unresolved_failed_outcomes_def)
  have "oc_status x = Tool_blocked \<longrightarrow> filter (\<lambda>x. oc_status x = Tool_blocked) ?failed \<noteq> []" using x by (auto simp: filter_empty_conv)
  then have b: "oc_status x = Tool_blocked \<longrightarrow> to_status (build_task_outcome E k) = Task_blocked"
    by (auto simp: build_task_outcome_def task_status_of_def Let_def split_beta)
  have "?failed \<noteq> []" using x by auto
  then have a: "to_evidence (build_task_outcome E k) = 0 \<longrightarrow> to_status (build_task_outcome E k) \<noteq> Task_answered"
    by (simp add: build_task_outcome_def task_status_of_def is_degraded_task_def Let_def split_beta)
  have w: "oc_tool x @ '': '' @ oc_error x \<in> set (task_warnings E v c ?failed)"
    if "oc_error x \<noteq> []" "length (task_warnings E v c ?failed) < 8" for v c
  proof -
    have "set (task_warnings E v c ?failed) = set (listed_texts E v ''unsupported_claims'' @ listed_texts E v ''contradictions'' @
       (if blocked_reason E c = [] then [] else [blocked_reason E c]) @ map (\<lambda>x. oc_tool x @ '': '' @ oc_error x) (filter (\<lambda>x. oc_error x \<noteq> []) ?failed))"
      using that(2) by (simp add: task_warnings_def Let_def)
    then show ?thesis using x that(1) by auto
  qed
  have "to_warnings (build_task_outcome E k) = task_warnings E (ki_verification k) (ki_contract k) ?failed"
    by (simp add: build_task_outcome_def Let_def split_beta)
  then show ?thesis using a b w by simp
qed

section \<open>Witnesses\<close>

definition ex_text :: string where
  "ex_text = ''{\"timed_out\": true}''"

definition ex_outcome_env :: outcome_env where
  "ex_outcome_env = \<lparr>oe_loads = (\<lambda>s. if s = ex_text then Some (PDict [(''timed_out'', PBool True)]) else None),
     oe_str = (\<lambda>v. []), oe_int = (\<lambda>v. case v of PInt n \<Rightarrow> Some n | _ \<Rightarrow> None),
     oe_float = (\<lambda>v. case v of PFloat x \<Rightarrow> Some x | _ \<Rightarrow> None), oe_ellipsis = ''...''\<rparr>"

lemma ex_texts_outgrow: "texts_outgrow_values ex_outcome_env"
proof -
  have "longest (PDict [(''timed_out'', PBool True)]) < length ex_text" by code_simp
  then show ?thesis by (simp add: texts_outgrow_values_def ex_outcome_env_def)
qed

lemma failure_recursion_ends_witness:
  "payload_failure ex_outcome_env 50 (PDict [(''stdout'', PStr ex_text)]) = Some (Some (''timeout'', ''tool execution timed out''))"
proof -
  have "longest (PDict [(''stdout'', PStr ex_text)]) < 50" by code_simp
  from failure_recursion_ends [OF ex_texts_outgrow this]
  have "payload_failure ex_outcome_env 50 (PDict [(''stdout'', PStr ex_text)]) =
    Some (payload_verdict ex_outcome_env (PDict [(''stdout'', PStr ex_text)]))" .
  moreover have "payload_verdict ex_outcome_env (PDict [(''stdout'', PStr ex_text)]) = Some (''timeout'', ''tool execution timed out'')"
    by code_simp
  ultimately show ?thesis by simp
qed

definition ex_message :: "string \<Rightarrow> string \<Rightarrow> string \<Rightarrow> tool_args \<Rightarrow> tool_message" where
  "ex_message content tool status info = build_tool_message content ''c1'' tool None status info"

definition ex_outcomes :: "outcome_source list \<Rightarrow> outcome list" where
  "ex_outcomes ms = build_tool_outcomes_from_messages ex_outcome_env [] (Some ''1'') (Some 1) ms"

definition ex_failed :: outcome where
  "ex_failed = hd (ex_outcomes [Answer (ex_message ''connection lost'' ''web_fetch'' ''error'' [])])"

definition ex_task :: "outcome list \<Rightarrow> task_input" where
  "ex_task xs = \<lparr>ki_user_goal = ''goal'', ki_contract = [], ki_verification = [], ki_evidence = 0, ki_outcomes = xs,
     ki_answer = ''an answer'', ki_repair = [], ki_turn = Some ''1'', ki_human_turn = Some 1\<rparr>"

lemma ex_failed_facts:
  "oc_status ex_failed = Tool_failed" "oc_retryable ex_failed" "oc_attempt ex_failed = 1" "oc_max_attempts ex_failed = 2"
  "oc_call_id ex_failed = ''c1''" "oc_error ex_failed = ''connection lost''" "oc_tool ex_failed = ''web_fetch''"
  by code_simp+

lemma retry_at_most_once_witness:
  "let y = tool_outcome_from_message ex_outcome_env [] [ex_failed] (Some ''1'') (Some 1) (ex_message ''connection lost'' ''web_fetch'' ''error'' [])
   in oc_retryable y \<and> 2 \<le> oc_attempt y \<and> oc_max_attempts y \<le> oc_attempt y"
proof -
  let ?m = "ex_message ''connection lost'' ''web_fetch'' ''error'' []"
  have a: "int_or_none ex_outcome_env (value_of (tg_runtime ?m) ''attempt_index'') = None"
    and b: "oc_call_id (tool_outcome_from_message ex_outcome_env [] [ex_failed] (Some ''1'') (Some 1) ?m) = ''c1''"
    and r: "oc_retryable (tool_outcome_from_message ex_outcome_env [] [ex_failed] (Some ''1'') (Some 1) ?m)" by code_simp+
  show ?thesis
    using retry_at_most_once [OF a, of "[]" "[ex_failed]" "Some ''1''" "Some 1" ex_failed] r
    by (simp add: b ex_failed_facts Let_def)
qed

text \<open>The call \<open>c1\<close> of \<open>web_fetch\<close> failed; that another tool's call \<open>c1\<close> succeeds hides the failure.\<close>

lemma recovered_call_is_resolved_witness:
  "let y = tool_outcome_from_message ex_outcome_env [] [ex_failed] (Some ''1'') (Some 1) (ex_message ''done'' ''skills_list'' ''success'' [])
   in oc_status y = Tool_recovered \<and> to_status (build_task_outcome ex_outcome_env (ex_task [ex_failed])) = Task_degraded \<and>
     to_status (build_task_outcome ex_outcome_env (ex_task [ex_failed, y])) = Task_answered"
proof -
  let ?m = "ex_message ''done'' ''skills_list'' ''success'' []"
  let ?y = "tool_outcome_from_message ex_outcome_env [] [ex_failed] (Some ''1'') (Some 1) ?m"
  have a: "fst (classify_tool_message ex_outcome_env ?m) = Tool_succeeded" "py_strip (tg_call_id ?m) \<noteq> []"
    "ex_failed \<in> set [ex_failed]" "oc_call_id ex_failed = py_strip (tg_call_id ?m)" "is_failure ex_failed" by code_simp+
  have "to_status (build_task_outcome ex_outcome_env (ex_task [ex_failed])) = Task_degraded \<and>
     to_status (build_task_outcome ex_outcome_env (ex_task [ex_failed, ?y])) = Task_answered" by code_simp
  then show ?thesis using recovered_call_is_resolved [OF a, of "[]" "Some ''1''" "Some 1"] by (simp add: Let_def)
qed

lemma failure_is_reported_witness:
  "to_status (build_task_outcome ex_outcome_env (ex_task [ex_failed])) \<noteq> Task_answered \<and>
   ''web_fetch: connection lost'' \<in> set (to_warnings (build_task_outcome ex_outcome_env (ex_task [ex_failed])))"
proof -
  let ?k = "ex_task [ex_failed]"
  have a: "ex_failed \<in> set (current_turn_outcomes (ki_outcomes ?k) (ki_turn ?k) (ki_human_turn ?k))" "is_failure ex_failed"
    "oc_call_id ex_failed \<notin> set (recovered_ids (current_turn_outcomes (ki_outcomes ?k) (ki_turn ?k) (ki_human_turn ?k)))"
    "to_evidence (build_task_outcome ex_outcome_env ?k) = 0" "length (to_warnings (build_task_outcome ex_outcome_env ?k)) = 1" by code_simp+
  then show ?thesis using failure_is_reported [OF a(1-3), of ex_outcome_env] by (simp add: ex_failed_facts)
qed

end
