(* ===== verification/RetrievalLedger.thy ===== *)
theory RetrievalLedger
  imports ToolOutcomes
begin

text \<open>
  The record of retrieval within a turn: \<open>src/focus_agent/engine/graph/retrieval_ledger.py\<close>, with the reading of tool
  results of \<open>engine/graph/tool_messages.py\<close>. A history is a list of messages of which only the calls of a model, the
  tool messages and the places of human messages matter. JSON and the splitting of URLs are fields of the environment.
\<close>

datatype history_message = Human_msg | Model_msg "pyval list" | Tool_msg tool_message | Other_msg

record url_parts =
  up_scheme :: string
  up_netloc :: string
  up_path :: string
  up_query :: string

record ledger_env =
  ge_outcome :: outcome_env
  ge_dumps :: "tool_args \<Rightarrow> string"
  ge_urlsplit :: "string \<Rightarrow> url_parts option"
  ge_urlunsplit :: "url_parts \<Rightarrow> string"

section \<open>Identity of a retrieval\<close>

definition normalize_query :: "outcome_env \<Rightarrow> pyval \<Rightarrow> string" where
  "normalize_query E v = py_words (py_lower (text_or_empty E v))"

definition strip_slashes :: "string \<Rightarrow> string" where
  "strip_slashes s = rev (dropWhile (\<lambda>c. c = CHR ''/'') (rev s))"

definition normalize_url :: "ledger_env \<Rightarrow> pyval \<Rightarrow> string" where
  "normalize_url G v = (let raw = py_strip (text_or_empty (ge_outcome G) v) in
     case ge_urlsplit G raw of
       None \<Rightarrow> raw
     | Some u \<Rightarrow> ge_urlunsplit G \<lparr>up_scheme = py_lower (up_scheme u), up_netloc = py_lower (up_netloc u),
         up_path = (if up_path u = [] \<or> up_path u = ''/'' then [] else strip_slashes (up_path u)), up_query = up_query u\<rparr>)"

definition domains_of :: "outcome_env \<Rightarrow> pyval \<Rightarrow> pyval" where
  "domains_of E v = (let items = (case v of PStr s \<Rightarrow> [PStr s] | PList vs \<Rightarrow> vs | _ \<Rightarrow> []) in
     PList (map PStr (sort (remdups (filter (\<lambda>s. s \<noteq> []) (map (normalize_query E) items))))))"

definition retrieval_identity :: "ledger_env \<Rightarrow> string \<Rightarrow> tool_args \<Rightarrow> tool_args option" where
  "retrieval_identity G tool args = (let E = ge_outcome G in
     if tool = ''web_search'' then Some
       [(''query'', PStr (normalize_query E (value_of args ''query''))), (''time_range'', PStr (normalize_query E (value_of args ''time_range''))),
        (''include_domains'', domains_of E (value_of args ''include_domains'')),
        (''exclude_domains'', domains_of E (value_of args ''exclude_domains''))]
     else if tool = ''web_fetch'' then Some
       [(''url'', PStr (normalize_url G (value_of args ''url''))), (''max_chars'', value_of args ''max_chars'')]
     else if tool = ''artifact_read'' then Some
       [(''artifact_id'', PStr (py_strip (text_or_empty E (value_of args ''artifact_id'')))), (''offset'', value_of args ''offset''),
        (''limit'', value_of args ''limit''), (''query'', PStr (normalize_query E (value_of args ''query'')))]
     else None)"

definition retrieval_key :: "ledger_env \<Rightarrow> string \<Rightarrow> tool_args \<Rightarrow> string option" where
  "retrieval_key G tool args = map_option (\<lambda>i. tool @ '':'' @ ge_dumps G i) (retrieval_identity G tool args)"

definition dquote :: string where
  "dquote = [char_of (34 :: nat)]"

definition ledger_label :: "outcome_env \<Rightarrow> string \<Rightarrow> tool_args \<Rightarrow> string" where
  "ledger_label E tool args =
    (if tool = ''web_search'' then ''web_search '' @ dquote @ py_words (text_or_empty E (value_of args ''query'')) @ dquote @
       (if truthy (value_of args ''time_range'') then '' (time_range='' @ py_str (oe_str E) (value_of args ''time_range'') @ '')'' else [])
     else if tool = ''web_fetch'' then ''web_fetch '' @ py_strip (text_or_empty E (value_of args ''url''))
     else (let label = ''artifact_read '' @ py_strip (text_or_empty E (value_of args ''artifact_id'')) in
       if truthy (value_of args ''query'') then label @ '' query='' @ dquote @ py_str (oe_str E) (value_of args ''query'') @ dquote
       else label @ '' offset='' @ (if truthy (value_of args ''offset'') then py_str (oe_str E) (value_of args ''offset'') else ''0'')))"

section \<open>Reading tool results\<close>

type_synonym named_call = "string \<times> tool_args"

text \<open>The calls of a message with an id and a name; later calls replace earlier ones with the same id.\<close>

definition note_named_call :: "outcome_env \<Rightarrow> pyval \<Rightarrow> (string, named_call) dict \<Rightarrow> (string, named_call) dict" where
  "note_named_call E v calls = (case v of
     PDict d \<Rightarrow> if call_field E d ''id'' \<noteq> [] \<and> call_field E d ''name'' \<noteq> []
       then AList.update (call_field E d ''id'') (call_field E d ''name'', case value_of d ''args'' of PDict a \<Rightarrow> a | _ \<Rightarrow> []) calls
       else calls
   | _ \<Rightarrow> calls)"

fun iter_tool_results :: "outcome_env \<Rightarrow> (string, named_call) dict \<Rightarrow> history_message list \<Rightarrow> (tool_message \<times> named_call) list" where
  "iter_tool_results E calls [] = []"
| "iter_tool_results E calls (m # ms) = (case m of
     Model_msg vs \<Rightarrow> iter_tool_results E (fold (note_named_call E) vs calls) ms
   | Tool_msg t \<Rightarrow> (t, get_or calls (py_strip (tg_call_id t)) ([], [])) # iter_tool_results E calls ms
   | _ \<Rightarrow> iter_tool_results E calls ms)"

definition since_latest_human :: "history_message list \<Rightarrow> history_message list" where
  "since_latest_human ms = rev (takeWhile (\<lambda>m. m \<noteq> Human_msg) (rev ms))"

definition tool_message_failed :: "outcome_env \<Rightarrow> tool_message \<Rightarrow> bool" where
  "tool_message_failed E m = (let status = py_lower (py_strip (tg_status m)) in
     status = ''error'' \<or> status = ''failed'' \<or> payload_verdict E (message_payload E m) \<noteq> None)"

definition published_at_keys :: "string list" where
  "published_at_keys = [''published_at'', ''published'', ''published_date'', ''publishedDate'', ''publication_date'',
     ''published_on'', ''published_time'', ''date'']"

definition payload_published_at :: "outcome_env \<Rightarrow> pyval \<Rightarrow> string option" where
  "payload_published_at E payload = (case payload of
     PDict d \<Rightarrow> find (\<lambda>s. s \<noteq> []) (concat (map (\<lambda>source. case source of
         PDict e \<Rightarrow> map (\<lambda>k. py_words (text_or_empty E (value_of e k))) published_at_keys | _ \<Rightarrow> [])
       [payload, value_of d ''metadata'', value_of d ''meta'']))
   | _ \<Rightarrow> None)"

definition published_at :: "outcome_env \<Rightarrow> tool_message \<Rightarrow> string" where
  "published_at E m = take 10 (case payload_published_at E (message_payload E m) of None \<Rightarrow> [] | Some s \<Rightarrow> s)"

text \<open>\<open>urllib.parse.quote(s, safe="")\<close>: other characters than letters, digits and \<open>_.-~\<close> become the bytes of their UTF-8.\<close>

definition hex_digit :: "nat \<Rightarrow> char" where
  "hex_digit n = (if n < 10 then char_of (48 + n) else char_of (55 + n))"

definition percent :: "nat \<Rightarrow> string" where
  "percent n = [CHR ''%'', hex_digit (n div 16), hex_digit (n mod 16)]"

definition unreserved :: "char \<Rightarrow> bool" where
  "unreserved c = (let n = (of_char c :: nat) in (48 \<le> n \<and> n \<le> 57) \<or> (65 \<le> n \<and> n \<le> 90) \<or> (97 \<le> n \<and> n \<le> 122) \<or> c \<in> set ''_.-~'')"

definition quote_char :: "char \<Rightarrow> string" where
  "quote_char c = (let n = (of_char c :: nat) in
     if unreserved c then [c] else if n < 128 then percent n else percent (192 + n div 64) @ percent (128 + n mod 64))"

definition tool_observation_ref :: "string \<Rightarrow> string \<Rightarrow> string" where
  "tool_observation_ref tool call_id =
    ''tool-observation://'' @ concat (map quote_char (message_or (py_strip (message_or tool ''tool'')) ''tool'')) @ ''/'' @
      concat (map quote_char (message_or (py_strip (message_or call_id ''latest'')) ''latest''))"

definition artifact_source_refs :: "outcome_env \<Rightarrow> string \<Rightarrow> string \<Rightarrow> pyval \<Rightarrow> pyval \<Rightarrow> string list" where
  "artifact_source_refs E tool call_id payload prompt_payload =
    from_keys (tool_observation_ref tool call_id # concat (map (\<lambda>view. case view of
        PDict d \<Rightarrow> if truthy (value_of d ''artifact_ref'') then [py_str (oe_str E) (value_of d ''artifact_ref'')] else []
      | _ \<Rightarrow> []) [payload, prompt_payload]))"

definition prompt_observation_json :: "outcome_env \<Rightarrow> tool_message \<Rightarrow> pyval" where
  "prompt_observation_json E m = (case tg_prompt m of
     None \<Rightarrow> PNone
   | Some s \<Rightarrow> if py_strip s = [] then PNone else (case oe_loads E s of None \<Rightarrow> PNone | Some v \<Rightarrow> v))"

section \<open>The ledger\<close>

record ledger_entry =
  le_tool :: string
  le_call_id :: string
  le_label :: string
  le_error :: string

text \<open>\<open>\b(?:401|403|404|410)\b\<close> and the phrases of \<open>_PERMANENT_FETCH_FAILURE\<close>. A word character is a letter, a digit or
  an underscore.\<close>

definition word_char :: "char \<Rightarrow> bool" where
  "word_char c = (let n = (of_char c :: nat) in (48 \<le> n \<and> n \<le> 57) \<or> (65 \<le> n \<and> n \<le> 90) \<or> n = 95 \<or> (97 \<le> n \<and> n \<le> 122) \<or>
     n \<in> set [170, 178, 179, 181, 185, 186, 188, 189, 190] \<or> (192 \<le> n \<and> n \<noteq> 215 \<and> n \<noteq> 247))"

fun has_word :: "bool \<Rightarrow> string \<Rightarrow> string \<Rightarrow> bool" where
  "has_word inside w [] = False"
| "has_word inside w (c # cs) =
    ((\<not> inside \<and> take (length w) (c # cs) = w \<and> (drop (length w) (c # cs) = [] \<or> \<not> word_char (hd (drop (length w) (c # cs)))))
     \<or> has_word (word_char c) w cs)"

definition permanent_fetch_failure :: "string \<Rightarrow> bool" where
  "permanent_fetch_failure s = (list_ex (\<lambda>w. has_word False w s) [''401'', ''403'', ''404'', ''410''] \<or>
     list_ex (\<lambda>p. has_infix p (py_lower s)) [''forbidden'', ''not found'', ''blocked by access policy'', ''access challenge'', ''not readable text''])"

definition retrieval_error :: "outcome_env \<Rightarrow> string \<Rightarrow> tool_message \<Rightarrow> string option" where
  "retrieval_error E tool m =
    (if \<not> tool_message_failed E m then Some []
     else if tool \<noteq> ''web_fetch'' \<or> \<not> permanent_fetch_failure (tg_content m) then None
     else Some (take 160 (py_words (tg_content m))))"

record ledger_state =
  ls_ledger :: "(string, ledger_entry) dict"
  ls_published :: "(string, string) dict"

text \<open>Publication dates: the references of a fetched page are remembered, a read of one of them shows its page's date.\<close>

definition note_published :: "outcome_env \<Rightarrow> string \<Rightarrow> tool_args \<Rightarrow> tool_message \<Rightarrow> string \<Rightarrow> (string, string) dict \<Rightarrow> (string, string) dict" where
  "note_published E tool args m published d =
    (let refs = artifact_source_refs E tool (tg_call_id m) (case message_payload E m of PDict p \<Rightarrow> PDict p | _ \<Rightarrow> PDict []) (prompt_observation_json E m);
         d = fold (\<lambda>r. AList.update r published) refs d
     in if truthy (value_of args ''url'') then AList.update (py_str (oe_str E) (value_of args ''url'')) published d else d)"

definition decorate :: "outcome_env \<Rightarrow> string \<Rightarrow> tool_args \<Rightarrow> tool_message \<Rightarrow> string \<Rightarrow> (string, string) dict \<Rightarrow> string \<times> (string, string) dict" where
  "decorate E tool args m error d = (let label = ledger_label E tool args in
     if tool = ''web_fetch'' \<and> error = [] then
       (let published = published_at E m in
        if published = [] then (label, d) else (label @ '' [published '' @ published @ '']'', note_published E tool args m published d))
     else if tool = ''artifact_read'' then
       (case get_or d (text_or_empty E (value_of args ''artifact_id'')) [] of
          [] \<Rightarrow> (label, d) | published \<Rightarrow> (label @ '' [page published '' @ published @ '']'', d))
     else (label, d))"

definition ledger_step :: "ledger_env \<Rightarrow> tool_message \<times> named_call \<Rightarrow> ledger_state \<Rightarrow> ledger_state" where
  "ledger_step G r s = (let E = ge_outcome G; (m, tool, args) = r in
     case retrieval_key G tool args of
       None \<Rightarrow> s
     | Some key \<Rightarrow> (case retrieval_error E tool m of
         None \<Rightarrow> s
       | Some error \<Rightarrow>
           (let (label, published) = decorate E tool args m error (ls_published s);
                entry = \<lparr>le_tool = tool, le_call_id = tg_call_id m, le_label = label, le_error = error\<rparr>;
                add = (case map_of (ls_ledger s) key of None \<Rightarrow> True | Some previous \<Rightarrow> le_error previous \<noteq> [] \<and> error = []) in
            \<lparr>ls_ledger = (if add then AList.update key entry (ls_ledger s) else ls_ledger s), ls_published = published\<rparr>)))"

definition collect_retrieval_ledger :: "ledger_env \<Rightarrow> history_message list \<Rightarrow> (string, ledger_entry) dict" where
  "collect_retrieval_ledger G ms =
    ls_ledger (fold (ledger_step G) (iter_tool_results (ge_outcome G) [] (since_latest_human ms)) \<lparr>ls_ledger = [], ls_published = []\<rparr>)"

definition newline :: string where
  "newline = [char_of (10 :: nat)]"

definition retrieval_ledger_note :: "(string, ledger_entry) dict \<Rightarrow> string" where
  "retrieval_ledger_note ledger = (if ledger = [] then []
     else let entries = vals ledger; n = length entries;
       lines = map (\<lambda>e. ''- '' @ le_label e @ (if le_error e = [] then [] else '' (failed permanently; do not retry)'')) (drop (n - 20) entries);
       lines = (if 20 < n then (''- ... '' @ show_nat (n - 20) @ '' earlier calls'') # lines else lines) in
     ''Already retrieved in this turn (identical repeats are rejected; their results are above):'' @ newline @ join_with newline lines @ newline @
     ''Do not repeat these. Read a source you have not read yet, search a genuinely different angle, or answer from the evidence collected. '' @
     ''Do not keep paging through a page whose publication date falls outside the requested time window.'')"

section \<open>Properties\<close>

text \<open>What the entry of a key stands for, and which results are remembered.\<close>

definition remembers :: "ledger_env \<Rightarrow> (tool_message \<times> named_call) \<Rightarrow> string \<Rightarrow> ledger_entry \<Rightarrow> bool" where
  "remembers G r k e \<longleftrightarrow> (case r of (m, tool, args) \<Rightarrow> retrieval_key G tool args = Some k \<and> le_tool e = tool \<and>
     le_call_id e = tg_call_id m \<and> retrieval_error (ge_outcome G) tool m = Some (le_error e))"

definition ledger_inv :: "ledger_env \<Rightarrow> (tool_message \<times> named_call) list \<Rightarrow> (string, ledger_entry) dict \<Rightarrow> bool" where
  "ledger_inv G rs d \<longleftrightarrow> (\<forall>k e. map_of d k = Some e \<longrightarrow> (\<exists>r \<in> set rs. remembers G r k e)) \<and>
     (\<forall>r \<in> set rs. \<forall>k. retrieval_key G (fst (snd r)) (snd (snd r)) = Some k \<and> retrieval_error (ge_outcome G) (fst (snd r)) (fst r) \<noteq> None \<longrightarrow>
        (\<exists>e. map_of d k = Some e \<and> (retrieval_error (ge_outcome G) (fst (snd r)) (fst r) = Some [] \<longrightarrow> le_error e = [])))"

lemma ledger_step_cases:
  assumes r: "r = (m, tool, args)"
  obtains (skip) "retrieval_key G tool args = None \<or> retrieval_error (ge_outcome G) tool m = None" "ls_ledger (ledger_step G r s) = ls_ledger s"
    | (add) key e where "retrieval_key G tool args = Some key" "remembers G r key e"
        "ls_ledger (ledger_step G r s) = AList.update key e (ls_ledger s)" "retrieval_error (ge_outcome G) tool m = Some (le_error e)"
        "map_of (ls_ledger s) key = None \<or> (\<exists>p. map_of (ls_ledger s) key = Some p \<and> le_error e = [])"
    | (keep) key error p where "retrieval_key G tool args = Some key" "retrieval_error (ge_outcome G) tool m = Some error"
        "ls_ledger (ledger_step G r s) = ls_ledger s" "map_of (ls_ledger s) key = Some p" "le_error p = [] \<or> error \<noteq> []"
proof (cases "retrieval_key G tool args = None \<or> retrieval_error (ge_outcome G) tool m = None")
  case True
  then show ?thesis by (intro skip) (auto simp: r ledger_step_def Let_def split: option.split)
next
  case False
  then obtain key error where k: "retrieval_key G tool args = Some key" "retrieval_error (ge_outcome G) tool m = Some error" by auto
  define e where "e = \<lparr>le_tool = tool, le_call_id = tg_call_id m, le_label = fst (decorate (ge_outcome G) tool args m error (ls_published s)), le_error = error\<rparr>"
  have e: "remembers G r key e" "le_error e = error" using k by (simp_all add: remembers_def r e_def)
  have step: "ls_ledger (ledger_step G r s) = (if (case map_of (ls_ledger s) key of None \<Rightarrow> True | Some previous \<Rightarrow> le_error previous \<noteq> [] \<and> error = [])
      then AList.update key e (ls_ledger s) else ls_ledger s)"
    using k by (simp add: r ledger_step_def Let_def split_beta e_def)
  show ?thesis
  proof (cases "map_of (ls_ledger s) key")
    case None
    then show ?thesis using k e step by (intro add [of key e]) simp_all
  next
    case (Some p)
    then show ?thesis
    proof (cases "le_error p \<noteq> [] \<and> error = []")
      case True
      then show ?thesis using k e step Some by (intro add [of key e]) simp_all
    next
      case False
      then show ?thesis using k e step Some by (intro keep [of key error p]) auto
    qed
  qed
qed

lemma ledger_inv_step:
  assumes "ledger_inv G rs (ls_ledger s)"
  shows "ledger_inv G (rs @ [r]) (ls_ledger (ledger_step G r s))"
proof -
  obtain m tool args where r: "r = (m, tool, args)" by (cases r) auto
  let ?E = "ge_outcome G" and ?d = "ls_ledger s" and ?d' = "ls_ledger (ledger_step G r s)"
  show ?thesis
  proof (rule ledger_step_cases [OF r, of G s])
    assume "retrieval_key G tool args = None \<or> retrieval_error ?E tool m = None" "?d' = ?d"
    then show ?thesis using assms by (auto simp: ledger_inv_def r)
  next
    fix key e
    assume add: "retrieval_key G tool args = Some key" "remembers G r key e" "?d' = AList.update key e ?d"
        "retrieval_error ?E tool m = Some (le_error e)" "map_of ?d key = None \<or> (\<exists>p. map_of ?d key = Some p \<and> le_error e = [])"
    have "\<exists>x. map_of ?d' k = Some x \<and> (retrieval_error ?E (fst (snd q)) (fst q) = Some [] \<longrightarrow> le_error x = [])"
      if q: "q \<in> set (rs @ [r])" "retrieval_key G (fst (snd q)) (snd (snd q)) = Some k" "retrieval_error ?E (fst (snd q)) (fst q) \<noteq> None" for q k
    proof (cases "k = key")
      case True
      have "le_error e = []" if "q \<in> set rs" "retrieval_error ?E (fst (snd q)) (fst q) = Some []"
        using assms add(5) q(2) that True by (force simp: ledger_inv_def)
      then show ?thesis using True add(3,4) q by (auto simp: r)
    next
      case False
      then show ?thesis using q assms add(1,3) unfolding ledger_inv_def by (auto simp: r)
    qed
    then show ?thesis using assms add(2,3) unfolding ledger_inv_def by auto
  next
    fix key error p
    assume "retrieval_key G tool args = Some key" "retrieval_error ?E tool m = Some error" "?d' = ?d" "map_of ?d key = Some p"
        "le_error p = [] \<or> error \<noteq> []"
    then show ?thesis using assms by (auto simp: ledger_inv_def r)
  qed
qed

text \<open>C26: Only repeats are suppressed: every entry of the ledger stands for a result of the present turn of the same retrieval,
  a success or a page that fails permanently, and every such result has an entry; an entry of a retrieval that
  succeeded once is not an error.\<close>

theorem ledger_of_turn:
  "ledger_inv G (iter_tool_results (ge_outcome G) [] (since_latest_human ms)) (collect_retrieval_ledger G ms)"
proof -
  have "ledger_inv G rs (ls_ledger (fold (ledger_step G) rs \<lparr>ls_ledger = [], ls_published = []\<rparr>))" for rs
  proof (induction rs rule: rev_induct)
    case (snoc r rs)
    then show ?case using ledger_inv_step by simp
  qed (simp add: ledger_inv_def)
  then show ?thesis by (simp add: collect_retrieval_ledger_def)
qed

end
