(* ===== verification/MemoryTools.thy ===== *)
theory MemoryTools
  imports ToolCache
begin

text \<open>
  Which memory a tool call may touch: \<open>authorize_memory_tool_args\<close> and the choice of namespaces in
  \<open>src/focus_agent/capabilities/default_tool_modules/memory.py\<close>, and the namespaces of \<open>src/focus_agent/storage/namespaces.py\<close>.
  A namespace is a list of strings. The tools' parameters are strings or \<open>None\<close>; other values are refused by their schemas
  before the code here runs. What the repositories do with a namespace is not modelled.
\<close>

section \<open>Namespaces\<close>

type_synonym namespace = "string list"

definition user_profile_namespace :: "string \<Rightarrow> namespace" where
  "user_profile_namespace u = [''user'', u, ''profile'']"

definition conversation_main_namespace :: "string \<Rightarrow> namespace" where
  "conversation_main_namespace r = [''conversation'', r, ''main'']"

definition root_thread_episodic_namespace :: "string \<Rightarrow> namespace" where
  "root_thread_episodic_namespace r = [''conversation'', r, ''episodic'']"

definition branch_local_memory_namespace :: "string \<Rightarrow> string \<Rightarrow> namespace" where
  "branch_local_memory_namespace r b = [''conversation'', r, ''branch'', b, ''local_memory'']"

definition branch_promoted_memory_namespace :: "string \<Rightarrow> string \<Rightarrow> namespace" where
  "branch_promoted_memory_namespace r b = [''conversation'', r, ''branch'', b, ''promoted_memory'']"

definition project_memory_namespace :: "string \<Rightarrow> namespace" where
  "project_memory_namespace p = [''project'', p, ''memory'']"

lemmas namespace_defs = user_profile_namespace_def conversation_main_namespace_def root_thread_episodic_namespace_def
  branch_local_memory_namespace_def branch_promoted_memory_namespace_def project_memory_namespace_def

text \<open>\<open>re.split(r"[:/,]", value)\<close>\<close>

definition is_separator :: "char \<Rightarrow> bool" where
  "is_separator c = (c = CHR '':'' \<or> c = CHR ''/'' \<or> c = CHR '','')"

fun split_namespace :: "string \<Rightarrow> string list" where
  "split_namespace [] = [[]]"
| "split_namespace (c # cs) = (if is_separator c then [] # split_namespace cs
     else case split_namespace cs of [] \<Rightarrow> [[c]] | p # ps \<Rightarrow> (c # p) # ps)"

definition parse_namespace :: "string \<Rightarrow> py_error + namespace" where
  "parse_namespace v = (let parts = filter (\<lambda>p. p \<noteq> []) (map py_strip (split_namespace v)) in
     if parts = [] then Inl (ValueError ''namespace must not be empty.'') else Inr parts)"

section \<open>Authorization\<close>

record request_context =
  rc_user :: string
  rc_root_thread :: string
  rc_branch :: "string option"
  rc_project :: "string option"

definition stripped :: "string option \<Rightarrow> string" where
  "stripped v = py_strip (case v of None \<Rightarrow> [] | Some s \<Rightarrow> s)"

definition allowed_memory_tool_namespaces :: "request_context \<Rightarrow> namespace list" where
  "allowed_memory_tool_namespaces c = (let r = py_strip (rc_root_thread c); u = py_strip (rc_user c) in
     [user_profile_namespace u, conversation_main_namespace r, root_thread_episodic_namespace r] @
     (case rc_branch c of None \<Rightarrow> [] | Some b \<Rightarrow> if b = [] then []
        else [branch_local_memory_namespace r (py_strip b), branch_promoted_memory_namespace r (py_strip b)]) @
     (case rc_project c of None \<Rightarrow> [] | Some p \<Rightarrow> if p = [] then [] else [project_memory_namespace (py_strip p)]))"

definition memory_tool_names :: "string list" where
  "memory_tool_names = [''memory_save'', ''memory_search'', ''memory_forget'']"

definition arg_text :: "(pyval \<Rightarrow> string) \<Rightarrow> tool_args \<Rightarrow> string \<Rightarrow> string" where
  "arg_text str_of a k = py_strip (let v = get_or a k PNone in if truthy v then py_str str_of v else [])"

text \<open>\<open>bind_field\<close>: one turn of the loop over \<open>user_id\<close> and \<open>root_thread_id\<close>.\<close>

definition bind_field :: "(pyval \<Rightarrow> string) \<Rightarrow> string \<Rightarrow> string \<Rightarrow> tool_args \<Rightarrow> string + tool_args" where
  "bind_field str_of field expected a = (let v = get_or a field PNone; s = py_strip (py_str str_of v) in
     if v \<noteq> PNone \<and> s \<noteq> [] \<and> s \<noteq> expected
     then Inl (''Memory tool argument '' @ field @ '' does not match the active request context.'')
     else Inr (AList.update field (PStr expected) a))"

definition scope_error :: "(pyval \<Rightarrow> string) \<Rightarrow> string \<Rightarrow> string \<Rightarrow> tool_args \<Rightarrow> string option" where
  "scope_error str_of branch project a = (let scope = py_lower (arg_text str_of a ''scope'') in
     if scope = ''skill'' then Some ''Memory tool access to skill-scoped memory is not allowed.''
     else if scope = ''branch'' \<and> branch = [] then Some ''Memory tool access to branch memory requires an active branch_id.''
     else if scope = ''project'' \<and> project = [] then Some ''Memory tool access to project memory requires an active project_id.''
     else None)"

definition namespace_error :: "(pyval \<Rightarrow> string) \<Rightarrow> request_context \<Rightarrow> tool_args \<Rightarrow> string option" where
  "namespace_error str_of c a = (let namespace = arg_text str_of a ''namespace'' in
     if namespace = [] then None
     else case parse_namespace namespace of
       Inl e \<Rightarrow> Some ''namespace must not be empty.''
     | Inr parts \<Rightarrow>
         if hd parts = ''skill'' then Some ''Memory tool access to skill-scoped memory is not allowed.''
         else if parts \<notin> set (allowed_memory_tool_namespaces c) then Some ''Memory tool namespace is outside the active request context.''
         else None)"

definition authorize_memory_tool_args :: "(pyval \<Rightarrow> string) \<Rightarrow> string \<Rightarrow> tool_args \<Rightarrow> request_context \<Rightarrow> string + tool_args" where
  "authorize_memory_tool_args str_of tool args c =
    (if tool \<notin> set memory_tool_names then Inr args
     else if py_strip (rc_user c) = [] then Inl ''Memory tools require a runtime user_id.''
     else if py_strip (rc_root_thread c) = [] then Inl ''Memory tools require a runtime root_thread_id.''
     else bind_ok (bind_field str_of ''user_id'' (py_strip (rc_user c)) args) (\<lambda>a.
       bind_ok (bind_field str_of ''root_thread_id'' (py_strip (rc_root_thread c)) a) (\<lambda>a.
       (let branch = stripped (rc_branch c); project = stripped (rc_project c);
            a = AList.update ''project_id'' (PStr project) (AList.update ''branch_id'' (PStr branch) a) in
        case scope_error str_of branch project a of
          Some e \<Rightarrow> Inl e
        | None \<Rightarrow> (case namespace_error str_of c a of Some e \<Rightarrow> Inl e | None \<Rightarrow> Inr a)))))"

section \<open>The namespaces a tool uses\<close>

datatype memory_kind = Kind_user_preference | Kind_user_profile | Kind_project_fact | Kind_turn_summary
  | Kind_branch_finding | Kind_imported_conclusion | Kind_artifact | Kind_citation | Kind_tool_observation

datatype memory_scope = Scope_user | Scope_root_thread | Scope_branch | Scope_project | Scope_skill

datatype memory_visibility = Private | Promotable | Shared

definition kind_of :: "string \<Rightarrow> memory_kind option" where
  "kind_of s = map_of [(''user_preference'', Kind_user_preference), (''user_profile'', Kind_user_profile),
     (''project_fact'', Kind_project_fact), (''turn_summary'', Kind_turn_summary), (''branch_finding'', Kind_branch_finding),
     (''imported_conclusion'', Kind_imported_conclusion), (''artifact'', Kind_artifact), (''citation'', Kind_citation),
     (''tool_observation'', Kind_tool_observation)] s"

definition scope_of :: "string \<Rightarrow> memory_scope option" where
  "scope_of s = map_of [(''user'', Scope_user), (''root_thread'', Scope_root_thread), (''branch'', Scope_branch),
     (''project'', Scope_project), (''skill'', Scope_skill)] s"

text \<open>\<open>repr\<close> of a string without quotes and escapes\<close>

definition quoted :: "string \<Rightarrow> string" where
  "quoted s = [char_of (39 :: nat)] @ s @ [char_of (39 :: nat)]"

definition coerce_memory_scope :: "string \<Rightarrow> string option \<Rightarrow> string option \<Rightarrow> py_error + memory_scope" where
  "coerce_memory_scope scope namespace branch = (let s = py_lower (py_strip scope) in
     if s = ''conversation'' then Inr Scope_root_thread
     else if s = ''skill'' \<and> stripped namespace = [] then Inl (ValueError (''scope='' @ quoted s @ '' requires an explicit namespace.''))
     else if s = ''branch'' \<and> stripped namespace = [] \<and> stripped branch = [] then Inl (ValueError (''scope='' @ quoted s @ '' requires an active branch_id.''))
     else case scope_of s of None \<Rightarrow> Inl (ValueError (quoted s @ '' is not a valid MemoryScope'')) | Some x \<Rightarrow> Inr x)"

definition default_memory_visibility :: "memory_kind \<Rightarrow> memory_scope \<Rightarrow> memory_visibility" where
  "default_memory_visibility kind scope =
    (if scope = Scope_user \<and> (kind = Kind_user_preference \<or> kind = Kind_user_profile) then Shared
     else if scope = Scope_project \<and> kind = Kind_project_fact then Shared
     else if scope = Scope_branch \<and> kind = Kind_branch_finding then Promotable
     else if scope = Scope_root_thread \<and> (kind = Kind_branch_finding \<or> kind = Kind_imported_conclusion) then Shared
     else Private)"

text \<open>\<open>(v or "default").strip() or "default"\<close>\<close>

definition or_default :: "string option \<Rightarrow> string" where
  "or_default v = (let s = py_strip (case v of None \<Rightarrow> ''default'' | Some s \<Rightarrow> if s = [] then ''default'' else s) in
     if s = [] then ''default'' else s)"

record namespace_params =
  np_namespace :: "string option"
  np_user :: "string option"
  np_root_thread :: "string option"
  np_branch :: "string option"
  np_project :: "string option"

definition resolve_memory_namespace :: "memory_kind \<Rightarrow> memory_scope \<Rightarrow> namespace_params \<Rightarrow> py_error + namespace" where
  "resolve_memory_namespace kind scope p =
    (if stripped (np_namespace p) \<noteq> [] then parse_namespace (case np_namespace p of None \<Rightarrow> [] | Some s \<Rightarrow> s)
     else Inr (if scope = Scope_project then project_memory_namespace (or_default (np_project p))
       else if scope = Scope_branch \<and> stripped (np_branch p) \<noteq> []
         then branch_local_memory_namespace (or_default (np_root_thread p)) (stripped (np_branch p))
       else if scope = Scope_root_thread then
         (if kind = Kind_turn_summary then root_thread_episodic_namespace (or_default (np_root_thread p))
          else conversation_main_namespace (or_default (np_root_thread p)))
       else user_profile_namespace (or_default (np_user p))))"

definition default_memory_namespaces :: "namespace_params \<Rightarrow> namespace list" where
  "default_memory_namespaces p = (let thread = stripped (np_root_thread p) in
     [user_profile_namespace (or_default (np_user p))] @
     (case np_project p of None \<Rightarrow> [project_memory_namespace ''default'']
        | Some s \<Rightarrow> if py_strip s = [] then [] else [project_memory_namespace (py_strip s)]) @
     (if thread = [] then []
      else [root_thread_episodic_namespace thread, conversation_main_namespace thread] @
        (if stripped (np_branch p) = [] then []
         else [branch_local_memory_namespace thread (stripped (np_branch p)), branch_promoted_memory_namespace thread (stripped (np_branch p))])))"

definition lookup_namespaces :: "string option \<Rightarrow> namespace_params \<Rightarrow> py_error + namespace list" where
  "lookup_namespaces current_thread p =
    (if stripped (np_namespace p) \<noteq> [] then bind_ok (parse_namespace (case np_namespace p of None \<Rightarrow> [] | Some s \<Rightarrow> s)) (\<lambda>n. Inr [n])
     else Inr (default_memory_namespaces (p\<lparr>np_root_thread := (case np_root_thread p of None \<Rightarrow> current_thread
        | Some s \<Rightarrow> if s = [] then current_thread else Some s)\<rparr>)))"

text \<open>The parameters a tool is called with, and the namespaces each tool then uses.\<close>

definition str_param :: "tool_args \<Rightarrow> string \<Rightarrow> string option" where
  "str_param a k = (case map_of a k of Some (PStr s) \<Rightarrow> Some s | _ \<Rightarrow> None)"

definition params_of :: "tool_args \<Rightarrow> namespace_params" where
  "params_of a = \<lparr>np_namespace = str_param a ''namespace'', np_user = str_param a ''user_id'', np_root_thread = str_param a ''root_thread_id'',
     np_branch = str_param a ''branch_id'', np_project = str_param a ''project_id''\<rparr>"

definition memory_save_namespace :: "string option \<Rightarrow> tool_args \<Rightarrow> py_error + namespace" where
  "memory_save_namespace current_thread a =
    (let p = params_of a; content = str_param a ''content'';
         kind = (case str_param a ''kind'' of None \<Rightarrow> ''user_preference'' | Some s \<Rightarrow> s);
         scope = (case str_param a ''scope'' of None \<Rightarrow> ''user'' | Some s \<Rightarrow> s) in
     if stripped content = [] then Inl (ValueError ''content must not be empty.'')
     else case kind_of (py_strip kind) of
       None \<Rightarrow> Inl (ValueError (quoted (py_strip kind) @ '' is not a valid MemoryKind''))
     | Some k \<Rightarrow> bind_ok (coerce_memory_scope scope (np_namespace p) (np_branch p)) (\<lambda>s.
         resolve_memory_namespace k s (p\<lparr>np_root_thread := (case np_root_thread p of None \<Rightarrow> current_thread
            | Some t \<Rightarrow> if t = [] then current_thread else Some t)\<rparr>)))"

definition touched_namespaces :: "string option \<Rightarrow> string \<Rightarrow> tool_args \<Rightarrow> namespace list" where
  "touched_namespaces current_thread tool a =
    (if tool = ''memory_save'' then (case memory_save_namespace current_thread a of Inl e \<Rightarrow> [] | Inr n \<Rightarrow> [n])
     else case lookup_namespaces current_thread (params_of a) of Inl e \<Rightarrow> [] | Inr ns \<Rightarrow> ns)"

section \<open>Lemmas\<close>

lemma separator_not_space: "is_separator c \<Longrightarrow> \<not> py_space c"
  by (auto simp: is_separator_def py_space_def)

lemma split_nonempty: "split_namespace s \<noteq> []"
  by (induction s) (auto split: list.split)

definition parts_of :: "string \<Rightarrow> string list" where
  "parts_of s = filter (\<lambda>p. p \<noteq> []) (map py_strip (split_namespace s))"

lemma strip_space_front: "list_all py_space xs \<Longrightarrow> py_strip (xs @ s) = py_strip s"
  by (simp add: py_strip_def strip_by_def dropWhile_append2 list_all_iff)

lemma strip_space_back:
  assumes "list_all py_space xs"
  shows "py_strip (s @ xs) = py_strip s"
proof (cases "\<forall>c \<in> set s. py_space c")
  case True
  then have "dropWhile py_space s = []" "dropWhile py_space (s @ xs) = []"
    unfolding dropWhile_eq_Nil_conv using assms by (auto simp: list_all_iff)
  then show ?thesis by (simp only: py_strip_def strip_by_def)
next
  case False
  then have d: "dropWhile py_space (s @ xs) = dropWhile py_space s @ xs" by (auto simp: dropWhile_append1)
  have "dropWhile py_space (rev xs @ u) = dropWhile py_space u" for u
    using assms by (intro dropWhile_append2) (auto simp: list_all_iff)
  then show ?thesis by (simp only: py_strip_def strip_by_def d rev_append)
qed

lemma strip_decompose:
  obtains a b where "s = a @ py_strip s @ b" "list_all py_space a" "list_all py_space b"
proof -
  let ?t = "dropWhile py_space s"
  have "rev ?t = takeWhile py_space (rev ?t) @ rev (py_strip s)" by (simp add: py_strip_def strip_by_def)
  then have "?t = py_strip s @ rev (takeWhile py_space (rev ?t))" by (metis rev_append rev_rev_ident)
  then have "s = takeWhile py_space s @ py_strip s @ rev (takeWhile py_space (rev ?t))" by (metis takeWhile_dropWhile_id)
  then show ?thesis by (rule that) (auto simp: list_all_iff dest: set_takeWhileD)
qed

lemma split_front: "list_all py_space a \<Longrightarrow> split_namespace (a @ s) = (a @ hd (split_namespace s)) # tl (split_namespace s)"
proof (induction a)
  case Nil
  then show ?case using split_nonempty by simp
next
  case (Cons c a)
  then have "\<not> is_separator c" using separator_not_space by auto
  then show ?case using Cons by simp
qed

lemma split_back:
  "list_all py_space b \<Longrightarrow> split_namespace (s @ b) = butlast (split_namespace s) @ [last (split_namespace s) @ b]"
proof (induction s)
  case Nil
  then show ?case using split_front [of b "[]"] by simp
next
  case (Cons c s)
  obtain p ps where ps: "split_namespace s = p # ps" using split_nonempty [of s] by (cases "split_namespace s") auto
  have ih: "split_namespace (s @ b) = butlast (p # ps) @ [last (p # ps) @ b]" using Cons ps by simp
  show ?case by (cases "is_separator c"; cases ps) (simp_all add: ih ps)
qed

lemma parts_of_strip: "parts_of (py_strip s) = parts_of s"
proof -
  obtain a b where s: "s = a @ py_strip s @ b" "list_all py_space a" "list_all py_space b" by (rule strip_decompose)
  have front: "parts_of (a @ t) = parts_of t" for t
    using split_nonempty [of t]
    by (cases "split_namespace t") (simp_all add: parts_of_def split_front [OF s(2)] strip_space_front [OF s(2)])
  have rear: "parts_of (t @ b) = parts_of t" for t
    using split_nonempty [of t]
    by (cases "split_namespace t" rule: rev_cases) (simp_all add: parts_of_def split_back [OF s(3)] strip_space_back [OF s(3)])
  show ?thesis using front rear s(1) by metis
qed

lemma parse_namespace_eq: "parse_namespace v = (if parts_of v = [] then Inl (ValueError ''namespace must not be empty.'') else Inr (parts_of v))"
  by (simp add: parse_namespace_def parts_of_def)

text \<open>What an authorized call carries.\<close>

definition bound_args :: "request_context \<Rightarrow> tool_args \<Rightarrow> tool_args" where
  "bound_args c args = AList.update ''project_id'' (PStr (stripped (rc_project c))) (AList.update ''branch_id'' (PStr (stripped (rc_branch c)))
     (AList.update ''root_thread_id'' (PStr (py_strip (rc_root_thread c))) (AList.update ''user_id'' (PStr (py_strip (rc_user c))) args)))"

lemma authorized_args:
  assumes "authorize_memory_tool_args str_of tool args c = Inr a" "tool \<in> set memory_tool_names"
  shows "a = bound_args c args" "py_strip (rc_user c) \<noteq> []" "py_strip (rc_root_thread c) \<noteq> []"
    "scope_error str_of (stripped (rc_branch c)) (stripped (rc_project c)) a = None" "namespace_error str_of c a = None"
  using assms by (auto simp: authorize_memory_tool_args_def bound_args_def bind_field_def bind_ok_Inr_iff Let_def split: if_splits option.splits)

lemma bound_params:
  "params_of (bound_args c args) = \<lparr>np_namespace = str_param args ''namespace'', np_user = Some (py_strip (rc_user c)),
     np_root_thread = Some (py_strip (rc_root_thread c)), np_branch = Some (stripped (rc_branch c)), np_project = Some (stripped (rc_project c))\<rparr>"
  "str_param (bound_args c args) ''scope'' = str_param args ''scope''"
  "arg_text str_of (bound_args c args) ''scope'' = arg_text str_of args ''scope''"
  "arg_text str_of (bound_args c args) ''namespace'' = arg_text str_of args ''namespace''"
  by (simp_all add: params_of_def bound_args_def str_param_def arg_text_def Let_def)

lemma str_param_text: "str_param a k = Some s \<Longrightarrow> arg_text str_of a k = py_strip s"
  by (cases s) (auto simp: str_param_def arg_text_def get_or_def py_strip_def strip_by_def split: option.splits pyval.splits)

lemma stripped_strip [simp]: "py_strip (stripped v) = stripped v" "stripped (Some s) = py_strip s"
  by (simp_all add: stripped_def)

lemma or_default_strip: "py_strip s = s \<Longrightarrow> s \<noteq> [] \<Longrightarrow> or_default (Some s) = s"
  by (simp add: or_default_def)

lemma scope_of_eq: "scope_of s = Some x \<Longrightarrow> s = (case x of Scope_user \<Rightarrow> ''user'' | Scope_root_thread \<Rightarrow> ''root_thread'' | Scope_branch \<Rightarrow> ''branch''
    | Scope_project \<Rightarrow> ''project'' | Scope_skill \<Rightarrow> ''skill'')"
  by (auto simp: scope_of_def split: if_splits)

lemma py_strip_Nil [simp]: "py_strip [] = []"
  by (simp add: py_strip_def strip_by_def)

lemma allowed_basic:
  "user_profile_namespace (py_strip (rc_user c)) \<in> set (allowed_memory_tool_namespaces c)"
  "conversation_main_namespace (py_strip (rc_root_thread c)) \<in> set (allowed_memory_tool_namespaces c)"
  "root_thread_episodic_namespace (py_strip (rc_root_thread c)) \<in> set (allowed_memory_tool_namespaces c)"
  by (simp_all add: allowed_memory_tool_namespaces_def Let_def)

lemma allowed_branch:
  assumes "stripped (rc_branch c) \<noteq> []"
  shows "branch_local_memory_namespace (py_strip (rc_root_thread c)) (stripped (rc_branch c)) \<in> set (allowed_memory_tool_namespaces c)"
    "branch_promoted_memory_namespace (py_strip (rc_root_thread c)) (stripped (rc_branch c)) \<in> set (allowed_memory_tool_namespaces c)"
  using assms by (cases "rc_branch c"; force simp: allowed_memory_tool_namespaces_def Let_def stripped_def)+

lemma allowed_project:
  assumes "stripped (rc_project c) \<noteq> []"
  shows "project_memory_namespace (stripped (rc_project c)) \<in> set (allowed_memory_tool_namespaces c)"
  using assms by (cases "rc_project c"; force simp: allowed_memory_tool_namespaces_def Let_def stripped_def)

lemma allowed_parse:
  assumes "namespace_error str_of c (bound_args c args) = None" "str_param args ''namespace'' = Some s" "py_strip s \<noteq> []"
    "parse_namespace s = Inr n"
  shows "n \<in> set (allowed_memory_tool_namespaces c)"
proof -
  have "parse_namespace (py_strip s) = Inr n" using assms(4) by (simp only: parse_namespace_eq parts_of_strip)
  then show ?thesis using assms by (auto simp: namespace_error_def bound_params str_param_text [OF assms(2)] Let_def split: if_splits)
qed

lemma default_namespaces_allowed:
  assumes "py_strip (rc_user c) \<noteq> []"
  shows "set (default_memory_namespaces (params_of (bound_args c args))) \<subseteq> set (allowed_memory_tool_namespaces c)"
  using allowed_basic [of c] allowed_branch [of c] allowed_project [of c] assms
  by (auto simp: default_memory_namespaces_def bound_params or_default_strip Let_def split: if_splits)

lemma save_namespace_allowed:
  assumes auth: "authorize_memory_tool_args str_of tool args c = Inr a" "tool \<in> set memory_tool_names"
    and save: "memory_save_namespace t a = Inr n"
  shows "n \<in> set (allowed_memory_tool_namespaces c)"
proof -
  note a = authorized_args [OF auth]
  let ?p = "params_of (bound_args c args)"
  obtain k s where ks: "coerce_memory_scope (case str_param args ''scope'' of None \<Rightarrow> ''user'' | Some s \<Rightarrow> s) (np_namespace ?p) (np_branch ?p) = Inr s"
    "resolve_memory_namespace k s ?p = Inr n"
    using save a(2,3) unfolding a(1)
    by (auto simp: memory_save_namespace_def bound_params bind_ok_Inr_iff Let_def split: if_splits option.splits)
  show ?thesis
  proof (cases "stripped (str_param args ''namespace'') = []")
    case False
    then obtain v where v: "str_param args ''namespace'' = Some v" "py_strip v \<noteq> []" by (cases "str_param args ''namespace''") (auto simp: stripped_def)
    then have "parse_namespace v = Inr n" using ks(2) by (simp add: resolve_memory_namespace_def bound_params)
    then show ?thesis using allowed_parse [OF _ v] a(1,5) by simp
  next
    case True
    have scope: "s = Scope_project \<Longrightarrow> stripped (rc_project c) \<noteq> []"
    proof -
      assume p: "s = Scope_project"
      obtain v where v: "str_param args ''scope'' = Some v" using ks(1) p
        by (cases "str_param args ''scope''") (auto simp: coerce_memory_scope_def scope_of_def Let_def py_lower_def lower_char_def py_strip_def strip_by_def py_space_def)
      then have "scope_of (py_lower (py_strip v)) = Some Scope_project" using ks(1) p
        by (auto simp: coerce_memory_scope_def Let_def split: if_splits option.splits)
      then have "py_lower (py_strip v) = ''project''" using scope_of_eq by fastforce
      then show ?thesis using a(1,4) by (auto simp: scope_error_def bound_params str_param_text [OF v] Let_def)
    qed
    show ?thesis
      using ks(2) True a(2,3) scope allowed_basic [of c] allowed_branch [of c] allowed_project [of c]
      by (auto simp: resolve_memory_namespace_def bound_params or_default_strip split: if_splits)
  qed
qed

section \<open>Properties\<close>

text \<open>C7: Memory tools stay in their request: whatever arguments a model chose, an authorized call of a memory tool uses only
  the namespaces of the user, the root thread, the active branch and the project of its request, and no context with
  another user, root thread and project shares one of them.\<close>

theorem memory_isolation:
  assumes "authorize_memory_tool_args str_of tool args c = Inr a" "tool \<in> set memory_tool_names"
  shows "set (touched_namespaces t tool a) \<subseteq> set (allowed_memory_tool_namespaces c) \<and>
    (py_strip (rc_user c) \<noteq> py_strip (rc_user c') \<and> py_strip (rc_root_thread c) \<noteq> py_strip (rc_root_thread c') \<and>
      (stripped (rc_project c) = stripped (rc_project c') \<longrightarrow> rc_project c = None) \<longrightarrow>
     set (touched_namespaces t tool a) \<inter> set (allowed_memory_tool_namespaces c') = {})"
proof -
  note b = authorized_args [OF assms]
  have "set (touched_namespaces t tool a) \<subseteq> set (allowed_memory_tool_namespaces c)"
  proof (cases "tool = ''memory_save''")
    case True
    then show ?thesis using save_namespace_allowed [OF assms] by (auto simp: touched_namespaces_def split: sum.split)
  next
    case False
    show ?thesis
    proof (cases "stripped (str_param args ''namespace'') = []")
      case True
      then show ?thesis using False default_namespaces_allowed [OF b(2), of args] b(1,3)
        by (simp add: touched_namespaces_def lookup_namespaces_def bound_params)
    next
      case False
      then obtain v where v: "str_param args ''namespace'' = Some v" "py_strip v \<noteq> []" by (cases "str_param args ''namespace''") (auto simp: stripped_def)
      have "parse_namespace v = Inr n \<Longrightarrow> n \<in> set (allowed_memory_tool_namespaces c)" for n
        using allowed_parse [OF _ v] b(1,5) by simp
      then show ?thesis using \<open>tool \<noteq> ''memory_save''\<close> v b(1)
        by (cases "parse_namespace v") (auto simp: touched_namespaces_def lookup_namespaces_def bound_params)
    qed
  qed
  moreover have "set (allowed_memory_tool_namespaces c) \<inter> set (allowed_memory_tool_namespaces c') = {}"
    if "py_strip (rc_user c) \<noteq> py_strip (rc_user c')" "py_strip (rc_root_thread c) \<noteq> py_strip (rc_root_thread c')"
      "stripped (rc_project c) = stripped (rc_project c') \<longrightarrow> rc_project c = None"
    using that by (auto simp: allowed_memory_tool_namespaces_def namespace_defs stripped_def Let_def split: option.splits if_splits)
  ultimately show ?thesis by blast
qed

definition ex_context :: "string \<Rightarrow> request_context" where
  "ex_context u = \<lparr>rc_user = u, rc_root_thread = ''thread-'' @ u, rc_branch = Some ''b1'', rc_project = None\<rparr>"

definition ex_search :: tool_args where
  "ex_search = [(''query'', PStr ''q''), (''namespace'', PStr '' conversation : thread-ann/main '')]"

lemma memory_isolation_witness:
  "touched_namespaces None ''memory_search'' (bound_args (ex_context ''ann'') ex_search) = [[''conversation'', ''thread-ann'', ''main'']] \<and>
   authorize_memory_tool_args (\<lambda>v. []) ''memory_search'' ex_search (ex_context ''bob'') =
     Inl ''Memory tool namespace is outside the active request context.'' \<and>
   set (touched_namespaces None ''memory_search'' (bound_args (ex_context ''ann'') ex_search)) \<inter>
     set (allowed_memory_tool_namespaces (ex_context ''bob'')) = {}"
proof (intro conjI)
  have "authorize_memory_tool_args (\<lambda>v. []) ''memory_search'' ex_search (ex_context ''ann'') = Inr (bound_args (ex_context ''ann'') ex_search)"
    and "''memory_search'' \<in> set memory_tool_names" by code_simp+
  from memory_isolation [OF this, of None "ex_context ''bob''"]
  show "set (touched_namespaces None ''memory_search'' (bound_args (ex_context ''ann'') ex_search)) \<inter>
     set (allowed_memory_tool_namespaces (ex_context ''bob'')) = {}"
    by (simp add: ex_context_def py_strip_def strip_by_def py_space_def)
qed code_simp+

end
