(* ===== verification/ToolExecutor.thy ===== *)
theory ToolExecutor
  imports ToolBatch ToolApproval AskUser RetrievalLedger MemoryTools Permissions Middleware ApprovalQueue
begin

text \<open>
  The node that runs the tool calls of a model message: \<open>src/focus_agent/engine/graph/tool_execution.py\<close>, the guards of
  \<open>tool_call_guards.py\<close>, the hooks on results of \<open>tool_result_hooks.py\<close> and the repair of calls of \<open>tool_call_repair.py\<close>.
  LangGraph's \<open>interrupt\<close> returns the answers a node was resumed with, in order, and suspends the node when there is none
  left; a resumed node starts again from its first line. So a run of the node is a function of the answers given so
  far, and only what other components keep (permission history, approval queue, world) survives a suspension. Hooks of
  extensions and middleware are functions; a hook that raises is skipped by the code and is \<open>None\<close> here.
\<close>

section \<open>Calls of a message\<close>

definition canonicalize_tool_call_args :: "(string \<Rightarrow> pyval option) \<Rightarrow> pyval \<Rightarrow> tool_args" where
  "canonicalize_tool_call_args loads args = (case args of
     PDict d \<Rightarrow> d
   | PStr s \<Rightarrow> (case loads s of None \<Rightarrow> [(''_raw_args'', PStr s)] | Some (PDict d) \<Rightarrow> d | Some v \<Rightarrow> [(''_raw_args'', v)])
   | PNone \<Rightarrow> []
   | v \<Rightarrow> [(''_raw_args'', v)])"

record call_env =
  cl_loads :: "string \<Rightarrow> pyval option"
  cl_str :: "pyval \<Rightarrow> string"
  cl_dumps :: "tool_args \<Rightarrow> string"

definition call_text :: "call_env \<Rightarrow> tool_args \<Rightarrow> string \<Rightarrow> string" where
  "call_text C raw k = arg_text (cl_str C) raw k"

definition tool_call_dedupe_key :: "call_env \<Rightarrow> string \<Rightarrow> tool_args \<Rightarrow> string" where
  "tool_call_dedupe_key C name args = name @ '':'' @ cl_dumps C args"

text \<open>\<open>_repair_and_dedupe_tool_calls\<close>: the repaired calls, and whether anything changed.\<close>

fun repair_calls :: "call_env \<Rightarrow> nat \<Rightarrow> string list \<Rightarrow> pyval list \<Rightarrow> pyval list \<times> bool" where
  "repair_calls C i seen [] = ([], False)"
| "repair_calls C i seen (v # vs) = (case v of
     PDict raw \<Rightarrow>
       (let name = call_text C raw ''name''; args = canonicalize_tool_call_args (cl_loads C) (value_of raw ''args'');
            call_id = message_or (call_text C raw ''id'') (''repaired-tool-call-'' @ show_nat (i + 1));
            repaired = [(''id'', PStr call_id), (''name'', PStr name), (''args'', PDict args)];
            signature = tool_call_dedupe_key C name args in
        if name = [] \<or> signature \<in> set seen then (fst (repair_calls C (i + 1) seen vs), True)
        else (let (calls, changed) = repair_calls C (i + 1) (signature # seen) vs in
          (PDict repaired # calls, changed \<or> length raw \<noteq> 3 \<or> list_ex (\<lambda>(k, v). map_of raw k \<noteq> Some v) repaired)))
   | _ \<Rightarrow> (fst (repair_calls C (i + 1) seen vs), True))"

definition repair_and_dedupe_tool_calls :: "call_env \<Rightarrow> pyval list \<Rightarrow> pyval list" where
  "repair_and_dedupe_tool_calls C calls = (case repair_calls C 0 [] calls of (repaired, changed) \<Rightarrow> if changed then repaired else calls)"

section \<open>Environment\<close>

record extension =
  ex_on_call :: "(string \<Rightarrow> tool_args \<Rightarrow> tool_call_interception option) option"
  ex_on_result :: "(string \<Rightarrow> tool_message \<Rightarrow> tool_result_interception option) option"

record ('w, 'h) exec_env =
  xe_run :: "'w run_env"
  xe_call :: call_env
  xe_ask :: ask_env
  xe_approval :: approval_env
  xe_ledger :: ledger_env
  xe_hash :: "pyval \<Rightarrow> string"
  xe_json :: "pyval \<Rightarrow> string"
  xe_tools :: "(string, tool_args \<Rightarrow> 'w \<Rightarrow> (tool_exc + pyval) \<times> 'w) dict"
  xe_metas :: "(string, 'w tool_meta) dict"
  xe_context :: request_context
  xe_route :: "tool_args option"
  xe_extensions :: "extension list option"
  xe_middleware :: "'h middleware list option"
  xe_agent :: string
  xe_thread :: string
  xe_branch :: "string option"
  xe_async :: bool
  xe_approval_ttl :: real
  xe_now :: real
  xe_workers :: int

abbreviation xe_outcome :: "('w, 'h) exec_env \<Rightarrow> outcome_env" where
  "xe_outcome X \<equiv> ge_outcome (xe_ledger X)"

definition error_for :: "('w, 'h) exec_env \<Rightarrow> string \<Rightarrow> string \<Rightarrow> tool_args \<Rightarrow> string \<Rightarrow> tool_args \<Rightarrow> tool_message" where
  "error_for X call_id tool args error info = build_tool_error_message (re_error_json (xe_run X)) call_id tool args error info"

section \<open>Guards before a call\<close>

text \<open>What the guards of one message share: the signatures seen and the number of calls of each tool.\<close>

record guard_state =
  gs_seen :: "string list"
  gs_counts :: "(string, int) dict"

definition forbidden_by_route_plan :: "(pyval \<Rightarrow> string) \<Rightarrow> tool_args option \<Rightarrow> string \<Rightarrow> bool" where
  "forbidden_by_route_plan str_of plan tool = (case plan of
     None \<Rightarrow> False
   | Some d \<Rightarrow> if d = [] \<or> \<not> truthy (get_or d ''enforce'' (PBool True)) then False
       else let names = (\<lambda>k. case value_of d k of PList vs \<Rightarrow> map (py_str str_of) vs | _ \<Rightarrow> []) in
         tool \<in> set (names ''denied_tools'') \<or> tool \<notin> set (names ''allowed_tools''))"

definition repeated_retrieval_error :: "ledger_entry \<Rightarrow> string" where
  "repeated_retrieval_error e = (if le_error e \<noteq> []
     then ''This URL already failed earlier in this turn ('' @ le_error e @ ''); retrying will fail the same way. Use another source.''
     else ''Already retrieved earlier in this turn (tool call '' @ le_call_id e @
       ''); reuse that result. Read an unread source, search a different angle, or answer from the evidence collected.'')"

definition over_budget :: "'w tool_meta \<Rightarrow> int \<Rightarrow> bool" where
  "over_budget m n = (case tm_max_calls m of None \<Rightarrow> False | Some k \<Rightarrow> k < n)"

definition budget_info :: "'w tool_meta \<Rightarrow> int" where
  "budget_info m = (case tm_max_calls m of None \<Rightarrow> 0 | Some k \<Rightarrow> k)"

record 'w checked_call =
  cc_tool :: "tool_args \<Rightarrow> 'w \<Rightarrow> (tool_exc + pyval) \<times> 'w"
  cc_meta :: "'w tool_meta"
  cc_args :: tool_args

text \<open>The guards from the memory authorization on.\<close>

definition preflight_known ::
    "('w, 'h) exec_env \<Rightarrow> string \<Rightarrow> string \<Rightarrow> tool_args \<Rightarrow> guard_state \<Rightarrow> (tool_message + 'w checked_call) \<times> guard_state" where
  "preflight_known X name call_id args g =
    (case authorize_memory_tool_args (cl_str (xe_call X)) name args (xe_context X) of
       Inl e \<Rightarrow> (Inl (error_for X call_id name args e [(''memory_context_authorization_failed'', PBool True)]), g)
     | Inr authorized \<Rightarrow>
       (let args = (if authorized = [] then args else authorized) in
        case map_of (xe_tools X) name of
          None \<Rightarrow> (Inl (error_for X call_id name args (''Unknown tool: '' @ name) []), g)
        | Some tool \<Rightarrow>
          if forbidden_by_route_plan (cl_str (xe_call X)) (xe_route X) name
          then (Inl (error_for X call_id name args (''Forbidden tool by Tool Router policy: '' @ name) [(''forbidden_by_tool_router'', PBool True)]), g)
          else (case map_of (xe_metas X) name of
            None \<Rightarrow> (Inl (error_for X call_id name args (''Tool runtime metadata is missing: '' @ name) [(''missing_tool_runtime_metadata'', PBool True)]), g)
          | Some meta \<Rightarrow>
            (let n = get_or (gs_counts g) name 0 + 1; g = g\<lparr>gs_counts := AList.update name n (gs_counts g)\<rparr> in
             if over_budget meta n
             then (Inl (error_for X call_id name args (''Tool call budget exceeded for '' @ name @ '': max '' @ cl_str (xe_call X) (PInt (budget_info meta)) @ '' per turn'')
               [(''max_calls_per_turn_exceeded'', PBool True), (''max_calls_per_turn'', PInt (budget_info meta))]), g)
             else (case (case tm_validator meta of None \<Rightarrow> None | Some f \<Rightarrow> f args) of
               Some e \<Rightarrow> (Inl (error_for X call_id name args (''Invalid tool parameters for '' @ name @ '': '' @ exc_text (re_seconds (xe_run X)) e)
                 [(''parameter_validation_error'', PBool True)]), g)
             | None \<Rightarrow> (Inr \<lparr>cc_tool = tool, cc_meta = meta, cc_args = args\<rparr>, g))))))"

definition preflight_tool_call ::
    "('w, 'h) exec_env \<Rightarrow> (string, ledger_entry) dict \<Rightarrow> string \<Rightarrow> string \<Rightarrow> tool_args \<Rightarrow> guard_state \<Rightarrow>
     (tool_message + 'w checked_call) \<times> guard_state" where
  "preflight_tool_call X ledger name call_id args g =
    (if name = [] then (Inl (error_for X call_id ''unknown_tool'' args ''Malformed tool call: missing tool name'' [(''malformed_tool_call'', PBool True)]), g)
     else let signature = tool_call_dedupe_key (xe_call X) name args in
       if signature \<in> set (gs_seen g)
       then (Inl (error_for X call_id name args (''Duplicate tool call suppressed: '' @ name) [(''duplicate_tool_call_suppressed'', PBool True)]), g)
       else let g = g\<lparr>gs_seen := signature # gs_seen g\<rparr> in
         case map_of ledger (case retrieval_key (xe_ledger X) name args of None \<Rightarrow> [] | Some k \<Rightarrow> k) of
           Some e \<Rightarrow> (Inl (error_for X call_id name args (repeated_retrieval_error e)
             [(''repeated_retrieval_suppressed'', PBool True), (''previous_tool_call_id'', PStr (le_call_id e))]), g)
         | None \<Rightarrow> preflight_known X name call_id args g)"

section \<open>Interception\<close>

definition reason_text :: "string option \<Rightarrow> string" where
  "reason_text r = (case r of None \<Rightarrow> [] | Some s \<Rightarrow> s)"

definition blocked_tool_error :: "('w, 'h) exec_env \<Rightarrow> string \<Rightarrow> string \<Rightarrow> tool_args \<Rightarrow> string option \<Rightarrow> string \<Rightarrow> tool_message" where
  "blocked_tool_error X call_id tool args reason source =
    error_for X call_id tool args (message_or (reason_text reason) (''blocked by '' @ source))
      [(source, PBool True), (''blocked_reason'', case reason of None \<Rightarrow> PNone | Some s \<Rightarrow> PStr s)]"

definition denied_tool_result :: "('w, 'h) exec_env \<Rightarrow> string \<Rightarrow> string \<Rightarrow> tool_args \<Rightarrow> string option \<Rightarrow> tool_message" where
  "denied_tool_result X call_id tool args reason =
    blocked_tool_error X call_id tool args (Some (message_or (reason_text reason) ''permission denied'')) ''permission_denied''"

definition ask_permission_result :: "('w, 'h) exec_env \<Rightarrow> string \<Rightarrow> string \<Rightarrow> tool_args \<Rightarrow> string option \<Rightarrow> tool_message" where
  "ask_permission_result X call_id tool args reason =
    blocked_tool_error X call_id tool args (Some (message_or (reason_text reason) ''permission required'')) ''permission_ask''"

text \<open>\<open>fire_hook\<close>: the decisions of the extensions that have the hook, did not raise and returned something.\<close>

definition fire_on_call :: "extension list \<Rightarrow> string \<Rightarrow> tool_args \<Rightarrow> tool_call_interception list" where
  "fire_on_call exts tool args = concat (map (\<lambda>x. case ex_on_call x of None \<Rightarrow> []
     | Some hook \<Rightarrow> (case hook tool args of None \<Rightarrow> [] | Some d \<Rightarrow> [d])) exts)"

fun apply_call_hooks :: "tool_call_interception list \<Rightarrow> tool_args \<Rightarrow> (string option \<times> tool_args) + tool_args" where
  "apply_call_hooks [] args = Inr args"
| "apply_call_hooks (d # ds) args = (if ci_block d then Inl (ci_reason d, args)
     else apply_call_hooks ds (case ci_patched d of None \<Rightarrow> args | Some p \<Rightarrow> p))"

definition extension_layer :: "('w, 'h) exec_env \<Rightarrow> string \<Rightarrow> string \<Rightarrow> tool_args \<Rightarrow> tool_message + tool_args" where
  "extension_layer X name call_id args = (case xe_extensions X of
     None \<Rightarrow> Inr args
   | Some exts \<Rightarrow> (case apply_call_hooks (fire_on_call exts name args) args of
       Inl (reason, args') \<Rightarrow> Inl (blocked_tool_error X call_id name args' reason ''blocked_by_extension'')
     | Inr args' \<Rightarrow> Inr args'))"

definition middleware_layer :: "('w, 'h) exec_env \<Rightarrow> string \<Rightarrow> string \<Rightarrow> tool_args \<Rightarrow> tool_message + tool_args" where
  "middleware_layer X name call_id args = (case xe_middleware X of
     None \<Rightarrow> Inr args
   | Some mws \<Rightarrow>
     (let d = intercept_tool_call mws name args in
      if ci_block d then Inl (blocked_tool_error X call_id name args (ci_reason d) ''blocked_by_middleware'')
      else Inr (case ci_patched d of None \<Rightarrow> args | Some p \<Rightarrow> p)))"

definition bash_like_tool_names :: "string list" where
  "bash_like_tool_names = [''run_workspace_command'', ''bash'', ''shell'', ''execute_command'', ''run_command'']"

definition extract_command :: "string \<Rightarrow> tool_args \<Rightarrow> string option" where
  "extract_command tool args =
    (if tool \<notin> set bash_like_tool_names \<or> args = [] then None
     else case find (\<lambda>v. case v of PStr s \<Rightarrow> py_strip s \<noteq> [] | _ \<Rightarrow> False)
         (map (value_of args) [''command'', ''cmd'', ''script'', ''shell'', ''input'']) of
       Some (PStr s) \<Rightarrow> Some (py_strip s)
     | _ \<Rightarrow> (let parts = concat (map (\<lambda>v. case v of PStr s \<Rightarrow> [s] | _ \<Rightarrow> []) (vals args)) in
         if parts = [] then None else Some (py_strip (join_with '' '' parts))))"

definition permission_request_of :: "('w, 'h) exec_env \<Rightarrow> string \<Rightarrow> tool_args \<Rightarrow> permission_request" where
  "permission_request_of X name args = \<lparr>pq_tool = name, pq_command = extract_command name args,
     pq_agent = message_or (xe_agent X) ''*'', pq_session = Some (xe_thread X), pq_args = PDict args\<rparr>"

definition permission_layer :: "('w, 'h) exec_env \<Rightarrow> string \<Rightarrow> string \<Rightarrow> 'w tool_meta \<Rightarrow> tool_args \<Rightarrow> permission_manager option \<Rightarrow>
    (tool_message + tool_args) \<times> permission_manager option" where
  "permission_layer X name call_id meta args pm = (case pm of
     None \<Rightarrow> (Inr args, None)
   | Some m \<Rightarrow> (case check_permission (xe_hash X) (permission_request_of X name args) m of
       (m', action, reason) \<Rightarrow>
         (if action = DENY then Inl (denied_tool_result X call_id name args reason)
          else if action = ASK \<and> \<not> tm_requires_approval meta then Inl (ask_permission_result X call_id name args reason)
          else Inr args, Some m')))"

definition intercept_call :: "('w, 'h) exec_env \<Rightarrow> string \<Rightarrow> string \<Rightarrow> 'w tool_meta \<Rightarrow> tool_args \<Rightarrow> permission_manager option \<Rightarrow>
    (tool_message + tool_args) \<times> permission_manager option" where
  "intercept_call X name call_id meta args pm = (case extension_layer X name call_id args of
     Inl m \<Rightarrow> (Inl m, pm)
   | Inr args \<Rightarrow> (case middleware_layer X name call_id args of
       Inl m \<Rightarrow> (Inl m, pm)
     | Inr args \<Rightarrow> permission_layer X name call_id meta args pm))"

section \<open>Questions and approvals\<close>

datatype interrupt = Ask_interrupt ask_payload | Approval_interrupt tool_args

datatype decision_record =
    Ask_decision ask_payload bool "string option"
  | Approval_request tool_args
  | Approval_decision tool_args bool "string option"
  | Retried "(string \<times> string) list"

record 'w batch =
  xb_inputs :: "'w tool_input list"
  xb_messages :: "(nat, tool_message) dict"
  xb_guards :: guard_state
  xb_records :: "decision_record list"
  xb_answers :: "pyval list"
  xb_permissions :: "permission_manager option"
  xb_queue :: "approval_queue option"

datatype 'w run_state = Suspended interrupt "'w batch" | Going "'w batch"

definition answer_call :: "nat \<Rightarrow> tool_message \<Rightarrow> 'w batch \<Rightarrow> 'w batch" where
  "answer_call i m b = b\<lparr>xb_messages := AList.update i m (xb_messages b)\<rparr>"

definition add_record :: "decision_record \<Rightarrow> 'w batch \<Rightarrow> 'w batch" where
  "add_record r b = b\<lparr>xb_records := xb_records b @ [r]\<rparr>"

text \<open>\<open>interrupt\<close>: the next answer, or suspension.\<close>

definition interrupted :: "interrupt \<Rightarrow> (pyval \<Rightarrow> 'w batch \<Rightarrow> 'w run_state) \<Rightarrow> 'w batch \<Rightarrow> 'w run_state" where
  "interrupted request k b = (case xb_answers b of [] \<Rightarrow> Suspended request b | a # as \<Rightarrow> k a (b\<lparr>xb_answers := as\<rparr>))"

definition exception_text :: "py_error \<Rightarrow> string" where
  "exception_text e = (case e of ValueError m \<Rightarrow> m | KeyError m \<Rightarrow> m | PermissionError m \<Rightarrow> m | RuntimeError m \<Rightarrow> m | _ \<Rightarrow> [])"

definition answer_value :: "answer_row \<Rightarrow> pyval" where
  "answer_value r = PDict [(''question_id'', PStr (aw_question r)), (''header'', PStr (aw_header r)), (''question'', PStr (aw_text r)),
     (''multi_select'', PBool (aw_multi r)), (''selected_labels'', PList (map PStr (aw_selected r))),
     (''selected_other'', PBool (aw_other r)), (''other_text'', case aw_other_text r of None \<Rightarrow> PNone | Some t \<Rightarrow> PStr t)]"

definition format_ask_user_question_tool_result :: "(pyval \<Rightarrow> string) \<Rightarrow> question list \<Rightarrow> answer_row list \<Rightarrow> string" where
  "format_ask_user_question_tool_result dumps qs rows = dumps (PDict [(''status'', PStr ''answered''), (''tool'', PStr ''ask_user_question''),
     (''questions'', PList (map question_value qs)), (''answers'', PList (map answer_value rows))])"

definition take_answer :: "('w, 'h) exec_env \<Rightarrow> 'w tool_input \<Rightarrow> ask_payload \<Rightarrow> pyval \<Rightarrow> 'w batch \<Rightarrow> 'w batch" where
  "take_answer X item payload response b =
    (let err = ask_user_question_response_error (xe_ask X) response (ap_interrupt_id payload) (ti_call_id item) (ap_questions payload);
         b = add_record (Ask_decision payload (err = None) err) b in
     answer_call (ti_index item) (case err of
       Some e \<Rightarrow> error_for X (ti_call_id item) (ti_name item) (ti_args item) e
         [(''ask_user_question_invalid'', PBool True), (''requires_human_input'', PBool True)]
     | None \<Rightarrow>
         (let rows = parse_ask_user_question_answers (xe_ask X) response (ap_questions payload) in
          build_tool_message (format_ask_user_question_tool_result (xe_json X) (ap_questions payload) rows)
            (ti_call_id item) (ti_name item) None ''success''
            [(''ask_user_question_answered'', PBool True), (''requires_human_input'', PBool True), (''answer_count'', PInt (int (length rows)))])) b)"

definition ask_user :: "('w, 'h) exec_env \<Rightarrow> 'w tool_input \<Rightarrow> 'w batch \<Rightarrow> 'w run_state" where
  "ask_user X item b = (case build_ask_user_question_interrupt_payload (xe_ask X) (ti_call_id item) (get_or (ti_args item) ''questions'' PNone) of
     Inl e \<Rightarrow> Going (answer_call (ti_index item) (error_for X (ti_call_id item) (ti_name item) (ti_args item)
       (''Invalid ask_user_question parameters: '' @ exception_text e) [(''parameter_validation_error'', PBool True)]) b)
   | Inr payload \<Rightarrow> interrupted (Ask_interrupt payload) (\<lambda>a b. Going (take_answer X item payload a b)) b)"

definition risk_level :: "'w tool_meta \<Rightarrow> string" where
  "risk_level m = message_or (tm_risk_level m) ''low''"

definition redacted_args :: "'w tool_input \<Rightarrow> tool_args" where
  "redacted_args item = redact_tool_args (ti_args item) (ti_runtime item)"

definition approval_submission :: "('w, 'h) exec_env \<Rightarrow> 'w tool_input \<Rightarrow> submission" where
  "approval_submission X item = \<lparr>sub_id = build_tool_approval_interrupt_id (xe_approval X) item,
     sub_session = rc_root_thread (xe_context X), sub_agent = ''tool_executor:'' @ ti_call_id item, sub_tool = ti_name item,
     sub_args = redacted_args item, sub_risk = risk_level (ti_runtime item), sub_ttl = xe_approval_ttl X\<rparr>"

definition request_approval :: "('w, 'h) exec_env \<Rightarrow> 'w tool_input \<Rightarrow> 'w batch \<Rightarrow> 'w batch" where
  "request_approval X item b =
    (let payload = build_tool_approval_interrupt_payload (xe_approval X) item;
         b = b\<lparr>xb_queue := map_option (\<lambda>q. fst (submit_pending (xe_now X) (approval_submission X item) q)) (xb_queue b)\<rparr>;
         b = add_record (Approval_request (update_dict payload
           [(''approval_status'', PStr ''pending''), (''policy_version'', PStr ''multi_agent_async_approval.v1'')])) b in
     answer_call (ti_index item) (error_for X (ti_call_id item) (ti_name item) (redacted_args item)
       ''Tool execution is pending asynchronous approval and was not run.''
       [(''tool_approval_pending'', PBool True), (''requires_approval'', PBool True), (''risk_level'', PStr (risk_level (ti_runtime item)))]) b)"

definition add_input :: "'w tool_input \<Rightarrow> 'w batch \<Rightarrow> 'w batch" where
  "add_input item b = b\<lparr>xb_inputs := xb_inputs b @ [item]\<rparr>"

definition take_approval :: "('w, 'h) exec_env \<Rightarrow> 'w tool_input \<Rightarrow> pyval \<Rightarrow> 'w batch \<Rightarrow> 'w batch" where
  "take_approval X item response b =
    (let payload = build_tool_approval_interrupt_payload (xe_approval X) item;
         iid = build_tool_approval_interrupt_id (xe_approval X) item;
         err = tool_approval_response_error response iid (ti_call_id item);
         approved = is_tool_approval_approved response (Some iid) (Some (ti_call_id item));
         b = add_record (Approval_decision payload approved err) b in
     if approved then add_input item b
     else answer_call (ti_index item) (error_for X (ti_call_id item) (ti_name item) (redacted_args item)
       (case err of Some e \<Rightarrow> e | None \<Rightarrow> ''Tool execution denied by approval response: '' @ ti_name item)
       [(''tool_approval_denied'', PBool True), (''tool_approval_invalid'', PBool (err \<noteq> None)), (''requires_approval'', PBool True),
        (''risk_level'', PStr (risk_level (ti_runtime item)))]) b)"

definition dispatch_call :: "('w, 'h) exec_env \<Rightarrow> 'w tool_input \<Rightarrow> 'w batch \<Rightarrow> 'w run_state" where
  "dispatch_call X item b =
    (if ti_name item = ''ask_user_question'' then ask_user X item b
     else if tm_requires_approval (ti_runtime item) then
       (if xe_async X then Going (request_approval X item b)
        else interrupted (Approval_interrupt (build_tool_approval_interrupt_payload (xe_approval X) item))
          (\<lambda>a b. Going (take_approval X item a b)) b)
     else Going (add_input item b))"

definition call_id_of :: "call_env \<Rightarrow> nat \<Rightarrow> tool_args \<Rightarrow> string" where
  "call_id_of C i raw = message_or (call_text C raw ''id'') (''tool-call-'' @ show_nat (i + 1))"

definition prepare_call :: "('w, 'h) exec_env \<Rightarrow> (string, ledger_entry) dict \<Rightarrow> nat \<Rightarrow> tool_args \<Rightarrow> 'w batch \<Rightarrow> 'w run_state" where
  "prepare_call X ledger i raw b =
    (let name = call_text (xe_call X) raw ''name''; call_id = call_id_of (xe_call X) i raw;
         args = canonicalize_tool_call_args (cl_loads (xe_call X)) (value_of raw ''args'') in
     case preflight_tool_call X ledger name call_id args (xb_guards b) of
       (Inl m, g) \<Rightarrow> Going (answer_call i m (b\<lparr>xb_guards := g\<rparr>))
     | (Inr c, g) \<Rightarrow> (case intercept_call X name call_id (cc_meta c) (cc_args c) (xb_permissions b) of
         (Inl m, pm) \<Rightarrow> Going (answer_call i m (b\<lparr>xb_guards := g, xb_permissions := pm\<rparr>))
       | (Inr args, pm) \<Rightarrow> dispatch_call X \<lparr>ti_index = i, ti_call_id = call_id, ti_name = name, ti_args = args,
             ti_invoke = cc_tool c, ti_runtime = cc_meta c\<rparr> (b\<lparr>xb_guards := g, xb_permissions := pm\<rparr>)))"

fun prepare_calls :: "('w, 'h) exec_env \<Rightarrow> (string, ledger_entry) dict \<Rightarrow> nat \<Rightarrow> tool_args list \<Rightarrow> 'w batch \<Rightarrow> 'w run_state" where
  "prepare_calls X ledger i [] b = Going b"
| "prepare_calls X ledger i (c # cs) b = (case prepare_call X ledger i c b of
     Suspended r b \<Rightarrow> Suspended r b | Going b \<Rightarrow> prepare_calls X ledger (i + 1) cs b)"

section \<open>Hooks on results\<close>

text \<open>A tool message handed to a hook of the middleware: its fields.\<close>

definition message_value :: "tool_message \<Rightarrow> pyval" where
  "message_value m = PDict [(''content'', PStr (tg_content m)), (''tool_call_id'', PStr (tg_call_id m)), (''status'', PStr (tg_status m))]"

definition patch_tool_message_content :: "('w, 'h) exec_env \<Rightarrow> tool_message \<Rightarrow> pyval \<Rightarrow> tool_message" where
  "patch_tool_message_content X m v =
    build_tool_message (case v of PStr s \<Rightarrow> s | _ \<Rightarrow> xe_json X v) (tg_call_id m) (tg_tool m) (tg_prompt m)
      (message_or (tg_status m) ''success'') (AList.update ''content_patched'' (PBool True) (tg_runtime m))"

definition patch_tool_message_error :: "('w, 'h) exec_env \<Rightarrow> tool_message \<Rightarrow> string \<Rightarrow> tool_message" where
  "patch_tool_message_error X m err =
    (let args = (case oe_loads (xe_outcome X) (tg_content m) of
         Some (PDict d) \<Rightarrow> (case value_of d ''args'' of PDict a \<Rightarrow> a | _ \<Rightarrow> []) | _ \<Rightarrow> []) in
     error_for X (tg_call_id m) (tg_tool m) args err (AList.update ''error_patched'' (PBool True) (tg_runtime m)))"

definition apply_result_decision :: "('w, 'h) exec_env \<Rightarrow> tool_result_interception \<Rightarrow> tool_message \<Rightarrow> tool_message" where
  "apply_result_decision X d m =
    (let m = (case ri_content d of None \<Rightarrow> m | Some v \<Rightarrow> patch_tool_message_content X m v) in
     case ri_error d of None \<Rightarrow> m | Some e \<Rightarrow> patch_tool_message_error X m e)"

definition hooked_message :: "('w, 'h) exec_env \<Rightarrow> tool_message \<Rightarrow> tool_message" where
  "hooked_message X m0 =
    (let name = tg_tool m0;
         m1 = (case xe_middleware X of None \<Rightarrow> m0 | Some mws \<Rightarrow> apply_result_decision X (intercept_tool_result mws name (message_value m0)) m0) in
     case xe_extensions X of
       None \<Rightarrow> m1
     | Some exts \<Rightarrow> foldl (\<lambda>m d. apply_result_decision X d m) m1
         (concat (map (\<lambda>x. case ex_on_result x of None \<Rightarrow> [] | Some hook \<Rightarrow> (case hook name m1 of None \<Rightarrow> [] | Some d \<Rightarrow> [d])) exts)))"

definition apply_result_hooks :: "('w, 'h) exec_env \<Rightarrow> tool_result list \<Rightarrow> tool_result list" where
  "apply_result_hooks X rs = (if xe_middleware X = None \<and> xe_extensions X = None then rs
     else map (\<lambda>r. \<lparr>tt_index = tt_index r, tt_message = hooked_message X (tt_message r), tt_cache_hit = tt_cache_hit r\<rparr>) rs)"

section \<open>Retries\<close>

definition retry_call_ids :: "outcome list \<Rightarrow> string list" where
  "retry_call_ids xs = map oc_call_id (filter (\<lambda>x. oc_status x = Tool_failed \<and> oc_retryable x \<and>
     (if oc_attempt x = 0 then 1 else oc_attempt x) < (if oc_max_attempts x = 0 then 1 else oc_max_attempts x)) xs)"

definition retryable_side_effect_allowed :: "'w tool_input \<Rightarrow> bool" where
  "retryable_side_effect_allowed item =
    (ti_name item \<in> set [''run_workspace_command'', ''run_skill_entrypoint''] \<and>
     (case tm_side_effect_kind (ti_runtime item) of None \<Rightarrow> False | Some k \<Rightarrow> k = ''workspace_command'') \<and>
     tm_requires_approval (ti_runtime item) \<and> tm_retry_safe (ti_runtime item))"

definition retryable_failed_inputs :: "outcome list \<Rightarrow> 'w tool_input list \<Rightarrow> 'w tool_input list" where
  "retryable_failed_inputs xs items = filter (\<lambda>item. ti_call_id item \<in> set (retry_call_ids xs) \<and>
     \<not> (tm_side_effect (ti_runtime item) \<and> \<not> retryable_side_effect_allowed item)) items"

section \<open>The node\<close>

record node_input =
  ni_history :: "history_message list"
  ni_calls :: "tool_args list"
  ni_outcomes :: "outcome list"

record ('w) node_state =
  ns_runtime :: "'w runtime"
  ns_permissions :: "permission_manager option"
  ns_queue :: "approval_queue option"

record 'w node_output =
  no_messages :: "tool_message list"
  no_records :: "decision_record list"
  no_outcomes :: "outcome list"
  no_state :: "'w node_state"

datatype 'w node_result = Node_suspended interrupt "'w node_state" | Node_done "'w node_output"

definition count_call :: "call_env \<Rightarrow> pyval \<Rightarrow> (string, int) dict \<Rightarrow> (string, int) dict" where
  "count_call C v counts = (case v of
     PDict raw \<Rightarrow> (let name = call_text C raw ''name'' in
       if name = [] then counts else AList.update name (get_or counts name 0 + 1) counts)
   | _ \<Rightarrow> counts)"

definition tool_call_counts_since_latest_human :: "call_env \<Rightarrow> history_message list \<Rightarrow> (string, int) dict" where
  "tool_call_counts_since_latest_human C ms =
    fold (count_call C) (concat (map (\<lambda>m. case m of Model_msg vs \<Rightarrow> vs | _ \<Rightarrow> []) (takeWhile (\<lambda>m. m \<noteq> Human_msg) (rev ms)))) []"

definition turn_index :: "history_message list \<Rightarrow> nat" where
  "turn_index ms = length (filter (\<lambda>m. m = Human_msg) ms)"

definition turn_number :: "history_message list \<Rightarrow> nat" where
  "turn_number ms = (if turn_index ms = 0 then 1 else turn_index ms)"

definition limits_of :: "('w, 'h) exec_env \<Rightarrow> nat \<Rightarrow> 'w tool_input list \<Rightarrow> tool_limits" where
  "limits_of X turn items = (let key = (\<lambda>scope. build_cache_scope_key scope (Some (rc_root_thread (xe_context X))) (xe_branch X) (Some (show_nat turn))) in
     \<lparr>tl_scopes = map (\<lambda>item. (ti_index item, key (tm_cache_scope (ti_runtime item)))) items,
      tl_invalidation = map key [''turn'', ''thread'', ''branch''],
      tl_workers = max 1 (if xe_workers X = 0 then 1 else xe_workers X)\<rparr>)"

definition run_tools :: "('w, 'h) exec_env \<Rightarrow> tool_limits \<Rightarrow> nat list \<Rightarrow> 'w tool_input list \<Rightarrow> 'w runtime \<Rightarrow> tool_result list \<times> 'w runtime" where
  "run_tools X L sched items s = (case execute_tool_calls (xe_run X) L sched items s of (rs, s') \<Rightarrow> (apply_result_hooks X rs, s'))"

definition put_results :: "tool_result list \<Rightarrow> (nat, tool_message) dict \<Rightarrow> (nat, tool_message) dict" where
  "put_results rs d = fold (\<lambda>r. AList.update (tt_index r) (tt_message r)) rs d"

definition in_order :: "(nat, tool_message) dict \<Rightarrow> tool_message list" where
  "in_order d = vals (sort_key fst d)"

definition finish_batch :: "('w, 'h) exec_env \<Rightarrow> node_input \<Rightarrow> nat list \<times> nat list \<Rightarrow> 'w runtime \<Rightarrow> 'w batch \<Rightarrow> 'w node_output" where
  "finish_batch X N scheds s b =
    (let turn = turn_number (ni_history N); L = limits_of X turn (xb_inputs b); calls = Calls (map PDict (ni_calls N));
         outcomes_of = (\<lambda>prior ms. build_tool_outcomes_from_messages (xe_outcome X) prior (Some (show_nat turn)) (Some (int turn)) (calls # map Answer ms));
         (rs, s1) = run_tools X L (fst scheds) (xb_inputs b) s;
         messages = put_results rs (xb_messages b);
         outcomes = outcomes_of (ni_outcomes N) (in_order messages);
         retry = retryable_failed_inputs outcomes (xb_inputs b);
         state = (\<lambda>s. \<lparr>ns_runtime = s, ns_permissions = xb_permissions b, ns_queue = xb_queue b\<rparr>) in
     if retry = [] then \<lparr>no_messages = in_order messages, no_records = xb_records b, no_outcomes = outcomes, no_state = state s1\<rparr>
     else let (rs2, s2) = run_tools X L (snd scheds) retry s1 in
       \<lparr>no_messages = in_order (put_results rs2 messages),
        no_records = xb_records b @ [Retried (map (\<lambda>item. (ti_call_id item, ti_name item)) retry)],
        no_outcomes = outcomes @ outcomes_of (ni_outcomes N @ outcomes) (map tt_message rs2), no_state = state s2\<rparr>)"

definition start_batch :: "('w, 'h) exec_env \<Rightarrow> node_input \<Rightarrow> 'w node_state \<Rightarrow> pyval list \<Rightarrow> 'w batch" where
  "start_batch X N st resumes = \<lparr>xb_inputs = [], xb_messages = [],
     xb_guards = \<lparr>gs_seen = [], gs_counts = tool_call_counts_since_latest_human (xe_call X) (ni_history N)\<rparr>,
     xb_records = [], xb_answers = resumes, xb_permissions = ns_permissions st, xb_queue = ns_queue st\<rparr>"

definition tool_executor :: "('w, 'h) exec_env \<Rightarrow> node_input \<Rightarrow> nat list \<times> nat list \<Rightarrow> pyval list \<Rightarrow> 'w node_state \<Rightarrow> 'w node_result" where
  "tool_executor X N scheds resumes st =
    (case prepare_calls X (collect_retrieval_ledger (xe_ledger X) (ni_history N)) 0 (ni_calls N) (start_batch X N st resumes) of
       Suspended request b \<Rightarrow> Node_suspended request \<lparr>ns_runtime = ns_runtime st, ns_permissions = xb_permissions b, ns_queue = xb_queue b\<rparr>
     | Going b \<Rightarrow> Node_done (finish_batch X N scheds (ns_runtime st) b))"

end
