(* ===== verification/ExecutorSafety.thy ===== *)
theory ExecutorSafety
  imports ToolExecutor "HOL-Library.Sublist"
begin

text \<open>
  What the node of \<open>ToolExecutor\<close> guarantees: which calls it runs, that each is answered, and how often tools are invoked.
  The lemmas follow the node: the guards, the layers of interception, questions and approvals, the loop over the calls, the
  execution with its retry.
\<close>

section \<open>Preparing calls\<close>

lemma error_for_fields [simp]: "tg_call_id (error_for X call_id tool args e info) = call_id"
  by (simp add: error_for_def build_tool_error_message_def build_tool_message_def Let_def)

lemma build_tool_message_fields [simp]: "tg_call_id (build_tool_message c call_id tool p st info) = call_id"
  by (simp add: build_tool_message_def)

lemma blocked_fields [simp]:
  "tg_call_id (blocked_tool_error X call_id tool args r source) = call_id"
  "tg_call_id (denied_tool_result X call_id tool args r) = call_id"
  "tg_call_id (ask_permission_result X call_id tool args r) = call_id"
  by (simp_all add: blocked_tool_error_def denied_tool_result_def ask_permission_result_def)

text \<open>What the guards leave: the tool and its metadata are the registered ones, the plan allows it, it is within its budget.\<close>

definition guarded :: "('w, 'h) exec_env \<Rightarrow> string \<Rightarrow> guard_state \<Rightarrow> 'w checked_call \<Rightarrow> guard_state \<Rightarrow> bool" where
  "guarded X name g c g' \<longleftrightarrow> map_of (xe_tools X) name = Some (cc_tool c) \<and> map_of (xe_metas X) name = Some (cc_meta c) \<and>
     \<not> forbidden_by_route_plan (cl_str (xe_call X)) (xe_route X) name \<and>
     gs_counts g' = AList.update name (get_or (gs_counts g) name 0 + 1) (gs_counts g) \<and>
     \<not> over_budget (cc_meta c) (get_or (gs_counts g) name 0 + 1)"

lemma preflight_known_result:
  assumes "preflight_known X name call_id args g = (r, g')"
  shows "(\<forall>m. r = Inl m \<longrightarrow> tg_call_id m = call_id) \<and> (\<forall>c. r = Inr c \<longrightarrow> guarded X name g c g') \<and>
    (\<forall>n. get_or (gs_counts g) n 0 \<le> get_or (gs_counts g') n 0)"
  using assms unfolding preflight_known_def Let_def guarded_def
  by (auto split: sum.splits option.splits if_splits)

lemma preflight_result:
  assumes "preflight_tool_call X ledger name call_id args g = (r, g')"
  shows "(\<forall>m. r = Inl m \<longrightarrow> tg_call_id m = call_id) \<and> (\<forall>c. r = Inr c \<longrightarrow> guarded X name g c g') \<and>
    (\<forall>n. get_or (gs_counts g) n 0 \<le> get_or (gs_counts g') n 0)"
proof -
  consider "r = Inl (error_for X call_id ''unknown_tool'' args ''Malformed tool call: missing tool name'' [(''malformed_tool_call'', PBool True)])" "g' = g"
    | m where "r = Inl m" "tg_call_id m = call_id" "gs_counts g' = gs_counts g"
    | sig where "preflight_known X name call_id args (g\<lparr>gs_seen := sig\<rparr>) = (r, g')"
    using assms unfolding preflight_tool_call_def Let_def by (auto split: if_splits option.splits)
  then show ?thesis
  proof cases
    case 3
    from preflight_known_result [OF this] show ?thesis by (simp add: guarded_def)
  qed auto
qed

text \<open>
  Calls are checked one after another, and each check is remembered: a manager \<open>m\<close> that was given becomes one that has
  checked requests for some of the tools \<open>before\<close>, in their order. The doom loop is on when the requests remembered for the
  session end with as many repetitions of the present one as the threshold asks for.
\<close>

definition checked :: "('w, 'h) exec_env \<Rightarrow> permission_manager option \<Rightarrow> string list \<Rightarrow> permission_manager option \<Rightarrow> bool" where
  "checked X pm before now \<longleftrightarrow> (\<exists>qs. subseq (map pq_tool qs) before \<and> now = map_option (\<lambda>m. check_all (xe_hash X) m qs) pm)"

definition in_doom_loop :: "('w, 'h) exec_env \<Rightarrow> permission_manager \<Rightarrow> permission_request \<Rightarrow> bool" where
  "in_doom_loop X m q \<longleftrightarrow> snd (detect_loop (request_session q) (pq_tool q) (xe_hash X (pq_args q)) (pm_threshold m) (pm_doom m))"

text \<open>
  The rules let a call run: their verdict is \<open>ALLOW\<close>; or the tool requires an approval, and their verdict is \<open>ASK\<close> or was
  not consulted because the doom loop was on. So \<open>DENY\<close> excludes a call whenever the doom loop is off.
\<close>

definition permitted :: "('w, 'h) exec_env \<Rightarrow> permission_manager option \<Rightarrow> string list \<Rightarrow> string \<Rightarrow> 'w tool_meta \<Rightarrow> tool_args \<Rightarrow> bool" where
  "permitted X pm before name meta args \<longleftrightarrow> (case pm of None \<Rightarrow> True
     | Some m \<Rightarrow> (let q = permission_request_of X name args; verdict = pr_action (evaluate (pm_rules m) q) in
         verdict = ALLOW \<or> (tm_requires_approval meta \<and>
           (verdict = ASK \<or> (\<exists>n. checked X pm before (Some n) \<and> in_doom_loop X n q)))))"

lemma checked_more: "checked X pm before now \<Longrightarrow> checked X pm (before @ [name]) now"
  unfolding checked_def by (blast intro: list_emb_append2 subseq_order.trans [OF _ subseq_rev_drop_many])

lemma checked_refl [simp]: "checked X pm [] pm"
  unfolding checked_def by (rule exI [of _ "[]"]) (simp add: check_all_def option.map_ident)

lemma permission_layer_result:
  assumes "permission_layer X name call_id meta args now = (r, now')" "checked X pm before now"
  shows "(\<forall>m. r = Inl m \<longrightarrow> tg_call_id m = call_id) \<and> (\<forall>a. r = Inr a \<longrightarrow> permitted X pm before name meta a) \<and>
    checked X pm (before @ [name]) now'"
proof (cases pm)
  case None
  then show ?thesis using assms by (auto simp: permission_layer_def permitted_def checked_def)
next
  case (Some m0)
  obtain qs where qs: "subseq (map pq_tool qs) before" "now = Some (check_all (xe_hash X) m0 qs)"
    using assms(2) Some by (auto simp: checked_def)
  let ?q = "permission_request_of X name args" and ?m = "check_all (xe_hash X) m0 qs"
  obtain m' action reason where c: "check_permission (xe_hash X) ?q ?m = (m', action, reason)" by (metis prod_cases3)
  have "m' = check_all (xe_hash X) m0 (qs @ [?q])" using arg_cong [OF c, of fst] by (simp add: check_all_def)
  moreover have "subseq (map pq_tool (qs @ [?q])) (before @ [name])"
    using qs(1) by (simp add: permission_request_of_def list_emb_append_mono)
  moreover have "now' = Some m'" using assms(1) c qs(2) by (simp add: permission_layer_def)
  ultimately have "checked X pm (before @ [name]) now'" unfolding checked_def Some by (intro exI [of _ "qs @ [?q]"]) simp
  moreover have "action = pr_action (evaluate (pm_rules m0) ?q) \<or> action = ASK \<and> in_doom_loop X ?m ?q"
    using c by (auto simp: check_permission_def in_doom_loop_def check_all_fields Let_def split: prod.splits if_splits)
  ultimately show ?thesis using assms c qs(2) Some
    by (cases action) (auto simp: permission_layer_def permitted_def Let_def split: if_splits)
qed

lemma intercept_result:
  assumes "intercept_call X name call_id meta args now = (r, now')" "checked X pm before now"
  shows "(\<forall>m. r = Inl m \<longrightarrow> tg_call_id m = call_id) \<and> (\<forall>a. r = Inr a \<longrightarrow> permitted X pm before name meta a) \<and>
    checked X pm (before @ [name]) now'"
proof -
  consider (ext) m where "extension_layer X name call_id args = Inl m" "r = Inl m" "now' = now"
    | (mid) a m where "middleware_layer X name call_id a = Inl m" "r = Inl m" "now' = now"
    | (perm) a where "permission_layer X name call_id meta a now = (r, now')"
  proof (cases "extension_layer X name call_id args")
    case (Inl m)
    show ?thesis by (rule ext [OF Inl]) (use assms Inl in \<open>simp_all add: intercept_call_def\<close>)
  next
    case (Inr a)
    show ?thesis
    proof (cases "middleware_layer X name call_id a")
      case (Inl m)
      show ?thesis by (rule mid [OF Inl]) (use assms \<open>extension_layer X name call_id args = Inr a\<close> Inl in \<open>simp_all add: intercept_call_def\<close>)
    next
      case (Inr a')
      show ?thesis by (rule perm [of a']) (use assms \<open>extension_layer X name call_id args = Inr a\<close> Inr in \<open>simp add: intercept_call_def\<close>)
    qed
  qed
  then show ?thesis
  proof cases
    case ext
    then show ?thesis using checked_more [OF assms(2)] by (auto simp: extension_layer_def split: option.splits sum.splits)
  next
    case mid
    then show ?thesis using checked_more [OF assms(2)] by (auto simp: middleware_layer_def Let_def split: option.splits if_splits)
  next
    case perm
    from permission_layer_result [OF this assms(2)] show ?thesis .
  qed
qed

text \<open>A call may run: an approval, where the tool asks for one, was given for this very call, and the rules let it run;
  \<open>names\<close> are the tools of the calls of the message.\<close>

definition cleared :: "('w, 'h) exec_env \<Rightarrow> permission_manager option \<Rightarrow> (nat \<Rightarrow> string) \<Rightarrow> pyval list \<Rightarrow> 'w tool_input \<Rightarrow> bool" where
  "cleared X pm names resumes item \<longleftrightarrow> ti_name item \<noteq> ''ask_user_question'' \<and>
     map_of (xe_tools X) (ti_name item) = Some (ti_invoke item) \<and> map_of (xe_metas X) (ti_name item) = Some (ti_runtime item) \<and>
     \<not> forbidden_by_route_plan (cl_str (xe_call X)) (xe_route X) (ti_name item) \<and>
     permitted X pm (map names [0..<ti_index item]) (ti_name item) (ti_runtime item) (ti_args item) \<and>
     (tm_requires_approval (ti_runtime item) \<longrightarrow> \<not> xe_async X \<and>
        (\<exists>a \<in> set resumes. is_tool_approval_approved a (Some (build_tool_approval_interrupt_id (xe_approval X) item)) (Some (ti_call_id item))))"

text \<open>One call was answered, or added to the calls to run.\<close>

definition took :: "nat \<Rightarrow> string \<Rightarrow> ('w tool_input \<Rightarrow> bool) \<Rightarrow> 'w batch \<Rightarrow> 'w batch \<Rightarrow> bool" where
  "took i call_id P b b' \<longleftrightarrow>
    (\<exists>m. tg_call_id m = call_id \<and> xb_messages b' = AList.update i m (xb_messages b) \<and> xb_inputs b' = xb_inputs b) \<or>
    (\<exists>item. ti_index item = i \<and> ti_call_id item = call_id \<and> P item \<and> xb_messages b' = xb_messages b \<and> xb_inputs b' = xb_inputs b @ [item])"

lemma took_answer:
  "tg_call_id m = call_id \<Longrightarrow> xb_messages b' = AList.update i m (xb_messages b) \<Longrightarrow> xb_inputs b' = xb_inputs b \<Longrightarrow> took i call_id P b b'"
  by (auto simp: took_def)

lemma take_answer_fields:
  "xb_inputs (take_answer X item p a b) = xb_inputs b" "xb_guards (take_answer X item p a b) = xb_guards b"
  "xb_permissions (take_answer X item p a b) = xb_permissions b" "xb_answers (take_answer X item p a b) = xb_answers b"
  "\<exists>m. tg_call_id m = ti_call_id item \<and> xb_messages (take_answer X item p a b) = AList.update (ti_index item) m (xb_messages b)"
  by (auto simp: take_answer_def answer_call_def add_record_def Let_def split: option.splits intro!: exI)

lemma ask_user_result:
  assumes "ask_user X item b = Going b'"
  shows "took (ti_index item) (ti_call_id item) P b b' \<and>
    xb_guards b' = xb_guards b \<and> xb_permissions b' = xb_permissions b \<and> set (xb_answers b') \<subseteq> set (xb_answers b)"
proof (cases "build_ask_user_question_interrupt_payload (xe_ask X) (ti_call_id item) (get_or (ti_args item) ''questions'' PNone)")
  case (Inl e)
  then show ?thesis using assms by (auto simp: ask_user_def answer_call_def intro!: took_answer)
next
  case (Inr p)
  obtain a as where a: "xb_answers b = a # as" "b' = take_answer X item p a (b\<lparr>xb_answers := as\<rparr>)"
    using assms Inr by (auto simp: ask_user_def interrupted_def split: list.splits)
  obtain m where "tg_call_id m = ti_call_id item" "xb_messages b' = AList.update (ti_index item) m (xb_messages b)"
    using take_answer_fields(5) [of item X p a "b\<lparr>xb_answers := as\<rparr>"] unfolding a(2) by auto
  moreover have "xb_inputs b' = xb_inputs b" by (simp add: a(2) take_answer_fields)
  ultimately have "took (ti_index item) (ti_call_id item) P b b'" by (rule took_answer)
  then show ?thesis by (auto simp: a take_answer_fields)
qed

lemma request_approval_fields:
  "xb_inputs (request_approval X item b) = xb_inputs b" "xb_guards (request_approval X item b) = xb_guards b"
  "xb_permissions (request_approval X item b) = xb_permissions b" "xb_answers (request_approval X item b) = xb_answers b"
  "\<exists>m. tg_call_id m = ti_call_id item \<and> xb_messages (request_approval X item b) = AList.update (ti_index item) m (xb_messages b)"
  by (auto simp: request_approval_def answer_call_def add_record_def Let_def intro!: exI)

lemma take_approval_fields:
  fixes X item
  defines "iid \<equiv> build_tool_approval_interrupt_id (xe_approval X) item"
  shows "xb_guards (take_approval X item a b) = xb_guards b" "xb_permissions (take_approval X item a b) = xb_permissions b"
    "xb_answers (take_approval X item a b) = xb_answers b"
    "is_tool_approval_approved a (Some iid) (Some (ti_call_id item)) \<Longrightarrow>
       xb_inputs (take_approval X item a b) = xb_inputs b @ [item] \<and> xb_messages (take_approval X item a b) = xb_messages b"
    "\<not> is_tool_approval_approved a (Some iid) (Some (ti_call_id item)) \<Longrightarrow> xb_inputs (take_approval X item a b) = xb_inputs b \<and>
       (\<exists>m. tg_call_id m = ti_call_id item \<and> xb_messages (take_approval X item a b) = AList.update (ti_index item) m (xb_messages b))"
  by (simp_all add: iid_def take_approval_def add_input_def answer_call_def add_record_def Let_def) (rule exI, rule conjI [OF _ refl], simp)

lemma dispatch_result:
  assumes "dispatch_call X item b = Going b'"
  shows "took (ti_index item) (ti_call_id item) (\<lambda>x. x = item \<and> ti_name item \<noteq> ''ask_user_question'' \<and> (tm_requires_approval (ti_runtime item) \<longrightarrow> \<not> xe_async X \<and>
      (\<exists>a \<in> set (xb_answers b). is_tool_approval_approved a (Some (build_tool_approval_interrupt_id (xe_approval X) item)) (Some (ti_call_id item))))) b b' \<and>
    xb_guards b' = xb_guards b \<and> xb_permissions b' = xb_permissions b \<and> set (xb_answers b') \<subseteq> set (xb_answers b)"
proof (cases "ti_name item = ''ask_user_question''")
  case True
  then have "ask_user X item b = Going b'" using assms by (simp add: dispatch_call_def)
  from ask_user_result [OF this] show ?thesis .
next
  case ask: False
  show ?thesis
  proof (cases "tm_requires_approval (ti_runtime item)")
    case False
    then show ?thesis using assms ask by (auto simp: dispatch_call_def add_input_def took_def)
  next
    case approval: True
    show ?thesis
    proof (cases "xe_async X")
      case True
      then have b': "b' = request_approval X item b" using assms ask approval by (simp add: dispatch_call_def)
      obtain m where "tg_call_id m = ti_call_id item" "xb_messages b' = AList.update (ti_index item) m (xb_messages b)"
        using request_approval_fields(5) [of item X b] unfolding b' by auto
      moreover have "xb_inputs b' = xb_inputs b" by (simp add: b' request_approval_fields)
      ultimately show ?thesis by (intro conjI, rule took_answer) (simp_all add: b' request_approval_fields)
    next
      case False
      obtain a as where a: "xb_answers b = a # as" "b' = take_approval X item a (b\<lparr>xb_answers := as\<rparr>)"
        using assms ask approval False by (auto simp: dispatch_call_def interrupted_def split: list.splits)
      show ?thesis using ask False take_approval_fields(4,5) [of a X item "b\<lparr>xb_answers := as\<rparr>"]
        unfolding took_def by (auto simp: a take_approval_fields(1-3))
    qed
  qed
qed

text \<open>The invariant while calls are prepared: the first \<open>i\<close> calls are answered or to be run, each under its own id; the
  calls to be run are cleared and within the budget of their tool.\<close>

definition within_budget :: "('w, 'h) exec_env \<Rightarrow> (string, int) dict \<Rightarrow> (string, int) dict \<Rightarrow> 'w tool_input list \<Rightarrow> bool" where
  "within_budget X before counts items \<longleftrightarrow> (\<forall>name. let n = int (length (filter (\<lambda>x. ti_name x = name) items)) in
     get_or before name 0 + n \<le> get_or counts name 0 \<and>
     (\<forall>m k. map_of (xe_metas X) name = Some m \<longrightarrow> tm_max_calls m = Some k \<longrightarrow> 0 < n \<longrightarrow> get_or before name 0 + n \<le> k))"

definition prepared :: "('w, 'h) exec_env \<Rightarrow> permission_manager option \<Rightarrow> pyval list \<Rightarrow> (string, int) dict \<Rightarrow> (nat \<Rightarrow> string) \<Rightarrow> (nat \<Rightarrow> string) \<Rightarrow> nat \<Rightarrow> 'w batch \<Rightarrow> bool" where
  "prepared X pm resumes before ids names i b \<longleftrightarrow>
     wf_dict (xb_messages b) \<and> sorted_wrt (<) (map ti_index (xb_inputs b)) \<and>
     set (keys (xb_messages b)) \<union> set (map ti_index (xb_inputs b)) = {..<i} \<and>
     (\<forall>(j, m) \<in> set (xb_messages b). tg_call_id m = ids j) \<and>
     (\<forall>item \<in> set (xb_inputs b). ti_call_id item = ids (ti_index item) \<and> ti_name item = names (ti_index item) \<and> cleared X pm names resumes item) \<and>
     set (xb_answers b) \<subseteq> set resumes \<and> checked X pm (map names [0..<i]) (xb_permissions b) \<and>
     within_budget X before (gs_counts (xb_guards b)) (xb_inputs b)"

lemma within_budget_mono:
  assumes "within_budget X before counts items" "\<forall>n. get_or counts n 0 \<le> get_or counts' n 0"
  shows "within_budget X before counts' items"
  using assms unfolding within_budget_def Let_def by (meson order_trans)

lemma within_budget_add:
  assumes "within_budget X before (gs_counts g) items" "guarded X (ti_name item) g c g'" "ti_runtime item = cc_meta c"
  shows "within_budget X before (gs_counts g') (items @ [item])"
proof -
  let ?n = "\<lambda>name. int (length (filter (\<lambda>x. ti_name x = name) items))"
  have b: "get_or before name 0 + ?n name \<le> get_or (gs_counts g) name 0" for name
    using assms(1) by (simp add: within_budget_def Let_def)
  have "get_or (gs_counts g) (ti_name item) 0 + 1 \<le> k" if "map_of (xe_metas X) (ti_name item) = Some m" "tm_max_calls m = Some k" for m k
    using assms(2) that by (auto simp: guarded_def over_budget_def)
  then have "get_or before (ti_name item) 0 + ?n (ti_name item) + 1 \<le> k" if "map_of (xe_metas X) (ti_name item) = Some m" "tm_max_calls m = Some k" for m k
    using that b [of "ti_name item"] by fastforce
  then show ?thesis using assms b unfolding within_budget_def guarded_def Let_def by (auto simp: add.assoc)
qed

lemma prepare_call_step:
  assumes "prepare_call X ledger i raw b = Going b'" "prepared X pm resumes before ids names i b" "ids i = call_id_of (xe_call X) i raw"
    "names i = call_text (xe_call X) raw ''name''"
  shows "prepared X pm resumes before ids names (Suc i) b'"
proof -
  let ?name = "call_text (xe_call X) raw ''name''" and ?id = "call_id_of (xe_call X) i raw"
  let ?args = "canonicalize_tool_call_args (cl_loads (xe_call X)) (value_of raw ''args'')"
  obtain r g where p: "preflight_tool_call X ledger ?name ?id ?args (xb_guards b) = (r, g)" by fastforce
  note pf = preflight_result [OF p]
  have now: "checked X pm (map names [0..<i]) (xb_permissions b)" using assms(2) by (simp add: prepared_def)
  have budget: "within_budget X before (gs_counts g) (xb_inputs b)"
    using within_budget_mono pf assms(2) unfolding prepared_def by blast
  have answered: "prepared X pm resumes before ids names (Suc i) b'"
    if "tg_call_id m = ?id" "xb_messages b' = AList.update i m (xb_messages b)" "xb_inputs b' = xb_inputs b"
      "gs_counts (xb_guards b') = gs_counts g" "checked X pm (map names [0..<Suc i]) (xb_permissions b')" "set (xb_answers b') \<subseteq> set (xb_answers b)" for m
    using that assms(2,3) budget unfolding prepared_def
    by (simp add: keys_update lessThan_Suc set_update_dict subset_trans) blast
  show ?thesis
  proof (cases r)
    case (Inl m)
    then have "b' = answer_call i m (b\<lparr>xb_guards := g\<rparr>)" using assms(1) p by (simp add: prepare_call_def Let_def)
    then show ?thesis using answered [of m] Inl pf checked_more [OF now] by (simp add: answer_call_def)
  next
    case (Inr c)
    obtain q now' where q: "intercept_call X ?name ?id (cc_meta c) (cc_args c) (xb_permissions b) = (q, now')" by fastforce
    note ic = intercept_result [OF q now]
    have now': "checked X pm (map names [0..<Suc i]) now'" using ic assms(4) by simp
    show ?thesis
    proof (cases q)
      case (Inl m)
      then have "b' = answer_call i m (b\<lparr>xb_guards := g, xb_permissions := now'\<rparr>)" using assms(1) p q Inr by (simp add: prepare_call_def Let_def)
      then show ?thesis using answered [of m] Inl ic now' by (simp add: answer_call_def)
    next
      case (Inr a)
      let ?item = "\<lparr>ti_index = i, ti_call_id = ?id, ti_name = ?name, ti_args = a, ti_invoke = cc_tool c, ti_runtime = cc_meta c\<rparr>"
      let ?b = "b\<lparr>xb_guards := g, xb_permissions := now'\<rparr>"
      have d: "dispatch_call X ?item ?b = Going b'" using assms(1) p q \<open>r = Inr c\<close> Inr by (simp add: prepare_call_def Let_def)
      note dr = dispatch_result [OF d]
      have g: "guarded X ?name (xb_guards b) c g" using pf \<open>r = Inr c\<close> by simp
      have perm: "permitted X pm (map names [0..<i]) ?name (cc_meta c) a" using ic Inr by simp
      have st: "xb_guards b' = g" "checked X pm (map names [0..<Suc i]) (xb_permissions b')" "set (xb_answers b') \<subseteq> set (xb_answers b)"
        using dr now' by simp_all
      consider (answer) m where "tg_call_id m = ?id" "xb_messages b' = AList.update i m (xb_messages b)" "xb_inputs b' = xb_inputs b"
        | (run) "?name \<noteq> ''ask_user_question''" "xb_messages b' = xb_messages b" "xb_inputs b' = xb_inputs b @ [?item]"
            "tm_requires_approval (cc_meta c) \<longrightarrow> \<not> xe_async X \<and> (\<exists>a \<in> set (xb_answers b).
               is_tool_approval_approved a (Some (build_tool_approval_interrupt_id (xe_approval X) ?item)) (Some ?id))"
        using conjunct1 [OF dr] unfolding took_def by auto
      then show ?thesis
      proof cases
        case answer
        then show ?thesis using answered [of m] st by simp
      next
        case run
        have "cleared X pm names resumes ?item"
          using run(1,4) g perm assms(2) unfolding cleared_def guarded_def prepared_def by auto
        moreover have "within_budget X before (gs_counts g) (xb_inputs b @ [?item])"
          using within_budget_add [of X before "xb_guards b" "xb_inputs b" ?item c g] g assms(2) by (simp add: prepared_def)
        ultimately show ?thesis using run(2,3) st assms(2,3,4) unfolding prepared_def
          by (simp add: lessThan_Suc sorted_wrt_append subset_trans) blast
      qed
    qed
  qed
qed

lemma prepare_calls_prepared:
  "prepare_calls X ledger i cs b = Going b' \<Longrightarrow> prepared X pm resumes before ids names i b \<Longrightarrow>
   \<forall>k < length cs. ids (i + k) = call_id_of (xe_call X) (i + k) (cs ! k) \<and> names (i + k) = call_text (xe_call X) (cs ! k) ''name'' \<Longrightarrow> prepared X pm resumes before ids names (i + length cs) b'"
proof (induction cs arbitrary: i b)
  case (Cons c cs)
  obtain b1 where b1: "prepare_call X ledger i c b = Going b1" "prepare_calls X ledger (i + 1) cs b1 = Going b'"
    using Cons.prems(1) by (auto split: run_state.splits)
  have "prepared X pm resumes before ids names (i + 1) b1" using prepare_call_step [OF b1(1) Cons.prems(2)] Cons.prems(3) by force
  moreover have "\<forall>k < length cs. ids (i + 1 + k) = call_id_of (xe_call X) (i + 1 + k) (cs ! k) \<and> names (i + 1 + k) = call_text (xe_call X) (cs ! k) ''name''"
  proof (intro allI impI)
    fix k
    assume "k < length cs"
    then show "ids (i + 1 + k) = call_id_of (xe_call X) (i + 1 + k) (cs ! k) \<and> names (i + 1 + k) = call_text (xe_call X) (cs ! k) ''name''" using Cons.prems(3) [rule_format, of "Suc k"] by simp
  qed
  ultimately have "prepared X pm resumes before ids names (i + 1 + length cs) b'" by (rule Cons.IH [OF b1(2)])
  then show ?case by simp
qed simp

section \<open>Running them\<close>

lemma apply_result_decision_id [simp]: "tg_call_id (apply_result_decision X d m) = tg_call_id m"
  by (simp add: apply_result_decision_def patch_tool_message_content_def patch_tool_message_error_def Let_def split: option.split)

lemma hooked_message_id [simp]: "tg_call_id (hooked_message X m) = tg_call_id m"
proof -
  have "tg_call_id (foldl (\<lambda>m d. apply_result_decision X d m) m ds) = tg_call_id m" for m ds
    by (induction ds arbitrary: m) simp_all
  then show ?thesis by (simp add: hooked_message_def Let_def split: option.split)
qed

definition answers_call :: "'w tool_input \<Rightarrow> tool_result \<Rightarrow> bool" where
  "answers_call item r \<longleftrightarrow> tt_index r = ti_index item \<and> tg_call_id (tt_message r) = ti_call_id item"

lemma run_tools_ok:
  assumes "sorted_wrt (<) (map ti_index items)" "run_tools X L sched items s = (rs, s')"
  shows "list_all2 answers_call items rs \<and>
    (\<exists>ev. rt_events s' = rt_events s @ ev \<and> (\<forall>e \<in> set ev. te_index e \<in> ti_index ` set items) \<and> (\<forall>i. invocations i ev \<le> 1))"
proof -
  obtain rs0 :: "tool_result list" where x: "execute_tool_calls (xe_run X) L sched items s = (rs0, s')" "rs = apply_result_hooks X rs0"
    using assms(2) by (auto simp: run_tools_def split: prod.splits)
  note ok = execute_tool_calls_ok [OF assms(1) x(1)]
  have "list_all2 answers_call items rs"
    using conjunct1 [OF ok] by (auto simp: x(2) apply_result_hooks_def answers_def answers_call_def list_all2_conv_all_nth)
  then show ?thesis using ok by simp
qed

lemma fst_image_update: "fst ` set (AList.update k v d) = insert k (fst ` set d)"
  using keys_update [of k v d] by simp

lemma put_results_keys: "set (keys (put_results rs d)) = set (keys d) \<union> tt_index ` set rs"
  by (induction rs arbitrary: d) (auto simp: put_results_def fst_image_update)

lemma put_results_wf: "wf_dict d \<Longrightarrow> wf_dict (put_results rs d)"
  by (induction rs arbitrary: d) (auto simp: put_results_def)

lemma put_results_ids:
  assumes "wf_dict d" "\<forall>(j, m) \<in> set d. tg_call_id m = ids j" "\<forall>r \<in> set rs. tg_call_id (tt_message r) = ids (tt_index r)"
  shows "\<forall>(j, m) \<in> set (put_results rs d). tg_call_id m = ids j"
  using assms
proof (induction rs arbitrary: d)
  case (Cons r rs)
  have "put_results (r # rs) d = put_results rs (AList.update (tt_index r) (tt_message r) d)" by (simp add: put_results_def)
  moreover have "\<forall>(j, m) \<in> set (AList.update (tt_index r) (tt_message r) d). tg_call_id m = ids j"
    using Cons.prems by (auto simp: set_update_dict)
  moreover have "wf_dict (AList.update (tt_index r) (tt_message r) d)" using Cons.prems(1) by blast
  ultimately show ?case using Cons.IH [of "AList.update (tt_index r) (tt_message r) d"] Cons.prems(3)
    by (metis list.set_intros(2))
qed (simp add: put_results_def)

lemma in_order_ids:
  assumes "wf_dict d" "set (keys d) = {..<n}" "\<forall>(j, m) \<in> set d. tg_call_id m = ids j"
  shows "map tg_call_id (in_order d) = map ids [0..<n]"
proof -
  let ?e = "sort_key fst d"
  have "sorted (map fst ?e)" "distinct (map fst ?e)" "set (map fst ?e) = {..<n}"
    using assms by (simp_all, metis mset_map mset_sort distinct_map mset_eq_imp_distinct_iff)
  then have k: "map fst ?e = [0..<n]"
    by (metis atLeast_upt sorted_distinct_set_unique distinct_upt sorted_upt)
  have "map tg_call_id (in_order d) = map (\<lambda>p. tg_call_id (snd p)) ?e" by (simp add: in_order_def)
  also have "\<dots> = map (\<lambda>p. ids (fst p)) ?e" using assms(3) by (intro map_cong) auto
  also have "\<dots> = map ids (map fst ?e)" by simp
  finally show ?thesis using k by simp
qed

text \<open>The result of a finished node, from the batch it prepared.\<close>

lemma finish_batch_ok:
  assumes prep: "prepared X pm resumes before ids names n b" and out: "finish_batch X N scheds s b = out"
  obtains ev1 ev2 retry where "map tg_call_id (no_messages out) = map ids [0..<n]"
    "rt_events (ns_runtime (no_state out)) = rt_events s @ ev1 @ ev2"
    "set retry \<subseteq> set (xb_inputs b)" "\<forall>item \<in> set retry. tm_side_effect (ti_runtime item) \<longrightarrow> retryable_side_effect_allowed item"
    "\<forall>e \<in> set ev1. te_index e \<in> ti_index ` set (xb_inputs b)" "\<forall>i. invocations i ev1 \<le> 1"
    "\<forall>e \<in> set ev2. te_index e \<in> ti_index ` set retry" "\<forall>i. invocations i ev2 \<le> 1"
proof -
  let ?L = "limits_of X (turn_number (ni_history N)) (xb_inputs b)"
  note p = prep [unfolded prepared_def]
  obtain rs s1 where r: "run_tools X ?L (fst scheds) (xb_inputs b) s = (rs, s1)" by fastforce
  have sorted: "sorted_wrt (<) (map ti_index (xb_inputs b))" using p by simp
  obtain ev1 where ev1: "rt_events s1 = rt_events s @ ev1" "\<forall>e \<in> set ev1. te_index e \<in> ti_index ` set (xb_inputs b)" "\<forall>i. invocations i ev1 \<le> 1"
    and a1: "list_all2 answers_call (xb_inputs b) rs" using run_tools_ok [OF sorted r] by blast
  let ?m1 = "put_results rs (xb_messages b)"
  have idx: "tt_index ` set rs' = ti_index ` set items" if "list_all2 answers_call items rs'" for items :: "'a tool_input list" and rs' :: "tool_result list"
    using that by (induction rule: list_all2_induct) (auto simp: answers_call_def)
  have res: "\<forall>r \<in> set rs'. tg_call_id (tt_message r) = ids (tt_index r)"
    if "list_all2 answers_call items rs'" "set items \<subseteq> set (xb_inputs b)" for items :: "'a tool_input list" and rs' :: "tool_result list"
    using that p by (induction rule: list_all2_induct) (auto simp: answers_call_def)
  have m1: "wf_dict ?m1" "set (keys ?m1) = {..<n}" "\<forall>(j, m) \<in> set ?m1. tg_call_id m = ids j"
    using p idx [OF a1] put_results_wf put_results_keys [of rs "xb_messages b"] put_results_ids [of "xb_messages b" ids rs] res [OF a1]
    by (auto simp del: set_map simp: image_set)
  define outcomes where "outcomes = build_tool_outcomes_from_messages (xe_outcome X) (ni_outcomes N) (Some (show_nat (turn_number (ni_history N))))
    (Some (int (turn_number (ni_history N)))) (Calls (map PDict (ni_calls N)) # map Answer (in_order ?m1))"
  define retry where "retry = retryable_failed_inputs outcomes (xb_inputs b)"
  have sub: "set retry \<subseteq> set (xb_inputs b)" "\<forall>item \<in> set retry. tm_side_effect (ti_runtime item) \<longrightarrow> retryable_side_effect_allowed item"
    by (auto simp: retry_def retryable_failed_inputs_def)
  show ?thesis
  proof (cases "retry = []")
    case True
    have "no_messages out = in_order ?m1" "ns_runtime (no_state out) = s1"
      using out True r by (auto simp: finish_batch_def Let_def retry_def outcomes_def)
    then show ?thesis using in_order_ids [OF m1] ev1 sub True by (intro that [of ev1 "[]" "[]"]) (auto simp: invocations_def)
  next
    case False
    obtain rs2 s2 where r2: "run_tools X ?L (snd scheds) retry s1 = (rs2, s2)" by fastforce
    have sorted2: "sorted_wrt (<) (map ti_index retry)"
      using sorted unfolding retry_def retryable_failed_inputs_def by (simp add: sorted_wrt_map sorted_wrt_filter)
    obtain ev2 where ev2: "rt_events s2 = rt_events s1 @ ev2" "\<forall>e \<in> set ev2. te_index e \<in> ti_index ` set retry" "\<forall>i. invocations i ev2 \<le> 1"
      and a2: "list_all2 answers_call retry rs2" using run_tools_ok [OF sorted2 r2] by blast
    let ?m2 = "put_results rs2 ?m1"
    have "ti_index ` set (xb_inputs b) \<subseteq> {..<n}" using p by (metis Un_upper2 set_map)
    then have "ti_index ` set retry \<subseteq> {..<n}" using image_mono [OF sub(1)] by (rule subset_trans [rotated])
    then have "set (keys ?m2) = {..<n}" by (simp only: put_results_keys [of rs2 ?m1] idx [OF a2] m1(2) Un_absorb2)
    then have m2: "map tg_call_id (in_order ?m2) = map ids [0..<n]"
      using put_results_wf [OF m1(1)] put_results_ids [OF m1(1,3) res [OF a2 sub(1)]] by (intro in_order_ids)
    have "no_messages out = in_order ?m2" "ns_runtime (no_state out) = s2"
      using out False r r2 by (auto simp: finish_batch_def Let_def retry_def outcomes_def)
    then show ?thesis using m2 ev1 ev2 sub by (intro that [of ev1 ev2 retry]) simp_all
  qed
qed

section \<open>Properties\<close>

text \<open>The calls a node hands to the tools.\<close>

definition inputs_of :: "('w, 'h) exec_env \<Rightarrow> node_input \<Rightarrow> pyval list \<Rightarrow> 'w node_state \<Rightarrow> 'w tool_input list" where
  "inputs_of X N resumes st =
    (case prepare_calls X (collect_retrieval_ledger (xe_ledger X) (ni_history N)) 0 (ni_calls N) (start_batch X N st resumes) of
       Suspended r b \<Rightarrow> [] | Going b \<Rightarrow> xb_inputs b)"

definition events_of :: "'w node_state \<Rightarrow> 'w node_output \<Rightarrow> tool_event list" where
  "events_of st out = drop (length (rt_events (ns_runtime st))) (rt_events (ns_runtime (no_state out)))"

lemma tool_executor_ok:
  assumes "tool_executor X N scheds resumes st = Node_done out"
  obtains b where "inputs_of X N resumes st = xb_inputs b" "finish_batch X N scheds (ns_runtime st) b = out"
    "prepared X (ns_permissions st) resumes (tool_call_counts_since_latest_human (xe_call X) (ni_history N))
      (\<lambda>i. call_id_of (xe_call X) i (ni_calls N ! i)) (\<lambda>i. call_text (xe_call X) (ni_calls N ! i) ''name'') (length (ni_calls N)) b"
proof -
  let ?ids = "\<lambda>i. call_id_of (xe_call X) i (ni_calls N ! i)" and ?names = "\<lambda>i. call_text (xe_call X) (ni_calls N ! i) ''name''"
  obtain b where b: "prepare_calls X (collect_retrieval_ledger (xe_ledger X) (ni_history N)) 0 (ni_calls N) (start_batch X N st resumes) = Going b"
    "finish_batch X N scheds (ns_runtime st) b = out"
    using assms by (auto simp: tool_executor_def split: run_state.splits)
  have "prepared X (ns_permissions st) resumes (tool_call_counts_since_latest_human (xe_call X) (ni_history N)) ?ids ?names 0
      (start_batch X N st resumes)"
    by (simp add: prepared_def start_batch_def within_budget_def Let_def)
  from prepare_calls_prepared [OF b(1) this] b show ?thesis by (intro that [of b]) (simp_all add: inputs_of_def)
qed


text \<open>C30: Every call is answered: a finished node returns one message per call of the model's message, in the order of the
  calls and under their ids.\<close>

theorem every_call_answered:
  fixes X :: "('w, 'h) exec_env"
  assumes "tool_executor X N scheds resumes st = Node_done out"
  shows "map tg_call_id (no_messages out) = map (\<lambda>i. call_id_of (xe_call X) i (ni_calls N ! i)) [0..<length (ni_calls N)]"
proof -
  obtain b :: "'w batch" where b0: "inputs_of X N resumes st = xb_inputs b" and b: "finish_batch X N scheds (ns_runtime st) b = out"
    "prepared X (ns_permissions st) resumes (tool_call_counts_since_latest_human (xe_call X) (ni_history N))
      (\<lambda>i. call_id_of (xe_call X) i (ni_calls N ! i)) (\<lambda>i. call_text (xe_call X) (ni_calls N ! i) ''name'') (length (ni_calls N)) b"
    by (rule tool_executor_ok [OF assms]) (rule that)
  show ?thesis by (rule finish_batch_ok [OF b(2,1)])
qed

text \<open>C24: Side effects are not repeated: no call is invoked more than twice, and one with side effects more than once only
  when it is an approved command whose tool is marked as safe to retry; the calls run of a tool with a limit, with those
  of earlier messages of the turn, stay within the limit.\<close>

theorem side_effects_not_repeated:
  fixes X :: "('w, 'h) exec_env"
  assumes "tool_executor X N scheds resumes st = Node_done out" "item \<in> set (inputs_of X N resumes st)"
  shows "invocations (ti_index item) (events_of st out) \<le> (if tm_side_effect (ti_runtime item) \<and> \<not> retryable_side_effect_allowed item then 1 else 2) \<and>
    (\<forall>k. tm_max_calls (ti_runtime item) = Some k \<longrightarrow>
      get_or (tool_call_counts_since_latest_human (xe_call X) (ni_history N)) (ti_name item) 0 +
      int (length (filter (\<lambda>x. ti_name x = ti_name item) (inputs_of X N resumes st))) \<le> k)"
proof -
  obtain b :: "'w batch" where b: "inputs_of X N resumes st = xb_inputs b" "finish_batch X N scheds (ns_runtime st) b = out"
    "prepared X (ns_permissions st) resumes (tool_call_counts_since_latest_human (xe_call X) (ni_history N))
      (\<lambda>i. call_id_of (xe_call X) i (ni_calls N ! i)) (\<lambda>i. call_text (xe_call X) (ni_calls N ! i) ''name'') (length (ni_calls N)) b"
    by (rule tool_executor_ok [OF assms(1)]) (rule that)
  obtain ev1 ev2 and retry :: "'w tool_input list" where ids: "map tg_call_id (no_messages out) = map (\<lambda>i. call_id_of (xe_call X) i (ni_calls N ! i)) [0..<length (ni_calls N)]"
    and ev: "rt_events (ns_runtime (no_state out)) = rt_events (ns_runtime st) @ ev1 @ ev2"
    "set retry \<subseteq> set (xb_inputs b)" "\<forall>item \<in> set retry. tm_side_effect (ti_runtime item) \<longrightarrow> retryable_side_effect_allowed item"
    "\<forall>e \<in> set ev1. te_index e \<in> ti_index ` set (xb_inputs b)" "\<forall>i. invocations i ev1 \<le> 1"
    "\<forall>e \<in> set ev2. te_index e \<in> ti_index ` set retry" "\<forall>i. invocations i ev2 \<le> 1"
    by (rule finish_batch_ok [OF b(3,2)]) (rule that)
  have e: "events_of st out = ev1 @ ev2" by (simp add: events_of_def ev(1))
  have inj: "inj_on ti_index (set (xb_inputs b))"
    using b(3) strict_sorted_iff distinct_map by (auto simp: prepared_def)
  have "invocations (ti_index item) ev2 = 0" if "item \<notin> set retry"
  proof -
    have "ti_index item \<notin> ti_index ` set retry" using that inj ev(2) assms(2) b(1) by (auto simp: inj_on_def)
    then have "\<forall>e \<in> set ev2. te_index e \<noteq> ti_index item" using ev(6) by metis
    then show ?thesis by (simp add: invocations_def filter_empty_conv)
  qed
  then have "invocations (ti_index item) ev2 = 0 \<or> item \<in> set retry" by blast
  moreover have "invocations (ti_index item) (events_of st out) = invocations (ti_index item) ev1 + invocations (ti_index item) ev2"
    by (simp add: e invocations_def)
  moreover have "invocations (ti_index item) ev1 \<le> 1" "invocations (ti_index item) ev2 \<le> 1" using ev(5,7) by blast+
  ultimately have "invocations (ti_index item) (events_of st out) \<le> (if tm_side_effect (ti_runtime item) \<and> \<not> retryable_side_effect_allowed item then 1 else 2)"
    using ev(3) by fastforce
  moreover have "map_of (xe_metas X) (ti_name item) = Some (ti_runtime item)" using b(1,3) assms(2) by (auto simp: prepared_def cleared_def)
  moreover have "0 < length (filter (\<lambda>x. ti_name x = ti_name item) (xb_inputs b))" using assms(2) b(1) by (auto simp: filter_empty_conv)
  ultimately show ?thesis using b(3) unfolding b(1) prepared_def within_budget_def Let_def by auto
qed

section \<open>Witnesses\<close>

definition ex_put :: "nat tool_meta" where
  "ex_put = ex_meta\<lparr>tm_side_effect := True, tm_cacheable := False, tm_requires_approval := True, tm_risk_level := ''high'', tm_max_calls := Some 3\<rparr>"

definition ex_exec :: "(nat, unit) exec_env" where
  "ex_exec = \<lparr>xe_run = ex_run_env InTime,
     xe_call = \<lparr>cl_loads = (\<lambda>s. None), cl_str = (\<lambda>v. []), cl_dumps = concat \<circ> map fst\<rparr>, xe_ask = ex_ask,
     xe_approval = \<lparr>ae_json = (\<lambda>a. []), ae_sha256 = (\<lambda>s. ''abc''), ae_now = ''now''\<rparr>,
     xe_ledger = \<lparr>ge_outcome = ex_outcome_env, ge_dumps = (\<lambda>a. []), ge_urlsplit = (\<lambda>s. None), ge_urlunsplit = up_path\<rparr>,
     xe_hash = (\<lambda>v. []), xe_json = (\<lambda>v. []),
     xe_tools = [(''put'', \<lambda>a w. (Inr (PStr ''ok''), w + 1)), (''get'', \<lambda>a w. (Inr (PStr ''value''), w))],
     xe_metas = [(''put'', ex_put), (''get'', ex_meta)],
     xe_context = ex_context ''ann'', xe_route = None, xe_extensions = None, xe_middleware = None, xe_agent = ''focus_agent'',
     xe_thread = ''t'', xe_branch = None, xe_async = False, xe_approval_ttl = 60, xe_now = 0, xe_workers = 4\<rparr>"

definition ex_call :: "string \<Rightarrow> string \<Rightarrow> tool_args" where
  "ex_call i name = [(''id'', PStr i), (''name'', PStr name), (''args'', PDict [(i, PNone)])]"

definition ex_node :: "tool_args list \<Rightarrow> node_input" where
  "ex_node calls = \<lparr>ni_history = [Human_msg], ni_calls = calls, ni_outcomes = []\<rparr>"

definition ex_rules :: "permission_rule list" where
  "ex_rules = [\<lparr>pr_action = ALLOW, pr_tool = ''*'', pr_agent = ''*'', pr_priority = 0, pr_reason = None\<rparr>]"

definition ex_node_state :: "int \<Rightarrow> nat node_state" where
  "ex_node_state threshold = \<lparr>ns_runtime = ex_state None, ns_permissions = Some (permission_manager_init ex_rules threshold), ns_queue = None\<rparr>"

definition ex_approve :: "string \<Rightarrow> bool \<Rightarrow> pyval" where
  "ex_approve i yes = PDict [(''kind'', PStr ''tool_approval''), (''interrupt_id'', PStr (''tool-approval:'' @ i @ '':abc'')),
     (''tool_call_id'', PStr i), (''approved'', PBool yes)]"

definition ex_calls :: "tool_args list" where
  "ex_calls = [ex_call ''a'' ''get'', ex_call ''b'' ''put'', ex_call ''c'' ''put'']"

text \<open>The approval of \<open>b\<close> was given, that of \<open>c\<close> denied.\<close>

definition ex_out :: "nat node_output" where
  "ex_out = (case tool_executor ex_exec (ex_node ex_calls) ([], []) [ex_approve ''b'' True, ex_approve ''c'' False] (ex_node_state 3) of
     Node_done out \<Rightarrow> out | Node_suspended r s \<Rightarrow> \<lparr>no_messages = [], no_records = [], no_outcomes = [], no_state = s\<rparr>)"

definition is_done :: "'w node_result \<Rightarrow> bool" where
  "is_done r = (case r of Node_done out \<Rightarrow> True | Node_suspended q s \<Rightarrow> False)"

lemma ex_out_done: "tool_executor ex_exec (ex_node ex_calls) ([], []) [ex_approve ''b'' True, ex_approve ''c'' False] (ex_node_state 3) = Node_done ex_out"
proof -
  have "is_done (tool_executor ex_exec (ex_node ex_calls) ([], []) [ex_approve ''b'' True, ex_approve ''c'' False] (ex_node_state 3))"
    by code_simp
  then show ?thesis
    by (cases "tool_executor ex_exec (ex_node ex_calls) ([], []) [ex_approve ''b'' True, ex_approve ''c'' False] (ex_node_state 3)")
      (simp_all add: is_done_def ex_out_def)
qed



lemma every_call_answered_witness:
  "map tg_call_id (no_messages ex_out) = [''a'', ''b'', ''c''] \<and> map tg_status (no_messages ex_out) = [''success'', ''success'', ''error'']"
proof
  have "map (\<lambda>i. call_id_of (xe_call ex_exec) i (ni_calls (ex_node ex_calls) ! i)) [0..<length (ni_calls (ex_node ex_calls))] = [''a'', ''b'', ''c'']"
    by code_simp
  then show "map tg_call_id (no_messages ex_out) = [''a'', ''b'', ''c'']" using every_call_answered [OF ex_out_done] by (rule subst)
qed code_simp

lemma ex_second_input: "inputs_of ex_exec (ex_node ex_calls) [ex_approve ''b'' True, ex_approve ''c'' False] (ex_node_state 3) \<noteq> [] \<and>
    tm_side_effect (ti_runtime (last (inputs_of ex_exec (ex_node ex_calls) [ex_approve ''b'' True, ex_approve ''c'' False] (ex_node_state 3)))) \<and>
    tm_retry_safe (ti_runtime (last (inputs_of ex_exec (ex_node ex_calls) [ex_approve ''b'' True, ex_approve ''c'' False] (ex_node_state 3)))) = False \<and>
    ti_index (last (inputs_of ex_exec (ex_node ex_calls) [ex_approve ''b'' True, ex_approve ''c'' False] (ex_node_state 3))) = 1"
  by code_simp

lemma side_effects_not_repeated_witness: "invocations 1 (events_of (ex_node_state 3) ex_out) \<le> 1"
proof -
  let ?item = "last (inputs_of ex_exec (ex_node ex_calls) [ex_approve ''b'' True, ex_approve ''c'' False] (ex_node_state 3))"
  have "?item \<in> set (inputs_of ex_exec (ex_node ex_calls) [ex_approve ''b'' True, ex_approve ''c'' False] (ex_node_state 3))"
    using ex_second_input by (intro last_in_set) blast
  from side_effects_not_repeated [OF ex_out_done this] show ?thesis
    using ex_second_input by (simp add: retryable_side_effect_allowed_def)
qed

section \<open>Behaviour that callers do not expect\<close>

text \<open>The error of a denied call's outcome is the risk level of its tool: its runtime mapping holds no other reason.\<close>

lemma denied_reason_is_risk_level:
  "map (\<lambda>x. (oc_status x, oc_error x)) (no_outcomes ex_out) = [(Tool_succeeded, []), (Tool_succeeded, []), (Tool_blocked, ''high'')]"
  by code_simp

text \<open>A resumed node checks the permission of each call again, and the check counts it. With the default threshold of
  three, a question asked twice in a thread is refused as a doom loop when the second answer comes.\<close>

definition ex_question_call :: tool_args where
  "ex_question_call = [(''id'', PStr ''c''), (''name'', PStr ''ask_user_question''),
     (''args'', PDict [(''questions'', PList [ex_raw_question ''q''])])]"

definition ex_ask_exec :: "(nat, unit) exec_env" where
  "ex_ask_exec = ex_exec\<lparr>xe_tools := [(''ask_user_question'', \<lambda>a w. (Inr PNone, w))], xe_metas := [(''ask_user_question'', ex_meta)]\<rparr>"

definition ex_answer_value :: pyval where
  "ex_answer_value = PDict [(''kind'', PStr ''ask_user_question''), (''interrupt_id'', PStr ''ask-user-question:c:abc''), (''tool_call_id'', PStr ''c''),
     (''answers'', PList [ex_answer ''q''])]"

definition state_after :: "'w node_result \<Rightarrow> 'w node_state" where
  "state_after r = (case r of Node_suspended q s \<Rightarrow> s | Node_done out \<Rightarrow> no_state out)"

definition statuses_after :: "'w node_result \<Rightarrow> string list" where
  "statuses_after r = (case r of Node_suspended q s \<Rightarrow> [''waiting''] | Node_done out \<Rightarrow> map tg_status (no_messages out))"

definition ex_ask_run :: "pyval list \<Rightarrow> nat node_state \<Rightarrow> nat node_result" where
  "ex_ask_run resumes st = tool_executor ex_ask_exec (ex_node [ex_question_call]) ([], []) resumes st"

lemma repeated_question_refused:
  "let r1 = ex_ask_run [] (ex_node_state 3); r2 = ex_ask_run [ex_answer_value] (state_after r1);
       r3 = ex_ask_run [] (state_after r2); r4 = ex_ask_run [ex_answer_value] (state_after r3)
   in map statuses_after [r1, r2, r3, r4] = [[''waiting''], [''success''], [''waiting''], [''error'']]"
  by code_simp

text \<open>In asynchronous mode a resumed node submits its requests again: a decision made meanwhile is lost.\<close>

lemma request_approval_reopens:
  assumes "xb_queue b = Some q"
  shows "\<exists>q' r. xb_queue (request_approval X item b) = Some q' \<and>
    map_of (requests q') (build_tool_approval_interrupt_id (xe_approval X) item) = Some r \<and> ar_status r = PENDING"
  using assms by (simp add: request_approval_def answer_call_def add_record_def approval_submission_def submit_pending_def store_request_def
      make_request_def Let_def)

text \<open>The doom loop lifts a ban. A call that the rules deny is refused three times; the fourth time the loop answers \<open>ASK\<close>
  before the rules are consulted, the approval of a tool that requires one is asked for, and given it the denied tool runs.\<close>

definition ex_banned :: "nat node_state" where
  "ex_banned = (ex_node_state 3)\<lparr>ns_permissions := Some (permission_manager_init
     [\<lparr>pr_action = DENY, pr_tool = ''put'', pr_agent = ''*'', pr_priority = 0, pr_reason = None\<rparr>] 3)\<rparr>"

definition ex_put_run :: "pyval list \<Rightarrow> nat node_state \<Rightarrow> nat node_result" where
  "ex_put_run resumes st = tool_executor ex_exec (ex_node [ex_call ''b'' ''put'']) ([], []) resumes st"

lemma doom_loop_lifts_ban:
  "let r1 = ex_put_run [] ex_banned; r2 = ex_put_run [] (state_after r1); r3 = ex_put_run [] (state_after r2);
       r4 = ex_put_run [] (state_after r3); r5 = ex_put_run [ex_approve ''b'' True] (state_after r4)
   in map statuses_after [r1, r2, r3, r4, r5] = [[''error''], [''error''], [''error''], [''waiting''], [''success'']] \<and>
      map (rt_world \<circ> ns_runtime \<circ> state_after) [r3, r4, r5] = [0, 0, 1]"
  by code_simp

end
