(* ===== verification/Effects.thy ===== *)
theory Effects
  imports Prelude
begin

text \<open>
  Operations that change a state and may raise: a value of type \<open>'s \<Rightarrow> ('e + 'a) \<times> 's\<close>.
  The state reached before an exception stays, as in Python. The rules of \<open>ensures\<close> (a Hoare
  triple with a condition for the normal result and one for the exceptions) are shared by the
  theories of accounts and authentication.
\<close>

type_synonym ('s, 'e, 'a) effect = "'s \<Rightarrow> ('e + 'a) \<times> 's"

definition give :: "'a \<Rightarrow> ('s, 'e, 'a) effect" where
  "give x s = (Inr x, s)"

definition raising :: "'e \<Rightarrow> ('s, 'e, 'a) effect" where
  "raising e s = (Inl e, s)"

definition and_then :: "('s, 'e, 'a) effect \<Rightarrow> ('a \<Rightarrow> ('s, 'e, 'b) effect) \<Rightarrow> ('s, 'e, 'b) effect" where
  "and_then m f s = (case m s of (Inl e, s') \<Rightarrow> (Inl e, s') | (Inr x, s') \<Rightarrow> f x s')"

text \<open>\<open>try: m except: h\<close>; the handler decides what it catches.\<close>

definition try_except :: "('s, 'e, 'a) effect \<Rightarrow> ('e \<Rightarrow> ('s, 'e, 'a) effect) \<Rightarrow> ('s, 'e, 'a) effect" where
  "try_except m h s = (case m s of (Inl e, s') \<Rightarrow> h e s' | (Inr x, s') \<Rightarrow> (Inr x, s'))"

definition reading :: "('s \<Rightarrow> 'a) \<Rightarrow> ('s, 'e, 'a) effect" where
  "reading f s = (Inr (f s), s)"

definition changing :: "('s \<Rightarrow> 's) \<Rightarrow> ('s, 'e, unit) effect" where
  "changing f s = (Inr (), f s)"

text \<open>A loop over the elements of a list; the first exception ends it.\<close>

fun for_each :: "('x \<Rightarrow> ('s, 'e, 'b) effect) \<Rightarrow> 'x list \<Rightarrow> ('s, 'e, unit) effect" where
  "for_each f [] = give ()"
| "for_each f (x # xs) = and_then (f x) (\<lambda>_. for_each f xs)"

lemmas effect_defs = give_def raising_def and_then_def try_except_def reading_def changing_def

lemma and_then_Inr:
  "and_then m f s = (Inr y, s') \<longleftrightarrow> (\<exists>x s1. m s = (Inr x, s1) \<and> f x s1 = (Inr y, s'))"
  by (auto simp: and_then_def split: prod.splits sum.splits)

lemma and_then_Inl:
  "and_then m f s = (Inl e, s') \<longleftrightarrow>
    m s = (Inl e, s') \<or> (\<exists>x s1. m s = (Inr x, s1) \<and> f x s1 = (Inl e, s'))"
  by (auto simp: and_then_def split: prod.splits sum.splits)

lemma try_except_Inr:
  "try_except m h s = (Inr y, s') \<longleftrightarrow>
    m s = (Inr y, s') \<or> (\<exists>e s1. m s = (Inl e, s1) \<and> h e s1 = (Inr y, s'))"
  by (auto simp: try_except_def split: prod.splits sum.splits)

lemma give_iff [simp]: "give x s = (r, s') \<longleftrightarrow> r = Inr x \<and> s' = s"
  by (auto simp: give_def)

lemma raising_iff [simp]: "raising e s = (r, s') \<longleftrightarrow> r = Inl e \<and> s' = s"
  by (auto simp: raising_def)

lemma reading_iff [simp]: "reading f s = (r, s') \<longleftrightarrow> r = Inr (f s) \<and> s' = s"
  by (auto simp: reading_def)

lemma changing_iff [simp]: "changing f s = (r, s') \<longleftrightarrow> r = Inr () \<and> s' = f s"
  by (auto simp: changing_def)

section \<open>Hoare triples\<close>

named_theorems triples

definition ensures :: "('s \<Rightarrow> bool) \<Rightarrow> ('s, 'e, 'a) effect \<Rightarrow> ('a \<Rightarrow> 's \<Rightarrow> bool) \<Rightarrow> ('s \<Rightarrow> bool) \<Rightarrow> bool" where
  "ensures P m Q E \<longleftrightarrow> (\<forall>s r s'. P s \<longrightarrow> m s = (r, s') \<longrightarrow>
     (case r of Inl e \<Rightarrow> E s' | Inr x \<Rightarrow> Q x s'))"

abbreviation keeps :: "('s \<Rightarrow> bool) \<Rightarrow> ('s, 'e, 'a) effect \<Rightarrow> bool" where
  "keeps I m \<equiv> ensures I m (\<lambda>_. I) I"

lemma ensuresI:
  assumes "\<And>s x s'. P s \<Longrightarrow> m s = (Inr x, s') \<Longrightarrow> Q x s'" "\<And>s e s'. P s \<Longrightarrow> m s = (Inl e, s') \<Longrightarrow> E s'"
  shows "ensures P m Q E"
  unfolding ensures_def using assms by (auto split: sum.splits)

lemma ensures_Inr: "ensures P m Q E \<Longrightarrow> P s \<Longrightarrow> m s = (Inr x, s') \<Longrightarrow> Q x s'"
  unfolding ensures_def by fastforce

lemma ensures_Inl: "ensures P m Q E \<Longrightarrow> P s \<Longrightarrow> m s = (Inl e, s') \<Longrightarrow> E s'"
  unfolding ensures_def by fastforce

lemma keeps_state: "keeps I m \<Longrightarrow> I s \<Longrightarrow> I (snd (m s))"
  by (cases "m s"; cases "fst (m s)") (auto dest: ensures_Inr ensures_Inl)

lemma ensures_give [triples]: "(\<And>s. P s \<Longrightarrow> Q x s) \<Longrightarrow> ensures P (give x) Q E"
  by (rule ensuresI) auto

lemma ensures_raising [triples]: "(\<And>s. P s \<Longrightarrow> E s) \<Longrightarrow> ensures P (raising e) Q E"
  by (rule ensuresI) auto

lemma ensures_reading [triples]: "(\<And>s. P s \<Longrightarrow> Q (f s) s) \<Longrightarrow> ensures P (reading f) Q E"
  by (rule ensuresI) auto

lemma ensures_changing [triples]: "(\<And>s. P s \<Longrightarrow> Q () (f s)) \<Longrightarrow> ensures P (changing f) Q E"
  by (rule ensuresI) auto

lemma ensures_and_then [triples]:
  assumes "ensures P m Q E" "\<And>x. ensures (Q x) (f x) R E"
  shows "ensures P (and_then m f) R E"
proof (rule ensuresI)
  fix s y s' assume "P s" "and_then m f s = (Inr y, s')"
  then show "R y s'" using assms by (auto simp: and_then_Inr dest: ensures_Inr)
next
  fix s e s' assume "P s" "and_then m f s = (Inl e, s')"
  then show "E s'" using assms unfolding and_then_Inl by (auto dest: ensures_Inr ensures_Inl)
qed

lemma ensures_try [triples]:
  assumes "ensures P m Q F" "\<And>e. ensures F (h e) Q E"
  shows "ensures P (try_except m h) Q E"
proof (rule ensuresI)
  fix s y s' assume "P s" "try_except m h s = (Inr y, s')"
  then show "Q y s'" using assms unfolding try_except_Inr by (auto dest: ensures_Inr ensures_Inl)
next
  fix s e s' assume p: "P s" and t: "try_except m h s = (Inl e, s')"
  then obtain e1 s1 where "m s = (Inl e1, s1)" "h e1 s1 = (Inl e, s')"
    by (auto simp: try_except_def split: prod.splits sum.splits)
  then show "E s'" using assms p by (auto dest: ensures_Inl)
qed

lemma ensures_if [triples]:
  "(b \<Longrightarrow> ensures P m Q E) \<Longrightarrow> (\<not> b \<Longrightarrow> ensures P n Q E) \<Longrightarrow> ensures P (if b then m else n) Q E"
  by simp

lemma ensures_weaken:
  assumes "ensures P m Q E" "\<And>s. P' s \<Longrightarrow> P s" "\<And>x s. Q x s \<Longrightarrow> Q' x s" "\<And>s. E s \<Longrightarrow> E' s"
  shows "ensures P' m Q' E'"
proof (rule ensuresI)
  fix s x s' assume "P' s" "m s = (Inr x, s')"
  then show "Q' x s'" by (intro assms(3) ensures_Inr [OF assms(1)] assms(2))
next
  fix s e s' assume "P' s" "m s = (Inl e, s')"
  then show "E' s'" by (intro assms(4) ensures_Inl [OF assms(1)] assms(2))
qed

lemma keeps_for_each [triples]: "(\<And>x. keeps I (f x)) \<Longrightarrow> keeps I (for_each f xs)"
  by (induction xs) (auto intro!: ensures_give ensures_and_then)

end
