(* ===== verification/UserAccounts.thy ===== *)
theory UserAccounts
  imports Permissions Effects Values
begin

text \<open>
  User accounts: the data of \<open>core/users.py\<close>, the in-memory repository of
  \<open>repositories/user_repository.py\<close> (users, sessions, audit events) and the administration
  service of \<open>services/users.py\<close>.

  Times are the ISO strings the code stores; the clock readings of an operation are the
  argument \<open>clk\<close> (its first reading is \<open>clk 0\<close>), the id \<open>uuid4\<close> draws is \<open>eid\<close>. The in-memory
  repository takes its lock for a whole operation, so operations run one after another.
\<close>

section \<open>Data\<close>

datatype account_error =
    ValueErr string
  | KeyErr string
  | LastActiveAdminError string
  | UserNotFoundError string
  | UserConflictError string
  | UserInactiveError string
  | LastAdminError string
  | InvalidCredentialsError string
  | AccountLockedError string
  | UsernameTakenError string
  | WeakPasswordError string
  | PasswordMismatchError string
  | SessionRevokedError string
  | AuthError string
  | AttributeErr string
  | TypeErr string

datatype user_status = ACTIVE | DISABLED | INVITED | DELETED

definition status_value :: "user_status \<Rightarrow> string" where
  "status_value st = (case st of ACTIVE \<Rightarrow> ''active'' | DISABLED \<Rightarrow> ''disabled''
     | INVITED \<Rightarrow> ''invited'' | DELETED \<Rightarrow> ''deleted'')"

text \<open>\<open>UserStatus(text)\<close>\<close>

definition parse_status :: "string \<Rightarrow> user_status option" where
  "parse_status t = find (\<lambda>st. status_value st = t) [ACTIVE, DISABLED, INVITED, DELETED]"

record user =
  u_id :: string
  u_username :: "string option"
  u_display_name :: "string option"
  u_email :: "string option"
  u_tenant :: "string option"
  u_status :: user_status
  u_roles :: "string list"
  u_password_hash :: "string option"
  u_auth_provider :: string
  u_external_subject :: "string option"
  u_failed_login_count :: int
  u_locked_until :: "string option"
  u_created_at :: string
  u_updated_at :: string
  u_last_seen_at :: "string option"
  u_last_login_at :: "string option"
  u_password_updated_at :: "string option"
  u_metadata :: "(string, pyval) dict"

record user_session =
  s_id :: string
  s_user :: string
  s_token_hash :: string
  s_created_at :: string
  s_updated_at :: string
  s_expires_at :: string
  s_revoked_at :: "string option"
  s_last_seen_at :: "string option"
  s_user_agent :: "string option"
  s_ip_address :: "string option"
  s_metadata :: "(string, pyval) dict"

datatype audit_decision = ALLOW_DECISION | DENY_DECISION | SUCCESS | FAILURE

record audit_event =
  e_id :: string
  e_actor :: "string option"
  e_tenant :: "string option"
  e_action :: string
  e_resource_type :: string
  e_resource :: "string option"
  e_decision :: audit_decision
  e_reason :: "string option"
  e_metadata :: "(string, pyval) dict"
  e_request :: "string option"
  e_created_at :: string

text \<open>The bearer of a request, read from the claims of a token (\<open>security/tokens.py\<close>).\<close>

record auth_principal =
  p_user :: string
  p_tenant :: pyval
  p_scopes :: "string list"
  p_claims :: "(string, pyval) dict"

record user_repo =
  r_users :: "(string, user) dict"
  r_sessions :: "(string, user_session) dict"
  r_audit :: "audit_event list"

definition empty_repo :: user_repo where
  "empty_repo = \<lparr>r_users = [], r_sessions = [], r_audit = []\<rparr>"

type_synonym 'a on_accounts = "(user_repo, account_error, 'a) effect"

section \<open>The repository: users\<close>

definition get_user_or_none :: "string \<Rightarrow> user_repo \<Rightarrow> user option" where
  "get_user_or_none uid s = map_of (r_users s) uid"

definition repo_get_user :: "string \<Rightarrow> user on_accounts" where
  "repo_get_user uid s = (case get_user_or_none uid s of
     None \<Rightarrow> raising (KeyErr (''Unknown user: '' @ uid)) s
   | Some u \<Rightarrow> give u s)"

definition named :: "string \<Rightarrow> user \<Rightarrow> bool" where
  "named n u = (case u_username u of None \<Rightarrow> False | Some m \<Rightarrow> py_lower m = n)"

definition get_user_by_username :: "string \<Rightarrow> user_repo \<Rightarrow> user option" where
  "get_user_by_username name s = find (named (py_lower name)) (vals (r_users s))"

definition or_none :: "string option \<Rightarrow> string" where
  "or_none v = (case v of None \<Rightarrow> ''None'' | Some t \<Rightarrow> t)"

definition put_user :: "user \<Rightarrow> user_repo \<Rightarrow> user_repo" where
  "put_user u s = s\<lparr>r_users := AList.update (u_id u) u (r_users s)\<rparr>"

definition repo_create_user :: "user \<Rightarrow> user on_accounts" where
  "repo_create_user u s =
    (if get_user_or_none (u_id u) s \<noteq> None
     then raising (ValueErr (''User already exists: '' @ u_id u)) s
     else if or_empty (u_username u) \<noteq> [] \<and> get_user_by_username (or_empty (u_username u)) s \<noteq> None
     then raising (ValueErr (''Username already exists: '' @ or_none (u_username u))) s
     else give u (put_user u s))"

definition save_user :: "user \<Rightarrow> user on_accounts" where
  "save_user u s =
    (if get_user_or_none (u_id u) s = None
     then raising (KeyErr (''Unknown user: '' @ u_id u)) s
     else case get_user_by_username (or_empty (u_username u)) s of
       Some existing \<Rightarrow>
         if u_id existing \<noteq> u_id u
         then raising (ValueErr (''Username already exists: '' @ or_none (u_username u))) s
         else give u (put_user u s)
     | None \<Rightarrow> give u (put_user u s))"

definition is_active_admin :: "user \<Rightarrow> bool" where
  "is_active_admin u \<longleftrightarrow> status_value (u_status u) = ''active'' \<and> ''admin'' \<in> set (u_roles u)"

definition count_active_admins :: "user_repo \<Rightarrow> nat" where
  "count_active_admins s = length (filter is_active_admin (vals (r_users s)))"

definition removes_active_admin :: "user \<Rightarrow> user \<Rightarrow> bool" where
  "removes_active_admin current updated \<longleftrightarrow> is_active_admin current \<and> \<not> is_active_admin updated"

definition save_user_preserving_last_active_admin :: "user \<Rightarrow> user on_accounts" where
  "save_user_preserving_last_active_admin u =
    and_then (repo_get_user (u_id u)) (\<lambda>current.
    and_then (reading count_active_admins) (\<lambda>n.
      if removes_active_admin current u \<and> n \<le> 1
      then raising (LastActiveAdminError ''Cannot remove the last active admin.'')
      else save_user u))"

record user_filters =
  f_status :: "string option"
  f_role :: "string option"
  f_tenant :: "string option"
  f_query :: "string option"

definition filter_users :: "user list \<Rightarrow> user_filters option \<Rightarrow> user list" where
  "filter_users items fs = (case fs of None \<Rightarrow> items | Some f \<Rightarrow>
     let a = (if given (f_status f) then filter (\<lambda>u. status_value (u_status u) = or_empty (f_status f)) items else items);
         b = (if given (f_role f) then filter (\<lambda>u. or_empty (f_role f) \<in> set (u_roles u)) a else a);
         c = (if given (f_tenant f) then filter (\<lambda>u. u_tenant u = f_tenant f) b else b);
         q = py_lower (or_empty (f_query f))
     in if given (f_query f) then filter (\<lambda>u. has_infix q (py_lower (u_id u))
             \<or> has_infix q (py_lower (or_empty (u_username u)))
             \<or> has_infix q (py_lower (or_empty (u_display_name u)))
             \<or> has_infix q (py_lower (or_empty (u_email u)))) c
        else c)"

record 'a listing =
  l_items :: "'a list"
  l_count :: nat
  l_limit :: int
  l_offset :: int

definition repo_list_users :: "user_filters option \<Rightarrow> int \<Rightarrow> int \<Rightarrow> user_repo \<Rightarrow> user listing" where
  "repo_list_users fs limit offset s =
    (let items = sort_key_reverse (\<lambda>u. (u_created_at u, u_id u)) (filter_users (vals (r_users s)) fs)
     in \<lparr>l_items = py_slice offset (offset + limit) items, l_count = length items,
         l_limit = limit, l_offset = offset\<rparr>)"

definition repo_ensure_user :: "auth_principal \<Rightarrow> user \<Rightarrow> user on_accounts" where
  "repo_ensure_user p defaults s = (case get_user_or_none (p_user p) s of
     Some existing \<Rightarrow> give existing s
   | None \<Rightarrow> repo_create_user defaults s)"

section \<open>The repository: sessions\<close>

definition put_session :: "string \<Rightarrow> user_session \<Rightarrow> user_repo \<Rightarrow> user_repo" where
  "put_session k x s = s\<lparr>r_sessions := AList.update k x (r_sessions s)\<rparr>"

definition create_session :: "user_session \<Rightarrow> user_session on_accounts" where
  "create_session x s =
    (if map_of (r_sessions s) (s_id x) \<noteq> None
     then raising (ValueErr (''User session already exists: '' @ s_id x)) s
     else give x (put_session (s_id x) x s))"

definition save_session :: "user_session \<Rightarrow> user_session on_accounts" where
  "save_session x s =
    (if map_of (r_sessions s) (s_id x) = None
     then raising (KeyErr (''Unknown user session: '' @ s_id x)) s
     else give x (put_session (s_id x) x s))"

definition get_session :: "string \<Rightarrow> user_session on_accounts" where
  "get_session sid s = (case map_of (r_sessions s) sid of
     None \<Rightarrow> raising (KeyErr (''Unknown user session: '' @ sid)) s
   | Some x \<Rightarrow> give x s)"

definition list_sessions :: "string option \<Rightarrow> bool \<Rightarrow> user_repo \<Rightarrow> user_session list" where
  "list_sessions uid include_revoked s =
    (let a = vals (r_sessions s);
         b = (case uid of None \<Rightarrow> a | Some i \<Rightarrow> filter (\<lambda>x. s_user x = i) a);
         c = (if include_revoked then b else filter (\<lambda>x. s_revoked_at x = None) b)
     in sort_key_reverse (\<lambda>x. (s_created_at x, s_id x)) c)"

definition revoke_session :: "string \<Rightarrow> string \<Rightarrow> user_session on_accounts" where
  "revoke_session sid at_time = and_then (get_session sid) (\<lambda>x.
    (let revoked = x\<lparr>s_revoked_at := Some (if given (s_revoked_at x) then or_empty (s_revoked_at x) else at_time)\<rparr>
     in and_then (changing (put_session sid revoked)) (\<lambda>_. give revoked)))"

definition revoked_by_others :: "string \<Rightarrow> string \<Rightarrow> user_session \<Rightarrow> bool" where
  "revoked_by_others uid current x \<longleftrightarrow> s_user x = uid \<and> s_id x \<noteq> current \<and> s_revoked_at x = None"

definition revoke_other_sessions :: "string \<Rightarrow> string \<Rightarrow> string \<Rightarrow> nat on_accounts" where
  "revoke_other_sessions uid current at_time s =
    (Inr (length (filter (\<lambda>(k, x). revoked_by_others uid current x) (r_sessions s))),
     s\<lparr>r_sessions := map (\<lambda>(k, x). (k, if revoked_by_others uid current x
        then x\<lparr>s_revoked_at := Some at_time\<rparr> else x)) (r_sessions s)\<rparr>)"

section \<open>The repository: audit events\<close>

definition record_audit_event :: "audit_event \<Rightarrow> unit on_accounts" where
  "record_audit_event e = changing (\<lambda>s. s\<lparr>r_audit := r_audit s @ [e]\<rparr>)"

record audit_filters =
  af_actor :: "string option"
  af_type :: "string option"
  af_resource :: "string option"
  af_decision :: "string option"

definition decision_value :: "audit_decision \<Rightarrow> string" where
  "decision_value d = (case d of ALLOW_DECISION \<Rightarrow> ''allow'' | DENY_DECISION \<Rightarrow> ''deny''
     | SUCCESS \<Rightarrow> ''success'' | FAILURE \<Rightarrow> ''failure'')"

definition filter_audit_events :: "audit_event list \<Rightarrow> audit_filters option \<Rightarrow> audit_event list" where
  "filter_audit_events items fs = (case fs of None \<Rightarrow> items | Some f \<Rightarrow>
     let a = (if given (af_actor f) then filter (\<lambda>e. e_actor e = af_actor f) items else items);
         b = (if given (af_type f) then filter (\<lambda>e. e_resource_type e = or_empty (af_type f)) a else a);
         c = (if given (af_resource f) then filter (\<lambda>e. e_resource e = af_resource f) b else b)
     in if given (af_decision f) then filter (\<lambda>e. decision_value (e_decision e) = or_empty (af_decision f)) c else c)"

definition repo_list_audit_events :: "audit_filters option \<Rightarrow> int \<Rightarrow> int \<Rightarrow> user_repo \<Rightarrow> audit_event listing" where
  "repo_list_audit_events fs limit offset s =
    (let items = sort_key_reverse (\<lambda>e. (e_created_at e, e_id e)) (filter_audit_events (r_audit s) fs)
     in \<lparr>l_items = py_slice offset (offset + limit) items, l_count = length items,
         l_limit = limit, l_offset = offset\<rparr>)"

section \<open>The service\<close>

definition normalize_optional_username :: "string option \<Rightarrow> string option" where
  "normalize_optional_username n = (case n of None \<Rightarrow> None
   | Some t \<Rightarrow> let m = py_lower (py_strip t) in if m = [] then None else Some m)"

text \<open>Who acts: nobody, the user of a request context, or a user.\<close>

definition actor_fields :: "user option \<Rightarrow> string option \<times> string option" where
  "actor_fields actor = (case actor of None \<Rightarrow> (None, None) | Some u \<Rightarrow> (Some (u_id u), u_tenant u))"

record audit_entry =
  a_actor :: "user option"
  a_action :: string
  a_resource :: "string option"
  a_decision :: audit_decision
  a_reason :: "string option"
  a_metadata :: "(string, pyval) dict"
  a_request :: "string option"

definition audit :: "string \<Rightarrow> string \<Rightarrow> audit_entry \<Rightarrow> unit on_accounts" where
  "audit eid now a = record_audit_event
    \<lparr>e_id = eid, e_actor = fst (actor_fields (a_actor a)), e_tenant = snd (actor_fields (a_actor a)),
     e_action = a_action a, e_resource_type = ''user'', e_resource = a_resource a,
     e_decision = a_decision a, e_reason = a_reason a, e_metadata = a_metadata a,
     e_request = a_request a, e_created_at = now\<rparr>"

text \<open>What every operation of the service is told about the request.\<close>

record request_info =
  q_actor :: "user option"
  q_request :: "string option"
  q_event_id :: string

definition audit_of :: "request_info \<Rightarrow> string \<Rightarrow> string \<Rightarrow> string \<Rightarrow> audit_decision \<Rightarrow> string option
    \<Rightarrow> (string, pyval) dict \<Rightarrow> unit on_accounts" where
  "audit_of q now action uid d reason meta = audit (q_event_id q) now
    \<lparr>a_actor = q_actor q, a_action = action, a_resource = Some uid, a_decision = d, a_reason = reason,
     a_metadata = meta, a_request = q_request q\<rparr>"

definition require_active :: "user \<Rightarrow> unit on_accounts" where
  "require_active u = (if status_value (u_status u) \<noteq> ''active''
     then raising (UserInactiveError (''User '' @ u_id u @ '' is not active.'')) else give ())"

definition configured_admin :: "bool \<Rightarrow> auth_principal \<Rightarrow> string list \<Rightarrow> bool" where
  "configured_admin auth_enabled p ids \<longleftrightarrow>
    auth_enabled \<and> p_user p \<noteq> ''anonymous'' \<and> p_user p \<in> set ids"

definition default_roles :: "bool \<Rightarrow> auth_principal \<Rightarrow> bool \<Rightarrow> string list \<Rightarrow> user_repo \<Rightarrow> string list" where
  "default_roles auth_enabled p allow_bootstrap ids s =
    (if configured_admin auth_enabled p ids then [''admin'']
     else if allow_bootstrap \<and> auth_enabled \<and> p_user p \<noteq> ''anonymous'' \<and> l_count (repo_list_users None 1 0 s) = 0
     then [''admin''] else [''member''])"

definition claim_text :: "(pyval \<Rightarrow> string) \<Rightarrow> auth_principal \<Rightarrow> string \<Rightarrow> string option" where
  "claim_text str_of p k = (case map_of (p_claims p) k of None \<Rightarrow> None
   | Some v \<Rightarrow> if truthy v then Some (py_str str_of v) else None)"

definition display_name_of :: "(pyval \<Rightarrow> string) \<Rightarrow> auth_principal \<Rightarrow> string option" where
  "display_name_of str_of p = (case claim_text str_of p ''name'' of Some t \<Rightarrow> Some t
   | None \<Rightarrow> (case claim_text str_of p ''preferred_username'' of Some t \<Rightarrow> Some t
   | None \<Rightarrow> claim_text str_of p ''email''))"

definition tenant_of :: "pyval \<Rightarrow> account_error + string option" where
  "tenant_of v = (case v of PNone \<Rightarrow> Inr None | PStr t \<Rightarrow> Inr (Some t)
   | _ \<Rightarrow> Inl (ValueErr ''tenant_id: Input should be a valid string''))"

definition principal_user :: "(pyval \<Rightarrow> string) \<Rightarrow> auth_principal \<Rightarrow> string list \<Rightarrow> string option \<Rightarrow> string option
    \<Rightarrow> (string, pyval) dict \<Rightarrow> string \<Rightarrow> account_error + user" where
  "principal_user str_of p roles name email meta now =
    bind_ok (tenant_of (p_tenant p)) (\<lambda>tenant. Inr
      \<lparr>u_id = p_user p, u_username = None,
       u_display_name = (if given name then name else display_name_of str_of p),
       u_email = (if given email then email else claim_text str_of p ''email''),
       u_tenant = tenant, u_status = ACTIVE, u_roles = roles, u_password_hash = None,
       u_auth_provider = ''jwt'', u_external_subject = Some (p_user p), u_failed_login_count = 0,
       u_locked_until = None, u_created_at = now, u_updated_at = now, u_last_seen_at = Some now,
       u_last_login_at = None, u_password_updated_at = None, u_metadata = meta\<rparr>)"

text \<open>The settings of the service, and what the caller of \<open>ensure_user_from_principal\<close> passes.\<close>

record bootstrap =
  b_auth_enabled :: bool
  b_allow :: bool
  b_admin_ids :: "string list"
  b_display_name :: "string option"
  b_email :: "string option"
  b_metadata :: "(string, pyval) dict"

definition grant_configured_admin :: "bootstrap \<Rightarrow> auth_principal \<Rightarrow> string \<Rightarrow> user \<Rightarrow> user on_accounts" where
  "grant_configured_admin b p now u =
    (if configured_admin (b_auth_enabled b) p (b_admin_ids b) \<and> ''admin'' \<notin> set (normalize_roles (u_roles u))
     then save_user (u\<lparr>u_roles := normalize_roles (u_roles u @ [''admin'']), u_updated_at := now\<rparr>)
     else give u)"

definition touch_last_seen :: "string \<Rightarrow> user \<Rightarrow> user on_accounts" where
  "touch_last_seen now u = (if u_last_seen_at u \<noteq> Some now
     then save_user (u\<lparr>u_last_seen_at := Some now, u_updated_at := now\<rparr>) else give u)"

definition ensure_user_from_principal :: "(pyval \<Rightarrow> string) \<Rightarrow> bootstrap \<Rightarrow> auth_principal \<Rightarrow> string \<Rightarrow> user on_accounts" where
  "ensure_user_from_principal str_of b p now =
    and_then (reading (default_roles (b_auth_enabled b) p (b_allow b) (b_admin_ids b))) (\<lambda>roles.
      case principal_user str_of p roles (b_display_name b) (b_email b) (b_metadata b) now of
        Inl e \<Rightarrow> raising e
      | Inr defaults \<Rightarrow>
          and_then (repo_ensure_user p defaults) (\<lambda>u.
          and_then (grant_configured_admin b p now u) (\<lambda>u1.
          and_then (require_active u1) (\<lambda>_. touch_last_seen now u1))))"

definition authorize_principal :: "(pyval \<Rightarrow> string) \<Rightarrow> bootstrap \<Rightarrow> auth_principal \<Rightarrow> string \<Rightarrow> user on_accounts" where
  "authorize_principal str_of b p now =
    and_then (reading (get_user_or_none (p_user p))) (\<lambda>u.
      let wants_role = configured_admin (b_auth_enabled b) p (b_admin_ids b) \<and>
        ''admin'' \<notin> set (normalize_roles (case u of Some v \<Rightarrow> u_roles v | None \<Rightarrow> []))
      in case u of
        None \<Rightarrow> ensure_user_from_principal str_of
          (b\<lparr>b_display_name := None, b_email := None, b_metadata := []\<rparr>) p now
      | Some v \<Rightarrow> if wants_role then ensure_user_from_principal str_of
            (b\<lparr>b_display_name := None, b_email := None, b_metadata := []\<rparr>) p now
          else and_then (require_active v) (\<lambda>_. give v))"

definition service_get_user :: "string \<Rightarrow> user on_accounts" where
  "service_get_user uid = try_except (repo_get_user uid)
    (\<lambda>e. case e of KeyErr m \<Rightarrow> raising (UserNotFoundError (''Unknown user: '' @ uid)) | _ \<Rightarrow> raising e)"

definition bounded_limit :: "int \<Rightarrow> int" where
  "bounded_limit limit = min (max limit 0) 200"

definition service_list_users :: "user_filters option \<Rightarrow> int \<Rightarrow> int \<Rightarrow> user_repo \<Rightarrow> user listing" where
  "service_list_users fs limit offset = repo_list_users fs (bounded_limit limit) (max offset 0)"

definition service_list_audit_events :: "audit_filters option \<Rightarrow> int \<Rightarrow> int \<Rightarrow> user_repo \<Rightarrow> audit_event listing" where
  "service_list_audit_events fs limit offset = repo_list_audit_events fs (bounded_limit limit) (max offset 0)"

record new_user =
  n_id :: string
  n_username :: "string option"
  n_display_name :: "string option"
  n_email :: "string option"
  n_tenant :: "string option"
  n_status :: string
  n_roles :: "string list"
  n_metadata :: "(string, pyval) dict"

definition created_user :: "new_user \<Rightarrow> user_status \<Rightarrow> string \<Rightarrow> user" where
  "created_user n st now =
    (let roles = normalize_roles (if n_roles n = [] then [''member''] else n_roles n)
     in \<lparr>u_id = n_id n, u_username = normalize_optional_username (n_username n),
         u_display_name = n_display_name n, u_email = n_email n, u_tenant = n_tenant n, u_status = st,
         u_roles = (if roles = [] then [''member''] else roles), u_password_hash = None,
         u_auth_provider = ''local'', u_external_subject = None, u_failed_login_count = 0,
         u_locked_until = None, u_created_at = now, u_updated_at = now, u_last_seen_at = None,
         u_last_login_at = None, u_password_updated_at = None, u_metadata = n_metadata n\<rparr>)"

definition is_value_error :: "account_error \<Rightarrow> bool" where
  "is_value_error e = (case e of KeyErr m \<Rightarrow> False | AttributeErr m \<Rightarrow> False | TypeErr m \<Rightarrow> False | _ \<Rightarrow> True)"

definition role_list :: "string list \<Rightarrow> pyval" where
  "role_list roles = PList (map PStr roles)"

definition service_create_user :: "request_info \<Rightarrow> new_user \<Rightarrow> (nat \<Rightarrow> string) \<Rightarrow> user on_accounts" where
  "service_create_user q n clk = (case parse_status (n_status n) of
     None \<Rightarrow> raising (ValueErr (n_status n @ '' is not a valid UserStatus''))
   | Some st \<Rightarrow>
       and_then (try_except (repo_create_user (created_user n st (clk 0)))
         (\<lambda>e. if is_value_error e
              then and_then (audit_of q (clk 1) ''users.create'' (n_id n) FAILURE (Some ''user_already_exists'') [])
                (\<lambda>_. raising (UserConflictError (''User already exists: '' @ n_id n)))
              else raising e)) (\<lambda>created.
       and_then (audit_of q (clk 1) ''users.create'' (n_id n) SUCCESS None
           [(''roles'', role_list (u_roles created)), (''status'', PStr (status_value (u_status created)))])
         (\<lambda>_. give created)))"

text \<open>The fields a caller may change; any other key of the mapping is \<open>Other_field\<close>.\<close>

datatype user_update =
    Set_username "string option"
  | Set_display_name "string option"
  | Set_email "string option"
  | Set_tenant "string option"
  | Set_metadata "(string, pyval) dict option"
  | Other_field string pyval

definition field_name :: "user_update \<Rightarrow> string" where
  "field_name x = (case x of Set_username v \<Rightarrow> ''username'' | Set_display_name v \<Rightarrow> ''display_name''
   | Set_email v \<Rightarrow> ''email'' | Set_tenant v \<Rightarrow> ''tenant_id'' | Set_metadata v \<Rightarrow> ''metadata''
   | Other_field k v \<Rightarrow> k)"

definition is_allowed_update :: "user_update \<Rightarrow> bool" where
  "is_allowed_update x = (case x of Other_field k v \<Rightarrow> False | _ \<Rightarrow> True)"

definition apply_update :: "user_update \<Rightarrow> user \<Rightarrow> user" where
  "apply_update x u = (case x of
     Set_username v \<Rightarrow> u\<lparr>u_username := normalize_optional_username v\<rparr>
   | Set_display_name v \<Rightarrow> u\<lparr>u_display_name := v\<rparr>
   | Set_email v \<Rightarrow> u\<lparr>u_email := v\<rparr>
   | Set_tenant v \<Rightarrow> u\<lparr>u_tenant := v\<rparr>
   | Set_metadata v \<Rightarrow> u\<lparr>u_metadata := (case v of None \<Rightarrow> [] | Some d \<Rightarrow> d)\<rparr>
   | Other_field k v \<Rightarrow> u)"

definition update_user :: "request_info \<Rightarrow> string \<Rightarrow> user_update list \<Rightarrow> (nat \<Rightarrow> string) \<Rightarrow> user on_accounts" where
  "update_user q uid updates clk = and_then (service_get_user uid) (\<lambda>u.
    (let allowed = filter is_allowed_update updates
     in if allowed = [] then give u
        else and_then (try_except (save_user ((fold apply_update allowed u)\<lparr>u_updated_at := clk 0\<rparr>))
          (\<lambda>e. if is_value_error e
               then and_then (audit_of q (clk 1) ''users.update'' uid FAILURE (Some ''user_conflict'') [])
                 (\<lambda>_. raising (UserConflictError (''User update conflicts with an existing user: '' @ uid)))
               else raising e)) (\<lambda>saved.
          and_then (audit_of q (clk 1) ''users.update'' uid SUCCESS None
              [(''fields'', role_list (sort (map field_name allowed)))])
            (\<lambda>_. give saved))))"

definition audit_last_admin_denial :: "request_info \<Rightarrow> string \<Rightarrow> string \<Rightarrow> string \<Rightarrow> string \<Rightarrow> unit on_accounts" where
  "audit_last_admin_denial q now action uid reason = audit_of q now action uid DENY_DECISION (Some reason) []"

definition revoke_user_sessions :: "string \<Rightarrow> string \<Rightarrow> unit on_accounts" where
  "revoke_user_sessions uid at_time =
    and_then (reading (list_sessions (Some uid) False)) (\<lambda>xs.
      for_each (\<lambda>x. revoke_session (s_id x) at_time) xs)"

definition save_guarded :: "request_info \<Rightarrow> string \<Rightarrow> string \<Rightarrow> string \<Rightarrow> string \<Rightarrow> string \<Rightarrow> user \<Rightarrow> user on_accounts" where
  "save_guarded q now action uid reason msg u = try_except (save_user_preserving_last_active_admin u)
    (\<lambda>e. case e of LastActiveAdminError m \<Rightarrow>
        and_then (audit_last_admin_denial q now action uid reason) (\<lambda>_. raising (LastAdminError msg))
      | _ \<Rightarrow> raising e)"

definition update_user_status :: "request_info \<Rightarrow> string \<Rightarrow> string \<Rightarrow> string option \<Rightarrow> (nat \<Rightarrow> string) \<Rightarrow> user on_accounts" where
  "update_user_status q uid status reason clk = and_then (service_get_user uid) (\<lambda>u.
    case parse_status status of
      None \<Rightarrow> raising (ValueErr (status @ '' is not a valid UserStatus''))
    | Some next_status \<Rightarrow>
        and_then (save_guarded q (clk 1) ''users.status'' uid ''cannot_disable_last_active_admin''
            ''Cannot disable the last active admin user.'' (u\<lparr>u_status := next_status, u_updated_at := clk 0\<rparr>)) (\<lambda>saved.
        and_then (if next_status \<noteq> ACTIVE then revoke_user_sessions uid (u_updated_at saved) else give ()) (\<lambda>_.
        and_then (audit_of q (clk 1) ''users.status'' uid SUCCESS reason [(''status'', PStr (status_value next_status))])
          (\<lambda>_. give saved))))"

definition update_user_roles :: "request_info \<Rightarrow> string \<Rightarrow> string list \<Rightarrow> string option \<Rightarrow> (nat \<Rightarrow> string) \<Rightarrow> user on_accounts" where
  "update_user_roles q uid roles reason clk = and_then (service_get_user uid) (\<lambda>u.
    (let normalized = normalize_roles roles
     in and_then (save_guarded q (clk 1) ''users.roles'' uid ''cannot_remove_last_active_admin_role''
            ''Cannot remove the last active admin role.'' (u\<lparr>u_roles := normalized, u_updated_at := clk 0\<rparr>)) (\<lambda>saved.
        and_then (audit_of q (clk 1) ''users.roles'' uid SUCCESS reason [(''roles'', role_list normalized)])
          (\<lambda>_. give saved))))"

end
