(* ===== verification/Base64Url.thy ===== *)
theory Base64Url
  imports Values
begin

text \<open>
  The texts of \<open>security/tokens.py\<close> and \<open>security/passwords.py\<close>: unpadded URL-safe base64
  (\<open>_b64url_encode\<close>, \<open>_b64url_decode\<close>, \<open>_b64\<close>, \<open>_b64decode\<close>) with the standard library's lenient
  decoder, \<open>str.split(sep, n)\<close>, and \<open>int(text)\<close>. A byte string is a \<open>string\<close>.
\<close>

section \<open>Encoding\<close>

definition b64_char :: "nat \<Rightarrow> char" where
  "b64_char v = (if v < 26 then char_of (65 + v) else if v < 52 then char_of (71 + v)
     else if v < 62 then char_of (v - 4) else if v = 62 then CHR ''-'' else CHR ''_'')"

text \<open>Three bytes are four digits; a rest of one or two bytes is padded.\<close>

fun urlsafe_b64encode :: "nat list \<Rightarrow> string" where
  "urlsafe_b64encode [] = []"
| "urlsafe_b64encode [a] = [b64_char (a div 4), b64_char (a mod 4 * 16), CHR ''='', CHR ''='']"
| "urlsafe_b64encode [a, b] =
    [b64_char (a div 4), b64_char (a mod 4 * 16 + b div 16), b64_char (b mod 16 * 4), CHR ''='']"
| "urlsafe_b64encode (a # b # c # r) =
    b64_char (a div 4) # b64_char (a mod 4 * 16 + b div 16) # b64_char (b mod 16 * 4 + c div 64)
      # b64_char (c mod 64) # urlsafe_b64encode r"

definition rstrip_eq :: "string \<Rightarrow> string" where
  "rstrip_eq s = rev (dropWhile (\<lambda>c. c = CHR ''='') (rev s))"

definition b64url_encode :: "string \<Rightarrow> string" where
  "b64url_encode raw = rstrip_eq (urlsafe_b64encode (map of_char raw))"

section \<open>Decoding\<close>

definition sextet :: "char \<Rightarrow> nat option" where
  "sextet c = (let n = (of_char c :: nat) in
     if 65 \<le> n \<and> n \<le> 90 then Some (n - 65) else if 97 \<le> n \<and> n \<le> 122 then Some (n - 71)
     else if 48 \<le> n \<and> n \<le> 57 then Some (n + 4)
     else if c = CHR ''-'' \<or> c = CHR ''+'' then Some 62
     else if c = CHR ''_'' \<or> c = CHR ''/'' then Some 63 else None)"

text \<open>
  \<open>binascii.a2b_base64\<close>, not strict: characters outside the alphabet are skipped, a complete
  padding ends the input, and an unfinished group is an error. \<open>q\<close> counts the digits of the
  group, \<open>l\<close> holds the bits left of the last digit, \<open>p\<close> the padding seen.
\<close>

fun a2b_base64 :: "string \<Rightarrow> nat \<Rightarrow> nat \<Rightarrow> nat \<Rightarrow> nat list option" where
  "a2b_base64 [] q l p = (if q = 0 then Some [] else None)"
| "a2b_base64 (c # cs) q l p =
    (if c = CHR ''='' then
       (if 2 \<le> q \<and> 4 \<le> q + p + 1 then Some [] else a2b_base64 cs q l (if 2 \<le> q then p + 1 else p))
     else case sextet c of
       None \<Rightarrow> a2b_base64 cs q l p
     | Some v \<Rightarrow>
         if q = 0 then a2b_base64 cs 1 v 0
         else if q = 1 then map_option (Cons (l * 4 + v div 16)) (a2b_base64 cs 2 (v mod 16) 0)
         else if q = 2 then map_option (Cons (l * 16 + v div 4)) (a2b_base64 cs 3 (v mod 4) 0)
         else map_option (Cons (l * 64 + v)) (a2b_base64 cs 0 0 0))"

definition is_ascii :: "string \<Rightarrow> bool" where
  "is_ascii s \<longleftrightarrow> list_all (\<lambda>c. (of_char c :: nat) < 128) s"

text \<open>\<open>None\<close> is the \<open>ValueError\<close> of the decoder.\<close>

definition b64url_decode :: "string \<Rightarrow> string option" where
  "b64url_decode raw =
    (if is_ascii raw
     then map_option (map char_of) (a2b_base64 (raw @ replicate ((4 - length raw mod 4) mod 4) (CHR ''='')) 0 0 0)
     else None)"

section \<open>Splitting and integers\<close>

text \<open>\<open>s.split(sep, n)\<close> for a separator of one character.\<close>

fun split_at_most :: "char \<Rightarrow> nat \<Rightarrow> string \<Rightarrow> string list" where
  "split_at_most c 0 s = [s]"
| "split_at_most c (Suc n) s = (let a = takeWhile (\<lambda>x. x \<noteq> c) s; r = dropWhile (\<lambda>x. x \<noteq> c) s
     in if r = [] then [a] else a # split_at_most c n (tl r))"

section \<open>Lemmas\<close>

lemma b64_char_cases:
  obtains "v < 26" "(of_char (b64_char v) :: nat) = 65 + v"
  | "26 \<le> v" "v < 52" "(of_char (b64_char v) :: nat) = 71 + v"
  | "52 \<le> v" "v < 62" "(of_char (b64_char v) :: nat) + 4 = v"
  | "v = 62" "b64_char v = CHR ''-''"
  | "62 < v" "b64_char v = CHR ''_''"
proof -
  consider "v < 26" | "26 \<le> v" "v < 52" | "52 \<le> v" "v < 62" | "v = 62" | "62 < v" by linarith
  then show ?thesis
  proof cases
    case 1
    then have "(of_char (b64_char v) :: nat) = 65 + v" by (simp add: b64_char_def)
    with 1 show ?thesis by (rule that(1))
  next
    case 2
    then have "(of_char (b64_char v) :: nat) = 71 + v" by (simp add: b64_char_def)
    with 2 show ?thesis by (rule that(2))
  next
    case 3
    then have "(of_char (b64_char v) :: nat) + 4 = v" by (simp add: b64_char_def)
    with 3 show ?thesis by (rule that(3))
  next
    case 4
    then show ?thesis by (intro that(4)) (simp_all add: b64_char_def)
  next
    case 5
    then show ?thesis by (intro that(5)) (simp_all add: b64_char_def)
  qed
qed

lemma sextet_b64_char:
  assumes "v < 64"
  shows "sextet (b64_char v) = Some v"
proof (cases v rule: b64_char_cases)
  case 3
  define n where "n = (of_char (b64_char v) :: nat)"
  with 3 have n: "(of_char (b64_char v) :: nat) = n" "v = n + 4" by simp_all
  with 3 have "48 \<le> n" "n \<le> 57" by simp_all
  then show ?thesis unfolding sextet_def Let_def n(1) by (simp add: n(2))
qed (use assms in \<open>simp_all add: sextet_def\<close>)

lemma b64_char_code: "65 \<le> (of_char (b64_char v) :: nat) \<and> (of_char (b64_char v) :: nat) \<le> 122 \<or>
    48 \<le> (of_char (b64_char v) :: nat) \<and> (of_char (b64_char v) :: nat) \<le> 57 \<or> (of_char (b64_char v) :: nat) = 45"
  by (cases v rule: b64_char_cases) auto

lemma b64_char_not: "b64_char v \<noteq> CHR ''=''" "b64_char v \<noteq> CHR ''.''" "b64_char v \<noteq> CHR ''$''"
  "(of_char (b64_char v) :: nat) < 128"
  using b64_char_code [of v] by auto

text \<open>The digits without padding.\<close>

fun b64_digits :: "nat list \<Rightarrow> string" where
  "b64_digits [] = []"
| "b64_digits [a] = [b64_char (a div 4), b64_char (a mod 4 * 16)]"
| "b64_digits [a, b] = [b64_char (a div 4), b64_char (a mod 4 * 16 + b div 16), b64_char (b mod 16 * 4)]"
| "b64_digits (a # b # c # r) =
    b64_char (a div 4) # b64_char (a mod 4 * 16 + b div 16) # b64_char (b mod 16 * 4 + c div 64)
      # b64_char (c mod 64) # b64_digits r"

lemma b64_digits_chars:
  "x \<in> set (b64_digits bs) \<Longrightarrow> x \<noteq> CHR ''='' \<and> x \<noteq> CHR ''.'' \<and> x \<noteq> CHR ''$'' \<and> (of_char x :: nat) < 128"
  by (induction bs rule: b64_digits.induct) (auto simp: b64_char_not)

lemma encode_pads: "urlsafe_b64encode bs = b64_digits bs @ replicate ((4 - length (b64_digits bs) mod 4) mod 4) (CHR ''='')"
proof (induction bs rule: b64_digits.induct)
  case (4 a b c r)
  have "length (b64_digits (a # b # c # r)) mod 4 = length (b64_digits r) mod 4" by simp
  then show ?case using 4 by simp
qed (simp_all add: numeral_2_eq_2)

lemma rstrip_eq_pads:
  assumes "CHR ''='' \<notin> set s"
  shows "rstrip_eq (s @ replicate n (CHR ''='')) = s"
proof -
  have "dropWhile (\<lambda>c. c = CHR ''='') (replicate n (CHR ''='') @ rev s) = rev s"
  proof (induction n)
    case 0
    show ?case using assms by (cases s rule: rev_cases) auto
  qed simp
  then show ?thesis by (simp add: rstrip_eq_def)
qed

lemma b64url_encode_digits: "b64url_encode raw = b64_digits (map of_char raw)"
proof -
  have "CHR ''='' \<notin> set (b64_digits (map of_char raw))" using b64_digits_chars by blast
  then show ?thesis unfolding b64url_encode_def encode_pads by (rule rstrip_eq_pads)
qed

lemma b64url_encode_chars:
  "x \<in> set (b64url_encode raw) \<Longrightarrow> x \<noteq> CHR ''.'' \<and> x \<noteq> CHR ''$'' \<and> (of_char x :: nat) < 128"
  unfolding b64url_encode_digits using b64_digits_chars by blast

lemma b64url_ascii [simp]: "is_ascii (b64url_encode raw)"
  by (auto simp: is_ascii_def list_all_iff dest: b64url_encode_chars)

lemma a2b_digit: "v < 64 \<Longrightarrow> a2b_base64 (b64_char v # cs) q l p =
   (if q = 0 then a2b_base64 cs 1 v 0
    else if q = 1 then map_option (Cons (l * 4 + v div 16)) (a2b_base64 cs 2 (v mod 16) 0)
    else if q = 2 then map_option (Cons (l * 16 + v div 4)) (a2b_base64 cs 3 (v mod 4) 0)
    else map_option (Cons (l * 64 + v)) (a2b_base64 cs 0 0 0))"
  by (simp add: b64_char_not sextet_b64_char)

lemma a2b_pad: "a2b_base64 (CHR ''='' # cs) q l p =
   (if 2 \<le> q \<and> 4 \<le> q + p + 1 then Some [] else a2b_base64 cs q l (if 2 \<le> q then p + 1 else p))"
  by simp

declare a2b_base64.simps(2) [simp del]

lemma group_bits:
  fixes a b c :: nat
  assumes "a < 256" "b < 256" "c < 256"
  shows "a div 4 < 64" "a mod 4 * 16 + b div 16 < 64" "b mod 16 * 4 + c div 64 < 64" "c mod 64 < 64"
    "a div 4 * 4 + (a mod 4 * 16 + b div 16) div 16 = a"
    "(a mod 4 * 16 + b div 16) mod 16 * 16 + (b mod 16 * 4 + c div 64) div 4 = b"
    "(b mod 16 * 4 + c div 64) mod 4 * 64 + c mod 64 = c"
proof -
  have b: "b div 16 < 16" and c: "c div 64 < 4" and a: "a div 4 < 64" using assms by (simp_all add: div_less_iff_less_mult)
  then show "a div 4 < 64" "c mod 64 < 64" by simp_all
  have "a mod 4 \<le> 3" "b mod 16 \<le> 15" by simp_all
  then show "a mod 4 * 16 + b div 16 < 64" "b mod 16 * 4 + c div 64 < 64" using b c by linarith+
  show "a div 4 * 4 + (a mod 4 * 16 + b div 16) div 16 = a" using b by simp
  show "(a mod 4 * 16 + b div 16) mod 16 * 16 + (b mod 16 * 4 + c div 64) div 4 = b" using b c by simp
  show "(b mod 16 * 4 + c div 64) mod 4 * 64 + c mod 64 = c" using c by simp
qed

lemma decode_encoded:
  assumes "\<And>x. x \<in> set bs \<Longrightarrow> x < 256"
  shows "a2b_base64 (urlsafe_b64encode bs) 0 0 0 = Some bs"
  using assms
proof (induction bs rule: urlsafe_b64encode.induct)
  case 1
  then show ?case by simp
next
  case (2 a)
  then have "a < 256" by simp
  from group_bits [OF this, of 0 0] show ?case by (simp add: a2b_digit a2b_pad)
next
  case (3 a b)
  then have "a < 256" "b < 256" by simp_all
  from group_bits [OF this, of 0] show ?case by (simp add: a2b_digit a2b_pad)
next
  case (4 a b c r)
  then have "a < 256" "b < 256" "c < 256" by simp_all
  note g = group_bits [OF this]
  have "a2b_base64 (urlsafe_b64encode r) 0 0 0 = Some r" by (rule 4) (simp add: 4)
  then show ?case using g by (simp add: a2b_digit)
qed

lemma b64url_roundtrip [simp]: "b64url_decode (b64url_encode raw) = Some raw"
proof -
  have "a2b_base64 (urlsafe_b64encode (map of_char raw)) 0 0 0 = Some (map of_char raw)"
    by (rule decode_encoded) auto
  then have "a2b_base64 (b64url_encode raw @ replicate ((4 - length (b64url_encode raw) mod 4) mod 4) (CHR ''='')) 0 0 0
      = Some (map of_char raw)"
    unfolding b64url_encode_digits encode_pads .
  then show ?thesis by (simp add: b64url_decode_def comp_def)
qed

lemma split_at_most_part:
  assumes "c \<notin> set a"
  shows "split_at_most c (Suc n) (a @ c # r) = a # split_at_most c n r"
proof -
  have "takeWhile (\<lambda>x. x \<noteq> c) (a @ c # r) = a" "dropWhile (\<lambda>x. x \<noteq> c) (a @ c # r) = c # r"
    using assms by (auto simp: takeWhile_append dropWhile_append)
  then show ?thesis by simp
qed

lemma digits_value_show:
  "(\<And>c. c \<in> set s \<Longrightarrow> 48 \<le> (of_char c :: nat) \<and> (of_char c :: nat) \<le> 57) \<Longrightarrow> s \<noteq> [] \<or> b \<Longrightarrow>
   digits_value s b n = Some (foldl (\<lambda>n c. 10 * n + (of_char c - 48)) n s)"
proof (induction s arbitrary: n b)
  case Nil
  then show ?case by simp
next
  case (Cons c cs)
  have d: "48 \<le> (of_char c :: nat) \<and> (of_char c :: nat) \<le> 57" by (rule Cons.prems) simp
  then have "c \<noteq> CHR ''_''" by auto
  with d show ?case using Cons by (simp add: digit_of_def)
qed

lemma show_nat_Nil [simp]: "show_nat n \<noteq> []"
  by (subst show_nat.simps) simp

lemma py_int_show [simp]: "py_int (show_nat n) = Some (int n)"
proof -
  have ds: "48 \<le> (of_char c :: nat) \<and> (of_char c :: nat) \<le> 57" if "c \<in> set (show_nat n)" for c
    using that by (rule show_nat_digits)
  then have ns: "\<not> py_space c" if "c \<in> set (show_nat n)" for c
    using that by (auto simp: py_space_def Let_def dest!: ds)
  have strip: "py_strip (show_nat n) = show_nat n"
  proof -
    have "dropWhile py_space (show_nat n) = show_nat n" using ns by (simp add: dropWhile_eq_self_iff)
    moreover have "dropWhile py_space (rev (show_nat n)) = rev (show_nat n)"
      using ns by (simp add: dropWhile_eq_self_iff hd_rev)
    ultimately show ?thesis by (simp add: py_strip_def strip_by_def)
  qed
  obtain c cs where s: "show_nat n = c # cs" by (cases "show_nat n") auto
  then have "48 \<le> (of_char c :: nat) \<and> (of_char c :: nat) \<le> 57" using ds [of c] by simp
  then have "c \<noteq> CHR ''-''" "c \<noteq> CHR ''+''" by auto
  moreover have "digits_value (show_nat n) False 0 = Some (read_nat (show_nat n))"
    unfolding read_nat_def by (rule digits_value_show) (use ds in auto)
  ultimately have "(case show_nat n of [] \<Rightarrow> None
     | c # cs \<Rightarrow> if c = CHR ''-'' then map_option (\<lambda>n. - int n) (digits_value cs False 0)
       else if c = CHR ''+'' then map_option int (digits_value cs False 0)
       else map_option int (digits_value (c # cs) False 0)) = Some (int n)"
    using read_show_nat [of n] by (simp add: s)
  then show ?thesis by (simp only: py_int_def strip)
qed

end
