(* ===== verification/AuthTokens.thy ===== *)
theory AuthTokens
  imports UserAccounts Base64Url
begin

text \<open>
  The bearer tokens of \<open>security/tokens.py\<close> and the stored passwords of
  \<open>security/passwords.py\<close>. JSON text, HMAC-SHA256 and PBKDF2 are parameters (\<open>token_env\<close>,
  \<open>pbkdf2\<close>): the standard library and OpenSSL compute them.
\<close>

section \<open>Settings and keys\<close>

record jwt_key =
  jk_id :: string
  jk_secret :: string
  jk_active :: bool

text \<open>\<open>as_env_secret\<close>: the environment names \<open>AUTH_JWT_SECRET\<close>.\<close>

record auth_settings =
  as_secret :: string
  as_key_id :: "string option"
  as_keys :: "jwt_key list"
  as_issuer :: string
  as_audience :: "string option"
  as_access_ttl :: int
  as_refresh_ttl :: int
  as_env_secret :: bool

record token_env =
  te_dumps :: "(string, pyval) dict \<Rightarrow> string"
  te_loads :: "string \<Rightarrow> pyval option"
  te_mac :: "string \<Rightarrow> string \<Rightarrow> string"
  te_str :: "pyval \<Rightarrow> string"

definition default_auth_jwt_secret :: string where
  "default_auth_jwt_secret = ''focus-agent-dev-secret''"

definition include_single_secret :: "auth_settings \<Rightarrow> bool" where
  "include_single_secret st =
    (if as_secret st = [] then False
     else if as_keys st = [] then True
     else if as_secret st \<noteq> default_auth_jwt_secret then True
     else as_env_secret st)"

definition signing_key :: "auth_settings \<Rightarrow> account_error + string option \<times> string" where
  "signing_key st =
    (if given (as_key_id st) then
       (case find (\<lambda>k. jk_active k \<and> jk_id k = or_empty (as_key_id st)) (as_keys st) of
          Some k \<Rightarrow> Inr (Some (jk_id k), jk_secret k)
        | None \<Rightarrow> if include_single_secret st then Inr (as_key_id st, as_secret st)
                  else Inl (AuthError ''JWT signing key id is not configured.''))
     else (case find jk_active (as_keys st) of
          Some k \<Rightarrow> Inr (Some (jk_id k), jk_secret k)
        | None \<Rightarrow> if include_single_secret st then Inr (None, as_secret st)
                  else Inl (AuthError ''JWT signing secret is not configured.'')))"

definition dedupe_secrets :: "string list \<Rightarrow> string list" where
  "dedupe_secrets secrets = from_keys (filter (\<lambda>s. s \<noteq> []) secrets)"

definition verification_secrets :: "auth_settings \<Rightarrow> string option \<Rightarrow> account_error + string list" where
  "verification_secrets st kid =
    (if given kid then
       (let secrets = map jk_secret (filter (\<lambda>k. jk_active k \<and> Some (jk_id k) = kid) (as_keys st))
              @ (if as_key_id st = kid \<and> include_single_secret st then [as_secret st] else []);
            deduped = dedupe_secrets secrets
        in if deduped = [] then Inl (AuthError ''Bearer token key id is not configured.'') else Inr deduped)
     else Inr (dedupe_secrets ((if include_single_secret st then [as_secret st] else [])
            @ map jk_secret (filter jk_active (as_keys st)))))"

section \<open>Tokens\<close>

definition sign :: "token_env \<Rightarrow> string \<Rightarrow> string \<Rightarrow> string \<Rightarrow> string" where
  "sign te header_b64 payload_b64 secret =
    b64url_encode (te_mac te secret (header_b64 @ ''.'' @ payload_b64))"

definition token_header :: "string option \<Rightarrow> (string, pyval) dict" where
  "token_header kid = [(''alg'', PStr ''HS256''), (''typ'', PStr ''JWT'')]
    @ (if given kid then [(''kid'', PStr (or_empty kid))] else [])"

definition token_payload :: "auth_settings \<Rightarrow> string \<Rightarrow> string option \<Rightarrow> string list \<Rightarrow> int \<Rightarrow> int
    \<Rightarrow> (string, pyval) dict" where
  "token_payload st uid tenant scopes now expiry =
    [(''iss'', PStr (as_issuer st)), (''sub'', PStr uid), (''iat'', PInt now), (''exp'', PInt expiry),
     (''scope'', PStr (join_with '' '' scopes))]
    @ (if given (as_audience st) then [(''aud'', PStr (or_empty (as_audience st)))] else [])
    @ (if given tenant then [(''tenant_id'', PStr (or_empty tenant))] else [])"

definition token_expiry :: "auth_settings \<Rightarrow> int option \<Rightarrow> int \<Rightarrow> int" where
  "token_expiry st expires_in now = now + (case expires_in of None \<Rightarrow> as_access_ttl st
     | Some n \<Rightarrow> if n = 0 then as_access_ttl st else n)"

definition create_access_token :: "token_env \<Rightarrow> auth_settings \<Rightarrow> string \<Rightarrow> string option \<Rightarrow> string list
    \<Rightarrow> int option \<Rightarrow> int \<Rightarrow> account_error + string" where
  "create_access_token te st uid tenant scopes expires_in now =
    bind_ok (signing_key st) (\<lambda>(kid, secret).
      (let header_b64 = b64url_encode (te_dumps te (token_header kid));
           payload_b64 = b64url_encode (te_dumps te
             (token_payload st uid tenant scopes now (token_expiry st expires_in now)))
       in Inr (header_b64 @ ''.'' @ payload_b64 @ ''.'' @ sign te header_b64 payload_b64 secret)))"

definition decode_json :: "token_env \<Rightarrow> string \<Rightarrow> pyval option" where
  "decode_json te part = (case b64url_decode part of None \<Rightarrow> None | Some raw \<Rightarrow> te_loads te raw)"

text \<open>
  \<open>any(hmac.compare_digest(...))\<close>: the text to sign and the signature must be ASCII, which the
  standard library checks when it meets the first secret.
\<close>

definition signature_matches :: "token_env \<Rightarrow> string \<Rightarrow> string \<Rightarrow> string \<Rightarrow> string list \<Rightarrow> account_error + bool" where
  "signature_matches te h p sig secrets =
    (if secrets = [] then Inr False
     else if \<not> is_ascii (h @ ''.'' @ p) then Inl (ValueErr ''ordinal not in range(128)'')
     else if \<not> is_ascii sig then Inl (TypeErr ''comparing strings with non-ASCII characters is not supported'')
     else Inr (\<exists>secret \<in> set secrets. sig = sign te h p secret))"

text \<open>\<open>int(v)\<close>\<close>

definition int_of :: "pyval \<Rightarrow> account_error + int" where
  "int_of v = (case v of
     PInt n \<Rightarrow> Inr n
   | PBool b \<Rightarrow> Inr (if b then 1 else 0)
   | PFloat x \<Rightarrow> Inr (if 0 \<le> x then \<lfloor>x\<rfloor> else \<lceil>x\<rceil>)
   | PStr t \<Rightarrow> (case py_int t of None \<Rightarrow> Inl (ValueErr ''invalid literal for int()'') | Some n \<Rightarrow> Inr n)
   | _ \<Rightarrow> Inl (TypeErr ''int() argument must be a string or a number''))"

definition token_scopes :: "(pyval \<Rightarrow> string) \<Rightarrow> pyval \<Rightarrow> string list" where
  "token_scopes str_of v = filter (\<lambda>w. w \<noteq> [])
    (split_all CHR '' '' (py_strip (if truthy v then py_str str_of v else [])))"

definition check_payload :: "token_env \<Rightarrow> auth_settings \<Rightarrow> int \<Rightarrow> (string, pyval) dict \<Rightarrow> account_error + auth_principal" where
  "check_payload te st now payload =
    (if dict_value payload ''iss'' \<noteq> PStr (as_issuer st) then Inl (AuthError ''Bearer token issuer mismatch.'')
     else if given (as_audience st) \<and> dict_value payload ''aud'' \<noteq> PStr (or_empty (as_audience st))
     then Inl (AuthError ''Bearer token audience mismatch.'')
     else if \<not> truthy (dict_value payload ''sub'') then Inl (AuthError ''Bearer token is missing subject.'')
     else bind_ok (int_of (get_or payload ''exp'' (PInt 0))) (\<lambda>expiry.
       if expiry \<le> now then Inl (AuthError ''Bearer token has expired.'')
       else Inr \<lparr>p_user = py_str (te_str te) (dict_value payload ''sub''),
                 p_tenant = dict_value payload ''tenant_id'',
                 p_scopes = token_scopes (te_str te) (dict_value payload ''scope''),
                 p_claims = payload\<rparr>))"

definition header_kid :: "token_env \<Rightarrow> (string, pyval) dict \<Rightarrow> string option" where
  "header_kid te header = (case dict_value header ''kid'' of PNone \<Rightarrow> None | v \<Rightarrow> Some (py_str (te_str te) v))"

definition check_signed :: "token_env \<Rightarrow> auth_settings \<Rightarrow> int \<Rightarrow> string \<Rightarrow> string \<Rightarrow> string \<Rightarrow> (string, pyval) dict
    \<Rightarrow> account_error + auth_principal" where
  "check_signed te st now h p sig header =
    (if dict_value header ''alg'' \<noteq> PStr ''HS256''
     then Inl (AuthError ''Only HS256 bearer tokens are supported by this skeleton.'')
     else bind_ok (verification_secrets st (header_kid te header)) (\<lambda>secrets.
       bind_ok (signature_matches te h p sig secrets) (\<lambda>matched.
         if \<not> matched then Inl (AuthError ''Bearer token signature is invalid.'')
         else (case decode_json te p of
             None \<Rightarrow> Inl (AuthError ''Bearer token payload is invalid JSON.'')
           | Some (PDict payload) \<Rightarrow> check_payload te st now payload
           | Some v \<Rightarrow> Inl (AttributeErr ''get'')))))"

definition decode_access_token :: "token_env \<Rightarrow> auth_settings \<Rightarrow> int \<Rightarrow> string \<Rightarrow> account_error + auth_principal" where
  "decode_access_token te st now token = (case split_at_most CHR ''.'' 2 token of
     [h, p, sig] \<Rightarrow> (case decode_json te h of
         None \<Rightarrow> Inl (AuthError ''Bearer token header is invalid JSON.'')
       | Some (PDict header) \<Rightarrow> check_signed te st now h p sig header
       | Some v \<Rightarrow> Inl (AttributeErr ''get''))
   | _ \<Rightarrow> Inl (AuthError ''Malformed bearer token.''))"

section \<open>Passwords\<close>

type_synonym kdf = "string \<Rightarrow> string \<Rightarrow> int \<Rightarrow> string"

definition pbkdf2_algorithm :: string where
  "pbkdf2_algorithm = ''pbkdf2_sha256''"

definition pbkdf2_iterations :: nat where
  "pbkdf2_iterations = 210000"

definition hash_password :: "kdf \<Rightarrow> string \<Rightarrow> string \<Rightarrow> string" where
  "hash_password pbkdf2 salt password = join_with ''$''
    [pbkdf2_algorithm, show_nat pbkdf2_iterations, b64url_encode salt,
     b64url_encode (pbkdf2 password salt (int pbkdf2_iterations))]"

definition verify_password :: "kdf \<Rightarrow> string \<Rightarrow> string option \<Rightarrow> bool" where
  "verify_password pbkdf2 password encoded =
    (if \<not> given encoded then False
     else case split_at_most CHR ''$'' 3 (or_empty encoded) of
       [algorithm, iterations_text, salt_text, digest_text] \<Rightarrow>
         (case (py_int iterations_text, b64url_decode salt_text, b64url_decode digest_text) of
            (Some iterations, Some salt, Some expected) \<Rightarrow>
              if algorithm \<noteq> pbkdf2_algorithm \<or> iterations \<le> 0 then False
              else pbkdf2 password salt iterations = expected
          | _ \<Rightarrow> False)
     | _ \<Rightarrow> False)"

definition password_needs_rehash :: "string option \<Rightarrow> bool" where
  "password_needs_rehash encoded =
    (if \<not> given encoded then True
     else case split_at_most CHR ''$'' 3 (or_empty encoded) of
       [algorithm, iterations_text, a, b] \<Rightarrow> (case py_int iterations_text of
            None \<Rightarrow> True
          | Some iterations \<Rightarrow> algorithm \<noteq> pbkdf2_algorithm \<or> iterations < int pbkdf2_iterations)
     | _ \<Rightarrow> True)"

section \<open>Lemmas\<close>

lemma hash_password_parts:
  "split_at_most CHR ''$'' 3 (hash_password pbkdf2 salt pw) =
    [pbkdf2_algorithm, show_nat pbkdf2_iterations, b64url_encode salt,
     b64url_encode (pbkdf2 pw salt (int pbkdf2_iterations))]"
proof -
  have a: "CHR ''$'' \<notin> set pbkdf2_algorithm" by (simp add: pbkdf2_algorithm_def)
  have b: "CHR ''$'' \<notin> set (show_nat pbkdf2_iterations)" by (auto dest!: show_nat_digits)
  have c: "CHR ''$'' \<notin> set (b64url_encode salt)" by (auto dest: b64url_encode_chars)
  have "hash_password pbkdf2 salt pw = pbkdf2_algorithm @ CHR ''$'' # show_nat pbkdf2_iterations @ CHR ''$'' #
      b64url_encode salt @ CHR ''$'' # b64url_encode (pbkdf2 pw salt (int pbkdf2_iterations))"
    by (simp add: hash_password_def)
  then show ?thesis
    by (simp only: numeral_3_eq_3 split_at_most_part [OF a] split_at_most_part [OF b] split_at_most_part [OF c]
        split_at_most.simps(1))
qed

lemma hash_password_given: "given (Some (hash_password pbkdf2 salt pw))"
  by (simp add: given_def or_empty_def hash_password_def pbkdf2_algorithm_def)

lemma iterations_positive: "0 < pbkdf2_iterations"
  by (simp add: pbkdf2_iterations_def)

lemma verify_hashed:
  "verify_password pbkdf2 w (Some (hash_password pbkdf2 salt pw)) \<longleftrightarrow>
     pbkdf2 w salt (int pbkdf2_iterations) = pbkdf2 pw salt (int pbkdf2_iterations)"
  "\<not> password_needs_rehash (Some (hash_password pbkdf2 salt pw))"
  by (simp_all add: verify_password_def password_needs_rehash_def hash_password_given or_empty_def
      hash_password_parts iterations_positive [THEN neq0_conv [THEN iffD2]])

text \<open>A stored password verifies exactly the passwords with the same derived key, and is current.\<close>

lemma stored_password_verifies:
  "(verify_password pbkdf2 w (Some (hash_password pbkdf2 salt pw)) \<longleftrightarrow>
      pbkdf2 w salt (int pbkdf2_iterations) = pbkdf2 pw salt (int pbkdf2_iterations)) \<and>
   \<not> password_needs_rehash (Some (hash_password pbkdf2 salt pw))"
  by (simp only: verify_hashed simp_thms)

text \<open>The secrets a bearer token may be signed with.\<close>

definition accepted_secrets :: "auth_settings \<Rightarrow> string set" where
  "accepted_secrets st =
    {s. s \<noteq> [] \<and> (s \<in> jk_secret ` {k \<in> set (as_keys st). jk_active k} \<or> include_single_secret st \<and> s = as_secret st)}"

lemma set_dedupe_secrets: "set (dedupe_secrets secrets) = {s \<in> set secrets. s \<noteq> []}"
  by (auto simp: dedupe_secrets_def)

lemma verification_secrets_accepted:
  assumes "verification_secrets st kid = Inr secrets" "s \<in> set secrets"
  shows "s \<in> accepted_secrets st"
  using assms by (auto simp: verification_secrets_def Let_def set_dedupe_secrets accepted_secrets_def split: if_splits)

lemma signing_key_verifies:
  assumes "signing_key st = Inr (kid, secret)" "secret \<noteq> []"
  obtains secrets where "verification_secrets st (if given kid then kid else None) = Inr secrets" "secret \<in> set secrets"
proof -
  define ss where "ss = map jk_secret (filter (\<lambda>k. jk_active k \<and> Some (jk_id k) = kid) (as_keys st))
      @ (if as_key_id st = kid \<and> include_single_secret st then [as_secret st] else [])"
  define all where "all = (if include_single_secret st then [as_secret st] else [])
      @ map jk_secret (filter jk_active (as_keys st))"
  have k: "(\<exists>k \<in> set (as_keys st). jk_active k \<and> Some (jk_id k) = kid \<and> jk_secret k = secret) \<or>
      as_key_id st = kid \<and> include_single_secret st \<and> secret = as_secret st \<or>
      kid = None \<and> include_single_secret st \<and> secret = as_secret st"
    using assms(1) unfolding signing_key_def
    by (auto split: if_splits option.splits simp: find_Some_iff)
  show ?thesis
  proof (cases "given kid")
    case True
    then have "kid \<noteq> None" by (cases kid) (simp_all add: given_def or_empty_def)
    with k have "secret \<in> set (dedupe_secrets ss)" using assms(2) by (auto simp: set_dedupe_secrets ss_def)
    moreover then have "dedupe_secrets ss \<noteq> []" by auto
    ultimately show ?thesis using True by (intro that [of "dedupe_secrets ss"]) (simp_all add: verification_secrets_def ss_def Let_def)
  next
    case False
    have "secret \<in> set (dedupe_secrets all)" using k assms(2) by (auto simp: set_dedupe_secrets all_def)
    then show ?thesis using False
      by (intro that [of "dedupe_secrets all"]) (simp_all add: verification_secrets_def all_def given_def or_empty_def)
  qed
qed

lemma map_of_sort_keys:
  assumes "wf_dict d"
  shows "map_of (sort_key fst d) k = map_of d k"
proof -
  have wf: "wf_dict (sort_key fst d)"
    using assms by (metis distinct_map distinct_sort set_sort)
  have "map_of (sort_key fst d) k = Some v \<longleftrightarrow> map_of d k = Some v" for v
    using dict_mem_iff [OF wf, of k v] dict_mem_iff [OF assms, of k v] by simp
  then show ?thesis by (metis option.exhaust)
qed

lemma get_or_sort_keys: "wf_dict d \<Longrightarrow> get_or (sort_key fst d) k z = get_or d k z"
  by (simp add: get_or_def map_of_sort_keys)

definition scope_name :: "string \<Rightarrow> bool" where
  "scope_name w \<longleftrightarrow> w \<noteq> [] \<and> (\<forall>x \<in> set w. \<not> py_space x)"

lemma token_scopes_join:
  assumes "list_all scope_name scopes"
  shows "token_scopes str_of (PStr (join_with '' '' scopes)) = scopes"
proof (cases "scopes = []")
  case True
  then show ?thesis by (simp add: token_scopes_def py_strip_def strip_by_def)
next
  case False
  have a: "list_all (\<lambda>w. w \<noteq> [] \<and> (\<forall>x \<in> set w. \<not> py_space x)) scopes"
    using assms by (simp add: scope_name_def list_all_iff)
  have sp: "py_space CHR '' ''" by code_simp
  have b: "list_all (\<lambda>w. w \<noteq> [] \<and> CHR '' '' \<notin> set w) scopes" using a sp by (auto simp: list_all_iff)
  have "py_strip (join_with '' '' scopes) = join_with '' '' scopes"
    using join_hd_last [OF a False, of "'' ''"] by (simp add: py_strip_def strip_by_id)
  moreover have "filter (\<lambda>w. w \<noteq> []) scopes = scopes" using b by (simp add: filter_id_conv list_all_iff)
  ultimately show ?thesis using join_hd_last [OF a False, of "'' ''"] split_all_join [OF b False]
    by (simp add: token_scopes_def)
qed

lemma split_token:
  assumes "CHR ''.'' \<notin> set h" "CHR ''.'' \<notin> set p"
  shows "split_at_most CHR ''.'' 2 (h @ ''.'' @ p @ ''.'' @ sig) = [h, p, sig]"
  using split_at_most_part [OF assms(1), of 1 "p @ ''.'' @ sig"] split_at_most_part [OF assms(2), of 0 sig]
  by (simp add: numeral_2_eq_2)

lemma split_three:
  assumes "split_at_most CHR ''.'' 2 token = [h, p, sig]"
  shows "token = h @ ''.'' @ p @ ''.'' @ sig"
proof -
  have step: "split_at_most c (Suc n) s = a # b # r \<Longrightarrow>
      s = a @ c # tl (dropWhile (\<lambda>x. x \<noteq> c) s) \<and> split_at_most c n (tl (dropWhile (\<lambda>x. x \<noteq> c) s)) = b # r" for c n s a b r
  proof -
    assume sp: "split_at_most c (Suc n) s = a # b # r"
    have ne: "dropWhile (\<lambda>x. x \<noteq> c) s \<noteq> []"
    proof (rule notI)
      assume e: "dropWhile (\<lambda>x. x \<noteq> c) s = []"
      from sp show False unfolding split_at_most.simps Let_def e by simp
    qed
    have "hd (dropWhile (\<lambda>x. x \<noteq> c) s) = c" using hd_dropWhile [OF ne] by simp
    then have "dropWhile (\<lambda>x. x \<noteq> c) s = c # tl (dropWhile (\<lambda>x. x \<noteq> c) s)" using ne by (metis list.collapse)
    moreover have "s = takeWhile (\<lambda>x. x \<noteq> c) s @ dropWhile (\<lambda>x. x \<noteq> c) s" by simp
    moreover have "split_at_most c (Suc n) s =
        takeWhile (\<lambda>x. x \<noteq> c) s # split_at_most c n (tl (dropWhile (\<lambda>x. x \<noteq> c) s))"
      using ne by (simp only: split_at_most.simps Let_def if_False)
    ultimately show ?thesis using sp by (metis list.inject)
  qed
  have s2: "split_at_most CHR ''.'' (Suc 1) token = h # p # [sig]" using assms by (simp add: numeral_2_eq_2)
  note t1 = step [OF s2]
  have s1: "split_at_most CHR ''.'' (Suc 0) (tl (dropWhile (\<lambda>x. x \<noteq> CHR ''.'') token)) = p # sig # []" using t1 by simp
  note t2 = step [OF s1]
  have "tl (dropWhile (\<lambda>x. x \<noteq> CHR ''.'') (tl (dropWhile (\<lambda>x. x \<noteq> CHR ''.'') token))) = sig" using t2 by simp
  then show ?thesis using t1 t2 by simp
qed

section \<open>Properties\<close>

text \<open>C9: A token decodes only if a configured, active secret signed it, and its issuer, audience and expiry hold.\<close>

theorem accepted_token_is_signed:
  assumes "decode_access_token te st now token = Inr p"
  shows "\<exists>h pl secret payload. token = h @ ''.'' @ pl @ ''.'' @ sign te h pl secret \<and>
    secret \<in> accepted_secrets st \<and> decode_json te pl = Some (PDict payload) \<and>
    dict_value payload ''iss'' = PStr (as_issuer st) \<and>
    (\<not> given (as_audience st) \<or> dict_value payload ''aud'' = PStr (or_empty (as_audience st))) \<and>
    (\<exists>expiry. int_of (get_or payload ''exp'' (PInt 0)) = Inr expiry \<and> now < expiry) \<and>
    p_user p = py_str (te_str te) (dict_value payload ''sub'') \<and> truthy (dict_value payload ''sub'') \<and> p_claims p = payload"
proof -
  obtain h pl sig where parts: "split_at_most CHR ''.'' 2 token = [h, pl, sig]"
    using assms by (auto simp: decode_access_token_def split: list.splits)
  obtain header where header: "decode_json te h = Some (PDict header)"
    using assms by (auto simp: decode_access_token_def parts split: option.splits pyval.splits)
  have signed: "check_signed te st now h pl sig header = Inr p"
    using assms by (simp add: decode_access_token_def parts header)
  then obtain secrets where secrets: "verification_secrets st (header_kid te header) = Inr secrets"
    and matches: "signature_matches te h pl sig secrets = Inr True"
    by (auto simp: check_signed_def bind_ok_Inr_iff split: if_splits)
  obtain secret where secret: "secret \<in> set secrets" "sig = sign te h pl secret"
    using matches by (auto simp: signature_matches_def split: if_splits)
  obtain payload where payload: "decode_json te pl = Some (PDict payload)" "check_payload te st now payload = Inr p"
    using signed by (auto simp: check_signed_def secrets matches split: if_splits option.splits pyval.splits)
  have "token = h @ ''.'' @ pl @ ''.'' @ sign te h pl secret" using split_three [OF parts] secret by simp
  moreover have "secret \<in> accepted_secrets st" by (rule verification_secrets_accepted [OF secrets secret(1)])
  moreover have "dict_value payload ''iss'' = PStr (as_issuer st)"
    "\<not> given (as_audience st) \<or> dict_value payload ''aud'' = PStr (or_empty (as_audience st))"
    "\<exists>expiry. int_of (get_or payload ''exp'' (PInt 0)) = Inr expiry \<and> now < expiry"
    "p_user p = py_str (te_str te) (dict_value payload ''sub'')" "truthy (dict_value payload ''sub'')" "p_claims p = payload"
    using payload(2) by (auto simp: check_payload_def bind_ok_Inr_iff split: if_splits)
  ultimately show ?thesis using payload(1) by blast
qed

lemma created_token_decodes:
  assumes key: "signing_key st = Inr (kid, secret)" "secret \<noteq> []"
    and json: "te_loads te (te_dumps te (token_header kid)) = Some (PDict (sort_key fst (token_header kid)))"
      "te_loads te (te_dumps te (token_payload st uid tenant scopes now (token_expiry st ttl now))) =
        Some (PDict (sort_key fst (token_payload st uid tenant scopes now (token_expiry st ttl now))))"
    and request: "uid \<noteq> []" "list_all scope_name scopes" "later < token_expiry st ttl now"
  shows "\<exists>token p. create_access_token te st uid tenant scopes ttl now = Inr token \<and>
    decode_access_token te st later token = Inr p \<and> p_user p = uid \<and> p_scopes p = scopes \<and>
    p_tenant p = (if given tenant then PStr (or_empty tenant) else PNone)"
proof -
  define header where "header = token_header kid"
  define payload where "payload = token_payload st uid tenant scopes now (token_expiry st ttl now)"
  define h where "h = b64url_encode (te_dumps te header)"
  define pl where "pl = b64url_encode (te_dumps te payload)"
  have wf: "wf_dict header" "wf_dict payload"
    by (simp_all add: header_def payload_def token_header_def token_payload_def)
  have dots: "CHR ''.'' \<notin> set h" "CHR ''.'' \<notin> set pl" by (auto simp: h_def pl_def dest: b64url_encode_chars)
  have token: "create_access_token te st uid tenant scopes ttl now =
      Inr (h @ ''.'' @ pl @ ''.'' @ sign te h pl secret)"
    by (simp add: create_access_token_def key Let_def h_def pl_def header_def payload_def)
  have dj: "decode_json te h = Some (PDict (sort_key fst header))" "decode_json te pl = Some (PDict (sort_key fst payload))"
    using json by (simp_all add: decode_json_def h_def pl_def header_def payload_def)
  have kid: "header_kid te (sort_key fst header) = (if given kid then kid else None)"
    using wf by (cases kid) (simp_all add: header_kid_def dict_value_def get_or_sort_keys,
      simp_all add: header_def token_header_def get_or_def given_def or_empty_def)
  obtain secrets where secrets: "verification_secrets st (if given kid then kid else None) = Inr secrets" "secret \<in> set secrets"
    by (rule signing_key_verifies [OF key])
  have "is_ascii h" "is_ascii pl" by (simp_all add: h_def pl_def)
  then have ascii: "is_ascii (h @ ''.'' @ pl)" "is_ascii (sign te h pl secret)"
    by (simp add: is_ascii_def, simp add: sign_def)
  have "secrets \<noteq> []" using secrets(2) by auto
  then have "signature_matches te h pl (sign te h pl secret) secrets = Inr True"
    using ascii secrets(2) by (auto simp: signature_matches_def)
  moreover have "dict_value (sort_key fst header) ''alg'' = PStr ''HS256''"
    using wf by (simp add: dict_value_def get_or_sort_keys) (simp add: header_def token_header_def get_or_def)
  ultimately have "decode_access_token te st later (h @ ''.'' @ pl @ ''.'' @ sign te h pl secret) =
      check_payload te st later (sort_key fst payload)"
    by (simp add: decode_access_token_def split_token [OF dots, simplified] check_signed_def dj kid secrets(1))
  moreover have "check_payload te st later (sort_key fst payload) = Inr
      \<lparr>p_user = uid, p_tenant = (if given tenant then PStr (or_empty tenant) else PNone), p_scopes = scopes,
       p_claims = sort_key fst payload\<rparr>"
  proof -
    have v: "dict_value payload ''iss'' = PStr (as_issuer st)"
      "given (as_audience st) \<Longrightarrow> dict_value payload ''aud'' = PStr (or_empty (as_audience st))"
      "dict_value payload ''sub'' = PStr uid" "get_or payload ''exp'' (PInt 0) = PInt (token_expiry st ttl now)"
      "dict_value payload ''tenant_id'' = (if given tenant then PStr (or_empty tenant) else PNone)"
      "dict_value payload ''scope'' = PStr (join_with '' '' scopes)"
      by (simp_all add: payload_def token_payload_def dict_value_def get_or_def)
    have s: "dict_value (sort_key fst payload) k = dict_value payload k" for k
      using wf by (simp add: dict_value_def get_or_sort_keys)
    show ?thesis using v request wf
      by (simp add: check_payload_def s get_or_sort_keys int_of_def token_scopes_join)
  qed
  ultimately show ?thesis using token
    by (intro exI [of _ "h @ ''.'' @ pl @ ''.'' @ sign te h pl secret"] exI [of _ "\<lparr>p_user = uid,
      p_tenant = (if given tenant then PStr (or_empty tenant) else PNone), p_scopes = scopes, p_claims = sort_key fst payload\<rparr>"]) simp
qed

text \<open>C32: A token that was just created decodes, until it expires, to the user, tenant and scopes it was made for.\<close>

theorem token_roundtrip:
  assumes key: "signing_key st = Inr (kid, secret)" "secret \<noteq> []"
    and json: "te_loads te (te_dumps te (token_header kid)) = Some (PDict (sort_key fst (token_header kid)))"
      "te_loads te (te_dumps te (token_payload st uid tenant scopes now (token_expiry st ttl now))) =
        Some (PDict (sort_key fst (token_payload st uid tenant scopes now (token_expiry st ttl now))))"
    and request: "uid \<noteq> []" "list_all scope_name scopes" "later < token_expiry st ttl now"
  shows "\<exists>token p. create_access_token te st uid tenant scopes ttl now = Inr token \<and>
    decode_access_token te st later token = Inr p \<and> p_user p = uid \<and> p_scopes p = scopes \<and>
    p_tenant p = (if given tenant then PStr (or_empty tenant) else PNone)"
  by (rule created_token_decodes [OF assms])

text \<open>A token whose header is JSON but no object raises \<open>AttributeError\<close>, not \<open>AuthError\<close>.\<close>

lemma list_header_escapes:
  assumes "te_loads te ''[]'' = Some (PList [])"
  shows "decode_access_token te st now (b64url_encode ''[]'' @ ''.a.b'') = Inl (AttributeErr ''get'')"
proof -
  have "CHR ''.'' \<notin> set (b64url_encode ''[]'')" by (auto dest: b64url_encode_chars)
  from split_token [OF this, of "''a''" "''b''"]
  have "split_at_most CHR ''.'' 2 (b64url_encode ''[]'' @ ''.a.b'') = [b64url_encode ''[]'', ''a'', ''b'']" by simp
  then show ?thesis using assms by (simp add: decode_access_token_def decode_json_def)
qed

section \<open>Witnesses\<close>

definition ex_settings :: auth_settings where
  "ex_settings = \<lparr>as_secret = ''single'', as_key_id = Some ''k1'',
     as_keys = [\<lparr>jk_id = ''k0'', jk_secret = ''old'', jk_active = False\<rparr>, \<lparr>jk_id = ''k1'', jk_secret = ''s1'', jk_active = True\<rparr>],
     as_issuer = ''focus-agent'', as_audience = None, as_access_ttl = 100, as_refresh_ttl = 1000, as_env_secret = False\<rparr>"

text \<open>A JSON of two texts, and a keyed digest that joins key and message.\<close>

definition ex_token_env :: token_env where
  "ex_token_env = \<lparr>te_dumps = (\<lambda>d. if map_of d ''alg'' = None then ''payload'' else ''header''),
     te_loads = (\<lambda>t. if t = ''header'' then Some (PDict (sort_key fst (token_header (Some ''k1''))))
       else if t = ''payload'' then Some (PDict (sort_key fst (token_payload ex_settings ''ann'' None [''chat''] 5 105)))
       else if t = ''[]'' then Some (PList []) else None),
     te_mac = (\<lambda>k m. k @ m), te_str = (\<lambda>v. [])\<rparr>"

lemma ex_signing_key: "signing_key ex_settings = Inr (Some ''k1'', ''s1'')"
  by (simp add: signing_key_def ex_settings_def given_def or_empty_def)

lemma ex_expiry: "token_expiry ex_settings None 5 = 105"
  by (simp add: token_expiry_def ex_settings_def)

lemma ex_loads:
  "te_loads ex_token_env (te_dumps ex_token_env (token_header (Some ''k1''))) = Some (PDict (sort_key fst (token_header (Some ''k1''))))"
  "te_loads ex_token_env (te_dumps ex_token_env (token_payload ex_settings ''ann'' None [''chat''] 5 105)) =
    Some (PDict (sort_key fst (token_payload ex_settings ''ann'' None [''chat''] 5 105)))"
  by (simp_all add: ex_token_env_def token_header_def) (simp add: token_payload_def)

theorem token_roundtrip_witness:
  "\<exists>token p. create_access_token ex_token_env ex_settings ''ann'' None [''chat''] None 5 = Inr token \<and>
    decode_access_token ex_token_env ex_settings 104 token = Inr p \<and> p_user p = ''ann'' \<and> p_scopes p = [''chat''] \<and> p_tenant p = PNone"
proof -
  have "\<not> given None" by (simp add: given_def or_empty_def)
  moreover have "list_all scope_name [''chat'']" by code_simp
  ultimately show ?thesis
    using token_roundtrip [OF ex_signing_key, of ex_token_env "''ann''" None "[''chat'']" 5 None 104]
    by (simp add: ex_expiry ex_loads)
qed

theorem accepted_token_is_signed_witness:
  "\<exists>token p h pl secret. decode_access_token ex_token_env ex_settings 104 token = Inr p \<and>
    token = h @ ''.'' @ pl @ ''.'' @ sign ex_token_env h pl secret \<and> secret \<in> {''s1'', ''single''}"
proof -
  have s: "list_all scope_name [''chat'']" by code_simp
  note c = created_token_decodes [OF ex_signing_key, of ex_token_env "''ann''" None "[''chat'']" 5 None 104]
  obtain token p where t: "decode_access_token ex_token_env ex_settings 104 token = Inr p"
    using c [unfolded ex_expiry, OF list.distinct(2) ex_loads list.distinct(2) s] by fastforce
  from accepted_token_is_signed [OF t] obtain h pl secret where
    r: "token = h @ ''.'' @ pl @ ''.'' @ sign ex_token_env h pl secret" "secret \<in> accepted_secrets ex_settings" by blast
  have "map jk_secret (filter jk_active (as_keys ex_settings)) = [''s1'']" by (simp add: ex_settings_def)
  then have "set (map jk_secret (filter jk_active (as_keys ex_settings))) = {''s1''}" by (simp only: list.set)
  then have "jk_secret ` {k \<in> set (as_keys ex_settings). jk_active k} = {''s1''}" by (simp only: set_map set_filter)
  moreover have "as_secret ex_settings = ''single''" by (simp add: ex_settings_def)
  ultimately have "secret \<in> {''s1'', ''single''}" using r(2) unfolding accepted_secrets_def by blast
  with t r(1) show ?thesis by blast
qed

theorem list_header_escapes_witness:
  "decode_access_token ex_token_env ex_settings 0 (b64url_encode ''[]'' @ ''.a.b'') = Inl (AttributeErr ''get'')"
  by (rule list_header_escapes) (simp add: ex_token_env_def)

end
