(* ===== verification/AuthService.thy ===== *)
theory AuthService
  imports AuthTokens
begin

text \<open>
  Registration, login with lockout, refresh, logout and password changes:
  \<open>services/auth.py\<close> over the in-memory repository. SHA-256, PBKDF2 and the ISO text of a time
  are parameters (\<open>auth_env\<close>), as are the random draws. \<open>clk 0\<close>, \<open>clk 1\<close>, ... name the clock
  readings of an operation in the order of the code.
\<close>

section \<open>Environment\<close>

record auth_env =
  ae_settings :: auth_settings
  ae_tokens :: token_env
  ae_kdf :: kdf
  ae_sha :: "string \<Rightarrow> string"
  ae_iso :: "real \<Rightarrow> string"
  ae_parse :: "string \<Rightarrow> real option"

record auth_draws =
  d_salt :: string
  d_token :: string

record client_info =
  c_user_agent :: "string option"
  c_ip_address :: "string option"

record token_pair =
  tp_user :: user
  tp_session :: user_session
  tp_access :: string
  tp_refresh :: string
  tp_expires_in :: int
  tp_issuer :: string

definition lift_result :: "account_error + 'a \<Rightarrow> 'a on_accounts" where
  "lift_result r = (case r of Inl e \<Rightarrow> raising e | Inr x \<Rightarrow> give x)"

definition max_failed_login_count :: int where
  "max_failed_login_count = 5"

definition lockout_seconds :: int where
  "lockout_seconds = 15 * 60"

definition invalid_credentials :: account_error where
  "invalid_credentials = InvalidCredentialsError ''Invalid username or password.''"

definition account_locked :: account_error where
  "account_locked = AccountLockedError ''Account is locked.''"

definition session_revoked :: account_error where
  "session_revoked = SessionRevokedError ''Session has been revoked.''"

definition normalize_username :: "string \<Rightarrow> string" where
  "normalize_username n = py_lower (py_strip n)"

text \<open>\<open>str.isalpha\<close> and \<open>str.isdigit\<close> of one character below 256.\<close>

definition is_alpha :: "char \<Rightarrow> bool" where
  "is_alpha c = (let n = (of_char c :: nat) in (65 \<le> n \<and> n \<le> 90) \<or> (97 \<le> n \<and> n \<le> 122)
     \<or> n = 170 \<or> n = 181 \<or> n = 186 \<or> (192 \<le> n \<and> n \<noteq> 215 \<and> n \<noteq> 247))"

definition is_digit_char :: "char \<Rightarrow> bool" where
  "is_digit_char c = (let n = (of_char c :: nat) in (48 \<le> n \<and> n \<le> 57) \<or> n = 178 \<or> n = 179 \<or> n = 185)"

definition require_strong_password :: "string \<Rightarrow> account_error + unit" where
  "require_strong_password pw =
    (if length pw < 8 then Inl (WeakPasswordError ''Password must be at least 8 characters.'')
     else if \<not> list_ex is_alpha pw \<or> \<not> list_ex is_digit_char pw
     then Inl (WeakPasswordError ''Password must include letters and numbers.'')
     else Inr ())"

definition parse_time :: "auth_env \<Rightarrow> string \<Rightarrow> account_error + real" where
  "parse_time ae t = (case ae_parse ae t of None \<Rightarrow> Inl (ValueErr ''Invalid isoformat string'') | Some x \<Rightarrow> Inr x)"

definition now_plus :: "auth_env \<Rightarrow> real \<Rightarrow> int \<Rightarrow> string" where
  "now_plus ae now seconds = ae_iso ae (now + real_of_int seconds)"

section \<open>Tokens and sessions\<close>

definition user_access_token :: "auth_env \<Rightarrow> user \<Rightarrow> real \<Rightarrow> account_error + string" where
  "user_access_token ae u now = create_access_token (ae_tokens ae) (ae_settings ae) (u_id u) (u_tenant u)
     [''chat'', ''branches''] None \<lfloor>now\<rfloor>"

definition token_pair_of :: "auth_env \<Rightarrow> user \<Rightarrow> user_session \<Rightarrow> string \<Rightarrow> string \<Rightarrow> token_pair" where
  "token_pair_of ae u x access refresh = \<lparr>tp_user = u, tp_session = x, tp_access = access, tp_refresh = refresh,
     tp_expires_in = as_access_ttl (ae_settings ae), tp_issuer = as_issuer (ae_settings ae)\<rparr>"

definition fresh_session :: "auth_env \<Rightarrow> user \<Rightarrow> client_info \<Rightarrow> string \<Rightarrow> real \<Rightarrow> real \<Rightarrow> user_session" where
  "fresh_session ae u c token now1 now2 =
    \<lparr>s_id = ae_sha ae token, s_user = u_id u, s_token_hash = ae_sha ae token,
     s_created_at = ae_iso ae now1, s_updated_at = ae_iso ae now1,
     s_expires_at = now_plus ae now2 (as_refresh_ttl (ae_settings ae)),
     s_revoked_at = None, s_last_seen_at = Some (ae_iso ae now1),
     s_user_agent = c_user_agent c, s_ip_address = c_ip_address c, s_metadata = []\<rparr>"

definition issue_token_pair :: "auth_env \<Rightarrow> user \<Rightarrow> client_info \<Rightarrow> auth_draws \<Rightarrow> real \<Rightarrow> real \<Rightarrow> real \<Rightarrow> token_pair on_accounts" where
  "issue_token_pair ae u c d now1 now2 now3 =
    and_then (create_session (fresh_session ae u c (d_token d) now1 now2)) (\<lambda>x.
    and_then (lift_result (user_access_token ae u now3)) (\<lambda>access.
      give (token_pair_of ae u x access (d_token d))))"

definition active_user :: "string \<Rightarrow> user on_accounts" where
  "active_user uid =
    and_then (try_except (repo_get_user uid)
      (\<lambda>e. case e of KeyErr m \<Rightarrow> raising invalid_credentials | _ \<Rightarrow> raising e)) (\<lambda>u.
      if status_value (u_status u) \<noteq> ''active'' then raising account_locked else give u)"

definition active_session :: "auth_env \<Rightarrow> string \<Rightarrow> real \<Rightarrow> user_session on_accounts" where
  "active_session ae token now =
    and_then (try_except (get_session (ae_sha ae token))
      (\<lambda>e. case e of KeyErr m \<Rightarrow> raising session_revoked | _ \<Rightarrow> raising e)) (\<lambda>x.
      if s_revoked_at x \<noteq> None then raising session_revoked
      else and_then (lift_result (parse_time ae (s_expires_at x))) (\<lambda>expires.
        if expires \<le> now then raising session_revoked else give x))"

section \<open>Operations\<close>

definition registered_user :: "auth_env \<Rightarrow> string \<Rightarrow> string \<Rightarrow> string option \<Rightarrow> string option \<Rightarrow> string \<Rightarrow> string \<Rightarrow> user" where
  "registered_user ae name pw display email salt now =
    \<lparr>u_id = name, u_username = Some name, u_display_name = Some (if given display then or_empty display else name),
     u_email = email, u_tenant = None, u_status = ACTIVE, u_roles = [''member''],
     u_password_hash = Some (hash_password (ae_kdf ae) salt pw), u_auth_provider = ''local'',
     u_external_subject = None, u_failed_login_count = 0, u_locked_until = None, u_created_at = now,
     u_updated_at = now, u_last_seen_at = None, u_last_login_at = None, u_password_updated_at = Some now,
     u_metadata = []\<rparr>"

definition username_taken :: account_error where
  "username_taken = UsernameTakenError ''Username is already taken.''"

definition register :: "auth_env \<Rightarrow> string \<Rightarrow> string \<Rightarrow> string option \<Rightarrow> string option \<Rightarrow> client_info \<Rightarrow> auth_draws
    \<Rightarrow> (nat \<Rightarrow> real) \<Rightarrow> token_pair on_accounts" where
  "register ae username pw display email c d clk =
    and_then (lift_result (require_strong_password pw)) (\<lambda>_.
    and_then (reading (get_user_by_username (normalize_username username))) (\<lambda>existing.
      if existing \<noteq> None then raising username_taken
      else and_then (try_except (repo_create_user (registered_user ae (normalize_username username) pw display email (d_salt d) (ae_iso ae (clk 0))))
             (\<lambda>e. if is_value_error e then raising username_taken else raising e)) (\<lambda>created.
           issue_token_pair ae created c d (clk 1) (clk 2) (clk 3))))"

definition is_locked :: "auth_env \<Rightarrow> user \<Rightarrow> real \<Rightarrow> account_error + bool" where
  "is_locked ae u now =
    (if status_value (u_status u) \<noteq> ''active'' then Inr True
     else case u_locked_until u of None \<Rightarrow> Inr False
     | Some t \<Rightarrow> bind_ok (parse_time ae t) (\<lambda>until. Inr (now < until)))"

definition failed_login_update :: "auth_env \<Rightarrow> real \<Rightarrow> real \<Rightarrow> user \<Rightarrow> user" where
  "failed_login_update ae now1 now2 u =
    (let failed_count = u_failed_login_count u + 1;
         u1 = u\<lparr>u_failed_login_count := failed_count, u_updated_at := ae_iso ae now1\<rparr>
     in if max_failed_login_count \<le> failed_count
        then u1\<lparr>u_locked_until := Some (now_plus ae now2 lockout_seconds)\<rparr> else u1)"

definition record_failed_login :: "auth_env \<Rightarrow> real \<Rightarrow> real \<Rightarrow> user \<Rightarrow> user on_accounts" where
  "record_failed_login ae now1 now2 u = save_user (failed_login_update ae now1 now2 u)"

definition login_update :: "auth_env \<Rightarrow> string \<Rightarrow> string \<Rightarrow> string \<Rightarrow> user \<Rightarrow> user" where
  "login_update ae pw salt now u =
    (let u1 = u\<lparr>u_failed_login_count := 0, u_locked_until := None, u_last_login_at := Some now,
                u_last_seen_at := Some now, u_updated_at := now\<rparr>
     in if password_needs_rehash (u_password_hash u)
        then u1\<lparr>u_password_hash := Some (hash_password (ae_kdf ae) salt pw), u_password_updated_at := Some now\<rparr>
        else u1)"

definition login :: "auth_env \<Rightarrow> string \<Rightarrow> string \<Rightarrow> client_info \<Rightarrow> auth_draws \<Rightarrow> (nat \<Rightarrow> real) \<Rightarrow> token_pair on_accounts" where
  "login ae username pw c d clk =
    and_then (reading (get_user_by_username (normalize_username username))) (\<lambda>found. case found of
      None \<Rightarrow> raising invalid_credentials
    | Some u \<Rightarrow>
        if u_password_hash u = None then raising invalid_credentials
        else and_then (lift_result (is_locked ae u (clk 0))) (\<lambda>locked.
          if locked then raising account_locked
          else if \<not> verify_password (ae_kdf ae) pw (u_password_hash u)
          then and_then (record_failed_login ae (clk 1) (clk 2) u) (\<lambda>_. raising invalid_credentials)
          else and_then (save_user (login_update ae pw (d_salt d) (ae_iso ae (clk 1)) u)) (\<lambda>saved.
            issue_token_pair ae saved c d (clk 2) (clk 3) (clk 4))))"

definition refresh :: "auth_env \<Rightarrow> string \<Rightarrow> (nat \<Rightarrow> real) \<Rightarrow> token_pair on_accounts" where
  "refresh ae token clk =
    and_then (active_session ae token (clk 0)) (\<lambda>x.
    and_then (active_user (s_user x)) (\<lambda>u.
    and_then (save_session (x\<lparr>s_last_seen_at := Some (ae_iso ae (clk 1)), s_updated_at := ae_iso ae (clk 1)\<rparr>)) (\<lambda>saved.
    and_then (lift_result (user_access_token ae u (clk 2))) (\<lambda>access.
      give (token_pair_of ae u saved access token)))))"

definition logout :: "auth_env \<Rightarrow> string option \<Rightarrow> (nat \<Rightarrow> real) \<Rightarrow> unit on_accounts" where
  "logout ae token clk =
    (if \<not> given token then give ()
     else try_except (and_then (revoke_session (ae_sha ae (or_empty token)) (ae_iso ae (clk 0))) (\<lambda>_. give ()))
       (\<lambda>e. case e of KeyErr m \<Rightarrow> give () | _ \<Rightarrow> raising e))"

definition revoke_others :: "auth_env \<Rightarrow> string \<Rightarrow> string option \<Rightarrow> real \<Rightarrow> unit on_accounts" where
  "revoke_others ae uid current now =
    (if given current then and_then (revoke_other_sessions uid (or_empty current) (ae_iso ae now)) (\<lambda>_. give ())
     else and_then (reading (list_sessions (Some uid) False)) (\<lambda>xs.
       for_each (\<lambda>x. revoke_session (s_id x) (ae_iso ae now)) xs))"

definition password_update :: "auth_env \<Rightarrow> string \<Rightarrow> string \<Rightarrow> string \<Rightarrow> user \<Rightarrow> user" where
  "password_update ae pw salt now u =
    u\<lparr>u_password_hash := Some (hash_password (ae_kdf ae) salt pw), u_password_updated_at := Some now,
      u_failed_login_count := 0, u_locked_until := None, u_updated_at := now\<rparr>"

definition change_password :: "auth_env \<Rightarrow> string \<Rightarrow> string \<Rightarrow> string \<Rightarrow> string option \<Rightarrow> string \<Rightarrow> (nat \<Rightarrow> real) \<Rightarrow> user on_accounts" where
  "change_password ae uid current_pw new_pw token salt clk =
    and_then (active_user uid) (\<lambda>u.
      if \<not> verify_password (ae_kdf ae) current_pw (u_password_hash u)
      then raising (PasswordMismatchError ''Current password does not match.'')
      else and_then (lift_result (require_strong_password new_pw)) (\<lambda>_.
        and_then (save_user (password_update ae new_pw salt (ae_iso ae (clk 0)) u)) (\<lambda>saved.
        and_then (revoke_others ae uid (if given token then Some (ae_sha ae (or_empty token)) else None) (clk 1))
          (\<lambda>_. give saved))))"

definition reset_password :: "auth_env \<Rightarrow> string \<Rightarrow> string \<Rightarrow> string \<Rightarrow> (nat \<Rightarrow> real) \<Rightarrow> user on_accounts" where
  "reset_password ae uid new_pw salt clk =
    and_then (lift_result (require_strong_password new_pw)) (\<lambda>_.
    and_then (repo_get_user uid) (\<lambda>u.
    and_then (save_user (password_update ae new_pw salt (ae_iso ae (clk 0)) u)) (\<lambda>saved.
    and_then (revoke_user_sessions uid (ae_iso ae (clk 1))) (\<lambda>_. give saved))))"

end
