(* ===== verification/AccountSafety.thy ===== *)
theory AccountSafety
  imports AuthService
begin

text \<open>
  What holds of the accounts after any sequence of operations: user names and ids stay unique,
  and the last active admin is never lost. Both are invariants over all the operations of
  \<open>services/users.py\<close> and \<open>services/auth.py\<close>, proved once in the locale \<open>account_invariant\<close>.
\<close>

section \<open>The invariant of the repository\<close>

definition same_name :: "user \<Rightarrow> user \<Rightarrow> bool" where
  "same_name u v \<longleftrightarrow> given (u_username u) \<and> given (u_username v) \<and>
    py_lower (or_empty (u_username u)) = py_lower (or_empty (u_username v))"

definition accounts_wf :: "user_repo \<Rightarrow> bool" where
  "accounts_wf s \<longleftrightarrow> wf_dict (r_users s) \<and> wf_dict (r_sessions s) \<and>
    (\<forall>k u. map_of (r_users s) k = Some u \<longrightarrow> u_id u = k) \<and>
    (\<forall>k x. map_of (r_sessions s) k = Some x \<longrightarrow> s_id x = k) \<and>
    (\<forall>k u l v. map_of (r_users s) k = Some u \<longrightarrow> map_of (r_users s) l = Some v \<longrightarrow> same_name u v \<longrightarrow> k = l)"

definition has_admin :: "user_repo \<Rightarrow> bool" where
  "has_admin s \<longleftrightarrow> (\<exists>k u. map_of (r_users s) k = Some u \<and> is_active_admin u)"

lemma accounts_wfD:
  assumes "accounts_wf s"
  shows "wf_dict (r_users s)" "wf_dict (r_sessions s)"
    "map_of (r_users s) k = Some u \<Longrightarrow> u_id u = k" "map_of (r_sessions s) k = Some x \<Longrightarrow> s_id x = k"
    "map_of (r_users s) k = Some u \<Longrightarrow> map_of (r_users s) l = Some v \<Longrightarrow> same_name u v \<Longrightarrow> k = l"
  using assms unfolding accounts_wf_def by blast+

lemma accounts_wf_empty: "accounts_wf empty_repo"
  by (simp add: accounts_wf_def empty_repo_def)

lemma map_of_put_user: "map_of (r_users (put_user u s)) k = (if k = u_id u then Some u else map_of (r_users s) k)"
  by (simp add: put_user_def)

lemma put_user_simps [simp]: "r_sessions (put_user u s) = r_sessions s" "r_audit (put_user u s) = r_audit s"
  by (simp_all add: put_user_def)

lemma found_by_name:
  assumes "accounts_wf s" "get_user_by_username n s = Some u"
  shows "map_of (r_users s) (u_id u) = Some u" "named (py_lower n) u"
proof -
  have u: "u \<in> set (vals (r_users s))" "named (py_lower n) u"
    using assms(2) by (auto simp: get_user_by_username_def find_Some_iff)
  then obtain k where "(k, u) \<in> set (r_users s)" by (auto simp: mem_vals)
  then have k: "map_of (r_users s) k = Some u" using dict_mem_iff [OF accounts_wfD(1) [OF assms(1)]] by blast
  moreover have "u_id u = k" by (rule accounts_wfD(3) [OF assms(1) k])
  ultimately show "map_of (r_users s) (u_id u) = Some u" by simp
  show "named (py_lower n) u" by (rule u(2))
qed

lemma unnamed_by_name: "get_user_by_username n s = None \<Longrightarrow> map_of (r_users s) k = Some u \<Longrightarrow> \<not> named (py_lower n) u"
  unfolding get_user_by_username_def find_None_iff using map_of_SomeD by force

lemma named_iff: "given (u_username u) \<Longrightarrow> named n u \<longleftrightarrow> py_lower (or_empty (u_username u)) = n"
  by (cases "u_username u") (auto simp: named_def given_def or_empty_def)

text \<open>The user found under a name some user has is that user.\<close>

lemma lookup_own_name:
  assumes "accounts_wf s" "map_of (r_users s) k = Some u" "given (u_username u)" "py_lower n = py_lower (or_empty (u_username u))"
  shows "get_user_by_username n s = Some u"
proof -
  have "named (py_lower n) u" using assms(3,4) by (simp add: named_iff)
  then have "get_user_by_username n s \<noteq> None" using unnamed_by_name [OF _ assms(2)] by blast
  then obtain v where v: "get_user_by_username n s = Some v" by blast
  note f = found_by_name [OF assms(1) v]
  have "or_empty (u_username u) \<noteq> []" using assms(3) by (simp add: given_def)
  then have "py_lower n \<noteq> []" using assms(4) by (simp add: py_lower_def)
  then have "given (u_username v)" using f(2)
    by (cases "u_username v") (auto simp: named_def given_def or_empty_def py_lower_def)
  then have "same_name u v" using f(2) assms(3,4) by (simp add: same_name_def named_iff)
  then have "k = u_id v" by (rule accounts_wfD(5) [OF assms(1,2) f(1)])
  then show ?thesis using f(1) assms(2) v by simp
qed

lemma accounts_wf_put_user:
  assumes wf: "accounts_wf s"
    and free: "\<And>k v. map_of (r_users s) k = Some v \<Longrightarrow> same_name u v \<Longrightarrow> k = u_id u"
  shows "accounts_wf (put_user u s)"
proof -
  have "wf_dict (r_users (put_user u s))" using accounts_wfD(1) [OF wf] by (simp add: put_user_def)
  moreover have "k = l" if k: "map_of (r_users (put_user u s)) k = Some a" and l: "map_of (r_users (put_user u s)) l = Some b"
      and ab: "same_name a b" for k l a b
  proof -
    have ba: "same_name b a" using ab by (auto simp: same_name_def)
    show ?thesis
    proof (cases "k = u_id u")
      case True
      then have a: "a = u" using k by (simp add: map_of_put_user)
      show ?thesis
      proof (cases "l = u_id u")
        case False
        then have "map_of (r_users s) l = Some b" using l by (simp add: map_of_put_user)
        then show ?thesis using free [OF _ ab [unfolded a]] True by blast
      qed (use True in simp)
    next
      case False
      then have ks: "map_of (r_users s) k = Some a" using k by (simp add: map_of_put_user)
      show ?thesis
      proof (cases "l = u_id u")
        case True
        then have b: "b = u" using l by (simp add: map_of_put_user)
        show ?thesis using free [OF ks ba [unfolded b]] True by blast
      next
        case False
        then have "map_of (r_users s) l = Some b" using l by (simp add: map_of_put_user)
        then show ?thesis using accounts_wfD(5) [OF wf ks _ ab] by blast
      qed
    qed
  qed
  moreover have "u_id v = k" if "map_of (r_users (put_user u s)) k = Some v" for k v
    using that accounts_wfD(3) [OF wf, of k v] by (simp add: map_of_put_user split: if_splits)
  moreover have "wf_dict (r_sessions (put_user u s))" using accounts_wfD(2) [OF wf] by simp
  moreover have "s_id x = k" if "map_of (r_sessions (put_user u s)) k = Some x" for k x
    using that accounts_wfD(4) [OF wf, of k x] by simp
  ultimately show ?thesis unfolding accounts_wf_def by blast
qed

lemma repo_create_user_ok:
  assumes "repo_create_user u s = (Inr v, s')"
  shows "v = u" "s' = put_user u s" "map_of (r_users s) (u_id u) = None"
    "given (u_username u) \<Longrightarrow> get_user_by_username (or_empty (u_username u)) s = None"
  using assms by (auto simp: repo_create_user_def get_user_or_none_def given_def split: if_splits)

lemma repo_create_user_failed: "repo_create_user u s = (Inl e, s') \<Longrightarrow> s' = s"
  by (auto simp: repo_create_user_def split: if_splits)

lemma save_user_ok:
  assumes "save_user u s = (Inr v, s')"
  shows "v = u" "s' = put_user u s" "map_of (r_users s) (u_id u) \<noteq> None"
    "\<And>w. get_user_by_username (or_empty (u_username u)) s = Some w \<Longrightarrow> u_id w = u_id u"
  using assms by (auto simp: save_user_def get_user_or_none_def split: if_splits option.splits)

lemma save_user_failed: "save_user u s = (Inl e, s') \<Longrightarrow> s' = s"
  by (auto simp: save_user_def split: if_splits option.splits)

lemma same_name_found:
  assumes "accounts_wf s" "map_of (r_users s) k = Some v" "same_name u v"
  shows "get_user_by_username (or_empty (u_username u)) s = Some v"
  by (rule lookup_own_name [OF assms(1,2)]) (use assms(3) in \<open>simp_all add: same_name_def\<close>)

lemma create_user_wf:
  assumes "accounts_wf s" "repo_create_user u s = (Inr v, s')"
  shows "accounts_wf s'"
proof -
  note c = repo_create_user_ok [OF assms(2)]
  show ?thesis unfolding c(2)
  proof (rule accounts_wf_put_user [OF assms(1)])
    fix k w assume k: "map_of (r_users s) k = Some w" and n: "same_name u w"
    have "given (u_username u)" using n by (simp add: same_name_def)
    then show "k = u_id u" using c(4) same_name_found [OF assms(1) k n] by simp
  qed
qed

lemma save_user_wf:
  assumes "accounts_wf s" "save_user u s = (Inr v, s')"
  shows "accounts_wf s'"
proof -
  note c = save_user_ok [OF assms(2)]
  show ?thesis unfolding c(2)
  proof (rule accounts_wf_put_user [OF assms(1)])
    fix k w assume k: "map_of (r_users s) k = Some w" and n: "same_name u w"
    have "u_id w = u_id u" by (rule c(4) [OF same_name_found [OF assms(1) k n]])
    then show "k = u_id u" using accounts_wfD(3) [OF assms(1) k] by simp
  qed
qed

lemma guarded_ok:
  assumes "save_user_preserving_last_active_admin u s = (Inr v, s')"
  obtains current where "map_of (r_users s) (u_id u) = Some current" "save_user u s = (Inr v, s')"
    "is_active_admin current \<Longrightarrow> is_active_admin u \<or> 2 \<le> count_active_admins s"
proof -
  from assms obtain current where c: "repo_get_user (u_id u) s = (Inr current, s)"
    "save_user u s = (Inr v, s')" "\<not> (removes_active_admin current u \<and> count_active_admins s \<le> 1)"
    by (auto simp: save_user_preserving_last_active_admin_def and_then_Inr repo_get_user_def
        split: option.splits if_splits)
  show ?thesis
  proof (rule that)
    show "map_of (r_users s) (u_id u) = Some current"
      using c(1) by (auto simp: repo_get_user_def get_user_or_none_def split: option.splits)
    show "save_user u s = (Inr v, s')" by (rule c(2))
    show "is_active_admin current \<Longrightarrow> is_active_admin u \<or> 2 \<le> count_active_admins s"
      using c(3) by (auto simp: removes_active_admin_def)
  qed
qed

lemma guarded_failed: "save_user_preserving_last_active_admin u s = (Inl e, s') \<Longrightarrow> s' = s"
  by (auto simp: save_user_preserving_last_active_admin_def and_then_Inl repo_get_user_def
      split: option.splits if_splits dest: save_user_failed)

text \<open>Two active admins: one of them is another user.\<close>

lemma another_admin:
  assumes "wf_dict (r_users s)" "2 \<le> count_active_admins s"
  shows "\<exists>k u. k \<noteq> uid \<and> map_of (r_users s) k = Some u \<and> is_active_admin u"
proof (rule ccontr)
  let ?ps = "filter (\<lambda>p. is_active_admin (snd p)) (r_users s)"
  assume none: "\<nexists>k u. k \<noteq> uid \<and> map_of (r_users s) k = Some u \<and> is_active_admin u"
  have "fst p = uid" if "p \<in> set ?ps" for p
    using that none dict_mem_iff [OF assms(1), of "fst p" "snd p"] by auto
  then have "fst ` set ?ps \<subseteq> {uid}" by blast
  moreover have "distinct (map fst ?ps)" using assms(1) by (rule wf_dict_filter)
  ultimately have "card (set (map fst ?ps)) \<le> 1" "length ?ps = card (set (map fst ?ps))"
    using card_mono [of "{uid}" "fst ` set ?ps"] distinct_card [of "map fst ?ps"] by simp_all
  moreover have "count_active_admins s = length ?ps" by (simp add: count_active_admins_def filter_map comp_def)
  ultimately show False using assms(2) by linarith
qed

lemma has_admin_count:
  assumes "wf_dict (r_users s)"
  shows "has_admin s \<longleftrightarrow> 0 < count_active_admins s"
proof -
  have "has_admin s \<longleftrightarrow> (\<exists>u \<in> snd ` set (r_users s). is_active_admin u)"
    unfolding has_admin_def mem_vals Bex_def dict_mem_iff [OF assms] by blast
  then show ?thesis unfolding count_active_admins_def length_greater_0_conv filter_empty_conv by simp
qed

lemma has_admin_put:
  assumes "has_admin s" "map_of (r_users s) (u_id u) = Some old" "is_active_admin old \<Longrightarrow> is_active_admin u"
  shows "has_admin (put_user u s)"
proof -
  obtain k v where v: "map_of (r_users s) k = Some v" "is_active_admin v" using assms(1) by (auto simp: has_admin_def)
  show ?thesis
  proof (cases "k = u_id u")
    case True
    then have "is_active_admin u" using v assms(2,3) by simp
    then show ?thesis unfolding has_admin_def by (intro exI [of _ "u_id u"]) (simp add: map_of_put_user)
  next
    case False
    then show ?thesis using v unfolding has_admin_def by (intro exI [of _ k]) (simp add: map_of_put_user)
  qed
qed

lemma admin_added: "''admin'' \<in> set (normalize_roles (roles @ [''admin'']))"
proof -
  have "py_lower (py_strip ''admin'') = ''admin''" by code_simp
  then show ?thesis unfolding set_normalize_roles by force
qed

lemma is_active_admin_iff: "is_active_admin u \<longleftrightarrow> u_status u = ACTIVE \<and> ''admin'' \<in> set (u_roles u)"
  by (cases "u_status u") (simp_all add: is_active_admin_def status_value_def)

section \<open>Every operation keeps an invariant of the accounts\<close>

lemma ensures_lift: "(\<And>s. P s \<Longrightarrow> E s) \<Longrightarrow> ensures P (lift_result r) (\<lambda>x s. P s \<and> r = Inr x) E"
  by (cases r) (auto simp: lift_result_def intro!: ensuresI)

lemma ensures_read: "ensures P (reading f) (\<lambda>x s. P s \<and> x = f s) E"
  by (rule ensures_reading) simp

lemma ensures_option:
  "(x = None \<Longrightarrow> ensures P m Q E) \<Longrightarrow> (\<And>y. x = Some y \<Longrightarrow> ensures P (f y) Q E) \<Longrightarrow>
   ensures P (case x of None \<Rightarrow> m | Some y \<Rightarrow> f y) Q E"
  by (cases x) auto

definition stored :: "user \<Rightarrow> user_repo \<Rightarrow> bool" where
  "stored u s \<longleftrightarrow> map_of (r_users s) (u_id u) = Some u"

text \<open>
  A property of the accounts that creating a user, saving one that stays an active admin if it
  was one, the guarded save, and any change of sessions or audit events keep.
\<close>

locale account_invariant =
  fixes I :: "user_repo \<Rightarrow> bool"
  assumes wf: "I s \<Longrightarrow> accounts_wf s"
    and create: "I s \<Longrightarrow> repo_create_user u s = (Inr v, s') \<Longrightarrow> I s'"
    and save: "I s \<Longrightarrow> map_of (r_users s) (u_id u) = Some old \<Longrightarrow> (is_active_admin old \<Longrightarrow> is_active_admin u) \<Longrightarrow>
      save_user u s = (Inr v, s') \<Longrightarrow> I s'"
    and guarded: "I s \<Longrightarrow> save_user_preserving_last_active_admin u s = (Inr v, s') \<Longrightarrow> I s'"
    and sessions: "I s \<Longrightarrow> accounts_wf (s\<lparr>r_sessions := ss\<rparr>) \<Longrightarrow> I (s\<lparr>r_sessions := ss\<rparr>)"
    and audit: "I s \<Longrightarrow> I (s\<lparr>r_audit := es\<rparr>)"
begin

lemma get_user: "ensures I (repo_get_user uid) (\<lambda>u s. I s \<and> stored u s \<and> u_id u = uid) I"
proof (rule ensuresI)
  fix s u s' assume i: "I s" and g: "repo_get_user uid s = (Inr u, s')"
  then have m: "map_of (r_users s) uid = Some u" "s' = s"
    by (auto simp: repo_get_user_def get_user_or_none_def split: option.splits)
  moreover have "u_id u = uid" by (rule accounts_wfD(3) [OF wf [OF i] m(1)])
  ultimately show "I s' \<and> stored u s' \<and> u_id u = uid" using i by (simp add: stored_def)
qed (auto simp: repo_get_user_def split: option.splits)

lemma service_get: "ensures I (service_get_user uid) (\<lambda>u s. I s \<and> stored u s \<and> u_id u = uid) I"
  unfolding service_get_user_def
  by (rule ensures_try [OF get_user]) (auto intro!: ensures_raising split: account_error.splits)

lemma save_stored:
  assumes "u_id u' = u_id u" "is_active_admin u \<Longrightarrow> is_active_admin u'"
  shows "ensures (\<lambda>s. I s \<and> stored u s) (save_user u') (\<lambda>v s. I s \<and> stored v s) I"
proof (rule ensuresI)
  fix s v s' assume i: "I s \<and> stored u s" and g: "save_user u' s = (Inr v, s')"
  have "I s'" by (rule save [OF _ _ _ g, of u]) (use i assms in \<open>auto simp: stored_def\<close>)
  then show "I s' \<and> stored v s'" using save_user_ok [OF g] by (simp add: stored_def map_of_put_user)
qed (auto dest: save_user_failed)

lemma create_stored: "ensures I (repo_create_user u) (\<lambda>v s. I s \<and> stored v s) I"
proof (rule ensuresI)
  fix s v s' assume i: "I s" and g: "repo_create_user u s = (Inr v, s')"
  show "I s' \<and> stored v s'" using create [OF i g] repo_create_user_ok [OF g] by (simp add: stored_def map_of_put_user)
qed (auto dest: repo_create_user_failed)

lemma audit_of_keeps: "ensures (\<lambda>s. I s \<and> stored u s) (audit_of q now action uid d reason meta) (\<lambda>_ s. I s \<and> stored u s) I"
  "keeps I (audit_of q now action uid d reason meta)"
  unfolding audit_of_def audit_def record_audit_event_def
  by (auto intro!: ensures_changing audit simp: stored_def)

lemma put_session_keeps:
  assumes "I s" "s_id x = k"
  shows "I (put_session k x s)"
proof -
  have "accounts_wf (put_session k x s)"
    using wf [OF assms(1)] assms(2) unfolding accounts_wf_def put_session_def by (auto split: if_splits)
  then show ?thesis unfolding put_session_def by (intro sessions assms(1))
qed

lemma revoke_session_keeps: "keeps I (revoke_session sid t)"
proof (rule ensuresI)
  fix s x s' assume i: "I s" and g: "revoke_session sid t s = (Inr x, s')"
  then obtain y where y: "map_of (r_sessions s) sid = Some y" "s' = put_session sid x s" "s_id x = s_id y"
    by (auto simp: revoke_session_def get_session_def and_then_Inr Let_def split: option.splits)
  have "s_id y = sid" by (rule accounts_wfD(4) [OF wf [OF i] y(1)])
  then show "I s'" using put_session_keeps [OF i, of x sid] y by simp
qed (auto simp: revoke_session_def get_session_def and_then_Inl Let_def split: option.splits)

lemma revoke_user_sessions_keeps: "keeps I (revoke_user_sessions uid t)"
  unfolding revoke_user_sessions_def
  by (rule ensures_and_then, rule ensures_reading, assumption) (rule keeps_for_each, rule revoke_session_keeps)

lemma create_session_keeps: "keeps I (create_session x)"
  by (rule ensuresI) (auto simp: create_session_def put_session_keeps split: if_splits)

lemma save_session_keeps: "keeps I (save_session x)"
  by (rule ensuresI) (auto simp: save_session_def put_session_keeps split: if_splits)

lemma revoke_other_sessions_keeps: "keeps I (revoke_other_sessions uid cur t)"
proof (rule ensuresI)
  let ?f = "\<lambda>x. if revoked_by_others uid cur x then x\<lparr>s_revoked_at := Some t\<rparr> else x"
  fix s n s' assume i: "I s" and "revoke_other_sessions uid cur t s = (Inr n, s')"
  then have s': "s' = s\<lparr>r_sessions := map (\<lambda>(k, x). (k, ?f x)) (r_sessions s)\<rparr>"
    by (simp add: revoke_other_sessions_def)
  have d: "wf_dict (map (\<lambda>(k, x). (k, ?f x)) (r_sessions s))"
    using accounts_wfD(2) [OF wf [OF i]] by (simp only: keys_map_vals)
  have e: "s_id x = k" if "map_of (map (\<lambda>(k, x). (k, ?f x)) (r_sessions s)) k = Some x" for k x
  proof -
    from that obtain y where "map_of (r_sessions s) k = Some y" "x = ?f y" by (auto simp: map_of_map_vals)
    then show ?thesis using accounts_wfD(4) [OF wf [OF i], of k y] by simp
  qed
  have "accounts_wf s'"
    using wf [OF i] d e unfolding s' accounts_wf_def by simp
  then show "I s'" unfolding s' by (rule sessions [OF i])
qed (simp add: revoke_other_sessions_def)

lemma ensure_keeps: "keeps I (ensure_user_from_principal str_of b p now)"
proof -
  have found: "ensures I (repo_ensure_user p defaults) (\<lambda>u s. I s \<and> stored u s) I" for defaults
  proof (rule ensuresI)
    fix s u s' assume i: "I s" and g: "repo_ensure_user p defaults s = (Inr u, s')"
    show "I s' \<and> stored u s'"
    proof (cases "get_user_or_none (p_user p) s")
      case None
      with g show ?thesis using ensures_Inr [OF create_stored i] by (simp add: repo_ensure_user_def)
    next
      case (Some v)
      then have "u_id v = p_user p" using accounts_wfD(3) [OF wf [OF i]] by (simp add: get_user_or_none_def)
      with g Some i show ?thesis by (simp add: repo_ensure_user_def stored_def get_user_or_none_def)
    qed
  qed (auto simp: repo_ensure_user_def split: option.splits dest: repo_create_user_failed)
  have grant: "ensures (\<lambda>s. I s \<and> stored u s) (grant_configured_admin b p now u) (\<lambda>v s. I s \<and> stored v s) I" for u
    unfolding grant_configured_admin_def
  proof (rule ensures_if)
    show "ensures (\<lambda>s. I s \<and> stored u s) (save_user (u\<lparr>u_roles := normalize_roles (u_roles u @ [''admin'']), u_updated_at := now\<rparr>))
        (\<lambda>v s. I s \<and> stored v s) I"
      by (rule save_stored) (simp_all add: is_active_admin_iff admin_added)
  qed (rule ensures_give)
  have active: "ensures (\<lambda>s. I s \<and> stored u s) (require_active u) (\<lambda>_ s. I s \<and> stored u s) I" for u
    unfolding require_active_def by (intro ensures_if ensures_raising ensures_give) simp_all
  have touch: "ensures (\<lambda>s. I s \<and> stored u s) (touch_last_seen now u) (\<lambda>_. I) I" for u
    unfolding touch_last_seen_def
  proof (rule ensures_if)
    show "ensures (\<lambda>s. I s \<and> stored u s) (save_user (u\<lparr>u_last_seen_at := Some now, u_updated_at := now\<rparr>)) (\<lambda>_. I) I"
      by (rule ensures_weaken [OF save_stored [of _ u]]) (simp_all add: is_active_admin_iff)
  qed (rule ensures_give, simp)
  have "keeps I (case principal_user str_of p roles (b_display_name b) (b_email b) (b_metadata b) now of
      Inl e \<Rightarrow> raising e
    | Inr defaults \<Rightarrow>
        and_then (repo_ensure_user p defaults) (\<lambda>u.
        and_then (grant_configured_admin b p now u) (\<lambda>u1.
        and_then (require_active u1) (\<lambda>_. touch_last_seen now u1))))" for roles
    by (cases "principal_user str_of p roles (b_display_name b) (b_email b) (b_metadata b) now")
      (auto intro: ensures_raising ensures_and_then [OF found] ensures_and_then [OF grant] ensures_and_then [OF active] touch)
  then show ?thesis unfolding ensure_user_from_principal_def
    by (intro ensures_and_then [of I _ "\<lambda>_. I"] ensures_reading)
qed

lemma authorize_keeps: "keeps I (authorize_principal str_of b p now)"
proof -
  have active: "keeps I (and_then (require_active u) (\<lambda>_. give u))" for u
    unfolding require_active_def by (intro ensures_and_then [of I _ "\<lambda>_. I"] ensures_if ensures_raising ensures_give)
  show ?thesis unfolding authorize_principal_def Let_def
    by (intro ensures_and_then [of I _ "\<lambda>_. I"] ensures_reading ensures_option ensures_if ensure_keeps active)
qed

lemma audited_keeps: "keeps I (and_then (audit_of q now action uid d reason meta) (\<lambda>_. m))" if "keeps I m"
  by (intro ensures_and_then [of I _ "\<lambda>_. I"] audit_of_keeps that)

lemma service_create_keeps: "keeps I (service_create_user q n clk)"
proof -
  have made: "keeps I (repo_create_user u)" for u by (rule ensures_weaken [OF create_stored]) auto
  show ?thesis unfolding service_create_user_def
    by (intro ensures_option ensures_raising ensures_and_then [of I _ "\<lambda>_. I"] ensures_try [of I _ "\<lambda>_. I" I] made
        ensures_if audited_keeps ensures_give audit_of_keeps)
qed

lemma update_fields:
  "u_id (fold apply_update xs u) = u_id u" "u_status (fold apply_update xs u) = u_status u"
  "u_roles (fold apply_update xs u) = u_roles u"
  by (induction xs arbitrary: u) (simp_all add: apply_update_def split: user_update.splits)

lemma update_user_keeps: "keeps I (update_user q uid updates clk)"
proof -
  have saved: "ensures (\<lambda>s. I s \<and> stored u s) (save_user ((fold apply_update xs u)\<lparr>u_updated_at := t\<rparr>)) (\<lambda>_. I) I" for u xs t
    by (rule ensures_weaken [OF save_stored [of _ u]]) (simp_all add: is_active_admin_iff update_fields)
  have get: "ensures I (service_get_user uid) (\<lambda>u s. I s \<and> stored u s) I"
    by (rule ensures_weaken [OF service_get]) auto
  show ?thesis unfolding update_user_def Let_def
    by (rule ensures_and_then [OF get], rule ensures_if, rule ensures_give, simp,
        rule ensures_and_then [of _ _ "\<lambda>_. I"], rule ensures_try [OF saved])
      (intro ensures_if ensures_raising audited_keeps ensures_give, assumption+)+
qed

lemma save_guarded_keeps: "keeps I (save_guarded q now action uid reason msg u)"
proof -
  have "keeps I (save_user_preserving_last_active_admin u)"
    by (rule ensuresI) (auto dest: guarded guarded_failed)
  then show ?thesis unfolding save_guarded_def audit_last_admin_denial_def
    by (rule ensures_try) (auto split: account_error.splits intro!: ensures_raising audited_keeps)
qed

lemma update_status_keeps: "keeps I (update_user_status q uid status reason clk)"
proof -
  have get: "keeps I (service_get_user uid)" by (rule ensures_weaken [OF service_get]) auto
  show ?thesis unfolding update_user_status_def
    by (intro ensures_and_then [of I _ "\<lambda>_. I"] get ensures_option ensures_raising save_guarded_keeps ensures_if
        revoke_user_sessions_keeps ensures_give audit_of_keeps)
qed

lemma update_roles_keeps: "keeps I (update_user_roles q uid roles reason clk)"
proof -
  have get: "keeps I (service_get_user uid)" by (rule ensures_weaken [OF service_get]) auto
  show ?thesis unfolding update_user_roles_def Let_def
    by (intro ensures_and_then [of I _ "\<lambda>_. I"] get save_guarded_keeps ensures_give audit_of_keeps)
qed

lemma lift_keeps: "keeps I (lift_result r)"
  by (rule ensures_weaken [OF ensures_lift [of I I]]) auto

lemma issue_keeps: "keeps I (issue_token_pair ae u c d t1 t2 t3)"
  unfolding issue_token_pair_def
  by (intro ensures_and_then [of I _ "\<lambda>_. I"] create_session_keeps lift_keeps ensures_give)

lemma register_keeps: "keeps I (register ae username pw display email c d clk)"
proof -
  have made: "keeps I (repo_create_user u)" for u by (rule ensures_weaken [OF create_stored]) auto
  show ?thesis unfolding register_def
    by (intro ensures_and_then [of I _ "\<lambda>_. I"] lift_keeps ensures_reading ensures_if ensures_raising
        ensures_try [of I _ "\<lambda>_. I" I] made issue_keeps)
qed

lemma login_keeps: "keeps I (login ae username pw c d clk)"
proof -
  have found: "ensures I (reading (get_user_by_username n)) (\<lambda>x s. I s \<and> (case x of None \<Rightarrow> True | Some u \<Rightarrow> stored u s)) I" for n
    by (rule ensures_reading) (auto simp: stored_def split: option.splits dest: found_by_name [OF wf])
  have locked: "ensures (\<lambda>s. I s \<and> stored u s) (lift_result r) (\<lambda>_ s. I s \<and> stored u s) I"
    for u and r :: "account_error + bool"
    by (rule ensures_weaken [OF ensures_lift [of "\<lambda>s. I s \<and> stored u s" I]]) auto
  have failed: "ensures (\<lambda>s. I s \<and> stored u s) (record_failed_login ae t1 t2 u) (\<lambda>_. I) I" for u t1 t2
    unfolding record_failed_login_def
    by (rule ensures_weaken [OF save_stored [of _ u]]) (simp_all add: is_active_admin_iff failed_login_update_def Let_def)
  have saved: "ensures (\<lambda>s. I s \<and> stored u s) (save_user (login_update ae pw salt t u)) (\<lambda>_. I) I" for u salt t
    by (rule ensures_weaken [OF save_stored [of _ u]]) (simp_all add: is_active_admin_iff login_update_def Let_def)
  have one: "ensures (\<lambda>s. I s \<and> stored u s) (if u_password_hash u = None then raising invalid_credentials
        else and_then (lift_result (is_locked ae u (clk 0))) (\<lambda>locked.
          if locked then raising account_locked
          else if \<not> verify_password (ae_kdf ae) pw (u_password_hash u)
          then and_then (record_failed_login ae (clk 1) (clk 2) u) (\<lambda>_. raising invalid_credentials)
          else and_then (save_user (login_update ae pw (d_salt d) (ae_iso ae (clk 1)) u)) (\<lambda>saved.
            issue_token_pair ae saved c d (clk 2) (clk 3) (clk 4)))) (\<lambda>_. I) I" for u
    by (intro ensures_if ensures_raising ensures_and_then [OF locked] ensures_and_then [OF failed]
        ensures_and_then [OF saved] issue_keeps) simp_all
  show ?thesis unfolding login_def
  proof (rule ensures_and_then [OF found], rule ensures_option)
    fix x :: "user option" assume "x = None"
    then show "ensures (\<lambda>s. I s \<and> (case x of None \<Rightarrow> True | Some u \<Rightarrow> stored u s)) (raising invalid_credentials) (\<lambda>_. I) I"
      by (intro ensures_raising) simp
  next
    fix x :: "user option" and u assume "x = Some u"
    then show "ensures (\<lambda>s. I s \<and> (case x of None \<Rightarrow> True | Some u \<Rightarrow> stored u s))
        (if u_password_hash u = None then raising invalid_credentials
        else and_then (lift_result (is_locked ae u (clk 0))) (\<lambda>locked.
          if locked then raising account_locked
          else if \<not> verify_password (ae_kdf ae) pw (u_password_hash u)
          then and_then (record_failed_login ae (clk 1) (clk 2) u) (\<lambda>_. raising invalid_credentials)
          else and_then (save_user (login_update ae pw (d_salt d) (ae_iso ae (clk 1)) u)) (\<lambda>saved.
            issue_token_pair ae saved c d (clk 2) (clk 3) (clk 4)))) (\<lambda>_. I) I"
      using one [of u] by simp
  qed
qed

lemma active_user_stored: "ensures I (active_user uid) (\<lambda>u s. I s \<and> stored u s) I"
  unfolding active_user_def
  by (rule ensures_and_then [OF ensures_try [OF get_user]])
    (auto intro!: ensures_raising ensures_give ensures_if split: account_error.splits)

lemma refresh_keeps: "keeps I (refresh ae token clk)"
proof -
  have session: "keeps I (get_session sid)" for sid
    by (rule ensuresI) (auto simp: get_session_def split: option.splits)
  have active: "keeps I (active_session ae token t)" for t
    unfolding active_session_def
    by (rule ensures_and_then [of I _ "\<lambda>_. I"], rule ensures_try [OF session])
      (auto intro!: ensures_raising ensures_give ensures_and_then [of I _ "\<lambda>_. I"] lift_keeps split: account_error.splits)
  have user: "keeps I (active_user uid)" for uid by (rule ensures_weaken [OF active_user_stored]) auto
  show ?thesis unfolding refresh_def
    by (intro ensures_and_then [of I _ "\<lambda>_. I"] active user save_session_keeps lift_keeps ensures_give)
qed

lemma logout_keeps: "keeps I (logout ae token clk)"
  unfolding logout_def
  by (intro ensures_if ensures_give ensures_try [of I _ "\<lambda>_. I" I] ensures_and_then [of I _ "\<lambda>_. I"] revoke_session_keeps)
    (auto intro!: ensures_raising ensures_give split: account_error.splits)

lemma revoke_others_keeps: "keeps I (revoke_others ae uid current t)"
  unfolding revoke_others_def
  by (intro ensures_if ensures_and_then [of I _ "\<lambda>_. I"] revoke_other_sessions_keeps ensures_give ensures_reading
      keeps_for_each revoke_session_keeps)

lemma password_saved:
  "ensures (\<lambda>s. I s \<and> stored u s) (save_user (password_update ae pw salt t u)) (\<lambda>_. I) I"
  by (rule ensures_weaken [OF save_stored [of _ u]]) (simp_all add: is_active_admin_iff password_update_def)

lemma change_password_keeps: "keeps I (change_password ae uid current_pw new_pw token salt clk)"
proof -
  have strong: "ensures (\<lambda>s. I s \<and> stored u s) (lift_result r) (\<lambda>_ s. I s \<and> stored u s) I"
    for u and r :: "account_error + unit"
    by (rule ensures_weaken [OF ensures_lift [of "\<lambda>s. I s \<and> stored u s" I]]) auto
  show ?thesis unfolding change_password_def
    by (rule ensures_and_then [OF active_user_stored])
      (intro ensures_if ensures_raising ensures_and_then [OF strong] ensures_and_then [OF password_saved]
        ensures_and_then [OF revoke_others_keeps] ensures_give, simp_all)
qed

lemma reset_password_keeps: "keeps I (reset_password ae uid new_pw salt clk)"
proof -
  have get: "ensures I (repo_get_user uid) (\<lambda>u s. I s \<and> stored u s) I"
    by (rule ensures_weaken [OF get_user]) auto
  show ?thesis unfolding reset_password_def
    by (intro ensures_and_then [OF lift_keeps] ensures_and_then [OF get] ensures_and_then [OF password_saved]
        ensures_and_then [OF revoke_user_sessions_keeps] ensures_give)
qed

end

section \<open>The two invariants\<close>

lemma sessions_wf:
  "accounts_wf (s\<lparr>r_sessions := ss\<rparr>) \<Longrightarrow> accounts_wf s \<and> has_admin s \<Longrightarrow>
   accounts_wf (s\<lparr>r_sessions := ss\<rparr>) \<and> has_admin (s\<lparr>r_sessions := ss\<rparr>)"
  by (simp add: has_admin_def)

lemma accounts_wf_audit: "accounts_wf s \<Longrightarrow> accounts_wf (s\<lparr>r_audit := es\<rparr>)"
  by (simp add: accounts_wf_def)

lemma has_admin_create:
  assumes "has_admin s" "repo_create_user u s = (Inr v, s')"
  shows "has_admin s'"
proof -
  obtain k w where w: "map_of (r_users s) k = Some w" "is_active_admin w" using assms(1) by (auto simp: has_admin_def)
  note c = repo_create_user_ok [OF assms(2)]
  have "k \<noteq> u_id u" using w(1) c(3) by auto
  then show ?thesis using w unfolding c(2) has_admin_def by (intro exI [of _ k]) (simp add: map_of_put_user)
qed

lemma has_admin_guarded:
  assumes "accounts_wf s" "has_admin s" "save_user_preserving_last_active_admin u s = (Inr v, s')"
  shows "has_admin s'"
proof (rule guarded_ok [OF assms(3)])
  fix current assume c: "map_of (r_users s) (u_id u) = Some current" "save_user u s = (Inr v, s')"
    "is_active_admin current \<Longrightarrow> is_active_admin u \<or> 2 \<le> count_active_admins s"
  note sv = save_user_ok [OF c(2)]
  show "has_admin s'"
  proof (cases "is_active_admin current \<longrightarrow> is_active_admin u")
    case True
    then show ?thesis unfolding sv(2) by (intro has_admin_put [OF assms(2) c(1)]) simp
  next
    case False
    then have "2 \<le> count_active_admins s" using c(3) by blast
    then obtain k w where w: "k \<noteq> u_id u" "map_of (r_users s) k = Some w" "is_active_admin w"
      using another_admin [OF accounts_wfD(1) [OF assms(1)]] by blast
    then show ?thesis unfolding sv(2) has_admin_def by (intro exI [of _ k]) (simp add: map_of_put_user)
  qed
qed

lemma guarded_wf:
  assumes "accounts_wf s" "save_user_preserving_last_active_admin u s = (Inr v, s')"
  shows "accounts_wf s'"
  by (rule guarded_ok [OF assms(2)]) (rule save_user_wf [OF assms(1)])

interpretation wf_inv: account_invariant accounts_wf
  by unfold_locales (blast intro: create_user_wf save_user_wf guarded_wf accounts_wf_audit)+

interpretation admin_inv: account_invariant "\<lambda>s. accounts_wf s \<and> has_admin s"
proof unfold_locales
  fix s u v s' assume "accounts_wf s \<and> has_admin s" "repo_create_user u s = (Inr v, s')"
  then show "accounts_wf s' \<and> has_admin s'" using create_user_wf has_admin_create by blast
next
  fix s s' u old v
  assume i: "accounts_wf s \<and> has_admin s" "map_of (r_users s) (u_id u) = Some old"
    "is_active_admin old \<Longrightarrow> is_active_admin u" "save_user u s = (Inr v, s')"
  have "has_admin (put_user u s)" by (rule has_admin_put [OF _ i(2,3)]) (use i(1) in auto)
  then show "accounts_wf s' \<and> has_admin s'" using save_user_wf [OF _ i(4)] save_user_ok(2) [OF i(4)] i(1) by blast
next
  fix s u v s' assume "accounts_wf s \<and> has_admin s" "save_user_preserving_last_active_admin u s = (Inr v, s')"
  then show "accounts_wf s' \<and> has_admin s'" using guarded_wf has_admin_guarded by blast
next
  fix s ss assume "accounts_wf s \<and> has_admin s" "accounts_wf (s\<lparr>r_sessions := ss\<rparr>)"
  then show "accounts_wf (s\<lparr>r_sessions := ss\<rparr>) \<and> has_admin (s\<lparr>r_sessions := ss\<rparr>)" by (intro sessions_wf)
next
  fix s es assume "accounts_wf s \<and> has_admin s"
  then show "accounts_wf (s\<lparr>r_audit := es\<rparr>) \<and> has_admin (s\<lparr>r_audit := es\<rparr>)"
    by (simp add: accounts_wf_audit has_admin_def)
qed simp

section \<open>Reachable accounts\<close>

text \<open>One operation of the services, whatever its arguments, clock readings, draws and outcome.\<close>

inductive account_step :: "(pyval \<Rightarrow> string) \<Rightarrow> auth_env \<Rightarrow> user_repo \<Rightarrow> user_repo \<Rightarrow> bool" for str_of ae where
  step_ensure: "ensure_user_from_principal str_of b p now s = (r, s') \<Longrightarrow> account_step str_of ae s s'"
| step_authorize: "authorize_principal str_of b p now s = (r, s') \<Longrightarrow> account_step str_of ae s s'"
| step_create: "service_create_user q n clk s = (r, s') \<Longrightarrow> account_step str_of ae s s'"
| step_update: "update_user q uid updates clk s = (r, s') \<Longrightarrow> account_step str_of ae s s'"
| step_status: "update_user_status q uid status reason clk s = (r, s') \<Longrightarrow> account_step str_of ae s s'"
| step_roles: "update_user_roles q uid roles reason clk s = (r, s') \<Longrightarrow> account_step str_of ae s s'"
| step_audit: "audit_of q now action uid d reason meta s = (r', s') \<Longrightarrow> account_step str_of ae s s'"
| step_register: "register ae name pw display email c d tick s = (r2, s') \<Longrightarrow> account_step str_of ae s s'"
| step_login: "login ae name pw c d tick s = (r2, s') \<Longrightarrow> account_step str_of ae s s'"
| step_refresh: "refresh ae token tick s = (r2, s') \<Longrightarrow> account_step str_of ae s s'"
| step_logout: "logout ae otoken tick s = (r', s') \<Longrightarrow> account_step str_of ae s s'"
| step_change: "change_password ae uid pw new_pw otoken salt tick s = (r, s') \<Longrightarrow> account_step str_of ae s s'"
| step_reset: "reset_password ae uid new_pw salt tick s = (r, s') \<Longrightarrow> account_step str_of ae s s'"

lemma keeps_outcome: "keeps I m \<Longrightarrow> I s \<Longrightarrow> m s = (r, s') \<Longrightarrow> I s'"
  using keeps_state [of I m s] by simp

context account_invariant
begin

lemmas operations_keep = ensure_keeps authorize_keeps service_create_keeps update_user_keeps update_status_keeps
  update_roles_keeps audit_of_keeps(2) register_keeps login_keeps refresh_keeps logout_keeps change_password_keeps
  reset_password_keeps

lemma step_keeps: "account_step str_of ae s s' \<Longrightarrow> I s \<Longrightarrow> I s'"
  by (induction rule: account_step.induct)
    (rule keeps_outcome [where I = I, rotated 2], assumption, rule operations_keep, assumption)+

end

lemma steps_keep_wf:
  assumes "(account_step str_of ae)\<^sup>*\<^sup>* s s'" "accounts_wf s"
  shows "accounts_wf s'"
  using assms by (induction rule: rtranclp_induct) (blast intro: wf_inv.step_keeps)+

lemma steps_keep_admin:
  assumes "(account_step str_of ae)\<^sup>*\<^sup>* s s'" "accounts_wf s \<and> has_admin s"
  shows "accounts_wf s' \<and> has_admin s'"
  using assms
proof (induction rule: rtranclp_induct)
  case (step y z)
  from step.hyps(2) step.IH [OF step.prems] show ?case by (rule admin_inv.step_keeps)
qed

section \<open>Properties\<close>

text \<open>Whatever operations ran, a user is stored under its own id, and no two users have names that differ in case only.\<close>

lemma accounts_stay_unique:
  assumes "(account_step str_of ae)\<^sup>*\<^sup>* empty_repo s"
    "map_of (r_users s) k = Some u" "map_of (r_users s) l = Some v"
    "u_username u = Some m" "u_username v = Some n" "m \<noteq> []" "py_lower m = py_lower n"
  shows "k = l \<and> u_id u = k"
proof -
  have wf: "accounts_wf s" by (rule steps_keep_wf [OF assms(1) accounts_wf_empty])
  have "n \<noteq> []" using assms(6,7) by (auto simp: py_lower_def)
  then have "same_name u v" using assms(4-7) by (simp add: same_name_def given_def or_empty_def)
  then show ?thesis using accounts_wfD(5) [OF wf assms(2,3)] accounts_wfD(3) [OF wf assms(2)] by blast
qed

text \<open>C8: As long as there is an active admin, no sequence of operations leaves the accounts without one.\<close>

theorem last_admin_never_lost:
  assumes "accounts_wf s" "0 < count_active_admins s" "(account_step str_of ae)\<^sup>*\<^sup>* s s'"
  shows "0 < count_active_admins s'"
proof -
  have "has_admin s" using assms(1,2) has_admin_count [OF accounts_wfD(1) [OF assms(1)]] by simp
  then have "accounts_wf s' \<and> has_admin s'" using steps_keep_admin [OF assms(3)] assms(1) by blast
  then show ?thesis using has_admin_count [OF accounts_wfD(1)] by blast
qed

section \<open>Witnesses\<close>

definition ex_request :: request_info where
  "ex_request = \<lparr>q_actor = None, q_request = None, q_event_id = ''e''\<rparr>"

definition ex_new_admin :: new_user where
  "ex_new_admin = \<lparr>n_id = ''ann'', n_username = Some '' Ann'', n_display_name = None, n_email = None,
     n_tenant = None, n_status = ''active'', n_roles = [''Admin''], n_metadata = []\<rparr>"

definition ex_accounts :: user_repo where
  "ex_accounts = snd (service_create_user ex_request ex_new_admin (\<lambda>n. ''t'') empty_repo)"

definition ex_auth_env :: auth_env where
  "ex_auth_env = \<lparr>ae_settings = ex_settings, ae_tokens = ex_token_env, ae_kdf = (\<lambda>pw salt n. pw),
     ae_sha = (\<lambda>t. t), ae_iso = (\<lambda>x. ''t''), ae_parse = (\<lambda>t. Some 0)\<rparr>"

lemma ex_accounts_step: "account_step str_of ae empty_repo ex_accounts"
  by (rule step_create [of ex_request ex_new_admin "\<lambda>n. ''t''" _ "fst (service_create_user ex_request ex_new_admin (\<lambda>n. ''t'') empty_repo)"])
    (simp add: ex_accounts_def)

lemma ex_accounts_user:
  "map_option (\<lambda>u. (u_username u, is_active_admin u)) (map_of (r_users ex_accounts) ''ann'') = Some (Some ''ann'', True)"
  by code_simp

theorem accounts_stay_unique_witness:
  "\<exists>u. map_of (r_users ex_accounts) ''ann'' = Some u \<and> u_username u = Some ''ann'' \<and> u_id u = ''ann''"
proof -
  obtain u where u: "map_of (r_users ex_accounts) ''ann'' = Some u" "u_username u = Some ''ann''"
    using ex_accounts_user by (cases "map_of (r_users ex_accounts) ''ann''") auto
  have r: "(account_step (\<lambda>v. []) ex_auth_env)\<^sup>*\<^sup>* empty_repo ex_accounts"
    by (rule r_into_rtranclp) (rule ex_accounts_step)
  show ?thesis using accounts_stay_unique [OF r u(1) u(1) u(2) u(2)] u by simp
qed

theorem last_admin_never_lost_witness:
  "0 < count_active_admins ex_accounts \<and>
   0 < count_active_admins (snd (update_user_status ex_request ''ann'' ''disabled'' None (\<lambda>n. ''t2'') ex_accounts))"
proof -
  have c: "0 < count_active_admins ex_accounts" by code_simp
  have wf: "accounts_wf ex_accounts" by (rule wf_inv.step_keeps [OF ex_accounts_step accounts_wf_empty])
  have "account_step (\<lambda>v. []) ex_auth_env ex_accounts
      (snd (update_user_status ex_request ''ann'' ''disabled'' None (\<lambda>n. ''t2'') ex_accounts))"
    by (rule step_status [of ex_request "''ann''" "''disabled''" None "\<lambda>n. ''t2''" _
        "fst (update_user_status ex_request ''ann'' ''disabled'' None (\<lambda>n. ''t2'') ex_accounts)"]) simp
  then show ?thesis using c last_admin_never_lost [OF wf c r_into_rtranclp] by blast
qed

end
