(* ===== verification/AuthSafety.thy ===== *)
theory AuthSafety
  imports AccountSafety
begin

text \<open>
  What authentication promises: who may refresh, which sessions end when a password or a status
  changes, the lockout after five failures, and two behaviours of registration that concern
  other accounts.
\<close>

section \<open>Sessions\<close>

definition revoke_at :: "string \<Rightarrow> user_session \<Rightarrow> user_session" where
  "revoke_at t x = x\<lparr>s_revoked_at := Some (if given (s_revoked_at x) then or_empty (s_revoked_at x) else t)\<rparr>"

lemma revoke_at_simps [simp]: "s_user (revoke_at t x) = s_user x" "s_revoked_at (revoke_at t x) \<noteq> None"
  by (simp_all add: revoke_at_def)

lemma revoke_session_run:
  "map_of (r_sessions s) sid = Some x \<Longrightarrow> revoke_session sid t s = (Inr (revoke_at t x), put_session sid (revoke_at t x) s)"
  by (simp add: revoke_session_def and_then_def get_session_def Let_def changing_def give_def revoke_at_def)

lemma put_session_simps [simp]: "r_users (put_session k x s) = r_users s"
  "map_of (r_sessions (put_session k x s)) l = (if l = k then Some x else map_of (r_sessions s) l)"
  by (simp_all add: put_session_def)

lemma for_each_revoke:
  assumes "\<And>x. x \<in> set xs \<Longrightarrow> map_of (r_sessions s) (s_id x) \<noteq> None"
  shows "\<exists>s'. for_each (\<lambda>x. revoke_session (s_id x) t) xs s = (Inr (), s') \<and> r_users s' = r_users s \<and>
    (\<forall>k y. map_of (r_sessions s') k = Some y \<longrightarrow> s_revoked_at y = None \<longrightarrow>
       map_of (r_sessions s) k = Some y \<and> k \<notin> s_id ` set xs)"
  using assms
proof (induction xs arbitrary: s)
  case Nil
  show ?case by (intro exI [of _ s]) (simp add: give_def)
next
  case (Cons x xs)
  obtain y where y: "map_of (r_sessions s) (s_id x) = Some y" using Cons.prems [of x] by auto
  let ?s = "put_session (s_id x) (revoke_at t y) s"
  have known: "map_of (r_sessions ?s) (s_id z) \<noteq> None" if "z \<in> set xs" for z
    using Cons.prems [of z] that by simp
  obtain s' where s': "for_each (\<lambda>x. revoke_session (s_id x) t) xs ?s = (Inr (), s')" "r_users s' = r_users ?s"
    "\<forall>k y. map_of (r_sessions s') k = Some y \<longrightarrow> s_revoked_at y = None \<longrightarrow>
       map_of (r_sessions ?s) k = Some y \<and> k \<notin> s_id ` set xs"
    using Cons.IH [OF known] by blast
  have "map_of (r_sessions s) k = Some z \<and> k \<notin> s_id ` set (x # xs)"
    if m: "map_of (r_sessions s') k = Some z" "s_revoked_at z = None" for k z
  proof -
    have z: "map_of (r_sessions ?s) k = Some z" "k \<notin> s_id ` set xs" using s'(3) m by blast+
    then have "k \<noteq> s_id x" using m(2) by (auto split: if_splits)
    then show ?thesis using z by simp
  qed
  moreover have "for_each (\<lambda>x. revoke_session (s_id x) t) (x # xs) s = (Inr (), s')"
    using s'(1) by (simp add: and_then_def revoke_session_run [OF y])
  ultimately show ?case using s'(2) by (intro exI [of _ s']) simp
qed

text \<open>A user without a live session.\<close>

definition no_live_session :: "string \<Rightarrow> user_repo \<Rightarrow> bool" where
  "no_live_session uid s \<longleftrightarrow> (\<forall>k x. map_of (r_sessions s) k = Some x \<longrightarrow> s_user x = uid \<longrightarrow> s_revoked_at x \<noteq> None)"

lemma set_list_sessions:
  "x \<in> set (list_sessions (Some uid) False s) \<longleftrightarrow>
    (\<exists>k. (k, x) \<in> set (r_sessions s)) \<and> s_user x = uid \<and> s_revoked_at x = None"
  by (auto simp: list_sessions_def Let_def mem_vals)

lemma revoke_user_sessions_ends:
  assumes "accounts_wf s"
  obtains s' where "revoke_user_sessions uid t s = (Inr (), s')" "r_users s' = r_users s" "no_live_session uid s'"
proof -
  let ?xs = "list_sessions (Some uid) False s"
  have id: "map_of (r_sessions s) (s_id x) = Some x" if "x \<in> set ?xs" for x
  proof -
    obtain k where "(k, x) \<in> set (r_sessions s)" using \<open>x \<in> set ?xs\<close> unfolding set_list_sessions by blast
    then have k: "map_of (r_sessions s) k = Some x" using dict_mem_iff [OF accounts_wfD(2) [OF assms]] by blast
    moreover have "s_id x = k" by (rule accounts_wfD(4) [OF assms k])
    ultimately show ?thesis by simp
  qed
  have known: "map_of (r_sessions s) (s_id x) \<noteq> None" if "x \<in> set ?xs" for x using id [OF that] by simp
  obtain s' where s': "for_each (\<lambda>x. revoke_session (s_id x) t) ?xs s = (Inr (), s')" "r_users s' = r_users s"
    "\<forall>k y. map_of (r_sessions s') k = Some y \<longrightarrow> s_revoked_at y = None \<longrightarrow>
       map_of (r_sessions s) k = Some y \<and> k \<notin> s_id ` set ?xs"
    using for_each_revoke [of ?xs s t, OF known] by blast
  show ?thesis
  proof (rule that [of s'])
    show "revoke_user_sessions uid t s = (Inr (), s')"
      using s'(1) by (simp add: revoke_user_sessions_def and_then_def reading_def)
    show "r_users s' = r_users s" by (rule s'(2))
    show "no_live_session uid s'" unfolding no_live_session_def
    proof (intro allI impI notI)
      fix k x assume m: "map_of (r_sessions s') k = Some x" "s_user x = uid" "s_revoked_at x = None"
      from s'(3) m(1,3) have k: "map_of (r_sessions s) k = Some x" "k \<notin> s_id ` set ?xs" by blast+
      have "(k, x) \<in> set (r_sessions s)" by (rule map_of_SomeD [OF k(1)])
      then have "x \<in> set ?xs" unfolding set_list_sessions using m by blast
      moreover have "s_id x = k" by (rule accounts_wfD(4) [OF assms k(1)])
      ultimately show False using k(2) by blast
    qed
  qed
qed

text \<open>A refresh with a revoked or unknown session is refused, and changes nothing.\<close>

lemma refresh_refused:
  assumes "\<And>x. map_of (r_sessions s) (ae_sha ae token) = Some x \<Longrightarrow> s_revoked_at x \<noteq> None"
  shows "refresh ae token clk s = (Inl session_revoked, s)"
proof (cases "map_of (r_sessions s) (ae_sha ae token)")
  case None
  then show ?thesis by (simp add: refresh_def active_session_def and_then_def try_except_def get_session_def raising_def)
next
  case (Some x)
  then show ?thesis using assms [OF Some]
    by (simp add: refresh_def active_session_def and_then_def try_except_def get_session_def raising_def give_def)
qed

lemma refresh_ok:
  assumes "refresh ae token clk s = (Inr tp, s')"
  obtains x u t where "map_of (r_sessions s) (ae_sha ae token) = Some x" "s_revoked_at x = None"
    "ae_parse ae (s_expires_at x) = Some t" "clk 0 < t"
    "map_of (r_users s) (s_user x) = Some u" "u_status u = ACTIVE" "tp_user tp = u" "tp_refresh tp = token"
proof -
  from assms obtain x s1 u s2 where x: "active_session ae token (clk 0) s = (Inr x, s1)"
    and u: "active_user (s_user x) s1 = (Inr u, s2)" and tp: "tp_user tp = u" "tp_refresh tp = token"
    unfolding refresh_def by (auto simp: and_then_Inr token_pair_of_def)
  have x': "map_of (r_sessions s) (ae_sha ae token) = Some x \<and> s_revoked_at x = None \<and> s1 = s \<and>
      (\<exists>t. ae_parse ae (s_expires_at x) = Some t \<and> clk 0 < t)"
    using x unfolding active_session_def
    by (auto simp: and_then_Inr try_except_Inr get_session_def lift_result_def parse_time_def
        split: option.splits if_splits account_error.splits sum.splits)
  moreover have "map_of (r_users s1) (s_user x) = Some u \<and> u_status u = ACTIVE"
    using u unfolding active_user_def
    by (cases "u_status u") (auto simp: and_then_Inr try_except_Inr repo_get_user_def get_user_or_none_def status_value_def
        split: option.splits if_splits account_error.splits)
  ultimately show ?thesis using that tp by blast
qed

section \<open>Properties of sessions\<close>

text \<open>A refresh succeeds only with a session that is neither revoked nor expired, for a user that is active.\<close>

lemma refresh_needs_live_session:
  assumes "refresh ae token clk s = (Inr tp, s')"
  shows "\<exists>x u t. map_of (r_sessions s) (ae_sha ae token) = Some x \<and> s_revoked_at x = None \<and>
    ae_parse ae (s_expires_at x) = Some t \<and> clk 0 < t \<and>
    map_of (r_users s) (s_user x) = Some u \<and> u_status u = ACTIVE \<and> tp_user tp = u"
  by (rule refresh_ok [OF assms]) blast

text \<open>After a logout, the refresh token it was given is refused for good.\<close>

lemma logout_ends_session:
  assumes "token \<noteq> []" "logout ae (Some token) clk s = (r, s1)"
  shows "r = Inr () \<and> refresh ae token clk' s1 = (Inl session_revoked, s1)"
proof -
  have g: "given (Some token)" "or_empty (Some token) = token" using assms(1) by (simp_all add: given_def or_empty_def)
  show ?thesis
  proof (cases "map_of (r_sessions s) (ae_sha ae token)")
    case None
    then have "revoke_session (ae_sha ae token) (ae_iso ae (clk 0)) s = (Inl (KeyErr (''Unknown user session: '' @ ae_sha ae token)), s)"
      by (simp add: revoke_session_def and_then_def get_session_def raising_def)
    then have "r = Inr ()" "s1 = s" using assms(2) by (simp_all add: logout_def g and_then_def try_except_def give_def)
    then show ?thesis using None by (auto intro: refresh_refused)
  next
    case (Some x)
    note r = revoke_session_run [OF this]
    have "r = Inr ()" "s1 = put_session (ae_sha ae token) (revoke_at (ae_iso ae (clk 0)) x) s"
      using assms(2) by (simp_all add: logout_def g and_then_def try_except_def r give_def)
    then show ?thesis by (auto intro!: refresh_refused simp: revoke_at_def)
  qed
qed

lemma no_live_session_refused:
  assumes "no_live_session uid s" "map_of (r_sessions s) (ae_sha ae token) = Some x" "s_user x = uid"
  shows "refresh ae token clk s = (Inl session_revoked, s)"
  by (rule refresh_refused) (use assms in \<open>auto simp: no_live_session_def\<close>)

lemma reset_ends:
  assumes "accounts_wf s" "reset_password ae uid pw salt clk s = (Inr u, s')"
  shows "no_live_session uid s'"
proof -
  from assms(2) obtain u0 s1 s2 where g: "repo_get_user uid s = (Inr u0, s1)"
    and sv: "save_user (password_update ae pw salt (ae_iso ae (clk 0)) u0) s1 = (Inr u, s2)"
    and rv: "revoke_user_sessions uid (ae_iso ae (clk 1)) s2 = (Inr (), s')"
    unfolding reset_password_def by (auto simp: and_then_Inr lift_result_def split: sum.splits)
  have "s1 = s" using g by (auto simp: repo_get_user_def split: option.splits)
  then have "accounts_wf s2" using save_user_wf [OF assms(1)] sv by simp
  from revoke_user_sessions_ends [OF this] obtain s3 where
    "revoke_user_sessions uid (ae_iso ae (clk 1)) s2 = (Inr (), s3)" "no_live_session uid s3" by blast
  then show ?thesis using rv by simp
qed

lemma save_guarded_ok:
  assumes "save_guarded q now action uid reason msg u s = (Inr v, s')"
  shows "save_user_preserving_last_active_admin u s = (Inr v, s')"
proof (cases "save_user_preserving_last_active_admin u s")
  case (Pair r s1)
  show ?thesis
  proof (cases r)
    case (Inl e)
    with assms Pair show ?thesis
      by (cases e) (auto simp: save_guarded_def try_except_def and_then_Inr)
  next
    case (Inr w)
    with assms Pair show ?thesis by (simp add: save_guarded_def try_except_def)
  qed
qed

lemma status_ends:
  assumes "accounts_wf s" "update_user_status q uid status reason clk s = (Inr u, s')" "parse_status status \<noteq> Some ACTIVE"
  shows "no_live_session uid s' \<and> u_status u \<noteq> ACTIVE \<and> map_of (r_users s') uid = Some u"
proof -
  from assms(2) obtain u0 s1 next_status s2 s3 s4 where g: "service_get_user uid s = (Inr u0, s1)"
    and n: "parse_status status = Some next_status"
    and sv: "save_guarded q (clk 1) ''users.status'' uid ''cannot_disable_last_active_admin''
        ''Cannot disable the last active admin user.'' (u0\<lparr>u_status := next_status, u_updated_at := clk 0\<rparr>) s1 = (Inr u, s2)"
    and rv: "(if next_status \<noteq> ACTIVE then revoke_user_sessions uid (u_updated_at u) else give ()) s2 = (Inr (), s3)"
    and au: "audit_of q (clk 1) ''users.status'' uid SUCCESS reason [(''status'', PStr (status_value next_status))] s3 = (Inr (), s')"
    unfolding update_user_status_def by (auto simp: and_then_Inr split: option.splits)
  have na: "next_status \<noteq> ACTIVE" using assms(3) n by simp
  have g': "s1 = s" "u_id u0 = uid"
    using g ensures_Inr [OF wf_inv.service_get assms(1) g]
    by (auto simp: service_get_user_def try_except_Inr repo_get_user_def split: option.splits account_error.splits)
  have sv': "save_user_preserving_last_active_admin (u0\<lparr>u_status := next_status, u_updated_at := clk 0\<rparr>) s1 = (Inr u, s2)"
    by (rule save_guarded_ok [OF sv])
  then have wf2: "accounts_wf s2" using guarded_wf [OF assms(1)] g'(1) by simp
  from sv' have st: "save_user (u0\<lparr>u_status := next_status, u_updated_at := clk 0\<rparr>) s1 = (Inr u, s2)"
    by (rule guarded_ok)
  have u: "u_status u = next_status" "map_of (r_users s2) uid = Some u"
    using save_user_ok [OF st] g'(2) by (simp_all add: map_of_put_user)
  from revoke_user_sessions_ends [OF wf2] obtain s5 where
    "revoke_user_sessions uid (u_updated_at u) s2 = (Inr (), s5)" "r_users s5 = r_users s2" "no_live_session uid s5" by blast
  then have "no_live_session uid s3" "r_users s3 = r_users s2" using rv na by simp_all
  moreover have "r_sessions s' = r_sessions s3" "r_users s' = r_users s3"
    using au by (auto simp: audit_of_def audit_def record_audit_event_def)
  ultimately show ?thesis using u na by (simp add: no_live_session_def)
qed

text \<open>C20: A password reset, and any status but active, end every session of the user: its refresh tokens are refused.\<close>

theorem reset_and_disable_end_sessions:
  assumes "accounts_wf s"
    "reset_password ae uid pw salt clk s = (Inr u, s') \<or>
     update_user_status q uid status reason tick s = (Inr u, s') \<and> parse_status status \<noteq> Some ACTIVE"
    "map_of (r_sessions s') (ae_sha ae token) = Some x" "s_user x = uid"
  shows "refresh ae token clk' s' = (Inl session_revoked, s')"
proof -
  have "no_live_session uid s'" using assms(2) reset_ends [OF assms(1)] status_ends [OF assms(1)] by blast
  then show ?thesis by (rule no_live_session_refused [OF _ assms(3,4)])
qed

text \<open>Changing a password with a refresh token ends every other session of the user and leaves that one as it was.\<close>

lemma change_password_spares_current:
  assumes "accounts_wf s" "token \<noteq> []" "ae_sha ae token \<noteq> []"
    "change_password ae uid old_pw new_pw (Some token) salt clk s = (Inr u, s')"
  shows "(\<forall>k x. map_of (r_sessions s') k = Some x \<longrightarrow> s_user x = uid \<longrightarrow> k \<noteq> ae_sha ae token \<longrightarrow> s_revoked_at x \<noteq> None) \<and>
    map_of (r_sessions s') (ae_sha ae token) = map_of (r_sessions s) (ae_sha ae token)"
proof -
  have g: "given (Some token)" "or_empty (Some token) = token" "given (Some (ae_sha ae token))"
    "or_empty (Some (ae_sha ae token)) = ae_sha ae token"
    using assms(2,3) by (simp_all add: given_def or_empty_def)
  from assms(4) obtain u0 s1 s2 where a: "active_user uid s = (Inr u0, s1)"
    and sv: "save_user (password_update ae new_pw salt (ae_iso ae (clk 0)) u0) s1 = (Inr u, s2)"
    and rv: "revoke_others ae uid (Some (ae_sha ae token)) (clk 1) s2 = (Inr (), s')"
    unfolding change_password_def by (auto simp: and_then_Inr lift_result_def g split: if_splits sum.splits)
  have "s1 = s" using a unfolding active_user_def
    by (auto simp: and_then_Inr try_except_Inr repo_get_user_def split: option.splits if_splits account_error.splits)
  then have s2: "s2 = put_user (password_update ae new_pw salt (ae_iso ae (clk 0)) u0) s" "accounts_wf s2"
    using save_user_ok(2) [OF sv] save_user_wf [OF assms(1)] sv by simp_all
  have s': "r_sessions s' = map (\<lambda>(k, x). (k, if revoked_by_others uid (ae_sha ae token) x
      then x\<lparr>s_revoked_at := Some (ae_iso ae (clk 1))\<rparr> else x)) (r_sessions s2)"
    using rv by (auto simp: revoke_others_def g and_then_Inr revoke_other_sessions_def)
  have look: "map_of (r_sessions s') k = map_option (\<lambda>x. if revoked_by_others uid (ae_sha ae token) x
      then x\<lparr>s_revoked_at := Some (ae_iso ae (clk 1))\<rparr> else x) (map_of (r_sessions s) k)" for k
    unfolding s' map_of_map_vals by (simp add: s2(1))
  have id: "s_id x = k" if "map_of (r_sessions s) k = Some x" for k x by (rule accounts_wfD(4) [OF assms(1) that])
  have "s_revoked_at x \<noteq> None" if m: "map_of (r_sessions s') k = Some x" "s_user x = uid" "k \<noteq> ae_sha ae token" for k x
  proof -
    obtain y where y: "map_of (r_sessions s) k = Some y"
      "x = (if revoked_by_others uid (ae_sha ae token) y then y\<lparr>s_revoked_at := Some (ae_iso ae (clk 1))\<rparr> else y)"
      using m(1) unfolding look by auto
    then show ?thesis using id [OF y(1)] m(2,3) by (auto simp: revoked_by_others_def split: if_splits)
  qed
  moreover have "map_of (r_sessions s') (ae_sha ae token) = map_of (r_sessions s) (ae_sha ae token)"
    unfolding look using id by (cases "map_of (r_sessions s) (ae_sha ae token)") (auto simp: revoked_by_others_def)
  ultimately show ?thesis by blast
qed

section \<open>Lockout\<close>

text \<open>The login of an active local account with \<open>n\<close> failures counted and no lock.\<close>

definition open_account :: "string \<Rightarrow> string \<Rightarrow> int \<Rightarrow> user_repo \<Rightarrow> user \<Rightarrow> bool" where
  "open_account name h n s u \<longleftrightarrow> accounts_wf s \<and> get_user_by_username (normalize_username name) s = Some u \<and>
    given (u_username u) \<and> u_status u = ACTIVE \<and> u_password_hash u = Some h \<and> u_failed_login_count u = n \<and>
    u_locked_until u = None"

lemma save_own:
  assumes "accounts_wf s" "map_of (r_users s) (u_id u) = Some u" "given (u_username u)"
    "u_id v = u_id u" "u_username v = u_username u"
  shows "save_user v s = (Inr v, put_user v s)"
proof -
  have "get_user_by_username (or_empty (u_username v)) s = Some u"
    by (rule lookup_own_name [OF assms(1,2,3)]) (simp add: assms(5))
  then show ?thesis using assms(2,4) by (simp add: save_user_def get_user_or_none_def give_def)
qed

lemma failed_update_fields:
  "u_id (failed_login_update ae t1 t2 u) = u_id u" "u_username (failed_login_update ae t1 t2 u) = u_username u"
  "u_status (failed_login_update ae t1 t2 u) = u_status u"
  "u_password_hash (failed_login_update ae t1 t2 u) = u_password_hash u"
  "u_failed_login_count (failed_login_update ae t1 t2 u) = u_failed_login_count u + 1"
  "u_locked_until (failed_login_update ae t1 t2 u) =
    (if max_failed_login_count \<le> u_failed_login_count u + 1 then Some (now_plus ae t2 lockout_seconds) else u_locked_until u)"
  by (simp_all add: failed_login_update_def Let_def)

lemma wrong_login:
  fixes clk :: "nat \<Rightarrow> real"
  assumes "open_account name h n s u" "\<not> verify_password (ae_kdf ae) pw (Some h)"
  defines "v \<equiv> failed_login_update ae (clk 1) (clk 2) u"
  shows "login ae name pw c d clk s = (Inl invalid_credentials, put_user v s)"
    "accounts_wf (put_user v s)" "get_user_by_username (normalize_username name) (put_user v s) = Some v"
proof -
  from assms(1) have wf: "accounts_wf s" and f: "get_user_by_username (normalize_username name) s = Some u"
    and g: "given (u_username u)" and st: "u_status u = ACTIVE" "u_password_hash u = Some h" "u_locked_until u = None"
    unfolding open_account_def by blast+
  note found = found_by_name [OF wf f]
  have v: "u_id v = u_id u" "u_username v = u_username u" by (simp_all add: v_def failed_update_fields)
  have sv: "save_user v s = (Inr v, put_user v s)" by (rule save_own [OF wf found(1) g v])
  show wf': "accounts_wf (put_user v s)" by (rule save_user_wf [OF wf sv])
  have locked: "is_locked ae u (clk 0) = Inr False" by (simp add: is_locked_def st status_value_def)
  show "login ae name pw c d clk s = (Inl invalid_credentials, put_user v s)"
    using sv unfolding v_def
    by (simp add: login_def f st assms(2) locked record_failed_login_def lift_result_def
        and_then_def reading_def give_def raising_def)
  have "py_lower (normalize_username name) = py_lower (or_empty (u_username v))"
    using found(2) g v(2) by (simp add: named_iff)
  then show "get_user_by_username (normalize_username name) (put_user v s) = Some v"
    using g by (intro lookup_own_name [OF wf', of "u_id v"]) (simp_all add: map_of_put_user v(2))
qed

text \<open>Login attempts one after another, as password, client, draws and clock readings.\<close>

type_synonym attempt = "string \<times> client_info \<times> auth_draws \<times> (nat \<Rightarrow> real)"

definition after_attempts :: "auth_env \<Rightarrow> string \<Rightarrow> attempt list \<Rightarrow> user_repo \<Rightarrow> user_repo" where
  "after_attempts ae name as s = foldl (\<lambda>s (pw, c, d, clk). snd (login ae name pw c d clk s)) s as"

lemma wrong_attempts:
  assumes "open_account name h n s u" "list_all (\<lambda>(pw, c, d, clk). \<not> verify_password (ae_kdf ae) pw (Some h)) as"
    "n + int (length as) < max_failed_login_count"
  shows "\<exists>v. open_account name h (n + int (length as)) (after_attempts ae name as s) v"
  using assms
proof (induction as arbitrary: n s u)
  case Nil
  then show ?case by (auto simp: after_attempts_def)
next
  case (Cons a as)
  obtain pw c d clk where a: "a = (pw, c, d, clk)" by (cases a) auto
  have wrong: "\<not> verify_password (ae_kdf ae) pw (Some h)" using Cons.prems(2) by (simp add: a)
  note w1 = wrong_login(1) [OF Cons.prems(1) wrong, where clk = clk and c = c and d = d]
  note w = wrong_login(2,3) [OF Cons.prems(1) wrong, where clk = clk]
  let ?v = "failed_login_update ae (clk 1) (clk 2) u"
  have "open_account name h (n + 1) (put_user ?v s) ?v"
    using w Cons.prems(1,3) unfolding open_account_def by (simp add: failed_update_fields)
  then have "\<exists>v. open_account name h (n + 1 + int (length as)) (after_attempts ae name as (put_user ?v s)) v"
    using Cons.prems(2,3) by (intro Cons.IH) simp_all
  then show ?case using w1 by (simp add: after_attempts_def a algebra_simps)
qed

lemma locked_login:
  assumes "get_user_by_username (normalize_username name) s = Some u" "u_password_hash u \<noteq> None"
    "u_status u = ACTIVE" "u_locked_until u = Some t" "ae_parse ae t = Some limit" "clk 0 < limit"
  shows "login ae name pw c d clk s = (Inl account_locked, s)"
proof -
  have "is_locked ae u (clk 0) = Inr True" using assms by (simp add: is_locked_def status_value_def parse_time_def)
  then show ?thesis using assms(1,2)
    by (auto simp: login_def lift_result_def and_then_def reading_def give_def raising_def)
qed

text \<open>C19: Five wrong passwords in a row lock an account: until 15 minutes after the fifth, a login is
  refused and changes nothing, whatever the password.\<close>

theorem five_failures_lock:
  assumes "open_account name h 0 s u" "length as = 4"
    "list_all (\<lambda>(pw, c, d, clk). \<not> verify_password (ae_kdf ae) pw (Some h)) as"
    "\<not> verify_password (ae_kdf ae) pw5 (Some h)"
    "ae_parse ae (ae_iso ae (clk5 2 + 15 * 60)) = Some (clk5 2 + 15 * 60)" "clk 0 < clk5 2 + 15 * 60"
  shows "login ae name pw c d clk (after_attempts ae name (as @ [(pw5, c5, d5, clk5)]) s) =
    (Inl account_locked, after_attempts ae name (as @ [(pw5, c5, d5, clk5)]) s)"
proof -
  obtain v where v: "open_account name h 4 (after_attempts ae name as s) v"
    using wrong_attempts [OF assms(1,3)] assms(2) by (auto simp: max_failed_login_count_def)
  note w1 = wrong_login(1) [OF v assms(4), where clk = clk5 and c = c5 and d = d5]
  note w = wrong_login(3) [OF v assms(4), where clk = clk5]
  let ?w = "failed_login_update ae (clk5 1) (clk5 2) v"
  have after: "after_attempts ae name (as @ [(pw5, c5, d5, clk5)]) s = put_user ?w (after_attempts ae name as s)"
    using w1 by (simp add: after_attempts_def)
  have fields: "u_failed_login_count v = 4" "u_status v = ACTIVE" "u_password_hash v = Some h"
    using v unfolding open_account_def by blast+
  have locked: "u_locked_until ?w = Some (ae_iso ae (clk5 2 + 15 * 60))"
    using fields by (simp add: failed_update_fields max_failed_login_count_def now_plus_def lockout_seconds_def)
  show ?thesis unfolding after
    by (rule locked_login [OF w _ _ locked, where limit = "clk5 2 + 15 * 60"])
      (simp_all only: failed_update_fields fields assms(5,6) option.distinct not_False_eq_True)
qed

section \<open>Registration and other accounts\<close>

lemma register_ok:
  assumes "register ae name pw display email c d clk s = (Inr tp, s')"
  defines "u \<equiv> registered_user ae (normalize_username name) pw display email (d_salt d) (ae_iso ae (clk 0))"
  shows "repo_create_user u s = (Inr u, put_user u s)" "r_users s' = r_users (put_user u s)"
proof -
  from assms(1) obtain created s1 where c: "repo_create_user u s = (Inr created, s1)"
    and i: "issue_token_pair ae created c d (clk 1) (clk 2) (clk 3) s1 = (Inr tp, s')"
    unfolding register_def u_def
    by (auto simp: and_then_Inr try_except_Inr lift_result_def split: sum.splits if_splits)
  then show "repo_create_user u s = (Inr u, put_user u s)" using repo_create_user_ok [OF c] by simp
  have "r_users s' = r_users s1"
    using i unfolding issue_token_pair_def
    by (auto simp: and_then_Inr create_session_def lift_result_def split: sum.splits if_splits)
  then show "r_users s' = r_users (put_user u s)" using repo_create_user_ok(2) [OF c] by simp
qed

lemma py_lower_Nil [simp]: "py_lower s = [] \<longleftrightarrow> s = []"
  by (simp add: py_lower_def)

text \<open>Registering a blank user name makes every save of a user without a name fail: a provisioned
  user is refused with \<open>ValueError\<close> from then on.
\<close>

lemma blank_name_locks_out_provisioned:
  assumes "accounts_wf s" "register ae name pw display email c d clk s = (Inr tp, s1)" "py_strip name = []"
    and "map_of (r_users s1) (p_user p) = Some v" "u_username v = None" "u_status v = ACTIVE" "u_last_seen_at v \<noteq> Some now"
    and "tenant_of (p_tenant p) = Inr t" "\<not> configured_admin (b_auth_enabled b) p (b_admin_ids b)"
  shows "ensure_user_from_principal str_of b p now s1 = (Inl (ValueErr ''Username already exists: None''), s1)"
proof -
  define u where "u = registered_user ae (normalize_username name) pw display email (d_salt d) (ae_iso ae (clk 0))"
  note r = register_ok [OF assms(2), folded u_def]
  have name: "normalize_username name = []" using assms(3) by (simp add: normalize_username_def)
  have u: "u_id u = []" "u_username u = Some []" by (simp_all add: u_def registered_user_def name)
  have wf: "accounts_wf (put_user u s)" by (rule create_user_wf [OF assms(1) r(1)])
  have same: "get_user_by_username n s1 = get_user_by_username n (put_user u s)"
    "map_of (r_users s1) k = map_of (r_users (put_user u s)) k" for n k
    by (simp_all add: get_user_by_username_def r(2))
  have named: "named (py_lower []) u" by (simp add: named_def u py_lower_def)
  have "map_of (r_users (put_user u s)) (u_id u) = Some u" by (simp add: map_of_put_user)
  then have "get_user_by_username [] (put_user u s) \<noteq> None" using unnamed_by_name named by blast
  then obtain w where w: "get_user_by_username [] (put_user u s) = Some w" by blast
  note f = found_by_name [OF wf w]
  have "u_username w \<noteq> None" using f(2) by (auto simp: named_def split: option.splits)
  then have "w \<noteq> v" using assms(5) by auto
  have v: "map_of (r_users (put_user u s)) (p_user p) = Some v" using assms(4) same(2) by simp
  have id: "u_id v = p_user p" by (rule accounts_wfD(3) [OF wf v])
  then have "u_id w \<noteq> u_id v" using f(1) v \<open>w \<noteq> v\<close> by auto
  then have fail: "save_user (v\<lparr>u_last_seen_at := Some now, u_updated_at := now\<rparr>) s1 =
      (Inl (ValueErr ''Username already exists: None''), s1)"
    using w same assms(4,5) id by (simp add: save_user_def get_user_or_none_def raising_def or_empty_def or_none_def)
  have "grant_configured_admin b p now v s1 = (Inr v, s1)" using assms(9) by (simp add: grant_configured_admin_def give_def)
  moreover have "require_active v s1 = (Inr (), s1)" using assms(6) by (simp add: require_active_def status_value_def give_def)
  moreover have "touch_last_seen now v s1 = (Inl (ValueErr ''Username already exists: None''), s1)"
    using fail assms(7) by (simp add: touch_last_seen_def)
  ultimately show ?thesis
    by (simp add: ensure_user_from_principal_def and_then_def reading_def principal_user_def assms(8)
        repo_ensure_user_def get_user_or_none_def assms(4) give_def)
qed

text \<open>Registration reserves no name: whoever registers the id of a configured bootstrap admin
  before it is provisioned is an admin after the next authorization.\<close>

lemma registered_bootstrap_id_is_admin:
  assumes "accounts_wf s" "register ae name pw display email c d clk s = (Inr tp, s1)" "normalize_username name = p_user p"
    and "p_user p \<noteq> []" "configured_admin (b_auth_enabled b) p (b_admin_ids b)" "tenant_of (p_tenant p) = Inr t"
  shows "\<exists>u s2. authorize_principal str_of b p now s1 = (Inr u, s2) \<and> is_active_admin u \<and> u_id u = p_user p"
proof -
  define u where "u = registered_user ae (p_user p) pw display email (d_salt d) (ae_iso ae (clk 0))"
  note r = register_ok [OF assms(2), unfolded assms(3), folded u_def]
  have u: "u_id u = p_user p" "u_username u = Some (p_user p)" "u_roles u = [''member'']" "u_status u = ACTIVE"
    "u_last_seen_at u = None"
    by (simp_all add: u_def registered_user_def)
  have wf0: "accounts_wf (put_user u s)" by (rule create_user_wf [OF assms(1) r(1)])
  have "accounts_wf s1"
    by (rule wf_inv.step_keeps [OF step_register [of ae name pw display email c d clk s "Inr tp" s1 "\<lambda>v. []"] assms(1)]) (rule assms(2))
  moreover have m: "map_of (r_users s1) (u_id u) = Some u" by (simp add: r(2) map_of_put_user)
  moreover have g: "given (u_username u)" using assms(4) by (simp add: u given_def or_empty_def)
  define v where "v = u\<lparr>u_roles := normalize_roles (u_roles u @ [''admin'']), u_updated_at := now\<rparr>"
  have v: "u_id v = u_id u" "u_username v = u_username u" "u_status v = ACTIVE" "u_last_seen_at v = None" by (simp_all add: v_def u)
  have admin: "''admin'' \<in> set (u_roles v)" by (simp add: v_def admin_added)
  have s1: "save_user v s1 = (Inr v, put_user v s1)" by (rule save_own [OF \<open>accounts_wf s1\<close> m g v(1,2)])
  have wf1: "accounts_wf (put_user v s1)" by (rule save_user_wf [OF \<open>accounts_wf s1\<close> s1])
  define w where "w = v\<lparr>u_last_seen_at := Some now, u_updated_at := now\<rparr>"
  have w: "u_id w = u_id v" "u_username w = u_username v" "u_status w = ACTIVE" "u_roles w = u_roles v" by (simp_all add: w_def v)
  have mv: "map_of (r_users (put_user v s1)) (u_id v) = Some v" by (simp add: map_of_put_user)
  have gv: "given (u_username v)" using g v(2) by simp
  have s2: "save_user w (put_user v s1) = (Inr w, put_user w (put_user v s1))" by (rule save_own [OF wf1 mv gv w(1,2)])
  have "''admin'' \<notin> set (normalize_roles [''member''])" by code_simp
  then have wants: "''admin'' \<notin> set (normalize_roles (u_roles u))" by (simp add: u(3))
  have grant: "grant_configured_admin a p now u s1 = (Inr v, put_user v s1)"
    if "configured_admin (b_auth_enabled a) p (b_admin_ids a)" for a
    using s1 that wants by (simp add: grant_configured_admin_def v_def)
  have active: "require_active v (put_user v s1) = (Inr (), put_user v s1)" by (simp add: require_active_def v status_value_def give_def)
  have touch: "touch_last_seen now v (put_user v s1) = (Inr w, put_user w (put_user v s1))"
    using s2 by (simp add: touch_last_seen_def v w_def)
  have "ensure_user_from_principal str_of a p now s1 = (Inr w, put_user w (put_user v s1))"
    if "configured_admin (b_auth_enabled a) p (b_admin_ids a)" for a
    using m grant [OF that] active touch
    by (simp add: ensure_user_from_principal_def and_then_def reading_def principal_user_def assms(6)
        repo_ensure_user_def get_user_or_none_def u(1) give_def)
  then have "authorize_principal str_of b p now s1 = (Inr w, put_user w (put_user v s1))"
    using m assms(5) wants by (simp add: authorize_principal_def and_then_def reading_def get_user_or_none_def u(1) Let_def)
  moreover have "is_active_admin w" "u_id w = p_user p" using admin w v(1) u(1) by (simp_all add: is_active_admin_iff)
  ultimately show ?thesis by blast
qed

section \<open>Witnesses\<close>

definition ex_client :: client_info where
  "ex_client = \<lparr>c_user_agent = None, c_ip_address = None\<rparr>"

definition ex_draws :: "string \<Rightarrow> auth_draws" where
  "ex_draws t = \<lparr>d_salt = ''salt'', d_token = t\<rparr>"

text \<open>Every clock reads 0 and every stored time is 900, the end of a lock set at 0.\<close>

definition ex_env :: auth_env where
  "ex_env = ex_auth_env\<lparr>ae_parse := (\<lambda>t. Some 900)\<rparr>"

definition ex_clock :: "nat \<Rightarrow> real" where
  "ex_clock n = 0"

lemma ex_env_fields: "ae_settings ex_env = ex_settings" "ae_kdf ex_env = (\<lambda>pw salt n. pw)" "ae_sha ex_env = (\<lambda>t. t)"
  "ae_iso ex_env = (\<lambda>x. ''t'')" "ae_parse ex_env = (\<lambda>t. Some 900)" "ae_tokens ex_env = ex_token_env"
  by (simp_all add: ex_env_def ex_auth_env_def)

definition ex_member :: user where
  "ex_member = registered_user ex_env ''ann'' ''passw0rd'' None None ''salt'' ''t''"

definition ex_session :: "string option \<Rightarrow> user_session" where
  "ex_session revoked = (fresh_session ex_env ex_member ex_client ''tok'' 0 0)\<lparr>s_revoked_at := revoked\<rparr>"

definition ex_state :: user_repo where
  "ex_state = \<lparr>r_users = [(''ann'', ex_member)], r_sessions = [(''tok'', ex_session None)], r_audit = []\<rparr>"

lemma ex_ids: "u_id ex_member = ''ann''" "u_username ex_member = Some ''ann''" "u_status ex_member = ACTIVE"
  "u_locked_until ex_member = None" "u_failed_login_count ex_member = 0"
  "u_password_hash ex_member = Some (hash_password (\<lambda>pw salt n. pw) ''salt'' ''passw0rd'')"
  "s_id (ex_session r) = ''tok''" "s_user (ex_session r) = ''ann''" "s_revoked_at (ex_session r) = r"
  by (simp_all add: ex_member_def registered_user_def ex_session_def fresh_session_def ex_env_fields)

lemma ex_state_wf: "accounts_wf ex_state"
  by (simp add: accounts_wf_def ex_state_def ex_ids)

lemma ex_state_sessions: "map_of (r_sessions ex_state) (ae_sha ex_env ''tok'') = Some (ex_session None)"
  by (simp add: ex_state_def ex_env_fields)

lemma ex_member_found: "get_user_by_username n ex_state = (if named (py_lower n) ex_member then Some ex_member else None)"
  by (simp add: get_user_by_username_def ex_state_def)

lemma ex_ann_named: "named (py_lower (normalize_username ''ann'')) ex_member"
proof -
  have "py_lower ''ann'' = py_lower (normalize_username ''ann'')" by code_simp
  then show ?thesis by (simp add: named_def ex_ids)
qed

lemma ex_open: "open_account ''ann'' (hash_password (\<lambda>pw salt n. pw) ''salt'' ''passw0rd'') 0 ex_state ex_member"
  by (simp add: open_account_def ex_state_wf ex_member_found ex_ann_named ex_ids given_def or_empty_def)

theorem five_failures_lock_witness:
  "login ex_env ''ann'' ''passw0rd'' ex_client (ex_draws ''t1'') ex_clock
     (after_attempts ex_env ''ann'' (replicate 4 (''wrong'', ex_client, ex_draws ''t2'', ex_clock) @
        [(''wrong'', ex_client, ex_draws ''t2'', ex_clock)]) ex_state) =
   (Inl account_locked,
    after_attempts ex_env ''ann'' (replicate 4 (''wrong'', ex_client, ex_draws ''t2'', ex_clock) @
        [(''wrong'', ex_client, ex_draws ''t2'', ex_clock)]) ex_state)"
  by (rule five_failures_lock [OF ex_open])
    (simp_all add: verify_hashed ex_env_fields ex_clock_def list_all_iff)

lemma ex_refresh: "\<exists>tp s'. refresh ex_env ''tok'' ex_clock ex_state = (Inr tp, s')"
proof -
  have k: "signing_key (ae_settings ex_env) = Inr (Some ''k1'', ''s1'')" by (simp add: ex_env_fields ex_signing_key)
  have "s_expires_at (ex_session None) = ''t''" by (simp add: ex_session_def fresh_session_def now_plus_def ex_env_fields)
  then show ?thesis
    by (simp add: refresh_def active_session_def active_user_def and_then_def try_except_def get_session_def
        ex_state_sessions ex_ids give_def lift_result_def parse_time_def ex_env_fields ex_clock_def repo_get_user_def
        get_user_or_none_def ex_state_def status_value_def save_session_def user_access_token_def
        create_access_token_def ex_signing_key Let_def)
qed

theorem refresh_needs_live_session_witness:
  "\<exists>tp s' x. refresh ex_env ''tok'' ex_clock ex_state = (Inr tp, s') \<and>
     map_of (r_sessions ex_state) ''tok'' = Some x \<and> s_revoked_at x = None"
proof -
  obtain tp s' where r: "refresh ex_env ''tok'' ex_clock ex_state = (Inr tp, s')" using ex_refresh by blast
  from refresh_needs_live_session [OF r] r show ?thesis by (auto simp: ex_env_fields)
qed

theorem logout_ends_session_witness:
  "\<exists>s1. logout ex_env (Some ''tok'') ex_clock ex_state = (Inr (), s1) \<and>
     refresh ex_env ''tok'' ex_clock s1 = (Inl session_revoked, s1)"
proof -
  obtain r s1 where l: "logout ex_env (Some ''tok'') ex_clock ex_state = (r, s1)" by fastforce
  then show ?thesis using logout_ends_session [OF _ l, of ex_clock] by auto
qed

lemma ex_new_password_strong: "require_strong_password ''n3wpassword'' = Inr ()"
  by code_simp

lemma ex_saved: "save_user (password_update ex_env pw salt t ex_member) ex_state =
   (Inr (password_update ex_env pw salt t ex_member), put_user (password_update ex_env pw salt t ex_member) ex_state)"
  by (rule save_own [OF ex_state_wf, of ex_member])
    (simp_all add: ex_state_def ex_ids given_def or_empty_def password_update_def)

lemma ex_revoke:
  assumes "r_sessions s = [(''tok'', ex_session None)]"
  shows "revoke_user_sessions ''ann'' t s = (Inr (), put_session ''tok'' (revoke_at t (ex_session None)) s)"
proof -
  have "list_sessions (Some ''ann'') False s = [ex_session None]"
    by (simp add: list_sessions_def Let_def assms ex_ids sort_key_reverse_def)
  moreover have "revoke_session ''tok'' t s = (Inr (revoke_at t (ex_session None)), put_session ''tok'' (revoke_at t (ex_session None)) s)"
    by (rule revoke_session_run) (simp add: assms)
  ultimately show ?thesis
    by (simp add: revoke_user_sessions_def and_then_def reading_def give_def ex_ids)
qed

theorem reset_and_disable_end_sessions_witness:
  "\<exists>u s'. reset_password ex_env ''ann'' ''n3wpassword'' ''salt'' ex_clock ex_state = (Inr u, s') \<and>
     refresh ex_env ''tok'' ex_clock s' = (Inl session_revoked, s')"
proof -
  let ?u = "password_update ex_env ''n3wpassword'' ''salt'' ''t'' ex_member"
  let ?s = "put_session ''tok'' (revoke_at ''t'' (ex_session None)) (put_user ?u ex_state)"
  have "repo_get_user ''ann'' ex_state = (Inr ex_member, ex_state)"
    by (simp add: repo_get_user_def get_user_or_none_def ex_state_def give_def)
  moreover have "revoke_user_sessions ''ann'' ''t'' (put_user ?u ex_state) = (Inr (), ?s)"
    by (rule ex_revoke) (simp add: ex_state_def)
  ultimately have r: "reset_password ex_env ''ann'' ''n3wpassword'' ''salt'' ex_clock ex_state = (Inr ?u, ?s)"
    by (simp add: reset_password_def ex_new_password_strong lift_result_def and_then_def give_def ex_saved ex_env_fields)
  have m: "map_of (r_sessions ?s) (ae_sha ex_env ''tok'') = Some (revoke_at ''t'' (ex_session None))"
    by (simp add: ex_env_fields)
  have "refresh ex_env ''tok'' ex_clock ?s = (Inl session_revoked, ?s)"
    by (rule reset_and_disable_end_sessions [OF ex_state_wf, of ex_env "''ann''" "''n3wpassword''" "''salt''" ex_clock
          ?u ?s undefined undefined undefined undefined, OF _ m]) (simp_all add: r ex_ids)
  then show ?thesis using r by blast
qed

theorem change_password_spares_current_witness:
  "\<exists>u s'. change_password ex_env ''ann'' ''passw0rd'' ''n3wpassword'' (Some ''tok'') ''salt'' ex_clock ex_state = (Inr u, s') \<and>
     map_of (r_sessions s') ''tok'' = Some (ex_session None)"
proof -
  let ?u = "password_update ex_env ''n3wpassword'' ''salt'' ''t'' ex_member"
  have "active_user ''ann'' ex_state = (Inr ex_member, ex_state)"
    by (simp add: active_user_def and_then_def try_except_def repo_get_user_def get_user_or_none_def ex_state_def
        give_def ex_ids status_value_def)
  moreover have "revoke_others ex_env ''ann'' (Some ''tok'') 0 (put_user ?u ex_state) = (Inr (), put_user ?u ex_state)"
    by (simp add: revoke_others_def given_def or_empty_def and_then_def revoke_other_sessions_def give_def
        revoked_by_others_def ex_state_def ex_ids put_user_def)
  ultimately have r: "change_password ex_env ''ann'' ''passw0rd'' ''n3wpassword'' (Some ''tok'') ''salt'' ex_clock ex_state =
      (Inr ?u, put_user ?u ex_state)"
    by (simp add: change_password_def and_then_def give_def ex_new_password_strong lift_result_def ex_saved ex_env_fields
        ex_ids verify_hashed given_def or_empty_def ex_clock_def)
  have "ae_sha ex_env ''tok'' \<noteq> []" by (simp add: ex_env_fields)
  from change_password_spares_current [OF ex_state_wf _ this r] r show ?thesis
    by (simp add: ex_env_fields) (simp add: ex_state_def)
qed

definition ex_principal :: "string \<Rightarrow> auth_principal" where
  "ex_principal uid = \<lparr>p_user = uid, p_tenant = PNone, p_scopes = [], p_claims = []\<rparr>"

definition ex_bootstrap :: "string list \<Rightarrow> bootstrap" where
  "ex_bootstrap ids = \<lparr>b_auth_enabled = True, b_allow = False, b_admin_ids = ids, b_display_name = None,
     b_email = None, b_metadata = []\<rparr>"

definition ex_provisioned :: user where
  "ex_provisioned = ex_member\<lparr>u_id := ''bob'', u_username := None, u_last_seen_at := None\<rparr>"

definition ex_bob :: user_repo where
  "ex_bob = \<lparr>r_users = [(''bob'', ex_provisioned)], r_sessions = [], r_audit = []\<rparr>"

lemma ex_register:
  assumes "normalize_username name = n" "n \<noteq> ''bob''"
  shows "\<exists>tp s1. register ex_env name ''passw0rd'' None None ex_client (ex_draws ''tok'') ex_clock ex_bob = (Inr tp, s1) \<and>
    map_of (r_users s1) ''bob'' = Some ex_provisioned"
proof -
  have "require_strong_password ''passw0rd'' = Inr ()" by code_simp
  moreover have "get_user_by_username m ex_bob = None" for m
    by (simp add: get_user_by_username_def ex_bob_def named_def ex_provisioned_def)
  ultimately show ?thesis using assms
    by (simp add: register_def lift_result_def and_then_def give_def reading_def try_except_def repo_create_user_def
        get_user_or_none_def ex_bob_def registered_user_def issue_token_pair_def create_session_def fresh_session_def
        ex_env_fields ex_draws_def user_access_token_def create_access_token_def ex_signing_key Let_def
        put_user_def ex_client_def)
qed

lemma ex_bob_wf: "accounts_wf ex_bob"
  by (simp add: accounts_wf_def ex_bob_def ex_provisioned_def)

theorem blank_name_locks_out_provisioned_witness:
  "\<exists>tp s1. register ex_env '' '' ''passw0rd'' None None ex_client (ex_draws ''tok'') ex_clock ex_bob = (Inr tp, s1) \<and>
     ensure_user_from_principal (\<lambda>v. []) (ex_bootstrap []) (ex_principal ''bob'') ''t2'' s1 =
       (Inl (ValueErr ''Username already exists: None''), s1)"
proof -
  have n: "normalize_username '' '' = []" "py_strip '' '' = []" by code_simp+
  obtain tp s1 where r: "register ex_env '' '' ''passw0rd'' None None ex_client (ex_draws ''tok'') ex_clock ex_bob = (Inr tp, s1)"
    "map_of (r_users s1) ''bob'' = Some ex_provisioned" using ex_register [OF n(1)] by auto
  have "ensure_user_from_principal (\<lambda>v. []) (ex_bootstrap []) (ex_principal ''bob'') ''t2'' s1 =
      (Inl (ValueErr ''Username already exists: None''), s1)"
    by (rule blank_name_locks_out_provisioned [OF ex_bob_wf r(1) n(2), of _ ex_provisioned _ None])
      (simp_all add: ex_principal_def r(2) ex_provisioned_def ex_ids tenant_of_def configured_admin_def ex_bootstrap_def)
  with r(1) show ?thesis by blast
qed

theorem registered_bootstrap_id_is_admin_witness:
  "\<exists>tp s1 u s2. register ex_env ''root'' ''passw0rd'' None None ex_client (ex_draws ''tok'') ex_clock ex_bob = (Inr tp, s1) \<and>
     authorize_principal (\<lambda>v. []) (ex_bootstrap [''root'']) (ex_principal ''root'') ''t2'' s1 = (Inr u, s2) \<and> is_active_admin u"
proof -
  have n: "normalize_username ''root'' = ''root''" by code_simp
  obtain tp s1 where r: "register ex_env ''root'' ''passw0rd'' None None ex_client (ex_draws ''tok'') ex_clock ex_bob = (Inr tp, s1)"
    using ex_register [OF n] by auto
  have "\<exists>u s2. authorize_principal (\<lambda>v. []) (ex_bootstrap [''root'']) (ex_principal ''root'') ''t2'' s1 = (Inr u, s2) \<and>
      is_active_admin u \<and> u_id u = p_user (ex_principal ''root'')"
    by (rule registered_bootstrap_id_is_admin [OF ex_bob_wf r])
      (simp_all add: n ex_principal_def configured_admin_def ex_bootstrap_def tenant_of_def)
  with r show ?thesis by blast
qed

end
