(* ===== verification/AuthConfig.thy ===== *)
theory AuthConfig
  imports AuthTokens
begin

text \<open>
  The authentication settings: \<open>config_parts/auth.py\<close> (signing keys read from the environment,
  the checks of a deployment), \<open>config_parts/auth_settings.py\<close>, and the readers of
  \<open>config_parts/env.py\<close> and \<open>core/coercion.py\<close> they use. The JSON reader, UTF-8 and the text of
  other values are parameters (\<open>config_env\<close>).
\<close>

section \<open>Reading values\<close>

text \<open>\<open>ce_json\<close> is \<open>None\<close> for text that is not JSON; \<open>ce_utf8\<close> is \<open>None\<close> for bytes that are not UTF-8.\<close>

record config_env =
  ce_json :: "string \<Rightarrow> pyval option"
  ce_utf8 :: "string \<Rightarrow> string option"
  ce_str :: "pyval \<Rightarrow> string"

type_synonym environ = "(string, string) dict"

definition env_bool :: "environ \<Rightarrow> string \<Rightarrow> bool \<Rightarrow> bool" where
  "env_bool env name d = (case parse_bool (\<lambda>v. []) (opt_value (map_of env name)) of None \<Rightarrow> d | Some b \<Rightarrow> b)"

definition env_int :: "environ \<Rightarrow> string \<Rightarrow> int \<Rightarrow> int" where
  "env_int env name d = (let t = py_strip (or_empty (map_of env name))
     in if t = [] then d else case py_int t of None \<Rightarrow> d | Some n \<Rightarrow> n)"

definition split_csv :: "string option \<Rightarrow> string list" where
  "split_csv v = (case v of None \<Rightarrow> [] | Some t \<Rightarrow>
     filter (\<lambda>w. w \<noteq> []) (map py_strip (split_all CHR '','' t)))"

section \<open>Signing keys\<close>

definition b64url_decode_string :: "config_env \<Rightarrow> string \<Rightarrow> string option" where
  "b64url_decode_string ce raw = (case b64url_decode raw of None \<Rightarrow> None | Some bytes \<Rightarrow> ce_utf8 ce bytes)"

definition key_secret :: "config_env \<Rightarrow> (string, pyval) dict \<Rightarrow> string option" where
  "key_secret ce d = (case optional_str (ce_str ce)
       (py_or (dict_value d ''secret'') (py_or (dict_value d ''value'') (dict_value d ''shared_secret''))) of
     Some s \<Rightarrow> Some s
   | None \<Rightarrow> (case optional_str (ce_str ce) (dict_value d ''k'') of
       None \<Rightarrow> None
     | Some jwk \<Rightarrow> (case b64url_decode_string ce jwk of
         None \<Rightarrow> Some jwk
       | Some s \<Rightarrow> Some (if s = [] then jwk else s))))"

definition key_active :: "config_env \<Rightarrow> (string, pyval) dict \<Rightarrow> bool" where
  "key_active ce d = (case parse_bool (ce_str ce) (dict_value d ''active'') of
     Some b \<Rightarrow> b
   | None \<Rightarrow> py_lower (case optional_str (ce_str ce) (dict_value d ''status'') of None \<Rightarrow> ''active'' | Some t \<Rightarrow> t)
       \<notin> {''disabled'', ''inactive'', ''retired'', ''revoked''})"

definition coerce_auth_jwt_key :: "config_env \<Rightarrow> pyval \<Rightarrow> string option \<Rightarrow> jwt_key option" where
  "coerce_auth_jwt_key ce raw default_kid = (case raw of
     PDict d \<Rightarrow>
       (case (optional_str (ce_str ce) (py_or (dict_value d ''kid'') (py_or (dict_value d ''id'') (opt_value default_kid))),
              key_secret ce d) of
          (Some kid, Some secret) \<Rightarrow> Some \<lparr>jk_id = kid, jk_secret = secret, jk_active = key_active ce d\<rparr>
        | _ \<Rightarrow> None)
   | _ \<Rightarrow>
       (case (optional_str (ce_str ce) (opt_value default_kid), optional_str (ce_str ce) raw) of
          (Some kid, Some secret) \<Rightarrow> Some \<lparr>jk_id = kid, jk_secret = secret, jk_active = True\<rparr>
        | _ \<Rightarrow> None))"

text \<open>A later key with the same id takes the place of the earlier one.\<close>

definition dedupe_auth_jwt_keys :: "jwt_key list \<Rightarrow> jwt_key list" where
  "dedupe_auth_jwt_keys ks = vals (foldl (\<lambda>d k. AList.update (jk_id k) k d) [] ks)"

definition coerced :: "jwt_key option list \<Rightarrow> jwt_key list" where
  "coerced ks = concat (map (\<lambda>k. case k of None \<Rightarrow> [] | Some x \<Rightarrow> [x]) ks)"

definition parse_auth_jwt_key_object :: "config_env \<Rightarrow> pyval \<Rightarrow> jwt_key list" where
  "parse_auth_jwt_key_object ce raw = (case raw of
     PList items \<Rightarrow> dedupe_auth_jwt_keys (coerced (map (\<lambda>v. coerce_auth_jwt_key ce v None) items))
   | PDict d \<Rightarrow>
       (let jwks = (case dict_value d ''keys'' of PList items \<Rightarrow> coerced (map (\<lambda>v. coerce_auth_jwt_key ce v None) items)
              | _ \<Rightarrow> []);
            named = coerced (map (\<lambda>(kid, v). coerce_auth_jwt_key ce v (Some kid))
              (filter (\<lambda>(kid, v). kid \<notin> {''keys'', ''current_kid'', ''currentKid''}) d))
        in dedupe_auth_jwt_keys (jwks @ named))
   | _ \<Rightarrow> [])"

definition csv_key :: "config_env \<Rightarrow> string \<Rightarrow> jwt_key option" where
  "csv_key ce item = (let part = py_strip item
     in if CHR ''='' \<in> set part then (case split_at_most CHR ''='' 1 part of
            [kid, secret] \<Rightarrow> coerce_auth_jwt_key ce (PStr secret) (Some kid) | _ \<Rightarrow> None)
        else if CHR '':'' \<in> set part then (case split_at_most CHR '':'' 1 part of
            [kid, secret] \<Rightarrow> coerce_auth_jwt_key ce (PStr secret) (Some kid) | _ \<Rightarrow> None)
        else None)"

definition parse_auth_jwt_keys :: "config_env \<Rightarrow> string option \<Rightarrow> account_error + jwt_key list" where
  "parse_auth_jwt_keys ce raw = (case optional_str (ce_str ce) (opt_value raw) of
     None \<Rightarrow> Inr []
   | Some t \<Rightarrow>
       if hd t = CHR ''['' \<or> hd t = CHR ''{''
       then (case ce_json ce t of
           None \<Rightarrow> Inl (ValueErr ''AUTH_JWT_KEYS must be valid JSON or kid=secret CSV.'')
         | Some v \<Rightarrow> Inr (parse_auth_jwt_key_object ce v))
       else Inr (dedupe_auth_jwt_keys (coerced (map (csv_key ce) (split_all CHR '','' t)))))"

definition auth_jwt_keys_from_env :: "config_env \<Rightarrow> environ \<Rightarrow> account_error + jwt_key list" where
  "auth_jwt_keys_from_env ce env =
    bind_ok (parse_auth_jwt_keys ce (map_of env ''AUTH_JWT_KEYS'')) (\<lambda>a.
    bind_ok (parse_auth_jwt_keys ce (map_of env ''AUTH_JWT_SECRETS'')) (\<lambda>b.
    bind_ok (parse_auth_jwt_keys ce (map_of env ''AUTH_JWT_JWKS'')) (\<lambda>c.
      Inr (dedupe_auth_jwt_keys (a @ b @ c)))))"

section \<open>Checks of a deployment\<close>

text \<open>The settings these checks read; \<open>ds_env\<close> is \<open>resolved_env\<close>.\<close>

record deploy_settings = auth_settings +
  ds_env :: environ
  ds_app_environment :: string
  ds_auth_enabled :: bool
  ds_demo_tokens :: bool
  ds_cookie_secure :: bool
  ds_cookie_samesite :: string
  ds_bootstrap_ids :: "string list"
  ds_rate_limit_enabled :: bool
  ds_rate_limit :: int
  ds_rate_limit_chat :: int
  ds_cors_origins :: "string list"
  ds_cors_credentials :: bool

definition development_names :: "string list" where
  "development_names = [''dev'', ''development'', ''local'', ''test'', ''testing'', ''ci'']"

definition insecure_secrets :: "string list" where
  "insecure_secrets = [default_auth_jwt_secret, ''change-me-before-sharing'', ''change-me-in-shared-env'']"

definition placeholder_parts :: "string list" where
  "placeholder_parts = [''change'', ''example'', ''replace'']"

definition minimum_secret_length :: nat where
  "minimum_secret_length = 32"

definition stripped :: "string \<Rightarrow> string option" where
  "stripped t = optional_str (\<lambda>v. []) (PStr t)"

definition non_development_sources :: "environ \<Rightarrow> string list" where
  "non_development_sources env = concat (map (\<lambda>key.
     case optional_str (\<lambda>v. []) (opt_value (map_of env key)) of
       None \<Rightarrow> []
     | Some v \<Rightarrow> if py_lower v \<in> set development_names then [] else [key @ ''='' @ v])
     [''APP_ENVIRONMENT'', ''ENVIRONMENT''])"

definition non_development_sources_for_settings :: "deploy_settings \<Rightarrow> string list" where
  "non_development_sources_for_settings st =
    (let sources = (if ds_env st = [] then [] else non_development_sources (ds_env st))
     in if sources \<noteq> [] then sources
        else case stripped (ds_app_environment st) of
          None \<Rightarrow> []
        | Some v \<Rightarrow> if py_lower v \<in> set development_names then [] else [''APP_ENVIRONMENT='' @ v])"

definition explicitly_configured :: "deploy_settings \<Rightarrow> bool" where
  "explicitly_configured st \<longleftrightarrow> ''AUTH_JWT_SECRET'' \<in> set (keys (ds_env st))"

definition single_auth_secret_is_configured :: "deploy_settings \<Rightarrow> bool" where
  "single_auth_secret_is_configured st = (case stripped (as_secret st) of
     None \<Rightarrow> False
   | Some secret \<Rightarrow>
       if as_keys st = [] then explicitly_configured st \<or> secret \<noteq> default_auth_jwt_secret \<or> ds_env st = []
       else explicitly_configured st \<or> secret \<noteq> default_auth_jwt_secret)"

definition configured_auth_jwt_secrets :: "deploy_settings \<Rightarrow> (string \<times> string) list" where
  "configured_auth_jwt_secrets st =
    map (\<lambda>k. (''AUTH_JWT_KEYS['' @ jk_id k @ '']'', jk_secret k)) (filter jk_active (as_keys st))
    @ (if single_auth_secret_is_configured st then [(''AUTH_JWT_SECRET'', as_secret st)] else [])"

definition secret_failures :: "string \<times> string \<Rightarrow> string list" where
  "secret_failures p = (case p of (label, secret) \<Rightarrow> (case stripped secret of
     None \<Rightarrow> [label @ '' must not be empty'']
   | Some t \<Rightarrow>
       (if t \<in> set insecure_secrets then [label @ '' must not use a development or demo default'']
        else if list_ex (\<lambda>part. has_infix part (py_lower t)) placeholder_parts
        then [label @ '' must not include change/example/replace placeholders''] else [])
       @ (if length t < minimum_secret_length
          then [label @ '' must be at least '' @ show_nat minimum_secret_length @ '' characters''] else [])))"

definition jwt_secret_security_failures_for :: "(string \<times> string) list \<Rightarrow> bool \<Rightarrow> string list" where
  "jwt_secret_security_failures_for secrets require_configured =
    (if secrets = [] \<and> require_configured
     then [''AUTH_JWT_SECRET must be set or AUTH_JWT_KEYS must provide a signing key'']
     else concat (map secret_failures secrets))"

definition jwt_secret_security_failures :: "deploy_settings \<Rightarrow> string list" where
  "jwt_secret_security_failures st = jwt_secret_security_failures_for (configured_auth_jwt_secrets st) True"

definition report_failures :: "string \<Rightarrow> string list \<Rightarrow> account_error + unit" where
  "report_failures heading failures =
    (if failures \<noteq> [] then Inl (ValueErr (heading @ join_with ''; '' failures)) else Inr ())"

definition validate_auth_enabled_jwt_secrets :: "deploy_settings \<Rightarrow> bool \<Rightarrow> account_error + unit" where
  "validate_auth_enabled_jwt_secrets st require_configured =
    (if \<not> ds_auth_enabled st then Inr ()
     else report_failures ''Unsafe JWT secret configuration while AUTH_ENABLED=true: ''
       (jwt_secret_security_failures_for (configured_auth_jwt_secrets st) require_configured))"

definition validate_jwt_secret_for_environment :: "deploy_settings \<Rightarrow> account_error + unit" where
  "validate_jwt_secret_for_environment st =
    (let sources = non_development_sources_for_settings st
     in if sources = [] then Inr ()
        else report_failures (''Unsafe JWT secret configuration for non-development environment (''
            @ join_with '', '' sources @ ''): '') (jwt_secret_security_failures st))"

definition failure_if :: "bool \<Rightarrow> string \<Rightarrow> string list" where
  "failure_if b msg = (if b then [msg] else [])"

definition security_failures :: "deploy_settings \<Rightarrow> string list" where
  "security_failures st = jwt_secret_security_failures st
    @ failure_if (given (as_key_id st) \<and> as_keys st \<noteq> [] \<and>
        \<not> list_ex (\<lambda>k. jk_active k \<and> Some (jk_id k) = as_key_id st) (as_keys st))
        ''AUTH_JWT_KEY_ID must match an active AUTH_JWT_KEYS entry''
    @ failure_if (stripped (as_issuer st) = None) ''AUTH_JWT_ISSUER must be set''
    @ failure_if (as_access_ttl st \<le> 0) ''AUTH_ACCESS_TOKEN_TTL_SECONDS must be greater than 0''
    @ failure_if (\<not> ds_auth_enabled st) ''AUTH_ENABLED must be true''
    @ failure_if (ds_demo_tokens st) ''AUTH_DEMO_TOKENS_ENABLED must be false''
    @ failure_if (\<not> ds_cookie_secure st) ''AUTH_COOKIE_SECURE must be true''
    @ failure_if (ds_cookie_samesite st \<notin> {''lax'', ''strict''}) (''AUTH_COOKIE_SAMESITE must be 'lax' or 'strict'' @ [CHR 0x27])
    @ failure_if (\<not> ds_rate_limit_enabled st) ''RATE_LIMIT_ENABLED must be true''
    @ failure_if (ds_rate_limit st \<le> 0) ''RATE_LIMIT_PER_MINUTE must be greater than 0''
    @ failure_if (ds_rate_limit_chat st \<le> 0) ''RATE_LIMIT_CHAT_PER_MINUTE must be greater than 0''
    @ failure_if (ds_cors_origins st = []) ''CORS_ALLOWED_ORIGINS must be explicitly set''
    @ failure_if (''*'' \<in> set (ds_cors_origins st) \<and> ds_cors_credentials st)
        (''CORS_ALLOW_CREDENTIALS must be false when CORS_ALLOWED_ORIGINS contains '*'' @ [CHR 0x27])"

definition validate_non_development_security :: "deploy_settings \<Rightarrow> environ \<Rightarrow> account_error + unit" where
  "validate_non_development_security st env =
    (let sources = non_development_sources env
     in if sources = [] then Inr ()
        else report_failures (''Unsafe security configuration for non-development environment (''
            @ join_with '', '' sources @ ''): '') (security_failures st))"

section \<open>Loading\<close>

definition loaded_auth_settings :: "environ \<Rightarrow> deploy_settings \<Rightarrow> jwt_key list \<Rightarrow> deploy_settings" where
  "loaded_auth_settings env d ks = d\<lparr>
     ds_auth_enabled := env_bool env ''AUTH_ENABLED'' (ds_auth_enabled d),
     ds_demo_tokens := env_bool env ''AUTH_DEMO_TOKENS_ENABLED'' (ds_demo_tokens d),
     as_secret := (case map_of env ''AUTH_JWT_SECRET'' of None \<Rightarrow> as_secret d | Some v \<Rightarrow> v),
     as_key_id := (if given (map_of env ''AUTH_JWT_KEY_ID'') then map_of env ''AUTH_JWT_KEY_ID''
       else if given (map_of env ''AUTH_JWT_CURRENT_KID'') then map_of env ''AUTH_JWT_CURRENT_KID'' else as_key_id d),
     as_keys := ks,
     as_issuer := (case map_of env ''AUTH_JWT_ISSUER'' of None \<Rightarrow> as_issuer d | Some v \<Rightarrow> v),
     as_audience := (if given (map_of env ''AUTH_JWT_AUDIENCE'') then map_of env ''AUTH_JWT_AUDIENCE'' else as_audience d),
     as_access_ttl := env_int env ''AUTH_ACCESS_TOKEN_TTL_SECONDS'' (as_access_ttl d),
     ds_bootstrap_ids := (case map_of env ''AUTH_BOOTSTRAP_ADMIN_USER_IDS'' of None \<Rightarrow> ds_bootstrap_ids d
       | Some v \<Rightarrow> split_csv (Some v)),
     as_refresh_ttl := env_int env ''AUTH_REFRESH_TOKEN_TTL_SECONDS'' (as_refresh_ttl d),
     ds_cookie_secure := env_bool env ''AUTH_COOKIE_SECURE'' (ds_cookie_secure d),
     ds_cookie_samesite := (case map_of env ''AUTH_COOKIE_SAMESITE'' of None \<Rightarrow> ds_cookie_samesite d | Some v \<Rightarrow> v),
     ds_env := env, as_env_secret := ''AUTH_JWT_SECRET'' \<in> set (keys env)\<rparr>"

definition secret_input_keys :: "string list" where
  "secret_input_keys = [''AUTH_JWT_SECRET'', ''AUTH_JWT_KEYS'', ''AUTH_JWT_SECRETS'', ''AUTH_JWT_JWKS'']"

definition load_auth_config :: "config_env \<Rightarrow> environ \<Rightarrow> deploy_settings \<Rightarrow> account_error + deploy_settings" where
  "load_auth_config ce env d =
    bind_ok (auth_jwt_keys_from_env ce env) (\<lambda>ks.
      (let st = loaded_auth_settings env d ks
       in if ds_auth_enabled st \<and> list_ex (\<lambda>k. k \<in> set (keys env)) secret_input_keys
          then bind_ok (validate_auth_enabled_jwt_secrets st True) (\<lambda>_. Inr st)
          else Inr st))"

section \<open>Lemmas\<close>

definition strong_secret :: "string \<Rightarrow> bool" where
  "strong_secret s \<longleftrightarrow> minimum_secret_length \<le> length (py_strip s) \<and> py_strip s \<notin> set insecure_secrets \<and>
    (\<forall>part \<in> set placeholder_parts. \<not> has_infix part (py_lower (py_strip s)))"

lemma stripped_simp: "stripped t = (if py_strip t = [] then None else Some (py_strip t))"
proof -
  have "py_strip [] = []" by (simp add: py_strip_def strip_by_def)
  then show ?thesis by (simp add: stripped_def optional_str_def Let_def)
qed

lemma no_secret_failures: "secret_failures (label, s) = [] \<longleftrightarrow> strong_secret s"
proof (cases "py_strip s = []")
  case True
  then show ?thesis by (simp add: secret_failures_def stripped_simp strong_secret_def minimum_secret_length_def)
next
  case False
  then show ?thesis
    by (auto simp: secret_failures_def stripped_simp strong_secret_def list_ex_iff split: if_splits)
qed

definition checked_secrets :: "deploy_settings \<Rightarrow> string set" where
  "checked_secrets st = snd ` set (configured_auth_jwt_secrets st)"

lemma no_failures_strong:
  assumes "jwt_secret_security_failures_for (configured_auth_jwt_secrets st) r = []"
  shows "\<forall>s \<in> checked_secrets st. strong_secret s"
  using assms no_secret_failures
  by (auto simp: jwt_secret_security_failures_for_def checked_secrets_def split: if_splits)

lemma truncate_simps [simp]:
  "as_keys (auth_settings.truncate st) = as_keys st" "as_secret (auth_settings.truncate st) = as_secret st"
  "as_env_secret (auth_settings.truncate st) = as_env_secret st"
  by (simp_all add: auth_settings.truncate_def)

lemma include_single_truncate:
  "include_single_secret (auth_settings.truncate st) \<longleftrightarrow> as_secret st \<noteq> [] \<and>
    (as_keys st = [] \<or> as_secret st \<noteq> default_auth_jwt_secret \<or> as_env_secret st)"
  by (simp add: include_single_secret_def)

lemma checked_secrets_iff: "s \<in> checked_secrets st \<longleftrightarrow>
    (\<exists>k \<in> set (as_keys st). jk_active k \<and> s = jk_secret k) \<or> single_auth_secret_is_configured st \<and> s = as_secret st"
  unfolding checked_secrets_def configured_auth_jwt_secrets_def set_append set_map set_filter image_Un image_image
  by auto

lemma checked_key: "k \<in> set (as_keys st) \<Longrightarrow> jk_active k \<Longrightarrow> jk_secret k \<in> checked_secrets st"
  unfolding checked_secrets_iff by blast

lemma checked_single: "single_auth_secret_is_configured st \<Longrightarrow> as_secret st \<in> checked_secrets st"
  by (simp add: checked_secrets_def configured_auth_jwt_secrets_def)

lemma validated_no_failures:
  assumes "validate_jwt_secret_for_environment st = Inr ()" "non_development_sources_for_settings st \<noteq> []"
  shows "jwt_secret_security_failures_for (configured_auth_jwt_secrets st) True = []"
  using assms by (auto simp: validate_jwt_secret_for_environment_def report_failures_def jwt_secret_security_failures_def
      Let_def split: if_splits)

text \<open>
  Settings as they are loaded: the flag tells whether the environment names \<open>AUTH_JWT_SECRET\<close>,
  and without it the secret is the default.
\<close>

definition loaded :: "deploy_settings \<Rightarrow> bool" where
  "loaded st \<longleftrightarrow> as_env_secret st = explicitly_configured st \<and>
    (explicitly_configured st \<or> as_secret st = default_auth_jwt_secret)"

text \<open>Outside development, start-up succeeds only if every secret a token may be signed with is strong: at
  least 32 characters, no default and no placeholder. The one exception is a blank AUTH_JWT_SECRET.\<close>

lemma validated_secrets_strong:
  assumes "validate_jwt_secret_for_environment st = Inr ()" "non_development_sources_for_settings st \<noteq> []" "loaded st"
    "s \<in> accepted_secrets (auth_settings.truncate st)"
  shows "strong_secret s \<or> s = as_secret st \<and> py_strip s = [] \<and> explicitly_configured st"
proof -
  note none = validated_no_failures [OF assms(1,2)]
  note strong = no_failures_strong [OF none]
  have cases: "(\<exists>k \<in> set (as_keys st). jk_active k \<and> s = jk_secret k) \<or>
      include_single_secret (auth_settings.truncate st) \<and> s = as_secret st"
    using assms(4) by (auto simp: accepted_secrets_def)
  show ?thesis
  proof (cases "\<exists>k \<in> set (as_keys st). jk_active k \<and> s = jk_secret k")
    case True
    then show ?thesis using strong checked_key by blast
  next
    case False
    with cases have s: "s = as_secret st" "include_single_secret (auth_settings.truncate st)" by blast+
    show ?thesis
    proof (cases "single_auth_secret_is_configured st")
      case True
      then show ?thesis using strong checked_single s(1) by blast
    next
      case not_configured: False
      have "as_keys st \<noteq> []"
      proof
        assume "as_keys st = []"
        then have "configured_auth_jwt_secrets st = []" using not_configured by (simp add: configured_auth_jwt_secrets_def)
        with none show False by (simp add: jwt_secret_security_failures_for_def)
      qed
      then have "as_env_secret st \<or> as_secret st \<noteq> default_auth_jwt_secret" using s(2) by (auto simp: include_single_truncate)
      then have e: "explicitly_configured st" using assms(3) by (auto simp: loaded_def)
      then have "py_strip (as_secret st) = []" using not_configured \<open>as_keys st \<noteq> []\<close>
        by (auto simp: single_auth_secret_is_configured_def stripped_simp split: if_splits)
      then show ?thesis using s(1) e by blast
    qed
  qed
qed

text \<open>A blank AUTH_JWT_SECRET beside a strong key passes the checks of start-up, and signs tokens.\<close>

lemma blank_secret_accepted:
  assumes "k \<in> set (as_keys st)" "jk_active k" "\<And>x. x \<in> set (as_keys st) \<Longrightarrow> jk_active x \<Longrightarrow> strong_secret (jk_secret x)"
  shows "validate_jwt_secret_for_environment (st\<lparr>as_secret := '' ''\<rparr>) = Inr () \<and>
    '' '' \<in> accepted_secrets (auth_settings.truncate (st\<lparr>as_secret := '' ''\<rparr>))"
proof -
  let ?st = "st\<lparr>as_secret := '' ''\<rparr>"
  have ne: "as_keys st \<noteq> []" using assms(1) by auto
  have blank: "py_strip '' '' = []" by code_simp
  then have "\<not> single_auth_secret_is_configured ?st" by (simp add: single_auth_secret_is_configured_def stripped_simp)
  then have c: "configured_auth_jwt_secrets ?st =
      map (\<lambda>k. (''AUTH_JWT_KEYS['' @ jk_id k @ '']'', jk_secret k)) (filter jk_active (as_keys st))"
    by (simp add: configured_auth_jwt_secrets_def)
  have "filter jk_active (as_keys st) \<noteq> []" using assms(1,2) by (auto simp: filter_empty_conv)
  moreover have "secret_failures p = []" if "p \<in> set (configured_auth_jwt_secrets ?st)" for p
    using that assms(3) unfolding c by (auto simp: no_secret_failures)
  ultimately have "jwt_secret_security_failures ?st = []"
    unfolding jwt_secret_security_failures_def jwt_secret_security_failures_for_def by (simp add: c concat_eq_Nil_conv)
  then have "validate_jwt_secret_for_environment ?st = Inr ()"
    by (simp add: validate_jwt_secret_for_environment_def report_failures_def Let_def)
  moreover have "include_single_secret (auth_settings.truncate ?st)"
    unfolding include_single_truncate by (simp add: default_auth_jwt_secret_def)
  ultimately show ?thesis by (simp add: accepted_secrets_def)
qed

text \<open>The checks of a non-development environment pass exactly when every single requirement holds.\<close>

lemma non_development_requirements:
  assumes "non_development_sources env \<noteq> []"
  shows "validate_non_development_security st env = Inr () \<longleftrightarrow>
    configured_auth_jwt_secrets st \<noteq> [] \<and> (\<forall>s \<in> checked_secrets st. strong_secret s) \<and>
    (given (as_key_id st) \<and> as_keys st \<noteq> [] \<longrightarrow> (\<exists>k \<in> set (as_keys st). jk_active k \<and> Some (jk_id k) = as_key_id st)) \<and>
    py_strip (as_issuer st) \<noteq> [] \<and> 0 < as_access_ttl st \<and> ds_auth_enabled st \<and> \<not> ds_demo_tokens st \<and> ds_cookie_secure st \<and>
    ds_cookie_samesite st \<in> {''lax'', ''strict''} \<and> ds_rate_limit_enabled st \<and> 0 < ds_rate_limit st \<and>
    0 < ds_rate_limit_chat st \<and> ds_cors_origins st \<noteq> [] \<and> \<not> (''*'' \<in> set (ds_cors_origins st) \<and> ds_cors_credentials st)"
proof -
  have ok: "validate_non_development_security st env = Inr () \<longleftrightarrow> security_failures st = []"
    using assms by (simp add: validate_non_development_security_def report_failures_def Let_def)
  have iff: "failure_if b msg = [] \<longleftrightarrow> \<not> b" for b msg by (simp add: failure_if_def)
  have secrets: "jwt_secret_security_failures st = [] \<longleftrightarrow>
      configured_auth_jwt_secrets st \<noteq> [] \<and> (\<forall>s \<in> checked_secrets st. strong_secret s)"
    by (auto simp: jwt_secret_security_failures_def jwt_secret_security_failures_for_def checked_secrets_def
        no_secret_failures concat_eq_Nil_conv)
  show ?thesis unfolding ok security_failures_def append_is_Nil_conv iff secrets stripped_simp list_ex_iff
    by (simp add: not_le) blast
qed

text \<open>The keys read from the environment have different ids; the last definition of an id counts.\<close>

lemma dedupe_keys:
  "distinct (map jk_id (dedupe_auth_jwt_keys ks)) \<and>
   (k \<in> set (dedupe_auth_jwt_keys ks) \<longleftrightarrow> find (\<lambda>x. jk_id x = jk_id k) (rev ks) = Some k)"
proof -
  define d where "d = foldl (\<lambda>d k. AList.update (jk_id k) k d) [] ks"
  have d: "wf_dict d \<and> (\<forall>i. map_of d i = find (\<lambda>x. jk_id x = i) (rev ks)) \<and> (\<forall>p \<in> set d. fst p = jk_id (snd p))"
    unfolding d_def
  proof (induction ks rule: rev_induct)
    case (snoc x ks)
    let ?d = "foldl (\<lambda>d k. AList.update (jk_id k) k d) [] ks"
    have "wf_dict ?d" using snoc by blast
    then have "\<forall>p \<in> set (AList.update (jk_id x) x ?d). fst p = jk_id (snd p)" using snoc by (auto simp: set_update_dict)
    moreover have "wf_dict (AList.update (jk_id x) x ?d)" using \<open>wf_dict ?d\<close> by (rule wf_dict_update)
    moreover have "map_of (AList.update (jk_id x) x ?d) i = find (\<lambda>x. jk_id x = i) (rev (ks @ [x]))" for i
      using snoc by auto
    ultimately show ?case by simp
  qed simp
  then have m: "map jk_id (map snd d) = map fst d" by (auto intro!: map_cong simp: comp_def)
  have "distinct (map jk_id (map snd d))" unfolding m using d by blast
  moreover have "k \<in> set (map snd d) \<longleftrightarrow> find (\<lambda>x. jk_id x = jk_id k) (rev ks) = Some k"
  proof -
    have "k \<in> set (map snd d) \<longleftrightarrow> (jk_id k, k) \<in> set d" using d by force
    also have "\<dots> \<longleftrightarrow> map_of d (jk_id k) = Some k" using dict_mem_iff [of d "jk_id k" k] d by blast
    finally show ?thesis using d by simp
  qed
  ultimately show ?thesis by (simp add: dedupe_auth_jwt_keys_def d_def)
qed

section \<open>Witnesses\<close>

definition ex_strong_key :: jwt_key where
  "ex_strong_key = \<lparr>jk_id = ''k1'', jk_secret = ''0123456789abcdef0123456789abcdef'', jk_active = True\<rparr>"

definition ex_deploy :: deploy_settings where
  "ex_deploy = \<lparr>as_secret = default_auth_jwt_secret, as_key_id = Some ''k1'', as_keys = [ex_strong_key],
     as_issuer = ''focus-agent'', as_audience = None, as_access_ttl = 100, as_refresh_ttl = 1000, as_env_secret = False,
     ds_env = [(''APP_ENVIRONMENT'', ''production'')], ds_app_environment = ''production'', ds_auth_enabled = True,
     ds_demo_tokens = False, ds_cookie_secure = True, ds_cookie_samesite = ''lax'', ds_bootstrap_ids = [],
     ds_rate_limit_enabled = True, ds_rate_limit = 60, ds_rate_limit_chat = 20, ds_cors_origins = [''https://a''],
     ds_cors_credentials = True\<rparr>"

lemma ex_strong: "strong_secret ''0123456789abcdef0123456789abcdef''"
  by code_simp

lemma ex_sources: "non_development_sources (ds_env ex_deploy) \<noteq> []"
proof -
  have "py_strip ''production'' = ''production''" "py_lower ''production'' = ''production''" by code_simp+
  then show ?thesis
    by (simp add: non_development_sources_def ex_deploy_def opt_value_def optional_str_def development_names_def)
qed

lemma ex_not_single: "\<not> single_auth_secret_is_configured ex_deploy"
proof -
  have "py_strip default_auth_jwt_secret = default_auth_jwt_secret"
    unfolding default_auth_jwt_secret_def by code_simp
  then show ?thesis
    by (simp add: single_auth_secret_is_configured_def stripped_simp ex_deploy_def explicitly_configured_def)
qed

lemma ex_no_failures: "jwt_secret_security_failures ex_deploy = []"
proof -
  have "configured_auth_jwt_secrets ex_deploy = [(''AUTH_JWT_KEYS['' @ ''k1'' @ '']'', ''0123456789abcdef0123456789abcdef'')]"
    unfolding configured_auth_jwt_secrets_def using ex_not_single by (simp add: ex_deploy_def ex_strong_key_def)
  then show ?thesis
    using ex_strong by (simp add: jwt_secret_security_failures_def jwt_secret_security_failures_for_def no_secret_failures)
qed

theorem validated_secrets_strong_witness:
  "validate_jwt_secret_for_environment ex_deploy = Inr () \<and> strong_secret ''0123456789abcdef0123456789abcdef''"
proof -
  have "non_development_sources_for_settings ex_deploy \<noteq> []"
    using ex_sources by (simp add: non_development_sources_for_settings_def ex_deploy_def Let_def)
  moreover have v: "validate_jwt_secret_for_environment ex_deploy = Inr ()"
    by (simp add: validate_jwt_secret_for_environment_def report_failures_def ex_no_failures Let_def)
  moreover have "loaded ex_deploy" by (simp add: loaded_def explicitly_configured_def ex_deploy_def)
  moreover have "jk_secret ex_strong_key \<in> accepted_secrets (auth_settings.truncate ex_deploy)"
  proof -
    have "ex_strong_key \<in> {k \<in> set (as_keys (auth_settings.truncate ex_deploy)). jk_active k}"
      by (simp add: ex_deploy_def, simp add: ex_strong_key_def)
    moreover have "jk_secret ex_strong_key \<noteq> []" by (simp add: ex_strong_key_def)
    ultimately show ?thesis unfolding accepted_secrets_def by blast
  qed
  ultimately have "strong_secret (jk_secret ex_strong_key) \<or> jk_secret ex_strong_key = as_secret ex_deploy \<and>
      py_strip (jk_secret ex_strong_key) = [] \<and> explicitly_configured ex_deploy"
    by (intro validated_secrets_strong)
  then show ?thesis using v by (auto simp: ex_strong_key_def explicitly_configured_def ex_deploy_def)
qed

theorem blank_secret_accepted_witness:
  "validate_jwt_secret_for_environment (ex_deploy\<lparr>as_secret := '' ''\<rparr>) = Inr () \<and>
   '' '' \<in> accepted_secrets (auth_settings.truncate (ex_deploy\<lparr>as_secret := '' ''\<rparr>))"
proof -
  have k: "as_keys ex_deploy = [ex_strong_key]" by (simp add: ex_deploy_def)
  show ?thesis
    by (rule blank_secret_accepted [of ex_strong_key]) (simp_all add: k ex_strong_key_def ex_strong)
qed

theorem non_development_requirements_witness:
  "validate_non_development_security (ex_deploy\<lparr>ds_cookie_secure := False\<rparr>) (ds_env ex_deploy) \<noteq> Inr ()"
  using non_development_requirements [OF ex_sources, of "ex_deploy\<lparr>ds_cookie_secure := False\<rparr>"] by simp

end
