(* ===== verification/Roles.thy ===== *)
theory Roles
  imports Values
begin

text \<open>
  The roles of delegated agents (\<open>delegation/roles.py\<close>): their names and aliases, which roles a
  request calls for, which tools a role may use, and the plan that routes a request to roles.
  \<open>canonical_model_id\<close> is a parameter. Texts are code points below 256, so the markers in
  other scripts match no text of the model and are left out.
\<close>

datatype agent_role = ORCHESTRATOR | PLANNER | EXECUTOR | CRITIC | MEMORY_CURATOR | SKILL_SCOUT

definition all_roles :: "agent_role list" where
  "all_roles = [ORCHESTRATOR, PLANNER, EXECUTOR, CRITIC, MEMORY_CURATOR, SKILL_SCOUT]"

definition role_value :: "agent_role \<Rightarrow> string" where
  "role_value r = (case r of ORCHESTRATOR \<Rightarrow> ''orchestrator'' | PLANNER \<Rightarrow> ''planner'' | EXECUTOR \<Rightarrow> ''executor''
     | CRITIC \<Rightarrow> ''critic'' | MEMORY_CURATOR \<Rightarrow> ''memory_curator'' | SKILL_SCOUT \<Rightarrow> ''skill_scout'')"

definition role_aliases :: "(string, agent_role) dict" where
  "role_aliases = [(''architect'', ORCHESTRATOR), (''coordinator'', ORCHESTRATOR), (''research'', PLANNER),
     (''researcher'', PLANNER), (''analyst'', PLANNER), (''coding'', EXECUTOR), (''backend'', EXECUTOR),
     (''frontend'', EXECUTOR), (''review'', CRITIC), (''qa'', CRITIC), (''tester'', CRITIC),
     (''memory'', MEMORY_CURATOR), (''memory_curator'', MEMORY_CURATOR), (''skill'', SKILL_SCOUT),
     (''skill_scout'', SKILL_SCOUT)]"

definition planner_markers :: "string list" where
  "planner_markers = [''plan'', ''design'', ''research'', ''analyze'', ''compare'', ''investigate'', ''search'',
     ''lookup'', ''architecture'']"

definition executor_markers :: "string list" where
  "executor_markers = [''implement'', ''fix'', ''change'', ''modify'', ''refactor'', ''backend'', ''frontend'',
     ''runtime'', ''test'']"

definition critic_markers :: "string list" where
  "critic_markers = [''review'', ''verify'', ''validate'', ''qa'', ''regression'']"

definition memory_markers :: "string list" where
  "memory_markers = [''memory'', ''remember'', ''promotion'', ''promote'']"

definition skill_markers :: "string list" where
  "skill_markers = [''skill'', ''tool'', ''toolset'']"

definition role_governance :: "agent_role \<Rightarrow> string list" where
  "role_governance r = (case r of
     ORCHESTRATOR \<Rightarrow> [''conversation_summary'', ''ask_user_question'', ''skills_list'', ''skill_view'', ''skill_sources'',
       ''skills_search'']
   | PLANNER \<Rightarrow> [''web_search'', ''web_fetch'', ''current_utc_time'', ''search_code'', ''read_file'', ''list_files'',
       ''workspace_tree'', ''conversation_summary'', ''ask_user_question'', ''skills_list'', ''skill_view'',
       ''skill_sources'', ''skills_search'', ''skills_refresh_index'']
   | EXECUTOR \<Rightarrow> [''list_files'', ''workspace_tree'', ''read_file'', ''search_code'', ''codebase_stats'', ''git_status'',
       ''git_diff'', ''apply_patch'', ''run_workspace_command'', ''artifact_list'', ''artifact_read'',
       ''artifact_update'', ''write_text_artifact'', ''ask_user_question'']
   | CRITIC \<Rightarrow> [''list_files'', ''workspace_tree'', ''read_file'', ''search_code'', ''git_status'', ''git_diff'',
       ''git_log'', ''artifact_list'', ''artifact_read'']
   | MEMORY_CURATOR \<Rightarrow> [''memory_search'', ''conversation_summary'', ''artifact_list'', ''artifact_read'']
   | SKILL_SCOUT \<Rightarrow> [''skills_list'', ''skill_view'', ''skill_sources'', ''skills_search'', ''skills_refresh_index'',
       ''skill_install'', ''conversation_summary''])"

record role_settings =
  rs_role_model :: "agent_role \<Rightarrow> string option"
  rs_model :: "string option"
  rs_helper_model :: "string option"
  rs_routing_enabled :: bool
  rs_max_parallel :: int

record tool_governance =
  tg_allowed :: "string list"
  tg_denied :: "string list"
  tg_network :: bool
  tg_workspace_write :: bool

record role_decision =
  rd_role :: agent_role
  rd_model :: string
  rd_task_slice :: string
  rd_rationale :: string
  rd_governance :: tool_governance
  rd_isolation_key :: string
  rd_depends_on :: "string list"
  rd_dry_run :: bool

record role_route_plan =
  rp_enabled :: bool
  rp_source :: string
  rp_reason :: string
  rp_orchestrator_model :: "string option"
  rp_max_parallel :: int
  rp_decisions :: "role_decision list"
  rp_legacy_unchanged :: bool

text \<open>\<open>a or b or ...\<close> on optional texts: the first that is not blank, else the last.\<close>

fun first_given :: "string option list \<Rightarrow> string option" where
  "first_given [] = None"
| "first_given [v] = v"
| "first_given (v # w # ws) = (if given v then v else first_given (w # ws))"

definition resolve_model :: "(string option \<Rightarrow> string) \<Rightarrow> role_settings \<Rightarrow> agent_role \<Rightarrow> string option \<Rightarrow> string" where
  "resolve_model canonical st role fallback = canonical
    (if role = EXECUTOR then first_given [rs_role_model st role, fallback, rs_model st, rs_helper_model st]
     else first_given [rs_role_model st role, fallback, rs_helper_model st, rs_model st])"

definition dashes_to_underscores :: "string \<Rightarrow> string" where
  "dashes_to_underscores s = map (\<lambda>c. if c = CHR ''-'' then CHR ''_'' else c) s"

definition normalize_agent_role :: "string \<Rightarrow> py_error + agent_role" where
  "normalize_agent_role role =
    (let n = dashes_to_underscores (py_lower (py_strip role))
     in case map_of role_aliases n of
          Some r \<Rightarrow> Inr r
        | None \<Rightarrow> (case find (\<lambda>r. role_value r = n) all_roles of
              Some r \<Rightarrow> Inr r
            | None \<Rightarrow> Inl (ValueError (n @ '' is not a valid AgentRole''))))"

definition contains_any :: "string \<Rightarrow> string list \<Rightarrow> bool" where
  "contains_any t markers \<longleftrightarrow> list_ex (\<lambda>m. has_infix m t) markers"

definition infer_role_candidates :: "string \<Rightarrow> int \<Rightarrow> agent_role list" where
  "infer_role_candidates task_text max_parallel =
    (let t = py_lower task_text;
         c = (if contains_any t planner_markers then [PLANNER] else [])
           @ (if contains_any t executor_markers then [EXECUTOR] else [])
           @ (if contains_any t critic_markers then [CRITIC] else [])
           @ (if contains_any t memory_markers then [MEMORY_CURATOR] else [])
           @ (if contains_any t skill_markers then [SKILL_SCOUT] else []);
         candidates = (if c = [] then [EXECUTOR] else c)
     in take (nat (max 1 max_parallel)) (from_keys candidates))"

definition compact_task_slice :: "string \<Rightarrow> string" where
  "compact_task_slice task_text = (let c = py_words task_text
     in if length c \<le> 240 then c else take 237 c @ ''...'')"

definition task_slice_for_role :: "agent_role \<Rightarrow> string \<Rightarrow> string" where
  "task_slice_for_role r task_text = (let base = compact_task_slice task_text in case r of
     PLANNER \<Rightarrow> ''Plan isolated role runs and success criteria for: '' @ base
   | EXECUTOR \<Rightarrow> ''Execute the approved implementation slice for: '' @ base
   | CRITIC \<Rightarrow> ''Critique completion quality and regression risk for: '' @ base
   | MEMORY_CURATOR \<Rightarrow> ''Preview memory candidates and branch promotion safety for: '' @ base
   | SKILL_SCOUT \<Rightarrow> ''Select relevant skills and toolsets for: '' @ base
   | ORCHESTRATOR \<Rightarrow> base)"

definition rationale_for_role :: "agent_role \<Rightarrow> string \<Rightarrow> string" where
  "rationale_for_role r tool_policy =
    (let p = (if tool_policy = [] then ''unspecified'' else tool_policy) in case r of
     PLANNER \<Rightarrow> ''Task text suggests planning or investigation; tool policy is '' @ p @ ''.''
   | EXECUTOR \<Rightarrow> ''Task text suggests implementation work; tool policy is '' @ p @ ''.''
   | CRITIC \<Rightarrow> ''Task text suggests validation or review; tool policy is '' @ p @ ''.''
   | MEMORY_CURATOR \<Rightarrow> ''Task text suggests memory or promotion governance; tool policy is '' @ p @ ''.''
   | SKILL_SCOUT \<Rightarrow> ''Task text suggests skill or tool selection; tool policy is '' @ p @ ''.''
   | ORCHESTRATOR \<Rightarrow> ''Coordinate role routing.'')"

definition network_tools :: "string list" where
  "network_tools = [''web_search'', ''web_fetch'', ''current_utc_time'']"

definition governed_write_tools :: "string list" where
  "governed_write_tools = [''apply_patch'', ''run_workspace_command'', ''write_text_artifact'', ''artifact_update'',
     ''skill_install'']"

definition governance_for :: "agent_role \<Rightarrow> string list \<Rightarrow> tool_governance" where
  "governance_for r available =
    (let allowed = filter (\<lambda>n. n \<in> set (role_governance r)) available
     in \<lparr>tg_allowed = allowed, tg_denied = filter (\<lambda>n. n \<notin> set (role_governance r)) available,
         tg_network = list_ex (\<lambda>n. n \<in> set allowed) network_tools,
         tg_workspace_write = list_ex (\<lambda>n. n \<in> set allowed) governed_write_tools\<rparr>)"

definition isolation_key :: "agent_role \<Rightarrow> string" where
  "isolation_key r = ''role:'' @ role_value r"

definition orchestrator_decision :: "(string option \<Rightarrow> string) \<Rightarrow> role_settings \<Rightarrow> string \<Rightarrow> string list \<Rightarrow> role_decision" where
  "orchestrator_decision canonical st task_text tools =
    \<lparr>rd_role = ORCHESTRATOR, rd_model = resolve_model canonical st ORCHESTRATOR None,
     rd_task_slice = (if compact_task_slice task_text = [] then ''Coordinate this turn.'' else compact_task_slice task_text),
     rd_rationale = ''Coordinate the dry-run role routing decision before isolated role runs.'',
     rd_governance = governance_for ORCHESTRATOR tools, rd_isolation_key = ''role:orchestrator'',
     rd_depends_on = [], rd_dry_run = True\<rparr>"

definition delegated_decision :: "(string option \<Rightarrow> string) \<Rightarrow> role_settings \<Rightarrow> string \<Rightarrow> string list \<Rightarrow> string \<Rightarrow> agent_role \<Rightarrow> role_decision" where
  "delegated_decision canonical st task_text tools tool_policy r =
    \<lparr>rd_role = r, rd_model = resolve_model canonical st r None, rd_task_slice = task_slice_for_role r task_text,
     rd_rationale = rationale_for_role r tool_policy, rd_governance = governance_for r tools,
     rd_isolation_key = isolation_key r, rd_depends_on = [''role:orchestrator''], rd_dry_run = True\<rparr>"

definition build_role_route_plan :: "(string option \<Rightarrow> string) \<Rightarrow> role_settings \<Rightarrow> string \<Rightarrow> string list \<Rightarrow> string \<Rightarrow> role_route_plan" where
  "build_role_route_plan canonical st task_text available tool_policy =
    (let max_parallel = max 1 (rs_max_parallel st)
     in if \<not> rs_routing_enabled st
        then \<lparr>rp_enabled = False, rp_source = ''dry_run'', rp_reason = ''AGENT_ROLE_ROUTING_ENABLED is off.'',
              rp_orchestrator_model = None, rp_max_parallel = max_parallel, rp_decisions = [], rp_legacy_unchanged = True\<rparr>
        else (let tools = from_keys (filter (\<lambda>n. n \<noteq> []) available);
                  roles = infer_role_candidates task_text max_parallel
              in \<lparr>rp_enabled = True, rp_source = ''dry_run'',
                  rp_reason = ''Dry-run route selected '' @ show_nat (length roles) @ '' delegated role run(s).'',
                  rp_orchestrator_model = Some (resolve_model canonical st ORCHESTRATOR None),
                  rp_max_parallel = max_parallel,
                  rp_decisions = orchestrator_decision canonical st task_text tools
                    # map (delegated_decision canonical st task_text tools tool_policy) roles,
                  rp_legacy_unchanged = True\<rparr>))"

definition artifact_kind_for_role :: "agent_role \<Rightarrow> string" where
  "artifact_kind_for_role r = (case r of PLANNER \<Rightarrow> ''plan'' | CRITIC \<Rightarrow> ''critic_verdict''
     | MEMORY_CURATOR \<Rightarrow> ''memory_candidate'' | SKILL_SCOUT \<Rightarrow> ''tool_route_evidence'' | EXECUTOR \<Rightarrow> ''patch_summary''
     | ORCHESTRATOR \<Rightarrow> ''evidence'')"

section \<open>Lemmas\<close>

lemma set_all_roles: "r \<in> set all_roles"
  by (cases r) (simp_all add: all_roles_def)

lemma role_value_inject [simp]: "role_value r = role_value q \<longleftrightarrow> r = q"
  by (cases r; cases q) (simp_all add: role_value_def)

text \<open>The name of a role reads back as that role.\<close>

lemma role_name_roundtrip: "normalize_agent_role (role_value r) = Inr r"
proof -
  have n: "dashes_to_underscores (py_lower (py_strip (role_value r))) = role_value r"
    by (cases r) (simp_all add: role_value_def, code_simp+)
  show ?thesis unfolding normalize_agent_role_def n
    by (cases r) (simp_all add: role_aliases_def role_value_def all_roles_def)
qed

lemma infer_candidates:
  "distinct (infer_role_candidates t n)" "infer_role_candidates t n \<noteq> []"
  "int (length (infer_role_candidates t n)) \<le> max 1 n" "ORCHESTRATOR \<notin> set (infer_role_candidates t n)"
proof -
  define c where "c = (if contains_any (py_lower t) planner_markers then [PLANNER] else [])
           @ (if contains_any (py_lower t) executor_markers then [EXECUTOR] else [])
           @ (if contains_any (py_lower t) critic_markers then [CRITIC] else [])
           @ (if contains_any (py_lower t) memory_markers then [MEMORY_CURATOR] else [])
           @ (if contains_any (py_lower t) skill_markers then [SKILL_SCOUT] else [])"
  define d where "d = (if c = [] then [EXECUTOR] else c)"
  have i: "infer_role_candidates t n = take (nat (max 1 n)) (from_keys d)"
    by (simp add: infer_role_candidates_def d_def c_def Let_def)
  have "ORCHESTRATOR \<notin> set d" by (simp add: d_def c_def)
  then show "ORCHESTRATOR \<notin> set (infer_role_candidates t n)" unfolding i by (auto dest: in_set_takeD)
  show "distinct (infer_role_candidates t n)" unfolding i by simp
  have "d \<noteq> []" by (simp add: d_def)
  then have "from_keys d \<noteq> []" using set_from_keys [of d] by (metis set_empty)
  then show "infer_role_candidates t n \<noteq> []" unfolding i by (simp add: take_eq_Nil)
  show "int (length (infer_role_candidates t n)) \<le> max 1 n" unfolding i by simp
qed

text \<open>A route plan starts with the orchestrator, gives each further role once and within the limit of parallel runs,
  and grants each role exactly the available tools of its allow list.\<close>

lemma route_plan_wf:
  fixes canonical task_text available tool_policy
  assumes "rs_routing_enabled st"
  defines "ds \<equiv> rp_decisions (build_role_route_plan canonical st task_text available tool_policy)"
  shows "rd_role (hd ds) = ORCHESTRATOR \<and> distinct (map rd_role ds) \<and> 2 \<le> length ds \<and>
    int (length ds) \<le> 1 + max 1 (rs_max_parallel st) \<and>
    (\<forall>d \<in> set ds. set (tg_allowed (rd_governance d)) = {n \<in> set available. n \<noteq> [] \<and> n \<in> set (role_governance (rd_role d))} \<and>
       set (tg_denied (rd_governance d)) = {n \<in> set available. n \<noteq> [] \<and> n \<notin> set (role_governance (rd_role d))})"
proof -
  define roles where "roles = infer_role_candidates task_text (max 1 (rs_max_parallel st))"
  define tools where "tools = from_keys (filter (\<lambda>n. n \<noteq> []) available)"
  have ds: "ds = orchestrator_decision canonical st task_text tools
      # map (delegated_decision canonical st task_text tools tool_policy) roles"
    using assms(1) by (simp add: ds_def build_role_route_plan_def roles_def tools_def Let_def)
  note c = infer_candidates [of task_text "max 1 (rs_max_parallel st)", folded roles_def]
  have role: "map rd_role ds = ORCHESTRATOR # roles"
    by (simp add: ds orchestrator_decision_def delegated_decision_def comp_def)
  have gov: "rd_governance d = governance_for (rd_role d) tools" if "d \<in> set ds" for d
    using that by (auto simp: ds orchestrator_decision_def delegated_decision_def)
  have "set tools = {n \<in> set available. n \<noteq> []}" by (auto simp: tools_def)
  then have "set (tg_allowed (rd_governance d)) = {n \<in> set available. n \<noteq> [] \<and> n \<in> set (role_governance (rd_role d))} \<and>
       set (tg_denied (rd_governance d)) = {n \<in> set available. n \<noteq> [] \<and> n \<notin> set (role_governance (rd_role d))}"
    if "d \<in> set ds" for d
    using gov [OF that] by (auto simp: governance_for_def Let_def)
  moreover have "distinct (map rd_role ds)" unfolding role using c by simp
  moreover have "2 \<le> length ds" using c(2) by (cases roles) (simp_all add: ds)
  moreover have "int (length ds) \<le> 1 + max 1 (rs_max_parallel st)" using c(3) by (simp add: ds)
  moreover have "rd_role (hd ds) = ORCHESTRATOR" by (simp add: ds orchestrator_decision_def)
  ultimately show ?thesis by blast
qed

text \<open>Only the executor is granted tools that change the workspace, and only the scout may install skills.\<close>

lemma write_tools_governed:
  "tg_workspace_write (governance_for r available) \<longleftrightarrow>
    r = EXECUTOR \<and> set available \<inter> {''apply_patch'', ''run_workspace_command'', ''write_text_artifact'', ''artifact_update''} \<noteq> {} \<or>
    r = SKILL_SCOUT \<and> ''skill_install'' \<in> set available"
  by (cases r) (auto simp: governance_for_def Let_def governed_write_tools_def role_governance_def)

definition ex_role_settings :: role_settings where
  "ex_role_settings = \<lparr>rs_role_model = (\<lambda>r. None), rs_model = Some ''m'', rs_helper_model = None,
     rs_routing_enabled = True, rs_max_parallel = 2\<rparr>"

theorem route_plan_wf_witness:
  "map rd_role (rp_decisions (build_role_route_plan or_empty ex_role_settings ''Fix and review'' [''git_diff''] []))
     = [ORCHESTRATOR, EXECUTOR, CRITIC] \<and>
   int (length (rp_decisions (build_role_route_plan or_empty ex_role_settings ''Fix and review'' [''git_diff''] []))) \<le> 3"
proof -
  have "rs_routing_enabled ex_role_settings" "rs_max_parallel ex_role_settings = 2" by (simp_all add: ex_role_settings_def)
  moreover have "map rd_role (rp_decisions (build_role_route_plan or_empty ex_role_settings ''Fix and review'' [''git_diff''] []))
     = [ORCHESTRATOR, EXECUTOR, CRITIC]" by code_simp
  ultimately show ?thesis
    using route_plan_wf [of ex_role_settings or_empty "''Fix and review''" "[''git_diff'']" "[]"] by simp
qed

end
