(* ===== verification/Delegation.thy ===== *)
theory Delegation
  imports Roles
begin

text \<open>
  The delegation runtime: the plan that turns the decisions of a route into tasks
  (\<open>delegation/delegation_models.py\<close>, \<open>delegation/delegation_planning.py\<close>), the configuration of
  each run (\<open>delegation/execution_registry.py\<close>), the checks before a run, and the executors
  (\<open>delegation/execution_executors.py\<close>, \<open>delegation/execution_model_task.py\<close>). The model call,
  JSON and \<open>str\<close> of values that are not strings are parameters (\<open>model_env\<close>); the clock is one argument.
  Costs, which are always 0.0, and the fields of a result no executor sets are left out.
\<close>

section \<open>Data\<close>

datatype exec_mode = OBSERVE | FAKE | INLINE | BACKGROUND

definition mode_value :: "exec_mode \<Rightarrow> string" where
  "mode_value m = (case m of OBSERVE \<Rightarrow> ''observe'' | FAKE \<Rightarrow> ''fake'' | INLINE \<Rightarrow> ''inline'' | BACKGROUND \<Rightarrow> ''background'')"

definition normalize_execution_mode :: "string option \<Rightarrow> exec_mode" where
  "normalize_execution_mode v = (let n = py_lower (py_strip (if given v then or_empty v else ''observe''))
     in if n = ''fake'' then FAKE else if n = ''inline'' then INLINE else if n = ''background'' then BACKGROUND else OBSERVE)"

datatype run_status = PLANNED | RUNNING | COMPLETED | FAILED | SKIPPED | NEEDS_REVIEW

record workspace =
  ws_id :: "string option"
  ws_path :: "string option"
  ws_branch :: "string option"
  ws_commit :: "string option"

definition no_workspace :: workspace where
  "no_workspace = \<lparr>ws_id = None, ws_path = None, ws_branch = None, ws_commit = None\<rparr>"

record agent_budget =
  bg_llm :: int
  bg_tools :: int

record agent_task =
  at_id :: string
  at_parent :: "string option"
  at_role :: agent_role
  at_goal :: string
  at_constraints :: "string list"
  at_allowed :: "string list"
  at_memory_scope :: string
  at_budget :: agent_budget
  at_criteria :: "string list"
  at_max_turns :: int
  at_timeout :: int
  at_max_depth :: int
  at_writes :: bool
  at_network :: bool
  at_refs :: "(string, pyval) dict list"
  at_isolation :: string
  at_workspace :: workspace

record agent_artifact =
  aa_id :: string
  aa_kind :: string
  aa_title :: string
  aa_summary :: string
  aa_payload :: "(string, pyval) dict"

record agent_run =
  ar_id :: string
  ar_task :: string
  ar_role :: agent_role
  ar_status :: run_status
  ar_model :: "string option"
  ar_started :: "string option"
  ar_finished :: "string option"
  ar_artifacts :: "agent_artifact list"
  ar_error :: "string option"
  ar_mode :: exec_mode

record delegate_decision =
  dd_id :: string
  dd_role :: agent_role
  dd_task :: string
  dd_rationale :: string
  dd_payload :: "(string, pyval) dict"

record delegation_plan =
  dp_enabled :: bool
  dp_enforce :: bool
  dp_mode :: exec_mode
  dp_source :: string
  dp_reason :: string
  dp_max_parallel :: int
  dp_tasks :: "agent_task list"
  dp_runs :: "agent_run list"
  dp_decisions :: "delegate_decision list"
  dp_legacy :: bool
  dp_skipped :: string

record delegation_settings =
  dl_roles :: role_settings
  dl_enabled :: bool
  dl_enforce :: bool
  dl_mode :: "string option"
  dl_max_turns :: pyval
  dl_timeout :: pyval
  dl_max_depth :: pyval

section \<open>The plan\<close>

text \<open>\<open>model_dump(mode="json")\<close> of a route plan\<close>

definition governance_dump :: "tool_governance \<Rightarrow> pyval" where
  "governance_dump g = PDict [(''allowed_tools'', PList (map PStr (tg_allowed g))), (''denied_tools'', PList (map PStr (tg_denied g))),
     (''allow_network'', PBool (tg_network g)), (''allow_workspace_write'', PBool (tg_workspace_write g))]"

definition decision_dump :: "role_decision \<Rightarrow> (string, pyval) dict" where
  "decision_dump d = [(''role'', PStr (role_value (rd_role d))), (''model_id'', PStr (rd_model d)),
     (''task_slice'', PStr (rd_task_slice d)), (''rationale'', PStr (rd_rationale d)),
     (''tool_governance'', governance_dump (rd_governance d)), (''run_isolation_key'', PStr (rd_isolation_key d)),
     (''depends_on'', PList (map PStr (rd_depends_on d))), (''dry_run'', PBool (rd_dry_run d))]"

definition route_plan_dump :: "role_route_plan \<Rightarrow> (string, pyval) dict" where
  "route_plan_dump p = [(''enabled'', PBool (rp_enabled p)), (''source'', PStr (rp_source p)), (''route_reason'', PStr (rp_reason p)),
     (''orchestrator_model_id'', opt_value (rp_orchestrator_model p)), (''max_parallel_runs'', PInt (rp_max_parallel p)),
     (''decisions'', PList (map (\<lambda>d. PDict (decision_dump d)) (rp_decisions p))),
     (''legacy_execution_unchanged'', PBool (rp_legacy_unchanged p))]"

text \<open>\<open>raw.get("tool_governance")\<close> if it is a dictionary, else empty; \<open>for item in v or []\<close>\<close>

definition governance_of :: "(string, pyval) dict \<Rightarrow> (string, pyval) dict" where
  "governance_of raw = (case dict_value raw ''tool_governance'' of PDict g \<Rightarrow> g | _ \<Rightarrow> [])"

definition items_or_none :: "pyval \<Rightarrow> py_error + pyval list" where
  "items_or_none v = (if truthy v then iter_values v else Inr [])"

definition dicts_of :: "pyval list \<Rightarrow> (string, pyval) dict list" where
  "dicts_of vs = concat (map (\<lambda>v. case v of PDict d \<Rightarrow> [d] | _ \<Rightarrow> []) vs)"

definition is_valid_route_decision :: "(pyval \<Rightarrow> string) \<Rightarrow> (string, pyval) dict \<Rightarrow> py_error + bool" where
  "is_valid_route_decision str_of raw =
    (let goal = py_strip (text_of str_of (dict_value raw ''task_slice''))
     in if goal = [] \<or> py_lower goal = ''execute the user request.'' then Inr False
        else bind_ok (items_or_none (dict_value raw ''context_refs'')) (\<lambda>refs.
          bind_ok (items_or_none (dict_value (governance_of raw) ''allowed_tools'')) (\<lambda>tools.
            Inr (py_strip (text_of str_of (dict_value raw ''rationale'')) \<noteq> [] \<or> dicts_of refs \<noteq> []
              \<or> list_ex (\<lambda>v. py_str str_of v \<noteq> []) tools))))"

fun filter_ok :: "('a \<Rightarrow> 'e + bool) \<Rightarrow> 'a list \<Rightarrow> 'e + 'a list" where
  "filter_ok f [] = Inr []"
| "filter_ok f (x # xs) = bind_ok (f x) (\<lambda>b. bind_ok (filter_ok f xs) (\<lambda>ys. Inr (if b then x # ys else ys)))"

definition route_decisions :: "(pyval \<Rightarrow> string) \<Rightarrow> (string, pyval) dict \<Rightarrow> py_error + (string, pyval) dict list" where
  "route_decisions str_of plan = (case dict_value plan ''decisions'' of
     PList ds \<Rightarrow> filter_ok (is_valid_route_decision str_of) (dicts_of ds)
   | _ \<Rightarrow> Inr [])"

definition budget_for_role :: "agent_role \<Rightarrow> agent_budget" where
  "budget_for_role r = (case r of ORCHESTRATOR \<Rightarrow> \<lparr>bg_llm = 1, bg_tools = 0\<rparr>
     | CRITIC \<Rightarrow> \<lparr>bg_llm = 1, bg_tools = 2\<rparr> | MEMORY_CURATOR \<Rightarrow> \<lparr>bg_llm = 1, bg_tools = 2\<rparr>
     | SKILL_SCOUT \<Rightarrow> \<lparr>bg_llm = 1, bg_tools = 2\<rparr> | _ \<Rightarrow> \<lparr>bg_llm = 2, bg_tools = 5\<rparr>)"

definition max_turns_for_role :: "agent_role \<Rightarrow> int" where
  "max_turns_for_role r = (case r of ORCHESTRATOR \<Rightarrow> 1 | EXECUTOR \<Rightarrow> 3 | _ \<Rightarrow> 2)"

definition timeout_for_role :: "agent_role \<Rightarrow> int" where
  "timeout_for_role r = (case r of EXECUTOR \<Rightarrow> 120 | CRITIC \<Rightarrow> 60 | _ \<Rightarrow> 30)"

text \<open>\<open>str(v or d)\<close>\<close>

definition text_or :: "(pyval \<Rightarrow> string) \<Rightarrow> pyval \<Rightarrow> string \<Rightarrow> string" where
  "text_or str_of v d = (if truthy v then py_str str_of v else d)"

definition plan_task_id :: "nat \<Rightarrow> agent_role \<Rightarrow> string" where
  "plan_task_id i r = ''task-'' @ show_nat (i + 1) @ ''-'' @ role_value r"

definition planned_task :: "(pyval \<Rightarrow> string) \<Rightarrow> string \<Rightarrow> nat \<Rightarrow> (string, pyval) dict \<Rightarrow> py_error + agent_task" where
  "planned_task str_of task_text i raw =
    bind_ok (normalize_agent_role (text_or str_of (dict_value raw ''role'') ''executor'')) (\<lambda>role.
    bind_ok (items_or_none (dict_value (governance_of raw) ''allowed_tools'')) (\<lambda>tools.
    bind_ok (items_or_none (dict_value raw ''context_refs'')) (\<lambda>refs.
      Inr \<lparr>at_id = plan_task_id i role,
           at_parent = (if role = ORCHESTRATOR then None else Some ''task-1-orchestrator''), at_role = role,
           at_goal = text_or str_of (dict_value raw ''task_slice'')
             (if task_text \<noteq> [] then task_text else role_value role @ '' delegated task''),
           at_constraints = [''Respect Memory Curator scope.'', ''Respect Tool Router allow/deny plan.''],
           at_allowed = map (py_str str_of) tools,
           at_memory_scope = (if role = MEMORY_CURATOR then ''branch_local'' else ''thread''),
           at_budget = budget_for_role role,
           at_criteria = [text_or str_of (dict_value raw ''rationale'') ''Role output is traceable and reviewable.''],
           at_max_turns = max_turns_for_role role, at_timeout = timeout_for_role role, at_max_depth = 1,
           at_writes = truthy (get_or (governance_of raw) ''allow_workspace_write'' (PBool False)),
           at_network = truthy (get_or (governance_of raw) ''allow_network'' (PBool False)),
           at_refs = dicts_of refs,
           at_isolation = text_or str_of (dict_value raw ''run_isolation_key'') (''role:'' @ role_value role),
           at_workspace = no_workspace\<rparr>)))"

definition planned_run :: "(pyval \<Rightarrow> string) \<Rightarrow> (agent_role \<Rightarrow> string) \<Rightarrow> exec_mode \<Rightarrow> (string, pyval) dict \<Rightarrow> agent_task \<Rightarrow> agent_run" where
  "planned_run str_of model_of mode raw t =
    \<lparr>ar_id = ''run-'' @ at_id t, ar_task = at_id t, ar_role = at_role t, ar_status = PLANNED,
     ar_model = Some (text_or str_of (dict_value raw ''model_id'') (model_of (at_role t))), ar_started = None, ar_finished = None,
     ar_artifacts = [\<lparr>aa_id = ''artifact-'' @ at_id t, aa_kind = ''decision'',
       aa_title = role_value (at_role t) @ '' delegation plan'', aa_summary = text_of str_of (dict_value raw ''rationale''), aa_payload = []\<rparr>],
     ar_error = None, ar_mode = mode\<rparr>"

definition planned_decision :: "(pyval \<Rightarrow> string) \<Rightarrow> (string, pyval) dict \<Rightarrow> agent_task \<Rightarrow> delegate_decision" where
  "planned_decision str_of raw t =
    \<lparr>dd_id = ''decision-'' @ at_id t, dd_role = at_role t, dd_task = at_id t,
     dd_rationale = text_or str_of (dict_value raw ''rationale'') ''Delegated from role route plan.'',
     dd_payload = [(''run_isolation_key'', PStr (at_isolation t)), (''depends_on'', py_or (dict_value raw ''depends_on'') (PList []))]\<rparr>"

definition planned_tasks :: "(pyval \<Rightarrow> string) \<Rightarrow> string \<Rightarrow> (string, pyval) dict list \<Rightarrow> py_error + agent_task list" where
  "planned_tasks str_of task_text raws = map_ok (\<lambda>(i, raw). planned_task str_of task_text i raw) (enumerate 0 raws)"

definition parallel_of :: "role_settings \<Rightarrow> (string, pyval) dict \<Rightarrow> py_error + int" where
  "parallel_of st plan = bind_ok (int_value (py_or (dict_value plan ''max_parallel_runs'') (PInt (rs_max_parallel st))))
     (\<lambda>n. Inr (max 1 n))"

definition build_delegation_plan :: "(pyval \<Rightarrow> string) \<Rightarrow> (string option \<Rightarrow> string) \<Rightarrow> delegation_settings \<Rightarrow> string \<Rightarrow>
    (string, pyval) dict option \<Rightarrow> string list \<Rightarrow> string \<Rightarrow> py_error + delegation_plan" where
  "build_delegation_plan str_of canonical st task_text route available tool_policy =
    (if \<not> dl_enabled st
     then Inr \<lparr>dp_enabled = False, dp_enforce = False, dp_mode = OBSERVE, dp_source = ''disabled'',
       dp_reason = ''AGENT_DELEGATION_ENABLED is off.'', dp_max_parallel = max 1 (rs_max_parallel (dl_roles st)),
       dp_tasks = [], dp_runs = [], dp_decisions = [], dp_legacy = True, dp_skipped = []\<rparr>
     else (let plan = (case route of Some p \<Rightarrow> if p \<noteq> [] then p
               else route_plan_dump (build_role_route_plan canonical (dl_roles st) task_text available tool_policy)
             | None \<Rightarrow> route_plan_dump (build_role_route_plan canonical (dl_roles st) task_text available tool_policy));
             mode = normalize_execution_mode (dl_mode st)
       in bind_ok (route_decisions str_of plan) (\<lambda>raws.
          if raws = [] then bind_ok (parallel_of (dl_roles st) plan) (\<lambda>par.
            Inr \<lparr>dp_enabled = True, dp_enforce = dl_enforce st, dp_mode = mode, dp_source = ''delegation_runtime'',
              dp_reason = text_or str_of (dict_value plan ''route_reason'') ''No valid delegation route decisions.'',
              dp_max_parallel = par, dp_tasks = [], dp_runs = [], dp_decisions = [], dp_legacy = (mode = OBSERVE),
              dp_skipped = ''no_valid_route_decisions''\<rparr>)
          else bind_ok (planned_tasks str_of task_text raws) (\<lambda>ts.
            bind_ok (parallel_of (dl_roles st) plan) (\<lambda>par.
            Inr \<lparr>dp_enabled = True, dp_enforce = dl_enforce st, dp_mode = mode, dp_source = ''delegation_runtime'',
              dp_reason = text_or str_of (dict_value plan ''route_reason'') ''Delegation runtime built role tasks.'',
              dp_max_parallel = par, dp_tasks = ts,
              dp_runs = map (\<lambda>(raw, t). planned_run str_of (\<lambda>r. resolve_model canonical (dl_roles st) r None) mode raw t) (zip raws ts),
              dp_decisions = map (\<lambda>(raw, t). planned_decision str_of raw t) (zip raws ts),
              dp_legacy = (mode = OBSERVE), dp_skipped = []\<rparr>)))))"

section \<open>The configuration of a run\<close>

record subagent_config =
  sc_role :: agent_role
  sc_model :: string
  sc_allowed :: "string list"
  sc_max_turns :: int
  sc_timeout :: int
  sc_max_depth :: int
  sc_writes :: bool
  sc_network :: bool
  sc_refs :: "(string, pyval) dict list"
  sc_isolation :: string
  sc_workspace :: workspace

type_synonym registry = "(agent_role, subagent_config) dict"

definition default_config :: "agent_role \<Rightarrow> subagent_config" where
  "default_config r = \<lparr>sc_role = r, sc_model = [], sc_allowed = [], sc_max_turns = 1, sc_timeout = 30, sc_max_depth = 1,
     sc_writes = False, sc_network = False, sc_refs = [], sc_isolation = ''role:'' @ role_value r, sc_workspace = no_workspace\<rparr>"

definition registry_from_settings :: "(string option \<Rightarrow> string) \<Rightarrow> delegation_settings \<Rightarrow> (string, pyval) dict list \<Rightarrow> registry" where
  "registry_from_settings canonical st refs = map (\<lambda>r. (r, (default_config r)\<lparr>
     sc_model := resolve_model canonical (dl_roles st) r None, sc_max_turns := positive_int (dl_max_turns st) 1,
     sc_timeout := positive_int (dl_timeout st) 30, sc_max_depth := non_negative_int (dl_max_depth st) 1, sc_refs := refs\<rparr>)) all_roles"

definition config_for :: "registry \<Rightarrow> agent_task \<Rightarrow> subagent_config" where
  "config_for reg t = (let base = get_or reg (at_role t) (default_config (at_role t))
     in base\<lparr>sc_allowed := at_allowed t, sc_max_turns := at_max_turns t, sc_timeout := at_timeout t, sc_max_depth := at_max_depth t,
          sc_writes := at_writes t, sc_network := at_network t, sc_refs := at_refs t,
          sc_isolation := (if at_isolation t \<noteq> [] then at_isolation t else sc_isolation base), sc_workspace := at_workspace t\<rparr>)"

section \<open>Results\<close>

record subagent_result =
  sr_run :: string
  sr_task :: string
  sr_role :: agent_role
  sr_status :: run_status
  sr_summary :: string
  sr_artifacts :: "agent_artifact list"
  sr_error :: "string option"
  sr_model :: "string option"
  sr_started :: string
  sr_finished :: string
  sr_mode :: exec_mode
  sr_workspace :: workspace

definition ended_result :: "agent_task \<Rightarrow> subagent_config \<Rightarrow> exec_mode \<Rightarrow> run_status \<Rightarrow> string \<Rightarrow> string \<Rightarrow> string \<Rightarrow> subagent_result" where
  "ended_result t c mode status reason started now =
    \<lparr>sr_run = ''run-'' @ at_id t, sr_task = at_id t, sr_role = at_role t, sr_status = status, sr_summary = reason,
     sr_artifacts = [], sr_error = Some reason, sr_model = Some (sc_model c), sr_started = started, sr_finished = now,
     sr_mode = mode, sr_workspace = sc_workspace c\<rparr>"

definition failed_result :: "agent_task \<Rightarrow> subagent_config \<Rightarrow> exec_mode \<Rightarrow> string \<Rightarrow> string \<Rightarrow> string \<Rightarrow> subagent_result" where
  "failed_result t c mode err started now = ended_result t c mode FAILED err started now"

definition blocked_result_with_reason :: "agent_task \<Rightarrow> subagent_config \<Rightarrow> exec_mode \<Rightarrow> string \<Rightarrow> string \<Rightarrow> subagent_result" where
  "blocked_result_with_reason t c mode reason now = ended_result t c mode NEEDS_REVIEW reason now now"

definition to_agent_run :: "subagent_result \<Rightarrow> agent_run" where
  "to_agent_run r = \<lparr>ar_id = sr_run r, ar_task = sr_task r, ar_role = sr_role r, ar_status = sr_status r, ar_model = sr_model r,
     ar_started = Some (sr_started r), ar_finished = Some (sr_finished r), ar_artifacts = sr_artifacts r, ar_error = sr_error r,
     ar_mode = sr_mode r\<rparr>"

section \<open>Checks before a run\<close>

definition shares :: "string list \<Rightarrow> string list \<Rightarrow> bool" where
  "shares xs ys \<longleftrightarrow> list_ex (\<lambda>x. x \<in> set ys) xs"

definition has_network_tool :: "string list \<Rightarrow> bool" where
  "has_network_tool allowed \<longleftrightarrow> shares allowed [''web_search'', ''web_fetch'', ''current_utc_time'']"

definition has_workspace_write_tool :: "string list \<Rightarrow> bool" where
  "has_workspace_write_tool allowed \<longleftrightarrow> shares allowed [''apply_patch'', ''artifact_update'', ''run_workspace_command'', ''write_text_artifact'']"

definition blocked_reason :: "agent_task \<Rightarrow> subagent_config \<Rightarrow> string" where
  "blocked_reason t c =
    (if at_max_depth t < 0 \<or> sc_max_depth c < 0 then ''Delegated run blocked because max_depth budget is exhausted.''
     else if at_max_turns t \<le> 0 \<or> sc_max_turns c \<le> 0 then ''Delegated run blocked because max_turns budget is exhausted.''
     else if at_timeout t \<le> 0 \<or> sc_timeout c \<le> 0 then ''Delegated run blocked because timeout_seconds budget is exhausted.''
     else if bg_llm (at_budget t) \<le> 0 then ''Delegated run blocked because LLM call budget is exhausted.''
     else [])"

definition blocked_result :: "agent_task \<Rightarrow> subagent_config \<Rightarrow> exec_mode \<Rightarrow> string \<Rightarrow> subagent_result option" where
  "blocked_result t c mode now = (let reason = blocked_reason t c
     in if reason = [] then None else Some (blocked_result_with_reason t c mode reason now))"

definition preflight_result :: "agent_task \<Rightarrow> subagent_config \<Rightarrow> exec_mode \<Rightarrow> string \<Rightarrow> subagent_result option" where
  "preflight_result t c mode now =
    (if at_network t \<and> \<not> has_network_tool (sc_allowed c)
     then Some (blocked_result_with_reason t c mode ''Delegated run requires network access but no network tool is allowed.'' now)
     else if at_writes t \<and> \<not> has_workspace_write_tool (sc_allowed c)
     then Some (blocked_result_with_reason t c mode ''Delegated run requires workspace write access but no write tool is allowed.'' now)
     else blocked_result t c mode now)"

section \<open>Executors\<close>

definition texts :: "string list \<Rightarrow> pyval" where
  "texts xs = PList (map PStr xs)"

definition fake_summary :: "agent_task \<Rightarrow> string" where
  "fake_summary t = (let joined = join_with ''; '' (take 2 (at_criteria t));
      criteria = (if joined = [] then ''traceable fake execution'' else joined)
    in ''Fake delegated '' @ role_value (at_role t) @ '' run completed for '' @ at_goal t @ ''. Acceptance: '' @ criteria @ ''.'')"

definition fake_execute :: "string \<Rightarrow> agent_task \<Rightarrow> subagent_config \<Rightarrow> subagent_result" where
  "fake_execute now t c = (let a = \<lparr>aa_id = ''artifact-'' @ at_id t @ ''-fake-result'', aa_kind = artifact_kind_for_role (at_role t),
       aa_title = role_value (at_role t) @ '' fake delegated result'', aa_summary = fake_summary t,
       aa_payload = [(''goal'', PStr (at_goal t)), (''acceptance_criteria'', texts (at_criteria t)),
         (''constraints'', texts (at_constraints t)), (''allowed_tools'', texts (sc_allowed c)),
         (''run_isolation_key'', PStr (sc_isolation c)), (''context_refs'', PList (map PDict (sc_refs c))), (''deterministic'', PBool True)]\<rparr>
     in \<lparr>sr_run = ''run-'' @ at_id t, sr_task = at_id t, sr_role = at_role t, sr_status = COMPLETED, sr_summary = aa_summary a,
         sr_artifacts = [a], sr_error = None, sr_model = Some (sc_model c), sr_started = now, sr_finished = now, sr_mode = FAKE,
         sr_workspace = no_workspace\<rparr>)"

text \<open>
  \<open>me_invoke model directory role prompt\<close> is the content of the answer, or the text of the exception: the factory,
  the change to the working directory and the call of the model. \<open>me_loads\<close> is \<open>None\<close> for text that is not JSON.
\<close>

record model_env =
  me_invoke :: "string \<Rightarrow> string option \<Rightarrow> agent_role \<Rightarrow> string \<Rightarrow> string + pyval"
  me_default_model :: string
  me_dumps :: "pyval \<Rightarrow> string"
  me_loads :: "string \<Rightarrow> pyval option"
  me_str :: "pyval \<Rightarrow> string"

definition workspace_fields :: "workspace \<Rightarrow> (string, pyval) dict" where
  "workspace_fields w = [(''workspace_id'', opt_value (ws_id w)), (''workspace_path'', opt_value (ws_path w)),
     (''workspace_branch'', opt_value (ws_branch w)), (''base_commit'', opt_value (ws_commit w))]"

definition prompt_payload :: "model_env \<Rightarrow> agent_task \<Rightarrow> subagent_config \<Rightarrow> string" where
  "prompt_payload M t c = me_dumps M (PDict ([(''task_id'', PStr (at_id t)), (''role'', PStr (role_value (at_role t))),
     (''goal'', PStr (at_goal t)), (''constraints'', texts (at_constraints t)), (''acceptance_criteria'', texts (at_criteria t)),
     (''allowed_tools'', texts (sc_allowed c)), (''run_isolation_key'', PStr (sc_isolation c))] @ workspace_fields (sc_workspace c) @
     [(''context_refs'', PStr (take 4000 (me_dumps M (PList (map PDict (take 8 (sc_refs c)))))))]))"

definition content_part :: "(pyval \<Rightarrow> string) \<Rightarrow> pyval \<Rightarrow> string" where
  "content_part str_of v = (case v of PDict d \<Rightarrow> text_of str_of (py_or (dict_value d ''text'') (dict_value d ''content''))
     | _ \<Rightarrow> py_str str_of v)"

definition message_text :: "(pyval \<Rightarrow> string) \<Rightarrow> pyval \<Rightarrow> string" where
  "message_text str_of content = (case content of PStr s \<Rightarrow> s
     | PList vs \<Rightarrow> join_with [char_of (10::nat)] (filter (\<lambda>p. p \<noteq> []) (map (content_part str_of) vs))
     | _ \<Rightarrow> str_of content)"

definition parse_json_object :: "model_env \<Rightarrow> string \<Rightarrow> (string, pyval) dict" where
  "parse_json_object M t = (case me_loads M t of Some (PDict d) \<Rightarrow> d | _ \<Rightarrow> [])"

definition status_from_output :: "(pyval \<Rightarrow> string) \<Rightarrow> agent_task \<Rightarrow> (string, pyval) dict \<Rightarrow> run_status \<times> string option" where
  "status_from_output str_of t parsed = (let verdict = py_lower (py_strip (text_of str_of (dict_value parsed ''verdict'')))
     in if verdict = ''needs_review'' \<or> verdict = ''needs-review'' then (NEEDS_REVIEW, Some ''Delegated run requested review.'')
        else if at_role t = CRITIC \<and> verdict \<in> set [''reject'', ''rejected'', ''retry'', ''fail'', ''failed'']
        then (FAILED, Some (''Critic delegated run returned verdict='' @ verdict @ ''.''))
        else (COMPLETED, None))"

definition execute_model_task :: "model_env \<Rightarrow> string \<Rightarrow> exec_mode \<Rightarrow> nat \<Rightarrow> agent_task \<Rightarrow> subagent_config \<Rightarrow> subagent_result" where
  "execute_model_task M now mode max_chars t c =
    (case me_invoke M (if sc_model c \<noteq> [] then sc_model c else me_default_model M) (ws_path (sc_workspace c)) (at_role t) (prompt_payload M t c) of
       Inl err \<Rightarrow> failed_result t c mode err now now
     | Inr content \<Rightarrow> (let raw = take max_chars (message_text (me_str M) content)
         in if py_strip raw = [] then failed_result t c mode ''Delegated run produced an empty response.'' now now
            else (let parsed = parse_json_object M raw;
                      summary = take max_chars (py_strip (text_or (me_str M) (dict_value parsed ''summary'') raw));
                      (status, err) = status_from_output (me_str M) t parsed;
                      a = \<lparr>aa_id = ''artifact-'' @ at_id t @ ''-'' @ mode_value mode @ ''-result'', aa_kind = artifact_kind_for_role (at_role t),
                           aa_title = role_value (at_role t) @ '' '' @ mode_value mode @ '' delegated result'', aa_summary = summary,
                           aa_payload = [(''goal'', PStr (at_goal t)), (''acceptance_criteria'', texts (at_criteria t)),
                             (''constraints'', texts (at_constraints t)), (''allowed_tools'', texts (sc_allowed c)),
                             (''run_isolation_key'', PStr (sc_isolation c))] @ workspace_fields (sc_workspace c) @
                             [(''context_refs'', PList (map PDict (sc_refs c))), (''raw_text'', PStr raw)] @
                             (if parsed \<noteq> [] then [(''parsed'', PDict parsed)] else [])\<rparr>
              in \<lparr>sr_run = ''run-'' @ at_id t, sr_task = at_id t, sr_role = at_role t, sr_status = status, sr_summary = summary,
                  sr_artifacts = (if status \<noteq> FAILED then [a] else []), sr_error = err, sr_model = Some (sc_model c), sr_started = now,
                  sr_finished = now, sr_mode = mode, sr_workspace = sc_workspace c\<rparr>)))"

text \<open>\<open>max(256, int(max_result_chars or 4000))\<close> and \<open>max(1, min(8, int(max_workers or 4)))\<close>\<close>

definition result_chars :: "int \<Rightarrow> nat" where
  "result_chars n = nat (max 256 (if n = 0 then 4000 else n))"

datatype executor = Fake | Inline | Background

definition executor_for_mode :: "exec_mode \<Rightarrow> executor option" where
  "executor_for_mode m = (case m of OBSERVE \<Rightarrow> None | FAKE \<Rightarrow> Some Fake | INLINE \<Rightarrow> Some Inline | BACKGROUND \<Rightarrow> Some Background)"

definition executor_mode :: "executor \<Rightarrow> exec_mode" where
  "executor_mode x = (case x of Fake \<Rightarrow> FAKE | Inline \<Rightarrow> INLINE | Background \<Rightarrow> BACKGROUND)"

definition execute :: "model_env \<Rightarrow> string \<Rightarrow> executor \<Rightarrow> agent_task \<Rightarrow> subagent_config \<Rightarrow> subagent_result" where
  "execute M now x t c = (case x of Fake \<Rightarrow> fake_execute now t c
     | _ \<Rightarrow> execute_model_task M now (executor_mode x) (result_chars 4000) t c)"

end
