(* ===== verification/DelegationRun.thy ===== *)
theory DelegationRun
  imports Delegation
begin

text \<open>
  Running delegated tasks (\<open>delegation/execution_executors.py\<close>): the loop of the inline executors, the
  pool of the background executor as a step relation over the runs in flight, and the working directory
  that the model calls of a process share (\<open>_working_directory\<close> of \<open>execution_model_task.py\<close>).
  An executor is a function that returns a result or the text of an exception. It is given the task and its
  configuration only: what a run finds in the directory of the process, which the runs of the pool share, is not part of
  it, and the clock stands still. The directory is modelled on its own, below, with the runs that read and change it.
\<close>

type_synonym exec_fun = "agent_task \<Rightarrow> subagent_config \<Rightarrow> string + subagent_result"

definition result_or_failed :: "exec_fun \<Rightarrow> exec_mode \<Rightarrow> string \<Rightarrow> agent_task \<Rightarrow> subagent_config \<Rightarrow> subagent_result" where
  "result_or_failed exec mode now t c = (case exec t c of Inl err \<Rightarrow> failed_result t c mode err now now | Inr r \<Rightarrow> r)"

text \<open>\<open>[indexed_results[index] for index in sorted(indexed_results)]\<close>\<close>

definition in_index_order :: "(nat, 'r) dict \<Rightarrow> 'r list" where
  "in_index_order d = map snd (sort_key fst d)"

section \<open>One task after the other\<close>

definition run_task :: "exec_fun \<Rightarrow> exec_mode \<Rightarrow> string \<Rightarrow> registry \<Rightarrow> (nat, subagent_result) dict \<Rightarrow> nat \<times> agent_task \<Rightarrow>
    (nat, subagent_result) dict" where
  "run_task exec mode now reg results p = (case p of (i, t) \<Rightarrow> let c = config_for reg t in
     case preflight_result t c mode now of
       Some b \<Rightarrow> AList.update i b results
     | None \<Rightarrow> AList.update i (result_or_failed exec mode now t c) results)"

definition run_tasks_in_turn :: "exec_fun \<Rightarrow> exec_mode \<Rightarrow> string \<Rightarrow> registry \<Rightarrow> agent_task list \<Rightarrow> subagent_result list" where
  "run_tasks_in_turn exec mode now reg ts = in_index_order (foldl (run_task exec mode now reg) [] (enumerate 0 ts))"

section \<open>The pool\<close>

text \<open>
  The items are the numbers below \<open>n\<close>; \<open>pl_next\<close> is the iterator over them, \<open>pl_futures\<close> the runs in flight.
  \<open>pool_complete\<close> is the body of the loop for a run that has ended.
\<close>

record 'r pool =
  pl_next :: nat
  pl_futures :: "nat list"
  pl_ordered :: "'r option list"

definition submit_next :: "nat \<Rightarrow> 'r pool \<Rightarrow> 'r pool" where
  "submit_next n p = (if pl_next p < n then p\<lparr>pl_next := pl_next p + 1, pl_futures := pl_futures p @ [pl_next p]\<rparr> else p)"

definition pool_complete :: "(nat \<Rightarrow> 'r) \<Rightarrow> nat \<Rightarrow> nat \<Rightarrow> 'r pool \<Rightarrow> 'r pool" where
  "pool_complete res n i p =
    submit_next n (p\<lparr>pl_futures := remove1 i (pl_futures p), pl_ordered := (pl_ordered p)[i := Some (res i)]\<rparr>)"

definition pool_start :: "nat \<Rightarrow> nat \<Rightarrow> 'r pool" where
  "pool_start n workers = (submit_next n ^^ workers) \<lparr>pl_next = 0, pl_futures = [], pl_ordered = replicate n None\<rparr>"

definition pool_workers :: "int \<Rightarrow> nat \<Rightarrow> nat" where
  "pool_workers max_parallel n = nat (max 1 (min (max 1 max_parallel) (int n)))"

inductive pool_step :: "(nat \<Rightarrow> 'r) \<Rightarrow> nat \<Rightarrow> 'r pool \<Rightarrow> nat \<Rightarrow> 'r pool \<Rightarrow> bool" for res n where
  complete: "i \<in> set (pl_futures p) \<Longrightarrow> pool_step res n p i (pool_complete res n i p)"

text \<open>A run of the pool, with the items in the order in which they ended.\<close>

inductive pool_run :: "(nat \<Rightarrow> 'r) \<Rightarrow> nat \<Rightarrow> nat \<Rightarrow> nat list \<Rightarrow> 'r pool \<Rightarrow> bool" for res n workers where
  start: "pool_run res n workers [] (pool_start n workers)"
| step: "pool_run res n workers ended p \<Longrightarrow> pool_step res n p i q \<Longrightarrow> pool_run res n workers (ended @ [i]) q"

text \<open>\<open>pick\<close> says which of the runs in flight ends first.\<close>

lemma submit_next_measure:
  "(n - pl_next (submit_next n p)) + length (pl_futures (submit_next n p)) = (n - pl_next p) + length (pl_futures p)"
  by (auto simp: submit_next_def)

function pool_loop :: "(nat list \<Rightarrow> nat) \<Rightarrow> (nat \<Rightarrow> 'r) \<Rightarrow> nat \<Rightarrow> 'r pool \<Rightarrow> 'r pool" where
  "pool_loop pick res n p = (if pl_futures p = [] then p
     else pool_loop pick res n (pool_complete res n (pl_futures p ! (pick (pl_futures p) mod length (pl_futures p))) p))"
  by pat_completeness auto

termination
  by (relation "measure (\<lambda>(pick, res, n, p). (n - pl_next p) + length (pl_futures p))")
    (auto simp: pool_complete_def submit_next_measure length_remove1)

declare pool_loop.simps [simp del]

definition execute_many :: "(nat list \<Rightarrow> nat) \<Rightarrow> (nat \<Rightarrow> 'r) \<Rightarrow> nat \<Rightarrow> int \<Rightarrow> 'r list" where
  "execute_many pick res n max_parallel = (if n = 0 then []
     else concat (map (\<lambda>r. case r of None \<Rightarrow> [] | Some x \<Rightarrow> [x])
       (pl_ordered (pool_loop pick res n (pool_start n (pool_workers max_parallel n))))))"

definition split_runnable :: "exec_mode \<Rightarrow> string \<Rightarrow> registry \<Rightarrow> (nat, subagent_result) dict \<times> (nat \<times> agent_task \<times> subagent_config) list \<Rightarrow>
    nat \<times> agent_task \<Rightarrow> (nat, subagent_result) dict \<times> (nat \<times> agent_task \<times> subagent_config) list" where
  "split_runnable mode now reg acc p = (case acc of (results, runnable) \<Rightarrow> case p of (i, t) \<Rightarrow>
     let c = config_for reg t in
     case preflight_result t c mode now of None \<Rightarrow> (results, runnable @ [(i, t, c)]) | Some b \<Rightarrow> (AList.update i b results, runnable))"

definition run_background_tasks :: "(nat list \<Rightarrow> nat) \<Rightarrow> exec_fun \<Rightarrow> string \<Rightarrow> registry \<Rightarrow> agent_task list \<Rightarrow> int \<Rightarrow> subagent_result list" where
  "run_background_tasks pick exec now reg ts max_parallel =
    (let (blocked, runnable) = foldl (split_runnable BACKGROUND now reg) ([], []) (enumerate 0 ts);
         results = execute_many pick (\<lambda>k. case runnable ! k of (i, t, c) \<Rightarrow> result_or_failed exec BACKGROUND now t c)
           (length runnable) max_parallel
     in in_index_order (foldl (\<lambda>d ((i, t, c), r). AList.update i r d) blocked (zip runnable results)))"

definition run_delegated_tasks :: "(nat list \<Rightarrow> nat) \<Rightarrow> model_env \<Rightarrow> string \<Rightarrow> registry \<Rightarrow> executor option \<Rightarrow> agent_task list \<Rightarrow> int \<Rightarrow>
    subagent_result list" where
  "run_delegated_tasks pick M now reg x ts max_parallel = (case x of
     None \<Rightarrow> []
   | Some Background \<Rightarrow> run_background_tasks pick (\<lambda>t c. Inr (execute M now Background t c)) now reg ts max_parallel
   | Some y \<Rightarrow> run_tasks_in_turn (\<lambda>t c. Inr (execute M now y t c)) (executor_mode y) now reg ts)"

section \<open>The working directory\<close>

text \<open>
  The threads of the pool share the directory of the process. A run with a path reads the directory, takes the lock,
  changes to its path, and goes back to what it read when it leaves; a run without a path takes no lock.
\<close>

datatype wd_phase = WdBefore | WdRead string | WdInside string | WdPlain | WdAfter

record wd_state =
  wd_cwd :: string
  wd_phases :: "wd_phase list"

definition set_phase :: "nat \<Rightarrow> wd_phase \<Rightarrow> wd_state \<Rightarrow> wd_state" where
  "set_phase k ph s = s\<lparr>wd_phases := (wd_phases s)[k := ph]\<rparr>"

definition lock_free :: "wd_state \<Rightarrow> bool" where
  "lock_free s \<longleftrightarrow> list_all (\<lambda>ph. case ph of WdInside d \<Rightarrow> False | _ \<Rightarrow> True) (wd_phases s)"

text \<open>\<open>paths ! k\<close> is the path of run \<open>k\<close>; \<open>chdir\<close> may fail, which leaves the directory.\<close>

inductive wd_step :: "string option list \<Rightarrow> wd_state \<Rightarrow> wd_state \<Rightarrow> bool" for paths where
  plain_enter: "k < length (wd_phases s) \<Longrightarrow> wd_phases s ! k = WdBefore \<Longrightarrow> \<not> given (paths ! k) \<Longrightarrow> wd_step paths s (set_phase k WdPlain s)"
| plain_leave: "k < length (wd_phases s) \<Longrightarrow> wd_phases s ! k = WdPlain \<Longrightarrow> wd_step paths s (set_phase k WdAfter s)"
| getcwd: "k < length (wd_phases s) \<Longrightarrow> wd_phases s ! k = WdBefore \<Longrightarrow> given (paths ! k) \<Longrightarrow>
    wd_step paths s (set_phase k (WdRead (wd_cwd s)) s)"
| enter: "k < length (wd_phases s) \<Longrightarrow> wd_phases s ! k = WdRead d \<Longrightarrow> lock_free s \<Longrightarrow>
    wd_step paths s ((set_phase k (WdInside d) s)\<lparr>wd_cwd := or_empty (paths ! k)\<rparr>)"
| chdir_fails: "k < length (wd_phases s) \<Longrightarrow> wd_phases s ! k = WdRead d \<Longrightarrow> lock_free s \<Longrightarrow> wd_step paths s (set_phase k WdAfter s)"
| leave: "k < length (wd_phases s) \<Longrightarrow> wd_phases s ! k = WdInside d \<Longrightarrow> wd_step paths s ((set_phase k WdAfter s)\<lparr>wd_cwd := d\<rparr>)"

definition wd_start :: "string option list \<Rightarrow> string \<Rightarrow> wd_state" where
  "wd_start paths d = \<lparr>wd_cwd = d, wd_phases = replicate (length paths) WdBefore\<rparr>"

inductive wd_reachable :: "string option list \<Rightarrow> string \<Rightarrow> wd_state \<Rightarrow> bool" for paths d where
  start: "wd_reachable paths d (wd_start paths d)"
| step: "wd_reachable paths d s \<Longrightarrow> wd_step paths s s' \<Longrightarrow> wd_reachable paths d s'"

section \<open>Lemmas on the plan\<close>

lemma dash_free_digits: "CHR ''-'' \<notin> set (show_nat n)"
proof
  assume "CHR ''-'' \<in> set (show_nat n)"
  then have "48 \<le> (of_char CHR ''-'' :: nat)" by (rule show_nat_digits [THEN conjunct1])
  then show False by simp
qed

lemma plan_task_id_inject: "plan_task_id i r = plan_task_id j q \<Longrightarrow> i = j \<and> r = q"
proof -
  assume a: "plan_task_id i r = plan_task_id j q"
  have "takeWhile (\<lambda>c. c \<noteq> CHR ''-'') (drop 5 (plan_task_id m s)) = show_nat (m + 1)" for m s
    using dash_free_digits [of "m + 1"] by (simp add: plan_task_id_def takeWhile_append1 takeWhile_append2)
      (subst takeWhile_append2; force)
  then have "show_nat (i + 1) = show_nat (j + 1)" using a by metis
  then have "i = j" by simp
  with a show ?thesis by (simp add: plan_task_id_def)
qed

lemma planned_task_fields:
  assumes "planned_task str_of task_text i raw = Inr t"
  shows "at_id t = plan_task_id i (at_role t)" "at_parent t = (if at_role t = ORCHESTRATOR then None else Some ''task-1-orchestrator'')"
    "at_budget t = budget_for_role (at_role t)" "at_max_turns t = max_turns_for_role (at_role t)"
    "at_timeout t = timeout_for_role (at_role t)" "at_max_depth t = 1" "at_workspace t = no_workspace"
  using assms by (auto simp: planned_task_def bind_ok_Inr_iff)

lemma planned_tasks_nth:
  assumes "planned_tasks str_of task_text raws = Inr ts"
  shows "length ts = length raws" "i < length raws \<Longrightarrow> planned_task str_of task_text i (raws ! i) = Inr (ts ! i)"
proof -
  have a: "list_all2 (\<lambda>x t. (case x of (i, raw) \<Rightarrow> planned_task str_of task_text i raw) = Inr t) (enumerate 0 raws) ts"
    using assms unfolding planned_tasks_def map_ok_Inr_iff .
  then show "length ts = length raws" by (auto dest: list_all2_lengthD)
  show "planned_task str_of task_text i (raws ! i) = Inr (ts ! i)" if "i < length raws"
    using list_all2_nthD [OF a, of i] that by (simp add: nth_enumerate_eq)
qed

lemma delegation_plan_ok:
  assumes "build_delegation_plan str_of canonical st task_text route available tool_policy = Inr p"
  shows "distinct (map at_id (dp_tasks p)) \<and> map ar_task (dp_runs p) = map at_id (dp_tasks p) \<and>
    map dd_task (dp_decisions p) = map at_id (dp_tasks p) \<and> map ar_role (dp_runs p) = map at_role (dp_tasks p) \<and>
    (\<forall>r \<in> set (dp_runs p). ar_status r = PLANNED \<and> ar_mode r = dp_mode p) \<and> 1 \<le> dp_max_parallel p \<and>
    (\<forall>t \<in> set (dp_tasks p). (at_parent t = None \<longleftrightarrow> at_role t = ORCHESTRATOR) \<and>
       0 < at_max_turns t \<and> 0 < at_timeout t \<and> 0 < bg_llm (at_budget t))"
proof (cases "dp_tasks p = []")
  case True
  then show ?thesis using assms
    by (auto simp: build_delegation_plan_def parallel_of_def planned_tasks_def bind_ok_Inr_iff Let_def map_ok_Inr_iff
        split: if_splits dest: list_all2_lengthD)
next
  case False
  then obtain raws where r: "planned_tasks str_of task_text raws = Inr (dp_tasks p)" "1 \<le> dp_max_parallel p"
    "dp_runs p = map (\<lambda>(raw, t). planned_run str_of (\<lambda>r. resolve_model canonical (dl_roles st) r None) (dp_mode p) raw t)
       (zip raws (dp_tasks p))"
    "dp_decisions p = map (\<lambda>(raw, t). planned_decision str_of raw t) (zip raws (dp_tasks p))"
    using assms by (auto simp: build_delegation_plan_def parallel_of_def bind_ok_Inr_iff Let_def split: if_splits)
  note n = planned_tasks_nth [OF r(1)]
  have f: "planned_task str_of task_text i (raws ! i) = Inr (dp_tasks p ! i)" if "i < length (dp_tasks p)" for i
    using n that by simp
  have ids: "distinct (map at_id (dp_tasks p))"
    unfolding distinct_conv_nth by (auto dest!: plan_task_id_inject simp: planned_task_fields(1) [OF f])
  have runs: "map ar_task (dp_runs p) = map at_id (dp_tasks p)" "map ar_role (dp_runs p) = map at_role (dp_tasks p)"
    "map dd_task (dp_decisions p) = map at_id (dp_tasks p)"
    using n(1) by (auto simp: r(3,4) planned_run_def planned_decision_def intro!: nth_equalityI)
  have "\<forall>t \<in> set (dp_tasks p). (at_parent t = None \<longleftrightarrow> at_role t = ORCHESTRATOR) \<and>
       0 < at_max_turns t \<and> 0 < at_timeout t \<and> 0 < bg_llm (at_budget t)"
  proof
    fix t assume "t \<in> set (dp_tasks p)"
    then obtain i where "i < length (dp_tasks p)" "t = dp_tasks p ! i" by (auto simp: in_set_conv_nth)
    with planned_task_fields [OF f [of i]]
    show "(at_parent t = None \<longleftrightarrow> at_role t = ORCHESTRATOR) \<and> 0 < at_max_turns t \<and> 0 < at_timeout t \<and> 0 < bg_llm (at_budget t)"
      by (simp add: budget_for_role_def max_turns_for_role_def timeout_for_role_def split: agent_role.splits)
  qed
  moreover have "\<forall>r \<in> set (dp_runs p). ar_status r = PLANNED \<and> ar_mode r = dp_mode p"
    by (auto simp: r(3) planned_run_def)
  ultimately show ?thesis using ids runs r(2) by blast
qed

lemma delegation_plan_facts:
  assumes "build_delegation_plan str_of canonical st task_text route available tool_policy = Inr p"
  shows "distinct (map at_id (dp_tasks p))" "map ar_task (dp_runs p) = map at_id (dp_tasks p)"
  using delegation_plan_ok [OF assms] by blast+

text \<open>A delegation plan gives every task an id of its own; its runs are planned ones for the tasks in order, and its
  decisions say the same; only orchestrators have no parent, and no task starts without a budget.\<close>

lemma delegation_plan_wf:
  assumes "build_delegation_plan str_of canonical st task_text route available tool_policy = Inr p"
  shows "distinct (map at_id (dp_tasks p)) \<and> map ar_task (dp_runs p) = map at_id (dp_tasks p) \<and>
    map dd_task (dp_decisions p) = map at_id (dp_tasks p) \<and> map ar_role (dp_runs p) = map at_role (dp_tasks p) \<and>
    (\<forall>r \<in> set (dp_runs p). ar_status r = PLANNED \<and> ar_mode r = dp_mode p) \<and> 1 \<le> dp_max_parallel p \<and>
    (\<forall>t \<in> set (dp_tasks p). (at_parent t = None \<longleftrightarrow> at_role t = ORCHESTRATOR) \<and>
       0 < at_max_turns t \<and> 0 < at_timeout t \<and> 0 < bg_llm (at_budget t))"
  by (rule delegation_plan_ok [OF assms])

section \<open>Checks before a run\<close>

text \<open>A run starts exactly when its budgets are not exhausted and the tools it needs are allowed.\<close>

lemma preflight_passes_iff:
  "preflight_result t (config_for reg t) mode now = None \<longleftrightarrow>
    0 \<le> at_max_depth t \<and> 0 < at_max_turns t \<and> 0 < at_timeout t \<and> 0 < bg_llm (at_budget t) \<and>
    \<not> (at_network t \<and> set (at_allowed t) \<inter> {''web_search'', ''web_fetch'', ''current_utc_time''} = {}) \<and>
    \<not> (at_writes t \<and> set (at_allowed t) \<inter> {''apply_patch'', ''artifact_update'', ''run_workspace_command'', ''write_text_artifact''} = {})"
proof -
  have s: "shares xs ys \<longleftrightarrow> set xs \<inter> set ys \<noteq> {}" for xs ys by (auto simp: shares_def list_ex_iff)
  have c: "sc_max_depth (config_for reg t) = at_max_depth t" "sc_max_turns (config_for reg t) = at_max_turns t"
    "sc_timeout (config_for reg t) = at_timeout t" "sc_allowed (config_for reg t) = at_allowed t"
    by (simp_all add: config_for_def Let_def)
  have b: "blocked_result t (config_for reg t) mode now = None \<longleftrightarrow>
      0 \<le> at_max_depth t \<and> 0 < at_max_turns t \<and> 0 < at_timeout t \<and> 0 < bg_llm (at_budget t)"
    by (simp add: blocked_result_def blocked_reason_def Let_def c not_less not_le)
  show ?thesis
    by (simp add: preflight_result_def b c has_network_tool_def has_workspace_write_tool_def s)
qed

lemma preflight_result_task:
  "preflight_result t c mode now = Some r \<Longrightarrow> sr_task r = at_id t \<and> sr_status r = NEEDS_REVIEW \<and> sr_artifacts r = []"
  by (auto simp: preflight_result_def blocked_result_def blocked_result_with_reason_def ended_result_def Let_def split: if_splits)

section \<open>The pool\<close>

text \<open>What holds of every state of the pool.\<close>

definition pool_wf :: "(nat \<Rightarrow> 'r) \<Rightarrow> nat \<Rightarrow> nat \<Rightarrow> 'r pool \<Rightarrow> bool" where
  "pool_wf res n workers p \<longleftrightarrow> distinct (pl_futures p) \<and> set (pl_futures p) \<subseteq> {..<pl_next p} \<and> pl_next p \<le> n \<and>
     length (pl_futures p) \<le> workers \<and> (pl_next p < n \<longrightarrow> length (pl_futures p) = workers) \<and> length (pl_ordered p) = n \<and>
     (\<forall>i < n. pl_ordered p ! i = (if i < pl_next p \<and> i \<notin> set (pl_futures p) then Some (res i) else None))"

lemma pool_start_eq:
  assumes "w \<le> n"
  shows "pool_start n w = \<lparr>pl_next = w, pl_futures = [0..<w], pl_ordered = replicate n (None :: 'r option)\<rparr>"
proof -
  have "k \<le> n \<Longrightarrow> (submit_next n ^^ k) \<lparr>pl_next = 0, pl_futures = [], pl_ordered = replicate n None\<rparr> =
      \<lparr>pl_next = k, pl_futures = [0..<k], pl_ordered = replicate n (None :: 'r option)\<rparr>" for k
    by (induction k) (simp_all add: submit_next_def)
  then show ?thesis using assms by (simp add: pool_start_def)
qed

lemma pool_start_wf: "w \<le> n \<Longrightarrow> pool_wf res n w (pool_start n w)"
  by (auto simp: pool_start_eq pool_wf_def)

lemma pool_complete_wf:
  assumes w: "pool_wf res n w p" and i: "i \<in> set (pl_futures p)"
  shows "pool_wf res n w (pool_complete res n i p)"
proof -
  have d: "distinct (pl_futures p)" "i < pl_next p" "set (pl_futures p) \<subseteq> {..<pl_next p}" and n: "pl_next p \<le> n"
    and l: "length (pl_futures p) \<le> w" "pl_next p < n \<longrightarrow> length (pl_futures p) = w"
    and o: "length (pl_ordered p) = n"
      "\<And>j. j < n \<Longrightarrow> pl_ordered p ! j = (if j < pl_next p \<and> j \<notin> set (pl_futures p) then Some (res j) else None)"
    using w i by (auto simp: pool_wf_def)
  have l1: "length (remove1 i (pl_futures p)) = length (pl_futures p) - 1" "0 < length (pl_futures p)"
    using i by (auto simp: length_remove1 intro: length_pos_if_in_set)
  have s: "set (remove1 i (pl_futures p)) = set (pl_futures p) - {i}" using d(1) by simp
  have next_free: "pl_next p \<notin> set (pl_futures p)" using d(3) by auto
  have e: "(pl_ordered p)[i := Some (res i)] ! j =
      (if j < pl_next p \<and> j \<notin> set (pl_futures p) - {i} then Some (res j) else None)" if "j < n" for j
    using o d(2) that by (cases "j = i") auto
  show ?thesis
  proof (cases "pl_next p < n")
    case True
    then show ?thesis using d n l l1 s o e next_free
      by (auto simp: pool_wf_def pool_complete_def submit_next_def less_Suc_eq)
  next
    case False
    then show ?thesis using d n l l1 s o e
      by (auto simp: pool_wf_def pool_complete_def submit_next_def)
  qed
qed

lemma pool_workers_bounds: "0 < n \<Longrightarrow> 0 < pool_workers k n \<and> pool_workers k n \<le> n \<and> int (pool_workers k n) \<le> max 1 k"
  by (auto simp: pool_workers_def)

text \<open>The items that ended and those in flight are the ones that were submitted, each once.\<close>

definition pool_history :: "nat list \<Rightarrow> 'r pool \<Rightarrow> bool" where
  "pool_history ended p \<longleftrightarrow> distinct (ended @ pl_futures p) \<and> set (ended @ pl_futures p) = {..<pl_next p}"

lemma pool_complete_history:
  assumes "pool_history ended p" "i \<in> set (pl_futures p)"
  shows "pool_history (ended @ [i]) (pool_complete res n i p)"
proof -
  have d: "distinct (pl_futures p)" using assms(1) by (simp add: pool_history_def)
  have "pl_next p \<notin> set ended \<union> set (pl_futures p)" using assms(1) by (auto simp: pool_history_def)
  then show ?thesis using assms d
    by (auto simp: pool_history_def pool_complete_def submit_next_def lessThan_Suc)
qed

lemma pool_start_history: "w \<le> n \<Longrightarrow> pool_history [] (pool_start n w)"
  by (auto simp: pool_start_eq pool_history_def)

lemma pool_run_wf: "pool_run res n w ended p \<Longrightarrow> w \<le> n \<Longrightarrow> pool_wf res n w p \<and> pool_history ended p"
proof (induction rule: pool_run.induct)
  case start
  then show ?case using pool_start_wf pool_start_history by blast
next
  case (step ended p i q)
  then show ?case by (auto elim!: pool_step.cases intro: pool_complete_wf pool_complete_history)
qed

text \<open>C33: However the runs of a pool interleave, never more runs than the limit are in flight; no item is run twice,
  whether its first run is in flight or has ended; every item that has ended, and no other, has its own result in its own
  place; and when no run is in flight any more, each of the items has ended exactly once and all results are in place.\<close>

theorem pool_bounded_and_exact:
  assumes "0 < n" "pool_run res n (pool_workers max_parallel n) ended p"
  shows "int (length (pl_futures p)) \<le> max 1 max_parallel \<and> distinct (ended @ pl_futures p) \<and>
    set (ended @ pl_futures p) \<subseteq> {..<n} \<and>
    pl_ordered p = map (\<lambda>i. if i \<in> set ended then Some (res i) else None) [0..<n] \<and>
    (pl_futures p = [] \<longrightarrow> distinct ended \<and> set ended = {..<n} \<and> pl_ordered p = map (\<lambda>i. Some (res i)) [0..<n])"
proof -
  let ?w = "pool_workers max_parallel n"
  note b = pool_workers_bounds [OF assms(1), of max_parallel]
  have w: "pool_wf res n ?w p" and h: "pool_history ended p" using pool_run_wf [OF assms(2)] b by simp_all
  have "i < pl_next p \<and> i \<notin> set (pl_futures p) \<longleftrightarrow> i \<in> set ended" for i
    using h by (auto simp: pool_history_def set_eq_iff)
  then have o: "pl_ordered p = map (\<lambda>i. if i \<in> set ended then Some (res i) else None) [0..<n]"
    using w by (intro nth_equalityI) (auto simp: pool_wf_def)
  have "set ended = {..<n}" if "pl_futures p = []"
  proof -
    have "pl_next p = n" using that w b by (auto simp: pool_wf_def)
    then show ?thesis using h that by (simp add: pool_history_def)
  qed
  then show ?thesis using w h b o by (auto simp: pool_wf_def pool_history_def)
qed

lemma pool_loop_final:
  assumes "pool_wf res n w p" "0 < w"
  shows "pl_ordered (pool_loop pick res n p) = map (\<lambda>i. Some (res i)) [0..<n]"
  using assms
proof (induction pick res n p rule: pool_loop.induct)
  case (1 pick res n p)
  show ?case
  proof (cases "pl_futures p = []")
    case True
    then have "pl_next p = n" "\<forall>i < n. pl_ordered p ! i = Some (res i)" "length (pl_ordered p) = n"
      using 1(2,3) by (auto simp: pool_wf_def)
    then show ?thesis using True by (subst pool_loop.simps) (auto intro: nth_equalityI)
  next
    case False
    then have "pl_futures p ! (pick (pl_futures p) mod length (pl_futures p)) \<in> set (pl_futures p)" by simp
    then have "pool_wf res n w (pool_complete res n (pl_futures p ! (pick (pl_futures p) mod length (pl_futures p))) p)"
      using 1(2) pool_complete_wf by blast
    then show ?thesis using False 1 by (subst pool_loop.simps) simp
  qed
qed

lemma execute_many_results: "execute_many pick res n max_parallel = map res [0..<n]"
proof (cases "n = 0")
  case False
  note b = pool_workers_bounds [of n max_parallel]
  have "pool_wf res n (pool_workers max_parallel n) (pool_start n (pool_workers max_parallel n))"
    using pool_start_wf b False by blast
  then have "pl_ordered (pool_loop pick res n (pool_start n (pool_workers max_parallel n))) = map (\<lambda>i. Some (res i)) [0..<n]"
    using b False by (intro pool_loop_final) auto
  then show ?thesis using False by (simp add: execute_many_def comp_def concat_map_singleton)
qed (simp add: execute_many_def)

section \<open>Running tasks\<close>

definition task_outcome :: "exec_fun \<Rightarrow> exec_mode \<Rightarrow> string \<Rightarrow> registry \<Rightarrow> agent_task \<Rightarrow> subagent_result" where
  "task_outcome exec mode now reg t = (case preflight_result t (config_for reg t) mode now of
     Some b \<Rightarrow> b | None \<Rightarrow> result_or_failed exec mode now t (config_for reg t))"

lemma in_index_order_unique:
  assumes "distinct (keys d)" "set d = set (enumerate 0 rs)"
  shows "in_index_order d = rs"
proof -
  have "sort_key fst d = enumerate 0 rs"
  proof (rule map_sorted_distinct_set_unique)
    show "inj_on fst (set (sort_key fst d) \<union> set (enumerate 0 rs))"
      using assms by (simp add: distinct_map)
    show "sorted (map fst (enumerate 0 rs))" "distinct (map fst (enumerate 0 rs))" by simp_all
    show "distinct (map fst (sort_key fst d))" using assms(1)
      by (metis distinct_map distinct_sort set_sort)
  qed (use assms(2) in simp_all)
  then show ?thesis by (simp add: in_index_order_def)
qed

lemma foldl_update_new:
  assumes "distinct (map f xs)" "\<And>x. x \<in> set xs \<Longrightarrow> f x \<notin> set (keys d)"
  shows "foldl (\<lambda>d x. AList.update (f x) (g x) d) d xs = d @ map (\<lambda>x. (f x, g x)) xs"
  using assms
proof (induction xs arbitrary: d)
  case (Cons x xs)
  have "f x \<notin> set (keys d)" using Cons.prems by simp
  then have "AList.update (f x) (g x) d = d @ [(f x, g x)]" by (rule update_new)
  moreover have "foldl (\<lambda>d x. AList.update (f x) (g x) d) (d @ [(f x, g x)]) xs = (d @ [(f x, g x)]) @ map (\<lambda>x. (f x, g x)) xs"
    using Cons.prems by (intro Cons.IH) (auto, metis imageI)
  ultimately show ?case by simp
qed simp

lemma run_in_turn_outcomes: "run_tasks_in_turn exec mode now reg ts = map (task_outcome exec mode now reg) ts"
proof -
  let ?o = "task_outcome exec mode now reg"
  have "run_task exec mode now reg d p = AList.update (fst p) (?o (snd p)) d" for d p
    by (cases p) (simp add: run_task_def task_outcome_def Let_def split: option.split)
  then have "foldl (run_task exec mode now reg) [] (enumerate 0 ts) = foldl (\<lambda>d p. AList.update (fst p) (?o (snd p)) d) [] (enumerate 0 ts)"
    by (rule foldl_cong [OF refl refl])
  also have "\<dots> = map (\<lambda>p. (fst p, ?o (snd p))) (enumerate 0 ts)" by (subst foldl_update_new) simp_all
  also have "\<dots> = enumerate 0 (map ?o ts)" by (simp add: enumerate_map_upt [symmetric] enumerate_eq_zip zip_map2 case_prod_beta)
  finally show ?thesis unfolding run_tasks_in_turn_def by (intro in_index_order_unique) simp_all
qed

lemma split_runnable_all:
  assumes "distinct (map fst xs)" "\<And>x. x \<in> set xs \<Longrightarrow> fst x \<notin> set (keys d)"
  shows "foldl (split_runnable mode now reg) (d, rs) xs =
    (d @ map (\<lambda>(i, t). (i, the (preflight_result t (config_for reg t) mode now)))
       (filter (\<lambda>(i, t). preflight_result t (config_for reg t) mode now \<noteq> None) xs),
     rs @ map (\<lambda>(i, t). (i, t, config_for reg t)) (filter (\<lambda>(i, t). preflight_result t (config_for reg t) mode now = None) xs))"
  using assms
proof (induction xs arbitrary: d rs)
  case (Cons x xs)
  obtain i t where x: "x = (i, t)" by (cases x)
  show ?case
  proof (cases "preflight_result t (config_for reg t) mode now")
    case None
    then have "split_runnable mode now reg (d, rs) x = (d, rs @ [(i, t, config_for reg t)])"
      by (simp add: x split_runnable_def Let_def)
    then show ?thesis using Cons.prems None by (simp add: Cons.IH) (simp add: x)
  next
    case (Some b)
    have "i \<notin> set (keys d)" using Cons.prems(2) [of x] x by simp
    then have "split_runnable mode now reg (d, rs) x = (d @ [(i, b)], rs)"
      using Some by (simp add: x split_runnable_def Let_def update_new)
    moreover have "foldl (split_runnable mode now reg) (d @ [(i, b)], rs) xs =
        ((d @ [(i, b)]) @ map (\<lambda>(i, t). (i, the (preflight_result t (config_for reg t) mode now)))
           (filter (\<lambda>(i, t). preflight_result t (config_for reg t) mode now \<noteq> None) xs),
         rs @ map (\<lambda>(i, t). (i, t, config_for reg t)) (filter (\<lambda>(i, t). preflight_result t (config_for reg t) mode now = None) xs))"
      using Cons.prems x by (intro Cons.IH) auto
    ultimately show ?thesis using Some by (simp add: x)
  qed
qed simp

lemma run_background_outcomes: "run_background_tasks pick exec now reg ts max_parallel = map (task_outcome exec BACKGROUND now reg) ts"
proof -
  let ?o = "task_outcome exec BACKGROUND now reg" and ?es = "enumerate 0 ts"
  let ?P = "\<lambda>(i :: nat, t). preflight_result t (config_for reg t) BACKGROUND now = None"
  let ?f = "\<lambda>(i :: nat, t, c). result_or_failed exec BACKGROUND now t c"
  define blocked where "blocked = map (\<lambda>(i, t). (i, the (preflight_result t (config_for reg t) BACKGROUND now)))
    (filter (\<lambda>(i, t). preflight_result t (config_for reg t) BACKGROUND now \<noteq> None) ?es)"
  define runnable where "runnable = map (\<lambda>(i, t). (i, t, config_for reg t)) (filter ?P ?es)"
  have split: "foldl (split_runnable BACKGROUND now reg) ([], []) ?es = (blocked, runnable)"
    by (subst split_runnable_all) (simp_all add: blocked_def runnable_def)
  have results: "execute_many pick (\<lambda>k. ?f (runnable ! k)) (length runnable) max_parallel = map ?f runnable"
    unfolding execute_many_results by (rule nth_equalityI) simp_all
  have b: "blocked = map (\<lambda>(i, t). (i, ?o t)) (filter (\<lambda>x. \<not> ?P x) ?es)"
    unfolding blocked_def by (intro map_cong filter_cong) (auto simp: task_outcome_def)
  have r: "map (\<lambda>x. (fst x, ?f x)) runnable = map (\<lambda>(i, t). (i, ?o t)) (filter ?P ?es)"
    unfolding runnable_def map_map by (intro map_cong) (auto simp: task_outcome_def)
  have keys_r: "map fst runnable = map fst (filter ?P ?es)" by (auto simp: runnable_def comp_def case_prod_beta)
  have dist: "distinct (map fst (filter ?P ?es))" by (intro distinct_map_filter) simp
  have inj: "inj_on fst (set ?es)" by (metis distinct_enumerate distinct_map map_fst_enumerate distinct_upt)
  have fresh: "fst x \<notin> set (keys blocked)" if "x \<in> set runnable" for x
  proof
    assume "fst x \<in> set (keys blocked)"
    then obtain y where "y \<in> set ?es" "\<not> ?P y" "fst y = fst x" unfolding b by auto
    moreover
    have "\<exists>z \<in> set ?es. ?P z \<and> fst z = fst x" using that unfolding runnable_def by force
    then obtain z where z: "z \<in> set ?es" "?P z" "fst z = fst x" by blast
    ultimately have "y = z" using inj_onD [OF inj, of y z] by simp
    then show False using \<open>\<not> ?P y\<close> z(2) by blast
  qed
  have "foldl (\<lambda>d ((i, t, c), r). AList.update i r d) blocked (zip runnable (map ?f runnable)) =
      foldl (\<lambda>d x. AList.update (fst x) (?f x) d) blocked runnable"
    by (simp add: zip_map2 zip_same_conv_map foldl_map case_prod_beta)
  also have "\<dots> = blocked @ map (\<lambda>x. (fst x, ?f x)) runnable"
    using dist keys_r fresh by (intro foldl_update_new) auto
  finally have d: "foldl (\<lambda>d ((i, t, c), r). AList.update i r d) blocked (zip runnable (map ?f runnable)) =
      map (\<lambda>(i, t). (i, ?o t)) (filter (\<lambda>x. \<not> ?P x) ?es @ filter ?P ?es)" unfolding b r by simp
  have "in_index_order (map (\<lambda>(i, t). (i, ?o t)) (filter (\<lambda>x. \<not> ?P x) ?es @ filter ?P ?es)) = map ?o ts"
  proof (rule in_index_order_unique)
    have "set (map fst (filter (\<lambda>x. \<not> ?P x) ?es)) \<inter> set (map fst (filter ?P ?es)) = {}"
    proof (rule ccontr)
      assume "\<not> ?thesis"
      then obtain k where k: "k \<in> fst ` set (filter (\<lambda>x. \<not> ?P x) ?es)" "k \<in> fst ` set (filter ?P ?es)"
        unfolding set_map by blast
      then obtain y z where y: "y \<in> set (filter (\<lambda>x. \<not> ?P x) ?es)" "k = fst y" and z: "z \<in> set (filter ?P ?es)" "k = fst z"
        by (elim imageE)
      then have "y = z" using inj_onD [OF inj, of y z] unfolding set_filter by simp
      then show False using y(1) z(1) unfolding set_filter by blast
    qed
    moreover have "distinct (map fst (filter (\<lambda>x. \<not> ?P x) ?es))" by (intro distinct_map_filter) simp
    ultimately have "distinct (map fst (filter (\<lambda>x. \<not> ?P x) ?es @ filter ?P ?es))"
      using dist unfolding map_append distinct_append by blast
    then show "distinct (keys (map (\<lambda>(i, t). (i, ?o t)) (filter (\<lambda>x. \<not> ?P x) ?es @ filter ?P ?es)))"
      by (simp only: map_map comp_def case_prod_beta fst_conv)
    have "enumerate 0 (map ?o ts) = map (\<lambda>(i, t). (i, ?o t)) ?es"
      by (simp add: enumerate_eq_zip zip_map2 case_prod_beta map_prod_def prod.case_eq_if)
    then have "set (enumerate 0 (map ?o ts)) = (\<lambda>(i, t). (i, ?o t)) ` set ?es" by simp
    moreover have "set (filter (\<lambda>x. \<not> ?P x) ?es @ filter ?P ?es) = set ?es" unfolding set_append set_filter by blast
    ultimately show "set (map (\<lambda>(i, t). (i, ?o t)) (filter (\<lambda>x. \<not> ?P x) ?es @ filter ?P ?es)) = set (enumerate 0 (map ?o ts))"
      by (simp only: set_map)
  qed
  then show ?thesis unfolding run_background_tasks_def split Let_def prod.case results d by simp
qed

text \<open>The background executor, whatever the order in which its runs end and however many run at once, returns for a list
  of tasks what running them one after the other returns, one result per task, in the order of the tasks: provided that
  the result of a run depends on its task and configuration only, and not on the directory the process is in.\<close>

lemma background_equals_in_turn:
  "run_background_tasks pick exec now reg ts max_parallel = run_tasks_in_turn exec BACKGROUND now reg ts"
  by (simp add: run_background_outcomes run_in_turn_outcomes)

lemma execute_task [simp]: "sr_task (execute M now x t c) = at_id t"
  by (cases x) (auto simp: execute_def fake_execute_def execute_model_task_def failed_result_def ended_result_def Let_def
      split: sum.split prod.split)

lemma run_delegated_outcomes:
  "run_delegated_tasks pick M now reg (Some x) ts max_parallel =
    map (task_outcome (\<lambda>t c. Inr (execute M now x t c)) (executor_mode x) now reg) ts"
  by (cases x) (simp_all add: run_delegated_tasks_def run_background_outcomes run_in_turn_outcomes executor_mode_def)

text \<open>Every executor answers every task, in order and under its own id; a task that fails the checks needs review, and
  is not executed; every other one has the result of its execution.\<close>

lemma run_delegated_tasks_exact:
  "map sr_task (run_delegated_tasks pick M now reg (Some x) ts max_parallel) = map at_id ts \<and>
   (\<forall>i < length ts. let t = ts ! i; r = run_delegated_tasks pick M now reg (Some x) ts max_parallel ! i in
     case preflight_result t (config_for reg t) (executor_mode x) now of
       Some b \<Rightarrow> r = b \<and> sr_status r = NEEDS_REVIEW \<and> sr_artifacts r = []
     | None \<Rightarrow> r = execute M now x t (config_for reg t))"
  unfolding run_delegated_outcomes
  by (auto simp: task_outcome_def result_or_failed_def Let_def dest: preflight_result_task split: option.split)

text \<open>Only a critic can fail a run by its verdict, and a run that failed leaves no artifact.\<close>

lemma failed_status_has_error: "status_from_output str_of t parsed = (FAILED, err) \<Longrightarrow> err \<noteq> None"
  by (auto simp: status_from_output_def Let_def split: if_splits)

lemma failed_run_leaves_no_artifact:
  assumes "sr_status (execute_model_task M now mode n t c) = FAILED"
  shows "sr_artifacts (execute_model_task M now mode n t c) = [] \<and> sr_error (execute_model_task M now mode n t c) \<noteq> None"
  using assms by (auto simp: execute_model_task_def failed_result_def ended_result_def Let_def
      dest: failed_status_has_error split: sum.splits if_splits prod.splits)

lemma model_result_bounded:
  "sr_status (execute_model_task M now mode n t c) \<noteq> FAILED \<Longrightarrow> length (sr_summary (execute_model_task M now mode n t c)) \<le> n"
  by (auto simp: execute_model_task_def failed_result_def ended_result_def Let_def split: sum.splits prod.splits)

section \<open>The working directory\<close>

definition wd_wf :: "string option list \<Rightarrow> wd_state \<Rightarrow> bool" where
  "wd_wf paths s \<longleftrightarrow> length (wd_phases s) = length paths \<and>
    (\<forall>k < length paths. \<forall>d. wd_phases s ! k = WdRead d \<longrightarrow> given (paths ! k)) \<and>
    (\<forall>k < length paths. \<forall>d. wd_phases s ! k = WdInside d \<longrightarrow> given (paths ! k) \<and> wd_cwd s = or_empty (paths ! k) \<and>
       (\<forall>j < length paths. \<forall>e. wd_phases s ! j = WdInside e \<longrightarrow> j = k))"

lemma lock_free_nth: "lock_free s \<longleftrightarrow> (\<forall>k < length (wd_phases s). \<forall>d. wd_phases s ! k \<noteq> WdInside d)"
  unfolding lock_free_def list_all_length by (auto split: wd_phase.splits)

lemma set_phase_simps [simp]:
  "wd_cwd (set_phase k ph s) = wd_cwd s" "length (wd_phases (set_phase k ph s)) = length (wd_phases s)"
  "j < length (wd_phases s) \<Longrightarrow> wd_phases (set_phase k ph s) ! j = (if j = k then ph else wd_phases s ! j)"
  by (simp_all add: set_phase_def nth_list_update)

lemma wd_step_wf: "wd_step paths s s' \<Longrightarrow> wd_wf paths s \<Longrightarrow> wd_wf paths s'"
proof (induction rule: wd_step.induct)
  case (plain_enter k s)
  then show ?case unfolding wd_wf_def by (auto split: if_splits)
next
  case (plain_leave k s)
  then show ?case unfolding wd_wf_def by (auto split: if_splits)
next
  case (getcwd k s)
  then show ?case unfolding wd_wf_def by (auto split: if_splits)
next
  case (enter k s d)
  then show ?case unfolding wd_wf_def lock_free_nth by (auto split: if_splits)
next
  case (chdir_fails k s d)
  then show ?case unfolding wd_wf_def by (auto split: if_splits)
next
  case (leave k s d)
  then show ?case unfolding wd_wf_def by (auto split: if_splits)
qed

lemma wd_reachable_wf: "wd_reachable paths d s \<Longrightarrow> wd_wf paths s"
proof (induction rule: wd_reachable.induct)
  case start
  then show ?case by (simp add: wd_wf_def wd_start_def)
next
  case (step s s')
  then show ?case by (blast intro: wd_step_wf)
qed

text \<open>While a run with a workspace path is at work the process is in that directory, and no other run with a path is at
  work.\<close>

lemma workspace_run_in_its_directory:
  assumes "wd_reachable paths d s" "k < length paths" "wd_phases s ! k = WdInside e"
  shows "wd_cwd s = or_empty (paths ! k) \<and> (\<forall>j < length paths. \<forall>e'. wd_phases s ! j = WdInside e' \<longrightarrow> j = k)"
  using wd_reachable_wf [OF assms(1)] assms(2,3) unfolding wd_wf_def by blast

text \<open>The old directory is read before the lock is taken.\<close>

lemma wd_two_steps:
  "wd_step [Some p, Some q] \<lparr>wd_cwd = p, wd_phases = [WdInside d, WdRead p]\<rparr> s \<longleftrightarrow>
     s = \<lparr>wd_cwd = d, wd_phases = [WdAfter, WdRead p]\<rparr>"
  "wd_step [Some p, Some q] \<lparr>wd_cwd = q, wd_phases = [WdAfter, WdInside p]\<rparr> s \<longleftrightarrow>
     s = \<lparr>wd_cwd = p, wd_phases = [WdAfter, WdAfter]\<rparr>"
proof -
  let ?a = "\<lparr>wd_cwd = p, wd_phases = [WdInside d, WdRead p]\<rparr>" and ?b = "\<lparr>wd_cwd = q, wd_phases = [WdAfter, WdInside p]\<rparr>"
  have "wd_step [Some p, Some q] ?a s \<Longrightarrow> s = \<lparr>wd_cwd = d, wd_phases = [WdAfter, WdRead p]\<rparr>"
    by (erule wd_step.cases) (auto simp: set_phase_def lock_free_def less_Suc_eq)
  moreover have "wd_step [Some p, Some q] ?a \<lparr>wd_cwd = d, wd_phases = [WdAfter, WdRead p]\<rparr>"
    using wd_step.leave [of 0 ?a d] by (simp add: set_phase_def)
  ultimately show "wd_step [Some p, Some q] ?a s \<longleftrightarrow> s = \<lparr>wd_cwd = d, wd_phases = [WdAfter, WdRead p]\<rparr>" by blast
  have "wd_step [Some p, Some q] ?b s \<Longrightarrow> s = \<lparr>wd_cwd = p, wd_phases = [WdAfter, WdAfter]\<rparr>"
    by (erule wd_step.cases) (auto simp: set_phase_def lock_free_def less_Suc_eq)
  moreover have "wd_step [Some p, Some q] ?b \<lparr>wd_cwd = p, wd_phases = [WdAfter, WdAfter]\<rparr>"
    using wd_step.leave [of 1 ?b p] by (simp add: set_phase_def)
  ultimately show "wd_step [Some p, Some q] ?b s \<longleftrightarrow> s = \<lparr>wd_cwd = p, wd_phases = [WdAfter, WdAfter]\<rparr>" by blast
qed

lemma wd_leak_path:
  fixes p q :: string
  defines "ps \<equiv> [Some p, Some q]"
  assumes "p \<noteq> []" "q \<noteq> []"
  shows "wd_reachable ps d \<lparr>wd_cwd = p, wd_phases = [WdInside d, WdBefore]\<rparr>"
    "wd_reachable ps d \<lparr>wd_cwd = p, wd_phases = [WdInside d, WdRead p]\<rparr>"
    "wd_step ps \<lparr>wd_cwd = d, wd_phases = [WdAfter, WdRead p]\<rparr> \<lparr>wd_cwd = q, wd_phases = [WdAfter, WdInside p]\<rparr>"
proof -
  let ?r = "wd_reachable ps d"
  have g: "given (ps ! 0)" "given (ps ! 1)" "or_empty (ps ! 0) = p" "or_empty (ps ! 1) = q"
    using assms by (simp_all add: ps_def given_def or_empty_def)
  have 0: "?r \<lparr>wd_cwd = d, wd_phases = [WdBefore, WdBefore]\<rparr>"
    using wd_reachable.start [of ps d] by (simp add: wd_start_def ps_def numeral_2_eq_2)
  have 1: "?r \<lparr>wd_cwd = d, wd_phases = [WdRead d, WdBefore]\<rparr>"
    using wd_reachable.step [OF 0 wd_step.getcwd [of 0]] g by (simp add: set_phase_def)
  show 2: "?r \<lparr>wd_cwd = p, wd_phases = [WdInside d, WdBefore]\<rparr>"
    using wd_reachable.step [OF 1 wd_step.enter [of 0 _ d]] g by (simp add: set_phase_def lock_free_def)
  show "?r \<lparr>wd_cwd = p, wd_phases = [WdInside d, WdRead p]\<rparr>"
    using wd_reachable.step [OF 2 wd_step.getcwd [of 1]] g by (simp add: set_phase_def)
  show "wd_step ps \<lparr>wd_cwd = d, wd_phases = [WdAfter, WdRead p]\<rparr> \<lparr>wd_cwd = q, wd_phases = [WdAfter, WdInside p]\<rparr>"
    using wd_step.enter [of 1 "\<lparr>wd_cwd = d, wd_phases = [WdAfter, WdRead p]\<rparr>" p ps] g
    by (simp add: set_phase_def lock_free_def)
qed

text \<open>C28: Two runs with workspaces can leave the process in the workspace of the first when both have ended. While the
  first is at work in its workspace \<open>p\<close> the second reads \<open>p\<close> as the directory to go back to, and waits for the lock; the
  first goes back to the directory \<open>d\<close> the process was in; the second works in its own workspace \<open>q\<close>; and the only step it
  has left takes the process to \<open>p\<close>.\<close>

theorem working_directory_leaks:
  assumes "p \<noteq> []" "q \<noteq> []"
  shows "wd_reachable [Some p, Some q] d \<lparr>wd_cwd = p, wd_phases = [WdInside d, WdRead p]\<rparr> \<and>
    (\<forall>s. wd_step [Some p, Some q] \<lparr>wd_cwd = p, wd_phases = [WdInside d, WdRead p]\<rparr> s \<longleftrightarrow>
       s = \<lparr>wd_cwd = d, wd_phases = [WdAfter, WdRead p]\<rparr>) \<and>
    wd_step [Some p, Some q] \<lparr>wd_cwd = d, wd_phases = [WdAfter, WdRead p]\<rparr> \<lparr>wd_cwd = q, wd_phases = [WdAfter, WdInside p]\<rparr> \<and>
    (\<forall>s. wd_step [Some p, Some q] \<lparr>wd_cwd = q, wd_phases = [WdAfter, WdInside p]\<rparr> s \<longleftrightarrow>
       s = \<lparr>wd_cwd = p, wd_phases = [WdAfter, WdAfter]\<rparr>)"
  using wd_leak_path(2,3) [OF assms] by (simp only: wd_two_steps) simp

text \<open>A run without a workspace takes no lock, so it can be at work in the workspace of another one.\<close>

lemma plain_run_in_foreign_directory:
  assumes "p \<noteq> []"
  shows "wd_reachable [Some p, None] d \<lparr>wd_cwd = p, wd_phases = [WdInside d, WdPlain]\<rparr>"
proof -
  let ?r = "wd_reachable [Some p, None] d"
  have 0: "?r \<lparr>wd_cwd = d, wd_phases = [WdBefore, WdBefore]\<rparr>"
    using wd_reachable.start [of "[Some p, None]" d] by (simp add: wd_start_def numeral_2_eq_2)
  have 1: "?r \<lparr>wd_cwd = d, wd_phases = [WdRead d, WdBefore]\<rparr>"
    using wd_reachable.step [OF 0 wd_step.getcwd [of 0]] assms by (simp add: set_phase_def given_def or_empty_def)
  have 2: "?r \<lparr>wd_cwd = p, wd_phases = [WdInside d, WdBefore]\<rparr>"
    using wd_reachable.step [OF 1 wd_step.enter [of 0 _ d]] by (simp add: set_phase_def lock_free_def or_empty_def)
  show ?thesis
    using wd_reachable.step [OF 2 wd_step.plain_enter [of 1]] by (simp add: set_phase_def given_def or_empty_def)
qed

section \<open>Witnesses\<close>

definition ex_dl_settings :: delegation_settings where
  "ex_dl_settings = \<lparr>dl_roles = ex_role_settings, dl_enabled = True, dl_enforce = False, dl_mode = Some ''fake'', dl_max_turns = PInt 1,
     dl_timeout = PInt 30, dl_max_depth = PInt 1\<rparr>"

lemma ex_plan: "\<exists>p. build_delegation_plan (\<lambda>v. []) or_empty ex_dl_settings ''Fix and review'' None [''git_diff''] [] = Inr p \<and>
    map at_id (dp_tasks p) = [''task-1-orchestrator'', ''task-2-executor'', ''task-3-critic'']"
proof -
  have "(case build_delegation_plan (\<lambda>v. []) or_empty ex_dl_settings ''Fix and review'' None [''git_diff''] [] of
      Inl e \<Rightarrow> False | Inr p \<Rightarrow> map at_id (dp_tasks p) = [''task-1-orchestrator'', ''task-2-executor'', ''task-3-critic''])"
    by code_simp
  then show ?thesis by (auto split: sum.splits)
qed

theorem delegation_plan_wf_witness:
  "\<exists>p. build_delegation_plan (\<lambda>v. []) or_empty ex_dl_settings ''Fix and review'' None [''git_diff''] [] = Inr p \<and>
    map ar_task (dp_runs p) = [''task-1-orchestrator'', ''task-2-executor'', ''task-3-critic'']"
  using ex_plan delegation_plan_wf by metis

definition ex_model :: model_env where
  "ex_model = \<lparr>me_invoke = \<lambda>m d r p. Inr (PStr ''All good''), me_default_model = ''m'', me_dumps = \<lambda>v. [], me_loads = \<lambda>s. None,
     me_str = \<lambda>v. []\<rparr>"

definition ex_delegated_task :: agent_task where
  "ex_delegated_task = \<lparr>at_id = ''task-1-critic'', at_parent = None, at_role = CRITIC, at_goal = ''Review'', at_constraints = [], at_allowed = [],
     at_memory_scope = ''thread'', at_budget = budget_for_role CRITIC, at_criteria = [], at_max_turns = 1, at_timeout = 60,
     at_max_depth = 1, at_writes = False, at_network = False, at_refs = [], at_isolation = [], at_workspace = no_workspace\<rparr>"

lemma ex_delegated_fields: "at_id ex_delegated_task = ''task-1-critic''" "preflight_result ex_delegated_task (config_for [] ex_delegated_task) m now = None"
  unfolding preflight_passes_iff by (simp_all add: ex_delegated_task_def budget_for_role_def)

theorem run_delegated_tasks_exact_witness:
  "map sr_task (run_delegated_tasks hd ex_model ''t'' [] (Some Background) [ex_delegated_task] 4) = [''task-1-critic''] \<and>
   run_delegated_tasks hd ex_model ''t'' [] (Some Background) [ex_delegated_task] 4 ! 0 =
     execute ex_model ''t'' Background ex_delegated_task (config_for [] ex_delegated_task)"
proof -
  note e = run_delegated_tasks_exact [where pick = hd and M = ex_model and now = "''t''" and reg = "[]" and x = Background
      and ts = "[ex_delegated_task]" and max_parallel = 4]
  show ?thesis using e by (simp add: ex_delegated_fields)
qed

definition ex_pool :: "nat \<Rightarrow> nat list \<Rightarrow> nat option list \<Rightarrow> nat pool" where
  "ex_pool k fs os = \<lparr>pl_next = k, pl_futures = fs, pl_ordered = os\<rparr>"

lemma ex_pool_run: "pool_run id 3 (pool_workers 2 3) [1, 0, 2] (ex_pool 3 [] [Some 0, Some 1, Some 2])"
proof -
  have e: "pool_start 3 (pool_workers 2 3) = ex_pool 2 [0, 1] [None, None, None]"
    "pool_complete id 3 1 (ex_pool 2 [0, 1] [None, None, None]) = ex_pool 3 [0, 2] [None, Some 1, None]"
    "pool_complete id 3 0 (ex_pool 3 [0, 2] [None, Some 1, None]) = ex_pool 3 [2] [Some 0, Some 1, None]"
    "pool_complete id 3 2 (ex_pool 3 [2] [Some 0, Some 1, None]) = ex_pool 3 [] [Some 0, Some 1, Some 2]"
    by code_simp+
  have i: "1 \<in> set (pl_futures (ex_pool 2 [0, 1] [None, None, None]))" "0 \<in> set (pl_futures (ex_pool 3 [0, 2] [None, Some 1, None]))"
    "2 \<in> set (pl_futures (ex_pool 3 [2] [Some 0, Some 1, None]))"
    by (simp_all add: ex_pool_def)
  have "pool_run id 3 (pool_workers 2 3) [] (ex_pool 2 [0, 1] [None, None, None])"
    using pool_run.start [of id 3 "pool_workers 2 3"] by (simp only: e)
  from pool_run.step [OF pool_run.step [OF pool_run.step [OF this pool_step.complete [OF i(1)], unfolded e]
      pool_step.complete [OF i(2)], unfolded e] pool_step.complete [OF i(3)], unfolded e]
  show ?thesis by simp
qed

theorem pool_bounded_and_exact_witness:
  "pool_run id 3 (pool_workers 2 3) [1, 0, 2] (ex_pool 3 [] [Some 0, Some 1, Some 2]) \<and>
   set [1, 0, 2] = {..<3 :: nat} \<and> [Some 0, Some 1, Some 2] = map (\<lambda>i. Some (id i)) [0..<3 :: nat]"
proof -
  have "pl_futures (ex_pool 3 [] [Some 0, Some 1, Some 2]) = []" "pl_ordered (ex_pool 3 [] [Some 0, Some 1, Some 2]) = [Some 0, Some 1, Some 2]"
    by (simp_all add: ex_pool_def)
  then show ?thesis using pool_bounded_and_exact [OF zero_less_numeral ex_pool_run] ex_pool_run by metis
qed

theorem workspace_run_in_its_directory_witness:
  "wd_cwd \<lparr>wd_cwd = ''/a'', wd_phases = [WdInside ''/'', WdBefore]\<rparr> = or_empty (Some ''/a'')"
proof -
  have "wd_reachable [Some ''/a'', Some ''/b''] ''/'' \<lparr>wd_cwd = ''/a'', wd_phases = [WdInside ''/'', WdBefore]\<rparr>"
    by (rule wd_leak_path) simp_all
  from workspace_run_in_its_directory [OF this, of 0 "''/''"] show ?thesis by simp
qed

theorem working_directory_leaks_witness:
  "wd_reachable [Some ''/a'', Some ''/b''] ''/'' \<lparr>wd_cwd = ''/a'', wd_phases = [WdAfter, WdAfter]\<rparr>"
proof -
  note leak = working_directory_leaks [of "''/a''" "''/b''" "''/''"]
  have "wd_reachable [Some ''/a'', Some ''/b''] ''/'' \<lparr>wd_cwd = ''/'', wd_phases = [WdAfter, WdRead ''/a'']\<rparr>"
    using leak by (blast intro: wd_reachable.step)
  then have "wd_reachable [Some ''/a'', Some ''/b''] ''/'' \<lparr>wd_cwd = ''/b'', wd_phases = [WdAfter, WdInside ''/a'']\<rparr>"
    using leak by (blast intro: wd_reachable.step)
  then show ?thesis using leak by (blast intro: wd_reachable.step)
qed

end
