(* ===== verification/TaskLedger.thy ===== *)
theory TaskLedger
  imports DelegationRun
begin

text \<open>
  The ledger of delegated tasks (\<open>delegation/task_ledger.py\<close>): the ledger of a plan, the artifacts of
  its runs, the critic gate, the retries it asks for, and the synthesis. A ledger that arrives as a dictionary is
  validated to the record first, by pydantic; the validation of an executor's artifact is the parameter
  \<open>le_artifact\<close>. Fresh identifiers and the clock are arguments.
\<close>

section \<open>The ledger\<close>

datatype task_state = T_PLANNED | T_RUNNING | T_BLOCKED | T_COMPLETED | T_REJECTED | T_SKIPPED

datatype ledger_status = L_DISABLED | L_PLANNED | L_RUNNING | L_COMPLETED | L_BLOCKED | L_REJECTED

record task_node =
  tn_id :: string
  tn_parent :: "string option"
  tn_role :: agent_role
  tn_goal :: string
  tn_status :: task_state
  tn_criteria :: "string list"
  tn_artifacts :: "string list"
  tn_retries :: int

record task_ledger =
  tl_enabled :: bool
  tl_status :: ledger_status
  tl_tasks :: "task_node list"
  tl_edges :: "(string \<times> string) list"
  tl_created :: "string option"
  tl_updated :: "string option"

record ledger_settings =
  lg_enabled :: bool
  lg_synthesis :: bool
  lg_gate :: bool
  lg_enforce :: bool

definition no_ledger :: task_ledger where
  "no_ledger = \<lparr>tl_enabled = False, tl_status = L_DISABLED, tl_tasks = [], tl_edges = [], tl_created = None, tl_updated = None\<rparr>"

definition plan_items :: "(string, pyval) dict \<Rightarrow> string \<Rightarrow> py_error + pyval list" where
  "plan_items plan k = items_or_none (dict_value plan k)"

text \<open>A later run of the same task wins.\<close>

definition runs_by_task :: "(pyval \<Rightarrow> string) \<Rightarrow> (string, pyval) dict option \<Rightarrow> py_error + (string, (string, pyval) dict) dict" where
  "runs_by_task str_of plan = (case plan of None \<Rightarrow> Inr []
     | Some p \<Rightarrow> bind_ok (plan_items p ''runs'') (\<lambda>vs. Inr (foldl (\<lambda>d raw. AList.update (py_str str_of (dict_value raw ''task_id'')) raw d) []
         (filter (\<lambda>raw. truthy (dict_value raw ''task_id'')) (dicts_of vs)))))"

definition run_state :: "string \<Rightarrow> task_state" where
  "run_state s = (if s = ''running'' then T_RUNNING else if s = ''completed'' then T_COMPLETED else if s = ''failed'' then T_REJECTED
     else if s = ''skipped'' then T_SKIPPED else if s = ''needs_review'' then T_BLOCKED else T_PLANNED)"

definition task_status_from_run :: "(pyval \<Rightarrow> string) \<Rightarrow> (string, pyval) dict option \<Rightarrow> string \<Rightarrow> py_error + task_state" where
  "task_status_from_run str_of plan task_id = bind_ok (runs_by_task str_of plan) (\<lambda>runs.
     Inr (case map_of runs task_id of None \<Rightarrow> T_PLANNED
       | Some run \<Rightarrow> if run = [] then T_PLANNED else run_state (text_or str_of (dict_value run ''status'') ''planned'')))"

definition ledger_optional_str :: "(pyval \<Rightarrow> string) \<Rightarrow> pyval \<Rightarrow> string option" where
  "ledger_optional_str str_of v = (if truthy v then Some (py_str str_of v) else None)"

definition ledger_node :: "(pyval \<Rightarrow> string) \<Rightarrow> (string, pyval) dict option \<Rightarrow> nat \<Rightarrow> (string, pyval) dict \<Rightarrow> py_error + task_node" where
  "ledger_node str_of plan i raw =
    bind_ok (normalize_agent_role (text_or str_of (dict_value raw ''role'') ''executor'')) (\<lambda>role.
    let task_id = text_or str_of (dict_value raw ''task_id'') (plan_task_id i role) in
    bind_ok (task_status_from_run str_of plan task_id) (\<lambda>status.
    bind_ok (items_or_none (dict_value raw ''acceptance_criteria'')) (\<lambda>criteria.
    bind_ok (int_value (py_or (dict_value raw ''retry_count'') (PInt 0))) (\<lambda>retries.
      Inr \<lparr>tn_id = task_id, tn_parent = ledger_optional_str str_of (dict_value raw ''parent_task_id''), tn_role = role,
           tn_goal = text_or str_of (py_or (dict_value raw ''goal'') (dict_value raw ''task_slice'')) (role_value role @ '' delegated task''),
           tn_status = status, tn_criteria = map (py_str str_of) criteria, tn_artifacts = [], tn_retries = retries\<rparr>))))"

text \<open>The dictionaries of a list, with their index in the list\<close>

definition indexed_dicts :: "pyval list \<Rightarrow> (nat \<times> (string, pyval) dict) list" where
  "indexed_dicts vs = concat (map (\<lambda>(i, v). case v of PDict d \<Rightarrow> [(i, d)] | _ \<Rightarrow> []) (enumerate 0 vs))"

definition default_node :: task_node where
  "default_node = \<lparr>tn_id = ''task-1-executor'', tn_parent = None, tn_role = EXECUTOR, tn_goal = ''Execute the user request.'',
     tn_status = T_PLANNED, tn_criteria = [''Produce a traceable artifact.''], tn_artifacts = [], tn_retries = 0\<rparr>"

definition ledger_edges :: "task_node list \<Rightarrow> (string \<times> string) list" where
  "ledger_edges ts = map (\<lambda>t. (or_empty (tn_parent t), tn_id t)) (filter (\<lambda>t. given (tn_parent t)) ts)"

definition build_task_ledger :: "(pyval \<Rightarrow> string) \<Rightarrow> ledger_settings \<Rightarrow> string \<Rightarrow> (string, pyval) dict option \<Rightarrow> py_error + task_ledger" where
  "build_task_ledger str_of st now plan =
    (if \<not> lg_enabled st then Inr no_ledger
     else bind_ok (map_ok (\<lambda>(i, raw). ledger_node str_of plan i raw)
         (case plan of None \<Rightarrow> [] | Some p \<Rightarrow> (case dict_value p ''tasks'' of PList vs \<Rightarrow> indexed_dicts vs | _ \<Rightarrow> [])))
       (\<lambda>nodes. let ts = (if nodes = [] then [default_node] else nodes)
         in Inr \<lparr>tl_enabled = True, tl_status = L_PLANNED, tl_tasks = ts, tl_edges = ledger_edges ts,
                 tl_created = Some now, tl_updated = Some now\<rparr>))"

section \<open>Artifacts\<close>

datatype artifact_state = A_DRAFT | A_ACCEPTED | A_REJECTED | A_NEEDS_REVIEW

record delegated_artifact =
  da_id :: string
  da_task :: "string option"
  da_role :: agent_role
  da_kind :: string
  da_title :: string
  da_summary :: string
  da_payload :: "(string, pyval) dict"
  da_status :: artifact_state

record ledger_env =
  le_str :: "pyval \<Rightarrow> string"
  le_artifact :: "(string, pyval) dict \<Rightarrow> py_error + (string, pyval) dict"

definition artifact_kinds :: "string list" where
  "artifact_kinds = [''plan'', ''patch_summary'', ''evidence'', ''critic_verdict'', ''memory_candidate'', ''tool_route_evidence'',
     ''context_ref'', ''final_synthesis'']"

definition artifact_status_for_run :: "(pyval \<Rightarrow> string) \<Rightarrow> (string, pyval) dict \<Rightarrow> artifact_state" where
  "artifact_status_for_run str_of run = (let s = py_lower (py_strip (text_of str_of (dict_value run ''status'')))
     in if s = ''completed'' then A_ACCEPTED else if s = ''needs_review'' then A_NEEDS_REVIEW
        else if s = ''failed'' then A_REJECTED else A_DRAFT)"

definition underscores_to_spaces :: "string \<Rightarrow> string" where
  "underscores_to_spaces s = map (\<lambda>c. if c = CHR ''_'' then CHR '' '' else c) s"

definition task_artifact :: "ledger_env \<Rightarrow> (string, (string, pyval) dict) dict \<Rightarrow> task_node \<Rightarrow> py_error + delegated_artifact" where
  "task_artifact E runs t = (let run = get_or runs (tn_id t) []; kind = artifact_kind_for_role (tn_role t) in
     bind_ok (items_or_none (dict_value run ''artifacts'')) (\<lambda>vs.
     bind_ok (map_ok (le_artifact E) (dicts_of vs)) (\<lambda>made.
       let first = (if made = [] then [] else hd made);
           made_kind = text_of (le_str E) (dict_value first ''kind'')
       in Inr \<lparr>da_id = text_or (le_str E) (dict_value first ''artifact_id'') (''artifact-'' @ tn_id t @ ''-'' @ kind),
            da_task = Some (tn_id t), da_role = tn_role t,
            da_kind = (if made_kind \<in> set artifact_kinds then made_kind else kind),
            da_title = text_or (le_str E) (dict_value first ''title'') (role_value (tn_role t) @ '' '' @ underscores_to_spaces kind),
            da_summary = text_or (le_str E) (dict_value first ''summary'') (tn_goal t),
            da_payload = [(''goal'', PStr (tn_goal t)), (''acceptance_criteria'', texts (tn_criteria t)), (''run'', PDict run),
                (''executor_artifacts'', PList (map PDict made))] @
              (case dict_value first ''payload'' of PDict d \<Rightarrow> [(''executor_payload'', PDict d)] | _ \<Rightarrow> []),
            da_status = artifact_status_for_run (le_str E) run\<rparr>)))"

definition task_id_for_role :: "task_ledger \<Rightarrow> agent_role \<Rightarrow> string option" where
  "task_id_for_role l r = (case find (\<lambda>t. tn_role t = r) (tl_tasks l) of Some t \<Rightarrow> Some (tn_id t)
     | None \<Rightarrow> if tl_tasks l = [] then None else Some (tn_id (hd (tl_tasks l))))"

definition memory_artifact :: "task_ledger \<Rightarrow> string \<Rightarrow> (string, pyval) dict \<Rightarrow> delegated_artifact list" where
  "memory_artifact l fresh d = (if d = [] then [] else
     [\<lparr>da_id = ''artifact-memory-'' @ fresh, da_task = task_id_for_role l MEMORY_CURATOR, da_role = MEMORY_CURATOR, da_kind = ''memory_candidate'',
       da_title = ''Memory promotion candidate'', da_summary = ''Memory Curator decision captured as a delegated artifact.'', da_payload = d,
       da_status = (if truthy (dict_value d ''conflicts'') then A_NEEDS_REVIEW else A_ACCEPTED)\<rparr>])"

definition tool_route_artifact :: "task_ledger \<Rightarrow> string \<Rightarrow> (string, pyval) dict \<Rightarrow> delegated_artifact list" where
  "tool_route_artifact l fresh d = (if d = [] then [] else
     [\<lparr>da_id = ''artifact-tool-route-'' @ fresh, da_task = task_id_for_role l SKILL_SCOUT, da_role = SKILL_SCOUT, da_kind = ''tool_route_evidence'',
       da_title = ''Tool route evidence'', da_summary = ''Tool Router allow/deny plan captured as evidence.'', da_payload = d,
       da_status = (if truthy (dict_value d ''denied_tools'') then A_NEEDS_REVIEW else A_ACCEPTED)\<rparr>])"

definition context_artifact :: "(pyval \<Rightarrow> string) \<Rightarrow> task_ledger \<Rightarrow> nat \<times> (string, pyval) dict \<Rightarrow> delegated_artifact" where
  "context_artifact str_of l p = (case p of (i, ref) \<Rightarrow>
     \<lparr>da_id = text_or str_of (dict_value ref ''artifact_id'') (''artifact-context-'' @ show_nat (i + 1)), da_task = task_id_for_role l EXECUTOR,
      da_role = EXECUTOR, da_kind = ''context_ref'', da_title = text_or str_of (dict_value ref ''title'') ''Context artifact reference'',
      da_summary = text_or str_of (dict_value ref ''summary'') ''Context Engineering v2 artifact reference.'', da_payload = ref,
      da_status = A_ACCEPTED\<rparr>)"

text \<open>\<open>task_by_id[id].artifact_ids.append(...)\<close>: of tasks with one id the last is changed.\<close>

fun append_artifact_rev :: "string \<Rightarrow> string \<Rightarrow> task_node list \<Rightarrow> task_node list" where
  "append_artifact_rev i a [] = []"
| "append_artifact_rev i a (t # ts) = (if tn_id t = i then t\<lparr>tn_artifacts := tn_artifacts t @ [a]\<rparr> # ts else t # append_artifact_rev i a ts)"

definition note_artifact :: "task_ledger \<Rightarrow> delegated_artifact \<Rightarrow> task_ledger" where
  "note_artifact l a = l\<lparr>tl_tasks := rev (append_artifact_rev (or_empty (da_task a)) (da_id a) (rev (tl_tasks l)))\<rparr>"

text \<open>The artifacts, and the ledger that was given after their ids were noted in it.\<close>

definition build_delegated_artifacts :: "ledger_env \<Rightarrow> task_ledger \<Rightarrow> (string, pyval) dict option \<Rightarrow> (string, pyval) dict \<Rightarrow>
    (string, pyval) dict \<Rightarrow> (string, pyval) dict list \<Rightarrow> string \<Rightarrow> string \<Rightarrow> py_error + delegated_artifact list \<times> task_ledger" where
  "build_delegated_artifacts E l plan memory_decision tool_route refs fresh1 fresh2 =
    (if \<not> tl_enabled l then Inr ([], l)
     else bind_ok (runs_by_task (le_str E) plan) (\<lambda>runs. bind_ok (map_ok (task_artifact E runs) (tl_tasks l)) (\<lambda>made.
       Inr (made @ memory_artifact l fresh1 memory_decision @ tool_route_artifact l fresh2 tool_route @
              map (context_artifact (le_str E) l) (enumerate 0 refs),
            foldl note_artifact l made))))"

section \<open>The critic gate\<close>

datatype verdict = V_PASS | V_REJECT | V_RETRY | V_NEEDS_REVIEW | V_SKIPPED

definition verdict_value :: "verdict \<Rightarrow> string" where
  "verdict_value v = (case v of V_PASS \<Rightarrow> ''pass'' | V_REJECT \<Rightarrow> ''reject'' | V_RETRY \<Rightarrow> ''retry'' | V_NEEDS_REVIEW \<Rightarrow> ''needs_review''
     | V_SKIPPED \<Rightarrow> ''skipped'')"

record gate_result =
  gr_enabled :: bool
  gr_enforce :: bool
  gr_verdict :: verdict
  gr_accepted :: "string list"
  gr_rejected :: "string list"
  gr_retry :: "string list"
  gr_reason :: string

definition ids_with :: "artifact_state \<Rightarrow> delegated_artifact list \<Rightarrow> string list" where
  "ids_with s as = map da_id (filter (\<lambda>a. da_status a = s) as)"

text \<open>\<open>{task.task_id: task for task in ledger.tasks}.get(i)\<close>\<close>

definition task_by_id :: "task_ledger \<Rightarrow> string \<Rightarrow> task_node option" where
  "task_by_id l i = map_of (rev (map (\<lambda>t. (tn_id t, t)) (tl_tasks l))) i"

definition retry_task_ids :: "task_ledger \<Rightarrow> string list \<Rightarrow> delegated_artifact list \<Rightarrow> string list" where
  "retry_task_ids l rejected as = from_keys (concat (map (\<lambda>a.
     if da_id a \<notin> set rejected \<or> \<not> given (da_task a) then []
     else case task_by_id l (or_empty (da_task a)) of None \<Rightarrow> [] | Some t \<Rightarrow> if tn_retries t < 1 then [tn_id t] else []) as))"

definition evaluate_critic_gate :: "ledger_settings \<Rightarrow> task_ledger \<Rightarrow> delegated_artifact list \<Rightarrow> gate_result" where
  "evaluate_critic_gate st l as =
    (if \<not> lg_gate st then \<lparr>gr_enabled = False, gr_enforce = lg_enforce st, gr_verdict = V_SKIPPED, gr_accepted = [], gr_rejected = [],
       gr_retry = [], gr_reason = ''AGENT_CRITIC_GATE_ENABLED is off.''\<rparr>
     else (let rejected = ids_with A_REJECTED as; review = ids_with A_NEEDS_REVIEW as;
               retry = (if rejected \<noteq> [] then retry_task_ids l rejected as else [])
       in \<lparr>gr_enabled = True, gr_enforce = lg_enforce st,
           gr_verdict = (if rejected \<noteq> [] then (if retry = [] then V_REJECT else V_RETRY) else if review \<noteq> [] then V_NEEDS_REVIEW else V_PASS),
           gr_accepted = ids_with A_ACCEPTED as, gr_rejected = rejected @ review, gr_retry = retry,
           gr_reason = (if rejected \<noteq> [] then ''Rejected delegated artifacts require retry or block synthesis.''
             else if review \<noteq> [] then ''Some delegated artifacts require human review before synthesis.''
             else ''All accepted artifacts can be synthesized.'')\<rparr>))"

definition retry_node :: "task_node \<Rightarrow> task_node" where
  "retry_node t = \<lparr>tn_id = tn_id t @ ''-retry-1'', tn_parent = Some (tn_id t), tn_role = tn_role t,
     tn_goal = ''Retry after Critic rejection: '' @ tn_goal t, tn_status = T_PLANNED, tn_criteria = tn_criteria t, tn_artifacts = [],
     tn_retries = tn_retries t + 1\<rparr>"

definition retried :: "string list \<Rightarrow> task_node \<Rightarrow> bool" where
  "retried targets t \<longleftrightarrow> tn_id t \<in> set targets \<and> tn_retries t < 1"

definition apply_critic_retry_tasks :: "task_ledger \<Rightarrow> gate_result \<Rightarrow> string \<Rightarrow> task_ledger" where
  "apply_critic_retry_tasks l g now =
    (if \<not> tl_enabled l \<or> gr_retry g = [] then l
     else (let ts = concat (map (\<lambda>t. if retried (gr_retry g) t then [t\<lparr>tn_status := T_REJECTED\<rparr>, retry_node t] else [t]) (tl_tasks l))
       in l\<lparr>tl_tasks := ts, tl_edges := ledger_edges ts, tl_updated := Some now\<rparr>))"

section \<open>Synthesis\<close>

record synthesis_result =
  sy_enabled :: bool
  sy_id :: "string option"
  sy_accepted :: "string list"
  sy_skipped :: "string list"
  sy_summary :: string
  sy_blocked :: bool
  sy_reason :: string

definition accepted_artifacts :: "delegated_artifact list \<Rightarrow> delegated_artifact list" where
  "accepted_artifacts as = filter (\<lambda>a. da_status a = A_ACCEPTED \<and> da_kind a \<noteq> ''critic_verdict'') as"

definition synthesized :: "delegated_artifact list \<Rightarrow> string \<Rightarrow> synthesis_result" where
  "synthesized as fresh = (let accepted = accepted_artifacts as;
       summary = join_with [newline] (map (\<lambda>a. ''- '' @ da_title a @ '': '' @ da_summary a) accepted)
     in \<lparr>sy_enabled = True, sy_id = Some (''artifact-final-synthesis-'' @ fresh), sy_accepted = map da_id accepted,
         sy_skipped = map da_id (filter (\<lambda>a. a \<notin> set accepted) as),
         sy_summary = (if summary = [] then ''No accepted delegated artifacts.'' else summary), sy_blocked = False,
         sy_reason = ''Synthesized from accepted delegated artifacts.''\<rparr>)"

definition synthesize_artifacts :: "ledger_settings \<Rightarrow> delegated_artifact list \<Rightarrow> gate_result option \<Rightarrow> string \<Rightarrow> synthesis_result" where
  "synthesize_artifacts st as gate fresh =
    (if \<not> lg_synthesis st then \<lparr>sy_enabled = False, sy_id = None, sy_accepted = [], sy_skipped = [], sy_summary = [], sy_blocked = False,
       sy_reason = ''AGENT_ARTIFACT_SYNTHESIS_ENABLED is off.''\<rparr>
     else case gate of
       Some g \<Rightarrow> if gr_enforce g \<and> gr_verdict g \<in> {V_REJECT, V_RETRY, V_NEEDS_REVIEW}
         then \<lparr>sy_enabled = True, sy_id = None, sy_accepted = [], sy_skipped = gr_rejected g, sy_summary = [], sy_blocked = True,
           sy_reason = ''Critic gate blocked synthesis with verdict='' @ verdict_value (gr_verdict g) @ ''.''\<rparr>
         else synthesized as fresh
     | None \<Rightarrow> synthesized as fresh)"

section \<open>Lemmas\<close>

lemma task_by_id_Some: "task_by_id l i = Some t \<Longrightarrow> t \<in> set (tl_tasks l) \<and> tn_id t = i"
  unfolding task_by_id_def by (auto dest!: map_of_SomeD)

lemma task_by_id_unique: "distinct (map tn_id (tl_tasks l)) \<Longrightarrow> t \<in> set (tl_tasks l) \<Longrightarrow> task_by_id l (tn_id t) = Some t"
  unfolding task_by_id_def by (intro map_of_is_SomeI) (auto simp: rev_map [symmetric] comp_def)

lemma retry_task_ids_iff:
  "i \<in> set (retry_task_ids l rejected as) \<longleftrightarrow>
    (\<exists>a \<in> set as. da_id a \<in> set rejected \<and> given (da_task a) \<and> or_empty (da_task a) = i \<and>
       (\<exists>t. task_by_id l i = Some t \<and> tn_retries t < 1))"
proof -
  have "i \<in> set (if da_id a \<notin> set rejected \<or> \<not> given (da_task a) then []
       else case task_by_id l (or_empty (da_task a)) of None \<Rightarrow> [] | Some t \<Rightarrow> if tn_retries t < 1 then [tn_id t] else []) \<longleftrightarrow>
     da_id a \<in> set rejected \<and> given (da_task a) \<and> or_empty (da_task a) = i \<and> (\<exists>t. task_by_id l i = Some t \<and> tn_retries t < 1)" for a
  proof (cases "task_by_id l (or_empty (da_task a))")
    case None
    then show ?thesis by auto
  next
    case (Some t)
    then have "tn_id t = or_empty (da_task a)" by (blast dest: task_by_id_Some)
    with Some show ?thesis by auto
  qed
  then show ?thesis unfolding retry_task_ids_def set_from_keys set_concat set_map by blast
qed

lemma ids_with_Nil: "ids_with s as = [] \<longleftrightarrow> (\<forall>a \<in> set as. da_status a \<noteq> s)"
  by (auto simp: ids_with_def filter_empty_conv)

lemma critic_verdict:
  fixes st l as
  assumes "lg_gate st"
  defines "g \<equiv> evaluate_critic_gate st l as"
  shows "(gr_verdict g \<in> {V_REJECT, V_RETRY} \<longleftrightarrow> (\<exists>a \<in> set as. da_status a = A_REJECTED)) \<and>
    (gr_verdict g = V_RETRY \<longleftrightarrow> gr_retry g \<noteq> []) \<and>
    (gr_verdict g = V_NEEDS_REVIEW \<longleftrightarrow> (\<exists>a \<in> set as. da_status a = A_NEEDS_REVIEW) \<and> \<not> (\<exists>a \<in> set as. da_status a = A_REJECTED)) \<and>
    (gr_verdict g = V_PASS \<longleftrightarrow> \<not> (\<exists>a \<in> set as. da_status a \<in> {A_REJECTED, A_NEEDS_REVIEW})) \<and>
    gr_accepted g = map da_id (filter (\<lambda>a. da_status a = A_ACCEPTED) as) \<and>
    set (gr_rejected g) = da_id ` {a \<in> set as. da_status a \<in> {A_REJECTED, A_NEEDS_REVIEW}}"
  using assms(1) unfolding g_def
  by (auto simp: evaluate_critic_gate_def Let_def ids_with_Nil) (auto simp: ids_with_def)

lemma enforced_gate_blocks_lemma:
  assumes "lg_gate st" "lg_enforce st" "lg_synthesis st" "a \<in> set as" "da_status a \<in> {A_REJECTED, A_NEEDS_REVIEW}"
  shows "sy_blocked (synthesize_artifacts st as (Some (evaluate_critic_gate st l as)) fresh) \<and>
    sy_accepted (synthesize_artifacts st as (Some (evaluate_critic_gate st l as)) fresh) = [] \<and>
    da_id a \<in> set (sy_skipped (synthesize_artifacts st as (Some (evaluate_critic_gate st l as)) fresh))"
proof -
  let ?g = "evaluate_critic_gate st l as"
  note v = critic_verdict [OF assms(1), of l as]
  have "gr_verdict ?g \<noteq> V_PASS" using v assms(4,5) by blast
  moreover have "gr_verdict ?g \<noteq> V_SKIPPED" using assms(1) by (auto simp: evaluate_critic_gate_def Let_def)
  ultimately have "gr_verdict ?g \<in> {V_REJECT, V_RETRY, V_NEEDS_REVIEW}" by (cases "gr_verdict ?g") auto
  moreover have "gr_enforce ?g" using assms(1,2) by (auto simp: evaluate_critic_gate_def Let_def)
  moreover have "da_id a \<in> set (gr_rejected ?g)" using v assms(4,5) by blast
  ultimately show ?thesis using assms(3) by (simp add: synthesize_artifacts_def)
qed

text \<open>The verdict of the critic gate: reject or retry exactly if an artifact is rejected, review if one needs it and none is
  rejected, else pass; and it lists exactly the accepted artifacts and exactly those that are rejected or need review.\<close>

lemma critic_verdict_exact:
  fixes st l as
  assumes "lg_gate st"
  defines "g \<equiv> evaluate_critic_gate st l as"
  shows "(gr_verdict g \<in> {V_REJECT, V_RETRY} \<longleftrightarrow> (\<exists>a \<in> set as. da_status a = A_REJECTED)) \<and>
    (gr_verdict g = V_RETRY \<longleftrightarrow> gr_retry g \<noteq> []) \<and>
    (gr_verdict g = V_NEEDS_REVIEW \<longleftrightarrow> (\<exists>a \<in> set as. da_status a = A_NEEDS_REVIEW) \<and> \<not> (\<exists>a \<in> set as. da_status a = A_REJECTED)) \<and>
    (gr_verdict g = V_PASS \<longleftrightarrow> \<not> (\<exists>a \<in> set as. da_status a \<in> {A_REJECTED, A_NEEDS_REVIEW})) \<and>
    gr_accepted g = map da_id (filter (\<lambda>a. da_status a = A_ACCEPTED) as) \<and>
    set (gr_rejected g) = da_id ` {a \<in> set as. da_status a \<in> {A_REJECTED, A_NEEDS_REVIEW}}"
  unfolding g_def by (rule critic_verdict [OF assms(1)])

text \<open>With the gate enforced, one rejected or doubtful artifact blocks the synthesis: nothing is accepted, and every
  such artifact is listed as skipped.\<close>

lemma enforced_gate_blocks:
  assumes "lg_gate st" "lg_enforce st" "lg_synthesis st" "a \<in> set as" "da_status a \<in> {A_REJECTED, A_NEEDS_REVIEW}"
  shows "sy_blocked (synthesize_artifacts st as (Some (evaluate_critic_gate st l as)) fresh) \<and>
    sy_accepted (synthesize_artifacts st as (Some (evaluate_critic_gate st l as)) fresh) = [] \<and>
    da_id a \<in> set (sy_skipped (synthesize_artifacts st as (Some (evaluate_critic_gate st l as)) fresh))"
  by (rule enforced_gate_blocks_lemma [OF assms])

text \<open>A synthesis that is not blocked takes exactly the accepted artifacts that are not verdicts of a critic, and skips
  all others.\<close>

lemma synthesis_partition:
  assumes "lg_synthesis st" "\<not> sy_blocked (synthesize_artifacts st as gate fresh)"
  defines "used \<equiv> \<lambda>a. da_status a = A_ACCEPTED \<and> da_kind a \<noteq> ''critic_verdict''"
  shows "sy_accepted (synthesize_artifacts st as gate fresh) = map da_id (filter used as) \<and>
    sy_skipped (synthesize_artifacts st as gate fresh) = map da_id (filter (\<lambda>a. \<not> used a) as)"
proof -
  have "synthesize_artifacts st as gate fresh = synthesized as fresh"
    using assms(1,2) by (auto simp: synthesize_artifacts_def split: option.splits if_splits)
  moreover have "filter (\<lambda>a. a \<notin> set (accepted_artifacts as)) as = filter (\<lambda>a. \<not> used a) as"
    by (intro filter_cong) (auto simp: accepted_artifacts_def used_def)
  ultimately show ?thesis by (simp add: synthesized_def Let_def accepted_artifacts_def used_def)
qed

section \<open>Retries\<close>

lemma apply_retry_tasks:
  assumes "tl_enabled l" "gr_retry g \<noteq> []"
  shows "tl_tasks (apply_critic_retry_tasks l g now) =
    concat (map (\<lambda>t. if retried (gr_retry g) t then [t\<lparr>tn_status := T_REJECTED\<rparr>, retry_node t] else [t]) (tl_tasks l))"
  using assms by (simp add: apply_critic_retry_tasks_def Let_def)

lemma retry_nodes_ids:
  "set (map tn_id (concat (map (\<lambda>t. if retried R t then [t\<lparr>tn_status := T_REJECTED\<rparr>, retry_node t] else [t]) ts))) =
    tn_id ` set ts \<union> (\<lambda>t. tn_id t @ ''-retry-1'') ` {t \<in> set ts. retried R t}"
  by (induction ts) (auto simp: retry_node_def)

lemma retry_nodes_distinct:
  assumes "distinct (map tn_id ts)" "\<And>t. t \<in> set ts \<Longrightarrow> retried R t \<Longrightarrow> tn_id t @ ''-retry-1'' \<notin> ids" "tn_id ` set ts \<subseteq> ids"
  shows "distinct (map tn_id (concat (map (\<lambda>t. if retried R t then [t\<lparr>tn_status := T_REJECTED\<rparr>, retry_node t] else [t]) ts)))"
  using assms
proof (induction ts)
  case (Cons t ts)
  have IH: "distinct (map tn_id (concat (map (\<lambda>t. if retried R t then [t\<lparr>tn_status := T_REJECTED\<rparr>, retry_node t] else [t]) ts)))"
    using Cons by auto
  let ?S = "tn_id ` set ts \<union> (\<lambda>t. tn_id t @ ''-retry-1'') ` {t \<in> set ts. retried R t}"
  have "tn_id t \<notin> ?S" using Cons.prems by (auto simp: image_iff)
  moreover have "retried R t \<Longrightarrow> tn_id t @ ''-retry-1'' \<notin> ?S" using Cons.prems by (auto simp: image_iff)
  moreover have "tn_id (retry_node t) = tn_id t @ ''-retry-1''" by (simp add: retry_node_def)
  ultimately show ?case using IH unfolding list.map concat.simps map_append distinct_append retry_nodes_ids
    by (cases "retried R t") auto
qed simp

text \<open>Applying the retries of a gate adds exactly one task per retried task, below it and with the same role and criteria;
  a task that was retried before is not retried again, and the ids stay distinct unless one is already taken.\<close>

lemma retries_exact:
  assumes "tl_enabled l" "gr_retry g \<noteq> []" "distinct (map tn_id (tl_tasks l))"
    "\<forall>t \<in> set (tl_tasks l). retried (gr_retry g) t \<longrightarrow> tn_id t @ ''-retry-1'' \<notin> tn_id ` set (tl_tasks l)"
  shows "distinct (map tn_id (tl_tasks (apply_critic_retry_tasks l g now))) \<and>
    length (tl_tasks (apply_critic_retry_tasks l g now)) = length (tl_tasks l) + length (filter (retried (gr_retry g)) (tl_tasks l)) \<and>
    (\<forall>n \<in> set (tl_tasks (apply_critic_retry_tasks l g now)). n \<in> set (tl_tasks l) \<and> \<not> retried (gr_retry g) n \<or>
       (\<exists>t \<in> set (tl_tasks l). retried (gr_retry g) t \<and> (n = t\<lparr>tn_status := T_REJECTED\<rparr> \<or>
          tn_parent n = Some (tn_id t) \<and> tn_role n = tn_role t \<and> tn_criteria n = tn_criteria t \<and> tn_retries n = tn_retries t + 1)))"
proof -
  note a = apply_retry_tasks [OF assms(1,2), of now]
  have "distinct (map tn_id (tl_tasks (apply_critic_retry_tasks l g now)))"
    unfolding a using assms(3,4) by (intro retry_nodes_distinct [where ids = "tn_id ` set (tl_tasks l)"]) auto
  moreover have "length (concat (map (\<lambda>t. if retried R t then [t\<lparr>tn_status := T_REJECTED\<rparr>, retry_node t] else [t]) ts)) =
      length ts + length (filter (retried R) ts)" for R ts by (induction ts) auto
  ultimately show ?thesis unfolding a by (auto simp: retry_node_def split: if_splits)
qed

text \<open>The retry count is kept by the new task only: when the retries of a gate are applied once more, the same task is
  retried again and two tasks have one id.\<close>

lemma second_retry_duplicates_id:
  assumes "tl_enabled l" "t \<in> set (tl_tasks l)" "retried (gr_retry g) t"
  shows "\<not> distinct (map tn_id (tl_tasks (apply_critic_retry_tasks (apply_critic_retry_tasks l g now) g now')))"
proof -
  have r: "gr_retry g \<noteq> []" using assms(3) by (auto simp: retried_def)
  let ?f = "\<lambda>ts. concat (map (\<lambda>t. if retried (gr_retry g) t then [t\<lparr>tn_status := T_REJECTED\<rparr>, retry_node t] else [t]) ts)"
  obtain xs ys where xy: "tl_tasks l = xs @ t # ys" using assms(2) by (auto dest: split_list)
  have e: "tl_enabled (apply_critic_retry_tasks l g now)" using assms(1) r by (simp add: apply_critic_retry_tasks_def Let_def)
  let ?t' = "t\<lparr>tn_status := T_REJECTED\<rparr>"
  have t': "retried (gr_retry g) ?t'" "tn_id (retry_node ?t') = tn_id t @ ''-retry-1''" "tn_id (retry_node t) = tn_id t @ ''-retry-1''"
    using assms(3) by (simp_all add: retried_def retry_node_def)
  have "tl_tasks (apply_critic_retry_tasks (apply_critic_retry_tasks l g now) g now') =
      ?f (?f xs) @ [?t'\<lparr>tn_status := T_REJECTED\<rparr>, retry_node ?t'] @ ?f [retry_node t] @ ?f (?f ys)"
    using assms(3) t'(1) by (simp add: apply_retry_tasks [OF e r] apply_retry_tasks [OF assms(1) r] xy)
  moreover have "retry_node t \<in> set (?f [retry_node t]) \<or> (retry_node t)\<lparr>tn_status := T_REJECTED\<rparr> \<in> set (?f [retry_node t])" by auto
  then have "tn_id t @ ''-retry-1'' \<in> tn_id ` set (?f [retry_node t])" using t'(3) by (auto simp: image_iff)
  ultimately show ?thesis using t'(2) by auto
qed

end
