(* ===== verification/DelegationReview.thy ===== *)
theory DelegationReview
  imports TaskLedger
begin

text \<open>
  The turn of the delegation runtime (\<open>engine/graph/governance_nodes.py\<close>): the results of the runs are merged
  to the plan, and the ledger, its artifacts, the gate, the retries and the synthesis follow one another; then failure
  records, the review queue and the repair preview of \<open>delegation/delegation_repair.py\<close>.
\<close>

section \<open>Dumps\<close>

definition run_status_value :: "run_status \<Rightarrow> string" where
  "run_status_value s = (case s of PLANNED \<Rightarrow> ''planned'' | RUNNING \<Rightarrow> ''running'' | COMPLETED \<Rightarrow> ''completed'' | FAILED \<Rightarrow> ''failed''
     | SKIPPED \<Rightarrow> ''skipped'' | NEEDS_REVIEW \<Rightarrow> ''needs_review'')"

definition agent_task_dump :: "agent_task \<Rightarrow> (string, pyval) dict" where
  "agent_task_dump t = [(''task_id'', PStr (at_id t)), (''parent_task_id'', opt_value (at_parent t)), (''role'', PStr (role_value (at_role t))),
     (''goal'', PStr (at_goal t)), (''constraints'', texts (at_constraints t)), (''allowed_tools'', texts (at_allowed t)),
     (''memory_scope'', PStr (at_memory_scope t)),
     (''budget'', PDict [(''max_llm_calls'', PInt (bg_llm (at_budget t))), (''max_tool_calls'', PInt (bg_tools (at_budget t))),
       (''max_cost_usd'', PFloat 0)]),
     (''acceptance_criteria'', texts (at_criteria t)), (''max_turns'', PInt (at_max_turns t)), (''timeout_seconds'', PInt (at_timeout t)),
     (''max_depth'', PInt (at_max_depth t)), (''requires_workspace_write'', PBool (at_writes t)), (''requires_network'', PBool (at_network t)),
     (''context_refs'', PList (map PDict (at_refs t))), (''run_isolation_key'', PStr (at_isolation t))] @ workspace_fields (at_workspace t)"

definition artifact_dump :: "agent_artifact \<Rightarrow> (string, pyval) dict" where
  "artifact_dump a = [(''artifact_id'', PStr (aa_id a)), (''kind'', PStr (aa_kind a)), (''title'', PStr (aa_title a)),
     (''summary'', PStr (aa_summary a)), (''payload'', PDict (aa_payload a))]"

definition agent_run_dump :: "agent_run \<Rightarrow> (string, pyval) dict" where
  "agent_run_dump r = [(''run_id'', PStr (ar_id r)), (''task_id'', PStr (ar_task r)), (''role'', PStr (role_value (ar_role r))),
     (''status'', PStr (run_status_value (ar_status r))), (''model_id'', opt_value (ar_model r)), (''started_at'', opt_value (ar_started r)),
     (''finished_at'', opt_value (ar_finished r)), (''tool_calls'', PInt 0), (''cost'', PFloat 0),
     (''artifacts'', PList (map (\<lambda>a. PDict (artifact_dump a)) (ar_artifacts r))), (''error'', opt_value (ar_error r)),
     (''execution_mode'', PStr (mode_value (ar_mode r)))]"

definition delegate_decision_dump :: "delegate_decision \<Rightarrow> (string, pyval) dict" where
  "delegate_decision_dump d = [(''decision_id'', PStr (dd_id d)), (''kind'', PStr ''delegate''), (''role'', PStr (role_value (dd_role d))),
     (''task_id'', PStr (dd_task d)), (''rationale'', PStr (dd_rationale d)), (''payload'', PDict (dd_payload d))]"

definition delegation_plan_dump :: "delegation_plan \<Rightarrow> (string, pyval) dict" where
  "delegation_plan_dump p = [(''enabled'', PBool (dp_enabled p)), (''enforce'', PBool (dp_enforce p)),
     (''execution_mode'', PStr (mode_value (dp_mode p))), (''source'', PStr (dp_source p)), (''route_reason'', PStr (dp_reason p)),
     (''max_parallel_runs'', PInt (dp_max_parallel p)), (''tasks'', PList (map (\<lambda>t. PDict (agent_task_dump t)) (dp_tasks p))),
     (''runs'', PList (map (\<lambda>r. PDict (agent_run_dump r)) (dp_runs p))),
     (''decisions'', PList (map (\<lambda>d. PDict (delegate_decision_dump d)) (dp_decisions p))),
     (''legacy_execution_unchanged'', PBool (dp_legacy p)), (''skipped_reason'', PStr (dp_skipped p))]"

section \<open>The turn\<close>

text \<open>\<open>{result.task_id: result for result in run_results}\<close>: the last result of a task counts.\<close>

definition merge_runs :: "subagent_result list \<Rightarrow> agent_run list \<Rightarrow> agent_run list" where
  "merge_runs results runs = map (\<lambda>run. case map_of (rev (map (\<lambda>r. (sr_task r, r)) results)) (ar_task run) of
     None \<Rightarrow> run | Some r \<Rightarrow> to_agent_run r) runs"

definition execute_plan :: "(nat list \<Rightarrow> nat) \<Rightarrow> model_env \<Rightarrow> string \<Rightarrow> (string option \<Rightarrow> string) \<Rightarrow> delegation_settings \<Rightarrow>
    (string, pyval) dict list \<Rightarrow> delegation_plan \<Rightarrow> delegation_plan" where
  "execute_plan pick M now canonical st refs p = (let results = run_delegated_tasks pick M now (registry_from_settings canonical st refs)
       (executor_for_mode (dp_mode p)) (dp_tasks p) (dp_max_parallel p)
     in if results = [] then p else p\<lparr>dp_runs := merge_runs results (dp_runs p)\<rparr>)"

record turn_inputs =
  ti_memory :: "(string, pyval) dict"
  ti_tool_route :: "(string, pyval) dict"
  ti_refs :: "(string, pyval) dict list"
  ti_fresh :: "nat \<Rightarrow> string"
  ti_now :: string

text \<open>The ledger is dumped before the artifacts are built, so the ids they note stay in the copy.\<close>

definition govern_ledger :: "ledger_env \<Rightarrow> ledger_settings \<Rightarrow> turn_inputs \<Rightarrow> (string, pyval) dict \<Rightarrow>
    py_error + task_ledger \<times> delegated_artifact list \<times> gate_result option \<times> synthesis_result option" where
  "govern_ledger E st ti plan =
    bind_ok (build_task_ledger (le_str E) st (ti_now ti) (Some plan)) (\<lambda>l.
    bind_ok (build_delegated_artifacts E l (Some plan) (ti_memory ti) (ti_tool_route ti) (ti_refs ti) (ti_fresh ti 0) (ti_fresh ti 1)) (\<lambda>(as, _).
      let gate = (if lg_gate st then Some (evaluate_critic_gate st l as) else None);
          l' = (case gate of None \<Rightarrow> l | Some g \<Rightarrow> apply_critic_retry_tasks l g (ti_now ti));
          synth = (if lg_synthesis st then Some (synthesize_artifacts st as gate (ti_fresh ti 2)) else None)
      in Inr (l', as, gate, synth)))"

section \<open>Failures and reviews\<close>

datatype failure_type = TOOL_DENIED | CRITIC_REJECTED

definition failure_value :: "failure_type \<Rightarrow> string" where
  "failure_value f = (case f of TOOL_DENIED \<Rightarrow> ''tool_denied'' | CRITIC_REJECTED \<Rightarrow> ''critic_rejected'')"

record failure_record =
  fr_id :: string
  fr_type :: failure_type
  fr_role :: agent_role
  fr_task :: pyval
  fr_route :: "(string, pyval) dict"
  fr_model :: pyval
  fr_trajectory :: "string option"
  fr_message :: string

definition first_task_id :: "(string, pyval) dict option \<Rightarrow> pyval" where
  "first_task_id plan = (case plan of None \<Rightarrow> PNone | Some p \<Rightarrow> (case dict_value p ''tasks'' of
     PList (PDict d # _) \<Rightarrow> dict_value d ''task_id'' | _ \<Rightarrow> PNone))"

definition role_or :: "(pyval \<Rightarrow> string) \<Rightarrow> pyval \<Rightarrow> agent_role \<Rightarrow> py_error + agent_role" where
  "role_or str_of v r = normalize_agent_role (text_or str_of v (role_value r))"

definition denied_record :: "(pyval \<Rightarrow> string) \<Rightarrow> string \<Rightarrow> (string, pyval) dict option \<Rightarrow> (string, pyval) dict \<Rightarrow> (string, pyval) dict \<Rightarrow>
    string option \<Rightarrow> py_error + failure_record list" where
  "denied_record str_of fresh plan route model trajectory =
    (if \<not> truthy (dict_value route ''denied_tools'') then Inr []
     else bind_ok (role_or str_of (dict_value route ''role'') EXECUTOR) (\<lambda>role.
       bind_ok (py_len (dict_value route ''denied_tools'')) (\<lambda>n.
       Inr [\<lparr>fr_id = ''failure-'' @ fresh, fr_type = TOOL_DENIED, fr_role = role, fr_task = first_task_id plan, fr_route = route,
             fr_model = dict_value model ''effective_model'', fr_trajectory = trajectory,
             fr_message = ''Tool Router denied '' @ show_nat n @ '' tool(s).''\<rparr>])))"

definition failed_run_record :: "(pyval \<Rightarrow> string) \<Rightarrow> string \<Rightarrow> (string, pyval) dict \<Rightarrow> string option \<Rightarrow> (string, pyval) dict \<Rightarrow>
    py_error + failure_record" where
  "failed_run_record str_of fresh route trajectory raw = bind_ok (role_or str_of (dict_value raw ''role'') CRITIC) (\<lambda>role.
     Inr \<lparr>fr_id = ''failure-'' @ fresh, fr_type = CRITIC_REJECTED, fr_role = role, fr_task = dict_value raw ''task_id'', fr_route = route,
          fr_model = dict_value raw ''model_id'', fr_trajectory = trajectory,
          fr_message = text_or str_of (dict_value raw ''error'') ''Delegated run failed.''\<rparr>)"

definition build_failure_records :: "(pyval \<Rightarrow> string) \<Rightarrow> (nat \<Rightarrow> string) \<Rightarrow> (string, pyval) dict option \<Rightarrow> (string, pyval) dict \<Rightarrow>
    (string, pyval) dict \<Rightarrow> string option \<Rightarrow> py_error + failure_record list" where
  "build_failure_records str_of fresh plan route model trajectory =
    bind_ok (denied_record str_of (fresh 0) plan route model trajectory) (\<lambda>denied.
    bind_ok (case plan of None \<Rightarrow> Inr [] | Some p \<Rightarrow> plan_items p ''runs'') (\<lambda>vs.
    bind_ok (map_ok (\<lambda>(i, raw). failed_run_record str_of (fresh (i + 1)) route trajectory raw)
        (enumerate 0 (filter (\<lambda>raw. dict_value raw ''status'' = PStr ''failed'') (dicts_of vs)))) (\<lambda>failed.
      Inr (denied @ failed))))"

datatype review_status = R_PENDING | R_APPROVED | R_REJECTED

record review_item =
  ri_id :: string
  ri_type :: string
  ri_status :: review_status
  ri_role :: "agent_role option"
  ri_task :: pyval
  ri_summary :: string
  ri_payload :: "(string, pyval) dict"

definition new_review :: "string \<Rightarrow> string \<Rightarrow> agent_role \<Rightarrow> pyval \<Rightarrow> string \<Rightarrow> (string, pyval) dict \<Rightarrow> review_item" where
  "new_review fresh kind role task summary payload = \<lparr>ri_id = ''review-'' @ fresh, ri_type = kind, ri_status = R_PENDING, ri_role = Some role,
     ri_task = task, ri_summary = summary, ri_payload = payload\<rparr>"

definition memory_review :: "string \<Rightarrow> (string, pyval) dict \<Rightarrow> review_item list" where
  "memory_review fresh d = (if truthy (dict_value d ''conflicts'') then [new_review fresh ''memory_promotion_conflict'' MEMORY_CURATOR PNone
     ''Memory Curator found semantic conflicts before promotion.'' d] else [])"

definition tool_review :: "(pyval \<Rightarrow> string) \<Rightarrow> string \<Rightarrow> (string, pyval) dict \<Rightarrow> py_error + review_item list" where
  "tool_review str_of fresh route = bind_ok (items_or_none (dict_value route ''denied_tools'')) (\<lambda>vs.
     if shares (map (py_str str_of) vs) [''write_text_artifact'', ''artifact_update'']
     then bind_ok (role_or str_of (dict_value route ''role'') EXECUTOR) (\<lambda>role. Inr [new_review fresh ''workspace_write_with_high_risk_tool'' role PNone
       ''Workspace write was denied by Tool Router and requires review.'' route])
     else Inr [])"

definition model_review :: "(pyval \<Rightarrow> string) \<Rightarrow> string \<Rightarrow> (string, pyval) dict \<Rightarrow> py_error + review_item list" where
  "model_review str_of fresh d =
    (if truthy (dict_value d ''enabled'') \<and> dict_value d ''mode'' = PStr ''enforce'' \<and>
        dict_value d ''selected_model'' \<noteq> dict_value d ''effective_model''
     then bind_ok (role_or str_of (dict_value d ''role'') EXECUTOR) (\<lambda>role. Inr [new_review fresh ''model_router_enforce_override'' role PNone
       ''Model Router changed the effective model under enforce mode.'' d])
     else Inr [])"

definition failure_review :: "(pyval \<Rightarrow> string) \<Rightarrow> string \<Rightarrow> (string, pyval) dict \<Rightarrow> py_error + review_item" where
  "failure_review str_of fresh raw = bind_ok (role_or str_of (dict_value raw ''failed_role'') CRITIC) (\<lambda>role.
     Inr (new_review fresh ''critic_rejected_continue_request'' role (dict_value raw ''failed_task_id'')
       (text_or str_of (dict_value raw ''message'') ''Critic rejected a delegated run.'') raw))"

definition build_review_queue :: "(pyval \<Rightarrow> string) \<Rightarrow> (nat \<Rightarrow> string) \<Rightarrow> bool \<Rightarrow> (string, pyval) dict \<Rightarrow> (string, pyval) dict \<Rightarrow>
    (string, pyval) dict \<Rightarrow> (string, pyval) dict list \<Rightarrow> py_error + review_item list" where
  "build_review_queue str_of fresh enabled memory route model failures =
    (if \<not> enabled then Inr []
     else bind_ok (tool_review str_of (fresh 1) route) (\<lambda>t. bind_ok (model_review str_of (fresh 2) model) (\<lambda>m.
       bind_ok (map_ok (\<lambda>(i, raw). failure_review str_of (fresh (i + 3)) raw)
           (enumerate 0 (filter (\<lambda>raw. dict_value raw ''failure_type'' = PStr ''critic_rejected'') failures))) (\<lambda>fs.
         Inr (memory_review (fresh 0) memory @ t @ m @ fs)))))"

definition apply_review_decision :: "review_item \<Rightarrow> bool \<Rightarrow> review_item" where
  "apply_review_decision item approved = item\<lparr>ri_status := (if approved then R_APPROVED else R_REJECTED)\<rparr>"

record repair_candidate =
  rc_id :: string
  rc_tags :: "string list"
  rc_message :: string
  rc_state :: failure_record
  rc_answers :: "string list"
  rc_forbidden :: "string list"

definition repair_candidate_of :: "string \<Rightarrow> nat \<times> failure_record \<Rightarrow> repair_candidate" where
  "repair_candidate_of prefix p = (case p of (i, f) \<Rightarrow>
     \<lparr>rc_id = prefix @ ''_'' @ failure_value (fr_type f) @ ''_'' @ show_nat (i + 1),
      rc_tags = [''agent_delegation'', ''self_repair'', failure_value (fr_type f)],
      rc_message = (if fr_message f \<noteq> [] then fr_message f else ''Replay failed delegated agent behavior.''), rc_state = f,
      rc_answers = [failure_value (fr_type f), role_value (fr_role f), ''retry'', ''denied''],
      rc_forbidden = (if fr_type f = TOOL_DENIED then [''web_search'', ''web_fetch''] else [])\<rparr>)"

definition build_self_repair_preview :: "string \<Rightarrow> failure_record list \<Rightarrow> repair_candidate list" where
  "build_self_repair_preview prefix fs = map (repair_candidate_of prefix) (enumerate 0 fs)"

section \<open>Lemmas\<close>

lemma dict_value_simps [simp]:
  "dict_value ((k, v) # d) k' = (if k = k' then v else dict_value d k')" "dict_value [] k = PNone"
  by (simp_all add: dict_value_def get_or_def)

lemma dicts_of_map [simp]: "dicts_of (map (\<lambda>x. PDict (f x)) xs) = map f xs"
  by (induction xs) (simp_all add: dicts_of_def)

lemma items_or_none_PList [simp]: "items_or_none (PList vs) = Inr vs"
  by (cases vs) (simp_all add: items_or_none_def iter_values_def)

lemma merge_runs_tasks: "map ar_task (merge_runs results runs) = map ar_task runs"
  by (auto simp: merge_runs_def to_agent_run_def dest!: map_of_SomeD split: option.split)

lemma merge_runs_result:
  assumes "distinct (map sr_task results)" "r \<in> set results" "i < length runs" "ar_task (runs ! i) = sr_task r"
  shows "merge_runs results runs ! i = to_agent_run r"
proof -
  have "map_of (rev (map (\<lambda>r. (sr_task r, r)) results)) (sr_task r) = Some r"
    using assms(1,2) by (intro map_of_is_SomeI) (auto simp: rev_map [symmetric] comp_def)
  then show ?thesis using assms(3,4) by (simp add: merge_runs_def)
qed

text \<open>After a plan was executed, by whichever executor and in whatever order, the run of every task that reaches an executor
  shows what became of it, and runs and tasks still correspond; with delegation only observed nothing changes.\<close>

lemma executed_plan_records_results:
  fixes pick M now refs
  assumes "build_delegation_plan str_of canonical st task_text route available tool_policy = Inr p"
  defines "q \<equiv> execute_plan pick M now canonical st refs p" and "reg \<equiv> registry_from_settings canonical st refs"
  shows "map ar_task (dp_runs q) = map at_id (dp_tasks p) \<and> dp_tasks q = dp_tasks p \<and>
    (executor_for_mode (dp_mode p) = None \<longrightarrow> q = p) \<and>
    (\<forall>i < length (dp_tasks p). \<forall>x. executor_for_mode (dp_mode p) = Some x \<longrightarrow>
       dp_runs q ! i = to_agent_run (task_outcome (\<lambda>t c. Inr (execute M now x t c)) (executor_mode x) now reg (dp_tasks p ! i)))"
proof -
  note w = delegation_plan_facts [OF assms(1)]
  have lr: "length (dp_runs p) = length (dp_tasks p)" using w(2) by (metis length_map)
  show ?thesis
  proof (cases "executor_for_mode (dp_mode p)")
    case None
    then have "q = p" by (simp add: q_def execute_plan_def run_delegated_tasks_def Let_def)
    then show ?thesis using None w by simp
  next
    case (Some x)
    let ?o = "task_outcome (\<lambda>t c. Inr (execute M now x t c)) (executor_mode x) now reg"
    have o: "sr_task (?o t) = at_id t" for t
      by (auto simp: task_outcome_def result_or_failed_def dest: preflight_result_task split: option.split)
    have r: "run_delegated_tasks pick M now reg (executor_for_mode (dp_mode p)) (dp_tasks p) n = map ?o (dp_tasks p)" for n
      by (simp add: Some run_delegated_outcomes)
    have q: "dp_runs q = merge_runs (map ?o (dp_tasks p)) (dp_runs p)" "dp_tasks q = dp_tasks p"
      using lr by (auto simp: q_def execute_plan_def r [unfolded reg_def] reg_def Let_def merge_runs_def)
    have dist: "distinct (map sr_task (map ?o (dp_tasks p)))" using w(1) by (simp add: o comp_def)
    have "dp_runs q ! i = to_agent_run (?o (dp_tasks p ! i))" if "i < length (dp_tasks p)" for i
    proof -
      have "map ar_task (dp_runs p) ! i = map at_id (dp_tasks p) ! i" using w(2) by simp
      then have "ar_task (dp_runs p ! i) = sr_task (?o (dp_tasks p ! i))" using that lr by (simp add: o)
      moreover have "?o (dp_tasks p ! i) \<in> set (map ?o (dp_tasks p))" using that by simp
      ultimately show ?thesis unfolding q(1) using that lr by (intro merge_runs_result [OF dist]) auto
    qed
    then show ?thesis using Some q merge_runs_tasks w(2) by auto
  qed
qed

section \<open>From the plan to the synthesis\<close>

lemma executed_plan_facts:
  assumes "build_delegation_plan str_of canonical st task_text route available tool_policy = Inr p"
    and "q = execute_plan pick M now canonical st' refs p"
  shows "map ar_task (dp_runs q) = map at_id (dp_tasks q)" "distinct (map at_id (dp_tasks q))" "\<forall>t \<in> set (dp_tasks q). at_id t \<noteq> []"
proof -
  have "dp_tasks q = dp_tasks p" by (auto simp: assms(2) execute_plan_def Let_def)
  moreover have "map ar_task (dp_runs q) = map ar_task (dp_runs p)"
    by (auto simp: assms(2) execute_plan_def Let_def merge_runs_tasks)
  moreover have "\<forall>t \<in> set (dp_tasks p). at_id t \<noteq> []"
  proof (cases "dp_tasks p = []")
    case False
    then obtain raws where r: "planned_tasks str_of task_text raws = Inr (dp_tasks p)"
      using assms(1) by (auto simp: build_delegation_plan_def bind_ok_Inr_iff Let_def split: if_splits)
    show ?thesis
    proof
      fix t assume "t \<in> set (dp_tasks p)"
      then obtain i where "i < length (dp_tasks p)" "t = dp_tasks p ! i" by (auto simp: in_set_conv_nth)
      then have "planned_task str_of task_text i (raws ! i) = Inr t" using planned_tasks_nth [OF r] by simp
      then show "at_id t \<noteq> []" by (simp add: planned_task_fields(1) plan_task_id_def)
    qed
  qed simp
  ultimately show "map ar_task (dp_runs q) = map at_id (dp_tasks q)" "distinct (map at_id (dp_tasks q))"
      "\<forall>t \<in> set (dp_tasks q). at_id t \<noteq> []"
    using delegation_plan_facts [OF assms(1)] by simp_all
qed

lemma runs_of_dump:
  assumes "distinct (map ar_task (dp_runs q))" "\<forall>r \<in> set (dp_runs q). ar_task r \<noteq> []"
  shows "runs_by_task str_of (Some (delegation_plan_dump q)) = Inr (map (\<lambda>r. (ar_task r, agent_run_dump r)) (dp_runs q))"
proof -
  have d: "dict_value (agent_run_dump r) ''task_id'' = PStr (ar_task r)" for r by (simp add: agent_run_dump_def)
  have "dict_value (delegation_plan_dump q) ''runs'' = PList (map (\<lambda>r. PDict (agent_run_dump r)) (dp_runs q))"
    by (simp add: delegation_plan_dump_def)
  moreover have "filter (\<lambda>raw. truthy (dict_value raw ''task_id'')) (map agent_run_dump (dp_runs q)) = map agent_run_dump (dp_runs q)"
    using assms(2) by (auto simp: d intro!: filter_True)
  moreover have "foldl (\<lambda>d raw. AList.update (py_str str_of (dict_value raw ''task_id'')) raw d) [] (map agent_run_dump (dp_runs q)) =
      map (\<lambda>r. (ar_task r, agent_run_dump r)) (dp_runs q)"
    using foldl_update_new [of "\<lambda>raw. py_str str_of (dict_value raw ''task_id'')" "map agent_run_dump (dp_runs q)" "[]" "\<lambda>x. x"] assms(1)
    by (simp add: comp_def d)
  ultimately show ?thesis by (simp add: runs_by_task_def plan_items_def)
qed

lemma enumerate_map_eq: "enumerate n (map f xs) = map (\<lambda>(i, x). (i, f x)) (enumerate n xs)"
  by (simp add: enumerate_eq_zip zip_map2 case_prod_beta map_prod_def prod.case_eq_if)

lemma ledger_node_id:
  "ledger_node str_of plan i raw = Inr n \<Longrightarrow> tn_id n = text_or str_of (dict_value raw ''task_id'') (plan_task_id i (tn_role n))"
  by (auto simp: ledger_node_def bind_ok_Inr_iff Let_def)

lemma ledger_of_dump:
  assumes "build_task_ledger str_of st now (Some (delegation_plan_dump q)) = Inr l" "lg_enabled st" "dp_tasks q \<noteq> []"
    "\<forall>t \<in> set (dp_tasks q). at_id t \<noteq> []"
  shows "tl_enabled l \<and> map tn_id (tl_tasks l) = map at_id (dp_tasks q)"
proof -
  let ?d = "\<lambda>t. PDict (agent_task_dump t)"
  have "dict_value (delegation_plan_dump q) ''tasks'' = PList (map ?d (dp_tasks q))" by (simp add: delegation_plan_dump_def)
  moreover have "indexed_dicts (map ?d ts) = map (\<lambda>(i, t). (i, agent_task_dump t)) (enumerate 0 ts)" for ts
    unfolding indexed_dicts_def enumerate_map_eq map_map comp_def case_prod_beta by (simp add: concat_map_singleton)
  ultimately obtain nodes where n: "map_ok (\<lambda>(i, raw). ledger_node str_of (Some (delegation_plan_dump q)) i raw)
      (map (\<lambda>(i, t). (i, agent_task_dump t)) (enumerate 0 (dp_tasks q))) = Inr nodes"
    and l: "tl_enabled l" "tl_tasks l = (if nodes = [] then [default_node] else nodes)"
    using assms(1,2) by (auto simp: build_task_ledger_def bind_ok_Inr_iff Let_def)
  have a: "list_all2 (\<lambda>x y. (case x of (i, raw) \<Rightarrow> ledger_node str_of (Some (delegation_plan_dump q)) i raw) = Inr y)
      (map (\<lambda>(i, t). (i, agent_task_dump t)) (enumerate 0 (dp_tasks q))) nodes"
    using n unfolding map_ok_Inr_iff .
  have len: "length nodes = length (dp_tasks q)" using list_all2_lengthD [OF a] by simp
  have "tn_id (nodes ! i) = at_id (dp_tasks q ! i)" if "i < length (dp_tasks q)" for i
  proof -
    have "ledger_node str_of (Some (delegation_plan_dump q)) i (agent_task_dump (dp_tasks q ! i)) = Inr (nodes ! i)"
      using list_all2_nthD [OF a, of i] that by (simp add: nth_enumerate_eq)
    then have "tn_id (nodes ! i) = text_or str_of (PStr (at_id (dp_tasks q ! i))) (plan_task_id i (tn_role (nodes ! i)))"
      by (simp add: ledger_node_id agent_task_dump_def)
    moreover have "at_id (dp_tasks q ! i) \<noteq> []" using assms(4) that by simp
    ultimately show ?thesis by (simp add: text_or_def)
  qed
  then have "map tn_id nodes = map at_id (dp_tasks q)" using len by (intro nth_equalityI) auto
  moreover have "nodes \<noteq> []" using len assms(3) by auto
  ultimately show ?thesis using l by simp
qed

lemma task_artifact_status:
  "task_artifact E runs t = Inr a \<Longrightarrow> da_status a = artifact_status_for_run (le_str E) (get_or runs (tn_id t) [])"
  by (auto simp: task_artifact_def bind_ok_Inr_iff Let_def)

text \<open>C37: From the plan of a turn over its runs to the synthesis: with ledger, gate and synthesis on and the gate enforced, one
  delegated run that failed, or needs review, blocks the synthesis, and no artifact of the turn is accepted.\<close>

theorem failed_run_blocks_turn:
  assumes plan: "build_delegation_plan str_of canonical st task_text route available tool_policy = Inr p"
    and q: "q = execute_plan pick M now canonical st refs p"
    and run: "r \<in> set (dp_runs q)" "ar_status r \<in> {FAILED, NEEDS_REVIEW}"
    and on: "lg_enabled ls" "lg_gate ls" "lg_enforce ls" "lg_synthesis ls"
    and turn: "govern_ledger E ls ti (delegation_plan_dump q) = Inr (l, as, g, s)"
  shows "\<exists>sy. s = Some sy \<and> sy_blocked sy \<and> sy_accepted sy = []"
proof -
  note f = executed_plan_facts [OF plan q]
  have "ar_task r \<in> set (map at_id (dp_tasks q))" using run(1) f(1) by (metis image_eqI set_map)
  then obtain t where t: "t \<in> set (dp_tasks q)" "at_id t = ar_task r" by auto
  have ids: "distinct (map ar_task (dp_runs q))" "\<forall>r \<in> set (dp_runs q). ar_task r \<noteq> []"
    using f by (metis, metis (no_types, lifting) image_iff set_map)
  obtain l0 as' l1 where l0: "build_task_ledger (le_str E) ls (ti_now ti) (Some (delegation_plan_dump q)) = Inr l0"
    and b: "build_delegated_artifacts E l0 (Some (delegation_plan_dump q)) (ti_memory ti) (ti_tool_route ti) (ti_refs ti) (ti_fresh ti 0)
      (ti_fresh ti 1) = Inr (as', l1)"
    and s: "as = as'" "s = Some (synthesize_artifacts ls as' (Some (evaluate_critic_gate ls l0 as')) (ti_fresh ti 2))"
    using turn on by (auto simp: govern_ledger_def bind_ok_Inr_iff Let_def)
  have l: "tl_enabled l0" "map tn_id (tl_tasks l0) = map at_id (dp_tasks q)"
  proof -
    have "dp_tasks q \<noteq> []" using t(1) by auto
    from ledger_of_dump [OF l0 on(1) this f(3)] show "tl_enabled l0" "map tn_id (tl_tasks l0) = map at_id (dp_tasks q)" by blast+
  qed
  have "ar_task r \<in> set (map tn_id (tl_tasks l0))" using l(2) t by (metis image_eqI set_map)
  then obtain n where n: "n \<in> set (tl_tasks l0)" "tn_id n = ar_task r" by auto
  obtain made where m: "map_ok (task_artifact E (map (\<lambda>r. (ar_task r, agent_run_dump r)) (dp_runs q))) (tl_tasks l0) = Inr made"
    "set made \<subseteq> set as'"
    using b l(1) by (auto simp: build_delegated_artifacts_def runs_of_dump [OF ids] bind_ok_Inr_iff)
  obtain i where i: "i < length (tl_tasks l0)" "tl_tasks l0 ! i = n" using n(1) by (auto simp: in_set_conv_nth)
  have a2: "list_all2 (\<lambda>x y. task_artifact E (map (\<lambda>r. (ar_task r, agent_run_dump r)) (dp_runs q)) x = Inr y) (tl_tasks l0) made"
    using m(1) unfolding map_ok_Inr_iff .
  have a: "made ! i \<in> set as'" "task_artifact E (map (\<lambda>r. (ar_task r, agent_run_dump r)) (dp_runs q)) n = Inr (made ! i)"
    using list_all2_nthD [OF a2 i(1)] list_all2_lengthD [OF a2] i m(2) by auto
  have "map_of (map (\<lambda>r. (ar_task r, agent_run_dump r)) (dp_runs q)) (ar_task r) = Some (agent_run_dump r)"
    using ids(1) run(1) by (intro map_of_is_SomeI) (auto simp: comp_def)
  then have "get_or (map (\<lambda>r. (ar_task r, agent_run_dump r)) (dp_runs q)) (tn_id n) [] = agent_run_dump r"
    by (simp add: get_or_def n(2))
  then have "da_status (made ! i) = artifact_status_for_run (le_str E) (agent_run_dump r)" using task_artifact_status [OF a(2)] by simp
  moreover have "dict_value (agent_run_dump r) ''status'' = PStr (run_status_value (ar_status r))" by (simp add: agent_run_dump_def)
  moreover have "py_lower (py_strip ''failed'') = ''failed''" "py_lower (py_strip ''needs_review'') = ''needs_review''" by code_simp+
  ultimately have "da_status (made ! i) \<in> {A_REJECTED, A_NEEDS_REVIEW}"
    using run(2) by (auto simp: artifact_status_for_run_def run_status_value_def Let_def)
  with enforced_gate_blocks_lemma [OF on(2,3,4) a(1), of l0 "ti_fresh ti 2"] show ?thesis using s(2) by blast
qed

section \<open>Failure records and reviews\<close>

text \<open>One record for a denied tool call, and one for every failed run of the plan.\<close>

lemma failure_records_count:
  assumes "build_failure_records str_of fresh (Some plan) route model trajectory = Inr fs" "dict_value plan ''runs'' = PList vs"
  shows "length fs = (if truthy (dict_value route ''denied_tools'') then 1 else 0) +
    length (filter (\<lambda>raw. dict_value raw ''status'' = PStr ''failed'') (dicts_of vs))"
  using assms by (auto simp: build_failure_records_def denied_record_def plan_items_def bind_ok_Inr_iff dest!: map_ok_length split: if_splits)

lemma new_review_pending: "ri_status (new_review fresh kind role task summary payload) = R_PENDING"
  by (simp add: new_review_def)

text \<open>Nothing leaves the queue by itself: every item of a new queue waits for a decision.\<close>

lemma review_queue_pending:
  assumes "build_review_queue str_of fresh enabled memory route model failures = Inr items" "item \<in> set items"
  shows "ri_status item = R_PENDING \<and> enabled"
proof -
  have f: "failure_review str_of fr raw = Inr f \<Longrightarrow> ri_status f = R_PENDING" for fr raw f
    by (auto simp: failure_review_def bind_ok_Inr_iff new_review_pending)
  have "map_ok (\<lambda>(i, raw). failure_review str_of (fresh (i + 3)) raw) xs = Inr fs \<Longrightarrow> f \<in> set fs \<Longrightarrow> ri_status f = R_PENDING" for xs fs f
    by (drule (1) map_ok_Inr_set) (auto dest: f)
  then show ?thesis using assms
    by (auto simp: build_review_queue_def memory_review_def tool_review_def model_review_def bind_ok_Inr_iff new_review_pending split: if_splits)
qed

text \<open>The cases of a repair preview have ids of their own.\<close>

lemma repair_ids_distinct: "distinct (map rc_id (build_self_repair_preview prefix fs))"
proof -
  have "i = j" if "prefix @ ''_'' @ failure_value f @ ''_'' @ show_nat (i + 1) = prefix @ ''_'' @ failure_value g @ ''_'' @ show_nat (j + 1)" for f g i j
  proof -
    have e: "failure_value f @ ''_'' @ show_nat (i + 1) = failure_value g @ ''_'' @ show_nat (j + 1)" using that by simp
    have d: "CHR ''_'' \<notin> set (show_nat n)" for n
    proof
      assume "CHR ''_'' \<in> set (show_nat n)"
      then have "(of_char CHR ''_'' :: nat) \<le> 57" by (rule show_nat_digits [THEN conjunct2])
      then show False by simp
    qed
    have "takeWhile (\<lambda>c. c \<noteq> CHR ''_'') (rev (failure_value h @ ''_'' @ show_nat n)) = rev (show_nat n)" for h n
      using d [of n] by (simp add: takeWhile_append)
    then have "show_nat (i + 1) = show_nat (j + 1)" using e by (metis rev_rev_ident)
    then show "i = j" by simp
  qed
  moreover have "rc_id (repair_candidate_of prefix (enumerate 0 fs ! i)) = prefix @ ''_'' @ failure_value (fr_type (fs ! i)) @ ''_'' @ show_nat (i + 1)"
    if "i < length fs" for i using that by (simp add: nth_enumerate_eq repair_candidate_of_def)
  ultimately show ?thesis unfolding distinct_conv_nth build_self_repair_preview_def length_map length_enumerate
    by (metis length_enumerate length_map nth_map)
qed

section \<open>Witnesses\<close>

definition ex_down :: model_env where
  "ex_down = ex_model\<lparr>me_invoke := \<lambda>m d r p. Inl ''down''\<rparr>"

definition ex_inline :: delegation_settings where
  "ex_inline = ex_dl_settings\<lparr>dl_mode := Some ''inline''\<rparr>"

definition ex_ledger_env :: ledger_env where
  "ex_ledger_env = \<lparr>le_str = \<lambda>v. [], le_artifact = Inr\<rparr>"

definition ex_ledger_settings :: ledger_settings where
  "ex_ledger_settings = \<lparr>lg_enabled = True, lg_synthesis = True, lg_gate = True, lg_enforce = True\<rparr>"

definition ex_turn :: turn_inputs where
  "ex_turn = \<lparr>ti_memory = [], ti_tool_route = [], ti_refs = [], ti_fresh = show_nat, ti_now = ''t''\<rparr>"

definition ex_executed :: "delegation_plan \<Rightarrow> delegation_plan" where
  "ex_executed p = execute_plan hd ex_down ''t'' or_empty ex_inline [] p"

lemma ex_turn_ok:
  "\<exists>p r l as g s. build_delegation_plan (\<lambda>v. []) or_empty ex_inline ''Fix'' None [''git_diff''] [] = Inr p \<and>
     r \<in> set (dp_runs (ex_executed p)) \<and> ar_status r = FAILED \<and>
     govern_ledger ex_ledger_env ex_ledger_settings ex_turn (delegation_plan_dump (ex_executed p)) = Inr (l, as, g, s)"
proof -
  have "(case build_delegation_plan (\<lambda>v. []) or_empty ex_inline ''Fix'' None [''git_diff''] [] of Inl e \<Rightarrow> False | Inr p \<Rightarrow>
     list_ex (\<lambda>r. ar_status r = FAILED) (dp_runs (ex_executed p)) \<and>
     is_ok (govern_ledger ex_ledger_env ex_ledger_settings ex_turn (delegation_plan_dump (ex_executed p))))"
    by code_simp
  then obtain p x where p: "build_delegation_plan (\<lambda>v. []) or_empty ex_inline ''Fix'' None [''git_diff''] [] = Inr p"
    "list_ex (\<lambda>r. ar_status r = FAILED) (dp_runs (ex_executed p))"
    "govern_ledger ex_ledger_env ex_ledger_settings ex_turn (delegation_plan_dump (ex_executed p)) = Inr x"
    by (auto simp: is_ok_def split: sum.splits)
  then show ?thesis by (cases x) (auto simp: list_ex_iff)
qed

theorem executed_plan_records_results_witness:
  "\<exists>p. build_delegation_plan (\<lambda>v. []) or_empty ex_inline ''Fix'' None [''git_diff''] [] = Inr p \<and>
     map ar_task (dp_runs (ex_executed p)) = map at_id (dp_tasks p)"
  using ex_turn_ok executed_plan_records_results [where str_of = "\<lambda>v. []" and canonical = or_empty and st = ex_inline and task_text = "''Fix''"
      and route = None and available = "[''git_diff'']" and tool_policy = "[]" and pick = hd and M = ex_down and now = "''t''" and refs = "[]"]
  unfolding ex_executed_def by blast

theorem failed_run_blocks_turn_witness:
  "\<exists>p l as g sy. build_delegation_plan (\<lambda>v. []) or_empty ex_inline ''Fix'' None [''git_diff''] [] = Inr p \<and>
     govern_ledger ex_ledger_env ex_ledger_settings ex_turn (delegation_plan_dump (ex_executed p)) = Inr (l, as, g, Some sy) \<and>
     sy_blocked sy \<and> sy_accepted sy = []"
proof -
  obtain p r l as g s where e: "build_delegation_plan (\<lambda>v. []) or_empty ex_inline ''Fix'' None [''git_diff''] [] = Inr p"
    "r \<in> set (dp_runs (ex_executed p))" "ar_status r = FAILED"
    "govern_ledger ex_ledger_env ex_ledger_settings ex_turn (delegation_plan_dump (ex_executed p)) = Inr (l, as, g, s)"
    using ex_turn_ok by blast
  have "\<exists>sy. s = Some sy \<and> sy_blocked sy \<and> sy_accepted sy = []"
    by (rule failed_run_blocks_turn [OF e(1) ex_executed_def e(2) _ _ _ _ _ e(4)]) (simp_all add: e(3) ex_ledger_settings_def)
  then show ?thesis using e by blast
qed

end
