(* ===== verification/ModelRouting.thy ===== *)
theory ModelRouting
  imports Roles
begin

text \<open>
  Which model a role is given: \<open>runtime/model_router.py\<close> and \<open>delegation/delegation_routing.py\<close>.
  The digest that places a user in a bucket in [0, 1) and \<open>canonical_model_id\<close> are parameters.
\<close>

datatype task_kind = PLANNING | EXECUTION | CRITIC_KIND | MEMORY_CURATION | SKILL_SCOUT_KIND

record model_choice =
  mc_primary :: string
  mc_fallbacks :: "string list"
  mc_tokens_per_min :: "int option"
  mc_budget_per_day :: "real option"
  mc_canary_ratio :: real
  mc_canary_model :: "string option"

record router_decision =
  rr_kind :: task_kind
  rr_selected :: string
  rr_primary :: string
  rr_fallbacks :: "string list"
  rr_canary :: bool
  rr_fallback_used :: bool
  rr_tokens_per_min :: "int option"
  rr_budget_per_day :: "real option"

record router_settings =
  mr_roles :: role_settings
  mr_choices :: "string list"
  mr_role_fallbacks :: "(string, string) dict"
  mr_enabled :: bool
  mr_mode :: "string option"

definition dedupe_models :: "string list \<Rightarrow> string list" where
  "dedupe_models ms = from_keys (filter (\<lambda>m. m \<noteq> []) (map py_strip ms))"

text \<open>The models that fall back for every role, and the choice of one role.\<close>

definition default_model :: "router_settings \<Rightarrow> string" where
  "default_model st = py_strip (or_empty (rs_model (mr_roles st)))"

definition global_fallbacks :: "router_settings \<Rightarrow> string list" where
  "global_fallbacks st = filter (\<lambda>m. m \<noteq> [] \<and> m \<noteq> default_model st) (mr_choices st)"

definition router_choice :: "router_settings \<Rightarrow> agent_role \<Rightarrow> string \<Rightarrow> string \<Rightarrow> model_choice" where
  "router_choice st r role_key d =
    (let primary = py_strip (if given (rs_role_model (mr_roles st) r) then or_empty (rs_role_model (mr_roles st) r)
           else if d \<noteq> [] then d else default_model st);
         fallback = py_strip (get_or (mr_role_fallbacks st) role_key [])
     in \<lparr>mc_primary = primary,
         mc_fallbacks = dedupe_models (filter (\<lambda>m. m \<noteq> [] \<and> m \<noteq> primary) (fallback # global_fallbacks st)),
         mc_tokens_per_min = None, mc_budget_per_day = None, mc_canary_ratio = 0, mc_canary_model = None\<rparr>)"

definition router_policy :: "router_settings \<Rightarrow> task_kind \<Rightarrow> model_choice" where
  "router_policy st k =
    (let helper = py_strip (or_empty (rs_helper_model (mr_roles st)));
         helper_default = (if helper \<noteq> [] then helper else default_model st)
     in case k of PLANNING \<Rightarrow> router_choice st PLANNER ''planner'' helper_default
       | EXECUTION \<Rightarrow> router_choice st EXECUTOR ''executor'' (default_model st)
       | CRITIC_KIND \<Rightarrow> router_choice st CRITIC ''critic'' helper_default
       | MEMORY_CURATION \<Rightarrow> router_choice st MEMORY_CURATOR ''memory'' helper_default
       | SKILL_SCOUT_KIND \<Rightarrow> router_choice st SKILL_SCOUT ''skill_scout'' helper_default)"

definition is_in_canary :: "(string \<Rightarrow> real) \<Rightarrow> string option \<Rightarrow> real \<Rightarrow> bool" where
  "is_in_canary bucket user ratio =
    (if ratio \<le> 0 then False else if 1 \<le> ratio then True
     else bucket (if given user then or_empty user else ''anonymous'') < ratio)"

definition router_decide :: "(string \<Rightarrow> real) \<Rightarrow> (task_kind \<Rightarrow> model_choice) \<Rightarrow> task_kind \<Rightarrow> string option \<Rightarrow> string list \<Rightarrow> router_decision" where
  "router_decide bucket policy k user unavailable =
    (let c = policy k;
         canary = (mc_canary_model c \<noteq> None \<and> 0 < mc_canary_ratio c \<and> is_in_canary bucket user (mc_canary_ratio c));
         selected = (if canary \<and> given (mc_canary_model c) then or_empty (mc_canary_model c) else mc_primary c);
         next = (if selected \<in> set unavailable then find (\<lambda>m. m \<notin> set unavailable) (mc_fallbacks c) else None)
     in \<lparr>rr_kind = k, rr_selected = (case next of None \<Rightarrow> selected | Some m \<Rightarrow> m), rr_primary = mc_primary c, rr_fallbacks = mc_fallbacks c,
         rr_canary = (canary \<and> next = None), rr_fallback_used = (next \<noteq> None),
         rr_tokens_per_min = mc_tokens_per_min c, rr_budget_per_day = mc_budget_per_day c\<rparr>)"

section \<open>The decision of a turn\<close>

definition role_task_kind :: "agent_role \<Rightarrow> task_kind" where
  "role_task_kind r = (case r of PLANNER \<Rightarrow> PLANNING | CRITIC \<Rightarrow> CRITIC_KIND | MEMORY_CURATOR \<Rightarrow> MEMORY_CURATION
     | SKILL_SCOUT \<Rightarrow> SKILL_SCOUT_KIND | _ \<Rightarrow> EXECUTION)"

definition model_route_reason :: "agent_role \<Rightarrow> string \<Rightarrow> string \<Rightarrow> int \<Rightarrow> string" where
  "model_route_reason r task_text tool_risk context_size =
    (if r = CRITIC then ''Critic can start with a lower-cost reviewer model and escalate on low confidence.''
     else if r = PLANNER then ''Planning/decomposition uses the planner/helper model before execution.''
     else if tool_risk \<in> set [''high'', ''critical''] then ''High-risk tool usage requires explicit model route observability.''
     else if 12000 < context_size then ''Large context favors a model profile with stronger context handling.''
     else if task_text \<noteq> [] \<and> length task_text < 120 then ''Short direct task can stay on the selected executor model.''
     else ''Role-specific model route selected from current settings.'')"

record model_route =
  md_enabled :: bool
  md_enforce :: bool
  md_role :: agent_role
  md_selected :: string
  md_recommended :: string
  md_effective :: string
  md_reason :: string
  md_fallback_used :: bool
  md_candidates :: "string list"

text \<open>No model is unavailable here, and no user is given.\<close>

definition settings_decision :: "(string \<Rightarrow> real) \<Rightarrow> router_settings \<Rightarrow> agent_role \<Rightarrow> router_decision" where
  "settings_decision bucket st r = router_decide bucket (router_policy st) (role_task_kind r) None []"

definition model_candidates :: "(string \<Rightarrow> real) \<Rightarrow> (string option \<Rightarrow> string) \<Rightarrow> router_settings \<Rightarrow> agent_role \<Rightarrow> string \<Rightarrow> string list \<Rightarrow> string list" where
  "model_candidates bucket canonical st r current fallbacks = from_keys
    ([canonical (Some (rr_selected (settings_decision bucket st r))), current] @
     (if given (rs_helper_model (mr_roles st)) then [canonical (rs_helper_model (mr_roles st))] else []) @
     map (\<lambda>m. canonical (Some m)) fallbacks)"

definition build_model_route :: "(string \<Rightarrow> real) \<Rightarrow> (string option \<Rightarrow> string) \<Rightarrow> router_settings \<Rightarrow> agent_role \<Rightarrow> string option \<Rightarrow> string \<Rightarrow> string \<Rightarrow> int \<Rightarrow>
    model_route" where
  "build_model_route bucket canonical st r selected task_text tool_risk context_size =
    (let current = canonical (if given selected then selected else rs_model (mr_roles st));
         enforce = (py_lower (if given (mr_mode st) then or_empty (mr_mode st) else ''observe'') = ''enforce'');
         d = settings_decision bucket st r;
         recommended = canonical (Some (rr_selected d))
     in \<lparr>md_enabled = mr_enabled st, md_enforce = enforce, md_role = r, md_selected = current, md_recommended = recommended,
         md_effective = (if mr_enabled st \<and> enforce then recommended else current),
         md_reason = model_route_reason r task_text tool_risk context_size,
         md_fallback_used = (mr_enabled st \<and> enforce \<and> rr_fallback_used d),
         md_candidates = model_candidates bucket canonical st r current (rr_fallbacks d)\<rparr>)"

section \<open>Lemmas\<close>

lemma router_choice_wf:
  "distinct (mc_fallbacks (router_choice st r k d))" "[] \<notin> set (mc_fallbacks (router_choice st r k d))"
  by (auto simp: router_choice_def dedupe_models_def Let_def)

text \<open>The router gives a model that is available whenever the model it chose first or one of the fallbacks is, it keeps its
  first choice if that is available, and it reports a fallback exactly if it did not keep it.\<close>

lemma router_avoids_unavailable:
  fixes bucket policy k user unavailable
  defines "c \<equiv> policy k" and "d \<equiv> router_decide bucket policy k user unavailable"
    and "first \<equiv> rr_selected (router_decide bucket policy k user [])"
  shows "(rr_selected d \<in> set unavailable \<longleftrightarrow> set (first # mc_fallbacks c) \<subseteq> set unavailable) \<and>
    (rr_fallback_used d \<longleftrightarrow> first \<in> set unavailable \<and> \<not> set (mc_fallbacks c) \<subseteq> set unavailable) \<and>
    (\<not> rr_fallback_used d \<longrightarrow> rr_selected d = first) \<and>
    (rr_fallback_used d \<longrightarrow> rr_selected d \<in> set (mc_fallbacks c) \<and> \<not> rr_canary d)"
proof (cases "find (\<lambda>m. m \<notin> set unavailable) (mc_fallbacks c)")
  case None
  then have "set (mc_fallbacks c) \<subseteq> set unavailable" by (auto simp: find_None_iff)
  then show ?thesis using None unfolding d_def first_def c_def
    by (simp add: router_decide_def Let_def)
next
  case (Some m)
  then have "m \<in> set (mc_fallbacks c)" "m \<notin> set unavailable" by (auto simp: find_Some_iff)
  then show ?thesis using Some unfolding d_def first_def c_def
    by (auto simp: router_decide_def Let_def)
qed

theorem router_avoids_unavailable_witness:
  "rr_selected (router_decide (\<lambda>u. 0) (\<lambda>k. \<lparr>mc_primary = ''a'', mc_fallbacks = [''b''], mc_tokens_per_min = None, mc_budget_per_day = None,
     mc_canary_ratio = 0, mc_canary_model = None\<rparr>) PLANNING None [''a'']) \<notin> {''a''}"
  using router_avoids_unavailable [where bucket = "\<lambda>u. 0" and k = PLANNING and user = None and unavailable = "[''a'']" and
      policy = "\<lambda>k. \<lparr>mc_primary = ''a'', mc_fallbacks = [''b''], mc_tokens_per_min = None, mc_budget_per_day = None,
        mc_canary_ratio = 0, mc_canary_model = None\<rparr>"] by simp

text \<open>A user who is in the canary at some ratio stays in it when the ratio grows; no one is in it at zero, all are at one.\<close>

lemma canary_monotone:
  assumes "is_in_canary bucket user r" "r \<le> r'"
  shows "is_in_canary bucket user r' \<and> 0 < r \<and> is_in_canary bucket other 1 \<and> \<not> is_in_canary bucket other 0"
  using assms by (auto simp: is_in_canary_def split: if_splits)

theorem canary_monotone_witness: "is_in_canary (\<lambda>u. 1 / 4) None (3 / 4) \<and> (0 :: real) < 1 / 2"
proof -
  have "is_in_canary (\<lambda>u. 1 / 4) None (1 / 2)" by (simp add: is_in_canary_def)
  from canary_monotone [OF this, of "3 / 4" None] show ?thesis by simp
qed

text \<open>When the canary model is unavailable the primary model of the role is not tried: without a fallback the router gives
  the unavailable model although the primary one is available.\<close>

lemma canary_skips_primary:
  assumes "mc_canary_model (policy k) = Some m" "m \<noteq> []" "is_in_canary bucket user (mc_canary_ratio (policy k))"
    "m \<in> set unavailable" "mc_primary (policy k) \<notin> set unavailable" "mc_fallbacks (policy k) = []"
  shows "rr_selected (router_decide bucket policy k user unavailable) = m"
proof -
  have "0 < mc_canary_ratio (policy k)" using assms(3) by (simp add: is_in_canary_def split: if_splits)
  then show ?thesis using assms by (simp add: router_decide_def Let_def given_def or_empty_def)
qed

theorem canary_skips_primary_witness:
  "rr_selected (router_decide (\<lambda>u. 0) (\<lambda>k. \<lparr>mc_primary = ''a'', mc_fallbacks = [], mc_tokens_per_min = None, mc_budget_per_day = None,
     mc_canary_ratio = 1, mc_canary_model = Some ''c''\<rparr>) PLANNING None [''c'']) = ''c''"
  by (rule canary_skips_primary) (simp_all add: is_in_canary_def)

text \<open>Only an enforced router changes the model of a turn.\<close>

lemma observed_route_keeps_model:
  assumes "\<not> (mr_enabled st \<and> md_enforce (build_model_route bucket canonical st r selected task_text risk chars))"
  shows "md_effective (build_model_route bucket canonical st r selected task_text risk chars) =
    canonical (if given selected then selected else rs_model (mr_roles st))"
  using assms by (auto simp: build_model_route_def Let_def)

lemma route_candidates:
  "distinct (md_candidates (build_model_route bucket canonical st r selected task_text risk chars)) \<and>
   md_effective (build_model_route bucket canonical st r selected task_text risk chars) \<in>
     set (md_candidates (build_model_route bucket canonical st r selected task_text risk chars))"
  by (simp add: build_model_route_def model_candidates_def Let_def)

end
