(* ===== verification/TokenCounting.thy ===== *)
theory TokenCounting
  imports Values
begin

text \<open>
  Sizes of prompts: the budget of a context (\<open>ContextBudget\<close> of \<open>core/types.py\<close>), the estimate of tokens
  (\<open>core/context_token_counting.py\<close>) and the characters a number of tokens stands for
  (\<open>core/context_policy_helpers.py\<close>). The tokenizer, JSON and \<open>str\<close> are fields of \<open>text_env\<close>; a tokenizer that
  fails once is taken to fail on the second attempt.
\<close>

datatype budget_mode = CHARS_FALLBACK | TOKENIZER_FIRST

record context_budget =
  bu_recent_messages :: int
  bu_recent_tokens :: int
  bu_findings :: int
  bu_artifacts :: int
  bu_citations :: int
  bu_prompt_tokens :: int
  bu_output_reserve :: int
  bu_chars_per_token :: int
  bu_mode :: budget_mode
  bu_tokenizer :: "string option"
  bu_observation_tokens :: int
  bu_observation_mode :: "budget_mode option"
  bu_observation_tokenizer :: "string option"
  bu_reference_tokens :: int

text \<open>\<open>None\<close> is the observation mode \<open>inherit\<close>.\<close>

definition default_budget :: context_budget where
  "default_budget = \<lparr>bu_recent_messages = 12, bu_recent_tokens = 16000, bu_findings = 8, bu_artifacts = 6, bu_citations = 10,
     bu_prompt_tokens = 128000, bu_output_reserve = 4096, bu_chars_per_token = 4, bu_mode = TOKENIZER_FIRST, bu_tokenizer = None,
     bu_observation_tokens = 3000, bu_observation_mode = None, bu_observation_tokenizer = None, bu_reference_tokens = 240\<rparr>"

text \<open>What pydantic's field constraints promise of a budget\<close>

definition valid_budget :: "context_budget \<Rightarrow> bool" where
  "valid_budget b \<longleftrightarrow> 1 \<le> bu_recent_messages b \<and> 1 \<le> bu_recent_tokens b \<and> 0 \<le> bu_findings b \<and> 0 \<le> bu_artifacts b \<and>
     0 \<le> bu_citations b \<and> 1 \<le> bu_prompt_tokens b \<and> 0 \<le> bu_output_reserve b \<and> 1 \<le> bu_chars_per_token b \<and>
     1 \<le> bu_observation_tokens b \<and> 1 \<le> bu_reference_tokens b"

text \<open>
  \<open>te_dumps\<close> is \<open>json.dumps\<close> with compact separators, \<open>te_dumps_spaced\<close> with the default ones; \<open>te_encode\<close> is the number
  of tokens of a text, or \<open>None\<close> without a tokenizer.
\<close>

record text_env =
  te_dumps :: "pyval \<Rightarrow> string"
  te_dumps_spaced :: "pyval \<Rightarrow> string"
  te_loads :: "string \<Rightarrow> pyval option"
  te_str :: "pyval \<Rightarrow> string"
  te_encode :: "string option \<Rightarrow> string \<Rightarrow> nat option"

record token_estimate =
  tc_tokens :: int
  tc_backend :: string
  tc_tokenizer :: "string option"
  tc_estimated :: bool

definition default_tokenizer :: string where
  "default_tokenizer = ''cl100k_base''"

definition tokenizer_name :: "string option \<Rightarrow> string" where
  "tokenizer_name t = (if given t then or_empty t else default_tokenizer)"

definition estimate_text_token_count :: "text_env \<Rightarrow> string \<Rightarrow> int \<Rightarrow> string option \<Rightarrow> bool \<Rightarrow> token_estimate" where
  "estimate_text_token_count E t chars_per_token tokenizer first =
    (if t = [] then \<lparr>tc_tokens = 0, tc_backend = (if first then ''tiktoken'' else ''chars_fallback''),
       tc_tokenizer = (if first then Some (tokenizer_name tokenizer) else None), tc_estimated = False\<rparr>
     else case (if first then te_encode E tokenizer t else None) of
       Some n \<Rightarrow> \<lparr>tc_tokens = max 1 (int n), tc_backend = ''tiktoken'', tc_tokenizer = Some (tokenizer_name tokenizer), tc_estimated = False\<rparr>
     | None \<Rightarrow> (let d = max chars_per_token 1
         in \<lparr>tc_tokens = max 1 ((int (length t) + d - 1) div d), tc_backend = ''chars_fallback'',
             tc_tokenizer = (if first then Some (tokenizer_name tokenizer) else None), tc_estimated = True\<rparr>))"

definition estimate_text_tokens :: "text_env \<Rightarrow> string \<Rightarrow> int \<Rightarrow> string option \<Rightarrow> bool \<Rightarrow> int" where
  "estimate_text_tokens E t chars_per_token tokenizer first = tc_tokens (estimate_text_token_count E t chars_per_token tokenizer first)"

definition approximate_token_count :: "text_env \<Rightarrow> string \<Rightarrow> int \<Rightarrow> string option \<Rightarrow> int" where
  "approximate_token_count E t chars_per_token tokenizer =
    (if t = [] then 0 else estimate_text_tokens E t chars_per_token tokenizer (given tokenizer))"

text \<open>A list of estimates: the sum of the tokens; one fallback makes the whole estimate one.\<close>

definition sum_estimates :: "token_estimate list \<Rightarrow> token_estimate" where
  "sum_estimates es =
    (let named = find (\<lambda>e. given (tc_tokenizer e)) es; estimated = list_ex tc_estimated es
     in \<lparr>tc_tokens = sum_list (map tc_tokens es),
         tc_backend = (if estimated then ''chars_fallback'' else case named of Some e \<Rightarrow> tc_backend e | None \<Rightarrow> ''chars_fallback''),
         tc_tokenizer = (case named of Some e \<Rightarrow> tc_tokenizer e | None \<Rightarrow> None), tc_estimated = estimated\<rparr>)"

definition budget_units :: "text_env \<Rightarrow> context_budget \<Rightarrow> string \<Rightarrow> int" where
  "budget_units E b t = estimate_text_tokens E t (bu_chars_per_token b) (bu_tokenizer b) (bu_mode b = TOKENIZER_FIRST)"

definition units_to_char_budget :: "context_budget \<Rightarrow> int \<Rightarrow> int" where
  "units_to_char_budget b units =
    (let m = max 1 (bu_chars_per_token b); c = max 0 (units * m)
     in if 0 < units \<and> bu_mode b = TOKENIZER_FIRST then c + max 16 (m * 2) else c)"

section \<open>Lemmas\<close>

lemma estimate_tokens_bounds: "0 \<le> estimate_text_tokens E t c k f" "t \<noteq> [] \<Longrightarrow> 1 \<le> estimate_text_tokens E t c k f"
  by (auto simp: estimate_text_tokens_def estimate_text_token_count_def Let_def split: option.split)

lemma estimate_tokens_Nil [simp]: "estimate_text_tokens E [] c k f = 0"
  by (simp add: estimate_text_tokens_def estimate_text_token_count_def)

lemma budget_units_nonneg: "0 \<le> budget_units E b t"
  by (simp add: budget_units_def estimate_tokens_bounds)

lemma units_to_char_budget_nonneg: "0 \<le> units_to_char_budget b u"
  by (auto simp: units_to_char_budget_def Let_def)

lemma units_to_char_budget_mono: "u \<le> v \<Longrightarrow> units_to_char_budget b u \<le> units_to_char_budget b v"
proof -
  assume a: "u \<le> v"
  define m where "m = max 1 (bu_chars_per_token b)"
  define x y where "x = u * m" and "y = v * m"
  have "1 \<le> m" by (simp add: m_def)
  then have "x \<le> y" unfolding x_def y_def using a by (intro mult_right_mono) auto
  then show ?thesis using a unfolding units_to_char_budget_def Let_def m_def [symmetric] x_def [symmetric] y_def [symmetric] by auto
qed

text \<open>Without a tokenizer the characters of a number of units hold any text that takes no more units.\<close>

lemma chars_of_units:
  assumes "bu_mode b = CHARS_FALLBACK" "1 \<le> bu_chars_per_token b" "budget_units E b t \<le> u"
  shows "int (length t) \<le> units_to_char_budget b u"
proof (cases "t = []")
  case False
  define d where "d = bu_chars_per_token b"
  have d: "1 \<le> d" "max d 1 = d" "max 1 d = d" using assms(2) by (auto simp: d_def)
  have "max 1 ((int (length t) + d - 1) div d) \<le> u"
    using assms(1,3) False d by (simp add: budget_units_def estimate_text_tokens_def estimate_text_token_count_def d_def [symmetric] Let_def)
  then have u: "(int (length t) + d - 1) div d \<le> u" "1 \<le> u" by auto
  define a where "a = int (length t) + d - 1"
  have "d * (a div d) + a mod d = a" by (rule mult_div_mod_eq)
  moreover have "a mod d < d" using d(1) by simp
  moreover have "d * (a div d) \<le> d * u" using u(1) d(1) unfolding a_def by (intro mult_left_mono) auto
  ultimately have "a < d * u + d" by linarith
  then have "int (length t) \<le> u * d" by (simp add: a_def mult.commute)
  then show ?thesis using u d assms(1) by (simp add: units_to_char_budget_def Let_def d_def [symmetric])
qed (simp add: units_to_char_budget_nonneg)

end
