(* ===== verification/ObservationTrim.thy ===== *)
theory ObservationTrim
  imports TokenCounting
begin

text \<open>
  The compaction of tool observations for a prompt: \<open>core/context_tool_observation_json.py\<close>,
  \<open>core/context_tool_observation_references.py\<close>, \<open>core/context_tool_observation_compaction.py\<close> and
  \<open>core/context/tool_observations.py\<close>. JSON values are \<open>pyval\<close>; a \<open>JSONDecodeError\<close> is a \<open>ValueError\<close>.
\<close>

section \<open>Texts and JSON\<close>

definition tool_marker :: string where
  "tool_marker = newline # ''...[tool output trimmed]...'' @ [newline]"

definition cut_middle :: "string \<Rightarrow> nat \<Rightarrow> string \<Rightarrow> string" where
  "cut_middle marker n t = (let keep = n - length marker; front = max 1 (keep div 2); end = max 1 (keep - front)
     in py_rstrip (take front t) @ marker @ py_lstrip (drop (length t - end) t))"

definition truncate_text :: "string \<Rightarrow> int \<Rightarrow> string" where
  "truncate_text t n = (if int (length t) \<le> n then t else if n \<le> 32 then py_slice 0 n t else cut_middle tool_marker (nat n) t)"

definition with_texts :: "(string \<Rightarrow> string) \<Rightarrow> string \<Rightarrow> (string, pyval) dict \<Rightarrow> (string, pyval) dict" where
  "with_texts f k d = (case map_of d k of Some (PStr s) \<Rightarrow> AList.update k (PStr (f s)) d | _ \<Rightarrow> d)"

definition link_keys :: "string list" where
  "link_keys = [''url'', ''final_url'', ''ref'', ''artifact_id'']"

text \<open>The texts of an item are cut by \<open>f\<close>, its links are kept.\<close>

definition shrink_item :: "(string \<Rightarrow> string) \<Rightarrow> (string, pyval) dict \<Rightarrow> (string, pyval) dict" where
  "shrink_item f d = map (\<lambda>(k, v). (k, case v of PStr s \<Rightarrow> PStr (if k \<in> set link_keys then s else f s) | _ \<Rightarrow> v)) d"

definition json_size :: "text_env \<Rightarrow> pyval \<Rightarrow> int" where
  "json_size E v = int (length (te_dumps E v))"

definition small_item :: "text_env \<Rightarrow> pyval \<Rightarrow> pyval" where
  "small_item E v = (case v of PDict d \<Rightarrow> PDict (shrink_item (\<lambda>s. take 120 (py_words s)) d) | _ \<Rightarrow> PStr (take 120 (py_words (py_str (te_str E) v))))"

definition slim_item :: "int \<Rightarrow> pyval \<Rightarrow> pyval" where
  "slim_item n v = (case v of PDict d \<Rightarrow> PDict (shrink_item (take (nat (max 24 (min 72 (n div 2))))) d) | _ \<Rightarrow> v)"

fun shrink_results :: "text_env \<Rightarrow> int \<Rightarrow> pyval list \<Rightarrow> pyval list \<Rightarrow> pyval list" where
  "shrink_results E n acc [] = acc"
| "shrink_results E n acc (v # vs) =
    (let item = small_item E v
     in if json_size E (PList (acc @ [item])) \<le> n then shrink_results E n (acc @ [item]) vs
        else if acc = [] \<and> (case v of PDict d \<Rightarrow> True | _ \<Rightarrow> False) \<and> json_size E (PList [slim_item n item]) \<le> n then shrink_results E n [slim_item n item] vs
        else acc)"

definition shrink_json_result_list :: "text_env \<Rightarrow> int \<Rightarrow> pyval list \<Rightarrow> pyval list" where
  "shrink_json_result_list E n vs = shrink_results E n [] (take 4 vs)"

definition optional_keys :: "string list" where
  "optional_keys = [''content'', ''diff'', ''excerpt'', ''query'', ''path'', ''start_line'', ''end_line'', ''total_lines'', ''tool'',
     ''original_chars'', ''hits'', ''items'', ''reference'', ''summary'', ''results'']"

fun drop_optional :: "text_env \<Rightarrow> int \<Rightarrow> string list \<Rightarrow> (string, pyval) dict \<Rightarrow> (string, pyval) dict" where
  "drop_optional E n [] d = d"
| "drop_optional E n (k # ks) d = (if k \<notin> set (keys d) then drop_optional E n ks d
     else (let t = AList.delete k d in if json_size E (PDict t) \<le> n then t else drop_optional E n ks t))"

definition shrink_list_at :: "text_env \<Rightarrow> int \<Rightarrow> string \<Rightarrow> (string, pyval) dict \<Rightarrow> (string, pyval) dict" where
  "shrink_list_at E n k d = (case map_of d k of Some (PList vs) \<Rightarrow> AList.update k (PList (shrink_json_result_list E n vs)) d | _ \<Rightarrow> d)"

definition shrink_refs :: "text_env \<Rightarrow> (string, pyval) dict \<Rightarrow> (string, pyval) dict" where
  "shrink_refs E d = (case map_of d ''refs'' of
     Some (PList vs) \<Rightarrow> AList.update ''refs'' (PList (map (\<lambda>v. PStr (py_str (te_str E) v)) (take 4 vs))) d | _ \<Rightarrow> d)"

definition shrink_json_payload :: "text_env \<Rightarrow> int \<Rightarrow> (string, pyval) dict \<Rightarrow> (string, pyval) dict" where
  "shrink_json_payload E n payload =
    (let limit = nat (max 24 (min 120 (n div 3)));
         a = foldl (\<lambda>d k. with_texts (\<lambda>s. take limit (py_words s)) k d) payload [''summary'', ''reference'', ''excerpt'', ''content'', ''diff''];
         b = foldl (\<lambda>d k. shrink_list_at E (n div 2) k d) (shrink_refs E a) [''results'', ''hits'', ''items'']
     in if json_size E (PDict b) \<le> n then b else drop_optional E n optional_keys b)"

definition kept_keys :: "string list" where
  "kept_keys = [''query'', ''path'', ''start_line'', ''end_line'', ''total_lines'', ''results'', ''hits'', ''tool'', ''artifact_ref'',
     ''artifact_id'', ''summary'', ''reference'', ''refs'', ''truncated_by_context_policy'', ''original_chars'', ''url'', ''final_url'',
     ''title'', ''published_at'', ''published_date'', ''observed_at'', ''provider'', ''time_range'', ''total_chars'', ''next_offset'',
     ''continuation'', ''content'', ''content_chars'', ''fetch_limited'', ''source_type'', ''offset'', ''next_start_line'', ''char_offset'',
     ''next_char_offset'']"

definition dict_of :: "pyval \<Rightarrow> (string, pyval) dict" where
  "dict_of v = (case v of PDict d \<Rightarrow> d | _ \<Rightarrow> [])"

text \<open>What is left when nothing fits: four variants, each without its empty fields.\<close>

definition fallback_variants :: "text_env \<Rightarrow> pyval \<Rightarrow> (string, pyval) dict list" where
  "fallback_variants E payload =
    (let d = dict_of payload;
         base = (case payload of PDict d \<Rightarrow> dict_value d ''summary'' | _ \<Rightarrow> PStr ''Tool output trimmed.'');
         summary = py_words (if truthy base then py_str (te_str E) base else ''Tool output trimmed.'');
         tool = (''tool'', case payload of PDict d \<Rightarrow> dict_value d ''tool'' | _ \<Rightarrow> PStr ''tool'');
         ref = (''artifact_ref'', dict_value d ''artifact_ref'');
         refs = (''refs'', case dict_value d ''refs'' of PList vs \<Rightarrow> PList (take 1 vs) | _ \<Rightarrow> PList []);
         cut = (''truncated_by_context_policy'', PBool True)
     in map (filter (\<lambda>(k, v). v \<noteq> PNone \<and> v \<noteq> PList [] \<and> v \<noteq> PStr []))
       [[tool, ref, refs, (''summary'', PStr (take 48 summary)), cut, (''original_chars'', dict_value d ''original_chars'')],
        [tool, ref, refs, (''summary'', PStr (take 24 summary)), cut], [ref, refs, cut], [cut]])"

definition truncate_json_payload :: "text_env \<Rightarrow> pyval \<Rightarrow> int \<Rightarrow> string" where
  "truncate_json_payload E payload n =
    (if json_size E payload \<le> n then te_dumps E payload
     else (let compact = (case payload of PDict d \<Rightarrow> PDict (shrink_json_payload E n (filter (\<lambda>(k, v). k \<in> set kept_keys) d)) | v \<Rightarrow> v)
       in if json_size E compact \<le> n then te_dumps E compact
          else case find (\<lambda>d. json_size E (PDict d) \<le> n) (fallback_variants E payload) of
            Some d \<Rightarrow> te_dumps E (PDict d)
          | None \<Rightarrow> if 2 \<le> n then ''{}'' else []))"

section \<open>References\<close>

text \<open>\<open>urllib.parse.quote(s, safe="")\<close> on the UTF-8 bytes of code points below 256\<close>

definition utf8 :: "char \<Rightarrow> nat list" where
  "utf8 c = (let n = (of_char c :: nat) in if n < 128 then [n] else [192 + n div 64, 128 + n mod 64])"

definition unreserved :: "char \<Rightarrow> bool" where
  "unreserved c = (let n = (of_char c :: nat) in (48 \<le> n \<and> n \<le> 57) \<or> (65 \<le> n \<and> n \<le> 90) \<or> (97 \<le> n \<and> n \<le> 122) \<or>
     n = 45 \<or> n = 46 \<or> n = 95 \<or> n = 126)"

definition hex_digit :: "nat \<Rightarrow> char" where
  "hex_digit n = (if n < 10 then char_of (48 + n) else char_of (55 + n))"

definition quote_char :: "char \<Rightarrow> string" where
  "quote_char c = (if unreserved c then [c] else concat (map (\<lambda>n. [CHR ''%'', hex_digit (n div 16), hex_digit (n mod 16)]) (utf8 c)))"

definition url_quote :: "string \<Rightarrow> string" where
  "url_quote s = concat (map quote_char s)"

definition segment_of :: "string \<Rightarrow> string \<Rightarrow> string" where
  "segment_of v d = (let t = py_strip (if v \<noteq> [] then v else d) in if t \<noteq> [] then t else d)"

definition tool_observation_ref :: "string \<Rightarrow> string \<Rightarrow> string" where
  "tool_observation_ref tool call = ''tool-observation://'' @ url_quote (segment_of tool ''tool'') @ ''/'' @ url_quote (segment_of call ''latest'')"

definition safe_observation_segment :: "string \<Rightarrow> bool" where
  "safe_observation_segment s \<longleftrightarrow> s \<noteq> [] \<and> s \<noteq> ''.'' \<and> s \<noteq> ''..'' \<and> CHR ''/'' \<notin> set s \<and> char_of (92::nat) \<notin> set s"

definition observation_artifact_id :: "string \<Rightarrow> string \<Rightarrow> string \<Rightarrow> py_error + string" where
  "observation_artifact_id thread tool call =
    (if \<not> list_all safe_observation_segment [thread, tool, call] then Inl (ValueError ''tool observation scope contains an unsafe path segment'')
     else Inr (''.tool-observations/'' @ join_with ''/'' (map (\<lambda>s. ''s-'' @ url_quote s) [thread, tool, call]) @ ''.txt''))"

definition artifact_like_ref :: "text_env \<Rightarrow> pyval \<Rightarrow> string option" where
  "artifact_like_ref E v = (case v of
     PDict d \<Rightarrow> (let path = dict_value d ''path''; line = dict_value d ''line_number''; start = dict_value d ''start_line'';
          stop = dict_value d ''end_line''; url = py_or (dict_value d ''final_url'') (dict_value d ''url''); s = py_str (te_str E)
       in if truthy path then Some (if line \<noteq> PNone then s path @ '':'' @ s line
              else if start \<noteq> PNone \<and> stop \<noteq> PNone then s path @ '':'' @ s start @ ''-'' @ s stop
              else if start \<noteq> PNone then s path @ '':'' @ s start else s path)
          else if truthy url then Some (s url) else None)
   | _ \<Rightarrow> None)"

definition some_refs :: "text_env \<Rightarrow> pyval list \<Rightarrow> string list" where
  "some_refs E vs = concat (map (\<lambda>v. case artifact_like_ref E v of Some r \<Rightarrow> if r = [] then [] else [r] | None \<Rightarrow> []) vs)"

definition list_of :: "pyval \<Rightarrow> pyval list" where
  "list_of v = (case v of PList vs \<Rightarrow> vs | _ \<Rightarrow> [])"

definition collect_refs :: "text_env \<Rightarrow> pyval \<Rightarrow> string list" where
  "collect_refs E payload = from_keys (case payload of
     PDict d \<Rightarrow> some_refs E (payload # concat (map (\<lambda>k. list_of (dict_value d k)) [''results'', ''hits'', ''items'']))
   | PList vs \<Rightarrow> some_refs E vs
   | _ \<Rightarrow> [])"

definition named_or :: "string \<Rightarrow> string \<Rightarrow> string" where
  "named_or v d = (if v \<noteq> [] then v else d)"

definition textual_reference :: "text_env \<Rightarrow> string \<Rightarrow> string \<Rightarrow> string \<Rightarrow> int \<Rightarrow> int \<Rightarrow> string" where
  "textual_reference E t tool call n reference_chars =
    (let budget = max 18 (min (min (n div 3) reference_chars) 36)
     in truncate_json_payload E (PDict ([(''summary'', PStr (named_or tool ''tool'' @ '' trimmed.'')),
            (''reference'', PStr (truncate_text (py_words t) budget)), (''original_chars'', PInt (int (length t)))] @
          (if call \<noteq> [] \<or> tool \<in> set [''search_code'', ''read_file''] then [(''tool'', PStr (named_or tool ''tool''))] else []) @
          (if call \<noteq> [] then [(''artifact_ref'', PStr (tool_observation_ref tool call))] else []))) n)"

section \<open>Structured observations\<close>

definition field_text :: "text_env \<Rightarrow> (string, pyval) dict \<Rightarrow> string \<Rightarrow> string" where
  "field_text E d k = text_of (te_str E) (dict_value d k)"

definition first_line :: "string \<Rightarrow> string" where
  "first_line t = (case filter (\<lambda>l. l \<noteq> []) (map py_strip (py_splitlines t)) of [] \<Rightarrow> [] | l # ls \<Rightarrow> l)"

definition reference_details :: "text_env \<Rightarrow> (string, pyval) dict \<Rightarrow> string \<Rightarrow> string list" where
  "reference_details E d tool = (let s = py_str (te_str E) in
     if tool = ''search_code'' then
       (let q = py_strip (field_text E d ''query'') in if q \<noteq> [] then [''query='' @ q] else []) @
       (case dict_value d ''results'' of PList vs \<Rightarrow> [''hits='' @ show_nat (length vs)] | _ \<Rightarrow> [])
     else if tool = ''read_file'' then
       (let p = py_strip (field_text E d ''path'') in if p \<noteq> [] then [''path='' @ p] else []) @
       (if dict_value d ''start_line'' \<noteq> PNone \<and> dict_value d ''end_line'' \<noteq> PNone
        then [''lines='' @ s (dict_value d ''start_line'') @ ''-'' @ s (dict_value d ''end_line'')] else []) @
       (if dict_value d ''total_lines'' \<noteq> PNone then [''total_lines='' @ s (dict_value d ''total_lines'')] else []) @
       (let l = first_line (field_text E d ''content'') in if l \<noteq> [] then [''sample='' @ take 120 (py_words l)] else [])
     else concat (map (\<lambda>k. let v = py_strip (field_text E d k) in if v \<noteq> [] then [k @ ''='' @ v] else []) [''path'', ''url'', ''title'', ''query'']))"

definition structured_reference :: "text_env \<Rightarrow> (string, pyval) dict \<Rightarrow> string \<Rightarrow> int \<Rightarrow> bool \<Rightarrow> string" where
  "structured_reference E d tool n artifactize =
    (let refs = collect_refs E (PDict d);
         details = (if artifactize \<and> refs \<noteq> [] then [''refs='' @ join_with '', '' (take 4 refs)] else []) @ reference_details E d tool
     in py_slice 0 n (py_words (join_with ''; '' (if details = [] then [''original observation omitted from prompt body''] else details))))"

definition structured_summary :: "text_env \<Rightarrow> (string, pyval) dict \<Rightarrow> string \<Rightarrow> bool \<Rightarrow> py_error + string" where
  "structured_summary E d tool artifactize = (let s = py_str (te_str E) in
     if tool = ''search_code'' then bind_ok (py_len (py_or (dict_value d ''results'') (PList []))) (\<lambda>n.
       let hits = show_nat n @ '' hit(s) for '' @ named_or (py_strip (field_text E d ''query'')) ''query'' @ ''.''
       in Inr ((if artifactize then ''artifactized search_code view: '' else ''search_code: '') @ hits))
     else if tool = ''read_file'' then
       (let path = py_strip (if truthy (dict_value d ''path'') then s (dict_value d ''path'') else ''the requested file'')
        in if dict_value d ''start_line'' \<noteq> PNone \<and> dict_value d ''end_line'' \<noteq> PNone
           then Inr (''read_file '' @ (if artifactize then ''artifactized'' else ''returned'') @ '' '' @ path @ '' lines '' @
             s (dict_value d ''start_line'') @ ''-'' @ s (dict_value d ''end_line'') @ ''.'')
           else Inr (''read_file '' @ (if artifactize then ''artifactized'' else ''returned content from'') @ '' '' @ path @ ''.''))
     else if tool \<noteq> [] then Inr (tool @ (if artifactize then '' output was compressed into an artifact-like prompt reference.''
         else '' output was compressed for prompt budgeting.''))
     else Inr (if artifactize then ''Structured tool output was compressed into an artifact-like prompt reference.''
         else ''Structured tool output was compressed for prompt budgeting.''))"

definition result_keys :: "string list" where
  "result_keys = [''path'', ''line_number'', ''start_line'', ''end_line'', ''title'', ''url'', ''final_url'', ''published_at'',
     ''published_date'', ''observed_at'', ''artifact_id'', ''offset'', ''chunk_index'']"

definition result_item :: "text_env \<Rightarrow> bool \<Rightarrow> pyval \<Rightarrow> pyval" where
  "result_item E artifactize v = (let short = PStr (take 240 (py_words (py_str (te_str E) v))) in case v of
     PDict d \<Rightarrow> (let ref = (if artifactize then artifact_like_ref E v else None);
          fields = concat (map (\<lambda>k. case map_of d k of Some x \<Rightarrow> [(k, x)] | None \<Rightarrow> []) result_keys) @
            (case find (\<lambda>k. k \<in> set (keys d)) [''line'', ''snippet'', ''content'', ''text''] of None \<Rightarrow> []
             | Some k \<Rightarrow> [(k, PStr (take 240 (py_words (py_str (te_str E) (dict_value d k)))))]) @
            (if given ref then [(''ref'', PStr (or_empty ref))] else [])
        in if fields = [] then short else PDict fields)
   | _ \<Rightarrow> short)"

definition ref_only :: "text_env \<Rightarrow> bool \<Rightarrow> pyval \<Rightarrow> string option" where
  "ref_only E artifactize v = (case v of
     PDict d \<Rightarrow> if artifactize \<and> given (artifact_like_ref E v) \<and> \<not> (truthy (dict_value d ''url'') \<or> truthy (dict_value d ''final_url''))
       then artifact_like_ref E v else None
   | _ \<Rightarrow> None)"

fun compact_results :: "text_env \<Rightarrow> int \<Rightarrow> bool \<Rightarrow> pyval list \<Rightarrow> pyval list \<Rightarrow> pyval list" where
  "compact_results E n artifactize acc [] = acc"
| "compact_results E n artifactize acc (v # vs) = (case ref_only E artifactize v of
     Some r \<Rightarrow> (let acc' = acc @ [PDict [(''ref'', PStr r)]]
       in if n div 2 \<le> json_size E (PList acc') then acc' else compact_results E n artifactize acc' vs)
   | None \<Rightarrow> (let acc' = acc @ [result_item E artifactize v]
       in if n div 2 \<le> int (length (te_dumps_spaced E (PList acc'))) then acc' else compact_results E n artifactize acc' vs))"

definition compact_result_list :: "text_env \<Rightarrow> int \<Rightarrow> bool \<Rightarrow> pyval list \<Rightarrow> pyval list" where
  "compact_result_list E n artifactize vs = compact_results E n artifactize [] vs"

fun numbered_lines :: "int \<Rightarrow> string list \<Rightarrow> int \<Rightarrow> string list \<Rightarrow> string list" where
  "numbered_lines n kept used [] = kept"
| "numbered_lines n kept used (l # ls) =
    (let c = take 400 l; extra = int (length c) + (if kept \<noteq> [] then 1 else 0)
     in if kept \<noteq> [] \<and> n < used + extra then kept
        else if n \<le> used + extra then kept @ [c] else numbered_lines n (kept @ [c]) (used + extra) ls)"

definition trim_numbered_content :: "string \<Rightarrow> int \<Rightarrow> string" where
  "trim_numbered_content t n = (if int (length t) \<le> n then t
     else join_with [newline] (numbered_lines n [] 0 (py_splitlines t)) @ newline # ''...[tool output trimmed]...'')"

definition trim_diff :: "string \<Rightarrow> int \<Rightarrow> string" where
  "trim_diff t n = (let ls = py_splitlines t;
      important = filter (\<lambda>l. list_ex (\<lambda>p. starts_with p l) [''diff --git'', ''+++'', ''---'', ''@@'', ''+'', ''-'']) ls
    in truncate_text (join_with [newline] (if important = [] then ls else important)) n)"

definition copied_keys :: "string list" where
  "copied_keys = [''query'', ''path'', ''glob'', ''literal'', ''case_sensitive'', ''start_line'', ''end_line'', ''total_lines'', ''url'',
     ''final_url'', ''title'', ''content_type'', ''truncated'', ''published_at'', ''published_date'', ''observed_at'', ''provider'',
     ''time_range'', ''artifact_ref'', ''artifact_id'', ''total_chars'', ''next_offset'', ''continuation'', ''content_chars'',
     ''fetch_limited'', ''source_type'', ''offset'', ''next_start_line'', ''char_offset'', ''next_char_offset'']"

definition compact_list :: "text_env \<Rightarrow> string \<Rightarrow> string \<Rightarrow> int \<Rightarrow> int \<Rightarrow> bool \<Rightarrow> pyval list \<Rightarrow> (string, pyval) dict" where
  "compact_list E tool call n reference_chars artifactize vs =
    (let refs = collect_refs E (PList vs);
         reference = ''Prompt view keeps representative items only; original observation had '' @ show_nat (length vs) @ '' list entries.''
     in [(''tool'', PStr (named_or tool ''tool'')),
         (''summary'', PStr (if artifactize then ''Prompt-only artifactized view of '' @ show_nat (length vs) @ '' list item(s).''
            else ''Structured tool output trimmed to '' @ show_nat (length (take 3 vs)) @ '' representative items.'')),
         (''items'', PList (compact_result_list E n artifactize vs)),
         (''reference'', PStr (if artifactize
            then truncate_text (if refs \<noteq> [] then ''Representative refs: '' @ join_with ''; '' (take 6 refs) else reference) reference_chars
            else reference)),
         (''truncated_by_context_policy'', PBool True)] @
        (if artifactize then [(''artifact_ref'', PStr (tool_observation_ref tool call))] @
           (if refs \<noteq> [] then [(''refs'', PList (map PStr (take 6 refs)))] else []) @
           [(''original_chars'', PInt (int (length (te_dumps_spaced E (PList vs)))))] else []))"

definition compact_dict :: "text_env \<Rightarrow> string \<Rightarrow> string \<Rightarrow> int \<Rightarrow> int \<Rightarrow> bool \<Rightarrow> (string, pyval) dict \<Rightarrow> py_error + (string, pyval) dict" where
  "compact_dict E tool call n reference_chars artifactize d =
    bind_ok (structured_summary E d tool artifactize) (\<lambda>summary.
      let a = concat (map (\<lambda>k. case map_of d k of Some v \<Rightarrow> [(k, v)] | None \<Rightarrow> []) copied_keys);
          b = a @ (case dict_value d ''results'' of PList vs \<Rightarrow> [(''results'', PList (compact_result_list E n artifactize vs))]
            | _ \<Rightarrow> (case dict_value d ''hits'' of PList vs \<Rightarrow> [(''hits'', PList (compact_result_list E n artifactize vs))] | _ \<Rightarrow> []));
          c = b @ (if ''content'' \<in> set (keys d) then [(''content'', PStr (if tool = ''web_fetch''
              then truncate_text (field_text E d ''content'') (n div 2) else trim_numbered_content (field_text E d ''content'') (n div 2)))] else []);
          e = c @ (if ''diff'' \<in> set (keys d) then [(''diff'', PStr (trim_diff (field_text E d ''diff'') (n div 2)))] else []);
          f = e @ (if tool \<noteq> [] then [(''tool'', PStr tool)] else []) @ [(''summary'', PStr summary),
              (''reference'', PStr (structured_reference E d tool reference_chars artifactize))];
          g = (if artifactize \<and> \<not> truthy (py_or (dict_value d ''artifact_ref'') (dict_value d ''artifact_id''))
               then AList.update ''artifact_ref'' (PStr (tool_observation_ref tool call)) f else f);
          refs = collect_refs E (PDict d)
      in Inr (g @ (if artifactize \<and> refs \<noteq> [] then [(''refs'', PList (map PStr (take 6 refs)))] else []) @
          [(''truncated_by_context_policy'', PBool True), (''original_chars'', PInt (int (length (te_dumps_spaced E (PDict d)))))]))"

definition compact_structured :: "text_env \<Rightarrow> string \<Rightarrow> string \<Rightarrow> int \<Rightarrow> int \<Rightarrow> bool \<Rightarrow> pyval \<Rightarrow> py_error + pyval" where
  "compact_structured E tool call n reference_chars artifactize payload = (case payload of
     PList vs \<Rightarrow> Inr (PDict (compact_list E tool call n reference_chars artifactize vs))
   | PDict d \<Rightarrow> bind_ok (compact_dict E tool call n reference_chars artifactize d) (\<lambda>c. Inr (PDict c))
   | v \<Rightarrow> Inr (PStr (if artifactize then textual_reference E (py_str (te_str E) v) tool call n reference_chars
       else truncate_text (py_str (te_str E) v) n)))"

definition unretrievable_observation :: "text_env \<Rightarrow> string \<Rightarrow> string \<Rightarrow> int \<Rightarrow> string" where
  "unretrievable_observation E observation tool n = truncate_json_payload E (PDict [(''tool'', PStr (named_or tool ''tool'')),
     (''summary'', PStr (named_or tool ''tool'' @ '' output was trimmed but could not be saved for rereading.'')),
     (''original_chars'', PInt (int (length observation))), (''observation_retrievable'', PBool False),
     (''truncated_by_context_policy'', PBool True)]) (max 1 n)"

section \<open>Fitting an observation\<close>

definition observation_char_limit :: "context_budget \<Rightarrow> int" where
  "observation_char_limit b = max 1 (bu_observation_tokens b * max 1 (bu_chars_per_token b))"

definition reference_char_limit :: "context_budget \<Rightarrow> int" where
  "reference_char_limit b = max 1 (bu_reference_tokens b * max 1 (bu_chars_per_token b))"

definition observation_mode :: "context_budget \<Rightarrow> budget_mode" where
  "observation_mode b = (case bu_observation_mode b of None \<Rightarrow> bu_mode b | Some m \<Rightarrow> m)"

definition observation_tokenizer :: "context_budget \<Rightarrow> string option" where
  "observation_tokenizer b = (if given (bu_observation_tokenizer b) then bu_observation_tokenizer b else bu_tokenizer b)"

definition observation_units :: "text_env \<Rightarrow> context_budget \<Rightarrow> string \<Rightarrow> int" where
  "observation_units E b t = estimate_text_tokens E t (bu_chars_per_token b) (observation_tokenizer b) (observation_mode b = TOKENIZER_FIRST)"

definition observation_fits :: "text_env \<Rightarrow> context_budget \<Rightarrow> int \<Rightarrow> bool \<Rightarrow> string \<Rightarrow> bool" where
  "observation_fits E b n enforce t \<longleftrightarrow> int (length t) \<le> n \<and> (enforce \<longrightarrow> observation_units E b t \<le> bu_observation_tokens b)"

text \<open>The rendering of a payload in a number of characters; a value that is no list or dictionary is cut as text.\<close>

definition render_within :: "text_env \<Rightarrow> string \<Rightarrow> pyval \<Rightarrow> int \<Rightarrow> string" where
  "render_within E t payload n = (case payload of PDict d \<Rightarrow> truncate_json_payload E payload n | PList vs \<Rightarrow> truncate_json_payload E payload n
     | _ \<Rightarrow> truncate_text t n)"

function fit_search :: "(int \<Rightarrow> string) \<Rightarrow> (string \<Rightarrow> bool) \<Rightarrow> int \<Rightarrow> int \<Rightarrow> string \<Rightarrow> string" where
  "fit_search render fits low high best = (if high < low then best
     else (let mid = (low + high) div 2; probe = render mid
       in if fits probe then fit_search render fits (mid + 1) high probe else fit_search render fits low (mid - 1) best))"
  by pat_completeness auto

termination
  by (relation "measure (\<lambda>(render, fits, low, high, best). nat (high - low + 1))") (auto simp: not_less)

declare fit_search.simps [simp del]

definition fit_observation :: "text_env \<Rightarrow> context_budget \<Rightarrow> int \<Rightarrow> string \<Rightarrow> pyval \<Rightarrow> string" where
  "fit_observation E b n t payload =
    (let candidate = render_within E t payload n
     in if observation_fits E b n True candidate then candidate
        else fit_search (render_within E t payload) (observation_fits E b n True)
          (case payload of PDict d \<Rightarrow> 2 | PList vs \<Rightarrow> 2 | _ \<Rightarrow> 1) (min (int (length candidate)) n) candidate)"

definition loads :: "text_env \<Rightarrow> string \<Rightarrow> py_error + pyval" where
  "loads E t = (case te_loads E t of None \<Rightarrow> Inl (ValueError ''JSONDecodeError'') | Some v \<Rightarrow> Inr v)"

text \<open>
  \<open>budget\<close> is \<open>None\<close> if none is given. A rendering that was marked again is loaded as a dictionary; item
  assignment on another value raises.
\<close>

definition mark_trimmed :: "text_env \<Rightarrow> int \<Rightarrow> string \<Rightarrow> py_error + string" where
  "mark_trimmed E n rendered = bind_ok (loads E rendered) (\<lambda>v. case v of
     PDict d \<Rightarrow> Inr (truncate_json_payload E (PDict (AList.update ''truncated_by_context_policy'' (PBool True) d)) n)
   | _ \<Rightarrow> Inl (TypeError ''object does not support item assignment''))"

definition trim_textual :: "text_env \<Rightarrow> context_budget option \<Rightarrow> int \<Rightarrow> bool \<Rightarrow> string \<Rightarrow> string \<Rightarrow> bool \<Rightarrow> string \<Rightarrow> py_error + string" where
  "trim_textual E budget n enforce tool call artifactize t =
    (let b = (case budget of None \<Rightarrow> default_budget | Some b \<Rightarrow> b)
     in if \<not> artifactize \<and> budget = None \<and> \<not> enforce \<and> tool = [] then Inr (truncate_text t n)
        else (let first = textual_reference E t tool call n (min n (reference_char_limit b))
          in bind_ok (if artifactize then mark_trimmed E n first else Inr first) (\<lambda>rendered.
            if \<not> enforce then Inr rendered
            else bind_ok (loads E rendered) (\<lambda>v. Inr (fit_observation E b n rendered v)))))"

definition trim_structured :: "text_env \<Rightarrow> context_budget option \<Rightarrow> int \<Rightarrow> bool \<Rightarrow> string \<Rightarrow> string \<Rightarrow> bool \<Rightarrow> pyval \<Rightarrow> py_error + string" where
  "trim_structured E budget n enforce tool call artifactize payload =
    (let b = (case budget of None \<Rightarrow> default_budget | Some b \<Rightarrow> b)
     in bind_ok (compact_structured E tool call n (min n (reference_char_limit b)) artifactize payload) (\<lambda>compact.
       let rendered = te_dumps E compact
       in if observation_fits E b n enforce rendered then Inr rendered else Inr (fit_observation E b n rendered compact)))"

definition trim_tool_observation :: "text_env \<Rightarrow> string \<Rightarrow> string \<Rightarrow> string \<Rightarrow> context_budget option \<Rightarrow> int option \<Rightarrow> bool \<Rightarrow> bool \<Rightarrow> py_error + string" where
  "trim_tool_observation E t tool call budget max_chars artifactize force =
    (let b = (case budget of None \<Rightarrow> default_budget | Some b \<Rightarrow> b);
         n = max 1 (case max_chars of None \<Rightarrow> observation_char_limit b | Some m \<Rightarrow> m);
         enforce = (max_chars = None)
     in if observation_fits E b n enforce t \<and> \<not> (artifactize \<and> force) then Inr t
        else case te_loads E t of
          None \<Rightarrow> trim_textual E budget n enforce tool call artifactize t
        | Some payload \<Rightarrow> trim_structured E budget n enforce tool call artifactize payload)"

section \<open>Bounds\<close>

lemma length_cut_middle: "length marker < n \<Longrightarrow> 2 \<le> n - length marker \<Longrightarrow> length (cut_middle marker n t) \<le> n"
proof -
  assume a: "length marker < n" "2 \<le> n - length marker"
  define keep front where "keep = n - length marker" and "front = max 1 (keep div 2)"
  have k: "2 \<le> keep" "front + max 1 (keep - front) \<le> keep" "length marker + keep = n" using a by (auto simp: keep_def front_def)
  have "length (py_rstrip (take front t)) \<le> front" using length_py_rstrip [of "take front t"] by simp
  moreover have "length (py_lstrip (drop (length t - max 1 (keep - front)) t)) \<le> max 1 (keep - front)"
    using length_py_lstrip [of "drop (length t - max 1 (keep - front)) t"] unfolding length_drop by linarith
  ultimately show ?thesis using k unfolding cut_middle_def Let_def keep_def [symmetric] front_def [symmetric] by simp
qed

lemma length_py_slice_0: "0 \<le> n \<Longrightarrow> int (length (py_slice 0 n t)) \<le> n"
  by (simp add: py_slice_def slice_index_def Let_def)

lemma truncate_text_bound: "0 \<le> n \<Longrightarrow> int (length (truncate_text t n)) \<le> n"
proof (cases "int (length t) \<le> n \<or> n \<le> 32")
  case True
  then show ?thesis if "0 \<le> n" using that by (auto simp: truncate_text_def length_py_slice_0)
next
  case False
  moreover have "length tool_marker = 29" by (simp add: tool_marker_def)
  ultimately have "length tool_marker < nat n" "2 \<le> nat n - length tool_marker" by linarith+
  then have "length (cut_middle tool_marker (nat n) t) \<le> nat n" by (rule length_cut_middle)
  then have "int (length (cut_middle tool_marker (nat n) t)) \<le> n" using False by linarith
  then show ?thesis using False by (simp add: truncate_text_def)
qed

lemma truncate_json_bound: "0 \<le> n \<Longrightarrow> int (length (truncate_json_payload E v n)) \<le> n"
proof -
  assume n: "0 \<le> n"
  have f: "find (\<lambda>d. json_size E (PDict d) \<le> n) ds = Some d \<Longrightarrow> int (length (te_dumps E (PDict d))) \<le> n" for ds d
    by (auto simp: find_Some_iff json_size_def)
  define c where "c = (case v of PDict d \<Rightarrow> PDict (shrink_json_payload E n (filter (\<lambda>(k, v). k \<in> set kept_keys) d)) | v \<Rightarrow> v)"
  consider "json_size E v \<le> n" | "\<not> json_size E v \<le> n" "json_size E c \<le> n" | "\<not> json_size E v \<le> n" "\<not> json_size E c \<le> n" by blast
  then show ?thesis
  proof cases
    case 1
    then show ?thesis by (simp add: truncate_json_payload_def json_size_def)
  next
    case 2
    then show ?thesis unfolding truncate_json_payload_def c_def [symmetric] Let_def by (simp add: json_size_def)
  next
    case 3
    then show ?thesis using n f unfolding truncate_json_payload_def c_def [symmetric] Let_def
      by (auto split: option.split)
  qed
qed

lemma render_within_bound: "0 \<le> n \<Longrightarrow> int (length (render_within E t v n)) \<le> n"
  by (cases v) (simp_all add: render_within_def truncate_json_bound truncate_text_bound)

lemma fit_search_cases: "fit_search render fits low high best = best \<or> fits (fit_search render fits low high best)"
proof (induction render fits low high best rule: fit_search.induct)
  case (1 render fits low high best)
  show ?case
  proof (cases "high < low")
    case True
    then show ?thesis by (subst fit_search.simps) simp
  next
    case False
    show ?thesis
    proof (cases "fits (render ((low + high) div 2))")
      case True
      then have e: "fit_search render fits low high best = fit_search render fits ((low + high) div 2 + 1) high (render ((low + high) div 2))"
        using \<open>\<not> high < low\<close> by (subst fit_search.simps) (simp add: Let_def)
      show ?thesis unfolding e using 1(1) [OF False refl refl True] True by auto
    next
      case no: False
      then have e: "fit_search render fits low high best = fit_search render fits low ((low + high) div 2 - 1) best"
        using \<open>\<not> high < low\<close> by (subst fit_search.simps) (simp add: Let_def)
      show ?thesis unfolding e using 1(2) [OF False refl refl no] .
    qed
  qed
qed

lemma fit_observation_bound: "0 \<le> n \<Longrightarrow> int (length (fit_observation E b n t v)) \<le> n"
  using fit_search_cases [of "render_within E t v" "observation_fits E b n True" _ _ "render_within E t v n"]
  by (auto simp: fit_observation_def Let_def render_within_bound) (metis observation_fits_def render_within_bound)

lemma textual_reference_bound: "0 \<le> n \<Longrightarrow> int (length (textual_reference E t tool call n r)) \<le> n"
  by (simp add: textual_reference_def Let_def truncate_json_bound)

lemma mark_trimmed_bound: "0 \<le> n \<Longrightarrow> mark_trimmed E n t = Inr r \<Longrightarrow> int (length r) \<le> n"
proof -
  assume n: "0 \<le> n" and m: "mark_trimmed E n t = Inr r"
  then obtain v where v: "loads E t = Inr v" by (auto simp: mark_trimmed_def bind_ok_Inr_iff)
  show ?thesis using n m v by (cases v) (auto simp: mark_trimmed_def truncate_json_bound)
qed

lemma trim_textual_bound: "0 \<le> n \<Longrightarrow> trim_textual E b n enforce tool call a t = Inr r \<Longrightarrow> int (length r) \<le> n"
  by (auto simp: trim_textual_def Let_def bind_ok_Inr_iff truncate_text_bound fit_observation_bound textual_reference_bound
      split: if_splits dest: mark_trimmed_bound)

lemma trim_structured_bound: "0 \<le> n \<Longrightarrow> trim_structured E b n enforce tool call a v = Inr r \<Longrightarrow> int (length r) \<le> n"
proof -
  assume n: "0 \<le> n" and m: "trim_structured E b n enforce tool call a v = Inr r"
  let ?b = "case b of None \<Rightarrow> default_budget | Some b \<Rightarrow> b"
  obtain c where c: "compact_structured E tool call n (min n (reference_char_limit ?b)) a v = Inr c"
    using m by (auto simp: trim_structured_def bind_ok_Inr_iff Let_def)
  show ?thesis using n m
    by (cases "observation_fits E ?b n enforce (te_dumps E c)")
      (auto simp: trim_structured_def c fit_observation_bound observation_fits_def)
qed

lemma trim_within_limit:
  assumes "trim_tool_observation E t tool call budget max_chars artifactize force = Inr r"
  shows "int (length r) \<le> max 1 (case max_chars of None \<Rightarrow> observation_char_limit (case budget of None \<Rightarrow> default_budget | Some b \<Rightarrow> b) | Some m \<Rightarrow> m)"
proof -
  let ?n = "max 1 (case max_chars of None \<Rightarrow> observation_char_limit (case budget of None \<Rightarrow> default_budget | Some b \<Rightarrow> b) | Some m \<Rightarrow> m)"
  have "0 \<le> ?n" by simp
  then show ?thesis using assms
    by (auto simp: trim_tool_observation_def Let_def observation_fits_def split: if_splits option.splits
        dest: trim_textual_bound trim_structured_bound)
qed

text \<open>C39: Whatever the observation, its kind and the ways it is cut, the result is never longer than the limit of
  characters: the one that was asked for, or else that of the budget. A limit below one counts as one: asked for no
  character at all, the result may still have one.\<close>

theorem trimmed_observation_bounded:
  assumes "trim_tool_observation E t tool call budget max_chars artifactize force = Inr r"
    and "limit = (case max_chars of Some m \<Rightarrow> m
      | None \<Rightarrow> observation_char_limit (case budget of None \<Rightarrow> default_budget | Some b \<Rightarrow> b))"
  shows "(1 \<le> limit \<longrightarrow> int (length r) \<le> limit) \<and> (limit \<le> 0 \<longrightarrow> length r \<le> 1)"
  using trim_within_limit [OF assms(1)] assms(2) by (cases max_chars) (simp_all add: max_def split: if_splits)

section \<open>Errors\<close>

text \<open>The JSON library on dictionaries: their text loads as a dictionary, and has its two braces; an empty text does not load.\<close>

definition json_objects :: "text_env \<Rightarrow> bool" where
  "json_objects E \<longleftrightarrow> (\<forall>d. (\<exists>d'. te_loads E (te_dumps E (PDict d)) = Some (PDict d')) \<and> 2 \<le> length (te_dumps E (PDict d))) \<and>
     te_loads E ''{}'' = Some (PDict []) \<and> te_loads E [] = None"

lemma truncate_json_is_object:
  assumes "json_objects E" "2 \<le> n"
  shows "\<exists>d. te_loads E (truncate_json_payload E (PDict v) n) = Some (PDict d)"
  using assms by (auto simp: truncate_json_payload_def json_objects_def Let_def split: option.split)

text \<open>With room for two characters an observation can always be trimmed, except that a search whose results are a number
  raises.\<close>

lemma trim_succeeds:
  assumes "json_objects E" "2 \<le> m" "tool \<noteq> ''search_code''"
  shows "is_ok (trim_tool_observation E t tool call budget (Some m) artifactize force)"
proof -
  have n: "max 1 m = m" using assms(2) by simp
  have s: "\<exists>c. compact_structured E tool call m r artifactize v = Inr c" for r v
    using assms(3) by (cases v) (auto simp: compact_structured_def compact_dict_def structured_summary_def Let_def)
  have "\<exists>d. te_loads E (textual_reference E t tool call m r) = Some (PDict d)" for r
    unfolding textual_reference_def Let_def by (rule truncate_json_is_object [OF assms(1,2)])
  then obtain d where "te_loads E (textual_reference E t tool call m (min m (reference_char_limit (case budget of None \<Rightarrow> default_budget | Some b \<Rightarrow> b))))
      = Some (PDict d)" by blast
  then have "is_ok (trim_textual E budget m False tool call artifactize t)"
    by (auto simp: trim_textual_def mark_trimmed_def loads_def Let_def)
  moreover have "is_ok (trim_structured E budget m False tool call artifactize v)" for v
    using s [of "min m (reference_char_limit (case budget of None \<Rightarrow> default_budget | Some b \<Rightarrow> b))" v] by (auto simp: trim_structured_def Let_def)
  ultimately show ?thesis by (auto simp: trim_tool_observation_def n Let_def split: option.split)
qed

text \<open>With room for one character, as the last resort of the prompt budget may ask for, a plain text of two or more
  characters cannot be trimmed: the empty rendering is loaded as JSON, which raises.\<close>

lemma tiny_limit_raises:
  assumes "json_objects E" "te_loads E t = None" "2 \<le> length t" "m \<le> 1"
  shows "trim_tool_observation E t tool call budget (Some m) True force = Inl (ValueError ''JSONDecodeError'')"
proof -
  have n: "max 1 m = 1" using assms(4) by simp
  have big: "\<not> json_size E (PDict d) \<le> 1" for d
  proof -
    have "2 \<le> length (te_dumps E (PDict d))" using assms(1) unfolding json_objects_def by blast
    then show ?thesis by (simp add: json_size_def)
  qed
  then have "find (\<lambda>d. json_size E (PDict d) \<le> 1) ds = None" for ds by (simp add: find_None_iff)
  then have "truncate_json_payload E (PDict d) 1 = []" for d
    using big by (simp add: truncate_json_payload_def Let_def)
  then have r: "textual_reference E t tool call 1 c = []" for c by (simp add: textual_reference_def Let_def)
  have "\<not> observation_fits E b 1 False t" for b using assms(3) by (simp add: observation_fits_def)
  then show ?thesis using assms(1,2)
    by (simp add: trim_tool_observation_def n trim_textual_def mark_trimmed_def loads_def r json_objects_def Let_def)
qed

section \<open>Identifiers of saved observations\<close>

lemma hex_digit_inject: "a < 16 \<Longrightarrow> b < 16 \<Longrightarrow> hex_digit a = hex_digit b \<Longrightarrow> a = b"
proof -
  assume ab: "a < 16" "b < 16" "hex_digit a = hex_digit b"
  have "(of_char (hex_digit n) :: nat) = (if n < 10 then 48 + n else 55 + n)" if "n < 16" for n
    using that by (simp add: hex_digit_def)
  then have "(if a < 10 then 48 + a else 55 + a) = (if b < 10 then 48 + b else 55 + b)" using ab by metis
  then show "a = b" by (auto split: if_splits)
qed

lemma quote_char_reserved: "\<not> unreserved c \<Longrightarrow> \<exists>r. quote_char c = CHR ''%'' # r"
  by (auto simp: quote_char_def utf8_def Let_def)

lemma quote_char_prefix_free:
  assumes "quote_char c @ xs = quote_char d @ ys"
  shows "c = d \<and> xs = ys"
proof -
  have p: "\<not> unreserved (CHR ''%'')" by (simp add: unreserved_def)
  have eq: "m = n" if "hex_digit (m div 16) = hex_digit (n div 16)" "hex_digit (m mod 16) = hex_digit (n mod 16)" "m < 256" "n < 256" for m n :: nat
  proof -
    have "m div 16 = n div 16" using that by (intro hex_digit_inject) auto
    moreover have "m mod 16 = n mod 16" using that by (intro hex_digit_inject) auto
    ultimately show ?thesis by (metis div_mult_mod_eq)
  qed
  define m n where "m = (of_char c :: nat)" and "n = (of_char d :: nat)"
  have cd: "m < 256" "n < 256" "c = char_of m" "d = char_of n" unfolding m_def n_def by (simp_all add: nat_of_char_less_256)
  have dv: "m div 64 < 64" "n div 64 < 64" using cd(1,2) by (auto intro: less_mult_imp_div_less)
  show ?thesis
  proof (cases "unreserved c \<or> unreserved d")
    case True
    then show ?thesis using assms p quote_char_reserved [of c] quote_char_reserved [of d]
      by (auto simp: quote_char_def split: if_splits)
  next
    case False
    then have q: "concat (map (\<lambda>n. [CHR ''%'', hex_digit (n div 16), hex_digit (n mod 16)]) (utf8 c)) @ xs =
        concat (map (\<lambda>n. [CHR ''%'', hex_digit (n div 16), hex_digit (n mod 16)]) (utf8 d)) @ ys"
      using assms by (simp add: quote_char_def)
    have u: "utf8 c = (if m < 128 then [m] else [192 + m div 64, 128 + m mod 64])"
      "utf8 d = (if n < 128 then [n] else [192 + n div 64, 128 + n mod 64])" by (simp_all add: utf8_def m_def n_def Let_def)
    consider "m < 128" "n < 128" | "m < 128" "128 \<le> n" | "128 \<le> m" "n < 128" | "128 \<le> m" "128 \<le> n" by linarith
    then show ?thesis
    proof cases
      case 1
      then have "m = n" using q u eq [of m n] by simp
      then show ?thesis using q cd by simp
    next
      case 2
      then have "m = 192 + n div 64" using q u cd eq [of m "192 + n div 64"] dv by simp
      then show ?thesis using 2 by simp
    next
      case 3
      then have "n = 192 + m div 64" using q u cd eq [of "192 + m div 64" n] dv by simp
      then show ?thesis using 3 by simp
    next
      case 4
      then have "192 + m div 64 = 192 + n div 64" "128 + m mod 64 = 128 + n mod 64"
        using q u cd eq [of "192 + m div 64" "192 + n div 64"] eq [of "128 + m mod 64" "128 + n mod 64"] dv by auto
      then have "m = n" by (metis add_left_cancel div_mult_mod_eq)
      then show ?thesis using q cd by simp
    qed
  qed
qed

lemma quote_char_nonempty: "quote_char c \<noteq> []"
  by (auto simp: quote_char_def utf8_def Let_def)

lemma url_quote_inject: "url_quote s = url_quote t \<Longrightarrow> s = t"
proof (induction s arbitrary: t)
  case Nil
  then show ?case using quote_char_nonempty by (cases t) (auto simp: url_quote_def)
next
  case (Cons c s)
  then show ?case
  proof (cases t)
    case Nil
    then show ?thesis using Cons.prems quote_char_nonempty [of c] by (simp add: url_quote_def)
  next
    case t: (Cons d u)
    have "quote_char c @ url_quote s = quote_char d @ url_quote u" using Cons.prems t by (simp add: url_quote_def)
    then have "c = d" "url_quote s = url_quote u" using quote_char_prefix_free by blast+
    then show ?thesis using Cons.IH t by blast
  qed
qed

lemma url_quote_no_slash: "CHR ''/'' \<notin> set (url_quote s)"
proof -
  have h: "hex_digit n \<noteq> CHR ''/''" if "n < 16" for n
  proof
    assume "hex_digit n = CHR ''/''"
    then have "(of_char (hex_digit n) :: nat) = 47" by simp
    then show False using that by (simp add: hex_digit_def split: if_splits)
  qed
  have u: "n < 256" if "n \<in> set (utf8 c)" for n c
  proof -
    have "(of_char c :: nat) < 256" by (rule nat_of_char_less_256)
    moreover have "k < 256 \<Longrightarrow> k div 64 < 64" for k :: nat by (auto intro: less_mult_imp_div_less)
    ultimately have "(of_char c :: nat) div 64 < 64" by blast
    then show ?thesis using that by (auto simp: utf8_def Let_def split: if_splits)
  qed
  have "CHR ''/'' \<notin> set (quote_char c)" for c
  proof (cases "unreserved c")
    case True
    then show ?thesis by (auto simp: quote_char_def unreserved_def)
  next
    case False
    have "CHR ''/'' \<noteq> hex_digit (n div 16) \<and> CHR ''/'' \<noteq> hex_digit (n mod 16)" if "n \<in> set (utf8 c)" for n
    proof -
      have "n div 16 < 16" "n mod 16 < 16" using u [OF that] by auto
      then show ?thesis using h by metis
    qed
    then show ?thesis using False by (auto simp: quote_char_def)
  qed
  then show ?thesis by (simp add: url_quote_def)
qed

text \<open>Saved observations do not collide and stay under their own directory: two scopes with one identifier are the same
  scope, a name with a slash or backslash or a dot name is refused, and the parts of an identifier contain no slash.\<close>

lemma observation_ids_apart:
  assumes "observation_artifact_id thread tool call = Inr i"
  shows "(observation_artifact_id thread' tool' call' = Inr i \<longrightarrow> thread' = thread \<and> tool' = tool \<and> call' = call) \<and>
    (\<exists>a b c. i = ''.tool-observations/s-'' @ a @ ''/s-'' @ b @ ''/s-'' @ c @ ''.txt'' \<and> CHR ''/'' \<notin> set a \<union> set b \<union> set c) \<and>
    CHR ''/'' \<notin> set thread \<and> thread \<noteq> ''..''"
proof -
  have i: "i = ''.tool-observations/'' @ join_with ''/'' (map (\<lambda>s. ''s-'' @ url_quote s) [thread, tool, call]) @ ''.txt''"
    and safe: "safe_observation_segment thread"
    using assms by (auto simp: observation_artifact_id_def split: if_splits)
  have split: "split_all CHR ''/'' (join_with ''/'' (map (\<lambda>s. ''s-'' @ url_quote s) [a, b, c])) = map (\<lambda>s. ''s-'' @ url_quote s) [a, b, c]" for a b c
    by (rule split_all_join) (simp_all add: url_quote_no_slash)
  have "thread' = thread \<and> tool' = tool \<and> call' = call" if "observation_artifact_id thread' tool' call' = Inr i"
  proof -
    have "i = ''.tool-observations/'' @ join_with ''/'' (map (\<lambda>s. ''s-'' @ url_quote s) [thread', tool', call']) @ ''.txt''"
      using that by (auto simp: observation_artifact_id_def split: if_splits)
    then have "map (\<lambda>s. ''s-'' @ url_quote s) [thread', tool', call'] = map (\<lambda>s. ''s-'' @ url_quote s) [thread, tool, call]"
      using i split by (metis append_same_eq same_append_eq)
    then show ?thesis by (auto dest: url_quote_inject)
  qed
  moreover have "i = ''.tool-observations/s-'' @ url_quote thread @ ''/s-'' @ url_quote tool @ ''/s-'' @ url_quote call @ ''.txt''"
    by (simp add: i)
  ultimately show ?thesis using safe url_quote_no_slash by (auto simp: safe_observation_segment_def)
qed

section \<open>Witnesses\<close>

definition ex_text_env :: text_env where
  "ex_text_env = \<lparr>te_dumps = \<lambda>v. ''{}'', te_dumps_spaced = \<lambda>v. ''{}'', te_loads = \<lambda>t. if t = ''{}'' then Some (PDict []) else None,
     te_str = \<lambda>v. [], te_encode = \<lambda>k t. None\<rparr>"

lemma ex_json_objects: "json_objects ex_text_env"
  by (simp add: json_objects_def ex_text_env_def)

definition ex_long_text :: string where
  "ex_long_text = concat (replicate 10 ''abcdefghij'')"

theorem trimmed_observation_bounded_witness:
  "\<exists>r s. trim_tool_observation ex_text_env ex_long_text [] [] None (Some 60) False False = Inr r \<and> length r \<le> 60 \<and>
     r \<noteq> ex_long_text \<and> trim_tool_observation ex_text_env ex_long_text [] [] None (Some 0) False False = Inr s \<and> s = ''a'' \<and> length s \<le> 1"
proof -
  have "trim_tool_observation ex_text_env ex_long_text [] [] None (Some 60) False False =
      Inr (''abcdefghijabcde'' @ [CHR 10] @ ''...[tool output trimmed]...'' @ [CHR 10] @ ''efghijabcdefghij'')" (is "_ = Inr ?r")
    by code_simp
  moreover have "trim_tool_observation ex_text_env ex_long_text [] [] None (Some 0) False False = Inr ''a''" by code_simp
  moreover have "?r \<noteq> ex_long_text" by code_simp
  ultimately show ?thesis
    using trimmed_observation_bounded [of ex_text_env ex_long_text "[]" "[]" None "Some 60" False False ?r 60]
      trimmed_observation_bounded [of ex_text_env ex_long_text "[]" "[]" None "Some 0" False False "''a''" 0] by auto
qed

theorem trim_succeeds_witness: "is_ok (trim_tool_observation ex_text_env ''abcd'' ''shell'' [] None (Some 2) True False)"
  by (rule trim_succeeds) (simp_all add: ex_json_objects)

theorem tiny_limit_raises_witness:
  "trim_tool_observation ex_text_env ''done'' ''shell'' [] None (Some 0) True False = Inl (ValueError ''JSONDecodeError'')"
  by (rule tiny_limit_raises) (simp_all add: ex_json_objects, simp add: ex_text_env_def)

lemma ex_observation_id: "observation_artifact_id ''t1'' ''shell'' ''c1'' = Inr ''.tool-observations/s-t1/s-shell/s-c1.txt''"
  by code_simp

theorem observation_ids_apart_witness:
  "observation_artifact_id ''t2'' ''shell'' ''c1'' \<noteq> Inr ''.tool-observations/s-t1/s-shell/s-c1.txt''"
  using observation_ids_apart [OF ex_observation_id, of "''t2''" "''shell''" "''c1''"] by auto

end
