(* ===== verification/PromptBudget.thy ===== *)
theory PromptBudget
  imports ObservationTrim
begin

text \<open>
  The guard that makes a prompt fit its budget before the model is called: \<open>core/context_prompt_budget.py\<close> and
  \<open>core/context/budget.py\<close>, with the headers and priorities of \<open>core/context_assembly_rendering.py\<close>. The caches
  of the counter do not show. The header of a plan in Chinese matches no text of the model and is left out.
\<close>

section \<open>Messages\<close>

datatype message_kind = HUMAN | SYSTEM | AI | TOOL

record prompt_message =
  pm_kind :: message_kind
  pm_content :: pyval
  pm_calls :: "pyval list"
  pm_call_id :: string
  pm_artifact :: pyval

definition set_content :: "prompt_message \<Rightarrow> string \<Rightarrow> prompt_message" where
  "set_content m t = m\<lparr>pm_content := PStr t\<rparr>"

definition has_calls :: "prompt_message \<Rightarrow> bool" where
  "has_calls m \<longleftrightarrow> pm_kind m = AI \<and> pm_calls m \<noteq> []"

definition text_for_budget :: "text_env \<Rightarrow> prompt_message \<Rightarrow> string" where
  "text_for_budget E m =
    (case pm_content m of PList vs \<Rightarrow> te_dumps_spaced E (PList vs) | v \<Rightarrow> text_of (te_str E) v) @
    (if has_calls m then newline # te_dumps_spaced E (PList (pm_calls m)) else [])"

section \<open>Blocks of a system text\<close>

text \<open>\<open>[b.strip() for b in text.split("\n\n") if b.strip()]\<close>\<close>

fun split_paragraphs :: "string \<Rightarrow> string \<Rightarrow> string list" where
  "split_paragraphs acc [] = [rev acc]"
| "split_paragraphs acc [c] = [rev (c # acc)]"
| "split_paragraphs acc (c # d # cs) = (if c = newline \<and> d = newline then rev acc # split_paragraphs [] cs
     else split_paragraphs (c # acc) (d # cs))"

definition split_context_blocks :: "string \<Rightarrow> string list" where
  "split_context_blocks t = filter (\<lambda>b. b \<noteq> []) (map py_strip (split_paragraphs [] t))"

datatype prompt_mode = EXPLORE | EXECUTE | SYNTHESIZE | BRANCH_REVIEW

definition mode_of_block :: "string \<Rightarrow> prompt_mode option" where
  "mode_of_block b = (let l = py_lower b in
     if \<not> starts_with ''## prompt mode'' l then None else if has_infix ''- execute'' l then Some EXECUTE
     else if has_infix ''- synthesize'' l then Some SYNTHESIZE else if has_infix ''- branch_review'' l then Some BRANCH_REVIEW else None)"

definition prompt_mode_from_blocks :: "string list \<Rightarrow> prompt_mode" where
  "prompt_mode_from_blocks bs = (case find (\<lambda>m. m \<noteq> None) (map mode_of_block bs) of Some (Some m) \<Rightarrow> m | _ \<Rightarrow> EXPLORE)"

definition header_prefixes :: "(string \<times> string) list" where
  "header_prefixes = [(''## constraints and goals'', ''constraints''), (''## pinned facts'', ''pinned''), (''## findings'', ''findings''),
     (''## approved branch conclusions'', ''approved_conclusions''),
     (''## imported findings already approved into this thread'', ''imported_findings''),
     (''## local branch findings pending upstream review'', ''branch_findings''), (''## artifacts in scope'', ''artifacts''),
     (''## prompt mode'', ''prompt_mode''), (''## branch scope'', ''branch_scope''), (''## branch brief'', ''branch_brief''),
     (''## scene'', ''scene''), (''## skill system'', ''skill_system''), (''## active skills'', ''active_skills''),
     (''## rolling summary'', ''summary''), (''## retrieved long-term memories'', ''memory''), (''<memory-context>'', ''memory''),
     (''## available skills'', ''available_skills'')]"

definition context_block_header :: "string \<Rightarrow> string" where
  "context_block_header b = (let l = py_lower b in
     if starts_with (rev ''(none)'') (rev l) then ''empty''
     else case find (\<lambda>(p, h). starts_with p l) header_prefixes of Some (p, h) \<Rightarrow> h | None \<Rightarrow> ''preamble'')"

definition base_priorities :: "(string, nat) dict" where
  "base_priorities = [(''constraints'', 0), (''approved_conclusions'', 0), (''imported_findings'', 1), (''findings'', 1), (''pinned'', 2),
     (''branch_findings'', 2), (''branch_brief'', 2), (''artifacts'', 3), (''preamble'', 3), (''scene'', 4), (''prompt_mode'', 4),
     (''branch_scope'', 4), (''skill_system'', 4), (''active_skills'', 4), (''memory'', 5), (''summary'', 5), (''available_skills'', 5)]"

definition mode_priorities :: "prompt_mode \<Rightarrow> (string, nat) dict" where
  "mode_priorities m = update_dict base_priorities (case m of
     SYNTHESIZE \<Rightarrow> [(''constraints'', 0), (''imported_findings'', 0), (''findings'', 0), (''pinned'', 1), (''memory'', 2), (''summary'', 4)]
   | BRANCH_REVIEW \<Rightarrow> [(''branch_findings'', 0), (''findings'', 0), (''artifacts'', 1), (''constraints'', 2)]
   | EXECUTE \<Rightarrow> [(''constraints'', 0), (''pinned'', 1), (''imported_findings'', 1), (''findings'', 1), (''artifacts'', 2)]
   | EXPLORE \<Rightarrow> [(''constraints'', 0), (''findings'', 1), (''branch_findings'', 1), (''imported_findings'', 1)])"

definition block_priority :: "string \<Rightarrow> prompt_mode \<Rightarrow> nat" where
  "block_priority b m = (let h = context_block_header b in if h = ''empty'' then 5 else get_or (mode_priorities m) h 5)"

section \<open>Cutting blocks\<close>

definition trim_marker :: string where
  "trim_marker = newline # ''...[trimmed]...'' @ [newline]"

definition truncate_block :: "string \<Rightarrow> int \<Rightarrow> string" where
  "truncate_block t n = (if n \<le> 0 then [] else if int (length t) \<le> n then t else if n \<le> 24 then take (nat n) t
     else cut_middle trim_marker (nat n) t)"

fun keep_lines :: "int \<Rightarrow> int \<Rightarrow> string list \<Rightarrow> string list \<times> nat" where
  "keep_lines n used [] = ([], 0)"
| "keep_lines n used (l # ls) = (let extra = int (length l) + 1 in
     if n < used + extra then (let (ks, om) = keep_lines n used ls in (ks, om + 1))
     else (let (ks, om) = keep_lines n (used + extra) ls in (l # ks, om)))"

text \<open>Of constraints the last bullet comes first. \<open>casefold\<close> agrees with \<open>lower\<close> on the prefix.\<close>

definition prioritized_lines :: "string \<Rightarrow> string list \<Rightarrow> string list" where
  "prioritized_lines header body = (let bullets = filter (starts_with ''- '') body in
     if starts_with ''## constraints and goals'' (py_lower header) \<and> bullets \<noteq> []
     then last bullets # filter (\<lambda>l. l \<noteq> last bullets) body else body)"

definition truncate_bulleted_block :: "string \<Rightarrow> int \<Rightarrow> string" where
  "truncate_bulleted_block t n =
    (let ls = map py_rstrip (py_splitlines t); header = py_strip (hd ls); body = filter (\<lambda>l. l \<noteq> []) (map py_strip (tl ls))
     in if length ls < 2 \<or> \<not> starts_with ''## '' (hd ls) \<or> body = [] then []
        else (let (kept, omitted) = keep_lines n (int (length header)) (prioritized_lines header body)
          in if kept = [] then (let note = header @ newline # ''- ...['' @ show_nat (length body) @ '' omitted]''
               in if int (length note) \<le> n then note else if int (length header) \<le> n then header else truncate_block header n)
             else (let r = join_with [newline] (header # kept); note = newline # ''- ...['' @ show_nat omitted @ '' more omitted]''
               in if omitted \<noteq> 0 \<and> int (length r + length note) \<le> n then r @ note else r)))"

definition truncate_context_block :: "string \<Rightarrow> int \<Rightarrow> string" where
  "truncate_context_block t n = (let s = truncate_bulleted_block t n in if s \<noteq> [] then s else truncate_block t n)"

definition minimum_truncation_budget :: "string \<Rightarrow> int" where
  "minimum_truncation_budget t = (let l = (case py_splitlines t of [] \<Rightarrow> [] | l # ls \<Rightarrow> py_strip l)
     in max 36 (min 96 (int (length l) + 8)))"

record block_state =
  bs_blocks :: "string list"
  bs_selected :: "nat list"
  bs_omitted :: bool
  bs_used :: int
  bs_units :: int

definition choose_block :: "text_env \<Rightarrow> context_budget \<Rightarrow> prompt_mode \<Rightarrow> int \<Rightarrow> int option \<Rightarrow> block_state \<Rightarrow> nat \<times> nat \<Rightarrow> block_state" where
  "choose_block E b mode n units s p = (case p of (priority, i) \<Rightarrow> let block = bs_blocks s ! i in
     if i \<in> set (bs_selected s) \<or> block_priority block mode \<noteq> priority then s
     else (let gap = (if bs_selected s \<noteq> [] then 2 else 0); extra = int (length block) + gap;
               extra_units = (case units of None \<Rightarrow> 0 | Some u \<Rightarrow> budget_units E b block);
               fits = (case units of None \<Rightarrow> True | Some u \<Rightarrow> bs_units s + extra_units \<le> u);
               remaining = n - bs_used s - gap
       in if bs_used s + extra \<le> n \<and> fits
          then s\<lparr>bs_selected := i # bs_selected s, bs_used := bs_used s + extra, bs_units := bs_units s + extra_units\<rparr>
          else if priority \<le> 3 \<and> minimum_truncation_budget block \<le> remaining
          then s\<lparr>bs_blocks := (bs_blocks s)[i := truncate_context_block block remaining], bs_selected := i # bs_selected s, bs_used := n,
                 bs_units := (case units of None \<Rightarrow> bs_units s | Some u \<Rightarrow> u)\<rparr>
          else s\<lparr>bs_omitted := True\<rparr>))"

definition joined_blocks :: "string list \<Rightarrow> nat list \<Rightarrow> string" where
  "joined_blocks blocks selected = join_with [newline, newline]
     (filter (\<lambda>b. b \<noteq> []) (map (\<lambda>i. blocks ! i) (filter (\<lambda>i. i \<in> set selected) [0..<length blocks])))"

definition trimming_note :: string where
  "trimming_note = newline # newline # ''## Context trimming'' @ newline # ''- Lower-priority context omitted to fit the prompt budget.''"

definition trim_system_text_by_blocks :: "text_env \<Rightarrow> context_budget \<Rightarrow> string \<Rightarrow> int \<Rightarrow> int option \<Rightarrow> string" where
  "trim_system_text_by_blocks E b t n target_units =
    (if n \<le> 0 then [] else if int (length t) \<le> n then t
     else (let blocks = split_context_blocks t; mode = prompt_mode_from_blocks blocks;
               s = foldl (choose_block E b mode n (map_option (max 0) target_units))
                 \<lparr>bs_blocks = blocks, bs_selected = [], bs_omitted = False, bs_used = 0, bs_units = 0\<rparr>
                 (List.product [0..<6] [0..<length blocks])
       in if bs_selected s = [] then truncate_block t n
          else (let r = joined_blocks (bs_blocks s) (bs_selected s);
                    r' = (if bs_omitted s \<and> int (length r + length trimming_note) \<le> n then r @ trimming_note else r)
            in if int (length r') \<le> n then r' else truncate_block r' n)))"

definition optional_headers :: "string list" where
  "optional_headers = [''summary'', ''memory'', ''available_skills'', ''empty'']"

definition choose_optional :: "text_env \<Rightarrow> context_budget \<Rightarrow> int \<Rightarrow> int \<Rightarrow> nat list \<times> int \<times> int \<Rightarrow> nat \<times> string \<Rightarrow> nat list \<times> int \<times> int" where
  "choose_optional E b n units s p = (case s of (selected, used, used_units) \<Rightarrow> case p of (i, block) \<Rightarrow>
     if i \<in> set selected then s
     else (let extra = int (length block) + (if selected \<noteq> [] then 2 else 0); extra_units = budget_units E b block
       in if n < used + extra \<or> units < used_units + extra_units then s else (i # selected, used + extra, used_units + extra_units)))"

definition trim_system_text_preserving :: "text_env \<Rightarrow> context_budget \<Rightarrow> string \<Rightarrow> int \<Rightarrow> int \<Rightarrow> string" where
  "trim_system_text_preserving E b t n units =
    (let blocks = split_context_blocks t;
         required = map fst (filter (\<lambda>(i, bl). context_block_header bl \<notin> set optional_headers) (enumerate 0 blocks));
         used = sum_list (map (\<lambda>i. int (length (blocks ! i))) required) + max 0 (int (length required) - 1) * 2;
         used_units = sum_list (map (\<lambda>i. budget_units E b (blocks ! i)) required);
         (selected, _, _) = foldl (choose_optional E b n units) (required, used, used_units) (enumerate 0 blocks)
     in if blocks = [] then t else joined_blocks blocks selected)"

section \<open>The size of a prompt\<close>

definition system_units :: "text_env \<Rightarrow> context_budget \<Rightarrow> string \<Rightarrow> int" where
  "system_units E b t = (let blocks = split_context_blocks t
     in if blocks = [] then budget_units E b t else sum_list (map (budget_units E b) blocks))"

definition message_units :: "text_env \<Rightarrow> context_budget \<Rightarrow> prompt_message \<Rightarrow> int" where
  "message_units E b m = (if pm_kind m = SYSTEM then system_units E b (py_str (te_str E) (pm_content m))
     else budget_units E b (text_for_budget E m))"

definition prompt_units :: "text_env \<Rightarrow> context_budget \<Rightarrow> prompt_message list \<Rightarrow> int" where
  "prompt_units E b ms = sum_list (map (message_units E b) ms)"

definition prompt_char_limit :: "context_budget \<Rightarrow> int" where
  "prompt_char_limit b = max 1 (bu_prompt_tokens b * max 1 (bu_chars_per_token b))"

definition prompt_char_count :: "text_env \<Rightarrow> prompt_message list \<Rightarrow> int" where
  "prompt_char_count E ms = sum_list (map (\<lambda>m. int (length (text_for_budget E m))) ms)"

definition enforce_chars :: "context_budget \<Rightarrow> bool" where
  "enforce_chars b \<longleftrightarrow> bu_mode b \<noteq> TOKENIZER_FIRST \<or> \<not> given (bu_tokenizer b) \<or> bu_chars_per_token b \<le> 1"

definition within_prompt_budget :: "text_env \<Rightarrow> context_budget \<Rightarrow> prompt_message list \<Rightarrow> bool" where
  "within_prompt_budget E b ms \<longleftrightarrow> prompt_units E b ms \<le> bu_prompt_tokens b \<and>
     (enforce_chars b \<longrightarrow> prompt_char_count E ms \<le> prompt_char_limit b)"

section \<open>What must stay\<close>

definition latest_human_index :: "prompt_message list \<Rightarrow> nat option" where
  "latest_human_index ms = find (\<lambda>i. pm_kind (ms ! i) = HUMAN) (rev [0..<length ms])"

definition trailing_tools :: "prompt_message list \<Rightarrow> nat" where
  "trailing_tools ms = length (takeWhile (\<lambda>m. pm_kind m = TOOL) (rev ms))"

definition trailing_tool_span_start :: "prompt_message list \<Rightarrow> nat option" where
  "trailing_tool_span_start ms = (let n = length ms - trailing_tools ms
     in if n = 0 then None else if has_calls (ms ! (n - 1)) then Some (n - 1) else None)"

definition mandatory :: "prompt_message list \<Rightarrow> nat \<Rightarrow> bool" where
  "mandatory ms i \<longleftrightarrow> pm_kind (ms ! i) = SYSTEM \<or> latest_human_index ms = Some i \<or>
     (case trailing_tool_span_start ms of None \<Rightarrow> False | Some k \<Rightarrow> k \<le> i)"

text \<open>A call and the results that follow it are one unit.\<close>

definition add_to_units :: "prompt_message list \<Rightarrow> nat list list \<Rightarrow> nat \<Rightarrow> nat list list" where
  "add_to_units ms units i = (if units \<noteq> [] \<and> pm_kind (ms ! i) = TOOL \<and> has_calls (ms ! hd (last units))
     then butlast units @ [last units @ [i]] else units @ [[i]])"

definition history_units :: "prompt_message list \<Rightarrow> nat list list" where
  "history_units ms = foldl (add_to_units ms) [] [0..<length ms]"

definition without :: "'a list \<Rightarrow> nat list \<Rightarrow> 'a list" where
  "without ms dropped = map (\<lambda>i. ms ! i) (filter (\<lambda>i. i \<notin> set dropped) [0..<length ms])"

fun drop_units :: "text_env \<Rightarrow> context_budget \<Rightarrow> prompt_message list \<Rightarrow> nat list \<Rightarrow> nat list list \<Rightarrow> nat list" where
  "drop_units E b ms dropped [] = dropped"
| "drop_units E b ms dropped (u # us) = (if list_ex (mandatory ms) u then drop_units E b ms dropped us
     else if within_prompt_budget E b (without ms dropped) then dropped
     else drop_units E b ms (dropped @ u) us)"

definition drop_oldest_history_to_fit :: "text_env \<Rightarrow> context_budget \<Rightarrow> prompt_message list \<Rightarrow> prompt_message list" where
  "drop_oldest_history_to_fit E b ms = without ms (drop_units E b ms [] (history_units ms))"

section \<open>Tool messages\<close>

definition artifact_value :: "prompt_message \<Rightarrow> string \<Rightarrow> pyval" where
  "artifact_value m k = (case pm_artifact m of PDict d \<Rightarrow> dict_value d k | _ \<Rightarrow> PNone)"

definition tool_name_of :: "prompt_message \<Rightarrow> string" where
  "tool_name_of m = (case artifact_value m ''tool_name'' of PStr s \<Rightarrow> s
     | _ \<Rightarrow> (case artifact_value m ''tool'' of PDict d \<Rightarrow> (case dict_value d ''name'' of PStr s \<Rightarrow> s | _ \<Rightarrow> []) | _ \<Rightarrow> []))"

definition was_runtime_compacted :: "prompt_message \<Rightarrow> int \<Rightarrow> bool" where
  "was_runtime_compacted m n = (case artifact_value m ''runtime'' of
     PDict d \<Rightarrow> if truthy (dict_value d ''observation_existing_artifact'') then False
       else if truthy (dict_value d ''observation_prompt_compacted'') then True
       else (case dict_value d ''observation_original_chars'' of PInt c \<Rightarrow> n < c | PBool c \<Rightarrow> n < (if c then 1 else 0) | _ \<Rightarrow> False)
   | _ \<Rightarrow> False)"

definition prompt_observation :: "prompt_message \<Rightarrow> string" where
  "prompt_observation m = (case artifact_value m ''prompt_observation'' of PStr s \<Rightarrow> s | _ \<Rightarrow> [])"

definition trim_message :: "text_env \<Rightarrow> context_budget \<Rightarrow> prompt_message \<Rightarrow> py_error + prompt_message" where
  "trim_message E b m =
    (if pm_kind m \<noteq> TOOL then Inr m
     else (let view = prompt_observation m
       in bind_ok (if view \<noteq> [] then (if observation_fits E b (observation_char_limit b) True view then Inr view
              else trim_tool_observation E view (tool_name_of m) (pm_call_id m) (Some b) None True False)
            else trim_tool_observation E (py_str (te_str E) (pm_content m)) (tool_name_of m) (pm_call_id m) (Some b) None True
              (was_runtime_compacted m (observation_char_limit b)))
         (\<lambda>t. Inr (if PStr t = pm_content m \<and> view = [] then m else set_content m t))))"

text \<open>The characters a message must have for the prompt to fit\<close>

definition overflow_target :: "text_env \<Rightarrow> context_budget \<Rightarrow> prompt_message list \<Rightarrow> string \<Rightarrow> int" where
  "overflow_target E b ms current =
    (let units = max 0 (prompt_units E b ms - bu_prompt_tokens b);
         chars = (if enforce_chars b then max 0 (prompt_char_count E ms - prompt_char_limit b) else 0)
     in int (length current) - max (units_to_char_budget b units) chars - 16)"

definition trim_tool_to :: "text_env \<Rightarrow> context_budget \<Rightarrow> prompt_message \<Rightarrow> int \<Rightarrow> py_error + string" where
  "trim_tool_to E b m target = trim_tool_observation E (text_for_budget E m) (tool_name_of m) (pm_call_id m) (Some b) (Some target) True
     (was_runtime_compacted m target)"

fun shrink_tools :: "text_env \<Rightarrow> context_budget \<Rightarrow> nat list \<Rightarrow> prompt_message list \<Rightarrow> py_error + prompt_message list" where
  "shrink_tools E b [] ms = Inr ms"
| "shrink_tools E b (i # is) ms =
    (if within_prompt_budget E b ms then Inr ms
     else if pm_kind (ms ! i) \<noteq> TOOL then shrink_tools E b is ms
     else bind_ok (trim_tool_to E b (ms ! i) (max 200 (overflow_target E b ms (text_for_budget E (ms ! i)))))
       (\<lambda>t. shrink_tools E b is (ms[i := set_content (ms ! i) t])))"

definition shrink_tool_messages_to_fit :: "text_env \<Rightarrow> context_budget \<Rightarrow> prompt_message list \<Rightarrow> py_error + prompt_message list" where
  "shrink_tool_messages_to_fit E b ms = shrink_tools E b (rev [0..<length ms]) ms"

section \<open>The hard limit\<close>

definition hard_limit_order :: "prompt_message list \<Rightarrow> nat list" where
  "hard_limit_order ms =
    (let down = rev [0..<length ms]; human = latest_human_index ms
     in filter (\<lambda>i. pm_kind (ms ! i) = TOOL) down @ filter (\<lambda>i. pm_kind (ms ! i) = SYSTEM) down @
        filter (\<lambda>i. human \<noteq> Some i \<and> pm_kind (ms ! i) \<noteq> SYSTEM \<and> pm_kind (ms ! i) \<noteq> TOOL) down @
        (case human of None \<Rightarrow> [] | Some i \<Rightarrow> [i]))"

definition hard_content :: "text_env \<Rightarrow> context_budget \<Rightarrow> prompt_message list \<Rightarrow> prompt_message \<Rightarrow> py_error + string" where
  "hard_content E b ms m = (let current = text_for_budget E m; target = max 0 (overflow_target E b ms current) in
     if pm_kind m = TOOL then trim_tool_to E b m target
     else if pm_kind m = SYSTEM then Inr (truncate_context_block current target) else Inr (truncate_block current target))"

fun hard_limit :: "text_env \<Rightarrow> context_budget \<Rightarrow> (nat \<Rightarrow> bool) \<Rightarrow> nat list \<Rightarrow> prompt_message list \<Rightarrow> py_error + prompt_message list" where
  "hard_limit E b required [] ms = Inr ms"
| "hard_limit E b required (i # is) ms =
    (if required i then hard_limit E b required is ms
     else if within_prompt_budget E b ms then Inr ms
     else bind_ok (hard_content E b ms (ms ! i)) (\<lambda>t. hard_limit E b required is (ms[i := set_content (ms ! i) t])))"

definition hard_limit_prompt_messages :: "text_env \<Rightarrow> context_budget \<Rightarrow> bool \<Rightarrow> prompt_message list \<Rightarrow> py_error + prompt_message list" where
  "hard_limit_prompt_messages E b preserve ms = hard_limit E b (\<lambda>i. preserve \<and> mandatory ms i) (hard_limit_order ms) ms"

section \<open>The guard\<close>

definition first_system_index :: "prompt_message list \<Rightarrow> nat option" where
  "first_system_index ms = find (\<lambda>i. pm_kind (ms ! i) = SYSTEM) [0..<length ms]"

definition protected_messages :: "prompt_message list \<Rightarrow> prompt_message list" where
  "protected_messages ms = map (\<lambda>i. ms ! i) (filter (\<lambda>i. mandatory ms i \<and> pm_kind (ms ! i) \<noteq> SYSTEM) [0..<length ms])"

definition system_targets :: "text_env \<Rightarrow> context_budget \<Rightarrow> prompt_message list \<Rightarrow> int \<times> int" where
  "system_targets E b others = (let units = max 0 (bu_prompt_tokens b - prompt_units E b others); chars = units_to_char_budget b units
     in (units, if enforce_chars b then min chars (max 0 (prompt_char_limit b - prompt_char_count E others)) else chars))"

definition trim_main_system :: "text_env \<Rightarrow> context_budget \<Rightarrow> bool \<Rightarrow> prompt_message list \<Rightarrow> prompt_message list" where
  "trim_main_system E b preserve ms = (case first_system_index ms of None \<Rightarrow> ms | Some i \<Rightarrow>
     (let (units, chars) = system_targets E b (protected_messages ms); t = text_for_budget E (ms ! i)
      in ms[i := set_content (ms ! i) (if preserve then trim_system_text_preserving E b t chars units
            else trim_system_text_by_blocks E b t chars (Some units))]))"

definition apply_prompt_budget_guard :: "text_env \<Rightarrow> context_budget \<Rightarrow> bool \<Rightarrow> prompt_message list \<Rightarrow> py_error + prompt_message list" where
  "apply_prompt_budget_guard E b preserve ms = bind_ok (map_ok (trim_message E b) ms) (\<lambda>g.
     if within_prompt_budget E b g then Inr g
     else (let s = trim_main_system E b preserve g in
       if within_prompt_budget E b s then Inr s
       else (let d = drop_oldest_history_to_fit E b s in
         if within_prompt_budget E b d then Inr d
         else bind_ok (shrink_tool_messages_to_fit E b d) (\<lambda>t.
           if within_prompt_budget E b t then Inr t else hard_limit_prompt_messages E b preserve t))))"

text \<open>With a tokenizer several system messages are shortened before the guard, the first one first, then the last ones.\<close>

definition trim_system_to_units :: "text_env \<Rightarrow> context_budget \<Rightarrow> prompt_message \<Rightarrow> prompt_message list \<Rightarrow> prompt_message" where
  "trim_system_to_units E b m others = (let (units, chars) = system_targets E b others
     in set_content m (trim_system_text_by_blocks E b (text_for_budget E m) chars (Some units)))"

fun trim_other_systems :: "text_env \<Rightarrow> context_budget \<Rightarrow> nat list \<Rightarrow> prompt_message list \<Rightarrow> prompt_message list" where
  "trim_other_systems E b [] ms = ms"
| "trim_other_systems E b (i # is) ms = (if within_prompt_budget E b ms then ms
     else trim_other_systems E b is (ms[i := trim_system_to_units E b (ms ! i) (without ms [i])]))"

definition system_indices :: "prompt_message list \<Rightarrow> nat list" where
  "system_indices ms = filter (\<lambda>i. pm_kind (ms ! i) = SYSTEM) [0..<length ms]"

definition prioritize_system_messages :: "text_env \<Rightarrow> context_budget \<Rightarrow> bool \<Rightarrow> prompt_message list \<Rightarrow> py_error + prompt_message list" where
  "prioritize_system_messages E b preserve ms =
    (if bu_mode b \<noteq> TOKENIZER_FIRST then Inr ms
     else bind_ok (map_ok (trim_message E b) ms) (\<lambda>g.
       if preserve \<or> length (system_indices g) \<le> 1 \<or> within_prompt_budget E b g then Inr g
       else (let i = hd (system_indices g); g' = g[i := trim_system_to_units E b (g ! i) (protected_messages g)]
         in Inr (trim_other_systems E b (rev (tl (system_indices g))) g'))))"

definition guard_prompt :: "text_env \<Rightarrow> context_budget \<Rightarrow> bool \<Rightarrow> prompt_message list \<Rightarrow> py_error + prompt_message list" where
  "guard_prompt E b preserve ms = bind_ok (prioritize_system_messages E b preserve ms) (apply_prompt_budget_guard E b preserve)"

end
