(* ===== verification/PromptSafety.thy ===== *)
theory PromptSafety
  imports PromptBudget
begin

text \<open>What the guard of \<open>PromptBudget\<close> promises.\<close>

section \<open>Lengths\<close>

lemma truncate_block_bound: "0 \<le> n \<Longrightarrow> int (length (truncate_block t n)) \<le> n"
proof (cases "int (length t) \<le> n \<or> n \<le> 24")
  case True
  then show ?thesis if "0 \<le> n" using that by (auto simp: truncate_block_def)
next
  case False
  moreover have "length trim_marker = 17" by (simp add: trim_marker_def)
  ultimately have "length trim_marker < nat n" "2 \<le> nat n - length trim_marker" by linarith+
  then have "length (cut_middle trim_marker (nat n) t) \<le> nat n" by (rule length_cut_middle)
  then have "int (length (cut_middle trim_marker (nat n) t)) \<le> n" using False by linarith
  then show ?thesis using False by (simp add: truncate_block_def)
qed

lemma length_join_newline: "xs \<noteq> [] \<Longrightarrow> length (join_with [c] xs) + 1 = sum_list (map (\<lambda>x. length x + 1) xs)"
  by (induction xs rule: induct_list012) auto

lemma keep_lines_used: "keep_lines n used ls = (ks, om) \<Longrightarrow> ks \<noteq> [] \<Longrightarrow> used + int (sum_list (map (\<lambda>x. length x + 1) ks)) \<le> n"
proof (induction ls arbitrary: used ks om)
  case (Cons l ls)
  show ?case
  proof (cases "n < used + (int (length l) + 1)")
    case True
    then show ?thesis using Cons by (auto simp: Let_def split: prod.splits)
  next
    case False
    obtain ks' om' where k: "keep_lines n (used + (int (length l) + 1)) ls = (ks', om')" by (cases "keep_lines n (used + (int (length l) + 1)) ls")
    then have "ks = l # ks'" using Cons.prems False by (simp add: Let_def)
    then show ?thesis using Cons.IH [OF k] False by (cases "ks' = []") auto
  qed
qed simp

lemma truncate_bulleted_bound: "0 \<le> n \<Longrightarrow> int (length (truncate_bulleted_block t n)) \<le> n"
proof -
  assume n: "0 \<le> n"
  define ls header body where "ls = map py_rstrip (py_splitlines t)" and "header = py_strip (hd ls)"
    and "body = filter (\<lambda>l. l \<noteq> []) (map py_strip (tl ls))"
  obtain kept om where k: "keep_lines n (int (length header)) (prioritized_lines header body) = (kept, om)"
    by (cases "keep_lines n (int (length header)) (prioritized_lines header body)")
  show ?thesis
  proof (cases "kept = []")
    case True
    then show ?thesis using n k truncate_block_bound [OF n, of header]
      unfolding truncate_bulleted_block_def ls_def [symmetric] Let_def header_def [symmetric] body_def [symmetric] by auto
  next
    case False
    have "int (length header) + int (sum_list (map (\<lambda>x. length x + 1) kept)) \<le> n" using keep_lines_used [OF k False] .
    then have "int (length (join_with [newline] (header # kept))) \<le> n"
      using length_join_newline [of "header # kept" newline] by simp
    then show ?thesis using n k False
      unfolding truncate_bulleted_block_def ls_def [symmetric] Let_def header_def [symmetric] body_def [symmetric] by auto
  qed
qed

lemma truncate_context_block_bound: "0 \<le> n \<Longrightarrow> int (length (truncate_context_block t n)) \<le> n"
  by (simp add: truncate_context_block_def Let_def truncate_bulleted_bound truncate_block_bound)

text \<open>A system text that is cut by blocks is never longer than the characters it was given.\<close>

lemma system_text_bounded: "0 \<le> n \<Longrightarrow> int (length (trim_system_text_by_blocks E b t n units)) \<le> n"
  by (auto simp: trim_system_text_by_blocks_def Let_def truncate_block_bound)

theorem system_text_bounded_witness: "int (length (trim_system_text_by_blocks ex_text_env default_budget ''## Scene'' 3 (Some 1))) \<le> 3"
  by (rule system_text_bounded) simp

section \<open>Units of history\<close>

definition units_ok :: "prompt_message list \<Rightarrow> nat \<Rightarrow> nat list list \<Rightarrow> bool" where
  "units_ok ms m us \<longleftrightarrow> concat us = [0..<m] \<and> [] \<notin> set us \<and>
     (\<forall>i. i < m \<longrightarrow> has_calls (ms ! i) \<longrightarrow> (\<forall>k. i < k \<and> k < m \<longrightarrow> pm_kind (ms ! k) = TOOL) \<longrightarrow> us \<noteq> [] \<and> hd (last us) = i) \<and>
     (\<forall>i j. i < j \<longrightarrow> j < m \<longrightarrow> has_calls (ms ! i) \<longrightarrow> (\<forall>k. i < k \<and> k \<le> j \<longrightarrow> pm_kind (ms ! k) = TOOL) \<longrightarrow>
        (\<exists>u \<in> set us. i \<in> set u \<and> j \<in> set u))"

lemma add_to_units_ok:
  assumes "units_ok ms m us"
  shows "units_ok ms (Suc m) (add_to_units ms us m)"
proof -
  have c: "concat us = [0..<m]" "[] \<notin> set us"
    and open_unit: "\<And>i. i < m \<Longrightarrow> has_calls (ms ! i) \<Longrightarrow> (\<And>k. i < k \<Longrightarrow> k < m \<Longrightarrow> pm_kind (ms ! k) = TOOL) \<Longrightarrow> us \<noteq> [] \<and> hd (last us) = i"
    and same: "\<And>i j. i < j \<Longrightarrow> j < m \<Longrightarrow> has_calls (ms ! i) \<Longrightarrow> (\<And>k. i < k \<Longrightarrow> k \<le> j \<Longrightarrow> pm_kind (ms ! k) = TOOL) \<Longrightarrow>
        (\<exists>u \<in> set us. i \<in> set u \<and> j \<in> set u)"
    using assms unfolding units_ok_def by blast+
  let ?us = "add_to_units ms us m"
  have no_tool: "pm_kind (ms ! i) \<noteq> TOOL" if "has_calls (ms ! i)" for i using that by (auto simp: has_calls_def)
  show ?thesis
  proof (cases "us \<noteq> [] \<and> pm_kind (ms ! m) = TOOL \<and> has_calls (ms ! hd (last us))")
    case True
    then have e: "?us = butlast us @ [last us @ [m]]" by (simp add: add_to_units_def)
    have u: "us = butlast us @ [last us]" using True by simp
    have l: "last us \<noteq> []" using c(2) True last_in_set by metis
    have "concat ?us = concat us @ [m]" unfolding e by (subst u) simp
    moreover have "[] \<notin> set ?us" using c(2) unfolding e by (auto dest: in_set_butlastD)
    moreover have "?us \<noteq> [] \<and> hd (last ?us) = i"
      if "i < Suc m" "has_calls (ms ! i)" "\<forall>k. i < k \<and> k < Suc m \<longrightarrow> pm_kind (ms ! k) = TOOL" for i
    proof -
      have "i < m" using that True no_tool by (metis less_Suc_eq)
      then have "hd (last us) = i" using open_unit that by simp
      then show ?thesis using e l by simp
    qed
    moreover have "\<exists>u \<in> set ?us. i \<in> set u \<and> j \<in> set u"
      if "i < j" "j < Suc m" "has_calls (ms ! i)" "\<forall>k. i < k \<and> k \<le> j \<longrightarrow> pm_kind (ms ! k) = TOOL" for i j
    proof (cases "j < m")
      case True
      have "\<exists>u \<in> set us. i \<in> set u \<and> j \<in> set u" by (rule same) (use that True in auto)
      then obtain v where v: "v \<in> set us" "i \<in> set v" "j \<in> set v" by blast
      have "set us = set (butlast us) \<union> {last us}" by (subst u) simp
      with v(1) consider "v \<in> set (butlast us)" | "v = last us" by blast
      then show ?thesis unfolding e using v(2,3) by cases auto
    next
      case False
      then have "j = m" "i < m" using that by auto
      then have "hd (last us) = i" using open_unit that by simp
      then have "i \<in> set (last us)" using l by (metis hd_in_set)
      then show ?thesis using \<open>j = m\<close> unfolding e by auto
    qed
    ultimately show ?thesis using c(1) unfolding units_ok_def by simp
  next
    case False
    then have e: "?us = us @ [[m]]" unfolding add_to_units_def by (rule if_not_P)
    have "?us \<noteq> [] \<and> hd (last ?us) = i"
      if "i < Suc m" "has_calls (ms ! i)" "\<forall>k. i < k \<and> k < Suc m \<longrightarrow> pm_kind (ms ! k) = TOOL" for i
    proof (cases "i = m")
      case False': False
      then have "i < m" using that(1) by simp
      then have "us \<noteq> [] \<and> hd (last us) = i" by (rule open_unit) (use that in auto)
      moreover have "pm_kind (ms ! m) = TOOL" using that(3) \<open>i < m\<close> by simp
      ultimately show ?thesis using False that(2) by blast
    qed (simp add: e)
    moreover have "\<exists>u \<in> set ?us. i \<in> set u \<and> j \<in> set u"
      if "i < j" "j < Suc m" "has_calls (ms ! i)" "\<forall>k. i < k \<and> k \<le> j \<longrightarrow> pm_kind (ms ! k) = TOOL" for i j
    proof (cases "j < m")
      case True
      have "\<exists>u \<in> set us. i \<in> set u \<and> j \<in> set u" by (rule same) (use that True in auto)
      then show ?thesis unfolding e by auto
    next
      case False': False
      then have "j = m" "i < m" using that by auto
      have "us \<noteq> [] \<and> hd (last us) = i" using \<open>i < m\<close> that(3) by (rule open_unit) (use that \<open>j = m\<close> in auto)
      moreover have "pm_kind (ms ! m) = TOOL" using that(1,4) \<open>j = m\<close> by simp
      ultimately show ?thesis using False that(3) by blast
    qed
    ultimately show ?thesis using c unfolding units_ok_def by (simp add: e)
  qed
qed

lemma history_units_ok: "units_ok ms (length ms) (history_units ms)"
proof -
  have "units_ok ms m (foldl (add_to_units ms) [] [0..<m])" for m
    by (induction m) (simp_all add: units_ok_def [of _ 0] add_to_units_ok)
  then show ?thesis by (simp add: history_units_def)
qed

lemma drop_units_subset: "\<exists>vs. set vs \<subseteq> set us \<and> set (drop_units E b ms dropped us) = set dropped \<union> set (concat vs) \<and>
    (\<forall>v \<in> set vs. \<not> list_ex (mandatory ms) v)"
proof (induction us arbitrary: dropped)
  case Nil
  then show ?case by (intro exI [of _ "[]"]) simp
next
  case (Cons u us)
  show ?case
  proof (cases "list_ex (mandatory ms) u")
    case True
    obtain vs where "set vs \<subseteq> set us" "set (drop_units E b ms dropped us) = set dropped \<union> set (concat vs)"
      "\<forall>v \<in> set vs. \<not> list_ex (mandatory ms) v" using Cons.IH by blast
    then show ?thesis using True by (intro exI [of _ vs]) auto
  next
    case no: False
    show ?thesis
    proof (cases "within_prompt_budget E b (without ms dropped)")
      case True
      then show ?thesis using no by (intro exI [of _ "[]"]) simp
    next
      case False
      obtain vs where "set vs \<subseteq> set us" "set (drop_units E b ms (dropped @ u) us) = set (dropped @ u) \<union> set (concat vs)"
        "\<forall>v \<in> set vs. \<not> list_ex (mandatory ms) v" using Cons.IH by blast
      then show ?thesis using no False by (intro exI [of _ "u # vs"]) auto
    qed
  qed
qed

lemma units_disjoint: "distinct (concat us) \<Longrightarrow> u \<in> set us \<Longrightarrow> v \<in> set us \<Longrightarrow> i \<in> set u \<Longrightarrow> i \<in> set v \<Longrightarrow> u = v"
  by (induction us) (auto simp: disjoint_iff)

definition dropped_indices :: "text_env \<Rightarrow> context_budget \<Rightarrow> prompt_message list \<Rightarrow> nat set" where
  "dropped_indices E b ms = set (drop_units E b ms [] (history_units ms))"

lemma drop_oldest_indices:
  "drop_oldest_history_to_fit E b ms = map (\<lambda>i. ms ! i) (filter (\<lambda>i. i \<notin> dropped_indices E b ms) [0..<length ms])"
  by (simp add: drop_oldest_history_to_fit_def without_def dropped_indices_def)

lemma dropped_not_mandatory: "i \<in> dropped_indices E b ms \<Longrightarrow> \<not> mandatory ms i"
  using drop_units_subset [of "history_units ms" E b ms "[]"] by (auto simp: dropped_indices_def list_ex_iff)

lemma dropped_whole_units:
  assumes "i < j" "j < length ms" "has_calls (ms ! i)" "\<forall>k. i < k \<and> k \<le> j \<longrightarrow> pm_kind (ms ! k) = TOOL"
  shows "i \<in> dropped_indices E b ms \<longleftrightarrow> j \<in> dropped_indices E b ms"
proof -
  obtain vs where vs: "set vs \<subseteq> set (history_units ms)" "dropped_indices E b ms = set (concat vs)"
    using drop_units_subset [of "history_units ms" E b ms "[]"] by (auto simp: dropped_indices_def)
  obtain u where u: "u \<in> set (history_units ms)" "i \<in> set u" "j \<in> set u"
    using history_units_ok [of ms] assms unfolding units_ok_def by blast
  have "distinct (concat (history_units ms))" using history_units_ok [of ms] unfolding units_ok_def by simp
  then have same: "u = v" if "v \<in> set vs" "i \<in> set v \<or> j \<in> set v" for v
    using that(2) units_disjoint [OF _ u(1) subsetD [OF vs(1) that(1)]] u(2,3) by (elim disjE)
  show ?thesis unfolding vs(2) set_concat UN_iff using same u(2,3) by blast
qed

text \<open>C35: When history is dropped to make room, what is kept stays in order; system messages, the latest human message and the
  tool calls under way stay; and a call and the results that follow it are kept or dropped together.\<close>

theorem dropped_history_paired:
  "\<exists>D. drop_oldest_history_to_fit E b ms = map (\<lambda>i. ms ! i) (filter (\<lambda>i. i \<notin> D) [0..<length ms]) \<and>
    (\<forall>i \<in> D. \<not> mandatory ms i) \<and>
    (\<forall>i j. i < j \<and> j < length ms \<and> has_calls (ms ! i) \<and> (\<forall>k. i < k \<and> k \<le> j \<longrightarrow> pm_kind (ms ! k) = TOOL) \<longrightarrow> (i \<in> D \<longleftrightarrow> j \<in> D))"
proof (intro exI [of _ "dropped_indices E b ms"] conjI)
  show "\<forall>i \<in> dropped_indices E b ms. \<not> mandatory ms i" using dropped_not_mandatory by blast
  show "\<forall>i j. i < j \<and> j < length ms \<and> has_calls (ms ! i) \<and> (\<forall>k. i < k \<and> k \<le> j \<longrightarrow> pm_kind (ms ! k) = TOOL) \<longrightarrow>
      (i \<in> dropped_indices E b ms \<longleftrightarrow> j \<in> dropped_indices E b ms)"
  proof (intro allI impI)
    fix i j
    assume a: "i < j \<and> j < length ms \<and> has_calls (ms ! i) \<and> (\<forall>k. i < k \<and> k \<le> j \<longrightarrow> pm_kind (ms ! k) = TOOL)"
    then have "i < j" "j < length ms" "has_calls (ms ! i)" "\<forall>k. i < k \<and> k \<le> j \<longrightarrow> pm_kind (ms ! k) = TOOL" by blast+
    then show "i \<in> dropped_indices E b ms \<longleftrightarrow> j \<in> dropped_indices E b ms" by (rule dropped_whole_units)
  qed
qed (rule drop_oldest_indices)

section \<open>The latest request\<close>

definition latest_human :: "prompt_message list \<Rightarrow> prompt_message option" where
  "latest_human ms = find (\<lambda>m. pm_kind m = HUMAN) (rev ms)"

lemma find_map_nth: "find P (map f xs) = map_option f (find (\<lambda>x. P (f x)) xs)"
  by (induction xs) auto

lemma find_filter_kept: "(\<And>x. find P xs = Some x \<Longrightarrow> Q x) \<Longrightarrow> find P (filter Q xs) = find P xs"
  by (induction xs) (auto split: if_splits)

lemma latest_human_at: "latest_human ms = map_option (\<lambda>i. ms ! i) (latest_human_index ms)"
proof -
  have "rev ms = map (\<lambda>i. ms ! i) (rev [0..<length ms])" by (metis map_nth rev_map)
  then show ?thesis by (simp only: latest_human_def latest_human_index_def find_map_nth)
qed

lemma latest_human_index_less: "latest_human_index ms = Some i \<Longrightarrow> i < length ms"
  by (auto simp: latest_human_index_def find_Some_iff rev_nth)

lemma latest_human_index_human: "latest_human_index ms = Some i \<Longrightarrow> pm_kind (ms ! i) = HUMAN"
  by (auto simp: latest_human_index_def find_Some_iff)

lemma latest_human_index_kinds: "map pm_kind ms' = map pm_kind ms \<Longrightarrow> latest_human_index ms' = latest_human_index ms"
proof -
  assume k: "map pm_kind ms' = map pm_kind ms"
  then have l: "length ms' = length ms" by (rule map_eq_imp_length_eq)
  have "pm_kind (ms' ! i) = pm_kind (ms ! i)" if "i < length ms" for i using k l that by (metis nth_map)
  then show ?thesis unfolding latest_human_index_def l by (intro find_cong) auto
qed

definition keeps_human :: "prompt_message list \<Rightarrow> prompt_message list \<Rightarrow> bool" where
  "keeps_human ms ms' \<longleftrightarrow> map pm_kind ms' = map pm_kind ms \<and> (\<forall>i. latest_human_index ms = Some i \<longrightarrow> ms' ! i = ms ! i)"

lemma keeps_human_refl [simp]: "keeps_human ms ms"
  by (simp add: keeps_human_def)

lemma keeps_human_trans: "keeps_human a b \<Longrightarrow> keeps_human b c \<Longrightarrow> keeps_human a c"
  unfolding keeps_human_def using latest_human_index_kinds by metis

lemma keeps_human_latest: "keeps_human ms ms' \<Longrightarrow> latest_human ms' = latest_human ms"
  using latest_human_index_kinds [of ms' ms] by (cases "latest_human_index ms") (auto simp: keeps_human_def latest_human_at)

lemma keeps_human_update:
  "pm_kind m = pm_kind (ms ! i) \<Longrightarrow> latest_human_index ms \<noteq> Some i \<Longrightarrow> keeps_human ms (ms[i := m])"
  by (auto simp: keeps_human_def map_update) (metis list_update_id map_update)

lemma set_content_kind [simp]: "pm_kind (set_content m t) = pm_kind m"
  by (simp add: set_content_def)

lemma trim_messages_keep_human: "map_ok (trim_message E b) ms = Inr g \<Longrightarrow> keeps_human ms g"
proof -
  assume m: "map_ok (trim_message E b) ms = Inr g"
  have kind: "pm_kind m' = pm_kind m" if "trim_message E b m = Inr m'" for m m'
    using that by (auto simp: trim_message_def Let_def bind_ok_Inr_iff split: if_splits)
  have human: "m' = m" if "trim_message E b m = Inr m'" "pm_kind m = HUMAN" for m m'
    using that by (simp add: trim_message_def)
  have all: "list_all2 (\<lambda>m m'. trim_message E b m = Inr m') ms g" using m
    by (induction ms arbitrary: g) (auto simp: bind_ok_Inr_iff)
  have "map pm_kind g = map pm_kind ms" using all by (induction rule: list_all2_induct) (auto simp: kind)
  moreover have "g ! i = ms ! i" if "latest_human_index ms = Some i" for i
    using human list_all2_nthD [OF all] latest_human_index_less [OF that] latest_human_index_human [OF that] by blast
  ultimately show ?thesis by (simp add: keeps_human_def)
qed

lemma trim_main_system_keeps_human: "keeps_human ms (trim_main_system E b p ms)"
proof (cases "first_system_index ms")
  case None
  then show ?thesis by (simp add: trim_main_system_def)
next
  case (Some i)
  then have "pm_kind (ms ! i) = SYSTEM" by (auto simp: first_system_index_def find_Some_iff)
  then have "latest_human_index ms \<noteq> Some i" using latest_human_index_human [of ms i] by auto
  then show ?thesis using Some by (auto simp: trim_main_system_def Let_def keeps_human_update split: prod.split)
qed

lemma shrink_tools_keep_human: "shrink_tools E b is ms = Inr r \<Longrightarrow> keeps_human ms r"
proof (induction "is" arbitrary: ms)
  case (Cons i "is")
  show ?case
  proof (cases "within_prompt_budget E b ms \<or> pm_kind (ms ! i) \<noteq> TOOL")
    case True
    then show ?thesis using Cons by (auto split: if_splits)
  next
    case False
    then obtain t where t: "shrink_tools E b is (ms[i := set_content (ms ! i) t]) = Inr r"
      using Cons.prems by (auto simp: bind_ok_Inr_iff)
    have "latest_human_index ms \<noteq> Some i" using latest_human_index_human [of ms i] False by auto
    then have "keeps_human ms (ms[i := set_content (ms ! i) t])" by (intro keeps_human_update) simp_all
    then show ?thesis using Cons.IH [OF t] by (rule keeps_human_trans)
  qed
qed simp

lemma hard_limit_keeps_human:
  "hard_limit E b req is ms = Inr r \<Longrightarrow> (\<And>i. latest_human_index ms = Some i \<Longrightarrow> req i) \<Longrightarrow> keeps_human ms r"
proof (induction "is" arbitrary: ms)
  case (Cons i "is")
  show ?case
  proof (cases "req i \<or> within_prompt_budget E b ms")
    case True
    then show ?thesis using Cons by (auto split: if_splits)
  next
    case False
    then obtain t where t: "hard_limit E b req is (ms[i := set_content (ms ! i) t]) = Inr r"
      using Cons.prems by (auto simp: bind_ok_Inr_iff)
    have k: "keeps_human ms (ms[i := set_content (ms ! i) t])"
      using False Cons.prems(2) by (intro keeps_human_update) auto
    then have "latest_human_index (ms[i := set_content (ms ! i) t]) = latest_human_index ms"
      unfolding keeps_human_def by (blast intro: latest_human_index_kinds)
    then show ?thesis using keeps_human_trans [OF k Cons.IH [OF t]] Cons.prems(2) by simp
  qed
qed simp

lemma drop_keeps_latest_human: "latest_human (drop_oldest_history_to_fit E b ms) = latest_human ms"
proof -
  let ?D = "dropped_indices E b ms"
  have "find (\<lambda>i. pm_kind (ms ! i) = HUMAN) (filter (\<lambda>i. i \<notin> ?D) (rev [0..<length ms])) = latest_human_index ms"
    unfolding latest_human_index_def
  proof (rule find_filter_kept)
    fix i
    assume "find (\<lambda>i. pm_kind (ms ! i) = HUMAN) (rev [0..<length ms]) = Some i"
    then have "mandatory ms i" by (simp add: mandatory_def latest_human_index_def)
    then show "i \<notin> ?D" using dropped_not_mandatory by blast
  qed
  then show ?thesis
    unfolding latest_human_at [of ms] by (simp only: drop_oldest_indices latest_human_def rev_map rev_filter find_map_nth)
qed

text \<open>C15: In the mode the agent uses, whatever the guard trims, drops or cuts to fit the budget, the prompt still ends with the
  same latest human message, word for word.\<close>

theorem guard_keeps_latest_request:
  assumes "guard_prompt E b True ms = Inr r"
  shows "latest_human r = latest_human ms"
proof -
  obtain p where p: "prioritize_system_messages E b True ms = Inr p" "apply_prompt_budget_guard E b True p = Inr r"
    using assms by (auto simp: guard_prompt_def bind_ok_Inr_iff)
  have "keeps_human ms p" using p(1)
    by (auto simp: prioritize_system_messages_def bind_ok_Inr_iff trim_messages_keep_human split: if_splits)
  moreover obtain g where g: "map_ok (trim_message E b) p = Inr g" using p(2) by (auto simp: apply_prompt_budget_guard_def bind_ok_Inr_iff)
  ultimately have mg: "latest_human g = latest_human ms"
    using keeps_human_latest trim_messages_keep_human by metis
  let ?s = "trim_main_system E b True g"
  let ?d = "drop_oldest_history_to_fit E b ?s"
  have s: "latest_human ?s = latest_human ms" using keeps_human_latest [OF trim_main_system_keeps_human] mg by simp
  then have d: "latest_human ?d = latest_human ms" by (simp add: drop_keeps_latest_human)
  have t: "latest_human t = latest_human ms" if "shrink_tool_messages_to_fit E b ?d = Inr t" for t
    using keeps_human_latest [OF shrink_tools_keep_human] that d by (simp add: shrink_tool_messages_to_fit_def)
  have h: "latest_human h = latest_human t" if "hard_limit_prompt_messages E b True t = Inr h" for h t
  proof (rule keeps_human_latest, rule hard_limit_keeps_human)
    show "hard_limit E b (\<lambda>i. True \<and> mandatory t i) (hard_limit_order t) t = Inr h" using that by (simp add: hard_limit_prompt_messages_def)
  qed (simp add: mandatory_def)
  show ?thesis using p(2) mg s d t h
    by (auto simp: apply_prompt_budget_guard_def g Let_def bind_ok_Inr_iff split: if_splits)
qed

section \<open>Witnesses\<close>

definition ex_prompt :: "prompt_message list" where
  "ex_prompt = map (\<lambda>(k, t, cs). \<lparr>pm_kind = k, pm_content = PStr t, pm_calls = cs, pm_call_id = [], pm_artifact = PNone\<rparr>)
     [(SYSTEM, ''rules'', []), (AI, [], [PDict []]), (TOOL, ''ok'', []), (HUMAN, ''go'', [])]"

definition ex_budget :: context_budget where
  "ex_budget = default_budget\<lparr>bu_prompt_tokens := 6, bu_chars_per_token := 1\<rparr>"

lemma ex_dropped: "drop_oldest_history_to_fit ex_text_env ex_budget ex_prompt = map (\<lambda>i. ex_prompt ! i) [0, 3]"
  by code_simp

theorem dropped_history_paired_witness:
  "drop_oldest_history_to_fit ex_text_env ex_budget ex_prompt = map (\<lambda>i. ex_prompt ! i) [0, 3] \<and>
   (\<exists>D. drop_oldest_history_to_fit ex_text_env ex_budget ex_prompt = map (\<lambda>i. ex_prompt ! i) (filter (\<lambda>i. i \<notin> D) [0..<length ex_prompt]) \<and>
     (1 \<in> D \<longleftrightarrow> 2 \<in> D))"
proof -
  have c: "has_calls (ex_prompt ! 1)" "pm_kind (ex_prompt ! 2) = TOOL" "length ex_prompt = 4" by code_simp+
  have k: "pm_kind (ex_prompt ! k) = TOOL" if "1 < k" "k \<le> 2" for k
    using c(2) that by (metis Suc_1 Suc_leI le_antisym)
  obtain D where D: "drop_oldest_history_to_fit ex_text_env ex_budget ex_prompt = map (\<lambda>i. ex_prompt ! i) (filter (\<lambda>i. i \<notin> D) [0..<length ex_prompt])"
    and p: "\<And>i j. i < j \<and> j < length ex_prompt \<and> has_calls (ex_prompt ! i) \<and> (\<forall>k. i < k \<and> k \<le> j \<longrightarrow> pm_kind (ex_prompt ! k) = TOOL) \<Longrightarrow> (i \<in> D \<longleftrightarrow> j \<in> D)"
    using dropped_history_paired [of ex_text_env ex_budget ex_prompt] by blast
  have "1 \<in> D \<longleftrightarrow> 2 \<in> D" by (rule p) (use c k in auto)
  then show ?thesis using D ex_dropped by blast
qed

lemma ex_guarded: "\<exists>r. guard_prompt ex_text_env default_budget True ex_prompt = Inr r"
proof -
  have "is_ok (guard_prompt ex_text_env default_budget True ex_prompt)" by code_simp
  then show ?thesis by (cases "guard_prompt ex_text_env default_budget True ex_prompt") auto
qed

theorem guard_keeps_latest_request_witness:
  "\<exists>r. guard_prompt ex_text_env default_budget True ex_prompt = Inr r \<and> latest_human r = latest_human ex_prompt"
  using ex_guarded guard_keeps_latest_request by metis

end
