(* ===== verification/MemoryRecords.thy ===== *)
theory MemoryRecords
  imports PromptBudget MemoryTools
begin

text \<open>
  Long-term memories: the models of \<open>memory/models.py\<close>, the text heuristics of \<open>memory/text.py\<close> and the keys and
  merging of \<open>memory/dedupe.py\<close>. The markers in Chinese match no text of the model (code points below 256) and are left
  out, as are the Chinese bigrams among the terms; \<open>casefold\<close> is \<open>lower\<close>. SHA-256 of a sorted JSON text is one argument,
  \<open>digest\<close>. Times are reals. Kinds, scopes and visibilities are those of \<open>MemoryTools\<close>.
\<close>

datatype memory_status = MS_ACTIVE | MS_CONFLICT | MS_NEEDS_REVIEW | MS_FORGOTTEN | MS_DISCARDED

fun kind_value :: "memory_kind \<Rightarrow> string" where
  "kind_value Kind_user_preference = ''user_preference''"
| "kind_value Kind_user_profile = ''user_profile''"
| "kind_value Kind_project_fact = ''project_fact''"
| "kind_value Kind_turn_summary = ''turn_summary''"
| "kind_value Kind_branch_finding = ''branch_finding''"
| "kind_value Kind_imported_conclusion = ''imported_conclusion''"
| "kind_value Kind_artifact = ''artifact''"
| "kind_value Kind_citation = ''citation''"
| "kind_value Kind_tool_observation = ''tool_observation''"

fun scope_value :: "memory_scope \<Rightarrow> string" where
  "scope_value Scope_user = ''user''"
| "scope_value Scope_root_thread = ''root_thread''"
| "scope_value Scope_branch = ''branch''"
| "scope_value Scope_project = ''project''"
| "scope_value Scope_skill = ''skill''"

fun visibility_value :: "memory_visibility \<Rightarrow> string" where
  "visibility_value Private = ''private''"
| "visibility_value Promotable = ''promotable''"
| "visibility_value Shared = ''shared''"

text \<open>A request, and the fields a stored record adds.\<close>

record memory_request =
  mm_kind :: memory_kind
  mm_scope :: memory_scope
  mm_visibility :: memory_visibility
  mm_namespace :: namespace
  mm_content :: string
  mm_summary :: string
  mm_tags :: "string list"
  mm_evidence :: "string list"
  mm_source_thread :: "string option"
  mm_source_branch :: "string option"
  mm_root_thread :: "string option"
  mm_user :: "string option"
  mm_confidence :: "real option"
  mm_importance :: real
  mm_promoted :: bool
  mm_semantic_key :: "string option"

record memory_record = memory_request +
  mm_id :: string
  mm_status :: memory_status
  mm_fingerprint :: "string option"
  mm_embedding_status :: string
  mm_embedding_model :: "string option"
  mm_embedding_updated :: "real option"
  mm_created :: real
  mm_updated :: real
  mm_deleted :: "real option"

section \<open>Texts\<close>

definition normalize_memory_text :: "string \<Rightarrow> string" where
  "normalize_memory_text t = py_words (py_lower t)"

definition latin_char :: "char \<Rightarrow> bool" where
  "latin_char c = (let n = (of_char c :: nat) in (48 \<le> n \<and> n \<le> 57) \<or> (97 \<le> n \<and> n \<le> 122))"

text \<open>The maximal runs of lower case letters and digits\<close>

fun latin_runs :: "string \<Rightarrow> string \<Rightarrow> string list" where
  "latin_runs run [] = [rev run]"
| "latin_runs run (c # cs) = (if latin_char c then latin_runs (c # run) cs else rev run # latin_runs [] cs)"

definition memory_text_terms :: "nat \<Rightarrow> string \<Rightarrow> string list" where
  "memory_text_terms min_length t = from_keys (filter (\<lambda>w. min_length \<le> length w) (latin_runs [] (py_lower t)))"

definition correction_markers :: "string list" where
  "correction_markers = [''instead'', ''from now on'', ''correction'', ''corrected'']"

definition mentions :: "string list \<Rightarrow> string \<Rightarrow> bool" where
  "mentions markers t \<longleftrightarrow> list_ex (\<lambda>m. has_infix m t) markers"

definition has_correction_signal :: "string \<Rightarrow> bool" where
  "has_correction_signal t = mentions correction_markers (py_lower t)"

section \<open>Keys\<close>

definition either_text :: "string \<Rightarrow> string \<Rightarrow> string" where
  "either_text a b = (if a \<noteq> [] then a else b)"

definition gist_text :: "'a memory_request_scheme \<Rightarrow> string" where
  "gist_text r = either_text (mm_summary r) (mm_content r)"

definition namespace_anchor :: "namespace \<Rightarrow> string" where
  "namespace_anchor ns = (if ns \<noteq> [] then join_with ''/'' (take 4 ns) else ''global'')"

definition user_anchor :: "'a memory_request_scheme \<Rightarrow> string" where
  "user_anchor r = (if given (mm_user r) then or_empty (mm_user r) else namespace_anchor (mm_namespace r))"

definition semantic_anchor :: "'a memory_request_scheme \<Rightarrow> string" where
  "semantic_anchor r = (case mm_kind r of
     Kind_user_preference \<Rightarrow> ''user:'' @ user_anchor r
   | Kind_user_profile \<Rightarrow> ''user-profile:'' @ user_anchor r
   | Kind_project_fact \<Rightarrow> ''project:'' @ namespace_anchor (mm_namespace r)
   | Kind_branch_finding \<Rightarrow> ''branch-finding:'' @
       (if given (mm_root_thread r) then or_empty (mm_root_thread r) else namespace_anchor (mm_namespace r)) @ '':'' @ or_empty (mm_source_branch r)
   | _ \<Rightarrow> if given (mm_root_thread r) then ''thread:'' @ or_empty (mm_root_thread r) else namespace_anchor (mm_namespace r))"

type_synonym digest = "(string, pyval) dict \<Rightarrow> string"

definition memory_semantic_key :: "digest \<Rightarrow> 'a memory_request_scheme \<Rightarrow> string" where
  "memory_semantic_key digest r = digest [(''kind'', PStr (kind_value (mm_kind r))), (''anchor'', PStr (semantic_anchor r)),
     (''gist'', PStr (normalize_memory_text (gist_text r)))]"

definition memory_fingerprint :: "digest \<Rightarrow> 'a memory_request_scheme \<Rightarrow> string" where
  "memory_fingerprint digest r = digest [(''kind'', PStr (kind_value (mm_kind r))), (''scope'', PStr (scope_value (mm_scope r))),
     (''visibility'', PStr (visibility_value (mm_visibility r))), (''namespace'', PList (map PStr (mm_namespace r))),
     (''content'', PStr (mm_content r)), (''summary'', PStr (mm_summary r)), (''tags'', PList (map PStr (sort (mm_tags r)))),
     (''evidence_refs'', PList (map PStr (sort (mm_evidence r)))), (''source_thread_id'', opt_value (mm_source_thread r)),
     (''source_branch_id'', opt_value (mm_source_branch r)), (''root_thread_id'', opt_value (mm_root_thread r)),
     (''user_id'', opt_value (mm_user r))]"

definition user_preference_topic :: "string \<Rightarrow> string option" where
  "user_preference_topic t = (let l = py_lower t in
     if mentions [''chinese'', ''english''] l then Some ''response_language''
     else if mentions [''emoji''] l then Some ''emoji_style''
     else if mentions [''concise'', ''brief'', ''verbose'', ''detailed''] l then Some ''verbosity''
     else if mentions [''call me''] l then Some ''addressing'' else None)"

definition own_semantic_key :: "digest \<Rightarrow> 'a memory_request_scheme \<Rightarrow> string" where
  "own_semantic_key digest r = (if given (mm_semantic_key r) then or_empty (mm_semantic_key r) else memory_semantic_key digest r)"

definition memory_resolution_key :: "digest \<Rightarrow> 'a memory_request_scheme \<Rightarrow> string" where
  "memory_resolution_key digest r = (case if mm_kind r = Kind_user_preference then user_preference_topic (gist_text r) else None of
     Some topic \<Rightarrow> ''user_preference:'' @ user_anchor r @ '':'' @ topic
   | None \<Rightarrow> own_semantic_key digest r)"

definition has_textual_overlap :: "string \<Rightarrow> string \<Rightarrow> bool" where
  "has_textual_overlap a b = (let l = memory_text_terms 3 a; r = memory_text_terms 3 b
     in l \<noteq> [] \<and> r \<noteq> [] \<and> 2 \<le> length (filter (\<lambda>t. t \<in> set r) l))"

section \<open>Merging\<close>

definition sorted_union :: "string list \<Rightarrow> string list \<Rightarrow> string list" where
  "sorted_union a b = sort (remdups (a @ b))"

definition max_given :: "real option \<Rightarrow> real option \<Rightarrow> real option" where
  "max_given a b = (case a of None \<Rightarrow> b | Some x \<Rightarrow> (case b of None \<Rightarrow> a | Some y \<Rightarrow> Some (max x y)))"

definition merge_duplicate_records :: "digest \<Rightarrow> real \<Rightarrow> memory_record \<Rightarrow> memory_request \<Rightarrow> memory_record" where
  "merge_duplicate_records digest now old new =
    (let content = either_text (mm_content new) (mm_content old); summary = either_text (mm_summary new) (mm_summary old);
         e = (if content \<noteq> mm_content old \<or> summary \<noteq> mm_summary old
           then old\<lparr>mm_embedding_status := ''pending'', mm_embedding_model := None, mm_embedding_updated := None\<rparr> else old);
         m = e\<lparr>mm_content := content, mm_summary := summary, mm_tags := sorted_union (mm_tags old) (mm_tags new),
           mm_evidence := sorted_union (mm_evidence old) (mm_evidence new), mm_confidence := max_given (mm_confidence old) (mm_confidence new),
           mm_importance := max (mm_importance old) (mm_importance new), mm_promoted := mm_promoted old \<or> mm_promoted new, mm_updated := now\<rparr>;
         k = m\<lparr>mm_semantic_key := Some (memory_semantic_key digest m)\<rparr>
     in k\<lparr>mm_fingerprint := Some (memory_fingerprint digest k)\<rparr>)"

section \<open>Lemmas\<close>

lemma merge_keeps [simp]:
  "mm_id (merge_duplicate_records g now old new) = mm_id old"
  "mm_namespace (merge_duplicate_records g now old new) = mm_namespace old"
  "mm_kind (merge_duplicate_records g now old new) = mm_kind old"
  "mm_scope (merge_duplicate_records g now old new) = mm_scope old"
  "mm_status (merge_duplicate_records g now old new) = mm_status old"
  "mm_deleted (merge_duplicate_records g now old new) = mm_deleted old"
  "mm_source_branch (merge_duplicate_records g now old new) = mm_source_branch old"
  "mm_user (merge_duplicate_records g now old new) = mm_user old"
  "mm_root_thread (merge_duplicate_records g now old new) = mm_root_thread old"
  by (simp_all add: merge_duplicate_records_def Let_def)

lemma merge_evidence: "set (mm_evidence (merge_duplicate_records g now old new)) = set (mm_evidence old) \<union> set (mm_evidence new)"
  and merge_tags: "set (mm_tags (merge_duplicate_records g now old new)) = set (mm_tags old) \<union> set (mm_tags new)"
  by (simp_all add: merge_duplicate_records_def Let_def sorted_union_def)

lemma merge_keyed:
  "mm_semantic_key (merge_duplicate_records g now old new) = Some (memory_semantic_key g (merge_duplicate_records g now old new))"
  by (simp add: merge_duplicate_records_def Let_def memory_semantic_key_def gist_text_def semantic_anchor_def user_anchor_def cong: memory_kind.case_cong)

end
