(* ===== verification/MemoryPolicy.thy ===== *)
theory MemoryPolicy
  imports MemoryRecords
begin

text \<open>
  Which memories of a turn are kept, where a turn may read, and which memories reach a prompt: \<open>memory/policy.py\<close>,
  \<open>memory/branch_visibility.py\<close>, \<open>memory/scorer.py\<close>. The state of a turn is its messages and a dictionary; a state model
  (\<open>reflection\<close>) is the dictionary of its fields.
\<close>

record turn_context = request_context +
  rc_skill_hints :: "string list"

record turn_state =
  ts_messages :: "prompt_message list"
  ts_values :: "(string, pyval) dict"

section \<open>Messages of a turn\<close>

definition message_text_of :: "text_env \<Rightarrow> prompt_message \<Rightarrow> string" where
  "message_text_of E m = py_strip (py_str (te_str E) (pm_content m))"

definition latest_message_text :: "text_env \<Rightarrow> prompt_message list \<Rightarrow> message_kind \<Rightarrow> string" where
  "latest_message_text E ms k = (case find (\<lambda>m. pm_kind m = k) (rev ms) of None \<Rightarrow> [] | Some m \<Rightarrow> message_text_of E m)"

definition turn_is_stable :: "turn_state \<Rightarrow> bool" where
  "turn_is_stable s \<longleftrightarrow> dict_value (dict_of (dict_value (ts_values s) ''reflection'')) ''status'' \<noteq> PStr ''replan'' \<and>
     ts_messages s \<noteq> [] \<and> \<not> has_calls (last (ts_messages s))"

definition latest_turn_messages :: "prompt_message list \<Rightarrow> prompt_message list" where
  "latest_turn_messages ms = (case latest_human_index ms of None \<Rightarrow> ms | Some i \<Rightarrow> drop i ms)"

definition latest_final_ai_text :: "text_env \<Rightarrow> prompt_message list \<Rightarrow> string" where
  "latest_final_ai_text E ms = (case find (\<lambda>m. pm_kind m = AI \<and> pm_calls m = []) (rev ms) of None \<Rightarrow> [] | Some m \<Rightarrow> message_text_of E m)"

text \<open>\<open>text.rsplit(p, maxsplit=1)[-1]\<close>: what follows the last occurrence.\<close>

fun after_last :: "string \<Rightarrow> string \<Rightarrow> string option" where
  "after_last p [] = None"
| "after_last p (c # cs) = (case after_last p cs of Some r \<Rightarrow> Some r
     | None \<Rightarrow> if take (length p) (c # cs) = p then Some (drop (length p) (c # cs)) else None)"

definition join_given :: "string list \<Rightarrow> string" where
  "join_given ts = py_strip (join_with '' '' (filter (\<lambda>t. t \<noteq> []) ts))"

definition turn_summary_claim_text :: "text_env \<Rightarrow> memory_request \<Rightarrow> prompt_message list \<Rightarrow> string" where
  "turn_summary_claim_text E r ms = (let ai = latest_final_ai_text E ms in
     if ai \<noteq> [] then join_given [mm_summary r, ai]
     else (let t = join_given [mm_summary r, mm_content r] in case after_last ''Assistant:'' t of Some u \<Rightarrow> py_strip u | None \<Rightarrow> t))"

definition has_tool_result :: "prompt_message list \<Rightarrow> bool" where
  "has_tool_result ms = list_ex (\<lambda>m. pm_kind m = TOOL) ms"

definition has_evidence :: "memory_request \<Rightarrow> turn_state \<Rightarrow> prompt_message list \<Rightarrow> bool" where
  "has_evidence r s turn \<longleftrightarrow> mm_evidence r \<noteq> [] \<or> truthy (dict_value (ts_values s) ''citations'') \<or>
     truthy (dict_value (ts_values s) ''evidence_bundle'') \<or> has_tool_result turn"

section \<open>The quality gate\<close>

definition unstable_markers :: "string list" where
  "unstable_markers = [''maybe'', ''possibly'', ''probably'', ''not sure'', ''i was wrong'', ''i did not check'', ''didn't check'',
     ''without actually calling'', ''mistake'']"

definition query_result_markers :: "string list" where
  "query_result_markers = [''according to the search'', ''search results'', ''query results'', ''i found'']"

definition live_intent_markers :: "string list" where
  "live_intent_markers = [''web search'', ''live web'', ''latest'', ''recent'', ''today'', ''current'', ''news'', ''stock price'', ''weather'']"

definition live_claim_markers :: "string list" where
  "live_claim_markers = [''latest'', ''recent'', ''today'', ''current'', ''news'', ''stock price'', ''weather'', ''price'', ''released'', ''announced'']"

definition state_mentions_live_tool :: "text_env \<Rightarrow> turn_state \<Rightarrow> bool" where
  "state_mentions_live_tool E s = list_ex (\<lambda>k. case dict_value (ts_values s) k of
     PDict d \<Rightarrow> mentions [''web_search'', ''live_web'', ''search_web''] (py_lower (te_str E (PDict d))) | _ \<Rightarrow> False)
     [''tool_intent_plan'', ''tool_route_plan'', ''pending_tool_action'']"

definition has_live_web_intent :: "text_env \<Rightarrow> string \<Rightarrow> turn_state \<Rightarrow> bool" where
  "has_live_web_intent E t s \<longleftrightarrow> mentions live_intent_markers (py_lower t) \<or> state_mentions_live_tool E s"

text \<open>\<open>str.isdigit\<close> below 256: the digits and three superscripts\<close>

definition digit_char :: "char \<Rightarrow> bool" where
  "digit_char c = (let n = (of_char c :: nat) in (48 \<le> n \<and> n \<le> 57) \<or> n \<in> {178, 179, 185})"

definition looks_like_factual_claim :: "string \<Rightarrow> bool" where
  "looks_like_factual_claim t = (let l = py_lower t in l \<noteq> [] \<and>
     (list_ex digit_char l \<or> mentions [''announced'', ''released'', ''is'', ''are'', ''was'', ''were''] l))"

definition makes_external_live_claim :: "text_env \<Rightarrow> string \<Rightarrow> string \<Rightarrow> bool" where
  "makes_external_live_claim E t user \<longleftrightarrow> mentions live_claim_markers (py_lower t) \<or>
     (has_live_web_intent E user \<lparr>ts_messages = [], ts_values = []\<rparr> \<and> looks_like_factual_claim t)"

definition quality_skip_reason :: "text_env \<Rightarrow> memory_request \<Rightarrow> turn_state \<Rightarrow> string option" where
  "quality_skip_reason E r s =
    (if mm_kind r \<noteq> Kind_turn_summary then None
     else (let ms = ts_messages s; turn = latest_turn_messages ms; user = latest_message_text E ms HUMAN; claim = turn_summary_claim_text E r ms
       in if mentions unstable_markers (py_lower claim) then Some ''unstable_self_correction''
          else if has_live_web_intent E user s \<and> mentions query_result_markers (py_lower claim) \<and> \<not> has_tool_result turn
          then Some ''claimed_tool_use_without_result''
          else if makes_external_live_claim E claim user \<and> \<not> has_evidence r s turn then Some ''external_claim_without_evidence''
          else None))"

section \<open>What may be kept\<close>

definition root_thread_semantic_namespace :: "string \<Rightarrow> namespace" where
  "root_thread_semantic_namespace r = [''conversation'', r, ''semantic'']"

definition skill_memory_namespace :: "string \<Rightarrow> namespace" where
  "skill_memory_namespace s = [''skill'', s, ''memory'']"

definition max_content_chars :: nat where
  "max_content_chars = 4000"

definition placement_allowed :: "'a request_context_scheme \<Rightarrow> memory_request \<Rightarrow> bool" where
  "placement_allowed c r = (case mm_scope r of
     Scope_user \<Rightarrow> mm_kind r \<in> {Kind_user_preference, Kind_user_profile} \<and> mm_namespace r = user_profile_namespace (rc_user c)
   | Scope_project \<Rightarrow> given (rc_project c) \<and> mm_kind r = Kind_project_fact \<and> mm_namespace r = project_memory_namespace (or_empty (rc_project c))
   | Scope_root_thread \<Rightarrow> mm_kind r \<in> {Kind_turn_summary, Kind_imported_conclusion} \<and>
       mm_namespace r \<in> {root_thread_episodic_namespace (rc_root_thread c), conversation_main_namespace (rc_root_thread c)}
   | Scope_branch \<Rightarrow> given (rc_branch c) \<and> mm_kind r = Kind_branch_finding \<and>
       mm_namespace r = branch_local_memory_namespace (rc_root_thread c) (or_empty (rc_branch c))
   | Scope_skill \<Rightarrow> False)"

definition persistence_skip_reason :: "text_env \<Rightarrow> 'a request_context_scheme \<Rightarrow> turn_state \<Rightarrow> memory_request \<Rightarrow> string option" where
  "persistence_skip_reason E c s r =
    (let content = py_strip (mm_content r); summary = py_strip (either_text (mm_summary r) content)
     in if content = [] \<or> summary = [] then Some ''policy''
        else if mm_importance r < 1 / 2 then Some ''policy''
        else if max_content_chars < length content then Some ''policy''
        else if \<not> turn_is_stable s then Some ''policy''
        else case quality_skip_reason E r s of Some q \<Rightarrow> Some q
          | None \<Rightarrow> if placement_allowed c r then None else Some ''policy'')"

definition should_persist :: "text_env \<Rightarrow> 'a request_context_scheme \<Rightarrow> turn_state \<Rightarrow> memory_request \<Rightarrow> bool" where
  "should_persist E c s r \<longleftrightarrow> persistence_skip_reason E c s r = None"

definition allowed_namespaces_for_read :: "'a turn_context_scheme \<Rightarrow> namespace list" where
  "allowed_namespaces_for_read c =
    [conversation_main_namespace (rc_root_thread c)] @
    (if given (rc_branch c) then [branch_local_memory_namespace (rc_root_thread c) (or_empty (rc_branch c))] else []) @
    [root_thread_semantic_namespace (rc_root_thread c), root_thread_episodic_namespace (rc_root_thread c), user_profile_namespace (rc_user c)] @
    (if given (rc_project c) then [project_memory_namespace (or_empty (rc_project c))] else []) @
    map skill_memory_namespace (rc_skill_hints c)"

section \<open>Branches\<close>

text \<open>\<open>branch_meta\<close> of the state is a dictionary; its identifiers are read with \<open>str\<close>.\<close>

definition visible_branch_ids :: "text_env \<Rightarrow> string option \<Rightarrow> turn_state \<Rightarrow> string list" where
  "visible_branch_ids E branch s =
    (let meta = dict_of (dict_value (ts_values s) ''branch_meta''); str_of = py_str (te_str E); own = dict_value meta ''branch_id''
     in map str_of (filter truthy (list_of (dict_value meta ''ancestor_branch_ids''))) @
        (if truthy own then [str_of own] else []) @ (if given branch then [or_empty branch] else []))"

definition branch_origin_visible :: "memory_record \<Rightarrow> string list \<Rightarrow> bool" where
  "branch_origin_visible r ids \<longleftrightarrow> \<not> given (mm_source_branch r) \<or> mm_promoted r \<or> or_empty (mm_source_branch r) \<in> set ids"

section \<open>What reaches a prompt\<close>

record memory_hit =
  mh_record :: memory_record
  mh_score :: real
  mh_terms :: "string list"
  mh_namespace :: namespace
  mh_rationale :: "string option"

record memory_bundle =
  mb_query :: string
  mb_hits :: "memory_hit list"
  mb_namespaces :: "namespace list"
  mb_total :: nat

definition record_text :: "memory_record \<Rightarrow> string" where
  "record_text r = py_lower (mm_summary r @ '' '' @ mm_content r)"

definition has_query_overlap :: "memory_hit \<Rightarrow> string \<Rightarrow> bool" where
  "has_query_overlap h q = (let terms = memory_text_terms 2 q in
     list_ex (\<lambda>t. py_lower t \<in> set terms) (mh_terms h) \<or> mentions terms (record_text (mh_record h)))"

definition contains_sensitive_or_handle :: "string \<Rightarrow> bool" where
  "contains_sensitive_or_handle t = mentions [''call me'', ''refer to me'', ''secret'', ''token'', ''api key'', ''api_key''] t"

definition contains_prompt_injection :: "string \<Rightarrow> bool" where
  "contains_prompt_injection t = mentions [''ignore all previous instructions'', ''ignore previous instructions''] t"

definition query_mentions_sensitive :: "string \<Rightarrow> bool" where
  "query_mentions_sensitive q = mentions [''name'', ''call me'', ''secret'', ''token'', ''api key'', ''api_key''] (py_lower q)"

definition is_sticky_preference :: "string \<Rightarrow> bool" where
  "is_sticky_preference t = mentions [''language'', ''tone'', ''emoji'', ''concise'', ''brief'', ''detailed'', ''markdown'', ''bullet'', ''format''] t"

definition relevant_for_query :: "string \<Rightarrow> memory_hit \<Rightarrow> bool" where
  "relevant_for_query q h =
    (let r = mh_record h; t = record_text r
     in if mm_kind r \<notin> {Kind_user_preference, Kind_user_profile} then True
        else if has_query_overlap h q then True
        else if contains_prompt_injection t then True
        else if mm_kind r = Kind_user_profile then \<not> contains_sensitive_or_handle t
        else if contains_sensitive_or_handle t then query_mentions_sensitive q
        else is_sticky_preference t)"

datatype prompt_section = S_USER | S_PROJECT | S_APPROVED | S_BRANCH | S_EPISODIC | S_OTHER

definition section_of :: "memory_record \<Rightarrow> prompt_section" where
  "section_of r = (case mm_kind r of
     Kind_user_preference \<Rightarrow> S_USER | Kind_user_profile \<Rightarrow> S_USER | Kind_project_fact \<Rightarrow> S_PROJECT | Kind_imported_conclusion \<Rightarrow> S_APPROVED
   | Kind_branch_finding \<Rightarrow> if mm_promoted r \<or> mm_scope r = Scope_root_thread then S_APPROVED else S_BRANCH
   | Kind_turn_summary \<Rightarrow> S_EPISODIC | _ \<Rightarrow> S_OTHER)"

definition section_order :: "prompt_mode \<Rightarrow> prompt_section list" where
  "section_order m = (case m of
     SYNTHESIZE \<Rightarrow> [S_USER, S_PROJECT, S_APPROVED, S_EPISODIC, S_BRANCH, S_OTHER]
   | BRANCH_REVIEW \<Rightarrow> [S_BRANCH, S_APPROVED, S_PROJECT, S_USER, S_EPISODIC, S_OTHER]
   | EXECUTE \<Rightarrow> [S_USER, S_PROJECT, S_APPROVED, S_BRANCH, S_EPISODIC, S_OTHER]
   | EXPLORE \<Rightarrow> [S_APPROVED, S_BRANCH, S_PROJECT, S_USER, S_EPISODIC, S_OTHER])"

definition section_priority :: "prompt_mode \<Rightarrow> memory_record \<Rightarrow> nat" where
  "section_priority m r = length (takeWhile (\<lambda>s. s \<noteq> section_of r) (section_order m))"

text \<open>A section that has no limit of its own has \<open>top_k\<close>.\<close>

definition section_limit :: "prompt_mode \<Rightarrow> int \<Rightarrow> prompt_section \<Rightarrow> int" where
  "section_limit m k s = (case m of
     SYNTHESIZE \<Rightarrow> (case s of S_USER \<Rightarrow> min 2 k | S_PROJECT \<Rightarrow> min 2 k | S_APPROVED \<Rightarrow> min 3 k | S_BRANCH \<Rightarrow> k | _ \<Rightarrow> 1)
   | BRANCH_REVIEW \<Rightarrow> (case s of S_BRANCH \<Rightarrow> min 3 k | S_APPROVED \<Rightarrow> min 2 k | _ \<Rightarrow> 1)
   | EXECUTE \<Rightarrow> (case s of S_USER \<Rightarrow> min 2 k | S_PROJECT \<Rightarrow> min 2 k | S_APPROVED \<Rightarrow> min 2 k | _ \<Rightarrow> 1)
   | EXPLORE \<Rightarrow> (case s of S_APPROVED \<Rightarrow> min 2 k | S_BRANCH \<Rightarrow> min 2 k | _ \<Rightarrow> 1))"

definition rank_hits_for_prompt :: "prompt_mode \<Rightarrow> memory_hit list \<Rightarrow> memory_hit list" where
  "rank_hits_for_prompt m hs = sort_key (\<lambda>h. let r = mh_record h in (section_priority m r, - mh_score h, - mm_importance r,
     - (case mm_confidence r of None \<Rightarrow> 0 | Some x \<Rightarrow> x), - mm_updated r)) hs"

fun split_by_section :: "prompt_mode \<Rightarrow> int \<Rightarrow> (prompt_section \<Rightarrow> int) \<Rightarrow> memory_hit list \<Rightarrow> memory_hit list \<times> memory_hit list" where
  "split_by_section m k counts [] = ([], [])"
| "split_by_section m k counts (h # hs) = (let s = section_of (mh_record h) in
     if counts s < section_limit m k s then (case split_by_section m k (counts(s := counts s + 1)) hs of (sel, ov) \<Rightarrow> (h # sel, ov))
     else (case split_by_section m k counts hs of (sel, ov) \<Rightarrow> (sel, h # ov)))"

definition apply_section_budget :: "prompt_mode \<Rightarrow> int \<Rightarrow> memory_hit list \<Rightarrow> memory_hit list" where
  "apply_section_budget m k hs = (case split_by_section m k (\<lambda>s. 0) hs of (selected, overflow) \<Rightarrow>
     if k \<le> int (length selected) then py_slice 0 k selected
     else py_slice 0 k (selected @ take (nat (k - int (length selected))) overflow))"

definition prompt_candidate :: "prompt_mode \<Rightarrow> string list \<Rightarrow> string \<Rightarrow> memory_hit \<Rightarrow> bool" where
  "prompt_candidate m ids q h = (let r = mh_record h in mm_status r = MS_ACTIVE \<and> mm_deleted r = None \<and> branch_origin_visible r ids \<and>
     relevant_for_query q h \<and> (m = SYNTHESIZE \<longrightarrow> \<not> given (mm_source_branch r) \<or> mm_promoted r))"

definition filter_bundle_for_prompt :: "int \<Rightarrow> prompt_mode \<Rightarrow> string list \<Rightarrow> memory_bundle \<Rightarrow> memory_bundle" where
  "filter_bundle_for_prompt k m ids b =
    (let hits = apply_section_budget m k (rank_hits_for_prompt m (filter (prompt_candidate m ids (mb_query b)) (mb_hits b)))
     in b\<lparr>mb_hits := py_slice 0 k hits, mb_total := length hits\<rparr>)"

section \<open>Scores\<close>

text \<open>\<open>round\<close> to four digits is an argument, as floats are reals here.\<close>

definition score_memory_hit :: "(real \<Rightarrow> real) \<Rightarrow> memory_hit \<Rightarrow> string \<Rightarrow> prompt_mode \<Rightarrow> real" where
  "score_memory_hit round4 h q m = (let r = mh_record h in round4 (mh_score h + mm_importance r * (35 / 100) +
     (case mm_confidence r of None \<Rightarrow> 0 | Some x \<Rightarrow> x * (2 / 10)) +
     real (min (length (mh_terms h)) 4) * (1 / 10) +
     (if m = BRANCH_REVIEW \<and> mm_promoted r then 15 / 100 else 0) -
     (if m = SYNTHESIZE \<and> given (mm_source_branch r) \<and> \<not> mm_promoted r then 25 / 100 else 0) +
     (if q \<noteq> [] \<and> mm_summary r \<noteq> [] \<and> has_infix (py_lower q) (py_lower (mm_summary r)) then 2 / 10 else 0)))"

end
