(* ===== verification/MemoryStore.thy ===== *)
theory MemoryStore
  imports MemoryPolicy
begin

text \<open>
  The tables of \<open>repositories/postgres_memory_repository.py\<close> and \<open>postgres_memory_embeddings.py\<close> that hold memories, and the
  service that writes them: \<open>memory/service.py\<close>, \<open>memory/embedding.py\<close>, \<open>memory/embedding_policy.py\<close>,
  \<open>memory/embedding_worker.py\<close>. A SQL statement is one step on the lists of rows. There is one embedding provider; a vector is
  the hash of its text. The retrieval index, a library, is a map from documents to their texts. Failures of the database are
  not modelled.
\<close>

section \<open>Tables\<close>

record memory_audit =
  ma_id :: string
  ma_action :: string
  ma_decision :: string
  ma_memory :: "string option"
  ma_actor :: "string option"
  ma_reason :: string
  ma_namespace :: namespace
  ma_user :: "string option"
  ma_data :: "(string, pyval) dict"

record memory_db =
  db_rows :: "memory_record list"
  db_tombstones :: "(string, string) dict"
  db_embeddings :: "(string, string) dict"
  db_audit :: "memory_audit list"
  db_index :: "(string, string) dict"
  db_fresh :: nat

definition empty_db :: memory_db where
  "empty_db = \<lparr>db_rows = [], db_tombstones = [], db_embeddings = [], db_audit = [], db_index = [], db_fresh = 0\<rparr>"

definition get_record :: "memory_db \<Rightarrow> string \<Rightarrow> memory_record option" where
  "get_record db i = find (\<lambda>r. mm_id r = i) (db_rows db)"

definition is_forgotten :: "memory_record \<Rightarrow> bool" where
  "is_forgotten r \<longleftrightarrow> mm_status r = MS_FORGOTTEN \<or> mm_deleted r \<noteq> None"

text \<open>What the conditions of the statements protect: an identifier with a tombstone, a row that is forgotten or deleted.\<close>

definition protected_id :: "memory_db \<Rightarrow> string \<Rightarrow> bool" where
  "protected_id db i \<longleftrightarrow> i \<in> set (keys (db_tombstones db)) \<or> (case get_record db i of None \<Rightarrow> False | Some r \<Rightarrow> is_forgotten r)"

definition put_row :: "memory_record \<Rightarrow> memory_record list \<Rightarrow> memory_record list" where
  "put_row r rows = (if mm_id r \<in> set (map mm_id rows) then map (\<lambda>q. if mm_id q = mm_id r then r else q) rows else rows @ [r])"

definition upsert_unless_protected :: "memory_record \<Rightarrow> memory_db \<Rightarrow> bool \<times> memory_db" where
  "upsert_unless_protected r db = (if protected_id db (mm_id r) then (False, db) else (True, db\<lparr>db_rows := put_row r (db_rows db)\<rparr>))"

definition upsert_record :: "memory_record \<Rightarrow> memory_db \<Rightarrow> memory_db" where
  "upsert_record r db = snd (upsert_unless_protected r db)"

definition with_embedding_status :: "string \<Rightarrow> string option \<Rightarrow> real \<Rightarrow> memory_record \<Rightarrow> memory_record" where
  "with_embedding_status status model now r =
    r\<lparr>mm_embedding_status := status, mm_embedding_model := model, mm_embedding_updated := Some now, mm_updated := now\<rparr>"

definition update_record_embedding_status :: "string \<Rightarrow> string \<Rightarrow> string option \<Rightarrow> real \<Rightarrow> memory_db \<Rightarrow> bool \<times> memory_db" where
  "update_record_embedding_status i status model now db = (case get_record db i of
     None \<Rightarrow> (False, db)
   | Some r \<Rightarrow> if protected_id db i then (False, db)
       else (True, db\<lparr>db_rows := put_row (with_embedding_status status model now r) (db_rows db)\<rparr>))"

definition find_existing :: "namespace \<Rightarrow> string \<Rightarrow> string \<Rightarrow> memory_kind \<Rightarrow> memory_scope \<Rightarrow> memory_db \<Rightarrow> memory_record option" where
  "find_existing ns fp sk kind scope db =
    (case sort_key_reverse mm_updated (filter (\<lambda>r. mm_namespace r = ns \<and> mm_status r \<noteq> MS_FORGOTTEN \<and> mm_deleted r = None \<and>
        (mm_fingerprint r = Some fp \<or> mm_semantic_key r = Some sk) \<and> mm_kind r = kind \<and> mm_scope r = scope) (db_rows db)) of
      [] \<Rightarrow> None | r # rs \<Rightarrow> Some r)"

definition delete_embedding :: "string \<Rightarrow> memory_db \<Rightarrow> memory_db" where
  "delete_embedding i db = db\<lparr>db_embeddings := AList.delete i (db_embeddings db)\<rparr>"

definition forgotten_row :: "real \<Rightarrow> memory_record \<Rightarrow> memory_record" where
  "forgotten_row now r = r\<lparr>mm_status := MS_FORGOTTEN, mm_content := [], mm_summary := ''[forgotten]'', mm_deleted := Some now, mm_updated := now\<rparr>"

text \<open>A second tombstone of a memory keeps the first identifier. \<open>forget_rows\<close> is what comes before the embedding is deleted.\<close>

definition forget_rows :: "string \<Rightarrow> namespace option \<Rightarrow> real \<Rightarrow> string \<Rightarrow> memory_db \<Rightarrow> string option \<times> memory_db" where
  "forget_rows i ns now uuid db = (case get_record db i of
     None \<Rightarrow> (None, db)
   | Some r \<Rightarrow> if ns \<noteq> None \<and> ns \<noteq> Some (mm_namespace r) then (None, db)
       else (let tomb = get_or (db_tombstones db) i uuid; db1 = upsert_record (forgotten_row now r) db
         in (Some tomb, db1\<lparr>db_tombstones := AList.update i tomb (db_tombstones db1)\<rparr>)))"

definition forget_record :: "string \<Rightarrow> namespace option \<Rightarrow> real \<Rightarrow> string \<Rightarrow> memory_db \<Rightarrow> string option \<times> memory_db" where
  "forget_record i ns now uuid db = (case forget_rows i ns now uuid db of
     (None, db1) \<Rightarrow> (None, db1) | (Some t, db1) \<Rightarrow> (Some t, delete_embedding i db1))"

section \<open>Embeddings\<close>

text \<open>
  The service: \<open>sv_embeds\<close> says whether it has an embedding service, \<open>sv_indexed\<close> whether it was given the retrieval index;
  \<open>sv_substitute i\<close> replaces the matches of the i-th pattern. \<open>sv_provider\<close>, \<open>sv_index_ok\<close> and \<open>sv_enqueue\<close> say which calls
  succeed.
\<close>

record memory_service =
  sv_digest :: digest
  sv_hash :: "string \<Rightarrow> string"
  sv_uuid :: "nat \<Rightarrow> string"
  sv_substitute :: "nat \<Rightarrow> string \<Rightarrow> string"
  sv_embeds :: bool
  sv_indexed :: bool
  sv_model :: "string option"
  sv_provider :: "string \<Rightarrow> bool"
  sv_index_ok :: "string \<Rightarrow> bool"
  sv_enqueue :: "string \<Rightarrow> bool"

definition semantic_kinds :: "memory_kind list" where
  "semantic_kinds = [Kind_user_preference, Kind_user_profile, Kind_project_fact, Kind_imported_conclusion]"

definition has_embedding_text :: "memory_record \<Rightarrow> bool" where
  "has_embedding_text r \<longleftrightarrow> py_strip (mm_summary r) \<noteq> [] \<or> py_strip (mm_content r) \<noteq> [] \<or> mm_tags r \<noteq> [] \<or> mm_evidence r \<noteq> []"

definition should_embed_memory :: "memory_record \<Rightarrow> bool" where
  "should_embed_memory r \<longleftrightarrow> mm_status r = MS_ACTIVE \<and> mm_deleted r = None \<and> has_embedding_text r \<and>
     \<not> (mm_summary r = ''[forgotten]'' \<and> mm_content r = []) \<and>
     (mm_kind r \<in> set semantic_kinds \<or> mm_kind r = Kind_branch_finding \<and> mm_promoted r)"

definition memory_embedding_text :: "memory_record \<Rightarrow> string" where
  "memory_embedding_text r = py_strip (join_with [newline] (filter (\<lambda>p. p \<noteq> [])
     [py_strip (mm_summary r), py_strip (mm_content r), join_with '' '' (mm_tags r), join_with '' '' (mm_evidence r)]))"

datatype embed_status = E_WRITTEN | E_SKIPPED

text \<open>An error of the provider comes before anything is written; one of the index is swallowed.\<close>

definition ensure_embedding :: "memory_service \<Rightarrow> memory_record \<Rightarrow> memory_db \<Rightarrow> py_error + embed_status \<times> memory_db" where
  "ensure_embedding S r db =
    (let t = memory_embedding_text r
     in if \<not> should_embed_memory r \<or> t = [] \<or> map_of (db_embeddings db) (mm_id r) = Some (sv_hash S t) then Inr (E_SKIPPED, db)
        else if \<not> sv_provider S t then Inl (RuntimeError ''MemoryEmbeddingError'')
        else Inr (E_WRITTEN, db\<lparr>db_index := (if sv_indexed S \<and> sv_index_ok S t then AList.update (mm_id r) t (db_index db) else db_index db),
          db_embeddings := AList.update (mm_id r) (sv_hash S t) (db_embeddings db)\<rparr>))"

section \<open>The service\<close>

fun substitute_all :: "(nat \<Rightarrow> string \<Rightarrow> string) \<Rightarrow> nat \<Rightarrow> string \<Rightarrow> string" where
  "substitute_all f 0 t = t"
| "substitute_all f (Suc n) t = f n (substitute_all f n t)"

definition redact_sensitive_text :: "memory_service \<Rightarrow> string \<Rightarrow> string" where
  "redact_sensitive_text S t = substitute_all (sv_substitute S) 7 t"

definition sanitize_request :: "memory_service \<Rightarrow> memory_request \<Rightarrow> memory_request" where
  "sanitize_request S q =
    (let raw = either_text (mm_summary q) (take 240 (mm_content q)); content = redact_sensitive_text S (mm_content q);
         summary = redact_sensitive_text S raw;
         tags = sorted_union (mm_tags q) (if content \<noteq> mm_content q \<or> summary \<noteq> raw then [''redacted''] else [])
     in q\<lparr>mm_content := content, mm_summary := summary, mm_tags := tags\<rparr>)"

definition is_redacted :: "'a memory_request_scheme \<Rightarrow> bool" where
  "is_redacted r \<longleftrightarrow> list_ex (\<lambda>t. py_lower t = ''redacted'') (mm_tags r)"

definition record_from_request :: "digest \<Rightarrow> string \<Rightarrow> real \<Rightarrow> memory_request \<Rightarrow> memory_record" where
  "record_from_request digest i now q =
    (let s = q\<lparr>mm_summary := either_text (mm_summary q) (take 240 (mm_content q))\<rparr>;
         r = memory_request.extend s \<lparr>mm_id = i, mm_status = MS_ACTIVE, mm_fingerprint = None, mm_embedding_status = ''pending'',
           mm_embedding_model = None, mm_embedding_updated = None, mm_created = now, mm_updated = now, mm_deleted = None\<rparr>
     in r\<lparr>mm_fingerprint := Some (memory_fingerprint digest r),
       mm_semantic_key := Some (if given (mm_semantic_key q) then or_empty (mm_semantic_key q) else memory_semantic_key digest r)\<rparr>)"

definition is_possible_conflict :: "memory_record \<Rightarrow> memory_request \<Rightarrow> bool" where
  "is_possible_conflict old q \<longleftrightarrow> mm_kind old = mm_kind q \<and> mm_scope old = mm_scope q \<and> mm_scope old \<in> {Scope_user, Scope_project} \<and>
     normalize_memory_text (gist_text old) \<noteq> normalize_memory_text (gist_text q)"

definition confidence_or_0 :: "'a memory_request_scheme \<Rightarrow> real" where
  "confidence_or_0 r = (case mm_confidence r of None \<Rightarrow> 0 | Some x \<Rightarrow> x)"

definition should_replace :: "memory_record \<Rightarrow> memory_request \<Rightarrow> bool" where
  "should_replace old q \<longleftrightarrow>
     (mm_scope q = Scope_user \<and> user_preference_topic (gist_text old) \<noteq> None \<and> user_preference_topic (gist_text old) = user_preference_topic (gist_text q)) \<or>
     mm_importance old < mm_importance q \<or> confidence_or_0 old < confidence_or_0 q \<or> has_correction_signal (gist_text q) \<or>
     has_textual_overlap (gist_text old) (gist_text q)"

datatype write_status = W_ACCEPTED | W_MERGED | W_SKIPPED | W_CONFLICT | W_REQUIRES_REVIEW | W_FORGOTTEN | W_FAILED

fun write_status_value :: "write_status \<Rightarrow> string" where
  "write_status_value W_ACCEPTED = ''accepted''"
| "write_status_value W_MERGED = ''merged''"
| "write_status_value W_SKIPPED = ''skipped''"
| "write_status_value W_CONFLICT = ''conflict''"
| "write_status_value W_REQUIRES_REVIEW = ''requires_review''"
| "write_status_value W_FORGOTTEN = ''forgotten''"
| "write_status_value W_FAILED = ''failed''"

record write_decision =
  wd_status :: write_status
  wd_reason :: string
  wd_memory :: "string option"
  wd_audit :: string
  wd_tombstone :: "string option"
  wd_action :: string
  wd_summary :: string

definition fresh_id :: "memory_service \<Rightarrow> memory_db \<Rightarrow> string \<times> memory_db" where
  "fresh_id S db = (sv_uuid S (db_fresh db), db\<lparr>db_fresh := db_fresh db + 1\<rparr>)"

definition append_audit :: "memory_audit \<Rightarrow> memory_db \<Rightarrow> memory_db" where
  "append_audit a db = db\<lparr>db_audit := db_audit db @ [a]\<rparr>"

definition redacted_payload :: "memory_service \<Rightarrow> memory_request \<Rightarrow> (string, pyval) dict" where
  "redacted_payload S q = [(''kind'', PStr (kind_value (mm_kind q))), (''scope'', PStr (scope_value (mm_scope q))),
     (''visibility'', PStr (visibility_value (mm_visibility q))), (''namespace'', PList (map PStr (mm_namespace q))),
     (''summary'', PStr (redact_sensitive_text S (either_text (mm_summary q) (take 160 (mm_content q))))),
     (''tags'', PList (map PStr (mm_tags q))), (''evidence_refs'', PList (map PStr (mm_evidence q))),
     (''source_thread_id'', opt_value (mm_source_thread q)), (''source_branch_id'', opt_value (mm_source_branch q)),
     (''root_thread_id'', opt_value (mm_root_thread q)), (''user_id'', opt_value (mm_user q)),
     (''confidence'', case mm_confidence q of None \<Rightarrow> PNone | Some x \<Rightarrow> PFloat x), (''importance'', PFloat (mm_importance q)),
     (''promoted_to_main'', PBool (mm_promoted q))]"

definition decide :: "memory_service \<Rightarrow> write_status \<Rightarrow> string \<Rightarrow> string \<Rightarrow> string \<Rightarrow> memory_request \<Rightarrow> string option \<Rightarrow> memory_db \<Rightarrow> write_decision \<times> memory_db" where
  "decide S status action reason actor q memory db =
    (let (i, db1) = fresh_id S db
     in (\<lparr>wd_status = status, wd_reason = reason, wd_memory = memory, wd_audit = i, wd_tombstone = None, wd_action = action,
          wd_summary = either_text (mm_summary q) (take 120 (mm_content q))\<rparr>,
         append_audit \<lparr>ma_id = i, ma_action = action, ma_decision = write_status_value status, ma_memory = memory, ma_actor = Some actor,
           ma_reason = reason, ma_namespace = mm_namespace q, ma_user = mm_user q, ma_data = redacted_payload S q\<rparr> db1))"

definition record_redaction_audit :: "memory_service \<Rightarrow> memory_record \<Rightarrow> memory_request \<Rightarrow> string \<Rightarrow> memory_db \<Rightarrow> memory_db" where
  "record_redaction_audit S r q actor db =
    (let (i, db1) = fresh_id S db
     in append_audit \<lparr>ma_id = i, ma_action = ''redact_sensitive_content'', ma_decision = ''skipped'', ma_memory = Some (mm_id r),
          ma_actor = Some actor, ma_reason = ''sensitive_content_redacted'', ma_namespace = mm_namespace q, ma_user = mm_user q,
          ma_data = redacted_payload S q @ [(''embedding_skipped'', PBool True)]\<rparr> db1)"

definition update_embedding_status :: "memory_service \<Rightarrow> memory_record \<Rightarrow> string \<Rightarrow> real \<Rightarrow> memory_db \<Rightarrow> memory_db" where
  "update_embedding_status S r status now db = upsert_record (with_embedding_status status (sv_model S) now r) db"

definition write_embedding_best_effort :: "memory_service \<Rightarrow> memory_record \<Rightarrow> real \<Rightarrow> memory_db \<Rightarrow> memory_db" where
  "write_embedding_best_effort S r now db =
    (if is_redacted r then update_embedding_status S r ''failed'' now db
     else if sv_enqueue S (mm_id r) \<or> \<not> sv_embeds S then db
     else case ensure_embedding S r db of
       Inl e \<Rightarrow> update_embedding_status S r ''failed'' now db
     | Inr (st, db1) \<Rightarrow> update_embedding_status S r ''ready'' now db1)"

text \<open>The row that a request writes, before embeddings and audit\<close>

definition store_request :: "memory_service \<Rightarrow> real \<Rightarrow> memory_request \<Rightarrow> memory_db \<Rightarrow> (write_status \<times> memory_record) \<times> memory_db" where
  "store_request S now q db =
    (let (i, db1) = fresh_id S db; r = record_from_request (sv_digest S) i now q
     in case find_existing (mm_namespace r) (or_empty (mm_fingerprint r)) (or_empty (mm_semantic_key r)) (mm_kind r) (mm_scope r) db1 of
       None \<Rightarrow> ((W_ACCEPTED, r), upsert_record r db1)
     | Some old \<Rightarrow>
         if is_possible_conflict old q \<and> \<not> should_replace old q
         then (let c = old\<lparr>mm_status := MS_CONFLICT, mm_updated := now\<rparr> in ((W_CONFLICT, c), upsert_record c db1))
         else (let m = (merge_duplicate_records (sv_digest S) now old q)\<lparr>mm_status := MS_ACTIVE\<rparr> in ((W_MERGED, m), upsert_record m db1)))"

definition upsert_request :: "memory_service \<Rightarrow> real \<Rightarrow> string \<Rightarrow> string \<Rightarrow> memory_request \<Rightarrow> memory_db \<Rightarrow> write_decision \<times> memory_db" where
  "upsert_request S now actor reason request db =
    (let q = sanitize_request S request; ((status, r), db1) = store_request S now q db
     in if status = W_CONFLICT then decide S status ''possible_conflict'' ''possible_conflict'' actor q (Some (mm_id r)) db1
        else (let db2 = (if is_redacted r then record_redaction_audit S r q actor db1 else db1);
                  db3 = write_embedding_best_effort S r now db2
          in decide S status (if status = W_ACCEPTED then ''written'' else ''merged'') reason actor q (Some (mm_id r)) db3))"

definition forget_memory :: "memory_service \<Rightarrow> real \<Rightarrow> string \<Rightarrow> namespace option \<Rightarrow> string option \<Rightarrow> string option \<Rightarrow> memory_db \<Rightarrow> write_decision \<times> memory_db" where
  "forget_memory S now i ns actor reason db =
    (let old = get_record db i; (uuid, db1) = fresh_id S db; (tomb, db2) = forget_record i ns now uuid db1;
         db3 = (if tomb \<noteq> None \<and> sv_indexed S then db2\<lparr>db_index := AList.delete i (db_index db2)\<rparr> else db2);
         status = (if tomb \<noteq> None then W_FORGOTTEN else W_SKIPPED);
         text = (if given reason then or_empty reason else if tomb \<noteq> None then ''forgotten'' else ''not_found'');
         (audit, db4) = fresh_id S db3
     in (\<lparr>wd_status = status, wd_reason = text, wd_memory = Some i, wd_audit = audit, wd_tombstone = tomb, wd_action = ''forget'', wd_summary = []\<rparr>,
         append_audit \<lparr>ma_id = audit, ma_action = ''forget'', ma_decision = write_status_value status, ma_memory = Some i, ma_actor = actor,
           ma_reason = text, ma_namespace = (case ns of Some (n # ns') \<Rightarrow> n # ns' | _ \<Rightarrow> (case old of Some r \<Rightarrow> mm_namespace r | None \<Rightarrow> [])),
           ma_user = (case old of Some r \<Rightarrow> mm_user r | None \<Rightarrow> None),
           ma_data = (case tomb of None \<Rightarrow> [] | Some t \<Rightarrow> [(''tombstone_id'', PStr t)])\<rparr> db4))"

text \<open>The forgetting tool asks the namespaces of its request in turn.\<close>

fun forget_in_namespaces :: "memory_service \<Rightarrow> real \<Rightarrow> string \<Rightarrow> namespace list \<Rightarrow> memory_db \<Rightarrow> namespace option \<times> memory_db" where
  "forget_in_namespaces S now i [] db = (None, db)"
| "forget_in_namespaces S now i (ns # nss) db =
    (case forget_memory S now i (Some ns) (Some ''memory_forget_tool'') (Some ''explicit_tool_forget'') db of
      (d, db1) \<Rightarrow> if wd_status d = W_FORGOTTEN then (Some ns, db1) else forget_in_namespaces S now i nss db1)"

text \<open>\<open>write_records\<close> and \<open>persist_records\<close>; the outcome is the list of decisions.\<close>

fun write_records :: "memory_service \<Rightarrow> real \<Rightarrow> string \<Rightarrow> string \<Rightarrow> memory_request list \<Rightarrow> memory_db \<Rightarrow> string list \<times> memory_db" where
  "write_records S now actor reason [] db = ([], db)"
| "write_records S now actor reason (q # qs) db =
    (let (d, db1) = upsert_request S now actor reason q db; (ids, db2) = write_records S now actor reason qs db1
     in ((if given (wd_memory d) \<and> wd_status d \<in> {W_ACCEPTED, W_MERGED} then [or_empty (wd_memory d)] else []) @ ids, db2))"

fun persist_records :: "text_env \<Rightarrow> memory_service \<Rightarrow> real \<Rightarrow> string \<Rightarrow> 'a request_context_scheme \<Rightarrow> turn_state \<Rightarrow> memory_request list \<Rightarrow> memory_db \<Rightarrow> write_decision list \<times> memory_db" where
  "persist_records E S now actor c s [] db = ([], db)"
| "persist_records E S now actor c s (q # qs) db =
    (let (d, db1) = (if should_persist E c s q then upsert_request S now actor ''persist_records'' q db
           else decide S W_SKIPPED ''policy'' ''policy'' actor q None db);
         (ds, db2) = persist_records E S now actor c s qs db1
     in (d # ds, db2))"

section \<open>The worker\<close>

text \<open>\<open>process_payload\<close> in three parts: what is read, the embedding, and the status that is set. \<open>None\<close> ends the work.\<close>

definition worker_read :: "string \<Rightarrow> namespace \<Rightarrow> memory_db \<Rightarrow> py_error + memory_record option" where
  "worker_read i ns db = (case get_record db i of
     None \<Rightarrow> Inl (ValueError (''memory record not found: '' @ i))
   | Some r \<Rightarrow> if mm_namespace r \<noteq> ns then Inl (ValueError (''memory namespace mismatch: '' @ i))
       else Inr (if is_forgotten r then None else Some r))"

definition set_embedding_status :: "memory_service \<Rightarrow> memory_record \<Rightarrow> string \<Rightarrow> real \<Rightarrow> memory_db \<Rightarrow> memory_db" where
  "set_embedding_status S r status now db = (case update_record_embedding_status (mm_id r) status (sv_model S) now db of
     (True, db1) \<Rightarrow> db1 | (False, db1) \<Rightarrow> delete_embedding (mm_id r) db1)"

definition worker_audit :: "memory_service \<Rightarrow> memory_record \<Rightarrow> string \<Rightarrow> string \<Rightarrow> string \<Rightarrow> (string, pyval) dict \<Rightarrow> memory_db \<Rightarrow> memory_db" where
  "worker_audit S r action decision reason data db =
    (let (i, db1) = fresh_id S db
     in append_audit \<lparr>ma_id = i, ma_action = action, ma_decision = decision, ma_memory = Some (mm_id r), ma_actor = Some ''memory_embedding_worker'',
          ma_reason = reason, ma_namespace = mm_namespace r, ma_user = mm_user r, ma_data = data\<rparr> db1)"

definition worker_redacted :: "memory_service \<Rightarrow> memory_record \<Rightarrow> real \<Rightarrow> memory_db \<Rightarrow> memory_db" where
  "worker_redacted S r now db = worker_audit S r ''embedding_skipped'' ''skipped'' ''sensitive_content_redacted''
     [(''embedding_status'', PStr ''failed''), (''redacted'', PBool True)] (set_embedding_status S r ''failed'' now db)"

definition worker_failed :: "memory_service \<Rightarrow> memory_record \<Rightarrow> int \<Rightarrow> int \<Rightarrow> real \<Rightarrow> memory_db \<Rightarrow> memory_db" where
  "worker_failed S r attempt max_attempts now db = (if max_attempts \<le> attempt
     then worker_audit S r ''embedding_failed'' ''failed'' ''embedding_failed''
       [(''attempt'', PInt attempt), (''max_attempts'', PInt max_attempts)] (set_embedding_status S r ''failed'' now db)
     else db)"

definition process_payload :: "memory_service \<Rightarrow> string \<Rightarrow> namespace \<Rightarrow> int \<Rightarrow> int \<Rightarrow> real \<Rightarrow> memory_db \<Rightarrow> (py_error + unit) \<times> memory_db" where
  "process_payload S i ns attempt max_attempts now db = (case worker_read i ns db of
     Inl e \<Rightarrow> (Inl e, db)
   | Inr None \<Rightarrow> (Inr (), db)
   | Inr (Some r) \<Rightarrow> if is_redacted r then (Inr (), worker_redacted S r now db)
       else (case ensure_embedding S r db of
         Inl e \<Rightarrow> (Inl e, worker_failed S r attempt max_attempts now db)
       | Inr (st, db1) \<Rightarrow> (Inr (), set_embedding_status S r ''ready'' now db1)))"

end
