(* ===== verification/MemorySafety.thy ===== *)
theory MemorySafety
  imports MemoryStore "HOL-Library.Multiset"
begin

text \<open>
  What the memory service promises: a forgotten memory stays erased, whatever is written later and however the embedding work
  interleaves with it; which memories a policy lets through; when writes merge.
\<close>

section \<open>Interleavings\<close>

text \<open>
  The parts of the operations that other processes may separate. An embedding job has read its record, or has written the
  embedding and still has to set the status; it belongs to the worker (\<open>True\<close>) or to a service that embeds inline. A forget
  has marked the row and still has to delete the embedding. A write looks for an existing memory before it writes, and a
  forget reads the row before it marks it: the \<open>late\<close> steps are those whose reading was done on other rows \<open>old\<close> than the
  writing, as when other steps come in between.
\<close>

datatype memory_job = JOB_READ bool memory_record | JOB_WRITTEN bool memory_record | JOB_REDACTED memory_record | JOB_FORGETTING string

definition finish_job :: "memory_service \<Rightarrow> bool \<Rightarrow> memory_record \<Rightarrow> string \<Rightarrow> real \<Rightarrow> memory_db \<Rightarrow> memory_db" where
  "finish_job S worker r status now db = (if worker then set_embedding_status S r status now db else update_embedding_status S r status now db)"

inductive mem_step :: "memory_service \<Rightarrow> bool \<Rightarrow> memory_db \<times> memory_job list \<Rightarrow> memory_db \<times> memory_job list \<Rightarrow> bool" for S inline where
  stored: "store_request S now (sanitize_request S q) db = ((st, r), db1) \<Longrightarrow> mem_step S inline (db, js) (db1, js)"
| stored_redacted: "store_request S now (sanitize_request S q) db = ((st, r), db1) \<Longrightarrow> is_redacted r \<Longrightarrow> mem_step S inline (db, js) (db1, JOB_REDACTED r # js)"
| marks_redacted: "JOB_REDACTED r \<in> set js \<Longrightarrow> mem_step S inline (db, js) (update_embedding_status S r ''failed'' now db, remove1 (JOB_REDACTED r) js)"
| stored_inline: "inline \<Longrightarrow> store_request S now (sanitize_request S q) db = ((st, r), db1) \<Longrightarrow> st \<noteq> W_CONFLICT \<Longrightarrow>
    mem_step S inline (db, js) (db1, JOB_READ False r # js)"
| late_store: "store_request S now (sanitize_request S q) old = ((st, r), new) \<Longrightarrow> mem_step S inline (db, js) (upsert_record r db, js)"
| late_redacted: "store_request S now (sanitize_request S q) old = ((st, r), new) \<Longrightarrow> is_redacted r \<Longrightarrow>
    mem_step S inline (db, js) (upsert_record r db, JOB_REDACTED r # js)"
| late_inline: "inline \<Longrightarrow> store_request S now (sanitize_request S q) old = ((st, r), new) \<Longrightarrow> st \<noteq> W_CONFLICT \<Longrightarrow>
    mem_step S inline (db, js) (upsert_record r db, JOB_READ False r # js)"
| late_forget: "get_record old i = Some r \<Longrightarrow> get_record db i \<noteq> None \<Longrightarrow> mem_step S inline (db, js)
    ((upsert_record (forgotten_row now r) db)\<lparr>db_tombstones := AList.update i (get_or (db_tombstones db) i uuid) (db_tombstones db)\<rparr>,
     JOB_FORGETTING i # js)"
| worker_reads: "worker_read i ns db = Inr (Some r) \<Longrightarrow> \<not> is_redacted r \<Longrightarrow> mem_step S inline (db, js) (db, JOB_READ True r # js)"
| worker_skips: "worker_read i ns db = Inr (Some r) \<Longrightarrow> is_redacted r \<Longrightarrow>
    mem_step S inline (db, js) (set_embedding_status S r ''failed'' now db, js)"
| embeds: "JOB_READ w r \<in> set js \<Longrightarrow> ensure_embedding S r db = Inr (st, db1) \<Longrightarrow>
    mem_step S inline (db, js) (db1, JOB_WRITTEN w r # remove1 (JOB_READ w r) js)"
| embed_fails: "JOB_READ w r \<in> set js \<Longrightarrow> mem_step S inline (db, js) (db, remove1 (JOB_READ w r) js)"
| failure_noted: "JOB_READ w r \<in> set js \<Longrightarrow> mem_step S inline (db, js) (finish_job S w r ''failed'' now db, remove1 (JOB_READ w r) js)"
| finishes: "JOB_WRITTEN w r \<in> set js \<Longrightarrow> mem_step S inline (db, js) (finish_job S w r ''ready'' now db, remove1 (JOB_WRITTEN w r) js)"
| forgets: "forget_rows i ns now uuid db = (Some t, db1) \<Longrightarrow> mem_step S inline (db, js) (db1, JOB_FORGETTING i # js)"
| forget_ends: "JOB_FORGETTING i \<in> set js \<Longrightarrow> mem_step S inline (db, js)
    (delete_embedding i (db\<lparr>db_index := if sv_indexed S then AList.delete i (db_index db) else db_index db\<rparr>), remove1 (JOB_FORGETTING i) js)"

inductive_cases mem_step_cases: "mem_step S inline (db, js) st"

definition gone :: "memory_db \<Rightarrow> string \<Rightarrow> bool" where
  "gone db i \<longleftrightarrow> (case get_record db i of None \<Rightarrow> False | Some r \<Rightarrow> is_forgotten r)"

section \<open>Rows\<close>

lemma find_put_row: "find (\<lambda>r. mm_id r = i) (put_row r rows) =
    (if i = mm_id r then Some r else find (\<lambda>r. mm_id r = i) rows)"
proof -
  have m: "find (\<lambda>r. mm_id r = i) (map (\<lambda>q. if mm_id q = mm_id r then r else q) rows) =
      (if i = mm_id r then Some r else find (\<lambda>r. mm_id r = i) rows)" if "i = mm_id r \<longrightarrow> i \<in> set (map mm_id rows)"
    using that by (induction rows) auto
  have n: "find (\<lambda>r. mm_id r = i) (rows @ [r]) = (if i = mm_id r then Some r else find (\<lambda>r. mm_id r = i) rows)" if "mm_id r \<notin> set (map mm_id rows)"
    using that by (induction rows) auto
  show ?thesis using m n by (auto simp: put_row_def)
qed

lemma get_record_upsert:
  "get_record (upsert_record r db) i = (if i = mm_id r \<and> \<not> protected_id db i then Some r else get_record db i)"
  by (auto simp: upsert_record_def upsert_unless_protected_def get_record_def find_put_row)

lemma upsert_record_other [simp]:
  "db_embeddings (upsert_record r db) = db_embeddings db" "db_tombstones (upsert_record r db) = db_tombstones db"
  "db_index (upsert_record r db) = db_index db" "db_audit (upsert_record r db) = db_audit db"
  by (simp_all add: upsert_record_def upsert_unless_protected_def)

lemma get_record_id: "get_record db i = Some r \<Longrightarrow> mm_id r = i"
  by (auto simp: get_record_def find_Some_iff)

lemma get_record_only_rows [simp]:
  "get_record (db\<lparr>db_embeddings := e\<rparr>) i = get_record db i" "get_record (db\<lparr>db_index := x\<rparr>) i = get_record db i"
  "get_record (db\<lparr>db_tombstones := t\<rparr>) i = get_record db i" "get_record (db\<lparr>db_fresh := n\<rparr>) i = get_record db i"
  "get_record (db\<lparr>db_audit := a\<rparr>) i = get_record db i"
  by (simp_all add: get_record_def)

lemma gone_protected: "gone db i \<Longrightarrow> protected_id db i"
  by (auto simp: gone_def protected_id_def)

lemma protected_ignores_fresh [simp]: "protected_id (db\<lparr>db_fresh := n\<rparr>) i = protected_id db i"
  by (simp add: protected_id_def)

lemma get_record_delete_embedding [simp]: "get_record (delete_embedding i db) j = get_record db j"
  by (simp add: delete_embedding_def get_record_def)

lemma get_record_update_status:
  "get_record (snd (update_record_embedding_status i status model now db)) j =
    (if j = i \<and> \<not> protected_id db i then map_option (with_embedding_status status model now) (get_record db i) else get_record db j)"
proof (cases "get_record db i")
  case (Some r)
  then have "mm_id r = i" by (rule get_record_id)
  then show ?thesis using Some
    by (auto simp: update_record_embedding_status_def get_record_def find_put_row with_embedding_status_def)
qed (simp add: update_record_embedding_status_def)

lemma update_status_other [simp]:
  "db_embeddings (snd (update_record_embedding_status i status model now db)) = db_embeddings db"
  "db_tombstones (snd (update_record_embedding_status i status model now db)) = db_tombstones db"
  "db_index (snd (update_record_embedding_status i status model now db)) = db_index db"
  by (auto simp: update_record_embedding_status_def split: option.split)

lemma find_existing_live:
  assumes "find_existing ns fp sk kind scope db = Some r"
  shows "r \<in> set (db_rows db) \<and> mm_namespace r = ns \<and> \<not> is_forgotten r \<and> mm_kind r = kind \<and> mm_scope r = scope \<and>
    (mm_fingerprint r = Some fp \<or> mm_semantic_key r = Some sk)"
proof -
  let ?xs = "filter (\<lambda>r. mm_namespace r = ns \<and> mm_status r \<noteq> MS_FORGOTTEN \<and> mm_deleted r = None \<and>
        (mm_fingerprint r = Some fp \<or> mm_semantic_key r = Some sk) \<and> mm_kind r = kind \<and> mm_scope r = scope) (db_rows db)"
  have "r \<in> set (sort_key_reverse mm_updated ?xs)" using assms
    by (cases "sort_key_reverse mm_updated ?xs") (simp_all add: find_existing_def)
  then show ?thesis by (auto simp: sort_key_reverse_def is_forgotten_def)
qed

lemma stored_live:
  assumes "store_request S now q db = ((st, r), db1)"
  shows "\<not> is_forgotten r" "db1 = upsert_record r (db\<lparr>db_fresh := db_fresh db + 1\<rparr>)"
proof -
  define n where "n = record_from_request (sv_digest S) (sv_uuid S (db_fresh db)) now q"
  define f where "f = find_existing (mm_namespace n) (or_empty (mm_fingerprint n)) (or_empty (mm_semantic_key n)) (mm_kind n) (mm_scope n)
    (db\<lparr>db_fresh := db_fresh db + 1\<rparr>)"
  have new: "\<not> is_forgotten n" by (simp add: n_def record_from_request_def Let_def is_forgotten_def memory_request.defs)
  have s: "store_request S now q db = (case f of None \<Rightarrow> ((W_ACCEPTED, n), upsert_record n (db\<lparr>db_fresh := db_fresh db + 1\<rparr>))
    | Some old \<Rightarrow> if is_possible_conflict old q \<and> \<not> should_replace old q
         then (let c = old\<lparr>mm_status := MS_CONFLICT, mm_updated := now\<rparr> in ((W_CONFLICT, c), upsert_record c (db\<lparr>db_fresh := db_fresh db + 1\<rparr>)))
         else (let m = (merge_duplicate_records (sv_digest S) now old q)\<lparr>mm_status := MS_ACTIVE\<rparr> in ((W_MERGED, m), upsert_record m (db\<lparr>db_fresh := db_fresh db + 1\<rparr>))))"
    unfolding store_request_def fresh_id_def Let_def prod.case f_def n_def ..
  have "\<not> is_forgotten r \<and> db1 = upsert_record r (db\<lparr>db_fresh := db_fresh db + 1\<rparr>)"
  proof (cases f)
    case None
    then show ?thesis using s assms new by simp
  next
    case (Some old)
    then have "\<not> is_forgotten old" using find_existing_live unfolding f_def by blast
    then show ?thesis using s assms Some by (auto simp: Let_def is_forgotten_def split: if_splits)
  qed
  then show "\<not> is_forgotten r" "db1 = upsert_record r (db\<lparr>db_fresh := db_fresh db + 1\<rparr>)" by blast+
qed

section \<open>Forgotten memories stay erased\<close>

lemma protected_row: "get_record db i = Some r \<Longrightarrow> is_forgotten r \<Longrightarrow> protected_id db i"
  by (simp add: protected_id_def)

lemma upsert_keeps_gone: "get_record db i = Some r0 \<Longrightarrow> is_forgotten r0 \<Longrightarrow> get_record (upsert_record r db) i = Some r0"
  by (simp add: get_record_upsert protected_id_def)

lemma set_status_keeps_gone: "get_record db i = Some r0 \<Longrightarrow> is_forgotten r0 \<Longrightarrow> get_record (set_embedding_status S r status now db) i = Some r0"
proof -
  assume g: "get_record db i = Some r0" "is_forgotten r0"
  then have "get_record (snd (update_record_embedding_status (mm_id r) status (sv_model S) now db)) i = Some r0"
    using protected_row [OF g] by (auto simp: get_record_update_status)
  then show ?thesis by (auto simp: set_embedding_status_def split: prod.split bool.split)
qed

lemma forget_rows_cases:
  assumes "forget_rows i ns now uuid db = (Some t, db1)"
  obtains r where "get_record db i = Some r" "ns = None \<or> ns = Some (mm_namespace r)" "t = get_or (db_tombstones db) i uuid"
    "db1 = (upsert_record (forgotten_row now r) db)\<lparr>db_tombstones := AList.update i t (db_tombstones db)\<rparr>"
  using assms by (auto simp: forget_rows_def Let_def split: option.splits if_splits)

lemma forgotten_row_simps [simp]: "is_forgotten (forgotten_row now r)" "mm_id (forgotten_row now r) = mm_id r" "mm_content (forgotten_row now r) = []"
  by (simp_all add: forgotten_row_def is_forgotten_def)

lemma forget_keeps_gone:
  "forget_rows i ns now uuid db = (Some t, db1) \<Longrightarrow> get_record db j = Some r0 \<Longrightarrow> is_forgotten r0 \<Longrightarrow> get_record db1 j = Some r0"
  by (elim forget_rows_cases) (simp add: upsert_keeps_gone)

lemma ensure_embedding_rows: "ensure_embedding S r db = Inr (st, db1) \<Longrightarrow> get_record db1 i = get_record db i"
  by (auto simp: ensure_embedding_def get_record_def Let_def split: if_splits)

lemma finish_keeps_gone: "get_record db i = Some r0 \<Longrightarrow> is_forgotten r0 \<Longrightarrow> get_record (finish_job S w r status now db) i = Some r0"
  by (simp add: finish_job_def set_status_keeps_gone update_embedding_status_def upsert_keeps_gone)

lemma step_keeps_gone:
  "mem_step S inline (db, js) (db1, js1) \<Longrightarrow> get_record db i = Some r0 \<Longrightarrow> is_forgotten r0 \<Longrightarrow> get_record db1 i = Some r0"
  by (erule mem_step_cases)
    (auto simp: finish_keeps_gone set_status_keeps_gone update_embedding_status_def upsert_keeps_gone ensure_embedding_rows
      dest: stored_live(2) elim: forget_keeps_gone)

lemma steps_keep_gone:
  "(mem_step S inline)\<^sup>*\<^sup>* st st1 \<Longrightarrow> get_record (fst st) i = Some r0 \<Longrightarrow> is_forgotten r0 \<Longrightarrow> get_record (fst st1) i = Some r0"
proof (induction rule: rtranclp_induct)
  case (step st1 st2)
  then show ?case using step_keeps_gone [of S inline "fst st1" "snd st1" "fst st2" "snd st2"] by simp
qed simp

text \<open>Tombstones have erased rows, and erased rows are empty.\<close>

definition erased_db :: "memory_db \<Rightarrow> bool" where
  "erased_db db \<longleftrightarrow> (\<forall>i \<in> set (keys (db_tombstones db)). gone db i) \<and>
     (\<forall>i r. get_record db i = Some r \<longrightarrow> is_forgotten r \<longrightarrow> mm_content r = [] \<and> mm_status r = MS_FORGOTTEN)"

definition live_jobs :: "memory_job list \<Rightarrow> bool" where
  "live_jobs js \<longleftrightarrow> (\<forall>w r. JOB_READ w r \<in> set js \<or> JOB_WRITTEN w r \<in> set js \<or> JOB_REDACTED r \<in> set js \<longrightarrow> \<not> is_forgotten r)"

definition same_gone :: "memory_db \<Rightarrow> memory_db \<Rightarrow> bool" where
  "same_gone db db1 \<longleftrightarrow> db_tombstones db1 = db_tombstones db \<and>
     (\<forall>i r. is_forgotten r \<longrightarrow> (get_record db1 i = Some r \<longleftrightarrow> get_record db i = Some r))"

lemma same_gone_refl [simp]: "same_gone db db" "same_gone db (db\<lparr>db_fresh := n\<rparr>)"
  by (simp_all add: same_gone_def)

lemma same_gone_trans: "same_gone a b \<Longrightarrow> same_gone b c \<Longrightarrow> same_gone a c"
  by (simp add: same_gone_def)

lemma gone_iff: "gone db i \<longleftrightarrow> (\<exists>r. get_record db i = Some r \<and> is_forgotten r)"
  by (auto simp: gone_def split: option.splits)

lemma same_gone_iff: "same_gone db db1 \<Longrightarrow> gone db1 i = gone db i"
  unfolding gone_iff same_gone_def by blast

lemma same_gone_erased: "same_gone db db1 \<Longrightarrow> erased_db db \<Longrightarrow> erased_db db1"
proof -
  assume s: "same_gone db db1" and e: "erased_db db"
  have "db_tombstones db1 = db_tombstones db" using s by (simp add: same_gone_def)
  then have "\<forall>i \<in> set (keys (db_tombstones db1)). gone db1 i" using e same_gone_iff [OF s] by (simp add: erased_db_def)
  moreover have "get_record db i = Some r" if "get_record db1 i = Some r" "is_forgotten r" for i r using s that by (simp add: same_gone_def)
  ultimately show ?thesis using e unfolding erased_db_def by blast
qed

lemma upsert_same_gone: "\<not> is_forgotten r \<Longrightarrow> same_gone db (upsert_record r db)"
  unfolding same_gone_def get_record_upsert using protected_row by auto

lemma set_status_same_gone: "same_gone db (set_embedding_status S r status now db)"
proof -
  let ?u = "update_record_embedding_status (mm_id r) status (sv_model S) now db"
  have "same_gone db (snd ?u)"
    unfolding same_gone_def get_record_update_status
    using protected_row by (auto simp: with_embedding_status_def is_forgotten_def)
  moreover have "set_embedding_status S r status now db = snd ?u \<or> set_embedding_status S r status now db = delete_embedding (mm_id r) (snd ?u)"
    by (cases ?u) (auto simp: set_embedding_status_def split: bool.split)
  ultimately show ?thesis by (auto simp: same_gone_def delete_embedding_def)
qed

lemma finish_same_gone: "\<not> is_forgotten r \<Longrightarrow> same_gone db (finish_job S w r status now db)"
  by (simp add: finish_job_def set_status_same_gone update_embedding_status_def upsert_same_gone with_embedding_status_def is_forgotten_def)

lemma ensure_same_gone: "ensure_embedding S r db = Inr (st, db1) \<Longrightarrow> same_gone db db1"
  by (auto simp: ensure_embedding_def Let_def same_gone_def get_record_def split: if_splits)

lemma stored_same_gone: "store_request S now q db = ((st, r), db1) \<Longrightarrow> same_gone db db1"
  using same_gone_trans [OF same_gone_refl(2) upsert_same_gone] stored_live by blast

lemma marked_erased:
  assumes e: "erased_db db" and id: "mm_id r = i" and db1: "db1 = (upsert_record (forgotten_row now r) db)\<lparr>db_tombstones := AList.update i t (db_tombstones db)\<rparr>"
  shows "erased_db db1 \<and> gone db1 i"
proof -
  have get: "get_record db1 j = (if j = i \<and> \<not> protected_id db i then Some (forgotten_row now r) else get_record db j)" for j
    using id by (auto simp: db1 get_record_upsert)
  have i: "gone db1 i"
  proof (cases "protected_id db i")
    case True
    then have "gone db i" using e by (auto simp: protected_id_def gone_def erased_db_def)
    then show ?thesis using get [of i] True by (simp add: gone_def)
  next
    case False
    then show ?thesis using get [of i] by (simp add: gone_def)
  qed
  have mono: "gone db j \<Longrightarrow> gone db1 j" for j using get [of j] i by (cases "j = i") (auto simp: gone_def)
  have "gone db1 j" if "j \<in> set (keys (db_tombstones db1))" for j
  proof -
    have "j = i \<or> j \<in> set (keys (db_tombstones db))" using that keys_update [of i t "db_tombstones db"] by (auto simp: db1)
    then show ?thesis using e i mono unfolding erased_db_def by blast
  qed
  moreover have "mm_content q = [] \<and> mm_status q = MS_FORGOTTEN" if "get_record db1 j = Some q" "is_forgotten q" for j q
    using that e get [of j] by (auto simp: erased_db_def forgotten_row_def split: if_splits)
  ultimately show ?thesis using i by (auto simp: erased_db_def)
qed

lemma forget_rows_erased: "erased_db db \<Longrightarrow> forget_rows i ns now uuid db = (Some t, db1) \<Longrightarrow> erased_db db1 \<and> gone db1 i"
  by (elim forget_rows_cases) (rule marked_erased, auto dest: get_record_id)

section \<open>The invariant of the interleavings\<close>

definition deletion_due :: "memory_job list \<Rightarrow> string \<Rightarrow> bool" where
  "deletion_due js i \<longleftrightarrow> JOB_FORGETTING i \<in> set js \<or> (\<exists>r. JOB_WRITTEN True r \<in> set js \<and> mm_id r = i)"

definition no_stale_embedding :: "memory_db \<Rightarrow> memory_job list \<Rightarrow> bool" where
  "no_stale_embedding db js \<longleftrightarrow> (\<forall>i \<in> set (keys (db_embeddings db)). gone db i \<longrightarrow> deletion_due js i)"

definition worker_jobs :: "memory_job list \<Rightarrow> bool" where
  "worker_jobs js \<longleftrightarrow> (\<forall>r. JOB_READ False r \<notin> set js \<and> JOB_WRITTEN False r \<notin> set js)"

definition mem_inv :: "memory_db \<times> memory_job list \<Rightarrow> bool" where
  "mem_inv st = (case st of (db, js) \<Rightarrow> erased_db db \<and> live_jobs js)"

lemma live_jobs_remove: "live_jobs js \<Longrightarrow> live_jobs (remove1 j js)"
  unfolding live_jobs_def using notin_set_remove1 by metis

lemma step_inv: "mem_step S inline st st1 \<Longrightarrow> mem_inv st \<Longrightarrow> mem_inv st1"
proof (induction rule: mem_step.induct)
  case (stored now q db st r db1 js)
  then show ?case using same_gone_erased stored_same_gone unfolding mem_inv_def prod.case by blast
next
  case (stored_redacted now q db st r db1 js)
  then have "erased_db db1" "\<not> is_forgotten r"
    using same_gone_erased stored_same_gone stored_live(1) unfolding mem_inv_def prod.case by blast+
  then show ?case using stored_redacted.prems by (auto simp: mem_inv_def live_jobs_def)
next
  case (marks_redacted r js db now)
  then have "\<not> is_forgotten r" by (auto simp: mem_inv_def live_jobs_def)
  then have "same_gone db (update_embedding_status S r ''failed'' now db)"
    by (simp add: update_embedding_status_def upsert_same_gone with_embedding_status_def is_forgotten_def)
  then show ?case using marks_redacted.prems same_gone_erased live_jobs_remove unfolding mem_inv_def prod.case by blast
next
  case (stored_inline now q db st r db1 js)
  then have "erased_db db1" "\<not> is_forgotten r"
    using same_gone_erased stored_same_gone stored_live(1) unfolding mem_inv_def prod.case by blast+
  then show ?case using stored_inline.prems by (auto simp: mem_inv_def live_jobs_def)
next
  case (late_store now q old st r new db js)
  then show ?case using same_gone_erased [OF upsert_same_gone] stored_live(1) unfolding mem_inv_def prod.case by blast
next
  case (late_redacted now q old st r new db js)
  then have "erased_db (upsert_record r db)" "\<not> is_forgotten r"
    using same_gone_erased [OF upsert_same_gone] stored_live(1) unfolding mem_inv_def prod.case by blast+
  then show ?case using late_redacted.prems by (auto simp: mem_inv_def live_jobs_def)
next
  case (late_inline now q old st r new db js)
  then have "erased_db (upsert_record r db)" "\<not> is_forgotten r"
    using same_gone_erased [OF upsert_same_gone] stored_live(1) unfolding mem_inv_def prod.case by blast+
  then show ?case using late_inline.prems by (auto simp: mem_inv_def live_jobs_def)
next
  case (late_forget old i r db js uuid now)
  then have "erased_db ((upsert_record (forgotten_row now r) db)\<lparr>db_tombstones := AList.update i (get_or (db_tombstones db) i uuid) (db_tombstones db)\<rparr>)"
    using marked_erased [OF _ get_record_id refl] unfolding mem_inv_def prod.case by blast
  then show ?case using late_forget.prems by (auto simp: mem_inv_def live_jobs_def)
next
  case (worker_reads i ns db r js)
  then have "\<not> is_forgotten r" by (auto simp: worker_read_def split: option.splits if_splits)
  then show ?case using worker_reads.prems by (auto simp: mem_inv_def live_jobs_def)
next
  case (worker_skips i ns db r js now)
  then show ?case using same_gone_erased set_status_same_gone unfolding mem_inv_def prod.case by blast
next
  case (embeds w r js db st db1)
  then have "\<not> is_forgotten r" by (auto simp: mem_inv_def live_jobs_def)
  moreover have "live_jobs (remove1 (JOB_READ w r) js)" using embeds.prems live_jobs_remove by (simp add: mem_inv_def)
  moreover have "erased_db db1" using embeds same_gone_erased ensure_same_gone unfolding mem_inv_def prod.case by blast
  ultimately show ?case by (auto simp: mem_inv_def live_jobs_def)
next
  case (embed_fails w r js db)
  then show ?case using live_jobs_remove by (simp add: mem_inv_def)
next
  case (failure_noted w r js db now)
  then have "\<not> is_forgotten r" by (auto simp: mem_inv_def live_jobs_def)
  then show ?case using failure_noted.prems same_gone_erased finish_same_gone live_jobs_remove unfolding mem_inv_def prod.case by blast
next
  case (finishes w r js db now)
  then have "\<not> is_forgotten r" by (auto simp: mem_inv_def live_jobs_def)
  then show ?case using finishes.prems same_gone_erased finish_same_gone live_jobs_remove unfolding mem_inv_def prod.case by blast
next
  case (forgets i ns now uuid db t db1 js)
  then have "erased_db db1" using forget_rows_erased unfolding mem_inv_def prod.case by blast
  then show ?case using forgets.prems by (auto simp: mem_inv_def live_jobs_def)
next
  case (forget_ends i js db)
  have "same_gone db (delete_embedding i (db\<lparr>db_index := x\<rparr>))" for x by (simp add: same_gone_def delete_embedding_def get_record_def)
  then show ?case using forget_ends.prems same_gone_erased live_jobs_remove unfolding mem_inv_def prod.case by blast
qed

definition stale_inv :: "memory_db \<times> memory_job list \<Rightarrow> bool" where
  "stale_inv st = (case st of (db, js) \<Rightarrow> no_stale_embedding db js \<and> worker_jobs js)"

lemma worker_jobs_remove: "worker_jobs js \<Longrightarrow> worker_jobs (remove1 j js)"
  unfolding worker_jobs_def using notin_set_remove1 by metis

lemma remove1_other: "x \<in> set js \<Longrightarrow> x \<noteq> j \<Longrightarrow> x \<in> set (remove1 j js)"
  by simp

lemma deletion_due_remove:
  "deletion_due js i \<Longrightarrow> (\<And>r. j = JOB_WRITTEN True r \<Longrightarrow> mm_id r \<noteq> i) \<Longrightarrow> j \<noteq> JOB_FORGETTING i \<Longrightarrow> deletion_due (remove1 j js) i"
  unfolding deletion_due_def by (metis in_set_remove1)

lemma set_status_embeddings:
  "set (keys (db_embeddings (set_embedding_status S r status now db))) \<subseteq> set (keys (db_embeddings db))"
  "gone db (mm_id r) \<Longrightarrow> mm_id r \<notin> set (keys (db_embeddings (set_embedding_status S r status now db)))"
proof -
  let ?u = "update_record_embedding_status (mm_id r) status (sv_model S) now db"
  have e: "db_embeddings (snd ?u) = db_embeddings db" by simp
  obtain k d where u: "?u = (k, d)" by (cases ?u)
  then have d: "db_embeddings d = db_embeddings db" using e by simp
  show "set (keys (db_embeddings (set_embedding_status S r status now db))) \<subseteq> set (keys (db_embeddings db))"
    by (cases k) (auto simp: set_embedding_status_def u d delete_embedding_def delete_keys)
  assume "gone db (mm_id r)"
  then have "\<not> k" using u gone_protected [of db "mm_id r"] by (auto simp: update_record_embedding_status_def split: option.splits)
  then show "mm_id r \<notin> set (keys (db_embeddings (set_embedding_status S r status now db)))"
    by (simp add: set_embedding_status_def u delete_embedding_def delete_keys)
qed

lemma stored_embeddings: "store_request S now q db = ((st, r), db1) \<Longrightarrow> db_embeddings db1 = db_embeddings db"
  by (subst stored_live(2)) simp_all

lemma step_stale:
  "mem_step S False st st1 \<Longrightarrow> mem_inv st \<Longrightarrow> stale_inv st \<Longrightarrow> stale_inv st1"
proof (induction rule: mem_step.induct)
  case (stored now q db st r db1 js)
  then have "same_gone db db1" "db_embeddings db1 = db_embeddings db" using stored_same_gone stored_embeddings by blast+
  then have "no_stale_embedding db1 js" using stored.prems(2) by (simp add: stale_inv_def no_stale_embedding_def same_gone_iff [of db db1])
  then show ?case using stored.prems by (simp add: stale_inv_def)
next
  case (stored_redacted now q db st r db1 js)
  then have "same_gone db db1" "db_embeddings db1 = db_embeddings db" using stored_same_gone stored_embeddings by blast+
  then have "no_stale_embedding db1 (JOB_REDACTED r # js)" using stored_redacted.prems(2)
    by (simp add: stale_inv_def no_stale_embedding_def deletion_due_def same_gone_iff [of db db1])
  then show ?case using stored_redacted.prems by (auto simp: stale_inv_def worker_jobs_def)
next
  case (marks_redacted r js db now)
  then have "\<not> is_forgotten r" by (auto simp: mem_inv_def live_jobs_def)
  then have "same_gone db (update_embedding_status S r ''failed'' now db)"
    by (simp add: update_embedding_status_def upsert_same_gone with_embedding_status_def is_forgotten_def)
  then have "no_stale_embedding (update_embedding_status S r ''failed'' now db) (remove1 (JOB_REDACTED r) js)"
  proof -
    assume "same_gone db (update_embedding_status S r ''failed'' now db)"
    then have g: "gone (update_embedding_status S r ''failed'' now db) i = gone db i" for i by (rule same_gone_iff)
    have e: "db_embeddings (update_embedding_status S r ''failed'' now db) = db_embeddings db" by (simp add: update_embedding_status_def)
    have "deletion_due js i \<Longrightarrow> deletion_due (remove1 (JOB_REDACTED r) js) i" for i by (rule deletion_due_remove) simp_all
    then show ?thesis using marks_redacted.prems(2) unfolding stale_inv_def no_stale_embedding_def prod.case g e by blast
  qed
  then show ?case using marks_redacted.prems worker_jobs_remove by (auto simp: stale_inv_def)
next
  case (stored_inline now q db st r db1 js)
  then show ?case by simp
next
  case (late_store now q old st r new db js)
  then have g: "gone (upsert_record r db) i = gone db i" for i using same_gone_iff [OF upsert_same_gone] stored_live(1) by blast
  show ?case using late_store.prems(2) by (simp add: stale_inv_def no_stale_embedding_def g)
next
  case (late_redacted now q old st r new db js)
  then have g: "gone (upsert_record r db) i = gone db i" for i using same_gone_iff [OF upsert_same_gone] stored_live(1) by blast
  show ?case using late_redacted.prems(2) by (auto simp: stale_inv_def no_stale_embedding_def worker_jobs_def deletion_due_def g)
next
  case (late_inline now q old st r new db js)
  then show ?case by simp
next
  case (late_forget old i r db js uuid now)
  have "gone db j" if "gone ((upsert_record (forgotten_row now r) db)\<lparr>db_tombstones := x\<rparr>) j" "j \<noteq> i" for x j
    using that get_record_id [OF late_forget(1)] by (auto simp: gone_def get_record_upsert split: if_splits)
  then show ?case using late_forget.prems(2)
    by (auto simp: stale_inv_def no_stale_embedding_def worker_jobs_def deletion_due_def)
next
  case (worker_reads i ns db r js)
  then show ?case by (auto simp: stale_inv_def worker_jobs_def no_stale_embedding_def deletion_due_def)
next
  case (worker_skips i ns db r js now)
  have "no_stale_embedding (set_embedding_status S r ''failed'' now db) js"
    using worker_skips.prems set_status_embeddings(1) same_gone_iff [OF set_status_same_gone]
    unfolding no_stale_embedding_def stale_inv_def prod.case by blast
  then show ?case using worker_skips.prems by (simp add: stale_inv_def)
next
  case (embeds w r js db st db1)
  then have w: w "worker_jobs js" by (auto simp: stale_inv_def worker_jobs_def intro: ccontr)
  have g: "gone db1 i = gone db i" for i using same_gone_iff [OF ensure_same_gone [OF embeds(2)]] .
  have e: "set (keys (db_embeddings db1)) \<subseteq> insert (mm_id r) (set (keys (db_embeddings db)))"
    using embeds(2) by (auto simp: ensure_embedding_def Let_def keys_update simp del: set_map split: if_splits)
  have "deletion_due (JOB_WRITTEN w r # remove1 (JOB_READ w r) js) i" if "i \<in> set (keys (db_embeddings db1))" "gone db1 i" for i
  proof (cases "i = mm_id r")
    case True
    then show ?thesis using w(1) by (auto simp: deletion_due_def)
  next
    case False
    then have "i \<in> set (keys (db_embeddings db))" using that(1) e by blast
    then have "deletion_due js i" using that(2) g embeds.prems(2) unfolding stale_inv_def no_stale_embedding_def prod.case by blast
    then show ?thesis by (auto simp: deletion_due_def)
  qed
  moreover have "worker_jobs (JOB_WRITTEN w r # remove1 (JOB_READ w r) js)"
    using w worker_jobs_remove by (auto simp: worker_jobs_def)
  ultimately show ?case by (simp add: stale_inv_def no_stale_embedding_def)
next
  case (embed_fails w r js db)
  then show ?case using worker_jobs_remove deletion_due_remove by (fastforce simp: stale_inv_def no_stale_embedding_def)
next
  case (failure_noted w r js db now)
  then have w by (auto simp: stale_inv_def worker_jobs_def intro: ccontr)
  then have "no_stale_embedding (finish_job S w r ''failed'' now db) (remove1 (JOB_READ w r) js)"
    using failure_noted.prems(2) set_status_embeddings(1) same_gone_iff [OF set_status_same_gone] deletion_due_remove
    unfolding no_stale_embedding_def stale_inv_def prod.case finish_job_def by fastforce
  then show ?case using failure_noted.prems(2) worker_jobs_remove by (simp add: stale_inv_def)
next
  case (finishes w r js db now)
  then have w: w by (auto simp: stale_inv_def worker_jobs_def intro: ccontr)
  have "deletion_due (remove1 (JOB_WRITTEN w r) js) i" if "i \<in> set (keys (db_embeddings (finish_job S w r ''ready'' now db)))"
    "gone (finish_job S w r ''ready'' now db) i" for i
  proof -
    have g: "gone db i" using that(2) w same_gone_iff [OF set_status_same_gone] by (simp add: finish_job_def)
    have f: "finish_job S w r ''ready'' now db = set_embedding_status S r ''ready'' now db" using w by (simp add: finish_job_def)
    have "i \<noteq> mm_id r" using set_status_embeddings(2) that(1) g unfolding f by blast
    moreover have "deletion_due js i" using that(1) g set_status_embeddings(1) finishes.prems(2)
      unfolding stale_inv_def no_stale_embedding_def prod.case f by blast
    ultimately show ?thesis by (intro deletion_due_remove) auto
  qed
  then show ?case using finishes.prems(2) worker_jobs_remove by (simp add: stale_inv_def no_stale_embedding_def)
next
  case (forgets i ns now uuid db t db1 js)
  have old: "gone db j" if "gone db1 j" "j \<noteq> i" for j
    using forgets(1) that by (elim forget_rows_cases) (auto simp: gone_def get_record_upsert dest: get_record_id split: if_splits)
  moreover have "db_embeddings db1 = db_embeddings db" using forgets(1) by (elim forget_rows_cases) simp
  ultimately show ?case using forgets.prems(2)
    by (auto simp: stale_inv_def no_stale_embedding_def worker_jobs_def deletion_due_def)
next
  case (forget_ends i js db)
  have "gone (delete_embedding i (db\<lparr>db_index := x\<rparr>)) j = gone db j" for x j by (simp add: gone_def)
  moreover have "deletion_due js j \<Longrightarrow> j \<noteq> i \<Longrightarrow> deletion_due (remove1 (JOB_FORGETTING i) js) j" for j by (rule deletion_due_remove) simp_all
  ultimately show ?case using forget_ends.prems(2) worker_jobs_remove
    by (auto simp: stale_inv_def no_stale_embedding_def delete_embedding_def delete_keys simp del: set_map)
qed

section \<open>Theorems\<close>

definition mem_reachable :: "memory_service \<Rightarrow> bool \<Rightarrow> memory_db \<Rightarrow> memory_job list \<Rightarrow> bool" where
  "mem_reachable S inline db js \<longleftrightarrow> (mem_step S inline)\<^sup>*\<^sup>* (empty_db, []) (db, js)"

lemma empty_inv: "mem_inv (empty_db, [])" "stale_inv (empty_db, [])"
  by (simp_all add: mem_inv_def erased_db_def live_jobs_def empty_db_def get_record_def stale_inv_def no_stale_embedding_def worker_jobs_def)

lemma reachable_inv: "mem_reachable S inline db js \<Longrightarrow> mem_inv (db, js)"
proof -
  have "(mem_step S inline)\<^sup>*\<^sup>* (empty_db, []) st \<Longrightarrow> mem_inv st" for st
    by (induction rule: rtranclp_induct) (blast intro: step_inv empty_inv)+
  then show "mem_reachable S inline db js \<Longrightarrow> mem_inv (db, js)" by (simp add: mem_reachable_def)
qed

lemma reachable_stale: "mem_reachable S False db js \<Longrightarrow> stale_inv (db, js)"
proof -
  have "(mem_step S False)\<^sup>*\<^sup>* (empty_db, []) st \<Longrightarrow> mem_inv st \<and> stale_inv st" for st
    by (induction rule: rtranclp_induct) (blast intro: step_inv step_stale empty_inv)+
  then show "mem_reachable S False db js \<Longrightarrow> stale_inv (db, js)" by (simp add: mem_reachable_def)
qed

text \<open>Once a memory is forgotten its text is erased, and nothing that is written, embedded or forgotten later, in any
  interleaving, changes the row again.\<close>

lemma forgotten_stays_erased:
  assumes "mem_reachable S inline db js" "forget_rows i ns now uuid db = (Some t, db1)"
    "(mem_step S inline)\<^sup>*\<^sup>* (db1, JOB_FORGETTING i # js) (db2, js2)"
  shows "\<exists>r. get_record db2 i = Some r \<and> mm_status r = MS_FORGOTTEN \<and> mm_content r = [] \<and> get_record db1 i = Some r"
proof -
  have "erased_db db" using reachable_inv [OF assms(1)] by (simp add: mem_inv_def)
  then have e: "erased_db db1" "gone db1 i" using forget_rows_erased assms(2) by blast+
  then obtain r where r: "get_record db1 i = Some r" "is_forgotten r" by (auto simp: gone_iff)
  then have "get_record db2 i = Some r" using steps_keep_gone [OF assms(3)] by simp
  then show ?thesis using r e(1) unfolding erased_db_def by blast
qed

lemma no_embedding: "mem_reachable S False db [] \<Longrightarrow> gone db i \<Longrightarrow> i \<notin> set (keys (db_embeddings db))"
  using reachable_stale by (fastforce simp: stale_inv_def no_stale_embedding_def deletion_due_def)

text \<open>C17: When only the worker embeds, then between jobs no forgotten memory has an embedding, although a forget may come
  between any two parts of the worker's work.\<close>

theorem no_embedding_of_forgotten:
  assumes "mem_reachable S False db []" "gone db i"
  shows "i \<notin> set (keys (db_embeddings db))"
  using assms by (rule no_embedding)

section \<open>What a forget leaves behind\<close>

lemma index_of_fresh [simp]: "db_index (snd (fresh_id S db)) = db_index db" "db_rows (snd (fresh_id S db)) = db_rows db"
  by (simp_all add: fresh_id_def)

lemma forget_record_index: "db_index (snd (forget_record i ns now uuid db)) = db_index db"
  by (auto simp: forget_record_def forget_rows_def delete_embedding_def Let_def split: option.splits)

text \<open>A service built without the retrieval index, as the HTTP endpoint builds it, forgets a memory and leaves its text in the
  index: the row is erased, the tombstone is written, and the document stays as it was.\<close>

lemma http_forget_keeps_index_text:
  assumes "\<not> sv_indexed S"
  shows "db_index (snd (forget_memory S now i ns actor reason db)) = db_index db"
  using assms forget_record_index
  by (auto simp: forget_memory_def append_audit_def Let_def split: prod.split) (metis index_of_fresh(1) snd_conv)+

section \<open>Examples\<close>

definition ex_service :: memory_service where
  "ex_service = \<lparr>sv_digest = \<lambda>d. ''k'', sv_hash = \<lambda>t. t, sv_uuid = \<lambda>n. ''m'' @ show_nat n, sv_substitute = \<lambda>i t. t, sv_embeds = True,
     sv_indexed = True, sv_model = None, sv_provider = \<lambda>t. True, sv_index_ok = \<lambda>t. True, sv_enqueue = \<lambda>i. False\<rparr>"

definition ex_request :: memory_request where
  "ex_request = \<lparr>mm_kind = Kind_user_preference, mm_scope = Scope_user, mm_visibility = Shared, mm_namespace = user_profile_namespace ''ann'',
     mm_content = ''call me Ann'', mm_summary = [], mm_tags = [], mm_evidence = [], mm_source_thread = None, mm_source_branch = None,
     mm_root_thread = None, mm_user = Some ''ann'', mm_confidence = None, mm_importance = 1, mm_promoted = False, mm_semantic_key = None\<rparr>"

definition ex_row :: memory_record where
  "ex_row = record_from_request (sv_digest ex_service) ''m0'' 0 (sanitize_request ex_service ex_request)"

definition ex_db :: memory_db where
  "ex_db = empty_db\<lparr>db_rows := [ex_row], db_fresh := 1\<rparr>"

lemma ex_uuid: "sv_uuid ex_service 0 = ''m0''"
  by code_simp

lemma ex_stored: "store_request ex_service 0 (sanitize_request ex_service ex_request) empty_db = ((W_ACCEPTED, ex_row), ex_db)"
  by (simp add: store_request_def fresh_id_def ex_db_def ex_row_def empty_db_def find_existing_def sort_key_reverse_def Let_def
      upsert_record_def upsert_unless_protected_def protected_id_def get_record_def put_row_def ex_uuid)

lemma ex_row_fields: "mm_id ex_row = ''m0''" "\<not> is_forgotten ex_row" "\<not> is_redacted ex_row" "mm_namespace ex_row = user_profile_namespace ''ann''"
    "memory_embedding_text ex_row = ''call me Ann'' @ newline # ''call me Ann''" "should_embed_memory ex_row"
  by code_simp+

lemma ex_read: "worker_read ''m0'' (user_profile_namespace ''ann'') ex_db = Inr (Some ex_row)"
  by (simp add: worker_read_def ex_db_def get_record_def ex_row_fields)

definition ex_forgotten :: memory_db where
  "ex_forgotten = ex_db\<lparr>db_rows := [forgotten_row 1 ex_row], db_tombstones := [(''m0'', ''t'')]\<rparr>"

lemma ex_forget: "forget_rows ''m0'' None 1 ''t'' ex_db = (Some ''t'', ex_forgotten)"
  by (simp add: forget_rows_def ex_db_def get_record_def ex_row_fields upsert_record_def upsert_unless_protected_def protected_id_def
      put_row_def ex_forgotten_def empty_db_def Let_def)

definition ex_embedded :: memory_db where
  "ex_embedded = ex_forgotten\<lparr>db_index := [(''m0'', memory_embedding_text ex_row)], db_embeddings := [(''m0'', memory_embedding_text ex_row)]\<rparr>"

lemma ex_embed: "ensure_embedding ex_service ex_row ex_forgotten = Inr (E_WRITTEN, ex_embedded)"
  using ex_row_fields by (simp add: ensure_embedding_def ex_embedded_def ex_forgotten_def ex_db_def empty_db_def ex_service_def Let_def)

lemma ex_forgotten_ends: "delete_embedding ''m0'' (ex_forgotten\<lparr>db_index := if sv_indexed ex_service then AList.delete ''m0'' (db_index ex_forgotten) else db_index ex_forgotten\<rparr>) = ex_forgotten"
  by (simp add: ex_forgotten_def ex_db_def empty_db_def delete_embedding_def)

lemma ex_gone: "gone ex_forgotten ''m0''" "gone ex_embedded ''m0''" "protected_id ex_embedded ''m0''"
  by (simp_all add: gone_def ex_embedded_def ex_forgotten_def get_record_def ex_row_fields protected_id_def)

lemma ex_race: "(mem_step ex_service inline)\<^sup>*\<^sup>* (ex_db, [JOB_READ w ex_row]) (ex_embedded, [JOB_WRITTEN w ex_row])"
proof -
  have "mem_step ex_service inline (ex_db, [JOB_READ w ex_row]) (ex_forgotten, [JOB_FORGETTING ''m0'', JOB_READ w ex_row])"
    by (rule mem_step.forgets [OF ex_forget])
  moreover have "mem_step ex_service inline (ex_forgotten, [JOB_FORGETTING ''m0'', JOB_READ w ex_row]) (ex_forgotten, [JOB_READ w ex_row])"
    using mem_step.forget_ends [of "''m0''" "[JOB_FORGETTING ''m0'', JOB_READ w ex_row]" ex_service inline ex_forgotten] by (simp only: ex_forgotten_ends) simp
  moreover have "mem_step ex_service inline (ex_forgotten, [JOB_READ w ex_row]) (ex_embedded, [JOB_WRITTEN w ex_row])"
    using mem_step.embeds [of w ex_row "[JOB_READ w ex_row]" ex_service, OF _ ex_embed] by simp
  ultimately show ?thesis by (meson rtranclp.rtrancl_into_rtrancl rtranclp.rtrancl_refl)
qed

lemma ex_start: "mem_step ex_service inline (empty_db, []) (ex_db, [])"
  using ex_stored by (rule mem_step.stored)

text \<open>If a forget comes between the worker's read and its embedding, the worker deletes the embedding it wrote but not the
  document in the retrieval index: with all work done the text of the forgotten memory is still there.\<close>

lemma worker_race_leaves_index_text:
  "\<exists>S db i. mem_reachable S False db [] \<and> gone db i \<and> i \<notin> set (keys (db_embeddings db)) \<and> map_of (db_index db) i \<noteq> None"
proof -
  let ?db = "set_embedding_status ex_service ex_row ''ready'' 2 ex_embedded"
  have "mem_step ex_service False (ex_db, []) (ex_db, [JOB_READ True ex_row])" using ex_read ex_row_fields(3) by (rule mem_step.worker_reads)
  moreover have "mem_step ex_service False (ex_embedded, [JOB_WRITTEN True ex_row]) (?db, [])"
    using mem_step.finishes [of True ex_row "[JOB_WRITTEN True ex_row]" ex_service False ex_embedded 2] by (simp add: finish_job_def)
  ultimately have "(mem_step ex_service False)\<^sup>*\<^sup>* (empty_db, []) (?db, [])"
    using ex_start ex_race by (meson rtranclp.rtrancl_into_rtrancl converse_rtranclp_into_rtranclp)
  then have r: "mem_reachable ex_service False ?db []" by (simp add: mem_reachable_def)
  have s: "?db = delete_embedding ''m0'' ex_embedded"
    using ex_gone(3) by (auto simp: set_embedding_status_def update_record_embedding_status_def ex_row_fields split: option.split)
  have g: "gone ?db ''m0''" using ex_gone(2) by (simp add: s gone_def)
  moreover have "map_of (db_index ?db) ''m0'' \<noteq> None" unfolding s by (simp add: delete_embedding_def ex_embedded_def)
  ultimately show ?thesis using r no_embedding [OF r g] by blast
qed

text \<open>A service that embeds inline cleans nothing up: a forget between its write and its embedding leaves the embedding of the
  forgotten memory in the table.\<close>

lemma inline_race_leaves_embedding:
  "\<exists>S db i. mem_reachable S True db [] \<and> gone db i \<and> i \<in> set (keys (db_embeddings db))"
proof -
  let ?db = "update_embedding_status ex_service ex_row ''ready'' 2 ex_embedded"
  have "mem_step ex_service True (empty_db, []) (ex_db, [JOB_READ False ex_row])" using ex_stored by (rule mem_step.stored_inline [rotated]) simp_all
  moreover have "mem_step ex_service True (ex_embedded, [JOB_WRITTEN False ex_row]) (?db, [])"
    using mem_step.finishes [of False ex_row "[JOB_WRITTEN False ex_row]" ex_service True ex_embedded 2] by (simp add: finish_job_def)
  ultimately have "(mem_step ex_service True)\<^sup>*\<^sup>* (empty_db, []) (?db, [])"
    using ex_race by (meson rtranclp.rtrancl_into_rtrancl converse_rtranclp_into_rtranclp)
  moreover have "?db = ex_embedded" using ex_gone(3)
    by (simp add: update_embedding_status_def upsert_record_def upsert_unless_protected_def with_embedding_status_def ex_row_fields)
  moreover have "''m0'' \<in> set (keys (db_embeddings ex_embedded))" by (simp add: ex_embedded_def)
  ultimately show ?thesis using ex_gone(2) unfolding mem_reachable_def by metis
qed

section \<open>Where a turn may write\<close>

text \<open>What the policy lets a turn keep goes to a place that the same turn may read, of its own user, project, thread or branch; it
  is not empty, not too long, and its turn was stable.\<close>

lemma kept_where_readable:
  assumes "should_persist E c s r"
  shows "mm_namespace r \<in> set (allowed_namespaces_for_read c) \<and> py_strip (mm_content r) \<noteq> [] \<and>
    length (py_strip (mm_content r)) \<le> 4000 \<and> 1 / 2 \<le> mm_importance r \<and> turn_is_stable s \<and> mm_scope r \<noteq> Scope_skill"
proof -
  have p: "placement_allowed c r" using assms
    by (auto simp: should_persist_def persistence_skip_reason_def Let_def split: if_splits option.splits)
  then have "mm_namespace r \<in> set (allowed_namespaces_for_read c)" "mm_scope r \<noteq> Scope_skill"
    by (cases "mm_scope r"; auto simp: placement_allowed_def allowed_namespaces_for_read_def)+
  then show ?thesis using assms
    by (auto simp: should_persist_def persistence_skip_reason_def Let_def max_content_chars_def split: if_splits)
qed

section \<open>What reaches a prompt\<close>

lemma split_by_section_mset: "split_by_section m k counts hs = (a, b) \<Longrightarrow> mset hs = mset a + mset b"
proof (induction hs arbitrary: counts a b)
  case (Cons h hs)
  then show ?case by (auto simp: Let_def split: if_splits prod.splits)
qed simp

lemma py_slice_take: "0 \<le> k \<Longrightarrow> py_slice 0 k xs = take (nat k) xs"
  by (cases "k \<le> int (length xs)") (simp_all add: py_slice_def slice_index_def Let_def)

lemma section_budget_cases:
  assumes "0 \<le> k"
  shows "\<exists>rest. mset hs = mset (apply_section_budget m k hs) + rest" "length (apply_section_budget m k hs) = min (nat k) (length hs)"
proof -
  obtain a b where s: "split_by_section m k (\<lambda>s. 0) hs = (a, b)" by (cases "split_by_section m k (\<lambda>s. 0) hs")
  then have ms: "mset hs = mset a + mset b" by (rule split_by_section_mset)
  then have l: "length hs = length a + length b" by (metis size_mset size_union)
  note t = py_slice_take [OF assms]
  have sub: "\<exists>rest. mset xs = mset (take n xs) + rest" for n and xs :: "memory_hit list"
    by (metis append_take_drop_id mset_append)
  have "(\<exists>rest. mset hs = mset (apply_section_budget m k hs) + rest) \<and> length (apply_section_budget m k hs) = min (nat k) (length hs)"
  proof (cases "k \<le> int (length a)")
    case True
    then have "apply_section_budget m k hs = take (nat k) a" using s t by (simp add: apply_section_budget_def)
    moreover have "nat k \<le> length a" using True by simp
    ultimately show ?thesis using ms sub [of a "nat k"] l by (auto simp: ac_simps) 
  next
    case False
    have "apply_section_budget m k hs = take (nat k) (a @ take (nat k - length a) b)"
      using False s assms by (simp add: apply_section_budget_def nat_diff_distrib py_slice_take)
    also have "\<dots> = take (nat k) (a @ b)" by simp
    finally have e: "apply_section_budget m k hs = take (nat k) (a @ b)" .
    then show ?thesis using sub [of "a @ b" "nat k"] ms l by auto
  qed
  then show "\<exists>rest. mset hs = mset (apply_section_budget m k hs) + rest" "length (apply_section_budget m k hs) = min (nat k) (length hs)" by blast+
qed

lemma section_budget_set: "0 \<le> k \<Longrightarrow> set (apply_section_budget m k hs) \<subseteq> set hs"
  using section_budget_cases(1) [of k hs m] by (metis mset_subset_eq_add_left set_mset_mono set_mset_mset)

lemma filtered_bundle:
  assumes "0 \<le> k"
  shows "set (mb_hits (filter_bundle_for_prompt k m ids b)) \<subseteq> {h \<in> set (mb_hits b). prompt_candidate m ids (mb_query b) h}"
    "length (mb_hits (filter_bundle_for_prompt k m ids b)) = min (nat k) (length (filter (prompt_candidate m ids (mb_query b)) (mb_hits b)))"
    "mb_total (filter_bundle_for_prompt k m ids b) = length (mb_hits (filter_bundle_for_prompt k m ids b))"
proof -
  let ?hs = "rank_hits_for_prompt m (filter (prompt_candidate m ids (mb_query b)) (mb_hits b))"
  have r: "set ?hs = {h \<in> set (mb_hits b). prompt_candidate m ids (mb_query b) h}" "length ?hs = length (filter (prompt_candidate m ids (mb_query b)) (mb_hits b))"
    by (auto simp: rank_hits_for_prompt_def)
  note t = py_slice_take [OF assms]
  have e: "mb_hits (filter_bundle_for_prompt k m ids b) = apply_section_budget m k ?hs"
    using section_budget_cases(2) [OF assms, of m ?hs] by (simp add: filter_bundle_for_prompt_def Let_def py_slice_take [OF assms])
  show "set (mb_hits (filter_bundle_for_prompt k m ids b)) \<subseteq> {h \<in> set (mb_hits b). prompt_candidate m ids (mb_query b) h}"
    using section_budget_set [OF assms, of m ?hs] r(1) e by simp
  show "length (mb_hits (filter_bundle_for_prompt k m ids b)) = min (nat k) (length (filter (prompt_candidate m ids (mb_query b)) (mb_hits b)))"
    using section_budget_cases(2) [OF assms, of m ?hs] r(2) e by simp
  show "mb_total (filter_bundle_for_prompt k m ids b) = length (mb_hits (filter_bundle_for_prompt k m ids b))"
    using e by (simp add: filter_bundle_for_prompt_def Let_def)
qed

section \<open>Witnesses\<close>

lemma ex_reachable: "mem_reachable ex_service inline ex_db []"
  unfolding mem_reachable_def using ex_start by (rule r_into_rtranclp)

theorem forgotten_stays_erased_witness:
  "\<exists>r. get_record ex_forgotten ''m0'' = Some r \<and> mm_status r = MS_FORGOTTEN \<and> mm_content r = [] \<and> get_record ex_forgotten ''m0'' = Some r"
  by (rule forgotten_stays_erased [OF ex_reachable ex_forget rtranclp.rtrancl_refl])

lemma ex_forget_reachable: "mem_reachable ex_service inline ex_forgotten []"
proof -
  have "mem_step ex_service inline (ex_db, []) (ex_forgotten, [JOB_FORGETTING ''m0''])" by (rule mem_step.forgets [OF ex_forget])
  moreover have "mem_step ex_service inline (ex_forgotten, [JOB_FORGETTING ''m0'']) (ex_forgotten, [])"
    using mem_step.forget_ends [of "''m0''" "[JOB_FORGETTING ''m0'']" ex_service inline ex_forgotten] by (simp only: ex_forgotten_ends) simp
  ultimately show ?thesis using ex_reachable [of inline] unfolding mem_reachable_def by (meson rtranclp.rtrancl_into_rtrancl)
qed

theorem no_embedding_of_forgotten_witness: "''m0'' \<notin> set (keys (db_embeddings ex_forgotten))"
  by (rule no_embedding_of_forgotten [OF ex_forget_reachable ex_gone(1)])

theorem http_forget_keeps_index_text_witness:
  "db_index (snd (forget_memory (ex_service\<lparr>sv_indexed := False\<rparr>) 3 ''m0'' None None None (ex_db\<lparr>db_index := [(''m0'', ''call me Ann'')]\<rparr>))) =
    [(''m0'', ''call me Ann'')]"
  by (subst http_forget_keeps_index_text) simp_all

definition ex_turn_context :: turn_context where
  "ex_turn_context = \<lparr>rc_user = ''ann'', rc_root_thread = ''t1'', rc_branch = None, rc_project = None, rc_skill_hints = []\<rparr>"

definition ex_turn_state :: turn_state where
  "ex_turn_state = \<lparr>ts_messages = [\<lparr>pm_kind = AI, pm_content = PStr ''ok'', pm_calls = [], pm_call_id = [], pm_artifact = PNone\<rparr>], ts_values = []\<rparr>"

lemma ex_persists: "should_persist ex_text_env ex_turn_context ex_turn_state ex_request"
  by code_simp

theorem kept_where_readable_witness: "user_profile_namespace ''ann'' \<in> set (allowed_namespaces_for_read ex_turn_context)"
  using kept_where_readable [OF ex_persists] by (simp add: ex_request_def)

end
