(* ===== verification/MemoryRetrieval.thy ===== *)
theory MemoryRetrieval
  imports MemorySafety "HOL-Library.Countable"
begin

text \<open>
  How memories are found for a turn and for the search tool: \<open>memory/retriever.py\<close>, the searches of
  \<open>repositories/postgres_memory_repository.py\<close> and \<open>postgres_memory_embeddings.py\<close>, and \<open>_search_memory_hits\<close> of
  \<open>capabilities/default_tool_modules/memory.py\<close>. Full-text matching and ranking, vector distances, rounding and the retrieval
  index are fields of the environment; ties that SQL leaves open keep the order of the rows. The store without a repository is
  left out, and so is the description of the plan.
\<close>

record retrieval_env =
  rv_matches :: "string \<Rightarrow> memory_record \<Rightarrow> bool"
  rv_rank :: "string \<Rightarrow> memory_record \<Rightarrow> real"
  rv_similarity :: "string \<Rightarrow> string \<Rightarrow> real"
  rv_round4 :: "real \<Rightarrow> real"
  rv_round6 :: "real \<Rightarrow> real"
  rv_digest :: digest
  rv_embeds_query :: "string \<Rightarrow> bool"
  rv_index :: "string \<Rightarrow> namespace \<Rightarrow> int \<Rightarrow> (string \<times> real) list option"

text \<open>A retriever with a repository. \<open>rt_index\<close> and \<open>rt_provider\<close> say whether it has a retrieval index and an embedding provider.\<close>

record retriever =
  rt_limit :: int
  rt_top_k :: int
  rt_hybrid :: bool
  rt_shadow :: bool
  rt_rrf_k :: int
  rt_provider :: bool
  rt_index :: bool

section \<open>Searches of the tables\<close>

definition search_rows :: "retrieval_env \<Rightarrow> namespace \<Rightarrow> string \<Rightarrow> int \<Rightarrow> memory_db \<Rightarrow> memory_hit list" where
  "search_rows V ns query limit db =
    (let q = py_words query; score = (\<lambda>r. if q = [] then 0 else rv_rank V q r);
         rows = filter (\<lambda>r. mm_namespace r = ns \<and> mm_status r = MS_ACTIVE \<and> mm_deleted r = None \<and> (q = [] \<or> rv_matches V q r)) (db_rows db)
     in map (\<lambda>r. \<lparr>mh_record = r, mh_score = score r, mh_terms = [], mh_namespace = mm_namespace r, mh_rationale = None\<rparr>)
       (take (nat (max 1 limit)) (sort_key (\<lambda>r. (- score r, - mm_importance r, - mm_updated r)) rows)))"

definition search_embeddings :: "retrieval_env \<Rightarrow> namespace \<Rightarrow> string \<Rightarrow> int \<Rightarrow> memory_db \<Rightarrow> memory_hit list" where
  "search_embeddings V ns query limit db =
    (let rows = filter (\<lambda>r. mm_namespace r = ns \<and> mm_status r = MS_ACTIVE \<and> mm_deleted r = None \<and> mm_id r \<in> set (keys (db_embeddings db))) (db_rows db);
         score = (\<lambda>r. rv_similarity V query (get_or (db_embeddings db) (mm_id r) []))
     in map (\<lambda>r. \<lparr>mh_record = r, mh_score = score r, mh_terms = [], mh_namespace = mm_namespace r, mh_rationale = Some ''vector''\<rparr>)
       (take (nat (max 1 limit)) (sort_key (\<lambda>r. (- score r, - mm_importance r)) rows)))"

definition list_active :: "namespace \<Rightarrow> int \<Rightarrow> memory_db \<Rightarrow> memory_record list" where
  "list_active ns limit db = take (nat (max 1 limit)) (sort_key_reverse (\<lambda>r. (mm_updated r, mm_id r))
     (filter (\<lambda>r. mm_namespace r = ns \<and> mm_status r = MS_ACTIVE \<and> mm_deleted r = None) (db_rows db)))"

section \<open>Candidates\<close>

definition matched_terms :: "string \<Rightarrow> memory_record \<Rightarrow> string list" where
  "matched_terms query r = filter (\<lambda>t. has_infix (py_lower t) (record_text r)) (memory_text_terms 2 query)"

definition normalize_hit :: "namespace \<Rightarrow> string \<Rightarrow> memory_hit \<Rightarrow> memory_hit" where
  "normalize_hit ns query h = h\<lparr>mh_terms := if mh_terms h \<noteq> [] then mh_terms h else matched_terms query (mh_record h),
     mh_namespace := if mh_namespace h \<noteq> [] then mh_namespace h else ns\<rparr>"

definition search_namespace :: "retrieval_env \<Rightarrow> string \<Rightarrow> int \<Rightarrow> memory_db \<Rightarrow> namespace \<Rightarrow> memory_hit list" where
  "search_namespace V query limit db ns = map (normalize_hit ns query) (search_rows V ns query limit db)"

definition search_vector_namespace :: "retrieval_env \<Rightarrow> string \<Rightarrow> int \<Rightarrow> memory_db \<Rightarrow> namespace \<Rightarrow> memory_hit list" where
  "search_vector_namespace V query limit db ns = map (normalize_hit ns query) (search_embeddings V ns query limit db)"

definition recent_user_profile_hits :: "string \<Rightarrow> int \<Rightarrow> memory_db \<Rightarrow> namespace \<Rightarrow> memory_hit list" where
  "recent_user_profile_hits query limit db ns =
    map (\<lambda>r. \<lparr>mh_record = r, mh_score = 0, mh_terms = matched_terms query r,
        mh_namespace = (if mm_namespace r \<noteq> [] then mm_namespace r else ns), mh_rationale = Some ''recent_user_profile''\<rparr>)
      (filter (\<lambda>r. mm_kind r \<in> {Kind_user_preference, Kind_user_profile}) (list_active ns limit db))"

definition is_user_profile_namespace :: "namespace \<Rightarrow> bool" where
  "is_user_profile_namespace ns \<longleftrightarrow> (case ns of [a, b, c] \<Rightarrow> a = ''user'' \<and> c = ''profile'' | _ \<Rightarrow> False)"

text \<open>\<open>None\<close>: the index failed.\<close>

definition search_retrieval_namespace :: "retrieval_env \<Rightarrow> string \<Rightarrow> int \<Rightarrow> memory_db \<Rightarrow> namespace \<Rightarrow> memory_hit list option" where
  "search_retrieval_namespace V query limit db ns = map_option (\<lambda>found. concat (map (\<lambda>(i, score).
     case get_record db i of None \<Rightarrow> []
     | Some r \<Rightarrow> if mm_namespace r \<noteq> ns \<or> mm_status r \<noteq> MS_ACTIVE then []
         else [\<lparr>mh_record = r, mh_score = score, mh_terms = matched_terms query r, mh_namespace = mm_namespace r, mh_rationale = Some ''zvec''\<rparr>]) found))
     (rv_index V query ns limit)"

section \<open>Ranking\<close>

definition rerank_hits :: "retrieval_env \<Rightarrow> string \<Rightarrow> prompt_mode \<Rightarrow> memory_hit list \<Rightarrow> memory_hit list" where
  "rerank_hits V query m hs = sort_key_reverse mh_score (map (\<lambda>h. h\<lparr>mh_score := score_memory_hit (rv_round4 V) h query m\<rparr>) hs)"

definition hit_preference :: "memory_hit \<Rightarrow> real list" where
  "hit_preference h = (let r = mh_record h in [of_bool (mm_promoted r), of_bool (mm_visibility r = Shared), of_bool (mm_scope r = Scope_root_thread),
     (case mm_confidence r of None \<Rightarrow> 0 | Some x \<Rightarrow> x), mm_importance r, real (length (mm_evidence r)), mm_updated r, mh_score h])"

definition keep_preferred :: "('k, memory_hit) dict \<Rightarrow> 'k \<Rightarrow> memory_hit \<Rightarrow> ('k, memory_hit) dict" where
  "keep_preferred d k h = (case map_of d k of None \<Rightarrow> d @ [(k, h)]
     | Some c \<Rightarrow> if hit_preference c < hit_preference h then AList.update k h d else d)"

definition hit_key :: "retrieval_env \<Rightarrow> memory_hit \<Rightarrow> string" where
  "hit_key V h = memory_resolution_key (rv_digest V) ((mh_record h)\<lparr>mm_semantic_key := Some (own_semantic_key (rv_digest V) (mh_record h))\<rparr>)"

definition dedupe_hits :: "retrieval_env \<Rightarrow> memory_hit list \<Rightarrow> memory_hit list" where
  "dedupe_hits V hs = sort_key_reverse mh_score (map snd (foldl (\<lambda>d h. keep_preferred d (hit_key V h) h) [] hs))"

text \<open>Reciprocal rank fusion: the scores of a memory over the lists, each counted at its first place.\<close>

fun rrf_list :: "real \<Rightarrow> nat \<Rightarrow> string list \<Rightarrow> memory_hit list \<Rightarrow> (string, memory_hit) dict \<times> (string, real) dict \<Rightarrow> (string, memory_hit) dict \<times> (string, real) dict" where
  "rrf_list k rank seen [] acc = acc"
| "rrf_list k rank seen (h # hs) acc = (let i = mm_id (mh_record h) in
     if i \<in> set seen then rrf_list k (rank + 1) seen hs acc
     else rrf_list k (rank + 1) (i # seen) hs (keep_preferred (fst acc) i h, AList.update i (get_or (snd acc) i 0 + 1 / (k + real rank)) (snd acc)))"

definition rrf_blend_hits :: "retrieval_env \<Rightarrow> int \<Rightarrow> memory_hit list list \<Rightarrow> memory_hit list" where
  "rrf_blend_hits V k rankings = (let (hits, scores) = foldl (\<lambda>acc hs. rrf_list (real_of_int k) 1 [] hs acc) ([], []) rankings
     in sort_key_reverse mh_score (map (\<lambda>(i, h). h\<lparr>mh_score := rv_round6 V (get_or scores i 0)\<rparr>) hits))"

section \<open>Retrieval for a turn\<close>

definition current_plan_step_goal :: "text_env \<Rightarrow> turn_state \<Rightarrow> string" where
  "current_plan_step_goal E s =
    (let step = py_strip (text_of (te_str E) (dict_value (ts_values s) ''current_step_id''))
     in if step = [] then []
        else case find (\<lambda>p. dict_value (dict_of p) ''id'' = PStr step) (list_of (dict_value (dict_of (dict_value (ts_values s) ''plan'')) ''steps'')) of
          None \<Rightarrow> [] | Some p \<Rightarrow> py_strip (text_of (te_str E) (dict_value (dict_of p) ''goal'')))"

definition imported_line :: "text_env \<Rightarrow> pyval \<Rightarrow> string" where
  "imported_line E v = py_strip (case v of PDict d \<Rightarrow> text_of (te_str E) (py_or (dict_value d ''finding'') (dict_value d ''summary''))
     | _ \<Rightarrow> text_of (te_str E) v)"

definition build_retrieval_query :: "text_env \<Rightarrow> string \<Rightarrow> turn_state \<Rightarrow> prompt_mode \<Rightarrow> string" where
  "build_retrieval_query E query s m =
    (let candidates = [py_strip query, py_strip (text_of (te_str E) (dict_value (ts_values s) ''active_goal'')),
           py_strip (text_of (te_str E) (dict_value (ts_values s) ''task_brief'')), current_plan_step_goal E s];
         parts = filter (\<lambda>t. t \<noteq> []) (map py_words candidates);
         imported = (if m = SYNTHESIZE then filter (\<lambda>t. t \<noteq> []) (map (imported_line E) (take 2 (list_of (dict_value (ts_values s) ''imported_findings'')))) else [])
     in take 240 (join_with '' | '' (from_keys (parts @ imported))))"

text \<open>The index is asked until a namespace fails.\<close>

fun index_hits :: "(namespace \<Rightarrow> memory_hit list option) \<Rightarrow> namespace list \<Rightarrow> memory_hit list \<times> bool" where
  "index_hits search [] = ([], False)"
| "index_hits search (ns # nss) = (case search ns of None \<Rightarrow> ([], True)
     | Some hs \<Rightarrow> (let (rest, failed) = index_hits search nss in (hs @ rest, failed)))"

definition visible_hits :: "string list \<Rightarrow> memory_hit list \<Rightarrow> memory_hit list" where
  "visible_hits ids hs = filter (\<lambda>h. branch_origin_visible (mh_record h) ids) hs"

definition candidate_hits :: "retrieval_env \<Rightarrow> retriever \<Rightarrow> string list \<Rightarrow> string \<Rightarrow> memory_db \<Rightarrow> namespace \<Rightarrow> memory_hit list" where
  "candidate_hits V t ids query db ns = (let hs = visible_hits ids (search_namespace V query (rt_limit t * 4) db ns)
     in if hs = [] \<and> is_user_profile_namespace ns then recent_user_profile_hits query (rt_limit t) db ns else hs)"

definition ranked_hits :: "retrieval_env \<Rightarrow> retriever \<Rightarrow> string list \<Rightarrow> string \<Rightarrow> prompt_mode \<Rightarrow> namespace list \<Rightarrow> memory_db \<Rightarrow> memory_hit list" where
  "ranked_hits V t ids query m nss db =
    (let (found, failed) = (if rt_index t then index_hits (search_retrieval_namespace V query (rt_limit t * 4) db) nss else ([], False));
         indexed = visible_hits ids found
     in if indexed \<noteq> [] \<and> \<not> failed then rerank_hits V query m indexed
        else (let hits = concat (map (candidate_hits V t ids query db) nss);
                  vectors = concat (map (\<lambda>ns. visible_hits ids (search_vector_namespace V query (rt_limit t * 4) db ns)) nss)
          in if rt_hybrid t \<and> rt_provider t \<and> rv_embeds_query V query
             then rrf_blend_hits V (max 1 (rt_rrf_k t)) [rerank_hits V query m hits, rerank_hits V query m vectors]
             else rerank_hits V query m hits))"

definition retrieve_for_turn :: "text_env \<Rightarrow> retrieval_env \<Rightarrow> retriever \<Rightarrow> turn_context \<Rightarrow> turn_state \<Rightarrow> string \<Rightarrow> prompt_mode \<Rightarrow> memory_db \<Rightarrow> memory_bundle" where
  "retrieve_for_turn E V t c s query m db =
    (let q = build_retrieval_query E query s m; nss = allowed_namespaces_for_read c; ids = visible_branch_ids E (rc_branch c) s;
         deduped = dedupe_hits V (ranked_hits V t ids q m nss db)
     in filter_bundle_for_prompt (rt_top_k t) m ids
       \<lparr>mb_query = q, mb_hits = py_slice 0 (rt_limit t) deduped, mb_namespaces = nss, mb_total = length deduped\<rparr>)"

section \<open>The search tool\<close>

text \<open>What the tool returns for the namespaces of its request; its retriever is hybrid and takes its limit from the tool.\<close>

definition search_memory_hits :: "retrieval_env \<Rightarrow> bool \<Rightarrow> namespace list \<Rightarrow> string \<Rightarrow> int \<Rightarrow> memory_db \<Rightarrow> memory_hit list" where
  "search_memory_hits V indexed nss query limit db =
    dedupe_hits V (rerank_hits V query EXPLORE (concat (map (\<lambda>ns.
      (case if indexed then search_retrieval_namespace V query limit db ns else None of
        Some (h # hs) \<Rightarrow> h # hs | _ \<Rightarrow> search_namespace V query limit db ns)) nss)))"

section \<open>Where hits come from\<close>

definition found :: "memory_hit list \<Rightarrow> memory_record set" where
  "found hs = mh_record ` set hs"

lemma found_simps [simp]: "found [] = {}" "found (h # hs) = insert (mh_record h) (found hs)" "found (as @ bs) = found as \<union> found bs"
  by (auto simp: found_def)

lemma found_concat: "found (concat (map f xs)) = (\<Union>x \<in> set xs. found (f x))"
  by (induction xs) auto

lemma found_filter: "found (filter P hs) \<subseteq> found hs"
  by (auto simp: found_def)

lemma found_rerank [simp]: "found (rerank_hits V q m hs) = found hs"
  by (auto simp: rerank_hits_def found_def sort_key_reverse_def image_iff)

lemma found_normalized [simp]: "found (map (normalize_hit ns q) hs) = found hs"
  by (auto simp: found_def normalize_hit_def image_iff)

definition kept :: "('k, memory_hit) dict \<Rightarrow> memory_record set" where
  "kept d = found (map snd d)"

lemma kept_Nil [simp]: "kept [] = {}"
  by (simp add: kept_def)

lemma keep_preferred_subset: "kept (keep_preferred d k h) \<subseteq> insert (mh_record h) (kept d)"
proof -
  have "kept (AList.update k h d) \<subseteq> insert (mh_record h) (kept d)" by (induction d) (auto simp: kept_def)
  then show ?thesis by (auto simp: keep_preferred_def kept_def split: option.split)
qed

lemma found_sorted [simp]: "found (sort_key_reverse k hs) = found hs"
  by (simp add: found_def sort_key_reverse_def)

lemma found_dedupe: "found (dedupe_hits V hs) \<subseteq> found hs"
proof -
  have "kept (foldl (\<lambda>d h. keep_preferred d (hit_key V h) h) d hs) \<subseteq> kept d \<union> found hs" for d
  proof (induction hs arbitrary: d)
    case (Cons h hs)
    show ?case using Cons.IH [of "keep_preferred d (hit_key V h) h"] keep_preferred_subset [of d "hit_key V h" h]
      unfolding foldl_Cons found_simps by blast
  qed simp
  from this [of "[]"] show ?thesis unfolding dedupe_hits_def found_sorted kept_def [symmetric] by simp
qed

lemma rrf_list_subset: "kept (fst (rrf_list k n seen hs acc)) \<subseteq> kept (fst acc) \<union> found hs"
proof (induction k n seen hs acc rule: rrf_list.induct)
  case (2 k n seen h hs acc)
  let ?i = "mm_id (mh_record h)"
  show ?case
  proof (cases "?i \<in> set seen")
    case True
    then have "rrf_list k n seen (h # hs) acc = rrf_list k (n + 1) seen hs acc" by (simp add: Let_def)
    then show ?thesis using "2.IH"(1) [OF refl True] unfolding found_simps by auto
  next
    case False
    then have "kept (fst (rrf_list k n seen (h # hs) acc)) \<subseteq> kept (keep_preferred (fst acc) ?i h) \<union> found hs"
      using "2.IH"(2) [OF refl False] by (simp add: Let_def)
    then show ?thesis using keep_preferred_subset [of "fst acc" ?i h] unfolding found_simps by blast
  qed
qed simp

lemma found_blend: "found (rrf_blend_hits V k rankings) \<subseteq> (\<Union>hs \<in> set rankings. found hs)"
proof -
  have f: "kept (fst (foldl (\<lambda>acc hs. rrf_list (real_of_int k) 1 [] hs acc) acc rankings)) \<subseteq>
      kept (fst acc) \<union> (\<Union>hs \<in> set rankings. found hs)" for acc
  proof (induction rankings arbitrary: acc)
    case (Cons hs rankings)
    show ?case using Cons.IH [of "rrf_list (real_of_int k) 1 [] hs acc"] rrf_list_subset [of "real_of_int k" 1 "[]" hs acc] by auto
  qed simp
  obtain hits scores where r: "foldl (\<lambda>acc hs. rrf_list (real_of_int k) 1 [] hs acc) ([], []) rankings = (hits, scores)" by fastforce
  have "found (map (\<lambda>(i, h). h\<lparr>mh_score := rv_round6 V (get_or scores i 0)\<rparr>) hits) = kept hits"
    by (induction hits) (auto simp: kept_def)
  then have "found (rrf_blend_hits V k rankings) = kept hits" unfolding rrf_blend_hits_def r Let_def prod.case found_sorted .
  then show ?thesis using f [of "([], [])"] unfolding r fst_conv kept_Nil by blast
qed

definition live_rows :: "namespace list \<Rightarrow> memory_db \<Rightarrow> memory_record set" where
  "live_rows nss db = {r \<in> set (db_rows db). mm_namespace r \<in> set nss \<and> mm_status r = MS_ACTIVE}"

lemma live_rows_mono: "ns \<in> set nss \<Longrightarrow> live_rows [ns] db \<subseteq> live_rows nss db"
  by (auto simp: live_rows_def)

lemma found_search: "found (search_namespace V q n db ns) \<subseteq> live_rows [ns] db"
  by (auto simp: search_namespace_def search_rows_def found_def live_rows_def normalize_hit_def Let_def dest!: in_set_takeD)

lemma found_vectors: "found (search_vector_namespace V q n db ns) \<subseteq> live_rows [ns] db"
  by (auto simp: search_vector_namespace_def search_embeddings_def found_def live_rows_def normalize_hit_def Let_def dest!: in_set_takeD)

lemma found_recent: "found (recent_user_profile_hits q n db ns) \<subseteq> live_rows [ns] db"
  by (auto simp: recent_user_profile_hits_def list_active_def found_def live_rows_def sort_key_reverse_def dest!: in_set_takeD)

lemma get_record_row: "get_record db i = Some r \<Longrightarrow> r \<in> set (db_rows db)"
  by (auto simp: get_record_def find_Some_iff)

lemma found_index: "search_retrieval_namespace V q n db ns = Some hs \<Longrightarrow> found hs \<subseteq> live_rows [ns] db"
  by (auto simp: search_retrieval_namespace_def found_def live_rows_def get_record_row split: option.splits if_splits)

lemma found_index_hits: "found (fst (index_hits (search_retrieval_namespace V q n db) nss)) \<subseteq> live_rows nss db"
proof (induction nss)
  case (Cons ns nss)
  show ?case
  proof (cases "search_retrieval_namespace V q n db ns")
    case (Some hs)
    have "live_rows nss db \<subseteq> live_rows (ns # nss) db" by (auto simp: live_rows_def)
    then have "found (fst (index_hits (search_retrieval_namespace V q n db) nss)) \<subseteq> live_rows (ns # nss) db" using Cons by blast
    moreover have "found hs \<subseteq> live_rows (ns # nss) db" using found_index [OF Some] live_rows_mono [of ns "ns # nss" db] by auto
    ultimately show ?thesis using Some by (simp add: split_beta Let_def)
  qed simp
qed simp

lemma found_visible: "found (visible_hits ids hs) \<subseteq> found hs"
  unfolding visible_hits_def by (rule found_filter)

lemma found_candidates: "ns \<in> set nss \<Longrightarrow> found (candidate_hits V t ids q db ns) \<subseteq> live_rows nss db"
proof -
  assume ns: "ns \<in> set nss"
  have "found (candidate_hits V t ids q db ns) \<subseteq> live_rows [ns] db"
    using order_trans [OF found_visible found_search, of ids V q "rt_limit t * 4" db ns] found_recent by (simp add: candidate_hits_def Let_def)
  then show ?thesis using live_rows_mono [OF ns] by blast
qed

lemma found_ranked: "found (ranked_hits V t ids q m nss db) \<subseteq> live_rows nss db"
proof -
  let ?h = "concat (map (candidate_hits V t ids q db) nss)"
  let ?v = "concat (map (\<lambda>ns. visible_hits ids (search_vector_namespace V q (rt_limit t * 4) db ns)) nss)"
  have h: "found ?h \<subseteq> live_rows nss db" unfolding found_concat using found_candidates by blast
  have "found (visible_hits ids (search_vector_namespace V q (rt_limit t * 4) db ns)) \<subseteq> live_rows nss db" if "ns \<in> set nss" for ns
    using found_vectors found_visible live_rows_mono [OF that] by blast
  then have "found ?v \<subseteq> live_rows nss db" unfolding found_concat by blast
  then have b: "found (rrf_blend_hits V k [rerank_hits V q m ?h, rerank_hits V q m ?v]) \<subseteq> live_rows nss db" for k
    using h found_blend [of V k "[rerank_hits V q m ?h, rerank_hits V q m ?v]"] by auto
  have n: "found (rerank_hits V q m (visible_hits ids [])) \<subseteq> live_rows nss db" by (simp add: visible_hits_def)
  have x: "found (rerank_hits V q m (visible_hits ids (fst (index_hits (search_retrieval_namespace V q (rt_limit t * 4) db) nss)))) \<subseteq> live_rows nss db"
    using found_index_hits found_visible unfolding found_rerank by blast
  have h': "found (rerank_hits V q m ?h) \<subseteq> live_rows nss db" using h by simp
  obtain found failed where r: "(if rt_index t then index_hits (search_retrieval_namespace V q (rt_limit t * 4) db) nss else ([], False)) = (found, failed)"
    by fastforce
  then have "MemoryRetrieval.found (rerank_hits V q m (visible_hits ids found)) \<subseteq> live_rows nss db" using x n by (cases "rt_index t") auto
  then show ?thesis using b h' unfolding ranked_hits_def r Let_def prod.case by presburger
qed

lemma retrieved_rows:
  fixes E V t c s query m db
  assumes "0 \<le> rt_top_k t"
  defines "b \<equiv> retrieve_for_turn E V t c s query m db"
  shows "h \<in> set (mb_hits b) \<Longrightarrow> mh_record h \<in> live_rows (allowed_namespaces_for_read c) db \<and>
      prompt_candidate m (visible_branch_ids E (rc_branch c) s) (build_retrieval_query E query s m) h"
    "int (length (mb_hits b)) \<le> rt_top_k t"
proof -
  define ids nss q where "ids = visible_branch_ids E (rc_branch c) s" and "nss = allowed_namespaces_for_read c" and "q = build_retrieval_query E query s m"
  define hs where "hs = dedupe_hits V (ranked_hits V t ids q m nss db)"
  let ?b = "\<lparr>mb_query = q, mb_hits = py_slice 0 (rt_limit t) hs, mb_namespaces = nss, mb_total = length hs\<rparr>"
  have b: "b = filter_bundle_for_prompt (rt_top_k t) m ids ?b"
    by (simp add: b_def retrieve_for_turn_def Let_def ids_def nss_def q_def hs_def)
  have "set (py_slice 0 (rt_limit t) hs) \<subseteq> set hs" by (auto simp: py_slice_def Let_def dest: in_set_takeD in_set_dropD)
  then have r: "found (py_slice 0 (rt_limit t) hs) \<subseteq> live_rows nss db"
  proof -
    assume p: "set (py_slice 0 (rt_limit t) hs) \<subseteq> set hs"
    have "found (py_slice 0 (rt_limit t) hs) \<subseteq> found hs" using p unfolding found_def by (rule image_mono)
    also have "\<dots> \<subseteq> live_rows nss db" unfolding hs_def using found_dedupe found_ranked by (rule order_trans)
    finally show ?thesis .
  qed
  show "int (length (mb_hits b)) \<le> rt_top_k t" using filtered_bundle(2) [OF assms(1), of m ids ?b] assms(1) unfolding b by simp
  assume "h \<in> set (mb_hits b)"
  then have h: "h \<in> set (py_slice 0 (rt_limit t) hs)" "prompt_candidate m ids q h"
    using subsetD [OF filtered_bundle(1) [OF assms(1), of m ids ?b]] unfolding b by simp_all
  have "mh_record h \<in> live_rows nss db" using subsetD [OF r, of "mh_record h"] h(1) by (simp add: found_def)
  then show "mh_record h \<in> live_rows (allowed_namespaces_for_read c) db \<and> prompt_candidate m (visible_branch_ids E (rc_branch c) s) (build_retrieval_query E query s m) h"
    using h(2) by (simp only: ids_def nss_def q_def simp_thms)
qed

text \<open>C18: Whatever the searches and rankings say, a memory in the prompt of a turn is a row of the table that is active and not
  deleted, lies in a namespace the turn may read, and does not come from a branch the turn cannot see; there are at most
  \<open>top_k\<close>.\<close>

theorem prompt_memories_isolated:
  assumes "0 \<le> rt_top_k t" "h \<in> set (mb_hits (retrieve_for_turn E V t c s query m db))"
  shows "mh_record h \<in> set (db_rows db) \<and> mm_namespace (mh_record h) \<in> set (allowed_namespaces_for_read c) \<and>
    mm_status (mh_record h) = MS_ACTIVE \<and> mm_deleted (mh_record h) = None \<and>
    branch_origin_visible (mh_record h) (visible_branch_ids E (rc_branch c) s) \<and>
    int (length (mb_hits (retrieve_for_turn E V t c s query m db))) \<le> rt_top_k t"
  using retrieved_rows [OF assms(1)] assms(2) by (auto simp: live_rows_def prompt_candidate_def Let_def)

section \<open>Forgotten memories in prompts\<close>

definition distinct_rows :: "memory_db \<Rightarrow> bool" where
  "distinct_rows db \<longleftrightarrow> distinct (map mm_id (db_rows db))"

lemma put_row_ids: "map mm_id (put_row r rows) = (if mm_id r \<in> set (map mm_id rows) then map mm_id rows else map mm_id rows @ [mm_id r])"
  by (auto simp: put_row_def)

lemma upsert_distinct: "distinct_rows db \<Longrightarrow> distinct_rows (upsert_record r db)"
  by (simp add: distinct_rows_def upsert_record_def upsert_unless_protected_def put_row_ids del: map_map)

lemma distinct_rows_other [simp]:
  "distinct_rows (db\<lparr>db_fresh := n\<rparr>) = distinct_rows db" "distinct_rows (db\<lparr>db_tombstones := ts\<rparr>) = distinct_rows db"
  "distinct_rows (delete_embedding i db) = distinct_rows db" "distinct_rows (db\<lparr>db_index := x\<rparr>) = distinct_rows db"
  by (simp_all add: distinct_rows_def delete_embedding_def)

lemma set_status_distinct: "distinct_rows db \<Longrightarrow> distinct_rows (set_embedding_status S r status now db)"
proof -
  assume d: "distinct_rows db"
  have "distinct_rows (snd (update_record_embedding_status (mm_id r) status (sv_model S) now db))"
    using d by (auto simp: update_record_embedding_status_def distinct_rows_def put_row_ids split: option.split simp del: map_map)
  then show ?thesis by (auto simp: set_embedding_status_def split: prod.split bool.split)
qed

lemma finish_distinct: "distinct_rows db \<Longrightarrow> distinct_rows (finish_job S w r status now db)"
  by (simp add: finish_job_def set_status_distinct update_embedding_status_def upsert_distinct)

lemma stored_distinct: "distinct_rows db \<Longrightarrow> store_request S now q db = ((st, r), db1) \<Longrightarrow> distinct_rows db1"
  using stored_live(2) [of S now q db st r db1] by (simp add: upsert_distinct)

lemma step_distinct: "mem_step S inline st st1 \<Longrightarrow> distinct_rows (fst st) \<Longrightarrow> distinct_rows (fst st1)"
proof (induction rule: mem_step.induct)
  case (embeds w r js db st db1)
  then have "db_rows db1 = db_rows db" by (auto simp: ensure_embedding_def Let_def split: if_splits)
  then show ?case using embeds by (simp add: distinct_rows_def)
next
  case (forgets i ns now uuid db t db1 js)
  then show ?case by (auto elim!: forget_rows_cases simp: upsert_distinct)
qed (auto simp: finish_distinct set_status_distinct update_embedding_status_def upsert_distinct stored_distinct)

lemma steps_distinct: "(mem_step S inline)\<^sup>*\<^sup>* st st1 \<Longrightarrow> distinct_rows (fst st) \<Longrightarrow> distinct_rows (fst st1)"
  by (induction rule: rtranclp_induct) (auto dest: step_distinct)

lemma distinct_row_get: "distinct_rows db \<Longrightarrow> r \<in> set (db_rows db) \<Longrightarrow> get_record db (mm_id r) = Some r"
proof -
  have "distinct (map mm_id rows) \<Longrightarrow> r \<in> set rows \<Longrightarrow> find (\<lambda>q. mm_id q = mm_id r) rows = Some r" for rows
    by (induction rows) auto
  then show "distinct_rows db \<Longrightarrow> r \<in> set (db_rows db) \<Longrightarrow> get_record db (mm_id r) = Some r" by (simp add: distinct_rows_def get_record_def)
qed

text \<open>C16: After a memory is forgotten no prompt shows it again, in whatever state later writes, embeddings and forgets leave the
  tables, and whatever the retrieval index still holds.\<close>

theorem forgotten_never_in_prompt:
  assumes "mem_reachable S inline db js" "forget_rows i ns now uuid db = (Some tomb, db1)"
    "(mem_step S inline)\<^sup>*\<^sup>* (db1, JOB_FORGETTING i # js) (db2, js2)" "0 \<le> rt_top_k t"
    "h \<in> set (mb_hits (retrieve_for_turn E V t c s query m db2))"
  shows "mm_id (mh_record h) \<noteq> i"
proof
  assume i: "mm_id (mh_record h) = i"
  have "erased_db db" using reachable_inv [OF assms(1)] by (simp add: mem_inv_def)
  then have "gone db1 i" using forget_rows_erased assms(2) by blast
  then obtain r where r: "get_record db1 i = Some r" "is_forgotten r" by (auto simp: gone_iff)
  then have g: "get_record db2 i = Some r" using steps_keep_gone [OF assms(3)] by simp
  have "(mem_step S inline)\<^sup>*\<^sup>* (empty_db, []) (db1, JOB_FORGETTING i # js)"
    using assms(1) mem_step.forgets [OF assms(2)] unfolding mem_reachable_def by (rule rtranclp.rtrancl_into_rtrancl)
  then have "(mem_step S inline)\<^sup>*\<^sup>* (empty_db, []) (db2, js2)" using assms(3) by (rule rtranclp_trans)
  then have "distinct_rows db2" using steps_distinct by (fastforce simp: distinct_rows_def empty_db_def)
  moreover have l: "mh_record h \<in> set (db_rows db2)" "mm_status (mh_record h) = MS_ACTIVE" "mm_deleted (mh_record h) = None"
    using retrieved_rows(1) [OF assms(4,5)] by (auto simp: live_rows_def prompt_candidate_def Let_def)
  ultimately have "mh_record h = r" using distinct_row_get g i by fastforce
  then show False using r(2) l(2,3) by (simp add: is_forgotten_def)
qed

section \<open>The search tool and branches\<close>

lemma keep_preferred_nonempty: "keep_preferred d k h \<noteq> []"
  by (cases d) (auto simp: keep_preferred_def split: option.split)

lemma dedupe_nonempty: "hs \<noteq> [] \<Longrightarrow> found (dedupe_hits V hs) \<noteq> {}"
proof -
  have "d \<noteq> [] \<or> hs \<noteq> [] \<Longrightarrow> foldl (\<lambda>d h. keep_preferred d (hit_key V h) h) d hs \<noteq> []" for d
  proof (induction hs arbitrary: d)
    case (Cons h hs)
    have "foldl (\<lambda>d h. keep_preferred d (hit_key V h) h) (keep_preferred d (hit_key V h) h) hs \<noteq> []"
      by (rule Cons.IH) (simp add: keep_preferred_nonempty)
    then show ?case by simp
  qed simp
  from this [of "[]"] show "hs \<noteq> [] \<Longrightarrow> found (dedupe_hits V hs) \<noteq> {}"
    unfolding dedupe_hits_def found_sorted by (simp add: found_def)
qed

text \<open>The search tool shows every matching row of its namespaces, whichever branch it comes from: the check that keeps the work
  of a branch from other threads, which every prompt goes through, is not made.\<close>

lemma tool_search_ignores_branches:
  assumes "db_rows db = [r]" "mm_namespace r \<in> set nss" "mm_status r = MS_ACTIVE" "mm_deleted r = None" "rv_matches V (py_words query) r"
  shows "mh_record ` set (search_memory_hits V False nss query limit db) = {r}"
proof -
  let ?hs = "concat (map (\<lambda>ns. search_namespace V query limit db ns) nss)"
  have "r \<in> found (search_namespace V query limit db (mm_namespace r))"
    using assms by (simp add: search_namespace_def search_rows_def found_def Let_def normalize_hit_def sort_key_simps)
  then have "r \<in> found ?hs" using assms(2) unfolding found_concat by blast
  then have n: "rerank_hits V query EXPLORE ?hs \<noteq> []" using found_rerank [of V query EXPLORE ?hs] by (auto simp: found_def)
  have "found ?hs \<subseteq> set (db_rows db)" using found_search by (fastforce simp: found_concat live_rows_def)
  then have "found (dedupe_hits V (rerank_hits V query EXPLORE ?hs)) \<subseteq> {r}" using found_dedupe assms(1) by (metis empty_set found_rerank list.simps(15) order_trans)
  then have "found (dedupe_hits V (rerank_hits V query EXPLORE ?hs)) = {r}" using dedupe_nonempty [OF n, of V] by blast
  then show ?thesis by (simp add: search_memory_hits_def found_def)
qed

section \<open>When writes merge\<close>

definition texts_only :: "(string, pyval) dict \<Rightarrow> bool" where
  "texts_only d \<longleftrightarrow> list_all (\<lambda>(k, v). case v of PStr t \<Rightarrow> True | PNone \<Rightarrow> True
     | PList vs \<Rightarrow> list_all (\<lambda>x. case x of PStr t \<Rightarrow> True | _ \<Rightarrow> False) vs | _ \<Rightarrow> False) d"

text \<open>SHA-256 of the JSON texts of such dictionaries has no collisions.\<close>

definition collision_free :: "digest \<Rightarrow> bool" where
  "collision_free g \<longleftrightarrow> (\<forall>d e. texts_only d \<longrightarrow> texts_only e \<longrightarrow> g d = g e \<longrightarrow> d = e)"

lemma collision_freeD: "collision_free g \<Longrightarrow> g d = g e \<Longrightarrow> texts_only d \<Longrightarrow> texts_only e \<Longrightarrow> d = e"
  unfolding collision_free_def by blast

lemma semantic_key_gist:
  assumes "collision_free g" "memory_semantic_key g a = memory_semantic_key g b"
  shows "normalize_memory_text (gist_text a) = normalize_memory_text (gist_text b)"
  using collision_freeD [OF assms(1) assms(2) [unfolded memory_semantic_key_def]] by (simp add: texts_only_def)

lemma opt_value_text: "opt_value v = PNone \<or> (\<exists>t. opt_value v = PStr t)"
  by (cases v) (simp_all add: opt_value_def)

lemma texts_list: "list_all (\<lambda>x. case x of PStr t \<Rightarrow> True | _ \<Rightarrow> False) (map PStr ts)"
  by (induction ts) simp_all

definition row_keyed :: "digest \<Rightarrow> memory_record \<Rightarrow> bool" where
  "row_keyed g r \<longleftrightarrow> mm_fingerprint r = Some (memory_fingerprint g r) \<and> mm_semantic_key r = Some (memory_semantic_key g r)"

definition keyed_db :: "digest \<Rightarrow> memory_db \<Rightarrow> bool" where
  "keyed_db g db \<longleftrightarrow> (\<forall>r \<in> set (db_rows db). \<not> is_forgotten r \<longrightarrow> row_keyed g r)"

lemma keys_ignore [simp]:
  "memory_fingerprint g (r\<lparr>mm_status := st\<rparr>) = memory_fingerprint g r" "memory_semantic_key g (r\<lparr>mm_status := st\<rparr>) = memory_semantic_key g r"
  "memory_fingerprint g (r\<lparr>mm_fingerprint := f\<rparr>) = memory_fingerprint g r" "memory_semantic_key g (r\<lparr>mm_fingerprint := f\<rparr>) = memory_semantic_key g r"
  "memory_fingerprint g (r\<lparr>mm_semantic_key := f\<rparr>) = memory_fingerprint g r" "memory_semantic_key g (r\<lparr>mm_semantic_key := f\<rparr>) = memory_semantic_key g r"
  "memory_fingerprint g (r\<lparr>mm_updated := n\<rparr>) = memory_fingerprint g r" "memory_semantic_key g (r\<lparr>mm_updated := n\<rparr>) = memory_semantic_key g r"
  by (simp_all add: memory_fingerprint_def memory_semantic_key_def gist_text_def semantic_anchor_def user_anchor_def cong: memory_kind.case_cong)

lemma merged_keyed: "row_keyed g ((merge_duplicate_records g now old new)\<lparr>mm_status := st\<rparr>)"
  by (simp add: row_keyed_def merge_duplicate_records_def Let_def)

lemma new_keyed: "mm_semantic_key q = None \<Longrightarrow> row_keyed g (record_from_request g i now q)"
  by (simp add: row_keyed_def record_from_request_def Let_def given_def or_empty_def)

lemma upsert_keyed: "keyed_db g db \<Longrightarrow> row_keyed g r \<Longrightarrow> keyed_db g (upsert_record r db)"
  by (auto simp: keyed_db_def upsert_record_def upsert_unless_protected_def put_row_def split: if_splits)

lemma fingerprint_texts: "texts_only [(''kind'', PStr a), (''scope'', PStr b), (''visibility'', PStr c), (''namespace'', PList (map PStr ns)),
     (''content'', PStr d), (''summary'', PStr e), (''tags'', PList (map PStr ts)), (''evidence_refs'', PList (map PStr es)),
     (''source_thread_id'', opt_value s), (''source_branch_id'', opt_value t), (''root_thread_id'', opt_value u), (''user_id'', opt_value v)]"
  using opt_value_text [of s] opt_value_text [of t] opt_value_text [of u] opt_value_text [of v]
  by (auto simp: texts_only_def list_all_iff)

lemma fingerprint_gist:
  assumes "collision_free g" "memory_fingerprint g a = memory_fingerprint g b"
  shows "gist_text a = gist_text b"
  using collision_freeD [OF assms(1) assms(2) [unfolded memory_fingerprint_def] fingerprint_texts fingerprint_texts] by (simp add: gist_text_def)

lemma record_gist: "mm_summary q \<noteq> [] \<Longrightarrow> gist_text (record_from_request g i now q) = gist_text q"
  by (simp add: record_from_request_def gist_text_def either_text_def Let_def memory_request.defs)

lemma record_fields [simp]:
  "mm_kind (record_from_request g i now q) = mm_kind q" "mm_scope (record_from_request g i now q) = mm_scope q"
  "mm_namespace (record_from_request g i now q) = mm_namespace q" "mm_id (record_from_request g i now q) = i"
  by (simp_all add: record_from_request_def Let_def memory_request.defs)

text \<open>A write whose request has no key of its own never ends in a conflict. It merges only into a memory of its namespace, kind and
  scope whose normalized text is the same, so a contradicting preference or project fact becomes a second memory; rows keep the
  keys of their own texts.\<close>

lemma writes_merge_only_equal_texts:
  assumes "keyed_db (sv_digest S) db" "collision_free (sv_digest S)" "mm_semantic_key q = None" "mm_summary q \<noteq> []"
    "store_request S now q db = ((st, r), db1)"
  shows "st \<noteq> W_CONFLICT \<and> keyed_db (sv_digest S) db1 \<and>
    (st = W_MERGED \<longrightarrow> (\<exists>old \<in> set (db_rows db). \<not> is_forgotten old \<and> mm_id old = mm_id r \<and> mm_namespace old = mm_namespace q \<and> mm_kind old = mm_kind q \<and>
      mm_scope old = mm_scope q \<and> normalize_memory_text (gist_text old) = normalize_memory_text (gist_text q)))"
proof -
  define g n where "g = sv_digest S" and "n = record_from_request (sv_digest S) (sv_uuid S (db_fresh db)) now q"
  let ?db = "db\<lparr>db_fresh := db_fresh db + 1\<rparr>"
  have kdb: "keyed_db g ?db" using assms(1) by (simp add: keyed_db_def g_def)
  have kn: "row_keyed g n" unfolding g_def n_def using assms(3) by (rule new_keyed)
  define f where "f = find_existing (mm_namespace n) (or_empty (mm_fingerprint n)) (or_empty (mm_semantic_key n)) (mm_kind n) (mm_scope n) ?db"
  show ?thesis
  proof (cases f)
    case None
    then have "st = W_ACCEPTED" "db1 = upsert_record n ?db" using assms(5)
      by (auto simp: store_request_def fresh_id_def f_def n_def Let_def)
    then show ?thesis using upsert_keyed [OF kdb kn] by (simp add: g_def)
  next
    case (Some old)
    then have old: "old \<in> set (db_rows db)" "mm_namespace old = mm_namespace q" "\<not> is_forgotten old" "mm_kind old = mm_kind q" "mm_scope old = mm_scope q"
      "mm_fingerprint old = mm_fingerprint n \<or> mm_semantic_key old = mm_semantic_key n"
      using find_existing_live [of _ _ _ _ _ ?db old] kn unfolding f_def n_def row_keyed_def by (fastforce simp: or_empty_def)+
    have ko: "row_keyed g old" using kdb old by (simp add: keyed_db_def)
    have e: "normalize_memory_text (gist_text old) = normalize_memory_text (gist_text q)"
      using old(6) ko kn semantic_key_gist [of g old n] fingerprint_gist [of g old n] assms(2) record_gist [OF assms(4)]
      by (auto simp: row_keyed_def g_def n_def)
    let ?m = "(merge_duplicate_records g now old q)\<lparr>mm_status := MS_ACTIVE\<rparr>"
    have "\<not> is_possible_conflict old q" using e by (simp add: is_possible_conflict_def)
    then have "st = W_MERGED" "r = ?m" "db1 = upsert_record ?m ?db" using assms(5) Some
      by (auto simp: store_request_def fresh_id_def f_def n_def g_def Let_def)
    then show ?thesis using upsert_keyed [OF kdb merged_keyed] old e by (auto simp: g_def)
  qed
qed

section \<open>Witnesses\<close>

definition ex_retrieval :: retrieval_env where
  "ex_retrieval = \<lparr>rv_matches = \<lambda>q r. True, rv_rank = \<lambda>q r. 0, rv_similarity = \<lambda>q v. 0, rv_round4 = \<lambda>x. x, rv_round6 = \<lambda>x. x,
     rv_digest = \<lambda>d. ''k'', rv_embeds_query = \<lambda>q. False, rv_index = \<lambda>q ns n. None\<rparr>"

definition ex_retriever :: retriever where
  "ex_retriever = \<lparr>rt_limit = 8, rt_top_k = 8, rt_hybrid = False, rt_shadow = False, rt_rrf_k = 60, rt_provider = False, rt_index = False\<rparr>"

definition ex_again :: memory_db where
  "ex_again = snd (store_request ex_service 2 (sanitize_request ex_service ex_request) ex_forgotten)"

lemma ex_retrieved: "length (mb_hits (retrieve_for_turn ex_text_env ex_retrieval ex_retriever ex_turn_context ex_turn_state ''call me'' EXPLORE ex_again)) = 1"
  by code_simp

lemma ex_hit: "\<exists>h. h \<in> set (mb_hits (retrieve_for_turn ex_text_env ex_retrieval ex_retriever ex_turn_context ex_turn_state ''call me'' EXPLORE ex_again))"
  using ex_retrieved by (metis length_0_conv list.set_intros(1) neq_Nil_conv zero_neq_one)

theorem prompt_memories_isolated_witness:
  "\<exists>h. h \<in> set (mb_hits (retrieve_for_turn ex_text_env ex_retrieval ex_retriever ex_turn_context ex_turn_state ''call me'' EXPLORE ex_again)) \<and>
     mm_status (mh_record h) = MS_ACTIVE \<and> mm_namespace (mh_record h) \<in> set (allowed_namespaces_for_read ex_turn_context)"
proof -
  obtain h where h: "h \<in> set (mb_hits (retrieve_for_turn ex_text_env ex_retrieval ex_retriever ex_turn_context ex_turn_state ''call me'' EXPLORE ex_again))"
    using ex_hit by blast
  have "0 \<le> rt_top_k ex_retriever" by (simp add: ex_retriever_def)
  then show ?thesis using prompt_memories_isolated [OF _ h] h by blast
qed

lemma ex_again_step: "(mem_step ex_service False)\<^sup>*\<^sup>* (ex_forgotten, [JOB_FORGETTING ''m0'']) (ex_again, [JOB_FORGETTING ''m0''])"
proof -
  obtain st r where "store_request ex_service 2 (sanitize_request ex_service ex_request) ex_forgotten = ((st, r), ex_again)"
    unfolding ex_again_def by (metis prod.collapse)
  then show ?thesis by (intro r_into_rtranclp mem_step.stored)
qed

theorem forgotten_never_in_prompt_witness:
  "\<exists>h. h \<in> set (mb_hits (retrieve_for_turn ex_text_env ex_retrieval ex_retriever ex_turn_context ex_turn_state ''call me'' EXPLORE ex_again)) \<and>
     mm_id (mh_record h) \<noteq> ''m0''"
proof -
  obtain h where h: "h \<in> set (mb_hits (retrieve_for_turn ex_text_env ex_retrieval ex_retriever ex_turn_context ex_turn_state ''call me'' EXPLORE ex_again))"
    using ex_hit by blast
  have "0 \<le> rt_top_k ex_retriever" by (simp add: ex_retriever_def)
  then show ?thesis using forgotten_never_in_prompt [OF ex_reachable ex_forget ex_again_step _ h] h by blast
qed

text \<open>A turn summary of branch \<open>b1\<close>, searched from the main thread\<close>

definition ex_summary :: memory_record where
  "ex_summary = ex_row\<lparr>mm_kind := Kind_turn_summary, mm_scope := Scope_root_thread, mm_namespace := root_thread_episodic_namespace ''t1'',
     mm_source_branch := Some ''b1''\<rparr>"

lemma ex_summary_hidden: "\<not> branch_origin_visible ex_summary (visible_branch_ids ex_text_env (rc_branch ex_turn_context) ex_turn_state)"
  by code_simp

theorem tool_search_ignores_branches_witness:
  "mh_record ` set (search_memory_hits ex_retrieval False (default_memory_namespaces
     \<lparr>np_namespace = None, np_user = Some ''ann'', np_root_thread = Some ''t1'', np_branch = None, np_project = None\<rparr>) ''ann'' 5 (empty_db\<lparr>db_rows := [ex_summary]\<rparr>)) = {ex_summary} \<and>
   \<not> branch_origin_visible ex_summary (visible_branch_ids ex_text_env (rc_branch ex_turn_context) ex_turn_state)"
proof
  have "mm_status ex_summary = MS_ACTIVE" "mm_deleted ex_summary = None" by code_simp+
  then show "mh_record ` set (search_memory_hits ex_retrieval False (default_memory_namespaces
     \<lparr>np_namespace = None, np_user = Some ''ann'', np_root_thread = Some ''t1'', np_branch = None, np_project = None\<rparr>) ''ann'' 5 (empty_db\<lparr>db_rows := [ex_summary]\<rparr>)) = {ex_summary}"
    by (intro tool_search_ignores_branches) (simp_all add: ex_retrieval_def, code_simp)
qed (rule ex_summary_hidden)

text \<open>A digest without collisions\<close>

definition value_texts :: "pyval \<Rightarrow> string list" where
  "value_texts v = (case v of PStr t \<Rightarrow> [''s'', t] | PList vs \<Rightarrow> ''l'' # map (\<lambda>x. case x of PStr t \<Rightarrow> t | _ \<Rightarrow> []) vs | _ \<Rightarrow> [])"

definition ex_digest :: digest where
  "ex_digest d = replicate (to_nat (map (\<lambda>(k, v). (k, value_texts v)) d)) CHR ''x''"

lemma texts_inj:
  "list_all (\<lambda>x. case x of PStr t \<Rightarrow> True | _ \<Rightarrow> False) vs \<Longrightarrow> list_all (\<lambda>x. case x of PStr t \<Rightarrow> True | _ \<Rightarrow> False) ws \<Longrightarrow>
   map (\<lambda>x. case x of PStr t \<Rightarrow> t | _ \<Rightarrow> []) vs = map (\<lambda>x. case x of PStr t \<Rightarrow> t | _ \<Rightarrow> []) ws \<Longrightarrow> vs = ws"
proof (induction vs arbitrary: ws)
  case (Cons v vs)
  then show ?case by (cases ws) (auto split: pyval.splits)
qed simp

lemma values_inj: "texts_only [(k, v)] \<Longrightarrow> texts_only [(k, w)] \<Longrightarrow> value_texts v = value_texts w \<Longrightarrow> v = w"
  using texts_inj by (auto simp: texts_only_def value_texts_def split: pyval.splits)

lemma ex_digest_free: "collision_free ex_digest"
proof -
  have "texts_only d \<Longrightarrow> texts_only e \<Longrightarrow> map (\<lambda>(k, v). (k, value_texts v)) d = map (\<lambda>(k, v). (k, value_texts v)) e \<Longrightarrow> d = e" for d e
  proof (induction d arbitrary: e)
    case (Cons p d)
    then obtain q e' where e: "e = q # e'" by (cases e) auto
    have "texts_only [(fst p, snd p)]" "texts_only [(fst p, snd q)]" "texts_only d" "texts_only e'"
      using Cons.prems(1,2) e by (auto simp: texts_only_def)
    then show ?case using Cons.IH [of e'] Cons.prems(3) e values_inj [of "fst p" "snd p" "snd q"] by (cases p; cases q) auto
  qed simp
  moreover have "ex_digest d = ex_digest e \<Longrightarrow> map (\<lambda>(k, v). (k, value_texts v)) d = map (\<lambda>(k, v). (k, value_texts v)) e" for d e
    unfolding ex_digest_def by (metis length_replicate from_nat_to_nat)
  ultimately show ?thesis unfolding collision_free_def by blast
qed

theorem writes_merge_only_equal_texts_witness:
  "fst (fst (store_request (ex_service\<lparr>sv_digest := ex_digest\<rparr>) 2 (ex_request\<lparr>mm_summary := ''call me Ann'', mm_semantic_key := None\<rparr>) empty_db)) \<noteq> W_CONFLICT"
proof -
  let ?S = "ex_service\<lparr>sv_digest := ex_digest\<rparr>" and ?q = "ex_request\<lparr>mm_summary := ''call me Ann'', mm_semantic_key := None\<rparr>"
  obtain st r db1 where e: "store_request ?S 2 ?q empty_db = ((st, r), db1)" by (metis prod.collapse)
  have "keyed_db (sv_digest ?S) empty_db" by (simp add: keyed_db_def empty_db_def)
  moreover have "collision_free (sv_digest ?S)" by (simp add: ex_digest_free)
  ultimately show ?thesis using writes_merge_only_equal_texts [OF _ _ _ _ e] e by simp
qed

end
