(* ===== verification/Spec2Isabelle.thy ===== *)
theory Spec2Isabelle
  imports Maintenance ConflictDetector FailureHandler DagScheduler RunManager RunFollowups RateLimit
    ThreadTurn BackgroundJobs Permissions LlmErrors StreamBridge Publisher Middleware Ownership Branches Revisions
    ExecutorSafety AuthSafety AuthConfig DelegationReview ModelRouting
    PromptSafety MemoryRetrieval
begin

text \<open>
  A verification development of Focus Agent, a server that runs language-model agents for its users.
  Paths are relative to \<open>src/focus_agent/\<close>.

  \<^bold>\<open>The program and its parts.\<close> A request becomes a run of a thread. The run manager decides
  whether it may start beside the runs in flight; a lease on the thread's turn keeps other processes away;
  what happens in the run is streamed to subscribers; steering and follow-up messages wait in queues.
  Inside a run the model is called through a stack of middleware, and tools are called after the permission rules
  were asked and, if need be, a user approved. Larger missions are given to teams of agents: a scheduler releases
  tasks in waves, agents exchange messages and hold locks on resources, and a maintenance loop expires what was left behind.

  \<^bold>\<open>Theories.\<close>
  \<^item> \<open>Prelude\<close>: exceptions as values of a sum, Python's dictionaries, strings and numbers as text;
    \<open>Expiry\<close>: the locale of tables whose entries expire, with its three interpretations in the theories below.
  \<^item> Multi-agent services (\<open>services/multi_agent/\<close>): \<open>WaitGraph\<close> (cycle search of the wait-for
    graph), \<open>ResourceLock\<close>, \<open>MessageBus\<close>, \<open>ApprovalQueue\<close>, \<open>ConflictDetector\<close>,
    \<open>FailureHandler\<close>, \<open>DagScheduler\<close> and \<open>Maintenance\<close>.
  \<^item> Runs (\<open>harness/runtime/\<close>, \<open>harness/streaming/\<close>): \<open>Rollback\<close>, \<open>RunManager\<close>,
    \<open>RunFollowups\<close>, \<open>StreamBridge\<close>, \<open>Publisher\<close>.
  \<^item> Coordination between processes (\<open>services/coordination_memory.py\<close>,
    \<open>services/thread_turn_lease.py\<close>, \<open>security/rate_limit.py\<close>): \<open>RateLimit\<close>,
    \<open>ThreadTurn\<close>, \<open>BackgroundJobs\<close>.
  \<^item> Model and tool calls (\<open>harness/middleware/\<close>, \<open>harness/governance/\<close>,
    \<open>core/tool_call_protocol.py\<close>): \<open>ToolProtocol\<close>, \<open>Middleware\<close>, \<open>LlmErrors\<close>,
    \<open>Permissions\<close>.
  \<^item> Tools (\<open>capabilities/\<close>): \<open>ToolCache\<close> (cached results), \<open>ToolTrim\<close> (long outputs),
    \<open>ToolRuntime\<close> (one execution), \<open>ToolBatch\<close> (the calls of a turn, in parallel where that is safe),
    \<open>ToolApproval\<close> and \<open>AskUser\<close> (what the user is asked and which answers count), \<open>MemoryTools\<close> (which
    memory a call may touch); \<open>ToolOutcomes\<close> (\<open>core/runtime_outcome.py\<close>: what became of calls and of the task).
    \<open>ToolExecutor\<close> composes them to the node that runs the calls of a message (\<open>engine/graph/tool_execution.py\<close>, with
    \<open>RetrievalLedger\<close>), \<open>ExecutorSafety\<close> has its theorems.
  \<^item> Access (\<open>security/\<close>): \<open>Permissions\<close> (roles), \<open>Ownership\<close>; conversations and branches
    (\<open>repositories/in_memory_branch_repository.py\<close>): \<open>Branches\<close>.
  \<^item> Accounts: \<open>Values\<close> (readers of loosely typed values, \<open>core/coercion.py\<close>), \<open>Effects\<close> (operations that change a state and may raise, with the Hoare rules for them),
    \<open>UserAccounts\<close> (\<open>repositories/user_repository.py\<close>, \<open>services/users.py\<close>), \<open>Base64Url\<close> and
    \<open>AuthTokens\<close> (\<open>security/tokens.py\<close>, \<open>security/passwords.py\<close>), \<open>AuthService\<close> (\<open>services/auth.py\<close>);
    \<open>AccountSafety\<close> proves the invariants of all their operations through the locale \<open>account_invariant\<close>,
    interpreted for uniqueness and for the last admin, and \<open>AuthSafety\<close> what authentication promises.
    \<open>AuthConfig\<close> (\<open>config_parts/auth.py\<close>) reads the signing keys and checks the settings of a deployment.
  \<^item> Delegation (\<open>delegation/\<close>, \<open>runtime/model_router.py\<close>): \<open>Roles\<close> (which roles a request calls for, and their tools),
    \<open>Delegation\<close> (plans, checks and executors), \<open>DelegationRun\<close> (the loop and the pool that run the tasks, and the
    working directory they share, as step relations), \<open>TaskLedger\<close> (ledger, artifacts, critic gate, retries, synthesis),
    \<open>DelegationReview\<close> (a turn from the plan to the synthesis, \<open>engine/graph/governance_nodes.py\<close>; failure records and the
    review queue), \<open>ModelRouting\<close>.
  \<^item> Prompts (\<open>core/context_prompt_budget.py\<close>, \<open>core/context/\<close>): \<open>TokenCounting\<close>, \<open>ObservationTrim\<close> (the compaction
    of tool observations, their references and identifiers), \<open>PromptBudget\<close> (the guard that makes a prompt fit its
    budget) and \<open>PromptSafety\<close>, what the guard promises.
  \<^item> Memory (\<open>memory/\<close>, \<open>repositories/postgres_memory_repository.py\<close>): \<open>MemoryRecords\<close> (records, keys, merging),
    \<open>MemoryPolicy\<close> (what a turn keeps, where it may read, what reaches a prompt), \<open>MemoryStore\<close> (the tables, the service
    and the embedding worker, a SQL statement as one step), \<open>MemorySafety\<close> (forgetting, in every interleaving with the
    embedding work and with writes computed on older rows) and \<open>MemoryRetrieval\<close> (search, ranking, the prompt of a turn, the search tool).
  \<^item> Agent teams (\<open>services/agent_team/revision.py\<close>, \<open>dag_validator.py\<close>): \<open>Revisions\<close>.

  \<^bold>\<open>How code becomes definitions.\<close> A class with mutable fields is a \<open>record\<close>, its methods are functions
  from the record to the record and the result; an enumeration is a \<open>datatype\<close> with its members; a method
  that raises returns a sum with the exception on the left. A lock in the code makes its block one step;
  where the code releases a lock or awaits, the model has two steps, and the properties quantify over the
  interleavings by an \<open>inductive\<close> step relation or over all lists of operations (the drain worker of \<open>RunFollowups\<close> goes from
  one await to the next; a rate check reads its clock before the lock, so its times need not be in order). The clock, fresh identifiers, random draws, JSON texts and
  hashes are arguments. Third-party code (the graph library, LangGraph checkpoints, LangChain models) is a
  parameter with its documented behaviour as a hypothesis where one is needed.

  \<^bold>\<open>What the lemmas show.\<close> Every stateful component has a well-formedness invariant that each operation
  preserves; the safety properties (mutual exclusion of locks and turns, one run in flight
  but for those put in flight unchecked, approvals only by decision, bounded attempts, directives not lost) follow for all reachable states. Each decision
  procedure (permissions, lock requests, run admission, conflict and loop detection, rate limits) has a
  theorem that says exactly when it answers what. Some theorems state behaviour that the code's
  comments or callers do not expect; they are marked as such where they stand.

  \<^bold>\<open>Bounds.\<close> The cycle search takes fuel; the number of nodes plus one is enough
  (\<open>first_cycle_terminates\<close>). All other loops terminate by a measure and take no fuel. Integers of the
  program are unbounded, as Python's; floats are reals, so rounding, infinities and NaN are not modelled.

  \<^bold>\<open>Not modelled.\<close> HTTP routers and contracts, the command line, configuration files, the SQLite
  and Postgres repositories (SQL) but those of memories, the other nodes of the graph built on LangGraph, the code of the tools themselves,
  the assembly of prompts, the extraction of memories, evaluation scripts, and the web and mobile clients: they are input/output, SQL, or calls
  into libraries.
\<close>

end
